(* ===== verification/Prelude.thy ===== *)
theory Prelude
  imports "HOL-Library.Word" "HOL-Library.Monad_Syntax"
begin

text \<open>
  Shared vocabulary of the development: the kernel's integer types, the universal return
  constants of \<^verbatim>\<open>include/kernel.h\<close>, two's-complement wrapping of C integers that are kept as
  \<open>int\<close>, the outcome of a kernel call that may give up the processor, and generic lemmas
  on lists and updates that several components use.

  Conventions.  A C \<open>uint32\<close> whose wrap-around matters is a \<open>32 word\<close>; a C \<open>int32\<close> is an
  \<open>int\<close> and every arithmetic assignment to it goes through \<open>wrap32\<close>, which is what the
  x86 does.  A loop of the code that could run for ever is a \<open>partial_function (option)\<close>:
  the value \<open>None\<close> means the code never returns.
\<close>

type_synonym u8 = "8 word"
type_synonym u16 = "16 word"
type_synonym u32 = "32 word"
type_synonym u64 = "64 word"

abbreviation (input) OK :: int where "OK \<equiv> 1"
abbreviation (input) SYSERR :: int where "SYSERR \<equiv> - 1"
abbreviation (input) EOF :: int where "EOF \<equiv> - 2"
abbreviation (input) TIMEOUT :: int where "TIMEOUT \<equiv> - 3"

named_theorems frame "what an operation leaves unchanged"
named_theorems kinv_intro "rules that establish the kernel invariant"

subsection \<open>Integers at their width\<close>

definition wrap32 :: "int \<Rightarrow> int" where
  "wrap32 x = (x + 2147483648) mod 4294967296 - 2147483648"

definition wrap16 :: "int \<Rightarrow> int" where
  "wrap16 x = (x + 32768) mod 65536 - 32768"

lemma wrap32_id [simp]: "- 2147483648 \<le> x \<Longrightarrow> x < 2147483648 \<Longrightarrow> wrap32 x = x"
  by (simp add: wrap32_def)

lemma wrap16_id [simp]: "- 32768 \<le> x \<Longrightarrow> x < 32768 \<Longrightarrow> wrap16 x = x"
  by (simp add: wrap16_def)

lemma wrap32_range: "- 2147483648 \<le> wrap32 x \<and> wrap32 x < 2147483648"
  by (simp add: wrap32_def)

lemma wrap16_range: "- 32768 \<le> wrap16 x \<and> wrap16 x < 32768"
  by (simp add: wrap16_def)

subsection \<open>The outcome of a call that may lose the processor\<close>

text \<open>
  \<open>Ret v\<close>: the call returned \<open>v\<close> and the caller is still running.
  \<open>Switch k\<close>: the call executed \<open>ctxsw\<close> to another process; \<open>k\<close> is what remains to be
  done when the caller runs again (for most calls just the value they will return).
\<close>

datatype ('v, 'k) outcome = Ret 'v | Switch 'k

text \<open>Calls one after the other: \<open>andthen a f\<close> goes on with \<open>f\<close> unless \<open>a\<close> lost the processor.\<close>

definition give :: "'a \<Rightarrow> 's \<Rightarrow> (('a, 'k) outcome \<times> 's) option" where
  "give x w = Some (Ret x, w)"

definition andthen :: "('s \<Rightarrow> (('a, 'k) outcome \<times> 's) option) \<Rightarrow> ('a \<Rightarrow> 's \<Rightarrow> (('b, 'k) outcome \<times> 's) option) \<Rightarrow>
    's \<Rightarrow> (('b, 'k) outcome \<times> 's) option" where
  "andthen a f w =
     (case a w of
        None \<Rightarrow> None
      | Some (Ret x, w) \<Rightarrow> f x w
      | Some (Switch p, w) \<Rightarrow> Some (Switch p, w))"

lemma andthen_simps [simp]:
  "a w = None \<Longrightarrow> andthen a f w = None"
  "a w = Some (Ret x, w') \<Longrightarrow> andthen a f w = f x w'"
  "a w = Some (Switch p, w') \<Longrightarrow> andthen a f w = Some (Switch p, w')"
  by (simp_all add: andthen_def)

lemma andthen_Ret: "andthen a f w = Some (Ret r, w') \<longleftrightarrow> (\<exists>x u. a w = Some (Ret x, u) \<and> f x u = Some (Ret r, w'))"
proof (cases "a w")
  case (Some y)
  obtain o' u where y: "y = (o', u)" by (cases y)
  show ?thesis using Some y by (cases o') simp_all
qed simp

subsection \<open>Lists\<close>

definition hd_or :: "'a list \<Rightarrow> 'a \<Rightarrow> 'a" where
  "hd_or xs b = (case xs of [] \<Rightarrow> b | x # _ \<Rightarrow> x)"

lemma hd_or_simps [simp]: "hd_or [] b = b" "hd_or (x # xs) b = x"
  by (simp_all add: hd_or_def)

lemma hd_or_append: "hd_or (xs @ ys) b = hd_or xs (hd_or ys b)"
  by (cases xs) simp_all

lemma sorted_wrt_hd_ge:
  "sorted_wrt (\<lambda>x y. (f y :: 'b :: linorder) \<le> f x) (x # xs) \<Longrightarrow> y \<in> set (x # xs) \<Longrightarrow> f y \<le> f x"
  by auto

lemma remove1_append_mid: "p \<notin> set xs \<Longrightarrow> remove1 p (xs @ p # ys) = xs @ ys"
  by (simp add: remove1_append)

lemma distinct_append_mid: "distinct (xs @ p # ys) \<Longrightarrow> p \<notin> set xs \<and> p \<notin> set ys \<and> distinct (xs @ ys)"
  by auto

subsection \<open>Step relations\<close>

locale transition_system =
  fixes step :: "'s \<Rightarrow> 's \<Rightarrow> bool" and inv :: "'s \<Rightarrow> bool"
  assumes step_inv: "inv s \<Longrightarrow> step s s' \<Longrightarrow> inv s'"
begin

lemma reachable_inv: "step\<^sup>*\<^sup>* s s' \<Longrightarrow> inv s \<Longrightarrow> inv s'"
  by (induction rule: rtranclp_induct) (auto intro: step_inv)

end

end
