(* ===== verification/Queues.thy ===== *)
theory Queues
  imports Prelude
begin

text \<open>
  The table of process queues: \<^verbatim>\<open>include/queue.h\<close>, \<^verbatim>\<open>system/queue.c\<close>, \<^verbatim>\<open>getitem.c\<close>,
  \<^verbatim>\<open>newqueue.c\<close>, \<^verbatim>\<open>insert.c\<close> and \<^verbatim>\<open>insertd.c\<close>.  One array of entries holds every queue: the
  entries below \<open>NPROC\<close> are the processes, and each queue has a head entry \<open>q\<close> and a tail
  entry \<open>q + 1\<close> above them.  The links are array indexes, so an operation is a sequence
  of field updates; cells outside the array stand for the memory beside it, and the frame
  lemmas show that no operation on a well-formed queue writes them.
\<close>

abbreviation (input) NPROC :: int where "NPROC \<equiv> 100"
abbreviation (input) NSEM :: int where "NSEM \<equiv> 100"
abbreviation (input) NQENT :: int where "NQENT \<equiv> 304"  \<comment> \<open>\<open>NPROC + 4 + NSEM + NSEM\<close>\<close>
abbreviation (input) QEMPTY :: int where "QEMPTY \<equiv> - 1"
abbreviation (input) MAXKEY :: int where "MAXKEY \<equiv> 2147483647"
abbreviation (input) MINKEY :: int where "MINKEY \<equiv> - 2147483648"  \<comment> \<open>\<open>0x80000000\<close> stored in an \<open>int32\<close>\<close>

record qentry =
  qkey :: int
  qnext :: int
  qprev :: int

type_synonym qtab = "int \<Rightarrow> qentry"

definition set_qnext :: "int \<Rightarrow> int \<Rightarrow> qtab \<Rightarrow> qtab" where
  "set_qnext i v t = t(i := (t i)\<lparr>qnext := v\<rparr>)"

definition set_qprev :: "int \<Rightarrow> int \<Rightarrow> qtab \<Rightarrow> qtab" where
  "set_qprev i v t = t(i := (t i)\<lparr>qprev := v\<rparr>)"

definition set_qkey :: "int \<Rightarrow> int \<Rightarrow> qtab \<Rightarrow> qtab" where
  "set_qkey i v t = t(i := (t i)\<lparr>qkey := v\<rparr>)"

definition queuehead :: "int \<Rightarrow> int" where "queuehead q = q"
definition queuetail :: "int \<Rightarrow> int" where "queuetail q = q + 1"
definition firstid :: "qtab \<Rightarrow> int \<Rightarrow> int" where "firstid t q = qnext (t (queuehead q))"
definition lastid :: "qtab \<Rightarrow> int \<Rightarrow> int" where "lastid t q = qprev (t (queuetail q))"
definition isempty :: "qtab \<Rightarrow> int \<Rightarrow> bool" where "isempty t q \<longleftrightarrow> firstid t q \<ge> NPROC"
definition nonempty :: "qtab \<Rightarrow> int \<Rightarrow> bool" where "nonempty t q \<longleftrightarrow> firstid t q < NPROC"
definition firstkey :: "qtab \<Rightarrow> int \<Rightarrow> int" where "firstkey t q = qkey (t (firstid t q))"
definition lastkey :: "qtab \<Rightarrow> int \<Rightarrow> int" where "lastkey t q = qkey (t (lastid t q))"
definition isbadqid :: "int \<Rightarrow> bool" where "isbadqid q \<longleftrightarrow> q < 0 \<or> q \<ge> NQENT - 1"

subsection \<open>Operations\<close>

text \<open>
  The check \<open>isbadpid\<close> reads the process table, which the queue code does not own: the
  operations take it as a predicate on process ids, instantiated by the kernel state.
\<close>

definition enqueue_tab :: "(int \<Rightarrow> bool) \<Rightarrow> int \<Rightarrow> int \<Rightarrow> qtab \<Rightarrow> int \<times> qtab" where
  "enqueue_tab badpid pid q t =
     (if isbadqid q \<or> badpid pid then (SYSERR, t)
      else
        let tail = queuetail q;
            prev = qprev (t tail);
            t = set_qnext pid tail t;
            t = set_qprev pid prev t;
            t = set_qnext prev pid t;
            t = set_qprev tail pid t
        in (pid, t))"

definition getitem_tab :: "int \<Rightarrow> qtab \<Rightarrow> int \<times> qtab" where
  "getitem_tab pid t =
     (let next = qnext (t pid);
          prev = qprev (t pid);
          t = set_qnext prev next t;
          t = set_qprev next prev t
      in (pid, t))"

definition getfirst_tab :: "int \<Rightarrow> qtab \<Rightarrow> int \<times> qtab" where
  "getfirst_tab q t =
     (if isempty t q then (QEMPTY, t)
      else let head = queuehead q in getitem_tab (qnext (t head)) t)"

definition getlast_tab :: "int \<Rightarrow> qtab \<Rightarrow> int \<times> qtab" where
  "getlast_tab q t =
     (if isempty t q then (QEMPTY, t)
      else let tail = queuetail q in getitem_tab (qprev (t tail)) t)"

definition dequeue_tab :: "int \<Rightarrow> qtab \<Rightarrow> int \<times> qtab" where
  "dequeue_tab q t =
     (if isbadqid q then (SYSERR, t)
      else if isempty t q then (QEMPTY, t)
      else
        let (pid, t) = getfirst_tab q t;
            t = set_qprev pid QEMPTY t;
            t = set_qnext pid QEMPTY t
        in (pid, t))"

definition newqueue_tab :: "int \<Rightarrow> qtab \<Rightarrow> int \<times> int \<times> qtab" where
  "newqueue_tab nextqid t =
     (let q = nextqid in
      if q > NQENT then (SYSERR, nextqid, t)
      else
        let nextqid = wrap16 (nextqid + 2);
            t = set_qnext (queuehead q) (queuetail q) t;
            t = set_qprev (queuehead q) QEMPTY t;
            t = set_qkey (queuehead q) MAXKEY t;
            t = set_qnext (queuetail q) QEMPTY t;
            t = set_qprev (queuetail q) (queuehead q) t;
            t = set_qkey (queuetail q) MINKEY t
        in (q, nextqid, t))"

text \<open>The search loop of \<open>insert\<close>: it has no end-of-queue test, the tail's key stops it.\<close>

partial_function (option) insert_scan :: "qtab \<Rightarrow> int \<Rightarrow> int \<Rightarrow> int option" where
  "insert_scan t key cur =
     (if qkey (t cur) \<ge> key then insert_scan t key (qnext (t cur)) else Some cur)"

definition insert_tab :: "(int \<Rightarrow> bool) \<Rightarrow> int \<Rightarrow> int \<Rightarrow> int \<Rightarrow> qtab \<Rightarrow> (int \<times> qtab) option" where
  "insert_tab badpid pid q key t =
     (if isbadqid q \<or> badpid pid then Some (SYSERR, t)
      else do {
        cur \<leftarrow> insert_scan t key (firstid t q);
        let prev = qprev (t cur);
        let t = set_qnext pid cur t;
        let t = set_qprev pid prev t;
        let t = set_qkey pid key t;
        let t = set_qnext prev pid t;
        let t = set_qprev cur pid t;
        Some (OK, t)
      })"

text \<open>The search loop of \<open>insertd\<close> subtracts the delays it passes from the key.\<close>

partial_function (option) insertd_scan ::
    "qtab \<Rightarrow> int \<Rightarrow> int \<Rightarrow> int \<Rightarrow> int \<Rightarrow> (int \<times> int \<times> int) option" where
  "insertd_scan t q prev next key =
     (if next \<noteq> queuetail q \<and> qkey (t next) \<le> key
      then insertd_scan t q next (qnext (t next)) (wrap32 (key - qkey (t next)))
      else Some (prev, next, key))"

definition insertd_tab :: "(int \<Rightarrow> bool) \<Rightarrow> int \<Rightarrow> int \<Rightarrow> int \<Rightarrow> qtab \<Rightarrow> (int \<times> qtab) option" where
  "insertd_tab badpid pid q key t =
     (if isbadqid q \<or> badpid pid then Some (SYSERR, t)
      else do {
        (prev, next, key) \<leftarrow> insertd_scan t q (queuehead q) (qnext (t (queuehead q))) key;
        let t = set_qnext pid next t;
        let t = set_qprev pid prev t;
        let t = set_qkey pid key t;
        let t = set_qnext prev pid t;
        let t = set_qprev next pid t;
        Some (OK, if next \<noteq> queuetail q
                  then set_qkey next (wrap32 (qkey (t next) - key)) t else t)
      })"

subsection \<open>Field updates\<close>

lemma qtab_upd_simps [simp]:
  "qnext (set_qnext i v t j) = (if j = i then v else qnext (t j))"
  "qprev (set_qnext i v t j) = qprev (t j)"
  "qkey (set_qnext i v t j) = qkey (t j)"
  "qnext (set_qprev i v t j) = qnext (t j)"
  "qprev (set_qprev i v t j) = (if j = i then v else qprev (t j))"
  "qkey (set_qprev i v t j) = qkey (t j)"
  "qnext (set_qkey i v t j) = qnext (t j)"
  "qprev (set_qkey i v t j) = qprev (t j)"
  "qkey (set_qkey i v t j) = (if j = i then v else qkey (t j))"
  by (simp_all add: set_qnext_def set_qprev_def set_qkey_def)

lemma qtab_upd_other [simp]:
  "j \<noteq> i \<Longrightarrow> set_qnext i v t j = t j"
  "j \<noteq> i \<Longrightarrow> set_qprev i v t j = t j"
  "j \<noteq> i \<Longrightarrow> set_qkey i v t j = t j"
  by (simp_all add: set_qnext_def set_qprev_def set_qkey_def)

subsection \<open>Doubly linked segments\<close>

text \<open>\<open>dll t a xs b\<close>: from entry \<open>a\<close> the links lead through \<open>xs\<close> to entry \<open>b\<close> and back.\<close>

fun dll :: "qtab \<Rightarrow> int \<Rightarrow> int list \<Rightarrow> int \<Rightarrow> bool" where
  "dll t a [] b \<longleftrightarrow> qnext (t a) = b \<and> qprev (t b) = a"
| "dll t a (x # xs) b \<longleftrightarrow> qnext (t a) = x \<and> qprev (t x) = a \<and> dll t x xs b"

lemma dll_append: "dll t a (xs @ y # ys) b \<longleftrightarrow> dll t a xs y \<and> dll t y ys b"
  by (induction xs arbitrary: a) auto

lemma dll_cong:
  "(\<And>j. j \<in> insert a (set xs) \<Longrightarrow> qnext (t' j) = qnext (t j)) \<Longrightarrow>
   (\<And>j. j \<in> insert b (set xs) \<Longrightarrow> qprev (t' j) = qprev (t j)) \<Longrightarrow>
   dll t' a xs b = dll t a xs b"
  by (induction xs arbitrary: a) auto

lemma dll_head: "dll t a xs b \<Longrightarrow> qnext (t a) = hd_or xs b"
  by (cases xs) auto

lemma dll_last: "dll t a xs b \<Longrightarrow> qprev (t b) = (if xs = [] then a else last xs)"
  by (induction xs arbitrary: a) auto

lemma dll_set_qnext_other: "i \<noteq> a \<Longrightarrow> i \<notin> set xs \<Longrightarrow> dll (set_qnext i v t) a xs b = dll t a xs b"
  by (induction xs arbitrary: a) auto

lemma dll_set_qprev_other: "i \<noteq> b \<Longrightarrow> i \<notin> set xs \<Longrightarrow> dll (set_qprev i v t) a xs b = dll t a xs b"
  by (induction xs arbitrary: a) auto

lemma dll_set_qkey [simp]: "dll (set_qkey i v t) a xs b = dll t a xs b"
  by (induction xs arbitrary: a) auto

definition last_or :: "int list \<Rightarrow> int \<Rightarrow> int" where
  "last_or xs a = (if xs = [] then a else last xs)"

lemma last_or_simps [simp]: "last_or [] a = a" "last_or (xs @ [x]) a = x"
  by (simp_all add: last_or_def)

lemma dll_end: "dll t a xs b \<Longrightarrow> qnext (t (last_or xs a)) = b \<and> qprev (t b) = last_or xs a"
  by (cases xs rule: rev_cases) (auto simp: dll_append)

lemma last_or_in: "last_or xs a = a \<or> last_or xs a \<in> set xs"
  by (cases xs rule: rev_cases) auto

lemma hd_or_in: "hd_or ys b = b \<or> hd_or ys b \<in> set ys"
  by (cases ys) auto

text \<open>A split of the segment at the neighbours of an insertion or removal point.\<close>

lemma dll_split:
  "dll t a (xs @ ys) b \<longleftrightarrow> dll t a xs (hd_or ys b) \<and> dll t (last_or xs a) ys b"
  by (cases ys; cases xs rule: rev_cases) (auto simp: dll_append)

lemma dll_relink_left:
  assumes "dll t a xs n" "n \<notin> set xs" "x \<notin> set xs" "a \<notin> set xs" "distinct xs"
    and "\<And>j. j \<in> set xs \<Longrightarrow> qprev (t' j) = qprev (t j)"
    and "\<And>j. j \<in> insert a (set xs) \<Longrightarrow> j \<noteq> last_or xs a \<Longrightarrow> qnext (t' j) = qnext (t j)"
    and "qnext (t' (last_or xs a)) = x" "qprev (t' x) = last_or xs a"
  shows "dll t' a xs x"
proof (cases xs rule: rev_cases)
  case Nil
  with assms show ?thesis by simp
next
  case (snoc zs z)
  then have "dll t a zs z" using assms(1) by (simp add: dll_append)
  moreover have "qnext (t' j) = qnext (t j)" if "j \<in> insert a (set zs)" for j
    using assms(4,5,7) snoc that by auto
  moreover have "qprev (t' j) = qprev (t j)" if "j \<in> insert z (set zs)" for j
    using assms(6) snoc that by auto
  ultimately have "dll t' a zs z" using dll_cong [of a zs t' t z] by blast
  then show ?thesis using snoc assms(8,9) by (simp add: dll_append)
qed

lemma dll_relink_right:
  assumes "dll t p ys b" "p \<notin> set ys" "x \<notin> set ys" "b \<notin> set ys" "distinct ys"
    and "\<And>j. j \<in> set ys \<Longrightarrow> qnext (t' j) = qnext (t j)"
    and "\<And>j. j \<in> insert b (set ys) \<Longrightarrow> j \<noteq> hd_or ys b \<Longrightarrow> qprev (t' j) = qprev (t j)"
    and "qnext (t' x) = hd_or ys b" "qprev (t' (hd_or ys b)) = x"
  shows "dll t' x ys b"
proof (cases ys)
  case Nil
  with assms show ?thesis by simp
next
  case (Cons z zs)
  then have "dll t z zs b" using assms(1) by simp
  moreover have "qnext (t' j) = qnext (t j)" if "j \<in> insert z (set zs)" for j
    using assms(6) Cons that by auto
  moreover have "qprev (t' j) = qprev (t j)" if "j \<in> insert b (set zs)" for j
    using assms(4,5,7) Cons that by auto
  ultimately have "dll t' z zs b" using dll_cong [of z zs t' t b] by blast
  then show ?thesis using Cons assms(8,9) by simp
qed

text \<open>Linking a node between two neighbours, and unlinking one.\<close>

definition ring_ok :: "int \<Rightarrow> int list \<Rightarrow> int \<Rightarrow> bool" where
  "ring_ok a xs b \<longleftrightarrow> distinct xs \<and> a \<noteq> b \<and> a \<notin> set xs \<and> b \<notin> set xs"

lemma ring_okD:
  assumes "ring_ok a (xs @ ys) b"
  shows "last_or xs a \<notin> set ys" "hd_or ys b \<notin> set xs" "last_or xs a \<noteq> hd_or ys b"
    "last_or xs a \<noteq> b" "hd_or ys b \<noteq> a"
    "last_or xs a \<in> insert a (set xs)" "hd_or ys b \<in> insert b (set ys)"
  using assms unfolding ring_ok_def
  by (cases ys; cases xs rule: rev_cases; auto)+

lemma dll_link:
  assumes "dll t a (xs @ ys) b" and r: "ring_ok a (xs @ ys) b" "ring_ok a (xs @ x # ys) b"
    and "p = last_or xs a" "n = hd_or ys b"
    and "qnext (t' x) = n" "qprev (t' x) = p" "qnext (t' p) = x" "qprev (t' n) = x"
    and "\<And>j. j \<noteq> x \<Longrightarrow> j \<noteq> p \<Longrightarrow> qnext (t' j) = qnext (t j)"
    and "\<And>j. j \<noteq> x \<Longrightarrow> j \<noteq> n \<Longrightarrow> qprev (t' j) = qprev (t j)"
  shows "dll t' a (xs @ x # ys) b"
proof -
  note R = ring_okD [OF r(1)]
  have l: "dll t a xs n" and rr: "dll t p ys b" using assms(1,4,5) by (auto simp: dll_split)
  have x: "x \<notin> set xs" "x \<notin> set ys" "x \<noteq> a" "x \<noteq> b"
    and d: "distinct xs" "distinct ys" "a \<notin> set xs" "a \<notin> set ys" "b \<notin> set xs" "b \<notin> set ys"
    using r by (auto simp: ring_ok_def)
  have p: "p \<notin> set ys" "p \<noteq> x" "p \<noteq> b" "p = a \<or> p \<in> set xs" "p \<noteq> n"
    and n: "n \<notin> set xs" "n \<noteq> x" "n \<noteq> a" "n = b \<or> n \<in> set ys"
    using R x d assms(4,5) by auto
  have "dll t' a xs x"
  proof (rule dll_relink_left [OF l])
    show "qprev (t' j) = qprev (t j)" if "j \<in> set xs" for j
      using that x n by (intro assms(11)) auto
    show "qnext (t' j) = qnext (t j)" if "j \<in> insert a (set xs)" "j \<noteq> last_or xs a" for j
      using that x p assms(4) by (intro assms(10)) auto
  qed (use x d n assms(4-9) in auto)
  moreover have "dll t' x ys b"
  proof (rule dll_relink_right [OF rr])
    show "qnext (t' j) = qnext (t j)" if "j \<in> set ys" for j
      using that x p by (intro assms(10)) auto
    show "qprev (t' j) = qprev (t j)" if "j \<in> insert b (set ys)" "j \<noteq> hd_or ys b" for j
      using that x n assms(5) by (intro assms(11)) auto
  qed (use x d p assms(4-9) in auto)
  ultimately show ?thesis by (simp add: dll_append)
qed

lemma dll_unlink:
  assumes "dll t a (xs @ x # ys) b" and r: "ring_ok a (xs @ x # ys) b"
    and p: "p = qprev (t x)" and n: "n = qnext (t x)"
  shows "dll (set_qprev n p (set_qnext p n t)) a (xs @ ys) b"
proof -
  let ?t = "set_qprev n p (set_qnext p n t)"
  have l: "dll t a xs x" and rr: "dll t x ys b" using assms(1) by (auto simp: dll_append)
  have P: "p = last_or xs a" and N: "n = hd_or ys b"
    using dll_end [OF l] dll_head [OF rr] p n by auto
  have r': "ring_ok a (xs @ ys) b" using r by (auto simp: ring_ok_def)
  note R = ring_okD [OF r']
  have d: "distinct xs" "distinct ys" "a \<notin> set xs" "b \<notin> set ys" "x \<notin> set xs" "x \<notin> set ys"
    using r by (auto simp: ring_ok_def)
  have "dll ?t a xs n"
    by (rule dll_relink_left [OF l]) (use P N R d in auto)
  moreover have "dll ?t p ys b"
    by (rule dll_relink_right [OF rr]) (use P N R d in auto)
  ultimately show ?thesis by (simp add: dll_split P N)
qed

subsection \<open>Queues as lists of process ids\<close>

definition qlist :: "qtab \<Rightarrow> int \<Rightarrow> int list \<Rightarrow> bool" where
  "qlist t q xs \<longleftrightarrow> dll t q xs (q + 1) \<and> distinct xs \<and> set xs \<subseteq> {0..<NPROC} \<and> NPROC \<le> q"

fun qwalk :: "nat \<Rightarrow> qtab \<Rightarrow> int \<Rightarrow> int \<Rightarrow> int list" where
  "qwalk 0 t stop c = []"
| "qwalk (Suc n) t stop c = (if c = stop then [] else c # qwalk n t stop (qnext (t c)))"

text \<open>The abstraction: the processes met from the head to the tail, at most \<open>NPROC\<close> of them.\<close>

definition qcontents :: "qtab \<Rightarrow> int \<Rightarrow> int list" where
  "qcontents t q = qwalk 100 t (q + 1) (qnext (t q))"

definition same_off :: "int set \<Rightarrow> qtab \<Rightarrow> qtab \<Rightarrow> bool" where
  "same_off S t t' \<longleftrightarrow> (\<forall>j. j \<notin> S \<longrightarrow> t' j = t j)"

lemma same_offD: "same_off S t t' \<Longrightarrow> j \<notin> S \<Longrightarrow> t' j = t j"
  by (simp add: same_off_def)

lemma same_off_trans: "same_off S t t' \<Longrightarrow> same_off S' t' t'' \<Longrightarrow> same_off (S \<union> S') t t''"
  by (simp add: same_off_def)

lemma same_off_mono: "same_off S t t' \<Longrightarrow> S \<subseteq> S' \<Longrightarrow> same_off S' t t'"
  by (auto simp: same_off_def)

lemma qlist_ring: "qlist t q xs \<Longrightarrow> ring_ok q xs (q + 1)"
  by (auto simp: qlist_def ring_ok_def)

lemma qlist_dll: "qlist t q xs \<Longrightarrow> dll t q xs (q + 1)"
  by (simp add: qlist_def)

lemma qlist_pid: "qlist t q xs \<Longrightarrow> x \<in> set xs \<Longrightarrow> 0 \<le> x \<and> x < NPROC"
  by (auto simp: qlist_def)

lemma qlist_firstid: "qlist t q xs \<Longrightarrow> firstid t q = hd_or xs (q + 1)"
  by (simp add: qlist_def firstid_def queuehead_def dll_head)

lemma qlist_isempty [simp]: "qlist t q xs \<Longrightarrow> isempty t q \<longleftrightarrow> xs = []"
  by (cases xs) (auto simp: isempty_def qlist_def firstid_def queuehead_def)

lemma qlist_nonempty [simp]: "qlist t q xs \<Longrightarrow> nonempty t q \<longleftrightarrow> xs \<noteq> []"
  by (cases xs) (auto simp: nonempty_def qlist_def firstid_def queuehead_def)

lemma qlist_frame:
  assumes "qlist t q xs" "same_off S t t'" "q \<notin> S" "q + 1 \<notin> S" "set xs \<inter> S = {}"
  shows "qlist t' q xs"
proof -
  have "t' j = t j" if "j \<in> {q, q + 1} \<union> set xs" for j
    using assms(2-5) that by (auto intro: same_offD)
  then have "dll t' q xs (q + 1) = dll t q xs (q + 1)"
    by (intro dll_cong) auto
  with assms(1) show ?thesis by (simp add: qlist_def)
qed

lemma qwalk_dll:
  "dll t a xs b \<Longrightarrow> b \<notin> set xs \<Longrightarrow> length xs < n \<Longrightarrow> qwalk n t b (qnext (t a)) = xs"
proof (induction xs arbitrary: a n)
  case Nil
  then show ?case by (cases n) auto
next
  case (Cons x xs)
  then show ?case by (cases n) auto
qed

lemma qwalk_dll_le:
  "dll t a xs b \<Longrightarrow> b \<notin> set xs \<Longrightarrow> length xs \<le> n \<Longrightarrow> qwalk n t b (qnext (t a)) = xs"
proof (induction xs arbitrary: a n)
  case Nil
  then show ?case by (cases n) auto
next
  case (Cons x xs)
  then show ?case by (cases n) auto
qed

lemma qlist_length:
  assumes "qlist t q xs"
  shows "length xs \<le> 100"
proof -
  have "card (set xs) \<le> card {0..<NPROC}"
    using assms by (intro card_mono) (auto simp: qlist_def)
  with assms show ?thesis by (simp add: qlist_def distinct_card)
qed

lemma qcontents_qlist: "qlist t q xs \<Longrightarrow> qcontents t q = xs"
  using qlist_length [of t q xs] qwalk_dll_le [of t q xs "q + 1" 100] qlist_ring [of t q xs]
  by (auto simp: qcontents_def qlist_def ring_ok_def)

lemma qlist_unique: "qlist t q xs \<Longrightarrow> qlist t q ys \<Longrightarrow> xs = ys"
  using qcontents_qlist by metis

subsection \<open>What the operations do to a queue\<close>

lemma getitem_qlist:
  assumes "qlist t q (xs @ p # ys)"
  shows "fst (getitem_tab p t) = p" "qlist (snd (getitem_tab p t)) q (xs @ ys)"
    "same_off ({q, q + 1} \<union> set xs \<union> set ys) t (snd (getitem_tab p t))"
    "qkey (snd (getitem_tab p t) j) = qkey (t j)"
proof -
  show "fst (getitem_tab p t) = p" by (simp add: getitem_tab_def Let_def)
  show "qlist (snd (getitem_tab p t)) q (xs @ ys)"
    using assms dll_unlink [OF qlist_dll [OF assms] qlist_ring [OF assms]]
    by (auto simp: getitem_tab_def Let_def qlist_def)
  have "dll t q xs p" "dll t p ys (q + 1)" using assms by (auto simp: qlist_def dll_append)
  then have "qprev (t p) \<in> insert q (set xs)" "qnext (t p) \<in> insert (q + 1) (set ys)"
    using last_or_in [of xs q] hd_or_in [of ys "q + 1"] by (auto dest: dll_end dll_head)
  then show "same_off ({q, q + 1} \<union> set xs \<union> set ys) t (snd (getitem_tab p t))"
    by (auto simp: getitem_tab_def Let_def same_off_def set_qnext_def set_qprev_def)
  show "qkey (snd (getitem_tab p t) j) = qkey (t j)"
    by (simp add: getitem_tab_def Let_def)
qed

lemma getfirst_qlist:
  assumes "qlist t q (p # ys)"
  shows "fst (getfirst_tab q t) = p" "qlist (snd (getfirst_tab q t)) q ys"
    "same_off ({q, q + 1} \<union> set ys) t (snd (getfirst_tab q t))"
    "qkey (snd (getfirst_tab q t) j) = qkey (t j)"
proof -
  have "\<not> isempty t q" using assms by simp
  then have "getfirst_tab q t = getitem_tab p t"
    using assms by (simp add: getfirst_tab_def queuehead_def Let_def qlist_def)
  then show "fst (getfirst_tab q t) = p" "qlist (snd (getfirst_tab q t)) q ys"
    "same_off ({q, q + 1} \<union> set ys) t (snd (getfirst_tab q t))"
    "qkey (snd (getfirst_tab q t) j) = qkey (t j)"
    using getitem_qlist [of t q "[]" p ys] assms by simp_all
qed

lemma getfirst_empty: "qlist t q [] \<Longrightarrow> getfirst_tab q t = (QEMPTY, t)"
  by (simp add: getfirst_tab_def)

lemma getlast_qlist:
  assumes "qlist t q (xs @ [p])"
  shows "fst (getlast_tab q t) = p" "qlist (snd (getlast_tab q t)) q xs"
proof -
  have "qprev (t (q + 1)) = p" using qlist_dll [OF assms] by (simp add: dll_append)
  then have "getlast_tab q t = getitem_tab p t"
    using assms by (simp add: getlast_tab_def queuetail_def Let_def)
  then show "fst (getlast_tab q t) = p" "qlist (snd (getlast_tab q t)) q xs"
    using getitem_qlist [of t q xs p "[]"] assms by simp_all
qed

lemma dequeue_qlist:
  assumes "qlist t q (p # ys)" "q < NQENT - 1"
  shows "fst (dequeue_tab q t) = p" "qlist (snd (dequeue_tab q t)) q ys"
    "same_off ({p, q, q + 1} \<union> set ys) t (snd (dequeue_tab q t))"
    "qkey (snd (dequeue_tab q t) j) = qkey (t j)"
proof -
  let ?t = "snd (getfirst_tab q t)"
  have e: "dequeue_tab q t = (p, set_qnext p QEMPTY (set_qprev p QEMPTY ?t))"
    using getfirst_qlist(1) [OF assms(1)] assms qlist_isempty [OF assms(1)]
    by (auto simp: dequeue_tab_def isbadqid_def qlist_def split: prod.split)
  have "same_off {p} ?t (set_qnext p QEMPTY (set_qprev p QEMPTY ?t))"
    by (simp add: same_off_def)
  moreover have "p \<notin> {q, q + 1} \<union> set ys" using assms by (auto simp: qlist_def)
  ultimately show "qlist (snd (dequeue_tab q t)) q ys"
    using qlist_frame [OF getfirst_qlist(2) [OF assms(1)], of "{p}"] e by auto
  show "fst (dequeue_tab q t) = p" by (simp add: e)
  show "qkey (snd (dequeue_tab q t) j) = qkey (t j)"
    using getfirst_qlist(4) [OF assms(1)] by (simp add: e)
  show "same_off ({p, q, q + 1} \<union> set ys) t (snd (dequeue_tab q t))"
    using same_off_trans [OF getfirst_qlist(3) [OF assms(1)] \<open>same_off {p} ?t _\<close>]
    by (auto simp: e insert_commute)
qed

lemma dequeue_empty: "qlist t q [] \<Longrightarrow> q < NQENT - 1 \<Longrightarrow> dequeue_tab q t = (QEMPTY, t)"
  by (auto simp: dequeue_tab_def isbadqid_def qlist_def isempty_def firstid_def queuehead_def)

lemma qlist_insert_node:
  assumes q: "qlist t q (xs @ ys)" and p: "0 \<le> p" "p < NPROC" "p \<notin> set (xs @ ys)"
    and t': "\<And>j. qnext (t' j) = qnext ((set_qnext (last_or xs q) p (set_qnext p (hd_or ys (q + 1)) t)) j)"
      "\<And>j. qprev (t' j) = qprev ((set_qprev (hd_or ys (q + 1)) p (set_qprev p (last_or xs q) t)) j)"
  shows "qlist t' q (xs @ p # ys)"
proof -
  have r: "ring_ok q (xs @ p # ys) (q + 1)" and r0: "ring_ok q (xs @ ys) (q + 1)"
    using q p by (auto simp: qlist_def ring_ok_def)
  have x: "last_or xs q \<noteq> p" "hd_or ys (q + 1) \<noteq> p"
    using q p last_or_in [of xs q] hd_or_in [of ys "q + 1"] by (auto simp: qlist_def)
  have "dll t' q (xs @ p # ys) (q + 1)"
    by (rule dll_link [OF qlist_dll [OF q] r0 r refl refl]) (use x in \<open>auto simp: t'\<close>)
  with q p show ?thesis by (auto simp: qlist_def)
qed

lemma enqueue_qlist:
  assumes "qlist t q xs" "q < NQENT - 1" "\<not> bad p" "0 \<le> p" "p < NPROC" "p \<notin> set xs"
  shows "fst (enqueue_tab bad p q t) = p" "qlist (snd (enqueue_tab bad p q t)) q (xs @ [p])"
    "same_off ({p, q, q + 1} \<union> set xs) t (snd (enqueue_tab bad p q t))"
    "qkey (snd (enqueue_tab bad p q t) j) = qkey (t j)"
proof -
  let ?t = "set_qprev (q + 1) p (set_qnext (last_or xs q) p (set_qprev p (last_or xs q) (set_qnext p (q + 1) t)))"
  have "qprev (t (q + 1)) = last_or xs q" using dll_end [OF qlist_dll [OF assms(1)]] by simp
  then have e: "enqueue_tab bad p q t = (p, ?t)"
    using assms by (auto simp: enqueue_tab_def isbadqid_def queuetail_def Let_def qlist_def)
  have "qlist ?t q (xs @ p # [])"
    by (rule qlist_insert_node [of t]) (use assms in auto)
  then show "qlist (snd (enqueue_tab bad p q t)) q (xs @ [p])" by (simp add: e)
  show "fst (enqueue_tab bad p q t) = p" "qkey (snd (enqueue_tab bad p q t) j) = qkey (t j)"
    by (simp_all add: e)
  show "same_off ({p, q, q + 1} \<union> set xs) t (snd (enqueue_tab bad p q t))"
    using last_or_in [of xs q] by (auto simp: e same_off_def set_qnext_def set_qprev_def)
qed

subsection \<open>Ordered insertion\<close>

definition keys_desc :: "qtab \<Rightarrow> int list \<Rightarrow> bool" where
  "keys_desc t xs \<longleftrightarrow> sorted_wrt (\<lambda>x y. qkey (t y) \<le> qkey (t x)) xs"

definition ins_before :: "qtab \<Rightarrow> int \<Rightarrow> int list \<Rightarrow> int list" where
  "ins_before t key xs = takeWhile (\<lambda>x. key \<le> qkey (t x)) xs"

definition ins_after :: "qtab \<Rightarrow> int \<Rightarrow> int list \<Rightarrow> int list" where
  "ins_after t key xs = dropWhile (\<lambda>x. key \<le> qkey (t x)) xs"

lemma ins_split [simp]: "ins_before t key xs @ ins_after t key xs = xs"
  by (simp add: ins_before_def ins_after_def)

lemma insert_scan_dll:
  "dll t a xs b \<Longrightarrow> qkey (t b) < key \<Longrightarrow>
   insert_scan t key (hd_or xs b) = Some (hd_or (ins_after t key xs) b)"
proof (induction xs arbitrary: a)
  case Nil
  then show ?case by (subst insert_scan.simps) (simp add: ins_after_def)
next
  case (Cons x xs)
  then have "insert_scan t key (hd_or xs b) = Some (hd_or (ins_after t key xs) b)" by auto
  moreover have "qnext (t x) = hd_or xs b" using Cons.prems by (auto dest: dll_head)
  ultimately show ?case by (subst insert_scan.simps) (simp add: ins_after_def)
qed

lemma insert_qlist:
  assumes "qlist t q xs" "q < NQENT - 1" "\<not> bad p" "0 \<le> p" "p < NPROC" "p \<notin> set xs"
    and "qkey (t (q + 1)) < key"
  obtains t' where "insert_tab bad p q key t = Some (OK, t')"
    "qlist t' q (ins_before t key xs @ p # ins_after t key xs)"
    "same_off ({p, q, q + 1} \<union> set xs) t t'"
    "\<And>j. qkey (t' j) = (if j = p then key else qkey (t j))"
proof -
  let ?us = "ins_before t key xs" and ?vs = "ins_after t key xs"
  let ?n = "hd_or ?vs (q + 1)"
  let ?t = "set_qprev ?n p (set_qnext (last_or ?us q) p (set_qkey p key
             (set_qprev p (last_or ?us q) (set_qnext p ?n t))))"
  have sub: "set ?us \<subseteq> set xs" "set ?vs \<subseteq> set xs"
    by (auto simp: ins_before_def ins_after_def dest: set_takeWhileD set_dropWhileD)
  have q': "qlist t q (?us @ ?vs)" using assms(1) by simp
  then have "dll t q ?us ?n" by (simp only: qlist_def dll_split)
  then have "qprev (t ?n) = last_or ?us q" using dll_end by blast
  then have e: "insert_tab bad p q key t = Some (OK, ?t)"
    using assms insert_scan_dll [OF qlist_dll [OF assms(1)] assms(7)] qlist_firstid [OF assms(1)]
    by (auto simp: insert_tab_def isbadqid_def qlist_def Let_def)
  moreover have "qlist ?t q (?us @ p # ?vs)"
    by (rule qlist_insert_node [OF q']) (use assms in auto)
  moreover have "same_off ({p, q, q + 1} \<union> set xs) t ?t"
    using last_or_in [of ?us q] hd_or_in [of ?vs "q + 1"] sub
    by (auto simp: same_off_def set_qnext_def set_qprev_def set_qkey_def)
  ultimately show thesis by (intro that [of ?t]) auto
qed

lemma insert_keeps_desc:
  assumes "keys_desc t xs" "p \<notin> set xs"
    and "\<And>j. qkey (t' j) = (if j = p then key else qkey (t j))"
  shows "keys_desc t' (ins_before t key xs @ p # ins_after t key xs)"
proof -
  have "keys_desc t (ins_before t key xs @ ins_after t key xs)" using assms(1) by simp
  moreover have "key \<le> qkey (t x)" if "x \<in> set (ins_before t key xs)" for x
    using that by (auto simp: ins_before_def dest: set_takeWhileD)
  moreover have "qkey (t x) \<le> key" if x: "x \<in> set (ins_after t key xs)" for x
  proof -
    obtain y ys where y: "ins_after t key xs = y # ys"
      using \<open>x \<in> set (ins_after t key xs)\<close> by (cases "ins_after t key xs") auto
    then have "\<not> key \<le> qkey (t y)"
      using hd_dropWhile [of "\<lambda>x. key \<le> qkey (t x)" xs] by (simp add: ins_after_def)
    have "keys_desc t (y # ys)"
      using calculation y by (simp add: keys_desc_def sorted_wrt_append)
    with y \<open>\<not> key \<le> qkey (t y)\<close> \<open>x \<in> set (ins_after t key xs)\<close> show ?thesis by (auto simp: keys_desc_def)
  qed
  moreover have "p \<notin> set (ins_before t key xs)" "p \<notin> set (ins_after t key xs)"
    using assms(2) by (auto simp: ins_before_def ins_after_def dest: set_takeWhileD set_dropWhileD)
  moreover have "keys_desc t' ys = keys_desc t ys" if "p \<notin> set ys" for ys
    using that by (induction ys) (auto simp: keys_desc_def assms(3))
  ultimately have "keys_desc t' (ins_before t key xs)" "keys_desc t' (ins_after t key xs)"
    "\<forall>x \<in> set (ins_before t key xs). key \<le> qkey (t' x)"
    "\<forall>x \<in> set (ins_after t key xs). qkey (t' x) \<le> key" "qkey (t' p) = key"
    by (auto simp: keys_desc_def sorted_wrt_append assms(3) simp del: ins_split)
  then show ?thesis
    by (fastforce simp: keys_desc_def sorted_wrt_append)
qed

subsection \<open>The delta list of sleeping processes\<close>

text \<open>
  In the sleep queue a key is the delay after the previous entry.  \<open>wake_times\<close> gives the
  meaning: each process with the time, from now, at which it wakes.
\<close>

fun wake_times :: "qtab \<Rightarrow> int \<Rightarrow> int list \<Rightarrow> (int \<times> int) list" where
  "wake_times t base [] = []"
| "wake_times t base (x # xs) = (x, base + qkey (t x)) # wake_times t (base + qkey (t x)) xs"

fun delta_split :: "qtab \<Rightarrow> int \<Rightarrow> int list \<Rightarrow> int list \<times> int list \<times> int" where
  "delta_split t key [] = ([], [], key)"
| "delta_split t key (x # xs) =
     (if qkey (t x) \<le> key
      then (case delta_split t (key - qkey (t x)) xs of (us, vs, k) \<Rightarrow> (x # us, vs, k))
      else ([], x # xs, key))"

definition keys_nonneg :: "qtab \<Rightarrow> int list \<Rightarrow> bool" where
  "keys_nonneg t xs \<longleftrightarrow> (\<forall>x \<in> set xs. 0 \<le> qkey (t x) \<and> qkey (t x) \<le> MAXKEY)"

lemma wake_times_cong:
  "(\<And>x. x \<in> set xs \<Longrightarrow> qkey (t' x) = qkey (t x)) \<Longrightarrow> wake_times t' b xs = wake_times t b xs"
  by (induction xs arbitrary: b) auto

lemma map_fst_wake_times: "map fst (wake_times t b xs) = xs"
  by (induction xs arbitrary: b) auto

lemma delta_split_append: "delta_split t key xs = (us, vs, k) \<Longrightarrow> xs = us @ vs"
  by (induction xs arbitrary: key us) (auto split: if_splits prod.splits)

lemma delta_split_rest:
  "delta_split t key xs = (us, vs, k) \<Longrightarrow> 0 \<le> key \<Longrightarrow> keys_nonneg t xs \<Longrightarrow>
   0 \<le> k \<and> k \<le> key \<and> (\<forall>y ys. vs = y # ys \<longrightarrow> k < qkey (t y))"
  by (induction xs arbitrary: key us) (fastforce simp: keys_nonneg_def split: if_splits prod.splits)+

lemma delta_split_wake:
  "delta_split t key xs = (us, vs, k) \<Longrightarrow>
   takeWhile (\<lambda>(x, w). w \<le> b + key) (wake_times t b xs) = wake_times t b us \<and>
   dropWhile (\<lambda>(x, w). w \<le> b + key) (wake_times t b xs) = wake_times t (b + key - k) vs"
proof (induction xs arbitrary: key us b)
  case Nil
  then show ?case by simp
next
  case (Cons x xs)
  show ?case
  proof (cases "qkey (t x) \<le> key")
    case True
    then obtain us' where us': "delta_split t (key - qkey (t x)) xs = (us', vs, k)" "us = x # us'"
      using Cons.prems by (auto split: prod.splits)
    from Cons.IH [OF us'(1), of "b + qkey (t x)"] True us'(2) show ?thesis by simp
  next
    case False
    with Cons.prems show ?thesis by auto
  qed
qed

lemma wake_times_append:
  "wake_times t b (us @ zs) =
   wake_times t b us @ wake_times t (b + (\<Sum>x\<leftarrow>us. qkey (t x))) zs"
  by (induction us arbitrary: b) (auto simp: add.assoc)

lemma delta_split_sum: "delta_split t key xs = (us, vs, k) \<Longrightarrow> (\<Sum>x\<leftarrow>us. qkey (t x)) = key - k"
  by (induction xs arbitrary: key us) (auto split: if_splits prod.splits)

lemma insertd_scan_dll:
  "dll t a xs (q + 1) \<Longrightarrow> q + 1 \<notin> set xs \<Longrightarrow> keys_nonneg t xs \<Longrightarrow> 0 \<le> key \<Longrightarrow> key \<le> MAXKEY \<Longrightarrow>
   delta_split t key xs = (us, vs, k) \<Longrightarrow>
   insertd_scan t q a (hd_or xs (q + 1)) key = Some (last_or us a, hd_or vs (q + 1), k)"
proof (induction xs arbitrary: a key us)
  case Nil
  then show ?case by (subst insertd_scan.simps) (simp add: queuetail_def)
next
  case (Cons x xs)
  have nx: "qnext (t x) = hd_or xs (q + 1)" using Cons.prems by (auto dest: dll_head)
  show ?case
  proof (cases "qkey (t x) \<le> key")
    case True
    then obtain us' where us': "delta_split t (key - qkey (t x)) xs = (us', vs, k)" "us = x # us'"
      using Cons.prems by (auto split: prod.splits)
    have w: "wrap32 (key - qkey (t x)) = key - qkey (t x)"
      using True Cons.prems by (intro wrap32_id) (auto simp: keys_nonneg_def)
    have "insertd_scan t q x (hd_or xs (q + 1)) (key - qkey (t x)) =
          Some (last_or us' x, hd_or vs (q + 1), k)"
      using Cons.prems us' True by (intro Cons.IH) (auto simp: keys_nonneg_def)
    with True Cons.prems nx us' w show ?thesis
      by (subst insertd_scan.simps) (auto simp: queuetail_def last_or_def)
  next
    case False
    with Cons.prems show ?thesis by (subst insertd_scan.simps) auto
  qed
qed

lemma insertd_qlist:
  assumes q: "qlist t q xs" and "q < NQENT - 1" "\<not> bad p" "0 \<le> p" "p < NPROC" "p \<notin> set xs"
    and k: "keys_nonneg t xs" "0 \<le> key" "key \<le> MAXKEY"
  obtains t' us vs k where "insertd_tab bad p q key t = Some (OK, t')"
    "delta_split t key xs = (us, vs, k)" "qlist t' q (us @ p # vs)"
    "same_off ({p, q, q + 1} \<union> set xs) t t'"
    "\<And>j. qkey (t' j) = (if j = p then k else if vs \<noteq> [] \<and> j = hd vs then qkey (t j) - k else qkey (t j))"
proof -
  obtain us vs k where d: "delta_split t key xs = (us, vs, k)" by (cases "delta_split t key xs")
  have xs: "xs = us @ vs" using d by (rule delta_split_append)
  have kr: "0 \<le> k" "k \<le> key" "\<And>y ys. vs = y # ys \<Longrightarrow> k < qkey (t y)"
    using delta_split_rest [OF d k(2,1)] by auto
  let ?n = "hd_or vs (q + 1)" and ?p = "last_or us q"
  let ?t0 = "set_qprev ?n p (set_qnext ?p p (set_qkey p k (set_qprev p ?p (set_qnext p ?n t))))"
  let ?t = "if ?n \<noteq> q + 1 then set_qkey ?n (wrap32 (qkey (?t0 ?n) - k)) ?t0 else ?t0"
  have "insertd_scan t q q (hd_or xs (q + 1)) key = Some (?p, ?n, k)"
    using q k d by (intro insertd_scan_dll) (auto simp: qlist_def)
  then have e: "insertd_tab bad p q key t = Some (OK, ?t)"
    using assms dll_head [OF qlist_dll [OF q]]
    by (auto simp: insertd_tab_def isbadqid_def qlist_def queuehead_def queuetail_def Let_def)
  have nb: "?n = q + 1 \<longleftrightarrow> vs = []" "?n \<noteq> p"
    using q xs assms(5,6) by (cases vs; auto simp: qlist_def)+
  have "qlist ?t q (us @ p # vs)"
    by (rule qlist_insert_node [of t]) (use assms xs in auto)
  moreover have "same_off ({p, q, q + 1} \<union> set xs) t ?t"
    using last_or_in [of us q] hd_or_in [of vs "q + 1"] xs
    by (auto simp: same_off_def set_qnext_def set_qprev_def set_qkey_def)
  moreover have "qkey (?t j) = (if j = p then k
      else if vs \<noteq> [] \<and> j = hd vs then qkey (t j) - k else qkey (t j))" for j
  proof (cases vs)
    case Nil
    then show ?thesis by simp
  next
    case (Cons y ys)
    have "wrap32 (qkey (t y) - k) = qkey (t y) - k"
      using kr(1,3) Cons xs k by (intro wrap32_id) (auto simp: keys_nonneg_def)
    then show ?thesis using Cons nb by auto
  qed
  ultimately show thesis using e d by (intro that [of ?t us vs k]) auto
qed

text \<open>
  The meaning of \<open>insertd\<close>: the new process wakes after exactly the requested delay, after
  every process that wakes no later, and nobody else's wake time moves.
\<close>

lemma insertd_wake_times:
  assumes d: "delta_split t key xs = (us, vs, k)" and p: "p \<notin> set xs" and dist: "distinct xs"
    and t': "\<And>j. qkey (t' j) =
      (if j = p then k else if vs \<noteq> [] \<and> j = hd vs then qkey (t j) - k else qkey (t j))"
  shows "wake_times t' b (us @ p # vs) =
     takeWhile (\<lambda>(x, w). w \<le> b + key) (wake_times t b xs) @ (p, b + key) #
     dropWhile (\<lambda>(x, w). w \<le> b + key) (wake_times t b xs)"
proof -
  have xs: "xs = us @ vs" using d by (rule delta_split_append)
  have u: "qkey (t' x) = qkey (t x)" if "x \<in> set us" for x
    using that p dist xs by (auto simp: t' dest: hd_in_set)
  have us: "wake_times t' c us = wake_times t c us" for c
    using u by (rule wake_times_cong)
  have "map (\<lambda>x. qkey (t' x)) us = map (\<lambda>x. qkey (t x)) us" using u by simp
  have "(\<Sum>x\<leftarrow>us. qkey (t' x)) = key - k"
    unfolding \<open>map _ us = _\<close> by (rule delta_split_sum [OF d])
  then have *: "wake_times t' b (us @ p # vs) =
      wake_times t b us @ (p, b + key) # wake_times t' (b + key) vs"
    using us by (simp add: wake_times_append t')
  have "wake_times t' (b + key) vs = wake_times t (b + key - k) vs"
  proof (cases vs)
    case Nil
    then show ?thesis by simp
  next
    case (Cons y ys)
    then have "wake_times t' c ys = wake_times t c ys" for c
      using p dist xs by (intro wake_times_cong) (auto simp: t')
    then show ?thesis using Cons p xs by (auto simp: t' algebra_simps)
  qed
  then show ?thesis using * delta_split_wake [OF d, of b] by simp
qed

subsection \<open>A fresh queue\<close>

lemma newqueue_qlist:
  assumes "NPROC \<le> q" "q < NQENT"
  obtains t' where "newqueue_tab q t = (q, q + 2, t')" "qlist t' q []" "same_off {q, q + 1} t t'"
    "qkey (t' (q + 1)) = MINKEY" "qkey (t' q) = MAXKEY"
proof -
  let ?t = "set_qkey (q + 1) MINKEY (set_qprev (q + 1) q (set_qnext (q + 1) QEMPTY
     (set_qkey q MAXKEY (set_qprev q QEMPTY (set_qnext q (q + 1) t)))))"
  have "newqueue_tab q t = (q, q + 2, ?t)"
    using assms by (simp add: newqueue_tab_def queuehead_def queuetail_def Let_def)
  moreover have "qlist ?t q []" using assms by (simp add: qlist_def)
  moreover have "same_off {q, q + 1} t ?t" by (simp add: same_off_def)
  ultimately show thesis by (intro that [of ?t]) auto
qed

subsection \<open>All queues of the table together\<close>

text \<open>\<open>Q\<close> is the set of queues in use: each is well linked, and no process is in two of them.\<close>

definition qsys :: "qtab \<Rightarrow> int set \<Rightarrow> bool" where
  "qsys t Q \<longleftrightarrow> Q \<subseteq> {NPROC..<NQENT - 1} \<and> (\<forall>q \<in> Q. q + 1 \<notin> Q) \<and>
     (\<forall>q \<in> Q. qlist t q (qcontents t q)) \<and>
     (\<forall>q \<in> Q. \<forall>q' \<in> Q. q \<noteq> q' \<longrightarrow> set (qcontents t q) \<inter> set (qcontents t q') = {})"

lemma qsys_qlist: "qsys t Q \<Longrightarrow> q \<in> Q \<Longrightarrow> qlist t q (qcontents t q)"
  by (simp add: qsys_def)

lemma qsys_range: "qsys t Q \<Longrightarrow> q \<in> Q \<Longrightarrow> NPROC \<le> q \<and> q < NQENT - 1"
  by (auto simp: qsys_def)

lemma qsys_disjoint: "qsys t Q \<Longrightarrow> q \<in> Q \<Longrightarrow> q' \<in> Q \<Longrightarrow> p \<in> set (qcontents t q) \<Longrightarrow>
    p \<in> set (qcontents t q') \<Longrightarrow> q = q'"
  unfolding qsys_def by blast

lemma qsys_update:
  assumes s: "qsys t Q" and q: "q \<in> Q" and l: "qlist t' q zs"
    and f: "same_off ({q, q + 1} \<union> S) t t'" "S \<subseteq> {0..<NPROC}"
    and S: "\<And>q'. q' \<in> Q \<Longrightarrow> q' \<noteq> q \<Longrightarrow> (S \<union> set zs) \<inter> set (qcontents t q') = {}"
  shows "qsys t' Q" "qcontents t' q = zs" "q' \<in> Q \<Longrightarrow> q' \<noteq> q \<Longrightarrow> qcontents t' q' = qcontents t q'"
proof -
  show zs: "qcontents t' q = zs" using l by (rule qcontents_qlist)
  have o: "qlist t' q' (qcontents t q')" if "q' \<in> Q" "q' \<noteq> q" for q'
  proof (rule qlist_frame [OF qsys_qlist [OF s that(1)] f(1)])
    have r: "q' + 1 \<noteq> q" "q + 1 \<noteq> q'" "NPROC \<le> q'" "NPROC \<le> q"
      using s q that(1) by (auto simp: qsys_def)
    then show "q' \<notin> {q, q + 1} \<union> S" "q' + 1 \<notin> {q, q + 1} \<union> S"
      using f(2) that(2) by auto
    show "set (qcontents t q') \<inter> ({q, q + 1} \<union> S) = {}"
      using S [OF that] qlist_pid [OF qsys_qlist [OF s that(1)]] r by fastforce
  qed
  then have eq: "qcontents t' q' = qcontents t q'" if "q' \<in> Q" "q' \<noteq> q" for q'
    using that qcontents_qlist by blast
  then show "q' \<in> Q \<Longrightarrow> q' \<noteq> q \<Longrightarrow> qcontents t' q' = qcontents t q'" .
  have "qlist t' q' (qcontents t' q')" if "q' \<in> Q" for q'
    using that o l eq zs by (cases "q' = q") auto
  moreover have "set (qcontents t' a) \<inter> set (qcontents t' b) = {}"
    if "a \<in> Q" "b \<in> Q" "a \<noteq> b" for a b
  proof -
    consider "a = q" | "b = q" | "a \<noteq> q" "b \<noteq> q" by blast
    then show ?thesis
    proof cases
      case 1
      then show ?thesis using that S [of b] zs eq [of b] by auto
    next
      case 2
      then show ?thesis using that S [of a] zs eq [of a] by auto
    next
      case 3
      then show ?thesis using that eq s by (simp add: qsys_def)
    qed
  qed
  ultimately show "qsys t' Q" using s by (simp add: qsys_def)
qed

lemma insertion_qsys:
  assumes s: "qsys t Q" "q \<in> Q" and l: "qcontents t q = xs @ ys"
    and p: "0 \<le> p" "p < NPROC" "\<And>q'. q' \<in> Q \<Longrightarrow> p \<notin> set (qcontents t q')"
    and t': "qlist t' q (xs @ p # ys)" "same_off ({p, q, q + 1} \<union> set (xs @ ys)) t t'"
  shows "qsys t' Q" "q' \<in> Q \<Longrightarrow> qcontents t' q' = (if q' = q then xs @ p # ys else qcontents t q')"
proof -
  have S: "(insert p (set xs \<union> set ys) \<union> set (xs @ p # ys)) \<inter> set (qcontents t q') = {}"
    if "q' \<in> Q" "q' \<noteq> q" for q'
    using that qsys_disjoint [OF s that(1)] l p(3) [OF that(1)] by auto
  have sub: "insert p (set xs \<union> set ys) \<subseteq> {0..<NPROC}"
    using qlist_pid [OF qsys_qlist [OF s]] l p by auto
  have off: "same_off ({q, q + 1} \<union> insert p (set xs \<union> set ys)) t t'"
    using t'(2) by (rule same_off_mono) auto
  note u = qsys_update [OF s t'(1) off sub S]
  show "qsys t' Q" by (rule u(1))
  show "q' \<in> Q \<Longrightarrow> qcontents t' q' = (if q' = q then xs @ p # ys else qcontents t q')"
    using u(2,3) by auto
qed

lemma enqueue_qsys:
  assumes "qsys t Q" "q \<in> Q" "\<not> bad p" "0 \<le> p" "p < NPROC"
    and "\<And>q'. q' \<in> Q \<Longrightarrow> p \<notin> set (qcontents t q')"
  shows "fst (enqueue_tab bad p q t) = p" "qsys (snd (enqueue_tab bad p q t)) Q"
    "q' \<in> Q \<Longrightarrow> qcontents (snd (enqueue_tab bad p q t)) q' =
       (if q' = q then qcontents t q @ [p] else qcontents t q')"
    "qkey (snd (enqueue_tab bad p q t) j) = qkey (t j)"
    "same_off ({p, q, q + 1} \<union> set (qcontents t q)) t (snd (enqueue_tab bad p q t))"
proof -
  have r: "q < NQENT - 1" using qsys_range [OF assms(1,2)] by simp
  note e = enqueue_qlist [where bad = bad, OF qsys_qlist [OF assms(1,2)] r assms(3-5) assms(6) [OF assms(2)]]
  show "fst (enqueue_tab bad p q t) = p" "qkey (snd (enqueue_tab bad p q t) j) = qkey (t j)"
    "same_off ({p, q, q + 1} \<union> set (qcontents t q)) t (snd (enqueue_tab bad p q t))"
    using e by auto
  note u = insertion_qsys [where ys = "[]", OF assms(1,2) _ assms(4-6)]
  show "qsys (snd (enqueue_tab bad p q t)) Q"
    by (rule u) (use e in auto)
  show "q' \<in> Q \<Longrightarrow> qcontents (snd (enqueue_tab bad p q t)) q' =
       (if q' = q then qcontents t q @ [p] else qcontents t q')"
    using u(2) [of "qcontents t q" "snd (enqueue_tab bad p q t)" q'] e by auto
qed

lemma insert_qsys:
  assumes "qsys t Q" "q \<in> Q" "\<not> bad p" "0 \<le> p" "p < NPROC"
    and "\<And>q'. q' \<in> Q \<Longrightarrow> p \<notin> set (qcontents t q')" and "qkey (t (q + 1)) < key"
  obtains t' where "insert_tab bad p q key t = Some (OK, t')" "qsys t' Q"
    "\<And>q'. q' \<in> Q \<Longrightarrow> qcontents t' q' =
       (if q' = q then ins_before t key (qcontents t q) @ p # ins_after t key (qcontents t q)
        else qcontents t q')"
    "\<And>j. qkey (t' j) = (if j = p then key else qkey (t j))"
    "same_off ({p, q, q + 1} \<union> set (qcontents t q)) t t'"
proof -
  have r: "q < NQENT - 1" using qsys_range [OF assms(1,2)] by simp
  obtain t' where t': "insert_tab bad p q key t = Some (OK, t')"
    "qlist t' q (ins_before t key (qcontents t q) @ p # ins_after t key (qcontents t q))"
    "same_off ({p, q, q + 1} \<union> set (qcontents t q)) t t'"
    "\<And>j. qkey (t' j) = (if j = p then key else qkey (t j))"
    using insert_qlist [where bad = bad, OF qsys_qlist [OF assms(1,2)] r assms(3-5)
        assms(6) [OF assms(2)] assms(7)] by blast
  have l: "qcontents t q = ins_before t key (qcontents t q) @ ins_after t key (qcontents t q)"
    by simp
  note u = insertion_qsys [OF assms(1,2) l assms(4-6) t'(2)]
  show thesis
    by (rule that [OF t'(1)]) (use u t' in auto)
qed

lemma insertd_qsys:
  assumes "qsys t Q" "q \<in> Q" "\<not> bad p" "0 \<le> p" "p < NPROC"
    and "\<And>q'. q' \<in> Q \<Longrightarrow> p \<notin> set (qcontents t q')"
    and k: "keys_nonneg t (qcontents t q)" "0 \<le> key" "key \<le> MAXKEY"
  obtains t' us vs k where "insertd_tab bad p q key t = Some (OK, t')" "qsys t' Q"
    "delta_split t key (qcontents t q) = (us, vs, k)"
    "\<And>q'. q' \<in> Q \<Longrightarrow> qcontents t' q' = (if q' = q then us @ p # vs else qcontents t q')"
    "\<And>j. qkey (t' j) = (if j = p then k else if vs \<noteq> [] \<and> j = hd vs then qkey (t j) - k else qkey (t j))"
    "same_off ({p, q, q + 1} \<union> set (qcontents t q)) t t'"
proof -
  have r: "q < NQENT - 1" using qsys_range [OF assms(1,2)] by simp
  obtain t' us vs k where t': "insertd_tab bad p q key t = Some (OK, t')"
    "delta_split t key (qcontents t q) = (us, vs, k)" "qlist t' q (us @ p # vs)"
    "same_off ({p, q, q + 1} \<union> set (qcontents t q)) t t'"
    "\<And>j. qkey (t' j) = (if j = p then k else if vs \<noteq> [] \<and> j = hd vs then qkey (t j) - k else qkey (t j))"
    using insertd_qlist [where bad = bad, OF qsys_qlist [OF assms(1,2)] r assms(3-5)
        assms(6) [OF assms(2)] k] by blast
  have l: "qcontents t q = us @ vs" using t'(2) by (rule delta_split_append)
  note u = insertion_qsys [OF assms(1,2) l assms(4-6) t'(3)]
  show thesis
    by (rule that [OF t'(1) _ t'(2)]) (use u t' l in auto)
qed

lemma removal_qsys:
  assumes s: "qsys t Q" "q \<in> Q" and l: "qcontents t q = xs @ p # ys"
    and t': "qlist t' q (xs @ ys)" "same_off ({p, q, q + 1} \<union> set xs \<union> set ys) t t'"
  shows "qsys t' Q" "q' \<in> Q \<Longrightarrow> qcontents t' q' = (if q' = q then xs @ ys else qcontents t q')"
    "q' \<in> Q \<Longrightarrow> p \<notin> set (qcontents t' q')"
proof -
  have S: "(insert p (set xs \<union> set ys) \<union> set (xs @ ys)) \<inter> set (qcontents t q') = {}"
    if "q' \<in> Q" "q' \<noteq> q" for q'
    using that qsys_disjoint [OF s that(1)] l by auto
  have sub: "insert p (set xs \<union> set ys) \<subseteq> {0..<NPROC}"
    using qlist_pid [OF qsys_qlist [OF s]] l by auto
  have off: "same_off ({q, q + 1} \<union> insert p (set xs \<union> set ys)) t t'"
    using t'(2) by (rule same_off_mono) auto
  note u = qsys_update [OF s t'(1) off sub S]
  show "qsys t' Q" by (rule u(1))
  show c: "q' \<in> Q \<Longrightarrow> qcontents t' q' = (if q' = q then xs @ ys else qcontents t q')" for q'
    using u(2,3) by auto
  have "distinct (xs @ p # ys)" using qsys_qlist [OF s] l by (simp add: qlist_def)
  then show "q' \<in> Q \<Longrightarrow> p \<notin> set (qcontents t' q')"
    using c S by auto
qed

lemma getitem_qsys:
  assumes "qsys t Q" "q \<in> Q" "p \<in> set (qcontents t q)"
  shows "fst (getitem_tab p t) = p" "qsys (snd (getitem_tab p t)) Q"
    "q' \<in> Q \<Longrightarrow> qcontents (snd (getitem_tab p t)) q' =
       (if q' = q then remove1 p (qcontents t q) else qcontents t q')"
    "q' \<in> Q \<Longrightarrow> p \<notin> set (qcontents (snd (getitem_tab p t)) q')"
    "qkey (snd (getitem_tab p t) j) = qkey (t j)"
proof -
  obtain xs ys where l: "qcontents t q = xs @ p # ys" using split_list [OF assms(3)] by blast
  have ql: "qlist t q (xs @ p # ys)" using qsys_qlist [OF assms(1,2)] l by simp
  note g = getitem_qlist [OF ql]
  have off: "same_off ({p, q, q + 1} \<union> set xs \<union> set ys) t (snd (getitem_tab p t))"
    using g(3) by (rule same_off_mono) auto
  have "p \<notin> set xs" using ql by (auto simp: qlist_def)
  with l have rm: "remove1 p (qcontents t q) = xs @ ys" by (simp add: remove1_append)
  note u = removal_qsys [OF assms(1,2) l g(2) off]
  show "fst (getitem_tab p t) = p" "qsys (snd (getitem_tab p t)) Q"
    "q' \<in> Q \<Longrightarrow> p \<notin> set (qcontents (snd (getitem_tab p t)) q')"
    "qkey (snd (getitem_tab p t) j) = qkey (t j)"
    using g(1,4) u by auto
  show "q' \<in> Q \<Longrightarrow> qcontents (snd (getitem_tab p t)) q' =
       (if q' = q then remove1 p (qcontents t q) else qcontents t q')"
    using u(2) rm by auto
qed

lemma dequeue_qsys:
  assumes "qsys t Q" "q \<in> Q" "qcontents t q = p # ps"
  shows "fst (dequeue_tab q t) = p" "qsys (snd (dequeue_tab q t)) Q"
    "q' \<in> Q \<Longrightarrow> qcontents (snd (dequeue_tab q t)) q' = (if q' = q then ps else qcontents t q')"
    "q' \<in> Q \<Longrightarrow> p \<notin> set (qcontents (snd (dequeue_tab q t)) q')"
    "qkey (snd (dequeue_tab q t) j) = qkey (t j)"
proof -
  have r: "q < NQENT - 1" using qsys_range [OF assms(1,2)] by simp
  have ql: "qlist t q (p # ps)" using qsys_qlist [OF assms(1,2)] assms(3) by simp
  note g = dequeue_qlist [OF ql r]
  have off: "same_off ({p, q, q + 1} \<union> set [] \<union> set ps) t (snd (dequeue_tab q t))"
    using g(3) by (rule same_off_mono) auto
  note u = removal_qsys [where xs = "[]", simplified, OF assms g(2) off [simplified]]
  show "fst (dequeue_tab q t) = p" "qsys (snd (dequeue_tab q t)) Q"
    "q' \<in> Q \<Longrightarrow> qcontents (snd (dequeue_tab q t)) q' = (if q' = q then ps else qcontents t q')"
    "q' \<in> Q \<Longrightarrow> p \<notin> set (qcontents (snd (dequeue_tab q t)) q')"
    "qkey (snd (dequeue_tab q t) j) = qkey (t j)"
    using g(1,4) u by auto
qed

lemma getfirst_qsys:
  assumes "qsys t Q" "q \<in> Q" "qcontents t q = p # ps"
  shows "getfirst_tab q t = getitem_tab p t"
proof -
  have ql: "qlist t q (p # ps)" using qsys_qlist [OF assms(1,2)] assms(3) by simp
  then have "\<not> isempty t q" by simp
  with ql show ?thesis by (simp add: getfirst_tab_def queuehead_def Let_def qlist_def)
qed

lemma qsys_isempty: "qsys t Q \<Longrightarrow> q \<in> Q \<Longrightarrow> isempty t q \<longleftrightarrow> qcontents t q = []"
  using qlist_isempty qsys_qlist by blast

lemma qsys_nonempty: "qsys t Q \<Longrightarrow> q \<in> Q \<Longrightarrow> nonempty t q \<longleftrightarrow> qcontents t q \<noteq> []"
  using qlist_nonempty qsys_qlist by blast

lemma qsys_firstid: "qsys t Q \<Longrightarrow> q \<in> Q \<Longrightarrow> firstid t q = hd_or (qcontents t q) (q + 1)"
  using qlist_firstid qsys_qlist by blast

lemma qsys_set_qkey:
  "qsys (set_qkey i v t) Q = qsys t Q" "qcontents (set_qkey i v t) q = qcontents t q"
proof -
  have w: "qwalk n (set_qkey i v t) a b = qwalk n t a b" for n a b
    by (induction n arbitrary: b) auto
  then show c: "qcontents (set_qkey i v t) q = qcontents t q" for q
    by (simp add: qcontents_def)
  show "qsys (set_qkey i v t) Q = qsys t Q" by (simp add: qsys_def c qlist_def)
qed

subsection \<open>The interface the semaphores use\<close>

text \<open>
  A family of first-in first-out queues of processes: what its clients call and the laws it
  promises.  \<open>run_enq\<close> and \<open>run_deq\<close> are sequences of calls, and the client lemma says that
  processes leave in the order in which they came.
\<close>

locale proc_queues =
  fixes inv :: "'s \<Rightarrow> bool" and isq :: "'q \<Rightarrow> bool" and free :: "'s \<Rightarrow> 'p \<Rightarrow> bool"
    and contents :: "'s \<Rightarrow> 'q \<Rightarrow> 'p list"
    and enq :: "'p \<Rightarrow> 'q \<Rightarrow> 's \<Rightarrow> 's" and deq :: "'q \<Rightarrow> 's \<Rightarrow> 'p \<times> 's"
  assumes enq_inv: "inv s \<Longrightarrow> isq q \<Longrightarrow> free s p \<Longrightarrow> inv (enq p q s)"
    and enq_contents: "inv s \<Longrightarrow> isq q \<Longrightarrow> free s p \<Longrightarrow> isq q' \<Longrightarrow>
      contents (enq p q s) q' = (if q' = q then contents s q @ [p] else contents s q')"
    and enq_free: "inv s \<Longrightarrow> isq q \<Longrightarrow> free s p \<Longrightarrow> free s r \<Longrightarrow> r \<noteq> p \<Longrightarrow> free (enq p q s) r"
    and deq_head: "inv s \<Longrightarrow> isq q \<Longrightarrow> contents s q = p # ps \<Longrightarrow> fst (deq q s) = p"
    and deq_inv: "inv s \<Longrightarrow> isq q \<Longrightarrow> contents s q = p # ps \<Longrightarrow> inv (snd (deq q s))"
    and deq_contents: "inv s \<Longrightarrow> isq q \<Longrightarrow> contents s q = p # ps \<Longrightarrow> isq q' \<Longrightarrow>
      contents (snd (deq q s)) q' = (if q' = q then ps else contents s q')"
begin

fun run_enq :: "'q \<Rightarrow> 'p list \<Rightarrow> 's \<Rightarrow> 's" where
  "run_enq q [] s = s"
| "run_enq q (p # ps) s = run_enq q ps (enq p q s)"

fun run_deq :: "nat \<Rightarrow> 'q \<Rightarrow> 's \<Rightarrow> 'p list \<times> 's" where
  "run_deq 0 q s = ([], s)"
| "run_deq (Suc n) q s =
     (case deq q s of (p, s') \<Rightarrow> (case run_deq n q s' of (ps, s'') \<Rightarrow> (p # ps, s'')))"

lemma run_enq_contents:
  "inv s \<Longrightarrow> isq q \<Longrightarrow> \<forall>p \<in> set ps. free s p \<Longrightarrow> distinct ps \<Longrightarrow>
   inv (run_enq q ps s) \<and> contents (run_enq q ps s) q = contents s q @ ps"
proof (induction ps arbitrary: s)
  case Nil
  then show ?case by simp
next
  case (Cons p ps)
  then have "\<forall>r \<in> set ps. free (enq p q s) r" by (auto intro!: enq_free)
  with Cons show ?case by (auto simp: enq_inv enq_contents)
qed

lemma run_deq_fifo:
  "inv s \<Longrightarrow> isq q \<Longrightarrow> contents s q = ps @ qs \<Longrightarrow>
   fst (run_deq (length ps) q s) = ps \<and> inv (snd (run_deq (length ps) q s)) \<and>
   contents (snd (run_deq (length ps) q s)) q = qs"
proof (induction ps arbitrary: s)
  case Nil
  then show ?case by simp
next
  case (Cons p ps)
  then have c: "contents s q = p # (ps @ qs)" by simp
  obtain s' where d: "deq q s = (p, s')"
    using deq_head [OF Cons.prems(1,2) c] by (cases "deq q s") auto
  have "inv s'" "contents s' q = ps @ qs"
    using deq_inv [OF Cons.prems(1,2) c] deq_contents [OF Cons.prems(1,2) c Cons.prems(2)] d by auto
  then have "fst (run_deq (length ps) q s') = ps \<and> inv (snd (run_deq (length ps) q s')) \<and>
      contents (snd (run_deq (length ps) q s')) q = qs"
    using Cons.IH Cons.prems(2) by blast
  then show ?case using d by (auto split: prod.split)
qed

lemma first_come_first_served:
  assumes "inv s" "isq q" "contents s q = []" "\<forall>p \<in> set ps. free s p" "distinct ps"
  shows "fst (run_deq (length ps) q (run_enq q ps s)) = ps"
  using run_enq_contents [OF assms(1,2,4,5)] run_deq_fifo [of "run_enq q ps s" q ps "[]"] assms
  by simp

end

definition in_no_queue :: "int set \<Rightarrow> qtab \<Rightarrow> int \<Rightarrow> bool" where
  "in_no_queue Q t p \<longleftrightarrow> 0 \<le> p \<and> p < NPROC \<and> (\<forall>q \<in> Q. p \<notin> set (qcontents t q))"

interpretation tabq: proc_queues "\<lambda>t. qsys t Q" "\<lambda>q. q \<in> Q" "in_no_queue Q" qcontents
    "\<lambda>p q t. snd (enqueue_tab (\<lambda>_. False) p q t)" dequeue_tab for Q
proof (unfold_locales, goal_cases)
  case (1 s q p)
  then show ?case by (intro enqueue_qsys) (auto simp: in_no_queue_def)
next
  case (2 s q p q')
  then show ?case by (intro enqueue_qsys) (auto simp: in_no_queue_def)
next
  case (3 s q p r)
  then have "qcontents (snd (enqueue_tab (\<lambda>_. False) p q s)) q' =
       (if q' = q then qcontents s q @ [p] else qcontents s q')" if "q' \<in> Q" for q'
    using that by (intro enqueue_qsys) (auto simp: in_no_queue_def)
  with 3 show ?case by (auto simp: in_no_queue_def)
next
  case (4 s q p ps)
  then show ?case by (rule dequeue_qsys)
next
  case (5 s q p ps)
  then show ?case by (rule dequeue_qsys)
next
  case (6 s q p ps q')
  then show ?case by (intro dequeue_qsys)
qed

end
