(* ===== verification/Kernel.thy ===== *)
theory Kernel
  imports Queues
begin

text \<open>
  The kernel's core state: the process table (\<^verbatim>\<open>include/process.h\<close>), the semaphore table
  (\<^verbatim>\<open>include/semaphore.h\<close>), the queue table, the scheduler's and the clock's variables, and
  the invariant \<open>placed\<close> that says in which queue every process is.
\<close>

datatype prstate = PR_FREE | PR_CURR | PR_READY | PR_RECV | PR_SLEEP | PR_SUSP | PR_WAIT | PR_RECTIM

abbreviation (input) NULLPROC :: int where "NULLPROC \<equiv> 0"
abbreviation (input) QUANTUM :: u32 where "QUANTUM \<equiv> 2"

text \<open>
  The nodes of a virtual free list: the three that are fields of a process table entry and
  those that \<open>vfreemem\<close> takes from the kernel heap.
\<close>

datatype vptr = VNull | VHead int | VMin int | VMax int | VHeap u32

record vmemblk =
  vnext :: vptr
  vaddr :: u32
  vmlength :: u32

record procent =
  prstate :: prstate
  prprio :: int
  prstkptr :: u32
  prstkbase :: u32
  prstklen :: u32
  prname :: string
  prsem :: int
  prparent :: int
  prmsg :: u32
  prhasmsg :: bool
  prdesc :: "int \<Rightarrow> int"
  PDBR :: u64
  vmemlist :: vmemblk
  vminheap :: vmemblk
  vmaxheap :: vmemblk

datatype semstate = S_FREE | S_USED

record sentry =
  sstate :: semstate
  scount :: int
  squeue :: int

record kstate =
  proctab :: "int \<Rightarrow> procent"
  prcount :: int
  currpid :: int
  nextpid :: int            \<comment> \<open>static of \<open>newpid\<close> in \<^verbatim>\<open>create.c\<close>\<close>
  vnextpid :: int           \<comment> \<open>static of \<open>newpid\<close> in \<^verbatim>\<open>vcreate.c\<close>\<close>
  queuetab :: qtab
  nextqid :: int            \<comment> \<open>static of \<open>newqueue\<close>\<close>
  readylist :: int
  sleepq :: int
  semtab :: "int \<Rightarrow> sentry"
  nextsem :: int            \<comment> \<open>static of \<open>newsem\<close>\<close>
  ndefers :: int
  attempt :: bool
  preempt :: u32
  clktime :: u32
  myglobalclock :: u32
  count1000 :: u32          \<comment> \<open>static of \<open>clkhandler\<close>\<close>
  cr0 :: u32                \<comment> \<open>the processor's control registers\<close>
  cr2 :: u32
  cr3 :: u32
  cr4 :: u32
  tmp_cr :: u64             \<comment> \<open>the global \<open>tmp\<close> through which they are moved\<close>
  check_CR3 :: u64

definition isbadpid :: "'z kstate_scheme \<Rightarrow> int \<Rightarrow> bool" where
  "isbadpid s x \<longleftrightarrow> x < 0 \<or> x \<ge> NPROC \<or> prstate (proctab s x) = PR_FREE"

definition isbadsem :: "int \<Rightarrow> bool" where
  "isbadsem x \<longleftrightarrow> x < 0 \<or> x \<ge> NSEM"

subsection \<open>Field updates\<close>

definition set_prstate :: "int \<Rightarrow> prstate \<Rightarrow> 'z kstate_scheme \<Rightarrow> 'z kstate_scheme" where
  "set_prstate p st s = s\<lparr>proctab := (proctab s)(p := (proctab s p)\<lparr>prstate := st\<rparr>)\<rparr>"

definition set_prprio :: "int \<Rightarrow> int \<Rightarrow> 'z kstate_scheme \<Rightarrow> 'z kstate_scheme" where
  "set_prprio p v s = s\<lparr>proctab := (proctab s)(p := (proctab s p)\<lparr>prprio := v\<rparr>)\<rparr>"

definition set_prsem :: "int \<Rightarrow> int \<Rightarrow> 'z kstate_scheme \<Rightarrow> 'z kstate_scheme" where
  "set_prsem p v s = s\<lparr>proctab := (proctab s)(p := (proctab s p)\<lparr>prsem := v\<rparr>)\<rparr>"

definition set_prmsg :: "int \<Rightarrow> u32 \<Rightarrow> 'z kstate_scheme \<Rightarrow> 'z kstate_scheme" where
  "set_prmsg p v s = s\<lparr>proctab := (proctab s)(p := (proctab s p)\<lparr>prmsg := v\<rparr>)\<rparr>"

definition set_prhasmsg :: "int \<Rightarrow> bool \<Rightarrow> 'z kstate_scheme \<Rightarrow> 'z kstate_scheme" where
  "set_prhasmsg p v s = s\<lparr>proctab := (proctab s)(p := (proctab s p)\<lparr>prhasmsg := v\<rparr>)\<rparr>"

definition set_scount :: "int \<Rightarrow> int \<Rightarrow> 'z kstate_scheme \<Rightarrow> 'z kstate_scheme" where
  "set_scount k v s = s\<lparr>semtab := (semtab s)(k := (semtab s k)\<lparr>scount := v\<rparr>)\<rparr>"

definition set_sstate :: "int \<Rightarrow> semstate \<Rightarrow> 'z kstate_scheme \<Rightarrow> 'z kstate_scheme" where
  "set_sstate k v s = s\<lparr>semtab := (semtab s)(k := (semtab s k)\<lparr>sstate := v\<rparr>)\<rparr>"

lemmas setter_defs = set_prstate_def set_prprio_def set_prsem_def set_prmsg_def set_prhasmsg_def
  set_scount_def set_sstate_def

subsection \<open>The queue operations on the kernel state\<close>

definition enqueue :: "int \<Rightarrow> int \<Rightarrow> 'z kstate_scheme \<Rightarrow> int \<times> 'z kstate_scheme" where
  "enqueue pid q s = (case enqueue_tab (isbadpid s) pid q (queuetab s) of
     (r, t) \<Rightarrow> (r, s\<lparr>queuetab := t\<rparr>))"

definition dequeue :: "int \<Rightarrow> 'z kstate_scheme \<Rightarrow> int \<times> 'z kstate_scheme" where
  "dequeue q s = (case dequeue_tab q (queuetab s) of (r, t) \<Rightarrow> (r, s\<lparr>queuetab := t\<rparr>))"

definition getitem :: "int \<Rightarrow> 'z kstate_scheme \<Rightarrow> int \<times> 'z kstate_scheme" where
  "getitem p s = (case getitem_tab p (queuetab s) of (r, t) \<Rightarrow> (r, s\<lparr>queuetab := t\<rparr>))"

definition getfirst :: "int \<Rightarrow> 'z kstate_scheme \<Rightarrow> int \<times> 'z kstate_scheme" where
  "getfirst q s = (case getfirst_tab q (queuetab s) of (r, t) \<Rightarrow> (r, s\<lparr>queuetab := t\<rparr>))"

definition getlast :: "int \<Rightarrow> 'z kstate_scheme \<Rightarrow> int \<times> 'z kstate_scheme" where
  "getlast q s = (case getlast_tab q (queuetab s) of (r, t) \<Rightarrow> (r, s\<lparr>queuetab := t\<rparr>))"

definition insert_q :: "int \<Rightarrow> int \<Rightarrow> int \<Rightarrow> 'z kstate_scheme \<Rightarrow> (int \<times> 'z kstate_scheme) option" where
  "insert_q pid q key s = (case insert_tab (isbadpid s) pid q key (queuetab s) of
     None \<Rightarrow> None | Some (r, t) \<Rightarrow> Some (r, s\<lparr>queuetab := t\<rparr>))"

definition insertd :: "int \<Rightarrow> int \<Rightarrow> int \<Rightarrow> 'z kstate_scheme \<Rightarrow> (int \<times> 'z kstate_scheme) option" where
  "insertd pid q key s = (case insertd_tab (isbadpid s) pid q key (queuetab s) of
     None \<Rightarrow> None | Some (r, t) \<Rightarrow> Some (r, s\<lparr>queuetab := t\<rparr>))"

definition newqueue :: "'z kstate_scheme \<Rightarrow> int \<times> 'z kstate_scheme" where
  "newqueue s = (case newqueue_tab (nextqid s) (queuetab s) of
     (r, n, t) \<Rightarrow> (r, s\<lparr>nextqid := n, queuetab := t\<rparr>))"

subsection \<open>Where every process is\<close>

definition qids :: "'z kstate_scheme \<Rightarrow> int set" where
  "qids s = {q. NPROC \<le> q \<and> q < nextqid s \<and> even (q - NPROC)}"

abbreviation queue_of :: "'z kstate_scheme \<Rightarrow> int \<Rightarrow> int list" where
  "queue_of s q \<equiv> qcontents (queuetab s) q"

abbreviation state_of :: "'z kstate_scheme \<Rightarrow> int \<Rightarrow> prstate" where
  "state_of s p \<equiv> prstate (proctab s p)"

text \<open>The queue a process belongs to, read off its state.\<close>

definition home :: "'z kstate_scheme \<Rightarrow> int \<Rightarrow> int option" where
  "home s p = (case state_of s p of
      PR_READY \<Rightarrow> Some (readylist s)
    | PR_SLEEP \<Rightarrow> Some (sleepq s)
    | PR_RECTIM \<Rightarrow> Some (sleepq s)
    | PR_WAIT \<Rightarrow> Some (squeue (semtab s (prsem (proctab s p))))
    | _ \<Rightarrow> None)"

text \<open>The queues and variables the kernel sets up once at boot.\<close>

definition tables_ok :: "'z kstate_scheme \<Rightarrow> bool" where
  "tables_ok s \<longleftrightarrow>
     qsys (queuetab s) (qids s) \<and>
     (\<forall>q \<in> qids s. qkey (queuetab s (q + 1)) = MINKEY) \<and>
     NPROC \<le> nextqid s \<and> nextqid s \<le> NQENT \<and> even (nextqid s - NPROC) \<and>
     readylist s \<in> qids s \<and> sleepq s \<in> qids s \<and> readylist s \<noteq> sleepq s \<and>
     (\<forall>k \<in> {0..<NSEM}. squeue (semtab s k) \<in> qids s \<and>
        squeue (semtab s k) \<noteq> readylist s \<and> squeue (semtab s k) \<noteq> sleepq s) \<and>
     inj_on (\<lambda>k. squeue (semtab s k)) {0..<NSEM}"

text \<open>
  \<open>placed X s\<close>: every process outside \<open>X\<close> is in exactly the queue its state names, and in
  no other; the processes of \<open>X\<close>, in transit between two queues, are in none.  The ready
  list is in descending order of keys, and the delays of the sleep queue are non-negative and
  add up to at most \<open>MAXKEY\<close>, so that no later addition of two of them overflows.
\<close>

definition sleep_ok :: "qtab \<Rightarrow> int list \<Rightarrow> bool" where
  "sleep_ok t xs \<longleftrightarrow> keys_nonneg t xs \<and> (\<Sum>x\<leftarrow>xs. qkey (t x)) \<le> MAXKEY"

lemma sleep_ok_cong: "(\<And>x. x \<in> set xs \<Longrightarrow> qkey (t' x) = qkey (t x)) \<Longrightarrow> sleep_ok t' xs = sleep_ok t xs"
  by (simp add: sleep_ok_def keys_nonneg_def cong: map_cong)

lemma sleep_ok_mid: "sleep_ok t (us @ p # vs) \<Longrightarrow> sleep_ok t (us @ vs)"
  by (auto simp: sleep_ok_def keys_nonneg_def)

definition placed :: "int set \<Rightarrow> 'z kstate_scheme \<Rightarrow> bool" where
  "placed X s \<longleftrightarrow> tables_ok s \<and>
     (\<forall>p \<in> {0..<NPROC} - X. \<forall>q \<in> qids s. p \<in> set (queue_of s q) \<longleftrightarrow> home s p = Some q) \<and>
     (\<forall>p \<in> X. \<forall>q \<in> qids s. p \<notin> set (queue_of s q)) \<and>
     (\<forall>p \<in> {0..<NPROC} - X. state_of s p = PR_WAIT \<longrightarrow> 0 \<le> prsem (proctab s p) \<and> prsem (proctab s p) < NSEM) \<and>
     (\<forall>p \<in> {0..<NPROC}. - 32768 \<le> prprio (proctab s p) \<and> prprio (proctab s p) \<le> 32767) \<and>
     keys_desc (queuetab s) (queue_of s (readylist s)) \<and>
     sleep_ok (queuetab s) (queue_of s (sleepq s))"

lemma placedD:
  assumes "placed X s"
  shows "tables_ok s" "qsys (queuetab s) (qids s)" "readylist s \<in> qids s" "sleepq s \<in> qids s"
    "readylist s \<noteq> sleepq s" "keys_desc (queuetab s) (queue_of s (readylist s))"
    "sleep_ok (queuetab s) (queue_of s (sleepq s))"
  using assms by (simp_all add: placed_def tables_ok_def)

lemma placed_home:
  "placed X s \<Longrightarrow> 0 \<le> p \<Longrightarrow> p < NPROC \<Longrightarrow> p \<notin> X \<Longrightarrow> q \<in> qids s \<Longrightarrow>
   p \<in> set (queue_of s q) \<longleftrightarrow> home s p = Some q"
  by (simp add: placed_def)

lemma placed_transit: "placed X s \<Longrightarrow> p \<in> X \<Longrightarrow> q \<in> qids s \<Longrightarrow> p \<notin> set (queue_of s q)"
  by (simp add: placed_def)

lemma placed_pid: "placed X s \<Longrightarrow> q \<in> qids s \<Longrightarrow> p \<in> set (queue_of s q) \<Longrightarrow> 0 \<le> p \<and> p < NPROC"
  using placedD(2) qlist_pid qsys_qlist by metis

lemma placed_in_queue:
  assumes "placed X s" "q \<in> qids s" "p \<in> set (queue_of s q)"
  shows "p \<notin> X" "home s p = Some q" "0 \<le> p" "p < NPROC" "state_of s p \<noteq> PR_FREE" "state_of s p \<noteq> PR_CURR"
proof -
  show "p \<notin> X" using assms placed_transit by blast
  show r: "0 \<le> p" "p < NPROC" using placed_pid [OF assms] by auto
  show h: "home s p = Some q" using assms placed_home r \<open>p \<notin> X\<close> by blast
  then show "state_of s p \<noteq> PR_FREE" "state_of s p \<noteq> PR_CURR" by (auto simp: home_def)
qed

subsection \<open>Moves that keep every process placed\<close>

lemma home_cong:
  "proctab s' p = proctab s p \<Longrightarrow> readylist s' = readylist s \<Longrightarrow> sleepq s' = sleepq s \<Longrightarrow>
   (\<And>k. squeue (semtab s' k) = squeue (semtab s k)) \<Longrightarrow> home s' p = home s p"
  by (simp add: home_def split: prstate.split)

lemma qids_simps [simp]:
  "qids (s\<lparr>queuetab := t\<rparr>) = qids s" "qids (s\<lparr>proctab := pt\<rparr>) = qids s"
  "qids (s\<lparr>semtab := sm\<rparr>) = qids s" "qids (s\<lparr>currpid := c\<rparr>) = qids s"
  by (simp_all add: qids_def)

lemma placed_cong:
  assumes "placed X s"
    and "proctab s' = proctab s" "queuetab s' = queuetab s" "nextqid s' = nextqid s"
    "readylist s' = readylist s" "sleepq s' = sleepq s"
    "\<And>k. squeue (semtab s' k) = squeue (semtab s k)"
  shows "placed X s'"
proof -
  have "qids s' = qids s" using assms by (simp add: qids_def)
  moreover have "home s' = home s" using assms by (intro ext home_cong) auto
  ultimately show ?thesis using assms by (simp add: placed_def tables_ok_def)
qed

lemma placed_set_state:
  assumes "placed X s" "p \<in> X"
    and "proctab s' = (proctab s)(p := e)" "prprio e = prprio (proctab s p)"
    "queuetab s' = queuetab s" "nextqid s' = nextqid s" "readylist s' = readylist s"
    "sleepq s' = sleepq s" "semtab s' = semtab s"
  shows "placed X s'"
proof -
  have "qids s' = qids s" using assms by (simp add: qids_def)
  moreover have "home s' r = home s r" "proctab s' r = proctab s r" if "r \<notin> X" for r
  proof -
    have "r \<noteq> p" using that assms(2) by blast
    then show "home s' r = home s r" "proctab s' r = proctab s r"
      using assms by (auto intro: home_cong)
  qed
  moreover have "prprio (proctab s' r) = prprio (proctab s r)" for r using assms by simp
  ultimately show ?thesis using assms(1,5-9) by (simp add: placed_def tables_ok_def)
qed

lemma placed_take:
  "placed X s \<Longrightarrow> 0 \<le> p \<Longrightarrow> p < NPROC \<Longrightarrow> home s p = None \<Longrightarrow> placed (insert p X) s"
  by (auto simp: placed_def)

lemma placed_drop:
  assumes "placed X s" "home s p = None"
  shows "placed (X - {p}) s"
proof -
  have "state_of s p \<noteq> PR_WAIT" using assms(2) by (auto simp: home_def)
  then show ?thesis using assms by (auto simp: placed_def)
qed

lemma placed_set_prprio:
  assumes "placed X s" "- 32768 \<le> v" "v \<le> 32767"
  shows "placed X (set_prprio p v s)"
proof -
  have "home (set_prprio p v s) r = home s r" for r
    by (simp add: set_prprio_def home_def split: prstate.split)
  then show ?thesis using assms by (auto simp: placed_def tables_ok_def set_prprio_def)
qed

text \<open>A change of the queue table that puts process \<open>p\<close>, in transit, into its home queue.\<close>

lemma placed_put:
  assumes pl: "placed X s" "p \<in> X" and q: "q \<in> qids s" "home s p = Some q"
    and w: "state_of s p = PR_WAIT \<Longrightarrow> 0 \<le> prsem (proctab s p) \<and> prsem (proctab s p) < NSEM"
    and t: "qsys t (qids s)"
      "\<And>q'. q' \<in> qids s \<Longrightarrow> qcontents t q' = (if q' = q then us @ p # vs else queue_of s q')"
      "queue_of s q = us @ vs"
      "\<And>q'. q' \<in> qids s \<Longrightarrow> qkey (t (q' + 1)) = MINKEY"
    and d: "keys_desc t (qcontents t (readylist s))" "sleep_ok t (qcontents t (sleepq s))"
  shows "placed (X - {p}) (s\<lparr>queuetab := t\<rparr>)"
proof -
  let ?s = "s\<lparr>queuetab := t\<rparr>"
  have h: "home ?s r = home s r" for r by (simp add: home_def split: prstate.split)
  have "r \<in> set (qcontents t q') \<longleftrightarrow> home s r = Some q'"
    if "r \<in> {0..<NPROC} - (X - {p})" "q' \<in> qids s" for r q'
  proof (cases "r = p")
    case True
    then show ?thesis using t(2,3) that q pl placed_transit [OF pl that(2)] by auto
  next
    case False
    have "r \<in> set (qcontents t q') \<longleftrightarrow> r \<in> set (queue_of s q')"
      using t(2) [OF that(2)] t(3) False by auto
    then show ?thesis using pl that False by (simp add: placed_def)
  qed
  moreover have "r \<notin> set (qcontents t q')" if "r \<in> X - {p}" "q' \<in> qids s" for r q'
  proof
    assume "r \<in> set (qcontents t q')"
    then have "r \<in> set (queue_of s q')" using t(2) [OF that(2)] t(3) that(1) by (auto split: if_splits)
    with placed_transit [OF pl(1)] that show False by blast
  qed
  moreover have "tables_ok ?s" using pl t(1,4) by (simp add: placed_def tables_ok_def)
  ultimately show ?thesis using pl w d by (auto simp: placed_def h)
qed

text \<open>A change of the queue table that takes process \<open>p\<close> out of queue \<open>q\<close>.\<close>

lemma placed_remove:
  assumes pl: "placed X s" and q: "q \<in> qids s" "queue_of s q = us @ p # vs"
    and t: "qsys t (qids s)"
      "\<And>q'. q' \<in> qids s \<Longrightarrow> qcontents t q' = (if q' = q then us @ vs else queue_of s q')"
      "\<And>q'. q' \<in> qids s \<Longrightarrow> p \<notin> set (qcontents t q')"
      "\<And>q'. q' \<in> qids s \<Longrightarrow> qkey (t (q' + 1)) = MINKEY"
    and d: "keys_desc t (qcontents t (readylist s))" "sleep_ok t (qcontents t (sleepq s))"
  shows "placed (insert p X) (s\<lparr>queuetab := t\<rparr>)"
proof -
  let ?s = "s\<lparr>queuetab := t\<rparr>"
  have h: "home ?s r = home s r" for r by (simp add: home_def split: prstate.split)
  have "r \<in> set (qcontents t q') \<longleftrightarrow> home s r = Some q'"
    if "r \<in> {0..<NPROC} - insert p X" "q' \<in> qids s" for r q'
  proof -
    have "r \<in> set (qcontents t q') \<longleftrightarrow> r \<in> set (queue_of s q')"
      using t(2) [OF that(2)] q(2) that by auto
    then show ?thesis using pl that by (simp add: placed_def)
  qed
  moreover have "r \<notin> set (qcontents t q')" if "r \<in> insert p X" "q' \<in> qids s" for r q'
  proof
    assume r: "r \<in> set (qcontents t q')"
    then have "r \<in> set (queue_of s q')" "r \<noteq> p"
      using t(2,3) [OF that(2)] q(2) by (auto split: if_splits)
    with placed_transit [OF pl] that show False by blast
  qed
  moreover have "tables_ok ?s" using pl t(1,4) by (simp add: placed_def tables_ok_def)
  ultimately show ?thesis using pl d by (auto simp: placed_def h)
qed

lemma keys_desc_cong: "(\<And>x. x \<in> set xs \<Longrightarrow> qkey (t' x) = qkey (t x)) \<Longrightarrow> keys_desc t' xs = keys_desc t xs"
  by (induction xs) (auto simp: keys_desc_def)

lemma keys_desc_mid: "keys_desc t (us @ p # vs) \<Longrightarrow> keys_desc t (us @ vs)"
  by (auto simp: keys_desc_def sorted_wrt_append)

lemma queue_tail_key: "tables_ok s \<Longrightarrow> q \<in> qids s \<Longrightarrow> qkey (queuetab s (q + 1)) = MINKEY"
  by (simp add: tables_ok_def)

lemma qids_ge: "q \<in> qids s \<Longrightarrow> NPROC \<le> q"
  by (simp add: qids_def)

lemma enqueue_placed:
  assumes pl: "placed X s" and p: "p \<in> X" "\<not> isbadpid s p" and q: "home s p = Some q" "q \<in> qids s"
    "q \<noteq> readylist s" "q \<noteq> sleepq s"
    and w: "state_of s p = PR_WAIT \<Longrightarrow> 0 \<le> prsem (proctab s p) \<and> prsem (proctab s p) < NSEM"
  obtains t where "enqueue p q s = (p, s\<lparr>queuetab := t\<rparr>)" "placed (X - {p}) (s\<lparr>queuetab := t\<rparr>)"
    "\<And>q'. q' \<in> qids s \<Longrightarrow> qcontents t q' = (if q' = q then queue_of s q @ [p] else queue_of s q')"
    "\<And>j. qkey (t j) = qkey (queuetab s j)"
proof -
  let ?t = "snd (enqueue_tab (isbadpid s) p q (queuetab s))"
  have r: "0 \<le> p" "p < NPROC" using p by (auto simp: isbadpid_def)
  note e = enqueue_qsys [where bad = "isbadpid s", OF placedD(2) [OF pl] q(2) p(2) r placed_transit [OF pl p(1)]]
  have c: "qcontents ?t q' = (if q' = q then queue_of s q @ [p] else queue_of s q')" if "q' \<in> qids s" for q'
    using e(3) that by simp
  have "placed (X - {p}) (s\<lparr>queuetab := ?t\<rparr>)"
  proof (rule placed_put [OF pl p(1) q(2,1) w e(2)])
    show "qcontents ?t q' = (if q' = q then queue_of s q @ p # [] else queue_of s q')"
      if "q' \<in> qids s" for q' using c that by simp
    show "qkey (?t (q' + 1)) = MINKEY" if "q' \<in> qids s" for q'
      using that e(4) queue_tail_key [OF placedD(1) [OF pl]] by simp
    show "keys_desc ?t (qcontents ?t (readylist s))"
      using c [OF placedD(3) [OF pl]] q(3) placedD(6) [OF pl] e(4)
        keys_desc_cong [of "queue_of s (readylist s)" ?t "queuetab s"] by simp
    show "sleep_ok ?t (qcontents ?t (sleepq s))"
      using c [OF placedD(4) [OF pl]] q(4) placedD(7) [OF pl] e(4)
        sleep_ok_cong [of "queue_of s (sleepq s)" ?t "queuetab s"] by simp
  qed auto
  moreover have "enqueue p q s = (p, s\<lparr>queuetab := ?t\<rparr>)"
    using e(1) by (simp add: enqueue_def split_beta)
  ultimately show thesis using c e(4) by (intro that [of ?t]) auto
qed

lemma insert_placed:
  assumes pl: "placed X s" and p: "p \<in> X" "\<not> isbadpid s p" and q: "home s p = Some (readylist s)"
    "state_of s p \<noteq> PR_WAIT" and key: "MINKEY < key"
  obtains t where "insert_q p (readylist s) key s = Some (OK, s\<lparr>queuetab := t\<rparr>)"
    "placed (X - {p}) (s\<lparr>queuetab := t\<rparr>)"
    "\<And>q'. q' \<in> qids s \<Longrightarrow> qcontents t q' = (if q' = readylist s
        then ins_before (queuetab s) key (queue_of s q') @ p # ins_after (queuetab s) key (queue_of s q')
        else queue_of s q')"
    "\<And>j. qkey (t j) = (if j = p then key else qkey (queuetab s j))"
proof -
  let ?q = "readylist s"
  have r: "0 \<le> p" "p < NPROC" using p by (auto simp: isbadpid_def)
  have k: "qkey (queuetab s (?q + 1)) < key"
    using queue_tail_key [OF placedD(1,3) [OF pl]] key by simp
  obtain t where t: "insert_tab (isbadpid s) p ?q key (queuetab s) = Some (OK, t)" "qsys t (qids s)"
    "\<And>q'. q' \<in> qids s \<Longrightarrow> qcontents t q' = (if q' = ?q
        then ins_before (queuetab s) key (queue_of s ?q) @ p # ins_after (queuetab s) key (queue_of s ?q)
        else queue_of s q')"
    "\<And>j. qkey (t j) = (if j = p then key else qkey (queuetab s j))"
    "same_off ({p, ?q, ?q + 1} \<union> set (queue_of s ?q)) (queuetab s) t"
    by (rule insert_qsys [where bad = "isbadpid s", OF placedD(2,3) [OF pl] p(2) r placed_transit [OF pl p(1)] k])
      (assumption, rule that)
  have "placed (X - {p}) (s\<lparr>queuetab := t\<rparr>)"
  proof (rule placed_put [OF pl p(1) placedD(3) [OF pl] q(1) _ t(2,3)])
    show "qkey (t (q' + 1)) = MINKEY" if "q' \<in> qids s" for q'
      using that t(4) queue_tail_key [OF placedD(1) [OF pl]] qids_ge [OF that] r by simp
    show "keys_desc t (qcontents t ?q)"
      using insert_keeps_desc [OF placedD(6) [OF pl] placed_transit [OF pl p(1) placedD(3) [OF pl]] t(4)]
        t(3) [OF placedD(3) [OF pl]] by simp
    have "qcontents t (sleepq s) = queue_of s (sleepq s)"
      using t(3) [OF placedD(4) [OF pl]] placedD(5) [OF pl] by simp
    then show "sleep_ok t (qcontents t (sleepq s))"
      using placedD(7) [OF pl] t(4) placed_transit [OF pl p(1) placedD(4) [OF pl]]
        sleep_ok_cong [of "queue_of s (sleepq s)" t "queuetab s"] by metis
  qed (use q in auto)
  then show thesis using t by (intro that [of t]) (auto simp: insert_q_def)
qed

lemma delta_sleep_ok:
  assumes d: "delta_split t key xs = (us, vs, k)" and o: "sleep_ok t xs" and key: "0 \<le> key" "key \<le> MAXKEY"
    and p: "p \<notin> set xs" "distinct xs"
    and t': "\<And>j. qkey (t' j) =
      (if j = p then k else if vs \<noteq> [] \<and> j = hd vs then qkey (t j) - k else qkey (t j))"
  shows "sleep_ok t' (us @ p # vs)"
proof -
  have xs: "xs = us @ vs" using d by (rule delta_split_append)
  have u: "qkey (t' x) = qkey (t x)" if "x \<in> set us" for x using that p xs by (auto simp: t' dest: hd_in_set)
  have us: "map (\<lambda>x. qkey (t' x)) us = map (\<lambda>x. qkey (t x)) us" using u by simp
  have su: "(\<Sum>x\<leftarrow>us. qkey (t x)) = key - k" by (rule delta_split_sum [OF d])
  have n: "keys_nonneg t xs" using o by (simp add: sleep_ok_def)
  have k: "0 \<le> k" "k \<le> MAXKEY" "vs \<noteq> [] \<Longrightarrow> k < qkey (t (hd vs))"
    using delta_split_rest [OF d key(1) n] key(2) by (cases vs; auto)+
  show ?thesis
  proof (cases vs)
    case Nil
    have "qkey (t' p) = k" by (simp add: t')
    moreover have "(\<Sum>x\<leftarrow>us. qkey (t' x)) = key - k" unfolding us by (rule su)
    ultimately have "(\<Sum>x\<leftarrow>us @ [p]. qkey (t' x)) = key" by simp
    moreover have "keys_nonneg t' us" using n xs u by (simp add: keys_nonneg_def)
    ultimately show ?thesis using Nil k key by (auto simp: sleep_ok_def keys_nonneg_def t')
  next
    case (Cons y ys)
    have ys: "qkey (t' x) = qkey (t x)" if "x \<in> set ys" for x using that p xs Cons by (auto simp: t')
    then have ys': "map (\<lambda>x. qkey (t' x)) ys = map (\<lambda>x. qkey (t x)) ys" by simp
    have y: "qkey (t' y) = qkey (t y) - k" "qkey (t' p) = k" using p xs Cons by (auto simp: t')
    have "(\<Sum>x\<leftarrow>us @ p # y # ys. qkey (t' x)) = (\<Sum>x\<leftarrow>xs. qkey (t x))"
      using xs Cons y arg_cong [OF us, of sum_list] arg_cong [OF ys', of sum_list] by simp
    moreover have "keys_nonneg t' (us @ p # y # ys)"
      using n xs u ys y k Cons by (auto simp: keys_nonneg_def)
    ultimately show ?thesis using o Cons by (simp add: sleep_ok_def)
  qed
qed

lemma insertd_placed:
  assumes pl: "placed X s" and p: "p \<in> X" "\<not> isbadpid s p" and q: "home s p = Some (sleepq s)"
    "state_of s p \<noteq> PR_WAIT" and key: "0 \<le> key" "key \<le> MAXKEY"
  obtains t us vs k where "insertd p (sleepq s) key s = Some (OK, s\<lparr>queuetab := t\<rparr>)"
    "placed (X - {p}) (s\<lparr>queuetab := t\<rparr>)"
    "delta_split (queuetab s) key (queue_of s (sleepq s)) = (us, vs, k)"
    "\<And>q'. q' \<in> qids s \<Longrightarrow> qcontents t q' = (if q' = sleepq s then us @ p # vs else queue_of s q')"
    "\<And>j. qkey (t j) = (if j = p then k
       else if vs \<noteq> [] \<and> j = hd vs then qkey (queuetab s j) - k else qkey (queuetab s j))"
proof -
  let ?q = "sleepq s"
  have r: "0 \<le> p" "p < NPROC" using p by (auto simp: isbadpid_def)
  have n: "keys_nonneg (queuetab s) (queue_of s ?q)" using placedD(7) [OF pl] by (simp add: sleep_ok_def)
  obtain t us vs k where t: "insertd_tab (isbadpid s) p ?q key (queuetab s) = Some (OK, t)"
    "qsys t (qids s)" "delta_split (queuetab s) key (queue_of s ?q) = (us, vs, k)"
    "\<And>q'. q' \<in> qids s \<Longrightarrow> qcontents t q' = (if q' = ?q then us @ p # vs else queue_of s q')"
    "\<And>j. qkey (t j) = (if j = p then k
       else if vs \<noteq> [] \<and> j = hd vs then qkey (queuetab s j) - k else qkey (queuetab s j))"
    "same_off ({p, ?q, ?q + 1} \<union> set (queue_of s ?q)) (queuetab s) t"
    by (rule insertd_qsys [where bad = "isbadpid s", OF placedD(2,4) [OF pl] p(2) r placed_transit [OF pl p(1)] n key])
      (assumption, rule that)
  have l: "queue_of s ?q = us @ vs" using t(3) by (rule delta_split_append)
  have dist: "distinct (queue_of s ?q)" using qsys_qlist [OF placedD(2,4) [OF pl]] by (simp add: qlist_def)
  have sl: "x \<in> set (queue_of s ?q) \<Longrightarrow> x \<notin> set (queue_of s (readylist s))" for x
    using qsys_disjoint [OF placedD(2,4,3) [OF pl]] placedD(5) [OF pl] by metis
  have "placed (X - {p}) (s\<lparr>queuetab := t\<rparr>)"
  proof (rule placed_put [OF pl p(1) placedD(4) [OF pl] q(1) _ t(2,4)])
    have vs: "x < NPROC" if "x \<in> set vs" for x
      using that l placed_pid [OF pl placedD(4) [OF pl], of x] by simp
    show "qkey (t (q' + 1)) = MINKEY" if "q' \<in> qids s" for q'
    proof -
      have "q' + 1 \<noteq> p" "q' + 1 \<notin> set vs" using qids_ge [OF that] r vs [of "q' + 1"] by auto
      then have "qkey (t (q' + 1)) = qkey (queuetab s (q' + 1))"
        using t(5) [of "q' + 1"] by (cases vs) auto
      with that show ?thesis using queue_tail_key [OF placedD(1) [OF pl]] by simp
    qed
    have "qkey (t x) = qkey (queuetab s x)" if "x \<in> set (queue_of s (readylist s))" for x
      using that sl l t(5) placed_transit [OF pl p(1) placedD(3) [OF pl]] by (cases vs) auto
    then show "keys_desc t (qcontents t (readylist s))"
      using t(4) [OF placedD(3) [OF pl]] placedD(5,6) [OF pl]
        keys_desc_cong [of "queue_of s (readylist s)" t "queuetab s"] by simp
    show "sleep_ok t (qcontents t ?q)"
      using delta_sleep_ok [OF t(3) placedD(7) [OF pl] key placed_transit [OF pl p(1) placedD(4) [OF pl]] dist t(5)]
        t(4) [OF placedD(4) [OF pl]] by simp
  qed (use q l in auto)
  moreover have "insertd p ?q key s = Some (OK, s\<lparr>queuetab := t\<rparr>)"
    using t(1) by (simp add: insertd_def)
  ultimately show thesis using t(3-5) by (intro that [of t us vs k])
qed

lemma getitem_placed:
  assumes pl: "placed X s" and q: "q \<in> qids s" "p \<in> set (queue_of s q)"
  obtains t where "getitem p s = (p, s\<lparr>queuetab := t\<rparr>)" "placed (insert p X) (s\<lparr>queuetab := t\<rparr>)"
    "\<And>q'. q' \<in> qids s \<Longrightarrow> qcontents t q' = (if q' = q then remove1 p (queue_of s q) else queue_of s q')"
    "\<And>j. qkey (t j) = qkey (queuetab s j)"
proof -
  let ?t = "snd (getitem_tab p (queuetab s))"
  obtain us vs where l: "queue_of s q = us @ p # vs" using split_list [OF q(2)] by blast
  note e = getitem_qsys [OF placedD(2) [OF pl] q]
  have "distinct (queue_of s q)" using qsys_qlist [OF placedD(2) [OF pl] q(1)] by (simp add: qlist_def)
  then have rm: "remove1 p (queue_of s q) = us @ vs" using l by (simp add: remove1_append)
  have "keys_desc ?t (qcontents ?t (readylist s)) = keys_desc (queuetab s) (qcontents ?t (readylist s))"
    using e(5) by (intro keys_desc_cong) auto
  moreover have "keys_desc (queuetab s) (qcontents ?t (readylist s))"
    using e(3) [OF placedD(3) [OF pl]] placedD(6) [OF pl] l rm keys_desc_mid [of _ us p vs]
    by (cases "readylist s = q") auto
  moreover have "sleep_ok (queuetab s) (qcontents ?t (sleepq s))"
    using e(3) [OF placedD(4) [OF pl]] placedD(7) [OF pl] l rm sleep_ok_mid [of _ us p vs]
    by (cases "sleepq s = q") auto
  then have "sleep_ok ?t (qcontents ?t (sleepq s))"
    using e(5) sleep_ok_cong [of "qcontents ?t (sleepq s)" ?t "queuetab s"] by simp
  ultimately have "placed (insert p X) (s\<lparr>queuetab := ?t\<rparr>)"
    using e(2-5) rm queue_tail_key [OF placedD(1) [OF pl]]
    by (intro placed_remove [OF pl q(1) l]) auto
  moreover have "getitem p s = (p, s\<lparr>queuetab := ?t\<rparr>)"
    using e(1) by (simp add: getitem_def split_beta)
  ultimately show thesis using e(3,5) by (intro that [of ?t])
qed

lemma dequeue_placed:
  assumes pl: "placed X s" and q: "q \<in> qids s" "queue_of s q = p # ps"
  obtains t where "dequeue q s = (p, s\<lparr>queuetab := t\<rparr>)" "placed (insert p X) (s\<lparr>queuetab := t\<rparr>)"
    "\<And>q'. q' \<in> qids s \<Longrightarrow> qcontents t q' = (if q' = q then ps else queue_of s q')"
    "\<And>j. qkey (t j) = qkey (queuetab s j)"
proof -
  let ?t = "snd (dequeue_tab q (queuetab s))"
  note e = dequeue_qsys [OF placedD(2) [OF pl] q]
  have "keys_desc ?t (qcontents ?t (readylist s)) = keys_desc (queuetab s) (qcontents ?t (readylist s))"
    using e(5) by (intro keys_desc_cong) auto
  moreover have "keys_desc (queuetab s) (qcontents ?t (readylist s))"
    using e(3) [OF placedD(3) [OF pl]] placedD(6) [OF pl] q keys_desc_mid [of _ "[]" p ps]
    by (cases "readylist s = q") auto
  moreover have "sleep_ok (queuetab s) (qcontents ?t (sleepq s))"
    using e(3) [OF placedD(4) [OF pl]] placedD(7) [OF pl] q sleep_ok_mid [of _ "[]" p ps]
    by (cases "sleepq s = q") auto
  then have "sleep_ok ?t (qcontents ?t (sleepq s))"
    using e(5) sleep_ok_cong [of "qcontents ?t (sleepq s)" ?t "queuetab s"] by simp
  ultimately have "placed (insert p X) (s\<lparr>queuetab := ?t\<rparr>)"
    using e(2-5) queue_tail_key [OF placedD(1) [OF pl]] q
    by (intro placed_remove [OF pl q(1), where us = "[]"]) auto
  moreover have "dequeue q s = (p, s\<lparr>queuetab := ?t\<rparr>)"
    using e(1) by (simp add: dequeue_def split_beta)
  ultimately show thesis using e(3,5) by (intro that [of ?t])
qed

lemma getfirst_getitem:
  "placed X s \<Longrightarrow> q \<in> qids s \<Longrightarrow> queue_of s q = p # ps \<Longrightarrow> getfirst q s = getitem p s"
  by (simp add: getfirst_def getitem_def getfirst_qsys [OF placedD(2)])

lemma getfirst_none: "placed X s \<Longrightarrow> q \<in> qids s \<Longrightarrow> queue_of s q = [] \<Longrightarrow> getfirst q s = (QEMPTY, s)"
  by (simp add: getfirst_def getfirst_tab_def qsys_isempty [OF placedD(2)])

subsection \<open>The control registers\<close>

definition write_CR :: "u64 \<Rightarrow> int \<Rightarrow> 'z kstate_scheme \<Rightarrow> 'z kstate_scheme" where
  "write_CR cr idx s =
     (let s = s\<lparr>tmp_cr := cr\<rparr> in
      if idx = 0 then s\<lparr>cr0 := ucast (tmp_cr s)\<rparr>
      else if idx = 3 then s\<lparr>cr3 := ucast (tmp_cr s)\<rparr>
      else if idx = 4 then s\<lparr>cr4 := ucast (tmp_cr s)\<rparr>
      else s)"

text \<open>\<open>movl %eax, tmp\<close> overwrites the low half of the 64-bit variable only.\<close>

definition read_CR :: "int \<Rightarrow> 'z kstate_scheme \<Rightarrow> u64 \<times> 'z kstate_scheme" where
  "read_CR idx s =
     (let load = (\<lambda>r :: u32. s\<lparr>tmp_cr := push_bit 32 (drop_bit 32 (tmp_cr s)) + ucast r\<rparr>) in
      if idx = 0 then (let s = load (cr0 s) in (tmp_cr s, s))
      else if idx = 2 then (let s = load (cr2 s) in (tmp_cr s, s))
      else if idx = 3 then (let s = load (cr3 s) in (tmp_cr s, s))
      else if idx = 4 then (let s = load (cr4 s) in (tmp_cr s, s))
      else (- 1, s))"

end
