(* ===== verification/Scheduler.thy ===== *)
theory Scheduler
  imports Kernel
begin

text \<open>
  The scheduler: \<^verbatim>\<open>system/resched.c\<close>, \<^verbatim>\<open>ready.c\<close>, \<^verbatim>\<open>resume.c\<close>, \<^verbatim>\<open>suspend.c\<close>,
  \<^verbatim>\<open>yield.c\<close>, \<^verbatim>\<open>chprio.c\<close>, \<^verbatim>\<open>getprio.c\<close>, \<^verbatim>\<open>getpid.c\<close>, and the kernel invariant.

  A context switch is the point where \<open>currpid\<close> changes.  \<open>resched\<close> says whether it executed
  \<open>ctxsw\<close>; a call that contains it yields \<open>Switch k\<close> when the caller lost the processor, with
  the value it will return, or the code that is left to run, when it is resumed.
\<close>

text \<open>The part of \<open>resched\<close> from the removal of the new process to the context switch.\<close>

definition dispatch :: "'z kstate_scheme \<Rightarrow> 'z kstate_scheme" where
  "dispatch s =
     (let (pid, s) = dequeue (readylist s) s;
          s = s\<lparr>currpid := pid\<rparr>;
          ptnew = currpid s;
          s = set_prstate ptnew PR_CURR s;
          s = s\<lparr>preempt := QUANTUM\<rparr>;
          s = write_CR (PDBR (proctab s ptnew)) 3 s;
          s = s\<lparr>check_CR3 := PDBR (proctab s ptnew)\<rparr>
      in s)"

definition resched :: "'z kstate_scheme \<Rightarrow> (bool \<times> 'z kstate_scheme) option" where
  "resched s =
     (if ndefers s > 0 then Some (False, s\<lparr>attempt := True\<rparr>)
      else
        let ptold = currpid s in
        if state_of s ptold = PR_CURR \<and>
           prprio (proctab s ptold) > firstkey (queuetab s) (readylist s)
        then Some (False, s)
        else do {
          s \<leftarrow> (if state_of s ptold = PR_CURR
               then (let s = set_prstate ptold PR_READY s in
                     map_option snd
                       (insert_q (currpid s) (readylist s) (prprio (proctab s ptold)) s))
               else Some s);
          Some (True, dispatch s)
        })"

definition resched_cntl :: "int \<Rightarrow> 'z kstate_scheme \<Rightarrow> ((int, int) outcome \<times> 'z kstate_scheme) option" where
  "resched_cntl defer s =
     (if defer = 1 then
        (let old = ndefers s; s = s\<lparr>ndefers := wrap32 (ndefers s + 1)\<rparr> in
         Some (Ret OK, if old = 0 then s\<lparr>attempt := False\<rparr> else s))
      else if defer = 2 then
        (if ndefers s \<le> 0 then Some (Ret SYSERR, s)
         else
           let s = s\<lparr>ndefers := wrap32 (ndefers s - 1)\<rparr> in
           if ndefers s = 0 \<and> attempt s
           then do { (sw, s) \<leftarrow> resched s; Some (if sw then Switch OK else Ret OK, s) }
           else Some (Ret OK, s))
      else Some (Ret SYSERR, s))"

abbreviation (input) DEFER_START :: int where "DEFER_START \<equiv> 1"
abbreviation (input) DEFER_STOP :: int where "DEFER_STOP \<equiv> 2"

definition ready :: "int \<Rightarrow> 'z kstate_scheme \<Rightarrow> ((int, int) outcome \<times> 'z kstate_scheme) option" where
  "ready pid s =
     (if isbadpid s pid then Some (Ret SYSERR, s)
      else do {
        let s = set_prstate pid PR_READY s;
        (r, s) \<leftarrow> insert_q pid (readylist s) (prprio (proctab s pid)) s;
        (sw, s) \<leftarrow> resched s;
        Some (if sw then Switch OK else Ret OK, s)
      })"

definition yield :: "'z kstate_scheme \<Rightarrow> ((int, int) outcome \<times> 'z kstate_scheme) option" where
  "yield s = do { (sw, s) \<leftarrow> resched s; Some (if sw then Switch OK else Ret OK, s) }"

text \<open>What a call returns when its caller goes on after a call that may have switched.\<close>

definition then_return :: "('v, 'w) outcome \<Rightarrow> 'r \<Rightarrow> ('r, 'r) outcome" where
  "then_return r v = (case r of Ret _ \<Rightarrow> Ret v | Switch _ \<Rightarrow> Switch v)"

definition resume :: "int \<Rightarrow> 'z kstate_scheme \<Rightarrow> ((int, int) outcome \<times> 'z kstate_scheme) option" where
  "resume pid s =
     (if isbadpid s pid then Some (Ret SYSERR, s)
      else if state_of s pid \<noteq> PR_SUSP then Some (Ret SYSERR, s)
      else do {
        let prio = prprio (proctab s pid);
        (r, s) \<leftarrow> ready pid s;
        Some (then_return r prio, s)
      })"

text \<open>
  \<open>suspend\<close> reads the priority after the reschedule: when the current process suspends
  itself the value is read when it runs again, by \<open>suspend_resume\<close>.
\<close>

definition suspend :: "int \<Rightarrow> 'z kstate_scheme \<Rightarrow> ((int, int) outcome \<times> 'z kstate_scheme) option" where
  "suspend pid s =
     (if isbadpid s pid \<or> pid = NULLPROC then Some (Ret SYSERR, s)
      else if state_of s pid \<noteq> PR_CURR \<and> state_of s pid \<noteq> PR_READY then Some (Ret SYSERR, s)
      else if state_of s pid = PR_READY then
        (let (r, s) = getitem pid s;
             s = set_prstate pid PR_SUSP s
         in Some (Ret (prprio (proctab s pid)), s))
      else do {
        let s = set_prstate pid PR_SUSP s;
        (sw, s) \<leftarrow> resched s;
        Some (if sw then Switch pid else Ret (prprio (proctab s pid)), s)
      })"

definition suspend_resume :: "int \<Rightarrow> 'z kstate_scheme \<Rightarrow> int" where
  "suspend_resume pid s = prprio (proctab s pid)"

definition chprio :: "int \<Rightarrow> int \<Rightarrow> 'z kstate_scheme \<Rightarrow> int \<times> 'z kstate_scheme" where
  "chprio pid newprio s =
     (if isbadpid s pid then (SYSERR, s)
      else
        let oldprio = prprio (proctab s pid);
            s = set_prprio pid newprio s
        in (oldprio, s))"

definition getprio :: "int \<Rightarrow> 'z kstate_scheme \<Rightarrow> int" where
  "getprio pid s = (if isbadpid s pid then SYSERR else prprio (proctab s pid))"

definition getpid :: "'z kstate_scheme \<Rightarrow> int" where
  "getpid s = currpid s"

subsection \<open>The kernel invariant\<close>

text \<open>
  \<open>sem_ok s k\<close>: a semaphore in use with a negative count has exactly that many processes in
  its queue, with a non-negative count none; a free semaphore has an empty queue.
\<close>

definition sem_ok :: "'z kstate_scheme \<Rightarrow> int \<Rightarrow> bool" where
  "sem_ok s k \<longleftrightarrow>
     (let e = semtab s k; n = int (length (queue_of s (squeue e))) in
      (sstate e = S_USED \<longrightarrow> n = max 0 (- scount e)) \<and> (sstate e = S_FREE \<longrightarrow> n = 0) \<and>
      - 2147483648 \<le> scount e \<and> scount e \<le> 2147483647)"

definition sems_ok :: "'z kstate_scheme \<Rightarrow> bool" where
  "sems_ok s \<longleftrightarrow> 0 \<le> nextsem s \<and> nextsem s < NSEM \<and> (\<forall>k \<in> {0..<NSEM}. sem_ok s k)"

text \<open>
  \<open>can_resched X s\<close>: the state in which \<open>resched\<close> may be called, the processes of \<open>X\<close> being in
  transit: only the current process can be in state \<open>PR_CURR\<close>, and the null process is ready
  or current, so that there is always something to run.
\<close>

definition can_resched :: "int set \<Rightarrow> 'z kstate_scheme \<Rightarrow> bool" where
  "can_resched X s \<longleftrightarrow> placed X s \<and> 0 \<le> currpid s \<and> currpid s < NPROC \<and>
     (\<forall>p \<in> {0..<NPROC} - X. state_of s p = PR_CURR \<longrightarrow> p = currpid s) \<and>
     (state_of s 0 = PR_READY \<or> state_of s 0 = PR_CURR)"

definition kinv :: "'z kstate_scheme \<Rightarrow> bool" where
  "kinv s \<longleftrightarrow> can_resched {} s \<and> sems_ok s \<and> state_of s (currpid s) = PR_CURR \<and> ndefers s = 0"

text \<open>Everything except the process states, the queue table and what a switch sets.\<close>

definition same_kernel :: "'z kstate_scheme \<Rightarrow> 'z kstate_scheme \<Rightarrow> bool" where
  "same_kernel s s' \<longleftrightarrow>
     prcount s' = prcount s \<and> nextpid s' = nextpid s \<and> vnextpid s' = vnextpid s \<and>
     nextqid s' = nextqid s \<and> readylist s' = readylist s \<and> sleepq s' = sleepq s \<and>
     semtab s' = semtab s \<and> nextsem s' = nextsem s \<and> ndefers s' = ndefers s \<and>
     clktime s' = clktime s \<and> myglobalclock s' = myglobalclock s \<and> count1000 s' = count1000 s \<and>
     kstate.more s' = kstate.more s \<and>
     (\<forall>p. (proctab s' p)\<lparr>prstate := PR_FREE\<rparr> = (proctab s p)\<lparr>prstate := PR_FREE\<rparr>)"

lemma same_kernel_refl [simp]: "same_kernel s s"
  by (simp add: same_kernel_def)

lemma same_kernel_trans: "same_kernel s s' \<Longrightarrow> same_kernel s' s'' \<Longrightarrow> same_kernel s s''"
  by (simp add: same_kernel_def)

lemma same_kernel_fields:
  assumes "same_kernel s s'"
  shows "prprio (proctab s' p) = prprio (proctab s p)" "prsem (proctab s' p) = prsem (proctab s p)"
    "prmsg (proctab s' p) = prmsg (proctab s p)" "prhasmsg (proctab s' p) = prhasmsg (proctab s p)"
    "prparent (proctab s' p) = prparent (proctab s p)" "PDBR (proctab s' p) = PDBR (proctab s p)"
    "qids s' = qids s" "readylist s' = readylist s" "sleepq s' = sleepq s" "semtab s' = semtab s"
    "ndefers s' = ndefers s" "kstate.more s' = kstate.more s" "nextsem s' = nextsem s"
proof -
  have *: "(proctab s' p)\<lparr>prstate := PR_FREE\<rparr> = (proctab s p)\<lparr>prstate := PR_FREE\<rparr>"
    using assms by (simp add: same_kernel_def)
  show "prprio (proctab s' p) = prprio (proctab s p)" using arg_cong [OF *, of prprio] by simp
  show "prsem (proctab s' p) = prsem (proctab s p)" using arg_cong [OF *, of prsem] by simp
  show "prmsg (proctab s' p) = prmsg (proctab s p)" using arg_cong [OF *, of prmsg] by simp
  show "prhasmsg (proctab s' p) = prhasmsg (proctab s p)" using arg_cong [OF *, of prhasmsg] by simp
  show "prparent (proctab s' p) = prparent (proctab s p)" using arg_cong [OF *, of prparent] by simp
  show "PDBR (proctab s' p) = PDBR (proctab s p)" using arg_cong [OF *, of PDBR] by simp
  show "qids s' = qids s" "readylist s' = readylist s" "sleepq s' = sleepq s" "semtab s' = semtab s"
    "ndefers s' = ndefers s" "kstate.more s' = kstate.more s" "nextsem s' = nextsem s"
    using assms by (auto simp: same_kernel_def qids_def)
qed

lemma same_kernel_set_prstate [simp]: "same_kernel s (set_prstate p st s)"
  by (simp add: same_kernel_def set_prstate_def)

lemma same_kernel_queuetab [simp]: "same_kernel s (s\<lparr>queuetab := t\<rparr>)"
  by (simp add: same_kernel_def)

subsection \<open>What rescheduling does\<close>

lemma write_CR_fields [simp]:
  "proctab (write_CR c i s) = proctab s" "queuetab (write_CR c i s) = queuetab s"
  "currpid (write_CR c i s) = currpid s" "readylist (write_CR c i s) = readylist s"
  "sleepq (write_CR c i s) = sleepq s" "semtab (write_CR c i s) = semtab s"
  "nextqid (write_CR c i s) = nextqid s" "ndefers (write_CR c i s) = ndefers s"
  "prcount (write_CR c i s) = prcount s" "nextpid (write_CR c i s) = nextpid s"
  "vnextpid (write_CR c i s) = vnextpid s" "nextsem (write_CR c i s) = nextsem s"
  "clktime (write_CR c i s) = clktime s" "myglobalclock (write_CR c i s) = myglobalclock s"
  "count1000 (write_CR c i s) = count1000 s" "kstate.more (write_CR c i s) = kstate.more s"
  "attempt (write_CR c i s) = attempt s" "preempt (write_CR c i s) = preempt s"
  by (simp_all add: write_CR_def Let_def)

lemma cr3_write_CR [simp]: "cr3 (write_CR c 3 s) = ucast c"
  by (simp add: write_CR_def Let_def)

lemma set_prstate_fields [simp]:
  "state_of (set_prstate p st s) r = (if r = p then st else state_of s r)"
  "queuetab (set_prstate p st s) = queuetab s" "readylist (set_prstate p st s) = readylist s"
  "sleepq (set_prstate p st s) = sleepq s" "currpid (set_prstate p st s) = currpid s"
  "ndefers (set_prstate p st s) = ndefers s" "semtab (set_prstate p st s) = semtab s"
  "prprio (proctab (set_prstate p st s) r) = prprio (proctab s r)"
  "prsem (proctab (set_prstate p st s) r) = prsem (proctab s r)"
  "qids (set_prstate p st s) = qids s" "nextsem (set_prstate p st s) = nextsem s"
  by (simp_all add: set_prstate_def qids_def)

lemma home_simps:
  "state_of s p = PR_READY \<Longrightarrow> home s p = Some (readylist s)"
  "state_of s p \<in> {PR_FREE, PR_CURR, PR_RECV, PR_SUSP} \<Longrightarrow> home s p = None"
  "state_of s p \<in> {PR_SLEEP, PR_RECTIM} \<Longrightarrow> home s p = Some (sleepq s)"
  "state_of s p = PR_WAIT \<Longrightarrow> home s p = Some (squeue (semtab s (prsem (proctab s p))))"
  by (auto simp: home_def)

lemma home_readylist:
  assumes "placed X s" "p \<in> {0..<NPROC}" "p \<notin> X" "home s p = Some (readylist s)"
  shows "state_of s p = PR_READY"
proof (cases "state_of s p = PR_WAIT")
  case True
  then have "prsem (proctab s p) \<in> {0..<NSEM}" using assms by (auto simp: placed_def)
  then have "squeue (semtab s (prsem (proctab s p))) \<noteq> readylist s"
    using assms(1) by (auto simp: placed_def tables_ok_def)
  with True assms(4) show ?thesis by (simp add: home_def)
next
  case False
  then show ?thesis using assms(4) placedD(5) [OF assms(1)] by (auto simp: home_def split: prstate.splits)
qed

lemma ready_iff:
  assumes "placed X s" "p \<in> {0..<NPROC}" "p \<notin> X"
  shows "p \<in> set (queue_of s (readylist s)) \<longleftrightarrow> state_of s p = PR_READY"
  using placed_home [OF assms(1), of p "readylist s"] placedD(3) [OF assms(1)] assms(2,3)
    home_readylist [OF assms] home_simps(1) [of s p] by auto

lemma placed_set_prstate: "placed X s \<Longrightarrow> p \<in> X \<Longrightarrow> placed X (set_prstate p st s)"
  by (rule placed_set_state [where e = "(proctab s p)\<lparr>prstate := st\<rparr>"]) (simp_all add: set_prstate_def)

lemma placed_prio:
  "placed X s \<Longrightarrow> 0 \<le> p \<Longrightarrow> p < NPROC \<Longrightarrow> - 32768 \<le> prprio (proctab s p) \<and> prprio (proctab s p) \<le> 32767"
  by (simp add: placed_def)

lemma dispatch_ok:
  assumes pl: "placed {} s" and q: "queue_of s (readylist s) = h # hs"
  shows "placed {} (dispatch s)" and "currpid (dispatch s) = h"
    and "q' \<in> qids s \<Longrightarrow> queue_of (dispatch s) q' = (if q' = readylist s then hs else queue_of s q')"
    and "same_kernel s (dispatch s)"
    and "state_of (dispatch s) r = (if r = h then PR_CURR else state_of s r)"
    and "qkey (queuetab (dispatch s) j) = qkey (queuetab s j)"
    and "cr3 (dispatch s) = ucast (PDBR (proctab s h))" "check_CR3 (dispatch s) = PDBR (proctab s h)"
    and "preempt (dispatch s) = QUANTUM"
proof -
  obtain t where t: "dequeue (readylist s) s = (h, s\<lparr>queuetab := t\<rparr>)"
    "placed {h} (s\<lparr>queuetab := t\<rparr>)"
    "\<And>q'. q' \<in> qids s \<Longrightarrow> qcontents t q' = (if q' = readylist s then hs else queue_of s q')"
    "\<And>j. qkey (t j) = qkey (queuetab s j)"
    using dequeue_placed [OF pl placedD(3) [OF pl] q] by auto
  let ?s1 = "set_prstate h PR_CURR (s\<lparr>queuetab := t, currpid := h\<rparr>)"
  have d: "dispatch s = (write_CR (PDBR (proctab s h)) 3 (?s1\<lparr>preempt := QUANTUM\<rparr>))
       \<lparr>check_CR3 := PDBR (proctab s h)\<rparr>"
    by (simp add: dispatch_def t(1) Let_def set_prstate_def)
  have "placed {h} (s\<lparr>queuetab := t, currpid := h\<rparr>)"
    using t(2) by (rule placed_cong) simp_all
  then have "placed {h} ?s1" by (rule placed_set_prstate) simp
  then have "placed {} ?s1" using placed_drop [of "{h}" ?s1 h] home_simps(2) [of ?s1 h] by simp
  then show "placed {} (dispatch s)" by (rule placed_cong) (simp_all add: d)
  show "currpid (dispatch s) = h" "preempt (dispatch s) = QUANTUM"
    "cr3 (dispatch s) = ucast (PDBR (proctab s h))" "check_CR3 (dispatch s) = PDBR (proctab s h)"
    "state_of (dispatch s) r = (if r = h then PR_CURR else state_of s r)"
    "qkey (queuetab (dispatch s) j) = qkey (queuetab s j)"
    by (simp_all add: d t(4))
  show "q' \<in> qids s \<Longrightarrow> queue_of (dispatch s) q' = (if q' = readylist s then hs else queue_of s q')"
    by (simp add: d t(3))
  show "same_kernel s (dispatch s)"
    by (simp add: d same_kernel_def set_prstate_def)
qed

lemma can_reschedD:
  assumes "can_resched X s"
  shows "placed X s" "0 \<le> currpid s" "currpid s < NPROC"
    "p \<in> {0..<NPROC} \<Longrightarrow> p \<notin> X \<Longrightarrow> state_of s p = PR_CURR \<Longrightarrow> p = currpid s"
    "state_of s 0 = PR_READY \<or> state_of s 0 = PR_CURR"
  using assms by (auto simp: can_resched_def)

lemma ready_nonempty:
  assumes "can_resched {} s" "state_of s (currpid s) \<noteq> PR_CURR"
  shows "queue_of s (readylist s) \<noteq> []"
proof -
  have "state_of s 0 = PR_READY"
    using can_reschedD(4) [OF assms(1), of 0] can_reschedD(5) [OF assms(1)] assms(2) by fastforce
  then have "0 \<in> set (queue_of s (readylist s))"
    using ready_iff [OF can_reschedD(1) [OF assms(1)], of 0] by simp
  then show ?thesis by auto
qed

lemma dispatch_can_resched:
  assumes c: "can_resched {} s" and n: "state_of s (currpid s) \<noteq> PR_CURR"
  shows "can_resched {} (dispatch s)" "state_of (dispatch s) (currpid (dispatch s)) = PR_CURR"
proof -
  obtain h hs where q: "queue_of s (readylist s) = h # hs"
    using ready_nonempty [OF assms] by (cases "queue_of s (readylist s)") auto
  note d = dispatch_ok [OF can_reschedD(1) [OF c] q]
  have h: "0 \<le> h" "h < NPROC"
    using placed_pid [OF can_reschedD(1) [OF c] placedD(3) [OF can_reschedD(1) [OF c]]] q by auto
  show "state_of (dispatch s) (currpid (dispatch s)) = PR_CURR" by (simp add: d)
  have "state_of s p \<noteq> PR_CURR" if "p \<in> {0..<NPROC}" for p
    using can_reschedD(4) [OF c that] n by auto
  then show "can_resched {} (dispatch s)"
    using c h d by (auto simp: can_resched_def)
qed

text \<open>
  The current process, when it gives way, is inserted in the ready list behind every process
  of at least its priority; then the head of the list runs.
\<close>

text \<open>The queue table \<open>t\<close> is that of \<open>s\<close> with \<open>p\<close> inserted in the ready list by priority.\<close>

definition ready_table :: "'z kstate_scheme \<Rightarrow> int \<Rightarrow> qtab \<Rightarrow> bool" where
  "ready_table s p t \<longleftrightarrow>
     (\<forall>q' \<in> qids s. qcontents t q' = (if q' = readylist s
       then ins_before (queuetab s) (prprio (proctab s p)) (queue_of s q') @ p #
         ins_after (queuetab s) (prprio (proctab s p)) (queue_of s q')
       else queue_of s q')) \<and>
     (\<forall>j. qkey (t j) = (if j = p then prprio (proctab s p) else qkey (queuetab s j)))"

lemma ready_insert:
  assumes c: "can_resched X s" and p: "p \<in> X" "0 \<le> p" "p < NPROC"
  obtains t where "insert_q p (readylist s) (prprio (proctab s p)) (set_prstate p PR_READY s) =
      Some (OK, (set_prstate p PR_READY s)\<lparr>queuetab := t\<rparr>)"
    "can_resched (X - {p}) ((set_prstate p PR_READY s)\<lparr>queuetab := t\<rparr>)"
    "ready_table s p t"
proof -
  let ?s = "set_prstate p PR_READY s"
  have pl': "placed X ?s" using can_reschedD(1) [OF c] p(1) by (rule placed_set_prstate)
  have nb: "\<not> isbadpid ?s p" using p by (simp add: isbadpid_def)
  have k: "MINKEY < prprio (proctab s p)"
    using placed_prio [OF can_reschedD(1) [OF c] p(2,3)] by linarith
  have h: "home ?s p = Some (readylist ?s)" by (simp add: home_def)
  obtain t where t: "insert_q p (readylist ?s) (prprio (proctab s p)) ?s = Some (OK, ?s\<lparr>queuetab := t\<rparr>)"
    "placed (X - {p}) (?s\<lparr>queuetab := t\<rparr>)"
    "\<And>q'. q' \<in> qids ?s \<Longrightarrow> qcontents t q' = (if q' = readylist ?s
        then ins_before (queuetab ?s) (prprio (proctab s p)) (queue_of ?s q') @ p #
          ins_after (queuetab ?s) (prprio (proctab s p)) (queue_of ?s q')
        else queue_of ?s q')"
    "\<And>j. qkey (t j) = (if j = p then prprio (proctab s p) else qkey (queuetab ?s j))"
    by (rule insert_placed [OF pl' p(1) nb h _ k]) auto
  have "can_resched (X - {p}) (?s\<lparr>queuetab := t\<rparr>)"
    using c t(2) by (auto simp: can_resched_def)
  moreover have "ready_table s p t" using t(3,4) by (simp add: ready_table_def)
  ultimately show thesis using t(1) by (intro that [of t]) auto
qed

lemma can_resched_take:
  assumes c: "can_resched {} s" and h: "home s p = None" "0 \<le> p" "p < NPROC"
  shows "can_resched {p} s"
  using c placed_take [OF can_reschedD(1) [OF c] h(2,3,1)] by (auto simp: can_resched_def)

lemma dispatch_head_max:
  assumes pl: "placed {} s" and q: "queue_of s (readylist s) = h # hs" and p: "p \<in> set hs"
  shows "qkey (queuetab (dispatch s) p) \<le> qkey (queuetab (dispatch s) h)"
  using placedD(6) [OF pl] p by (simp add: dispatch_ok(6) [OF pl q] q keys_desc_def)

definition sched_effect :: "bool \<Rightarrow> 'z kstate_scheme \<Rightarrow> 'z kstate_scheme \<Rightarrow> bool" where
  "sched_effect sw s s' \<longleftrightarrow> can_resched {} s' \<and> state_of s' (currpid s') = PR_CURR \<and> same_kernel s s' \<and>
     (\<forall>q \<in> qids s - {readylist s}. queue_of s' q = queue_of s q) \<and>
     (\<not> sw \<longrightarrow> s' = s) \<and>
     (\<forall>p \<in> set (queue_of s' (readylist s')). qkey (queuetab s' p) \<le>
        (if sw then qkey (queuetab s' (currpid s')) else prprio (proctab s' (currpid s')))) \<and>
     (\<forall>p. state_of s' p = state_of s p \<or> {state_of s p, state_of s' p} \<subseteq> {PR_READY, PR_CURR}) \<and>
     (\<forall>j. \<not> (j = currpid s \<and> state_of s j = PR_CURR) \<longrightarrow> qkey (queuetab s' j) = qkey (queuetab s j)) \<and>
     (sw \<longrightarrow> cr3 s' = ucast (PDBR (proctab s' (currpid s'))))"

lemma dispatch_effect:
  assumes c: "can_resched {} s" and n: "state_of s (currpid s) \<noteq> PR_CURR"
  shows "sched_effect True s (dispatch s)"
proof -
  note pl = can_reschedD(1) [OF c]
  obtain h hs where q: "queue_of s (readylist s) = h # hs"
    using ready_nonempty [OF assms] by (cases "queue_of s (readylist s)") auto
  note d = dispatch_ok [OF pl q]
  have h: "0 \<le> h" "h < NPROC" "state_of s h = PR_READY"
    using placed_pid [OF pl placedD(3) [OF pl], of h] ready_iff [OF pl, of h] q by auto
  have rl: "readylist (dispatch s) = readylist s"
    using same_kernel_fields [OF d(4)] by simp
  have "queue_of (dispatch s) (readylist (dispatch s)) = hs"
    using d(3) [OF placedD(3) [OF pl]] rl by simp
  then have "\<forall>p \<in> set (queue_of (dispatch s) (readylist (dispatch s))).
      qkey (queuetab (dispatch s) p) \<le> qkey (queuetab (dispatch s) (currpid (dispatch s)))"
    using dispatch_head_max [OF pl q] d(2) by simp
  moreover have "cr3 (dispatch s) = ucast (PDBR (proctab (dispatch s) (currpid (dispatch s))))"
    using d(2,7) same_kernel_fields(6) [OF d(4)] by simp
  ultimately show ?thesis
    using dispatch_can_resched [OF c n] d(3-6) h by (auto simp: sched_effect_def)
qed

lemma sched_effect_pre:
  assumes e: "sched_effect True s1 s2" and k: "same_kernel s s1" "currpid s1 = currpid s"
    and q: "\<And>q. q \<in> qids s \<Longrightarrow> q \<noteq> readylist s \<Longrightarrow> queue_of s1 q = queue_of s q"
    and st: "\<And>p. state_of s1 p = state_of s p \<or> {state_of s p, state_of s1 p} \<subseteq> {PR_READY, PR_CURR}"
    and key: "\<And>j. j \<noteq> currpid s \<Longrightarrow> qkey (queuetab s1 j) = qkey (queuetab s j)"
    and n: "state_of s (currpid s) = PR_CURR"
  shows "sched_effect True s s2"
proof -
  note f = same_kernel_fields [OF k(1)]
  have "queue_of s2 q = queue_of s q" if "q \<in> qids s - {readylist s}" for q
    using e q that f by (auto simp: sched_effect_def)
  moreover have "state_of s2 p = state_of s p \<or> {state_of s p, state_of s2 p} \<subseteq> {PR_READY, PR_CURR}" for p
  proof -
    have "state_of s2 p = state_of s1 p \<or> {state_of s1 p, state_of s2 p} \<subseteq> {PR_READY, PR_CURR}"
      using e by (simp add: sched_effect_def)
    with st [of p] show ?thesis by auto
  qed
  moreover have "same_kernel s s2" using e k(1) same_kernel_trans by (auto simp: sched_effect_def)
  moreover have "qkey (queuetab s2 j) = qkey (queuetab s j)"
    if "\<not> (j = currpid s \<and> state_of s j = PR_CURR)" for j
  proof -
    have "j \<noteq> currpid s" using that n by blast
    then show ?thesis using e key [of j] k(2) by (simp add: sched_effect_def)
  qed
  ultimately show ?thesis using e by (simp add: sched_effect_def)
qed

lemma sched_effect_sleepers:
  assumes "placed {} s" "sched_effect sw s s'"
  shows "sleepq s' = sleepq s" "queue_of s' (sleepq s) = queue_of s (sleepq s)"
    "x \<in> set (queue_of s (sleepq s)) \<Longrightarrow> qkey (queuetab s' x) = qkey (queuetab s x)"
proof -
  show "sleepq s' = sleepq s" "queue_of s' (sleepq s) = queue_of s (sleepq s)"
    using assms(2) placedD(4,5) [OF assms(1)] same_kernel_fields(9) [of s s'] by (auto simp: sched_effect_def)
  show "qkey (queuetab s' x) = qkey (queuetab s x)" if "x \<in> set (queue_of s (sleepq s))"
  proof -
    have "state_of s x \<noteq> PR_CURR" by (rule placed_in_queue(6) [OF assms(1) placedD(4) [OF assms(1)] that])
    then have "\<not> (x = currpid s \<and> state_of s x = PR_CURR)" by blast
    then show ?thesis using assms(2) unfolding sched_effect_def by blast
  qed
qed

lemma resched_effect:
  assumes c: "can_resched {} s" and n: "ndefers s = 0"
  obtains sw s' where "resched s = Some (sw, s')" "sched_effect sw s s'"
proof (cases "state_of s (currpid s) = PR_CURR")
  case False
  then have "resched s = Some (True, dispatch s)" using n by (simp add: resched_def Let_def)
  then show thesis using that dispatch_effect [OF c False] by blast
next
  case st: True
  note pl = can_reschedD(1) [OF c]
  let ?p = "currpid s"
  have fk: "firstkey (queuetab s) (readylist s) =
      qkey (queuetab s (hd_or (queue_of s (readylist s)) (readylist s + 1)))"
    using qsys_firstid [OF placedD(2,3) [OF pl]] by (simp add: firstkey_def)
  show thesis
  proof (cases "prprio (proctab s ?p) > firstkey (queuetab s) (readylist s)")
    case True
    then have "resched s = Some (False, s)" using n st by (simp add: resched_def Let_def)
    moreover have "qkey (queuetab s p) \<le> prprio (proctab s ?p)"
      if "p \<in> set (queue_of s (readylist s))" for p
      using that placedD(6) [OF pl] True fk
      by (cases "queue_of s (readylist s)") (auto simp: keys_desc_def)
    ultimately show thesis using that c st by (auto simp: sched_effect_def)
  next
    case False
    have c': "can_resched {?p} s"
      using c st can_reschedD(2,3) [OF c] by (intro can_resched_take home_simps(2)) auto
    obtain t where t: "insert_q ?p (readylist s) (prprio (proctab s ?p)) (set_prstate ?p PR_READY s) =
        Some (OK, (set_prstate ?p PR_READY s)\<lparr>queuetab := t\<rparr>)"
      "can_resched ({?p} - {?p}) ((set_prstate ?p PR_READY s)\<lparr>queuetab := t\<rparr>)"
      "ready_table s ?p t"
      by (rule ready_insert [OF c' _ can_reschedD(2,3) [OF c]]) (simp, rule that)
    let ?s = "(set_prstate ?p PR_READY s)\<lparr>queuetab := t\<rparr>"
    have "sched_effect True ?s (dispatch ?s)"
      using dispatch_effect [of ?s] t(2) by simp
    then have "sched_effect True s (dispatch ?s)"
    proof (rule sched_effect_pre)
      show "same_kernel s ?s" by (rule same_kernel_trans [OF same_kernel_set_prstate same_kernel_queuetab])
    qed (use st t(3) in \<open>auto simp: ready_table_def\<close>)
    moreover have "resched s = Some (True, dispatch ?s)"
      using n st False t(1) by (simp add: resched_def Let_def)
    ultimately show thesis using that by blast
  qed
qed

subsection \<open>Making a process ready\<close>

lemma ready_deferred:
  assumes c: "can_resched {p} s" and p: "\<not> isbadpid s p" and n: "ndefers s > 0"
  obtains s' where "ready p s = Some (Ret OK, s')" "can_resched {} s'" "same_kernel s s'"
    "currpid s' = currpid s" "attempt s'"
    "\<And>q. q \<in> qids s \<Longrightarrow> q \<noteq> readylist s \<Longrightarrow> queue_of s' q = queue_of s q"
    "\<And>r. state_of s' r = (if r = p then PR_READY else state_of s r)"
    "\<And>j. j \<noteq> p \<Longrightarrow> qkey (queuetab s' j) = qkey (queuetab s j)"
proof -
  have r: "0 \<le> p" "p < NPROC" using p by (auto simp: isbadpid_def)
  obtain t where t: "insert_q p (readylist s) (prprio (proctab s p)) (set_prstate p PR_READY s) =
      Some (OK, (set_prstate p PR_READY s)\<lparr>queuetab := t\<rparr>)"
    "can_resched ({p} - {p}) ((set_prstate p PR_READY s)\<lparr>queuetab := t\<rparr>)"
    "ready_table s p t"
    by (rule ready_insert [OF c _ r]) (simp, rule that)
  let ?s = "(set_prstate p PR_READY s)\<lparr>queuetab := t, attempt := True\<rparr>"
  have "ready p s = Some (Ret OK, ?s)"
    using p t(1) n by (simp add: ready_def resched_def Let_def)
  moreover have "can_resched {} ?s"
    using t(2) placed_cong [OF can_reschedD(1) [OF t(2)], of ?s]
    by (auto simp: can_resched_def)
  moreover have "same_kernel s ?s"
    by (simp add: same_kernel_def set_prstate_def)
  ultimately show thesis using t(3) by (intro that [of ?s]) (auto simp: ready_table_def)
qed

lemma ready_effect:
  assumes c: "can_resched {p} s" and p: "\<not> isbadpid s p" and n: "ndefers s = 0"
  obtains sw t s' where "ready p s = Some (if sw then Switch OK else Ret OK, s')"
    "sched_effect sw ((set_prstate p PR_READY s)\<lparr>queuetab := t\<rparr>) s'"
    "ready_table s p t" "can_resched {} ((set_prstate p PR_READY s)\<lparr>queuetab := t\<rparr>)"
proof -
  have r: "0 \<le> p" "p < NPROC" using p by (auto simp: isbadpid_def)
  obtain t where t: "insert_q p (readylist s) (prprio (proctab s p)) (set_prstate p PR_READY s) =
      Some (OK, (set_prstate p PR_READY s)\<lparr>queuetab := t\<rparr>)"
    "can_resched ({p} - {p}) ((set_prstate p PR_READY s)\<lparr>queuetab := t\<rparr>)"
    "ready_table s p t"
    by (rule ready_insert [OF c _ r]) (simp, rule that)
  let ?s = "(set_prstate p PR_READY s)\<lparr>queuetab := t\<rparr>"
  obtain sw s' where e: "resched ?s = Some (sw, s')" "sched_effect sw ?s s'"
    using resched_effect [of ?s] t(2) n by auto
  have "ready p s = Some (if sw then Switch OK else Ret OK, s')"
    using p t(1) e(1) by (simp add: ready_def)
  then show thesis using that e(2) t(2,3) by simp
qed

lemma ready_bad: "isbadpid s p \<Longrightarrow> ready p s = Some (Ret SYSERR, s)"
  by (simp add: ready_def)

lemma sems_ok_cong:
  assumes "tables_ok s" "sems_ok s" "semtab s' = semtab s" "nextsem s' = nextsem s"
    and "\<And>q. q \<in> qids s \<Longrightarrow> q \<noteq> readylist s \<Longrightarrow> q \<noteq> sleepq s \<Longrightarrow> queue_of s' q = queue_of s q"
  shows "sems_ok s'"
  using assms by (auto simp: sems_ok_def sem_ok_def tables_ok_def)

lemma sched_effect_kinv:
  assumes e: "sched_effect sw s s'" and "tables_ok s" "sems_ok s" "ndefers s = 0"
  shows "kinv s'"
proof -
  have "sems_ok s'"
    by (rule sems_ok_cong [of s]) (use assms same_kernel_fields [of s s'] in \<open>auto simp: sched_effect_def\<close>)
  moreover have "ndefers s' = 0" using assms same_kernel_fields [of s s'] by (simp add: sched_effect_def)
  ultimately show ?thesis using e by (simp add: kinv_def sched_effect_def)
qed

lemma kinvD:
  assumes "kinv s"
  shows "can_resched {} s" "sems_ok s" "state_of s (currpid s) = PR_CURR" "ndefers s = 0"
    "placed {} s" "tables_ok s" "0 \<le> currpid s" "currpid s < NPROC"
  using assms by (auto simp: kinv_def can_resched_def placed_def)

lemma ready_kinv:
  assumes c: "can_resched {p} s" "sems_ok s" "\<not> isbadpid s p" "ndefers s = 0"
  obtains r s' where "ready p s = Some (r, s')" "kinv s'" "r = Ret OK \<or> r = Switch OK" "same_kernel s s'"
proof -
  obtain sw t s' where e: "ready p s = Some (if sw then Switch OK else Ret OK, s')"
    "sched_effect sw ((set_prstate p PR_READY s)\<lparr>queuetab := t\<rparr>) s'" "ready_table s p t"
    "can_resched {} ((set_prstate p PR_READY s)\<lparr>queuetab := t\<rparr>)"
    by (rule ready_effect [OF c(1,3,4)]) (rule that)
  let ?s = "(set_prstate p PR_READY s)\<lparr>queuetab := t\<rparr>"
  have k: "same_kernel s ?s" by (rule same_kernel_trans [OF same_kernel_set_prstate same_kernel_queuetab])
  have "sems_ok ?s"
    by (rule sems_ok_cong [OF placedD(1) [OF can_reschedD(1) [OF c(1)]] c(2)])
      (use e(3) in \<open>auto simp: ready_table_def\<close>)
  then have "kinv s'"
    using sched_effect_kinv [OF e(2)] c(4) placedD(1) [OF can_reschedD(1) [OF e(4)]] by simp
  moreover have "same_kernel s s'" using e(2) k same_kernel_trans by (auto simp: sched_effect_def)
  ultimately show thesis using that e(1) by (cases sw) auto
qed

subsection \<open>The scheduling calls keep the kernel invariant\<close>

lemma can_resched_change:
  assumes "can_resched {} s" "placed X s'" "currpid s' = currpid s"
    and "\<And>p. p \<notin> X \<Longrightarrow> state_of s' p = PR_CURR \<Longrightarrow> state_of s p = PR_CURR"
    and "state_of s' 0 = PR_READY \<or> state_of s' 0 = PR_CURR"
  shows "can_resched X s'"
  using assms unfolding can_resched_def by auto

lemma kinv_change:
  assumes k: "kinv s" and "placed {} s'" "sems_ok s'" "currpid s' = currpid s" "ndefers s' = 0"
    and "\<And>p. state_of s' p = PR_CURR \<longleftrightarrow> state_of s p = PR_CURR"
    and "state_of s' 0 = PR_READY \<or> state_of s' 0 = PR_CURR"
  shows "kinv s'"
proof -
  have "can_resched {} s'"
    by (rule can_resched_change [OF kinvD(1) [OF k] assms(2,4)]) (use assms in auto)
  then show ?thesis using assms kinvD(3) [OF k] by (simp add: kinv_def)
qed

lemma resched_kinv:
  assumes "can_resched {} s" "sems_ok s" "ndefers s = 0"
  obtains sw s' where "resched s = Some (sw, s')" "kinv s'" "sched_effect sw s s'"
proof -
  obtain sw s' where e: "resched s = Some (sw, s')" "sched_effect sw s s'"
    by (rule resched_effect [OF assms(1,3)])
  then show thesis
    using that sched_effect_kinv [OF e(2) placedD(1) [OF can_reschedD(1) [OF assms(1)]] assms(2,3)] by blast
qed

lemma yield_kinv:
  assumes "kinv s"
  obtains r s' where "yield s = Some (r, s')" "kinv s'"
proof -
  obtain sw s' where e: "resched s = Some (sw, s')" "kinv s'"
    by (rule resched_kinv [OF kinvD(1,2,4) [OF assms]])
  then show thesis using that by (auto simp: yield_def)
qed

lemma resume_kinv:
  assumes k: "kinv s"
  obtains r s' where "resume pid s = Some (r, s')" "kinv s'"
proof (cases "isbadpid s pid \<or> state_of s pid \<noteq> PR_SUSP")
  case True
  then have "resume pid s = Some (Ret SYSERR, s)" by (auto simp: resume_def)
  then show thesis using that k by blast
next
  case False
  then have "can_resched {pid} s"
    using can_resched_take [OF kinvD(1) [OF k]] home_simps(2) [of s pid] by (auto simp: isbadpid_def)
  then obtain r s' where "ready pid s = Some (r, s')" "kinv s'"
    using ready_kinv kinvD(2,4) [OF k] False by blast
  then have "resume pid s = Some (then_return r (prprio (proctab s pid)), s')"
    using False by (simp add: resume_def)
  then show thesis using that \<open>kinv s'\<close> by blast
qed

lemma suspend_kinv:
  assumes k: "kinv s"
  obtains r s' where "suspend pid s = Some (r, s')" "kinv s'"
proof -
  consider "isbadpid s pid \<or> pid = 0 \<or> (state_of s pid \<noteq> PR_CURR \<and> state_of s pid \<noteq> PR_READY)"
    | "\<not> isbadpid s pid" "pid \<noteq> 0" "state_of s pid = PR_READY"
    | "\<not> isbadpid s pid" "pid \<noteq> 0" "state_of s pid = PR_CURR" by blast
  then show thesis
  proof cases
    case 1
    then have "suspend pid s = Some (Ret SYSERR, s)" by (auto simp: suspend_def)
    then show thesis using that k by blast
  next
    case 2
    note pl = kinvD(5) [OF k]
    have r: "pid \<in> {0..<NPROC}" using 2 by (simp add: isbadpid_def)
    have "pid \<in> set (queue_of s (readylist s))" using ready_iff [OF pl r] 2 by simp
    then obtain t where t: "getitem pid s = (pid, s\<lparr>queuetab := t\<rparr>)" "placed {pid} (s\<lparr>queuetab := t\<rparr>)"
      "\<And>q'. q' \<in> qids s \<Longrightarrow> qcontents t q' = (if q' = readylist s
          then remove1 pid (queue_of s (readylist s)) else queue_of s q')"
      using getitem_placed [OF pl placedD(3) [OF pl]] by blast
    let ?s = "set_prstate pid PR_SUSP (s\<lparr>queuetab := t\<rparr>)"
    have e: "suspend pid s = Some (Ret (prprio (proctab ?s pid)), ?s)"
      using 2 t(1) by (simp add: suspend_def Let_def)
    have "placed {pid} ?s" using t(2) by (rule placed_set_prstate) simp
    then have "placed {} ?s" using placed_drop [of "{pid}" ?s pid] home_simps(2) [of ?s pid] by simp
    moreover have "sems_ok ?s"
      by (rule sems_ok_cong [OF kinvD(6,2) [OF k]]) (use t(3) in auto)
    ultimately have "kinv ?s"
      by (rule kinv_change [OF k])
        (use 2 kinvD(4) [OF k] can_reschedD(5) [OF kinvD(1) [OF k]] in auto)
    then show thesis using that e by blast
  next
    case 3
    let ?s = "set_prstate pid PR_SUSP s"
    have cp: "pid = currpid s" using can_reschedD(4) [OF kinvD(1) [OF k]] 3 by (auto simp: isbadpid_def)
    have "can_resched {pid} s"
      using can_resched_take [OF kinvD(1) [OF k]] home_simps(2) [of s pid] 3 by (auto simp: isbadpid_def)
    then have "placed {pid} ?s" by (intro placed_set_prstate) (auto simp: can_resched_def)
    then have "placed {} ?s" using placed_drop [of "{pid}" ?s pid] home_simps(2) [of ?s pid] by simp
    then have "can_resched {} ?s"
      using kinvD(1) [OF k] 3 by (auto simp: can_resched_def)
    moreover have "sems_ok ?s" by (rule sems_ok_cong [OF kinvD(6,2) [OF k]]) auto
    moreover have "ndefers ?s = 0" using kinvD(4) [OF k] by simp
    ultimately obtain sw s' where e: "resched ?s = Some (sw, s')" "kinv s'"
      by (rule resched_kinv)
    have "suspend pid s = Some (if sw then Switch pid else Ret (prprio (proctab s' pid)), s')"
      using 3 e(1) by (simp add: suspend_def)
    then show thesis using that e(2) by blast
  qed
qed

lemma chprio_kinv:
  assumes k: "kinv s" and v: "- 32768 \<le> v" "v \<le> 32767"
  shows "kinv (snd (chprio pid v s))"
proof (cases "isbadpid s pid")
  case True
  then show ?thesis using k by (simp add: chprio_def)
next
  case False
  let ?s = "set_prprio pid v s"
  have "placed {} ?s" by (rule placed_set_prprio [OF kinvD(5) [OF k] v])
  moreover have "sems_ok ?s"
    by (rule sems_ok_cong [OF kinvD(6,2) [OF k]]) (simp_all add: set_prprio_def)
  moreover have "state_of ?s r = state_of s r" for r by (simp add: set_prprio_def)
  moreover have "currpid ?s = currpid s" "ndefers ?s = ndefers s" by (simp_all add: set_prprio_def)
  ultimately show ?thesis using k False by (simp add: chprio_def kinv_def can_resched_def Let_def)
qed

end
