(* ===== verification/Semaphores.thy ===== *)
theory Semaphores
  imports Scheduler
begin

text \<open>
  Counting semaphores: \<^verbatim>\<open>system/semcreate.c\<close>, \<^verbatim>\<open>semdelete.c\<close>, \<^verbatim>\<open>semreset.c\<close>,
  \<^verbatim>\<open>semcount.c\<close>, \<^verbatim>\<open>wait.c\<close>, \<^verbatim>\<open>signal.c\<close> and \<^verbatim>\<open>signaln.c\<close>.  The lemmas show what each
  call does to the count and to the queue of the semaphore and that it keeps the kernel
  invariant, the three calls that release several processes under a deferred reschedule
  included.
\<close>

fun newsem_loop :: "nat \<Rightarrow> 'z kstate_scheme \<Rightarrow> int \<times> 'z kstate_scheme" where
  "newsem_loop 0 s = (SYSERR, s)"
| "newsem_loop (Suc n) s =
     (let sem = nextsem s;
          s = s\<lparr>nextsem := wrap32 (nextsem s + 1)\<rparr>;
          s = (if nextsem s \<ge> NSEM then s\<lparr>nextsem := 0\<rparr> else s)
      in if sstate (semtab s sem) = S_FREE then (sem, set_sstate sem S_USED s)
         else newsem_loop n s)"

definition newsem :: "'z kstate_scheme \<Rightarrow> int \<times> 'z kstate_scheme" where
  "newsem s = newsem_loop 100 s"

definition semcreate :: "int \<Rightarrow> 'z kstate_scheme \<Rightarrow> int \<times> 'z kstate_scheme" where
  "semcreate count s =
     (if count < 0 then (SYSERR, s)
      else let (sem, s) = newsem s in
           if sem = SYSERR then (SYSERR, s)
           else (sem, set_scount sem count s))"

definition semcount :: "int \<Rightarrow> 'z kstate_scheme \<Rightarrow> int" where
  "semcount semid s =
     (if isbadsem semid \<or> sstate (semtab s semid) = S_FREE then SYSERR
      else scount (semtab s semid))"

definition wait :: "int \<Rightarrow> 'z kstate_scheme \<Rightarrow> ((int, int) outcome \<times> 'z kstate_scheme) option" where
  "wait sem s =
     (if isbadsem sem then Some (Ret SYSERR, s)
      else if sstate (semtab s sem) = S_FREE then Some (Ret SYSERR, s)
      else
        let s = set_scount sem (wrap32 (scount (semtab s sem) - 1)) s in
        if scount (semtab s sem) < 0 then do {
          let s = set_prstate (currpid s) PR_WAIT s;
          let s = set_prsem (currpid s) sem s;
          let (r, s) = enqueue (currpid s) (squeue (semtab s sem)) s;
          (sw, s) \<leftarrow> resched s;
          Some (if sw then Switch OK else Ret OK, s)
        }
        else Some (Ret OK, s))"

definition signal :: "int \<Rightarrow> 'z kstate_scheme \<Rightarrow> ((int, int) outcome \<times> 'z kstate_scheme) option" where
  "signal sem s =
     (if isbadsem sem then Some (Ret SYSERR, s)
      else if sstate (semtab s sem) = S_FREE then Some (Ret SYSERR, s)
      else
        let old = scount (semtab s sem);
            s = set_scount sem (wrap32 (old + 1)) s
        in if old < 0 then do {
             let (pid, s) = dequeue (squeue (semtab s sem)) s;
             (r, s) \<leftarrow> ready pid s;
             Some (then_return r OK, s)
           }
           else Some (Ret OK, s))"

text \<open>The body of the \<open>for\<close> loop of \<open>signaln\<close>, run \<open>count\<close> times.\<close>

fun signaln_loop :: "nat \<Rightarrow> int \<Rightarrow> 'z kstate_scheme \<Rightarrow> 'z kstate_scheme option" where
  "signaln_loop 0 sem s = Some s"
| "signaln_loop (Suc n) sem s =
     (let old = scount (semtab s sem);
          s = set_scount sem (wrap32 (old + 1)) s
      in if old < 0 then do {
           let (pid, s) = dequeue (squeue (semtab s sem)) s;
           (r, s) \<leftarrow> ready pid s;
           signaln_loop n sem s
         }
         else signaln_loop n sem s)"

definition signaln :: "int \<Rightarrow> int \<Rightarrow> 'z kstate_scheme \<Rightarrow> ((int, int) outcome \<times> 'z kstate_scheme) option" where
  "signaln sem count s =
     (if isbadsem sem \<or> count < 0 then Some (Ret SYSERR, s)
      else if sstate (semtab s sem) = S_FREE then Some (Ret SYSERR, s)
      else do {
        (r, s) \<leftarrow> resched_cntl DEFER_START s;
        s \<leftarrow> signaln_loop (nat count) sem s;
        (r, s) \<leftarrow> resched_cntl DEFER_STOP s;
        Some (then_return r OK, s)
      })"

partial_function (option) semdelete_loop ::
    "int \<Rightarrow> 'z kstate_scheme \<Rightarrow> 'z kstate_scheme option" where
  "semdelete_loop sem s =
     (let old = scount (semtab s sem);
          s = set_scount sem (wrap32 (old + 1)) s
      in if old < 0 then do {
           let (pid, s) = getfirst (squeue (semtab s sem)) s;
           (r, s) \<leftarrow> ready pid s;
           semdelete_loop sem s
         }
         else Some s)"

definition semdelete :: "int \<Rightarrow> 'z kstate_scheme \<Rightarrow> ((int, int) outcome \<times> 'z kstate_scheme) option" where
  "semdelete sem s =
     (if isbadsem sem then Some (Ret SYSERR, s)
      else if sstate (semtab s sem) = S_FREE then Some (Ret SYSERR, s)
      else do {
        let s = set_sstate sem S_FREE s;
        (r, s) \<leftarrow> resched_cntl DEFER_START s;
        s \<leftarrow> semdelete_loop sem s;
        (r, s) \<leftarrow> resched_cntl DEFER_STOP s;
        Some (then_return r OK, s)
      })"

partial_function (option) semreset_loop ::
    "int \<Rightarrow> 'z kstate_scheme \<Rightarrow> 'z kstate_scheme option" where
  "semreset_loop semqueue s =
     (let (pid, s) = getfirst semqueue s in
      if pid \<noteq> QEMPTY then do {
        (r, s) \<leftarrow> ready pid s;
        semreset_loop semqueue s
      }
      else Some s)"

definition semreset :: "int \<Rightarrow> int \<Rightarrow> 'z kstate_scheme \<Rightarrow> ((int, int) outcome \<times> 'z kstate_scheme) option" where
  "semreset sem count s =
     (if count < 0 \<or> isbadsem sem \<or> sstate (semtab s sem) = S_FREE then Some (Ret SYSERR, s)
      else do {
        let semqueue = squeue (semtab s sem);
        (r, s) \<leftarrow> resched_cntl DEFER_START s;
        s \<leftarrow> semreset_loop semqueue s;
        let s = set_scount sem count s;
        (r, s) \<leftarrow> resched_cntl DEFER_STOP s;
        Some (then_return r OK, s)
      })"

subsection \<open>Semaphore fields\<close>

lemma set_scount_twice: "set_scount k v (set_scount k w s) = set_scount k v s"
  by (simp add: set_scount_def)

lemma set_scount_same: "scount (semtab s k) = v \<Longrightarrow> set_scount k v s = s"
  by (auto simp: set_scount_def)

lemma sem_setter_fields [simp]:
  "proctab (set_scount k v s) = proctab s" "queuetab (set_scount k v s) = queuetab s"
  "readylist (set_scount k v s) = readylist s" "sleepq (set_scount k v s) = sleepq s"
  "currpid (set_scount k v s) = currpid s" "ndefers (set_scount k v s) = ndefers s"
  "nextsem (set_scount k v s) = nextsem s" "nextqid (set_scount k v s) = nextqid s"
  "qids (set_scount k v s) = qids s" "attempt (set_scount k v s) = attempt s"
  "squeue (semtab (set_scount k v s) j) = squeue (semtab s j)"
  "sstate (semtab (set_scount k v s) j) = sstate (semtab s j)"
  "scount (semtab (set_scount k v s) j) = (if j = k then v else scount (semtab s j))"
  "proctab (set_sstate k w s) = proctab s" "queuetab (set_sstate k w s) = queuetab s"
  "readylist (set_sstate k w s) = readylist s" "sleepq (set_sstate k w s) = sleepq s"
  "currpid (set_sstate k w s) = currpid s" "ndefers (set_sstate k w s) = ndefers s"
  "nextsem (set_sstate k w s) = nextsem s" "nextqid (set_sstate k w s) = nextqid s"
  "qids (set_sstate k w s) = qids s" "attempt (set_sstate k w s) = attempt s"
  "squeue (semtab (set_sstate k w s) j) = squeue (semtab s j)"
  "sstate (semtab (set_sstate k w s) j) = (if j = k then w else sstate (semtab s j))"
  "scount (semtab (set_sstate k w s) j) = scount (semtab s j)"
  by (simp_all add: set_scount_def set_sstate_def qids_def)

lemma placed_set_scount [simp]: "placed X s \<Longrightarrow> placed X (set_scount k v s)"
  by (rule placed_cong) simp_all

lemma placed_set_sstate [simp]: "placed X s \<Longrightarrow> placed X (set_sstate k v s)"
  by (rule placed_cong) simp_all

lemma can_resched_set_sem:
  "can_resched X s \<Longrightarrow> can_resched X (set_scount k v s)"
  "can_resched X s \<Longrightarrow> can_resched X (set_sstate k w s)"
  by (simp_all add: can_resched_def)

lemma sem_queue:
  assumes "tables_ok s" "k \<in> {0..<NSEM}"
  shows "squeue (semtab s k) \<in> qids s" "squeue (semtab s k) \<noteq> readylist s" "squeue (semtab s k) \<noteq> sleepq s"
  using assms by (auto simp: tables_ok_def)

lemma sem_queue_inj:
  assumes "tables_ok s" "k \<in> {0..<NSEM}" "j \<in> {0..<NSEM}" "squeue (semtab s k) = squeue (semtab s j)"
  shows "k = j"
  using assms by (auto simp: tables_ok_def dest: inj_onD)

lemma sem_ok_cong:
  "sem_ok s k \<Longrightarrow> semtab s' k = semtab s k \<Longrightarrow>
   queue_of s' (squeue (semtab s k)) = queue_of s (squeue (semtab s k)) \<Longrightarrow> sem_ok s' k"
  by (simp add: sem_ok_def Let_def)

text \<open>All semaphores but \<open>k\<close>, whose count and queue are being changed, are in order.\<close>

definition sems_ok_but :: "int \<Rightarrow> 'z kstate_scheme \<Rightarrow> bool" where
  "sems_ok_but k s \<longleftrightarrow> 0 \<le> nextsem s \<and> nextsem s < NSEM \<and> (\<forall>j \<in> {0..<NSEM} - {k}. sem_ok s j)"

lemma sems_ok_but_ok: "sems_ok_but k s \<Longrightarrow> sem_ok s k \<Longrightarrow> sems_ok s"
  by (auto simp: sems_ok_but_def sems_ok_def)

lemma sems_okD: "sems_ok s \<Longrightarrow> k \<in> {0..<NSEM} \<Longrightarrow> sem_ok s k" "sems_ok s \<Longrightarrow> sems_ok_but k s"
  by (auto simp: sems_ok_but_def sems_ok_def)

lemma sems_ok_but_cong:
  assumes "tables_ok s" "sems_ok_but k s" "k \<in> {0..<NSEM}" "nextsem s' = nextsem s"
    and "\<And>j. j \<noteq> k \<Longrightarrow> semtab s' j = semtab s j"
    and "\<And>q. q \<in> qids s \<Longrightarrow> q \<noteq> readylist s \<Longrightarrow> q \<noteq> squeue (semtab s k) \<Longrightarrow> queue_of s' q = queue_of s q"
  shows "sems_ok_but k s'"
proof -
  have "sem_ok s' j" if "j \<in> {0..<NSEM} - {k}" for j
  proof (rule sem_ok_cong)
    show "sem_ok s j" using assms(2) that by (simp add: sems_ok_but_def)
    show "semtab s' j = semtab s j" using assms(5) that by simp
    have "squeue (semtab s j) \<noteq> squeue (semtab s k)"
      using sem_queue_inj [OF assms(1), of j k] that assms(3) by auto
    then show "queue_of s' (squeue (semtab s j)) = queue_of s (squeue (semtab s j))"
      using assms(6) sem_queue [OF assms(1), of j] that by simp
  qed
  then show ?thesis using assms(2,4) by (simp add: sems_ok_but_def)
qed

lemma sem_okD:
  assumes "sem_ok s k"
  shows "sstate (semtab s k) = S_USED \<Longrightarrow> int (length (queue_of s (squeue (semtab s k)))) = max 0 (- scount (semtab s k))"
    "- 2147483648 \<le> scount (semtab s k)" "scount (semtab s k) \<le> 2147483647"
  using assms by (auto simp: sem_ok_def Let_def)

subsection \<open>Taking the first process out of a queue\<close>

definition popped :: "'z kstate_scheme \<Rightarrow> int \<Rightarrow> int \<Rightarrow> int list \<Rightarrow> 'z kstate_scheme \<Rightarrow> bool" where
  "popped s q p ps s1 \<longleftrightarrow> (\<exists>t. s1 = s\<lparr>queuetab := t\<rparr>) \<and> can_resched {p} s1 \<and> \<not> isbadpid s1 p \<and>
     (\<forall>q' \<in> qids s. queue_of s1 q' = (if q' = q then ps else queue_of s q')) \<and>
     (\<forall>j. qkey (queuetab s1 j) = qkey (queuetab s j))"

lemma popped_fields:
  assumes "popped s q p ps s1"
  shows "semtab s1 = semtab s" "readylist s1 = readylist s" "sleepq s1 = sleepq s" "qids s1 = qids s"
    "currpid s1 = currpid s" "ndefers s1 = ndefers s" "nextsem s1 = nextsem s" "proctab s1 = proctab s"
    "same_kernel s s1" "can_resched {p} s1" "\<not> isbadpid s1 p"
    "q' \<in> qids s \<Longrightarrow> queue_of s1 q' = (if q' = q then ps else queue_of s q')"
  using assms by (auto simp: popped_def)

lemma popped_keys: "popped s q p ps s1 \<Longrightarrow> qkey (queuetab s1 j) = qkey (queuetab s j)"
  by (simp add: popped_def)

lemma popped_intro:
  assumes c: "can_resched {} s" and q: "q \<in> qids s" "queue_of s q = p # ps"
    and t: "placed {p} (s\<lparr>queuetab := t\<rparr>)"
      "\<And>q'. q' \<in> qids s \<Longrightarrow> qcontents t q' = (if q' = q then ps else queue_of s q')"
      "\<And>j. qkey (t j) = qkey (queuetab s j)"
  shows "popped s q p ps (s\<lparr>queuetab := t\<rparr>)"
proof -
  have "state_of s p \<noteq> PR_FREE" "0 \<le> p" "p < NPROC"
    using placed_in_queue [OF can_reschedD(1) [OF c] q(1), of p] q(2) by auto
  moreover have "can_resched {p} (s\<lparr>queuetab := t\<rparr>)"
    using c t(1) by (auto simp: can_resched_def)
  ultimately show ?thesis using t(2,3) by (auto simp: popped_def isbadpid_def)
qed

lemma dequeue_popped:
  assumes c: "can_resched {} s" and q: "q \<in> qids s" "queue_of s q = p # ps"
  obtains s1 where "dequeue q s = (p, s1)" "popped s q p ps s1"
proof -
  obtain t where t: "dequeue q s = (p, s\<lparr>queuetab := t\<rparr>)" "placed {p} (s\<lparr>queuetab := t\<rparr>)"
    "\<And>q'. q' \<in> qids s \<Longrightarrow> qcontents t q' = (if q' = q then ps else queue_of s q')"
    "\<And>j. qkey (t j) = qkey (queuetab s j)"
    using dequeue_placed [OF can_reschedD(1) [OF c] q] by auto
  then show thesis using that popped_intro [OF c q t(2-4)] by blast
qed

lemma getfirst_popped:
  assumes c: "can_resched {} s" and q: "q \<in> qids s" "queue_of s q = p # ps"
  obtains s1 where "getfirst q s = (p, s1)" "popped s q p ps s1"
proof -
  have p: "p \<in> set (queue_of s q)" using q(2) by simp
  obtain t where t: "getitem p s = (p, s\<lparr>queuetab := t\<rparr>)" "placed {p} (s\<lparr>queuetab := t\<rparr>)"
    "\<And>q'. q' \<in> qids s \<Longrightarrow> qcontents t q' = (if q' = q then remove1 p (queue_of s q) else queue_of s q')"
    "\<And>j. qkey (t j) = qkey (queuetab s j)"
    using getitem_placed [OF can_reschedD(1) [OF c] q(1) p] by auto
  have "getfirst q s = (p, s\<lparr>queuetab := t\<rparr>)"
    using getfirst_getitem [OF can_reschedD(1) [OF c] q] t(1) by simp
  then show thesis using that popped_intro [OF c q t(2) _ t(4)] t(3) q(2) by auto
qed

subsection \<open>Waiting and signalling\<close>

lemma sem_used_props:
  assumes k: "kinv s" and u: "\<not> isbadsem sem" "sstate (semtab s sem) = S_USED"
  shows "sem \<in> {0..<NSEM}" "sem_ok s sem"
    "int (length (queue_of s (squeue (semtab s sem)))) = max 0 (- scount (semtab s sem))"
    "- 100 \<le> scount (semtab s sem)" "scount (semtab s sem) \<le> 2147483647"
proof -
  show r: "sem \<in> {0..<NSEM}" using u by (simp add: isbadsem_def)
  show o: "sem_ok s sem" using sems_okD(1) [OF kinvD(2) [OF k] r] .
  show l: "int (length (queue_of s (squeue (semtab s sem)))) = max 0 (- scount (semtab s sem))"
    using sem_okD(1) [OF o u(2)] .
  have "length (queue_of s (squeue (semtab s sem))) \<le> 100"
    using qlist_length qsys_qlist [OF placedD(2) [OF kinvD(5) [OF k]] sem_queue(1) [OF kinvD(6) [OF k] r]]
    by blast
  then show "- 100 \<le> scount (semtab s sem)" using l by linarith
  show "scount (semtab s sem) \<le> 2147483647" using sem_okD(3) [OF o] .
qed

lemma wait_bad: "isbadsem sem \<or> sstate (semtab s sem) = S_FREE \<Longrightarrow> wait sem s = Some (Ret SYSERR, s)"
  by (auto simp: wait_def)

lemma signal_bad: "isbadsem sem \<or> sstate (semtab s sem) = S_FREE \<Longrightarrow> signal sem s = Some (Ret SYSERR, s)"
  by (auto simp: signal_def)

lemma sem_state_cases: "sstate e \<noteq> S_FREE \<longleftrightarrow> sstate e = S_USED"
  by (cases "sstate e") auto

lemma wait_free_kinv:
  assumes k: "kinv s" and u: "\<not> isbadsem sem" "sstate (semtab s sem) = S_USED" and c: "scount (semtab s sem) > 0"
  shows "wait sem s = Some (Ret OK, set_scount sem (scount (semtab s sem) - 1) s)"
    "kinv (set_scount sem (scount (semtab s sem) - 1) s)"
proof -
  note p = sem_used_props [OF k u]
  let ?s = "set_scount sem (scount (semtab s sem) - 1) s"
  have w: "wrap32 (scount (semtab s sem) - 1) = scount (semtab s sem) - 1"
    using p(4,5) by (intro wrap32_id) auto
  show "wait sem s = Some (Ret OK, ?s)" using u c w by (simp add: wait_def Let_def)
  have "sems_ok_but sem ?s"
    by (rule sems_ok_but_cong [OF kinvD(6) [OF k] sems_okD(2) [OF kinvD(2) [OF k]] p(1)])
      (simp_all add: set_scount_def)
  moreover have "sem_ok ?s sem" using p(3-5) c u by (simp add: sem_ok_def Let_def)
  ultimately have "sems_ok ?s" by (rule sems_ok_but_ok)
  then show "kinv ?s" by (intro kinv_change [OF k]) (use k in \<open>auto simp: kinv_def can_resched_def\<close>)
qed

lemma set_prsem_fields [simp]:
  "state_of (set_prsem p v s) r = state_of s r" "queuetab (set_prsem p v s) = queuetab s"
  "readylist (set_prsem p v s) = readylist s" "sleepq (set_prsem p v s) = sleepq s"
  "currpid (set_prsem p v s) = currpid s" "semtab (set_prsem p v s) = semtab s"
  "qids (set_prsem p v s) = qids s" "ndefers (set_prsem p v s) = ndefers s"
  "nextsem (set_prsem p v s) = nextsem s"
  "prsem (proctab (set_prsem p v s) r) = (if r = p then v else prsem (proctab s r))"
  "prprio (proctab (set_prsem p v s) r) = prprio (proctab s r)"
  by (simp_all add: set_prsem_def qids_def)

lemma placed_set_prsem: "placed X s \<Longrightarrow> p \<in> X \<Longrightarrow> placed X (set_prsem p v s)"
  by (rule placed_set_state [where e = "(proctab s p)\<lparr>prsem := v\<rparr>"]) (simp_all add: set_prsem_def)

text \<open>
  A blocking \<open>wait\<close>: the current process goes to the tail of the semaphore's queue and
  another process runs.
\<close>

lemma wait_block:
  assumes k: "kinv s" and u: "\<not> isbadsem sem" "sstate (semtab s sem) = S_USED"
    and c: "scount (semtab s sem) \<le> 0" and n: "currpid s \<noteq> NULLPROC"
  obtains s1 s' where "wait sem s = Some (Switch OK, s')" "kinv s'" "sched_effect True s1 s'"
    "semtab s1 = semtab (set_scount sem (scount (semtab s sem) - 1) s)"
    "queue_of s1 (squeue (semtab s sem)) = queue_of s (squeue (semtab s sem)) @ [currpid s]"
    "state_of s1 (currpid s) = PR_WAIT" "prsem (proctab s1 (currpid s)) = sem"
    "\<And>p. p \<noteq> currpid s \<Longrightarrow> proctab s1 p = proctab s p"
    "qids s1 = qids s" "readylist s1 = readylist s" "sleepq s1 = sleepq s"
    "\<And>q. q \<in> qids s \<Longrightarrow> q \<noteq> squeue (semtab s sem) \<Longrightarrow> queue_of s1 q = queue_of s q"
proof -
  note p = sem_used_props [OF k u]
  let ?p = "currpid s" and ?q = "squeue (semtab s sem)"
  let ?sc = "set_scount sem (scount (semtab s sem) - 1) s"
  let ?s = "set_prsem ?p sem (set_prstate ?p PR_WAIT ?sc)"
  have w: "wrap32 (scount (semtab s sem) - 1) = scount (semtab s sem) - 1"
    using p(4,5) by (intro wrap32_id) auto
  have r: "0 \<le> ?p" "?p < NPROC" using kinvD(7,8) [OF k] .
  have "placed {?p} s"
    using placed_take [OF kinvD(5) [OF k] r] home_simps(2) [of s ?p] kinvD(3) [OF k] by simp
  then have "placed {?p} ?sc" by (rule placed_set_scount)
  then have pl: "placed {?p} ?s" by (intro placed_set_prsem placed_set_prstate) auto
  have h: "home ?s ?p = Some ?q" by (simp add: home_def)
  obtain t where t: "enqueue ?p ?q ?s = (?p, ?s\<lparr>queuetab := t\<rparr>)" "placed ({?p} - {?p}) (?s\<lparr>queuetab := t\<rparr>)"
    "\<And>q'. q' \<in> qids ?s \<Longrightarrow> qcontents t q' = (if q' = ?q then queue_of ?s ?q @ [?p] else queue_of ?s q')"
    by (rule enqueue_placed [OF pl _ _ h]) (use r p(1) sem_queue [OF kinvD(6) [OF k] p(1)] in \<open>auto simp: isbadpid_def\<close>)
  let ?s1 = "?s\<lparr>queuetab := t\<rparr>"
  have cr: "can_resched {} ?s1"
  proof (rule can_resched_change [OF kinvD(1) [OF k]])
    show "placed {} ?s1" using t(2) by simp
    show "state_of ?s1 0 = PR_READY \<or> state_of ?s1 0 = PR_CURR"
      using can_reschedD(5) [OF kinvD(1) [OF k]] n by simp
  qed (auto split: if_splits)
  have "sems_ok_but sem ?s1"
    by (rule sems_ok_but_cong [OF kinvD(6) [OF k] sems_okD(2) [OF kinvD(2) [OF k]] p(1)])
      (use t(3) in \<open>simp_all add: set_scount_def\<close>)
  moreover have "sem_ok ?s1 sem"
    using p(3-5) c u t(3) [of ?q] sem_queue [OF kinvD(6) [OF k] p(1)] by (simp add: sem_ok_def Let_def)
  ultimately have so: "sems_ok ?s1" by (rule sems_ok_but_ok)
  have nd: "ndefers ?s1 = 0" using kinvD(4) [OF k] by simp
  obtain sw s' where e: "resched ?s1 = Some (sw, s')" "kinv s'" "sched_effect sw ?s1 s'"
    by (rule resched_kinv [OF cr so nd])
  have sw: "sw" using e(3) by (auto simp: sched_effect_def)
  have "wait sem s = Some (Switch OK, s')"
    using u c w t(1) e(1) sw by (simp add: wait_def Let_def)
  moreover have "sched_effect True ?s1 s'" using e(3) sw by simp
  moreover have "semtab ?s1 = semtab ?sc"
    "queue_of ?s1 ?q = queue_of s ?q @ [?p]" "state_of ?s1 ?p = PR_WAIT" "prsem (proctab ?s1 ?p) = sem"
    "\<And>p. p \<noteq> ?p \<Longrightarrow> proctab ?s1 p = proctab s p"
    "qids ?s1 = qids s" "readylist ?s1 = readylist s" "sleepq ?s1 = sleepq s"
    "\<And>q. q \<in> qids s \<Longrightarrow> q \<noteq> ?q \<Longrightarrow> queue_of ?s1 q = queue_of s q"
    using t(3) sem_queue [OF kinvD(6) [OF k] p(1)] by (simp_all add: set_prsem_def set_prstate_def)
  ultimately show thesis by (intro that [OF _ e(2)])
qed

lemma wait_kinv:
  assumes k: "kinv s" and n: "currpid s \<noteq> NULLPROC"
  obtains r s' where "wait sem s = Some (r, s')" "kinv s'"
proof -
  consider "isbadsem sem \<or> sstate (semtab s sem) = S_FREE"
    | "\<not> isbadsem sem" "sstate (semtab s sem) = S_USED" "scount (semtab s sem) > 0"
    | "\<not> isbadsem sem" "sstate (semtab s sem) = S_USED" "scount (semtab s sem) \<le> 0"
    using sem_state_cases [of "semtab s sem"] by linarith
  then show thesis
  proof cases
    case 1
    then show thesis using that k wait_bad by blast
  next
    case 2
    then show thesis using that wait_free_kinv [OF k] by blast
  next
    case 3
    show thesis by (rule wait_block [OF k 3 n]) (rule that)
  qed
qed

text \<open>
  Releasing one process: the count goes up and the head of the queue is taken out; what
  remains is to make it ready.
\<close>

lemma sem_release:
  assumes c: "can_resched {} s" and so: "sems_ok s" and sem: "sem \<in> {0..<NSEM}"
    and u: "sstate (semtab s sem) = S_USED" and neg: "scount (semtab s sem) < 0"
  obtains p ps s1 where "queue_of s (squeue (semtab s sem)) = p # ps"
    "dequeue (squeue (semtab s sem)) (set_scount sem (wrap32 (scount (semtab s sem) + 1)) s) = (p, s1)"
    "popped (set_scount sem (scount (semtab s sem) + 1) s) (squeue (semtab s sem)) p ps s1" "sems_ok s1"
proof -
  let ?q = "squeue (semtab s sem)" and ?n = "scount (semtab s sem)"
  let ?s = "set_scount sem (?n + 1) s"
  note tok = placedD(1) [OF can_reschedD(1) [OF c]]
  note o = sems_okD(1) [OF so sem]
  note q = sem_queue [OF tok sem]
  have l: "int (length (queue_of s ?q)) = - ?n" using sem_okD(1) [OF o u] neg by simp
  then obtain p ps where pq: "queue_of s ?q = p # ps" using neg by (cases "queue_of s ?q") auto
  have w: "wrap32 (?n + 1) = ?n + 1" using sem_okD(2) [OF o] neg by (intro wrap32_id) auto
  have c': "can_resched {} ?s" using c by (rule can_resched_set_sem)
  obtain s1 where s1: "dequeue ?q ?s = (p, s1)" "popped ?s ?q p ps s1"
    by (rule dequeue_popped [OF c', of ?q p ps]) (use q pq in auto)
  note f = popped_fields [OF s1(2)]
  have "sems_ok_but sem s1"
  proof (rule sems_ok_but_cong [OF tok sems_okD(2) [OF so] sem])
    show "semtab s1 j = semtab s j" if "j \<noteq> sem" for j using f(1) that by (simp add: set_scount_def)
    show "queue_of s1 q' = queue_of s q'" if "q' \<in> qids s" "q' \<noteq> ?q" for q'
      using f(12) [of q'] that by simp
  qed (use f(7) in simp)
  moreover have "sem_ok s1 sem"
    using f(1) f(12) [of ?q] q l neg pq sem_okD(2) [OF o] u by (simp add: sem_ok_def Let_def)
  ultimately have "sems_ok s1" by (rule sems_ok_but_ok)
  then show thesis using that pq s1 w by simp
qed

lemma signal_release:
  assumes k: "kinv s" and u: "\<not> isbadsem sem" "sstate (semtab s sem) = S_USED"
    and neg: "scount (semtab s sem) < 0"
  obtains p ps r s' where "queue_of s (squeue (semtab s sem)) = p # ps"
    "signal sem s = Some (r, s')" "r = Ret OK \<or> r = Switch OK" "kinv s'"
    "semtab s' = semtab (set_scount sem (scount (semtab s sem) + 1) s)"
    "state_of s' p = PR_READY \<or> state_of s' p = PR_CURR"
    "queue_of s' (squeue (semtab s sem)) = ps"
proof -
  note pr = sem_used_props [OF k u]
  let ?q = "squeue (semtab s sem)"
  obtain p ps s1 where s1: "queue_of s ?q = p # ps"
    "dequeue ?q (set_scount sem (wrap32 (scount (semtab s sem) + 1)) s) = (p, s1)"
    "popped (set_scount sem (scount (semtab s sem) + 1) s) ?q p ps s1" "sems_ok s1"
    by (rule sem_release [OF kinvD(1,2) [OF k] pr(1) u(2) neg]) (rule that)
  note f = popped_fields [OF s1(3)]
  have nd: "ndefers s1 = 0" using f(6) kinvD(4) [OF k] by simp
  obtain sw t s' where e: "ready p s1 = Some (if sw then Switch OK else Ret OK, s')"
    "sched_effect sw ((set_prstate p PR_READY s1)\<lparr>queuetab := t\<rparr>) s'" "ready_table s1 p t"
    "can_resched {} ((set_prstate p PR_READY s1)\<lparr>queuetab := t\<rparr>)"
    by (rule ready_effect [OF f(10,11) nd]) (rule that)
  let ?s = "(set_prstate p PR_READY s1)\<lparr>queuetab := t\<rparr>"
  have sg: "signal sem s = Some (then_return (if sw then Switch OK else Ret OK :: (int, int) outcome) OK, s')"
    using u neg s1(2) e(1) by (simp add: signal_def Let_def)
  have so: "sems_ok ?s"
    by (rule sems_ok_cong [OF placedD(1) [OF can_reschedD(1) [OF f(10)]] s1(4)])
      (use e(3) in \<open>auto simp: ready_table_def\<close>)
  have kv: "kinv s'"
    using sched_effect_kinv [OF e(2) placedD(1) [OF can_reschedD(1) [OF e(4)]] so] nd by simp
  have q: "?q \<in> qids s" "?q \<noteq> readylist s" using sem_queue [OF kinvD(6) [OF k] pr(1)] by auto
  have "queue_of s' ?q = queue_of ?s ?q" using e(2) q f(2,4) by (simp add: sched_effect_def)
  then have "queue_of s' ?q = ps"
    using e(3) q f(2,4) f(12) [of ?q] by (simp add: ready_table_def)
  moreover have "state_of s' p = PR_READY \<or> state_of s' p = PR_CURR"
    using e(2) by (auto simp: sched_effect_def dest: spec [of _ p])
  moreover have "semtab s' = semtab (set_scount sem (scount (semtab s sem) + 1) s)"
    using e(2) f(1) same_kernel_fields(10) [of ?s s'] by (simp add: sched_effect_def)
  ultimately show thesis using that [OF s1(1) sg _ kv] by (cases sw) (auto simp: then_return_def)
qed

lemma signal_no_waiter:
  assumes k: "kinv s" and u: "\<not> isbadsem sem" "sstate (semtab s sem) = S_USED"
    and c: "0 \<le> scount (semtab s sem)" "scount (semtab s sem) < 2147483647"
  shows "signal sem s = Some (Ret OK, set_scount sem (scount (semtab s sem) + 1) s)"
    "kinv (set_scount sem (scount (semtab s sem) + 1) s)"
proof -
  note p = sem_used_props [OF k u]
  let ?s = "set_scount sem (scount (semtab s sem) + 1) s"
  show "signal sem s = Some (Ret OK, ?s)" using u c by (simp add: signal_def Let_def)
  have "sems_ok_but sem ?s"
    by (rule sems_ok_but_cong [OF kinvD(6) [OF k] sems_okD(2) [OF kinvD(2) [OF k]] p(1)])
      (simp_all add: set_scount_def)
  moreover have "sem_ok ?s sem" using p(3-5) c u by (simp add: sem_ok_def Let_def)
  ultimately have "sems_ok ?s" by (rule sems_ok_but_ok)
  then show "kinv ?s" by (intro kinv_change [OF k]) (use k in \<open>auto simp: kinv_def can_resched_def\<close>)
qed

lemma signal_kinv:
  assumes k: "kinv s" and c: "scount (semtab s sem) < 2147483647"
  obtains r s' where "signal sem s = Some (r, s')" "kinv s'"
proof -
  consider "isbadsem sem \<or> sstate (semtab s sem) = S_FREE"
    | "\<not> isbadsem sem" "sstate (semtab s sem) = S_USED" "scount (semtab s sem) \<ge> 0"
    | "\<not> isbadsem sem" "sstate (semtab s sem) = S_USED" "scount (semtab s sem) < 0"
    using sem_state_cases [of "semtab s sem"] by linarith
  then show thesis
  proof cases
    case 1
    then show thesis using that k signal_bad by blast
  next
    case 2
    then show thesis using that signal_no_waiter [OF k 2 c] by blast
  next
    case 3
    show thesis by (rule signal_release [OF k 3]) (rule that)
  qed
qed

subsection \<open>Releasing several processes under a deferred reschedule\<close>

text \<open>
  \<open>deferring k s\<close>: the state inside the calls that release many processes at once.  The
  reschedule is deferred, the current process stays current, and only semaphore \<open>k\<close> may be
  out of order.
\<close>

definition deferring :: "int \<Rightarrow> 'z kstate_scheme \<Rightarrow> bool" where
  "deferring k s \<longleftrightarrow> can_resched {} s \<and> sems_ok_but k s \<and> state_of s (currpid s) = PR_CURR \<and> ndefers s = 1"

text \<open>The processes \<open>ps\<close> have left queue \<open>q\<close> for the ready list and \<open>rest\<close> is what \<open>q\<close> still holds.\<close>

definition released :: "int \<Rightarrow> int list \<Rightarrow> int list \<Rightarrow> 'z kstate_scheme \<Rightarrow> 'z kstate_scheme \<Rightarrow> bool" where
  "released q ps rest s s' \<longleftrightarrow>
     same_kernel (s\<lparr>semtab := semtab s'\<rparr>) s' \<and> (\<forall>j. squeue (semtab s' j) = squeue (semtab s j)) \<and>
     currpid s' = currpid s \<and>
     (\<forall>q' \<in> qids s. q' \<noteq> readylist s \<longrightarrow> queue_of s' q' = (if q' = q then rest else queue_of s q')) \<and>
     (\<forall>r. state_of s' r = (if r \<in> set ps then PR_READY else state_of s r)) \<and>
     (\<forall>j. j \<notin> set ps \<longrightarrow> qkey (queuetab s' j) = qkey (queuetab s j))"

lemma releasedD:
  assumes "released q ps rest s s'"
  shows "squeue (semtab s' j) = squeue (semtab s j)" "currpid s' = currpid s" "qids s' = qids s"
    "readylist s' = readylist s" "sleepq s' = sleepq s" "ndefers s' = ndefers s" "nextsem s' = nextsem s"
    "q' \<in> qids s \<Longrightarrow> q' \<noteq> readylist s \<Longrightarrow> queue_of s' q' = (if q' = q then rest else queue_of s q')"
    "state_of s' r = (if r \<in> set ps then PR_READY else state_of s r)"
    "prprio (proctab s' r) = prprio (proctab s r)" "PDBR (proctab s' r) = PDBR (proctab s r)"
    "j \<notin> set ps \<Longrightarrow> qkey (queuetab s' j) = qkey (queuetab s j)"
  using assms same_kernel_fields [of "s\<lparr>semtab := semtab s'\<rparr>" s'] by (simp_all add: released_def)

lemma released_nil: "released q [] (queue_of s q) s (set_scount k v s)"
  by (simp add: released_def same_kernel_def set_scount_def)

lemma released_refl: "released q [] (queue_of s q) s s"
  by (simp add: released_def same_kernel_def)

lemma same_kernel_semtab:
  "same_kernel (s\<lparr>semtab := m\<rparr>) s' \<Longrightarrow> same_kernel (s\<lparr>semtab := m'\<rparr>) (s'\<lparr>semtab := m'\<rparr>)"
  by (simp add: same_kernel_def)

lemma released_trans:
  assumes "released q ps rest s s1" "released q qs rest' s1 s2"
  shows "released q (ps @ qs) rest' s s2"
proof -
  note a = releasedD [OF assms(1)] and b = releasedD [OF assms(2)]
  have "same_kernel (s\<lparr>semtab := semtab s1\<rparr>) s1" using assms(1) by (simp add: released_def)
  from same_kernel_semtab [OF this]
  have "same_kernel (s\<lparr>semtab := semtab s2\<rparr>) (s1\<lparr>semtab := semtab s2\<rparr>)" .
  moreover have "same_kernel (s1\<lparr>semtab := semtab s2\<rparr>) s2" using assms(2) by (simp add: released_def)
  ultimately have "same_kernel (s\<lparr>semtab := semtab s2\<rparr>) s2" by (rule same_kernel_trans)
  then show ?thesis using a b by (auto simp: released_def)
qed

lemma released_set_scount: "released q ps rest (set_scount k v s) s' \<Longrightarrow> released q ps rest s s'"
  using released_trans [OF released_nil [of q s k v], of ps rest s'] by simp

lemma deferring_set_scount:
  assumes "deferring k s" "k \<in> {0..<NSEM}"
  shows "deferring k (set_scount k v s)"
proof -
  have c: "can_resched {} s" "sems_ok_but k s" using assms(1) by (auto simp: deferring_def)
  have "sems_ok_but k (set_scount k v s)"
    by (rule sems_ok_but_cong [OF placedD(1) [OF can_reschedD(1) [OF c(1)]] c(2) assms(2)])
      (simp_all add: set_scount_def)
  then show ?thesis using assms(1) can_resched_set_sem [OF c(1)] by (simp add: deferring_def)
qed

lemma deferring_set_sstate:
  assumes "deferring k s" "k \<in> {0..<NSEM}"
  shows "deferring k (set_sstate k v s)"
proof -
  have c: "can_resched {} s" "sems_ok_but k s" using assms(1) by (auto simp: deferring_def)
  have "sems_ok_but k (set_sstate k v s)"
    by (rule sems_ok_but_cong [OF placedD(1) [OF can_reschedD(1) [OF c(1)]] c(2) assms(2)])
      (simp_all add: set_sstate_def)
  then show ?thesis using assms(1) can_resched_set_sem [OF c(1)] by (simp add: deferring_def)
qed

lemma release_deferred:
  assumes d: "deferring k s" and qn: "q \<in> qids s" "q \<noteq> readylist s" and q: "queue_of s q = p # ps"
    and k: "\<And>j. j \<in> {0..<NSEM} - {k} \<Longrightarrow> squeue (semtab s j) \<noteq> q"
    and s1: "popped s q p ps s1"
  obtains s2 where "ready p s1 = Some (Ret OK, s2)" "deferring k s2" "semtab s2 = semtab s"
    "released q [p] ps s s2" "attempt s2"
proof -
  note f = popped_fields [OF s1]
  have c: "can_resched {} s" and cur: "state_of s (currpid s) = PR_CURR" and so: "sems_ok_but k s"
    and n: "ndefers s = 1"
    using d by (auto simp: deferring_def)
  note tok = placedD(1) [OF can_reschedD(1) [OF c]]
  have nd: "ndefers s1 > 0" using f(6) n by simp
  have p: "p \<noteq> currpid s"
    using placed_in_queue(6) [OF can_reschedD(1) [OF c] qn(1), of p] q cur by auto
  obtain s2 where e: "ready p s1 = Some (Ret OK, s2)" "can_resched {} s2" "same_kernel s1 s2"
    "currpid s2 = currpid s1" "attempt s2"
    "\<And>q. q \<in> qids s1 \<Longrightarrow> q \<noteq> readylist s1 \<Longrightarrow> queue_of s2 q = queue_of s1 q"
    "\<And>r. state_of s2 r = (if r = p then PR_READY else state_of s1 r)"
    "\<And>j. j \<noteq> p \<Longrightarrow> qkey (queuetab s2 j) = qkey (queuetab s1 j)"
    by (rule ready_deferred [OF f(10,11) nd]) (rule that)
  note g = same_kernel_fields [OF e(3)]
  have "same_kernel s s2" using f(9) e(3) by (rule same_kernel_trans)
  then have rel: "released q [p] ps s s2"
    using e(4,6,7,8) f(1,2,4,5,8,12) g popped_keys [OF s1] by (simp add: released_def same_kernel_def)
  have "sem_ok s2 j" if j: "j \<in> {0..<NSEM} - {k}" for j
  proof (rule sem_ok_cong)
    show "sem_ok s j" using so j by (simp add: sems_ok_but_def)
    show "semtab s2 j = semtab s j" using g f by simp
    show "queue_of s2 (squeue (semtab s j)) = queue_of s (squeue (semtab s j))"
      using releasedD(8) [OF rel] sem_queue [OF tok, of j] k [OF j] j by simp
  qed
  then have "sems_ok_but k s2" using so g(13) f(7) by (simp add: sems_ok_but_def)
  then have "deferring k s2"
    using e(2,4,7) f(5,6,8) g(11) p cur n by (simp add: deferring_def)
  then show thesis using that e(1,5) rel f(1) g(10) by simp
qed

lemma sem_release_deferred:
  assumes d: "deferring k s" and k: "k \<in> {0..<NSEM}" and q: "queue_of s (squeue (semtab s k)) = p # ps"
    and s1: "popped s (squeue (semtab s k)) p ps s1"
  obtains s2 where "ready p s1 = Some (Ret OK, s2)" "deferring k s2" "semtab s2 = semtab s"
    "released (squeue (semtab s k)) [p] ps s s2" "attempt s2"
proof -
  have "can_resched {} s" using d by (simp add: deferring_def)
  note tok = placedD(1) [OF can_reschedD(1) [OF this]]
  note sq = sem_queue [OF tok k]
  show thesis
    by (rule release_deferred [OF d sq(1,2) q _ s1]) (use sem_queue_inj [OF tok] k in auto, rule that)
qed

lemma defer_start:
  assumes "kinv s"
  shows "resched_cntl DEFER_START s = Some (Ret OK, s\<lparr>ndefers := 1, attempt := False\<rparr>)"
    "deferring k (s\<lparr>ndefers := 1, attempt := False\<rparr>)"
    "released q [] (queue_of s q) (s\<lparr>ndefers := 1, attempt := False\<rparr>) (s\<lparr>ndefers := 1, attempt := False\<rparr>)"
proof -
  let ?s = "s\<lparr>ndefers := 1, attempt := False\<rparr>"
  show "resched_cntl DEFER_START s = Some (Ret OK, ?s)"
    using kinvD(4) [OF assms] by (simp add: resched_cntl_def Let_def)
  have "placed {} ?s" using kinvD(5) [OF assms] by (rule placed_cong) simp_all
  then have "can_resched {} ?s" using kinvD(1) [OF assms] by (simp add: can_resched_def)
  moreover have "sems_ok_but k ?s"
    using sems_okD(2) [OF kinvD(2) [OF assms], of k] by (auto simp: sems_ok_but_def sem_ok_def)
  ultimately show "deferring k ?s" using kinvD(3) [OF assms] by (simp add: deferring_def)
  show "released q [] (queue_of s q) ?s ?s" using released_refl [of q ?s] by simp
qed

lemma defer_stop:
  assumes d: "deferring k s" and o: "sems_ok s"
  obtains r s' where "resched_cntl DEFER_STOP s = Some (r, s')" "kinv s'" "r = Ret OK \<or> r = Switch OK"
    "semtab s' = semtab s" "\<And>q. q \<in> qids s \<Longrightarrow> q \<noteq> readylist s \<Longrightarrow> queue_of s' q = queue_of s q"
    "\<And>p. state_of s p = PR_READY \<Longrightarrow> state_of s' p = PR_READY \<or> state_of s' p = PR_CURR"
    "\<And>x. x \<in> set (queue_of s (sleepq s)) \<Longrightarrow> qkey (queuetab s' x) = qkey (queuetab s x)"
    "sleepq s' = sleepq s" "same_kernel (s\<lparr>ndefers := 0\<rparr>) s'"
proof -
  let ?s = "s\<lparr>ndefers := 0\<rparr>"
  have c: "can_resched {} s" "sems_ok s" "state_of s (currpid s) = PR_CURR" "ndefers s = 1"
    using d o by (auto simp: deferring_def)
  have "placed {} ?s" using can_reschedD(1) [OF c(1)] by (rule placed_cong) simp_all
  then have c1: "can_resched {} ?s" using c(1) by (simp add: can_resched_def)
  have so: "sems_ok ?s" by (rule sems_ok_cong [OF placedD(1) [OF can_reschedD(1) [OF c(1)]] c(2)]) simp_all
  show thesis
  proof (cases "attempt s")
    case True
    obtain sw s' where e: "resched ?s = Some (sw, s')" "kinv s'" "sched_effect sw ?s s'"
      by (rule resched_kinv [OF c1 so]) (simp, rule that)
    have "resched_cntl DEFER_STOP s = Some (if sw then Switch OK else Ret OK, s')"
      using c(4) True e(1) by (simp add: resched_cntl_def Let_def)
    then show thesis
    proof (rule that [OF _ e(2)])
      show "semtab s' = semtab s" using e(3) by (simp add: sched_effect_def same_kernel_def)
      show "queue_of s' q = queue_of s q" if "q \<in> qids s" "q \<noteq> readylist s" for q
        using e(3) that by (simp add: sched_effect_def qids_def)
      show "state_of s' p = PR_READY \<or> state_of s' p = PR_CURR" if "state_of s p = PR_READY" for p
        using e(3) that by (auto simp: sched_effect_def dest: spec [of _ p])
    next
      show "same_kernel ?s s'" using e(3) by (simp add: sched_effect_def)
      show "sleepq s' = sleepq s" using sched_effect_sleepers(1) [OF can_reschedD(1) [OF c1] e(3)] by simp
      show "qkey (queuetab s' x) = qkey (queuetab s x)" if "x \<in> set (queue_of s (sleepq s))" for x
        using sched_effect_sleepers(3) [OF can_reschedD(1) [OF c1] e(3)] that by simp
    qed (use True in auto)
  next
    case False
    then have "resched_cntl DEFER_STOP s = Some (Ret OK, ?s)"
      using c(4) by (simp add: resched_cntl_def Let_def)
    moreover have "kinv ?s" using c1 so c(3) by (simp add: kinv_def)
    ultimately show thesis by (rule that) auto
  qed
qed

lemma signaln_loop_ok:
  assumes "deferring k s" "k \<in> {0..<NSEM}" "sem_ok s k" "sstate (semtab s k) = S_USED"
    and "scount (semtab s k) + int n \<le> 2147483647"
  shows "\<exists>s'. signaln_loop n k s = Some s' \<and> deferring k s' \<and> sem_ok s' k \<and>
    scount (semtab s' k) = scount (semtab s k) + int n \<and>
    released (squeue (semtab s k)) (take n (queue_of s (squeue (semtab s k))))
      (drop n (queue_of s (squeue (semtab s k)))) s s'"
  using assms
proof (induction n arbitrary: s)
  case 0
  then show ?case by (simp add: released_refl)
next
  case (Suc n)
  let ?q = "squeue (semtab s k)" and ?n = "scount (semtab s k)"
  let ?sc = "set_scount k (?n + 1) s"
  note c = Suc.prems
  have cr: "can_resched {} s" using c(1) by (simp add: deferring_def)
  note q = sem_queue [OF placedD(1) [OF can_reschedD(1) [OF cr]] c(2)]
  have w: "wrap32 (?n + 1) = ?n + 1" using sem_okD(2) [OF c(3)] c(5) by (intro wrap32_id) auto
  have l: "int (length (queue_of s ?q)) = max 0 (- ?n)" by (rule sem_okD(1) [OF c(3,4)])
  have d: "deferring k ?sc" by (rule deferring_set_scount [OF c(1,2)])
  show ?case
  proof (cases "?n < 0")
    case False
    have "sem_ok ?sc k" using False l c sem_okD(2) [OF c(3)] by (simp add: sem_ok_def Let_def)
    then obtain s' where s': "signaln_loop n k ?sc = Some s'" "deferring k s'" "sem_ok s' k"
      "scount (semtab s' k) = ?n + 1 + int n"
      "released ?q (take n (queue_of s ?q)) (drop n (queue_of s ?q)) ?sc s'"
      using Suc.IH [OF d c(2)] c(4,5) by auto
    have e: "queue_of s ?q = []" using l False by simp
    have "released ?q [] [] s ?sc" using released_nil [of ?q s k "?n + 1"] e by simp
    then have "released ?q [] [] s s'" using s'(5) released_set_scount e by auto
    then show ?thesis using s' e False w by (auto simp: Let_def)
  next
    case True
    then obtain p ps where pq: "queue_of s ?q = p # ps" using l by (cases "queue_of s ?q") auto
    have dc: "can_resched {} ?sc" using d by (simp add: deferring_def)
    obtain s1 where s1: "dequeue ?q ?sc = (p, s1)" "popped ?sc ?q p ps s1"
      by (rule dequeue_popped [OF dc, of ?q p ps]) (use q pq in auto)
    obtain s2 where s2: "ready p s1 = Some (Ret OK, s2)" "deferring k s2" "semtab s2 = semtab ?sc"
      "released ?q [p] ps ?sc s2"
      by (rule sem_release_deferred [OF d c(2), of p ps s1]) (use pq s1 in auto)
    have r: "released ?q [p] ps s s2"
      using s2(4) by (rule released_set_scount)
    have q2: "queue_of s2 ?q = ps" using releasedD(8) [OF r] q by simp
    have "sem_ok s2 k" using s2(3) q2 l pq True c(4) sem_okD(2) [OF c(3)] by (simp add: sem_ok_def Let_def)
    then obtain s' where s': "signaln_loop n k s2 = Some s'" "deferring k s'" "sem_ok s' k"
      "scount (semtab s' k) = ?n + 1 + int n"
      "released ?q (take n ps) (drop n ps) s2 s'"
      using Suc.IH [OF s2(2) c(2)] s2(3) q2 c(4,5) by auto
    have "released ?q (take (Suc n) (p # ps)) (drop (Suc n) (p # ps)) s s'"
      using released_trans [OF r s'(5)] by simp
    then show ?thesis using s' pq True w s1(1) s2(1) by (auto simp: Let_def)
  qed
qed

lemma semdelete_loop_ok:
  assumes "deferring k s" "k \<in> {0..<NSEM}"
    and "int (length (queue_of s (squeue (semtab s k)))) = max 0 (- scount (semtab s k))"
  shows "\<exists>s' v. semdelete_loop k s = Some s' \<and> deferring k s' \<and>
    scount (semtab s' k) = wrap32 v \<and> (\<forall>j. sstate (semtab s' j) = sstate (semtab s j)) \<and>
    released (squeue (semtab s k)) (queue_of s (squeue (semtab s k))) [] s s'"
  using assms
proof (induction "queue_of s (squeue (semtab s k))" arbitrary: s)
  case Nil
  let ?n = "scount (semtab s k)"
  let ?sc = "set_scount k (wrap32 (?n + 1)) s"
  have "0 \<le> ?n" using Nil(1,4) by auto
  then have "semdelete_loop k s = Some ?sc" by (subst semdelete_loop.simps) (simp add: Let_def)
  moreover have "released (squeue (semtab s k)) [] [] s ?sc"
    using released_nil [of "squeue (semtab s k)" s k "wrap32 (?n + 1)"] Nil(1) by simp
  ultimately show ?case using Nil deferring_set_scount [OF Nil(2,3)] by auto
next
  case (Cons p ps)
  let ?q = "squeue (semtab s k)" and ?n = "scount (semtab s k)"
  let ?sc = "set_scount k (wrap32 (?n + 1)) s"
  note c = Cons.prems
  have cr: "can_resched {} s" using c(1) by (simp add: deferring_def)
  note q = sem_queue [OF placedD(1) [OF can_reschedD(1) [OF cr]] c(2)]
  have pq: "queue_of s ?q = p # ps" using Cons.hyps(2) by simp
  have neg: "?n = - int (length ps) - 1" using c(3) pq by simp
  have len: "length (queue_of s ?q) \<le> 100"
    using qlist_length qsys_qlist [OF placedD(2) [OF can_reschedD(1) [OF cr]] q(1)] by blast
  have w: "wrap32 (?n + 1) = ?n + 1" using neg len pq by (intro wrap32_id) auto
  have d: "deferring k ?sc" by (rule deferring_set_scount [OF c(1,2)])
  have dc: "can_resched {} ?sc" using d by (simp add: deferring_def)
  obtain s1 where s1: "getfirst ?q ?sc = (p, s1)" "popped ?sc ?q p ps s1"
    by (rule getfirst_popped [OF dc, of ?q p ps]) (use q pq in auto)
  obtain s2 where s2: "ready p s1 = Some (Ret OK, s2)" "deferring k s2" "semtab s2 = semtab ?sc"
    "released ?q [p] ps ?sc s2"
    by (rule sem_release_deferred [OF d c(2), of p ps s1]) (use pq s1 in auto)
  have r: "released ?q [p] ps s s2"
    using s2(4) by (rule released_set_scount)
  have q2: "queue_of s2 ?q = ps" using releasedD(8) [OF r] q by simp
  have sq: "squeue (semtab s2 k) = ?q" using s2(3) by simp
  have a: "ps = queue_of s2 (squeue (semtab s2 k))" using q2 sq by simp
  have "scount (semtab s2 k) = ?n + 1" using s2(3) w by simp
  then have b: "int (length (queue_of s2 (squeue (semtab s2 k)))) = max 0 (- scount (semtab s2 k))"
    using a [symmetric] neg by simp
  obtain s' v where s': "semdelete_loop k s2 = Some s'" "deferring k s'"
    "scount (semtab s' k) = wrap32 v" "\<forall>j. sstate (semtab s' j) = sstate (semtab s2 j)"
    "released ?q ps [] s2 s'"
    using Cons.hyps(1) [OF a s2(2) c(2) b] unfolding sq q2 by blast
  have "semdelete_loop k s = Some s'"
    using neg s1(1) s2(1) s'(1) by (subst semdelete_loop.simps) (simp add: Let_def)
  moreover have "released ?q (p # ps) [] s s'" using released_trans [OF r s'(5)] by simp
  moreover have "\<forall>j. sstate (semtab s' j) = sstate (semtab s j)" using s'(4) s2(3) by simp
  ultimately show ?case using s'(2,3) pq by metis
qed

lemma semreset_loop_ok:
  assumes "deferring k s" "k \<in> {0..<NSEM}"
  shows "\<exists>s'. semreset_loop (squeue (semtab s k)) s = Some s' \<and> deferring k s' \<and> semtab s' = semtab s \<and>
    released (squeue (semtab s k)) (queue_of s (squeue (semtab s k))) [] s s'"
  using assms
proof (induction "queue_of s (squeue (semtab s k))" arbitrary: s)
  case Nil
  let ?q = "squeue (semtab s k)"
  have cr: "can_resched {} s" using Nil(2) by (simp add: deferring_def)
  note pl = can_reschedD(1) [OF cr]
  have "getfirst ?q s = (QEMPTY, s)"
    using getfirst_none [OF pl sem_queue(1) [OF placedD(1) [OF pl] Nil(3)]] Nil(1) by simp
  then have "semreset_loop ?q s = Some s" by (subst semreset_loop.simps) simp
  then show ?case using Nil released_refl [of ?q s] by simp
next
  case (Cons p ps)
  let ?q = "squeue (semtab s k)"
  note c = Cons.prems
  have cr: "can_resched {} s" using c(1) by (simp add: deferring_def)
  note q = sem_queue [OF placedD(1) [OF can_reschedD(1) [OF cr]] c(2)]
  have pq: "queue_of s ?q = p # ps" using Cons.hyps(2) by simp
  obtain s1 where s1: "getfirst ?q s = (p, s1)" "popped s ?q p ps s1"
    by (rule getfirst_popped [OF cr q(1) pq]) (rule that)
  obtain s2 where s2: "ready p s1 = Some (Ret OK, s2)" "deferring k s2" "semtab s2 = semtab s"
    "released ?q [p] ps s s2"
    by (rule sem_release_deferred [OF c pq s1(2)]) (rule that)
  have q2: "queue_of s2 ?q = ps" using releasedD(8) [OF s2(4)] q by simp
  then obtain s' where s': "semreset_loop ?q s2 = Some s'" "deferring k s'" "semtab s' = semtab s2"
    "released ?q ps [] s2 s'"
    using Cons.hyps(1) [of s2] s2(2,3) c(2) by auto
  have "p \<noteq> QEMPTY" using popped_fields(11) [OF s1(2)] by (auto simp: isbadpid_def)
  then have "semreset_loop ?q s = Some s'"
    using s1(1) s2(1) s'(1) by (subst semreset_loop.simps) simp
  then show ?case using s' s2(3) released_trans [OF s2(4) s'(4)] pq by auto
qed

subsection \<open>The three calls\<close>

lemma kinv_after_stop:
  assumes d: "deferring k s1" "sems_ok s1" and r: "released q ps rest s s1"
    and q: "q \<in> qids s" "q \<noteq> readylist s"
  obtains t s' where "resched_cntl DEFER_STOP s1 = Some (t, s')" "kinv s'" "t = Ret OK \<or> t = Switch OK"
    "semtab s' = semtab s1" "queue_of s' q = rest"
    "\<And>p. p \<in> set ps \<Longrightarrow> state_of s' p = PR_READY \<or> state_of s' p = PR_CURR"
proof -
  note f = releasedD [OF r]
  obtain t s' where e: "resched_cntl DEFER_STOP s1 = Some (t, s')" "kinv s'" "t = Ret OK \<or> t = Switch OK"
    "semtab s' = semtab s1" "\<And>q. q \<in> qids s1 \<Longrightarrow> q \<noteq> readylist s1 \<Longrightarrow> queue_of s' q = queue_of s1 q"
    "\<And>p. state_of s1 p = PR_READY \<Longrightarrow> state_of s' p = PR_READY \<or> state_of s' p = PR_CURR"
    by (rule defer_stop [OF d]) (rule that)
  have "queue_of s' q = rest" using e(5) q f(3,4,8) by simp
  moreover have "state_of s' p = PR_READY \<or> state_of s' p = PR_CURR" if "p \<in> set ps" for p
    using e(6) f(9) that by simp
  ultimately show thesis using that e(1-4) by blast
qed

lemma deferred_start_fields [simp]:
  "queuetab (s\<lparr>ndefers := 1, attempt := False\<rparr>) = queuetab s" "semtab (s\<lparr>ndefers := 1, attempt := False\<rparr>) = semtab s"
  "qids (s\<lparr>ndefers := 1, attempt := False\<rparr>) = qids s"
  by (simp_all add: qids_def)

lemma signaln_release:
  assumes k: "kinv s" and u: "\<not> isbadsem sem" "sstate (semtab s sem) = S_USED"
    and c: "0 \<le> count" "scount (semtab s sem) + count \<le> 2147483647"
  obtains r s' where "signaln sem count s = Some (r, s')" "kinv s'" "r = Ret OK \<or> r = Switch OK"
    "scount (semtab s' sem) = scount (semtab s sem) + count"
    "queue_of s' (squeue (semtab s sem)) = drop (nat count) (queue_of s (squeue (semtab s sem)))"
    "\<And>p. p \<in> set (take (nat count) (queue_of s (squeue (semtab s sem)))) \<Longrightarrow>
       state_of s' p = PR_READY \<or> state_of s' p = PR_CURR"
proof -
  note pr = sem_used_props [OF k u]
  let ?q = "squeue (semtab s sem)" and ?s = "s\<lparr>ndefers := 1, attempt := False\<rparr>"
  note st = defer_start [OF k]
  have o: "sem_ok ?s sem" using pr(2) by (simp add: sem_ok_def)
  have b: "scount (semtab ?s sem) + int (nat count) \<le> 2147483647" using c by simp
  obtain s1 where s1: "signaln_loop (nat count) sem ?s = Some s1" "deferring sem s1" "sem_ok s1 sem"
    "scount (semtab s1 sem) = scount (semtab s sem) + count"
    "released ?q (take (nat count) (queue_of s ?q)) (drop (nat count) (queue_of s ?q)) ?s s1"
    using signaln_loop_ok [OF st(2) pr(1) o _ b] u(2) c(1) by auto
  note q = sem_queue [OF kinvD(6) [OF k] pr(1)]
  have so: "sems_ok s1" using s1(2,3) sems_ok_but_ok by (auto simp: deferring_def)
  obtain t s' where e: "resched_cntl DEFER_STOP s1 = Some (t, s')" "kinv s'" "t = Ret OK \<or> t = Switch OK"
    "semtab s' = semtab s1" "queue_of s' ?q = drop (nat count) (queue_of s ?q)"
    "\<And>p. p \<in> set (take (nat count) (queue_of s ?q)) \<Longrightarrow> state_of s' p = PR_READY \<or> state_of s' p = PR_CURR"
    by (rule kinv_after_stop [OF s1(2) so s1(5)]) (use q in auto)
  have "signaln sem count s = Some (then_return t OK, s')"
    using u c st(1) s1(1) e(1) by (simp add: signaln_def)
  moreover have "then_return t OK = Ret OK \<or> then_return t OK = Switch OK"
    using e(3) by (auto simp: then_return_def)
  ultimately show thesis using that e s1(4) by simp
qed

lemma signaln_bad:
  "isbadsem sem \<or> count < 0 \<or> sstate (semtab s sem) = S_FREE \<Longrightarrow> signaln sem count s = Some (Ret SYSERR, s)"
  by (auto simp: signaln_def)

lemma semdelete_release:
  assumes k: "kinv s" and u: "\<not> isbadsem sem" "sstate (semtab s sem) = S_USED"
  obtains r s' where "semdelete sem s = Some (r, s')" "kinv s'" "r = Ret OK \<or> r = Switch OK"
    "sstate (semtab s' sem) = S_FREE" "queue_of s' (squeue (semtab s sem)) = []"
    "\<And>p. p \<in> set (queue_of s (squeue (semtab s sem))) \<Longrightarrow> state_of s' p = PR_READY \<or> state_of s' p = PR_CURR"
proof -
  note pr = sem_used_props [OF k u]
  let ?q = "squeue (semtab s sem)"
  let ?s = "(set_sstate sem S_FREE s)\<lparr>ndefers := 1, attempt := False\<rparr>"
  have n: "ndefers s = 0" by (rule kinvD(4) [OF k])
  have st: "resched_cntl DEFER_START (set_sstate sem S_FREE s) = Some (Ret OK, ?s)"
    using n by (simp add: resched_cntl_def Let_def)
  have eq: "?s = set_sstate sem S_FREE (s\<lparr>ndefers := 1, attempt := False\<rparr>)" by (simp add: set_sstate_def)
  have d: "deferring sem ?s" unfolding eq by (rule deferring_set_sstate [OF defer_start(2) [OF k] pr(1)])
  obtain s1 v where s1: "semdelete_loop sem ?s = Some s1" "deferring sem s1" "scount (semtab s1 sem) = wrap32 v"
    "\<forall>j. sstate (semtab s1 j) = sstate (semtab ?s j)" "released ?q (queue_of s ?q) [] ?s s1"
    using semdelete_loop_ok [OF d pr(1)] pr(3) by auto
  note q = sem_queue [OF kinvD(6) [OF k] pr(1)]
  have q': "?q \<in> qids ?s" "?q \<noteq> readylist ?s" using q by simp_all
  have "queue_of s1 ?q = []" using releasedD(8) [OF s1(5) q'] by simp
  moreover have "sstate (semtab s1 sem) = S_FREE" using s1(4) by simp
  ultimately have o: "sem_ok s1 sem"
    using s1(3) wrap32_range [of v] releasedD(1) [OF s1(5), of sem] by (simp add: sem_ok_def Let_def)
  then have so: "sems_ok s1" using s1(2) sems_ok_but_ok by (auto simp: deferring_def)
  obtain t s' where e: "resched_cntl DEFER_STOP s1 = Some (t, s')" "kinv s'" "t = Ret OK \<or> t = Switch OK"
    "semtab s' = semtab s1" "queue_of s' ?q = []"
    "\<And>p. p \<in> set (queue_of s ?q) \<Longrightarrow> state_of s' p = PR_READY \<or> state_of s' p = PR_CURR"
    by (rule kinv_after_stop [OF s1(2) so s1(5) q']) (rule that)
  have "semdelete sem s = Some (then_return t OK, s')"
    using u st s1(1) e(1) by (simp add: semdelete_def Let_def)
  moreover have "then_return t OK = Ret OK \<or> then_return t OK = Switch OK"
    using e(3) by (auto simp: then_return_def)
  ultimately show thesis using that e \<open>sstate (semtab s1 sem) = S_FREE\<close> by simp
qed

lemma semdelete_bad: "isbadsem sem \<or> sstate (semtab s sem) = S_FREE \<Longrightarrow> semdelete sem s = Some (Ret SYSERR, s)"
  by (auto simp: semdelete_def)

lemma semreset_release:
  assumes k: "kinv s" and u: "\<not> isbadsem sem" "sstate (semtab s sem) = S_USED"
    and c: "0 \<le> count" "count \<le> 2147483647"
  obtains r s' where "semreset sem count s = Some (r, s')" "kinv s'" "r = Ret OK \<or> r = Switch OK"
    "scount (semtab s' sem) = count" "queue_of s' (squeue (semtab s sem)) = []"
    "\<And>p. p \<in> set (queue_of s (squeue (semtab s sem))) \<Longrightarrow> state_of s' p = PR_READY \<or> state_of s' p = PR_CURR"
proof -
  note pr = sem_used_props [OF k u]
  let ?q = "squeue (semtab s sem)" and ?s = "s\<lparr>ndefers := 1, attempt := False\<rparr>"
  note st = defer_start [OF k]
  obtain s1 where s1: "semreset_loop ?q ?s = Some s1" "deferring sem s1" "semtab s1 = semtab s"
    "released ?q (queue_of s ?q) [] ?s s1"
    using semreset_loop_ok [OF st(2) pr(1)] by auto
  let ?s1 = "set_scount sem count s1"
  note q = sem_queue [OF kinvD(6) [OF k] pr(1)]
  have q': "?q \<in> qids ?s" "?q \<noteq> readylist ?s" using q by simp_all
  have d1: "deferring sem ?s1" by (rule deferring_set_scount [OF s1(2) pr(1)])
  have r1: "released ?q (queue_of s ?q) [] ?s ?s1"
    using released_trans [OF s1(4) released_nil] releasedD(8) [OF s1(4) q'] by fastforce
  have o: "sem_ok ?s1 sem" using releasedD(8) [OF s1(4) q'] s1(3) c u(2) by (simp add: sem_ok_def Let_def)
  then have so: "sems_ok ?s1" using d1 sems_ok_but_ok by (auto simp: deferring_def)
  obtain t s' where e: "resched_cntl DEFER_STOP ?s1 = Some (t, s')" "kinv s'" "t = Ret OK \<or> t = Switch OK"
    "semtab s' = semtab ?s1" "queue_of s' ?q = []"
    "\<And>p. p \<in> set (queue_of s ?q) \<Longrightarrow> state_of s' p = PR_READY \<or> state_of s' p = PR_CURR"
    by (rule kinv_after_stop [OF d1 so r1 q']) (rule that)
  have "semreset sem count s = Some (then_return t OK, s')"
    using u c st(1) s1(1) e(1) by (simp add: semreset_def Let_def)
  moreover have "then_return t OK = Ret OK \<or> then_return t OK = Switch OK"
    using e(3) by (auto simp: then_return_def)
  ultimately show thesis using that e by simp
qed

lemma semreset_bad:
  "count < 0 \<or> isbadsem sem \<or> sstate (semtab s sem) = S_FREE \<Longrightarrow> semreset sem count s = Some (Ret SYSERR, s)"
  by (auto simp: semreset_def)

subsection \<open>Allocation of semaphores\<close>

lemma newsem_loop_step:
  assumes "0 \<le> nextsem s" "nextsem s < NSEM"
  shows "newsem_loop (Suc n) s =
    (if sstate (semtab s (nextsem s)) = S_FREE
     then (nextsem s, set_sstate (nextsem s) S_USED (s\<lparr>nextsem := (nextsem s + 1) mod NSEM\<rparr>))
     else newsem_loop n (s\<lparr>nextsem := (nextsem s + 1) mod NSEM\<rparr>))"
proof (cases "nextsem s = 99")
  case True
  then show ?thesis by (simp add: Let_def)
next
  case False
  then have "wrap32 (nextsem s + 1) = nextsem s + 1" "nextsem s + 1 < NSEM" "(nextsem s + 1) mod NSEM = nextsem s + 1"
    using assms by auto
  then show ?thesis by (simp add: Let_def)
qed

lemma mod_step1: "((x + 1) mod m + int i) mod m = (x + int (Suc i)) mod (m :: int)"
  by (simp add: mod_simps algebra_simps)

lemma mod_step2: "((x + 1) mod m + int i + 1) mod m = (x + int (Suc i) + 1) mod (m :: int)"
  using mod_step1 [of x m "Suc i"] by (simp add: algebra_simps)

lemma newsem_loop_full:
  assumes "0 \<le> nextsem s" "nextsem s < NSEM"
    and "\<And>i. i < n \<Longrightarrow> sstate (semtab s ((nextsem s + int i) mod NSEM)) = S_USED"
  shows "newsem_loop n s = (SYSERR, s\<lparr>nextsem := (nextsem s + int n) mod NSEM\<rparr>)"
  using assms
proof (induction n arbitrary: s)
  case 0
  then show ?case by simp
next
  case (Suc n)
  let ?s = "s\<lparr>nextsem := (nextsem s + 1) mod NSEM\<rparr>"
  have "sstate (semtab ?s ((nextsem ?s + int i) mod NSEM)) = S_USED" if "i < n" for i
    using Suc.prems(3) [of "Suc i"] that mod_step1 [of "nextsem s" NSEM i] by simp
  then have "newsem_loop n ?s = (SYSERR, ?s\<lparr>nextsem := (nextsem ?s + int n) mod NSEM\<rparr>)"
    by (intro Suc.IH) auto
  moreover have "sstate (semtab s (nextsem s)) = S_USED" using Suc.prems(3) [of 0] Suc.prems(1,2) by simp
  ultimately show ?case
    using newsem_loop_step [OF Suc.prems(1,2)] mod_step1 [of "nextsem s" NSEM n] by simp
qed

lemma newsem_loop_free:
  assumes "0 \<le> nextsem s" "nextsem s < NSEM" "i < n"
    and "\<And>j. j < i \<Longrightarrow> sstate (semtab s ((nextsem s + int j) mod NSEM)) = S_USED"
    and "sstate (semtab s ((nextsem s + int i) mod NSEM)) = S_FREE"
  shows "newsem_loop n s = ((nextsem s + int i) mod NSEM,
    set_sstate ((nextsem s + int i) mod NSEM) S_USED (s\<lparr>nextsem := (nextsem s + int i + 1) mod NSEM\<rparr>))"
  using assms
proof (induction i arbitrary: n s)
  case 0
  then obtain m where "n = Suc m" by (cases n) auto
  then show ?case using 0 newsem_loop_step [OF 0(1,2)] by simp
next
  case (Suc i)
  then obtain m where m: "n = Suc m" by (cases n) auto
  let ?s = "s\<lparr>nextsem := (nextsem s + 1) mod NSEM\<rparr>"
  note ms = mod_step1 [of "nextsem s" NSEM] mod_step2 [of "nextsem s" NSEM i]
  have "sstate (semtab ?s ((nextsem ?s + int j) mod NSEM)) = S_USED" if "j < i" for j
    using Suc.prems(4) [of "Suc j"] that ms(1) [of j] by simp
  moreover have "sstate (semtab ?s ((nextsem ?s + int i) mod NSEM)) = S_FREE"
    using Suc.prems(5) ms(1) [of i] by simp
  ultimately have "newsem_loop m ?s = ((nextsem ?s + int i) mod NSEM,
      set_sstate ((nextsem ?s + int i) mod NSEM) S_USED (?s\<lparr>nextsem := (nextsem ?s + int i + 1) mod NSEM\<rparr>))"
    using Suc.prems(3) m by (intro Suc.IH) auto
  moreover have "sstate (semtab s (nextsem s)) = S_USED" using Suc.prems(4) [of 0] Suc.prems(1,2) by simp
  ultimately show ?case
    using newsem_loop_step [OF Suc.prems(1,2), of m] ms(1) [of i] ms(2) m by simp
qed

lemma newsem_cases:
  assumes n: "0 \<le> nextsem s" "nextsem s < NSEM"
  obtains "\<forall>k \<in> {0..<NSEM}. sstate (semtab s k) = S_USED" "newsem s = (SYSERR, s)"
  | k m where "k \<in> {0..<NSEM}" "sstate (semtab s k) = S_FREE" "0 \<le> m" "m < NSEM"
      "newsem s = (k, set_sstate k S_USED (s\<lparr>nextsem := m\<rparr>))"
proof (cases "\<exists>i < 100. sstate (semtab s ((nextsem s + int i) mod NSEM)) = S_FREE")
  case True
  define i where "i = (LEAST i. sstate (semtab s ((nextsem s + int i) mod NSEM)) = S_FREE)"
  have i: "sstate (semtab s ((nextsem s + int i) mod NSEM)) = S_FREE" "i < 100"
    unfolding i_def using True by (auto intro: LeastI order_le_less_trans [OF Least_le])
  have "sstate (semtab s ((nextsem s + int j) mod NSEM)) = S_USED" if "j < i" for j
    using not_less_Least [of j] that sem_state_cases unfolding i_def by blast
  then show thesis
    using that(2) [OF _ i(1), of "(nextsem s + int i + 1) mod NSEM"] newsem_loop_free [OF n i(2) _ i(1)]
    by (simp add: newsem_def)
next
  case False
  then have u: "sstate (semtab s ((nextsem s + int i) mod NSEM)) = S_USED" if "i < 100" for i
    using that sem_state_cases by blast
  have "sstate (semtab s k) = S_USED" if "k \<in> {0..<NSEM}" for k
    using u [of "nat ((k - nextsem s) mod NSEM)"] that by (simp add: mod_simps)
  moreover have "newsem s = (SYSERR, s)"
    using newsem_loop_full [OF n, of 100] u n by (simp add: newsem_def)
  ultimately show thesis using that(1) by blast
qed

lemma semcreate_kinv:
  assumes k: "kinv s" and c: "count \<le> 2147483647"
  shows "kinv (snd (semcreate count s))"
    "fst (semcreate count s) = SYSERR \<longleftrightarrow> count < 0 \<or> (\<forall>k \<in> {0..<NSEM}. sstate (semtab s k) = S_USED)"
    "fst (semcreate count s) \<noteq> SYSERR \<Longrightarrow>
      (let sem = fst (semcreate count s); s' = snd (semcreate count s) in
       sem \<in> {0..<NSEM} \<and> sstate (semtab s sem) = S_FREE \<and> sstate (semtab s' sem) = S_USED \<and>
       scount (semtab s' sem) = count \<and> queue_of s' (squeue (semtab s' sem)) = [] \<and>
       (\<forall>j. j \<noteq> sem \<longrightarrow> semtab s' j = semtab s j))"
proof (atomize (full), goal_cases)
  case 1
  have n: "0 \<le> nextsem s" "nextsem s < NSEM" using kinvD(2) [OF k] by (auto simp: sems_ok_def)
  show ?case
  proof (cases "count < 0")
    case True
    then show ?thesis using k by (simp add: semcreate_def)
  next
    case False
    from n show ?thesis
    proof (cases rule: newsem_cases)
      case 1
      then show ?thesis using False k by (simp add: semcreate_def)
    next
      case (2 j m)
      let ?s = "set_scount j count (set_sstate j S_USED (s\<lparr>nextsem := m\<rparr>))"
      have e: "semcreate count s = (j, ?s)" using False 2 by (simp add: semcreate_def)
      have q: "queue_of s (squeue (semtab s j)) = []"
        using sems_okD(1) [OF kinvD(2) [OF k] 2(1)] 2(2) by (simp add: sem_ok_def Let_def)
      have st: "semtab ?s i = (if i = j then (semtab s j)\<lparr>sstate := S_USED, scount := count\<rparr> else semtab s i)" for i
        by (simp add: set_scount_def set_sstate_def)
      have "placed {} (s\<lparr>nextsem := m\<rparr>)" by (rule placed_cong [OF kinvD(5) [OF k]]) simp_all
      then have pl: "placed {} ?s" by simp
      have "sem_ok ?s i" if "i \<in> {0..<NSEM}" for i
        using sems_okD(1) [OF kinvD(2) [OF k] that] st [of i] q c False by (simp add: sem_ok_def Let_def)
      then have so: "sems_ok ?s" using 2(3,4) by (simp add: sems_ok_def)
      have "kinv ?s"
        by (rule kinv_change [OF k pl so]) (use kinvD(4) [OF k] can_reschedD(5) [OF kinvD(1) [OF k]] in simp_all)
      moreover have "\<exists>k \<in> {0..<NSEM}. sstate (semtab s k) \<noteq> S_USED" using 2(1,2) by force
      ultimately show ?thesis using e 2 st q False by (simp add: Let_def)
    qed
  qed
qed

end
