(* ===== verification/Clock.thy ===== *)
theory Clock
  imports Semaphores
begin

text \<open>
  The clock and the delta list of sleeping processes: \<^verbatim>\<open>system/sleep.c\<close>, \<^verbatim>\<open>unsleep.c\<close>,
  \<^verbatim>\<open>wakeup.c\<close>, \<^verbatim>\<open>clkhandler.c\<close> and the state part of \<^verbatim>\<open>clkinit.c\<close>.  The lemmas read the
  sleep queue through \<open>wake_list\<close>, the processes with the number of ticks left to each.
\<close>

definition sleepms :: "u32 \<Rightarrow> 'z kstate_scheme \<Rightarrow> ((int, int) outcome \<times> 'z kstate_scheme) option" where
  "sleepms delay s =
     (if delay = 0 then do {
        (r, s) \<leftarrow> yield s;
        Some (then_return r OK, s)
      }
      else do {
        (r, s) \<leftarrow> insertd (currpid s) (sleepq s) (sint delay) s;
        if r = SYSERR then Some (Ret SYSERR, s)
        else do {
          let s = set_prstate (currpid s) PR_SLEEP s;
          (sw, s) \<leftarrow> resched s;
          Some (if sw then Switch OK else Ret OK, s)
        }
      })"

abbreviation (input) MAXSECONDS :: u32 where "MAXSECONDS \<equiv> 4294967"

definition sleep :: "u32 \<Rightarrow> 'z kstate_scheme \<Rightarrow> ((int, int) outcome \<times> 'z kstate_scheme) option" where
  "sleep delay s =
     (if delay > MAXSECONDS then Some (Ret SYSERR, s)
      else do {
        (r, s) \<leftarrow> sleepms (1000 * delay) s;
        Some (then_return r OK, s)
      })"

definition unsleep :: "int \<Rightarrow> 'z kstate_scheme \<Rightarrow> int \<times> 'z kstate_scheme" where
  "unsleep pid s =
     (if isbadpid s pid then (SYSERR, s)
      else if state_of s pid \<noteq> PR_SLEEP \<and> state_of s pid \<noteq> PR_RECTIM then (SYSERR, s)
      else
        let pidnext = qnext (queuetab s pid);
            s = (if pidnext < NPROC
                 then s\<lparr>queuetab := set_qkey pidnext
                        (wrap32 (qkey (queuetab s pidnext) + qkey (queuetab s pid))) (queuetab s)\<rparr>
                 else s);
            (r, s) = getitem pid s
        in (OK, s))"

partial_function (option) wakeup_loop :: "'z kstate_scheme \<Rightarrow> 'z kstate_scheme option" where
  "wakeup_loop s =
     (if nonempty (queuetab s) (sleepq s) \<and> firstkey (queuetab s) (sleepq s) \<le> 0 then do {
        let (pid, s) = dequeue (sleepq s) s;
        (r, s) \<leftarrow> ready pid s;
        wakeup_loop s
      }
      else Some s)"

definition wakeup :: "'z kstate_scheme \<Rightarrow> ((unit, unit) outcome \<times> 'z kstate_scheme) option" where
  "wakeup s = do {
     (r, s) \<leftarrow> resched_cntl DEFER_START s;
     s \<leftarrow> wakeup_loop s;
     (r, s) \<leftarrow> resched_cntl DEFER_STOP s;
     Some (then_return r (), s)
   }"

text \<open>
  The interrupt handler runs in the context of the interrupted process.  A process that wakes
  may take the processor inside \<open>wakeup\<close>; the preemption part of the handler is then run when
  the interrupted process is switched in again.
\<close>

datatype clkrest = PreemptRest | NoRest

definition clk_preempt :: "'z kstate_scheme \<Rightarrow> ((unit, clkrest) outcome \<times> 'z kstate_scheme) option" where
  "clk_preempt s =
     (let s = s\<lparr>preempt := preempt s - 1\<rparr> in
      if preempt s \<le> 0 then do {
        let s = s\<lparr>preempt := QUANTUM\<rparr>;
        (sw, s) \<leftarrow> resched s;
        Some (if sw then Switch NoRest else Ret (), s)
      }
      else Some (Ret (), s))"

definition clk_count :: "'z kstate_scheme \<Rightarrow> 'z kstate_scheme" where
  "clk_count s =
     (let s = s\<lparr>myglobalclock := myglobalclock s + 1\<rparr>;
          s = s\<lparr>count1000 := count1000 s - 1\<rparr>
      in if count1000 s \<le> 0 then s\<lparr>clktime := clktime s + 1, count1000 := 1000\<rparr> else s)"

definition clkhandler :: "'z kstate_scheme \<Rightarrow> ((unit, clkrest) outcome \<times> 'z kstate_scheme) option" where
  "clkhandler s =
     (let s = clk_count s in
      if isempty (queuetab s) (sleepq s) then clk_preempt s
      else
        let h = firstid (queuetab s) (sleepq s);
            s = s\<lparr>queuetab := set_qkey h (wrap32 (qkey (queuetab s h) - 1)) (queuetab s)\<rparr>
        in if qkey (queuetab s h) \<le> 0 then do {
             (r, s) \<leftarrow> wakeup s;
             case r of Ret _ \<Rightarrow> clk_preempt s | Switch _ \<Rightarrow> Some (Switch PreemptRest, s)
           }
           else clk_preempt s)"

text \<open>Without the programming of the timer chip.\<close>

definition clkinit :: "'z kstate_scheme \<Rightarrow> 'z kstate_scheme" where
  "clkinit s =
     (let (q, s) = newqueue s in
      s\<lparr>sleepq := q, preempt := QUANTUM, clktime := 0, myglobalclock := 0\<rparr>)"

subsection \<open>The sleeping processes and the ticks left to them\<close>

definition wake_list :: "'z kstate_scheme \<Rightarrow> (int \<times> int) list" where
  "wake_list s = wake_times (queuetab s) 0 (queue_of s (sleepq s))"

lemma wake_list_cong:
  assumes "sleepq s' = sleepq s" "queue_of s' (sleepq s) = queue_of s (sleepq s)"
    and "\<And>x. x \<in> set (queue_of s (sleepq s)) \<Longrightarrow> qkey (queuetab s' x) = qkey (queuetab s x)"
  shows "wake_list s' = wake_list s"
  using assms wake_times_cong [of "queue_of s (sleepq s)" "queuetab s'" "queuetab s" 0]
  by (simp add: wake_list_def)

lemma sched_effect_wake_list:
  "placed {} s \<Longrightarrow> sched_effect sw s s' \<Longrightarrow> wake_list s' = wake_list s"
  using sched_effect_sleepers [of s sw s'] by (intro wake_list_cong) auto

subsection \<open>Going to sleep\<close>

lemma insertd_can_resched:
  assumes k: "kinv s" and key: "0 \<le> key" "key \<le> MAXKEY" and st: "st = PR_SLEEP \<or> st = PR_RECTIM"
    and n: "currpid s \<noteq> NULLPROC"
  obtains t where "insertd (currpid s) (sleepq s) key s = Some (OK, s\<lparr>queuetab := t\<rparr>)"
    "can_resched {} (set_prstate (currpid s) st (s\<lparr>queuetab := t\<rparr>))"
    "sems_ok (set_prstate (currpid s) st (s\<lparr>queuetab := t\<rparr>))"
    "wake_list (set_prstate (currpid s) st (s\<lparr>queuetab := t\<rparr>)) =
       takeWhile (\<lambda>(x, w). w \<le> key) (wake_list s) @ (currpid s, key) #
       dropWhile (\<lambda>(x, w). w \<le> key) (wake_list s)"
    "\<And>q. q \<in> qids s \<Longrightarrow> q \<noteq> sleepq s \<Longrightarrow> qcontents t q = queue_of s q"
proof -
  let ?p = "currpid s" and ?q = "sleepq s"
  let ?s = "set_prstate ?p st s"
  have r: "0 \<le> ?p" "?p < NPROC" using kinvD(7,8) [OF k] .
  note pl = kinvD(5) [OF k]
  have "placed {?p} s" using placed_take [OF pl r] home_simps(2) [of s ?p] kinvD(3) [OF k] by simp
  then have pl': "placed {?p} ?s" by (rule placed_set_prstate) simp
  have h: "home ?s ?p = Some (sleepq ?s)" using home_simps(3) [of ?s ?p] st by auto
  have b: "isbadpid ?s = isbadpid s" using kinvD(3) [OF k] st by (auto simp: isbadpid_def fun_eq_iff)
  have nb: "\<not> isbadpid ?s ?p" using r st by (auto simp: isbadpid_def)
  have w: "state_of ?s ?p \<noteq> PR_WAIT" using st by auto
  obtain t us vs m where t: "insertd ?p (sleepq ?s) key ?s = Some (OK, ?s\<lparr>queuetab := t\<rparr>)"
    "placed ({?p} - {?p}) (?s\<lparr>queuetab := t\<rparr>)"
    "delta_split (queuetab ?s) key (queue_of ?s (sleepq ?s)) = (us, vs, m)"
    "\<And>q'. q' \<in> qids ?s \<Longrightarrow> qcontents t q' = (if q' = sleepq ?s then us @ ?p # vs else queue_of ?s q')"
    "\<And>j. qkey (t j) = (if j = ?p then m
       else if vs \<noteq> [] \<and> j = hd vs then qkey (queuetab ?s j) - m else qkey (queuetab ?s j))"
    by (rule insertd_placed [OF pl' singletonI nb h w key]) (rule that)
  let ?s1 = "set_prstate ?p st (s\<lparr>queuetab := t\<rparr>)"
  have eq: "?s\<lparr>queuetab := t\<rparr> = ?s1" by (simp add: set_prstate_def)
  have "insertd ?p ?q key s = Some (OK, s\<lparr>queuetab := t\<rparr>)"
    using t(1) b by (auto simp: insertd_def split: option.splits dest: arg_cong [where f = queuetab])
  moreover have "can_resched {} ?s1"
  proof (rule can_resched_change [OF kinvD(1) [OF k]])
    show "placed {} ?s1" using t(2) eq by simp
    show "state_of ?s1 0 = PR_READY \<or> state_of ?s1 0 = PR_CURR"
      using can_reschedD(5) [OF kinvD(1) [OF k]] n by simp
  qed (use st in \<open>auto split: if_splits\<close>)
  moreover have "sems_ok ?s1"
    by (rule sems_ok_cong [OF kinvD(6,2) [OF k]]) (use t(4) in auto)
  moreover have "wake_list ?s1 = takeWhile (\<lambda>(x, w). w \<le> key) (wake_list s) @ (?p, key) #
      dropWhile (\<lambda>(x, w). w \<le> key) (wake_list s)"
  proof -
    have d: "delta_split (queuetab s) key (queue_of s ?q) = (us, vs, m)" using t(3) by simp
    have "?p \<notin> set (queue_of s ?q)"
      using placed_in_queue(6) [OF pl placedD(4) [OF pl]] kinvD(3) [OF k] by blast
    moreover have "distinct (queue_of s ?q)"
      using qsys_qlist [OF placedD(2,4) [OF pl]] by (simp add: qlist_def)
    moreover have "\<And>j. qkey (t j) = (if j = ?p then m
       else if vs \<noteq> [] \<and> j = hd vs then qkey (queuetab s j) - m else qkey (queuetab s j))"
      using t(5) by simp
    ultimately have "wake_times t 0 (us @ ?p # vs) =
       takeWhile (\<lambda>(x, w). w \<le> 0 + key) (wake_times (queuetab s) 0 (queue_of s ?q)) @ (?p, 0 + key) #
       dropWhile (\<lambda>(x, w). w \<le> 0 + key) (wake_times (queuetab s) 0 (queue_of s ?q))"
      by (rule insertd_wake_times [OF d])
    then show ?thesis using t(4) [of ?q] placedD(4) [OF pl] by (simp add: wake_list_def)
  qed
  moreover have "qcontents t q = queue_of s q" if "q \<in> qids s" "q \<noteq> ?q" for q using t(4) that by simp
  ultimately show thesis by (rule that)
qed

lemma sint_small: "x \<le> (2147483647 :: u32) \<Longrightarrow> sint x = int (unat x)"
proof -
  assume "x \<le> 2147483647"
  then have "uint x \<le> 2147483647" by (simp add: word_le_def)
  then have "signed_take_bit 31 (uint x) = uint x"
    by (intro signed_take_bit_int_eq_self order_trans [OF _ uint_ge_0]) simp_all
  then show ?thesis by (simp add: sint_uint)
qed

lemma sleepms_blocks:
  assumes k: "kinv s" and n: "currpid s \<noteq> NULLPROC" and d: "delay \<noteq> 0" "delay \<le> 2147483647"
  obtains s' where "sleepms delay s = Some (Switch OK, s')" "kinv s'" "state_of s' (currpid s) = PR_SLEEP"
    "wake_list s' = takeWhile (\<lambda>(x, w). w \<le> int (unat delay)) (wake_list s) @ (currpid s, int (unat delay)) #
       dropWhile (\<lambda>(x, w). w \<le> int (unat delay)) (wake_list s)"
    "\<And>q. q \<in> qids s \<Longrightarrow> q \<noteq> sleepq s \<Longrightarrow> q \<noteq> readylist s \<Longrightarrow> queue_of s' q = queue_of s q"
proof -
  let ?p = "currpid s" and ?d = "sint delay"
  have sd: "?d = int (unat delay)" by (rule sint_small [OF d(2)])
  have key: "0 \<le> ?d" "?d \<le> MAXKEY" using d(2) unfolding sd by (simp_all add: word_le_nat_alt del: unat_eq_nat_uint of_nat_unat)
  obtain t where t: "insertd ?p (sleepq s) ?d s = Some (OK, s\<lparr>queuetab := t\<rparr>)"
    "can_resched {} (set_prstate ?p PR_SLEEP (s\<lparr>queuetab := t\<rparr>))"
    "sems_ok (set_prstate ?p PR_SLEEP (s\<lparr>queuetab := t\<rparr>))"
    "wake_list (set_prstate ?p PR_SLEEP (s\<lparr>queuetab := t\<rparr>)) =
       takeWhile (\<lambda>(x, w). w \<le> ?d) (wake_list s) @ (?p, ?d) # dropWhile (\<lambda>(x, w). w \<le> ?d) (wake_list s)"
    "\<And>q. q \<in> qids s \<Longrightarrow> q \<noteq> sleepq s \<Longrightarrow> qcontents t q = queue_of s q"
    by (rule insertd_can_resched [OF k key disjI1 [OF refl] n]) (rule that)
  let ?s = "set_prstate ?p PR_SLEEP (s\<lparr>queuetab := t\<rparr>)"
  have nd: "ndefers ?s = 0" using kinvD(4) [OF k] by simp
  obtain sw s' where e: "resched ?s = Some (sw, s')" "kinv s'" "sched_effect sw ?s s'"
    by (rule resched_kinv [OF t(2,3) nd]) (rule that)
  have st: "state_of s' ?p = PR_SLEEP" using e(3) by (auto simp: sched_effect_def dest: spec [of _ ?p])
  then have sw: "sw" using e(2,3) kinvD(3) [OF e(2)] by (auto simp: sched_effect_def)
  have "sleepms delay s = Some (Switch OK, s')"
    using d(1) t(1) e(1) sw by (simp add: sleepms_def)
  moreover have "wake_list s' = wake_list ?s"
    by (rule sched_effect_wake_list [OF can_reschedD(1) [OF t(2)] e(3)])
  moreover have "queue_of s' q = queue_of s q" if "q \<in> qids s" "q \<noteq> sleepq s" "q \<noteq> readylist s" for q
    using e(3) t(5) that by (simp add: sched_effect_def)
  ultimately show thesis using that e(2) st t(4) sd by simp
qed

subsection \<open>Waking up\<close>

lemma wakeup_loop_ok:
  assumes "deferring (-1) s"
  shows "\<exists>s'. wakeup_loop s = Some s' \<and> deferring (-1) s' \<and> semtab s' = semtab s \<and>
    released (sleepq s) (takeWhile (\<lambda>x. qkey (queuetab s x) \<le> 0) (queue_of s (sleepq s)))
      (dropWhile (\<lambda>x. qkey (queuetab s x) \<le> 0) (queue_of s (sleepq s))) s s'"
  using assms
proof (induction "queue_of s (sleepq s)" arbitrary: s)
  case Nil
  then have "can_resched {} s" by (simp add: deferring_def)
  note pl = can_reschedD(1) [OF this]
  have "wakeup_loop s = Some s"
    using qsys_nonempty [OF placedD(2,4) [OF pl]] Nil(1) by (subst wakeup_loop.simps) simp
  then show ?case using Nil released_refl [of "sleepq s" s] by simp
next
  case (Cons p ps)
  let ?q = "sleepq s"
  have c: "can_resched {} s" using Cons.prems by (simp add: deferring_def)
  note pl = can_reschedD(1) [OF c]
  have pq: "queue_of s ?q = p # ps" using Cons.hyps(2) by simp
  have ne: "nonempty (queuetab s) ?q" using qsys_nonempty [OF placedD(2,4) [OF pl]] pq by simp
  have fk: "firstkey (queuetab s) ?q = qkey (queuetab s p)"
    using qsys_firstid [OF placedD(2,4) [OF pl]] pq by (simp add: firstkey_def)
  show ?case
  proof (cases "qkey (queuetab s p) \<le> 0")
    case False
    then have "wakeup_loop s = Some s" using fk by (subst wakeup_loop.simps) simp
    then show ?thesis using Cons.prems False released_refl [of ?q s] pq by simp
  next
    case True
    obtain s1 where s1: "dequeue ?q s = (p, s1)" "popped s ?q p ps s1"
      by (rule dequeue_popped [OF c placedD(4) [OF pl] pq]) (rule that)
    have sq: "squeue (semtab s j) \<noteq> ?q" if "j \<in> {0..<NSEM} - {-1}" for j
      using sem_queue [OF placedD(1) [OF pl], of j] that by simp
    obtain s2 where s2: "ready p s1 = Some (Ret OK, s2)" "deferring (-1) s2" "semtab s2 = semtab s"
      "released ?q [p] ps s s2"
      by (rule release_deferred [OF Cons.prems placedD(4) [OF pl] placedD(5) [OF pl, symmetric] pq sq s1(2)])
        (assumption, rule that)
    note r = releasedD [OF s2(4)]
    have q2: "queue_of s2 ?q = ps" using r(8) placedD(4,5) [OF pl] by simp
    have pn: "p \<notin> set ps" using qsys_qlist [OF placedD(2,4) [OF pl]] pq by (simp add: qlist_def)
    have kk: "qkey (queuetab s2 x) = qkey (queuetab s x)" if "x \<in> set ps" for x
      using r(12) [of x] that pn by (cases "x = p") auto
    have tw: "takeWhile (\<lambda>x. qkey (queuetab s2 x) \<le> 0) ps = takeWhile (\<lambda>x. qkey (queuetab s x) \<le> 0) ps"
      by (intro takeWhile_cong refl) (simp add: kk)
    have dw: "dropWhile (\<lambda>x. qkey (queuetab s2 x) \<le> 0) ps = dropWhile (\<lambda>x. qkey (queuetab s x) \<le> 0) ps"
      by (intro dropWhile_cong refl) (simp add: kk)
    have a: "ps = queue_of s2 (sleepq s2)" using q2 r(5) by simp
    from Cons.hyps(1) [OF a s2(2)] obtain s' where s': "wakeup_loop s2 = Some s'" "deferring (-1) s'"
      "semtab s' = semtab s2"
      "released ?q (takeWhile (\<lambda>x. qkey (queuetab s x) \<le> 0) ps) (dropWhile (\<lambda>x. qkey (queuetab s x) \<le> 0) ps) s2 s'"
      unfolding r(5) q2 tw dw by blast
    have "wakeup_loop s = Some s'"
      using ne fk True s1(1) s2(1) s'(1) by (subst wakeup_loop.simps) simp
    moreover have "released ?q (p # takeWhile (\<lambda>x. qkey (queuetab s x) \<le> 0) ps)
        (dropWhile (\<lambda>x. qkey (queuetab s x) \<le> 0) ps) s s'"
      using released_trans [OF s2(4) s'(4)] by simp
    ultimately show ?thesis using s' s2(3) True pq by simp
  qed
qed

lemma wake_times_dropWhile:
  assumes "\<And>x. x \<in> set xs \<Longrightarrow> 0 \<le> qkey (t x)"
  shows "dropWhile (\<lambda>(x, w). w \<le> 0) (wake_times t 0 xs) = wake_times t 0 (dropWhile (\<lambda>x. qkey (t x) \<le> 0) xs)"
  using assms
proof (induction xs)
  case Nil
  then show ?case by simp
next
  case (Cons x xs)
  then show ?case by (cases "qkey (t x) = 0") fastforce+
qed

lemma wakeup_spec:
  assumes k: "kinv s"
  obtains r s' where "wakeup s = Some (r, s')" "kinv s'" "r = Ret () \<or> r = Switch ()"
    "wake_list s' = dropWhile (\<lambda>(x, w). w \<le> 0) (wake_list s)"
    "\<And>p. p \<in> set (takeWhile (\<lambda>x. qkey (queuetab s x) \<le> 0) (queue_of s (sleepq s))) \<Longrightarrow>
       state_of s' p = PR_READY \<or> state_of s' p = PR_CURR"
    "myglobalclock s' = myglobalclock s" "clktime s' = clktime s" "count1000 s' = count1000 s"
proof -
  let ?s = "s\<lparr>ndefers := 1, attempt := False\<rparr>" and ?q = "sleepq s"
  let ?ps = "takeWhile (\<lambda>x. qkey (queuetab s x) \<le> 0) (queue_of s ?q)"
  let ?rest = "dropWhile (\<lambda>x. qkey (queuetab s x) \<le> 0) (queue_of s ?q)"
  note pl = kinvD(5) [OF k]
  note st = defer_start [OF k]
  obtain s1 where s1: "wakeup_loop ?s = Some s1" "deferring (-1) s1" "released ?q ?ps ?rest ?s s1"
    using wakeup_loop_ok [OF st(2)] by auto
  note r = releasedD [OF s1(3)]
  have so: "sems_ok s1" using s1(2) by (auto simp: deferring_def sems_ok_def sems_ok_but_def)
  obtain a s' where e: "resched_cntl DEFER_STOP s1 = Some (a, s')" "kinv s'" "a = Ret OK \<or> a = Switch OK"
    "semtab s' = semtab s1" "\<And>q. q \<in> qids s1 \<Longrightarrow> q \<noteq> readylist s1 \<Longrightarrow> queue_of s' q = queue_of s1 q"
    "\<And>p. state_of s1 p = PR_READY \<Longrightarrow> state_of s' p = PR_READY \<or> state_of s' p = PR_CURR"
    "\<And>x. x \<in> set (queue_of s1 (sleepq s1)) \<Longrightarrow> qkey (queuetab s' x) = qkey (queuetab s1 x)"
    "sleepq s' = sleepq s1" "same_kernel (s1\<lparr>ndefers := 0\<rparr>) s'"
    by (rule defer_stop [OF s1(2) so]) (rule that)
  have q1: "?q \<in> qids ?s" "?q \<noteq> readylist ?s" using placedD(4,5) [OF pl] by simp_all
  have sq: "sleepq s1 = ?q" using r(5) by simp
  have c1: "queue_of s1 ?q = ?rest" using r(8) [OF q1] by simp
  have q2: "?q \<in> qids s1" "?q \<noteq> readylist s1" using q1 r(3,4) by simp_all
  have "distinct (queue_of s ?q)" using qsys_qlist [OF placedD(2,4) [OF pl]] by (simp add: qlist_def)
  then have "set ?ps \<inter> set ?rest = {}" by (metis distinct_append takeWhile_dropWhile_id)
  then have "x \<notin> set ?ps" if "x \<in> set ?rest" for x using that by blast
  then have kk: "qkey (queuetab s1 x) = qkey (queuetab s x)" if "x \<in> set ?rest" for x
    using r(12) [of x] that by simp
  have "wake_list s' = wake_list s1"
    by (rule wake_list_cong) (use e(5,7,8) q2 sq in auto)
  also have "\<dots> = wake_times (queuetab s) 0 ?rest"
    unfolding wake_list_def sq c1 using kk by (rule wake_times_cong)
  also have "\<dots> = dropWhile (\<lambda>(x, w). w \<le> 0) (wake_list s)"
    unfolding wake_list_def
    using placedD(7) [OF pl] by (intro wake_times_dropWhile [symmetric]) (auto simp: sleep_ok_def keys_nonneg_def)
  finally have w: "wake_list s' = dropWhile (\<lambda>(x, w). w \<le> 0) (wake_list s)" .
  have rd: "state_of s' p = PR_READY \<or> state_of s' p = PR_CURR" if "p \<in> set ?ps" for p
    using e(6) r(9) that by simp
  have ck: "myglobalclock s' = myglobalclock s" "clktime s' = clktime s" "count1000 s' = count1000 s"
    using e(9) s1(3) by (simp_all add: released_def same_kernel_def)
  have "wakeup s = Some (then_return a (), s')" using st(1) s1(1) e(1) by (simp add: wakeup_def)
  moreover have "then_return a () = Ret () \<or> then_return a () = Switch ()"
    using e(3) by (auto simp: then_return_def)
  ultimately show thesis using that e(2) w rd ck by blast
qed

subsection \<open>The clock tick\<close>

lemma getitem_set_qkey:
  "getitem_tab p (set_qkey i v t) = (p, set_qkey i v (snd (getitem_tab p t)))"
  by (auto simp: getitem_tab_def Let_def set_qkey_def set_qnext_def set_qprev_def fun_eq_iff)

lemma firstid_set_qkey [simp]: "firstid (set_qkey i v t) q = firstid t q"
  by (simp add: firstid_def set_qkey_def)

lemma dequeue_set_qkey:
  "dequeue_tab q (set_qkey i v t) = (fst (dequeue_tab q t), set_qkey i v (snd (dequeue_tab q t)))"
proof -
  have c: "set_qnext a b (set_qkey i v u) = set_qkey i v (set_qnext a b u)"
    "set_qprev a b (set_qkey i v u) = set_qkey i v (set_qprev a b u)" for a b u
    by (auto simp: set_qkey_def set_qnext_def set_qprev_def fun_eq_iff)
  show ?thesis
    by (simp add: dequeue_tab_def getfirst_tab_def isempty_def getitem_set_qkey
        c Let_def split_beta) (simp add: firstid_def set_qkey_def queuehead_def getitem_tab_def Let_def)
qed

lemma insert_tab_set_qkey:
  assumes q: "qlist t q xs" "p \<notin> set xs" "qkey (t (q + 1)) < key" and p: "p < NPROC" "\<not> isbadqid q" "\<not> bad p"
  shows "insert_tab bad p q key (set_qkey p v t) = insert_tab bad p q key t"
proof -
  let ?t = "set_qkey p v t"
  have k: "qkey (?t x) = qkey (t x)" if "x \<noteq> p" for x using that by (simp add: set_qkey_def)
  have ia: "ins_after ?t key xs = ins_after t key xs"
    unfolding ins_after_def using q(2) by (intro dropWhile_cong refl) (metis k)
  have d: "dll ?t q xs (q + 1)" using qlist_dll [OF q(1)] by simp
  have "q + 1 \<noteq> p" using q(1) p(1) by (auto simp: qlist_def)
  then have "qkey (?t (q + 1)) < key" using k q(3) by simp
  from insert_scan_dll [OF d this] insert_scan_dll [OF qlist_dll [OF q(1)] q(3)]
  have sc: "insert_scan ?t key (hd_or xs (q + 1)) = insert_scan t key (hd_or xs (q + 1))"
    by (simp add: ia)
  have f: "firstid ?t q = hd_or xs (q + 1)" "firstid t q = hd_or xs (q + 1)"
    using qlist_firstid [OF q(1)] by simp_all
  have e: "set_qkey p key (set_qprev p a (set_qnext p b ?t)) = set_qkey p key (set_qprev p a (set_qnext p b t))" for a b
    by (auto simp: set_qkey_def set_qnext_def set_qprev_def fun_eq_iff)
  have n: "qprev (?t c) = qprev (t c)" for c by (simp add: set_qkey_def)
  have n': "qprev (set_qnext p c ?t d) = qprev (set_qnext p c t d)" for c d by (simp add: set_qkey_def set_qnext_def)
  show ?thesis unfolding insert_tab_def f sc n Let_def e using p by simp
qed

lemma ready_set_qkey:
  assumes c: "can_resched {p} s" and p: "\<not> isbadpid s p"
  shows "ready p (s\<lparr>queuetab := set_qkey p v (queuetab s)\<rparr>) = ready p s"
proof -
  let ?s = "s\<lparr>queuetab := set_qkey p v (queuetab s)\<rparr>"
  note pl = can_reschedD(1) [OF c]
  have r: "0 \<le> p" "p < NPROC" using p by (auto simp: isbadpid_def)
  have "qkey (queuetab s (readylist s + 1)) < prprio (proctab s p)"
    using placed_prio [OF pl r] queue_tail_key [OF placedD(1,3) [OF pl]] by linarith
  moreover have "\<not> isbadqid (readylist s)"
    using qsys_range [OF placedD(2,3) [OF pl]] by (simp add: isbadqid_def)
  ultimately have i: "\<not> bad p \<Longrightarrow> insert_tab bad p (readylist s) (prprio (proctab s p)) (set_qkey p v (queuetab s)) =
      insert_tab bad p (readylist s) (prprio (proctab s p)) (queuetab s)" for bad
    by (rule insert_tab_set_qkey [OF qsys_qlist [OF placedD(2,3) [OF pl]] placed_transit [OF pl singletonI placedD(3) [OF pl]] _ r(2)])
      (assumption | simp)+
  have b: "isbadpid ?s p \<longleftrightarrow> isbadpid s p" by (simp add: isbadpid_def)
  have b': "isbadpid (set_prstate p PR_READY ?s) = isbadpid (set_prstate p PR_READY s)"
    by (simp add: isbadpid_def set_prstate_def fun_eq_iff)
  have u: "set_prstate p PR_READY ?s\<lparr>queuetab := t\<rparr> = set_prstate p PR_READY s\<lparr>queuetab := t\<rparr>" for t
    by (simp add: set_prstate_def)
  have "insert_q p (readylist s) (prprio (proctab s p)) (set_prstate p PR_READY ?s) =
      insert_q p (readylist s) (prprio (proctab s p)) (set_prstate p PR_READY s)"
    using p r by (simp add: insert_q_def i b' u isbadpid_def split: option.split)
  then show ?thesis using p by (simp add: ready_def b)
qed

text \<open>
  A head that was due already counts down to \<open>-1\<close>; \<open>wakeup\<close> treats it as one that is due now.
\<close>

lemma wakeup_neg_head:
  assumes k: "kinv s" and q: "queue_of s (sleepq s) = h # ps" and z: "qkey (queuetab s h) = 0"
  shows "wakeup (s\<lparr>queuetab := set_qkey h (-1) (queuetab s)\<rparr>) = wakeup s"
proof -
  let ?q = "sleepq s" and ?s = "s\<lparr>queuetab := set_qkey h (-1) (queuetab s)\<rparr>"
  let ?u = "s\<lparr>ndefers := 1, attempt := False\<rparr>"
  let ?v = "?u\<lparr>queuetab := set_qkey h (-1) (queuetab s)\<rparr>"
  note pl = kinvD(5) [OF k]
  have c: "can_resched {} ?u" using defer_start(2) [OF k] by (simp add: deferring_def)
  have qu: "?q \<in> qids ?u" "queue_of ?u ?q = h # ps" using placedD(4) [OF pl] q by simp_all
  obtain u1 where u1: "dequeue ?q ?u = (h, u1)" "popped ?u ?q h ps u1"
    by (rule dequeue_popped [OF c qu]) (rule that)
  have f: "firstid (queuetab s) ?q = h" using qsys_firstid [OF placedD(2,4) [OF pl]] q by simp
  have h: "h < NPROC" using placed_pid [OF pl placedD(4) [OF pl], of h] q by simp
  have f': "firstid (set_qkey h (-1) (queuetab s)) ?q = h" using f by simp
  obtain t where t: "dequeue_tab ?q (queuetab s) = (h, t)" "u1 = ?u\<lparr>queuetab := t\<rparr>"
    using u1(1) by (auto simp: dequeue_def split: prod.splits)
  have d: "dequeue ?q ?v = (h, u1\<lparr>queuetab := set_qkey h (-1) (queuetab u1)\<rparr>)"
    using t by (simp add: dequeue_def dequeue_set_qkey)
  have r: "ready h (u1\<lparr>queuetab := set_qkey h (-1) (queuetab u1)\<rparr>) = ready h u1"
    by (rule ready_set_qkey [OF popped_fields(10,11) [OF u1(2)]])
  have "wakeup_loop ?v = wakeup_loop ?u"
    using f f' h z d r u1(1) by (subst (1 2) wakeup_loop.simps) (simp add: nonempty_def firstkey_def set_qkey_def)
  moreover have "resched_cntl DEFER_START ?s = Some (Ret OK, ?v)" "resched_cntl DEFER_START s = Some (Ret OK, ?u)"
    using kinvD(4) [OF k] by (simp_all add: resched_cntl_def Let_def)
  ultimately show ?thesis by (simp add: wakeup_def)
qed

lemma kinv_same_tables:
  assumes k: "kinv s" and "proctab s' = proctab s" "queuetab s' = queuetab s" "nextqid s' = nextqid s"
    "readylist s' = readylist s" "sleepq s' = sleepq s" "semtab s' = semtab s" "nextsem s' = nextsem s"
    "currpid s' = currpid s" "ndefers s' = ndefers s"
  shows "kinv s'" "wake_list s' = wake_list s"
proof -
  have pl: "placed {} s'" by (rule placed_cong [OF kinvD(5) [OF k]]) (use assms in simp_all)
  have so: "sems_ok s'" by (rule sems_ok_cong [OF kinvD(6,2) [OF k]]) (use assms in simp_all)
  show "kinv s'"
    by (rule kinv_change [OF k pl so])
      (use assms kinvD(4) [OF k] can_reschedD(5) [OF kinvD(1) [OF k]] in simp_all)
  show "wake_list s' = wake_list s" using assms by (simp add: wake_list_def)
qed

lemma placed_set_qkey:
  assumes pl: "placed X s" and x: "0 \<le> x" "x < NPROC" "x \<notin> set (queue_of s (readylist s))"
    and o: "sleep_ok (set_qkey x v (queuetab s)) (queue_of s (sleepq s))"
  shows "placed X (s\<lparr>queuetab := set_qkey x v (queuetab s)\<rparr>)"
proof -
  let ?t = "set_qkey x v (queuetab s)"
  let ?s = "s\<lparr>queuetab := ?t\<rparr>"
  have kk: "qkey (?t y) = qkey (queuetab s y)" if "y \<noteq> x" for y using that by (simp add: set_qkey_def)
  have hs: "home ?s r = home s r" for r by (rule home_cong) simp_all
  have "qkey (?t (q + 1)) = MINKEY" if "q \<in> qids s" for q
    using kk [of "q + 1"] qids_ge [OF that] x queue_tail_key [OF placedD(1) [OF pl] that] by simp
  then have tok: "tables_ok ?s" using placedD(1) [OF pl] by (simp add: tables_ok_def qsys_set_qkey)
  have "keys_desc ?t (queue_of s (readylist s))"
    using keys_desc_cong [of "queue_of s (readylist s)" ?t "queuetab s"] kk placedD(6) [OF pl] x(3) by metis
  then show ?thesis using tok pl o by (simp add: placed_def hs qsys_set_qkey)
qed

lemma kinv_lower_head:
  assumes k: "kinv s" and q: "queue_of s (sleepq s) = h # ps" and v: "0 \<le> v" "v \<le> qkey (queuetab s h)"
  shows "kinv (s\<lparr>queuetab := set_qkey h v (queuetab s)\<rparr>)"
    "wake_list (s\<lparr>queuetab := set_qkey h v (queuetab s)\<rparr>) =
       map (\<lambda>(x, w). (x, w - (qkey (queuetab s h) - v))) (wake_list s)"
proof -
  let ?t = "set_qkey h v (queuetab s)"
  let ?s = "s\<lparr>queuetab := ?t\<rparr>"
  note pl = kinvD(5) [OF k]
  have h: "0 \<le> h" "h < NPROC" "state_of s h \<noteq> PR_CURR"
    using placed_in_queue [OF pl placedD(4) [OF pl], of h] q by auto
  have kk: "qkey (?t x) = qkey (queuetab s x)" if "x \<noteq> h" for x using that by (simp add: set_qkey_def)
  have hv: "qkey (?t h) = v" by (simp add: set_qkey_def)
  have d: "distinct (h # ps)" using qsys_qlist [OF placedD(2,4) [OF pl]] q by (simp add: qlist_def)
  have nr: "h \<notin> set (queue_of s (readylist s))"
    using qsys_disjoint [OF placedD(2,4,3) [OF pl], of h] q placedD(5) [OF pl] by auto
  have ps: "map (\<lambda>x. qkey (?t x)) ps = map (\<lambda>x. qkey (queuetab s x)) ps" using d kk by auto
  have "sleep_ok ?t (h # ps)"
    using placedD(7) [OF pl] v hv d kk q arg_cong [OF ps, of sum_list] by (auto simp: sleep_ok_def keys_nonneg_def)
  then have "placed {} ?s" using placed_set_qkey [OF pl h(1,2) nr] q by simp
  moreover have "sems_ok ?s" by (rule sems_ok_cong [OF kinvD(6,2) [OF k]]) (simp_all add: qsys_set_qkey)
  ultimately show "kinv ?s"
    by (rule kinv_change [OF k]) (use kinvD(4) [OF k] can_reschedD(5) [OF kinvD(1) [OF k]] in simp_all)
  have sh: "wake_times (queuetab s) (b - c) xs = map (\<lambda>(x, w). (x, w - c)) (wake_times (queuetab s) b xs)"
    for b c xs
  proof (induction xs arbitrary: b)
    case Nil
    then show ?case by simp
  next
    case (Cons x xs)
    then show ?case using Cons [of "b + qkey (queuetab s x)"] by (simp add: algebra_simps)
  qed
  have "wake_times ?t b ps = wake_times (queuetab s) b ps" for b
    using d kk by (intro wake_times_cong) auto
  then show "wake_list ?s = map (\<lambda>(x, w). (x, w - (qkey (queuetab s h) - v))) (wake_list s)"
    using sh [of "qkey (queuetab s h)" "qkey (queuetab s h) - v" ps] q hv
    by (simp add: wake_list_def qsys_set_qkey)
qed

lemma clk_preempt_kinv:
  assumes k: "kinv s"
  obtains r s' where "clk_preempt s = Some (r, s')" "kinv s'" "r = Ret () \<or> r = Switch NoRest"
    "wake_list s' = wake_list s"
    "\<And>p. state_of s p = PR_READY \<or> state_of s p = PR_CURR \<Longrightarrow> state_of s' p = PR_READY \<or> state_of s' p = PR_CURR"
    "myglobalclock s' = myglobalclock s" "clktime s' = clktime s" "count1000 s' = count1000 s"
proof (cases "preempt s - 1 \<le> 0")
  case False
  let ?s = "s\<lparr>preempt := preempt s - 1\<rparr>"
  have "clk_preempt s = Some (Ret (), ?s)" using False by (simp add: clk_preempt_def)
  then show thesis using that kinv_same_tables [OF k, of ?s] by simp
next
  case True
  let ?s = "s\<lparr>preempt := QUANTUM\<rparr>"
  have ks: "kinv ?s" "wake_list ?s = wake_list s" using kinv_same_tables [OF k, of ?s] by simp_all
  obtain sw s' where e: "resched ?s = Some (sw, s')" "kinv s'" "sched_effect sw ?s s'"
    by (rule resched_kinv [OF kinvD(1,2,4) [OF ks(1)]]) (rule that)
  have "clk_preempt s = Some (if sw then Switch NoRest else Ret (), s')"
    using True e(1) by (simp add: clk_preempt_def)
  moreover have "wake_list s' = wake_list s"
    using sched_effect_wake_list [OF kinvD(5) [OF ks(1)] e(3)] ks(2) by simp
  moreover have "state_of s' p = PR_READY \<or> state_of s' p = PR_CURR"
    if "state_of s p = PR_READY \<or> state_of s p = PR_CURR" for p
    using e(3) that by (auto simp: sched_effect_def dest: spec [of _ p])
  moreover have "myglobalclock s' = myglobalclock s" "clktime s' = clktime s" "count1000 s' = count1000 s"
    using e(3) by (simp_all add: sched_effect_def same_kernel_def)
  moreover have "(if sw then Switch NoRest else Ret ()) = Ret () \<or>
      (if sw then Switch NoRest else Ret ()) = (Switch NoRest :: (unit, clkrest) outcome)" by simp
  ultimately show thesis using that e(2) by blast
qed

lemma clk_count_kinv:
  assumes "kinv s"
  shows "kinv (clk_count s)" "wake_list (clk_count s) = wake_list s" "proctab (clk_count s) = proctab s"
    "queuetab (clk_count s) = queuetab s" "sleepq (clk_count s) = sleepq s"
  using kinv_same_tables [OF assms, of "clk_count s"] by (simp_all add: clk_count_def Let_def)

lemma wake_list_Cons:
  "queue_of s (sleepq s) = h # ps \<Longrightarrow>
   wake_list s = (h, qkey (queuetab s h)) # wake_times (queuetab s) (qkey (queuetab s h)) ps"
  by (simp add: wake_list_def)

lemma wake_list_nonneg:
  assumes "kinv s" "(x, w) \<in> set (wake_list s)"
  shows "0 \<le> w"
proof -
  have "keys_nonneg t xs \<Longrightarrow> 0 \<le> b \<Longrightarrow> (x, w) \<in> set (wake_times t b xs) \<Longrightarrow> b \<le> w" for t b xs
  proof (induction xs arbitrary: b)
    case Nil
    then show ?case by simp
  next
    case (Cons y ys)
    have "keys_nonneg t ys" "0 \<le> qkey (t y)" using Cons.prems(1) by (auto simp: keys_nonneg_def)
    then show ?case using Cons.IH [of "b + qkey (t y)"] Cons.prems(2,3) by auto
  qed
  from this [of _ _ 0] show ?thesis
    using placedD(7) [OF kinvD(5) [OF assms(1)]] assms(2) by (auto simp: wake_list_def sleep_ok_def)
qed

text \<open>The processes whose time has come.\<close>

definition woken :: "'z kstate_scheme \<Rightarrow> (int \<times> int) list \<Rightarrow> bool" where
  "woken s xs \<longleftrightarrow> (\<forall>(p, w) \<in> set xs. state_of s p = PR_READY \<or> state_of s p = PR_CURR)"

lemma takeWhile_keys:
  assumes "\<And>x. x \<in> set xs \<Longrightarrow> 0 \<le> qkey (t x)"
  shows "map fst (takeWhile (\<lambda>(x, w). w \<le> 0) (wake_times t 0 xs)) = takeWhile (\<lambda>x. qkey (t x) \<le> 0) xs"
  using assms
proof (induction xs)
  case Nil
  then show ?case by simp
next
  case (Cons x xs)
  then show ?case by (cases "qkey (t x) = 0") fastforce+
qed

lemma wakeup_woken:
  assumes k: "kinv s"
  obtains r s' where "wakeup s = Some (r, s')" "kinv s'" "r = Ret () \<or> r = Switch ()"
    "wake_list s' = dropWhile (\<lambda>(x, w). w \<le> 0) (wake_list s)"
    "woken s' (takeWhile (\<lambda>(x, w). w \<le> 0) (wake_list s))"
proof -
  obtain r s' where e: "wakeup s = Some (r, s')" "kinv s'" "r = Ret () \<or> r = Switch ()"
    "wake_list s' = dropWhile (\<lambda>(x, w). w \<le> 0) (wake_list s)"
    "\<And>p. p \<in> set (takeWhile (\<lambda>x. qkey (queuetab s x) \<le> 0) (queue_of s (sleepq s))) \<Longrightarrow>
       state_of s' p = PR_READY \<or> state_of s' p = PR_CURR"
    by (rule wakeup_spec [OF k]) (rule that)
  let ?tw = "takeWhile (\<lambda>(x, w). w \<le> 0) (wake_list s)"
  have m: "map fst ?tw = takeWhile (\<lambda>x. qkey (queuetab s x) \<le> 0) (queue_of s (sleepq s))"
    unfolding wake_list_def
    using placedD(7) [OF kinvD(5) [OF k]] by (intro takeWhile_keys) (auto simp: sleep_ok_def keys_nonneg_def)
  have "state_of s' p = PR_READY \<or> state_of s' p = PR_CURR" if "(p, w) \<in> set ?tw" for p w
  proof (rule e(5))
    have "p \<in> set (map fst ?tw)" using that by force
    then show "p \<in> set (takeWhile (\<lambda>x. qkey (queuetab s x) \<le> 0) (queue_of s (sleepq s)))" unfolding m .
  qed
  then have "woken s' ?tw" unfolding woken_def by blast
  then show thesis using that e(1-4) by blast
qed

text \<open>
  The tick.  Every delay goes down by one, and the processes that have none left run again.
  Only when the head was due already (a \<open>recvtime\<close> of zero ticks) do the others lose nothing.
\<close>

definition tick_step :: "'z kstate_scheme \<Rightarrow> int" where
  "tick_step s = (case wake_list s of [] \<Rightarrow> 1 | (x, w) # _ \<Rightarrow> min 1 w)"

definition ticked :: "'z kstate_scheme \<Rightarrow> 'z kstate_scheme \<Rightarrow> bool" where
  "ticked s s' \<longleftrightarrow>
     (let L = map (\<lambda>(x, w). (x, w - tick_step s)) (wake_list s) in
      wake_list s' = dropWhile (\<lambda>(x, w). w \<le> 0) L \<and> woken s' (takeWhile (\<lambda>(x, w). w \<le> 0) L))"

lemma clk_preempt_ticked:
  assumes "kinv s1" "wake_list s1 = dropWhile (\<lambda>(x, w). w \<le> 0) (map (\<lambda>(x, w). (x, w - tick_step s)) (wake_list s))"
    "woken s1 (takeWhile (\<lambda>(x, w). w \<le> 0) (map (\<lambda>(x, w). (x, w - tick_step s)) (wake_list s)))"
  shows "\<exists>r s'. clk_preempt s1 = Some (r, s') \<and> kinv s' \<and> ticked s s'"
proof -
  obtain r s' where e: "clk_preempt s1 = Some (r, s')" "kinv s'" "r = Ret () \<or> r = Switch NoRest"
    "wake_list s' = wake_list s1"
    "\<And>p. state_of s1 p = PR_READY \<or> state_of s1 p = PR_CURR \<Longrightarrow> state_of s' p = PR_READY \<or> state_of s' p = PR_CURR"
    by (rule clk_preempt_kinv [OF assms(1)]) (rule that)
  have "woken s' xs" if "woken s1 xs" for xs
    unfolding woken_def using that e(5) unfolding woken_def by blast
  then have "ticked s s'" using e(4) assms(2,3) by (simp add: ticked_def Let_def)
  then show ?thesis using e(1,2) by blast
qed

lemma clkhandler_tick:
  assumes k: "kinv s"
  shows "\<exists>r s'. clkhandler s = Some (r, s') \<and> kinv s' \<and> ticked s s'"
proof (cases "queue_of s (sleepq s)")
  case Nil
  let ?s = "clk_count s"
  note c = clk_count_kinv [OF k]
  have w: "wake_list s = []" using Nil by (simp add: wake_list_def)
  have "isempty (queuetab ?s) (sleepq ?s)"
    using qsys_isempty [OF placedD(2,4) [OF kinvD(5) [OF k]]] Nil c by simp
  then have e: "clkhandler s = clk_preempt ?s" by (simp add: clkhandler_def)
  show ?thesis unfolding e by (rule clk_preempt_ticked [OF c(1)]) (simp_all add: c w woken_def)
next
  case (Cons h ps)
  let ?s = "clk_count s" and ?k = "qkey (queuetab s h)"
  note c = clk_count_kinv [OF k]
  note pl = kinvD(5) [OF k]
  have q: "queue_of ?s (sleepq ?s) = h # ps" using Cons c by simp
  have kh: "0 \<le> ?k" "?k \<le> MAXKEY" using placedD(7) [OF pl] Cons by (auto simp: sleep_ok_def keys_nonneg_def)
  have ne: "\<not> isempty (queuetab ?s) (sleepq ?s)"
    using qsys_isempty [OF placedD(2,4) [OF pl]] Cons c by simp
  have f: "firstid (queuetab ?s) (sleepq ?s) = h" using qsys_firstid [OF placedD(2,4) [OF pl]] Cons c by simp
  let ?t = "?s\<lparr>queuetab := set_qkey h (?k - 1) (queuetab s)\<rparr>"
  let ?u = "?s\<lparr>queuetab := set_qkey h (?k - tick_step s) (queuetab ?s)\<rparr>"
  have ts: "tick_step s = min 1 ?k" using wake_list_Cons [OF Cons] by (simp add: tick_step_def)
  have v: "0 \<le> ?k - tick_step s" "?k - tick_step s \<le> qkey (queuetab ?s h)" using ts kh c by auto
  note u = kinv_lower_head [OF c(1) q v]
  have wu: "wake_list ?u = map (\<lambda>(x, w). (x, w - tick_step s)) (wake_list s)" using u(2) c by simp
  have e: "clkhandler s = (if ?k - 1 \<le> 0 then do {
      (r, s) \<leftarrow> wakeup ?t;
      case r of Ret _ \<Rightarrow> clk_preempt s | Switch _ \<Rightarrow> Some (Switch PreemptRest, s)
    } else clk_preempt ?t)"
    using ne f kh c by (simp add: clkhandler_def Let_def set_qkey_def)
  have fin: ?thesis if "wakeup ?t = wakeup ?u" "?k - 1 \<le> 0"
  proof -
    obtain r s1 where w: "wakeup ?u = Some (r, s1)" "kinv s1" "r = Ret () \<or> r = Switch ()"
      "wake_list s1 = dropWhile (\<lambda>(x, w). w \<le> 0) (wake_list ?u)"
      "woken s1 (takeWhile (\<lambda>(x, w). w \<le> 0) (wake_list ?u))"
      by (rule wakeup_woken [OF u(1)]) (rule that)
    show ?thesis
    proof (cases r)
      case (Switch x)
      then have "clkhandler s = Some (Switch PreemptRest, s1)" using e that w(1) by simp
      moreover have "ticked s s1" using w(4,5) wu by (simp add: ticked_def Let_def)
      ultimately show ?thesis using w(2) by blast
    next
      case (Ret x)
      then have e': "clkhandler s = clk_preempt s1" using e that w(1) by simp
      show ?thesis unfolding e' by (rule clk_preempt_ticked [OF w(2)]) (use w(4,5) wu in simp_all)
    qed
  qed
  consider "?k = 0" | "?k = 1" | "?k > 1" using kh by linarith
  then show ?thesis
  proof cases
    case 1
    then have "?t = ?u\<lparr>queuetab := set_qkey h (-1) (queuetab ?u)\<rparr>"
      using c ts by (simp add: set_qkey_def)
    moreover have "queue_of ?u (sleepq ?u) = h # ps" using q by (simp add: qsys_set_qkey)
    moreover have "qkey (queuetab ?u h) = 0" using 1 ts by (simp add: set_qkey_def)
    ultimately have "wakeup ?t = wakeup ?u" using wakeup_neg_head [OF u(1)] by simp
    then show ?thesis using fin 1 by simp
  next
    case 2
    then show ?thesis using fin ts c by simp
  next
    case 3
    then have tu: "clkhandler s = clk_preempt ?u" using e ts c by simp
    have "queue_of ?u (sleepq ?u) = h # ps" using q by (simp add: qsys_set_qkey)
    from wake_list_Cons [OF this] have "\<exists>xs. wake_list ?u = (h, ?k - 1) # xs"
      using 3 ts by (simp add: set_qkey_def)
    then obtain xs where xs: "map (\<lambda>(x, w). (x, w - tick_step s)) (wake_list s) = (h, ?k - 1) # xs"
      using wu by auto
    show ?thesis unfolding tu
      by (rule clk_preempt_ticked [OF u(1)]) (use 3 in \<open>simp_all add: wu xs woken_def\<close>)
  qed
qed

subsection \<open>Leaving the sleep queue early\<close>

lemma wake_times_skip:
  assumes d: "p \<notin> set us" "p \<notin> set vs" "distinct vs"
    and t': "\<And>x. x \<in> set us \<Longrightarrow> qkey (t' x) = qkey (t x)"
      "\<And>x. x \<in> set vs \<Longrightarrow> qkey (t' x) = (if x = hd vs then qkey (t x) + qkey (t p) else qkey (t x))"
  shows "wake_times t' b (us @ vs) = filter (\<lambda>(x, w). x \<noteq> p) (wake_times t b (us @ p # vs))"
proof -
  have f: "filter (\<lambda>(x, w). x \<noteq> p) (wake_times t c xs) = wake_times t c xs" if "p \<notin> set xs" for c xs
    using that by (induction xs arbitrary: c) auto
  have us: "wake_times t' b us = wake_times t b us" using t'(1) by (rule wake_times_cong)
  have "map (\<lambda>x. qkey (t' x)) us = map (\<lambda>x. qkey (t x)) us" using t'(1) by simp
  then have sm: "(\<Sum>x\<leftarrow>us. qkey (t' x)) = (\<Sum>x\<leftarrow>us. qkey (t x))" by (rule arg_cong)
  let ?b = "b + (\<Sum>x\<leftarrow>us. qkey (t x))"
  have "wake_times t' ?b vs = wake_times t (?b + qkey (t p)) vs"
  proof (cases vs)
    case Nil
    then show ?thesis by simp
  next
    case (Cons y ys)
    have "wake_times t' c ys = wake_times t c ys" for c
      using t'(2) d(3) Cons by (intro wake_times_cong) auto
    then show ?thesis using Cons t'(2) [of y] by (simp add: algebra_simps)
  qed
  then show ?thesis using us sm f [OF d(1)] f [OF d(2)] by (simp add: wake_times_append)
qed

lemma unsleep_ok:
  assumes k: "kinv s" and p: "\<not> isbadpid s p" "state_of s p = PR_SLEEP \<or> state_of s p = PR_RECTIM"
  obtains t where "unsleep p s = (OK, s\<lparr>queuetab := t\<rparr>)" "placed {p} (s\<lparr>queuetab := t\<rparr>)"
    "wake_list (s\<lparr>queuetab := t\<rparr>) = filter (\<lambda>(x, w). x \<noteq> p) (wake_list s)"
    "\<And>q. q \<in> qids s \<Longrightarrow> q \<noteq> sleepq s \<Longrightarrow> qcontents t q = queue_of s q"
proof -
  note pl = kinvD(5) [OF k]
  let ?q = "sleepq s" and ?tab = "queuetab s"
  have r: "0 \<le> p" "p < NPROC" using p by (auto simp: isbadpid_def)
  have h: "home s p = Some ?q" using home_simps(3) [of s p] p(2) by auto
  then have "p \<in> set (queue_of s ?q)" using placed_home [OF pl r _ placedD(4) [OF pl]] by simp
  then obtain us vs where l: "queue_of s ?q = us @ p # vs" by (blast dest: split_list)
  have d: "distinct (us @ p # vs)" using qsys_qlist [OF placedD(2,4) [OF pl]] l by (simp add: qlist_def)
  have "dll ?tab ?q (us @ p # vs) (?q + 1)" using qlist_dll [OF qsys_qlist [OF placedD(2,4) [OF pl]]] l by simp
  then have nx: "qnext (?tab p) = hd_or vs (?q + 1)" by (auto simp: dll_append dest: dll_head)
  obtain t where t: "getitem p s = (p, s\<lparr>queuetab := t\<rparr>)" "placed {p} (s\<lparr>queuetab := t\<rparr>)"
    "\<And>q'. q' \<in> qids s \<Longrightarrow> qcontents t q' = (if q' = ?q then remove1 p (queue_of s ?q) else queue_of s q')"
    "\<And>j. qkey (t j) = qkey (?tab j)"
    by (rule getitem_placed [OF pl placedD(4) [OF pl], of p]) (use l in simp, rule that)
  have c: "qcontents t ?q = us @ vs"
    using t(3) [OF placedD(4) [OF pl]] l d by (simp add: remove1_append_mid)
  have tt: "snd (getitem_tab p ?tab) = t" using t(1) by (auto simp: getitem_def split: prod.splits dest: arg_cong [where f = queuetab])
  show thesis
  proof (cases vs)
    case Nil
    have "?q + 1 \<ge> NPROC" using qids_ge [OF placedD(4) [OF pl]] by simp
    then have "unsleep p s = (OK, s\<lparr>queuetab := t\<rparr>)" using p nx Nil t(1) by (auto simp: unsleep_def Let_def)
    moreover have "wake_list (s\<lparr>queuetab := t\<rparr>) = filter (\<lambda>(x, w). x \<noteq> p) (wake_list s)"
      using wake_times_skip [of p us vs t ?tab 0] d t(4) c l Nil by (simp add: wake_list_def)
    ultimately show thesis using that t(2,3) by simp
  next
    case (Cons y ys)
    let ?v = "qkey (?tab y) + qkey (?tab p)"
    let ?t = "set_qkey y ?v t"
    have y: "0 \<le> y" "y < NPROC" "y \<noteq> p"
      using placed_pid [OF pl placedD(4) [OF pl], of y] l d Cons by auto
    have so: "sleep_ok ?tab (us @ p # y # ys)" using placedD(7) [OF pl] l Cons by simp
    have kn: "0 \<le> qkey (?tab y)" "0 \<le> qkey (?tab p)" using so by (auto simp: sleep_ok_def keys_nonneg_def)
    have un: "qkey (?t x) = qkey (?tab x)" if "x \<noteq> y" for x using that t(4) by (simp add: set_qkey_def)
    have yv: "qkey (?t y) = ?v" by (simp add: set_qkey_def)
    have m: "map (\<lambda>x. qkey (?t x)) us = map (\<lambda>x. qkey (?tab x)) us" "map (\<lambda>x. qkey (?t x)) ys = map (\<lambda>x. qkey (?tab x)) ys"
      using un d Cons by auto
    have n1: "0 \<le> (\<Sum>x\<leftarrow>us. qkey (?tab x))" "0 \<le> (\<Sum>x\<leftarrow>ys. qkey (?tab x))"
      using so by (auto simp: sleep_ok_def keys_nonneg_def intro!: sum_list_nonneg)
    then have vm: "?v \<le> MAXKEY" using so by (simp add: sleep_ok_def)
    have so': "sleep_ok ?t (us @ y # ys)"
      using so un yv d Cons vm kn arg_cong [OF m(1), of sum_list] arg_cong [OF m(2), of sum_list]
      by (auto simp: sleep_ok_def keys_nonneg_def)
    have "y \<notin> set (queue_of s (readylist s))"
      using qsys_disjoint [OF placedD(2,4,3) [OF pl], of y] l Cons placedD(5) [OF pl] by auto
    then have nr: "y \<notin> set (queue_of (s\<lparr>queuetab := t\<rparr>) (readylist (s\<lparr>queuetab := t\<rparr>)))"
      using t(3) [OF placedD(3) [OF pl]] placedD(5) [OF pl] by simp
    have "placed {p} (s\<lparr>queuetab := ?t\<rparr>)"
      using placed_set_qkey [OF t(2) y(1,2) nr, of ?v] so' c Cons by simp
    moreover have "unsleep p s = (OK, s\<lparr>queuetab := ?t\<rparr>)"
      using p nx Cons y vm kn tt by (auto simp: unsleep_def Let_def getitem_def getitem_set_qkey)
    moreover have "wake_times ?t 0 (us @ vs) = filter (\<lambda>(x, w). x \<noteq> p) (wake_times ?tab 0 (us @ p # vs))"
    proof (rule wake_times_skip)
      show "qkey (?t x) = qkey (?tab x)" if "x \<in> set us" for x
        by (rule un) (use that d Cons in auto)
      show "qkey (?t x) = (if x = hd vs then qkey (?tab x) + qkey (?tab p) else qkey (?tab x))" for x
        using un [of x] yv Cons by (cases "x = y") simp_all
    qed (use d in auto)
    then have "wake_list (s\<lparr>queuetab := ?t\<rparr>) = filter (\<lambda>(x, w). x \<noteq> p) (wake_list s)"
      using c l by (simp add: wake_list_def qsys_set_qkey)
    ultimately show thesis using that t(3) by (simp add: qsys_set_qkey)
  qed
qed

end
