(* ===== verification/Messages.thy ===== *)
theory Messages
  imports Clock
begin

text \<open>
  One-word messages: \<^verbatim>\<open>system/send.c\<close>, \<^verbatim>\<open>receive.c\<close>, \<^verbatim>\<open>recvclr.c\<close> and
  \<^verbatim>\<open>recvtime.c\<close>.  A call that blocks yields \<open>Switch pid\<close>; the part of it that runs when
  process \<open>pid\<close> is switched in again is the definition with \<open>_resume\<close> in its name.
\<close>

definition send :: "int \<Rightarrow> u32 \<Rightarrow> 'z kstate_scheme \<Rightarrow> ((int, int) outcome \<times> 'z kstate_scheme) option" where
  "send pid msg s =
     (if isbadpid s pid then Some (Ret SYSERR, s)
      else if state_of s pid = PR_FREE \<or> prhasmsg (proctab s pid) then Some (Ret SYSERR, s)
      else
        let s = set_prmsg pid msg s;
            s = set_prhasmsg pid True s
        in if state_of s pid = PR_RECV then do {
             (r, s) \<leftarrow> ready pid s;
             Some (then_return r OK, s)
           }
           else if state_of s pid = PR_RECTIM then do {
             let (u, s) = unsleep pid s;
             (r, s) \<leftarrow> ready pid s;
             Some (then_return r OK, s)
           }
           else Some (Ret OK, s))"

definition receive_resume :: "int \<Rightarrow> 'z kstate_scheme \<Rightarrow> u32 \<times> 'z kstate_scheme" where
  "receive_resume pid s =
     (let msg = prmsg (proctab s pid); s = set_prhasmsg pid False s in (msg, s))"

definition receive :: "'z kstate_scheme \<Rightarrow> ((u32, int) outcome \<times> 'z kstate_scheme) option" where
  "receive s =
     (let pid = currpid s in
      if \<not> prhasmsg (proctab s pid) then do {
        let s = set_prstate pid PR_RECV s;
        (sw, s) \<leftarrow> resched s;
        if sw then Some (Switch pid, s)
        else let (msg, s) = receive_resume pid s in Some (Ret msg, s)
      }
      else let (msg, s) = receive_resume pid s in Some (Ret msg, s))"

definition recvclr :: "'z kstate_scheme \<Rightarrow> u32 \<times> 'z kstate_scheme" where
  "recvclr s =
     (if prhasmsg (proctab s (currpid s))
      then (prmsg (proctab s (currpid s)), set_prhasmsg (currpid s) False s)
      else (word_of_int OK, s))"

definition recvtime_resume :: "int \<Rightarrow> 'z kstate_scheme \<Rightarrow> u32 \<times> 'z kstate_scheme" where
  "recvtime_resume pid s =
     (if prhasmsg (proctab s pid) then (prmsg (proctab s pid), set_prhasmsg pid False s)
      else (word_of_int TIMEOUT, s))"

definition recvtime :: "int \<Rightarrow> 'z kstate_scheme \<Rightarrow> ((u32, int) outcome \<times> 'z kstate_scheme) option" where
  "recvtime maxwait s =
     (if maxwait < 0 then Some (Ret (word_of_int SYSERR), s)
      else
        let pid = currpid s in
        if \<not> prhasmsg (proctab s pid) then do {
          (r, s) \<leftarrow> insertd (currpid s) (sleepq s) maxwait s;
          if r = SYSERR then Some (Ret (word_of_int SYSERR), s)
          else do {
            let s = set_prstate pid PR_RECTIM s;
            (sw, s) \<leftarrow> resched s;
            if sw then Some (Switch pid, s)
            else let (msg, s) = recvtime_resume pid s in Some (Ret msg, s)
          }
        }
        else let (msg, s) = recvtime_resume pid s in Some (Ret msg, s))"

subsection \<open>Message fields\<close>

lemma msg_setter_fields [simp]:
  "queuetab (set_prmsg p v s) = queuetab s" "readylist (set_prmsg p v s) = readylist s"
  "sleepq (set_prmsg p v s) = sleepq s" "currpid (set_prmsg p v s) = currpid s"
  "semtab (set_prmsg p v s) = semtab s" "nextsem (set_prmsg p v s) = nextsem s"
  "nextqid (set_prmsg p v s) = nextqid s" "ndefers (set_prmsg p v s) = ndefers s"
  "qids (set_prmsg p v s) = qids s" "state_of (set_prmsg p v s) r = state_of s r"
  "queuetab (set_prhasmsg p w s) = queuetab s" "readylist (set_prhasmsg p w s) = readylist s"
  "sleepq (set_prhasmsg p w s) = sleepq s" "currpid (set_prhasmsg p w s) = currpid s"
  "semtab (set_prhasmsg p w s) = semtab s" "nextsem (set_prhasmsg p w s) = nextsem s"
  "nextqid (set_prhasmsg p w s) = nextqid s" "ndefers (set_prhasmsg p w s) = ndefers s"
  "qids (set_prhasmsg p w s) = qids s" "state_of (set_prhasmsg p w s) r = state_of s r"
  "prhasmsg (proctab (set_prhasmsg p w s) r) = (if r = p then w else prhasmsg (proctab s r))"
  "prmsg (proctab (set_prhasmsg p w s) r) = prmsg (proctab s r)"
  "prhasmsg (proctab (set_prmsg p v s) r) = prhasmsg (proctab s r)"
  "prmsg (proctab (set_prmsg p v s) r) = (if r = p then v else prmsg (proctab s r))"
  "prprio (proctab (set_prmsg p v s) r) = prprio (proctab s r)"
  "prprio (proctab (set_prhasmsg p w s) r) = prprio (proctab s r)"
  "prsem (proctab (set_prmsg p v s) r) = prsem (proctab s r)"
  "prsem (proctab (set_prhasmsg p w s) r) = prsem (proctab s r)"
  by (simp_all add: set_prmsg_def set_prhasmsg_def qids_def)

lemma placed_fields_cong:
  assumes pl: "placed X s"
    and "\<And>p. state_of s' p = state_of s p" "\<And>p. prsem (proctab s' p) = prsem (proctab s p)"
    "\<And>p. prprio (proctab s' p) = prprio (proctab s p)" "queuetab s' = queuetab s" "qids s' = qids s"
    "nextqid s' = nextqid s" "readylist s' = readylist s" "sleepq s' = sleepq s" "semtab s' = semtab s"
  shows "placed X s'"
proof -
  have "home s' p = home s p" for p using assms by (simp add: home_def split: prstate.split)
  then show ?thesis using assms by (simp add: placed_def tables_ok_def)
qed

lemma kinv_set_msg:
  assumes k: "kinv s"
  shows "kinv (set_prmsg p v s)" "kinv (set_prhasmsg p w s)"
proof -
  have "kinv s'" if "\<And>p. state_of s' p = state_of s p" "\<And>p. prsem (proctab s' p) = prsem (proctab s p)"
    "\<And>p. prprio (proctab s' p) = prprio (proctab s p)" "queuetab s' = queuetab s" "qids s' = qids s"
    "nextqid s' = nextqid s" "readylist s' = readylist s" "sleepq s' = sleepq s" "semtab s' = semtab s"
    "nextsem s' = nextsem s" "currpid s' = currpid s" "ndefers s' = ndefers s" for s' :: "'a kstate_scheme"
  proof -
    have pl: "placed {} s'" by (rule placed_fields_cong [OF kinvD(5) [OF k]]) (use that in simp_all)
    have so: "sems_ok s'" by (rule sems_ok_cong [OF kinvD(6,2) [OF k]]) (use that in simp_all)
    show ?thesis
      by (rule kinv_change [OF k pl so])
        (use that kinvD(4) [OF k] can_reschedD(5) [OF kinvD(1) [OF k]] in simp_all)
  qed
  note * = this
  show "kinv (set_prmsg p v s)" "kinv (set_prhasmsg p w s)" by (rule *; simp)+
qed

lemma wake_list_set_msg [simp]: "wake_list (set_prmsg p v s) = wake_list s" "wake_list (set_prhasmsg p w s) = wake_list s"
  by (simp_all add: wake_list_def)

subsection \<open>Sending\<close>

lemma send_bad:
  "isbadpid s pid \<or> prhasmsg (proctab s pid) \<Longrightarrow> send pid msg s = Some (Ret SYSERR, s)"
  by (auto simp: send_def)

text \<open>A released process runs with the message in its table entry.\<close>

lemma ready_delivers:
  assumes c: "can_resched {p} s" "sems_ok s" "ndefers s = 0" and p: "\<not> isbadpid s p"
  obtains r s' where "ready p s = Some (r, s')" "kinv s'" "r = Ret OK \<or> r = Switch OK" "same_kernel s s'"
    "state_of s' p = PR_READY \<or> state_of s' p = PR_CURR" "wake_list s' = wake_list s"
proof -
  obtain sw t s' where e: "ready p s = Some (if sw then Switch OK else Ret OK, s')"
    "sched_effect sw ((set_prstate p PR_READY s)\<lparr>queuetab := t\<rparr>) s'" "ready_table s p t"
    "can_resched {} ((set_prstate p PR_READY s)\<lparr>queuetab := t\<rparr>)"
    by (rule ready_effect [OF c(1) p c(3)]) (rule that)
  let ?s = "(set_prstate p PR_READY s)\<lparr>queuetab := t\<rparr>"
  note pl = can_reschedD(1) [OF c(1)]
  have so: "sems_ok ?s"
    by (rule sems_ok_cong [OF placedD(1) [OF pl] c(2)]) (use e(3) in \<open>auto simp: ready_table_def\<close>)
  have kv: "kinv s'"
    using sched_effect_kinv [OF e(2) placedD(1) [OF can_reschedD(1) [OF e(4)]] so] c(3) by simp
  have sk: "same_kernel s ?s" by (rule same_kernel_trans [OF same_kernel_set_prstate same_kernel_queuetab])
  have "same_kernel s s'" using e(2) same_kernel_trans [OF sk] by (simp add: sched_effect_def)
  moreover have "state_of s' p = PR_READY \<or> state_of s' p = PR_CURR"
    using e(2) by (auto simp: sched_effect_def dest: spec [of _ p])
  moreover have "wake_list s' = wake_list s"
  proof -
    have "wake_list ?s = wake_list s"
    proof (rule wake_list_cong)
      show "queue_of ?s (sleepq s) = queue_of s (sleepq s)"
        using e(3) placedD(4,5) [OF pl] by (simp add: ready_table_def)
      show "qkey (queuetab ?s x) = qkey (queuetab s x)" if "x \<in> set (queue_of s (sleepq s))" for x
      proof -
        have "x \<noteq> p" using placed_transit [OF pl singletonI placedD(4) [OF pl]] that by blast
        then show ?thesis using e(3) by (simp add: ready_table_def)
      qed
    qed simp
    then show ?thesis using sched_effect_wake_list [OF can_reschedD(1) [OF e(4)] e(2)] by simp
  qed
  ultimately show thesis using that e(1) kv by (cases sw) auto
qed

definition delivered :: "int \<Rightarrow> u32 \<Rightarrow> 'z kstate_scheme \<Rightarrow> 'z kstate_scheme \<Rightarrow> bool" where
  "delivered pid msg s s' \<longleftrightarrow>
     prhasmsg (proctab s' pid) \<and> prmsg (proctab s' pid) = msg \<and>
     (state_of s pid \<in> {PR_RECV, PR_RECTIM} \<longrightarrow> state_of s' pid = PR_READY \<or> state_of s' pid = PR_CURR) \<and>
     (\<forall>q. q \<noteq> pid \<longrightarrow> prhasmsg (proctab s' q) = prhasmsg (proctab s q) \<and> prmsg (proctab s' q) = prmsg (proctab s q)) \<and>
     wake_list s' = filter (\<lambda>(x, w). \<not> (x = pid \<and> state_of s pid = PR_RECTIM)) (wake_list s)"

lemma send_delivers:
  assumes k: "kinv s" and p: "\<not> isbadpid s pid" "\<not> prhasmsg (proctab s pid)"
  shows "\<exists>r s'. send pid msg s = Some (r, s') \<and> kinv s' \<and> (r = Ret OK \<or> r = Switch OK) \<and> delivered pid msg s s'"
proof -
  let ?s = "set_prhasmsg pid True (set_prmsg pid msg s)"
  have ks: "kinv ?s" by (intro kinv_set_msg k)
  have r: "0 \<le> pid" "pid < NPROC" "state_of s pid \<noteq> PR_FREE" using p(1) by (auto simp: isbadpid_def)
  have nb: "\<not> isbadpid ?s pid" using p(1) by (simp add: isbadpid_def)
  have fin: ?thesis
    if a: "ready pid u = Some (a, s')" "kinv s'" "a = Ret OK \<or> a = Switch OK" "same_kernel u s'"
      "state_of s' pid = PR_READY \<or> state_of s' pid = PR_CURR" "wake_list s' = wake_list u"
      and u: "u = ?s\<lparr>queuetab := t\<rparr>" "send pid msg s = (case ready pid u of None \<Rightarrow> None | Some (r, s) \<Rightarrow> Some (then_return r OK, s))"
      "wake_list u = filter (\<lambda>(x, w). \<not> (x = pid \<and> state_of s pid = PR_RECTIM)) (wake_list s)" for a s' u t
  proof -
    note f = same_kernel_fields(3,4) [OF a(4)]
    have "prhasmsg (proctab s' q) = (q = pid \<or> prhasmsg (proctab s q))"
      "prmsg (proctab s' q) = (if q = pid then msg else prmsg (proctab s q))" for q using f [of q] u(1) by simp_all
    then have "delivered pid msg s s'" using a(5,6) u(3) by (simp add: delivered_def)
    moreover have "send pid msg s = Some (then_return a OK, s')" using u(2) a(1) by simp
    moreover have "then_return a OK = Ret OK \<or> then_return a OK = Switch OK"
      using a(3) by (auto simp: then_return_def)
    ultimately show ?thesis using a(2) by blast
  qed
  consider "state_of s pid = PR_RECV" | "state_of s pid = PR_RECTIM" | "state_of s pid \<notin> {PR_RECV, PR_RECTIM}"
    by blast
  then show ?thesis
  proof cases
    case 1
    have c: "can_resched {pid} ?s"
      using can_resched_take [OF kinvD(1) [OF ks]] home_simps(2) [of ?s pid] r 1 by simp
    obtain a s' where a: "ready pid ?s = Some (a, s')" "kinv s'" "a = Ret OK \<or> a = Switch OK" "same_kernel ?s s'"
      "state_of s' pid = PR_READY \<or> state_of s' pid = PR_CURR" "wake_list s' = wake_list ?s"
      by (rule ready_delivers [OF c kinvD(2,4) [OF ks] nb]) (rule that)
    have "send pid msg s = (case ready pid ?s of None \<Rightarrow> None | Some (r, s) \<Rightarrow> Some (then_return r OK, s))"
      using p 1 r by (simp add: send_def Let_def split: option.split)
    moreover have "?s = ?s\<lparr>queuetab := queuetab ?s\<rparr>" by simp
    moreover have "wake_list ?s = filter (\<lambda>(x, w). \<not> (x = pid \<and> state_of s pid = PR_RECTIM)) (wake_list s)"
      using 1 by (simp add: case_prod_beta')
    ultimately show ?thesis using fin [OF a] by blast
  next
    case 2
    obtain t where t: "unsleep pid ?s = (OK, ?s\<lparr>queuetab := t\<rparr>)" "placed {pid} (?s\<lparr>queuetab := t\<rparr>)"
      "wake_list (?s\<lparr>queuetab := t\<rparr>) = filter (\<lambda>(x, w). x \<noteq> pid) (wake_list ?s)"
      "\<And>q. q \<in> qids ?s \<Longrightarrow> q \<noteq> sleepq ?s \<Longrightarrow> qcontents t q = queue_of ?s q"
      by (rule unsleep_ok [OF ks nb]) (use 2 in simp, rule that)
    let ?u = "?s\<lparr>queuetab := t\<rparr>"
    have c: "can_resched {pid} ?u"
      by (rule can_resched_change [OF kinvD(1) [OF ks] t(2)])
        (use can_reschedD(5) [OF kinvD(1) [OF ks]] in auto)
    have so: "sems_ok ?u" by (rule sems_ok_cong [OF kinvD(6,2) [OF ks]]) (use t(4) in auto)
    have nd: "ndefers ?u = 0" using kinvD(4) [OF ks] by simp
    have nb': "\<not> isbadpid ?u pid" using nb by (simp add: isbadpid_def)
    obtain a s' where a: "ready pid ?u = Some (a, s')" "kinv s'" "a = Ret OK \<or> a = Switch OK" "same_kernel ?u s'"
      "state_of s' pid = PR_READY \<or> state_of s' pid = PR_CURR" "wake_list s' = wake_list ?u"
      by (rule ready_delivers [OF c so nd nb']) (rule that)
    have "send pid msg s = (case ready pid ?u of None \<Rightarrow> None | Some (r, s) \<Rightarrow> Some (then_return r OK, s))"
      using p 2 r t(1) by (simp add: send_def Let_def split: option.split)
    moreover have "wake_list ?u = filter (\<lambda>(x, w). \<not> (x = pid \<and> state_of s pid = PR_RECTIM)) (wake_list s)"
      using t(3) 2 by simp
    ultimately show ?thesis using fin [OF a] by blast
  next
    case 3
    then have "send pid msg s = Some (Ret OK, ?s)" using p r by (simp add: send_def Let_def)
    moreover have "delivered pid msg s ?s" using 3 by (simp add: delivered_def case_prod_beta')
    ultimately show ?thesis using ks by blast
  qed
qed

subsection \<open>Receiving\<close>

lemma block_current:
  assumes k: "kinv s" and n: "currpid s \<noteq> NULLPROC" and st: "st = PR_RECV \<or> st = PR_SUSP"
  obtains s' where "resched (set_prstate (currpid s) st s) = Some (True, s')" "kinv s'"
    "state_of s' (currpid s) = st" "same_kernel s s'" "wake_list s' = wake_list s"
proof -
  let ?p = "currpid s"
  let ?s = "set_prstate ?p st s"
  have r: "0 \<le> ?p" "?p < NPROC" using kinvD(7,8) [OF k] .
  have "placed {?p} s"
    using placed_take [OF kinvD(5) [OF k] r] home_simps(2) [of s ?p] kinvD(3) [OF k] by simp
  then have "placed {?p} ?s" by (rule placed_set_prstate) simp
  then have pl: "placed {} ?s" using placed_drop [of "{?p}" ?s ?p] home_simps(2) [of ?s ?p] st by auto
  have c: "can_resched {} ?s"
    by (rule can_resched_change [OF kinvD(1) [OF k] pl])
      (use can_reschedD(5) [OF kinvD(1) [OF k]] n st in \<open>auto split: if_splits\<close>)
  have so: "sems_ok ?s" by (rule sems_ok_cong [OF kinvD(6,2) [OF k]]) simp_all
  have nd: "ndefers ?s = 0" using kinvD(4) [OF k] by simp
  obtain sw s' where e: "resched ?s = Some (sw, s')" "kinv s'" "sched_effect sw ?s s'"
    by (rule resched_kinv [OF c so nd]) (rule that)
  have st': "state_of s' ?p = st" using e(3) st by (auto simp: sched_effect_def dest: spec [of _ ?p])
  then have sw: "sw" using e(2,3) kinvD(3) [OF e(2)] st by (auto simp: sched_effect_def)
  have "same_kernel s s'"
    using e(3) same_kernel_trans [OF same_kernel_set_prstate] by (auto simp: sched_effect_def)
  moreover have "wake_list s' = wake_list s"
    using sched_effect_wake_list [OF pl e(3)] by (simp add: wake_list_def)
  ultimately show thesis using that e(1,2) st' sw by simp
qed

lemma receive_waiting:
  assumes "prhasmsg (proctab s (currpid s))"
  shows "receive s = Some (Ret (prmsg (proctab s (currpid s))), set_prhasmsg (currpid s) False s)"
  using assms by (simp add: receive_def receive_resume_def Let_def)

lemma receive_blocks:
  assumes k: "kinv s" and n: "currpid s \<noteq> NULLPROC" and m: "\<not> prhasmsg (proctab s (currpid s))"
  obtains s' where "receive s = Some (Switch (currpid s), s')" "kinv s'" "state_of s' (currpid s) = PR_RECV"
    "same_kernel s s'" "wake_list s' = wake_list s"
proof -
  obtain s' where e: "resched (set_prstate (currpid s) PR_RECV s) = Some (True, s')" "kinv s'"
    "state_of s' (currpid s) = PR_RECV" "same_kernel s s'" "wake_list s' = wake_list s"
    by (rule block_current [OF k n disjI1 [OF refl]]) (rule that)
  then have "receive s = Some (Switch (currpid s), s')" using m by (simp add: receive_def Let_def)
  then show thesis using that e by blast
qed

lemma receive_resume_kinv: "kinv s \<Longrightarrow> kinv (snd (receive_resume pid s))"
  by (simp add: receive_resume_def Let_def kinv_set_msg)

lemma recvtime_resume_kinv: "kinv s \<Longrightarrow> kinv (snd (recvtime_resume pid s))"
  by (simp add: recvtime_resume_def kinv_set_msg)

lemma recvclr_kinv: "kinv s \<Longrightarrow> kinv (snd (recvclr s))"
  by (simp add: recvclr_def kinv_set_msg)

lemma receive_kinv:
  assumes "kinv s" "currpid s \<noteq> NULLPROC"
  obtains r s' where "receive s = Some (r, s')" "kinv s'"
proof (cases "prhasmsg (proctab s (currpid s))")
  case True
  then show thesis using that receive_waiting kinv_set_msg(2) [OF assms(1)] by blast
next
  case False
  show thesis by (rule receive_blocks [OF assms False]) (rule that)
qed

lemma recvtime_blocks:
  assumes k: "kinv s" and n: "currpid s \<noteq> NULLPROC" and m: "\<not> prhasmsg (proctab s (currpid s))"
    and w: "0 \<le> maxwait" "maxwait \<le> MAXKEY"
  obtains s' where "recvtime maxwait s = Some (Switch (currpid s), s')" "kinv s'"
    "state_of s' (currpid s) = PR_RECTIM" "\<not> prhasmsg (proctab s' (currpid s))"
    "wake_list s' = takeWhile (\<lambda>(x, w). w \<le> maxwait) (wake_list s) @ (currpid s, maxwait) #
       dropWhile (\<lambda>(x, w). w \<le> maxwait) (wake_list s)"
proof -
  let ?p = "currpid s"
  obtain t where t: "insertd ?p (sleepq s) maxwait s = Some (OK, s\<lparr>queuetab := t\<rparr>)"
    "can_resched {} (set_prstate ?p PR_RECTIM (s\<lparr>queuetab := t\<rparr>))"
    "sems_ok (set_prstate ?p PR_RECTIM (s\<lparr>queuetab := t\<rparr>))"
    "wake_list (set_prstate ?p PR_RECTIM (s\<lparr>queuetab := t\<rparr>)) =
       takeWhile (\<lambda>(x, w). w \<le> maxwait) (wake_list s) @ (?p, maxwait) # dropWhile (\<lambda>(x, w). w \<le> maxwait) (wake_list s)"
    "\<And>q. q \<in> qids s \<Longrightarrow> q \<noteq> sleepq s \<Longrightarrow> qcontents t q = queue_of s q"
    by (rule insertd_can_resched [OF k w disjI2 [OF refl] n]) (rule that)
  let ?s = "set_prstate ?p PR_RECTIM (s\<lparr>queuetab := t\<rparr>)"
  have nd: "ndefers ?s = 0" using kinvD(4) [OF k] by simp
  obtain sw s' where e: "resched ?s = Some (sw, s')" "kinv s'" "sched_effect sw ?s s'"
    by (rule resched_kinv [OF t(2,3) nd]) (rule that)
  have st: "state_of s' ?p = PR_RECTIM" using e(3) by (auto simp: sched_effect_def dest: spec [of _ ?p])
  then have sw: "sw" using e(2,3) kinvD(3) [OF e(2)] by (auto simp: sched_effect_def)
  have "recvtime maxwait s = Some (Switch ?p, s')"
    using w(1) m t(1) e(1) sw by (simp add: recvtime_def Let_def)
  moreover have "wake_list s' = wake_list ?s"
    by (rule sched_effect_wake_list [OF can_reschedD(1) [OF t(2)] e(3)])
  moreover have "prhasmsg (proctab s' ?p) = prhasmsg (proctab ?s ?p)"
    using e(3) same_kernel_fields(4) [of ?s s' ?p] by (simp add: sched_effect_def)
  then have "\<not> prhasmsg (proctab s' ?p)" using m by (simp add: set_prstate_def)
  ultimately show thesis using that e(2) st t(4) by simp
qed

lemma recvtime_kinv:
  assumes k: "kinv s" and n: "currpid s \<noteq> NULLPROC" and w: "maxwait \<le> MAXKEY"
  obtains r s' where "recvtime maxwait s = Some (r, s')" "kinv s'"
proof -
  consider "maxwait < 0" | "0 \<le> maxwait" "prhasmsg (proctab s (currpid s))"
    | "0 \<le> maxwait" "\<not> prhasmsg (proctab s (currpid s))" by linarith
  then show thesis
  proof cases
    case 1
    then show thesis using that k by (simp add: recvtime_def)
  next
    case 2
    then show thesis using that kinv_set_msg(2) [OF k] by (simp add: recvtime_def recvtime_resume_def Let_def)
  next
    case 3
    show thesis by (rule recvtime_blocks [OF k n 3(2,1) w]) (rule that)
  qed
qed

text \<open>
  The hand-over.  The sender makes a receiver that is blocked ready and leaves the message
  in its entry; the second half of \<open>receive\<close>, run whenever the receiver next runs with its
  entry still as the sender left it, returns exactly that message and empties the entry.
\<close>

lemma receive_resume_message:
  "prmsg (proctab s pid) = msg \<Longrightarrow> receive_resume pid s = (msg, set_prhasmsg pid False s)"
  by (simp add: receive_resume_def)

end
