(* ===== verification/Boot.thy ===== *)
theory Boot
  imports Messages
begin

text \<open>
  The part of \<open>sysinit\<close> (\<^verbatim>\<open>system/initialize.c\<close>) that fills the kernel tables: the process
  table with its null process, the semaphore table with its queues, the ready list, the sleep
  queue and the first semaphore.  The lemmas show that the kernel invariant holds from then on.
\<close>

definition proctab_init :: "'z kstate_scheme \<Rightarrow> 'z kstate_scheme" where
  "proctab_init s =
     fold (\<lambda>i s. s\<lparr>proctab := (proctab s)(i := (proctab s i)
         \<lparr>prstate := PR_FREE, prprio := 0, prstkbase := 0, prname := ''''\<rparr>)\<rparr>)
       (map int [0..<100]) s"

abbreviation (input) NULLSTK :: u32 where "NULLSTK \<equiv> 8192"

definition nullproc_init :: "u32 \<Rightarrow> 'z kstate_scheme \<Rightarrow> 'z kstate_scheme" where
  "nullproc_init stk s =
     (let s = s\<lparr>proctab := (proctab s)(NULLPROC := (proctab s NULLPROC)
         \<lparr>prstate := PR_CURR, prprio := 0, prstkptr := 0, prstkbase := stk, prstklen := NULLSTK,
          prname := ''prnull''\<rparr>)\<rparr>
      in s\<lparr>currpid := NULLPROC\<rparr>)"

definition semtab_init :: "nat \<Rightarrow> 'z kstate_scheme \<Rightarrow> 'z kstate_scheme" where
  "semtab_init n s =
     fold (\<lambda>i s. let (q, s) = newqueue s in
         s\<lparr>semtab := (semtab s)(i := \<lparr>sstate = S_FREE, scount = 0, squeue = q\<rparr>)\<rparr>)
       (map int [0..<n]) s"

definition readylist_init :: "'z kstate_scheme \<Rightarrow> 'z kstate_scheme" where
  "readylist_init s = (let (q, s) = newqueue s in s\<lparr>readylist := q\<rparr>)"

definition tables_init :: "u32 \<Rightarrow> 'z kstate_scheme \<Rightarrow> int \<times> 'z kstate_scheme" where
  "tables_init stk s =
     (let s = s\<lparr>prcount := 1\<rparr>;
          s = s\<lparr>ndefers := 0\<rparr>;
          s = proctab_init s;
          s = nullproc_init stk s;
          s = semtab_init 100 s;
          s = readylist_init s;
          s = clkinit s
      in semcreate 1 s)"

subsection \<open>The queues of a fresh table\<close>

definition fresh :: "qtab \<Rightarrow> int \<Rightarrow> bool" where
  "fresh t n \<longleftrightarrow> (\<forall>q. NPROC \<le> q \<and> q < n \<and> even (q - NPROC) \<longrightarrow> qlist t q [] \<and> qkey (t (q + 1)) = MINKEY)"

lemma newqueue_fresh:
  assumes f: "fresh (queuetab s) n" and n: "nextqid s = n" "NPROC \<le> n" "n < NQENT" "even (n - NPROC)"
  obtains t where "newqueue s = (n, s\<lparr>nextqid := n + 2, queuetab := t\<rparr>)" "fresh t (n + 2)"
proof -
  obtain t where t: "newqueue_tab n (queuetab s) = (n, n + 2, t)" "qlist t n []"
    "same_off {n, n + 1} (queuetab s) t" "qkey (t (n + 1)) = MINKEY"
    by (rule newqueue_qlist [OF n(2,3)]) (rule that)
  have "qlist t q [] \<and> qkey (t (q + 1)) = MINKEY"
    if q: "NPROC \<le> q" "q < n + 2" "even (q - NPROC)" for q
  proof (cases "q = n")
    case True
    then show ?thesis using t by simp
  next
    case False
    have "q \<noteq> n + 1" using q(3) n(4) by presburger
    then have "q < n" "q + 1 < n + 1" using q False by auto
    moreover have "q + 1 \<noteq> n" using q(3) n(4) by presburger
    ultimately have "t q = queuetab s q" "t (q + 1) = queuetab s (q + 1)"
      using same_offD [OF t(3)] by auto
    moreover have "qlist (queuetab s) q [] \<and> qkey (queuetab s (q + 1)) = MINKEY"
      using f q \<open>q < n\<close> by (simp add: fresh_def)
    ultimately show ?thesis by (simp add: qlist_def)
  qed
  then show thesis using t(1) n(1) that by (simp add: newqueue_def fresh_def)
qed

lemma fresh_start: "fresh t NPROC"
  unfolding fresh_def by (metis not_less)

lemma fresh_contents:
  assumes "fresh (queuetab s) (nextqid s)" "q \<in> qids s"
  shows "queue_of s q = []" "qkey (queuetab s (q + 1)) = MINKEY"
  using assms qcontents_qlist [of "queuetab s" q "[]"] by (auto simp: fresh_def qids_def)

lemma fresh_qsys:
  assumes "fresh (queuetab s) (nextqid s)" "nextqid s \<le> NQENT"
  shows "qsys (queuetab s) (qids s)"
proof -
  have "qlist (queuetab s) q []" if "q \<in> qids s" for q using assms that by (simp add: fresh_def qids_def)
  moreover have "q + 1 \<notin> qids s" "NPROC \<le> q" "q < NQENT - 1" if "q \<in> qids s" for q
  proof -
    show "q + 1 \<notin> qids s" "NPROC \<le> q" using that by (auto simp: qids_def)
    have "q \<noteq> NQENT - 1" using that by (auto simp: qids_def)
    moreover have "q < NQENT" using that assms(2) by (simp add: qids_def)
    ultimately show "q < NQENT - 1" by simp
  qed
  ultimately show ?thesis using fresh_contents(1) [OF assms(1)] by (auto simp: qsys_def)
qed

text \<open>What the table loops leave alone.\<close>

definition boot_same :: "'z kstate_scheme \<Rightarrow> 'z kstate_scheme \<Rightarrow> bool" where
  "boot_same s s' \<longleftrightarrow> proctab s' = proctab s \<and> currpid s' = currpid s \<and> nextsem s' = nextsem s \<and>
     ndefers s' = ndefers s \<and> prcount s' = prcount s \<and> kstate.more s' = kstate.more s"

lemma semtab_init_ok:
  assumes "nextqid s = NPROC" "n \<le> 100"
  shows "nextqid (semtab_init n s) = NPROC + 2 * int n \<and> fresh (queuetab (semtab_init n s)) (NPROC + 2 * int n) \<and>
    boot_same s (semtab_init n s) \<and>
    (\<forall>k \<in> {0..<int n}. semtab (semtab_init n s) k = \<lparr>sstate = S_FREE, scount = 0, squeue = NPROC + 2 * k\<rparr>)"
  using assms(2)
proof (induction n)
  case 0
  then show ?case using assms(1) fresh_start by (simp add: semtab_init_def boot_same_def)
next
  case (Suc n)
  let ?s = "semtab_init n s"
  have IH: "nextqid ?s = NPROC + 2 * int n" "fresh (queuetab ?s) (NPROC + 2 * int n)" "boot_same s ?s"
    "\<forall>k \<in> {0..<int n}. semtab ?s k = \<lparr>sstate = S_FREE, scount = 0, squeue = NPROC + 2 * k\<rparr>"
    using Suc by auto
  obtain t where t: "newqueue ?s = (NPROC + 2 * int n, ?s\<lparr>nextqid := NPROC + 2 * int n + 2, queuetab := t\<rparr>)"
    "fresh t (NPROC + 2 * int n + 2)"
    by (rule newqueue_fresh [OF IH(2,1)]) (use Suc.prems in simp, use Suc.prems in simp, simp, rule that)
  have e: "semtab_init (Suc n) s = ?s\<lparr>nextqid := NPROC + 2 * int n + 2, queuetab := t,
      semtab := (semtab ?s)(int n := \<lparr>sstate = S_FREE, scount = 0, squeue = NPROC + 2 * int n\<rparr>)\<rparr>"
    using t(1) unfolding semtab_init_def by (simp add: Let_def)
  have "int (Suc n) * 2 + NPROC = NPROC + 2 * int n + 2" by simp
  then show ?case using t(2) IH(3,4) unfolding e by (auto simp: boot_same_def algebra_simps)
qed

lemma proctab_init_ok:
  "proctab_init s = s\<lparr>proctab := \<lambda>i. if i \<in> {0..<NPROC} then (proctab s i)
     \<lparr>prstate := PR_FREE, prprio := 0, prstkbase := 0, prname := ''''\<rparr> else proctab s i\<rparr>"
proof -
  have "fold (\<lambda>i s. s\<lparr>proctab := (proctab s)(i := (proctab s i)
         \<lparr>prstate := PR_FREE, prprio := 0, prstkbase := 0, prname := ''''\<rparr>)\<rparr>) (map int [0..<n]) s =
      s\<lparr>proctab := \<lambda>i. if i \<in> {0..<int n} then (proctab s i)
        \<lparr>prstate := PR_FREE, prprio := 0, prstkbase := 0, prname := ''''\<rparr> else proctab s i\<rparr>" for n
  proof (induction n)
    case 0
    then show ?case by simp
  next
    case (Suc n)
    then show ?case by (auto simp: fun_eq_iff)
  qed
  from this [of 100] show ?thesis by (simp add: proctab_init_def)
qed

lemma fresh_kinv:
  assumes f: "fresh (queuetab s) NQENT" "nextqid s = NQENT" "readylist s = 300" "sleepq s = 302"
    and sem: "\<And>k. k \<in> {0..<NSEM} \<Longrightarrow> semtab s k = \<lparr>sstate = S_FREE, scount = 0, squeue = NPROC + 2 * k\<rparr>"
    and p: "\<And>p. p \<in> {0..<NPROC} \<Longrightarrow> state_of s p = (if p = 0 then PR_CURR else PR_FREE) \<and> prprio (proctab s p) = 0"
    and v: "currpid s = 0" "nextsem s = 0" "ndefers s = 0"
  shows "kinv s"
proof -
  have f': "fresh (queuetab s) (nextqid s)" "nextqid s \<le> NQENT" using f(1,2) by simp_all
  note c = fresh_contents [OF f'(1)]
  have qi: "300 \<in> qids s" "302 \<in> qids s" "\<And>k. k \<in> {0..<NSEM} \<Longrightarrow> NPROC + 2 * k \<in> qids s"
    using f(2) by (auto simp: qids_def)
  have "inj_on (\<lambda>k. squeue (semtab s k)) {0..<NSEM}" using sem by (auto simp: inj_on_def)
  then have tok: "tables_ok s"
    using fresh_qsys [OF f'] c(2) f(2-4) qi sem by (simp add: tables_ok_def)
  have h: "home s r = None" if "r \<in> {0..<NPROC}" for r using p [OF that] by (simp add: home_def)
  have "placed {} s"
    using tok h p c qi(1,2) f(3,4) by (auto simp: placed_def keys_desc_def sleep_ok_def keys_nonneg_def)
  then have "can_resched {} s" using v p by (auto simp: can_resched_def split: if_splits)
  moreover have "sem_ok s k" if "k \<in> {0..<NSEM}" for k
    using sem [OF that] c(1) [OF qi(3) [OF that]] by (simp add: sem_ok_def)
  ultimately show ?thesis using v p by (simp add: kinv_def sems_ok_def)
qed

lemma tables_init_kinv:
  assumes n: "nextqid s = NPROC" "nextsem s = 0"
  shows "kinv (snd (tables_init stk s)) \<and> fst (tables_init stk s) = 0 \<and>
    wake_list (snd (tables_init stk s)) = [] \<and> currpid (snd (tables_init stk s)) = NULLPROC \<and>
    kstate.more (snd (tables_init stk s)) = kstate.more s"
proof -
  define s3 where "s3 = nullproc_init stk (proctab_init (s\<lparr>prcount := 1, ndefers := 0\<rparr>))"
  define s4 where "s4 = semtab_init 100 s3"
  define s5 where "s5 = readylist_init s4"
  define s6 where "s6 = clkinit s5"
  have s3: "nextqid s3 = NPROC" "nextsem s3 = 0" "ndefers s3 = 0" "currpid s3 = 0" "prcount s3 = 1"
    "kstate.more s3 = kstate.more s"
    using n by (simp_all add: s3_def nullproc_init_def proctab_init_ok)
  have p3: "state_of s3 p = (if p = 0 then PR_CURR else PR_FREE) \<and> prprio (proctab s3 p) = 0"
    if "p \<in> {0..<NPROC}" for p using that by (auto simp: s3_def nullproc_init_def proctab_init_ok)
  have s4: "nextqid s4 = 300" "fresh (queuetab s4) 300" "boot_same s3 s4"
    "\<And>k. k \<in> {0..<NSEM} \<Longrightarrow> semtab s4 k = \<lparr>sstate = S_FREE, scount = 0, squeue = NPROC + 2 * k\<rparr>"
    using semtab_init_ok [OF s3(1), of 100] unfolding s4_def [symmetric] by simp_all
  obtain t1 where t1: "newqueue s4 = (300, s4\<lparr>nextqid := 302, queuetab := t1\<rparr>)" "fresh t1 302"
    by (rule newqueue_fresh [OF s4(2,1)]) (simp, simp, simp, rule that, simp_all)
  have e5: "s5 = s4\<lparr>nextqid := 302, queuetab := t1, readylist := 300\<rparr>"
    using t1(1) by (simp add: s5_def readylist_init_def)
  have f5: "fresh (queuetab s5) 302" "nextqid s5 = 302" using t1(2) by (simp_all add: e5)
  obtain t2 where t2: "newqueue s5 = (302, s5\<lparr>nextqid := 304, queuetab := t2\<rparr>)" "fresh t2 304"
    by (rule newqueue_fresh [OF f5]) (simp, simp, simp, rule that, simp_all)
  have e6: "s6 = s5\<lparr>nextqid := 304, queuetab := t2, sleepq := 302, preempt := QUANTUM, clktime := 0, myglobalclock := 0\<rparr>"
    using t2(1) by (simp add: s6_def clkinit_def)
  have k6: "kinv s6"
    by (rule fresh_kinv) (use s3 s4 p3 t2(2) in \<open>simp_all add: e6 e5 boot_same_def\<close>)
  have w6: "wake_list s6 = []"
  proof -
    have "302 \<in> qids s6" by (simp add: e6 e5 qids_def)
    then have "queue_of s6 302 = []" using fresh_contents(1) [of s6 302] t2(2) by (simp add: e6 e5)
    then show ?thesis by (simp add: wake_list_def e6)
  qed
  have ns: "nextsem s6 = 0" "sstate (semtab s6 0) = S_FREE"
    using s3 s4 by (simp_all add: e6 e5 boot_same_def)
  then have nw: "newsem s6 = (0, set_sstate 0 S_USED (s6\<lparr>nextsem := 1\<rparr>))"
    using newsem_loop_free [of s6 0 100] by (simp add: newsem_def)
  have t: "tables_init stk s = semcreate 1 s6" by (simp add: tables_init_def Let_def s6_def s5_def s4_def s3_def)
  have sc: "semcreate 1 s6 = (0, set_scount 0 1 (set_sstate 0 S_USED (s6\<lparr>nextsem := 1\<rparr>)))"
    using nw by (simp add: semcreate_def)
  have "wake_list (set_scount 0 1 (set_sstate 0 S_USED (s6\<lparr>nextsem := 1\<rparr>))) = wake_list s6"
    by (simp add: wake_list_def)
  moreover have "currpid s6 = 0" "kstate.more s6 = kstate.more s"
    using s3 s4 by (simp_all add: e6 e5 boot_same_def)
  ultimately show ?thesis
    using semcreate_kinv(1) [OF k6, of 1] sc t w6 by (simp add: set_scount_def set_sstate_def)
qed

end
