(* ===== verification/Syscalls.thy ===== *)
theory Syscalls
  imports Boot
begin

text \<open>
  The process, semaphore, clock and message calls as the steps of one transition system.  A
  step is one call, made by whatever process is current, or the tail of a call that its
  process runs when it is switched in again, or a clock interrupt.  The guards are the
  contract of the callers: the null process makes no call that may block it, a delay fits the
  sign-extended key of the sleep queue, and a semaphore count does not overflow.
\<close>

datatype kcall =
    Yield | Suspend int | Resume int | Chprio int int
  | Wait int | Signal int | Signaln int int | Semcreate int | Semdelete int | Semreset int int
  | Sleepms u32 | Sleep u32 | ClockTick | PreemptTail
  | Send int u32 | Receive | ReceiveTail | Recvtime int | RecvtimeTail | Recvclr

fun perform :: "kcall \<Rightarrow> 'z kstate_scheme \<Rightarrow> 'z kstate_scheme option" where
  "perform Yield s = map_option snd (yield s)"
| "perform (Suspend pid) s = map_option snd (suspend pid s)"
| "perform (Resume pid) s = map_option snd (resume pid s)"
| "perform (Chprio pid prio) s = Some (snd (chprio pid prio s))"
| "perform (Wait sem) s = map_option snd (wait sem s)"
| "perform (Signal sem) s = map_option snd (signal sem s)"
| "perform (Signaln sem n) s = map_option snd (signaln sem n s)"
| "perform (Semcreate n) s = Some (snd (semcreate n s))"
| "perform (Semdelete sem) s = map_option snd (semdelete sem s)"
| "perform (Semreset sem n) s = map_option snd (semreset sem n s)"
| "perform (Sleepms d) s = map_option snd (sleepms d s)"
| "perform (Sleep d) s = map_option snd (sleep d s)"
| "perform ClockTick s = map_option snd (clkhandler s)"
| "perform PreemptTail s = map_option snd (clk_preempt s)"
| "perform (Send pid msg) s = map_option snd (send pid msg s)"
| "perform Receive s = map_option snd (receive s)"
| "perform ReceiveTail s = Some (snd (receive_resume (currpid s) s))"
| "perform (Recvtime d) s = map_option snd (recvtime d s)"
| "perform RecvtimeTail s = Some (snd (recvtime_resume (currpid s) s))"
| "perform Recvclr s = Some (snd (recvclr s))"

fun permitted :: "kcall \<Rightarrow> 'z kstate_scheme \<Rightarrow> bool" where
  "permitted (Chprio pid prio) s \<longleftrightarrow> - 32768 \<le> prio \<and> prio \<le> 32767"
| "permitted (Wait sem) s \<longleftrightarrow> currpid s \<noteq> NULLPROC"
| "permitted (Signal sem) s \<longleftrightarrow> scount (semtab s sem) < 2147483647"
| "permitted (Signaln sem n) s \<longleftrightarrow> scount (semtab s sem) + n \<le> 2147483647"
| "permitted (Semcreate n) s \<longleftrightarrow> n \<le> 2147483647"
| "permitted (Semreset sem n) s \<longleftrightarrow> n \<le> 2147483647"
| "permitted (Sleepms d) s \<longleftrightarrow> currpid s \<noteq> NULLPROC \<and> d \<le> 2147483647"
| "permitted (Sleep d) s \<longleftrightarrow> currpid s \<noteq> NULLPROC \<and> d \<le> 2147483"
| "permitted Receive s \<longleftrightarrow> currpid s \<noteq> NULLPROC"
| "permitted (Recvtime d) s \<longleftrightarrow> currpid s \<noteq> NULLPROC \<and> d \<le> 2147483647"
| "permitted _ s \<longleftrightarrow> True"

inductive kstep :: "'z kstate_scheme \<Rightarrow> 'z kstate_scheme \<Rightarrow> bool" where
  call: "permitted c s \<Longrightarrow> perform c s = Some s' \<Longrightarrow> kstep s s'"

inductive_cases kstepE: "kstep s s'"

subsection \<open>Every call keeps the invariant\<close>

lemma sleepms_kinv:
  assumes k: "kinv s" and "currpid s \<noteq> NULLPROC" "d \<le> 2147483647"
  obtains r s' where "sleepms d s = Some (r, s')" "kinv s'"
proof (cases "d = 0")
  case True
  obtain r s' where "yield s = Some (r, s')" "kinv s'" by (rule yield_kinv [OF k]) (rule that)
  then show thesis using that True by (simp add: sleepms_def)
next
  case False
  show thesis by (rule sleepms_blocks [OF k assms(2) False assms(3)]) (rule that)
qed

lemma sleep_kinv:
  assumes k: "kinv s" and "currpid s \<noteq> NULLPROC" "d \<le> 2147483"
  obtains r s' where "sleep d s = Some (r, s')" "kinv s'"
proof -
  have u: "unat d \<le> 2147483" using assms(3) by (simp add: word_le_nat_alt)
  have "unat (1000 * d) = 1000 * unat d" using u by (simp add: unat_mult_lem [THEN iffD1])
  then have "1000 * d \<le> 2147483647" using u by (simp add: word_le_nat_alt)
  then obtain r s' where e: "sleepms (1000 * d) s = Some (r, s')" "kinv s'"
    by (rule sleepms_kinv [OF k assms(2)]) (rule that)
  have "\<not> MAXSECONDS < d" using u by (simp add: word_less_nat_alt)
  then have "sleep d s = Some (then_return r OK, s')" using e(1) by (simp add: sleep_def)
  then show thesis using that e(2) by blast
qed

lemma sem_call_cases:
  obtains "isbadsem sem \<or> sstate (semtab s sem) = S_FREE" | "\<not> isbadsem sem" "sstate (semtab s sem) = S_USED"
  using sem_state_cases by blast

lemma signaln_kinv:
  assumes k: "kinv s" and "scount (semtab s sem) + n \<le> 2147483647"
  obtains r s' where "signaln sem n s = Some (r, s')" "kinv s'"
proof (cases "n < 0")
  case True
  then show thesis using that k by (simp add: signaln_bad)
next
  case False
  show thesis
  proof (cases rule: sem_call_cases [of sem s])
    case 1
    then show thesis using that k signaln_bad by blast
  next
    case 2
    show thesis by (rule signaln_release [OF k 2, of n]) (use False assms(2) in simp_all, rule that)
  qed
qed

lemma semdelete_kinv:
  assumes k: "kinv s"
  obtains r s' where "semdelete sem s = Some (r, s')" "kinv s'"
proof (cases rule: sem_call_cases [of sem s])
  case 1
  then show thesis using that k semdelete_bad by blast
next
  case 2
  show thesis by (rule semdelete_release [OF k 2]) (rule that)
qed

lemma semreset_kinv:
  assumes k: "kinv s" and "n \<le> 2147483647"
  obtains r s' where "semreset sem n s = Some (r, s')" "kinv s'"
proof (cases "n < 0")
  case True
  then show thesis using that k semreset_bad by blast
next
  case False
  show thesis
  proof (cases rule: sem_call_cases [of sem s])
    case 1
    then show thesis using that k semreset_bad by blast
  next
    case 2
    show thesis by (rule semreset_release [OF k 2, of n]) (use False assms(2) in simp_all, rule that)
  qed
qed

lemma send_kinv:
  assumes "kinv s"
  obtains r s' where "send pid msg s = Some (r, s')" "kinv s'"
  using that send_delivers [OF assms] send_bad assms by blast

text \<open>A call in a good state returns, or gives up the processor, and leaves a good state.\<close>

lemma perform_kinv:
  assumes k: "kinv s" and p: "permitted c s"
  shows "\<exists>s'. perform c s = Some s' \<and> kinv s'"
proof (cases c)
  case Yield
  then show ?thesis by (auto intro: yield_kinv [OF k])
next
  case (Suspend pid)
  then show ?thesis by (auto intro: suspend_kinv [OF k, of pid])
next
  case (Resume pid)
  then show ?thesis by (auto intro: resume_kinv [OF k, of pid])
next
  case (Chprio pid prio)
  then show ?thesis using chprio_kinv [OF k] p by simp
next
  case (Wait sem)
  then show ?thesis using p by (auto intro: wait_kinv [OF k, of sem])
next
  case (Signal sem)
  then show ?thesis using p by (auto intro: signal_kinv [OF k, of sem])
next
  case (Signaln sem n)
  then show ?thesis using p by (auto intro: signaln_kinv [OF k, of sem n])
next
  case (Semcreate n)
  then show ?thesis using p semcreate_kinv(1) [OF k] by simp
next
  case (Semdelete sem)
  then show ?thesis by (auto intro: semdelete_kinv [OF k, of sem])
next
  case (Semreset sem n)
  then show ?thesis using p by (auto intro: semreset_kinv [OF k, of n sem])
next
  case (Sleepms d)
  then show ?thesis using p by (auto intro: sleepms_kinv [OF k, of d])
next
  case (Sleep d)
  then show ?thesis using p by (auto intro: sleep_kinv [OF k, of d])
next
  case ClockTick
  then show ?thesis using clkhandler_tick [OF k] by auto
next
  case PreemptTail
  then show ?thesis by (auto intro: clk_preempt_kinv [OF k])
next
  case (Send pid msg)
  then show ?thesis by (auto intro: send_kinv [OF k, of pid msg])
next
  case Receive
  then show ?thesis using p by (auto intro: receive_kinv [OF k])
next
  case (Recvtime d)
  then show ?thesis using p by (auto intro: recvtime_kinv [OF k, of d])
qed (simp_all add: receive_resume_kinv recvtime_resume_kinv recvclr_kinv k)

subsection \<open>Reachable states\<close>

interpretation kernel: transition_system kstep kinv
  by unfold_locales (auto elim!: kstepE dest: perform_kinv)

text \<open>A run of calls, as the sequence of processes that happen to be current makes them.\<close>

fun run_calls :: "kcall list \<Rightarrow> 'z kstate_scheme \<Rightarrow> 'z kstate_scheme option" where
  "run_calls [] s = Some s"
| "run_calls (c # cs) s = (case perform c s of None \<Rightarrow> None | Some s' \<Rightarrow> run_calls cs s')"

fun all_permitted :: "kcall list \<Rightarrow> 'z kstate_scheme \<Rightarrow> bool" where
  "all_permitted [] s \<longleftrightarrow> True"
| "all_permitted (c # cs) s \<longleftrightarrow> permitted c s \<and>
     (case perform c s of None \<Rightarrow> True | Some s' \<Rightarrow> all_permitted cs s')"

lemma run_calls_steps:
  assumes "kinv s" "all_permitted cs s"
  shows "\<exists>s'. run_calls cs s = Some s' \<and> kstep\<^sup>*\<^sup>* s s'"
  using assms
proof (induction cs arbitrary: s)
  case Nil
  then show ?case by simp
next
  case (Cons c cs)
  obtain s1 where s1: "perform c s = Some s1" "kinv s1" using perform_kinv [of s c] Cons.prems by auto
  then obtain s' where "run_calls cs s1 = Some s'" "kstep\<^sup>*\<^sup>* s1 s'" using Cons by auto
  moreover have "kstep s s1" using Cons.prems(2) s1(1) by (auto intro: call)
  ultimately show ?case using s1(1) by (auto intro: converse_rtranclp_into_rtranclp)
qed

end
