(* ===== verification/Scenario.thy ===== *)
theory Scenario
  imports Syscalls
begin

text \<open>
  A small concrete kernel state, on which the properties of the kernel calls are evaluated:
  process 1 runs, the null process is ready, 2 and 5 wait for semaphore 0, 3 sleeps for
  four more ticks, 4 waits for a message, 6 waits for a message for at most seven ticks
  and 7 is suspended.
\<close>

definition scene_proc :: "prstate \<Rightarrow> int \<Rightarrow> procent" where
  "scene_proc st prio = \<lparr>prstate = st, prprio = prio, prstkptr = 0, prstkbase = 0, prstklen = 0,
     prname = ''proc'', prsem = 0, prparent = 0, prmsg = 0, prhasmsg = False, prdesc = (\<lambda>_. 0),
     PDBR = 4096, vmemlist = \<lparr>vnext = VNull, vaddr = 0, vmlength = 0\<rparr>,
     vminheap = \<lparr>vnext = VNull, vaddr = 0, vmlength = 0\<rparr>, vmaxheap = \<lparr>vnext = VNull, vaddr = 0, vmlength = 0\<rparr>\<rparr>"

definition scene_procs :: "int \<Rightarrow> procent" where
  "scene_procs = (\<lambda>_. scene_proc PR_FREE 0)
     (0 := scene_proc PR_READY 0, 1 := scene_proc PR_CURR 20, 2 := scene_proc PR_WAIT 30,
      3 := scene_proc PR_SLEEP 15, 4 := scene_proc PR_RECV 10, 5 := scene_proc PR_WAIT 5,
      6 := scene_proc PR_RECTIM 12, 7 := scene_proc PR_SUSP 25)"

definition empty_entry :: "int \<Rightarrow> qentry" where
  "empty_entry i = (if even i then \<lparr>qkey = MAXKEY, qnext = i + 1, qprev = QEMPTY\<rparr>
     else \<lparr>qkey = MINKEY, qnext = QEMPTY, qprev = i - 1\<rparr>)"

definition scene_queues :: qtab where
  "scene_queues = empty_entry
     (100 := \<lparr>qkey = MAXKEY, qnext = 2, qprev = QEMPTY\<rparr>, 101 := \<lparr>qkey = MINKEY, qnext = QEMPTY, qprev = 5\<rparr>,
      2 := \<lparr>qkey = 0, qnext = 5, qprev = 100\<rparr>, 5 := \<lparr>qkey = 0, qnext = 101, qprev = 2\<rparr>,
      300 := \<lparr>qkey = MAXKEY, qnext = 0, qprev = QEMPTY\<rparr>, 301 := \<lparr>qkey = MINKEY, qnext = QEMPTY, qprev = 0\<rparr>,
      0 := \<lparr>qkey = 0, qnext = 301, qprev = 300\<rparr>,
      302 := \<lparr>qkey = MAXKEY, qnext = 3, qprev = QEMPTY\<rparr>, 303 := \<lparr>qkey = MINKEY, qnext = QEMPTY, qprev = 6\<rparr>,
      3 := \<lparr>qkey = 4, qnext = 6, qprev = 302\<rparr>, 6 := \<lparr>qkey = 3, qnext = 303, qprev = 3\<rparr>)"

definition scene_sems :: "int \<Rightarrow> sentry" where
  "scene_sems = (\<lambda>k. \<lparr>sstate = S_FREE, scount = 0, squeue = NPROC + 2 * k\<rparr>)
     (0 := \<lparr>sstate = S_USED, scount = -2, squeue = 100\<rparr>, 1 := \<lparr>sstate = S_USED, scount = 3, squeue = 102\<rparr>)"

definition scene :: kstate where
  "scene = \<lparr>proctab = scene_procs, prcount = 8, currpid = 1, nextpid = 8, vnextpid = 1,
     queuetab = scene_queues, nextqid = NQENT, readylist = 300, sleepq = 302,
     semtab = scene_sems, nextsem = 2, ndefers = 0, attempt = False, preempt = QUANTUM, clktime = 0,
     myglobalclock = 0, count1000 = 1000, cr0 = 0, cr2 = 0, cr3 = 4096, cr4 = 0, tmp_cr = 0, check_CR3 = 4096\<rparr>"

lemma scene_fields [simp]:
  "proctab scene = scene_procs" "currpid scene = 1" "queuetab scene = scene_queues" "nextqid scene = NQENT"
  "readylist scene = 300" "sleepq scene = 302" "semtab scene = scene_sems" "nextsem scene = 2"
  "ndefers scene = 0" "preempt scene = QUANTUM"
  by (simp_all add: scene_def)

lemma scene_proc_fields [simp]:
  "prstate (scene_proc st v) = st" "prprio (scene_proc st v) = v" "prsem (scene_proc st v) = 0"
  "prhasmsg (scene_proc st v) = False" "PDBR (scene_proc st v) = 4096"
  by (simp_all add: scene_proc_def)

lemma scene_qids: "qids scene = {q. 100 \<le> q \<and> q < 304 \<and> even q}"
  by (auto simp: qids_def)

lemma scene_contents:
  "qcontents scene_queues 100 = [2, 5]" "qcontents scene_queues 300 = [0]" "qcontents scene_queues 302 = [3, 6]"
  by (simp_all add: qcontents_def scene_queues_def empty_entry_def numeral_eq_Suc)

lemma scene_contents_other:
  assumes "100 \<le> q" "even q" "q \<noteq> 100" "q \<noteq> 300" "q \<noteq> 302"
  shows "qcontents scene_queues q = []" "qkey (scene_queues (q + 1)) = MINKEY" "qlist scene_queues q []"
proof -
  have "q \<noteq> 101" "q \<noteq> 301" "q \<noteq> 303" "q + 1 \<noteq> 100" "q + 1 \<noteq> 300" "q + 1 \<noteq> 302" using assms by auto
  then have e: "scene_queues q = \<lparr>qkey = MAXKEY, qnext = q + 1, qprev = QEMPTY\<rparr>"
    "scene_queues (q + 1) = \<lparr>qkey = MINKEY, qnext = QEMPTY, qprev = q\<rparr>"
    using assms by (simp_all add: scene_queues_def empty_entry_def)
  show "qcontents scene_queues q = []" by (simp add: qcontents_def e numeral_eq_Suc)
  show "qkey (scene_queues (q + 1)) = MINKEY" by (simp add: e)
  show "qlist scene_queues q []" using assms by (simp add: qlist_def e)
qed

lemma scene_qlists: "qlist scene_queues 100 [2, 5]" "qlist scene_queues 300 [0]" "qlist scene_queues 302 [3, 6]"
  by (simp_all add: qlist_def scene_queues_def empty_entry_def)

lemma scene_kinv: "kinv scene"
proof -
  let ?Q = "qids scene"
  have ql: "qlist scene_queues q (qcontents scene_queues q)" if "q \<in> ?Q" for q
    using that scene_qlists scene_contents scene_contents_other [of q]
    by (cases "q = 100 \<or> q = 300 \<or> q = 302") (auto simp: scene_qids)
  have mk: "qkey (scene_queues (q + 1)) = MINKEY" if "q \<in> ?Q" for q
    using that scene_contents_other(2) [of q]
    by (cases "q = 100 \<or> q = 300 \<or> q = 302") (auto simp: scene_qids scene_queues_def)
  have ct: "qcontents scene_queues q = (if q = 100 then [2, 5] else if q = 300 then [0] else if q = 302 then [3, 6] else [])"
    if "q \<in> ?Q" for q using that scene_contents scene_contents_other(1) [of q] by (auto simp: scene_qids)
  have qs: "qsys scene_queues ?Q"
    unfolding qsys_def using ql ct by (auto simp: scene_qids split: if_splits)
  have sq: "squeue (scene_sems k) = NPROC + 2 * k" for k by (simp add: scene_sems_def)
  have tok: "tables_ok scene"
    using qs mk by (auto simp: tables_ok_def sq scene_qids inj_on_def)
  have hm: "home scene p = (if p = 0 then Some 300 else if p = 2 \<or> p = 5 then Some 100
      else if p = 3 \<or> p = 6 then Some 302 else None)" for p
    by (simp add: home_def scene_procs_def sq split: prstate.split)
  have "p \<in> set (qcontents scene_queues q) \<longleftrightarrow> home scene p = Some q" if "q \<in> ?Q" for p q
    using ct [OF that] by (auto simp: hm)
  moreover have "sleep_ok scene_queues [3, 6]" "keys_desc scene_queues [0]"
    by (simp_all add: sleep_ok_def keys_nonneg_def keys_desc_def scene_queues_def)
  ultimately have pl: "placed {} scene"
    using tok by (simp add: placed_def scene_contents) (simp add: scene_procs_def)
  have "can_resched {} scene" using pl by (simp add: can_resched_def) (simp add: scene_procs_def)
  moreover have "sem_ok scene k" if "k \<in> {0..<NSEM}" for k
  proof -
    have "NPROC + 2 * k \<in> ?Q" using that by (auto simp: scene_qids)
    then have "length (qcontents scene_queues (NPROC + 2 * k)) = (if k = 0 then 2 else 0)"
      using ct [of "NPROC + 2 * k"] that by auto
    then have "int (length (qcontents scene_queues (NPROC + 2 * k))) = (if k = 0 then 2 else 0)" by simp
    then show ?thesis unfolding sem_ok_def scene_fields sq Let_def by (simp add: scene_sems_def)
  qed
  ultimately show ?thesis by (simp add: kinv_def sems_ok_def) (simp add: scene_procs_def)
qed

lemma scene_wake_list: "wake_list scene = [(3, 4), (6, 7)]"
  by (simp add: wake_list_def scene_contents) (simp add: scene_queues_def)

end
