(* ===== verification/KernelProps.thy ===== *)
theory KernelProps
  imports Scenario
begin

text \<open>
  The properties of the process, semaphore, clock and message calls, each with a witness on a
  concrete kernel state.
\<close>




text \<open>C21.  A reschedule in a good state leaves a process running whose key is at least that of
  every process in the ready list, with its own page directory loaded in CR3, and moves no
  process that is neither ready nor current.\<close>

theorem resched_runs_highest:
  assumes "kinv s"
  shows "\<exists>sw s'. resched s = Some (sw, s') \<and> kinv s' \<and>
    (\<forall>p \<in> set (queue_of s' (readylist s')). qkey (queuetab s' p) \<le>
       (if sw then qkey (queuetab s' (currpid s')) else prprio (proctab s' (currpid s')))) \<and>
    (sw \<longrightarrow> cr3 s' = ucast (PDBR (proctab s' (currpid s')))) \<and> (\<not> sw \<longrightarrow> s' = s) \<and>
    (\<forall>p. state_of s p \<notin> {PR_READY, PR_CURR} \<longrightarrow> state_of s' p = state_of s p)"
proof -
  obtain sw s' where e: "resched s = Some (sw, s')" "kinv s'" "sched_effect sw s s'"
    by (rule resched_kinv [OF kinvD(1,2,4) [OF assms]]) (rule that)
  then show ?thesis by (fastforce simp: sched_effect_def)
qed

lemma resched_runs_highest_witness:
  "\<exists>sw s'. resched scene = Some (sw, s') \<and> kinv s' \<and>
    (\<forall>p \<in> set (queue_of s' (readylist s')). qkey (queuetab s' p) \<le>
       (if sw then qkey (queuetab s' (currpid s')) else prprio (proctab s' (currpid s')))) \<and>
    (sw \<longrightarrow> cr3 s' = ucast (PDBR (proctab s' (currpid s')))) \<and> (\<not> sw \<longrightarrow> s' = scene) \<and>
    (\<forall>p. state_of scene p \<notin> {PR_READY, PR_CURR} \<longrightarrow> state_of s' p = state_of scene p)"
  by (rule resched_runs_highest [OF scene_kinv])

text \<open>C19.  \<open>wait\<close> on a semaphore with no units left takes a unit all the same (the count goes
  down), puts the caller at the tail of the semaphore's queue and gives up the processor; on one
  that has units it only counts down.\<close>

theorem wait_blocks_or_takes:
  assumes "kinv s" "currpid s \<noteq> NULLPROC" "\<not> isbadsem sem" "sstate (semtab s sem) = S_USED"
  shows "\<exists>r s'. wait sem s = Some (r, s') \<and> kinv s' \<and>
    scount (semtab s' sem) = scount (semtab s sem) - 1 \<and>
    (r = Switch OK \<longleftrightarrow> scount (semtab s sem) \<le> 0) \<and> (r = Ret OK \<longleftrightarrow> scount (semtab s sem) > 0) \<and>
    queue_of s' (squeue (semtab s sem)) = queue_of s (squeue (semtab s sem)) @
      (if scount (semtab s sem) \<le> 0 then [currpid s] else []) \<and>
    (scount (semtab s sem) \<le> 0 \<longrightarrow> state_of s' (currpid s) = PR_WAIT)"
proof (cases "scount (semtab s sem) \<le> 0")
  case True
  let ?q = "squeue (semtab s sem)"
  obtain s1 s' where e: "wait sem s = Some (Switch OK, s')" "kinv s'" "sched_effect True s1 s'"
    "semtab s1 = semtab (set_scount sem (scount (semtab s sem) - 1) s)"
    "queue_of s1 ?q = queue_of s ?q @ [currpid s]" "state_of s1 (currpid s) = PR_WAIT"
    "qids s1 = qids s" "readylist s1 = readylist s"
    by (rule wait_block [OF assms(1,3,4) True assms(2)]) (rule that)
  have q: "?q \<in> qids s" "?q \<noteq> readylist s"
    using sem_queue [OF kinvD(6) [OF assms(1)] sem_used_props(1) [OF assms(1,3,4)]] by auto
  have "queue_of s' ?q = queue_of s1 ?q" using e(3,7,8) q by (simp add: sched_effect_def)
  moreover have "state_of s' (currpid s) = PR_WAIT"
    using e(3,6) by (auto simp: sched_effect_def dest: spec [of _ "currpid s"])
  moreover have "semtab s' = semtab s1" using e(3) same_kernel_fields(10) [of s1 s'] by (simp add: sched_effect_def)
  ultimately show ?thesis using e True by simp
next
  case False
  then show ?thesis using wait_free_kinv [OF assms(1,3,4)] by simp
qed

lemma scene_sem_facts:
  "\<not> isbadsem 0" "\<not> isbadsem 1" "sstate (semtab scene 0) = S_USED" "sstate (semtab scene 1) = S_USED"
  "scount (semtab scene 0) = - 2" "scount (semtab scene 1) = 3" "squeue (semtab scene 0) = 100"
  by (simp_all add: isbadsem_def scene_sems_def)

lemma wait_blocks_or_takes_witness:
  "\<exists>r s'. wait 0 scene = Some (r, s') \<and> kinv s' \<and> scount (semtab s' 0) = - 3 \<and> r = Switch OK \<and>
    queue_of s' 100 = [2, 5, 1] \<and> state_of s' 1 = PR_WAIT"
  using wait_blocks_or_takes [of scene 0] scene_kinv scene_sem_facts scene_contents by auto

text \<open>\<open>signal\<close> adds a unit; when processes wait, the one that has waited longest leaves the
  queue and is ready (or running) afterwards, and the others stay in their order.\<close>

theorem signal_releases_first:
  assumes "kinv s" "\<not> isbadsem sem" "sstate (semtab s sem) = S_USED" "scount (semtab s sem) < 2147483647"
  shows "\<exists>r s'. signal sem s = Some (r, s') \<and> kinv s' \<and> (r = Ret OK \<or> r = Switch OK) \<and>
    scount (semtab s' sem) = scount (semtab s sem) + 1 \<and>
    queue_of s' (squeue (semtab s sem)) = drop 1 (queue_of s (squeue (semtab s sem))) \<and>
    (\<forall>p ps. queue_of s (squeue (semtab s sem)) = p # ps \<longrightarrow> state_of s' p = PR_READY \<or> state_of s' p = PR_CURR)"
proof (cases "scount (semtab s sem) < 0")
  case True
  obtain p ps r s' where "queue_of s (squeue (semtab s sem)) = p # ps"
    "signal sem s = Some (r, s')" "r = Ret OK \<or> r = Switch OK" "kinv s'"
    "semtab s' = semtab (set_scount sem (scount (semtab s sem) + 1) s)"
    "state_of s' p = PR_READY \<or> state_of s' p = PR_CURR"
    "queue_of s' (squeue (semtab s sem)) = ps"
    by (rule signal_release [OF assms(1-3) True]) (rule that)
  then show ?thesis by simp
next
  case False
  have "queue_of s (squeue (semtab s sem)) = []"
    using sem_used_props(3) [OF assms(1-3)] False by simp
  then show ?thesis using signal_no_waiter [OF assms(1-3)] False assms(4) by simp
qed

lemma signal_releases_first_witness:
  "\<exists>r s'. signal 0 scene = Some (r, s') \<and> kinv s' \<and> scount (semtab s' 0) = - 1 \<and> queue_of s' 100 = [5] \<and>
    (state_of s' 2 = PR_READY \<or> state_of s' 2 = PR_CURR)"
  using signal_releases_first [of scene 0] scene_kinv scene_sem_facts scene_contents by auto

text \<open>C18.  \<open>signaln\<close> with a count of \<open>n\<close> adds \<open>n\<close> units and releases the first \<open>n\<close> waiting processes,
  no more and no fewer, with one reschedule at the end.\<close>

theorem signaln_releases_n:
  assumes "kinv s" "\<not> isbadsem sem" "sstate (semtab s sem) = S_USED"
    "0 \<le> n" "scount (semtab s sem) + n \<le> 2147483647"
  shows "\<exists>r s'. signaln sem n s = Some (r, s') \<and> kinv s' \<and> (r = Ret OK \<or> r = Switch OK) \<and>
    scount (semtab s' sem) = scount (semtab s sem) + n \<and>
    queue_of s' (squeue (semtab s sem)) = drop (nat n) (queue_of s (squeue (semtab s sem))) \<and>
    (\<forall>p \<in> set (take (nat n) (queue_of s (squeue (semtab s sem)))). state_of s' p = PR_READY \<or> state_of s' p = PR_CURR)"
proof -
  obtain r s' where "signaln sem n s = Some (r, s')" "kinv s'" "r = Ret OK \<or> r = Switch OK"
    "scount (semtab s' sem) = scount (semtab s sem) + n"
    "queue_of s' (squeue (semtab s sem)) = drop (nat n) (queue_of s (squeue (semtab s sem)))"
    "\<And>p. p \<in> set (take (nat n) (queue_of s (squeue (semtab s sem)))) \<Longrightarrow>
       state_of s' p = PR_READY \<or> state_of s' p = PR_CURR"
    by (rule signaln_release [OF assms]) (rule that)
  then show ?thesis by blast
qed

lemma signaln_releases_n_witness:
  "\<exists>r s'. signaln 0 5 scene = Some (r, s') \<and> kinv s' \<and> scount (semtab s' 0) = 3 \<and> queue_of s' 100 = [] \<and>
    (\<forall>p \<in> {2, 5}. state_of s' p = PR_READY \<or> state_of s' p = PR_CURR)"
  using signaln_releases_n [of scene 0 5] scene_kinv scene_sem_facts scene_contents by auto

text \<open>Deleting a semaphore frees its entry and leaves no process behind in its queue: all of
  them become ready.\<close>

theorem semdelete_strands_nobody:
  assumes "kinv s" "\<not> isbadsem sem" "sstate (semtab s sem) = S_USED"
  shows "\<exists>r s'. semdelete sem s = Some (r, s') \<and> kinv s' \<and> (r = Ret OK \<or> r = Switch OK) \<and>
    sstate (semtab s' sem) = S_FREE \<and> queue_of s' (squeue (semtab s sem)) = [] \<and>
    (\<forall>p \<in> set (queue_of s (squeue (semtab s sem))). state_of s' p = PR_READY \<or> state_of s' p = PR_CURR)"
proof -
  obtain r s' where "semdelete sem s = Some (r, s')" "kinv s'" "r = Ret OK \<or> r = Switch OK"
    "sstate (semtab s' sem) = S_FREE" "queue_of s' (squeue (semtab s sem)) = []"
    "\<And>p. p \<in> set (queue_of s (squeue (semtab s sem))) \<Longrightarrow> state_of s' p = PR_READY \<or> state_of s' p = PR_CURR"
    by (rule semdelete_release [OF assms]) (rule that)
  then show ?thesis by blast
qed

lemma semdelete_strands_nobody_witness:
  "\<exists>r s'. semdelete 0 scene = Some (r, s') \<and> kinv s' \<and> sstate (semtab s' 0) = S_FREE \<and> queue_of s' 100 = [] \<and>
    (\<forall>p \<in> {2, 5}. state_of s' p = PR_READY \<or> state_of s' p = PR_CURR)"
  using semdelete_strands_nobody [of scene 0] scene_kinv scene_sem_facts scene_contents by auto

text \<open>\<open>semreset\<close> releases every waiting process and sets the count to the given value.\<close>

theorem semreset_releases_all:
  assumes "kinv s" "\<not> isbadsem sem" "sstate (semtab s sem) = S_USED" "0 \<le> n" "n \<le> 2147483647"
  shows "\<exists>r s'. semreset sem n s = Some (r, s') \<and> kinv s' \<and> (r = Ret OK \<or> r = Switch OK) \<and>
    scount (semtab s' sem) = n \<and> queue_of s' (squeue (semtab s sem)) = [] \<and>
    (\<forall>p \<in> set (queue_of s (squeue (semtab s sem))). state_of s' p = PR_READY \<or> state_of s' p = PR_CURR)"
proof -
  obtain r s' where "semreset sem n s = Some (r, s')" "kinv s'" "r = Ret OK \<or> r = Switch OK"
    "scount (semtab s' sem) = n" "queue_of s' (squeue (semtab s sem)) = []"
    "\<And>p. p \<in> set (queue_of s (squeue (semtab s sem))) \<Longrightarrow> state_of s' p = PR_READY \<or> state_of s' p = PR_CURR"
    by (rule semreset_release [OF assms]) (rule that)
  then show ?thesis by blast
qed

lemma semreset_releases_all_witness:
  "\<exists>r s'. semreset 0 7 scene = Some (r, s') \<and> kinv s' \<and> scount (semtab s' 0) = 7 \<and> queue_of s' 100 = [] \<and>
    (\<forall>p \<in> {2, 5}. state_of s' p = PR_READY \<or> state_of s' p = PR_CURR)"
  using semreset_releases_all [of scene 0 7] scene_kinv scene_sem_facts scene_contents by auto

text \<open>\<open>semcreate\<close> fails exactly when the count is negative or every semaphore is in use;
  otherwise it returns a semaphore that was free, now in use with that count and nobody waiting,
  and touches no other.\<close>

theorem semcreate_allocates:
  assumes "kinv s" "count \<le> 2147483647"
  shows "(fst (semcreate count s) = SYSERR \<longleftrightarrow> count < 0 \<or> (\<forall>k \<in> {0..<NSEM}. sstate (semtab s k) = S_USED)) \<and>
    kinv (snd (semcreate count s)) \<and>
    (fst (semcreate count s) \<noteq> SYSERR \<longrightarrow>
      (let sem = fst (semcreate count s); s' = snd (semcreate count s) in
       sem \<in> {0..<NSEM} \<and> sstate (semtab s sem) = S_FREE \<and> sstate (semtab s' sem) = S_USED \<and>
       scount (semtab s' sem) = count \<and> queue_of s' (squeue (semtab s' sem)) = [] \<and>
       (\<forall>j. j \<noteq> sem \<longrightarrow> semtab s' j = semtab s j)))"
  using semcreate_kinv [OF assms] by blast

lemma semcreate_allocates_witness:
  "fst (semcreate 4 scene) \<noteq> SYSERR \<and> kinv (snd (semcreate 4 scene))"
proof -
  have "sstate (semtab scene 2) = S_FREE" by (simp add: scene_sems_def)
  then have "\<not> (\<forall>k \<in> {0..<NSEM}. sstate (semtab scene k) = S_USED)" by force
  then show ?thesis using semcreate_allocates [OF scene_kinv, of 4] by simp
qed

text \<open>A process that sleeps for \<open>d\<close> milliseconds, up to the largest signed delay, gives up the
  processor and enters the list of sleepers with \<open>d\<close> ticks left, behind every process that wakes
  no later; the ticks left to every other sleeper are unchanged.\<close>

theorem sleepms_sets_alarm:
  assumes "kinv s" "currpid s \<noteq> NULLPROC" "delay \<noteq> 0" "delay \<le> 2147483647"
  shows "\<exists>s'. sleepms delay s = Some (Switch OK, s') \<and> kinv s' \<and> state_of s' (currpid s) = PR_SLEEP \<and>
    wake_list s' = takeWhile (\<lambda>(x, w). w \<le> int (unat delay)) (wake_list s) @ (currpid s, int (unat delay)) #
       dropWhile (\<lambda>(x, w). w \<le> int (unat delay)) (wake_list s)"
proof -
  obtain s' where "sleepms delay s = Some (Switch OK, s')" "kinv s'" "state_of s' (currpid s) = PR_SLEEP"
    "wake_list s' = takeWhile (\<lambda>(x, w). w \<le> int (unat delay)) (wake_list s) @ (currpid s, int (unat delay)) #
       dropWhile (\<lambda>(x, w). w \<le> int (unat delay)) (wake_list s)"
    by (rule sleepms_blocks [OF assms]) (rule that)
  then show ?thesis by blast
qed

lemma sleepms_sets_alarm_witness:
  "\<exists>s'. sleepms 5 scene = Some (Switch OK, s') \<and> kinv s' \<and> state_of s' 1 = PR_SLEEP \<and>
    wake_list s' = [(3, 4), (1, 5), (6, 7)]"
  using sleepms_sets_alarm [of scene 5] scene_kinv by (simp add: scene_wake_list)

text \<open>C11.  One clock interrupt takes one tick from every sleeper and makes ready exactly those that
  had one tick left (as long as none was due already, which only a timed receive of zero ticks
  can bring about); the handler keeps the kernel invariant, also when a woken process takes the
  processor in the middle of it.\<close>

theorem clock_tick:
  assumes "kinv s" "\<forall>(x, w) \<in> set (wake_list s). 0 < w"
  shows "\<exists>r s'. clkhandler s = Some (r, s') \<and> kinv s' \<and>
    wake_list s' = dropWhile (\<lambda>(x, w). w = 0) (map (\<lambda>(x, w). (x, w - 1)) (wake_list s)) \<and>
    (\<forall>(x, w) \<in> set (takeWhile (\<lambda>(x, w). w = 1) (wake_list s)). state_of s' x = PR_READY \<or> state_of s' x = PR_CURR)"
proof -
  let ?f = "\<lambda>(x, w). (x, w - 1)"
  obtain r s' where e: "clkhandler s = Some (r, s')" "kinv s'" "ticked s s'"
    using clkhandler_tick [OF assms(1)] by blast
  have ts: "tick_step s = 1" using assms(2) by (auto simp: tick_step_def split: list.split)
  have d: "dropWhile (\<lambda>(x, w). w \<le> 0) (map ?f xs) = dropWhile (\<lambda>(x, w). w = 0) (map ?f xs)"
    "takeWhile (\<lambda>(x, w). w \<le> 0) (map ?f xs) = map ?f (takeWhile (\<lambda>(x, w). w = 1) xs)"
    if "\<forall>(x, w) \<in> set xs. 0 < w" for xs :: "(int \<times> int) list"
    using that by (induction xs) auto
  have "wake_list s' = dropWhile (\<lambda>(x, w). w = 0) (map ?f (wake_list s))"
    using e(3) d(1) [OF assms(2)] by (simp add: ticked_def ts Let_def)
  moreover have "woken s' (map ?f (takeWhile (\<lambda>(x, w). w = 1) (wake_list s)))"
    using e(3) d(2) [OF assms(2)] by (simp add: ticked_def ts Let_def)
  then have "\<forall>(x, w) \<in> set (takeWhile (\<lambda>(x, w). w = 1) (wake_list s)). state_of s' x = PR_READY \<or> state_of s' x = PR_CURR"
    by (auto simp: woken_def)
  ultimately show ?thesis using e(1,2) by blast
qed

lemma clock_tick_witness:
  "\<exists>r s'. clkhandler scene = Some (r, s') \<and> kinv s' \<and> wake_list s' = [(3, 3), (6, 6)]"
  using clock_tick [OF scene_kinv] by (auto simp: scene_wake_list)

text \<open>A message for a live process with an empty mailbox is delivered: it is in the table
  entry, a receiver blocked for it is ready or running, its alarm (if it waited with a time
  limit) is gone and the alarms of all others are as before.\<close>

theorem send_delivers_message:
  assumes "kinv s" "\<not> isbadpid s pid" "\<not> prhasmsg (proctab s pid)"
  shows "\<exists>r s'. send pid msg s = Some (r, s') \<and> kinv s' \<and> (r = Ret OK \<or> r = Switch OK) \<and>
    prhasmsg (proctab s' pid) \<and> prmsg (proctab s' pid) = msg \<and>
    (state_of s pid \<in> {PR_RECV, PR_RECTIM} \<longrightarrow> state_of s' pid = PR_READY \<or> state_of s' pid = PR_CURR) \<and>
    (\<forall>q. q \<noteq> pid \<longrightarrow> prmsg (proctab s' q) = prmsg (proctab s q)) \<and>
    wake_list s' = filter (\<lambda>(x, w). \<not> (x = pid \<and> state_of s pid = PR_RECTIM)) (wake_list s)"
  using send_delivers [OF assms, of msg] unfolding delivered_def by blast

lemma send_delivers_message_witness:
  "\<exists>r s'. send 6 42 scene = Some (r, s') \<and> kinv s' \<and> prmsg (proctab s' 6) = 42 \<and>
    (state_of s' 6 = PR_READY \<or> state_of s' 6 = PR_CURR) \<and> wake_list s' = [(3, 4)]"
  using send_delivers_message [of scene 6 42] scene_kinv
  by (auto simp: scene_wake_list isbadpid_def scene_procs_def)

text \<open>A full mailbox is never overwritten: while a message waits, \<open>send\<close> fails and changes
  nothing, and the receiver's next \<open>receive\<close> returns the message that was there first.\<close>

theorem mailbox_not_overwritten:
  assumes "prhasmsg (proctab s (currpid s))"
  shows "send (currpid s) msg s = Some (Ret SYSERR, s) \<and>
    receive s = Some (Ret (prmsg (proctab s (currpid s))), set_prhasmsg (currpid s) False s)"
  using assms by (simp add: send_bad receive_waiting)

lemma mailbox_not_overwritten_witness:
  "receive (set_prhasmsg 1 True (set_prmsg 1 9 scene)) =
     Some (Ret 9, set_prhasmsg 1 False (set_prhasmsg 1 True (set_prmsg 1 9 scene)))"
  using mailbox_not_overwritten [of "set_prhasmsg 1 True (set_prmsg 1 9 scene)" 7] by simp

text \<open>C22.  A receive with a time limit on an empty mailbox sets the caller's alarm and blocks; the
  part that runs after the wake-up returns the message when one came in and \<open>TIMEOUT\<close> otherwise.\<close>

theorem recvtime_message_or_timeout:
  assumes "kinv s" "currpid s \<noteq> NULLPROC" "\<not> prhasmsg (proctab s (currpid s))" "0 \<le> d" "d \<le> MAXKEY"
  shows "\<exists>s'. recvtime d s = Some (Switch (currpid s), s') \<and> kinv s' \<and> state_of s' (currpid s) = PR_RECTIM \<and>
    wake_list s' = takeWhile (\<lambda>(x, w). w \<le> d) (wake_list s) @ (currpid s, d) #
      dropWhile (\<lambda>(x, w). w \<le> d) (wake_list s) \<and>
    (\<forall>u :: 'z kstate_scheme. fst (recvtime_resume (currpid s) u) =
      (if prhasmsg (proctab u (currpid s)) then prmsg (proctab u (currpid s)) else word_of_int TIMEOUT) \<and>
      \<not> prhasmsg (proctab (snd (recvtime_resume (currpid s) u)) (currpid s)))"
proof -
  obtain s' where "recvtime d s = Some (Switch (currpid s), s')" "kinv s'"
    "state_of s' (currpid s) = PR_RECTIM" "\<not> prhasmsg (proctab s' (currpid s))"
    "wake_list s' = takeWhile (\<lambda>(x, w). w \<le> d) (wake_list s) @ (currpid s, d) #
       dropWhile (\<lambda>(x, w). w \<le> d) (wake_list s)"
    by (rule recvtime_blocks [OF assms]) (rule that)
  then show ?thesis by (simp add: recvtime_resume_def)
qed

lemma recvtime_message_or_timeout_witness:
  "\<exists>s'. recvtime 4 scene = Some (Switch 1, s') \<and> kinv s' \<and> state_of s' 1 = PR_RECTIM \<and>
    wake_list s' = [(3, 4), (1, 4), (6, 7)]"
  using recvtime_message_or_timeout [OF scene_kinv, of 4, where ?'z = unit]
  by (auto simp: scene_wake_list scene_procs_def)

text \<open>Processes leave a queue in the order in which they entered it: \<open>enqueue\<close> appends at the
  tail, \<open>dequeue\<close> takes from the head, and neither disturbs the other queues of the table.\<close>

theorem queue_first_come_first_served:
  assumes "qsys t Q" "q \<in> Q" "qcontents t q = []" "\<forall>p \<in> set ps. in_no_queue Q t p" "distinct ps"
  shows "fst (tabq.run_deq (length ps) q (tabq.run_enq q ps t)) = ps"
  using assms by (rule tabq.first_come_first_served)

lemma queue_first_come_first_served_witness:
  "fst (tabq.run_deq 2 102 (tabq.run_enq 102 [1, 4] scene_queues)) = [1, 4]"
proof -
  note pl = kinvD(5) [OF scene_kinv]
  have q: "102 \<in> qids scene" by (simp add: scene_qids)
  have "in_no_queue (qids scene) scene_queues p" if "p \<in> {1, 4}" for p
  proof -
    have "home scene p = None" using that by (auto simp: home_def scene_procs_def)
    then show ?thesis using placed_home [OF pl, of p] that by (auto simp: in_no_queue_def)
  qed
  then show ?thesis
    using queue_first_come_first_served [of scene_queues "qids scene" 102 "[1, 4]"] q placedD(2) [OF pl]
      scene_contents_other(1) [of 102] by (simp add: numeral_2_eq_2)
qed

text \<open>\<open>insert\<close> keeps a queue in descending key order and puts the new process behind every
  process of the same key, so that equal priorities are served in turn.\<close>

theorem insert_by_priority:
  assumes "qlist t q xs" "q < NQENT - 1" "\<not> bad p" "0 \<le> p" "p < NPROC" "p \<notin> set xs"
    "qkey (t (q + 1)) < key" "keys_desc t xs"
  shows "\<exists>t'. insert_tab bad p q key t = Some (OK, t') \<and>
    qlist t' q (takeWhile (\<lambda>x. key \<le> qkey (t x)) xs @ p # dropWhile (\<lambda>x. key \<le> qkey (t x)) xs) \<and>
    keys_desc t' (takeWhile (\<lambda>x. key \<le> qkey (t x)) xs @ p # dropWhile (\<lambda>x. key \<le> qkey (t x)) xs)"
proof -
  obtain t' where "insert_tab bad p q key t = Some (OK, t')"
    "qlist t' q (ins_before t key xs @ p # ins_after t key xs)"
    "\<And>j. qkey (t' j) = (if j = p then key else qkey (t j))"
    by (rule insert_qlist [where bad = bad and p = p, OF assms(1-7)]) (rule that)
  then show ?thesis
    using insert_keeps_desc [OF assms(8,6)] by (auto simp: ins_before_def ins_after_def)
qed

lemma insert_by_priority_witness:
  "\<exists>t'. insert_tab (\<lambda>_. False) 1 300 20 scene_queues = Some (OK, t') \<and> qlist t' 300 [1, 0]"
proof -
  have "qkey (scene_queues 301) < 20" "qkey (scene_queues 0) = 0" "keys_desc scene_queues [0]"
    by (simp_all add: scene_queues_def keys_desc_def)
  then show ?thesis
    using insert_by_priority [of scene_queues 300 "[0]" "\<lambda>_. False" 1 20] scene_qlists by auto
qed

text \<open>While rescheduling is deferred, making a process ready puts it in the ready list and
  records the attempt, but the running process keeps the processor.\<close>

theorem deferred_ready_keeps_running:
  assumes "can_resched {p} s" "\<not> isbadpid s p" "0 < ndefers s"
  shows "\<exists>s'. ready p s = Some (Ret OK, s') \<and> currpid s' = currpid s \<and> attempt s' \<and>
    p \<in> set (queue_of s' (readylist s')) \<and> state_of s' p = PR_READY"
proof -
  obtain s' where e: "ready p s = Some (Ret OK, s')" "can_resched {} s'" "same_kernel s s'"
    "currpid s' = currpid s" "attempt s'" "\<And>r. state_of s' r = (if r = p then PR_READY else state_of s r)"
    by (rule ready_deferred [OF assms]) (rule that)
  have "p \<in> {0..<NPROC}" using assms(2) by (auto simp: isbadpid_def)
  then show ?thesis using e ready_iff [OF can_reschedD(1) [OF e(2)], of p] by auto
qed

lemma deferred_ready_keeps_running_witness:
  "\<exists>s'. ready 7 (scene\<lparr>ndefers := 1, attempt := False\<rparr>) = Some (Ret OK, s') \<and> currpid s' = 1 \<and> attempt s'"
proof -
  let ?s = "scene\<lparr>ndefers := 1, attempt := False\<rparr>"
  have c: "can_resched {} ?s" using defer_start(2) [OF scene_kinv] by (simp add: deferring_def)
  have "can_resched {7} ?s" using can_resched_take [OF c, of 7] by (simp add: home_def scene_procs_def)
  then show ?thesis
    using deferred_ready_keeps_running [of 7 ?s] by (auto simp: isbadpid_def scene_procs_def)
qed

end
