(* ===== verification/Memory.thy ===== *)
theory Memory
  imports Prelude
begin

text \<open>
  The heap and stack allocator: \<^verbatim>\<open>system/getmem.c\<close>, \<^verbatim>\<open>freemem.c\<close>, \<^verbatim>\<open>getstk.c\<close>,
  the list set-up of \<^verbatim>\<open>meminit.c\<close> and the macros of \<^verbatim>\<open>include/memory.h\<close>.

  Memory is a store of 32-bit words.  A free block at address \<open>a\<close> holds the two words of a
  \<open>struct memblk\<close>: the next pointer at \<open>a\<close> and the length at \<open>a + 4\<close>; the head \<open>memlist\<close> is
  such a pair too, at an address below the heap.  Blocks are disjoint and at least eight bytes
  long, so the words the allocator reads and writes never overlap.
\<close>

record memory =
  word_at :: "u32 \<Rightarrow> u32"
  memlist :: u32            \<comment> \<open>the address of the list head\<close>
  minheap :: u32
  maxheap :: u32

abbreviation (input) NULL :: u32 where "NULL \<equiv> 0"
abbreviation (input) ADDR_SYSERR :: u32 where "ADDR_SYSERR \<equiv> - 1"

definition mnext :: "u32 \<Rightarrow> 'z memory_scheme \<Rightarrow> u32" where "mnext a m = word_at m a"
definition mlength :: "u32 \<Rightarrow> 'z memory_scheme \<Rightarrow> u32" where "mlength a m = word_at m (a + 4)"

definition set_mnext :: "u32 \<Rightarrow> u32 \<Rightarrow> 'z memory_scheme \<Rightarrow> 'z memory_scheme" where
  "set_mnext a v m = m\<lparr>word_at := (word_at m)(a := v)\<rparr>"

definition set_mlength :: "u32 \<Rightarrow> u32 \<Rightarrow> 'z memory_scheme \<Rightarrow> 'z memory_scheme" where
  "set_mlength a v m = m\<lparr>word_at := (word_at m)(a + 4 := v)\<rparr>"

definition roundmb :: "u32 \<Rightarrow> u32" where "roundmb x = and (7 + x) (not 7)"
definition truncmb :: "u32 \<Rightarrow> u32" where "truncmb x = and x (not 7)"

definition meminit :: "u32 \<Rightarrow> 'z memory_scheme \<Rightarrow> 'z memory_scheme" where
  "meminit end_addr m =
     (let memptr = memlist m;
          m = set_mnext memptr NULL m;
          m = set_mlength memptr 0 m;
          m = m\<lparr>minheap := end_addr\<rparr>;
          m = m\<lparr>maxheap := minheap m\<rparr>;
          m = m\<lparr>maxheap := 4 * 1024 * 1024\<rparr>;
          m = set_mlength memptr (maxheap m - minheap m) m;
          m = set_mnext memptr (minheap m) m;
          memptr = mnext memptr m;
          m = set_mnext memptr NULL m;
          m = set_mlength memptr (maxheap m - minheap m) m
      in m)"

partial_function (option) getmem_loop ::
    "u32 \<Rightarrow> u32 \<Rightarrow> u32 \<Rightarrow> 'z memory_scheme \<Rightarrow> (u32 \<times> 'z memory_scheme) option" where
  "getmem_loop nbytes prev cur m =
     (if cur = NULL then Some (ADDR_SYSERR, m)
      else if mlength cur m = nbytes then
        (let m = set_mnext prev (mnext cur m) m;
             m = set_mlength (memlist m) (mlength (memlist m) m - nbytes) m
         in Some (cur, m))
      else if mlength cur m > nbytes then
        (let leftover = cur + nbytes;
             m = set_mnext prev leftover m;
             m = set_mnext leftover (mnext cur m) m;
             m = set_mlength leftover (mlength cur m - nbytes) m;
             m = set_mlength (memlist m) (mlength (memlist m) m - nbytes) m
         in Some (cur, m))
      else getmem_loop nbytes cur (mnext cur m) m)"

definition getmem :: "u32 \<Rightarrow> 'z memory_scheme \<Rightarrow> (u32 \<times> 'z memory_scheme) option" where
  "getmem nbytes m =
     (if nbytes = 0 then Some (ADDR_SYSERR, m)
      else
        let nbytes = roundmb nbytes; prev = memlist m; cur = mnext (memlist m) m
        in getmem_loop nbytes prev cur m)"

partial_function (option) getstk_loop ::
    "u32 \<Rightarrow> u32 \<Rightarrow> u32 \<Rightarrow> u32 \<Rightarrow> u32 \<Rightarrow> 'z memory_scheme \<Rightarrow> (u32 \<times> u32) option" where
  "getstk_loop nbytes prev cur fits fitsprev m =
     (if cur = NULL then Some (fits, fitsprev)
      else if mlength cur m \<ge> nbytes then getstk_loop nbytes cur (mnext cur m) cur prev m
      else getstk_loop nbytes cur (mnext cur m) fits fitsprev m)"

definition getstk :: "u32 \<Rightarrow> 'z memory_scheme \<Rightarrow> (u32 \<times> 'z memory_scheme) option" where
  "getstk nbytes m =
     (if nbytes = 0 then Some (ADDR_SYSERR, m)
      else do {
        let nbytes = roundmb nbytes;
        (fits, fitsprev) \<leftarrow> getstk_loop nbytes (memlist m) (mnext (memlist m) m) NULL NULL m;
        if fits = NULL then Some (ADDR_SYSERR, m)
        else
          let (fits, m) =
                (if nbytes = mlength fits m then (fits, set_mnext fitsprev (mnext fits m) m)
                 else
                   let m = set_mlength fits (mlength fits m - nbytes) m
                   in (fits + mlength fits m, m));
              m = set_mlength (memlist m) (mlength (memlist m) m - nbytes) m
          in Some (fits + nbytes - 4, m)
      })"

partial_function (option) freemem_loop ::
    "u32 \<Rightarrow> u32 \<Rightarrow> u32 \<Rightarrow> 'z memory_scheme \<Rightarrow> (u32 \<times> u32) option" where
  "freemem_loop block prev next m =
     (if next \<noteq> NULL \<and> next < block then freemem_loop block next (mnext next m) m
      else Some (prev, next))"

definition freemem :: "u32 \<Rightarrow> u32 \<Rightarrow> 'z memory_scheme \<Rightarrow> (int \<times> 'z memory_scheme) option" where
  "freemem blkaddr nbytes m =
     (if nbytes = 0 \<or> blkaddr < minheap m \<or> blkaddr > maxheap m then Some (SYSERR, m)
      else do {
        let nbytes = roundmb nbytes;
        let block = blkaddr;
        (prev, next) \<leftarrow> freemem_loop block (memlist m) (mnext (memlist m) m) m;
        let ptop = (if prev = memlist m then 0 else prev + mlength prev m);
        if (prev \<noteq> memlist m \<and> block < ptop) \<or> (next \<noteq> NULL \<and> block + nbytes > next)
        then Some (SYSERR, m)
        else
          let m = set_mlength (memlist m) (mlength (memlist m) m + nbytes) m;
              (block, m) =
                (if ptop = block then (prev, set_mlength prev (mlength prev m + nbytes) m)
                 else
                   let m = set_mnext block next m;
                       m = set_mlength block nbytes m;
                       m = set_mnext prev block m
                   in (block, m));
              m = (if block + mlength block m = next
                   then
                     let m = set_mlength block (mlength block m + mlength next m) m
                     in set_mnext block (mnext next m) m
                   else m)
          in Some (OK, m)
      })"

definition freestk :: "u32 \<Rightarrow> u32 \<Rightarrow> 'z memory_scheme \<Rightarrow> (int \<times> 'z memory_scheme) option" where
  "freestk p len m = freemem (p - roundmb len + 4) (roundmb len) m"

subsection \<open>The free list as a list of blocks\<close>

fun chain :: "'z memory_scheme \<Rightarrow> u32 \<Rightarrow> (u32 \<times> u32) list \<Rightarrow> bool" where
  "chain m p [] \<longleftrightarrow> p = NULL"
| "chain m p ((a, k) # bs) \<longleftrightarrow> p = a \<and> a \<noteq> NULL \<and> mlength a m = k \<and> chain m (mnext a m) bs"

text \<open>
  In ascending order, with a gap between any two (adjacent blocks are always merged), each of
  a positive multiple of eight bytes, all between \<open>lo\<close> and \<open>hi\<close>.
\<close>

fun blocks_ok :: "nat \<Rightarrow> (u32 \<times> u32) list \<Rightarrow> nat \<Rightarrow> bool" where
  "blocks_ok lo [] hi \<longleftrightarrow> True"
| "blocks_ok lo ((a, k) # bs) hi \<longleftrightarrow> lo < unat a \<and> 8 \<le> unat k \<and> 8 dvd unat k \<and>
     unat a + unat k \<le> hi \<and> blocks_ok (unat a + unat k) bs hi"

definition area :: "u32 \<Rightarrow> u32 \<Rightarrow> u32 set" where
  "area a k = {x. unat a \<le> unat x \<and> unat x < unat a + unat k}"

definition free_area :: "(u32 \<times> u32) list \<Rightarrow> u32 set" where
  "free_area bs = (\<Union>(a, k) \<in> set bs. area a k)"

definition free_total :: "(u32 \<times> u32) list \<Rightarrow> nat" where
  "free_total bs = (\<Sum>(a, k)\<leftarrow>bs. unat k)"

definition only_changed :: "u32 set \<Rightarrow> 'z memory_scheme \<Rightarrow> 'z memory_scheme \<Rightarrow> bool" where
  "only_changed S m m' \<longleftrightarrow> (\<exists>w. m' = m\<lparr>word_at := w\<rparr> \<and> (\<forall>x. x \<notin> S \<longrightarrow> w x = word_at m x))"

lemma free_area_simps [simp]: "free_area [] = {}" "free_area ((a, k) # bs) = area a k \<union> free_area bs"
  by (simp_all add: free_area_def)

lemma free_total_simps [simp]: "free_total [] = 0" "free_total ((a, k) # bs) = unat k + free_total bs"
  by (simp_all add: free_total_def)

lemma only_changedD:
  assumes "only_changed S m m'"
  shows "x \<notin> S \<Longrightarrow> word_at m' x = word_at m x" "memlist m' = memlist m" "minheap m' = minheap m"
    "maxheap m' = maxheap m"
  using assms by (auto simp: only_changed_def)

lemma only_changed_refl: "only_changed S m m"
  unfolding only_changed_def by (rule exI [of _ "word_at m"]) simp

lemma only_changed_trans: "only_changed S m m' \<Longrightarrow> only_changed S m' m'' \<Longrightarrow> only_changed S m m''"
  unfolding only_changed_def by auto

lemma only_changed_mono: "only_changed S m m' \<Longrightarrow> S \<subseteq> S' \<Longrightarrow> only_changed S' m m'"
  unfolding only_changed_def by blast

lemma mlength_frame: "only_changed S m m' \<Longrightarrow> a + 4 \<notin> S \<Longrightarrow> mlength a m' = mlength a m"
  by (auto simp: mlength_def only_changed_def)

lemma only_changed_set_mnext: "a \<in> S \<Longrightarrow> only_changed S m (set_mnext a v m)"
  unfolding only_changed_def set_mnext_def by (rule exI [of _ "(word_at m)(a := v)"]) auto

lemma only_changed_set_mlength: "a + 4 \<in> S \<Longrightarrow> only_changed S m (set_mlength a v m)"
  unfolding only_changed_def set_mlength_def by (rule exI [of _ "(word_at m)(a + 4 := v)"]) auto

lemma word_at_simps [simp]:
  "word_at (set_mnext a v m) x = (if x = a then v else word_at m x)"
  "word_at (set_mlength a v m) x = (if x = a + 4 then v else word_at m x)"
  "memlist (set_mnext a v m) = memlist m" "memlist (set_mlength a v m) = memlist m"
  "minheap (set_mnext a v m) = minheap m" "minheap (set_mlength a v m) = minheap m"
  "maxheap (set_mnext a v m) = maxheap m" "maxheap (set_mlength a v m) = maxheap m"
  by (simp_all add: set_mnext_def set_mlength_def)

subsection \<open>Arithmetic on addresses\<close>

lemma u32_max: "unat (x :: u32) < 4294967296"
  using unsigned_less [of x] by simp

lemma unat_add_small:
  fixes a b :: u32
  assumes "unat a + unat b < 4294967296"
  shows "unat (a + b) = unat a + unat b"
  using assms unat_add_lem [of a b] by simp

lemma unat_add4: "unat a + unat k < 4294967296 \<Longrightarrow> 8 \<le> unat k \<Longrightarrow> unat (a + 4 :: u32) = unat a + 4"
  for k :: u32
  using unat_add_small [of a 4] by simp

lemma area_cells:
  fixes a k :: u32
  assumes "unat a + unat k < 4294967296" "8 \<le> unat k"
  shows "a \<in> area a k" "a + 4 \<in> area a k" "a + 4 \<noteq> a"
  using unat_add4 [OF assms] assms by (auto simp: area_def)

lemma area_bounds: "x \<in> area a k \<longleftrightarrow> unat a \<le> unat x \<and> unat x < unat a + unat k"
  by (simp add: area_def)

lemma free_area_bounds:
  "blocks_ok lo bs hi \<Longrightarrow> x \<in> free_area bs \<Longrightarrow> lo < unat x \<and> unat x < hi"
proof (induction bs arbitrary: lo)
  case Nil
  then show ?case by simp
next
  case (Cons b bs)
  obtain a k where b: "b = (a, k)" by (cases b)
  show ?case using Cons by (fastforce simp: b area_bounds)
qed

lemma blocks_ok_mono: "blocks_ok lo bs hi \<Longrightarrow> lo' \<le> lo \<Longrightarrow> blocks_ok lo' bs hi"
  by (cases bs) auto

lemma free_total_le: "blocks_ok lo bs hi \<Longrightarrow> free_total bs \<le> hi"
proof -
  have "blocks_ok lo bs hi \<Longrightarrow> bs \<noteq> [] \<Longrightarrow> lo + free_total bs \<le> hi" for lo
  proof (induction bs arbitrary: lo)
    case Nil
    then show ?case by simp
  next
    case (Cons b bs)
    then show ?case by (cases b; cases "bs = []") fastforce+
  qed
  then show "blocks_ok lo bs hi \<Longrightarrow> free_total bs \<le> hi" by (cases "bs = []") fastforce+
qed

lemma chain_frame:
  "chain m p bs \<Longrightarrow> blocks_ok lo bs hi \<Longrightarrow> hi < 4294967296 \<Longrightarrow>
   (\<And>x. x \<in> free_area bs \<Longrightarrow> word_at m' x = word_at m x) \<Longrightarrow> chain m' p bs"
proof (induction bs arbitrary: p lo)
  case Nil
  then show ?case by simp
next
  case (Cons b bs)
  obtain a k where b: "b = (a, k)" by (cases b)
  have k: "unat a + unat k < 4294967296" "8 \<le> unat k" using Cons.prems by (auto simp: b)
  have "word_at m' a = word_at m a" "word_at m' (a + 4) = word_at m (a + 4)"
    using Cons.prems(4) area_cells [OF k] by (auto simp: b)
  then show ?case using Cons by (auto simp: b mnext_def mlength_def)
qed

lemma chain_null: "chain m NULL bs \<longleftrightarrow> bs = []"
  by (cases bs) auto

lemma chain_nonnull: "chain m p bs \<Longrightarrow> p \<noteq> NULL \<longleftrightarrow> bs \<noteq> []"
  by (cases bs) auto

subsection \<open>Rounding\<close>

lemma and_not_seven: "and y (not 7) = push_bit 3 (drop_bit 3 y)" for y :: u32
proof -
  have "(7 :: u32) = mask 3" by (simp add: mask_eq_exp_minus_1)
  then show ?thesis by (simp add: bit_eq_iff bit_simps) (auto simp: bit_simps)
qed

lemma unat_trunc8: "unat (and y (not 7)) = 8 * (unat y div 8)" for y :: u32
proof -
  have "push_bit 3 (drop_bit 3 y) + take_bit 3 y = y" by (rule bits_ident)
  then have "push_bit 3 (drop_bit 3 y) = y - take_bit 3 y" by (simp add: eq_diff_eq)
  moreover have "unat (take_bit 3 y) = take_bit 3 (unat y)" by (rule unsigned_take_bit_eq)
  then have "unat (take_bit 3 y) = unat y mod 8" by (simp only: take_bit_eq_mod [of 3 "unat y"]) simp
  moreover have "unat y mod 8 \<le> unat y" by (rule mod_less_eq_dividend)
  ultimately have "unat (and y (not 7)) = unat y - unat y mod 8"
    unfolding and_not_seven by (simp add: unat_sub word_le_nat_alt)
  then show ?thesis by (simp add: minus_mod_eq_mult_div)
qed

lemma roundmb_round:
  assumes "unat x \<le> 4294967288"
  shows "unat (roundmb x) = 8 * ((unat x + 7) div 8)"
proof -
  have "unat (7 + x) = 7 + unat x" using assms unat_add_small [of 7 x] by simp
  then show ?thesis unfolding roundmb_def unat_trunc8 by (simp add: add.commute)
qed

lemma roundmb_bounds:
  assumes "unat x \<le> 4294967288" "x \<noteq> 0"
  shows "8 dvd unat (roundmb x)" "unat x \<le> unat (roundmb x)" "unat (roundmb x) < unat x + 8" "8 \<le> unat (roundmb x)"
proof -
  have "0 < unat x" using assms(2) by (simp add: unat_gt_0)
  then show "8 dvd unat (roundmb x)" "unat x \<le> unat (roundmb x)" "unat (roundmb x) < unat x + 8" "8 \<le> unat (roundmb x)"
    using roundmb_round [OF assms(1)] by auto
qed

text \<open>A multiple of eight is its own rounding; the last seven sizes round to zero.\<close>

lemma roundmb_id:
  assumes "8 dvd unat x"
  shows "roundmb x = x"
proof -
  have "unat x \<le> 4294967288" using assms u32_max [of x] by presburger
  from roundmb_round [OF this] have "unat (roundmb x) = unat x" using assms by auto
  then show ?thesis by (simp add: word_unat_eq_iff)
qed

subsection \<open>Allocation\<close>

fun first_fit :: "u32 \<Rightarrow> (u32 \<times> u32) list \<Rightarrow> (u32 \<times> (u32 \<times> u32) list) option" where
  "first_fit n [] = None"
| "first_fit n ((a, k) # bs) =
     (if k = n then Some (a, bs)
      else if n < k then Some (a, (a + n, k - n) # bs)
      else map_option (\<lambda>(r, bs'). (r, (a, k) # bs')) (first_fit n bs))"

definition good_size :: "u32 \<Rightarrow> bool" where
  "good_size n \<longleftrightarrow> n \<noteq> 0 \<and> 8 dvd unat n"

lemma good_size_ge: "good_size n \<Longrightarrow> 8 \<le> unat n"
proof -
  assume "good_size n"
  then have "0 < unat n" "8 dvd unat n" by (simp_all add: good_size_def unat_gt_0)
  then show ?thesis by (auto elim: dvdE)
qed

lemma split_block:
  fixes a k n :: u32
  assumes "n < k" "good_size n" "8 dvd unat k" "unat a + unat k < 4294967296"
  shows "unat (a + n) = unat a + unat n" "unat (k - n) = unat k - unat n" "8 \<le> unat (k - n)" "8 dvd unat (k - n)"
proof -
  have l: "unat n < unat k" using assms(1) by (simp add: word_less_nat_alt)
  show "unat (a + n) = unat a + unat n" using l assms(4) by (intro unat_add_small) simp
  show d: "unat (k - n) = unat k - unat n" using l by (simp add: unat_sub word_le_nat_alt)
  show e: "8 dvd unat (k - n)" using assms(2,3) by (simp add: d good_size_def dvd_diff_nat)
  have "0 < unat (k - n)" using d l by simp
  then show "8 \<le> unat (k - n)" using e by (auto elim: dvdE)
qed

lemma first_fit_ok:
  assumes "first_fit n bs = Some (a, bs')" "blocks_ok lo bs hi" "good_size n" "hi < 4294967296"
  shows "blocks_ok lo bs' hi \<and> area a n \<subseteq> free_area bs \<and> free_area bs' = free_area bs - area a n \<and>
    free_total bs' + unat n = free_total bs \<and> a \<noteq> NULL"
  using assms(1,2)
proof (induction bs arbitrary: lo bs')
  case Nil
  then show ?case by simp
next
  case (Cons b bs)
  obtain c k where b: "b = (c, k)" by (cases b)
  have ok: "lo < unat c" "8 \<le> unat k" "8 dvd unat k" "unat c + unat k \<le> hi" "blocks_ok (unat c + unat k) bs hi"
    using Cons.prems(2) by (auto simp: b)
  have later: "unat c + unat k < unat x" if "x \<in> free_area bs" for x
    using free_area_bounds [OF ok(5) that] by simp
  consider "k = n" | "n < k" | "k < n" by (metis linorder_cases)
  then show ?case
  proof cases
    case 1
    then have "a = c" "bs' = bs" using Cons.prems(1) by (auto simp: b)
    then show ?thesis using ok later 1 by (fastforce simp: b area_bounds intro: blocks_ok_mono)
  next
    case 2
    have "unat c + unat k < 4294967296" using ok(4) assms(4) by simp
    note sp = split_block [OF 2 assms(3) ok(3) this]
    have "a = c" "bs' = (c + n, k - n) # bs" using Cons.prems(1) 2 by (auto simp: b split: if_splits)
    moreover have "unat n < unat k" using 2 by (simp add: word_less_nat_alt)
    moreover have "area c n \<subseteq> area c k" "area (c + n) (k - n) = area c k - area c n"
      using sp(1,2) \<open>unat n < unat k\<close> by (auto simp: area_bounds)
    moreover have "area c n \<inter> free_area bs = {}" using later \<open>unat n < unat k\<close> by (fastforce simp: area_bounds)
    ultimately show ?thesis using ok sp by (auto simp: b)
  next
    case 3
    then obtain bs1 where f: "first_fit n bs = Some (a, bs1)" "bs' = (c, k) # bs1"
      using Cons.prems(1) by (auto simp: b split: if_splits)
    from Cons.IH [OF f(1) ok(5)]
    have IH: "blocks_ok (unat c + unat k) bs1 hi" "area a n \<subseteq> free_area bs" "free_area bs1 = free_area bs - area a n"
      "free_total bs1 + unat n = free_total bs" "a \<noteq> NULL" by auto
    moreover have "area c k \<inter> area a n = {}" using IH(2) later by (fastforce simp: area_bounds)
    ultimately show ?thesis using ok f(2) by (auto simp: b)
  qed
qed

lemma first_fit_none: "first_fit n bs = None \<longleftrightarrow> (\<forall>(a, k) \<in> set bs. k < n)"
proof (induction bs)
  case Nil
  then show ?case by simp
next
  case (Cons b bs)
  obtain a k where b: "b = (a, k)" by (cases b)
  consider "k = n" | "n < k" | "k < n" by (metis linorder_cases)
  then show ?case by cases (use Cons in \<open>auto simp: b\<close>)
qed

text \<open>
  The search from the node \<open>prev\<close>, whose next pointer is \<open>cur\<close>: it carries out \<open>first_fit\<close>
  on the blocks from \<open>cur\<close> on, and writes only the pointer in \<open>prev\<close>, words of those blocks
  and the total in the head.
\<close>

lemma getmem_loop_ok:
  assumes "chain m (mnext prev m) bs" "blocks_ok lo bs hi" "hi < 4294967296" "good_size n"
    "prev \<notin> free_area bs" "memlist m + 4 \<notin> free_area bs" "prev \<noteq> memlist m + 4"
    "memlist m \<notin> free_area bs"
  shows "case first_fit n bs of
      None \<Rightarrow> getmem_loop n prev (mnext prev m) m = Some (ADDR_SYSERR, m)
    | Some (a, bs') \<Rightarrow> \<exists>m'. getmem_loop n prev (mnext prev m) m = Some (a, m') \<and>
        chain m' (mnext prev m') bs' \<and> mlength (memlist m) m' = mlength (memlist m) m - n \<and>
        only_changed ({prev, memlist m + 4} \<union> free_area bs) m m'"
  using assms(1,2,5-8)
proof (induction bs arbitrary: prev lo)
  case Nil
  then show ?case by (subst getmem_loop.simps) simp
next
  case (Cons b bs)
  obtain c k where b: "b = (c, k)" by (cases b)
  have ok: "lo < unat c" "8 \<le> unat k" "8 dvd unat k" "unat c + unat k \<le> hi" "blocks_ok (unat c + unat k) bs hi"
    using Cons.prems(2) by (auto simp: b)
  have ck: "unat c + unat k < 4294967296" using ok(4) assms(3) by simp
  have ch: "mnext prev m = c" "c \<noteq> NULL" "mlength c m = k" "chain m (mnext c m) bs"
    using Cons.prems(1) by (auto simp: b)
  have cc: "c \<in> area c k" "c + 4 \<in> area c k" "c + 4 \<noteq> c" using area_cells [OF ck ok(2)] .
  have pv: "prev \<notin> area c k" "prev \<notin> free_area bs" "memlist m + 4 \<notin> area c k" "memlist m + 4 \<notin> free_area bs"
    "memlist m \<notin> free_area bs"
    using Cons.prems(3,4,6) by (auto simp: b)
  have later: "unat c + unat k < unat x" if "x \<in> free_area bs" for x
    using free_area_bounds [OF ok(5) that] by simp
  have dj: "area c k \<inter> free_area bs = {}" using later by (fastforce simp: area_bounds)
  let ?h = "memlist m"
  consider "k = n" | "n < k" | "k < n" by (metis linorder_cases)
  then show ?case
  proof cases
    case 1
    let ?m = "set_mlength ?h (mlength ?h m - n) (set_mnext prev (mnext c m) m)"
    have oc: "only_changed ({prev, ?h + 4} \<union> area c k) m ?m"
      by (rule only_changed_trans [OF only_changed_set_mnext only_changed_set_mlength]) auto
    have fr: "word_at ?m x = word_at m x" if "x \<in> free_area bs" for x
      by (rule only_changedD(1) [OF oc]) (use that dj pv in auto)
    have "chain ?m (mnext c m) bs" by (rule chain_frame [OF ch(4) ok(5) assms(3) fr])
    moreover have "mnext prev ?m = mnext c m" "mlength ?h ?m = mlength ?h m - n"
      using Cons.prems(5) by (simp_all add: mnext_def mlength_def)
    moreover have "getmem_loop n prev (mnext prev m) m = Some (c, ?m)"
      using ch 1 Cons.prems(5) by (subst getmem_loop.simps) (simp add: Let_def mlength_def)
    ultimately show ?thesis using 1 only_changed_mono [OF oc] by (auto simp: b)
  next
    case 2
    note sp = split_block [OF 2 assms(4) ok(3) ck]
    let ?l = "c + n"
    have l: "?l \<in> area c k" "?l + 4 \<in> area c k"
      using area_cells [of ?l "k - n"] sp 2 ok(4) ck by (auto simp: area_bounds word_less_nat_alt)
    let ?m1 = "set_mnext ?l (mnext c m) (set_mnext prev ?l m)"
    let ?m2 = "set_mlength ?l (k - n) ?m1"
    let ?m = "set_mlength ?h (mlength ?h m - n) ?m2"
    have "c \<noteq> ?l" using assms(4) by (auto simp: good_size_def)
    have c4: "c + 4 \<noteq> ?l"
      using sp(1) unat_add4 [OF ck ok(2)] good_size_ge [OF assms(4)] by (auto dest: arg_cong [where f = unat])
    have ne: "prev \<noteq> ?l" "prev \<noteq> ?l + 4" "?h + 4 \<noteq> ?l" "?h + 4 \<noteq> ?l + 4" "?l + 4 \<noteq> ?l"
      using l pv by auto
    have oc: "only_changed ({prev, ?h + 4} \<union> area c k) m ?m"
      by (intro only_changed_trans [OF only_changed_set_mnext only_changed_trans [OF only_changed_set_mnext
            only_changed_trans [OF only_changed_set_mlength only_changed_set_mlength]]]) (use l in auto)
    have fr: "word_at ?m x = word_at m x" if "x \<in> free_area bs" for x
      by (rule only_changedD(1) [OF oc]) (use that dj pv in auto)
    have "chain ?m (mnext c m) bs" by (rule chain_frame [OF ch(4) ok(5) assms(3) fr])
    moreover have "mnext prev ?m = ?l" "mnext ?l ?m = mnext c m" "mlength ?l ?m = k - n" "mlength ?h ?m = mlength ?h m - n"
      using ne Cons.prems(5) by (simp_all add: mnext_def mlength_def)
    moreover have "?l \<noteq> NULL" using sp(1) ok(1) by (metis add_is_0 not_less0 unat_0)
    moreover have "getmem_loop n prev (mnext prev m) m = Some (c, ?m)"
    proof -
      have "mnext c (set_mnext prev ?l m) = mnext c m" "mlength c ?m1 = k" "mlength ?h ?m2 = mlength ?h m"
        using ne pv cc l \<open>c \<noteq> ?l\<close> c4 Cons.prems(5) ch(3) by (auto simp: mnext_def mlength_def)
      then show ?thesis
        using ch 2 by (subst getmem_loop.simps) (simp add: Let_def)
    qed
    ultimately show ?thesis using 2 only_changed_mono [OF oc] by (auto simp: b)
  next
    case 3
    then have kn: "k \<noteq> n" "\<not> n < k" by auto
    have IH: "case first_fit n bs of
        None \<Rightarrow> getmem_loop n c (mnext c m) m = Some (ADDR_SYSERR, m)
      | Some (a, bs') \<Rightarrow> \<exists>m'. getmem_loop n c (mnext c m) m = Some (a, m') \<and>
          chain m' (mnext c m') bs' \<and> mlength ?h m' = mlength ?h m - n \<and>
          only_changed ({c, ?h + 4} \<union> free_area bs) m m'"
      by (rule Cons.IH [OF ch(4) ok(5)]) (use cc dj pv in auto)
    have e: "getmem_loop n prev (mnext prev m) m = getmem_loop n c (mnext c m) m"
      using ch kn by (subst getmem_loop.simps) simp
    show ?thesis
    proof (cases "first_fit n bs")
      case None
      then show ?thesis using IH e kn by (simp add: b)
    next
      case (Some r)
      obtain a bs1 where r: "r = (a, bs1)" by (cases r)
      obtain m' where m': "getmem_loop n c (mnext c m) m = Some (a, m')" "chain m' (mnext c m') bs1"
        "mlength ?h m' = mlength ?h m - n" "only_changed ({c, ?h + 4} \<union> free_area bs) m m'"
        using IH Some r by auto
      have "prev \<notin> {c, ?h + 4} \<union> free_area bs" "c + 4 \<notin> {c, ?h + 4} \<union> free_area bs"
        using pv cc dj Cons.prems(5) by auto
      then have "mnext prev m' = c" "mlength c m' = k"
        using only_changedD(1) [OF m'(4)] ch(1,3) by (simp_all add: mnext_def mlength_def)
      moreover have "only_changed ({prev, ?h + 4} \<union> free_area (b # bs)) m m'"
        by (rule only_changed_mono [OF m'(4)]) (use cc in \<open>auto simp: b\<close>)
      ultimately show ?thesis using m' e ch(2) kn Some r by (auto simp: b)
    qed
  qed
qed

subsection \<open>The heap\<close>

definition heap :: "'z memory_scheme \<Rightarrow> (u32 \<times> u32) list \<Rightarrow> bool" where
  "heap m bs \<longleftrightarrow> chain m (mnext (memlist m) m) bs \<and>
     blocks_ok (unat (minheap m) - 1) bs (unat (maxheap m)) \<and>
     0 < unat (memlist m) \<and> unat (memlist m) + 8 \<le> unat (minheap m) \<and>
     unat (mlength (memlist m) m) = free_total bs"

lemma chain_unique: "chain m p bs \<Longrightarrow> chain m p cs \<Longrightarrow> bs = cs"
proof (induction bs arbitrary: p cs)
  case Nil
  then show ?case by (cases cs) auto
next
  case (Cons b bs)
  obtain a k where b: "b = (a, k)" by (cases b)
  obtain cs' where "cs = (a, k) # cs'" using Cons.prems by (cases cs) (auto simp: b)
  then show ?case using Cons by (auto simp: b)
qed

lemma heap_unique: "heap m bs \<Longrightarrow> heap m cs \<Longrightarrow> bs = cs"
  unfolding heap_def using chain_unique by blast

lemma heapD:
  assumes "heap m bs"
  shows "chain m (mnext (memlist m) m) bs" "blocks_ok (unat (minheap m) - 1) bs (unat (maxheap m))"
    "unat (mlength (memlist m) m) = free_total bs" "memlist m \<noteq> NULL" "0 < unat (minheap m)"
    "memlist m \<notin> free_area bs" "memlist m + 4 \<notin> free_area bs" "memlist m + 4 \<noteq> memlist m"
    "unat (memlist m + 4) < unat (minheap m)" "unat (memlist m) < unat (minheap m)"
proof -
  show b: "blocks_ok (unat (minheap m) - 1) bs (unat (maxheap m))" and "chain m (mnext (memlist m) m) bs"
    and "unat (mlength (memlist m) m) = free_total bs" and "memlist m \<noteq> NULL"
    using assms by (auto simp: heap_def)
  have h: "unat (memlist m) + 8 \<le> unat (minheap m)" using assms by (simp add: heap_def)
  then show l: "unat (memlist m) < unat (minheap m)" by simp
  have "unat (memlist m + 4) = unat (memlist m) + 4"
    using h u32_max [of "minheap m"] unat_add_small [of "memlist m" 4] by simp
  then show l4: "unat (memlist m + 4) < unat (minheap m)" using h by simp
  show "memlist m + 4 \<noteq> memlist m" by simp
  show "0 < unat (minheap m)" using h by simp
  show "memlist m \<notin> free_area bs" "memlist m + 4 \<notin> free_area bs"
    using free_area_bounds [OF b, of "memlist m"] free_area_bounds [OF b, of "memlist m + 4"] l l4 by auto
qed

lemma heap_total_sub:
  assumes "unat (t :: u32) = T" "T' + unat n = T"
  shows "unat (t - n) = T'"
  using assms by (subst unat_sub) (auto simp: word_le_nat_alt)

lemma getmem_ok:
  assumes h: "heap m bs" and n: "nbytes \<noteq> 0" "unat nbytes \<le> 4294967288"
  shows "case first_fit (roundmb nbytes) bs of
      None \<Rightarrow> getmem nbytes m = Some (ADDR_SYSERR, m)
    | Some (a, bs') \<Rightarrow> \<exists>m'. getmem nbytes m = Some (a, m') \<and> heap m' bs' \<and>
        only_changed ({memlist m, memlist m + 4} \<union> free_area bs) m m'"
proof -
  note d = heapD [OF h]
  have g: "good_size (roundmb nbytes)" using roundmb_bounds [OF n(2,1)] by (auto simp: good_size_def)
  have e: "getmem nbytes m = getmem_loop (roundmb nbytes) (memlist m) (mnext (memlist m) m) m"
    using n(1) by (simp add: getmem_def)
  have L: "case first_fit (roundmb nbytes) bs of
      None \<Rightarrow> getmem_loop (roundmb nbytes) (memlist m) (mnext (memlist m) m) m = Some (ADDR_SYSERR, m)
    | Some (a, bs') \<Rightarrow> \<exists>m'. getmem_loop (roundmb nbytes) (memlist m) (mnext (memlist m) m) m = Some (a, m') \<and>
        chain m' (mnext (memlist m) m') bs' \<and> mlength (memlist m) m' = mlength (memlist m) m - roundmb nbytes \<and>
        only_changed ({memlist m, memlist m + 4} \<union> free_area bs) m m'"
    by (rule getmem_loop_ok [OF d(1,2) u32_max g d(6,7) _ d(6)]) (use d(8) in simp)
  show ?thesis
  proof (cases "first_fit (roundmb nbytes) bs")
    case None
    then show ?thesis using L e by simp
  next
    case (Some r)
    obtain a bs' where r: "r = (a, bs')" by (cases r)
    obtain m' where m': "getmem nbytes m = Some (a, m')" "chain m' (mnext (memlist m) m') bs'"
      "mlength (memlist m) m' = mlength (memlist m) m - roundmb nbytes"
      "only_changed ({memlist m, memlist m + 4} \<union> free_area bs) m m'"
      using L Some r e by auto
    note ff = first_fit_ok [OF Some [unfolded r] d(2) g u32_max]
    have "unat (mlength (memlist m) m - roundmb nbytes) = free_total bs'"
      using heap_total_sub [OF d(3), of "free_total bs'"] ff by simp
    then have "heap m' bs'"
      using m'(2,3) ff h only_changedD(2-4) [OF m'(4)] by (simp add: heap_def)
    then show ?thesis using m' Some r by auto
  qed
qed

subsection \<open>Stacks come from the top of the last block that is large enough\<close>

fun last_fit :: "u32 \<Rightarrow> (u32 \<times> u32) list \<Rightarrow> (u32 \<times> (u32 \<times> u32) list) option" where
  "last_fit n [] = None"
| "last_fit n ((a, k) # bs) =
     (case last_fit n bs of
        Some (r, bs') \<Rightarrow> Some (r, (a, k) # bs')
      | None \<Rightarrow> if k < n then None else if n = k then Some (a, bs) else Some (a + (k - n), (a, k - n) # bs))"

fun stk_scan :: "u32 \<Rightarrow> u32 \<Rightarrow> (u32 \<times> u32) list \<Rightarrow> u32 \<Rightarrow> u32 \<Rightarrow> u32 \<times> u32" where
  "stk_scan n prev [] f fp = (f, fp)"
| "stk_scan n prev ((a, k) # bs) f fp = (if n \<le> k then stk_scan n a bs a prev else stk_scan n a bs f fp)"

lemma getstk_loop_scan:
  "chain m (mnext prev m) bs \<Longrightarrow> getstk_loop n prev (mnext prev m) f fp m = Some (stk_scan n prev bs f fp)"
proof (induction bs arbitrary: prev f fp)
  case Nil
  then show ?case by (subst getstk_loop.simps) simp
next
  case (Cons b bs)
  then show ?case by (cases b) (subst getstk_loop.simps, auto)
qed

definition stk_take :: "u32 \<Rightarrow> u32 \<Rightarrow> u32 \<Rightarrow> 'z memory_scheme \<Rightarrow> u32 \<times> 'z memory_scheme" where
  "stk_take n f fp m =
     (if n = mlength f m then (f, set_mnext fp (mnext f m) m)
      else let m = set_mlength f (mlength f m - n) m in (f + mlength f m, m))"

lemma stk_scan_ok:
  assumes "chain m (mnext prev m) bs" "blocks_ok lo bs hi" "hi < 4294967296" "prev \<notin> free_area bs"
  shows "case last_fit n bs of
      None \<Rightarrow> stk_scan n prev bs f fp = (f, fp)
    | Some (r, bs') \<Rightarrow> (case stk_scan n prev bs f fp of (g, gp) \<Rightarrow> g \<noteq> NULL \<and>
        (\<exists>m'. stk_take n g gp m = (r, m') \<and> chain m' (mnext prev m') bs' \<and>
          only_changed ({prev} \<union> free_area bs) m m'))"
  using assms(1,2,4)
proof (induction bs arbitrary: prev lo f fp)
  case Nil
  then show ?case by simp
next
  case (Cons b bs)
  obtain a k where b: "b = (a, k)" by (cases b)
  have ok: "lo < unat a" "8 \<le> unat k" "unat a + unat k \<le> hi" "blocks_ok (unat a + unat k) bs hi"
    using Cons.prems(2) by (auto simp: b)
  have ak: "unat a + unat k < 4294967296" using ok(3) assms(3) by simp
  have ch: "mnext prev m = a" "a \<noteq> NULL" "mlength a m = k" "chain m (mnext a m) bs"
    using Cons.prems(1) by (auto simp: b)
  have cc: "a \<in> area a k" "a + 4 \<in> area a k" "a + 4 \<noteq> a" using area_cells [OF ak ok(2)] .
  have dj: "area a k \<inter> free_area bs = {}" using free_area_bounds [OF ok(4)] by (fastforce simp: area_bounds)
  have pv: "prev \<notin> area a k" "prev \<notin> free_area bs" using Cons.prems(3) by (auto simp: b)
  have an: "a \<notin> free_area bs" using cc dj by blast
  show ?case
  proof (cases "last_fit n bs")
    case (Some q)
    obtain r bs1 where q: "q = (r, bs1)" by (cases q)
    have IH: "case stk_scan n a bs f' fp' of (g, gp) \<Rightarrow> g \<noteq> NULL \<and>
        (\<exists>m'. stk_take n g gp m = (r, m') \<and> chain m' (mnext a m') bs1 \<and>
          only_changed ({a} \<union> free_area bs) m m')" for f' fp'
      using Cons.IH [OF ch(4) ok(4) an, of f' fp'] Some q by simp
    have st: "chain m' (mnext prev m') ((a, k) # bs1) \<and> only_changed ({prev} \<union> free_area (b # bs)) m m'"
      if "chain m' (mnext a m') bs1" "only_changed ({a} \<union> free_area bs) m m'" for m'
    proof -
      have "prev \<notin> {a} \<union> free_area bs" "a + 4 \<notin> {a} \<union> free_area bs" using pv cc dj by auto
      then have "mnext prev m' = a" "mlength a m' = k"
        using only_changedD(1) [OF that(2)] ch(1,3) by (simp_all add: mnext_def mlength_def)
      moreover have "only_changed ({prev} \<union> free_area (b # bs)) m m'"
        by (rule only_changed_mono [OF that(2)]) (use cc in \<open>auto simp: b\<close>)
      ultimately show ?thesis using that(1) ch(2) by simp
    qed
    obtain g gp f' fp' where g: "stk_scan n prev (b # bs) f fp = (g, gp)" "stk_scan n a bs f' fp' = (g, gp)"
      by (cases "stk_scan n prev (b # bs) f fp") (auto simp: b split: if_splits)
    obtain m' where m': "g \<noteq> NULL" "stk_take n g gp m = (r, m')" "chain m' (mnext a m') bs1"
      "only_changed ({a} \<union> free_area bs) m m'"
      using IH [of f' fp'] g(2) by auto
    have "last_fit n (b # bs) = Some (r, (a, k) # bs1)" using Some q by (simp add: b)
    then show ?thesis using g(1) m'(1,2) st [OF m'(3,4)] by auto
  next
    case None
    have IH: "stk_scan n a bs f' fp' = (f', fp')" for f' fp'
      using Cons.IH [OF ch(4) ok(4) an, of f' fp'] None by simp
    consider "k < n" | "k = n" | "n < k" by (metis linorder_cases)
    then show ?thesis
    proof cases
      case 1
      then have "\<not> n \<le> k" by simp
      then show ?thesis using None IH 1 by (simp add: b)
    next
      case 2
      let ?m = "set_mnext prev (mnext a m) m"
      have oc: "only_changed {prev} m ?m" by (rule only_changed_set_mnext) simp
      have "chain ?m (mnext a m) bs"
        by (rule chain_frame [OF ch(4) ok(4) assms(3)]) (use pv in auto)
      then show ?thesis
        using 2 None IH ch only_changed_mono [OF oc]
        by (auto simp: b stk_take_def mnext_def [of prev "set_mnext _ _ _"])
    next
      case 3
      let ?m = "set_mlength a (k - n) m"
      have oc: "only_changed (area a k) m ?m" by (rule only_changed_set_mlength) (rule cc(2))
      have fr: "word_at ?m x = word_at m x" if "x \<in> free_area bs" for x
        by (rule only_changedD(1) [OF oc]) (use that dj in auto)
      have "chain ?m (mnext a m) bs" by (rule chain_frame [OF ch(4) ok(4) assms(3) fr])
      moreover have f: "mnext prev ?m = a" "mnext a ?m = mnext a m" "mlength a ?m = k - n"
        using ch(1) pv cc by (auto simp: mnext_def mlength_def)
      ultimately have c: "chain ?m (mnext prev ?m) ((a, k - n) # bs)" using ch(2) by simp
      have kn: "\<not> k < n" "n \<noteq> k" "n \<le> k" using 3 by auto
      have "last_fit n (b # bs) = Some (a + (k - n), (a, k - n) # bs)" "stk_scan n prev (b # bs) f fp = (a, prev)"
        using None IH kn by (simp_all add: b)
      moreover have "stk_take n a prev m = (a + (k - n), ?m)" using kn ch(3) f(3) by (simp add: stk_take_def)
      moreover have "only_changed ({prev} \<union> free_area (b # bs)) m ?m"
        by (rule only_changed_mono [OF oc]) (auto simp: b)
      ultimately show ?thesis using c ch(2) by auto
    qed
  qed
qed

lemma last_fit_ok:
  assumes "last_fit n bs = Some (a, bs')" "blocks_ok lo bs hi" "good_size n" "hi < 4294967296"
  shows "blocks_ok lo bs' hi \<and> area a n \<subseteq> free_area bs \<and> free_area bs' = free_area bs - area a n \<and>
    free_total bs' + unat n = free_total bs \<and> a \<noteq> NULL \<and> lo < unat a \<and> unat a + unat n \<le> hi"
  using assms(1,2)
proof (induction bs arbitrary: lo bs')
  case Nil
  then show ?case by simp
next
  case (Cons b bs)
  obtain c k where b: "b = (c, k)" by (cases b)
  have ok: "lo < unat c" "8 \<le> unat k" "8 dvd unat k" "unat c + unat k \<le> hi" "blocks_ok (unat c + unat k) bs hi"
    using Cons.prems(2) by (auto simp: b)
  have later: "unat c + unat k < unat x" if "x \<in> free_area bs" for x
    using free_area_bounds [OF ok(5) that] by simp
  show ?case
  proof (cases "last_fit n bs")
    case (Some q)
    then obtain bs1 where f: "last_fit n bs = Some (a, bs1)" "bs' = (c, k) # bs1"
      using Cons.prems(1) by (cases q) (auto simp: b)
    from Cons.IH [OF f(1) ok(5)]
    have IH: "blocks_ok (unat c + unat k) bs1 hi" "area a n \<subseteq> free_area bs" "free_area bs1 = free_area bs - area a n"
      "free_total bs1 + unat n = free_total bs" "a \<noteq> NULL" "unat c + unat k < unat a" "unat a + unat n \<le> hi" by auto
    moreover have "area c k \<inter> area a n = {}" using IH(2) later by (fastforce simp: area_bounds)
    ultimately show ?thesis using ok f(2) by (auto simp: b)
  next
    case None
    consider "k = n" | "n < k" | "k < n" by (metis linorder_cases)
    then show ?thesis
    proof cases
      case 1
      then have "a = c" "bs' = bs" using Cons.prems(1) None by (auto simp: b)
      then show ?thesis using ok later 1 by (fastforce simp: b area_bounds intro: blocks_ok_mono)
    next
      case 2
      have ck: "unat c + unat k < 4294967296" using ok(4) assms(4) by simp
      note sp = split_block [OF 2 assms(3) ok(3) ck]
      have nk: "unat n < unat k" using 2 by (simp add: word_less_nat_alt)
      have a: "a = c + (k - n)" "bs' = (c, k - n) # bs" using Cons.prems(1) 2 None by (auto simp: b split: if_splits)
      have ua: "unat a = unat c + (unat k - unat n)"
        using unat_add_small [of c "k - n"] sp(2) ck nk by (simp add: a)
      have "area a n \<subseteq> area c k" "area c (k - n) = area c k - area a n"
        using sp(2) ua nk by (auto simp: area_bounds)
      moreover have "area a n \<inter> free_area bs = {}" using later ua nk by (fastforce simp: area_bounds)
      moreover have "blocks_ok lo bs' hi"
        using ok sp a nk by (auto intro: blocks_ok_mono)
      moreover have "a \<noteq> NULL" using ua ok(1) by (metis add_is_0 not_less0 unat_0)
      ultimately show ?thesis using ok sp(2) ua nk by (auto simp: b a)
    next
      case 3
      then show ?thesis using Cons.prems(1) None by (auto simp: b split: if_splits)
    qed
  qed
qed

lemma getstk_ok:
  assumes h: "heap m bs" and n: "nbytes \<noteq> 0" "unat nbytes \<le> 4294967288"
  shows "case last_fit (roundmb nbytes) bs of
      None \<Rightarrow> getstk nbytes m = Some (ADDR_SYSERR, m)
    | Some (a, bs') \<Rightarrow> \<exists>m'. getstk nbytes m = Some (a + roundmb nbytes - 4, m') \<and> heap m' bs' \<and>
        only_changed ({memlist m, memlist m + 4} \<union> free_area bs) m m'"
proof -
  let ?n = "roundmb nbytes" and ?h = "memlist m"
  note d = heapD [OF h]
  have g: "good_size ?n" using roundmb_bounds [OF n(2,1)] by (auto simp: good_size_def)
  obtain f fp where sc: "stk_scan ?n ?h bs NULL NULL = (f, fp)" by (cases "stk_scan ?n ?h bs NULL NULL")
  have lp: "getstk_loop ?n ?h (mnext ?h m) NULL NULL m = Some (f, fp)"
    using getstk_loop_scan [OF d(1), of ?n NULL NULL] sc by simp
  have S: "case last_fit ?n bs of
      None \<Rightarrow> (f, fp) = (NULL, NULL)
    | Some (r, bs') \<Rightarrow> f \<noteq> NULL \<and> (\<exists>m'. stk_take ?n f fp m = (r, m') \<and> chain m' (mnext ?h m') bs' \<and>
          only_changed ({?h} \<union> free_area bs) m m')"
    using stk_scan_ok [OF d(1,2) u32_max d(6), of ?n NULL NULL] unfolding sc by (auto split: option.splits)
  show ?thesis
  proof (cases "last_fit ?n bs")
    case None
    then show ?thesis using S lp n(1) by (simp add: getstk_def)
  next
    case (Some q)
    obtain a bs' where q: "q = (a, bs')" by (cases q)
    obtain m1 where m1: "f \<noteq> NULL" "stk_take ?n f fp m = (a, m1)" "chain m1 (mnext ?h m1) bs'"
      "only_changed ({?h} \<union> free_area bs) m m1"
      using S Some q by auto
    let ?m = "set_mlength ?h (mlength ?h m - ?n) m1"
    have ml: "mlength ?h m1 = mlength ?h m" "memlist m1 = ?h"
      using only_changedD(1,2) [OF m1(4)] d(6-8) by (simp_all add: mlength_def)
    have e: "getstk nbytes m = Some (a + ?n - 4, ?m)"
      using n(1) lp m1(1,2) ml by (simp add: getstk_def stk_take_def Let_def split: if_splits)
    have oc: "only_changed ({?h, ?h + 4} \<union> free_area bs) m ?m"
      by (rule only_changed_trans [OF only_changed_mono [OF m1(4)] only_changed_set_mlength]) auto
    note lf = last_fit_ok [OF Some [unfolded q] d(2) g u32_max]
    have fr: "word_at ?m x = word_at m1 x" if "x \<in> free_area bs'" for x
      using that lf d(7) by auto
    have "chain ?m (mnext ?h m1) bs'"
      by (rule chain_frame [OF m1(3) _ u32_max fr]) (use lf in auto)
    moreover have "mnext ?h ?m = mnext ?h m1" using d(8) by (simp add: mnext_def)
    moreover have "unat (mlength ?h ?m) = free_total bs'"
      using heap_total_sub [OF d(3), of "free_total bs'"] lf by (simp add: mlength_def)
    ultimately have "heap ?m bs'"
      using lf h only_changedD(2-4) [OF oc] by (simp add: heap_def)
    then show ?thesis using e oc Some q by auto
  qed
qed

subsection \<open>Freeing\<close>

text \<open>The free list after block \<open>a\<close> of \<open>n\<close> bytes has been put back.\<close>

fun join_next :: "u32 \<Rightarrow> u32 \<Rightarrow> (u32 \<times> u32) list \<Rightarrow> (u32 \<times> u32) list" where
  "join_next a n [] = [(a, n)]"
| "join_next a n ((c, k) # bs) = (if a + n = c then (a, n + k) # bs else (a, n) # (c, k) # bs)"

fun free_block :: "u32 \<Rightarrow> u32 \<Rightarrow> (u32 \<times> u32) list \<Rightarrow> (u32 \<times> u32) list" where
  "free_block a n [] = [(a, n)]"
| "free_block a n ((c, k) # bs) =
     (if c < a then (if c + k = a then join_next c (k + n) bs else (c, k) # free_block a n bs)
      else join_next a n ((c, k) # bs))"

text \<open>What \<open>freemem\<close> does once the search has found the neighbours and the checks have passed.\<close>

definition relink :: "u32 \<Rightarrow> u32 \<Rightarrow> u32 \<Rightarrow> u32 \<Rightarrow> u32 \<Rightarrow> 'z memory_scheme \<Rightarrow> 'z memory_scheme" where
  "relink block n prev next ptop m =
     (let (block, m) =
            (if ptop = block then (prev, set_mlength prev (mlength prev m + n) m)
             else
               let m = set_mnext block next m; m = set_mlength block n m; m = set_mnext prev block m
               in (block, m))
      in if block + mlength block m = next
         then
           let m = set_mlength block (mlength block m + mlength next m) m
           in set_mnext block (mnext next m) m
         else m)"

lemma freemem_relink:
  assumes "nbytes \<noteq> 0" "minheap m \<le> a" "a \<le> maxheap m"
    and "freemem_loop a (memlist m) (mnext (memlist m) m) m = Some (prev, next)"
    and "ptop = (if prev = memlist m then 0 else prev + mlength prev m)"
    and "\<not> (prev \<noteq> memlist m \<and> a < ptop)" "\<not> (next \<noteq> NULL \<and> a + roundmb nbytes > next)"
  shows "freemem a nbytes m = Some (OK, relink a (roundmb nbytes) prev next ptop
      (set_mlength (memlist m) (mlength (memlist m) m + roundmb nbytes) m))"
proof -
  have "\<not> a < minheap m" "\<not> maxheap m < a" using assms(2,3) by auto
  then show ?thesis using assms(1,4-7) unfolding freemem_def relink_def
    by (cases "prev = memlist m") (simp_all add: Let_def split_beta)
qed

lemma join_next_ok:
  assumes "blocks_ok (unat a + unat n - 1) bs hi" "lo < unat a" "good_size n" "unat a + unat n \<le> hi" "hi < 4294967296"
  shows "blocks_ok lo (join_next a n bs) hi \<and> free_area (join_next a n bs) = area a n \<union> free_area bs \<and>
    free_total (join_next a n bs) = unat n + free_total bs"
proof (cases bs)
  case Nil
  then show ?thesis using assms good_size_ge by (auto simp: good_size_def)
next
  case (Cons b cs)
  obtain c k where b: "b = (c, k)" by (cases b)
  have ok: "unat a + unat n - 1 < unat c" "8 \<le> unat k" "8 dvd unat k" "unat c + unat k \<le> hi" "blocks_ok (unat c + unat k) cs hi"
    using assms(1) by (auto simp: Cons b)
  have n: "8 \<le> unat n" "8 dvd unat n" using assms(3) good_size_ge by (auto simp: good_size_def)
  have an: "unat (a + n) = unat a + unat n" using assms(4,5) by (intro unat_add_small) simp
  show ?thesis
  proof (cases "a + n = c")
    case True
    then have c: "unat c = unat a + unat n" using an by simp
    have nk: "unat (n + k) = unat n + unat k" using c ok(4) assms(5) by (intro unat_add_small) simp
    have "area a (n + k) = area a n \<union> area c k" using c nk by (auto simp: area_bounds)
    then show ?thesis using True ok n c nk assms(2) by (auto simp: Cons b add.assoc)
  next
    case False
    then have "unat c \<noteq> unat a + unat n" using an by (metis word_unat_eq_iff)
    then show ?thesis using False ok n assms(2,4) by (auto simp: Cons b)
  qed
qed

lemma free_block_ok:
  assumes "blocks_ok lo bs hi" "lo < unat a" "good_size n" "unat a + unat n \<le> hi" "hi < 4294967296"
    and "area a n \<inter> free_area bs = {}"
  shows "blocks_ok lo (free_block a n bs) hi \<and> free_area (free_block a n bs) = area a n \<union> free_area bs \<and>
    free_total (free_block a n bs) = unat n + free_total bs"
  using assms(1,2,6)
proof (induction bs arbitrary: lo)
  case Nil
  then show ?case using assms(3,4) good_size_ge by (auto simp: good_size_def)
next
  case (Cons b bs)
  obtain c k where b: "b = (c, k)" by (cases b)
  have ok: "lo < unat c" "8 \<le> unat k" "8 dvd unat k" "unat c + unat k \<le> hi" "blocks_ok (unat c + unat k) bs hi"
    using Cons.prems(1) by (auto simp: b)
  have n: "8 \<le> unat n" "8 dvd unat n" using assms(3) good_size_ge by (auto simp: good_size_def)
  have dj: "area a n \<inter> area c k = {}" "area a n \<inter> free_area bs = {}" using Cons.prems(3) by (auto simp: b)
  have am: "a \<in> area a n" "c \<in> area c k" using n(1) ok(2) by (auto simp: area_bounds)
  have ck: "unat (c + k) = unat c + unat k" using ok(4) assms(5) by (intro unat_add_small) simp
  show ?case
  proof (cases "c < a")
    case False
    then have ca: "unat a \<le> unat c" by (simp add: word_less_nat_alt)
    then have "unat a + unat n \<le> unat c"
      using dj(1) am(2) by (auto simp: area_bounds disjoint_iff)
    then have "blocks_ok (unat a + unat n - 1) (b # bs) hi" using ok n(1) by (simp add: b)
    from join_next_ok [OF this Cons.prems(2) assms(3-5)] show ?thesis using False by (simp add: b)
  next
    case True
    then have ca: "unat c < unat a" by (simp add: word_less_nat_alt)
    then have ge: "unat c + unat k \<le> unat a"
      using dj(1) am(1) by (auto simp: area_bounds disjoint_iff)
    show ?thesis
    proof (cases "c + k = a")
      case eq: True
      have kn: "unat (k + n) = unat k + unat n" using eq ck assms(4,5) by (intro unat_add_small) simp
      have ar: "area c (k + n) = area c k \<union> area a n" using eq ck kn by (auto simp: area_bounds)
      have "blocks_ok (unat c + unat (k + n) - 1) bs hi"
      proof (cases bs)
        case Nil
        then show ?thesis by simp
      next
        case (Cons d ds)
        obtain e j where d: "d = (e, j)" by (cases d)
        have "unat c + unat k < unat e" "e \<in> free_area bs"
          using ok(5) by (auto simp: Cons d area_bounds)
        then have "e \<notin> area a n" "unat a \<le> unat e" using dj(2) eq ck by auto
        then have "unat a + unat n \<le> unat e" by (simp add: area_bounds)
        then show ?thesis using ok(5) eq ck kn n(1) by (auto simp: Cons d)
      qed
      moreover have "good_size (k + n)" using kn ok(2,3) n by (auto simp: good_size_def simp flip: unat_gt_0)
      ultimately have "blocks_ok lo (join_next c (k + n) bs) hi \<and>
          free_area (join_next c (k + n) bs) = area c (k + n) \<union> free_area bs \<and>
          free_total (join_next c (k + n) bs) = unat (k + n) + free_total bs"
        using ok(1) assms(4,5) eq ck kn by (intro join_next_ok) auto
      then show ?thesis using True eq ar kn by (auto simp: b)
    next
      case False
      then have "unat c + unat k \<noteq> unat a" using ck by (metis word_unat_eq_iff)
      then have "unat c + unat k < unat a" using ge by simp
      from Cons.IH [OF ok(5) this dj(2)] show ?thesis using True False ok by (auto simp: b)
    qed
  qed
qed

fun free_pos :: "u32 \<Rightarrow> u32 \<Rightarrow> (u32 \<times> u32) list \<Rightarrow> u32 \<times> u32" where
  "free_pos a p [] = (p, NULL)"
| "free_pos a p ((c, k) # bs) = (if c < a then free_pos a c bs else (p, c))"

lemma freemem_loop_pos:
  "chain m (mnext p m) bs \<Longrightarrow> freemem_loop a p (mnext p m) m = Some (free_pos a p bs)"
proof (induction bs arbitrary: p)
  case Nil
  then show ?case by (subst freemem_loop.simps) simp
next
  case (Cons b bs)
  then show ?case by (cases b) (subst freemem_loop.simps, auto)
qed

definition join_mem :: "u32 \<Rightarrow> u32 \<Rightarrow> 'z memory_scheme \<Rightarrow> 'z memory_scheme" where
  "join_mem a q m =
     (if a + mlength a m = q
      then let m = set_mlength a (mlength a m + mlength q m) m in set_mnext a (mnext q m) m
      else m)"

lemma relink_join:
  "relink a n p q ptop m =
     (if ptop = a then join_mem p q (set_mlength p (mlength p m + n) m)
      else join_mem a q (set_mnext p a (set_mlength a n (set_mnext a q m))))"
  by (simp add: relink_def join_mem_def Let_def)

lemma join_mem_ok:
  assumes c: "chain m q bs" and a: "mnext a m = q" "mlength a m = n" "a \<noteq> NULL"
    and ok: "blocks_ok (unat a + unat n - 1) bs hi" "good_size n" "unat a + unat n \<le> hi" "hi < 4294967296"
  shows "chain (join_mem a q m) a (join_next a n bs) \<and> only_changed (area a n) m (join_mem a q m)"
proof -
  have an: "unat (a + n) = unat a + unat n" using ok(3,4) by (intro unat_add_small) simp
  have n8: "8 \<le> unat n" using good_size_ge [OF ok(2)] .
  have an4: "unat a + unat n < 4294967296" using ok(3,4) by simp
  have aa: "a \<in> area a n" "a + 4 \<in> area a n" "a + 4 \<noteq> a" using area_cells [OF an4 n8] .
  show ?thesis
  proof (cases bs)
    case Nil
    have "a + n \<noteq> NULL" using an n8 by (metis add_is_0 not_numeral_le_zero unat_0)
    then have "join_mem a q m = m" using c a Nil by (simp add: join_mem_def)
    then show ?thesis using c a Nil only_changed_refl by simp
  next
    case (Cons b cs)
    obtain d k where b: "b = (d, k)" by (cases b)
    have q: "q = d" "d \<noteq> NULL" "mlength d m = k" "chain m (mnext d m) cs" using c by (auto simp: Cons b)
    have dk: "unat a + unat n - 1 < unat d" "8 \<le> unat k" "unat d + unat k \<le> hi" "blocks_ok (unat d + unat k) cs hi"
      using ok(1) by (auto simp: Cons b)
    show ?thesis
    proof (cases "a + n = d")
      case False
      then have "join_mem a q m = m" using a q by (simp add: join_mem_def)
      then show ?thesis using False c a only_changed_refl by (simp add: Cons b)
    next
      case True
      let ?m = "set_mnext a (mnext d m) (set_mlength a (n + k) m)"
      have "d \<noteq> a + 4" using True n8 an unat_add4 [OF an4 n8] by (auto dest: arg_cong [where f = unat])
      then have "mnext d (set_mlength a (n + k) m) = mnext d m" by (simp add: mnext_def)
      then have e: "join_mem a q m = ?m" using True a q by (simp add: join_mem_def)
      have oc: "only_changed (area a n) m ?m"
        by (rule only_changed_trans [OF only_changed_set_mlength only_changed_set_mnext]) (use aa in auto)
      have fr: "word_at ?m x = word_at m x" if "x \<in> free_area cs" for x
        by (rule only_changedD(1) [OF oc])
          (use that free_area_bounds [OF dk(4) that] dk(1) in \<open>auto simp: area_bounds\<close>)
      have "chain ?m (mnext d m) cs" by (rule chain_frame [OF q(4) dk(4) ok(4) fr])
      moreover have "mnext a ?m = mnext d m" "mlength a ?m = n + k" by (simp_all add: mnext_def mlength_def)
      ultimately show ?thesis using True a(3) e oc by (simp add: Cons b)
    qed
  qed
qed

lemma good_size_add:
  assumes "good_size n" "8 dvd unat k" "unat k + unat n < 4294967296"
  shows "good_size (k + n)" "unat (k + n) = unat k + unat n"
proof -
  show u: "unat (k + n) = unat k + unat n" using assms(3) by (rule unat_add_small)
  have "0 < unat (k + n)" "8 dvd unat (k + n)" using assms(1,2) good_size_ge [OF assms(1)] by (auto simp: u good_size_def)
  then show "good_size (k + n)" by (auto simp: good_size_def)
qed

text \<open>Block \<open>c\<close> is the last one below the block to be freed.\<close>

lemma relink_here:
  assumes c: "chain m (mnext c m) bs" "mlength c m = k" "c \<noteq> NULL" "a \<noteq> NULL"
    and ok: "8 \<le> unat k" "8 dvd unat k" "unat c + unat k \<le> unat a" "good_size n" "unat a + unat n \<le> hi" "hi < 4294967296"
    and bs: "blocks_ok (unat a + unat n - 1) bs hi"
  shows "chain (relink a n c (mnext c m) (c + k) m) c
      (if c + k = a then join_next c (k + n) bs else (c, k) # join_next a n bs) \<and>
    only_changed (area c k \<union> area a n) m (relink a n c (mnext c m) (c + k) m)"
proof -
  let ?q = "mnext c m"
  have ck4: "unat c + unat k < 4294967296" using ok by simp
  have n8: "8 \<le> unat n" using good_size_ge [OF ok(4)] .
  have an4: "unat a + unat n < 4294967296" using ok by simp
  have cc: "c \<in> area c k" "c + 4 \<in> area c k" "c + 4 \<noteq> c" using area_cells [OF ck4 ok(1)] .
  have aa: "a \<in> area a n" "a + 4 \<in> area a n" "a + 4 \<noteq> a" using area_cells [OF an4 n8] .
  have dj: "area c k \<inter> area a n = {}" using ok(3) by (auto simp: area_bounds)
  have later: "x \<notin> area c k \<union> area a n" if "x \<in> free_area bs" for x
    using free_area_bounds [OF bs that] ok(3) by (auto simp: area_bounds)
  have cu: "unat (c + k) = unat c + unat k" by (rule unat_add_small [OF ck4])
  show ?thesis
  proof (cases "c + k = a")
    case True
    let ?m = "set_mlength c (k + n) m"
    have ua: "unat a = unat c + unat k" using cu True by simp
    note kn = good_size_add [OF ok(4,2)]
    have kn4: "unat k + unat n < 4294967296" using ua an4 by simp
    have ar: "area c (k + n) = area c k \<union> area a n" using ua kn(2) [OF kn4] by (auto simp: area_bounds)
    have oc: "only_changed (area c k) m ?m" by (rule only_changed_set_mlength [OF cc(2)])
    have fr: "word_at ?m x = word_at m x" if "x \<in> free_area bs" for x
      by (rule only_changedD(1) [OF oc]) (use later [OF that] in auto)
    have ch: "chain ?m ?q bs" by (rule chain_frame [OF c(1) bs ok(6) fr])
    have "chain (join_mem c ?q ?m) c (join_next c (k + n) bs) \<and> only_changed (area c (k + n)) ?m (join_mem c ?q ?m)"
      by (rule join_mem_ok [OF ch _ _ c(3) _ kn(1) [OF kn4] _ ok(6)])
        (use cc ua kn(2) [OF kn4] bs ok(5) in \<open>auto simp: mnext_def mlength_def add.assoc\<close>)
    moreover have "relink a n c ?q (c + k) m = join_mem c ?q ?m" using True c(2) by (simp add: relink_join)
    ultimately show ?thesis
      using True only_changed_trans [OF only_changed_mono [OF oc]] unfolding ar by (auto 0 3)
  next
    case False
    let ?m = "set_mnext c a (set_mlength a n (set_mnext a ?q m))"
    have oc: "only_changed (area c k \<union> area a n) m ?m"
      by (intro only_changed_trans [OF only_changed_set_mnext only_changed_trans [OF only_changed_set_mlength
            only_changed_set_mnext]]) (use cc aa in auto)
    have fr: "word_at ?m x = word_at m x" if "x \<in> free_area bs" for x
      by (rule only_changedD(1) [OF oc]) (use later [OF that] in auto)
    have ch: "chain ?m ?q bs" by (rule chain_frame [OF c(1) bs ok(6) fr])
    have ne: "c \<noteq> a" "c \<noteq> a + 4" "c + 4 \<noteq> a" "c + 4 \<noteq> a + 4" using cc aa dj by auto
    have j: "chain (join_mem a ?q ?m) a (join_next a n bs) \<and> only_changed (area a n) ?m (join_mem a ?q ?m)"
      by (rule join_mem_ok [OF ch _ _ c(4) bs ok(4,5,6)]) (use ne aa in \<open>auto simp: mnext_def mlength_def\<close>)
    have "c \<notin> area a n" "c + 4 \<notin> area a n" using cc dj by auto
    then have "mnext c (join_mem a ?q ?m) = a" "mlength c (join_mem a ?q ?m) = k"
      using only_changedD(1) [OF conjunct2 [OF j]] ne cc c(2) by (auto simp: mnext_def mlength_def)
    moreover have "relink a n c ?q (c + k) m = join_mem a ?q ?m" using False by (simp add: relink_join)
    moreover have "only_changed (area c k \<union> area a n) m (join_mem a ?q ?m)"
      by (rule only_changed_trans [OF oc only_changed_mono [OF conjunct2 [OF j]]]) simp
    ultimately show ?thesis using False j c(3) by simp
  qed
qed

text \<open>The part of the free list from the node \<open>c\<close>, a real block below the block to be freed.\<close>

lemma relink_ok:
  assumes "chain m (mnext c m) bs" "mlength c m = k" "c \<noteq> NULL" "blocks_ok lo ((c, k) # bs) hi" "hi < 4294967296"
    and "c < a" "good_size n" "unat a + unat n \<le> hi" "area a n \<inter> (area c k \<union> free_area bs) = {}"
    and "free_pos a c bs = (p, q)"
  shows "chain (relink a n p q (p + mlength p m) m) c (free_block a n ((c, k) # bs)) \<and>
    only_changed (area c k \<union> free_area bs \<union> area a n) m (relink a n p q (p + mlength p m) m) \<and>
    \<not> a < p + mlength p m \<and> (q \<noteq> NULL \<longrightarrow> \<not> q < a + n) \<and> p \<in> area c k \<union> free_area bs"
  using assms(1-4,6,9,10)
proof (induction bs arbitrary: c k lo)
  case Nil
  note c = Nil
  have ok: "8 \<le> unat k" "8 dvd unat k" "unat c + unat k \<le> hi" using c(4) by auto
  have am: "a \<in> area a n" using good_size_ge [OF assms(7)] by (simp add: area_bounds)
  have ca: "unat c < unat a" using c(5) by (simp add: word_less_nat_alt)
  have "a \<notin> area c k" using c(6) am by auto
  then have ge: "unat c + unat k \<le> unat a" using ca by (simp add: area_bounds)
  have a0: "a \<noteq> NULL" using ca by auto
  have cu: "unat (c + k) = unat c + unat k" using ok(3) assms(5) by (intro unat_add_small) simp
  have pq: "p = c" "q = mnext c m" using c(1,7) by auto
  have "chain (relink a n c (mnext c m) (c + k) m) c
      (if c + k = a then join_next c (k + n) [] else (c, k) # join_next a n []) \<and>
    only_changed (area c k \<union> area a n) m (relink a n c (mnext c m) (c + k) m)"
    by (rule relink_here [OF c(1-3) a0 ok(1,2) ge assms(7,8,5)]) simp
  moreover have "\<not> a < c + k" using ge cu by (simp add: word_less_nat_alt)
  moreover have "c \<in> area c k" using ok(1) by (simp add: area_bounds)
  moreover have "mnext c m = NULL" using c(1) by simp
  ultimately show ?case using c(2,5) pq by (auto split: if_splits)
next
  case (Cons b bs)
  obtain d j where b: "b = (d, j)" by (cases b)
  note c = Cons.prems
  have ok: "8 \<le> unat k" "8 dvd unat k" "unat c + unat k \<le> hi" "blocks_ok (unat c + unat k) (b # bs) hi" using c(4) by auto
  have okd: "unat c + unat k < unat d" "8 \<le> unat j" "unat d + unat j \<le> hi" "blocks_ok (unat d + unat j) bs hi"
    using ok(4) by (auto simp: b)
  have am: "a \<in> area a n" "d \<in> area d j" "c \<in> area c k"
    using good_size_ge [OF assms(7)] okd(2) ok(1) by (auto simp: area_bounds)
  have ca: "unat c < unat a" using c(5) by (simp add: word_less_nat_alt)
  have "a \<notin> area c k" using c(6) am by auto
  then have ge: "unat c + unat k \<le> unat a" using ca by (simp add: area_bounds)
  have a0: "a \<noteq> NULL" using ca by auto
  have ck4: "unat c + unat k < 4294967296" using ok(3) assms(5) by simp
  have cu: "unat (c + k) = unat c + unat k" by (rule unat_add_small [OF ck4])
  have nx: "mnext c m = d" "d \<noteq> NULL" "mlength d m = j" "chain m (mnext d m) bs" using c(1) by (auto simp: b)
  have an: "unat (a + n) = unat a + unat n" using assms(5,8) by (intro unat_add_small) simp
  show ?case
  proof (cases "d < a")
    case False
    then have ad: "unat a \<le> unat d" by (simp add: word_less_nat_alt)
    have "d \<notin> area a n" using c(6) am(2) by (auto simp: b)
    then have gd: "unat a + unat n \<le> unat d" using ad by (simp add: area_bounds)
    have pq: "p = c" "q = mnext c m" using c(7) False nx by (auto simp: b)
    have bo: "blocks_ok (unat a + unat n - 1) (b # bs) hi"
      using gd ok(4) good_size_ge [OF assms(7)] by (auto simp: b)
    have "chain (relink a n c (mnext c m) (c + k) m) c
        (if c + k = a then join_next c (k + n) (b # bs) else (c, k) # join_next a n (b # bs)) \<and>
      only_changed (area c k \<union> area a n) m (relink a n c (mnext c m) (c + k) m)"
      by (rule relink_here [OF c(1-3) a0 ok(1,2) ge assms(7,8,5) bo])
    moreover have "\<not> a < c + k" using ge cu by (simp add: word_less_nat_alt)
    moreover have "\<not> d < a + n" using gd an by (simp add: word_less_nat_alt)
    moreover have "free_block a n ((c, k) # b # bs) =
        (if c + k = a then join_next c (k + n) (b # bs) else (c, k) # join_next a n (b # bs))"
      using c(5) False by (simp add: b)
    ultimately show ?thesis using c(2) pq nx(1) am(3) by (auto intro: only_changed_mono)
  next
    case True
    have dj: "area a n \<inter> (area d j \<union> free_area bs) = {}" using c(6) by (auto simp: b)
    have fp: "free_pos a d bs = (p, q)" using c(7) True by (simp add: b)
    have bd: "blocks_ok (unat c + unat k) ((d, j) # bs) hi" using ok(4) by (simp add: b)
    note IH = Cons.IH [OF nx(4,3,2) bd True dj fp]
    let ?m = "relink a n p q (p + mlength p m) m"
    have cc: "c \<in> area c k" "c + 4 \<in> area c k" using area_cells [OF ck4 ok(1)] by auto
    have sep: "x \<notin> area d j \<union> free_area bs \<union> area a n" if "x \<in> area c k" for x
      using that c(6) free_area_bounds [OF bd, of x] by (fastforce simp: area_bounds)
    have "mnext c ?m = d" "mlength c ?m = k"
      using only_changedD(1) [of _ m ?m] IH sep [OF cc(1)] sep [OF cc(2)] nx(1) c(2)
      by (auto simp: mnext_def mlength_def)
    moreover have "c + k \<noteq> a"
    proof
      assume "c + k = a"
      then have "unat a < unat d" using cu okd(1) by simp
      then show False using True by (simp add: word_less_nat_alt)
    qed
    then have "free_block a n ((c, k) # b # bs) = (c, k) # free_block a n ((d, j) # bs)"
      using c(5) by (simp add: b)
    ultimately show ?thesis using IH c(3) by (auto simp: b intro: only_changed_mono)
  qed
qed

lemma freemem_ok:
  assumes h: "heap m bs" and n: "nbytes \<noteq> 0" "unat nbytes \<le> 4294967288"
    and a: "unat (minheap m) \<le> unat a" "unat a + unat (roundmb nbytes) \<le> unat (maxheap m)"
    and dj: "area a (roundmb nbytes) \<inter> free_area bs = {}"
  shows "\<exists>m'. freemem a nbytes m = Some (OK, m') \<and> heap m' (free_block a (roundmb nbytes) bs) \<and>
    only_changed ({memlist m, memlist m + 4} \<union> free_area bs \<union> area a (roundmb nbytes)) m m'"
proof -
  let ?n = "roundmb nbytes" and ?h = "memlist m"
  let ?mt = "set_mlength ?h (mlength ?h m + ?n) m"
  note d = heapD [OF h]
  have g: "good_size ?n" using roundmb_bounds [OF n(2,1)] by (auto simp: good_size_def)
  have n8: "8 \<le> unat ?n" by (rule good_size_ge [OF g])
  have mm: "minheap m \<le> a" "a \<le> maxheap m" using a by (simp_all add: word_le_nat_alt)
  have a0: "a \<noteq> NULL" using a(1) d(5) by auto
  have lo: "unat (minheap m) - 1 < unat a" using a(1) d(5) by simp
  have an: "unat (a + ?n) = unat a + unat ?n" using a(2) u32_max [of "maxheap m"] by (intro unat_add_small) simp
  have an4: "unat a + unat ?n < 4294967296" using a(2) u32_max [of "maxheap m"] by simp
  have aa: "a \<in> area a ?n" "a + 4 \<in> area a ?n" "a + 4 \<noteq> a" using area_cells [OF an4 n8] .
  have hn: "?h \<notin> area a ?n" "?h + 4 \<notin> area a ?n" using a(1) d(9,10) by (auto simp: area_bounds)
  have fb: "blocks_ok (unat (minheap m) - 1) (free_block a ?n bs) (unat (maxheap m))"
    "free_area (free_block a ?n bs) = area a ?n \<union> free_area bs"
    "free_total (free_block a ?n bs) = unat ?n + free_total bs"
    using free_block_ok [OF d(2) lo g a(2) u32_max dj] by auto
  have fr0: "word_at ?mt x = word_at m x" if "x \<in> free_area bs" for x using that d(7) by auto
  have ch0: "chain ?mt (mnext ?h ?mt) bs"
    using chain_frame [OF d(1,2) u32_max fr0] by (simp add: mnext_def)
  obtain p q where pq: "free_pos a ?h bs = (p, q)" by (cases "free_pos a ?h bs")
  have lp: "freemem_loop a ?h (mnext ?h m) m = Some (p, q)" using freemem_loop_pos [OF d(1)] pq by simp
  let ?top = "if p = ?h then 0 else p + mlength p m"
  let ?m = "relink a ?n p q ?top ?mt"
  have main: "chain ?m (mnext ?h ?m) (free_block a ?n bs) \<and> only_changed ({?h} \<union> free_area bs \<union> area a ?n) ?mt ?m \<and>
      \<not> (p \<noteq> ?h \<and> a < ?top) \<and> \<not> (q \<noteq> NULL \<and> q < a + ?n)"
  proof (cases "bs = [] \<or> \<not> fst (hd bs) < a")
    case True
    then have "free_pos a ?h bs = (?h, mnext ?h m)" using d(1) by (cases bs) (auto split: prod.splits)
    then have pq': "p = ?h" "q = mnext ?h m" using pq by auto
    have bo: "blocks_ok (unat a + unat ?n - 1) bs (unat (maxheap m)) \<and> (q \<noteq> NULL \<longrightarrow> \<not> q < a + ?n) \<and>
        free_block a ?n bs = join_next a ?n bs"
    proof (cases bs)
      case Nil
      then show ?thesis using d(1) pq' by simp
    next
      case (Cons b cs)
      obtain c k where b: "b = (c, k)" by (cases b)
      have c: "unat a \<le> unat c" "q = c" using True pq' d(1) by (auto simp: Cons b word_less_nat_alt)
      have ok: "8 \<le> unat k" "8 dvd unat k" "unat c + unat k \<le> unat (maxheap m)" "blocks_ok (unat c + unat k) cs (unat (maxheap m))"
        using d(2) by (auto simp: Cons b)
      have "c \<in> free_area bs" using ok(1) by (simp add: Cons b area_bounds)
      then have "c \<notin> area a ?n" using dj by auto
      then have "unat a + unat ?n \<le> unat c" using c(1) by (simp add: area_bounds)
      then show ?thesis using ok n8 an c True by (auto simp: Cons b word_less_nat_alt)
    qed
    let ?m1 = "set_mnext ?h a (set_mlength a ?n (set_mnext a q ?mt))"
    have e: "?m = join_mem a q ?m1" using a0 pq' by (simp add: relink_join)
    have oc: "only_changed ({?h} \<union> area a ?n) ?mt ?m1"
      by (intro only_changed_trans [OF only_changed_set_mnext only_changed_trans [OF only_changed_set_mlength
            only_changed_set_mnext]]) (use aa in auto)
    have fr: "word_at ?m1 x = word_at ?mt x" if "x \<in> free_area bs" for x
      by (rule only_changedD(1) [OF oc]) (use that dj d(6) in auto)
    have "chain ?mt q bs" using ch0 d(8) pq' by (simp add: mnext_def)
    then have c1: "chain ?m1 q bs" by (rule chain_frame [OF _ d(2) u32_max fr])
    have ne: "?h \<noteq> a" "?h \<noteq> a + 4" using hn aa by auto
    have j: "chain (join_mem a q ?m1) a (join_next a ?n bs) \<and> only_changed (area a ?n) ?m1 (join_mem a q ?m1)"
      by (rule join_mem_ok [OF c1 _ _ a0 conjunct1 [OF bo] g a(2) u32_max])
        (use ne aa in \<open>auto simp: mnext_def mlength_def\<close>)
    have "mnext ?h (join_mem a q ?m1) = a"
      using only_changedD(1) [OF conjunct2 [OF j] hn(1)] by (simp add: mnext_def)
    moreover have "only_changed ({?h} \<union> free_area bs \<union> area a ?n) ?mt (join_mem a q ?m1)"
      by (rule only_changed_trans [OF only_changed_mono [OF oc] only_changed_mono [OF conjunct2 [OF j]]]) auto
    ultimately show ?thesis using e j bo pq' by auto
  next
    case False
    then obtain c k cs where bs: "bs = (c, k) # cs" "c < a" by (cases bs) auto
    have ch: "mnext ?h ?mt = c" "c \<noteq> NULL" "mlength c ?mt = k" "chain ?mt (mnext c ?mt) cs"
      using ch0 by (auto simp: bs)
    have fp: "free_pos a c cs = (p, q)" using pq bs by simp
    have dj': "area a ?n \<inter> (area c k \<union> free_area cs) = {}" using dj by (simp add: bs)
    have bo: "blocks_ok (unat (minheap m) - 1) ((c, k) # cs) (unat (maxheap m))" using d(2) by (simp add: bs)
    note r = relink_ok [OF ch(4,3,2) bo u32_max bs(2) g a(2) dj' fp]
    have pin: "p \<in> free_area bs" using r by (simp add: bs)
    then have ph: "p \<noteq> ?h" using d(6) by auto
    have "mlength p ?mt = mlength p m" using ph by (simp add: mlength_def)
    then have tp: "?top = p + mlength p ?mt" using ph by simp
    have oc: "only_changed (free_area bs \<union> area a ?n) ?mt ?m" using r unfolding tp by (simp add: bs)
    have c: "mnext ?h ?m = c"
      using only_changedD(1) [OF oc, of ?h] d(6) hn(1) ch(1) by (simp add: mnext_def)
    have "only_changed ({?h} \<union> free_area bs \<union> area a ?n) ?mt ?m"
      by (rule only_changed_mono [OF oc]) auto
    moreover have "chain ?m (mnext ?h ?m) (free_block a ?n bs) \<and> \<not> a < ?top \<and> (q \<noteq> NULL \<longrightarrow> \<not> q < a + ?n)"
      using r unfolding c unfolding tp bs(1) [symmetric] by blast
    ultimately show ?thesis by blast
  qed
  have t: "\<not> (p \<noteq> ?h \<and> a < ?top)" "\<not> (q \<noteq> NULL \<and> q < a + ?n)" using main by blast+
  have e: "freemem a nbytes m = Some (OK, ?m)"
    by (rule freemem_relink [OF n(1) mm lp refl t])
  have oc2: "only_changed ({?h} \<union> free_area bs \<union> area a ?n) ?mt ?m" using main by blast
  have oc: "only_changed ({?h, ?h + 4} \<union> free_area bs \<union> area a ?n) m ?m"
    by (rule only_changed_trans [OF only_changed_set_mlength [of ?h _ m "mlength ?h m + ?n"] only_changed_mono [OF oc2]])
      blast+
  have nn: "?h + 4 \<notin> {?h} \<union> free_area bs \<union> area a ?n" using d(7,8) hn(2) by auto
  have "mlength ?h ?mt = mlength ?h m + ?n" by (simp add: mlength_def)
  then have lt: "mlength ?h ?m = mlength ?h m + ?n" by (rule trans [OF mlength_frame [OF oc2 nn]])
  have tot: "unat (mlength ?h m + ?n) = unat (mlength ?h m) + unat ?n"
    using free_total_le [OF fb(1)] fb(3) d(3) u32_max [of "maxheap m"] by (intro unat_add_small) simp
  have cm: "chain ?m (mnext ?h ?m) (free_block a ?n bs)" using main by blast
  have "heap ?m (free_block a ?n bs)"
    unfolding heap_def lt tot only_changedD(2-4) [OF oc] fb(3) using cm fb(1) h d(3) by (simp add: heap_def)
  then show ?thesis using e oc by blast
qed

end
