(* ===== verification/Allocator.thy ===== *)
theory Allocator
  imports Memory
begin

text \<open>
  What the allocator of \<open>Memory\<close> promises its clients.  The interface \<open>block_allocator\<close> states
  the contract once: a request is refused or yields bytes that were free and are free no
  longer, and giving bytes back makes exactly them free again.  The heap calls
  (\<open>getmem\<close>, \<open>freemem\<close>) and the stack calls (\<open>getstk\<close>, \<open>freestk\<close>) both provide it.  From it
  follows that the blocks handed out are disjoint at all times, in whatever order the calls
  are made.
\<close>

subsection \<open>Refused requests\<close>

lemma free_pos_disjoint:
  "chain m cur bs \<Longrightarrow> blocks_ok lo bs hi \<Longrightarrow> hi < 4294967296 \<Longrightarrow> free_pos a prev bs = (p, q) \<Longrightarrow>
   unat a + unat n < 4294967296 \<Longrightarrow> (bs \<noteq> [] \<and> fst (hd bs) < a \<Longrightarrow> \<not> a < p + mlength p m) \<Longrightarrow>
   \<not> (q \<noteq> NULL \<and> q < a + n) \<Longrightarrow> area a n \<inter> free_area bs = {}"
proof (induction bs arbitrary: cur lo prev)
  case Nil
  then show ?case by simp
next
  case (Cons b bs)
  obtain c k where b: "b = (c, k)" by (cases b)
  have an: "unat (a + n) = unat a + unat n" using Cons.prems(5) by (rule unat_add_small)
  have ok: "8 \<le> unat k" "unat c + unat k \<le> hi" "blocks_ok (unat c + unat k) bs hi"
    and ch: "c \<noteq> NULL" "mlength c m = k" "chain m (mnext c m) bs"
    using Cons.prems(1,2) by (auto simp: b)
  have ck: "unat (c + k) = unat c + unat k" using ok(2) Cons.prems(3) by (intro unat_add_small) simp
  show ?case
  proof (cases "c < a")
    case False
    then have "unat a + unat n \<le> unat c"
      using Cons.prems(4,7) ch(1) an by (auto simp: b word_less_nat_alt)
    then show ?thesis
      using free_area_bounds [OF ok(3)] by (fastforce simp: b area_bounds)
  next
    case True
    have fp: "free_pos a c bs = (p, q)" using Cons.prems(4) True by (simp add: b)
    have np: "\<not> a < p + mlength p m" using Cons.prems(6) True by (simp add: b)
    have IH: "area a n \<inter> free_area bs = {}"
      by (rule Cons.IH [OF ch(3) ok(3) Cons.prems(3) fp Cons.prems(5) np Cons.prems(7)])
    have "unat c + unat k \<le> unat a"
    proof (cases "bs = [] \<or> \<not> fst (hd bs) < a")
      case True
      then have "p = c" using fp by (cases bs) (auto split: prod.splits)
      then show ?thesis using np ck ch(2) by (simp add: word_less_nat_alt)
    next
      case False
      then show ?thesis using ok(3) by (cases bs) (auto simp: word_less_nat_alt)
    qed
    then show ?thesis using IH by (auto simp: b area_bounds)
  qed
qed

lemma freemem_refuses:
  assumes h: "heap m bs" and n: "nbytes \<noteq> 0" "unat nbytes \<le> 4294967288"
    and a: "unat (minheap m) \<le> unat a" "unat a + unat (roundmb nbytes) \<le> unat (maxheap m)"
    and dj: "area a (roundmb nbytes) \<inter> free_area bs \<noteq> {}"
  shows "freemem a nbytes m = Some (SYSERR, m)"
proof -
  let ?n = "roundmb nbytes" and ?h = "memlist m"
  note d = heapD [OF h]
  have mm: "\<not> a < minheap m" "\<not> maxheap m < a" using a by (simp_all add: word_less_nat_alt)
  have an4: "unat a + unat ?n < 4294967296" using a(2) u32_max [of "maxheap m"] by simp
  obtain p q where pq: "free_pos a ?h bs = (p, q)" by (cases "free_pos a ?h bs")
  have lp: "freemem_loop a ?h (mnext ?h m) m = Some (p, q)" using freemem_loop_pos [OF d(1)] pq by simp
  have ph: "p \<in> free_area bs" if "bs \<noteq> []" "fst (hd bs) < a"
  proof -
    have "blocks_ok lo cs hi \<Longrightarrow> c \<in> S \<Longrightarrow> free_pos a c cs = (p, q) \<Longrightarrow> p \<in> S \<union> free_area cs" for c cs lo hi S
    proof (induction cs arbitrary: c lo S)
      case (Cons b cs)
      obtain e k where b: "b = (e, k)" by (cases b)
      show ?case
        using Cons.prems Cons.IH [of "unat e + unat k" e "S \<union> area e k"]
        by (auto simp: b area_bounds split: if_splits)
    qed simp
    note gen = this
    obtain c k cs where bs: "bs = (c, k) # cs" using \<open>bs \<noteq> []\<close> by (cases bs) auto
    have "c \<in> area c k" using d(2) by (simp add: bs area_bounds)
    then show ?thesis using gen [of "unat c + unat k" cs _ c "area c k"] d(2) pq that by (auto simp: bs)
  qed
  have "(p \<noteq> ?h \<and> a < p + mlength p m) \<or> (q \<noteq> NULL \<and> q < a + ?n)"
  proof (rule ccontr)
    assume no: "\<not> ?thesis"
    have "\<not> a < p + mlength p m" if "bs \<noteq> [] \<and> fst (hd bs) < a"
      using no ph that d(6) by auto
    then show False using free_pos_disjoint [OF d(1,2) u32_max pq an4] no dj by blast
  qed
  then show ?thesis using n(1) mm lp by (auto simp: freemem_def Let_def)
qed

text \<open>A request of more than \<open>0xFFFFFFF8\<close> bytes rounds to zero.\<close>

lemma roundmb_huge: "4294967288 < unat x \<Longrightarrow> roundmb x = 0"
proof -
  assume "4294967288 < unat x"
  then have "4294967289 \<le> unat x" "unat x < 4294967296" using u32_max by auto
  then obtain j where j: "unat x = 4294967289 + j" "j < 7" using le_Suc_ex by fastforce
  then have "unat (7 + x) < 8" by (simp add: unat_word_ariths)
  then have "unat (roundmb x) = 0" unfolding roundmb_def unat_trunc8 by simp
  then show ?thesis by (simp add: unat_eq_zero)
qed

lemma getmem_huge:
  assumes "heap m ((a, k) # bs)" "4294967288 < unat nbytes"
  shows "getmem nbytes m = Some (a, m)"
proof -
  note d = heapD [OF assms(1)]
  have k: "k \<noteq> 0" "a \<noteq> 0" "mnext (memlist m) m = a" "mlength a m = k" using d(1,2) by auto
  have "nbytes \<noteq> 0" using assms(2) by auto
  moreover have "0 < k" using k(1) by (simp add: word_neq_0_conv)
  moreover have "set_mnext a (mnext a m) m = m" "set_mnext (memlist m) a m = m" "set_mlength a k m = m"
    "set_mlength (memlist m) (mlength (memlist m) m) m = m"
    using k by (simp_all add: set_mnext_def set_mlength_def mnext_def mlength_def fun_upd_idem)
  ultimately show ?thesis
    using k unfolding getmem_def roundmb_huge [OF assms(2)]
    by (subst getmem_loop.simps) (simp add: Let_def)
qed

lemma meminit_heap:
  assumes "0 < unat (memlist m)" "unat (memlist m) + 8 \<le> unat e" "8 dvd unat e" "unat e < 4194304"
  shows "heap (meminit e m) [(e, 4194304 - e)]"
    and "maxheap (meminit e m) = 4194304" "minheap (meminit e m) = e"
proof -
  have s: "unat (4194304 - e :: u32) = 4194304 - unat e"
    using assms(4) by (subst unat_sub) (auto simp: word_le_nat_alt)
  have ne: "memlist m \<noteq> e" "memlist m + 4 \<noteq> e" "memlist m \<noteq> e + 4" "memlist m + 4 \<noteq> e + 4" "e \<noteq> 0"
  proof -
    have "unat (memlist m + 4) = unat (memlist m) + 4"
      using assms(2) u32_max [of e] unat_add_small [of "memlist m" 4] by simp
    moreover have "unat (e + 4) = unat e + 4" using assms(4) unat_add_small [of e 4] by simp
    ultimately show "memlist m \<noteq> e" "memlist m + 4 \<noteq> e" "memlist m \<noteq> e + 4" "memlist m + 4 \<noteq> e + 4" "e \<noteq> 0"
      using assms by (auto simp: word_unat_eq_iff)
  qed
  show "maxheap (meminit e m) = 4194304" "minheap (meminit e m) = e"
    by (simp_all add: meminit_def Let_def set_mnext_def set_mlength_def)
  have "8 \<le> 4194304 - unat e" "8 dvd 4194304 - unat e" using assms(3,4) by presburger+
  then show "heap (meminit e m) [(e, 4194304 - e)]"
    using ne assms s unfolding heap_def
    by (simp add: meminit_def Let_def mnext_def mlength_def set_mnext_def set_mlength_def)
qed

subsection \<open>The contract\<close>

definition bounds :: "'z memory_scheme \<Rightarrow> u32 set" where
  "bounds m = {x. unat (minheap m) \<le> unat x \<and> unat x < unat (maxheap m)}"

definition sane_size :: "u32 \<Rightarrow> bool" where
  "sane_size n \<longleftrightarrow> n \<noteq> 0 \<and> unat n \<le> 4294967288"

text \<open>
  \<open>inv m s\<close>: the store \<open>m\<close> holds the free list \<open>s\<close>, whose bytes are \<open>avail s\<close>; \<open>region p n\<close> are
  the bytes of the block that a request of \<open>n\<close> bytes answered with the pointer \<open>p\<close>.
\<close>

locale block_allocator =
  fixes inv :: "'m \<Rightarrow> 'a \<Rightarrow> bool" and avail :: "'a \<Rightarrow> u32 set" and limits :: "'m \<Rightarrow> u32 set"
    and alloc :: "u32 \<Rightarrow> 'm \<Rightarrow> (u32 \<times> 'm) option" and release :: "u32 \<Rightarrow> u32 \<Rightarrow> 'm \<Rightarrow> (int \<times> 'm) option"
    and region :: "u32 \<Rightarrow> u32 \<Rightarrow> u32 set"
  assumes alloc_law: "inv m s \<Longrightarrow> sane_size n \<Longrightarrow>
      alloc n m = Some (ADDR_SYSERR, m) \<or>
      (\<exists>p m' s'. alloc n m = Some (p, m') \<and> p \<noteq> ADDR_SYSERR \<and> inv m' s' \<and> limits m' = limits m \<and>
         region p n \<noteq> {} \<and> region p n \<subseteq> avail s \<and> avail s' = avail s - region p n)"
    and release_law: "inv m s \<Longrightarrow> sane_size n \<Longrightarrow> region p n \<noteq> {} \<Longrightarrow> region p n \<subseteq> limits m \<Longrightarrow>
      region p n \<inter> avail s = {} \<Longrightarrow>
      \<exists>m' s'. release p n m = Some (OK, m') \<and> inv m' s' \<and> limits m' = limits m \<and>
         avail s' = avail s \<union> region p n"
    and avail_limits: "inv m s \<Longrightarrow> avail s \<subseteq> limits m"
begin

text \<open>\<open>live\<close>: the regions in the hands of clients.  With the free bytes they tile the heap.\<close>

definition tiled :: "'m \<Rightarrow> u32 set list \<Rightarrow> bool" where
  "tiled m live \<longleftrightarrow> (\<exists>s. inv m s \<and> avail s \<inter> \<Union> (set live) = {} \<and> avail s \<union> \<Union> (set live) = limits m) \<and>
     sorted_wrt (\<lambda>A B. A \<inter> B = {}) live"

lemma alloc_tiled:
  assumes "tiled m live" "sane_size n" "alloc n m = Some (p, m')" "p \<noteq> ADDR_SYSERR"
  shows "tiled m' (region p n # live)" "\<forall>r \<in> set live. region p n \<inter> r = {}"
proof -
  obtain s where s: "inv m s" "avail s \<inter> \<Union> (set live) = {}" "avail s \<union> \<Union> (set live) = limits m"
    "sorted_wrt (\<lambda>A B. A \<inter> B = {}) live"
    using assms(1) by (auto simp: tiled_def)
  obtain s' where s': "inv m' s'" "limits m' = limits m" "region p n \<subseteq> avail s" "avail s' = avail s - region p n"
    using alloc_law [OF s(1) assms(2)] assms(3,4) by auto
  show dj: "\<forall>r \<in> set live. region p n \<inter> r = {}" using s(2) s'(3) by auto
  have "avail s' \<inter> \<Union> (set (region p n # live)) = {}" using s(2) s'(4) by auto
  moreover have "avail s' \<union> \<Union> (set (region p n # live)) = limits m'" using s(3) s'(2-4) by auto
  ultimately show "tiled m' (region p n # live)" using s'(1) s(4) dj by (auto simp: tiled_def)
qed

lemma alloc_total: "tiled m live \<Longrightarrow> sane_size n \<Longrightarrow> \<exists>p m'. alloc n m = Some (p, m') \<and> (p = ADDR_SYSERR \<longrightarrow> m' = m)"
  using alloc_law [of m _ n] by (fastforce simp: tiled_def)

lemma release_tiled:
  assumes t: "tiled m live" and n: "sane_size n" and r: "region p n \<in> set live" "region p n \<noteq> {}"
  shows "\<exists>m'. release p n m = Some (OK, m') \<and> tiled m' (remove1 (region p n) live)"
proof -
  obtain s where s: "inv m s" "avail s \<inter> \<Union> (set live) = {}" "avail s \<union> \<Union> (set live) = limits m"
    "sorted_wrt (\<lambda>A B. A \<inter> B = {}) live"
    using t by (auto simp: tiled_def)
  obtain m' s' where m': "release p n m = Some (OK, m')" "inv m' s'" "limits m' = limits m"
    "avail s' = avail s \<union> region p n"
    using release_law [OF s(1) n r(2)] r(1) s(2,3) by blast
  have rest: "\<Union> (set (remove1 A l)) = \<Union> (set l) - A \<and> sorted_wrt (\<lambda>A B. A \<inter> B = {}) (remove1 A l)"
    if "A \<in> set l" "sorted_wrt (\<lambda>A B. A \<inter> B = {}) l" for A :: "u32 set" and l
    using that
  proof (induction l)
    case (Cons B l)
    have B: "B \<inter> \<Union> (set l) = {}" "sorted_wrt (\<lambda>A B. A \<inter> B = {}) l" using Cons.prems(2) by auto
    show ?case
    proof (cases "A = B")
      case True
      then show ?thesis using B by auto
    next
      case False
      then have A: "A \<in> set l" using Cons.prems(1) by simp
      note IH = Cons.IH [OF A B(2)]
      have AB: "B - A = B" using B(1) A by blast
      have e: "remove1 A (B # l) = B # remove1 A l" using False by simp
      have "\<Union> (set (B # remove1 A l)) = (B - A) \<union> (\<Union> (set l) - A)" unfolding AB using IH by simp
      also have "\<dots> = \<Union> (set (B # l)) - A" by auto
      finally have u: "\<Union> (set (B # remove1 A l)) = \<Union> (set (B # l)) - A" .
      have "\<forall>C \<in> set (remove1 A l). B \<inter> C = {}" using B(1) set_remove1_subset [of A l] by blast
      then show ?thesis unfolding e u using IH by simp
    qed
  qed simp
  note rs = rest [OF r(1) s(4)]
  have "avail s' \<inter> \<Union> (set (remove1 (region p n) live)) = {}"
    unfolding m'(4) conjunct1 [OF rs] using s(2) by blast
  moreover have "avail s' \<union> \<Union> (set (remove1 (region p n) live)) = limits m'"
    unfolding m'(3,4) conjunct1 [OF rs] s(3) [symmetric] using r(1) by blast
  ultimately have "tiled m' (remove1 (region p n) live)"
    unfolding tiled_def using m'(2) conjunct2 [OF rs] by (intro conjI exI)
  then show ?thesis using m'(1) by blast
qed

end

lemma sane_sizeD:
  assumes "sane_size n"
  shows "n \<noteq> 0" "unat n \<le> 4294967288" "good_size (roundmb n)" "8 \<le> unat (roundmb n)" "sane_size (roundmb n)"
proof -
  show n: "n \<noteq> 0" "unat n \<le> 4294967288" using assms by (auto simp: sane_size_def)
  show "good_size (roundmb n)" "8 \<le> unat (roundmb n)"
    using roundmb_bounds [OF n(2,1)] by (auto simp: good_size_def)
  have k: "k \<le> 4294967288" if "8 dvd k" "k < 4294967296" for k :: nat using that by presburger
  have "unat (roundmb n) \<noteq> 0" using roundmb_bounds(4) [OF n(2,1)] by simp
  then have "roundmb n \<noteq> 0" by auto
  then show "sane_size (roundmb n)"
    using k [OF roundmb_bounds(1) [OF n(2,1)] u32_max] by (simp add: sane_size_def)
qed

lemma below_not_max: "unat x < unat (y :: u32) \<Longrightarrow> x \<noteq> ADDR_SYSERR"
proof
  assume "unat x < unat y" "x = ADDR_SYSERR"
  moreover have "unat (ADDR_SYSERR) = 4294967295" by (simp add: unsigned_minus_1_eq_mask mask_eq_exp_minus_1)
  ultimately show False using u32_max [of y] by simp
qed

lemma free_in_bounds: "heap m bs \<Longrightarrow> free_area bs \<subseteq> bounds m"
proof
  fix x
  assume h: "heap m bs" and x: "x \<in> free_area bs"
  show "x \<in> bounds m" using free_area_bounds [OF heapD(2) [OF h] x] heapD(5) [OF h] unfolding bounds_def by simp linarith
qed

lemma area_in_bounds:
  assumes "area a k \<subseteq> bounds m" "8 \<le> unat k"
  shows "unat (minheap m) \<le> unat a" "unat a + unat k \<le> unat (maxheap m)"
proof -
  have "a \<in> bounds m" using assms by (auto simp: area_bounds)
  then show a: "unat (minheap m) \<le> unat a" by (simp add: bounds_def)
  show "unat a + unat k \<le> unat (maxheap m)"
  proof (rule ccontr)
    assume "\<not> ?thesis"
    moreover have "unat a < unat (maxheap m)" using \<open>a \<in> bounds m\<close> by (simp add: bounds_def)
    ultimately have "maxheap m \<in> area a k" by (simp add: area_bounds)
    then show False using assms(1) by (auto simp: bounds_def)
  qed
qed

lemma freemem_law:
  assumes "heap m bs" "sane_size n" "area a (roundmb n) \<noteq> {}" "area a (roundmb n) \<subseteq> bounds m"
    "area a (roundmb n) \<inter> free_area bs = {}"
  shows "\<exists>m'. freemem a n m = Some (OK, m') \<and> heap m' (free_block a (roundmb n) bs) \<and> bounds m' = bounds m \<and>
    free_area (free_block a (roundmb n) bs) = free_area bs \<union> area a (roundmb n)"
proof -
  note n = sane_sizeD [OF assms(2)] and ab = area_in_bounds [OF assms(4)]
  note d = heapD [OF assms(1)]
  obtain m' where m': "freemem a n m = Some (OK, m')" "heap m' (free_block a (roundmb n) bs)"
    "only_changed ({memlist m, memlist m + 4} \<union> free_area bs \<union> area a (roundmb n)) m m'"
    using freemem_ok [OF assms(1) n(1,2) ab [OF n(4)] assms(5)] by blast
  have "unat (minheap m) - 1 < unat a" using ab(1) [OF n(4)] d(5) by simp
  then have "free_area (free_block a (roundmb n) bs) = area a (roundmb n) \<union> free_area bs"
    using free_block_ok [OF d(2) _ n(3) ab(2) [OF n(4)] u32_max assms(5)] by blast
  moreover have "bounds m' = bounds m" using only_changedD(3,4) [OF m'(3)] by (simp add: bounds_def)
  ultimately show ?thesis using m' by auto
qed

interpretation heap_blocks: block_allocator heap free_area bounds getmem freemem "\<lambda>p n. area p (roundmb n)"
proof (unfold_locales, goal_cases)
  case (1 m s n)
  note d = heapD [OF 1(1)] and n = sane_sizeD [OF 1(2)]
  show ?case
  proof (cases "first_fit (roundmb n) s")
    case None
    then show ?thesis using getmem_ok [OF 1(1) n(1,2)] by simp
  next
    case (Some r)
    obtain a bs' where r: "r = (a, bs')" by (cases r)
    note ff = first_fit_ok [OF Some [unfolded r] d(2) n(3) u32_max]
    obtain m' where m': "getmem n m = Some (a, m')" "heap m' bs'"
      "only_changed ({memlist m, memlist m + 4} \<union> free_area s) m m'"
      using getmem_ok [OF 1(1) n(1,2)] Some r by auto
    have "a \<in> area a (roundmb n)" using n(4) by (simp add: area_bounds)
    then have "unat a < unat (maxheap m)" using ff free_area_bounds [OF d(2), of a] by blast
    then have "a \<noteq> ADDR_SYSERR" by (rule below_not_max)
    moreover have "bounds m' = bounds m" using only_changedD(3,4) [OF m'(3)] by (simp add: bounds_def)
    ultimately show ?thesis using m' ff \<open>a \<in> area a (roundmb n)\<close> by blast
  qed
next
  case (2 m s n p)
  then show ?case using freemem_law [OF 2] by blast
qed (rule free_in_bounds)

interpretation stack_blocks: block_allocator heap free_area bounds getstk "\<lambda>p n. freestk p n"
  "\<lambda>p n. area (p - roundmb n + 4) (roundmb n)"
proof (unfold_locales, goal_cases)
  case (1 m s n)
  note d = heapD [OF 1(1)] and n = sane_sizeD [OF 1(2)]
  show ?case
  proof (cases "last_fit (roundmb n) s")
    case None
    then show ?thesis using getstk_ok [OF 1(1) n(1,2)] by simp
  next
    case (Some r)
    obtain a bs' where r: "r = (a, bs')" by (cases r)
    note ff = last_fit_ok [OF Some [unfolded r] d(2) n(3) u32_max]
    let ?p = "a + roundmb n - 4"
    obtain m' where m': "getstk n m = Some (?p, m')" "heap m' bs'"
      "only_changed ({memlist m, memlist m + 4} \<union> free_area s) m m'"
      using getstk_ok [OF 1(1) n(1,2)] Some r by auto
    have p: "?p - roundmb n + 4 = a" by simp
    have "unat (a + roundmb n) = unat a + unat (roundmb n)"
      using ff u32_max [of "maxheap m"] by (intro unat_add_small) simp
    then have "unat ?p < unat (maxheap m)"
      using ff n(4) by (subst unat_sub) (auto simp: word_le_nat_alt)
    then have "?p \<noteq> ADDR_SYSERR" by (rule below_not_max)
    moreover have "bounds m' = bounds m" using only_changedD(3,4) [OF m'(3)] by (simp add: bounds_def)
    moreover have "a \<in> area a (roundmb n)" using n(4) by (simp add: area_bounds)
    ultimately show ?thesis using m' ff unfolding p by (intro disjI2 exI [of _ ?p] exI [of _ m'] exI [of _ bs']) auto
  qed
next
  case (2 m s n p)
  note n = sane_sizeD [OF 2(2)]
  have rr: "roundmb (roundmb n) = roundmb n"
    by (rule roundmb_id) (use n(3) in \<open>simp add: good_size_def\<close>)
  note l = freemem_law [OF 2(1) n(5), of "p - roundmb n + 4", unfolded rr, OF 2(3-5)]
  show ?case unfolding freestk_def using l by (elim exE conjE) (intro exI conjI)
qed (rule free_in_bounds)

subsection \<open>Any sequence of calls\<close>

datatype mem_call = Getmem u32 | Getstk u32 | Freemem u32 u32 | Freestk u32 u32

text \<open>The bytes a call is about: those it hands out (with its result) or takes back.\<close>

fun call_region :: "mem_call \<Rightarrow> u32 \<Rightarrow> u32 set" where
  "call_region (Getmem n) p = area p (roundmb n)"
| "call_region (Getstk n) p = area (p - roundmb n + 4) (roundmb n)"
| "call_region (Freemem p n) _ = area p (roundmb n)"
| "call_region (Freestk p n) _ = area (p - roundmb n + 4) (roundmb n)"

fun mem_perform :: "mem_call \<Rightarrow> 'z memory_scheme \<Rightarrow> (u32 \<times> 'z memory_scheme) option" where
  "mem_perform (Getmem n) m = getmem n m"
| "mem_perform (Getstk n) m = getstk n m"
| "mem_perform (Freemem p n) m = map_option (\<lambda>(r, m). (if r = OK then 1 else ADDR_SYSERR, m)) (freemem p n m)"
| "mem_perform (Freestk p n) m = map_option (\<lambda>(r, m). (if r = OK then 1 else ADDR_SYSERR, m)) (freestk p n m)"

inductive mem_step :: "'z memory_scheme \<times> u32 set list \<Rightarrow> 'z memory_scheme \<times> u32 set list \<Rightarrow> bool" where
  got: "sane_size n \<Longrightarrow> c = Getmem n \<or> c = Getstk n \<Longrightarrow> mem_perform c m = Some (p, m') \<Longrightarrow> p \<noteq> ADDR_SYSERR \<Longrightarrow>
    mem_step (m, live) (m', call_region c p # live)"
| refused: "sane_size n \<Longrightarrow> c = Getmem n \<or> c = Getstk n \<Longrightarrow> mem_perform c m = Some (ADDR_SYSERR, m') \<Longrightarrow>
    mem_step (m, live) (m', live)"
| freed: "sane_size n \<Longrightarrow> c = Freemem p n \<or> c = Freestk p n \<Longrightarrow> call_region c 0 \<in> set live \<Longrightarrow>
    mem_perform c m = Some (r, m') \<Longrightarrow> mem_step (m, live) (m', remove1 (call_region c 0) live)"

definition tiled_heap :: "'z memory_scheme \<times> u32 set list \<Rightarrow> bool" where
  "tiled_heap ml = heap_blocks.tiled (fst ml) (snd ml)"

lemma tiled_heap_iff: "tiled_heap (m, live) \<longleftrightarrow>
    (\<exists>bs. heap m bs \<and> free_area bs \<inter> \<Union> (set live) = {} \<and> free_area bs \<union> \<Union> (set live) = bounds m) \<and>
    sorted_wrt (\<lambda>A B. A \<inter> B = {}) live"
  by (simp add: tiled_heap_def heap_blocks.tiled_def)

lemma call_region_nonempty: "sane_size n \<Longrightarrow> area p (roundmb n) \<noteq> {}"
proof -
  assume "sane_size n"
  then have "p \<in> area p (roundmb n)" using sane_sizeD(4) [of n] by (simp add: area_bounds)
  then show ?thesis by auto
qed

lemma freed_ok:
  assumes t: "tiled_heap (m, live)" and n: "sane_size n" and c: "c = Freemem p n \<or> c = Freestk p n"
    and l: "call_region c 0 \<in> set live"
  shows "\<exists>m'. mem_perform c m = Some (1, m') \<and> tiled_heap (m', remove1 (call_region c 0) live)"
  using c
proof
  assume c: "c = Freemem p n"
  have "heap_blocks.tiled m live" using t by (simp add: tiled_heap_def)
  moreover have "area p (roundmb n) \<in> set live" using l by (simp add: c)
  ultimately show ?thesis
    using heap_blocks.release_tiled [OF _ n _ call_region_nonempty [OF n]] by (fastforce simp: c tiled_heap_def)
next
  assume c: "c = Freestk p n"
  have "stack_blocks.tiled m live" using t by (simp add: tiled_heap_def)
  moreover have "area (p - roundmb n + 4) (roundmb n) \<in> set live" using l by (simp add: c)
  ultimately show ?thesis
    using stack_blocks.release_tiled [OF _ n _ call_region_nonempty [OF n]]
    by (fastforce simp: c tiled_heap_def)
qed

lemma got_ok:
  assumes t: "tiled_heap (m, live)" and n: "sane_size n" and c: "c = Getmem n \<or> c = Getstk n"
  shows "\<exists>p m'. mem_perform c m = Some (p, m') \<and> (p = ADDR_SYSERR \<longrightarrow> m' = m) \<and>
    (p \<noteq> ADDR_SYSERR \<longrightarrow> tiled_heap (m', call_region c p # live))"
  using c
proof
  assume c: "c = Getmem n"
  have th: "heap_blocks.tiled m live" using t by (simp add: tiled_heap_def)
  obtain p m' where "getmem n m = Some (p, m')" "p = ADDR_SYSERR \<longrightarrow> m' = m"
    using heap_blocks.alloc_total [OF th n] by blast
  moreover from this have "p \<noteq> ADDR_SYSERR \<longrightarrow> tiled_heap (m', area p (roundmb n) # live)"
    using heap_blocks.alloc_tiled(1) [OF th n] by (simp add: tiled_heap_def)
  ultimately show ?thesis by (simp add: c)
next
  assume c: "c = Getstk n"
  have th: "stack_blocks.tiled m live" using t by (simp add: tiled_heap_def)
  obtain p m' where "getstk n m = Some (p, m')" "p = ADDR_SYSERR \<longrightarrow> m' = m"
    using stack_blocks.alloc_total [OF th n] by blast
  moreover from this have "p \<noteq> ADDR_SYSERR \<longrightarrow> tiled_heap (m', area (p - roundmb n + 4) (roundmb n) # live)"
    using stack_blocks.alloc_tiled(1) [OF th n] by (simp add: tiled_heap_def)
  ultimately show ?thesis by (simp add: c)
qed

lemma mem_step_tiled: "mem_step ml ml' \<Longrightarrow> tiled_heap ml \<Longrightarrow> tiled_heap ml'"
proof (induction rule: mem_step.induct)
  case (got n c m p m' live)
  then show ?case using got_ok [OF got.prems got.hyps(1,2)] by auto
next
  case (refused n c m m' live)
  then show ?case using got_ok [OF refused.prems refused.hyps(1,2)] by auto
next
  case (freed n c p live m r m')
  then show ?case using freed_ok [OF freed.prems freed.hyps(1-3)] by auto
qed

interpretation allocator: transition_system mem_step tiled_heap
  by unfold_locales (rule mem_step_tiled)

end
