(* ===== verification/MemoryProps.thy ===== *)
theory MemoryProps
  imports Allocator
begin

text \<open>
  The properties of the memory allocator (\<open>Memory\<close>, \<open>Allocator\<close>), each with a witness on the
  heap that \<open>meminit\<close> sets up behind a kernel image of 64 kbytes.
\<close>

subsection \<open>A concrete heap\<close>

definition bare :: memory where
  "bare = \<lparr>word_at = (\<lambda>_. 0), memlist = 256, minheap = 0, maxheap = 0\<rparr>"

definition started :: memory where "started = meminit 65536 bare"

lemma started_heap: "heap started [(65536, 4128768)]"
  using meminit_heap(1) [of bare 65536] by (simp add: started_def bare_def)

lemma started_limits: "minheap started = 65536" "maxheap started = 4194304" "memlist started = 256"
  by (simp_all add: started_def bare_def meminit_def Let_def set_mnext_def set_mlength_def)

lemma roundmb_100: "roundmb 100 = 104"
  unfolding roundmb_def by code_simp

subsection \<open>Properties\<close>

text \<open>C4.  Starting from the heap \<open>meminit\<close> builds, whatever sequence of \<open>getmem\<close>, \<open>getstk\<close>,
  \<open>freemem\<close> and \<open>freestk\<close> calls the clients make (sizes that survive rounding, blocks freed once,
  as they were handed out), the blocks in the clients' hands are pairwise disjoint, disjoint from
  the free list, and together with the free list they make up the whole heap; every request
  returns, and every release is accepted.\<close>

theorem heap_stays_tiled:
  assumes "0 < unat (memlist m)" "unat (memlist m) + 8 \<le> unat e" "8 dvd unat e" "unat e < 4194304"
    and "mem_step\<^sup>*\<^sup>* (meminit e m, []) (m', live)"
  shows "(\<exists>bs. heap m' bs \<and> free_area bs \<inter> \<Union> (set live) = {} \<and> free_area bs \<union> \<Union> (set live) = bounds m') \<and>
    sorted_wrt (\<lambda>A B. A \<inter> B = {}) live \<and>
    (\<forall>n c. sane_size n \<and> (c = Getmem n \<or> c = Getstk n) \<longrightarrow> mem_perform c m' \<noteq> None) \<and>
    (\<forall>n c p. sane_size n \<and> (c = Freemem p n \<or> c = Freestk p n) \<and> call_region c 0 \<in> set live \<longrightarrow>
      (\<exists>m''. mem_perform c m' = Some (1, m'')))"
proof -
  have "bounds (meminit e m) = area e (4194304 - e)"
    using meminit_heap [OF assms(1-4)] assms(4)
    by (auto simp: bounds_def area_bounds unat_sub word_le_nat_alt)
  then have "tiled_heap (meminit e m, [])"
    using meminit_heap(1) [OF assms(1-4)] by (auto simp: tiled_heap_iff)
  then have t: "tiled_heap (m', live)" using allocator.reachable_inv [OF assms(5)] by blast
  have "mem_perform c m' \<noteq> None" if "sane_size n" "c = Getmem n \<or> c = Getstk n" for n c
    using got_ok [OF t that] by fastforce
  moreover have "\<exists>m''. mem_perform c m' = Some (1, m'')"
    if "sane_size n" "c = Freemem p n \<or> c = Freestk p n" "call_region c 0 \<in> set live" for n c p
    using freed_ok [OF t that] by blast
  ultimately show ?thesis using t unfolding tiled_heap_iff by blast
qed

lemma started_getmem:
  "\<exists>m'. getmem 100 started = Some (65536, m') \<and> heap m' [(65640, 4128664)]"
  using getmem_ok [OF started_heap, of 100] by (auto simp: roundmb_100)

lemma heap_stays_tiled_witness:
  "\<exists>m' live bs. live \<noteq> [] \<and> mem_step\<^sup>*\<^sup>* (meminit 65536 bare, []) (m', live) \<and> heap m' bs \<and>
     free_area bs \<inter> \<Union> (set live) = {}"
proof -
  obtain m' where m': "getmem 100 started = Some (65536, m')" using started_getmem by auto
  have "mem_step (meminit 65536 bare, []) (m', call_region (Getmem 100) 65536 # [])"
    using m' by (intro got [where n = 100]) (auto simp: sane_size_def started_def)
  then have r: "mem_step\<^sup>*\<^sup>* (meminit 65536 bare, []) (m', [call_region (Getmem 100) 65536])" by blast
  have "\<exists>bs. heap m' bs \<and> free_area bs \<inter> \<Union> (set [call_region (Getmem 100) 65536]) = {} \<and>
      free_area bs \<union> \<Union> (set [call_region (Getmem 100) 65536]) = bounds m'"
    by (rule conjunct1 [OF heap_stays_tiled [OF _ _ _ _ r]]) (simp_all add: bare_def)
  then show ?thesis using r by blast
qed

text \<open>\<open>getmem\<close> takes the first free block that is large enough, in address order: exactly when
  there is none it returns \<open>SYSERR\<close> and changes nothing; otherwise it returns the block's address,
  which holds the rounded size, none of whose bytes remain free, and changes no word outside the
  list head and the free blocks.\<close>

theorem getmem_first_fit:
  assumes "heap m bs" "sane_size n"
  shows "((\<forall>(a, k) \<in> set bs. k < roundmb n) \<longleftrightarrow> getmem n m = Some (ADDR_SYSERR, m)) \<and>
    (\<forall>a bs'. first_fit (roundmb n) bs = Some (a, bs') \<longrightarrow>
      (\<exists>m'. getmem n m = Some (a, m') \<and> heap m' bs' \<and> area a (roundmb n) \<subseteq> free_area bs \<and>
        free_area bs' = free_area bs - area a (roundmb n) \<and> n \<le> roundmb n \<and>
        only_changed ({memlist m, memlist m + 4} \<union> free_area bs) m m'))"
proof -
  note n = sane_sizeD [OF assms(2)] and d = heapD [OF assms(1)]
  note g = getmem_ok [OF assms(1) n(1,2)]
  have "\<exists>m'. getmem n m = Some (a, m') \<and> heap m' bs' \<and> area a (roundmb n) \<subseteq> free_area bs \<and>
        free_area bs' = free_area bs - area a (roundmb n) \<and> n \<le> roundmb n \<and>
        only_changed ({memlist m, memlist m + 4} \<union> free_area bs) m m'"
    if "first_fit (roundmb n) bs = Some (a, bs')" for a bs'
    using g first_fit_ok [OF that d(2) n(3) u32_max] roundmb_bounds(2) [OF n(2,1)] that
    by (auto simp: word_le_nat_alt)
  moreover have "(\<forall>(a, k) \<in> set bs. k < roundmb n) \<longleftrightarrow> getmem n m = Some (ADDR_SYSERR, m)"
  proof (cases "first_fit (roundmb n) bs")
    case None
    then show ?thesis using g first_fit_none [of "roundmb n" bs] by auto
  next
    case (Some r)
    obtain a bs' where r: "r = (a, bs')" by (cases r)
    note ff = first_fit_ok [OF Some [unfolded r] d(2) n(3) u32_max]
    have "a \<in> free_area bs" using ff n(4) by (auto simp: area_bounds)
    then have "a \<noteq> ADDR_SYSERR" using below_not_max free_area_bounds [OF d(2)] by blast
    then show ?thesis using g first_fit_none [of "roundmb n" bs] Some r by auto
  qed
  ultimately show ?thesis by blast
qed

lemma getmem_first_fit_witness:
  "\<exists>m'. getmem 100 started = Some (65536, m') \<and> heap m' [(65640, 4128664)]"
proof -
  have "first_fit (roundmb 100) [(65536, 4128768)] = Some (65536, [(65640, 4128664)])"
    by (simp add: roundmb_100)
  then show ?thesis using getmem_first_fit [OF started_heap, of 100] by (auto simp: sane_size_def)
qed

text \<open>\<open>getstk\<close> cuts the stack from the top end of the highest block that fits, and returns the
  address of its last word; it returns \<open>SYSERR\<close>, changing nothing, exactly when no block fits.\<close>

theorem getstk_highest_fit:
  assumes "heap m bs" "sane_size n"
  shows "case last_fit (roundmb n) bs of
      None \<Rightarrow> getstk n m = Some (ADDR_SYSERR, m)
    | Some (a, bs') \<Rightarrow> \<exists>m'. getstk n m = Some (a + roundmb n - 4, m') \<and> heap m' bs' \<and>
        free_area bs' = free_area bs - area a (roundmb n) \<and> area a (roundmb n) \<subseteq> free_area bs \<and>
        unat a + unat (roundmb n) \<le> unat (maxheap m)"
proof -
  note n = sane_sizeD [OF assms(2)] and d = heapD [OF assms(1)]
  note g = getstk_ok [OF assms(1) n(1,2)]
  show ?thesis
  proof (cases "last_fit (roundmb n) bs")
    case None
    then show ?thesis using g by simp
  next
    case (Some r)
    obtain a bs' where r: "r = (a, bs')" by (cases r)
    show ?thesis using g last_fit_ok [OF Some [unfolded r] d(2) n(3) u32_max] Some r by auto
  qed
qed

lemma getstk_highest_fit_witness:
  "\<exists>m'. getstk 100 started = Some (4194300, m') \<and> heap m' [(65536, 4128664)]"
proof -
  have "last_fit (roundmb 100) [(65536, 4128768)] = Some (4194200, [(65536, 4128664)])"
    by (simp add: roundmb_100)
  then show ?thesis using getstk_highest_fit [OF started_heap, of 100] by (auto simp: sane_size_def roundmb_100)
qed

text \<open>C23.  \<open>freemem\<close> accepts a block inside the heap exactly when none of its bytes is free already:
  then it puts it in its place in the list, merged with the neighbours it touches, and otherwise
  (a second free, an overlap) it returns \<open>SYSERR\<close> and changes nothing.\<close>

theorem freemem_checks_and_merges:
  assumes "heap m bs" "sane_size n"
    and "unat (minheap m) \<le> unat a" "unat a + unat (roundmb n) \<le> unat (maxheap m)"
  shows "(area a (roundmb n) \<inter> free_area bs \<noteq> {} \<longleftrightarrow> freemem a n m = Some (SYSERR, m)) \<and>
    (area a (roundmb n) \<inter> free_area bs = {} \<longleftrightarrow>
      (\<exists>m'. freemem a n m = Some (OK, m') \<and> heap m' (free_block a (roundmb n) bs) \<and>
        only_changed ({memlist m, memlist m + 4} \<union> free_area bs \<union> area a (roundmb n)) m m'))"
proof -
  note n = sane_sizeD [OF assms(2)]
  note ok = freemem_ok [OF assms(1) n(1,2) assms(3,4)] and no = freemem_refuses [OF assms(1) n(1,2) assms(3,4)]
  show ?thesis using ok no by fastforce
qed

lemma freemem_checks_and_merges_witness: "freemem 70000 100 started = Some (SYSERR, started)"
proof -
  have "area 70000 (roundmb 100) \<inter> free_area [(65536, 4128768)] \<noteq> {}"
  proof -
    have "70000 \<in> area 70000 (roundmb 100)" "70000 \<in> free_area [(65536, 4128768)]"
      by (simp_all add: area_bounds roundmb_100)
    then show ?thesis by blast
  qed
  then show ?thesis
    using freemem_checks_and_merges [OF started_heap, of 100 70000]
    by (simp add: sane_size_def started_limits roundmb_100)
qed

lemma first_fit_undo:
  "first_fit n bs = Some (a, bs') \<Longrightarrow> blocks_ok lo bs hi \<Longrightarrow> good_size n \<Longrightarrow> hi < 4294967296 \<Longrightarrow>
   free_block a n bs' = bs \<and> lo < unat a"
proof (induction bs arbitrary: lo bs')
  case Nil
  then show ?case by simp
next
  case (Cons b bs)
  obtain c k where b: "b = (c, k)" by (cases b)
  have ok: "lo < unat c" "8 \<le> unat k" "unat c + unat k \<le> hi" "blocks_ok (unat c + unat k) bs hi"
    using Cons.prems(2) by (auto simp: b)
  have ck: "unat (c + k) = unat c + unat k" using ok(3) Cons.prems(4) by (intro unat_add_small) simp
  consider "k = n" | "k \<noteq> n" "n < k" | "k < n" by fastforce
  then show ?case
  proof cases
    case 1
    then have e: "a = c" "bs' = bs" using Cons.prems(1) by (auto simp: b)
    have "join_next c n bs = (c, n) # bs" using ok(4) ck 1 by (cases bs) auto
    moreover have "free_block c n bs = join_next c n bs"
      using ok(4) by (cases bs) (auto simp: word_less_nat_alt)
    ultimately show ?thesis using e ok(1) 1 by (simp add: b)
  next
    case 2
    then have e: "a = c" "bs' = (c + n, k - n) # bs" using Cons.prems(1) by (auto simp: b)
    have "unat (c + n) = unat c + unat n"
      using 2 ok(3) Cons.prems(4) by (intro unat_add_small) (simp add: word_less_nat_alt)
    then have "\<not> c + n < c" by (simp add: word_less_nat_alt)
    then show ?thesis using e ok(1) by (simp add: b)
  next
    case 3
    then obtain r where r: "first_fit n bs = Some (a, r)" "bs' = (c, k) # r"
      using Cons.prems(1) by (auto simp: b split: if_splits)
    note IH = Cons.IH [OF r(1) ok(4) Cons.prems(3,4)]
    then have "c < a" "c + k \<noteq> a" using ck by (auto simp: word_less_nat_alt)
    then show ?thesis using IH r(2) ok(1) by (simp add: b)
  qed
qed

lemma last_fit_undo:
  "last_fit n bs = Some (a, bs') \<Longrightarrow> blocks_ok lo bs hi \<Longrightarrow> good_size n \<Longrightarrow> hi < 4294967296 \<Longrightarrow>
   free_block a n bs' = bs"
proof (induction bs arbitrary: lo bs')
  case Nil
  then show ?case by simp
next
  case (Cons b bs)
  obtain c k where b: "b = (c, k)" by (cases b)
  have ok: "8 \<le> unat k" "unat c + unat k \<le> hi" "blocks_ok (unat c + unat k) bs hi"
    using Cons.prems(2) by (auto simp: b)
  have ck: "unat (c + k) = unat c + unat k" using ok(2) Cons.prems(4) by (intro unat_add_small) simp
  have jn: "join_next c k bs = (c, k) # bs" using ok(3) ck by (cases bs) auto
  show ?case
  proof (cases "last_fit n bs")
    case (Some q)
    obtain r where r: "q = (a, r)" "bs' = (c, k) # r" using Some Cons.prems(1) by (cases q) (auto simp: b)
    have l: "last_fit n bs = Some (a, r)" using Some r by simp
    have "c < a" "c + k \<noteq> a"
      using last_fit_ok [OF l ok(3) Cons.prems(3,4)] ck by (auto simp: word_less_nat_alt)
    then show ?thesis using Cons.IH [OF l ok(3) Cons.prems(3,4)] r(2) by (simp add: b)
  next
    case None
    consider "k = n" | "k \<noteq> n" "n < k" using None Cons.prems(1) by (fastforce simp: b split: if_splits)
    then show ?thesis
    proof cases
      case 1
      moreover have "free_block c n bs = join_next c n bs"
        using ok(3) by (cases bs) (auto simp: word_less_nat_alt)
      ultimately show ?thesis using None Cons.prems(1) jn by (auto simp: b)
    next
      case 2
      then have e: "a = c + (k - n)" "bs' = (c, k - n) # bs" using None Cons.prems(1) less_not_sym [OF 2(2)] by (simp_all add: b)
      have kn: "unat (k - n) = unat k - unat n" "unat n < unat k"
        using 2 by (auto simp: unat_sub word_less_nat_alt word_le_nat_alt)
      have "unat (c + (k - n)) = unat c + unat (k - n)"
        using kn ok(2) Cons.prems(4) by (intro unat_add_small) simp
      then have "c < a" using kn e(1) by (simp add: word_less_nat_alt)
      then show ?thesis using e jn by (simp add: b)
    qed
  qed
qed

lemma disjoint_after: "B = A - X \<Longrightarrow> X \<inter> B = {}" for A :: "'a set"
  by auto

text \<open>C24.  Allocation and release are inverse: a block obtained by \<open>getmem\<close> and given back with
  \<open>freemem\<close> for the same size leaves exactly the free list there was, splits undone and counts
  included; the same for a stack obtained by \<open>getstk\<close> and given back with \<open>freestk\<close>.\<close>

theorem free_undoes_get:
  assumes "heap m bs" "sane_size n"
  shows "(\<forall>a m1. getmem n m = Some (a, m1) \<and> a \<noteq> ADDR_SYSERR \<longrightarrow> (\<exists>m2. freemem a n m1 = Some (OK, m2) \<and> heap m2 bs)) \<and>
    (\<forall>p m1. getstk n m = Some (p, m1) \<and> p \<noteq> ADDR_SYSERR \<longrightarrow> (\<exists>m2. freestk p n m1 = Some (OK, m2) \<and> heap m2 bs))"
proof -
  note n = sane_sizeD [OF assms(2)] and d = heapD [OF assms(1)]
  have fb: "8 \<le> unat (roundmb n)" "roundmb (roundmb n) = roundmb n"
    using n(3,4) by (auto intro: roundmb_id simp: good_size_def)
  have undo: "\<exists>m2. freemem c k m1 = Some (OK, m2) \<and> heap m2 bs"
    if "heap m1 bs'" "only_changed S m m1" "area c (roundmb n) \<subseteq> free_area bs" "roundmb k = roundmb n" "sane_size k"
      "free_area bs' = free_area bs - area c (roundmb n)" "free_block c (roundmb n) bs' = bs" for S c k bs' m1
  proof -
    have "area c (roundmb n) \<subseteq> bounds m1"
      using that(3) free_in_bounds [OF assms(1)] only_changedD(3,4) [OF that(2)] by (auto simp: bounds_def)
    moreover have "area c (roundmb n) \<noteq> {}" using call_region_nonempty [OF assms(2)] .
    ultimately show ?thesis
      using freemem_law [OF that(1,5), of c] disjoint_after [OF that(6)] that(4,7) by auto
  qed
  have "\<exists>m2. freemem a n m1 = Some (OK, m2) \<and> heap m2 bs"
    if g: "getmem n m = Some (a, m1)" "a \<noteq> ADDR_SYSERR" for a m1
  proof (cases "first_fit (roundmb n) bs")
    case None
    then show ?thesis using getmem_ok [OF assms(1) n(1,2)] g by simp
  next
    case (Some r)
    obtain bs' where r: "r = (a, bs')" "heap m1 bs'" "only_changed ({memlist m, memlist m + 4} \<union> free_area bs) m m1"
      using getmem_ok [OF assms(1) n(1,2)] g Some by (cases r) auto
    show ?thesis
      using undo [OF r(2,3) _ refl assms(2)] first_fit_ok [OF Some [unfolded r] d(2) n(3) u32_max]
        first_fit_undo [OF Some [unfolded r] d(2) n(3) u32_max] by blast
  qed
  moreover have "\<exists>m2. freestk p n m1 = Some (OK, m2) \<and> heap m2 bs"
    if g: "getstk n m = Some (p, m1)" "p \<noteq> ADDR_SYSERR" for p m1
  proof (cases "last_fit (roundmb n) bs")
    case None
    then show ?thesis using getstk_ok [OF assms(1) n(1,2)] g by simp
  next
    case (Some r)
    obtain c bs' where r: "r = (c, bs')" "p = c + roundmb n - 4" "heap m1 bs'"
      "only_changed ({memlist m, memlist m + 4} \<union> free_area bs) m m1"
      using getstk_ok [OF assms(1) n(1,2)] g Some by (cases r) auto
    have c: "p - roundmb n + 4 = c" using r(2) by simp
    show ?thesis
      unfolding freestk_def c
      using undo [OF r(3,4) _ fb(2) n(5)] last_fit_ok [OF Some [unfolded r(1)] d(2) n(3) u32_max]
        last_fit_undo [OF Some [unfolded r(1)] d(2) n(3) u32_max] by blast
  qed
  ultimately show ?thesis by blast
qed

lemma free_undoes_get_witness:
  "\<exists>m1 m2. getmem 100 started = Some (65536, m1) \<and> freemem 65536 100 m1 = Some (OK, m2) \<and> heap m2 [(65536, 4128768)]"
  using started_getmem free_undoes_get [OF started_heap, of 100] by (fastforce simp: sane_size_def)

text \<open>A request of more than \<open>0xFFFFFFF8\<close> bytes is not refused: \<open>roundmb\<close> wraps it to zero,
  \<open>getmem\<close> then returns the address of the first free block as if the request had been met, and the
  block stays on the free list, so the next request can be given the same memory.\<close>

theorem getmem_huge_request_wraps:
  assumes "heap m ((a, k) # bs)" "4294967288 < unat nbytes"
  shows "getmem nbytes m = Some (a, m) \<and> a \<in> free_area ((a, k) # bs)"
proof -
  have "8 \<le> unat k" using heapD(2) [OF assms(1)] by simp
  then show ?thesis using getmem_huge [OF assms] by (simp add: area_bounds)
qed

lemma getmem_huge_request_wraps_witness: "getmem 4294967295 started = Some (65536, started)"
  using getmem_huge_request_wraps [OF started_heap, of 4294967295] by simp

text \<open>C28. The three allocator calls return for every argument, on every well-formed heap: their loops
  over the free list end.\<close>

theorem allocator_returns:
  assumes "heap m bs"
  shows "(\<exists>r. getmem n m = Some r) \<and> (\<exists>r. getstk n m = Some r) \<and> (\<exists>r. freemem a n m = Some r)"
proof (intro conjI)
  note d = heapD [OF assms]
  consider "n = 0" | "n \<noteq> 0" "unat n \<le> 4294967288" | "4294967288 < unat n" by linarith
  then show "\<exists>r. getmem n m = Some r"
  proof cases
    case 2
    then show ?thesis using getmem_ok [OF assms 2] by (auto split: option.splits)
  next
    case 3
    show ?thesis
    proof (cases bs)
      case Nil
      then have "mnext (memlist m) m = NULL" using d(1) by simp
      then show ?thesis by (simp add: getmem_def getmem_loop.simps)
    next
      case (Cons b bs')
      then show ?thesis using getmem_huge [of m "fst b" "snd b" bs' n] assms 3 by simp
    qed
  qed (simp add: getmem_def)
  show "\<exists>r. getstk n m = Some r"
    using getstk_loop_scan [OF d(1), of "roundmb n" NULL NULL]
    by (cases "stk_scan (roundmb n) (memlist m) bs NULL NULL") (simp add: getstk_def Let_def split: prod.splits)
  show "\<exists>r. freemem a n m = Some r"
    using freemem_loop_pos [OF d(1), of a]
    by (cases "free_pos a (memlist m) bs") (simp add: freemem_def Let_def split: prod.splits)
qed

lemma allocator_returns_witness:
  "(\<exists>r. getmem 0xffffffff started = Some r) \<and> (\<exists>r. getstk 0xffffffff started = Some r) \<and>
     (\<exists>r. freemem 0xffffffff 1 started = Some r)"
  using allocator_returns [OF started_heap, of "0xffffffff" 0] allocator_returns [OF started_heap, of 1 "0xffffffff"]
  by blast

end
