(* ===== verification/Tty.thy ===== *)
theory Tty
  imports Semaphores
begin

text \<open>
  The terminal driver: \<^verbatim>\<open>device/tty/*.c\<close> and \<^verbatim>\<open>include/tty.h\<close>.

  A \<open>ttycblk\<close> keeps each buffer as a map from offsets to characters and each pointer into it
  as its offset.  A store or a read outside the buffer would hit the neighbouring fields of the
  structure; the model does not follow it there: the operation is \<open>None\<close>.  Characters are
  signed bytes, as \<open>char\<close> is on the x86: \<open>sint ch < 32\<close> is the test \<open>ch < TY_BLANK\<close>.

  The serial chip is the record \<open>uart\<close>: \<open>rx\<close> are the characters received and not yet read
  (the data-ready bit of \<open>lsr\<close> says whether there are any; a read of \<open>buffer\<close> takes the first),
  \<open>tx\<close> those written to \<open>buffer\<close> so far.

  \<open>ttyputc\<close> and \<open>ttygetc\<close> wait on a semaphore and may lose the processor there; what is left to
  do is then a list of \<open>put_item\<close>s or a \<open>read_state\<close>, and \<open>ttyput_run\<close> and \<open>ttyread_run\<close>
  continue it.
\<close>

abbreviation (input) TY_IBUFLEN :: int where "TY_IBUFLEN \<equiv> 128"
abbreviation (input) TY_OBUFLEN :: int where "TY_OBUFLEN \<equiv> 64"
abbreviation (input) TY_EBUFLEN :: int where "TY_EBUFLEN \<equiv> 20"

abbreviation (input) TY_BACKSP :: u8 where "TY_BACKSP \<equiv> 8"
abbreviation (input) TY_BELL :: u8 where "TY_BELL \<equiv> 7"
abbreviation (input) TY_EOFCH :: u8 where "TY_EOFCH \<equiv> 4"
abbreviation (input) TY_BLANK :: u8 where "TY_BLANK \<equiv> 32"
abbreviation (input) TY_NEWLINE :: u8 where "TY_NEWLINE \<equiv> 10"
abbreviation (input) TY_RETURN :: u8 where "TY_RETURN \<equiv> 13"
abbreviation (input) TY_STOPCH :: u8 where "TY_STOPCH \<equiv> 19"
abbreviation (input) TY_STRTCH :: u8 where "TY_STRTCH \<equiv> 17"
abbreviation (input) TY_KILLCH :: u8 where "TY_KILLCH \<equiv> 21"
abbreviation (input) TY_UPARROW :: u8 where "TY_UPARROW \<equiv> 94"

datatype tymode = TY_IMRAW | TY_IMCOOKED | TY_IMCBREAK

record ttycblk =
  tyihead :: int
  tyitail :: int
  tyibuff :: "int \<Rightarrow> u8"
  tyisem :: int
  tyohead :: int
  tyotail :: int
  tyobuff :: "int \<Rightarrow> u8"
  tyosem :: int
  tyehead :: int
  tyetail :: int
  tyebuff :: "int \<Rightarrow> u8"
  tyimode :: tymode
  tyiecho :: bool
  tyieback :: bool
  tyevis :: bool
  tyecrlf :: bool
  tyicrlf :: bool
  tyierase :: bool
  tyierasec :: u8
  tyeof :: bool
  tyeofch :: u8
  tyikill :: bool
  tyikillc :: u8
  tyicursor :: int
  tyoflow :: bool
  tyoheld :: bool
  tyostop :: u8
  tyostart :: u8
  tyocrlf :: bool
  tyifullc :: u8

record uart =
  rx :: "u8 list"
  tx :: "u8 list"
  ier :: u8
  iir :: u8
  fcr :: u8
  lcr :: u8
  dll :: u8
  dlm :: u8

definition uart_read :: "uart \<Rightarrow> u8 \<times> uart" where
  "uart_read u = (case rx u of [] \<Rightarrow> (0, u) | c # cs \<Rightarrow> (c, u\<lparr>rx := cs\<rparr>))"

definition uart_write :: "u8 \<Rightarrow> uart \<Rightarrow> uart" where
  "uart_write c u = u\<lparr>tx := tx u @ [c]\<rparr>"

definition ttykickout :: "uart \<Rightarrow> uart" where
  "ttykickout u = u\<lparr>ier := or 1 2\<rparr>"    \<comment> \<open>\<open>UART_IER_ERBFI | UART_IER_ETBEI\<close>\<close>

text \<open>\<open>*typtr->tyitail++ = ch\<close> and the wrap that usually follows it.\<close>

definition put_in :: "u8 \<Rightarrow> ttycblk \<Rightarrow> ttycblk option" where
  "put_in ch t =
     (if 0 \<le> tyitail t \<and> tyitail t < TY_IBUFLEN
      then Some (t\<lparr>tyibuff := (tyibuff t)(tyitail t := ch), tyitail := tyitail t + 1\<rparr>)
      else None)"

definition wrap_in :: "ttycblk \<Rightarrow> ttycblk" where
  "wrap_in t = (if tyitail t \<ge> TY_IBUFLEN then t\<lparr>tyitail := 0\<rparr> else t)"

definition eputc :: "u8 \<Rightarrow> ttycblk \<times> uart \<Rightarrow> ttycblk \<times> uart" where
  "eputc ch = (\<lambda>(t, u).
     let t = t\<lparr>tyebuff := (tyebuff t)(tyetail t := ch), tyetail := tyetail t + 1\<rparr>;
         t = (if tyetail t \<ge> TY_EBUFLEN then t\<lparr>tyetail := 0\<rparr> else t)
     in (t, ttykickout u))"

definition echoch :: "u8 \<Rightarrow> ttycblk \<times> uart \<Rightarrow> ttycblk \<times> uart" where
  "echoch ch = (\<lambda>(t, u).
     if (ch = TY_NEWLINE \<or> ch = TY_RETURN) \<and> tyecrlf t then
       eputc TY_NEWLINE (eputc TY_RETURN (t, u))
     else if (sint ch < 32 \<or> ch = 127) \<and> tyevis t then
       eputc (ch + 64) (eputc TY_UPARROW (t, u))
     else eputc ch (t, u))"

text \<open>One erased column: the three \<open>eputc\<close> calls that \<open>erase1\<close> repeats.\<close>

definition rub_out :: "ttycblk \<times> uart \<Rightarrow> ttycblk \<times> uart" where
  "rub_out tu =
     (let (t, u) = eputc TY_BACKSP tu in
      if tyieback t then eputc TY_BACKSP (eputc TY_BLANK (t, u)) else (t, u))"

definition back1 :: "ttycblk \<Rightarrow> ttycblk" where
  "back1 t =
     (let t = t\<lparr>tyitail := tyitail t - 1\<rparr> in
      if tyitail t < 0 then t\<lparr>tyitail := tyitail t + TY_IBUFLEN\<rparr> else t)"

definition erase1 :: "ttycblk \<times> uart \<Rightarrow> ttycblk \<times> uart" where
  "erase1 = (\<lambda>(t, u).
     let t = back1 t; ch = tyibuff t (tyitail t) in
     if tyiecho t then
       if sint ch < 32 \<or> ch = 127 then
         (let (t, u) = (if tyevis t then rub_out (t, u) else (t, u)) in rub_out (t, u))
       else rub_out (t, u)
     else (t, u))"

definition ttyhandle_in ::
    "ttycblk \<Rightarrow> uart \<Rightarrow> 'z kstate_scheme \<Rightarrow> (ttycblk \<times> uart \<times> 'z kstate_scheme) option" where
  "ttyhandle_in t u s =
     (let (ch, u) = uart_read u;
          avail = semcount (tyisem t) s;
          avail = (if avail < 0 then 0 else avail) in
      if tyimode t = TY_IMRAW then
        if avail \<ge> TY_IBUFLEN then Some (t, u, s)
        else do {
          t \<leftarrow> put_in ch t;
          let t = (if tyotail t \<ge> TY_OBUFLEN then t\<lparr>tyotail := 0\<rparr> else t);
          (r, s) \<leftarrow> signal (tyisem t) s;
          Some (t, u, s)
        }
      else
        let ch = (if ch = TY_RETURN \<and> tyicrlf t then TY_NEWLINE else ch) in
        if tyoflow t \<and> ch = tyostart t then Some (t\<lparr>tyoheld := False\<rparr>, ttykickout u, s)
        else if tyoflow t \<and> ch = tyostop t then Some (t\<lparr>tyoheld := True\<rparr>, u, s)
        else
          let t = t\<lparr>tyoheld := False\<rparr> in
          if tyimode t = TY_IMCBREAK then
            if avail \<ge> TY_IBUFLEN then
              let (t, u) = eputc (tyifullc t) (t, u) in Some (t, u, s)
            else do {
              t \<leftarrow> put_in ch t;
              let t = wrap_in t;
              let (t, u) = (if tyiecho t then echoch ch (t, u) else (t, u));
              Some (t, u, s)
            }
          else if ch = tyikillc t \<and> tyikill t then
            let t = t\<lparr>tyitail := tyitail t - tyicursor t\<rparr>;
                t = (if tyitail t < 0 then t\<lparr>tyihead := tyihead t + TY_IBUFLEN\<rparr> else t);
                t = t\<lparr>tyicursor := 0\<rparr>;
                (t, u) = eputc TY_NEWLINE (eputc TY_RETURN (t, u))
            in Some (t, u, s)
          else if ch = tyierasec t \<and> tyierase t then
            if tyicursor t > 0 then
              let (t, u) = erase1 (t\<lparr>tyicursor := tyicursor t - 1\<rparr>, u) in Some (t, u, s)
            else Some (t, u, s)
          else if ch = TY_NEWLINE \<or> ch = TY_RETURN then do {
            let (t, u) = (if tyiecho t then echoch ch (t, u) else (t, u));
            t \<leftarrow> put_in ch t;
            let t = wrap_in t;
            (r, s) \<leftarrow> signaln (tyisem t) (tyicursor t + 1) s;
            Some (t\<lparr>tyicursor := 0\<rparr>, u, s)
          }
          else
            let avail = semcount (tyisem t) s;
                avail = (if avail < 0 then 0 else avail) in
            if avail + tyicursor t \<ge> TY_IBUFLEN - 1 then
              let (t, u) = eputc (tyifullc t) (t, u) in Some (t, u, s)
            else if ch = tyeofch t \<and> tyeof t then
              let (t, u) = (if tyiecho t then echoch ch (t, u) else (t, u)) in
              if tyicursor t \<noteq> 0 then Some (t, u, s)
              else do {
                t \<leftarrow> put_in ch t;
                (r, s) \<leftarrow> signal (tyisem t) s;
                Some (t, u, s)
              }
            else do {
              let (t, u) = (if tyiecho t then echoch ch (t, u) else (t, u));
              let t = t\<lparr>tyicursor := tyicursor t + 1\<rparr>;
              t \<leftarrow> put_in ch t;
              Some (wrap_in t, u, s)
            })"

text \<open>The two transmit loops of \<open>ttyhandle_out\<close>, on the space left in the chip's FIFO.\<close>

fun send_echo :: "nat \<Rightarrow> ttycblk \<Rightarrow> uart \<Rightarrow> nat \<times> ttycblk \<times> uart" where
  "send_echo 0 t u = (0, t, u)"
| "send_echo (Suc n) t u =
     (if tyehead t \<noteq> tyetail t then
        (let u = uart_write (tyebuff t (tyehead t)) u;
             t = t\<lparr>tyehead := tyehead t + 1\<rparr>;
             t = (if tyehead t \<ge> TY_EBUFLEN then t\<lparr>tyehead := 0\<rparr> else t)
         in send_echo n t u)
      else (Suc n, t, u))"

fun send_out :: "nat \<Rightarrow> int \<Rightarrow> int \<Rightarrow> ttycblk \<Rightarrow> uart \<Rightarrow> int \<times> ttycblk \<times> uart" where
  "send_out 0 avail ochars t u = (ochars, t, u)"
| "send_out (Suc n) avail ochars t u =
     (if avail > 0 then
        (let u = uart_write (tyobuff t (tyohead t)) u;
             t = t\<lparr>tyohead := tyohead t + 1\<rparr>;
             t = (if tyohead t \<ge> TY_OBUFLEN then t\<lparr>tyohead := 0\<rparr> else t)
         in send_out n (avail - 1) (ochars + 1) t u)
      else (ochars, t, u))"

definition ttyhandle_out ::
    "ttycblk \<Rightarrow> uart \<Rightarrow> 'z kstate_scheme \<Rightarrow> (ttycblk \<times> uart \<times> 'z kstate_scheme) option" where
  "ttyhandle_out t u s =
     (if tyoheld t then Some (t, u, s)
      else if tyehead t = tyetail t \<and> semcount (tyosem t) s \<ge> TY_OBUFLEN then
        Some (t, u\<lparr>ier := and (ier u) (not 2)\<rparr>, s)
      else
        let (uspace, t, u) = send_echo 16 t u;
            avail = TY_OBUFLEN - semcount (tyosem t) s;
            (ochars, t, u) = send_out uspace avail 0 t u in
        if ochars > 0 then do {
          (r, s) \<leftarrow> signaln (tyosem t) ochars s;
          Some (t, u, s)
        }
        else Some (t, u, s))"

text \<open>The \<open>while\<close> loop of \<open>ttyhandler\<close>: one call per character the chip holds.\<close>

partial_function (option) ttyhandle_all ::
    "ttycblk \<Rightarrow> uart \<Rightarrow> 'z kstate_scheme \<Rightarrow> (ttycblk \<times> uart \<times> 'z kstate_scheme) option" where
  "ttyhandle_all t u s =
     (if rx u \<noteq> [] then do { (t, u, s) \<leftarrow> ttyhandle_in t u s; ttyhandle_all t u s }
      else Some (t, u, s))"

definition ttyhandler ::
    "ttycblk \<Rightarrow> uart \<Rightarrow> 'z kstate_scheme \<Rightarrow> (ttycblk \<times> uart \<times> 'z kstate_scheme) option" where
  "ttyhandler t u s =
     (if and (iir u) 1 \<noteq> 0 then Some (t, u, s)
      else
        let id = and (iir u) 14 in
        if id = 6 then Some (t, u, s)
        else if id = 4 \<or> id = 12 then do {
          (r, s) \<leftarrow> resched_cntl DEFER_START s;
          (t, u, s) \<leftarrow> ttyhandle_all t u s;
          (r, s) \<leftarrow> resched_cntl DEFER_STOP s;
          Some (t, u, s)
        }
        else if id = 2 then ttyhandle_out t u s
        else Some (t, u, s))"

definition ttyinit :: "ttycblk \<Rightarrow> uart \<Rightarrow> 'z kstate_scheme \<Rightarrow> int \<times> ttycblk \<times> uart \<times> 'z kstate_scheme" where
  "ttyinit t u s =
     (let t = t\<lparr>tyitail := 0, tyihead := 0\<rparr>;
          (isem, s) = semcreate 0 s;
          t = t\<lparr>tyisem := isem, tyotail := 0, tyohead := 0\<rparr>;
          (osem, s) = semcreate TY_OBUFLEN s;
          t = t\<lparr>tyosem := osem, tyetail := 0, tyehead := 0, tyimode := TY_IMCOOKED,
                tyiecho := True, tyieback := True, tyevis := True, tyecrlf := True, tyicrlf := True,
                tyierase := True, tyierasec := TY_BACKSP, tyeof := True, tyeofch := TY_EOFCH,
                tyikill := True, tyikillc := TY_KILLCH, tyicursor := 0, tyoflow := True,
                tyoheld := False, tyostop := TY_STOPCH, tyostart := TY_STRTCH, tyocrlf := True,
                tyifullc := TY_BELL\<rparr>;
          u = u\<lparr>lcr := 0x80\<rparr>;
          u = u\<lparr>dlm := 0x00\<rparr>;
          u = u\<lparr>dll := 0x18\<rparr>;
          u = u\<lparr>lcr := 0x03\<rparr>;
          u = u\<lparr>fcr := 0x00\<rparr>;
          u = u\<lparr>fcr := or 0x01 (or 0x02 (or 0x04 0x80))\<rparr>
      in (OK, t, ttykickout u, s))"

subsection \<open>Writing\<close>

datatype put_item =
    Putc u8        \<comment> \<open>call \<open>ttyputc\<close> with the character\<close>
  | Await u8       \<comment> \<open>at its \<open>wait\<close>\<close>
  | Store u8       \<comment> \<open>after its \<open>wait\<close>\<close>

definition ttyputc_store :: "u8 \<Rightarrow> ttycblk \<Rightarrow> uart \<Rightarrow> ttycblk \<times> uart" where
  "ttyputc_store ch t u =
     (let t = t\<lparr>tyobuff := (tyobuff t)(tyotail t := ch), tyotail := tyotail t + 1\<rparr>;
          t = (if tyotail t \<ge> TY_OBUFLEN then t\<lparr>tyotail := 0\<rparr> else t)
      in (t, ttykickout u))"

fun put_weight :: "put_item \<Rightarrow> nat" where
  "put_weight (Putc c) = 5"
| "put_weight (Await c) = 2"
| "put_weight (Store c) = 1"

function ttyput_run :: "put_item list \<Rightarrow> ttycblk \<Rightarrow> uart \<Rightarrow> 'z kstate_scheme \<Rightarrow>
    ((int, put_item list) outcome \<times> ttycblk \<times> uart \<times> 'z kstate_scheme) option" where
  "ttyput_run [] t u s = Some (Ret OK, t, u, s)"
| "ttyput_run (Putc c # k) t u s =
     (if c = TY_NEWLINE \<and> tyocrlf t then ttyput_run (Await TY_RETURN # Await c # k) t u s
      else ttyput_run (Await c # k) t u s)"
| "ttyput_run (Await c # k) t u s =
     (case wait (tyosem t) s of
        None \<Rightarrow> None
      | Some (Switch _, s) \<Rightarrow> Some (Switch (Store c # k), t, u, s)
      | Some (Ret _, s) \<Rightarrow> ttyput_run (Store c # k) t u s)"
| "ttyput_run (Store c # k) t u s = (let (t, u) = ttyputc_store c t u in ttyput_run k t u s)"
  by pat_completeness auto
termination by (relation "measure (\<lambda>(k, _). sum_list (map put_weight k))") auto

definition ttyputc :: "u8 \<Rightarrow> ttycblk \<Rightarrow> uart \<Rightarrow> 'z kstate_scheme \<Rightarrow>
    ((int, put_item list) outcome \<times> ttycblk \<times> uart \<times> 'z kstate_scheme) option" where
  "ttyputc ch t u s = ttyput_run [Putc ch] t u s"

definition ttywrite :: "u8 list \<Rightarrow> int \<Rightarrow> ttycblk \<Rightarrow> uart \<Rightarrow> 'z kstate_scheme \<Rightarrow>
    ((int, put_item list) outcome \<times> ttycblk \<times> uart \<times> 'z kstate_scheme) option" where
  "ttywrite buff count t u s =
     (if count < 0 then Some (Ret SYSERR, t, u, s)
      else if count = 0 then Some (Ret OK, t, u, s)
      else ttyput_run (map Putc (take (nat count) buff)) t u s)"

subsection \<open>Reading\<close>

text \<open>\<open>ttygetc\<close> after its \<open>wait\<close>: the character is returned as a signed value.\<close>

definition ttygetc_take :: "ttycblk \<Rightarrow> (int \<times> ttycblk) option" where
  "ttygetc_take t =
     (if 0 \<le> tyihead t \<and> tyihead t < TY_IBUFLEN then
        let ch = tyibuff t (tyihead t);
            t = t\<lparr>tyihead := tyihead t + 1\<rparr>;
            t = (if tyihead t \<ge> TY_IBUFLEN then t\<lparr>tyihead := 0\<rparr> else t) in
        Some (if tyimode t = TY_IMCOOKED \<and> tyeof t \<and> ch = tyeofch t then EOF else sint ch, t)
      else None)"

definition ttygetc :: "ttycblk \<Rightarrow> 'z kstate_scheme \<Rightarrow> ((int, unit) outcome \<times> ttycblk \<times> 'z kstate_scheme) option" where
  "ttygetc t s = do {
     (r, s) \<leftarrow> wait (tyisem t) s;
     case r of
       Switch _ \<Rightarrow> Some (Switch (), t, s)
     | Ret _ \<Rightarrow> do { (v, t) \<leftarrow> ttygetc_take t; Some (Ret v, t, s) }
   }"

text \<open>
  Where \<open>ttyread\<close> is: in the loop of the uncooked modes with so many characters to go, before
  the first character of a line with that count, or within a line.  The characters already
  stored through \<open>buff\<close> are kept beside it.
\<close>

datatype read_state = RawLoop nat | FirstChar int | InLine nat | Finished int

definition after_getc :: "int \<Rightarrow> read_state \<Rightarrow> u8 list \<Rightarrow> read_state \<times> u8 list" where
  "after_getc v k buff =
     (let ch = word_of_int v :: u8 in
      case k of
        RawLoop n \<Rightarrow> (RawLoop (n - 1), buff @ [ch])
      | FirstChar count \<Rightarrow>
          if v = EOF then (Finished EOF, buff)
          else (if ch \<noteq> TY_NEWLINE \<and> ch \<noteq> TY_RETURN then InLine (nat (count - 1)) else InLine 0, buff @ [ch])
      | InLine n \<Rightarrow> (if ch \<noteq> TY_NEWLINE \<and> ch \<noteq> TY_RETURN then InLine (n - 1) else InLine 0, buff @ [ch])
      | Finished v \<Rightarrow> (Finished v, buff))"

fun reads_on :: "read_state \<Rightarrow> bool" where
  "reads_on (RawLoop n) \<longleftrightarrow> 0 < n"
| "reads_on (FirstChar count) \<longleftrightarrow> True"
| "reads_on (InLine n) \<longleftrightarrow> 0 < n"
| "reads_on (Finished v) \<longleftrightarrow> False"

fun read_result :: "read_state \<Rightarrow> u8 list \<Rightarrow> int" where
  "read_result (Finished v) buff = v"
| "read_result k buff = int (length buff)"

fun read_weight :: "read_state \<Rightarrow> nat" where
  "read_weight (RawLoop n) = n"
| "read_weight (FirstChar count) = Suc (nat count)"
| "read_weight (InLine n) = n"
| "read_weight (Finished v) = 0"

lemma after_getc_weight: "reads_on k \<Longrightarrow> read_weight (fst (after_getc v k buff)) < read_weight k"
  by (cases k) (auto simp: after_getc_def Let_def)

function ttyread_run :: "read_state \<Rightarrow> u8 list \<Rightarrow> ttycblk \<Rightarrow> 'z kstate_scheme \<Rightarrow>
    ((int \<times> u8 list, read_state \<times> u8 list) outcome \<times> ttycblk \<times> 'z kstate_scheme) option" where
  "ttyread_run k buff t s =
     (if reads_on k then
        (case ttygetc t s of
           None \<Rightarrow> None
         | Some (Switch _, t, s) \<Rightarrow> Some (Switch (k, buff), t, s)
         | Some (Ret v, t, s) \<Rightarrow>
             ttyread_run (fst (after_getc v k buff)) (snd (after_getc v k buff)) t s)
      else Some (Ret (read_result k buff, buff), t, s))"
  by pat_completeness auto
termination by (relation "measure (\<lambda>(k, _). read_weight k)") (auto simp: after_getc_weight)

declare ttyread_run.simps [simp del]

text \<open>The caller runs again after the \<open>wait\<close> of a \<open>ttygetc\<close>.\<close>

definition ttyread_resume :: "read_state \<Rightarrow> u8 list \<Rightarrow> ttycblk \<Rightarrow> 'z kstate_scheme \<Rightarrow>
    ((int \<times> u8 list, read_state \<times> u8 list) outcome \<times> ttycblk \<times> 'z kstate_scheme) option" where
  "ttyread_resume k buff t s = do {
     (v, t) \<leftarrow> ttygetc_take t;
     ttyread_run (fst (after_getc v k buff)) (snd (after_getc v k buff)) t s
   }"

definition ttyread :: "int \<Rightarrow> ttycblk \<Rightarrow> 'z kstate_scheme \<Rightarrow>
    ((int \<times> u8 list, read_state \<times> u8 list) outcome \<times> ttycblk \<times> 'z kstate_scheme) option" where
  "ttyread count t s =
     (if count < 0 then Some (Ret (SYSERR, []), t, s)
      else if tyimode t \<noteq> TY_IMCOOKED then
        if count = 0 then
          let avail = semcount (tyisem t) s in
          if avail = 0 then Some (Ret (0, []), t, s) else ttyread_run (RawLoop (nat avail)) [] t s
        else ttyread_run (RawLoop (nat count)) [] t s
      else ttyread_run (FirstChar count) [] t s)"

text \<open>\<open>Switch None\<close>: in the \<open>wait\<close> of \<open>TC_NEXTC\<close>; \<open>Switch (Some v)\<close>: in its \<open>signal\<close>, about to return \<open>v\<close>.\<close>

definition in_signal :: "(int, int) outcome \<Rightarrow> (int, int option) outcome" where
  "in_signal r = (case r of Ret v \<Rightarrow> Ret v | Switch v \<Rightarrow> Switch (Some v))"

definition ttycontrol :: "int \<Rightarrow> ttycblk \<Rightarrow> 'z kstate_scheme \<Rightarrow>
    ((int, int option) outcome \<times> ttycblk \<times> 'z kstate_scheme) option" where
  "ttycontrol func t s =
     (if func = 3 then do {        \<comment> \<open>\<open>TC_NEXTC\<close>\<close>
          (r, s) \<leftarrow> wait (tyisem t) s;
          case r of
            Switch _ \<Rightarrow> Some (Switch None, t, s)
          | Ret _ \<Rightarrow>
              if 0 \<le> tyitail t \<and> tyitail t < TY_IBUFLEN then do {
                let ch = tyibuff t (tyitail t);
                (r, s) \<leftarrow> signal (tyisem t) s;
                Some (in_signal (then_return r (sint ch)), t, s) }
              else None }
      else if func = 4 then Some (Ret OK, t\<lparr>tyimode := TY_IMRAW\<rparr>, s)       \<comment> \<open>\<open>TC_MODER\<close>\<close>
      else if func = 5 then Some (Ret OK, t\<lparr>tyimode := TY_IMCOOKED\<rparr>, s)    \<comment> \<open>\<open>TC_MODEC\<close>\<close>
      else if func = 6 then Some (Ret OK, t\<lparr>tyimode := TY_IMCBREAK\<rparr>, s)    \<comment> \<open>\<open>TC_MODEK\<close>\<close>
      else if func = 8 then Some (Ret (semcount (tyisem t) s), t, s)        \<comment> \<open>\<open>TC_ICHARS\<close>\<close>
      else if func = 9 then Some (Ret OK, t\<lparr>tyiecho := True\<rparr>, s)           \<comment> \<open>\<open>TC_ECHO\<close>\<close>
      else if func = 10 then Some (Ret OK, t\<lparr>tyiecho := False\<rparr>, s)         \<comment> \<open>\<open>TC_NOECHO\<close>\<close>
      else Some (Ret SYSERR, t, s))"

definition ttycontrol_nextc_resume :: "ttycblk \<Rightarrow> 'z kstate_scheme \<Rightarrow>
    ((int, int) outcome \<times> 'z kstate_scheme) option" where
  "ttycontrol_nextc_resume t s =
     (if 0 \<le> tyitail t \<and> tyitail t < TY_IBUFLEN then
do {
        let ch = tyibuff t (tyitail t);
        (r, s) \<leftarrow> signal (tyisem t) s;
        Some (then_return r (sint ch), s) }
      else None)"

end
