(* ===== verification/TtyProps.thy ===== *)
theory TtyProps
  imports Tty Scenario
begin

text \<open>
  What the terminal driver (\<open>Tty\<close>) does with the characters: the circular buffers as lists,
  line editing against a reference on lists, the order of output, and what a reader gets.
\<close>

subsection \<open>Circular buffers as lists\<close>

definition ring :: "int \<Rightarrow> (int \<Rightarrow> 'a) \<Rightarrow> int \<Rightarrow> nat \<Rightarrow> 'a list" where
  "ring N f h n = map (\<lambda>i. f ((h + int i) mod N)) [0..<n]"

lemma ring_Nil [simp]: "ring N f h 0 = []"
  by (simp add: ring_def)

lemma length_ring [simp]: "length (ring N f h n) = n"
  by (simp add: ring_def)

lemma ring_mod: "h mod N = h' mod N \<Longrightarrow> ring N f h n = ring N f h' n"
  unfolding ring_def by (metis (no_types, lifting) mod_add_left_eq)

lemma ring_Suc: "ring N f h (Suc n) = f (h mod N) # ring N f (h + 1) n"
  by (simp add: ring_def upt_conv_Cons map_Suc_upt [symmetric] algebra_simps del: upt_Suc)

lemma ring_snoc: "ring N f h (Suc n) = ring N f h n @ [f ((h + int n) mod N)]"
  by (simp add: ring_def)

lemma take_ring: "take k (ring N f h n) = ring N f h (min k n)"
  by (rule nth_equalityI) (simp_all add: ring_def)

lemma drop_ring: "drop k (ring N f h n) = ring N f (h + int k) (n - k)"
proof (induction k arbitrary: h n)
  case (Suc k)
  then show ?case by (cases n) (simp_all add: ring_Suc algebra_simps)
qed simp

lemma next_mod: "0 \<le> h \<Longrightarrow> h < N \<Longrightarrow> (h + 1) mod N = (if N \<le> h + 1 then 0 else h + 1) mod N" for h :: int
  by (cases "h + 1 = N") auto

lemma ring_distance:
  fixes h t N :: int
  assumes "0 \<le> h" "h < N" "0 \<le> t" "t < N" "h \<noteq> t"
  shows "nat ((t - h) mod N) = Suc (nat ((t - (h + 1)) mod N))"
proof (cases "h < t")
  case True
  then show ?thesis using assms by (simp add: mod_pos_pos_trivial)
next
  case False
  have "(t - h) mod N = t - h + N" "(t - (h + 1)) mod N = t - (h + 1) + N"
    using assms False mod_add_self2 [of "t - h" N] mod_add_self2 [of "t - (h + 1)" N]
      mod_pos_pos_trivial [of "t - h + N" N] mod_pos_pos_trivial [of "t - (h + 1) + N" N] by linarith+
  then show ?thesis using assms False by simp
qed

text \<open>A store at the free slot behind the last \<open>n\<close> elements extends the window.\<close>

lemma ring_store:
  assumes "0 \<le> p" "p < N" "int n < N"
  shows "ring N (f(p := c)) (p - int n) (Suc n) = ring N f (p - int n) n @ [c]"
proof -
  have "(p - int n + int i) mod N \<noteq> p" if "i < n" for i
  proof
    assume e: "(p - int n + int i) mod N = p"
    then have "(p - int n + int i) mod N = p mod N" using assms by simp
    then have "N dvd int n - int i" by (simp add: mod_eq_dvd_iff dvd_diff_commute)
    then show False using that assms(3) zdvd_imp_le [of N "int n - int i"] by simp
  qed
  then have "ring N (f(p := c)) (p - int n) n = ring N f (p - int n) n"
    by (simp add: ring_def)
  moreover have "(p - int n + int n) mod N = p" using assms by simp
  ultimately show ?thesis by (simp add: ring_snoc)
qed

subsection \<open>The input line\<close>

definition echo_only :: "ttycblk \<times> uart \<Rightarrow> ttycblk \<times> uart \<Rightarrow> bool" where
  "echo_only tu tu' \<longleftrightarrow> (\<exists>b e. fst tu' = (fst tu)\<lparr>tyebuff := b, tyetail := e\<rparr>) \<and>
     rx (snd tu') = rx (snd tu) \<and> tx (snd tu') = tx (snd tu)"

lemma echo_only_refl: "echo_only tu tu"
proof -
  have "fst tu = (fst tu)\<lparr>tyebuff := tyebuff (fst tu), tyetail := tyetail (fst tu)\<rparr>" by simp
  then show ?thesis unfolding echo_only_def by blast
qed

lemma echo_only_trans: "echo_only a b \<Longrightarrow> echo_only b c \<Longrightarrow> echo_only a c"
  unfolding echo_only_def by (elim exE conjE) (intro conjI exI, simp_all)

lemma echo_only_eputc: "echo_only tu (eputc ch tu)"
proof (cases tu)
  case (Pair t u)
  have "\<exists>b e. (if C then t\<lparr>tyebuff := x, tyetail := y, tyetail := z\<rparr> else t\<lparr>tyebuff := x, tyetail := y\<rparr>) =
      t\<lparr>tyebuff := b, tyetail := e\<rparr>" for C x y z
    by (auto intro: exI [of _ x])
  then show ?thesis by (auto simp: Pair echo_only_def eputc_def ttykickout_def Let_def)
qed

lemma echo_only_eputc2: "echo_only tu (eputc b (eputc a tu))"
  by (rule echo_only_trans [OF echo_only_eputc echo_only_eputc])

lemma echo_only_echoch: "echo_only tu (echoch ch tu)"
  by (cases tu) (simp add: echoch_def echo_only_eputc echo_only_eputc2)

lemma echo_onlyD:
  assumes "echo_only (t, u) (t', u')"
  shows "tyihead t' = tyihead t" "tyitail t' = tyitail t" "tyibuff t' = tyibuff t" "tyisem t' = tyisem t"
    "tyimode t' = tyimode t" "tyicursor t' = tyicursor t" "tyicrlf t' = tyicrlf t" "tyoflow t' = tyoflow t"
    "tyostart t' = tyostart t" "tyostop t' = tyostop t" "tyikill t' = tyikill t" "tyikillc t' = tyikillc t"
    "tyierase t' = tyierase t" "tyierasec t' = tyierasec t" "tyeof t' = tyeof t" "tyeofch t' = tyeofch t"
    "tyiecho t' = tyiecho t" "rx u' = rx u" "tx u' = tx u"
  using assms by (auto simp: echo_only_def)

text \<open>The characters typed since the last line end, not yet released to readers.\<close>

definition line :: "ttycblk \<Rightarrow> u8 list" where
  "line t = ring TY_IBUFLEN (tyibuff t) (tyitail t - tyicursor t) (nat (tyicursor t))"

definition line_ok :: "ttycblk \<Rightarrow> bool" where
  "line_ok t \<longleftrightarrow> tyimode t = TY_IMCOOKED \<and> 0 \<le> tyitail t \<and> tyitail t < TY_IBUFLEN \<and>
     0 \<le> tyicursor t \<and> tyicursor t < TY_IBUFLEN"

text \<open>The settings that decide what a typed character means.\<close>

definition same_modes :: "ttycblk \<Rightarrow> ttycblk \<Rightarrow> bool" where
  "same_modes t t' \<longleftrightarrow> tyicrlf t' = tyicrlf t \<and> tyoflow t' = tyoflow t \<and> tyostart t' = tyostart t \<and>
     tyostop t' = tyostop t \<and> tyikill t' = tyikill t \<and> tyikillc t' = tyikillc t \<and> tyierase t' = tyierase t \<and>
     tyierasec t' = tyierasec t \<and> tyeof t' = tyeof t \<and> tyeofch t' = tyeofch t \<and> tyisem t' = tyisem t \<and>
     tyihead t' = tyihead t"

definition flow_char :: "ttycblk \<Rightarrow> u8 \<Rightarrow> bool" where
  "flow_char t c \<longleftrightarrow> tyoflow t \<and> (c = tyostart t \<or> c = tyostop t)"

definition erase_char :: "ttycblk \<Rightarrow> u8 \<Rightarrow> bool" where
  "erase_char t c \<longleftrightarrow> tyierase t \<and> c = tyierasec t \<and> \<not> flow_char t c \<and> \<not> (tyikill t \<and> c = tyikillc t) \<and>
     c \<noteq> TY_RETURN"

definition plain_char :: "ttycblk \<Rightarrow> u8 \<Rightarrow> bool" where
  "plain_char t c \<longleftrightarrow> c \<noteq> TY_NEWLINE \<and> c \<noteq> TY_RETURN \<and> \<not> flow_char t c \<and> \<not> (tyikill t \<and> c = tyikillc t) \<and>
     \<not> (tyierase t \<and> c = tyierasec t) \<and> \<not> (tyeof t \<and> c = tyeofch t)"

lemma wrap_in_fields [simp]:
  "tyibuff (wrap_in t) = tyibuff t" "tyicursor (wrap_in t) = tyicursor t" "tyihead (wrap_in t) = tyihead t"
  "tyimode (wrap_in t) = tyimode t" "tyisem (wrap_in t) = tyisem t"
  "same_modes t0 (wrap_in t) \<longleftrightarrow> same_modes t0 t"
  by (simp_all add: wrap_in_def same_modes_def)

lemma put_wrap:
  assumes "0 \<le> tyitail t" "tyitail t < TY_IBUFLEN" "0 \<le> n" "n < TY_IBUFLEN"
  shows "\<exists>t'. put_in ch t = Some t' \<and> 0 \<le> tyitail (wrap_in t') \<and> tyitail (wrap_in t') < TY_IBUFLEN \<and>
    t' = t\<lparr>tyibuff := (tyibuff t)(tyitail t := ch), tyitail := tyitail t + 1\<rparr> \<and>
    ring TY_IBUFLEN (tyibuff (wrap_in t')) (tyitail (wrap_in t') - (n + 1)) (nat (n + 1)) =
      ring TY_IBUFLEN (tyibuff t) (tyitail t - n) (nat n) @ [ch]"
proof -
  let ?t = "t\<lparr>tyibuff := (tyibuff t)(tyitail t := ch), tyitail := tyitail t + 1\<rparr>"
  have p: "put_in ch t = Some ?t" using assms by (simp add: put_in_def)
  have r: "0 \<le> tyitail (wrap_in ?t)" "tyitail (wrap_in ?t) < TY_IBUFLEN" using assms by (auto simp: wrap_in_def)
  have "(tyitail (wrap_in ?t) - (n + 1)) mod TY_IBUFLEN = (tyitail t - n) mod TY_IBUFLEN"
  proof (cases "tyitail t + 1 \<ge> TY_IBUFLEN")
    case True
    then have "tyitail t = 127" using assms by simp
    then have "tyitail (wrap_in ?t) - (n + 1) = (tyitail t - n) - TY_IBUFLEN" by (simp add: wrap_in_def)
    then show ?thesis by (metis minus_mod_self2)
  qed (simp add: wrap_in_def)
  then have "ring TY_IBUFLEN (tyibuff (wrap_in ?t)) (tyitail (wrap_in ?t) - (n + 1)) (nat (n + 1)) =
      ring TY_IBUFLEN ((tyibuff t)(tyitail t := ch)) (tyitail t - n) (nat (n + 1))"
    by (subst ring_mod) simp_all
  also have "\<dots> = ring TY_IBUFLEN (tyibuff t) (tyitail t - n) (nat n) @ [ch]"
    using ring_store [of "tyitail t" TY_IBUFLEN "nat n" "tyibuff t" ch] assms by (simp add: nat_add_distrib)
  finally show ?thesis using p r by blast
qed

lemma line_okD:
  assumes "line_ok t"
  shows "tyimode t = TY_IMCOOKED" "0 \<le> tyitail t" "tyitail t < TY_IBUFLEN" "0 \<le> tyicursor t" "tyicursor t < TY_IBUFLEN"
  using assms by (auto simp: line_ok_def)

lemma echo_only_maybe: "(if b then echoch c tu else tu) = tu' \<Longrightarrow> echo_only tu tu'"
  by (auto simp: echo_only_echoch echo_only_refl)

lemma same_modes_refl: "same_modes t t"
  by (simp add: same_modes_def)

lemma typed_plain:
  assumes l: "line_ok t" and r: "rx u = c # cs" and c: "plain_char t c"
    and a: "max 0 (semcount (tyisem t) s) + tyicursor t < 127"
  shows "\<exists>t' u'. ttyhandle_in t u s = Some (t', u', s) \<and> rx u' = cs \<and> line_ok t' \<and> same_modes t t' \<and>
    line t' = line t @ [c] \<and> tyicursor t' = tyicursor t + 1"
proof -
  let ?t = "t\<lparr>tyoheld := False\<rparr>" and ?u = "u\<lparr>rx := cs\<rparr>"
  note l = line_okD [OF l]
  obtain t1 u1 where e: "(if tyiecho t then echoch c (?t, ?u) else (?t, ?u)) = (t1, u1)" by (metis surj_pair)
  then have o: "echo_only (?t, ?u) (t1, u1)" by (rule echo_only_maybe)
  note eo = echo_onlyD [OF o]
  let ?t2 = "t1\<lparr>tyicursor := tyicursor t1 + 1\<rparr>"
  obtain t3 where p: "put_in c ?t2 = Some t3"
    and t3: "t3 = ?t2\<lparr>tyibuff := (tyibuff ?t2)(tyitail ?t2 := c), tyitail := tyitail ?t2 + 1\<rparr>"
    and w: "0 \<le> tyitail (wrap_in t3)" "tyitail (wrap_in t3) < TY_IBUFLEN"
      "ring TY_IBUFLEN (tyibuff (wrap_in t3)) (tyitail (wrap_in t3) - (tyicursor t + 1)) (nat (tyicursor t + 1)) =
       ring TY_IBUFLEN (tyibuff ?t2) (tyitail ?t2 - tyicursor t) (nat (tyicursor t)) @ [c]"
    using put_wrap [of ?t2 "tyicursor t" c] l eo by auto
  have pc: "c \<noteq> TY_NEWLINE" "c \<noteq> TY_RETURN" "\<not> (tyoflow t \<and> c = tyostart t)" "\<not> (tyoflow t \<and> c = tyostop t)"
    "\<not> (c = tyikillc t \<and> tyikill t)" "\<not> (c = tyierasec t \<and> tyierase t)" "\<not> (c = tyeofch t \<and> tyeof t)"
    using c by (auto simp: plain_char_def flow_char_def)
  have av: "\<not> (if semcount (tyisem t) s < 0 then 0 else semcount (tyisem t) s) + tyicursor t \<ge> 127"
    using a by auto
  have "ttyhandle_in t u s = Some (wrap_in t3, u1, s)"
    by (simp add: ttyhandle_in_def uart_read_def r Let_def av e p l(1) pc cong: if_cong split del: if_split)
  moreover have "line_ok (wrap_in t3)" using w l eo a by (simp add: line_ok_def t3)
  moreover have "same_modes t (wrap_in t3)" unfolding wrap_in_fields using eo by (simp add: same_modes_def t3)
  moreover have "line (wrap_in t3) = line t @ [c]" using w(3) eo by (simp add: line_def t3)
  ultimately show ?thesis using eo by (auto simp: t3)
qed

lemma echo_only_rub_out: "echo_only tu (rub_out tu)"
proof -
  obtain t2 u2 where e: "eputc TY_BACKSP tu = (t2, u2)" by (cases "eputc TY_BACKSP tu")
  have "echo_only tu (t2, u2)" using echo_only_eputc [of tu TY_BACKSP] e by simp
  then show ?thesis using echo_only_trans [OF _ echo_only_eputc2] by (simp add: rub_out_def e)
qed

lemma erase1_fields:
  assumes "erase1 (t, u) = (t', u')"
  shows "tyitail t' = (if tyitail t - 1 < 0 then tyitail t - 1 + TY_IBUFLEN else tyitail t - 1)"
    "tyibuff t' = tyibuff t" "tyicursor t' = tyicursor t" "tyimode t' = tyimode t" "same_modes t t'" "rx u' = rx u"
proof -
  let ?t1 = "if tyitail t - 1 < 0 then t\<lparr>tyitail := tyitail t - 1 + TY_IBUFLEN\<rparr> else t\<lparr>tyitail := tyitail t - 1\<rparr>"
  have "(t', u') = (?t1, u) \<or> (t', u') = rub_out (?t1, u) \<or> (t', u') = rub_out (rub_out (?t1, u))"
  proof -
    have t1: "back1 t = ?t1" by (simp add: back1_def)
    have "erase1 (t, u) =
       (if tyiecho (back1 t)
        then if sint (tyibuff (back1 t) (tyitail (back1 t))) < 32 \<or> tyibuff (back1 t) (tyitail (back1 t)) = 127
             then rub_out (if tyevis (back1 t) then rub_out (back1 t, u) else (back1 t, u)) else rub_out (back1 t, u)
        else (back1 t, u))"
      unfolding erase1_def by (simp add: Let_def split_beta)
    then show ?thesis using assms unfolding t1 [symmetric] by (auto split: if_splits)
  qed
  then have "echo_only (?t1, u) (t', u')"
    using echo_only_rub_out [of "(?t1, u)"] echo_only_refl [of "(?t1, u)"]
      echo_only_trans [OF echo_only_rub_out echo_only_rub_out, of "(?t1, u)"] by (elim disjE) (simp_all only:)
  note eo = echo_onlyD [OF this]
  show "tyitail t' = (if tyitail t - 1 < 0 then tyitail t - 1 + TY_IBUFLEN else tyitail t - 1)"
    "tyibuff t' = tyibuff t" "tyicursor t' = tyicursor t" "tyimode t' = tyimode t" "same_modes t t'" "rx u' = rx u"
    using eo by (auto simp: same_modes_def)
qed

lemma typed_erase:
  assumes l: "line_ok t" and r: "rx u = c # cs" and c: "erase_char t c"
  shows "\<exists>t' u'. ttyhandle_in t u s = Some (t', u', s) \<and> rx u' = cs \<and> line_ok t' \<and> same_modes t t' \<and>
    line t' = butlast (line t) \<and> tyicursor t' \<le> tyicursor t"
proof -
  let ?u = "u\<lparr>rx := cs\<rparr>"
  note lo = line_okD [OF l]
  have ec: "c \<noteq> TY_RETURN" "\<not> (tyoflow t \<and> c = tyostart t)" "\<not> (tyoflow t \<and> c = tyostop t)"
    "\<not> (c = tyikillc t \<and> tyikill t)" "tyierasec t = c" "tyierase t"
    using c by (auto simp: erase_char_def flow_char_def)
  show ?thesis
  proof (cases "tyicursor t > 0")
    case False
    then have "ttyhandle_in t u s = Some (t\<lparr>tyoheld := False\<rparr>, ?u, s)"
      by (simp add: ttyhandle_in_def uart_read_def r Let_def ec lo(1) split del: if_split)
    then show ?thesis using False l by (auto simp: line_def line_ok_def same_modes_def)
  next
    case True
    let ?t = "t\<lparr>tyoheld := False, tyicursor := tyicursor t - 1\<rparr>"
    obtain t1 u1 where e: "erase1 (?t, ?u) = (t1, u1)" by (cases "erase1 (?t, ?u)")
    note ef = erase1_fields [OF e]
    have h: "ttyhandle_in t u s = Some (t1, u1, s)"
      by (simp add: ttyhandle_in_def uart_read_def r Let_def ec lo(1) True e split del: if_split)
    obtain n where n: "nat (tyicursor t) = Suc n" "nat (tyicursor t - 1) = n"
    proof
      show "nat (tyicursor t) = Suc (nat (tyicursor t - 1))" using True by simp
    qed simp
    have "(tyitail t1 - (tyicursor t - 1)) mod TY_IBUFLEN = (tyitail t - tyicursor t) mod TY_IBUFLEN"
    proof (cases "tyitail t - 1 < 0")
      case True
      then have "tyitail t1 - (tyicursor t - 1) = (tyitail t - tyicursor t) + TY_IBUFLEN" using ef(1) by simp
      then show ?thesis by (metis mod_add_self2)
    qed (use ef(1) in simp)
    moreover have "line t1 = ring TY_IBUFLEN (tyibuff t) (tyitail t1 - (tyicursor t - 1)) n"
      unfolding line_def ef(2,3) using n by simp
    ultimately have "line t1 = ring TY_IBUFLEN (tyibuff t) (tyitail t - tyicursor t) n"
      using ring_mod by metis
    moreover have "butlast (line t) = ring TY_IBUFLEN (tyibuff t) (tyitail t - tyicursor t) n"
      by (simp add: line_def n(1) ring_snoc)
    ultimately have "line t1 = butlast (line t)" by simp
    moreover have "line_ok t1" using ef lo True by (auto simp: line_ok_def)
    moreover have "same_modes t t1" using ef(5) by (simp add: same_modes_def)
    ultimately show ?thesis using h ef by auto
  qed
qed

text \<open>The reference: what the line is after a character.\<close>

definition edit :: "ttycblk \<Rightarrow> u8 list \<Rightarrow> u8 \<Rightarrow> u8 list" where
  "edit t l c = (if erase_char t c then butlast l else l @ [c])"

lemma same_modes_chars:
  assumes "same_modes t t'"
  shows "flow_char t' = flow_char t" "plain_char t' = plain_char t" "erase_char t' = erase_char t" "edit t' = edit t"
proof -
  show f: "flow_char t' = flow_char t" using assms by (auto simp: fun_eq_iff flow_char_def same_modes_def)
  show "plain_char t' = plain_char t" using assms f by (auto simp: fun_eq_iff plain_char_def same_modes_def)
  show e: "erase_char t' = erase_char t" using assms f by (auto simp: fun_eq_iff erase_char_def same_modes_def)
  show "edit t' = edit t" by (simp add: fun_eq_iff edit_def e)
qed

lemma same_modes_trans: "same_modes a b \<Longrightarrow> same_modes b c \<Longrightarrow> same_modes a c"
  by (simp add: same_modes_def)

lemma typed_chars:
  assumes "line_ok t" "rx u = cs @ ds" "\<forall>c \<in> set cs. plain_char t c \<or> erase_char t c"
    and "max 0 (semcount (tyisem t) s) + tyicursor t + int (length cs) \<le> 127"
  shows "\<exists>t' u'. ttyhandle_all t u s = ttyhandle_all t' u' s \<and> rx u' = ds \<and> line_ok t' \<and> same_modes t t' \<and>
    line t' = foldl (edit t) (line t) cs"
  using assms
proof (induction cs arbitrary: t u)
  case Nil
  then show ?case by (auto intro!: exI [of _ t] exI [of _ u] simp: same_modes_refl)
next
  case (Cons c cs)
  obtain t1 u1 where h: "ttyhandle_in t u s = Some (t1, u1, s)" "rx u1 = cs @ ds" "line_ok t1" "same_modes t t1"
    "line t1 = edit t (line t) c" "tyicursor t1 \<le> tyicursor t + 1"
  proof (cases "erase_char t c")
    case True
    then show ?thesis using typed_erase [OF Cons.prems(1), of u c "cs @ ds" s] Cons.prems(2) that by (fastforce simp: edit_def)
  next
    case False
    then have "plain_char t c" using Cons.prems(3) by simp
    then show ?thesis
      using typed_plain [OF Cons.prems(1), of u c "cs @ ds" s] Cons.prems(2,4) False that by (fastforce simp: edit_def)
  qed
  have "tyisem t1 = tyisem t" using h(4) by (simp add: same_modes_def)
  then obtain t' u' where "ttyhandle_all t1 u1 s = ttyhandle_all t' u' s" "rx u' = ds" "line_ok t'" "same_modes t1 t'"
    "line t' = foldl (edit t1) (line t1) cs"
    using Cons.IH [OF h(3,2)] Cons.prems(3,4) h(6) by (auto simp: same_modes_chars [OF h(4)])
  moreover have "ttyhandle_all t u s = ttyhandle_all t1 u1 s"
    by (subst ttyhandle_all.simps) (simp add: Cons.prems(2) h(1))
  ultimately show ?case using h(5) same_modes_trans [OF h(4)] by (auto simp: same_modes_chars [OF h(4)])
qed

definition line_end :: "ttycblk \<Rightarrow> u8 \<Rightarrow> bool" where
  "line_end t c \<longleftrightarrow> (c = TY_NEWLINE \<or> c = TY_RETURN \<and> tyicrlf t) \<and> \<not> flow_char t TY_NEWLINE \<and>
     \<not> (tyikill t \<and> tyikillc t = TY_NEWLINE) \<and> \<not> (tyierase t \<and> tyierasec t = TY_NEWLINE)"

lemma typed_line_end:
  assumes l: "line_ok t" and r: "rx u = c # cs" and c: "line_end t c"
  shows "\<exists>t' u'. ttyhandle_in t u s =
      do { (r, s') \<leftarrow> signaln (tyisem t) (tyicursor t + 1) s; Some (t', u', s') } \<and> rx u' = cs \<and>
    same_modes t t' \<and> tyicursor t' = 0 \<and>
    ring TY_IBUFLEN (tyibuff t') (tyitail t' - (tyicursor t + 1)) (nat (tyicursor t + 1)) = line t @ [TY_NEWLINE]"
proof -
  let ?t = "t\<lparr>tyoheld := False\<rparr>" and ?u = "u\<lparr>rx := cs\<rparr>"
  note lo = line_okD [OF l]
  obtain t1 u1 where e: "(if tyiecho t then echoch TY_NEWLINE (?t, ?u) else (?t, ?u)) = (t1, u1)" by (metis surj_pair)
  then have o: "echo_only (?t, ?u) (t1, u1)" by (rule echo_only_maybe)
  note eo = echo_onlyD [OF o]
  obtain t3 where p: "put_in TY_NEWLINE t1 = Some t3"
    and t3: "t3 = t1\<lparr>tyibuff := (tyibuff t1)(tyitail t1 := TY_NEWLINE), tyitail := tyitail t1 + 1\<rparr>"
    and w: "ring TY_IBUFLEN (tyibuff (wrap_in t3)) (tyitail (wrap_in t3) - (tyicursor t + 1)) (nat (tyicursor t + 1)) =
       ring TY_IBUFLEN (tyibuff t1) (tyitail t1 - tyicursor t) (nat (tyicursor t)) @ [TY_NEWLINE]"
    using put_wrap [of t1 "tyicursor t" TY_NEWLINE] lo eo by auto
  have c': "(if c = TY_RETURN \<and> tyicrlf t then TY_NEWLINE else c) = TY_NEWLINE"
    using c by (auto simp: line_end_def)
  have pc: "\<not> (tyoflow t \<and> tyostart t = TY_NEWLINE)" "\<not> (tyoflow t \<and> tyostop t = TY_NEWLINE)"
    "\<not> (tyikillc t = TY_NEWLINE \<and> tyikill t)" "\<not> (tyierasec t = TY_NEWLINE \<and> tyierase t)"
    using c by (auto simp: line_end_def flow_char_def)
  have t3f: "tyisem t3 = tyisem t" "tyicursor t3 = tyicursor t" using eo by (simp_all add: t3)
  let ?w = "(wrap_in t3)\<lparr>tyicursor := 0\<rparr>"
  have "ttyhandle_in t u s =
      do { (r, s') \<leftarrow> signaln (tyisem t) (tyicursor t + 1) s; Some (?w, u1, s') }"
    by (simp add: ttyhandle_in_def uart_read_def r Let_def c' e p lo(1) pc t3f cong: if_cong split del: if_split)
  moreover have "same_modes t (wrap_in t3)" unfolding wrap_in_fields using eo by (simp add: same_modes_def t3)
  then have "same_modes t ?w" by (simp add: same_modes_def)
  moreover have "ring TY_IBUFLEN (tyibuff ?w) (tyitail ?w - (tyicursor t + 1)) (nat (tyicursor t + 1)) = line t @ [TY_NEWLINE]"
    using w eo by (simp add: line_def)
  moreover have "tyicursor ?w = 0" "rx u1 = cs" using eo by simp_all
  ultimately show ?thesis by blast
qed

subsection \<open>Output\<close>

definition echo_queue :: "ttycblk \<Rightarrow> u8 list" where
  "echo_queue t = ring TY_EBUFLEN (tyebuff t) (tyehead t) (nat ((tyetail t - tyehead t) mod TY_EBUFLEN))"

definition echo_ok :: "ttycblk \<Rightarrow> bool" where
  "echo_ok t \<longleftrightarrow> 0 \<le> tyehead t \<and> tyehead t < TY_EBUFLEN \<and> 0 \<le> tyetail t \<and> tyetail t < TY_EBUFLEN"

lemma echo_queue_step:
  assumes "echo_ok t" "tyehead t \<noteq> tyetail t"
  shows "echo_queue t = tyebuff t (tyehead t) #
      echo_queue (t\<lparr>tyehead := (if tyehead t + 1 \<ge> TY_EBUFLEN then 0 else tyehead t + 1)\<rparr>)"
proof -
  let ?h = "if tyehead t + 1 \<ge> TY_EBUFLEN then 0 else tyehead t + 1"
  have "(tyetail t - ?h) mod TY_EBUFLEN = (tyetail t - (tyehead t + 1)) mod TY_EBUFLEN"
    by (rule mod_diff_cong [OF refl], rule next_mod [symmetric]; use assms(1) in \<open>simp add: echo_ok_def\<close>)
  moreover have "nat ((tyetail t - tyehead t) mod TY_EBUFLEN) = Suc (nat ((tyetail t - (tyehead t + 1)) mod TY_EBUFLEN))"
    using assms ring_distance [of "tyehead t" TY_EBUFLEN "tyetail t"] by (simp add: echo_ok_def)
  moreover have "ring TY_EBUFLEN (tyebuff t) (tyehead t + 1) n = ring TY_EBUFLEN (tyebuff t) ?h n" for n
    by (rule ring_mod) (rule next_mod; use assms(1) in \<open>simp add: echo_ok_def\<close>)
  ultimately show ?thesis using assms(1) by (simp add: echo_queue_def ring_Suc echo_ok_def)
qed

lemma send_echo_spec:
  "echo_ok t \<Longrightarrow> send_echo n t u = (n', t', u') \<Longrightarrow>
   tx u' = tx u @ take n (echo_queue t) \<and> n' = n - length (echo_queue t) \<and>
   echo_queue t' = drop n (echo_queue t) \<and> (\<exists>h. t' = t\<lparr>tyehead := h\<rparr>) \<and> rx u' = rx u"
proof (induction n arbitrary: t u)
  case 0
  then show ?case by (auto intro: exI [of _ "tyehead t"])
next
  case (Suc n)
  show ?case
  proof (cases "tyehead t = tyetail t")
    case True
    then have "echo_queue t = []" by (simp add: echo_queue_def)
    then show ?thesis using Suc.prems(2) True by (auto intro: exI [of _ "tyehead t"])
  next
    case False
    let ?h = "if tyehead t + 1 \<ge> TY_EBUFLEN then 0 else tyehead t + 1"
    let ?t = "t\<lparr>tyehead := ?h\<rparr>" and ?u = "uart_write (tyebuff t (tyehead t)) u"
    have "send_echo n ?t ?u = (n', t', u')" using Suc.prems(2) False by (auto simp: Let_def split: if_splits)
    moreover have "echo_ok ?t" using Suc.prems(1) by (auto simp: echo_ok_def)
    ultimately have IH: "tx u' = tx ?u @ take n (echo_queue ?t) \<and> n' = n - length (echo_queue ?t) \<and>
        echo_queue t' = drop n (echo_queue ?t) \<and> (\<exists>h. t' = ?t\<lparr>tyehead := h\<rparr>) \<and> rx u' = rx ?u"
      using Suc.IH by blast
    obtain h where "t' = ?t\<lparr>tyehead := h\<rparr>" using IH by blast
    then have "t' = t\<lparr>tyehead := h\<rparr>" by simp
    then show ?thesis using IH echo_queue_step [OF Suc.prems(1) False] by (auto simp: uart_write_def)
  qed
qed

lemma send_out_spec:
  "0 \<le> tyohead t \<Longrightarrow> tyohead t < TY_OBUFLEN \<Longrightarrow> send_out n avail oc t u = (oc', t', u') \<Longrightarrow>
   q = ring TY_OBUFLEN (tyobuff t) (tyohead t) (nat avail) \<Longrightarrow>
   tx u' = tx u @ take n q \<and> oc' = oc + int (min n (length q)) \<and>
   ring TY_OBUFLEN (tyobuff t') (tyohead t') (nat avail - min n (length q)) = drop n q \<and> (\<exists>h. t' = t\<lparr>tyohead := h\<rparr>) \<and>
   0 \<le> tyohead t' \<and> tyohead t' < TY_OBUFLEN \<and> rx u' = rx u"
proof (induction n arbitrary: avail oc t u q)
  case 0
  then show ?case by (auto intro: exI [of _ "tyohead t"])
next
  case (Suc n)
  show ?case
  proof (cases "avail > 0")
    case False
    then show ?thesis using Suc.prems by (auto intro: exI [of _ "tyohead t"])
  next
    case True
    let ?h = "if tyohead t + 1 \<ge> TY_OBUFLEN then 0 else tyohead t + 1"
    let ?t = "t\<lparr>tyohead := ?h\<rparr>" and ?u = "uart_write (tyobuff t (tyohead t)) u"
    let ?q = "ring TY_OBUFLEN (tyobuff ?t) (tyohead ?t) (nat (avail - 1))"
    have st: "send_out n (avail - 1) (oc + 1) ?t ?u = (oc', t', u')"
      using Suc.prems(3) True by (auto simp: Let_def split: if_splits)
    have h: "0 \<le> tyohead ?t" "tyohead ?t < TY_OBUFLEN" using Suc.prems(1,2) by auto
    note IH = Suc.IH [OF h st refl]
    have na: "nat avail = Suc (nat (avail - 1))" using True by simp
    have "ring TY_OBUFLEN (tyobuff t) (tyohead t + 1) m = ring TY_OBUFLEN (tyobuff t) ?h m" for m
      by (rule ring_mod) (rule next_mod [OF Suc.prems(1,2)])
    then have q: "q = tyobuff t (tyohead t) # ?q"
      unfolding Suc.prems(4) na ring_Suc using Suc.prems(1,2) by simp
    obtain h where "t' = ?t\<lparr>tyohead := h\<rparr>" using IH by blast
    then have "t' = t\<lparr>tyohead := h\<rparr>" by simp
    then show ?thesis using IH by (auto simp: q na uart_write_def)
  qed
qed

subsection \<open>Reading a line\<close>

definition input_ready :: "ttycblk \<Rightarrow> 'z kstate_scheme \<Rightarrow> u8 list \<Rightarrow> bool" where
  "input_ready t s cs \<longleftrightarrow> \<not> isbadsem (tyisem t) \<and> sstate (semtab s (tyisem t)) = S_USED \<and>
     scount (semtab s (tyisem t)) = int (length cs) \<and> 0 \<le> tyihead t \<and> tyihead t < TY_IBUFLEN \<and>
     int (length cs) \<le> TY_IBUFLEN \<and> ring TY_IBUFLEN (tyibuff t) (tyihead t) (length cs) = cs"

lemma ttygetc_ready:
  assumes "input_ready t s (c # cs)" "tyimode t = TY_IMCOOKED" "\<not> (tyeof t \<and> c = tyeofch t)"
  shows "\<exists>t' s'. ttygetc t s = Some (Ret (sint c), t', s') \<and> input_ready t' s' cs \<and> (\<exists>h. t' = t\<lparr>tyihead := h\<rparr>) \<and>
    s' = set_scount (tyisem t) (int (length cs)) s"
proof -
  let ?s = "set_scount (tyisem t) (int (length cs)) s"
  let ?h = "if TY_IBUFLEN \<le> tyihead t + 1 then 0 else tyihead t + 1"
  have a: "\<not> isbadsem (tyisem t)" "sstate (semtab s (tyisem t)) = S_USED" "scount (semtab s (tyisem t)) = 1 + int (length cs)"
    "0 \<le> tyihead t" "tyihead t < TY_IBUFLEN" "int (length cs) < TY_IBUFLEN"
    "ring TY_IBUFLEN (tyibuff t) (tyihead t) (Suc (length cs)) = c # cs"
    using assms(1) by (auto simp: input_ready_def)
  have w: "wait (tyisem t) s = Some (Ret OK, ?s)"
    using a by (simp add: wait_def set_scount_def)
  have b: "tyibuff t (tyihead t) = c" "ring TY_IBUFLEN (tyibuff t) (tyihead t + 1) (length cs) = cs"
    using a(4,5,7) by (simp_all add: ring_Suc)
  then have r: "ring TY_IBUFLEN (tyibuff t) ?h (length cs) = cs"
    using ring_mod [OF next_mod [OF a(4,5)]] by metis
  have "ttygetc t s = Some (Ret (sint c), t\<lparr>tyihead := ?h\<rparr>, ?s)"
    using a(4,5) b assms(2,3) by (auto simp: ttygetc_def w ttygetc_take_def Let_def)
  moreover have "input_ready (t\<lparr>tyihead := ?h\<rparr>) ?s cs"
    using a r by (simp add: input_ready_def set_scount_def)
  ultimately show ?thesis by blast
qed

text \<open>The reference: the part of the input up to and including the first line end, at most \<open>n\<close> characters.\<close>

fun line_part :: "nat \<Rightarrow> u8 list \<Rightarrow> u8 list" where
  "line_part 0 cs = []"
| "line_part n [] = []"
| "line_part (Suc n) (c # cs) = c # (if c = TY_NEWLINE \<or> c = TY_RETURN then [] else line_part n cs)"

definition has_line :: "nat \<Rightarrow> u8 list \<Rightarrow> bool" where
  "has_line n cs \<longleftrightarrow> n \<le> length cs \<or> TY_NEWLINE \<in> set cs \<or> TY_RETURN \<in> set cs"

lemma word_of_sint: "word_of_int (sint c) = (c :: u8)"
  by simp

lemma ttyread_run_line:
  assumes "input_ready t s cs" "tyimode t = TY_IMCOOKED" "\<forall>c \<in> set cs. \<not> (tyeof t \<and> c = tyeofch t)" "has_line n cs"
  shows "\<exists>t'. ttyread_run (InLine n) buff t s =
      Some (Ret (int (length (buff @ line_part n cs)), buff @ line_part n cs), t',
        set_scount (tyisem t) (int (length cs - length (line_part n cs))) s) \<and>
    input_ready t' (set_scount (tyisem t) (int (length cs - length (line_part n cs))) s) (drop (length (line_part n cs)) cs)"
  using assms
proof (induction n arbitrary: cs buff t s)
  case 0
  have "set_scount (tyisem t) (int (length cs)) s = s"
    by (rule set_scount_same) (use 0(1) in \<open>simp add: input_ready_def\<close>)
  then show ?case using 0 by (auto simp: ttyread_run.simps)
next
  case (Suc n)
  obtain c ds where cs: "cs = c # ds" using Suc.prems(4) by (cases cs) (auto simp: has_line_def)
  obtain t1 h where g: "ttygetc t s = Some (Ret (sint c), t1, set_scount (tyisem t) (int (length ds)) s)"
    "input_ready t1 (set_scount (tyisem t) (int (length ds)) s) ds" "t1 = t\<lparr>tyihead := h\<rparr>"
    using ttygetc_ready [of t s c ds] Suc.prems(1-3) cs by auto
  let ?s = "set_scount (tyisem t) (int (length ds)) s"
  have step: "ttyread_run (InLine (Suc n)) buff t s =
      ttyread_run (InLine (if c = TY_NEWLINE \<or> c = TY_RETURN then 0 else n)) (buff @ [c]) t1 ?s"
    by (subst ttyread_run.simps) (simp add: g(1) after_getc_def)
  show ?case
  proof (cases "c = TY_NEWLINE \<or> c = TY_RETURN")
    case True
    then have "ttyread_run (InLine (Suc n)) buff t s = Some (Ret (int (length (buff @ [c])), buff @ [c]), t1, ?s)"
      using step by (simp add: ttyread_run.simps)
    then show ?thesis using g(2) True by (simp add: cs)
  next
    case False
    have "has_line n ds" using Suc.prems(4) False by (auto simp: has_line_def cs)
    moreover have "tyimode t1 = TY_IMCOOKED" "\<forall>c \<in> set ds. \<not> (tyeof t1 \<and> c = tyeofch t1)" "tyisem t1 = tyisem t"
      using g(3) Suc.prems(2,3) by (auto simp: cs)
    ultimately show ?thesis
      using Suc.IH [OF g(2), of "buff @ [c]"] step False by (simp add: cs set_scount_twice)
  qed
qed

subsection \<open>A concrete terminal\<close>

text \<open>A line as \<open>ttyinit\<close> leaves it, on semaphore 1 of the scene (three characters available).\<close>

definition demo_uart :: "u8 list \<Rightarrow> uart" where
  "demo_uart cs = \<lparr>rx = cs, tx = [], ier = 3, iir = 4, fcr = 0, lcr = 3, dll = 24, dlm = 0\<rparr>"

definition demo_tty :: ttycblk where
  "demo_tty = \<lparr>tyihead = 126, tyitail = 1, tyibuff = (\<lambda>_. 0)(126 := 104, 127 := 105, 0 := 10), tyisem = 1,
     tyohead = 0, tyotail = 2, tyobuff = (\<lambda>_. 0)(0 := 111, 1 := 107), tyosem = 1, tyehead = 19, tyetail = 0,
     tyebuff = (\<lambda>_. 0)(19 := 101), tyimode = TY_IMCOOKED, tyiecho = True, tyieback = True, tyevis = True,
     tyecrlf = True, tyicrlf = True, tyierase = True, tyierasec = TY_BACKSP, tyeof = True, tyeofch = TY_EOFCH,
     tyikill = True, tyikillc = TY_KILLCH, tyicursor = 0, tyoflow = True, tyoheld = False,
     tyostop = TY_STOPCH, tyostart = TY_STRTCH, tyocrlf = True, tyifullc = TY_BELL\<rparr>"

lemma demo_fields [simp]:
  "tyihead demo_tty = 126" "tyitail demo_tty = 1" "tyibuff demo_tty = (\<lambda>_. 0)(126 := 104, 127 := 105, 0 := 10)"
  "tyisem demo_tty = 1" "tyohead demo_tty = 0" "tyobuff demo_tty = (\<lambda>_. 0)(0 := 111, 1 := 107)"
  "tyosem demo_tty = 1" "tyehead demo_tty = 19" "tyetail demo_tty = 0" "tyebuff demo_tty = (\<lambda>_. 0)(19 := 101)"
  "tyimode demo_tty = TY_IMCOOKED" "tyierase demo_tty" "tyierasec demo_tty = 8" "tyeof demo_tty" "tyeofch demo_tty = 4"
  "tyikill demo_tty" "tyikillc demo_tty = 21" "tyicursor demo_tty = 0" "tyoflow demo_tty" "\<not> tyoheld demo_tty"
  "tyostop demo_tty = 19" "tyostart demo_tty = 17" "tyicrlf demo_tty" "tyiecho demo_tty"
  by (simp_all add: demo_tty_def)

lemma scene_sem_1 [simp]: "semcount 1 scene = 3" "isbadsem 1 = False"
  by (simp_all add: semcount_def isbadsem_def scene_sems_def)

lemma demo_line: "line demo_tty = []" "line_ok demo_tty"
  by (simp_all add: line_def line_ok_def demo_tty_def)

lemma demo_echo: "echo_queue demo_tty = [101]" "echo_ok demo_tty"
  by (simp_all add: echo_queue_def echo_ok_def demo_tty_def ring_def)

subsection \<open>Properties\<close>

text \<open>C13.  Line editing.  The characters of a line typed in cooked mode, with erase characters among
  them and a line end at the end, while there is room for them: the interrupt handler's loop stores
  what the reference \<open>edit\<close> makes of them (an erase character deletes the last one), followed by a
  newline, in the last slots of the circular buffer, and signals the input semaphore once per
  stored character, so that the whole line becomes available at once.\<close>

theorem tty_line_editing:
  assumes "line_ok t" "rx u = cs @ [c]" "\<forall>d \<in> set cs. plain_char t d \<or> erase_char t d" "line_end t c"
    and "max 0 (semcount (tyisem t) s) + tyicursor t + int (length cs) \<le> 127"
  shows "\<exists>t' u' l. l = foldl (edit t) (line t) cs @ [TY_NEWLINE] \<and>
    ttyhandle_all t u s = do { (r, s') \<leftarrow> signaln (tyisem t) (int (length l)) s; Some (t', u', s') } \<and>
    ring TY_IBUFLEN (tyibuff t') (tyitail t' - int (length l)) (length l) = l \<and> line t' = [] \<and> rx u' = []"
proof -
  obtain t1 u1 where t1: "ttyhandle_all t u s = ttyhandle_all t1 u1 s" "rx u1 = [c]" "line_ok t1" "same_modes t t1"
    "line t1 = foldl (edit t) (line t) cs"
    using typed_chars [OF assms(1,2,3,5)] by auto
  have "line_end t1 c" using t1(4) assms(4) same_modes_chars(1) [OF t1(4)] by (auto simp: line_end_def same_modes_def)
  then obtain t2 u2 where t2: "ttyhandle_in t1 u1 s =
      do { (r, s') \<leftarrow> signaln (tyisem t1) (tyicursor t1 + 1) s; Some (t2, u2, s') }" "rx u2 = []" "tyicursor t2 = 0"
    "ring TY_IBUFLEN (tyibuff t2) (tyitail t2 - (tyicursor t1 + 1)) (nat (tyicursor t1 + 1)) = line t1 @ [TY_NEWLINE]"
    using typed_line_end [OF t1(3,2)] by blast
  let ?l = "line t1 @ [TY_NEWLINE]"
  have len: "int (length ?l) = tyicursor t1 + 1" "nat (tyicursor t1 + 1) = length ?l"
    using line_okD [OF t1(3)] by (simp_all add: line_def nat_add_distrib)
  have "ttyhandle_all t u s = do { (t, u, s) \<leftarrow> ttyhandle_in t1 u1 s; ttyhandle_all t u s }"
    unfolding t1(1) by (subst ttyhandle_all.simps) (simp add: t1(2))
  also have "\<dots> = do { (r, s') \<leftarrow> signaln (tyisem t1) (int (length ?l)) s; Some (t2, u2, s') }"
    unfolding t2(1) len(1)
    by (cases "signaln (tyisem t1) (tyicursor t1 + 1) s") (auto simp: ttyhandle_all.simps t2(2))
  finally have e: "ttyhandle_all t u s = do { (r, s') \<leftarrow> signaln (tyisem t) (int (length ?l)) s; Some (t2, u2, s') }"
    using t1(4) by (simp add: same_modes_def)
  moreover have "ring TY_IBUFLEN (tyibuff t2) (tyitail t2 - int (length ?l)) (length ?l) = ?l"
    using t2(4) unfolding len(2) len(1) [symmetric] by (simp only: nat_int)
  moreover have "line t2 = []" using t2(3) by (simp add: line_def)
  ultimately show ?thesis using t1(5) t2(2) by blast
qed

lemma tty_line_editing_witness:
  "\<exists>t' u' s'. ttyhandle_all demo_tty (demo_uart [97, 98, 8, 13]) scene =
      do { (r, s') \<leftarrow> signaln 1 2 scene; Some (t', u', s') } \<and>
    ring TY_IBUFLEN (tyibuff t') (tyitail t' - 2) (Suc (Suc 0)) = [97, 10]"
proof -
  have "foldl (edit demo_tty) (line demo_tty) [97, 98, 8] = [97]"
    by (simp add: demo_line edit_def erase_char_def flow_char_def)
  then show ?thesis
    using tty_line_editing [of demo_tty "demo_uart [97, 98, 8, 13]" "[97, 98, 8]" 13 scene]
    by (simp add: demo_line demo_uart_def plain_char_def erase_char_def flow_char_def line_end_def) blast
qed

text \<open>Output order.  A transmitter interrupt with output pending and not held hands the chip the
  first sixteen of the echoed characters followed by the buffered output, in the order they were
  queued; the rest stays queued, none lost or repeated, and the output semaphore is signalled
  once for each slot of the output buffer that became free.\<close>

theorem tty_output_order:
  assumes "echo_ok t" "0 \<le> tyohead t" "tyohead t < TY_OBUFLEN" "\<not> tyoheld t"
    and q: "q = ring TY_OBUFLEN (tyobuff t) (tyohead t) (nat (TY_OBUFLEN - semcount (tyosem t) s))"
    and "echo_queue t \<noteq> [] \<or> semcount (tyosem t) s < TY_OBUFLEN"
    and k: "k = min (16 - length (echo_queue t)) (length q)"
  shows "\<exists>t' u'. ttyhandle_out t u s =
      (if 0 < k then do { (r, s') \<leftarrow> signaln (tyosem t) (int k) s; Some (t', u', s') } else Some (t', u', s)) \<and>
    tx u' = tx u @ take 16 (echo_queue t @ q) \<and>
    echo_queue t' @ ring TY_OBUFLEN (tyobuff t') (tyohead t') (length q - k) = drop 16 (echo_queue t @ q)"
proof -
  let ?e = "echo_queue t" and ?a = "TY_OBUFLEN - semcount (tyosem t) s"
  obtain n1 t1 u1 where e: "send_echo 16 t u = (n1, t1, u1)" by (cases "send_echo 16 t u")
  have se: "tx u1 = tx u @ take 16 ?e" "n1 = 16 - length ?e" "echo_queue t1 = drop 16 ?e"
    using send_echo_spec [OF assms(1) e] by auto
  obtain h where h: "t1 = t\<lparr>tyehead := h\<rparr>" using send_echo_spec [OF assms(1) e] by blast
  obtain oc t2 u2 where o: "send_out n1 ?a 0 t1 u1 = (oc, t2, u2)" by (cases "send_out n1 ?a 0 t1 u1")
  have q1: "q = ring TY_OBUFLEN (tyobuff t1) (tyohead t1) (nat ?a)" using q h by simp
  have so: "tx u2 = tx u1 @ take n1 q" "oc = int (min n1 (length q))"
    "ring TY_OBUFLEN (tyobuff t2) (tyohead t2) (nat ?a - min n1 (length q)) = drop n1 q"
    using send_out_spec [OF _ _ o q1] assms(2,3) h by auto
  obtain h2 where h2: "t2 = t1\<lparr>tyohead := h2\<rparr>" using send_out_spec [OF _ _ o q1] assms(2,3) h by auto
  have kk: "oc = int k" "min n1 (length q) = k" using so(2) se(2) k by auto
  have busy: "\<not> (tyehead t = tyetail t \<and> semcount (tyosem t) s \<ge> TY_OBUFLEN)"
    using assms(6) by (auto simp: echo_queue_def)
  have "ttyhandle_out t u s =
      (if 0 < k then do { (r, s') \<leftarrow> signaln (tyosem t) (int k) s; Some (t2, u2, s') } else Some (t2, u2, s))"
    using o h h2 by (simp add: ttyhandle_out_def assms(4) busy e kk(1))
  moreover have "tx u2 = tx u @ take 16 (?e @ q)" using so(1) se(1,2) by simp
  moreover have "echo_queue t2 @ ring TY_OBUFLEN (tyobuff t2) (tyohead t2) (length q - k) = drop 16 (?e @ q)"
  proof -
    have "echo_queue t2 = drop 16 ?e" using se(3) h2 by (simp add: echo_queue_def)
    moreover have "length q = nat ?a" using q by simp
    ultimately show ?thesis using so(3) kk(2) se(2) by simp
  qed
  ultimately show ?thesis by blast
qed

lemma tty_output_order_witness:
  "\<exists>t' u'. ttyhandle_out demo_tty (demo_uart []) (set_scount 1 62 scene) =
      do { (r, s') \<leftarrow> signaln 1 2 (set_scount 1 62 scene); Some (t', u', s') } \<and> tx u' = [101, 111, 107]"
proof -
  let ?s = "set_scount 1 62 scene"
  have sc: "semcount 1 ?s = 62" by (simp add: semcount_def set_scount_def scene_sems_def isbadsem_def)
  have q: "ring TY_OBUFLEN (tyobuff demo_tty) (tyohead demo_tty) (nat (TY_OBUFLEN - semcount (tyosem demo_tty) ?s)) = [111, 107]"
    by (simp add: sc ring_def upt_rec)
  show ?thesis
    using tty_output_order [of demo_tty "[111, 107]" ?s 2 "demo_uart []", OF demo_echo(2) _ _ _ q [symmetric]]
    by (simp add: demo_echo sc demo_uart_def) blast
qed

text \<open>C25.  Reading a line.  With a complete line (or enough characters) available, \<open>ttyread\<close> does not
  block: it returns the characters up to and including the first line end, at most as many as
  asked for, in the order they were stored, takes as many units from the input semaphore, and
  leaves the rest of the input for the next read.  It never returns fewer than one character,
  not even when asked for none.\<close>

theorem tty_read_line:
  assumes "input_ready t s cs" "tyimode t = TY_IMCOOKED" "\<forall>c \<in> set cs. \<not> (tyeof t \<and> c = tyeofch t)"
    and "0 \<le> count" "has_line (max 1 (nat count)) cs" "cs \<noteq> []" "hd cs \<noteq> 254"
    and r: "r = line_part (max 1 (nat count)) cs"
  shows "\<exists>t' s'. ttyread count t s = Some (Ret (int (length r), r), t', s') \<and>
    s' = set_scount (tyisem t) (int (length cs - length r)) s \<and> input_ready t' s' (drop (length r) cs)"
proof -
  obtain c ds where cs: "cs = c # ds" using assms(6) by (cases cs) auto
  obtain t1 h where g: "ttygetc t s = Some (Ret (sint c), t1, set_scount (tyisem t) (int (length ds)) s)"
    "input_ready t1 (set_scount (tyisem t) (int (length ds)) s) ds" "t1 = t\<lparr>tyihead := h\<rparr>"
    using ttygetc_ready [of t s c ds] assms(1-3) cs by auto
  let ?s = "set_scount (tyisem t) (int (length ds)) s"
  let ?m = "nat (count - 1)"
  have ne: "sint c \<noteq> EOF"
  proof
    assume "sint c = EOF"
    then have "c = word_of_int EOF" by (metis word_of_sint)
    then have "c = 254" by simp
    then show False using assms(7) cs by simp
  qed
  have "ttyread count t s = ttyread_run (FirstChar count) [] t s" using assms(2,4) by (simp add: ttyread_def)
  also have "\<dots> = ttyread_run (InLine (if c = TY_NEWLINE \<or> c = TY_RETURN then 0 else ?m)) [c] t1 ?s"
    by (subst ttyread_run.simps) (simp add: g(1) after_getc_def ne)
  finally have step: "ttyread count t s = ttyread_run (InLine (if c = TY_NEWLINE \<or> c = TY_RETURN then 0 else ?m)) [c] t1 ?s" .
  have mx: "max (Suc 0) (nat count) = Suc ?m" by auto
  have ds: "tyimode t1 = TY_IMCOOKED" "\<forall>c \<in> set ds. \<not> (tyeof t1 \<and> c = tyeofch t1)" "tyisem t1 = tyisem t"
    using g(3) assms(2,3) by (auto simp: cs)
  show ?thesis
  proof (cases "c = TY_NEWLINE \<or> c = TY_RETURN")
    case True
    then have "r = [c]" using r by (simp add: cs mx)
    moreover have "ttyread count t s = Some (Ret (1, [c]), t1, ?s)" using step True by (simp add: ttyread_run.simps)
    ultimately show ?thesis using g(2) by (simp add: cs)
  next
    case False
    have hl: "has_line ?m ds" using assms(5) False by (auto simp: has_line_def cs mx)
    have rr: "r = c # line_part ?m ds" using r False by (simp add: cs mx)
    show ?thesis
      using ttyread_run_line [OF g(2) ds(1,2) hl, of "[c]"] step False ds(3)
      by (simp add: rr cs set_scount_twice)
  qed
qed

lemma tty_read_line_witness:
  "\<exists>t' s'. ttyread 3 demo_tty scene = Some (Ret (3, [104, 105, 10]), t', s') \<and> s' = set_scount 1 0 scene"
proof -
  have i: "input_ready demo_tty scene [104, 105, 10]"
    by (simp add: input_ready_def ring_def scene_sems_def upt_rec)
  have m: "max 1 (nat 3) = Suc (Suc (Suc 0))" by simp
  have "line_part (max 1 (nat 3)) [104, 105, 10] = [104, 105, 10]" unfolding m by simp
  then show ?thesis
    using tty_read_line [OF i, of 3] by (simp add: has_line_def) blast
qed

text \<open>In raw mode the input pointer is never wrapped (the code tests and resets the output pointer
  instead): every accepted character moves it on by one, and once it stands behind the last slot
  the next character is stored outside the buffer.\<close>

theorem tty_raw_mode_overruns:
  assumes "tyimode t = TY_IMRAW" "semcount (tyisem t) s < TY_IBUFLEN"
  shows "(\<forall>t' u' s'. ttyhandle_in t u s = Some (t', u', s') \<longrightarrow> tyitail t' = tyitail t + 1) \<and>
    (tyitail t = TY_IBUFLEN \<longrightarrow> ttyhandle_in t u s = None)"
proof -
  have a: "\<not> (if semcount (tyisem t) s < 0 then 0 else semcount (tyisem t) s) \<ge> TY_IBUFLEN" using assms(2) by simp
  obtain ch u1 where c: "uart_read u = (ch, u1)" by (cases "uart_read u")
  show ?thesis
    by (auto simp: ttyhandle_in_def c assms(1) a put_in_def Let_def bind_eq_Some_conv split: if_splits)
qed

lemma tty_raw_mode_overruns_witness:
  "ttyhandle_in (demo_tty\<lparr>tyimode := TY_IMRAW, tyitail := 128\<rparr>) (demo_uart [97]) scene = None"
  using tty_raw_mode_overruns [of "demo_tty\<lparr>tyimode := TY_IMRAW, tyitail := 128\<rparr>" scene "demo_uart [97]"] by simp

text \<open>In cbreak mode a character is stored but the input semaphore is not signalled: whatever is
  typed, the kernel state is unchanged, so a process blocked in \<open>ttygetc\<close> stays blocked.\<close>

theorem tty_cbreak_never_wakes_reader:
  assumes "tyimode t = TY_IMCBREAK" "ttyhandle_in t u s = Some (t', u', s')"
  shows "s' = s"
proof -
  obtain ch u1 where c: "uart_read u = (ch, u1)" by (cases "uart_read u")
  show ?thesis
    using assms(2)
    by (auto simp: ttyhandle_in_def c assms(1) put_in_def Let_def bind_eq_Some_conv split: if_splits prod.splits)
qed

lemma tty_cbreak_never_wakes_reader_witness:
  "\<exists>t' u'. ttyhandle_in (demo_tty\<lparr>tyimode := TY_IMCBREAK\<rparr>) (demo_uart [97]) scene = Some (t', u', scene)"
proof -
  have "ttyhandle_in (demo_tty\<lparr>tyimode := TY_IMCBREAK\<rparr>) (demo_uart [97]) scene \<noteq> None"
    by (simp add: ttyhandle_in_def demo_uart_def uart_read_def put_in_def Let_def split_beta)
  then obtain t' u' s' where h: "ttyhandle_in (demo_tty\<lparr>tyimode := TY_IMCBREAK\<rparr>) (demo_uart [97]) scene = Some (t', u', s')"
    by auto
  then have "s' = scene" by (rule tty_cbreak_never_wakes_reader [rotated]) simp
  then show ?thesis using h by blast
qed

end
