(* ===== verification/BufPool.thy ===== *)
theory BufPool
  imports Semaphores Allocator
begin

text \<open>
  Buffer pools: \<^verbatim>\<open>system/bufinit.c\<close>, \<^verbatim>\<open>mkbufpool.c\<close>, \<^verbatim>\<open>getbuf.c\<close>, \<^verbatim>\<open>freebuf.c\<close> and
  \<^verbatim>\<open>include/bufpool.h\<close>.

  The operations work on three parts of the system: the pool table, the store of \<open>Memory\<close> and
  the kernel tables.  A free buffer's first word is the pointer to the next free one; in a
  buffer that is in use the same word holds the pool's number.
\<close>

abbreviation (input) NBPOOLS :: int where "NBPOOLS \<equiv> 20"

record bpentry =
  bpnext :: u32
  bpsem :: int
  bpsize :: int

record bufpools =
  buftab :: "int \<Rightarrow> bpentry"
  nbpools :: int

definition store_word :: "u32 \<Rightarrow> u32 \<Rightarrow> 'z memory_scheme \<Rightarrow> 'z memory_scheme" where
  "store_word a v m = m\<lparr>word_at := (word_at m)(a := v)\<rparr>"

definition set_bpnext :: "int \<Rightarrow> u32 \<Rightarrow> bufpools \<Rightarrow> bufpools" where
  "set_bpnext p v b = b\<lparr>buftab := (buftab b)(p := (buftab b p)\<lparr>bpnext := v\<rparr>)\<rparr>"

definition bufinit :: "bufpools \<Rightarrow> int \<times> bufpools" where
  "bufinit b = (OK, b\<lparr>nbpools := 0\<rparr>)"

text \<open>The loop of \<open>mkbufpool\<close> that links the buffers, and the end of the list.\<close>

fun link_bufs :: "nat \<Rightarrow> u32 \<Rightarrow> u32 \<Rightarrow> 'z memory_scheme \<Rightarrow> 'z memory_scheme" where
  "link_bufs 0 buf bufsiz m = store_word buf NULL m"
| "link_bufs (Suc n) buf bufsiz m = link_bufs n (buf + bufsiz) bufsiz (store_word buf (buf + bufsiz) m)"

definition mkbufpool :: "int \<Rightarrow> int \<Rightarrow> bufpools \<Rightarrow> 'y memory_scheme \<Rightarrow> 'z kstate_scheme \<Rightarrow>
    (int \<times> bufpools \<times> 'y memory_scheme \<times> 'z kstate_scheme) option" where
  "mkbufpool bufsiz numbufs b m s =
     (if bufsiz < 8 \<or> bufsiz > 8192 \<or> numbufs < 1 \<or> numbufs > 2048 \<or> nbpools b \<ge> NBPOOLS
      then Some (SYSERR, b, m, s)
      else do {
        let bufsiz = 4 * ((bufsiz + 3) div 4);
        (buf, m) \<leftarrow> getmem (word_of_int (numbufs * (bufsiz + 4))) m;
        if buf = ADDR_SYSERR then Some (SYSERR, b, m, s)
        else
          let poolid = nbpools b;
              b = b\<lparr>nbpools := nbpools b + 1\<rparr>;
              b = set_bpnext poolid buf b;
              b = b\<lparr>buftab := (buftab b)(poolid := (buftab b poolid)\<lparr>bpsize := bufsiz\<rparr>)\<rparr>;
              (sem, s) = semcreate numbufs s;
              b = b\<lparr>buftab := (buftab b)(poolid := (buftab b poolid)\<lparr>bpsem := sem\<rparr>)\<rparr>
          in if sem = SYSERR then Some (SYSERR, b\<lparr>nbpools := nbpools b - 1\<rparr>, m, s)
             else Some (poolid, b, link_bufs (nat (numbufs - 1)) buf (word_of_int (bufsiz + 4)) m, s)
      })"

text \<open>\<open>getbuf\<close> after its \<open>wait\<close>, whose result it does not look at.\<close>

definition getbuf_take :: "int \<Rightarrow> bufpools \<Rightarrow> 'y memory_scheme \<Rightarrow> u32 \<times> bufpools \<times> 'y memory_scheme" where
  "getbuf_take poolid b m =
     (let bufptr = bpnext (buftab b poolid);
          b = set_bpnext poolid (word_at m bufptr) b;
          m = store_word bufptr (word_of_int poolid) m
      in (bufptr + 4, b, m))"

definition getbuf :: "int \<Rightarrow> bufpools \<Rightarrow> 'y memory_scheme \<Rightarrow> 'z kstate_scheme \<Rightarrow>
    ((u32, unit) outcome \<times> bufpools \<times> 'y memory_scheme \<times> 'z kstate_scheme) option" where
  "getbuf poolid b m s =
     (if poolid < 0 \<or> poolid \<ge> nbpools b then Some (Ret ADDR_SYSERR, b, m, s)
      else do {
        (r, s) \<leftarrow> wait (bpsem (buftab b poolid)) s;
        case r of
          Switch _ \<Rightarrow> Some (Switch (), b, m, s)
        | Ret _ \<Rightarrow> let (a, b, m) = getbuf_take poolid b m in Some (Ret a, b, m, s)
      })"

definition freebuf :: "u32 \<Rightarrow> bufpools \<Rightarrow> 'y memory_scheme \<Rightarrow> 'z kstate_scheme \<Rightarrow>
    ((int, int) outcome \<times> bufpools \<times> 'y memory_scheme \<times> 'z kstate_scheme) option" where
  "freebuf bufaddr b m s =
     (let bufaddr = bufaddr - 4; poolid = sint (word_at m bufaddr) in
      if poolid < 0 \<or> poolid \<ge> nbpools b then Some (Ret SYSERR, b, m, s)
      else do {
        let m = store_word bufaddr (bpnext (buftab b poolid)) m;
        let b = set_bpnext poolid bufaddr b;
        (r, s) \<leftarrow> signal (bpsem (buftab b poolid)) s;
        Some (then_return r OK, b, m, s)
      })"

subsection \<open>The free buffers of a pool\<close>

text \<open>A semaphore with units to spare: \<open>wait\<close> takes one and does not block.\<close>

definition sem_has :: "int \<Rightarrow> int \<Rightarrow> 'z kstate_scheme \<Rightarrow> bool" where
  "sem_has sem n s \<longleftrightarrow> \<not> isbadsem sem \<and> sstate (semtab s sem) = S_USED \<and> scount (semtab s sem) = n \<and> n < 2147483648"

lemma wait_takes: "sem_has sem n s \<Longrightarrow> 0 < n \<Longrightarrow> wait sem s = Some (Ret OK, set_scount sem (n - 1) s)"
  by (simp add: sem_has_def wait_def set_scount_def)

lemma signal_gives: "sem_has sem n s \<Longrightarrow> 0 \<le> n \<Longrightarrow> n < 2147483647 \<Longrightarrow> signal sem s = Some (Ret OK, set_scount sem (n + 1) s)"
  by (simp add: sem_has_def signal_def set_scount_def)

lemma sem_has_set: "sem_has sem n s \<Longrightarrow> n' < 2147483648 \<Longrightarrow> sem_has sem n' (set_scount sem n' s)"
  by (simp add: sem_has_def set_scount_def)

lemma sint_of_nonneg: "0 \<le> p \<Longrightarrow> p < 2147483648 \<Longrightarrow> sint (word_of_int p :: u32) = p"
proof -
  assume "0 \<le> p" "p < 2147483648"
  then have "signed_take_bit 31 p = p" by (intro signed_take_bit_int_eq_self) auto
  then show ?thesis by (simp add: signed_of_int)
qed

fun bufs :: "'y memory_scheme \<Rightarrow> u32 \<Rightarrow> u32 list \<Rightarrow> bool" where
  "bufs m p [] \<longleftrightarrow> p = NULL"
| "bufs m p (a # as) \<longleftrightarrow> p = a \<and> a \<noteq> NULL \<and> bufs m (word_at m a) as"

definition pool :: "int \<Rightarrow> bufpools \<Rightarrow> 'y memory_scheme \<Rightarrow> u32 list \<Rightarrow> bool" where
  "pool p b m as \<longleftrightarrow> 0 \<le> p \<and> p < nbpools b \<and> p < 2147483648 \<and> bufs m (bpnext (buftab b p)) as \<and> distinct as"

lemma bufs_frame: "bufs m p as \<Longrightarrow> (\<And>a. a \<in> set as \<Longrightarrow> word_at m' a = word_at m a) \<Longrightarrow> bufs m' p as"
  by (induction as arbitrary: p) auto

lemma store_word_simps [simp]:
  "word_at (store_word a v m) x = (if x = a then v else word_at m x)"
  "memlist (store_word a v m) = memlist m" "minheap (store_word a v m) = minheap m" "maxheap (store_word a v m) = maxheap m"
  by (simp_all add: store_word_def)

lemma set_bpnext_simps [simp]:
  "buftab (set_bpnext p v b) q = (if q = p then (buftab b p)\<lparr>bpnext := v\<rparr> else buftab b q)"
  "nbpools (set_bpnext p v b) = nbpools b"
  by (simp_all add: set_bpnext_def)

lemma getbuf_take_pool:
  assumes "pool p b m (a # as)"
  shows "\<exists>b' m'. getbuf_take p b m = (a + 4, b', m') \<and> pool p b' m' as \<and> a \<notin> set as \<and> word_at m' a = word_of_int p \<and>
    (\<forall>x. x \<noteq> a \<longrightarrow> word_at m' x = word_at m x) \<and> (\<forall>q. q \<noteq> p \<longrightarrow> buftab b' q = buftab b q) \<and>
    bpsem (buftab b' p) = bpsem (buftab b p)"
proof -
  have a: "bpnext (buftab b p) = a" "bufs m (word_at m a) as" "a \<notin> set as" using assms by (auto simp: pool_def)
  let ?m = "store_word a (word_of_int p) m"
  have "bufs ?m (word_at m a) as" by (rule bufs_frame [OF a(2)]) (use a(3) in auto)
  then show ?thesis using assms a by (auto simp: getbuf_take_def pool_def Let_def)
qed

lemma freebuf_pool:
  assumes "pool p b m as" "word_at m a = word_of_int p" "a \<noteq> NULL" "a \<notin> set as"
  shows "\<exists>b' m'. freebuf (a + 4) b m s =
      do { (r, s) \<leftarrow> signal (bpsem (buftab b p)) s; Some (then_return r OK, b', m', s) } \<and>
    pool p b' m' (a # as) \<and> (\<forall>x. x \<noteq> a \<longrightarrow> word_at m' x = word_at m x) \<and>
    (\<forall>q. q \<noteq> p \<longrightarrow> buftab b' q = buftab b q)"
proof -
  have p: "sint (word_of_int p :: u32) = p"
    by (rule sint_of_nonneg) (use assms(1) in \<open>auto simp: pool_def\<close>)
  let ?m = "store_word a (bpnext (buftab b p)) m" and ?b = "set_bpnext p a b"
  have "bufs ?m (bpnext (buftab b p)) as"
    by (rule bufs_frame [of m]) (use assms in \<open>auto simp: pool_def\<close>)
  then have "pool p ?b ?m (a # as)" using assms by (simp add: pool_def)
  moreover have "freebuf (a + 4) b m s =
      do { (r, s) \<leftarrow> signal (bpsem (buftab b p)) s; Some (then_return r OK, ?b, ?m, s) }"
    using assms(1) by (simp add: freebuf_def assms(2) p pool_def Let_def)
  ultimately show ?thesis by (intro exI [of _ ?b] exI [of _ ?m]) simp
qed

text \<open>The buffers that \<open>mkbufpool\<close> lays out behind one another.\<close>

fun laid_out :: "nat \<Rightarrow> u32 \<Rightarrow> u32 \<Rightarrow> u32 list" where
  "laid_out 0 buf sz = []"
| "laid_out (Suc n) buf sz = buf # laid_out n (buf + sz) sz"

lemma laid_out_bounds:
  "unat buf + n * unat sz < 4294967296 \<Longrightarrow> a \<in> set (laid_out n buf sz) \<Longrightarrow>
   unat buf \<le> unat a \<and> unat a + unat sz \<le> unat buf + n * unat sz"
proof (induction n arbitrary: buf)
  case (Suc n)
  show ?case
  proof (cases "a = buf")
    case False
    then have a: "a \<in> set (laid_out n (buf + sz) sz)" using Suc.prems(2) by simp
    have "unat (buf + sz) = unat buf + unat sz" using Suc.prems(1) by (intro unat_add_small) simp
    then show ?thesis using Suc.IH [OF _ a] Suc.prems(1) by simp
  qed simp
qed simp

lemma laid_out_disjoint:
  "unat buf + n * unat sz < 4294967296 \<Longrightarrow> 0 < unat sz \<Longrightarrow>
   sorted_wrt (\<lambda>a a'. unat a + unat sz \<le> unat a') (laid_out n buf sz)"
proof (induction n arbitrary: buf)
  case (Suc n)
  have b: "unat (buf + sz) = unat buf + unat sz" using Suc.prems(1) by (intro unat_add_small) simp
  then show ?case using Suc laid_out_bounds [of "buf + sz" n sz] by fastforce
qed simp

lemma link_bufs_frame:
  "x \<notin> set (laid_out (Suc n) buf sz) \<Longrightarrow> word_at (link_bufs n buf sz m) x = word_at m x"
  by (induction n arbitrary: buf m) auto

lemma link_bufs_ok:
  "unat buf + Suc n * unat sz < 4294967296 \<Longrightarrow> 0 < unat sz \<Longrightarrow> buf \<noteq> NULL \<Longrightarrow>
   bufs (link_bufs n buf sz m) buf (laid_out (Suc n) buf sz)"
proof (induction n arbitrary: buf m)
  case 0
  then show ?case by simp
next
  case (Suc n)
  have b: "unat (buf + sz) = unat buf + unat sz" using Suc.prems(1) by (intro unat_add_small) simp
  have "buf + sz \<noteq> NULL" using b Suc.prems(2) by (metis add_is_0 less_irrefl unat_0)
  then have IH: "bufs (link_bufs n (buf + sz) sz (store_word buf (buf + sz) m)) (buf + sz) (laid_out (Suc n) (buf + sz) sz)"
    using Suc.IH [of "buf + sz"] Suc.prems b by simp
  have "buf \<notin> set (laid_out (Suc n) (buf + sz) sz)"
    using laid_out_bounds [of "buf + sz" "Suc n" sz buf] b Suc.prems(1,2) by auto
  then have "word_at (link_bufs n (buf + sz) sz (store_word buf (buf + sz) m)) buf = buf + sz"
    by (subst link_bufs_frame) simp_all
  then show ?case using IH Suc.prems(3) by simp
qed

end
