(* ===== verification/Ports.thy ===== *)
theory Ports
  imports BufPool
begin

text \<open>
  Communication ports: \<^verbatim>\<open>system/ptinit.c\<close>, \<^verbatim>\<open>ptcreate.c\<close>, \<^verbatim>\<open>ptsend.c\<close>, \<^verbatim>\<open>ptrecv.c\<close>,
  \<^verbatim>\<open>ptcount.c\<close>, \<^verbatim>\<open>ptdelete.c\<close>, \<^verbatim>\<open>ptreset.c\<close>, \<^verbatim>\<open>ptclear.c\<close> and \<^verbatim>\<open>include/ports.h\<close>.

  A message node at address \<open>a\<close> is the two words of a \<open>struct ptnode\<close>: the message at \<open>a\<close>
  and the next pointer at \<open>a + 4\<close>.  Sending and receiving wait on a semaphore first; what they
  do after it (\<open>ptsend_link\<close>, \<open>ptrecv_unlink\<close>) looks at the port again, because it may have
  been deleted or reset in the meantime.
\<close>

abbreviation (input) NPORTS :: int where "NPORTS \<equiv> 30"

datatype ptstatus = PT_FREE | PT_LIMBO | PT_ALLOC

record ptentry =
  ptssem :: int
  ptrsem :: int
  ptstate :: ptstatus
  ptmaxcnt :: int          \<comment> \<open>16 bits\<close>
  ptseq :: int
  pthead :: u32
  pttail :: u32

record ports =
  porttab :: "int \<Rightarrow> ptentry"
  ptfree :: u32
  ptnextid :: int

definition ptmsg :: "u32 \<Rightarrow> 'y memory_scheme \<Rightarrow> u32" where "ptmsg a m = word_at m a"
definition ptnext :: "u32 \<Rightarrow> 'y memory_scheme \<Rightarrow> u32" where "ptnext a m = word_at m (a + 4)"

definition set_ptmsg :: "u32 \<Rightarrow> u32 \<Rightarrow> 'y memory_scheme \<Rightarrow> 'y memory_scheme" where
  "set_ptmsg a v m = store_word a v m"

definition set_ptnext :: "u32 \<Rightarrow> u32 \<Rightarrow> 'y memory_scheme \<Rightarrow> 'y memory_scheme" where
  "set_ptnext a v m = store_word (a + 4) v m"

definition isbadport :: "int \<Rightarrow> bool" where
  "isbadport portid \<longleftrightarrow> portid < 0 \<or> portid \<ge> NPORTS"

definition upd_port :: "int \<Rightarrow> (ptentry \<Rightarrow> ptentry) \<Rightarrow> ports \<Rightarrow> ports" where
  "upd_port k f p = p\<lparr>porttab := (porttab p)(k := f (porttab p k))\<rparr>"

text \<open>The two loops of \<open>ptinit\<close>: \<open>n\<close> table entries, and \<open>n\<close> further nodes on the free list.\<close>

fun ptinit_entries :: "nat \<Rightarrow> ports \<Rightarrow> ports" where
  "ptinit_entries 0 p = p"
| "ptinit_entries (Suc n) p =
     (let p = ptinit_entries n p in
      upd_port (int n) (\<lambda>e. e\<lparr>ptstate := PT_FREE, ptseq := 0\<rparr>) p)"

fun ptinit_nodes :: "nat \<Rightarrow> u32 \<Rightarrow> 'y memory_scheme \<Rightarrow> u32 \<times> 'y memory_scheme" where
  "ptinit_nodes 0 cur m = (cur, m)"
| "ptinit_nodes (Suc n) cur m = ptinit_nodes n (cur + 8) (set_ptnext cur (cur + 8) m)"

definition ptinit :: "int \<Rightarrow> ports \<Rightarrow> 'y memory_scheme \<Rightarrow> (int \<times> ports \<times> 'y memory_scheme) option" where
  "ptinit maxmsgs p m = do {
     (a, m) \<leftarrow> getmem (word_of_int (maxmsgs * 8)) m;
     let p = p\<lparr>ptfree := a\<rparr>;
     if a = ADDR_SYSERR then None       \<comment> \<open>\<open>panic\<close>\<close>
     else
       let p = ptinit_entries (nat NPORTS) p;
           p = p\<lparr>ptnextid := 0\<rparr>;
           (cur, m) = ptinit_nodes (nat (maxmsgs - 1)) (ptfree p) m
       in Some (OK, p, set_ptnext cur NULL m)
   }"

fun ptcreate_loop :: "nat \<Rightarrow> int \<Rightarrow> ports \<Rightarrow> 'z kstate_scheme \<Rightarrow> int \<times> ports \<times> 'z kstate_scheme" where
  "ptcreate_loop 0 count p s = (SYSERR, p, s)"
| "ptcreate_loop (Suc n) count p s =
     (let ptnum = ptnextid p;
          p = p\<lparr>ptnextid := ptnextid p + 1\<rparr>;
          p = (if ptnextid p \<ge> NPORTS then p\<lparr>ptnextid := 0\<rparr> else p) in
      if ptstate (porttab p ptnum) = PT_FREE then
        let (ssem, s) = semcreate count s;
            (rsem, s) = semcreate 0 s
        in (ptnum, upd_port ptnum (\<lambda>e. e\<lparr>ptstate := PT_ALLOC, ptssem := ssem, ptrsem := rsem,
              pthead := NULL, pttail := NULL, ptseq := wrap32 (ptseq e + 1), ptmaxcnt := count mod 65536\<rparr>) p, s)
      else ptcreate_loop n count p s)"

definition ptcreate :: "int \<Rightarrow> ports \<Rightarrow> 'z kstate_scheme \<Rightarrow> int \<times> ports \<times> 'z kstate_scheme" where
  "ptcreate count p s = (if count < 0 then (SYSERR, p, s) else ptcreate_loop (nat NPORTS) count p s)"

text \<open>
  What is left of a blocked call: \<open>AfterWait seq\<close>, the part behind the \<open>wait\<close>, with the sequence
  number it recorded; \<open>Returning v\<close>, nothing but returning \<open>v\<close>.
\<close>

datatype 'v ptcont = AfterWait int | Returning 'v

definition finish :: "('v, 'w) outcome \<Rightarrow> 'r \<Rightarrow> ('r, 'r ptcont) outcome" where
  "finish r v = (case r of Ret _ \<Rightarrow> Ret v | Switch _ \<Rightarrow> Switch (Returning v))"

text \<open>\<open>ptsend\<close> after its \<open>wait\<close> returned \<open>w\<close>.\<close>

definition ptsend_link :: "int \<Rightarrow> int \<Rightarrow> int \<Rightarrow> u32 \<Rightarrow> ports \<Rightarrow> 'y memory_scheme \<Rightarrow> 'z kstate_scheme \<Rightarrow>
    ((int, int ptcont) outcome \<times> ports \<times> 'y memory_scheme \<times> 'z kstate_scheme) option" where
  "ptsend_link w seq portid msg p m s =
     (if w = SYSERR \<or> ptstate (porttab p portid) \<noteq> PT_ALLOC \<or> ptseq (porttab p portid) \<noteq> seq
      then Some (Ret SYSERR, p, m, s)
      else if ptfree p = NULL then None       \<comment> \<open>\<open>panic\<close>\<close>
      else do {
        let msgnode = ptfree p;
        let p = p\<lparr>ptfree := ptnext msgnode m\<rparr>;
        let m = set_ptnext msgnode NULL m;
        let m = set_ptmsg msgnode msg m;
        let tailnode = pttail (porttab p portid);
        let (p, m) =
          (if tailnode = NULL then (upd_port portid (\<lambda>e. e\<lparr>pthead := msgnode, pttail := msgnode\<rparr>) p, m)
           else (upd_port portid (\<lambda>e. e\<lparr>pttail := msgnode\<rparr>) p, set_ptnext tailnode msgnode m));
        (r, s) \<leftarrow> signal (ptrsem (porttab p portid)) s;
        Some (finish r OK, p, m, s)
      })"

definition ptsend :: "int \<Rightarrow> u32 \<Rightarrow> ports \<Rightarrow> 'y memory_scheme \<Rightarrow> 'z kstate_scheme \<Rightarrow>
    ((int, int ptcont) outcome \<times> ports \<times> 'y memory_scheme \<times> 'z kstate_scheme) option" where
  "ptsend portid msg p m s =
     (if isbadport portid \<or> ptstate (porttab p portid) \<noteq> PT_ALLOC then Some (Ret SYSERR, p, m, s)
      else do {
        let seq = ptseq (porttab p portid);
        (r, s) \<leftarrow> wait (ptssem (porttab p portid)) s;
        case r of
          Switch _ \<Rightarrow> Some (Switch (AfterWait seq), p, m, s)
        | Ret w \<Rightarrow> ptsend_link w seq portid msg p m s
      })"

definition ptrecv_unlink :: "int \<Rightarrow> int \<Rightarrow> int \<Rightarrow> ports \<Rightarrow> 'y memory_scheme \<Rightarrow> 'z kstate_scheme \<Rightarrow>
    ((u32, u32 ptcont) outcome \<times> ports \<times> 'y memory_scheme \<times> 'z kstate_scheme) option" where
  "ptrecv_unlink w seq portid p m s =
     (if w = SYSERR \<or> ptstate (porttab p portid) \<noteq> PT_ALLOC \<or> ptseq (porttab p portid) \<noteq> seq
      then Some (Ret ADDR_SYSERR, p, m, s)
      else do {
        let msgnode = pthead (porttab p portid);
        let msg = ptmsg msgnode m;
        let p = (if pthead (porttab p portid) = pttail (porttab p portid)
                 then upd_port portid (\<lambda>e. e\<lparr>pthead := NULL, pttail := NULL\<rparr>) p
                 else upd_port portid (\<lambda>e. e\<lparr>pthead := ptnext msgnode m\<rparr>) p);
        let m = set_ptnext msgnode (ptfree p) m;
        let p = p\<lparr>ptfree := msgnode\<rparr>;
        (r, s) \<leftarrow> signal (ptssem (porttab p portid)) s;
        Some (finish r msg, p, m, s)
      })"

definition ptrecv :: "int \<Rightarrow> ports \<Rightarrow> 'y memory_scheme \<Rightarrow> 'z kstate_scheme \<Rightarrow>
    ((u32, u32 ptcont) outcome \<times> ports \<times> 'y memory_scheme \<times> 'z kstate_scheme) option" where
  "ptrecv portid p m s =
     (if isbadport portid \<or> ptstate (porttab p portid) \<noteq> PT_ALLOC then Some (Ret ADDR_SYSERR, p, m, s)
      else do {
        let seq = ptseq (porttab p portid);
        (r, s) \<leftarrow> wait (ptrsem (porttab p portid)) s;
        case r of
          Switch _ \<Rightarrow> Some (Switch (AfterWait seq), p, m, s)
        | Ret w \<Rightarrow> ptrecv_unlink w seq portid p m s
      })"

definition ptcount :: "int \<Rightarrow> ports \<Rightarrow> 'z kstate_scheme \<Rightarrow> int" where
  "ptcount portid p s =
     (if isbadport portid \<or> ptstate (porttab p portid) \<noteq> PT_ALLOC then SYSERR
      else
        let count = semcount (ptrsem (porttab p portid)) s in
        if count \<ge> 0 then
          let sndcnt = semcount (ptssem (porttab p portid)) s in
          if sndcnt < 0 then count + (- sndcnt) else count
        else count)"

text \<open>
  The function passed to dispose of each message is a parameter, on whatever state \<open>'x\<close> it works on.
\<close>

partial_function (option) dispose_walk ::
    "(u32 \<Rightarrow> 'x \<Rightarrow> 'x) \<Rightarrow> u32 \<Rightarrow> 'y memory_scheme \<Rightarrow> 'x \<Rightarrow> 'x option" where
  "dispose_walk disp walk m x =
     (if walk \<noteq> NULL then dispose_walk disp (ptnext walk m) m (disp (ptmsg walk m) x) else Some x)"

definition ptclear_msgs :: "int \<Rightarrow> (u32 \<Rightarrow> 'x \<Rightarrow> 'x) \<Rightarrow> ports \<Rightarrow> 'y memory_scheme \<Rightarrow> 'x \<Rightarrow>
    (ports \<times> 'y memory_scheme \<times> 'x) option" where
  "ptclear_msgs k disp p m x = do {
     let p = upd_port k (\<lambda>e. e\<lparr>ptstate := PT_LIMBO\<rparr>) p;
     let p = upd_port k (\<lambda>e. e\<lparr>ptseq := wrap32 (ptseq e + 1)\<rparr>) p;
     let walk = pthead (porttab p k);
     if walk \<noteq> NULL then do {
       x \<leftarrow> dispose_walk disp walk m x;
       let m = set_ptnext (pttail (porttab p k)) (ptfree p) m;
       let p = p\<lparr>ptfree := pthead (porttab p k)\<rparr>;
       Some (p, m, x)
     }
     else Some (p, m, x)
   }"

text \<open>
  The rest of \<open>_ptclear\<close>: two semaphore calls, each of which may give up the processor, and the
  new state of the port.  \<open>n\<close> counts how many of the two calls are still to be made.
\<close>

fun ptclear_sems :: "nat \<Rightarrow> int \<Rightarrow> ptstatus \<Rightarrow> ports \<Rightarrow> 'z kstate_scheme \<Rightarrow>
    ((unit, nat) outcome \<times> ports \<times> 'z kstate_scheme) option" where
  "ptclear_sems 0 k newstate p s = Some (Ret (), upd_port k (\<lambda>e. e\<lparr>ptstate := newstate\<rparr>) p, s)"
| "ptclear_sems (Suc n) k newstate p s =
     (case (if newstate = PT_ALLOC
            then if n = 0 then semreset (ptrsem (porttab p k)) 0 s
                 else semreset (ptssem (porttab p k)) (ptmaxcnt (porttab p k)) s
            else if n = 0 then semdelete (ptrsem (porttab p k)) s
                 else semdelete (ptssem (porttab p k)) s) of
        None \<Rightarrow> None
      | Some (Switch _, s) \<Rightarrow> Some (Switch n, p, s)
      | Some (Ret _, s) \<Rightarrow> ptclear_sems n k newstate p s)"

definition ptclear :: "int \<Rightarrow> ptstatus \<Rightarrow> (u32 \<Rightarrow> 'x \<Rightarrow> 'x) \<Rightarrow> ports \<Rightarrow> 'y memory_scheme \<Rightarrow> 'x \<Rightarrow> 'z kstate_scheme \<Rightarrow>
    ((unit, nat) outcome \<times> ports \<times> 'y memory_scheme \<times> 'x \<times> 'z kstate_scheme) option" where
  "ptclear k newstate disp p m x s = do {
     (p, m, x) \<leftarrow> ptclear_msgs k disp p m x;
     let p = (if newstate = PT_ALLOC then upd_port k (\<lambda>e. e\<lparr>pthead := NULL, pttail := NULL\<rparr>) p else p);
     (r, p, s) \<leftarrow> ptclear_sems 2 k newstate p s;
     Some (r, p, m, x, s)
   }"

text \<open>When \<open>_ptclear\<close> runs through, \<open>ptdelete\<close> still sets where the next search starts.\<close>

definition ptdelete_end :: "int \<Rightarrow> ports \<Rightarrow> int \<times> ports" where
  "ptdelete_end portid p = (OK, p\<lparr>ptnextid := portid\<rparr>)"

definition ptdelete :: "int \<Rightarrow> (u32 \<Rightarrow> 'x \<Rightarrow> 'x) \<Rightarrow> ports \<Rightarrow> 'y memory_scheme \<Rightarrow> 'x \<Rightarrow> 'z kstate_scheme \<Rightarrow>
    ((int, nat) outcome \<times> ports \<times> 'y memory_scheme \<times> 'x \<times> 'z kstate_scheme) option" where
  "ptdelete portid disp p m x s =
     (if isbadport portid \<or> ptstate (porttab p portid) \<noteq> PT_ALLOC then Some (Ret SYSERR, p, m, x, s)
      else do {
        (r, p, m, x, s) \<leftarrow> ptclear portid PT_FREE disp p m x s;
        case r of
          Switch n \<Rightarrow> Some (Switch n, p, m, x, s)
        | Ret _ \<Rightarrow> let (v, p) = ptdelete_end portid p in Some (Ret v, p, m, x, s)
      })"

definition ptreset :: "int \<Rightarrow> (u32 \<Rightarrow> 'x \<Rightarrow> 'x) \<Rightarrow> ports \<Rightarrow> 'y memory_scheme \<Rightarrow> 'x \<Rightarrow> 'z kstate_scheme \<Rightarrow>
    ((int, nat) outcome \<times> ports \<times> 'y memory_scheme \<times> 'x \<times> 'z kstate_scheme) option" where
  "ptreset portid disp p m x s =
     (if isbadport portid \<or> ptstate (porttab p portid) \<noteq> PT_ALLOC then Some (Ret SYSERR, p, m, x, s)
      else do {
        (r, p, m, x, s) \<leftarrow> ptclear portid PT_ALLOC disp p m x s;
        Some (case r of Switch n \<Rightarrow> Switch n | Ret _ \<Rightarrow> Ret OK, p, m, x, s)
      })"

subsection \<open>The messages of a port\<close>

text \<open>\<open>nodes m a as\<close>: the list of nodes at \<open>a\<close> is \<open>as\<close>, its last next pointer is null.\<close>

fun nodes :: "'y memory_scheme \<Rightarrow> u32 \<Rightarrow> u32 list \<Rightarrow> bool" where
  "nodes m a [] \<longleftrightarrow> a = NULL"
| "nodes m a (b # bs) \<longleftrightarrow> a = b \<and> b \<noteq> NULL \<and> nodes m (ptnext b m) bs"

text \<open>Nodes are eight bytes apart: the words of different nodes are different.\<close>

definition separate :: "u32 list \<Rightarrow> bool" where
  "separate as \<longleftrightarrow> distinct as \<and> (\<forall>a \<in> set as. \<forall>b \<in> set as. a + 4 \<noteq> b)"

definition port_ok :: "int \<Rightarrow> ports \<Rightarrow> 'y memory_scheme \<Rightarrow> u32 list \<Rightarrow> u32 list \<Rightarrow> bool" where
  "port_ok k p m qs fs \<longleftrightarrow> nodes m (pthead (porttab p k)) qs \<and> nodes m (ptfree p) fs \<and> separate (qs @ fs) \<and>
     pttail (porttab p k) = (if qs = [] then NULL else last qs)"

definition messages :: "'y memory_scheme \<Rightarrow> u32 list \<Rightarrow> u32 list" where
  "messages m qs = map (\<lambda>a. ptmsg a m) qs"

lemma nodes_frame: "nodes m a as \<Longrightarrow> (\<And>b. b \<in> set as \<Longrightarrow> word_at m' (b + 4) = word_at m (b + 4)) \<Longrightarrow> nodes m' a as"
  by (induction as arbitrary: a) (auto simp: ptnext_def)

lemma nodes_nonnull: "nodes m a as \<Longrightarrow> b \<in> set as \<Longrightarrow> b \<noteq> NULL"
  by (induction as arbitrary: a) auto

lemma nodes_snoc:
  "nodes m a as \<Longrightarrow> as \<noteq> [] \<Longrightarrow> separate (as @ [n]) \<Longrightarrow> n \<noteq> NULL \<Longrightarrow> ptnext n m = NULL \<Longrightarrow>
   nodes (set_ptnext (last as) n m) a (as @ [n])"
proof (induction as arbitrary: a)
  case Nil
  then show ?case by simp
next
  case (Cons b bs)
  have s: "b \<noteq> n" "separate (bs @ [n])" "b \<notin> set bs" using Cons.prems(3) by (auto simp: separate_def)
  show ?case
  proof (cases "bs = []")
    case True
    then show ?thesis using Cons.prems s(1) by (simp add: ptnext_def set_ptnext_def)
  next
    case False
    then have "last bs \<noteq> b" using s(3) last_in_set by metis
    then have "ptnext b (set_ptnext (last bs) n m) = ptnext b m" by (simp add: ptnext_def set_ptnext_def)
    then show ?thesis using Cons False s(2) by simp
  qed
qed

lemma nodes_last_null: "nodes m a as \<Longrightarrow> as \<noteq> [] \<Longrightarrow> ptnext (last as) m = NULL"
  by (induction as arbitrary: a) auto

lemma upd_port_simps [simp]:
  "porttab (upd_port k f p) j = (if j = k then f (porttab p k) else porttab p j)"
  "ptfree (upd_port k f p) = ptfree p" "ptnextid (upd_port k f p) = ptnextid p"
  by (simp_all add: upd_port_def)

lemma ptsend_link_ok:
  assumes "port_ok k p m qs (n # fs)" "ptstate (porttab p k) = PT_ALLOC" "ptseq (porttab p k) = seq" "w \<noteq> SYSERR"
  shows "\<exists>p' m'. ptsend_link w seq k msg p m s =
      do { (r, s) \<leftarrow> signal (ptrsem (porttab p k)) s; Some (finish r OK, p', m', s) } \<and>
    port_ok k p' m' (qs @ [n]) fs \<and> messages m' (qs @ [n]) = messages m qs @ [msg]"
proof -
  let ?e = "porttab p k"
  have q: "nodes m (pthead ?e) qs" "nodes m (ptnext n m) fs" "ptfree p = n" "n \<noteq> NULL" "separate (qs @ n # fs)"
    "pttail ?e = (if qs = [] then NULL else last qs)"
    using assms(1) by (auto simp: port_ok_def)
  have sep: "n \<notin> set qs" "n \<notin> set fs" "\<forall>b \<in> set qs \<union> set fs \<union> {n}. b + 4 \<noteq> n \<and> n + 4 \<noteq> b" "set qs \<inter> set fs = {}"
    "separate (qs @ [n])" "separate ((qs @ [n]) @ fs)"
    using q(5) by (auto simp: separate_def)
  let ?m1 = "set_ptmsg n msg (set_ptnext n NULL m)"
  have w1: "word_at ?m1 x = (if x = n then msg else if x = n + 4 then NULL else word_at m x)" for x
    by (simp add: set_ptmsg_def set_ptnext_def)
  have f1: "nodes ?m1 (ptnext n m) fs" by (rule nodes_frame [OF q(2)]) (use sep w1 in auto)
  have q1: "nodes ?m1 (pthead ?e) qs" by (rule nodes_frame [OF q(1)]) (use sep w1 in auto)
  have n1: "ptnext n ?m1 = NULL" using w1 by (simp add: ptnext_def)
  show ?thesis
  proof (cases "qs = []")
    case True
    let ?p = "upd_port k (\<lambda>e. e\<lparr>pthead := n, pttail := n\<rparr>) (p\<lparr>ptfree := ptnext n m\<rparr>)"
    have "ptsend_link w seq k msg p m s =
        do { (r, s) \<leftarrow> signal (ptrsem ?e) s; Some (finish r OK, ?p, ?m1, s) }"
      using assms(2-4) q True by (simp add: ptsend_link_def Let_def)
    moreover have "port_ok k ?p ?m1 (qs @ [n]) fs"
      using True f1 n1 q(4) sep(6) by (simp add: port_ok_def)
    moreover have "messages ?m1 (qs @ [n]) = messages m qs @ [msg]"
      using True w1 by (simp add: messages_def ptmsg_def)
    ultimately show ?thesis by blast
  next
    case False
    let ?t = "last qs"
    let ?m2 = "set_ptnext ?t n ?m1"
    let ?p = "upd_port k (\<lambda>e. e\<lparr>pttail := n\<rparr>) (p\<lparr>ptfree := ptnext n m\<rparr>)"
    have t: "?t \<in> set qs" "?t \<noteq> NULL" using False nodes_nonnull [OF q(1)] by auto
    have "ptsend_link w seq k msg p m s =
        do { (r, s) \<leftarrow> signal (ptrsem ?e) s; Some (finish r OK, ?p, ?m2, s) }"
      using assms(2-4) q False t(2) by (simp add: ptsend_link_def Let_def)
    moreover have "port_ok k ?p ?m2 (qs @ [n]) fs"
    proof -
      have "nodes ?m2 (pthead ?e) (qs @ [n])" by (rule nodes_snoc [OF q1 False sep(5) q(4) n1])
      moreover have "nodes ?m2 (ptnext n m) fs"
        by (rule nodes_frame [OF f1]) (use sep(4) t in \<open>auto simp: set_ptnext_def\<close>)
      ultimately show ?thesis using sep(6) by (simp add: port_ok_def)
    qed
    moreover have "messages ?m2 (qs @ [n]) = messages m qs @ [msg]"
    proof -
      have "word_at ?m2 a = word_at m a" if "a \<in> set qs" for a
      proof -
        have "a \<noteq> ?t + 4" using q(5) t(1) that by (auto simp: separate_def)
        moreover have "a \<noteq> n" "a \<noteq> n + 4" using sep(1,3) that by auto
        ultimately show ?thesis using w1 by (simp add: set_ptnext_def)
      qed
      moreover have "word_at ?m2 n = msg" using sep(3) t(1) w1 by (auto simp: set_ptnext_def)
      ultimately show ?thesis by (simp add: messages_def ptmsg_def)
    qed
    ultimately show ?thesis by blast
  qed
qed

lemma ptrecv_unlink_ok:
  assumes "port_ok k p m (n # qs) fs" "ptstate (porttab p k) = PT_ALLOC" "ptseq (porttab p k) = seq" "w \<noteq> SYSERR"
  shows "\<exists>p' m'. ptrecv_unlink w seq k p m s =
      do { (r, s) \<leftarrow> signal (ptssem (porttab p k)) s; Some (finish r (ptmsg n m), p', m', s) } \<and>
    port_ok k p' m' qs (n # fs) \<and> messages m' qs = messages m qs"
proof -
  let ?e = "porttab p k"
  have q: "pthead ?e = n" "n \<noteq> NULL" "nodes m (ptnext n m) qs" "nodes m (ptfree p) fs" "separate ((n # qs) @ fs)"
    "pttail ?e = last (n # qs)"
    using assms(1) by (auto simp: port_ok_def)
  have sep: "n \<notin> set qs" "n \<notin> set fs" "\<forall>b \<in> set qs \<union> set fs. n + 4 \<noteq> b" "separate (qs @ n # fs)"
    using q(5) by (auto simp: separate_def)
  let ?m = "set_ptnext n (ptfree p) m"
  let ?p = "(if qs = [] then upd_port k (\<lambda>e. e\<lparr>pthead := NULL, pttail := NULL\<rparr>) p
      else upd_port k (\<lambda>e. e\<lparr>pthead := ptnext n m\<rparr>) p)\<lparr>ptfree := n\<rparr>"
  have w: "word_at ?m x = (if x = n + 4 then ptfree p else word_at m x)" for x by (simp add: set_ptnext_def)
  have e: "n = last (n # qs) \<longleftrightarrow> qs = []" using sep(1) last_in_set [of qs] by auto
  have "ptrecv_unlink w seq k p m s =
      do { (r, s) \<leftarrow> signal (ptssem ?e) s; Some (finish r (ptmsg n m), ?p, ?m, s) }"
    using assms(2-4) q(1,6) e by (simp add: ptrecv_unlink_def Let_def)
  moreover have "port_ok k ?p ?m qs (n # fs)"
  proof -
    have "nodes ?m (ptnext n m) qs" by (rule nodes_frame [OF q(3)]) (use sep(1) w in auto)
    moreover have "nodes ?m (ptfree p) fs" by (rule nodes_frame [OF q(4)]) (use sep(2) w in auto)
    moreover have "ptnext n ?m = ptfree p" using w by (simp add: ptnext_def)
    ultimately show ?thesis using sep(4) q(2,3,6) by (auto simp: port_ok_def)
  qed
  moreover have "messages ?m qs = messages m qs" using sep(3) w by (auto simp: messages_def ptmsg_def)
  ultimately show ?thesis by blast
qed

end
