(* ===== verification/PoolProps.thy ===== *)
theory PoolProps
  imports Ports MemoryProps Scenario
begin

text \<open>
  Properties of the buffer pools (\<open>BufPool\<close>) and of the ports (\<open>Ports\<close>), with witnesses on the
  heap of \<open>MemoryProps\<close> and the kernel state of \<open>Scenario\<close>.
\<close>

subsection \<open>Buffer pools\<close>

lemma length_laid_out [simp]: "length (laid_out n buf sz) = n"
  by (induction n arbitrary: buf) auto

lemma gap_distinct: "sorted_wrt (\<lambda>a a'. f a + d \<le> f a') l \<Longrightarrow> 0 < d \<Longrightarrow> distinct l" for f :: "'a \<Rightarrow> nat"
  by (induction l) auto

lemma round4: "0 \<le> b \<Longrightarrow> b \<le> 8192 \<Longrightarrow> b \<le> 4 * ((b + 3) div 4) \<and> 4 * ((b + 3) div 4) \<le> 8192" for b :: int
  by presburger

lemma unat_of_int: "0 \<le> k \<Longrightarrow> k < 4294967296 \<Longrightarrow> unat (word_of_int k :: u32) = nat k"
  by (simp add: unat_eq_nat_uint uint_word_of_int)

text \<open>C17.  \<open>mkbufpool\<close> with a size and a count in range, on a heap that has room and with a semaphore to
  be had, creates the next pool: as many buffers as asked for, each with the rounded size and a
  word of bookkeeping, none overlapping another, all inside one block taken from the heap, all of
  them free, and its semaphore counting them.\<close>

theorem mkbufpool_builds_pool:
  assumes "heap m hb" "8 \<le> bufsiz" "bufsiz \<le> 8192" "1 \<le> numbufs" "numbufs \<le> 2048" "0 \<le> nbpools b" "nbpools b < NBPOOLS"
    and sz: "sz = 4 * ((bufsiz + 3) div 4) + 4"
    and ff: "first_fit (roundmb (word_of_int (numbufs * sz))) hb = Some (buf, hb')"
    and sem: "semcreate numbufs s = (sem, s')" "sem \<noteq> SYSERR"
  shows "\<exists>b' m'. mkbufpool bufsiz numbufs b m s = Some (nbpools b, b', m', s') \<and>
    pool (nbpools b) b' m' (laid_out (nat numbufs) buf (word_of_int sz)) \<and>
    sorted_wrt (\<lambda>a a'. unat a + nat sz \<le> unat a') (laid_out (nat numbufs) buf (word_of_int sz)) \<and>
    (\<forall>a \<in> set (laid_out (nat numbufs) buf (word_of_int sz)). area a (word_of_int sz) \<subseteq> free_area hb) \<and>
    bpsem (buftab b' (nbpools b)) = sem \<and> bpsize (buftab b' (nbpools b)) = sz - 4"
proof -
  let ?N = "numbufs * sz" and ?p = "nbpools b" and ?sz = "word_of_int sz :: u32"
  have szb: "12 \<le> sz" "sz \<le> 8196" using round4 [of bufsiz] assms(2,3) by (auto simp: sz)
  have N: "0 < ?N" "?N \<le> 2048 * 8196"
    using szb assms(4,5) mult_mono [of numbufs 2048 sz 8196] by simp_all
  have uN: "unat (word_of_int ?N :: u32) = nat ?N" using N by (intro unat_of_int) auto
  have usz: "unat ?sz = nat sz" using szb by (intro unat_of_int) auto
  have sane: "sane_size (word_of_int ?N)" using uN N by (auto simp: sane_size_def)
  note n = sane_sizeD [OF sane]
  obtain m1 where m1: "getmem (word_of_int ?N) m = Some (buf, m1)" "area buf (roundmb (word_of_int ?N)) \<subseteq> free_area hb"
    using getmem_first_fit [OF assms(1) sane] ff by blast
  note ff' = first_fit_ok [OF ff heapD(2) [OF assms(1)] n(3) u32_max]
  have buf0: "buf \<noteq> NULL" using ff' by blast
  have rN: "nat ?N \<le> unat (roundmb (word_of_int ?N))" using roundmb_bounds(2) [OF n(2,1)] uN by simp
  have bufin: "buf \<in> free_area hb" using m1(2) n(4) by (auto simp: area_bounds)
  have top: "unat buf + unat (roundmb (word_of_int ?N)) < 4294967296"
  proof -
    have "area buf (roundmb (word_of_int ?N)) \<subseteq> bounds m" using m1(2) free_in_bounds [OF assms(1)] by blast
    from area_in_bounds(2) [OF this n(4)] show ?thesis using u32_max [of "maxheap m"] by simp
  qed
  then have tot: "unat buf + nat numbufs * unat ?sz < 4294967296"
    using rN usz szb assms(4) by (simp add: nat_mult_distrib)
  have ne: "buf \<noteq> ADDR_SYSERR" using below_not_max free_area_bounds [OF heapD(2) [OF assms(1)] bufin] by blast
  obtain k where k: "nat numbufs = Suc k" "nat (numbufs - 1) = k" using assms(4) by (cases "nat numbufs") auto
  let ?l = "laid_out (nat numbufs) buf ?sz" and ?m = "link_bufs k buf ?sz m1"
  let ?b = "b\<lparr>nbpools := ?p + 1, buftab := (buftab b)(?p := (buftab b ?p)\<lparr>bpnext := buf, bpsize := sz - 4, bpsem := sem\<rparr>)\<rparr>"
  have call: "mkbufpool bufsiz numbufs b m s = Some (?p, ?b, ?m, s')"
  proof -
    have s4: "4 * ((bufsiz + 3) div 4) = sz - 4" using sz by simp
    show ?thesis
      using assms(2-5,7) m1(1) ne sem k by (simp add: mkbufpool_def s4 Let_def set_bpnext_def)
  qed
  have "bufs ?m buf ?l"
    unfolding k(1) by (rule link_bufs_ok) (use tot k(1) buf0 usz szb in auto)
  moreover have srt: "sorted_wrt (\<lambda>a a'. unat a + nat sz \<le> unat a') ?l"
    using laid_out_disjoint [OF tot] usz szb by simp
  then have "distinct ?l" by (rule gap_distinct) (use szb in simp)
  ultimately have "pool ?p ?b ?m ?l" using assms(6,7) by (simp add: pool_def)
  moreover have "area a ?sz \<subseteq> free_area hb" if "a \<in> set ?l" for a
  proof -
    have "area a ?sz \<subseteq> area buf (roundmb (word_of_int ?N))"
      using laid_out_bounds [OF tot that] rN usz szb assms(4) by (auto simp: area_bounds nat_mult_distrib)
    then show ?thesis using m1(2) by blast
  qed
  ultimately show ?thesis using call srt by auto
qed

definition no_pools :: bufpools where
  "no_pools = \<lparr>buftab = (\<lambda>_. \<lparr>bpnext = 0, bpsem = 0, bpsize = 0\<rparr>), nbpools = 0\<rparr>"

lemma roundmb_624: "roundmb (word_of_int 624) = 624"
  unfolding roundmb_def by code_simp

lemma scene_semcreate: "\<exists>s'. semcreate 6 scene = (2, s')"
proof -
  have "newsem scene = newsem_loop (Suc 99) scene" by (simp add: newsem_def)
  also have "\<dots> = (2, set_sstate 2 S_USED (scene\<lparr>nextsem := 3\<rparr>))"
    by (subst newsem_loop_step) (simp_all add: scene_sems_def)
  finally show ?thesis by (simp add: semcreate_def)
qed

lemma mkbufpool_builds_pool_witness:
  "\<exists>b' m' s'. mkbufpool 97 6 no_pools started scene = Some (0, b', m', s') \<and>
     pool 0 b' m' (laid_out 6 65536 104) \<and> bpsize (buftab b' 0) = 100"
proof -
  obtain s' where s': "semcreate 6 scene = (2, s')" using scene_semcreate by auto
  have "first_fit (roundmb (word_of_int (6 * 104))) [(65536, 4128768)] = Some (65536, [(66160, 4128144)])"
    using roundmb_624 by simp
  from mkbufpool_builds_pool [OF started_heap _ _ _ _ _ _ _ this s', of 97 no_pools]
  show ?thesis by (auto simp: no_pools_def)
qed

text \<open>A buffer goes round: with a unit on the pool's semaphore \<open>getbuf\<close> returns the first free
  buffer, which is then no longer among the free ones and carries the pool's number, and
  \<open>freebuf\<close> of that buffer restores exactly the list of free buffers and the count, leaving every
  word outside the buffer's first alone.\<close>

theorem getbuf_freebuf_roundtrip:
  assumes "pool p b m (a # as)" "sem_has (bpsem (buftab b p)) n s" "0 < n"
  shows "\<exists>b1 m1 b2 m2. getbuf p b m s = Some (Ret (a + 4), b1, m1, set_scount (bpsem (buftab b p)) (n - 1) s) \<and>
    pool p b1 m1 as \<and> a \<notin> set as \<and>
    freebuf (a + 4) b1 m1 (set_scount (bpsem (buftab b p)) (n - 1) s) =
      Some (Ret OK, b2, m2, set_scount (bpsem (buftab b p)) n (set_scount (bpsem (buftab b p)) (n - 1) s)) \<and>
    pool p b2 m2 (a # as) \<and> (\<forall>x. x \<noteq> a \<longrightarrow> word_at m2 x = word_at m x)"
proof -
  let ?sem = "bpsem (buftab b p)" and ?s = "set_scount (bpsem (buftab b p)) (n - 1) s"
  obtain b1 m1 where t: "getbuf_take p b m = (a + 4, b1, m1)" "pool p b1 m1 as" "a \<notin> set as" "word_at m1 a = word_of_int p"
    "\<forall>x. x \<noteq> a \<longrightarrow> word_at m1 x = word_at m x" "bpsem (buftab b1 p) = ?sem"
    using getbuf_take_pool [OF assms(1)] by blast
  have g: "getbuf p b m s = Some (Ret (a + 4), b1, m1, ?s)"
    using assms(1) wait_takes [OF assms(2,3)] t(1) by (simp add: getbuf_def pool_def)
  have a0: "a \<noteq> NULL" using assms(1) by (simp add: pool_def)
  have lim: "n < 2147483648" using assms(2) by (simp add: sem_has_def)
  have h: "sem_has ?sem (n - 1) ?s" by (rule sem_has_set [OF assms(2)]) (use lim in simp)
  have sg: "signal ?sem ?s = Some (Ret OK, set_scount ?sem n ?s)"
    using signal_gives [OF h] assms(3) lim by simp
  obtain b2 m2 where f: "freebuf (a + 4) b1 m1 ?s =
      do { (r, s) \<leftarrow> signal ?sem ?s; Some (then_return r OK, b2, m2, s) }"
    "pool p b2 m2 (a # as)" "\<forall>x. x \<noteq> a \<longrightarrow> word_at m2 x = word_at m1 x"
    using freebuf_pool [OF t(2,4) a0 t(3), of ?s] unfolding t(6) by blast
  have "freebuf (a + 4) b1 m1 ?s = Some (Ret OK, b2, m2, set_scount ?sem n ?s)"
    unfolding f(1) sg by (simp add: then_return_def)
  moreover have "\<forall>x. x \<noteq> a \<longrightarrow> word_at m2 x = word_at m x" using t(5) f(3) by simp
  ultimately show ?thesis using g t(2,3) f(2)
    by (intro exI [of _ b1] exI [of _ m1] exI [of _ b2] exI [of _ m2] conjI)
qed

definition two_bufs :: memory where
  "two_bufs = \<lparr>word_at = (\<lambda>_. 0)(1000 := 1104), memlist = 256, minheap = 0, maxheap = 0\<rparr>"

definition one_pool :: bufpools where
  "one_pool = \<lparr>buftab = (\<lambda>_. \<lparr>bpnext = 1000, bpsem = 1, bpsize = 100\<rparr>), nbpools = 1\<rparr>"

lemma scene_sem_has: "sem_has 1 3 scene"
  by (simp add: sem_has_def isbadsem_def scene_sems_def)

lemma getbuf_freebuf_roundtrip_witness:
  "\<exists>b1 m1 s1. getbuf 0 one_pool two_bufs scene = Some (Ret 1004, b1, m1, s1) \<and> pool 0 b1 m1 [1104]"
proof -
  have "pool 0 one_pool two_bufs [1000, 1104]" by (simp add: pool_def one_pool_def two_bufs_def)
  from getbuf_freebuf_roundtrip [OF this, of 3 scene] show ?thesis
    using scene_sem_has by (auto simp: one_pool_def)
qed

subsection \<open>Ports\<close>

text \<open>Sending to a port that has room: the message becomes the last of the port's messages, in a node
  taken from the free list, and the receivers' semaphore is signalled; nothing blocks.\<close>

theorem ptsend_appends:
  assumes "\<not> isbadport k" "ptstate (porttab p k) = PT_ALLOC" "port_ok k p m qs (n # fs)"
    and "sem_has (ptssem (porttab p k)) c s" "0 < c"
  shows "\<exists>p' m'. ptsend k msg p m s =
      do { (r, s') \<leftarrow> signal (ptrsem (porttab p k)) (set_scount (ptssem (porttab p k)) (c - 1) s);
           Some (finish r OK, p', m', s') } \<and>
    port_ok k p' m' (qs @ [n]) fs \<and> messages m' (qs @ [n]) = messages m qs @ [msg]"
  using ptsend_link_ok [OF assms(3,2) refl, of OK msg] wait_takes [OF assms(4,5)] assms(1,2)
  by (simp add: ptsend_def)

definition three_nodes :: memory where
  "three_nodes = \<lparr>word_at = (\<lambda>_. 0)(1000 := 42, 1012 := 1016), memlist = 256, minheap = 0, maxheap = 0\<rparr>"

text \<open>One port with the message 42 in node 1000; nodes 1008 and 1016 are free.\<close>

definition one_port :: ports where
  "one_port = \<lparr>porttab = (\<lambda>_. \<lparr>ptssem = 1, ptrsem = 1, ptstate = PT_ALLOC, ptmaxcnt = 5, ptseq = 7,
     pthead = 1000, pttail = 1000\<rparr>), ptfree = 1008, ptnextid = 0\<rparr>"

lemma one_port_ok: "port_ok 0 one_port three_nodes [1000] [1008, 1016]"
  by (simp add: port_ok_def one_port_def three_nodes_def ptnext_def separate_def)

lemma one_port_fields [simp]:
  "ptstate (porttab one_port 0) = PT_ALLOC" "ptssem (porttab one_port 0) = 1" "ptrsem (porttab one_port 0) = 1"
  "ptseq (porttab one_port 0) = 7"
  by (simp_all add: one_port_def)

lemma ptsend_appends_witness:
  "\<exists>p' m'. port_ok 0 p' m' [1000, 1008] [1016] \<and> messages m' [1000, 1008] = [42, 99] \<and>
     ptsend 0 99 one_port three_nodes scene =
       do { (r, s') \<leftarrow> signal 1 (set_scount 1 2 scene); Some (finish r OK, p', m', s') }"
proof -
  have "messages three_nodes [1000] = [42]" by (simp add: messages_def ptmsg_def three_nodes_def)
  then show ?thesis
    using ptsend_appends [OF _ _ one_port_ok, of 3 scene 99] scene_sem_has by (auto simp: isbadport_def)
qed

text \<open>Receiving from a port that holds messages returns the one sent first, removes it, gives its node
  back to the free list and signals the senders' semaphore; the remaining messages keep their
  order.\<close>

theorem ptrecv_takes_first:
  assumes "\<not> isbadport k" "ptstate (porttab p k) = PT_ALLOC" "port_ok k p m (n # qs) fs"
    and "sem_has (ptrsem (porttab p k)) c s" "0 < c"
  shows "\<exists>p' m'. ptrecv k p m s =
      do { (r, s') \<leftarrow> signal (ptssem (porttab p k)) (set_scount (ptrsem (porttab p k)) (c - 1) s);
           Some (finish r (hd (messages m (n # qs))), p', m', s') } \<and>
    port_ok k p' m' qs (n # fs) \<and> messages m' qs = tl (messages m (n # qs))"
  using ptrecv_unlink_ok [OF assms(3,2) refl, of OK] wait_takes [OF assms(4,5)] assms(1,2)
  by (simp add: ptrecv_def messages_def)

lemma ptrecv_takes_first_witness:
  "\<exists>p' m'. port_ok 0 p' m' [] [1000, 1008, 1016] \<and>
     ptrecv 0 one_port three_nodes scene =
       do { (r, s') \<leftarrow> signal 1 (set_scount 1 2 scene); Some (finish r 42, p', m', s') }"
proof -
  have "messages three_nodes [1000] = [42]" by (simp add: messages_def ptmsg_def three_nodes_def)
  then show ?thesis
    using ptrecv_takes_first [OF _ _ one_port_ok, of 3 scene] scene_sem_has by (auto simp: isbadport_def)
qed

text \<open>A process that was blocked on the port when it was reset or deleted.\<close>

lemma ptsend_stale:
  "ptstate (porttab p k) \<noteq> PT_ALLOC \<or> ptseq (porttab p k) \<noteq> seq \<Longrightarrow>
   ptsend_link w seq k msg p m s = Some (Ret SYSERR, p, m, s)"
  by (auto simp: ptsend_link_def)

lemma ptrecv_stale:
  "ptstate (porttab p k) \<noteq> PT_ALLOC \<or> ptseq (porttab p k) \<noteq> seq \<Longrightarrow>
   ptrecv_unlink w seq k p m s = Some (Ret ADDR_SYSERR, p, m, s)"
  by (auto simp: ptrecv_unlink_def)

lemma dispose_walk_ok:
  "nodes m a as \<Longrightarrow> dispose_walk disp a m x = Some (fold (\<lambda>b. disp (ptmsg b m)) as x)"
proof (induction as arbitrary: a x)
  case Nil
  then show ?case by (simp add: dispose_walk.simps)
next
  case (Cons b bs)
  then show ?case by (subst dispose_walk.simps) simp
qed

lemma nodes_append:
  "nodes m a qs \<Longrightarrow> qs \<noteq> [] \<Longrightarrow> nodes m f fs \<Longrightarrow> separate (qs @ fs) \<Longrightarrow>
   nodes (set_ptnext (last qs) f m) a (qs @ fs)"
proof (induction qs arbitrary: a)
  case Nil
  then show ?case by simp
next
  case (Cons b bs)
  have s: "separate (bs @ fs)" "b \<notin> set bs" using Cons.prems(4) by (auto simp: separate_def)
  show ?case
  proof (cases "bs = []")
    case True
    have "nodes (set_ptnext b f m) f fs"
      by (rule nodes_frame [OF Cons.prems(3)]) (use Cons.prems(4) True in \<open>auto simp: separate_def set_ptnext_def\<close>)
    then show ?thesis using True Cons.prems(1) by (simp add: ptnext_def set_ptnext_def)
  next
    case False
    then have "last bs \<noteq> b" using s(2) last_in_set by metis
    then have "ptnext b (set_ptnext (last bs) f m) = ptnext b m" by (simp add: ptnext_def set_ptnext_def)
    then show ?thesis using Cons False s(1) by simp
  qed
qed

text \<open>Clearing a port hands every waiting message, in order, to the disposal function and returns all
  its nodes to the free list: no node is lost.  From then on the calls that were blocked on the
  port return \<open>SYSERR\<close> and change nothing, whether the port is deleted or made ready for use again.\<close>

theorem ptclear_loses_nothing:
  assumes "port_ok k p m qs fs" "- 2147483648 \<le> ptseq (porttab p k)" "ptseq (porttab p k) < 2147483648"
  shows "\<exists>p' m'. ptclear_msgs k disp p m x = Some (p', m', fold (\<lambda>a. disp (ptmsg a m)) qs x) \<and>
    nodes m' (ptfree p') (qs @ fs) \<and> separate (qs @ fs) \<and> ptstate (porttab p' k) = PT_LIMBO \<and>
    (\<forall>f w msg m s. ptseq (f (porttab p' k)) = ptseq (porttab p' k) \<longrightarrow>
      ptsend_link w (ptseq (porttab p k)) k msg (upd_port k f p') m s = Some (Ret SYSERR, upd_port k f p', m, s) \<and>
      ptrecv_unlink w (ptseq (porttab p k)) k (upd_port k f p') m s = Some (Ret ADDR_SYSERR, upd_port k f p', m, s))"
proof -
  let ?e = "porttab p k"
  let ?p1 = "upd_port k (\<lambda>e. e\<lparr>ptseq := wrap32 (ptseq e + 1)\<rparr>) (upd_port k (\<lambda>e. e\<lparr>ptstate := PT_LIMBO\<rparr>) p)"
  have q: "nodes m (pthead ?e) qs" "nodes m (ptfree p) fs" "separate (qs @ fs)" "pttail ?e = (if qs = [] then NULL else last qs)"
    using assms(1) by (auto simp: port_ok_def)
  have ne: "wrap32 (ptseq ?e + 1) \<noteq> ptseq ?e"
  proof
    assume "wrap32 (ptseq ?e + 1) = ptseq ?e"
    then have "(ptseq ?e + 1 + 2147483648) mod 4294967296 = (ptseq ?e + 2147483648) mod 4294967296"
      using assms(2,3) by (simp add: wrap32_def)
    then have "4294967296 dvd (1 :: int)" by (simp add: mod_eq_dvd_iff)
    then show False by simp
  qed
  show ?thesis
  proof (cases "qs = []")
    case True
    then have "ptclear_msgs k disp p m x = Some (?p1, m, x)" using q(1) by (simp add: ptclear_msgs_def)
    then show ?thesis using True q(2,3) ne by (auto simp: ptsend_stale ptrecv_stale)
  next
    case False
    then have h: "pthead ?e \<noteq> NULL" using q(1) nodes_nonnull [OF q(1)] by (cases qs) auto
    let ?m = "set_ptnext (pttail ?e) (ptfree p) m" and ?p2 = "?p1\<lparr>ptfree := pthead ?e\<rparr>"
    have "ptclear_msgs k disp p m x = Some (?p2, ?m, fold (\<lambda>a. disp (ptmsg a m)) qs x)"
      using h by (simp add: ptclear_msgs_def Let_def dispose_walk_ok [OF q(1)])
    moreover have "nodes ?m (ptfree ?p2) (qs @ fs)"
      using nodes_append [OF q(1) False q(2,3)] q(4) False by simp
    ultimately show ?thesis using q(3) ne by (auto simp: ptsend_stale ptrecv_stale)
  qed
qed

lemma ptclear_loses_nothing_witness:
  "\<exists>p' m'. ptclear_msgs 0 (\<lambda>msg xs. xs @ [msg]) one_port three_nodes [] = Some (p', m', [42]) \<and>
     nodes m' (ptfree p') [1000, 1008, 1016]"
  using ptclear_loses_nothing [OF one_port_ok, of "\<lambda>msg xs. xs @ [msg]" "[]"]
  by (auto simp: ptmsg_def three_nodes_def)

end
