(* ===== verification/Net.thy ===== *)
theory Net
  imports PoolProps Messages
begin

text \<open>
  Network packets and what all protocols share: \<^verbatim>\<open>include/net.h\<close>, the byte-order macros of
  \<^verbatim>\<open>include/prototypes.h\<close>, \<^verbatim>\<open>eth_hton\<close>, \<^verbatim>\<open>ip_hton\<close>, \<^verbatim>\<open>udp_hton\<close>, \<^verbatim>\<open>icmp_hton\<close> and their
  inverses, and the checksums of \<^verbatim>\<open>net/ip.c\<close> and \<^verbatim>\<open>net/icmp.c\<close>.

  The union at the end of a packet, which UDP and ICMP read with different fields, is kept as
  the bytes it is (\<open>net_body\<close>); 16-bit fields in it are little-endian, as on the x86.

  The components of the network code work on one \<open>world\<close>: the packets in the network buffers
  by address, the protocol tables, the buffer pools, the store and the kernel tables.  The
  Ethernet driver is outside the model: \<open>sent\<close> records what was handed to \<open>write(ETHER0, ...)\<close>,
  and its answers are a list of return values (\<open>eth_answers\<close>).
\<close>

unbundle bit_operations_syntax

subsection \<open>Byte order\<close>

definition htons :: "u16 \<Rightarrow> u16" where
  "htons x = or (and 0xff (drop_bit 8 x)) (push_bit 8 (and 0xff x))"

definition ntohs :: "u16 \<Rightarrow> u16" where
  "ntohs x = or (and 0xff (drop_bit 8 x)) (push_bit 8 (and 0xff x))"

definition htonl :: "u32 \<Rightarrow> u32" where
  "htonl x = or (and (drop_bit 24 x) 0x000000ff) (or (and (drop_bit 8 x) 0x0000ff00)
     (or (and (push_bit 8 x) 0x00ff0000) (and (push_bit 24 x) 0xff000000)))"

definition ntohl :: "u32 \<Rightarrow> u32" where
  "ntohl x = or (and (drop_bit 24 x) 0x000000ff) (or (and (drop_bit 8 x) 0x0000ff00)
     (or (and (push_bit 8 x) 0x00ff0000) (and (push_bit 24 x) 0xff000000)))"

lemma mask8_bit: "bit (0xff :: 'a :: len word) n \<longleftrightarrow> n < LENGTH('a) \<and> n < 8"
proof -
  have e: "(0xff :: 'a word) = mask 8" by (simp add: mask_eq_exp_minus_1)
  show ?thesis unfolding e by (simp only: bit_mask_iff possible_bit_word)
qed

lemma shifted_ff_bit:
  "bit (0x0000ff00 :: u32) n \<longleftrightarrow> 8 \<le> n \<and> n < 16" "bit (0x00ff0000 :: u32) n \<longleftrightarrow> 16 \<le> n \<and> n < 24"
  "bit (0xff000000 :: u32) n \<longleftrightarrow> 24 \<le> n \<and> n < 32"
proof -
  have e: "(0x0000ff00 :: u32) = push_bit 8 0xff" "(0x00ff0000 :: u32) = push_bit 16 0xff"
    "(0xff000000 :: u32) = push_bit 24 0xff" by simp_all
  show "bit (0x0000ff00 :: u32) n \<longleftrightarrow> 8 \<le> n \<and> n < 16"
    unfolding e by (simp only: bit_push_bit_iff mask8_bit possible_bit_word) auto
  show "bit (0x00ff0000 :: u32) n \<longleftrightarrow> 16 \<le> n \<and> n < 24"
    unfolding e by (simp only: bit_push_bit_iff mask8_bit possible_bit_word) auto
  show "bit (0xff000000 :: u32) n \<longleftrightarrow> 24 \<le> n \<and> n < 32"
    unfolding e by (simp only: bit_push_bit_iff mask8_bit possible_bit_word) auto
qed

lemma htons_bit: "bit (htons x) n \<longleftrightarrow> (n < 8 \<and> bit x (8 + n)) \<or> (8 \<le> n \<and> n < 16 \<and> bit x (n - 8))"
  unfolding htons_def
  by (simp only: bit_or_iff bit_and_iff bit_drop_bit_eq bit_push_bit_iff mask8_bit possible_bit_word o_def) auto

lemma htonl_bit:
  "bit (htonl x) n \<longleftrightarrow> (n < 8 \<and> bit x (24 + n)) \<or> (8 \<le> n \<and> n < 16 \<and> bit x (8 + n)) \<or>
     (16 \<le> n \<and> n < 24 \<and> bit x (n - 8)) \<or> (24 \<le> n \<and> n < 32 \<and> bit x (n - 24))"
  unfolding htonl_def
  by (simp only: bit_or_iff bit_and_iff bit_drop_bit_eq bit_push_bit_iff mask8_bit shifted_ff_bit possible_bit_word o_def)
    auto

lemma htons_htons [simp]: "htons (htons x) = x"
proof (rule bit_word_eqI)
  fix n :: nat
  assume n: "n < LENGTH(16)"
  then consider "n < 8" | "8 \<le> n" "n < 16" by fastforce
  then show "bit (htons (htons x)) n = bit x n" by cases (auto simp: htons_bit)
qed

lemma ntohs_htons [simp]: "ntohs x = htons x"
  by (simp add: ntohs_def htons_def)

lemma ntohl_htonl [simp]: "ntohl x = htonl x"
  by (simp add: ntohl_def htonl_def)

lemma htonl_htonl [simp]: "htonl (htonl x) = x"
proof (rule bit_word_eqI)
  fix n :: nat
  assume n: "n < LENGTH(32)"
  then consider "n < 8" | "8 \<le> n" "n < 16" | "16 \<le> n" "n < 24" | "24 \<le> n" "n < 32" by fastforce
  then show "bit (htonl (htonl x)) n = bit x n" by cases (auto simp: htonl_bit)
qed

subsection \<open>Packets\<close>

record netpacket =
  net_ethdst :: "u8 list"
  net_ethsrc :: "u8 list"
  net_ethtype :: u16
  net_ipvh :: u8
  net_iptos :: u8
  net_iplen :: u16
  net_ipid :: u16
  net_ipfrag :: u16
  net_ipttl :: u8
  net_ipproto :: u8
  net_ipcksum :: u16
  net_ipsrc :: u32
  net_ipdst :: u32
  net_body :: "nat \<Rightarrow> u8"     \<comment> \<open>the union: UDP or ICMP header and payload\<close>

definition get16 :: "(nat \<Rightarrow> u8) \<Rightarrow> nat \<Rightarrow> u16" where
  "get16 f i = or (ucast (f i)) (push_bit 8 (ucast (f (i + 1))))"

definition set16 :: "nat \<Rightarrow> u16 \<Rightarrow> (nat \<Rightarrow> u8) \<Rightarrow> (nat \<Rightarrow> u8)" where
  "set16 i v f = f(i := ucast v, i + 1 := ucast (drop_bit 8 v))"

lemma get_set16 [simp]: "get16 (set16 i v f) i = v"
  unfolding get16_def set16_def
  by (rule bit_eqI) (auto simp: bit_or_iff bit_push_bit_iff bit_ucast_iff bit_drop_bit_eq)

lemma get_set16_other [simp]: "j + 2 \<le> i \<or> i + 2 \<le> j \<Longrightarrow> get16 (set16 i v f) j = get16 f j"
  by (auto simp: get16_def set16_def)

lemma set_get16 [simp]: "set16 i (get16 f i) f = f"
proof -
  have "ucast (get16 f i) = f i"
    unfolding get16_def
    by (rule bit_eqI) (auto simp: bit_or_iff bit_push_bit_iff bit_ucast_iff)
  moreover have "ucast (drop_bit 8 (get16 f i)) = f (Suc i)"
    unfolding get16_def
    by (rule bit_eqI) (auto simp: bit_or_iff bit_push_bit_iff bit_ucast_iff bit_drop_bit_eq dest: bit_imp_le_length)
  ultimately show ?thesis by (auto simp: set16_def fun_eq_iff)
qed

lemma set_set16 [simp]: "set16 i v (set16 i w f) = set16 i v f"
  by (simp add: set16_def fun_upd_twist)

lemma set16_comm: "j + 2 \<le> i \<Longrightarrow> set16 i v (set16 j w f) = set16 j w (set16 i v f)"
  by (auto simp: set16_def fun_eq_iff)

definition net_udpsport :: "netpacket \<Rightarrow> u16" where "net_udpsport p = get16 (net_body p) 0"
definition net_udpdport :: "netpacket \<Rightarrow> u16" where "net_udpdport p = get16 (net_body p) 2"
definition net_udplen :: "netpacket \<Rightarrow> u16" where "net_udplen p = get16 (net_body p) 4"
definition net_ictype :: "netpacket \<Rightarrow> u8" where "net_ictype p = net_body p 0"
definition net_iccksum :: "netpacket \<Rightarrow> u16" where "net_iccksum p = get16 (net_body p) 2"
definition net_icident :: "netpacket \<Rightarrow> u16" where "net_icident p = get16 (net_body p) 4"
definition net_icseq :: "netpacket \<Rightarrow> u16" where "net_icseq p = get16 (net_body p) 6"

text \<open>Byte \<open>i\<close> of the payload, \<open>net_udpdata[i]\<close> and \<open>net_icdata[i]\<close>.\<close>

definition net_data :: "netpacket \<Rightarrow> nat \<Rightarrow> u8" where "net_data p i = net_body p (8 + i)"

definition upd_body :: "((nat \<Rightarrow> u8) \<Rightarrow> (nat \<Rightarrow> u8)) \<Rightarrow> netpacket \<Rightarrow> netpacket" where
  "upd_body f p = p\<lparr>net_body := f (net_body p)\<rparr>"

definition swap16 :: "nat \<Rightarrow> netpacket \<Rightarrow> netpacket" where
  "swap16 i p = upd_body (set16 i (htons (get16 (net_body p) i))) p"

definition udp_ntoh :: "netpacket \<Rightarrow> netpacket" where "udp_ntoh p = swap16 4 (swap16 2 (swap16 0 p))"
definition udp_hton :: "netpacket \<Rightarrow> netpacket" where "udp_hton p = swap16 4 (swap16 2 (swap16 0 p))"
definition icmp_hton :: "netpacket \<Rightarrow> netpacket" where "icmp_hton p = swap16 6 (swap16 4 (swap16 2 p))"
definition icmp_ntoh :: "netpacket \<Rightarrow> netpacket" where "icmp_ntoh p = swap16 6 (swap16 4 (swap16 2 p))"

definition eth_hton :: "netpacket \<Rightarrow> netpacket" where "eth_hton p = p\<lparr>net_ethtype := htons (net_ethtype p)\<rparr>"
definition eth_ntoh :: "netpacket \<Rightarrow> netpacket" where "eth_ntoh p = p\<lparr>net_ethtype := ntohs (net_ethtype p)\<rparr>"

definition ip_ntoh :: "netpacket \<Rightarrow> netpacket" where
  "ip_ntoh p = p\<lparr>net_iplen := ntohs (net_iplen p), net_ipid := ntohs (net_ipid p),
     net_ipfrag := ntohs (net_ipfrag p), net_ipsrc := ntohl (net_ipsrc p), net_ipdst := ntohl (net_ipdst p)\<rparr>"

definition ip_hton :: "netpacket \<Rightarrow> netpacket" where
  "ip_hton p = p\<lparr>net_iplen := htons (net_iplen p), net_ipid := htons (net_ipid p),
     net_ipfrag := htons (net_ipfrag p), net_ipsrc := htonl (net_ipsrc p), net_ipdst := htonl (net_ipdst p)\<rparr>"

lemma ip_order_roundtrip: "ip_ntoh (ip_hton p) = p"
  by (simp add: ip_ntoh_def ip_hton_def)

lemma swap16_swap16: "swap16 i (swap16 i p) = p"
  by (simp add: swap16_def upd_body_def)

lemma swap16_comm: "j + 2 \<le> i \<Longrightarrow> swap16 i (swap16 j p) = swap16 j (swap16 i p)"
  by (simp add: swap16_def upd_body_def set16_comm [of j i])

lemma udp_order_roundtrip: "udp_ntoh (udp_hton p) = p"
  by (simp add: udp_ntoh_def udp_hton_def swap16_comm swap16_swap16)

lemma icmp_order_roundtrip: "icmp_ntoh (icmp_hton p) = p"
  by (simp add: icmp_ntoh_def icmp_hton_def swap16_comm swap16_swap16)

subsection \<open>Checksums\<close>

text \<open>The ten 16-bit words of the IP header, as they lie in memory.\<close>

definition ip_words :: "netpacket \<Rightarrow> u16 list" where
  "ip_words p =
     [or (ucast (net_ipvh p)) (push_bit 8 (ucast (net_iptos p))), net_iplen p, net_ipid p, net_ipfrag p,
      or (ucast (net_ipttl p)) (push_bit 8 (ucast (net_ipproto p))), net_ipcksum p,
      ucast (net_ipsrc p), ucast (drop_bit 16 (net_ipsrc p)), ucast (net_ipdst p), ucast (drop_bit 16 (net_ipdst p))]"

definition ipcksum :: "netpacket \<Rightarrow> u16" where
  "ipcksum p =
     (let cksum = foldl (\<lambda>cksum word. cksum + ucast (htons word)) (0 :: u32) (ip_words p);
          cksum = cksum + drop_bit 16 cksum;
          cksum = and 0xffff (not cksum);
          cksum = (if cksum = 0xffff then 0 else cksum)
      in ucast (and 0xffff cksum))"

text \<open>The body from offset \<open>i\<close>, \<open>n\<close> words of it.\<close>

fun body_words :: "(nat \<Rightarrow> u8) \<Rightarrow> nat \<Rightarrow> nat \<Rightarrow> u16 list" where
  "body_words f i 0 = []"
| "body_words f i (Suc n) = get16 f i # body_words f (i + 2) n"

definition icmp_cksum :: "(nat \<Rightarrow> u8) \<Rightarrow> int \<Rightarrow> u16" where
  "icmp_cksum buf buflen =
     (let scount = nat (buflen div 2);
          cksum = foldl (\<lambda>cksum word. cksum + ucast (ntohs word)) (0 :: u32) (body_words buf 0 scount);
          cksum = (if odd buflen then cksum + word_of_int (sint (buf (2 * scount)) * 256) else cksum);
          cksum = cksum + drop_bit 16 cksum;
          cksum = and 0xffff (not cksum)
      in ucast (and 0xffff cksum))"

subsection \<open>The tables of the network code\<close>

datatype udpstatus = UDP_FREE | UDP_USED | UDP_RECV

record udpentry =
  udstate :: udpstatus
  udremip :: u32
  udremport :: u16
  udlocport :: u16
  udhead :: int
  udtail :: int
  udcount :: int
  udpid :: int
  udqueue :: "int \<Rightarrow> u32"

datatype icmpstatus = ICMP_FREE | ICMP_USED | ICMP_RECV

record icmpentry =
  icstate :: icmpstatus
  icremip :: u32
  ichead :: int
  ictail :: int
  iccount :: int
  icpid :: int
  icqueue :: "int \<Rightarrow> u32"

datatype arpstatus = AR_FREE | AR_PENDING | AR_RESOLVED

record arpentry =
  arstate :: arpstatus
  arpaddr :: u32
  arpid :: int
  arhaddr :: "u8 list"

record arppacket =
  arp_ethdst :: "u8 list"
  arp_ethsrc :: "u8 list"
  arp_ethtype :: u16
  arp_htype :: u16
  arp_ptype :: u16
  arp_hlen :: u8
  arp_plen :: u8
  arp_op :: u16
  arp_sndha :: "u8 list"
  arp_sndpa :: u32
  arp_tarha :: "u8 list"
  arp_tarpa :: u32

record iqentry =
  iqhead :: int
  iqtail :: int
  iqsem :: int
  iqbuf :: "int \<Rightarrow> u32"

record network =
  ipucast :: u32
  ipbcast :: u32
  ipmask :: u32
  ipprefix :: u32
  iprouter :: u32
  bootserver :: u32
  ipvalid :: bool
  ethucast :: "u8 list"
  ethbcast :: "u8 list"
  bootfile :: "u8 list"

datatype frame = IpFrame netpacket int | ArpFrame arppacket

record world =
  pkts :: "u32 \<Rightarrow> netpacket"        \<comment> \<open>the network buffers, read as packets\<close>
  arps :: "u32 \<Rightarrow> arppacket"        \<comment> \<open>the network buffers, read as ARP packets\<close>
  udptab :: "int \<Rightarrow> udpentry"
  udp_ident :: u16                  \<comment> \<open>static of \<open>udp_send\<close>\<close>
  udp_ident_to :: u16               \<comment> \<open>static of \<open>udp_sendto\<close>\<close>
  icmptab :: "int \<Rightarrow> icmpentry"
  icmp_ident :: u32                 \<comment> \<open>static of \<open>icmp_mkpkt\<close>\<close>
  arpcache :: "int \<Rightarrow> arpentry"
  ipoqueue :: iqentry
  netbufpool :: int
  NetData :: network
  sent :: "frame list"
  eth_answers :: "int list"
  nb :: bufpools
  nm :: memory
  nk :: kstate

definition upd_pkt :: "u32 \<Rightarrow> (netpacket \<Rightarrow> netpacket) \<Rightarrow> world \<Rightarrow> world" where
  "upd_pkt a f w = w\<lparr>pkts := (pkts w)(a := f (pkts w a))\<rparr>"

text \<open>Kernel and buffer calls made by the network code.\<close>

definition net_freebuf :: "u32 \<Rightarrow> world \<Rightarrow> ((int, int) outcome \<times> world) option" where
  "net_freebuf a w = do {
     (r, b, m, s) \<leftarrow> freebuf a (nb w) (nm w) (nk w);
     Some (r, w\<lparr>nb := b, nm := m, nk := s\<rparr>)
   }"

definition net_getbuf :: "world \<Rightarrow> ((u32, unit) outcome \<times> world) option" where
  "net_getbuf w = do {
     (r, b, m, s) \<leftarrow> getbuf (netbufpool w) (nb w) (nm w) (nk w);
     Some (r, w\<lparr>nb := b, nm := m, nk := s\<rparr>)
   }"

definition net_send :: "int \<Rightarrow> u32 \<Rightarrow> world \<Rightarrow> ((int, int) outcome \<times> world) option" where
  "net_send pid msg w = do { (r, s) \<leftarrow> send pid msg (nk w); Some (r, w\<lparr>nk := s\<rparr>) }"

text \<open>\<open>write(ETHER0, ...)\<close>: the frame is recorded, the driver's answer is the next of \<open>eth_answers\<close>.\<close>

definition eth_write :: "frame \<Rightarrow> world \<Rightarrow> int \<times> world" where
  "eth_write f w =
     (case eth_answers w of
        [] \<Rightarrow> (OK, w\<lparr>sent := sent w @ [f]\<rparr>)
      | r # rs \<Rightarrow> (r, w\<lparr>sent := sent w @ [f], eth_answers := rs\<rparr>))"

text \<open>Bytes copied into the body of a packet from offset \<open>i\<close>.\<close>

fun store_bytes :: "nat \<Rightarrow> u8 list \<Rightarrow> (nat \<Rightarrow> u8) \<Rightarrow> (nat \<Rightarrow> u8)" where
  "store_bytes i [] f = f"
| "store_bytes i (c # cs) f = store_bytes (i + 1) cs (f(i := c))"

lemma store_bytes_at: "store_bytes i cs f j = (if i \<le> j \<and> j < i + length cs then cs ! (j - i) else f j)"
proof (induction cs arbitrary: i f)
  case (Cons c cs)
  consider "i = j" | "j < i" | "i < j" by linarith
  then show ?case by cases (simp_all add: Cons nth_Cons' not_less_eq_eq)
qed auto


end
