(* ===== verification/Udp.thy ===== *)
theory Udp
  imports Net
begin

text \<open>
  UDP endpoints: registering, receiving and releasing, and the delivery of incoming packets
  (\<^verbatim>\<open>net/udp.c\<close>; sending is in NetSend, since it needs IP).  \<open>udp_recv\<close> and \<open>udp_recvaddr\<close>
  wait in \<open>recvtime\<close>; what they do when they run again is \<open>udp_recv_got\<close> (\<open>udp_recvaddr_got\<close>)
  with the message received.
\<close>

abbreviation (input) UDP_SLOTS :: int where "UDP_SLOTS \<equiv> 6"
abbreviation (input) UDP_QSIZ :: int where "UDP_QSIZ \<equiv> 8"

definition upd_udp :: "int \<Rightarrow> (udpentry \<Rightarrow> udpentry) \<Rightarrow> world \<Rightarrow> world" where
  "upd_udp k f w = w\<lparr>udptab := (udptab w)(k := f (udptab w k))\<rparr>"

fun udp_init_loop :: "nat \<Rightarrow> world \<Rightarrow> world" where
  "udp_init_loop 0 w = w"
| "udp_init_loop (Suc n) w = upd_udp (int n) (\<lambda>e. e\<lparr>udstate := UDP_FREE\<rparr>) (udp_init_loop n w)"

definition udp_init :: "world \<Rightarrow> world" where
  "udp_init w = udp_init_loop (nat UDP_SLOTS) w"

text \<open>The test of \<open>udp_in\<close> whether a used entry takes a packet.\<close>

definition udp_match :: "udpentry \<Rightarrow> netpacket \<Rightarrow> bool" where
  "udp_match e p \<longleftrightarrow> net_udpdport p = udlocport e \<and> (udremport e = 0 \<or> net_udpsport p = udremport e) \<and>
     (udremip e = 0 \<or> net_ipsrc p = udremip e)"

definition udp_enqueue :: "u32 \<Rightarrow> udpentry \<Rightarrow> udpentry" where
  "udp_enqueue a e =
     (let e = e\<lparr>udcount := udcount e + 1\<rparr>;
          e = e\<lparr>udqueue := (udqueue e)(udtail e := a), udtail := udtail e + 1\<rparr>
      in if udtail e \<ge> UDP_QSIZ then e\<lparr>udtail := 0\<rparr> else e)"

fun udp_in_loop :: "nat \<Rightarrow> int \<Rightarrow> u32 \<Rightarrow> world \<Rightarrow> (bool \<times> world) option" where
  "udp_in_loop 0 i a w = Some (False, w)"
| "udp_in_loop (Suc n) i a w =
     (if udstate (udptab w i) \<noteq> UDP_FREE \<and> udp_match (udptab w i) (pkts w a) \<and> udcount (udptab w i) < UDP_QSIZ
      then
        let w = upd_udp i (udp_enqueue a) w in
        if udstate (udptab w i) = UDP_RECV then do {
          let w = upd_udp i (\<lambda>e. e\<lparr>udstate := UDP_USED\<rparr>) w;
          (r, w) \<leftarrow> net_send (udpid (udptab w i)) (word_of_int OK) w;
          Some (True, w)
        }
        else Some (True, w)
      else udp_in_loop n (i + 1) a w)"

definition udp_in :: "u32 \<Rightarrow> world \<Rightarrow> world option" where
  "udp_in a w = do {
     (delivered, w) \<leftarrow> udp_in_loop (nat UDP_SLOTS) 0 a w;
     if delivered then Some w
     else do { (r, w) \<leftarrow> net_freebuf a w; Some w }
   }"

fun udp_find_same :: "nat \<Rightarrow> int \<Rightarrow> u32 \<Rightarrow> u16 \<Rightarrow> u16 \<Rightarrow> world \<Rightarrow> bool" where
  "udp_find_same 0 i remip remport locport w = False"
| "udp_find_same (Suc n) i remip remport locport w =
     (let e = udptab w i in
      if udstate e \<noteq> UDP_FREE \<and> remport = udremport e \<and> locport = udlocport e \<and> remip = udremip e then True
      else udp_find_same n (i + 1) remip remport locport w)"

fun udp_find_free :: "nat \<Rightarrow> int \<Rightarrow> world \<Rightarrow> int" where
  "udp_find_free 0 i w = SYSERR"
| "udp_find_free (Suc n) i w = (if udstate (udptab w i) = UDP_FREE then i else udp_find_free n (i + 1) w)"

definition udp_register :: "u32 \<Rightarrow> u16 \<Rightarrow> u16 \<Rightarrow> world \<Rightarrow> int \<times> world" where
  "udp_register remip remport locport w =
     (if udp_find_same (nat UDP_SLOTS) 0 remip remport locport w then (SYSERR, w)
      else
        let slot = udp_find_free (nat UDP_SLOTS) 0 w in
        if slot = SYSERR then (SYSERR, w)
        else (slot, upd_udp slot (\<lambda>e. e\<lparr>udlocport := locport, udremport := remport, udremip := remip, udcount := 0,
               udhead := 0, udtail := 0, udpid := - 1, udstate := UDP_USED\<rparr>) w))"

definition udp_dequeue :: "udpentry \<Rightarrow> udpentry" where
  "udp_dequeue e =
     (let e = e\<lparr>udhead := udhead e + 1\<rparr>;
          e = (if udhead e \<ge> UDP_QSIZ then e\<lparr>udhead := 0\<rparr> else e)
      in e\<lparr>udcount := udcount e - 1\<rparr>)"

text \<open>The payload length the copy loop uses, and the bytes it copies.\<close>

definition udp_msglen :: "int \<Rightarrow> netpacket \<Rightarrow> int" where
  "udp_msglen len p =
     (let msglen = uint (net_udplen p) - 8 in if len < msglen then len else msglen)"

definition payload :: "int \<Rightarrow> netpacket \<Rightarrow> u8 list" where
  "payload n p = map (net_data p) [0..<nat n]"

definition udp_take :: "int \<Rightarrow> int \<Rightarrow> world \<Rightarrow>
    ((int \<times> u8 list, (int \<times> u8 list) ptcont) outcome \<times> world) option" where
  "udp_take slot len w = do {
     let pkt = udqueue (udptab w slot) (udhead (udptab w slot));
     let w = upd_udp slot udp_dequeue w;
     let msglen = udp_msglen len (pkts w pkt);
     let buff = payload msglen (pkts w pkt);
     (r, w) \<leftarrow> net_freebuf pkt w;
     Some (finish r (msglen, buff), w)
   }"

text \<open>Behind the \<open>recvtime\<close> of \<open>udp_recv\<close>.\<close>

definition udp_recv_got :: "u32 \<Rightarrow> int \<Rightarrow> int \<Rightarrow> world \<Rightarrow>
    ((int \<times> u8 list, (int \<times> u8 list) ptcont) outcome \<times> world) option" where
  "udp_recv_got msg slot len w =
     (let w = upd_udp slot (\<lambda>e. e\<lparr>udstate := UDP_USED\<rparr>) w in
      if msg = word_of_int TIMEOUT then Some (Ret (TIMEOUT, []), w)
      else if msg \<noteq> word_of_int OK then Some (Ret (SYSERR, []), w)
      else udp_take slot len w)"

definition udp_recv_resume :: "int \<Rightarrow> int \<Rightarrow> int \<Rightarrow> world \<Rightarrow>
    ((int \<times> u8 list, (int \<times> u8 list) ptcont) outcome \<times> world) option" where
  "udp_recv_resume pid slot len w =
     (let (msg, s) = recvtime_resume pid (nk w) in udp_recv_got msg slot len (w\<lparr>nk := s\<rparr>))"

definition udp_recv :: "int \<Rightarrow> int \<Rightarrow> u32 \<Rightarrow> world \<Rightarrow>
    ((int \<times> u8 list, (int \<times> u8 list) ptcont) outcome \<times> world) option" where
  "udp_recv slot len timeout w =
     (if slot < 0 \<or> slot \<ge> UDP_SLOTS then Some (Ret (SYSERR, []), w)
      else if udstate (udptab w slot) \<noteq> UDP_USED then Some (Ret (SYSERR, []), w)
      else if udcount (udptab w slot) = 0 then do {
        let w = upd_udp slot (\<lambda>e. e\<lparr>udstate := UDP_RECV, udpid := currpid (nk w)\<rparr>) w;
        let (msg, s) = recvclr (nk w);
        (r, s) \<leftarrow> recvtime (sint timeout) s;
        let w = w\<lparr>nk := s\<rparr>;
        case r of
          Switch pid \<Rightarrow> Some (Switch (AfterWait pid), w)
        | Ret msg \<Rightarrow> udp_recv_got msg slot len w
      }
      else udp_take slot len w)"

text \<open>\<open>udp_recvaddr\<close> also stores the sender's address and port.\<close>

definition udp_take_addr :: "int \<Rightarrow> int \<Rightarrow> world \<Rightarrow>
    ((int \<times> u8 list \<times> (u32 \<times> u16) option, (int \<times> u8 list \<times> (u32 \<times> u16) option) ptcont) outcome \<times> world) option" where
  "udp_take_addr slot len w = do {
     let pkt = udqueue (udptab w slot) (udhead (udptab w slot));
     let w = upd_udp slot udp_dequeue w;
     let addr = (net_ipsrc (pkts w pkt), net_udpsport (pkts w pkt));
     let msglen = udp_msglen len (pkts w pkt);
     let buff = payload msglen (pkts w pkt);
     (r, w) \<leftarrow> net_freebuf pkt w;
     Some (finish r (msglen, buff, Some addr), w)
   }"

definition udp_recvaddr_got :: "u32 \<Rightarrow> int \<Rightarrow> int \<Rightarrow> world \<Rightarrow>
    ((int \<times> u8 list \<times> (u32 \<times> u16) option, (int \<times> u8 list \<times> (u32 \<times> u16) option) ptcont) outcome \<times> world) option" where
  "udp_recvaddr_got msg slot len w =
     (let w = upd_udp slot (\<lambda>e. e\<lparr>udstate := UDP_USED\<rparr>) w in
      if msg = word_of_int TIMEOUT then Some (Ret (TIMEOUT, [], None), w)
      else if msg \<noteq> word_of_int OK then Some (Ret (SYSERR, [], None), w)
      else udp_take_addr slot len w)"

definition udp_recvaddr :: "int \<Rightarrow> int \<Rightarrow> u32 \<Rightarrow> world \<Rightarrow>
    ((int \<times> u8 list \<times> (u32 \<times> u16) option, (int \<times> u8 list \<times> (u32 \<times> u16) option) ptcont) outcome \<times> world) option" where
  "udp_recvaddr slot len timeout w =
     (if slot < 0 \<or> slot \<ge> UDP_SLOTS then Some (Ret (SYSERR, [], None), w)
      else if udstate (udptab w slot) \<noteq> UDP_USED then Some (Ret (SYSERR, [], None), w)
      else if udcount (udptab w slot) = 0 then do {
        let w = upd_udp slot (\<lambda>e. e\<lparr>udstate := UDP_RECV, udpid := currpid (nk w)\<rparr>) w;
        let (msg, s) = recvclr (nk w);
        (r, s) \<leftarrow> recvtime (sint timeout) s;
        let w = w\<lparr>nk := s\<rparr>;
        case r of
          Switch pid \<Rightarrow> Some (Switch (AfterWait pid), w)
        | Ret msg \<Rightarrow> udp_recvaddr_got msg slot len w
      }
      else udp_take_addr slot len w)"

subsection \<open>Releasing\<close>

partial_function (option) udp_release_loop :: "int \<Rightarrow> world \<Rightarrow> world option" where
  "udp_release_loop slot w =
     (if udcount (udptab w slot) > 0 then do {
        let pkt = udqueue (udptab w slot) (udhead (udptab w slot));
        let w = upd_udp slot (\<lambda>e. e\<lparr>udhead := udhead e + 1\<rparr>) w;
        let w = (if udhead (udptab w slot) \<ge> UDP_QSIZ then upd_udp slot (\<lambda>e. e\<lparr>udhead := 0\<rparr>) w else w);
        (r, w) \<leftarrow> net_freebuf pkt w;
        let w = upd_udp slot (\<lambda>e. e\<lparr>udcount := udcount e - 1\<rparr>) w;
        udp_release_loop slot w
      }
      else Some w)"

definition udp_release :: "int \<Rightarrow> world \<Rightarrow> ((int, int) outcome \<times> world) option" where
  "udp_release slot w =
     (if slot < 0 \<or> slot \<ge> UDP_SLOTS then Some (Ret SYSERR, w)
      else if udstate (udptab w slot) = UDP_FREE then Some (Ret SYSERR, w)
      else do {
        (r, s) \<leftarrow> resched_cntl DEFER_START (nk w);
        w \<leftarrow> udp_release_loop slot (w\<lparr>nk := s\<rparr>);
        let w = upd_udp slot (\<lambda>e. e\<lparr>udstate := UDP_FREE\<rparr>) w;
        (r, s) \<leftarrow> resched_cntl DEFER_STOP (nk w);
        Some (then_return r OK, w\<lparr>nk := s\<rparr>)
      })"

end
