(* ===== verification/Icmp.thy ===== *)
theory Icmp
  imports Udp
begin

text \<open>
  Ping: \<^verbatim>\<open>net/icmp.c\<close>.  Also \<open>ip_enqueue\<close> of \<^verbatim>\<open>net/ip.c\<close>, which \<open>icmp_in\<close> uses for its replies.
  A \<open>panic\<close> of the code is \<open>None\<close>.
\<close>

abbreviation (input) ICMP_SLOTS :: int where "ICMP_SLOTS \<equiv> 10"
abbreviation (input) ICMP_QSIZ :: int where "ICMP_QSIZ \<equiv> 8"
abbreviation (input) IP_OQSIZ :: int where "IP_OQSIZ \<equiv> 8"

definition upd_icmp :: "int \<Rightarrow> (icmpentry \<Rightarrow> icmpentry) \<Rightarrow> world \<Rightarrow> world" where
  "upd_icmp k f w = w\<lparr>icmptab := (icmptab w)(k := f (icmptab w k))\<rparr>"

fun icmp_init_loop :: "nat \<Rightarrow> world \<Rightarrow> world" where
  "icmp_init_loop 0 w = w"
| "icmp_init_loop (Suc n) w = upd_icmp (int n) (\<lambda>e. e\<lparr>icstate := ICMP_FREE\<rparr>) (icmp_init_loop n w)"

definition icmp_init :: "world \<Rightarrow> world" where
  "icmp_init w = icmp_init_loop (nat ICMP_SLOTS) w"

definition ip_enqueue :: "u32 \<Rightarrow> world \<Rightarrow> ((int, int) outcome \<times> world) option" where
  "ip_enqueue pkt w =
     (if semcount (iqsem (ipoqueue w)) (nk w) \<ge> IP_OQSIZ then do {
        (r, w) \<leftarrow> net_freebuf pkt w;
        Some (then_return r SYSERR, w)
      }
      else do {
        let q = ipoqueue w;
        let q = q\<lparr>iqbuf := (iqbuf q)(iqtail q := pkt), iqtail := iqtail q + 1\<rparr>;
        let q = (if iqtail q \<ge> IP_OQSIZ then q\<lparr>iqtail := 0\<rparr> else q);
        let w = w\<lparr>ipoqueue := q\<rparr>;
        (r, s) \<leftarrow> signal (iqsem q) (nk w);
        Some (then_return r OK, w\<lparr>nk := s\<rparr>)
      })"

definition icmp_mkpkt_build ::
    "u32 \<Rightarrow> u32 \<Rightarrow> u16 \<Rightarrow> u16 \<Rightarrow> u16 \<Rightarrow> u8 list \<Rightarrow> int \<Rightarrow> world \<Rightarrow> (u32 \<times> world) option" where
  "icmp_mkpkt_build pkt remip type ident seq buf len w =
     (if pkt = ADDR_SYSERR then None
      else
        let p = pkts w pkt;
            p = p\<lparr>net_ethsrc := ethucast (NetData w), net_ethtype := 0x800, net_ipvh := 0x45, net_iptos := 0,
                  net_iplen := word_of_int (20 + 8 + len), net_ipid := ucast (icmp_ident w), net_ipfrag := 0,
                  net_ipttl := 0xff, net_ipproto := 1, net_ipcksum := 0, net_ipsrc := ipucast (NetData w),
                  net_ipdst := remip\<rparr>;
            p = upd_body (\<lambda>f. f(0 := ucast type, 1 := 0)) p;
            p = upd_body (set16 2 0) p;
            p = upd_body (set16 4 ident) p;
            p = upd_body (set16 6 seq) p;
            p = upd_body (store_bytes 8 (take (nat len) buf)) p
        in Some (pkt, (upd_pkt pkt (\<lambda>_. p) w)\<lparr>icmp_ident := icmp_ident w + 1\<rparr>))"

definition icmp_mkpkt ::
    "u32 \<Rightarrow> u16 \<Rightarrow> u16 \<Rightarrow> u16 \<Rightarrow> u8 list \<Rightarrow> int \<Rightarrow> world \<Rightarrow> ((u32, unit) outcome \<times> world) option" where
  "icmp_mkpkt remip type ident seq buf len w = do {
     (r, w) \<leftarrow> net_getbuf w;
     case r of
       Switch _ \<Rightarrow> Some (Switch (), w)
     | Ret pkt \<Rightarrow> do { (a, w) \<leftarrow> icmp_mkpkt_build pkt remip type ident seq buf len w; Some (Ret a, w) }
   }"

definition icmp_enqueue :: "u32 \<Rightarrow> icmpentry \<Rightarrow> icmpentry" where
  "icmp_enqueue a e =
     (let e = e\<lparr>iccount := iccount e + 1\<rparr>;
          e = e\<lparr>icqueue := (icqueue e)(ictail e := a), ictail := ictail e + 1\<rparr>
      in if ictail e \<ge> ICMP_QSIZ then e\<lparr>ictail := 0\<rparr> else e)"

text \<open>What \<open>icmp_in\<close> does for a request once it has its reply packet (from address \<open>reply\<close>).\<close>

definition icmp_in_reply :: "u32 \<Rightarrow> u32 \<Rightarrow> world \<Rightarrow> ((unit, int) outcome \<times> world) option" where
  "icmp_in_reply pkt reply w = do {
     (r, w) \<leftarrow> (if reply \<noteq> ADDR_SYSERR then ip_enqueue reply w else Some (Ret OK, w));
     case r of
       Switch v \<Rightarrow> Some (Switch v, w)
     | Ret _ \<Rightarrow> do { (r, w) \<leftarrow> net_freebuf pkt w; Some (Ret (), w) }
   }"

text \<open>
  Where \<open>icmp_in\<close> may lose the processor with work left to do: in the \<open>getbuf\<close> of \<open>icmp_mkpkt\<close>, or
  in the \<open>signal\<close> of \<open>ip_enqueue\<close> (then the request still has to be freed).
\<close>

datatype icmp_cont = InMkpkt | InEnqueue

definition icmp_in :: "u32 \<Rightarrow> world \<Rightarrow> ((unit, icmp_cont) outcome \<times> world) option" where
  "icmp_in pkt w =
     (let p = pkts w pkt in
      if net_ictype p \<noteq> 0 \<and> net_ictype p \<noteq> 8 then do { (r, w) \<leftarrow> net_freebuf pkt w; Some (Ret (), w) }
      else if net_ictype p = 8 then do {
        let len = uint (net_iplen p) - 20 - 8;
        (r, w) \<leftarrow> icmp_mkpkt (net_ipsrc p) 0 (net_icident p) (net_icseq p) (payload len p) len w;
        case r of
          Switch _ \<Rightarrow> Some (Switch InMkpkt, w)
        | Ret reply \<Rightarrow> do {
            (r, w) \<leftarrow> icmp_in_reply pkt reply w;
            Some (case r of Ret _ \<Rightarrow> Ret () | Switch _ \<Rightarrow> Switch InEnqueue, w)
          }
      }
      else
        let slot = uint (net_icident p) in
        if slot < 0 \<or> slot \<ge> ICMP_SLOTS then do { (r, w) \<leftarrow> net_freebuf pkt w; Some (Ret (), w) }
        else if icstate (icmptab w slot) = ICMP_FREE \<or> net_ipsrc p \<noteq> icremip (icmptab w slot)
        then do { (r, w) \<leftarrow> net_freebuf pkt w; Some (Ret (), w) }
        else
          let w = upd_icmp slot (icmp_enqueue pkt) w in
          if icstate (icmptab w slot) = ICMP_RECV then do {
            let w = upd_icmp slot (\<lambda>e. e\<lparr>icstate := ICMP_USED\<rparr>) w;
            (r, w) \<leftarrow> net_send (icpid (icmptab w slot)) (word_of_int OK) w;
            Some (Ret (), w)
          }
          else Some (Ret (), w))"

text \<open>The search loop of \<open>icmp_register\<close>: \<open>None\<close> when the address is registered already.\<close>

fun icmp_find :: "nat \<Rightarrow> int \<Rightarrow> u32 \<Rightarrow> int \<Rightarrow> world \<Rightarrow> int option" where
  "icmp_find 0 i remip freeslot w = Some freeslot"
| "icmp_find (Suc n) i remip freeslot w =
     (if icstate (icmptab w i) = ICMP_FREE then icmp_find n (i + 1) remip (if freeslot = - 1 then i else freeslot) w
      else if icremip (icmptab w i) = remip then None
      else icmp_find n (i + 1) remip freeslot w)"

definition icmp_register :: "u32 \<Rightarrow> world \<Rightarrow> int \<times> world" where
  "icmp_register remip w =
     (case icmp_find (nat ICMP_SLOTS) 0 remip (- 1) w of
        None \<Rightarrow> (SYSERR, w)
      | Some freeslot \<Rightarrow>
          if freeslot = - 1 then (SYSERR, w)
          else (freeslot, upd_icmp freeslot (\<lambda>e. e\<lparr>icstate := ICMP_USED, icremip := remip, iccount := 0, ichead := 0,
                 ictail := 0, icpid := - 1\<rparr>) w))"

text \<open>\<open>icmp_recv\<close> wraps the head index at \<open>ICMP_SLOTS\<close>, not at \<open>ICMP_QSIZ\<close>.\<close>

definition icmp_dequeue :: "icmpentry \<Rightarrow> icmpentry" where
  "icmp_dequeue e =
     (let e = e\<lparr>ichead := ichead e + 1\<rparr>;
          e = (if ichead e \<ge> ICMP_SLOTS then e\<lparr>ichead := 0\<rparr> else e)
      in e\<lparr>iccount := iccount e - 1\<rparr>)"

definition icmp_take :: "int \<Rightarrow> int \<Rightarrow> world \<Rightarrow>
    ((int \<times> u8 list, (int \<times> u8 list) ptcont) outcome \<times> world) option" where
  "icmp_take icmpid len w = do {
     let pkt = icqueue (icmptab w icmpid) (ichead (icmptab w icmpid));
     let w = upd_icmp icmpid icmp_dequeue w;
     let datalen = uint (net_iplen (pkts w pkt)) - 20 - 8;
     let i = max 0 (min datalen len);
     let buff = payload i (pkts w pkt);
     (r, w) \<leftarrow> net_freebuf pkt w;
     Some (finish r (i, buff), w)
   }"

definition icmp_recv_got :: "u32 \<Rightarrow> int \<Rightarrow> int \<Rightarrow> world \<Rightarrow>
    ((int \<times> u8 list, (int \<times> u8 list) ptcont) outcome \<times> world) option" where
  "icmp_recv_got msg icmpid len w =
     (let w = upd_icmp icmpid (\<lambda>e. e\<lparr>icstate := ICMP_USED\<rparr>) w in
      if msg = word_of_int TIMEOUT then Some (Ret (TIMEOUT, []), w)
      else if msg \<noteq> word_of_int OK then Some (Ret (SYSERR, []), w)
      else icmp_take icmpid len w)"

definition icmp_recv :: "int \<Rightarrow> int \<Rightarrow> u32 \<Rightarrow> world \<Rightarrow>
    ((int \<times> u8 list, (int \<times> u8 list) ptcont) outcome \<times> world) option" where
  "icmp_recv icmpid len timeout w =
     (if icmpid < 0 \<or> icmpid \<ge> ICMP_SLOTS then Some (Ret (SYSERR, []), w)
      else if icstate (icmptab w icmpid) \<noteq> ICMP_USED then Some (Ret (SYSERR, []), w)
      else if iccount (icmptab w icmpid) = 0 then do {
        let w = upd_icmp icmpid (\<lambda>e. e\<lparr>icstate := ICMP_RECV, icpid := currpid (nk w)\<rparr>) w;
        let (msg, s) = recvclr (nk w);
        (r, s) \<leftarrow> recvtime (sint timeout) s;
        let w = w\<lparr>nk := s\<rparr>;
        case r of
          Switch pid \<Rightarrow> Some (Switch (AfterWait pid), w)
        | Ret msg \<Rightarrow> icmp_recv_got msg icmpid len w
      }
      else icmp_take icmpid len w)"

partial_function (option) icmp_release_loop :: "int \<Rightarrow> world \<Rightarrow> world option" where
  "icmp_release_loop k w =
     (if iccount (icmptab w k) > 0 then do {
        let pkt = icqueue (icmptab w k) (ichead (icmptab w k));
        let w = upd_icmp k (\<lambda>e. e\<lparr>ichead := ichead e + 1\<rparr>) w;
        let w = (if ichead (icmptab w k) \<ge> ICMP_SLOTS then upd_icmp k (\<lambda>e. e\<lparr>ichead := 0\<rparr>) w else w);
        (r, w) \<leftarrow> net_freebuf pkt w;
        let w = upd_icmp k (\<lambda>e. e\<lparr>iccount := iccount e - 1\<rparr>) w;
        icmp_release_loop k w
      }
      else Some w)"

definition icmp_release :: "int \<Rightarrow> world \<Rightarrow> ((int, int) outcome \<times> world) option" where
  "icmp_release k w =
     (if k < 0 \<or> k \<ge> ICMP_SLOTS then Some (Ret SYSERR, w)
      else if icstate (icmptab w k) \<noteq> ICMP_USED then Some (Ret SYSERR, w)
      else do {
        (r, s) \<leftarrow> resched_cntl DEFER_START (nk w);
        w \<leftarrow> icmp_release_loop k (w\<lparr>nk := s\<rparr>);
        let w = upd_icmp k (\<lambda>e. e\<lparr>icstate := ICMP_FREE\<rparr>) w;
        (r, s) \<leftarrow> resched_cntl DEFER_STOP (nk w);
        Some (then_return r OK, w\<lparr>nk := s\<rparr>)
      })"

end
