(* ===== verification/Arp.thy ===== *)
theory Arp
  imports Icmp
begin

text \<open>
  Address resolution: \<^verbatim>\<open>net/arp.c\<close>.  \<open>arp_resolve\<close> waits in \<open>recvtime\<close> up to three times; when it
  runs again it goes on with \<open>arp_resolve_got\<close>, which may send another request.
\<close>

abbreviation (input) ARP_SIZ :: int where "ARP_SIZ \<equiv> 16"
abbreviation (input) IP_BCAST :: u32 where "IP_BCAST \<equiv> 0xffffffff"

definition upd_arp :: "int \<Rightarrow> (arpentry \<Rightarrow> arpentry) \<Rightarrow> world \<Rightarrow> world" where
  "upd_arp k f w = w\<lparr>arpcache := (arpcache w)(k := f (arpcache w k))\<rparr>"

text \<open>The loop of \<open>arp_init\<close> starts at entry 1.\<close>

fun arp_init_loop :: "nat \<Rightarrow> int \<Rightarrow> world \<Rightarrow> world" where
  "arp_init_loop 0 i w = w"
| "arp_init_loop (Suc n) i w = arp_init_loop n (i + 1) (upd_arp i (\<lambda>e. e\<lparr>arstate := AR_FREE\<rparr>) w)"

definition arp_init :: "world \<Rightarrow> world" where
  "arp_init w = arp_init_loop (nat (ARP_SIZ - 1)) 1 w"

definition arp_ntoh :: "arppacket \<Rightarrow> arppacket" where
  "arp_ntoh p = p\<lparr>arp_htype := ntohs (arp_htype p), arp_ptype := ntohs (arp_ptype p), arp_op := ntohs (arp_op p),
     arp_sndpa := ntohl (arp_sndpa p), arp_tarpa := ntohl (arp_tarpa p)\<rparr>"

definition arp_hton :: "arppacket \<Rightarrow> arppacket" where
  "arp_hton p = p\<lparr>arp_htype := htons (arp_htype p), arp_ptype := htons (arp_ptype p), arp_op := htons (arp_op p),
     arp_sndpa := htonl (arp_sndpa p), arp_tarpa := htonl (arp_tarpa p)\<rparr>"

lemma arp_order_roundtrip: "arp_ntoh (arp_hton p) = p"
  by (simp add: arp_ntoh_def arp_hton_def)

text \<open>The \<open>memset\<close> of \<open>arp_alloc\<close>.\<close>

definition cleared :: arpentry where
  "cleared = \<lparr>arstate = AR_FREE, arpaddr = 0, arpid = 0, arhaddr = replicate 6 0\<rparr>"

fun arp_find_state :: "nat \<Rightarrow> int \<Rightarrow> arpstatus \<Rightarrow> world \<Rightarrow> int" where
  "arp_find_state 0 slot st w = SYSERR"
| "arp_find_state (Suc n) slot st w =
     (if arstate (arpcache w slot) = st then slot else arp_find_state n (slot + 1) st w)"

definition arp_alloc :: "world \<Rightarrow> int \<times> world" where
  "arp_alloc w =
     (let slot = arp_find_state (nat ARP_SIZ) 0 AR_FREE w in
      if slot \<noteq> SYSERR then (slot, upd_arp slot (\<lambda>_. cleared) w)
      else
        let slot = arp_find_state (nat ARP_SIZ) 0 AR_RESOLVED w in
        if slot \<noteq> SYSERR then (slot, upd_arp slot (\<lambda>_. cleared) w)
        else (SYSERR, w))"

text \<open>The search for an address in the cache; \<open>ARP_SIZ\<close> when it is not there.\<close>

fun arp_lookup :: "nat \<Rightarrow> int \<Rightarrow> u32 \<Rightarrow> world \<Rightarrow> int" where
  "arp_lookup 0 i addr w = i"
| "arp_lookup (Suc n) i addr w =
     (if arstate (arpcache w i) \<noteq> AR_FREE \<and> arpaddr (arpcache w i) = addr then i
      else arp_lookup n (i + 1) addr w)"

definition arp_request :: "u32 \<Rightarrow> network \<Rightarrow> arppacket" where
  "arp_request nxthop d =
     arp_hton \<lparr>arp_ethdst = ethbcast d, arp_ethsrc = ethucast d, arp_ethtype = htons 0x0806, arp_htype = 1,
       arp_ptype = 0x0800, arp_hlen = 6, arp_plen = 4, arp_op = 1, arp_sndha = ethucast d,
       arp_sndpa = ipucast d, arp_tarha = replicate 6 0, arp_tarpa = nxthop\<rparr>"

text \<open>The answer: a status and, when it is \<open>OK\<close>, the hardware address.\<close>

type_synonym arp_answer = "int \<times> u8 list option"

text \<open>What \<open>arp_resolve\<close> waits for: attempts left after this one, the cache slot, the request, the process.\<close>

type_synonym arp_wait = "nat \<times> int \<times> arppacket \<times> int"

definition arp_answered :: "int \<Rightarrow> world \<Rightarrow> arp_answer" where
  "arp_answered slot w = (OK, Some (arhaddr (arpcache w slot)))"

fun arp_attempts :: "nat \<Rightarrow> int \<Rightarrow> arppacket \<Rightarrow> world \<Rightarrow> ((arp_answer, arp_wait) outcome \<times> world) option" where
  "arp_attempts 0 slot apkt w = Some (Ret (TIMEOUT, None), upd_arp slot (\<lambda>e. e\<lparr>arstate := AR_FREE\<rparr>) w)"
| "arp_attempts (Suc n) slot apkt w =
     (let (v, w) = eth_write (ArpFrame apkt) w in
      case recvtime 300 (nk w) of
        None \<Rightarrow> None
      | Some (Switch pid, s) \<Rightarrow> Some (Switch (n, slot, apkt, pid), w\<lparr>nk := s\<rparr>)
      | Some (Ret msg, s) \<Rightarrow>
          let w = w\<lparr>nk := s\<rparr> in
          if msg = word_of_int TIMEOUT then arp_attempts n slot apkt w
          else if msg = word_of_int SYSERR then Some (Ret (SYSERR, None), w)
          else Some (Ret (arp_answered slot w), w))"

text \<open>The caller runs again after the \<open>recvtime\<close> of an attempt.\<close>

definition arp_resolve_got :: "arp_wait \<Rightarrow> world \<Rightarrow> ((arp_answer, arp_wait) outcome \<times> world) option" where
  "arp_resolve_got k w =
     (case k of (n, slot, apkt, pid) \<Rightarrow>
        let (msg, s) = recvtime_resume pid (nk w); w = w\<lparr>nk := s\<rparr> in
        if msg = word_of_int TIMEOUT then arp_attempts n slot apkt w
        else if msg = word_of_int SYSERR then Some (Ret (SYSERR, None), w)
        else Some (Ret (arp_answered slot w), w))"

definition arp_resolve :: "u32 \<Rightarrow> world \<Rightarrow> ((arp_answer, arp_wait) outcome \<times> world) option" where
  "arp_resolve nxthop w =
     (if nxthop = IP_BCAST then Some (Ret (OK, Some (ethbcast (NetData w))), w)
      else if nxthop = ipbcast (NetData w) then Some (Ret (OK, Some (ethbcast (NetData w))), w)
      else
        let i = arp_lookup (nat ARP_SIZ) 0 nxthop w in
        if i < ARP_SIZ \<and> arstate (arpcache w i) = AR_RESOLVED then Some (Ret (arp_answered i w), w)
        else if i < ARP_SIZ \<and> arstate (arpcache w i) = AR_PENDING then Some (Ret (SYSERR, None), w)
        else
          let (slot, w) = arp_alloc w in
          if slot = SYSERR then Some (Ret (SYSERR, None), w)
          else
            let w = upd_arp slot (\<lambda>e. e\<lparr>arstate := AR_PENDING, arpaddr := nxthop, arpid := currpid (nk w)\<rparr>) w;
                apkt = arp_request nxthop (NetData w);
                (msg, s) = recvclr (nk w)
            in arp_attempts 3 slot apkt (w\<lparr>nk := s\<rparr>))"

subsection \<open>Incoming packets\<close>

definition arp_reply :: "arppacket \<Rightarrow> network \<Rightarrow> arppacket" where
  "arp_reply p d =
     arp_hton \<lparr>arp_ethdst = arp_sndha p, arp_ethsrc = ethucast d, arp_ethtype = htons 0x0806, arp_htype = 1,
       arp_ptype = 0x0800, arp_hlen = 6, arp_plen = 4, arp_op = 2, arp_sndha = ethucast d,
       arp_sndpa = ipucast d, arp_tarha = arp_sndha p, arp_tarpa = arp_sndpa p\<rparr>"

definition net_free_done :: "u32 \<Rightarrow> world \<Rightarrow> world option" where
  "net_free_done a w = do { (r, w) \<leftarrow> net_freebuf a w; Some w }"

text \<open>\<open>arp_in\<close> after it has updated the cache (and woken a process that waited for the address).\<close>

definition arp_in_rest :: "bool \<Rightarrow> u32 \<Rightarrow> world \<Rightarrow> world option" where
  "arp_in_rest found a w =
     (let p = arps w a in
      if arp_op p = 2 then net_free_done a w
      else if \<not> ipvalid (NetData w) \<or> arp_tarpa p \<noteq> ipucast (NetData w) then net_free_done a w
      else
        let (slot, w') = (if found then (0, w) else arp_alloc w) in
        if \<not> found \<and> slot = SYSERR then net_free_done a w'
        else
          let w' = (if found then w'
                    else upd_arp slot (\<lambda>e. e\<lparr>arpaddr := arp_sndpa p, arhaddr := arp_sndha p, arstate := AR_RESOLVED\<rparr>) w');
              (v, w') = eth_write (ArpFrame (arp_reply p (NetData w'))) w'
          in net_free_done a w')"

definition arp_in :: "u32 \<Rightarrow> world \<Rightarrow> ((unit, bool) outcome \<times> world) option" where
  "arp_in a w =
     (let w = w\<lparr>arps := (arps w)(a := arp_ntoh (arps w a))\<rparr>; p = arps w a in
      if arp_htype p \<noteq> 1 \<or> arp_ptype p \<noteq> 0x0800 then do { w \<leftarrow> net_free_done a w; Some (Ret (), w) }
      else
        let slot = arp_lookup (nat ARP_SIZ) 0 (arp_sndpa p) w; found = slot < ARP_SIZ in
        if found then
          let w = upd_arp slot (\<lambda>e. e\<lparr>arhaddr := arp_sndha p\<rparr>) w in
          if arstate (arpcache w slot) = AR_PENDING then do {
            let w = upd_arp slot (\<lambda>e. e\<lparr>arstate := AR_RESOLVED\<rparr>) w;
            (r, w) \<leftarrow> net_send (arpid (arpcache w slot)) (word_of_int OK) w;
            case r of
              Switch _ \<Rightarrow> Some (Switch True, w)
            | Ret _ \<Rightarrow> do { w \<leftarrow> arp_in_rest True a w; Some (Ret (), w) }
          }
          else do { w \<leftarrow> arp_in_rest True a w; Some (Ret (), w) }
        else do { w \<leftarrow> arp_in_rest False a w; Some (Ret (), w) })"

end
