(* ===== verification/Ip.thy ===== *)
theory Ip
  imports Arp
begin

text \<open>
  IP: \<open>ip_in\<close>, \<open>ip_local\<close>, \<open>ip_send\<close> and \<open>ip_out\<close> of \<^verbatim>\<open>net/ip.c\<close>.  A call that loses the processor
  with work left to do says where with an \<open>ip_cont\<close>.
\<close>

datatype ip_cont =
    InIcmp icmp_cont u32           \<comment> \<open>in \<open>icmp_in\<close> with this packet\<close>
  | InArp arp_wait u32             \<comment> \<open>in \<open>arp_resolve\<close>, for this packet\<close>
  | InFree int                     \<comment> \<open>in the last \<open>freebuf\<close>, about to return the value\<close>

definition freed :: "u32 \<Rightarrow> int \<Rightarrow> world \<Rightarrow> ((int, ip_cont) outcome \<times> world) option" where
  "freed a v w = do {
     (r, w) \<leftarrow> net_freebuf a w;
     Some (case r of Ret _ \<Rightarrow> Ret v | Switch _ \<Rightarrow> Switch (InFree v), w)
   }"

text \<open>The value with which \<open>ip_local\<close> ends is \<open>OK\<close>, which is what \<open>ip_send\<close> returns after it.\<close>

definition ip_local :: "u32 \<Rightarrow> world \<Rightarrow> ((int, ip_cont) outcome \<times> world) option" where
  "ip_local a w =
     (let p = pkts w a in
      if net_ipproto p = 17 then do { w \<leftarrow> udp_in a w; Some (Ret OK, w) }
      else if net_ipproto p = 1 then do {
        (r, w) \<leftarrow> icmp_in a w;
        Some (case r of Ret _ \<Rightarrow> Ret OK | Switch k \<Rightarrow> Switch (InIcmp k a), w)
      }
      else freed a OK w)"

definition ip_in :: "u32 \<Rightarrow> world \<Rightarrow> ((int, ip_cont) outcome \<times> world) option" where
  "ip_in a w =
     (if ipcksum (pkts w a) \<noteq> 0 then freed a OK w
      else
        let w = upd_pkt a ip_ntoh w in
        if net_ipvh (pkts w a) \<noteq> 0x45 then freed a OK w
        else
          let p = pkts w a; icmplen = uint (net_iplen p) - 20 in
          if net_ipproto p = 1 \<and> icmp_cksum (net_body p) icmplen \<noteq> 0 then freed a OK w
          else
            let w = (if net_ipproto p = 17 then upd_pkt a udp_ntoh w
                     else if net_ipproto p = 1 then upd_pkt a icmp_ntoh w
                     else w);
                d = NetData w in
            if net_ipdst p = IP_BCAST then ip_local a w
            else if \<not> ipvalid d then
              if net_ipproto p = 17 then ip_local a w else freed a OK w
            else if net_ipdst p = ipucast d \<or> net_ipdst p = ipbcast d \<or> net_ipdst p = IP_BCAST then ip_local a w
            else freed a OK w)"

definition ip_out_packet :: "netpacket \<Rightarrow> netpacket" where
  "ip_out_packet p =
     (let p = (if net_ipproto p = 17 then udp_hton (upd_body (set16 6 0) p)
               else if net_ipproto p = 1 then
                 let p = icmp_hton p;
                     p = upd_body (set16 2 0) p;
                     len = uint (net_iplen p) - 20;
                     cksum = icmp_cksum (net_body p) len
                 in upd_body (set16 2 (and 0xffff (htons cksum))) p
               else p);
          p = ip_hton p;
          p = p\<lparr>net_ipcksum := 0\<rparr>;
          cksum = ipcksum p;
          p = p\<lparr>net_ipcksum := and 0xffff (htons cksum)\<rparr>
      in eth_hton p)"

definition ip_out :: "u32 \<Rightarrow> world \<Rightarrow> ((int, ip_cont) outcome \<times> world) option" where
  "ip_out a w =
     (let pktlen = uint (net_iplen (pkts w a)) + 14;
          w = upd_pkt a ip_out_packet w;
          (retval, w) = eth_write (IpFrame (pkts w a) pktlen) w
      in freed a (if retval = SYSERR then SYSERR else OK) w)"

text \<open>\<open>ip_send\<close> after \<open>arp_resolve\<close> has answered.\<close>

definition ip_send_resolved :: "u32 \<Rightarrow> arp_answer \<Rightarrow> world \<Rightarrow> ((int, ip_cont) outcome \<times> world) option" where
  "ip_send_resolved a ans w =
     (case ans of (retval, mac) \<Rightarrow>
        if retval \<noteq> OK then freed a SYSERR w
        else
          let w = (case mac of Some h \<Rightarrow> upd_pkt a (\<lambda>p. p\<lparr>net_ethdst := h\<rparr>) w | None \<Rightarrow> w)
          in ip_out a w)"

definition next_hop :: "u32 \<Rightarrow> network \<Rightarrow> u32" where
  "next_hop dest d = (if and dest (ipmask d) = ipprefix d then dest else iprouter d)"

definition ip_send :: "u32 \<Rightarrow> world \<Rightarrow> ((int, ip_cont) outcome \<times> world) option" where
  "ip_send a w =
     (let dest = net_ipdst (pkts w a); d = NetData w in
      if and dest 0xff000000 = 0x7f000000 then ip_local a w
      else if dest = ipucast d then ip_local a w
      else if dest = IP_BCAST \<or> dest = ipbcast d then
        ip_out a (upd_pkt a (\<lambda>p. p\<lparr>net_ethdst := ethbcast d\<rparr>) w)
      else
        let nxthop = next_hop dest d in
        if nxthop = 0 then freed a SYSERR w
        else do {
          (r, w) \<leftarrow> arp_resolve nxthop w;
          case r of
            Switch k \<Rightarrow> Some (Switch (InArp k a), w)
          | Ret ans \<Rightarrow> ip_send_resolved a ans w
        })"

text \<open>The caller runs again after the \<open>recvtime\<close> of \<open>arp_resolve\<close>.\<close>

definition ip_send_resume :: "arp_wait \<Rightarrow> u32 \<Rightarrow> world \<Rightarrow> ((int, ip_cont) outcome \<times> world) option" where
  "ip_send_resume k a w = do {
     (r, w) \<leftarrow> arp_resolve_got k w;
     case r of
       Switch k \<Rightarrow> Some (Switch (InArp k a), w)
     | Ret ans \<Rightarrow> ip_send_resolved a ans w
   }"

end
