(* ===== verification/NetProcs.thy ===== *)
theory NetProcs
  imports Ip
begin

text \<open>
  The two network processes, one turn of their endless loops at a time: \<open>netin\<close> of \<^verbatim>\<open>net/net.c\<close>
  after a frame has been read, and \<open>ipout\<close> of \<^verbatim>\<open>net/ip.c\<close> after its \<open>wait\<close> on the output queue.
  The frame read from the Ethernet device is given by what it leaves in the buffer.
  \<open>net_init\<close> is the start of the network code up to the creation of these processes, with the
  hardware address it asks the device for as an argument; its \<open>panic\<close> is \<open>None\<close>.
\<close>

abbreviation (input) ETH_ARP :: u16 where "ETH_ARP \<equiv> 0x0806"
abbreviation (input) ETH_IP :: u16 where "ETH_IP \<equiv> 0x0800"

datatype net_cont =
    InIp ip_cont                   \<comment> \<open>in \<open>ip_in\<close>, \<open>ip_local\<close> or \<open>ip_send\<close>'s tail\<close>
  | InArpIn bool u32               \<comment> \<open>in \<open>arp_in\<close>, with whether the sender was cached\<close>

definition netin :: "u32 \<Rightarrow> world \<Rightarrow> ((unit, net_cont) outcome \<times> world) option" where
  "netin pkt w =
     (let w = upd_pkt pkt eth_ntoh w in
      if net_ethtype (pkts w pkt) = ETH_ARP then do {
        (r, w) \<leftarrow> arp_in pkt w;
        Some (case r of Ret _ \<Rightarrow> Ret () | Switch found \<Rightarrow> Switch (InArpIn found pkt), w)
      }
      else if net_ethtype (pkts w pkt) = ETH_IP then do {
        (r, w) \<leftarrow> ip_in pkt w;
        Some (case r of Ret _ \<Rightarrow> Ret () | Switch k \<Rightarrow> Switch (InIp k), w)
      }
      else do { (r, w) \<leftarrow> net_freebuf pkt w; Some (Ret (), w) })"

text \<open>\<open>ipout\<close> behind its \<open>wait\<close>: it takes the packet at the head of the output queue.\<close>

definition ipout_take :: "world \<Rightarrow> u32 \<times> world" where
  "ipout_take w =
     (let q = ipoqueue w;
          pktptr = iqbuf q (iqhead q);
          q = q\<lparr>iqhead := iqhead q + 1\<rparr>;
          q = (if iqhead q \<ge> IP_OQSIZ then q\<lparr>iqhead := 0\<rparr> else q)
      in (pktptr, w\<lparr>ipoqueue := q\<rparr>))"

text \<open>After \<open>arp_resolve\<close> has answered.\<close>

definition ipout_resolved :: "u32 \<Rightarrow> arp_answer \<Rightarrow> world \<Rightarrow> ((int, ip_cont) outcome \<times> world) option" where
  "ipout_resolved pkt ans w =
     (case ans of (retval, mac) \<Rightarrow>
        if retval \<noteq> OK then freed pkt SYSERR w
        else
          let w = (case mac of Some h \<Rightarrow> upd_pkt pkt (\<lambda>p. p\<lparr>net_ethdst := h\<rparr>) w | None \<Rightarrow> w)
          in ip_out pkt w)"

text \<open>One turn; the value is what its last call returned, which \<open>ipout\<close> does not look at.\<close>

definition ipout :: "world \<Rightarrow> ((int, ip_cont) outcome \<times> world) option" where
  "ipout w =
     (let (pktptr, w) = ipout_take w;
          w = upd_pkt pktptr (\<lambda>p. p\<lparr>net_ethsrc := ethucast (NetData w)\<rparr>) w;
          destip = net_ipdst (pkts w pktptr); d = NetData w in
      if destip = IP_BCAST \<or> destip = ipbcast d then freed pktptr OK w
      else if destip = ipucast d then ip_local pktptr w
      else
        let nxthop = next_hop destip d in
        if nxthop = 0 then freed pktptr OK w
        else do {
          (r, w) \<leftarrow> arp_resolve nxthop w;
          case r of
            Switch k \<Rightarrow> Some (Switch (InArp k pktptr), w)
          | Ret ans \<Rightarrow> ipout_resolved pktptr ans w
        })"

definition net_init :: "u8 list \<Rightarrow> world \<Rightarrow> world option" where
  "net_init mac w = do {
     let w = w\<lparr>NetData := \<lparr>ipucast = 0, ipbcast = 0, ipmask = 0, ipprefix = 0, iprouter = 0, bootserver = 0,
               ipvalid = False, ethucast = mac, ethbcast = replicate 6 0xff, bootfile = replicate 128 0\<rparr>\<rparr>;
     let nbufs = UDP_SLOTS * UDP_QSIZ + ICMP_SLOTS * ICMP_QSIZ + 1;
     (pool, b, m, s) \<leftarrow> mkbufpool 1514 nbufs (nb w) (nm w) (nk w);
     let w = w\<lparr>netbufpool := pool, nb := b, nm := m, nk := s\<rparr>;
     let w = icmp_init (udp_init (arp_init w));
     let (sem, s) = semcreate 0 (nk w);
     let w = w\<lparr>ipoqueue := (ipoqueue w)\<lparr>iqhead := 0, iqtail := 0, iqsem := sem\<rparr>, nk := s\<rparr>;
     if sem = SYSERR then None else Some w
   }"

end
