(* ===== verification/NetSend.thy ===== *)
theory NetSend
  imports NetProcs
begin

text \<open>
  Sending: \<open>udp_send\<close>, \<open>udp_sendto\<close> of \<^verbatim>\<open>net/udp.c\<close> and \<open>icmp_send\<close> of \<^verbatim>\<open>net/icmp.c\<close>, which
  build a packet in a network buffer and hand it to \<open>ip_send\<close>.  The caller's buffer is a list of
  bytes; the first \<open>len\<close> of them are copied.  A call that loses the processor says whether in
  \<open>getbuf\<close> or in \<open>ip_send\<close>.
\<close>

datatype send_cont = InGetbuf | InSend ip_cont

definition mk_udp :: "world \<Rightarrow> u16 \<Rightarrow> u32 \<Rightarrow> u32 \<Rightarrow> u16 \<Rightarrow> u16 \<Rightarrow> u8 list \<Rightarrow> int \<Rightarrow> netpacket \<Rightarrow> netpacket" where
  "mk_udp w ident locip remip remport locport buff len p =
     (let pktlen = 42 + len;
          p = p\<lparr>net_ethsrc := ethucast (NetData w), net_ethtype := 0x0800, net_ipvh := 0x45, net_iptos := 0,
                net_iplen := word_of_int (pktlen - 14), net_ipid := ident, net_ipfrag := 0, net_ipttl := 0xff,
                net_ipproto := 17, net_ipcksum := 0, net_ipsrc := locip, net_ipdst := remip\<rparr>;
          p = upd_body (set16 0 locport) p;
          p = upd_body (set16 2 remport) p;
          p = upd_body (set16 4 (word_of_int (8 + len))) p;
          p = upd_body (set16 6 0) p
      in upd_body (store_bytes 8 (take (nat len) buff)) p)"

text \<open>The value of \<open>udp_send\<close> is \<open>OK\<close> whatever \<open>ip_send\<close> returns.\<close>

definition udp_send_ip :: "u32 \<Rightarrow> world \<Rightarrow> ((int, send_cont) outcome \<times> world) option" where
  "udp_send_ip pkt w = do {
     (r, w) \<leftarrow> ip_send pkt w;
     Some (case r of Ret _ \<Rightarrow> Ret OK | Switch k \<Rightarrow> Switch (InSend k), w)
   }"

definition udp_send_build ::
    "u32 \<Rightarrow> u32 \<Rightarrow> u32 \<Rightarrow> u16 \<Rightarrow> u16 \<Rightarrow> u8 list \<Rightarrow> int \<Rightarrow> world \<Rightarrow> ((int, send_cont) outcome \<times> world) option" where
  "udp_send_build pkt locip remip remport locport buff len w =
     (if pkt = ADDR_SYSERR then Some (Ret SYSERR, w)
      else
        let w' = upd_pkt pkt (mk_udp w (udp_ident w) locip remip remport locport buff len) w
        in udp_send_ip pkt (w'\<lparr>udp_ident := udp_ident w + 1\<rparr>))"

definition udp_send :: "int \<Rightarrow> u8 list \<Rightarrow> int \<Rightarrow> world \<Rightarrow> ((int, send_cont) outcome \<times> world) option" where
  "udp_send slot buff len w =
     (if slot < 0 \<or> slot \<ge> UDP_SLOTS then Some (Ret SYSERR, w)
      else if udstate (udptab w slot) = UDP_FREE then Some (Ret SYSERR, w)
      else
        let remip = udremip (udptab w slot) in
        if remip = 0 then Some (Ret SYSERR, w)
        else do {
          let locip = ipucast (NetData w);
          let remport = udremport (udptab w slot);
          let locport = udlocport (udptab w slot);
          (r, w) \<leftarrow> net_getbuf w;
          case r of
            Switch _ \<Rightarrow> Some (Switch InGetbuf, w)
          | Ret pkt \<Rightarrow> udp_send_build pkt locip remip remport locport buff len w
        })"

definition udp_sendto_build ::
    "u32 \<Rightarrow> int \<Rightarrow> u32 \<Rightarrow> u16 \<Rightarrow> u8 list \<Rightarrow> int \<Rightarrow> world \<Rightarrow> ((int, send_cont) outcome \<times> world) option" where
  "udp_sendto_build pkt slot remip remport buff len w =
     (if pkt = ADDR_SYSERR then Some (Ret SYSERR, w)
      else
        let w' = upd_pkt pkt (mk_udp w (udp_ident_to w) (ipucast (NetData w)) remip remport (udlocport (udptab w slot)) buff len) w
        in udp_send_ip pkt (w'\<lparr>udp_ident_to := udp_ident_to w + 1\<rparr>))"

definition udp_sendto :: "int \<Rightarrow> u32 \<Rightarrow> u16 \<Rightarrow> u8 list \<Rightarrow> int \<Rightarrow> world \<Rightarrow> ((int, send_cont) outcome \<times> world) option" where
  "udp_sendto slot remip remport buff len w =
     (if slot < 0 \<or> slot \<ge> UDP_SLOTS then Some (Ret SYSERR, w)
      else if udstate (udptab w slot) = UDP_FREE then Some (Ret SYSERR, w)
      else do {
        (r, w) \<leftarrow> net_getbuf w;
        case r of
          Switch _ \<Rightarrow> Some (Switch InGetbuf, w)
        | Ret pkt \<Rightarrow> udp_sendto_build pkt slot remip remport buff len w
      })"

definition icmp_send ::
    "u32 \<Rightarrow> u16 \<Rightarrow> u16 \<Rightarrow> u16 \<Rightarrow> u8 list \<Rightarrow> int \<Rightarrow> world \<Rightarrow> ((int, send_cont) outcome \<times> world) option" where
  "icmp_send remip type ident seq buf len w = do {
     (r, w) \<leftarrow> icmp_mkpkt remip type ident seq buf len w;
     case r of
       Switch _ \<Rightarrow> Some (Switch InGetbuf, w)
     | Ret pkt \<Rightarrow>
         if pkt = ADDR_SYSERR then Some (Ret SYSERR, w)
         else do {
           (r, w) \<leftarrow> ip_send pkt w;
           Some (case r of Ret v \<Rightarrow> Ret v | Switch k \<Rightarrow> Switch (InSend k), w)
         }
   }"

end
