(* ===== verification/Checksums.thy ===== *)
theory Checksums
  imports NetSend
begin

text \<open>
  The checksums of the network code against the one's-complement sum they are meant to compute:
  \<open>ones_sum\<close> adds 16-bit numbers with end-around carry.  \<open>ipcksum\<close> and \<open>icmp_cksum\<close> add the
  carries back once only, so they differ from it exactly when that addition carries again.
\<close>

definition ones_add :: "nat \<Rightarrow> nat \<Rightarrow> nat" where
  "ones_add a b = (if a + b < 65536 then a + b else a + b - 65535)"

definition ones_sum :: "u16 list \<Rightarrow> nat" where
  "ones_sum ws = foldl (\<lambda>s w. ones_add s (unat (htons w))) 0 ws"

text \<open>The plain sum of the words in network order, and the code's single addition of the carries.\<close>

definition word_sum :: "u16 list \<Rightarrow> nat" where
  "word_sum ws = sum_list (map (\<lambda>w. unat (htons w)) ws)"

definition fold_carry :: "nat \<Rightarrow> nat" where
  "fold_carry s = s mod 65536 + s div 65536"

lemma unat_u16: "unat (w :: u16) < 65536"
  using unsigned_less [of w] by simp

lemma foldl_sum: "foldl (\<lambda>c w. c + f w) a ws = (a :: u32) + foldl (\<lambda>c w. c + f w) 0 ws"
  by (induction ws rule: rev_induct) simp_all

lemma word_sum_simps [simp]: "word_sum [] = 0" "word_sum (w # ws) = unat (htons w) + word_sum ws"
  "word_sum (ws @ vs) = word_sum ws + word_sum vs"
  by (simp_all add: word_sum_def)

lemma word_sum_bound: "word_sum ws \<le> 65535 * length ws"
proof (induction ws)
  case (Cons w ws)
  then show ?case using unat_u16 [of "htons w"] by simp
qed simp

lemma foldl_word_sum:
  "length ws \<le> 65536 \<Longrightarrow> unat (foldl (\<lambda>c w. c + ucast (htons w)) (0 :: u32) ws) = word_sum ws"
proof (induction ws rule: rev_induct)
  case (snoc w ws)
  have "word_sum (ws @ [w]) \<le> 65535 * 65536" using word_sum_bound [of "ws @ [w]"] snoc.prems by simp
  then show ?case using snoc by (simp add: unat_word_ariths unsigned_ucast_eq take_bit_eq_mod)
qed simp

lemma ones_add_mod:
  assumes a: "a < 65536"
  shows "ones_add (k mod 65535 + 1) a = (k + a) mod 65535 + 1"
proof -
  obtain r where r_def: "r = k mod 65535" by simp
  have r: "r < 65535" by (simp add: r_def)
  have "(k + a) mod 65535 = (r + a) mod 65535" by (simp only: r_def mod_add_left_eq)
  also have "\<dots> = (if r + a < 65535 then r + a else r + a - 65535)"
  proof (cases "r + a < 65535")
    case False
    then have "(r + a) mod 65535 = (r + a - 65535) mod 65535" by (simp add: le_mod_geq)
    then show ?thesis using False a r by simp
  qed simp
  finally show ?thesis by (auto simp: ones_add_def r_def [symmetric])
qed

lemma ones_sum_word_sum:
  "ones_sum ws = (if word_sum ws = 0 then 0 else (word_sum ws - 1) mod 65535 + 1)"
proof (induction ws rule: rev_induct)
  case Nil
  show ?case by (simp add: ones_sum_def)
next
  case (snoc w ws)
  let ?a = "unat (htons w)" and ?s = "word_sum ws"
  have a: "?a < 65536" by (rule unat_u16)
  have st: "ones_sum (ws @ [w]) = ones_add (ones_sum ws) ?a" by (simp add: ones_sum_def)
  show ?case
  proof (cases "?s = 0")
    case True
    then show ?thesis using a st snoc by (auto simp: ones_add_def)
  next
    case False
    then obtain k where k: "?s = Suc k" by (cases ?s) auto
    have "ones_add (k mod 65535 + 1) ?a = (k + ?a) mod 65535 + 1" by (rule ones_add_mod [OF a])
    then show ?thesis unfolding st snoc by (simp add: k)
  qed
qed


subsection \<open>What the code computes\<close>

lemma neg_mod_16: "(- u - 1) mod 65536 = 65535 - u mod 65536" for u :: int
proof -
  have e: "- u - 1 = (65535 - u mod 65536) + 65536 * (- 1 - u div 65536)"
    using mult_div_mod_eq [of 65536 u] by (simp add: algebra_simps)
  have "0 \<le> u mod 65536" "u mod 65536 < 65536" by simp_all
  then show ?thesis unfolding e by (simp only: mod_mult_self2) simp
qed

lemma and_ffff: "and 0xffff x = take_bit 16 x" for x :: u32
  by (simp add: take_bit_eq_mask mask_eq_exp_minus_1 and.commute)

lemma low_16: "unat (ucast (and 0xffff x) :: u16) = unat x mod 65536" for x :: u32
  by (simp only: and_ffff unsigned_ucast_eq unsigned_take_bit_eq) (simp add: take_bit_eq_mod)

lemma low_not: "unat (and 0xffff (not x) :: u32) = 65535 - unat x mod 65536"
proof -
  have "uint (and 0xffff (not x) :: u32) = take_bit 16 (not (uint x))"
    by (simp add: and_ffff unsigned_take_bit_eq unsigned_not_eq min_def)
  also have "\<dots> = (- uint x - 1) mod 65536" by (simp add: take_bit_eq_mod not_eq_complement)
  also have "\<dots> = 65535 - uint x mod 65536" by (rule neg_mod_16)
  finally show ?thesis by (simp add: nat_diff_distrib nat_mod_distrib flip: nat_uint_eq)
qed

text \<open>Adding the carries back, complementing: the end of both checksums.\<close>

lemma fold_and_complement:
  assumes c: "unat (c :: u32) = s" "s < 2147483648"
  shows "unat (and 0xffff (not (c + drop_bit 16 c))) = 65535 - fold_carry s mod 65536"
proof -
  have "unat (c + drop_bit 16 c) = s + s div 65536"
    using c by (simp add: unat_word_ariths unsigned_drop_bit_eq drop_bit_eq_div)
  then show ?thesis by (simp add: low_not fold_carry_def mod_add_left_eq)
qed

text \<open>Appending the checksum to the words it was computed from.\<close>

lemma fold_carry_parts: "m < 65536 \<Longrightarrow> fold_carry (65536 * q + m) = q + m"
  by (simp add: fold_carry_def)

lemma fold_carry_verify:
  assumes "s < 65535 * 65536"
  shows "fold_carry (s + (65535 - fold_carry s mod 65536)) = (if fold_carry s < 65536 then 65535 else 65536)"
proof -
  obtain q r where qr: "s = 65536 * q + r" "r < 65536" "q < 65535"
    using assms by (intro that [of "s div 65536" "s mod 65536"]) auto
  have t: "fold_carry s = q + r" using qr by (simp add: fold_carry_def)
  show ?thesis
  proof (cases "q + r < 65536")
    case True
    then have "s + (65535 - fold_carry s mod 65536) = 65536 * q + (65535 - q)" using qr t by simp
    then show ?thesis using True t qr fold_carry_parts [of "65535 - q" q] by simp
  next
    case False
    then have "s + (65535 - fold_carry s mod 65536) = 65536 * (q + 1) + (65535 - q)"
      using qr t by (auto simp: mod_if)
    then show ?thesis using False t qr fold_carry_parts [of "65535 - q" "q + 1"] by simp
  qed
qed

lemma length_ip_words [simp]: "length (ip_words p) = 10"
  by (simp add: ip_words_def)

lemma unat_ipcksum:
  "unat (ipcksum p) = (let t = fold_carry (word_sum (ip_words p)) mod 65536 in if t = 0 then 0 else 65535 - t)"
proof -
  let ?c = "foldl (\<lambda>c w. c + ucast (htons w)) (0 :: u32) (ip_words p)" and ?s = "word_sum (ip_words p)"
  have b: "?s < 2147483648" using word_sum_bound [of "ip_words p"] by simp
  have "unat ?c = ?s" by (rule foldl_word_sum) simp
  from fold_and_complement [OF this b]
  have u: "unat (and 0xffff (not (?c + drop_bit 16 ?c))) = 65535 - fold_carry ?s mod 65536" .
  have e: "(x = (0xffff :: u32)) = (unat x = 65535)" for x by (simp add: word_unat_eq_iff)
  show ?thesis unfolding ipcksum_def Let_def e u low_16 by (auto simp: u)
qed

text \<open>The IP header: what \<open>ip_out\<close> writes always passes the test of \<open>ip_in\<close>.\<close>

lemma htons_0 [simp]: "htons 0 = 0"
  by (simp add: htons_def)

lemma word_sum_with_cksum:
  "word_sum (ip_words (p\<lparr>net_ipcksum := htons c\<rparr>)) = word_sum (ip_words (p\<lparr>net_ipcksum := 0\<rparr>)) + unat c"
  by (simp add: ip_words_def)

lemma ipcksum_written:
  "ipcksum (p\<lparr>net_ipcksum := htons (ipcksum (p\<lparr>net_ipcksum := 0\<rparr>))\<rparr>) = 0"
proof -
  let ?p = "p\<lparr>net_ipcksum := 0\<rparr>"
  let ?s = "word_sum (ip_words ?p)"
  let ?t = "fold_carry ?s"
  have b: "?s < 65535 * 65536" using word_sum_bound [of "ip_words ?p"] by simp
  have v: "fold_carry (?s + (65535 - ?t mod 65536)) = (if ?t < 65536 then 65535 else 65536)"
    by (rule fold_carry_verify [OF b])
  have "unat (ipcksum (p\<lparr>net_ipcksum := htons (ipcksum ?p)\<rparr>)) = 0"
  proof (cases "?t mod 65536 = 0")
    case True
    then have "unat (ipcksum ?p) = 0" by (simp add: unat_ipcksum)
    then show ?thesis using True by (simp add: unat_ipcksum word_sum_with_cksum)
  next
    case False
    then have "unat (ipcksum ?p) = 65535 - ?t mod 65536" by (simp add: unat_ipcksum Let_def)
    then show ?thesis using v by (simp add: unat_ipcksum word_sum_with_cksum)
  qed
  then show ?thesis by (simp add: unat_eq_0)
qed

lemma ip_out_packet_verifies: "ipcksum (ip_out_packet p) = 0"
proof -
  have e: "ipcksum (eth_hton q) = ipcksum q" for q by (simp add: eth_hton_def ipcksum_def ip_words_def)
  have a: "and 0xffff (w :: u16) = w" for w
    using take_bit_word_eq_self [of 16 w] by (simp add: take_bit_eq_mask mask_eq_exp_minus_1 and.commute)
  have i: "(q\<lparr>net_ipcksum := 0\<rparr>)\<lparr>net_ipcksum := x\<rparr> = q\<lparr>net_ipcksum := x\<rparr>" for q x by simp
  show ?thesis by (simp only: ip_out_packet_def Let_def e a i ipcksum_written)
qed

subsection \<open>What a receiver makes of a packet sent\<close>

text \<open>The conversions of \<open>netin\<close> and \<open>ip_in\<close>.\<close>

definition to_host :: "netpacket \<Rightarrow> netpacket" where
  "to_host p =
     (let p = ip_ntoh (eth_ntoh p)
      in if net_ipproto p = 17 then udp_ntoh p else if net_ipproto p = 1 then icmp_ntoh p else p)"

lemma upd_body_fields [simp]:
  "net_ipproto (upd_body f p) = net_ipproto p" "net_ipcksum (upd_body f p) = net_ipcksum p"
  "net_ipdst (upd_body f p) = net_ipdst p" "net_ipsrc (upd_body f p) = net_ipsrc p"
  "net_ipvh (upd_body f p) = net_ipvh p" "net_iplen (upd_body f p) = net_iplen p"
  "net_ethtype (upd_body f p) = net_ethtype p" "net_body (upd_body f p) = f (net_body p)"
  by (simp_all add: upd_body_def)

lemma swap16_cksum: "swap16 i (p\<lparr>net_ipcksum := c\<rparr>) = (swap16 i p)\<lparr>net_ipcksum := c\<rparr>"
  by (simp add: swap16_def upd_body_def)

lemma to_host_udp:
  assumes "net_ipproto p = 17"
  shows "\<exists>c. to_host (ip_out_packet p) = (upd_body (set16 6 0) p)\<lparr>net_ipcksum := c\<rparr>"
proof -
  let ?q = "udp_hton (upd_body (set16 6 0) p)"
  obtain c where c: "ip_out_packet p = eth_hton ((ip_hton ?q)\<lparr>net_ipcksum := c\<rparr>)"
    using assms by (simp add: ip_out_packet_def Let_def)
  have "ip_ntoh (eth_ntoh (ip_out_packet p)) = ?q\<lparr>net_ipcksum := c\<rparr>"
    by (simp add: c ip_hton_def ip_ntoh_def eth_hton_def eth_ntoh_def)
  moreover have "net_ipproto ?q = 17" using assms by (simp add: udp_hton_def swap16_def)
  moreover have "udp_ntoh (?q\<lparr>net_ipcksum := c\<rparr>) = (upd_body (set16 6 0) p)\<lparr>net_ipcksum := c\<rparr>"
    using udp_order_roundtrip [of "upd_body (set16 6 0) p"] by (simp add: udp_ntoh_def swap16_cksum)
  ultimately show ?thesis by (auto simp: to_host_def)
qed

subsection \<open>The ICMP checksum\<close>

lemma length_body_words [simp]: "length (body_words f i n) = n"
  by (induction f i n rule: body_words.induct) simp_all

lemma body_words_set16: "j + 2 \<le> i \<Longrightarrow> body_words (set16 j v f) i n = body_words f i n"
  by (induction n arbitrary: i) simp_all

text \<open>The checksum is the second word of the message.\<close>

lemma word_sum_body_cksum:
  assumes "2 \<le> n"
  shows "word_sum (body_words (set16 2 (htons c) f) 0 n) = word_sum (body_words (set16 2 0 f) 0 n) + unat c"
proof -
  obtain m where "n = Suc (Suc m)" using assms by (intro that [of "n - 2"]) simp
  then show ?thesis by (simp add: body_words_set16 numeral_2_eq_2 [symmetric])
qed

lemma unat_icmp_cksum:
  assumes n: "n \<le> 32768"
  shows "unat (icmp_cksum f (2 * int n)) = 65535 - fold_carry (word_sum (body_words f 0 n)) mod 65536"
proof -
  let ?s = "word_sum (body_words f 0 n)"
  have b: "?s < 2147483648" using word_sum_bound [of "body_words f 0 n"] n by simp
  have c: "unat (foldl (\<lambda>c w. c + ucast (htons w)) (0 :: u32) (body_words f 0 n)) = ?s"
    using n by (intro foldl_word_sum) simp
  show ?thesis
    unfolding icmp_cksum_def Let_def low_16 using fold_and_complement [OF c b] by simp
qed

lemma icmp_cksum_written:
  assumes n: "2 \<le> n" "n \<le> 32768"
  shows "icmp_cksum (set16 2 (htons (icmp_cksum (set16 2 0 f) (2 * int n))) f) (2 * int n) = 0 \<longleftrightarrow>
    fold_carry (word_sum (body_words (set16 2 0 f) 0 n)) < 65536"
proof -
  let ?s = "word_sum (body_words (set16 2 0 f) 0 n)"
  have b: "?s < 65535 * 65536" using word_sum_bound [of "body_words (set16 2 0 f) 0 n"] n by simp
  show ?thesis
    using fold_carry_verify [OF b]
    by (simp add: unat_icmp_cksum word_sum_body_cksum n flip: unat_eq_0 split: if_splits)
qed

end
