(* ===== verification/PacketRings.thy ===== *)
theory PacketRings
  imports NetSend
begin

text \<open>
  The packet queues of the network code are rings of eight slots with a head, a tail and a count.
  The contract of such a ring is the locale \<open>ring_buffer\<close>: it is a queue of bounded length.  The
  queue of a UDP endpoint and the IP output queue (whose count is a semaphore) keep it; the ring of
  an ICMP entry does not, because its head and its tail wrap at different sizes.
\<close>

subsection \<open>Queues of bounded length and rings\<close>

text \<open>
  A run of arrivals (\<open>Some a\<close>, dropped when the queue is full) and departures (\<open>None\<close>, none when
  it is empty): the values that leave, in order, and what is left.
\<close>

fun fifo_run :: "nat \<Rightarrow> 'a option list \<Rightarrow> 'a list \<Rightarrow> 'a list \<times> 'a list" where
  "fifo_run cap [] xs = ([], xs)"
| "fifo_run cap (Some a # ops) xs = fifo_run cap ops (if length xs < cap then xs @ [a] else xs)"
| "fifo_run cap (None # ops) [] = fifo_run cap ops []"
| "fifo_run cap (None # ops) (x # xs) = (let (out, r) = fifo_run cap ops xs in (x # out, r))"

fun ring_run :: "nat \<Rightarrow> ('r \<Rightarrow> int) \<Rightarrow> ('a \<Rightarrow> 'r \<Rightarrow> 'r) \<Rightarrow> ('r \<Rightarrow> 'a) \<Rightarrow> ('r \<Rightarrow> 'r) \<Rightarrow> 'a option list \<Rightarrow> 'r \<Rightarrow> 'a list \<times> 'r" where
  "ring_run cap cnt enq first deq [] r = ([], r)"
| "ring_run cap cnt enq first deq (Some a # ops) r =
     ring_run cap cnt enq first deq ops (if cnt r < int cap then enq a r else r)"
| "ring_run cap cnt enq first deq (None # ops) r =
     (if cnt r = 0 then ring_run cap cnt enq first deq ops r
      else let (out, r') = ring_run cap cnt enq first deq ops (deq r) in (first r # out, r'))"

locale ring_buffer =
  fixes ok :: "'r \<Rightarrow> bool" and contents :: "'r \<Rightarrow> 'a list" and cap :: nat and cnt :: "'r \<Rightarrow> int"
    and enq :: "'a \<Rightarrow> 'r \<Rightarrow> 'r" and first :: "'r \<Rightarrow> 'a" and deq :: "'r \<Rightarrow> 'r"
  assumes cnt_contents: "ok r \<Longrightarrow> cnt r = int (length (contents r))"
    and enq_contents: "ok r \<Longrightarrow> length (contents r) < cap \<Longrightarrow> ok (enq a r) \<and> contents (enq a r) = contents r @ [a]"
    and deq_contents: "ok r \<Longrightarrow> contents r = x # xs \<Longrightarrow> ok (deq r) \<and> contents (deq r) = xs \<and> first r = x"
begin

lemma run_refines:
  assumes "ok r"
  shows "\<exists>r'. ring_run cap cnt enq first deq ops r = (fst (fifo_run cap ops (contents r)), r') \<and> ok r' \<and>
    contents r' = snd (fifo_run cap ops (contents r))"
  using assms
proof (induction ops arbitrary: r)
  case (Cons o1 ops)
  show ?case
  proof (cases o1)
    case None
    show ?thesis
    proof (cases "contents r")
      case Nil
      then show ?thesis using Cons.IH [OF Cons.prems] None cnt_contents [OF Cons.prems] by simp
    next
      case (Cons x xs)
      note d = deq_contents [OF \<open>ok r\<close> Cons]
      have "cnt r \<noteq> 0" using Cons cnt_contents [OF \<open>ok r\<close>] by simp
      with None Cons d \<open>ok r\<close> Cons.IH [of "deq r"] show ?thesis by (auto split: prod.split)
    qed
  next
    case (Some a)
    then show ?thesis
      using Cons.IH [of "enq a r"] Cons.IH [of r] Cons.prems enq_contents [OF Cons.prems, of a] cnt_contents [OF Cons.prems]
      by (cases "length (contents r) < cap") auto
  qed
qed simp

end

text \<open>The slots of a ring of \<open>n\<close> from \<open>h\<close> on, \<open>k\<close> of them.\<close>

definition ring_list :: "int \<Rightarrow> (int \<Rightarrow> 'a) \<Rightarrow> int \<Rightarrow> int \<Rightarrow> 'a list" where
  "ring_list n q h k = map (\<lambda>j. q ((h + int j) mod n)) [0..<nat k]"

lemma length_ring_list [simp]: "length (ring_list n q h k) = nat k"
  by (simp add: ring_list_def)

lemma ring_list_put:
  assumes "0 \<le> k" "k < n"
  shows "ring_list n (q((h + k) mod n := a)) h (k + 1) = ring_list n q h k @ [a]"
proof -
  have u: "nat (k + 1) = Suc (nat k)" using assms(1) by simp
  have "(h + int j) mod n \<noteq> (h + k) mod n" if "j < nat k" for j
  proof
    assume "(h + int j) mod n = (h + k) mod n"
    then have "n dvd (h + k) - (h + int j)" by (metis mod_eq_dvd_iff)
    then have d: "n dvd k - int j" by simp
    have "int j < k" using that by linarith
    then show False using zdvd_imp_le [OF d] assms(2) by simp
  qed
  then show ?thesis using assms(1) by (simp add: ring_list_def u)
qed

lemma ring_list_take:
  assumes "0 < k"
  shows "ring_list n q h k = q (h mod n) # ring_list n q ((h + 1) mod n) (k - 1)"
proof -
  have u: "[0..<nat k] = 0 # map Suc [0..<nat (k - 1)]"
    using assms by (simp add: map_Suc_upt upt_conv_Cons Suc_nat_eq_nat_zadd1)
  show ?thesis by (simp add: ring_list_def u o_def mod_add_left_eq add.assoc)
qed

subsection \<open>The ring of a UDP endpoint\<close>

definition udp_ring_ok :: "udpentry \<Rightarrow> bool" where
  "udp_ring_ok e \<longleftrightarrow> 0 \<le> udhead e \<and> udhead e < UDP_QSIZ \<and> 0 \<le> udcount e \<and> udcount e \<le> UDP_QSIZ \<and>
     udtail e = (udhead e + udcount e) mod UDP_QSIZ"

definition udp_packets :: "udpentry \<Rightarrow> u32 list" where
  "udp_packets e = ring_list UDP_QSIZ (udqueue e) (udhead e) (udcount e)"

definition udp_first :: "udpentry \<Rightarrow> u32" where
  "udp_first e = udqueue e (udhead e)"

lemma wrap_at_8: "0 \<le> t \<Longrightarrow> t < 8 \<Longrightarrow> (if t + 1 \<ge> 8 then 0 else t + 1) = (t + 1) mod 8" for t :: int
  by (cases "t = 7") simp_all

lemma udp_enqueue_fields:
  assumes "udp_ring_ok e"
  shows "udp_enqueue a e = e\<lparr>udcount := udcount e + 1, udqueue := (udqueue e)((udhead e + udcount e) mod 8 := a),
           udtail := (udhead e + (udcount e + 1)) mod 8\<rparr>"
proof -
  have t: "(udhead e + (udcount e + 1)) mod 8 = (udtail e + 1) mod 8"
    using assms by (simp add: udp_ring_ok_def mod_add_left_eq add.assoc)
  have "0 \<le> udtail e" "udtail e < 8" using assms by (simp_all add: udp_ring_ok_def)
  from wrap_at_8 [OF this] show ?thesis
    unfolding t using assms by (simp add: udp_enqueue_def Let_def udp_ring_ok_def split: if_splits)
qed

lemma udp_dequeue_fields:
  assumes "udp_ring_ok e"
  shows "udp_dequeue e = e\<lparr>udhead := (udhead e + 1) mod 8, udcount := udcount e - 1\<rparr>"
  using wrap_at_8 [of "udhead e"] assms by (simp add: udp_dequeue_def Let_def udp_ring_ok_def split: if_splits)

interpretation udp_ring: ring_buffer udp_ring_ok udp_packets 8 udcount udp_enqueue udp_first udp_dequeue
proof (unfold_locales, goal_cases)
  case (1 r)
  then show ?case by (simp add: udp_ring_ok_def udp_packets_def)
next
  case (2 r a)
  then have "udcount r < 8" by (simp add: udp_packets_def)
  with 2 show ?case
    using ring_list_put [of "udcount r" 8 "udqueue r" "udhead r" a]
    by (simp add: udp_enqueue_fields udp_packets_def) (simp add: udp_ring_ok_def)
next
  case (3 r x xs)
  then have c: "0 < udcount r" by (cases "udcount r \<le> 0") (auto simp: udp_packets_def ring_list_def)
  have "((udhead r + 1) mod 8 + (udcount r - 1)) mod 8 = (udhead r + udcount r) mod 8"
    by (simp add: mod_add_left_eq)
  with 3 c show ?case
    by (simp add: udp_dequeue_fields udp_packets_def ring_list_take udp_first_def) (auto simp: udp_ring_ok_def)
qed

subsection \<open>The ring of an ICMP entry\<close>

definition icmp_first :: "icmpentry \<Rightarrow> u32" where
  "icmp_first e = icqueue e (ichead e)"

definition icmp_run :: "u32 option list \<Rightarrow> icmpentry \<Rightarrow> u32 list \<times> icmpentry" where
  "icmp_run ops e = ring_run 8 iccount icmp_enqueue icmp_first icmp_dequeue ops e"

text \<open>One packet that arrives and is received.\<close>

definition icmp_round :: "u32 \<Rightarrow> icmpentry \<Rightarrow> icmpentry" where
  "icmp_round a e = icmp_dequeue (icmp_enqueue a e)"

lemma icmp_round_fields:
  "iccount (icmp_round a e) = iccount e" "icqueue (icmp_round a e) = (icqueue e)(ictail e := a)"
  "ictail (icmp_round a e) = (if ictail e + 1 \<ge> 8 then 0 else ictail e + 1)"
  "ichead (icmp_round a e) = (if ichead e + 1 \<ge> 10 then 0 else ichead e + 1)"
  by (simp_all add: icmp_round_def icmp_enqueue_def icmp_dequeue_def Let_def)

lemma icmp_run_round:
  assumes "iccount e = 0"
  shows "fst (icmp_run (Some a # None # ops) e) =
     (if ichead e = ictail e then a else icqueue e (ichead e)) # fst (icmp_run ops (icmp_round a e))"
proof -
  have "iccount (icmp_enqueue a e) = 1" "icmp_first (icmp_enqueue a e) = (if ichead e = ictail e then a else icqueue e (ichead e))"
    using assms by (simp_all add: icmp_enqueue_def icmp_first_def Let_def)
  then show ?thesis using assms by (simp add: icmp_run_def icmp_round_def case_prod_beta' Let_def)
qed

lemma icmp_nine_rounds:
  assumes "iccount e = 0" "ichead e = 0" "ictail e = 0" "length as = 9"
  shows "fst (icmp_run (concat (map (\<lambda>a. [Some a, None]) as)) e) = take 8 as @ [icqueue e 8]"
proof -
  obtain a b c d x f g h i where "as = [a, b, c, d, x, f, g, h, i]"
    using assms(4) by (auto simp: eval_nat_numeral length_Suc_conv)
  with assms(1-3) show ?thesis by (simp add: icmp_run_round icmp_round_fields icmp_run_def [of "[]"])
qed

end
