(* ===== verification/UdpTable.thy ===== *)
theory UdpTable
  imports PacketRings
begin

text \<open>
  The endpoint table of UDP: what the calls keep of it.  No two endpoints in use have the same
  remote address, remote port and local port, and the queue of an endpoint in use is a
  well-formed ring.
\<close>

definition udp_key :: "udpentry \<Rightarrow> u32 \<times> u16 \<times> u16" where
  "udp_key e = (udremip e, udremport e, udlocport e)"

definition udp_used :: "world \<Rightarrow> int \<Rightarrow> bool" where
  "udp_used w i \<longleftrightarrow> 0 \<le> i \<and> i < UDP_SLOTS \<and> udstate (udptab w i) \<noteq> UDP_FREE"

definition udp_table_ok :: "world \<Rightarrow> bool" where
  "udp_table_ok w \<longleftrightarrow> (\<forall>i. udp_used w i \<longrightarrow> udp_ring_ok (udptab w i)) \<and>
     (\<forall>i j. udp_used w i \<and> udp_used w j \<and> udp_key (udptab w i) = udp_key (udptab w j) \<longrightarrow> i = j)"

lemma upd_udp_simps [simp]:
  "udptab (upd_udp k f w) = (udptab w)(k := f (udptab w k))" "nk (upd_udp k f w) = nk w"
  "pkts (upd_udp k f w) = pkts w" "NetData (upd_udp k f w) = NetData w"
  by (simp_all add: upd_udp_def)

lemma net_freebuf_udptab: "net_freebuf a w = Some (r, w') \<Longrightarrow> udptab w' = udptab w"
  by (auto simp: net_freebuf_def split: Option.bind_splits)

lemma net_send_udptab: "net_send p v w = Some (r, w') \<Longrightarrow> udptab w' = udptab w"
  by (auto simp: net_send_def split: Option.bind_splits)

lemma udp_table_cong: "udptab w' = udptab w \<Longrightarrow> udp_table_ok w' = udp_table_ok w"
  by (simp add: udp_table_ok_def udp_used_def)

text \<open>An entry in use may change its state and its queue.\<close>

lemma udp_table_upd:
  assumes ok: "udp_table_ok w" and u: "udp_used w i \<or> udstate e = UDP_FREE"
    and e: "udstate e = UDP_FREE \<or> udp_ring_ok e \<and> udp_key e = udp_key (udptab w i)"
    and t: "udptab w' = (udptab w)(i := e)"
  shows "udp_table_ok w'"
proof -
  have "udp_used w' j \<Longrightarrow> udp_used w j" for j
    using u by (auto simp: udp_used_def t split: if_splits)
  moreover have "udp_used w' j \<Longrightarrow> udp_key (udptab w' j) = udp_key (udptab w j)" for j
    using e by (auto simp: udp_used_def t split: if_splits)
  moreover have "udp_used w' i \<Longrightarrow> udp_ring_ok e" using e by (auto simp: udp_used_def t)
  ultimately show ?thesis using ok unfolding udp_table_ok_def t by (metis fun_upd_apply)
qed

lemma ring_ok_state [simp]: "udp_ring_ok (e\<lparr>udstate := st\<rparr>) = udp_ring_ok e" "udp_key (e\<lparr>udstate := st\<rparr>) = udp_key e"
  "udp_ring_ok (e\<lparr>udpid := p\<rparr>) = udp_ring_ok e" "udp_key (e\<lparr>udpid := p\<rparr>) = udp_key e"
  by (simp_all add: udp_ring_ok_def udp_key_def)

lemma udp_queue_fields [simp]:
  "udp_key (udp_enqueue a e) = udp_key e" "udstate (udp_enqueue a e) = udstate e" "udpid (udp_enqueue a e) = udpid e"
  "udp_key (udp_dequeue e) = udp_key e" "udstate (udp_dequeue e) = udstate e" "udpid (udp_dequeue e) = udpid e"
  by (simp_all add: udp_enqueue_def udp_dequeue_def Let_def udp_key_def)

lemma udp_enqueue_ok: "udp_ring_ok e \<Longrightarrow> udcount e < 8 \<Longrightarrow> udp_ring_ok (udp_enqueue a e)"
  using udp_ring.enq_contents [of e a] by (simp add: udp_packets_def udp_ring_ok_def)

lemma udp_dequeue_ok:
  assumes "udp_ring_ok e" "0 < udcount e"
  shows "udp_ring_ok (udp_dequeue e)"
proof -
  have "udp_packets e \<noteq> []"
    using assms by (simp add: udp_packets_def flip: length_greater_0_conv)
  then show ?thesis using udp_ring.deq_contents [OF assms(1)] by (cases "udp_packets e") auto
qed

subsection \<open>Registering\<close>

lemma int_range_Suc: "(\<exists>j. i \<le> j \<and> j < i + int (Suc n) \<and> P j) \<longleftrightarrow> P i \<or> (\<exists>j. i + 1 \<le> j \<and> j < i + 1 + int n \<and> P j)"
proof -
  have "i \<le> j \<and> j < i + int (Suc n) \<longleftrightarrow> j = i \<or> i + 1 \<le> j \<and> j < i + 1 + int n" for j by auto
  then show ?thesis by metis
qed

lemma udp_find_same_iff:
  "udp_find_same n i ip rp lp w \<longleftrightarrow>
     (\<exists>j. i \<le> j \<and> j < i + int n \<and> udstate (udptab w j) \<noteq> UDP_FREE \<and> udp_key (udptab w j) = (ip, rp, lp))"
  by (induction n arbitrary: i)
    (auto simp add: int_range_Suc simp del: of_nat_Suc, auto simp: udp_key_def Let_def)

lemma udp_find_free_cases:
  "0 \<le> i \<Longrightarrow>
     (udp_find_free n i w = SYSERR \<and> (\<forall>j. i \<le> j \<and> j < i + int n \<longrightarrow> udstate (udptab w j) \<noteq> UDP_FREE)) \<or>
     (i \<le> udp_find_free n i w \<and> udp_find_free n i w < i + int n \<and>
      udstate (udptab w (udp_find_free n i w)) = UDP_FREE \<and>
      (\<forall>j. i \<le> j \<and> j < udp_find_free n i w \<longrightarrow> udstate (udptab w j) \<noteq> UDP_FREE))"
proof (induction n arbitrary: i)
  case (Suc n)
  show ?case
  proof (cases "udstate (udptab w i) = UDP_FREE")
    case False
    have "i = j \<or> i + 1 \<le> j" if "i \<le> j" for j :: int using that by linarith
    with Suc.IH [of "i + 1"] Suc.prems False show ?thesis
      by (auto simp: algebra_simps)
  qed auto
qed auto

lemma udp_register_cases:
  obtains (dup) j where "udp_used w j" "udp_key (udptab w j) = (ip, rp, lp)" "udp_register ip rp lp w = (SYSERR, w)"
  | (full) "\<And>j. 0 \<le> j \<Longrightarrow> j < UDP_SLOTS \<Longrightarrow> udp_used w j" "udp_register ip rp lp w = (SYSERR, w)"
  | (new) slot w' where "udp_register ip rp lp w = (slot, w')" "0 \<le> slot" "slot < UDP_SLOTS" "\<not> udp_used w slot"
      "\<And>j. 0 \<le> j \<Longrightarrow> j < slot \<Longrightarrow> udp_used w j"
      "\<And>j. udp_used w j \<Longrightarrow> udp_key (udptab w j) \<noteq> (ip, rp, lp)"
      "w' = upd_udp slot (\<lambda>e. e\<lparr>udlocport := lp, udremport := rp, udremip := ip, udcount := 0,
               udhead := 0, udtail := 0, udpid := - 1, udstate := UDP_USED\<rparr>) w"
proof (cases "udp_find_same 6 0 ip rp lp w")
  case True
  then obtain j where "udp_used w j" "udp_key (udptab w j) = (ip, rp, lp)"
    by (auto simp: udp_find_same_iff udp_used_def)
  then show ?thesis using dup True by (simp add: udp_register_def)
next
  case False
  then have n: "udp_used w j \<Longrightarrow> udp_key (udptab w j) \<noteq> (ip, rp, lp)" for j
    by (auto simp: udp_find_same_iff udp_used_def)
  show ?thesis
  proof (cases "udp_find_free 6 0 w = SYSERR")
    case True
    then have "\<And>j. 0 \<le> j \<Longrightarrow> j < UDP_SLOTS \<Longrightarrow> udp_used w j"
      using udp_find_free_cases [of 0 6 w] by (auto simp: udp_used_def)
    then show ?thesis using full True False by (simp add: udp_register_def)
  next
    case nf: False
    show ?thesis
      by (rule new [OF _ _ _ _ _ n refl, of "udp_find_free 6 0 w"])
        (use nf False udp_find_free_cases [of 0 6 w] in \<open>auto simp: udp_register_def Let_def udp_used_def\<close>)
  qed
qed

lemma udp_register_ok:
  assumes ok: "udp_table_ok w"
  shows "udp_table_ok (snd (udp_register ip rp lp w))"
proof (cases rule: udp_register_cases [of w ip rp lp])
  case (new slot w')
  let ?e = "udptab w' slot"
  have k: "udp_key ?e = (ip, rp, lp)" "udp_ring_ok ?e" using new(7) by (simp_all add: udp_key_def udp_ring_ok_def)
  have u: "udp_used w' j \<longleftrightarrow> j = slot \<or> udp_used w j" "j \<noteq> slot \<Longrightarrow> udptab w' j = udptab w j" for j
    using new(2,3,7) by (auto simp: udp_used_def)
  show ?thesis
    unfolding new(1) snd_conv udp_table_ok_def u(1)
    using ok k u(2) new(4,6) unfolding udp_table_ok_def by metis
qed (use ok in simp_all)

subsection \<open>Arrivals, receiving and releasing\<close>

lemma udp_in_loop_ok:
  "udp_table_ok w \<Longrightarrow> 0 \<le> i \<Longrightarrow> i + int n \<le> UDP_SLOTS \<Longrightarrow> udp_in_loop n i a w = Some (d, w') \<Longrightarrow> udp_table_ok w'"
proof (induction n arbitrary: i)
  case (Suc n)
  let ?e = "udptab w i"
  let ?hit = "udstate ?e \<noteq> UDP_FREE \<and> udp_match ?e (pkts w a) \<and> udcount ?e < UDP_QSIZ"
  show ?case
  proof (cases ?hit)
    case True
    then have u: "udp_used w i" using Suc.prems by (simp add: udp_used_def)
    then have r: "udp_ring_ok (udp_enqueue a ?e)"
      using True Suc.prems(1) by (intro udp_enqueue_ok) (auto simp: udp_table_ok_def)
    have k: "udp_table_ok v" if "udptab v = (udptab w)(i := e)" "udp_ring_ok e" "udp_key e = udp_key ?e" for v e
      using udp_table_upd [OF Suc.prems(1) _ _ that(1)] that u by simp
    have "udptab w' = (udptab w)(i := udp_enqueue a ?e) \<or>
        udptab w' = (udptab w)(i := (udp_enqueue a ?e)\<lparr>udstate := UDP_USED\<rparr>)"
      using True Suc.prems(4)
      by (auto simp: Let_def split: Option.bind_splits if_splits dest!: net_send_udptab)
    then show ?thesis by (auto intro: k simp: r)
  next
    case False
    have "udp_in_loop n (i + 1) a w = Some (d, w')"
      using Suc.prems(4) by (simp only: udp_in_loop.simps if_not_P [OF False])
    from Suc.IH [OF Suc.prems(1) _ _ this] Suc.prems(2,3) show ?thesis by simp
  qed
qed simp

lemma udp_in_ok: "udp_table_ok w \<Longrightarrow> udp_in a w = Some w' \<Longrightarrow> udp_table_ok w'"
  using udp_in_loop_ok [of w 0 6]
  by (auto simp: udp_in_def udp_table_cong [OF net_freebuf_udptab] split: Option.bind_splits if_splits)

lemma udp_take_ok:
  assumes "udp_table_ok w" "udp_used w slot" "0 < udcount (udptab w slot)" "udp_take slot len w = Some (r, w')"
  shows "udp_table_ok w'"
proof -
  have "udp_ring_ok (udp_dequeue (udptab w slot))"
    using assms by (intro udp_dequeue_ok) (auto simp: udp_table_ok_def)
  moreover have "udptab w' = (udptab w)(slot := udp_dequeue (udptab w slot))"
    using assms(4) by (auto simp: udp_take_def Let_def split: Option.bind_splits dest!: net_freebuf_udptab)
  ultimately show ?thesis using assms by (intro udp_table_upd [OF assms(1)]) auto
qed

lemma udp_set_state_ok:
  assumes "udp_table_ok w" "udp_used w slot" "udptab w' = (udptab w)(slot := (udptab w slot)\<lparr>udstate := st, udpid := p\<rparr>)"
  shows "udp_table_ok w'"
  using assms by (intro udp_table_upd [OF assms(1) _ _ assms(3)]) (auto simp: udp_table_ok_def)

text \<open>\<open>recvtime\<close> right after \<open>recvclr\<close> answers at once only with \<open>SYSERR\<close> or \<open>TIMEOUT\<close>.\<close>

lemma resched_stays_proctab: "resched s = Some (False, s') \<Longrightarrow> proctab s' = proctab s"
  by (auto simp: resched_def Let_def split: if_splits Option.bind_splits)

lemma insertd_proctab: "insertd p q k s = Some (r, s') \<Longrightarrow> proctab s' = proctab s \<and> currpid s' = currpid s"
  by (auto simp: insertd_def split: option.splits)

lemma recvtime_no_message:
  assumes "recvtime t (snd (recvclr s)) = Some (Ret msg, s')"
  shows "msg = word_of_int SYSERR \<or> msg = word_of_int TIMEOUT"
proof -
  let ?s = "snd (recvclr s)"
  have n: "\<not> prhasmsg (proctab ?s (currpid ?s))" by (simp add: recvclr_def)
  show ?thesis
    using assms n
    by (auto simp: recvtime_def recvtime_resume_def Let_def set_prstate_def
        split: if_splits Option.bind_splits dest!: resched_stays_proctab insertd_proctab)
qed

lemma udp_recv_got_ok:
  assumes "udp_table_ok w" "udp_used w slot" "udp_recv_got msg slot len w = Some (r, w')"
    and "msg = word_of_int OK \<Longrightarrow> 0 < udcount (udptab w slot)"
  shows "udp_table_ok w'"
proof -
  let ?w = "upd_udp slot (\<lambda>e. e\<lparr>udstate := UDP_USED\<rparr>) w"
  have w: "udp_table_ok ?w" "udp_used ?w slot"
    using assms(1,2) by (auto intro: udp_set_state_ok [where p = "udpid (udptab w slot)"] simp: udp_used_def)
  show ?thesis
    using assms(3,4) w udp_take_ok [OF w, of len r w']
    by (auto simp: udp_recv_got_def Let_def split: if_splits)
qed

lemma udp_recv_ok:
  assumes ok: "udp_table_ok w" and r: "udp_recv slot len t w = Some (r, w')"
  shows "udp_table_ok w'"
proof (cases "0 \<le> slot \<and> slot < 6 \<and> udstate (udptab w slot) = UDP_USED")
  case True
  then have u: "udp_used w slot" by (simp add: udp_used_def)
  have c: "0 \<le> udcount (udptab w slot)" using ok u by (simp add: udp_table_ok_def udp_ring_ok_def)
  show ?thesis
  proof (cases "udcount (udptab w slot) = 0")
    case False
    then show ?thesis using r True c udp_take_ok [OF ok u] by (simp add: udp_recv_def)
  next
    case z: True
    let ?w = "upd_udp slot (\<lambda>e. e\<lparr>udstate := UDP_RECV, udpid := currpid (nk w)\<rparr>) w"
    have w: "udp_table_ok (?w\<lparr>nk := s\<rparr>)" "udp_used (?w\<lparr>nk := s\<rparr>) slot" for s
      using ok u by (auto intro: udp_set_state_ok simp: udp_used_def)
    obtain q s where q: "recvtime (sint t) (snd (recvclr (nk w))) = Some (q, s)"
      using r True z by (auto simp: udp_recv_def case_prod_beta' split: Option.bind_splits)
    show ?thesis
    proof (cases q)
      case (Ret msg)
      then have "msg \<noteq> word_of_int OK" using q recvtime_no_message [of "sint t" "nk w" msg s] by auto
      moreover have "udp_recv_got msg slot len (?w\<lparr>nk := s\<rparr>) = Some (r, w')"
        using r True z q Ret by (simp add: udp_recv_def case_prod_beta' Let_def)
      ultimately show ?thesis using udp_recv_got_ok [OF w(1) [of s] w(2) [of s], of msg len r w'] by simp
    next
      case (Switch pid)
      then have "w' = ?w\<lparr>nk := s\<rparr>" using r True z q by (simp add: udp_recv_def case_prod_beta' Let_def)
      then show ?thesis using w(1) by simp
    qed
  qed
qed (use r ok in \<open>auto simp: udp_recv_def split: if_splits\<close>)

subsection \<open>Releasing\<close>

text \<open>The loop of \<open>udp_release\<close> leaves the other entries alone.\<close>

lemma udp_release_loop_others:
  assumes r: "udp_release_loop slot w = Some w'" and j: "j \<noteq> slot"
  shows "udptab w' j = udptab w j"
proof -
  have "\<forall>j. j \<noteq> slot \<longrightarrow> udptab w' j = udptab w j"
    by (rule udp_release_loop.raw_induct [where P = "\<lambda>slot w w'. \<forall>j. j \<noteq> slot \<longrightarrow> udptab w' j = udptab w j", OF _ r])
      (auto simp: Let_def split: if_splits Option.bind_splits dest!: net_freebuf_udptab)
  with j show ?thesis by simp
qed

lemma udp_release_ok:
  assumes ok: "udp_table_ok w" and r: "udp_release slot w = Some (r, w')"
  shows "udp_table_ok w'"
proof (cases "0 \<le> slot \<and> slot < 6 \<and> udstate (udptab w slot) \<noteq> UDP_FREE")
  case True
  then obtain q s v where v: "udp_release_loop slot (w\<lparr>nk := s\<rparr>) = Some v"
    and w': "udptab w' = (udptab v)(slot := (udptab v slot)\<lparr>udstate := UDP_FREE\<rparr>)"
    using r by (auto simp: udp_release_def Let_def split: Option.bind_splits)
  have "udptab w' = (udptab w)(slot := (udptab v slot)\<lparr>udstate := UDP_FREE\<rparr>)"
    using w' udp_release_loop_others [OF v] by (auto simp: fun_eq_iff)
  then show ?thesis by (intro udp_table_upd [OF ok]) auto
qed (use r ok in \<open>auto simp: udp_release_def split: if_splits\<close>)

lemma udp_init_loop_tab:
  "udptab (udp_init_loop n w) i = (if 0 \<le> i \<and> i < int n then (udptab w i)\<lparr>udstate := UDP_FREE\<rparr> else udptab w i)"
  by (induction n) (auto simp: zless_nat_eq_int_zless)

lemma udp_init_ok: "udp_table_ok (udp_init w)"
  by (auto simp: udp_table_ok_def udp_used_def udp_init_def udp_init_loop_tab split: if_splits)

subsection \<open>Runs of UDP calls\<close>

text \<open>
  One call of a process or one arrival.  A receiver runs again while its endpoint is in use, and
  with the message \<open>OK\<close> only if a packet is waiting: that is so when the message comes from
  \<open>udp_in\<close>, but not when another process sends it.
\<close>

inductive udp_call :: "world \<Rightarrow> world \<Rightarrow> bool" where
  Register: "udp_register ip rp lp w = (slot, w') \<Longrightarrow> udp_call w w'"
| Arrive: "udp_in a w = Some w' \<Longrightarrow> udp_call w w'"
| Recv: "udp_recv slot len t w = Some (r, w') \<Longrightarrow> udp_call w w'"
| Resume: "udp_used w slot \<Longrightarrow> udp_recv_resume pid slot len w = Some (r, w') \<Longrightarrow>
    fst (recvtime_resume pid (nk w)) = word_of_int OK \<longrightarrow> 0 < udcount (udptab w slot) \<Longrightarrow> udp_call w w'"
| Release: "udp_release slot w = Some (r, w') \<Longrightarrow> udp_call w w'"

lemma udp_call_ok:
  assumes ok: "udp_table_ok w" and c: "udp_call w w'"
  shows "udp_table_ok w'"
  using c
proof cases
  case (Resume slot pid len r)
  obtain msg s where m: "recvtime_resume pid (nk w) = (msg, s)" by fastforce
  have "udp_table_ok (w\<lparr>nk := s\<rparr>)" "udp_used (w\<lparr>nk := s\<rparr>) slot"
    using ok Resume(1) udp_table_cong [of "w\<lparr>nk := s\<rparr>" w] by (simp_all add: udp_used_def)
  from udp_recv_got_ok [OF this, of msg len r w'] show "udp_table_ok w'"
    using Resume(2,3) m by (simp add: udp_recv_resume_def)
next
  case (Register ip rp lp slot)
  then show ?thesis using udp_register_ok [OF ok, of ip rp lp] by simp
qed (use ok in \<open>auto dest: udp_in_ok udp_recv_ok udp_release_ok\<close>)

interpretation udp_calls: transition_system udp_call udp_table_ok
  by unfold_locales (rule udp_call_ok)

end
