(* ===== verification/NetProps.thy ===== *)
theory NetProps
  imports Checksums UdpTable Scenario
begin

text \<open>
  Properties of the network code: checksums, a datagram's way from one host to another, the
  packet rings, the endpoint table of UDP, and address resolution.
\<close>

subsection \<open>A world for the witnesses\<close>

definition demo_packet :: netpacket where
  "demo_packet = \<lparr>net_ethdst = replicate 6 0xff, net_ethsrc = replicate 6 1, net_ethtype = 0x0800, net_ipvh = 0x45,
     net_iptos = 0, net_iplen = 32, net_ipid = 1, net_ipfrag = 0, net_ipttl = 0xff, net_ipproto = 17,
     net_ipcksum = 0, net_ipsrc = 0x0a000001, net_ipdst = 0x0a000002, net_body = (\<lambda>_. 0)\<rparr>"

definition demo_arp :: arppacket where
  "demo_arp = arp_hton \<lparr>arp_ethdst = replicate 6 1, arp_ethsrc = replicate 6 2, arp_ethtype = 0x0806, arp_htype = 1,
     arp_ptype = 0x0800, arp_hlen = 6, arp_plen = 4, arp_op = 2, arp_sndha = replicate 6 2, arp_sndpa = 0x0a000009,
     arp_tarha = replicate 6 1, arp_tarpa = 0x0a000002\<rparr>"

definition demo_world :: world where
  "demo_world = \<lparr>pkts = (\<lambda>_. ip_out_packet demo_packet), arps = (\<lambda>_. demo_arp),
     udptab = (\<lambda>_. \<lparr>udstate = UDP_FREE, udremip = 0, udremport = 0, udlocport = 0, udhead = 0, udtail = 0,
       udcount = 0, udpid = 0, udqueue = (\<lambda>_. 0)\<rparr>), udp_ident = 1, udp_ident_to = 1,
     icmptab = (\<lambda>_. \<lparr>icstate = ICMP_FREE, icremip = 0, ichead = 0, ictail = 0, iccount = 0, icpid = 0,
       icqueue = (\<lambda>_. 0)\<rparr>), icmp_ident = 32767,
     arpcache = (\<lambda>i. if i = 0 then \<lparr>arstate = AR_PENDING, arpaddr = 0x0a000009, arpid = 6, arhaddr = replicate 6 0\<rparr>
       else cleared), ipoqueue = \<lparr>iqhead = 0, iqtail = 0, iqsem = 0, iqbuf = (\<lambda>_. 0)\<rparr>, netbufpool = 0,
     NetData = \<lparr>ipucast = 0x0a000002, ipbcast = 0x0a0000ff, ipmask = 0xffffff00, ipprefix = 0x0a000000,
       iprouter = 0x0a000001, bootserver = 0, ipvalid = True, ethucast = replicate 6 1,
       ethbcast = replicate 6 0xff, bootfile = []\<rparr>,
     sent = [], eth_answers = [], nb = \<lparr>buftab = (\<lambda>_. \<lparr>bpnext = 0, bpsem = 0, bpsize = 0\<rparr>), nbpools = 0\<rparr>,
     nm = bare, nk = scene\<rparr>"

subsection \<open>Checksums\<close>

lemma ones_sum_fold_carry:
  assumes "0 < word_sum ws" "word_sum ws < 65535 * 65536"
  shows "ones_sum ws = (if fold_carry (word_sum ws) < 65536 then fold_carry (word_sum ws)
    else fold_carry (word_sum ws) - 65535)"
proof -
  obtain q r where qr: "word_sum ws = 65536 * q + r" "r < 65536" "q < 65535"
    using assms(2) by (intro that [of "word_sum ws div 65536" "word_sum ws mod 65536"]) auto
  have e: "word_sum ws - 1 = (q + r - 1) + q * 65535" using qr assms(1) by simp
  have m: "(word_sum ws - 1) mod 65535 = (q + r - 1) mod 65535" unfolding e by (rule mod_mult_self1)
  have t: "fold_carry (word_sum ws) = q + r" using qr by (simp add: fold_carry_def)
  have p: "0 < q + r" using qr assms(1) by simp
  have "(q + r - 1) mod 65535 = (if q + r < 65536 then q + r - 1 else q + r - 65536)"
    using qr by (auto simp: mod_if)
  then show ?thesis using assms(1) p unfolding ones_sum_word_sum m t by auto
qed

text \<open>C26. \<open>ipcksum\<close> against the one's-complement checksum: it is the complement of the one's-complement
  sum of the header, except that the carry out of the addition of the carries is lost; then the
  result is one too large, or 0 (which \<open>ip_in\<close> accepts) when that addition gives exactly 65536.\<close>

theorem ipcksum_adds_carry_once:
  "unat (ipcksum p) =
     (let s = word_sum (ip_words p) in
      if s = 0 then 0
      else if fold_carry s < 65536 then 65535 - ones_sum (ip_words p)
      else if fold_carry s = 65536 then 0
      else 65536 - ones_sum (ip_words p))"
proof -
  let ?s = "word_sum (ip_words p)" and ?t = "fold_carry (word_sum (ip_words p))"
  have b: "?s \<le> 655350" using word_sum_bound [of "ip_words p"] by simp
  show ?thesis
  proof (cases "?s = 0")
    case False
    then have o: "ones_sum (ip_words p) = (if ?t < 65536 then ?t else ?t - 65535)"
      using ones_sum_fold_carry [of "ip_words p"] b by simp
    have t: "0 < ?t" "?t < 131072" using False b by (auto simp: fold_carry_def intro!: gr0I)
    then show ?thesis using False by (auto simp: unat_ipcksum o Let_def mod_if)
  qed (simp add: unat_ipcksum fold_carry_def)
qed

subsection \<open>A datagram's way\<close>

lemma upd_pkt_upd_pkt: "upd_pkt a f (upd_pkt a g w) = upd_pkt a (\<lambda>p. f (g p)) w"
  by (simp add: upd_pkt_def)

lemma upd_pkt_simps [simp]: "pkts (upd_pkt a f w) a = f (pkts w a)" "NetData (upd_pkt a f w) = NetData w"
  "nk (upd_pkt a f w) = nk w"
  by (simp_all add: upd_pkt_def)

lemma order_fields:
  "ipcksum (eth_ntoh p) = ipcksum p" "net_ipvh (ip_ntoh p) = net_ipvh p" "net_ipproto (ip_ntoh p) = net_ipproto p"
  "net_ipvh (eth_ntoh p) = net_ipvh p" "net_ipproto (eth_ntoh p) = net_ipproto p"
  "net_ethtype (ip_ntoh p) = net_ethtype p" "net_ethtype (udp_ntoh p) = net_ethtype p"
  "net_ipvh (udp_ntoh p) = net_ipvh p" "net_ipproto (udp_ntoh p) = net_ipproto p" "net_ipdst (udp_ntoh p) = net_ipdst p"
  by (simp_all add: eth_ntoh_def ip_ntoh_def udp_ntoh_def swap16_def ipcksum_def ip_words_def)

text \<open>C14. A UDP datagram that one host hands to \<open>ip_out\<close> arrives at the process \<open>netin\<close> of the host it
  is addressed to exactly as it was built, apart from the two checksum fields: it passes the
  checksum and version tests, is converted back to host order and goes to \<open>udp_in\<close>.\<close>

theorem udp_datagram_arrives:
  assumes "pkts w a = ip_out_packet p" and "net_ethtype p = 0x0800" and "net_ipvh p = 0x45"
    and "net_ipproto p = 17" and "ipvalid (NetData w)" and "net_ipdst p = ipucast (NetData w)"
  shows "\<exists>c. netin a w =
    map_option (\<lambda>w'. (Ret (), w')) (udp_in a (upd_pkt a (\<lambda>_. (upd_body (set16 6 0) p)\<lparr>net_ipcksum := c\<rparr>) w))"
proof -
  obtain c where c: "to_host (ip_out_packet p) = (upd_body (set16 6 0) p)\<lparr>net_ipcksum := c\<rparr>"
    using to_host_udp [OF assms(4)] by blast
  let ?q = "(upd_body (set16 6 0) p)\<lparr>net_ipcksum := c\<rparr>"
  have pr: "net_ipproto (ip_out_packet p) = 17"
    using assms(4) by (simp add: ip_out_packet_def Let_def eth_hton_def ip_hton_def udp_hton_def swap16_def)
  have q: "udp_ntoh (ip_ntoh (eth_ntoh (ip_out_packet p))) = ?q"
    using c pr by (simp add: to_host_def order_fields Let_def)
  let ?r = "ip_ntoh (eth_ntoh (ip_out_packet p))"
  have f: "net_ethtype ?r = 0x0800" "net_ipvh ?r = 0x45" "net_ipproto ?r = 17" "net_ipdst ?r = net_ipdst p"
    using arg_cong [OF q, of net_ethtype] arg_cong [OF q, of net_ipvh] arg_cong [OF q, of net_ipproto]
      arg_cong [OF q, of net_ipdst] assms by (simp_all add: order_fields)
  let ?w = "upd_pkt a (\<lambda>_. ?q) w"
  have w: "upd_pkt a udp_ntoh (upd_pkt a ip_ntoh (upd_pkt a eth_ntoh w)) = ?w"
    using assms(1) q by (simp add: upd_pkt_upd_pkt) (simp add: upd_pkt_def)
  have loc: "ip_local a ?w = map_option (\<lambda>w'. (Ret OK, w')) (udp_in a ?w)"
    using assms(4) by (simp add: ip_local_def) (cases "udp_in a ?w"; simp)
  have "ip_in a (upd_pkt a eth_ntoh w) = ip_local a ?w"
    using f assms(1,5,6) w by (simp add: ip_in_def order_fields ip_out_packet_verifies Let_def)
  moreover have "net_ethtype (eth_ntoh (ip_out_packet p)) = 0x0800" using f(1) by (simp add: order_fields)
  ultimately have "netin a w = map_option (\<lambda>w'. (Ret (), w')) (udp_in a ?w)"
    using assms(1) loc by (simp add: netin_def) (cases "udp_in a ?w"; simp)
  then show ?thesis by blast
qed

lemma udp_datagram_arrives_witness:
  "\<exists>c. netin 4096 demo_world = map_option (\<lambda>w'. (Ret (), w'))
     (udp_in 4096 (upd_pkt 4096 (\<lambda>_. (upd_body (set16 6 0) demo_packet)\<lparr>net_ipcksum := c\<rparr>) demo_world))"
  by (rule udp_datagram_arrives) (simp_all add: demo_world_def demo_packet_def)

subsection \<open>The checksum of an ICMP message\<close>

text \<open>The checksum that \<open>ip_out\<close> writes into an ICMP message of even length passes the test of
  \<open>ip_in\<close> (and of every other receiver) exactly when adding the carries of its sum back in does
  not carry again; other messages are dropped on arrival.\<close>

theorem icmp_message_verifies_iff:
  assumes "net_ipproto p = 1" and "uint (net_iplen p) = 20 + 2 * int n" and "4 \<le> n"
  shows "icmp_cksum (net_body (ip_out_packet p)) (2 * int n) = 0 \<longleftrightarrow>
    fold_carry (word_sum (body_words (set16 2 0 (net_body (icmp_hton p))) 0 n)) < 65536"
proof -
  have a: "and 0xffff (w :: u16) = w" for w
    using take_bit_word_eq_self [of 16 w] by (simp add: take_bit_eq_mask mask_eq_exp_minus_1 and.commute)
  have n: "n \<le> 32768" using uint_range_size [of "net_iplen p"] assms(2) by (simp add: word_size)
  have l: "net_iplen (icmp_hton p) = net_iplen p" by (simp add: icmp_hton_def swap16_def)
  let ?f = "net_body (icmp_hton p)"
  have "net_body (ip_out_packet p) = set16 2 (htons (icmp_cksum (set16 2 0 ?f) (2 * int n))) ?f"
    using assms(1,2) by (simp add: ip_out_packet_def Let_def eth_hton_def ip_hton_def a l)
  then show ?thesis using icmp_cksum_written [of n ?f] assms(3) n by simp
qed

text \<open>An echo request with identifier 0xffff and sequence number 0xf800.\<close>

definition demo_ping :: netpacket where
  "demo_ping = demo_packet\<lparr>net_ipproto := 1, net_iplen := 28,
     net_body := set16 6 0xf800 (set16 4 0xffff (\<lambda>i. if i = 0 then 8 else 0))\<rparr>"

lemma four_body_words: "body_words f 0 4 = [get16 f 0, get16 f 2, get16 f 4, get16 f 6]"
  by (simp add: eval_nat_numeral)

lemma demo_ping_sum: "word_sum (body_words (set16 2 0 (net_body (icmp_hton demo_ping))) 0 4) = 131071"
proof -
  let ?f = "\<lambda>i. if i = (0 :: nat) then (8 :: u8) else 0"
  have g: "get16 ?f 0 = 8" "get16 ?f 2 = 0" by (simp_all add: get16_def)
  have "net_body (icmp_hton demo_ping) =
      set16 6 (htons 0xf800) (set16 4 (htons 0xffff) (set16 2 (htons 0) (set16 6 0xf800 (set16 4 0xffff ?f))))"
    by (simp add: demo_ping_def icmp_hton_def swap16_def g)
  then show ?thesis by (simp add: four_body_words g) (simp add: htons_def)
qed

lemma icmp_message_verifies_iff_witness: "icmp_cksum (net_body (ip_out_packet demo_ping)) 8 \<noteq> 0"
  using icmp_message_verifies_iff [of demo_ping 4]
  by (simp add: demo_ping_sum) (simp add: demo_ping_def fold_carry_def)

subsection \<open>Packet rings\<close>

text \<open>C20. The ring of a UDP endpoint is a queue of at most eight packets: whatever packets arrive and
  leave, those that leave, and those left in the ring, are the same as for a list with arrivals
  at its end and departures from its front, and the ring stays well formed.\<close>

theorem udp_queue_is_fifo:
  assumes "udp_ring_ok e"
  shows "\<exists>e'. ring_run 8 udcount udp_enqueue udp_first udp_dequeue ops e = (fst (fifo_run 8 ops (udp_packets e)), e') \<and>
    udp_ring_ok e' \<and> udp_packets e' = snd (fifo_run 8 ops (udp_packets e))"
  by (rule udp_ring.run_refines [OF assms])

lemma udp_queue_is_fifo_witness:
  "fst (ring_run 8 udcount udp_enqueue udp_first udp_dequeue [None, Some 12, None, None]
     (udptab demo_world 0\<lparr>udcount := 1, udhead := 7, udqueue := (\<lambda>_. 0)(7 := 9)\<rparr>)) = [9, 12]"
proof -
  let ?e = "udptab demo_world 0\<lparr>udcount := 1, udhead := 7, udqueue := (\<lambda>_. 0)(7 := 9 :: u32)\<rparr>"
  have "udp_ring_ok ?e" "udp_packets ?e = [9]"
    by (simp_all add: demo_world_def udp_ring_ok_def udp_packets_def ring_list_def)
  with udp_queue_is_fifo [of ?e "[None, Some 12, None, None]"] show ?thesis by (auto simp del: ring_run.simps)
qed

text \<open>C27. The ring of an ICMP entry breaks: head and tail start together, but the head wraps at 10
  (\<open>ICMP_SLOTS\<close>) and the tail at 8 (\<open>ICMP_QSIZ\<close>).  When nine replies arrive and each is received
  before the next comes, the ninth receive reads \<open>icqueue[8]\<close>, which is outside the array.\<close>

theorem icmp_ring_overruns:
  assumes "iccount e = 0" and "ichead e = 0" and "ictail e = 0" and "length as = 9"
  shows "fst (icmp_run (concat (map (\<lambda>a. [Some a, None]) as)) e) = take 8 as @ [icqueue e 8]"
  by (rule icmp_nine_rounds [OF assms])

lemma icmp_ring_overruns_witness:
  "fst (icmp_run (concat (map (\<lambda>a. [Some a, None]) [1, 2, 3, 4, 5, 6, 7, 8, 9])) (icmptab demo_world 0)) =
     take 8 [1, 2, 3, 4, 5, 6, 7, 8, 9] @ [0]"
  using icmp_ring_overruns [of "icmptab demo_world 0" "[1, 2, 3, 4, 5, 6, 7, 8, 9]"] by (simp add: demo_world_def)

subsection \<open>The endpoint table\<close>



subsection \<open>Address resolution\<close>










end
