(* ===== verification/VmState.thy ===== *)
theory VmState
  imports BufPool Messages
begin

text \<open>
  The state of demand paging (\<^verbatim>\<open>include/paging.h\<close>, \<^verbatim>\<open>include/page_server.h\<close>, \<^verbatim>\<open>include/lab3.h\<close>
  and the globals of \<^verbatim>\<open>system/initialize.c\<close>) and the page directory and page table entries.

  A page directory entry and a page table entry are 32-bit words of physical memory with the bit
  fields of \<open>pd_t\<close> and \<open>pt_t\<close>; a page is 1024 words of it.  The frames \<open>0 .. 49\<close> are the pages
  from page 1024 (4 MB) on.  The table of frames is linked into a list by \<open>fifo_prev\<close> and
  \<open>fifo_next\<close>, between the dummy entries \<open>FHead\<close> and \<open>FTail\<close>.

  The remote disk is outside the model: \<open>disk\<close> holds its blocks of 128 words, and the answers of its
  driver are the list \<open>disk_answers\<close> (\<open>OK\<close> when it is empty).

  \<open>None\<close> stands for a call that does not come back: \<open>panic\<close>, an access outside a table, or a loop
  that does not end.  A call that loses the processor gives \<open>Switch\<close> with the place; what it does when
  it runs again is not described here.
\<close>

unbundle bit_operations_syntax

abbreviation (input) NFRAMES :: nat where "NFRAMES \<equiv> 50"
abbreviation (input) PAGE_SIZE :: u32 where "PAGE_SIZE \<equiv> 4096"
abbreviation (input) MAX_ID :: int where "MAX_ID \<equiv> 7"
abbreviation (input) FIFO :: int where "FIFO \<equiv> 3"
abbreviation (input) GCA :: int where "GCA \<equiv> 4"
abbreviation (input) MAX_PAGES_PER_BS :: u32 where "MAX_PAGES_PER_BS \<equiv> 200"
abbreviation (input) RD_PAGES_PER_BS :: u32 where "RD_PAGES_PER_BS \<equiv> 205"

datatype frame_use = NULL_PAGE | PAGE_DIR | PAGE_TAB | PAGE

datatype fifo_ref = FNull | FHead | FTail | FEnt nat

record ivent =
  valid :: frame_use
  frame_number :: u32
  ivpid :: int
  vpage_num :: u32
  ref_count :: u32
  fifo_next :: fifo_ref
  fifo_prev :: fifo_ref

record bsent =
  ifMap :: bool
  bspid :: int
  num_pages :: u32
  start_vpn :: u32

record bs_entry =
  isopen :: bool
  isallocated :: bool
  usecount :: int
  npages :: u32

record frame_log =
  alloc_page_proc :: "int \<Rightarrow> int"
  alloc_page :: "int \<Rightarrow> u32"
  curframe :: int
  reclaimframe :: int

record vm =
  vk :: kstate
  vmm :: memory
  ivs :: "fifo_ref \<Rightarrow> ivent"
  fifo_hand :: fifo_ref
  bsmap :: "int \<Rightarrow> bsent"
  bstab :: "int \<Rightarrow> bs_entry"
  page_server_active :: bool
  bs_sem :: int
  bs_init_sem :: int
  get_frame_sem :: int
  pgf_frame_sem :: int
  currpolicy :: int
  num_fault :: u32
  frame_md :: frame_log
  disk :: "u32 \<Rightarrow> nat \<Rightarrow> u32"
  disk_answers :: "int list"
  vnodes :: "u32 \<Rightarrow> vmemblk"   \<comment> \<open>the \<open>vmemblk\<close> structures that \<open>vfreemem\<close> takes from the kernel heap\<close>
  junk :: "u32 \<times> u32"        \<comment> \<open>what is on the stack where \<open>bstore\<close> and \<open>p_offset\<close> are\<close>

subsection \<open>Calls that may lose the processor\<close>

datatype vpoint = AtSem int | AtSend | AtResched

type_synonym 'a vact = "vm \<Rightarrow> (('a, vpoint) outcome \<times> vm) option"

definition vwait :: "int \<Rightarrow> unit vact" where
  "vwait sem w =
     (case wait sem (vk w) of
        None \<Rightarrow> None
      | Some (Ret _, s) \<Rightarrow> Some (Ret (), w\<lparr>vk := s\<rparr>)
      | Some (Switch _, s) \<Rightarrow> Some (Switch (AtSem sem), w\<lparr>vk := s\<rparr>))"

definition vsignal :: "int \<Rightarrow> unit vact" where
  "vsignal sem w =
     (case signal sem (vk w) of
        None \<Rightarrow> None
      | Some (Ret _, s) \<Rightarrow> Some (Ret (), w\<lparr>vk := s\<rparr>)
      | Some (Switch _, s) \<Rightarrow> Some (Switch (AtSem sem), w\<lparr>vk := s\<rparr>))"

subsection \<open>Page directory and page table entries\<close>

definition pd_pres :: "u32 \<Rightarrow> bool" where "pd_pres e \<longleftrightarrow> bit e 0"
definition pd_base :: "u32 \<Rightarrow> u32" where "pd_base e = drop_bit 12 e"
definition pt_pres :: "u32 \<Rightarrow> bool" where "pt_pres e \<longleftrightarrow> bit e 0"
definition pt_acc :: "u32 \<Rightarrow> bool" where "pt_acc e \<longleftrightarrow> bit e 5"
definition pt_dirty :: "u32 \<Rightarrow> bool" where "pt_dirty e \<longleftrightarrow> bit e 6"
definition pt_base :: "u32 \<Rightarrow> u32" where "pt_base e = drop_bit 12 e"

text \<open>An entry that is present and writable, for page \<open>n\<close>; all other bits are zero.\<close>

definition pd_entry :: "u32 \<Rightarrow> u32" where "pd_entry n = or (push_bit 12 n) 3"

definition set_pd_t :: "u32 \<Rightarrow> u32 \<Rightarrow> memory \<Rightarrow> memory" where
  "set_pd_t pd page_number m = store_word pd (pd_entry page_number) m"

definition set_pt_t :: "u32 \<Rightarrow> u32 \<Rightarrow> memory \<Rightarrow> memory" where
  "set_pt_t pt page_number m = store_word pt (pd_entry page_number) m"

definition clear_pd :: "u32 \<Rightarrow> memory \<Rightarrow> memory" where "clear_pd pd m = store_word pd 0 m"
definition clear_pt :: "u32 \<Rightarrow> memory \<Rightarrow> memory" where "clear_pt pt m = store_word pt 0 m"

text \<open>\<open>pd_pres = 0\<close>, \<open>pt_acc = 0\<close> and the like on the entry at an address.\<close>

definition clear_bit_at :: "nat \<Rightarrow> u32 \<Rightarrow> memory \<Rightarrow> memory" where
  "clear_bit_at n a m = store_word a (unset_bit n (word_at m a)) m"

definition Cal_Addr :: "u64 \<Rightarrow> u32" where
  "Cal_Addr f = ucast ((f + 1024) * 4096)"

text \<open>The address of entry \<open>p\<close> of the directory of a process, and of entry \<open>q\<close> of the table it names.\<close>

definition pd_addr :: "int \<Rightarrow> u32 \<Rightarrow> vm \<Rightarrow> u32" where
  "pd_addr pid p w = ucast (PDBR (proctab (vk w) pid)) + 4 * p"

definition pt_addr :: "u32 \<Rightarrow> u32 \<Rightarrow> vm \<Rightarrow> u32" where
  "pt_addr pd q w = Cal_Addr (ucast (pd_base (word_at (vmm w) pd)) - 1024) + 4 * q"

text \<open>The index into \<open>ivptab\<close> of the table that a directory entry names: \<open>pd_base - 1024\<close>.\<close>

definition table_frame :: "u32 \<Rightarrow> vm \<Rightarrow> nat option" where
  "table_frame pd w =
     (let i = uint (pd_base (word_at (vmm w) pd)) - 1024
      in if 0 \<le> i \<and> i < int NFRAMES then Some (nat i) else None)"

definition set_iv :: "fifo_ref \<Rightarrow> (ivent \<Rightarrow> ivent) \<Rightarrow> vm \<Rightarrow> vm" where
  "set_iv r f w = w\<lparr>ivs := (ivs w)(r := f (ivs w r))\<rparr>"

definition upd_vmm :: "(memory \<Rightarrow> memory) \<Rightarrow> vm \<Rightarrow> vm" where
  "upd_vmm f w = w\<lparr>vmm := f (vmm w)\<rparr>"

lemma pd_base_entry: "n < 1048576 \<Longrightarrow> pd_base (pd_entry n) = n"
proof -
  assume n: "n < 1048576"
  have "unat (take_bit 20 n) = unat n" using n by (simp add: unsigned_take_bit_eq take_bit_nat_eq_self_iff word_less_nat_alt)
  then have "n = take_bit 20 n" by (simp add: word_unat_eq_iff)
  then have b: "bit n i \<Longrightarrow> i < 20" for i by (metis bit_take_bit_iff)
  have m: "bit (3 :: u32) i \<longleftrightarrow> i < 2" for i
  proof -
    have "(3 :: u32) = mask 2" by (simp add: mask_eq_exp_minus_1)
    then show ?thesis by (simp only: bit_mask_iff possible_bit_word) auto
  qed
  show ?thesis
    unfolding pd_base_def pd_entry_def
    by (rule bit_word_eqI) (auto simp: bit_drop_bit_eq bit_or_iff bit_push_bit_iff m dest: b)
qed

lemma pd_pres_entry: "pd_pres (pd_entry n)"
  by (simp add: pd_pres_def pd_entry_def bit_or_iff)

end
