(* ===== verification/BackStore.thy ===== *)
theory BackStore
  imports VmState
begin

text \<open>
  The backing stores: \<^verbatim>\<open>paging/*.c\<close>.  Store \<open>i\<close> has the disk blocks from \<open>i * 205 * 8\<close> on, eight
  for each page.  Opening the disk (\<open>open(WRDISK, ...)\<close> in \<open>psinit\<close>) gives the next of
  \<open>disk_answers\<close>, as reading and writing do.
\<close>

definition disk_answer :: "vm \<Rightarrow> int \<times> vm" where
  "disk_answer w = (case disk_answers w of [] \<Rightarrow> (OK, w) | r # rs \<Rightarrow> (r, w\<lparr>disk_answers := rs\<rparr>))"

definition upd_bs :: "int \<Rightarrow> (bs_entry \<Rightarrow> bs_entry) \<Rightarrow> vm \<Rightarrow> vm" where
  "upd_bs i f w = w\<lparr>bstab := (bstab w)(i := f (bstab w i))\<rparr>"

subsection \<open>The table of stores\<close>

fun psinit_loop :: "nat \<Rightarrow> vm \<Rightarrow> vm" where
  "psinit_loop 0 w = w"
| "psinit_loop (Suc n) w =
     upd_bs (int n) (\<lambda>_. \<lparr>isopen = False, isallocated = False, usecount = 0, npages = 0\<rparr>) (psinit_loop n w)"

definition psinit :: "int vact" where
  "psinit w0 =
     andthen (vwait (bs_init_sem w0)) (\<lambda>_ w.
       if page_server_active w then Some (Ret OK, w)
       else
         let (r, w) = disk_answer w in
         if r = SYSERR then None
         else
           let (sem, s) = semcreate 1 (vk w); w = w\<lparr>bs_sem := sem, vk := s\<rparr> in
           if sem = SYSERR then None
           else
             let w = (psinit_loop 8 w)\<lparr>page_server_active := True\<rparr>
             in andthen (vsignal (bs_init_sem w)) (\<lambda>_. give OK) w) w0"

text \<open>\<open>get_bs\<close> and \<open>allocate_bs\<close> start the page server when it is not active.\<close>

definition page_server_up :: "unit vact" where
  "page_server_up w = (if page_server_active w then Some (Ret (), w) else andthen psinit (\<lambda>_. give ()) w)"

definition get_bs :: "int \<Rightarrow> u32 \<Rightarrow> int vact" where
  "get_bs bs_id n =
     andthen page_server_up (\<lambda>_ w.
       if bs_id > MAX_ID \<or> bs_id < 0 \<or> n = 0 \<or> n > MAX_PAGES_PER_BS then Some (Ret SYSERR, w)
       else
         andthen (vwait (bs_sem w)) (\<lambda>_ w.
           if isopen (bstab w bs_id) then andthen (vsignal (bs_sem w)) (\<lambda>_. give SYSERR) w
           else
             let w = upd_bs bs_id (\<lambda>e. e\<lparr>isopen := True, npages := n\<rparr>) w
             in andthen (vsignal (bs_sem w)) (\<lambda>_. give (sint n)) w) w)"

fun allocate_bs_loop :: "nat \<Rightarrow> int \<Rightarrow> u32 \<Rightarrow> int vact" where
  "allocate_bs_loop 0 i n w = Some (Ret SYSERR, w)"
| "allocate_bs_loop (Suc k) i n w =
     (if \<not> isallocated (bstab w i) then
        andthen (get_bs i n) (\<lambda>r w.
          if r = SYSERR then allocate_bs_loop k (i + 1) n w
          else Some (Ret i, upd_bs i (\<lambda>e. e\<lparr>isallocated := True, usecount := 0\<rparr>) w)) w
      else allocate_bs_loop k (i + 1) n w)"

definition allocate_bs :: "u32 \<Rightarrow> int vact" where
  "allocate_bs n = andthen page_server_up (\<lambda>_. allocate_bs_loop 8 0 n)"

definition release_bs :: "int \<Rightarrow> int vact" where
  "release_bs bs_id w0 =
     (if \<not> page_server_active w0 then Some (Ret SYSERR, w0)
      else
        andthen (vwait (bs_sem w0)) (\<lambda>_ w.
          if bs_id > MAX_ID \<or> bs_id < 0 \<or> \<not> isopen (bstab w bs_id) then
            andthen (vsignal (bs_sem w)) (\<lambda>_. give SYSERR) w
          else
            let w = upd_bs bs_id (\<lambda>e. e\<lparr>isopen := False, npages := 0\<rparr>) w
            in andthen (vsignal (bs_sem w)) (\<lambda>_. give OK) w) w0)"

definition deallocate_bs :: "int \<Rightarrow> int vact" where
  "deallocate_bs store w =
     (if store > MAX_ID \<or> store < 0 then Some (Ret SYSERR, w)
      else if \<not> isallocated (bstab w store) then Some (Ret SYSERR, w)
      else if usecount (bstab w store) > 0 then Some (Ret SYSERR, w)
      else
        andthen (release_bs store) (\<lambda>_ w.
          Some (Ret store, upd_bs store (\<lambda>e. e\<lparr>isallocated := False, usecount := 0\<rparr>) w)) w)"

definition open_bs :: "int \<Rightarrow> int vact" where
  "open_bs store w0 =
     (if store > MAX_ID \<or> store < 0 then Some (Ret SYSERR, w0)
      else
        andthen (vwait (bs_sem w0)) (\<lambda>_ w.
          if \<not> isallocated (bstab w store) then andthen (vsignal (bs_sem w)) (\<lambda>_. give SYSERR) w
          else
            let w = upd_bs store (\<lambda>e. e\<lparr>usecount := wrap32 (usecount e + 1)\<rparr>) w
            in andthen (vsignal (bs_sem w)) (\<lambda>_. give store) w) w0)"

definition close_bs :: "int \<Rightarrow> int vact" where
  "close_bs store w0 =
     (if store > MAX_ID \<or> store < 0 then Some (Ret SYSERR, w0)
      else
        andthen (vwait (bs_sem w0)) (\<lambda>_ w.
          if \<not> isallocated (bstab w store) then andthen (vsignal (bs_sem w)) (\<lambda>_. give SYSERR) w
          else
            let w = upd_bs store (\<lambda>e. e\<lparr>usecount := wrap32 (usecount e - 1)\<rparr>) w
            in andthen (vsignal (bs_sem w)) (\<lambda>_. give store) w) w0)"

fun count_bs_loop :: "nat \<Rightarrow> vm \<Rightarrow> int" where
  "count_bs_loop 0 w = 0"
| "count_bs_loop (Suc n) w = count_bs_loop n w + (if isallocated (bstab w (int n)) then 0 else 1)"

definition count_bs :: "vm \<Rightarrow> int" where "count_bs w = count_bs_loop 8 w"

subsection \<open>Pages to and from the disk\<close>

text \<open>The block that the \<open>i\<close>-th eighth of a page is in (\<open>rd_blk + i\<close>).\<close>

definition rd_blk :: "int \<Rightarrow> u32 \<Rightarrow> u32" where
  "rd_blk bs_id page = (word_of_int bs_id * RD_PAGES_PER_BS + page) * 8"

definition load_block :: "u32 \<Rightarrow> (nat \<Rightarrow> u32) \<Rightarrow> memory \<Rightarrow> memory" where
  "load_block dst blk m =
     m\<lparr>word_at := (\<lambda>a. if unat (a - dst) < 512 \<and> 4 dvd unat (a - dst) then blk (unat (a - dst) div 4) else word_at m a)\<rparr>"

definition block_of :: "u32 \<Rightarrow> memory \<Rightarrow> nat \<Rightarrow> u32" where
  "block_of src m j = (if j < 128 then word_at m (src + 4 * of_nat j) else 0)"

fun read_blocks :: "nat \<Rightarrow> u32 \<Rightarrow> u32 \<Rightarrow> vm \<Rightarrow> vm option" where
  "read_blocks 0 dst b w = Some w"
| "read_blocks (Suc n) dst b w =
     (let (r, w) = disk_answer w in
      if r = SYSERR then None
      else read_blocks n (dst + 512) (b + 1) (upd_vmm (load_block dst (disk w b)) w))"

fun write_blocks :: "nat \<Rightarrow> u32 \<Rightarrow> u32 \<Rightarrow> vm \<Rightarrow> vm option" where
  "write_blocks 0 src b w = Some w"
| "write_blocks (Suc n) src b w =
     (let w = w\<lparr>disk := (disk w)(b := block_of src (vmm w))\<rparr>; (r, w) = disk_answer w in
      if r = SYSERR then None
      else write_blocks n (src + 512) (b + 1) w)"

definition read_bs :: "u32 \<Rightarrow> int \<Rightarrow> u32 \<Rightarrow> int vact" where
  "read_bs dst bs_id page w0 =
     (if \<not> page_server_active w0 then Some (Ret SYSERR, w0)
      else if bs_id > MAX_ID \<or> bs_id < 0 then Some (Ret SYSERR, w0)
      else
        andthen (vwait (bs_sem w0)) (\<lambda>_ w.
          if \<not> isopen (bstab w bs_id) \<or> npages (bstab w bs_id) \<le> page then
            andthen (vsignal (bs_sem w)) (\<lambda>_. give SYSERR) w
          else
            andthen (vsignal (bs_sem w)) (\<lambda>_ w.
              case read_blocks 8 dst (rd_blk bs_id page) w of None \<Rightarrow> None | Some w \<Rightarrow> Some (Ret OK, w)) w) w0)"

definition write_bs :: "u32 \<Rightarrow> int \<Rightarrow> u32 \<Rightarrow> int vact" where
  "write_bs src bs_id page w0 =
     (if \<not> page_server_active w0 then Some (Ret SYSERR, w0)
      else if bs_id > MAX_ID \<or> bs_id < 0 then Some (Ret SYSERR, w0)
      else
        andthen (vwait (bs_sem w0)) (\<lambda>_ w.
          if \<not> isopen (bstab w bs_id) \<or> page \<ge> npages (bstab w bs_id) then
            andthen (vsignal (bs_sem w)) (\<lambda>_. give SYSERR) w
          else
            andthen (vsignal (bs_sem w)) (\<lambda>_ w.
              case write_blocks 8 src (rd_blk bs_id page) w of None \<Rightarrow> None | Some w \<Rightarrow> Some (Ret OK, w)) w) w0)"

end
