(* ===== verification/Frames.thy ===== *)
theory Frames
  imports BackStore
begin

text \<open>
  Frames: the table \<open>ivptab\<close>, the map from pages to backing stores, and the page replacement of
  \<open>get_free_frame_number\<close> (\<^verbatim>\<open>system/initialize.c\<close>), with the checks of \<^verbatim>\<open>system/hooks.c\<close>.
\<close>

subsection \<open>The tables\<close>

fun reset_ivtentry_loop :: "nat \<Rightarrow> vm \<Rightarrow> vm" where
  "reset_ivtentry_loop 0 w = w"
| "reset_ivtentry_loop (Suc n) w =
     set_iv (FEnt n) (\<lambda>_. \<lparr>valid = NULL_PAGE, frame_number = of_nat n, ivpid = 0, vpage_num = 0, ref_count = 0,
       fifo_next = FNull, fifo_prev = FNull\<rparr>) (reset_ivtentry_loop n w)"

definition reset_ivtentry :: "vm \<Rightarrow> vm" where
  "reset_ivtentry w = reset_ivtentry_loop NFRAMES w"

definition set_ivtentry_pd_pt :: "nat \<Rightarrow> int \<Rightarrow> frame_use \<Rightarrow> vm \<Rightarrow> vm" where
  "set_ivtentry_pd_pt i pid type w =
     set_iv (FEnt i) (\<lambda>e. e\<lparr>valid := type, frame_number := of_nat i, ivpid := pid\<rparr>) w"

definition upd_map :: "int \<Rightarrow> (bsent \<Rightarrow> bsent) \<Rightarrow> vm \<Rightarrow> vm" where
  "upd_map i f w = w\<lparr>bsmap := (bsmap w)(i := f (bsmap w i))\<rparr>"

abbreviation (input) no_map :: bsent where "no_map \<equiv> \<lparr>ifMap = False, bspid = 0, num_pages = 0, start_vpn = 0\<rparr>"

fun reset_BSmapTab_loop :: "nat \<Rightarrow> vm \<Rightarrow> vm" where
  "reset_BSmapTab_loop 0 w = w"
| "reset_BSmapTab_loop (Suc n) w = upd_map (int n) (\<lambda>_. no_map) (reset_BSmapTab_loop n w)"

definition reset_BSmapTab :: "vm \<Rightarrow> vm" where
  "reset_BSmapTab w = reset_BSmapTab_loop 8 w"

text \<open>
  The result of \<open>allocate_bs\<close> is used as an index without a test: \<open>SYSERR\<close> is index \<open>- 1\<close>.
\<close>

definition bs_mapping :: "int \<Rightarrow> u32 \<Rightarrow> u32 \<Rightarrow> bool vact" where
  "bs_mapping pid n vpn w =
     (if n = 0 then Some (Ret True, w)
      else
        andthen (allocate_bs n) (\<lambda>store w.
          if \<not> ifMap (bsmap w store) then
            Some (Ret True, upd_map store (\<lambda>_. \<lparr>ifMap = True, bspid = pid, num_pages = n, start_vpn = vpn + 4096\<rparr>) w)
          else Some (Ret False, w)) w)"

text \<open>The out parameters keep the values they had when there is no such mapping.\<close>

fun get_store_offset_loop :: "nat \<Rightarrow> int \<Rightarrow> int \<Rightarrow> u32 \<Rightarrow> u32 \<times> u32 \<Rightarrow> vm \<Rightarrow> u32 \<times> u32" where
  "get_store_offset_loop 0 i pid vpn out w = out"
| "get_store_offset_loop (Suc n) i pid vpn out w =
     (let e = bsmap w i in
      if pid = bspid e \<and> vpn \<ge> start_vpn e \<and> vpn - start_vpn e < num_pages e
      then (word_of_int i, vpn - start_vpn e)
      else get_store_offset_loop n (i + 1) pid vpn out w)"

definition get_store_offset :: "int \<Rightarrow> u32 \<Rightarrow> u32 \<times> u32 \<Rightarrow> vm \<Rightarrow> u32 \<times> u32" where
  "get_store_offset pid va out w = get_store_offset_loop 8 0 pid (drop_bit 12 va) out w"

definition srpolicy :: "int \<Rightarrow> vm \<Rightarrow> int \<times> vm" where
  "srpolicy policy w =
     (if policy = FIFO then (OK, w\<lparr>currpolicy := FIFO\<rparr>)
      else if policy = GCA then (OK, w\<lparr>currpolicy := GCA\<rparr>)
      else (SYSERR, w))"

definition get_faults :: "vm \<Rightarrow> u32" where "get_faults w = num_fault w"

subsection \<open>The hooks\<close>

definition hook_pfault :: "int \<Rightarrow> u32 \<Rightarrow> vm \<Rightarrow> vm option" where
  "hook_pfault procid pagenum w =
     (if isbadpid (vk w) (currpid (vk w)) then None
      else
        let d = frame_md w; cf = curframe d;
            d = d\<lparr>alloc_page_proc := (alloc_page_proc d)(cf := procid), alloc_page := (alloc_page d)(cf := pagenum),
                  curframe := cf + 1\<rparr>;
            d = (if curframe d = int NFRAMES then d\<lparr>curframe := 0\<rparr> else d)
        in Some (w\<lparr>frame_md := d\<rparr>))"

definition hook_pswap_out :: "int \<Rightarrow> u32 \<Rightarrow> vm \<Rightarrow> vm option" where
  "hook_pswap_out procid pagenum w =
     (if isbadpid (vk w) (currpid (vk w)) then None
      else if currpolicy w = FIFO then
        let d = frame_md w; recf = reclaimframe d in
        if alloc_page d recf \<noteq> pagenum \<or> procid \<noteq> alloc_page_proc d recf then None
        else
          let d = d\<lparr>reclaimframe := recf + 1\<rparr>;
              d = (if reclaimframe d = int NFRAMES then d\<lparr>reclaimframe := 0\<rparr> else d)
          in Some (w\<lparr>frame_md := d\<rparr>)
      else Some w)"

subsection \<open>The list of pages\<close>

text \<open>\<open>fifo_push i\<close>: frame \<open>i\<close> becomes the newest.  \<open>fifo_unlink i\<close>: it leaves the list.\<close>

definition fifo_push :: "nat \<Rightarrow> vm \<Rightarrow> vm" where
  "fifo_push i w =
     (let w = set_iv (FEnt i) (\<lambda>e. e\<lparr>fifo_prev := FTail\<rparr>) w;
          w = set_iv (FEnt i) (\<lambda>e. e\<lparr>fifo_next := fifo_next (ivs w FTail)\<rparr>) w;
          w = set_iv (fifo_next (ivs w (FEnt i))) (\<lambda>e. e\<lparr>fifo_prev := FEnt i\<rparr>) w
      in set_iv FTail (\<lambda>e. e\<lparr>fifo_next := FEnt i\<rparr>) w)"

definition fifo_unlink :: "nat \<Rightarrow> vm \<Rightarrow> vm" where
  "fifo_unlink i w =
     (let w = set_iv (fifo_prev (ivs w (FEnt i))) (\<lambda>e. e\<lparr>fifo_next := fifo_next (ivs w (FEnt i))\<rparr>) w;
          w = set_iv (fifo_next (ivs w (FEnt i))) (\<lambda>e. e\<lparr>fifo_prev := fifo_prev (ivs w (FEnt i))\<rparr>) w;
          w = set_iv (FEnt i) (\<lambda>e. e\<lparr>fifo_next := FNull\<rparr>) w
      in set_iv (FEnt i) (\<lambda>e. e\<lparr>fifo_prev := FNull\<rparr>) w)"

subsection \<open>Choosing a frame\<close>

fun free_frame :: "nat \<Rightarrow> nat \<Rightarrow> vm \<Rightarrow> nat option" where
  "free_frame 0 i w = None"
| "free_frame (Suc n) i w = (if valid (ivs w (FEnt i)) = NULL_PAGE then Some i else free_frame n (i + 1) w)"

text \<open>The frame gets its new use.\<close>

definition take_frame :: "nat \<Rightarrow> int \<Rightarrow> u32 \<Rightarrow> frame_use \<Rightarrow> vm \<Rightarrow> vm" where
  "take_frame i pid vpn purpose w =
     (let w = set_iv (FEnt i) (\<lambda>e. e\<lparr>valid := purpose, ivpid := pid\<rparr>) w in
      if purpose = PAGE then fifo_push i (set_iv (FEnt i) (\<lambda>e. e\<lparr>vpage_num := vpn\<rparr>) w) else w)"

text \<open>FIFO: the oldest page.  The dummy at the tail has number \<open>- 1\<close>: no page is left, out of the table.\<close>

definition fifo_victim :: "vm \<Rightarrow> (nat \<times> vm) option" where
  "fifo_victim w =
     (let i = unat (frame_number (ivs w (fifo_prev (ivs w FHead)))) in
      if i \<ge> NFRAMES \<or> valid (ivs w (FEnt i)) \<noteq> PAGE then None
      else Some (i, fifo_unlink i w))"

text \<open>GCA: the hand goes round, from the oldest to the newest, and clears the bits of used pages.\<close>

definition hand_pt :: "vm \<Rightarrow> u32" where
  "hand_pt w =
     (let e = ivs w (fifo_hand w); va = vpage_num e * PAGE_SIZE
      in pt_addr (pd_addr (ivpid e) (drop_bit 22 va) w) (and (drop_bit 12 va) 0x3ff) w)"

definition hand_on :: "vm \<Rightarrow> vm" where
  "hand_on w = w\<lparr>fifo_hand := fifo_prev (ivs w (fifo_hand w))\<rparr>"

partial_function (option) gca_scan :: "vm \<Rightarrow> (u32 \<times> vm) option" where
  "gca_scan w =
     (if fifo_hand w = FTail then None
      else
        let w = (if fifo_hand w = FHead then w\<lparr>fifo_hand := fifo_prev (ivs w FHead)\<rparr> else w);
            a = hand_pt w; e = word_at (vmm w) a in
        if \<not> pt_acc e \<and> \<not> pt_dirty e then Some (frame_number (ivs w (fifo_hand w)), hand_on w)
        else if \<not> pt_acc e then None
        else
          let w = hand_on (upd_vmm (clear_bit_at (if pt_dirty e then 6 else 5) a) w)
          in gca_scan (if fifo_hand w = FTail then w\<lparr>fifo_hand := fifo_prev (ivs w FHead)\<rparr> else w))"

definition gca_victim :: "vm \<Rightarrow> (nat \<times> vm) option" where
  "gca_victim w = do {
     (r, w) \<leftarrow> gca_scan w;
     if unat r \<ge> NFRAMES then None else Some (unat r, fifo_unlink (unat r) w)
   }"

subsection \<open>Replacement\<close>

text \<open>The page in frame \<open>i\<close> is written to its backing store and taken out of its page table.\<close>

definition drop_page :: "nat \<Rightarrow> vm \<Rightarrow> vm option" where
  "drop_page i w =
     (let e = ivs w (FEnt i); va = vpage_num e * PAGE_SIZE;
          pd = pd_addr (ivpid e) (drop_bit 22 va) w;
          pt = pt_addr pd (and (drop_bit 12 va) 0x3ff) w;
          w = upd_vmm (clear_bit_at 0 pt) w
      in case table_frame pd w of
           None \<Rightarrow> None
         | Some t \<Rightarrow>
             if valid (ivs w (FEnt t)) \<noteq> PAGE_TAB then None
             else
               let w = set_iv (FEnt t) (\<lambda>e. e\<lparr>ref_count := ref_count e - 1\<rparr>) w in
               if ref_count (ivs w (FEnt t)) = 0 then
                 Some (set_iv (FEnt t) (\<lambda>e. e\<lparr>valid := NULL_PAGE\<rparr>) (upd_vmm (clear_bit_at 0 pd) w))
               else Some w)"

definition write_page_back :: "nat \<Rightarrow> int vact" where
  "write_page_back i w =
     (let e = ivs w (FEnt i);
          (bstore, p_offset) = get_store_offset (ivpid e) (vpage_num e * PAGE_SIZE) (junk w) w
      in write_bs ((of_nat i + 1024) * PAGE_SIZE) (sint bstore) p_offset w)"

definition evict :: "nat \<Rightarrow> int \<Rightarrow> u32 \<Rightarrow> frame_use \<Rightarrow> nat vact" where
  "evict i pid vpn purpose =
     andthen (write_page_back i) (\<lambda>r w.
       if r = SYSERR then None
       else
         let old_pid = ivpid (ivs w (FEnt i)); old_pagenum = vpage_num (ivs w (FEnt i)) in
         case drop_page i w of
           None \<Rightarrow> None
         | Some w \<Rightarrow>
             case hook_pswap_out old_pid old_pagenum (take_frame i pid vpn purpose w) of
               None \<Rightarrow> None
             | Some w \<Rightarrow> andthen (vsignal (get_frame_sem w)) (\<lambda>_. give i) w)"

definition get_free_frame_number :: "int \<Rightarrow> u32 \<Rightarrow> frame_use \<Rightarrow> nat vact" where
  "get_free_frame_number pid vpn purpose w0 =
     andthen (vwait (get_frame_sem w0)) (\<lambda>_ w.
       case free_frame NFRAMES 0 w of
         Some i \<Rightarrow>
           let w = take_frame i pid vpn purpose w
           in andthen (vsignal (get_frame_sem w)) (\<lambda>_. give i) w
       | None \<Rightarrow>
           if fifo_prev (ivs w FHead) = FNull then None
           else
             case (if currpolicy w = FIFO then fifo_victim w
                   else if currpolicy w = GCA then gca_victim w else None) of
               None \<Rightarrow> None
             | Some (i, w) \<Rightarrow> evict i pid vpn purpose w) w0"

subsection \<open>Releasing the frames of a process\<close>

text \<open>One turn of the frame loop of \<open>kill\<close>.\<close>

definition kill_frame :: "int \<Rightarrow> nat \<Rightarrow> unit vact" where
  "kill_frame pid i w0 =
     (let e = ivs w0 (FEnt i) in
      if ivpid e \<noteq> pid then Some (Ret (), w0)
      else
        andthen
          (if valid e = PAGE then
             andthen (\<lambda>w.
                 let (bstore, p_offset) = get_store_offset pid (push_bit 12 (vpage_num e)) (junk w) w
                 in write_bs ((of_nat i + 1024) * PAGE_SIZE) (sint bstore) p_offset w)
               (\<lambda>r w. if r = SYSERR then None else Some (Ret (), fifo_unlink i w))
           else give ())
          (\<lambda>_ w. Some (Ret (), set_iv (FEnt i)
             (\<lambda>e. e\<lparr>valid := NULL_PAGE, frame_number := of_nat i, ivpid := 0, vpage_num := 0, ref_count := 0\<rparr>) w)) w0)"

fun kill_frames :: "nat \<Rightarrow> nat \<Rightarrow> int \<Rightarrow> unit vact" where
  "kill_frames 0 i pid w = Some (Ret (), w)"
| "kill_frames (Suc n) i pid w = andthen (kill_frame pid i) (\<lambda>_. kill_frames n (i + 1) pid) w"

fun kill_stores :: "nat \<Rightarrow> int \<Rightarrow> int \<Rightarrow> unit vact" where
  "kill_stores 0 i pid w = Some (Ret (), w)"
| "kill_stores (Suc n) i pid w =
     (if bspid (bsmap w i) = pid
      then andthen (deallocate_bs i) (\<lambda>_ w. kill_stores n (i + 1) pid (upd_map i (\<lambda>_. no_map) w)) w
      else kill_stores n (i + 1) pid w)"

end
