(* ===== verification/PageFault.thy ===== *)
theory PageFault
  imports Frames
begin

text \<open>
  The page fault handler \<open>myPageFault\<close> with \<open>create_pagetable\<close>, and \<open>initialize_paging\<close>
  (\<^verbatim>\<open>system/initialize.c\<close>).  The translation buffer of the processor (\<open>invlpg\<close>) and the
  installation of the interrupt vector are left out.
\<close>

text \<open>1024 entries from an address on are marked not present (\<open>keep\<close>: only that bit changes).\<close>

fun not_present_loop :: "nat \<Rightarrow> u32 \<Rightarrow> memory \<Rightarrow> memory" where
  "not_present_loop 0 a m = m"
| "not_present_loop (Suc n) a m = not_present_loop n (a + 4) (clear_bit_at 0 a m)"

fun empty_table_loop :: "nat \<Rightarrow> u32 \<Rightarrow> memory \<Rightarrow> memory" where
  "empty_table_loop 0 a m = m"
| "empty_table_loop (Suc n) a m = empty_table_loop n (a + 4) (clear_bit_at 0 a (set_pt_t a 0 m))"

fun map_pages_loop :: "nat \<Rightarrow> u32 \<Rightarrow> u32 \<Rightarrow> memory \<Rightarrow> memory" where
  "map_pages_loop 0 a n m = m"
| "map_pages_loop (Suc k) a n m = map_pages_loop k (a + 4) (n + 1) (set_pt_t a n m)"

definition create_pagetable :: "u32 \<Rightarrow> unit vact" where
  "create_pagetable pd w0 =
     andthen (get_free_frame_number (currpid (vk w0)) 0 PAGE_TAB) (\<lambda>f w.
       let w = upd_vmm (set_pd_t pd (of_nat f + 1024)) w
       in Some (Ret (), upd_vmm (empty_table_loop 1024 (Cal_Addr (of_nat f))) w)) w0"

text \<open>The handler once it knows the page and its directory entry, with the page table in place.\<close>

definition fault_in :: "u32 \<Rightarrow> u32 \<Rightarrow> u32 \<Rightarrow> unit vact" where
  "fault_in va v_pn curr_pd w0 =
     (let pid = currpid (vk w0);
          curr_pt = pt_addr curr_pd (and v_pn 0x3ff) w0;
          (bstore, p_offset) = get_store_offset pid va (junk w0) w0
      in andthen (get_free_frame_number pid v_pn PAGE) (\<lambda>f.
           andthen (read_bs ((of_nat f + 1024) * PAGE_SIZE) (sint bstore) p_offset) (\<lambda>r w.
             if r = SYSERR then None
             else
               let w = upd_vmm (set_pt_t curr_pt (of_nat f + 1024)) w in
               case table_frame curr_pd w of
                 None \<Rightarrow> None
               | Some t \<Rightarrow>
                   let w = set_iv (FEnt t) (\<lambda>e. e\<lparr>ref_count := ref_count e + 1\<rparr>) w in
                   case hook_pfault pid v_pn w of
                     None \<Rightarrow> None
                   | Some w \<Rightarrow> vsignal (pgf_frame_sem w) w)) w0)"

definition myPageFault :: "unit vact" where
  "myPageFault w0 =
     andthen (vwait (pgf_frame_sem w0)) (\<lambda>_ w.
       let w = w\<lparr>num_fault := num_fault w + 1\<rparr>;
           pid = currpid (vk w);
           e = proctab (vk w) pid;
           (pf_addr, s) = read_CR 2 (vk w);
           w = w\<lparr>vk := s\<rparr>
       in if pf_addr < ucast (vaddr (vmemlist e)) \<or> pf_addr \<ge> ucast (vaddr (vmaxheap e))
          then vsignal (pgf_frame_sem w) w
          else
            let v_pn = ucast (drop_bit 12 pf_addr);
                curr_pd = pd_addr pid (drop_bit 10 v_pn) w
            in andthen (if pd_pres (word_at (vmm w) curr_pd) then give () else create_pagetable curr_pd)
                 (\<lambda>_. fault_in (ucast pf_addr) v_pn curr_pd) w) w0"

subsection \<open>Starting\<close>

text \<open>The entries of the directory that every process has: four global page tables and the devices'.\<close>

definition map_kernel :: "u32 \<Rightarrow> memory \<Rightarrow> memory" where
  "map_kernel pd m =
     set_pd_t (pd + 4 * 576) (5 + 1024)
       (set_pd_t (pd + 12) (4 + 1024) (set_pd_t (pd + 8) (3 + 1024) (set_pd_t (pd + 4) (2 + 1024) (set_pd_t pd (1 + 1024) m))))"

fun global_frames_loop :: "nat \<Rightarrow> vm \<Rightarrow> vm" where
  "global_frames_loop 0 w = w"
| "global_frames_loop (Suc n) w = set_ivtentry_pd_pt (Suc n) 0 PAGE_TAB (global_frames_loop n w)"

definition initialize_paging :: "vm \<Rightarrow> vm" where
  "initialize_paging w =
     (let w = w\<lparr>num_fault := 0, fifo_hand := FHead\<rparr>;
          w = set_iv FHead (\<lambda>e. e\<lparr>fifo_next := FNull, fifo_prev := FTail, frame_number := - 1\<rparr>) w;
          w = set_iv FTail (\<lambda>e. e\<lparr>fifo_next := FHead, fifo_prev := FNull, frame_number := - 1\<rparr>) w;
          (sem1, s) = semcreate 1 (vk w);
          (sem2, s) = semcreate 1 s;
          w = w\<lparr>get_frame_sem := sem1, pgf_frame_sem := sem2, vk := s\<rparr>;
          w = reset_ivtentry w;
          w = set_ivtentry_pd_pt 0 0 PAGE_DIR w;
          w = global_frames_loop 5 w;
          w = reset_BSmapTab w;
          w = w\<lparr>vk := (vk w)\<lparr>proctab := (proctab (vk w))(NULLPROC := (proctab (vk w) NULLPROC)\<lparr>PDBR := ucast (Cal_Addr 0)\<rparr>)\<rparr>\<rparr>;
          w = upd_vmm (not_present_loop 1024 (Cal_Addr 0)) w;
          w = upd_vmm (map_kernel (Cal_Addr 0)) w;
          w = upd_vmm (map_pages_loop 4096 (Cal_Addr 1) 0) w;
          w = upd_vmm (map_pages_loop 1024 (Cal_Addr 5) (576 * 1024)) w;
          s = write_CR (PDBR (proctab (vk w) NULLPROC)) 3 (vk w);
          (x, s) = read_CR 3 s;
          (c4, s) = read_CR 4 s;
          s = write_CR (and c4 (not (push_bit 5 1))) 4 s;
          (c0, s) = read_CR 0 s;
          s = write_CR (or c0 0x80000001) 0 s;
          (y, s) = read_CR 0 s
      in w\<lparr>vk := s\<rparr>)"

end
