(* ===== verification/VirtualHeap.thy ===== *)
theory VirtualHeap
  imports PageFault
begin

text \<open>
  The virtual heap of a process: \<^verbatim>\<open>system/vgetmem.c\<close> and \<^verbatim>\<open>system/vfreemem.c\<close>.  The free list starts at
  \<open>vmemlist\<close> in the process table; its nodes are the \<open>vminheap\<close> of the entry and structures from the
  kernel heap (\<open>vnodes\<close>).  An access through a null pointer is \<open>None\<close>.
\<close>

definition vget :: "vptr \<Rightarrow> vm \<Rightarrow> vmemblk option" where
  "vget p w =
     (case p of
        VNull \<Rightarrow> None
      | VHead i \<Rightarrow> Some (vmemlist (proctab (vk w) i))
      | VMin i \<Rightarrow> Some (vminheap (proctab (vk w) i))
      | VMax i \<Rightarrow> Some (vmaxheap (proctab (vk w) i))
      | VHeap a \<Rightarrow> Some (vnodes w a))"

definition upd_proc :: "int \<Rightarrow> (procent \<Rightarrow> procent) \<Rightarrow> vm \<Rightarrow> vm" where
  "upd_proc i f w = w\<lparr>vk := (vk w)\<lparr>proctab := (proctab (vk w))(i := f (proctab (vk w) i))\<rparr>\<rparr>"

definition vset :: "vptr \<Rightarrow> (vmemblk \<Rightarrow> vmemblk) \<Rightarrow> vm \<Rightarrow> vm" where
  "vset p f w =
     (case p of
        VNull \<Rightarrow> w
      | VHead i \<Rightarrow> upd_proc i (\<lambda>e. e\<lparr>vmemlist := f (vmemlist e)\<rparr>) w
      | VMin i \<Rightarrow> upd_proc i (\<lambda>e. e\<lparr>vminheap := f (vminheap e)\<rparr>) w
      | VMax i \<Rightarrow> upd_proc i (\<lambda>e. e\<lparr>vmaxheap := f (vmaxheap e)\<rparr>) w
      | VHeap a \<Rightarrow> w\<lparr>vnodes := (vnodes w)(a := f (vnodes w a))\<rparr>)"

partial_function (option) vgetmem_loop :: "int \<Rightarrow> u32 \<Rightarrow> vptr \<Rightarrow> vptr \<Rightarrow> vm \<Rightarrow> (u32 \<times> vm) option" where
  "vgetmem_loop pid nbytes prev cur w =
     (if cur = VNull then Some (ADDR_SYSERR, w)
      else do {
        c \<leftarrow> vget cur w;
        if vmlength c = nbytes then
          let w = vset prev (\<lambda>b. b\<lparr>vnext := vnext c\<rparr>) w;
              w = vset (VHead pid) (\<lambda>b. b\<lparr>vmlength := vmlength b - nbytes\<rparr>) w
          in Some (vaddr c, w)
        else if vmlength c > nbytes then
          let w = vset cur (\<lambda>b. b\<lparr>vaddr := vaddr b + nbytes\<rparr>) w;
              w = vset cur (\<lambda>b. b\<lparr>vmlength := vmlength b - nbytes\<rparr>) w;
              w = vset (VHead pid) (\<lambda>b. b\<lparr>vmlength := vmlength b - nbytes\<rparr>) w
          in Some (vaddr c, w)
        else vgetmem_loop pid nbytes cur (vnext c) w
      })"

definition vgetmem :: "u32 \<Rightarrow> vm \<Rightarrow> (u32 \<times> vm) option" where
  "vgetmem nbytes w =
     (if nbytes = 0 then Some (ADDR_SYSERR, w)
      else
        let pid = currpid (vk w)
        in vgetmem_loop pid (roundmb nbytes) (VHead pid) (vnext (vmemlist (proctab (vk w) pid))) w)"

partial_function (option) vfreemem_loop :: "u32 \<Rightarrow> vptr \<Rightarrow> vptr \<Rightarrow> vm \<Rightarrow> (vptr \<times> vptr) option" where
  "vfreemem_loop blkaddr prev next w =
     (if next = VNull then Some (prev, next)
      else do {
        n \<leftarrow> vget next w;
        if vaddr n < blkaddr then vfreemem_loop blkaddr next (vnext n) w else Some (prev, next)
      })"

text \<open>The joining with the next block, which is looked at even when there is none.\<close>

definition vjoin :: "vptr \<Rightarrow> vptr \<Rightarrow> vm \<Rightarrow> (int \<times> vm) option" where
  "vjoin new next w = do {
     b \<leftarrow> vget new w;
     n \<leftarrow> vget next w;
     if vaddr b + vmlength b = vaddr n then
       let w = vset new (\<lambda>b. b\<lparr>vmlength := vmlength b + vmlength n\<rparr>) w
       in Some (OK, vset new (\<lambda>b. b\<lparr>vnext := vnext n\<rparr>) w)
     else Some (OK, w)
   }"

definition vfreemem :: "u32 \<Rightarrow> u32 \<Rightarrow> vm \<Rightarrow> (int \<times> vm) option" where
  "vfreemem blkaddr nbytes w =
     (let pid = currpid (vk w); e = proctab (vk w) pid in
      if nbytes = 0 \<or> blkaddr < vaddr (vmemlist e) \<or> blkaddr \<ge> vaddr (vmaxheap e) then Some (SYSERR, w)
      else do {
        let nbytes = roundmb nbytes;
        (node, m) \<leftarrow> getmem 12 (vmm w);
        let w = w\<lparr>vmm := m\<rparr>;
        let w = vset (VHeap node) (\<lambda>b. b\<lparr>vaddr := blkaddr\<rparr>) w;
        (prev, next) \<leftarrow> vfreemem_loop blkaddr (VHead pid) (vnext (vmemlist (proctab (vk w) pid))) w;
        p \<leftarrow> vget prev w;
        let top = (if prev = VHead pid then 0 else vaddr p + vmlength p);
        next_addr \<leftarrow> (if next = VNull then Some 0 else map_option vaddr (vget next w));
        if prev \<noteq> VHead pid \<and> blkaddr < top \<or> next \<noteq> VNull \<and> blkaddr + nbytes > next_addr then Some (SYSERR, w)
        else do {
          let w = vset (VHead pid) (\<lambda>b. b\<lparr>vmlength := vmlength b + nbytes\<rparr>) w;
          if top = blkaddr then do {
            let w = vset prev (\<lambda>b. b\<lparr>vmlength := vmlength b + nbytes\<rparr>) w;
            (r, m) \<leftarrow> freemem node 12 (vmm w);
            vjoin prev next (w\<lparr>vmm := m\<rparr>)
          }
          else
            let w = vset (VHeap node) (\<lambda>b. b\<lparr>vnext := next\<rparr>) w;
                w = vset (VHeap node) (\<lambda>b. b\<lparr>vmlength := nbytes\<rparr>) w;
                w = vset prev (\<lambda>b. b\<lparr>vnext := VHeap node\<rparr>) w
            in vjoin (VHeap node) next w
        }
      })"

end
