(* ===== verification/Process.thy ===== *)
theory Process
  imports VirtualHeap
begin

text \<open>
  Creating and killing processes: \<^verbatim>\<open>system/create.c\<close>, \<^verbatim>\<open>system/vcreate.c\<close>, \<^verbatim>\<open>system/kill.c\<close> and
  \<^verbatim>\<open>system/userret.c\<close>.  The arguments of the new process are a list of words; \<open>initret\<close> is the address
  of \<open>userret\<close>.  Closing a device goes through the device switch to a driver: \<open>kill\<close> has the effect of
  \<open>close\<close> as its argument \<open>cls\<close>.
\<close>

abbreviation (input) MINSTK :: u32 where "MINSTK \<equiv> 400"
abbreviation (input) STACKMAGIC :: u32 where "STACKMAGIC \<equiv> 0x0A0AAAA9"
abbreviation (input) CONSOLE :: int where "CONSOLE \<equiv> 0"

definition roundew :: "u32 \<Rightarrow> u32" where "roundew x = and (x + 3) (not 3)"

text \<open>The search of \<open>newpid\<close>: the value it returns and its static variable afterwards.\<close>

fun newpid_loop :: "nat \<Rightarrow> int \<Rightarrow> 'z kstate_scheme \<Rightarrow> int \<times> int" where
  "newpid_loop 0 next s = (SYSERR, next)"
| "newpid_loop (Suc n) next s =
     (let next = next mod NPROC in
      if prstate (proctab s next) = PR_FREE then (next, next + 1) else newpid_loop n (next + 1) s)"

definition newpid :: "'z kstate_scheme \<Rightarrow> int \<times> 'z kstate_scheme" where
  "newpid s = (let (pid, next) = newpid_loop (nat NPROC) (nextpid s) s in (pid, s\<lparr>nextpid := next\<rparr>))"

definition newpid_v :: "'z kstate_scheme \<Rightarrow> int \<times> 'z kstate_scheme" where
  "newpid_v s = (let (pid, next) = newpid_loop (nat NPROC) (vnextpid s) s in (pid, s\<lparr>vnextpid := next\<rparr>))"

fun push_words :: "u32 list \<Rightarrow> u32 \<Rightarrow> 'z memory_scheme \<Rightarrow> u32 \<times> 'z memory_scheme" where
  "push_words [] a m = (a, m)"
| "push_words (v # vs) a m = push_words vs (a - 4) (store_word (a - 4) v m)"

text \<open>The stack of the new process as \<open>ctxsw\<close> expects it; the value is the saved stack pointer.\<close>

definition build_stack :: "u32 \<Rightarrow> u32 \<Rightarrow> u32 list \<Rightarrow> u32 \<Rightarrow> 'z memory_scheme \<Rightarrow> u32 \<times> 'z memory_scheme" where
  "build_stack initret funcaddr args saddr m =
     (let m = store_word saddr STACKMAGIC m;
          (a, m) = push_words (rev args @ [initret, funcaddr, saddr]) saddr m;
          (pushsp, m) = push_words [0x200, 0, 0, 0, 0, 0] a m;
          (sp, m) = push_words [a, 0, 0] pushsp m
      in (sp, store_word pushsp sp m))"

text \<open>The table entry of the new process.\<close>

definition new_entry :: "int \<Rightarrow> u32 \<Rightarrow> u32 \<Rightarrow> string \<Rightarrow> int \<Rightarrow> procent \<Rightarrow> procent" where
  "new_entry priority saddr ssize name parent e =
     e\<lparr>prstate := PR_SUSP, prprio := priority, prstkbase := saddr, prstklen := ssize, prname := take 15 name,
       prsem := - 1, prparent := parent, prhasmsg := False, prdesc := (prdesc e)(0 := CONSOLE, 1 := CONSOLE, 2 := CONSOLE)\<rparr>"

definition create :: "u32 \<Rightarrow> u32 \<Rightarrow> u32 \<Rightarrow> int \<Rightarrow> string \<Rightarrow> u32 list \<Rightarrow> 'y memory_scheme \<Rightarrow> 'z kstate_scheme \<Rightarrow>
    (int \<times> 'y memory_scheme \<times> 'z kstate_scheme) option" where
  "create initret funcaddr ssize priority name args m s = do {
     let ssize = (if ssize < MINSTK then MINSTK else ssize);
     let ssize = roundew ssize;
     (saddr, m) \<leftarrow> getstk ssize m;
     if saddr = ADDR_SYSERR then Some (SYSERR, m, s)
     else
       let (pid, s) = newpid s in
       if pid = SYSERR \<or> priority < 1 then Some (SYSERR, m, s)
       else
         let s = s\<lparr>prcount := prcount s + 1\<rparr>;
             e = new_entry priority saddr ssize name (currpid s) (proctab s pid);
             (sp, m) = build_stack initret funcaddr args saddr m
         in Some (pid, m, s\<lparr>proctab := (proctab s)(pid := e\<lparr>prstkptr := sp\<rparr>)\<rparr>)
   }"

subsection \<open>Processes with a virtual heap\<close>

abbreviation (input) HEAP_BASE :: u32 where "HEAP_BASE \<equiv> 0x01000000"

definition new_heap :: "int \<Rightarrow> u32 \<Rightarrow> procent \<Rightarrow> procent" where
  "new_heap pid hsize e =
     e\<lparr>vmemlist := \<lparr>vnext = VMin pid, vaddr = HEAP_BASE, vmlength = PAGE_SIZE * hsize\<rparr>,
       vminheap := \<lparr>vnext = VNull, vaddr = HEAP_BASE, vmlength = PAGE_SIZE * hsize\<rparr>,
       vmaxheap := \<lparr>vnext = VNull, vaddr = HEAP_BASE + PAGE_SIZE * hsize, vmlength = 0\<rparr>\<rparr>"

function map_heap :: "int \<Rightarrow> u32 \<Rightarrow> u32 \<Rightarrow> unit vact" where
  "map_heap pid remain t w =
     (if remain > MAX_PAGES_PER_BS then
        andthen (bs_mapping pid MAX_PAGES_PER_BS (t * MAX_PAGES_PER_BS))
          (\<lambda>_. map_heap pid (remain - MAX_PAGES_PER_BS) (t + 1)) w
      else andthen (bs_mapping pid remain (t * MAX_PAGES_PER_BS)) (\<lambda>_. give ()) w)"
  by pat_completeness auto

termination
proof (relation "measure (\<lambda>(pid, remain, t, w). unat remain)", simp_all)
  fix remain :: u32
  assume r: "200 < remain"
  then have "unat (remain - 200) = unat remain - 200" by (simp add: unat_sub_if' word_less_nat_alt)
  then show "unat (remain - 200) < unat remain" using r by (simp add: word_less_nat_alt)
qed

definition vcreate :: "u32 \<Rightarrow> u32 \<Rightarrow> u32 \<Rightarrow> u32 \<Rightarrow> int \<Rightarrow> string \<Rightarrow> u32 list \<Rightarrow> int vact" where
  "vcreate initret funcaddr ssize hsize priority name args w =
     (let ssize = (if ssize < MINSTK then MINSTK else ssize); ssize = roundew ssize in
      case getstk ssize (vmm w) of
        None \<Rightarrow> None
      | Some (saddr, m) \<Rightarrow>
          let w = w\<lparr>vmm := m\<rparr> in
          if saddr = ADDR_SYSERR then Some (Ret SYSERR, w)
          else
            let (pid, s) = newpid_v (vk w); w = w\<lparr>vk := s\<rparr> in
            if pid = SYSERR \<or> priority < 1 then Some (Ret SYSERR, w)
            else
              let w = w\<lparr>vk := (vk w)\<lparr>prcount := prcount (vk w) + 1\<rparr>\<rparr> in
              andthen (get_free_frame_number pid 0 PAGE_DIR) (\<lambda>f w.
                let pd = Cal_Addr (of_nat f);
                    w = upd_proc pid (\<lambda>e. e\<lparr>PDBR := ucast pd\<rparr>) w;
                    w = upd_vmm (not_present_loop 1024 pd) w;
                    w = upd_vmm (map_kernel pd) w;
                    w = upd_proc pid (new_heap pid hsize) w
                in andthen (map_heap pid hsize 0) (\<lambda>_ w.
                     let w = upd_proc pid (new_entry priority saddr ssize name (currpid (vk w))) w;
                         (sp, m) = build_stack initret funcaddr args saddr (vmm w)
                     in Some (Ret pid, upd_proc pid (\<lambda>e. e\<lparr>prstkptr := sp\<rparr>) (w\<lparr>vmm := m\<rparr>))) w) w)"

subsection \<open>The end of a process\<close>

text \<open>The \<open>switch\<close> at the end of \<open>kill\<close>.\<close>

definition free_proc :: "int \<Rightarrow> vm \<Rightarrow> vm" where
  "free_proc pid w = upd_proc pid (\<lambda>e. e\<lparr>prstate := PR_FREE\<rparr>) w"

definition vunsleep :: "int \<Rightarrow> vm \<Rightarrow> vm" where
  "vunsleep pid w = w\<lparr>vk := snd (unsleep pid (vk w))\<rparr>"

definition vgetitem :: "int \<Rightarrow> vm \<Rightarrow> vm" where
  "vgetitem pid w = w\<lparr>vk := snd (getitem pid (vk w))\<rparr>"

definition kill_state :: "int \<Rightarrow> int vact" where
  "kill_state pid w =
     (case prstate (proctab (vk w) pid) of
        PR_CURR \<Rightarrow>
          let w = free_proc pid w in
          (case resched (vk w) of
             None \<Rightarrow> None
           | Some (True, s) \<Rightarrow> Some (Switch AtResched, w\<lparr>vk := s\<rparr>)
           | Some (False, s) \<Rightarrow> Some (Ret OK, free_proc pid (vunsleep pid (w\<lparr>vk := s\<rparr>))))
      | PR_SLEEP \<Rightarrow> Some (Ret OK, free_proc pid (vunsleep pid w))
      | PR_RECTIM \<Rightarrow> Some (Ret OK, free_proc pid (vunsleep pid w))
      | PR_WAIT \<Rightarrow>
          let k = prsem (proctab (vk w) pid);
              w = w\<lparr>vk := set_scount k (wrap32 (scount (semtab (vk w) k) + 1)) (vk w)\<rparr>
          in Some (Ret OK, free_proc pid (vgetitem pid w))
      | PR_READY \<Rightarrow> Some (Ret OK, free_proc pid (vgetitem pid w))
      | _ \<Rightarrow> Some (Ret OK, free_proc pid w))"

definition vsend :: "int \<Rightarrow> u32 \<Rightarrow> unit vact" where
  "vsend pid msg w =
     (case send pid msg (vk w) of
        None \<Rightarrow> None
      | Some (Ret _, s) \<Rightarrow> Some (Ret (), w\<lparr>vk := s\<rparr>)
      | Some (Switch _, s) \<Rightarrow> Some (Switch AtSend, w\<lparr>vk := s\<rparr>))"

definition kill :: "(int \<Rightarrow> vm \<Rightarrow> vm) \<Rightarrow> int \<Rightarrow> int vact" where
  "kill cls pid w =
     (if isbadpid (vk w) pid \<or> pid = NULLPROC then Some (Ret SYSERR, w)
      else
        let w = w\<lparr>vk := (vk w)\<lparr>prcount := prcount (vk w) - 1\<rparr>\<rparr> in
        if prcount (vk w) \<le> 1 then None
        else
          andthen (vsend (prparent (proctab (vk w) pid)) (word_of_int pid)) (\<lambda>_ w.
            let d = prdesc (proctab (vk w) pid);
                w = cls (d 2) (cls (d 1) (cls (d 0) w))
            in andthen (kill_frames NFRAMES 0 pid) (\<lambda>_.
                 andthen (kill_stores 8 0 pid) (\<lambda>_ w.
                   case freestk (prstkbase (proctab (vk w) pid)) (prstklen (proctab (vk w) pid)) (vmm w) of
                     None \<Rightarrow> None
                   | Some (r, m) \<Rightarrow> kill_state pid (w\<lparr>vmm := m\<rparr>))) w) w)"

definition userret :: "(int \<Rightarrow> vm \<Rightarrow> vm) \<Rightarrow> int vact" where
  "userret cls w = kill cls (currpid (vk w)) w"

end
