(* ===== verification/FrameList.thy ===== *)
theory FrameList
  imports Process
begin

text \<open>
  The list of pages in frames, from the oldest at \<open>fifo_head\<close> to the newest at \<open>fifo_tail\<close>, as a
  list of frame numbers; what the links of \<open>get_free_frame_number\<close> and \<open>kill\<close> do to it, and the
  invariant of the frame table.
\<close>

subsection \<open>Chains of entries\<close>

fun seg :: "(fifo_ref \<Rightarrow> ivent) \<Rightarrow> fifo_ref \<Rightarrow> nat list \<Rightarrow> fifo_ref \<Rightarrow> bool" where
  "seg v a [] b \<longleftrightarrow> fifo_prev (v a) = b \<and> fifo_next (v b) = a"
| "seg v a (x # xs) b \<longleftrightarrow> fifo_prev (v a) = FEnt x \<and> fifo_next (v (FEnt x)) = a \<and> seg v (FEnt x) xs b"

lemma seg_append: "seg v a (xs @ y # ys) b \<longleftrightarrow> seg v a xs (FEnt y) \<and> seg v (FEnt y) ys b"
  by (induction xs arbitrary: a) auto

lemma seg_cong:
  "(\<And>r. r = a \<or> r \<in> FEnt ` set xs \<Longrightarrow> fifo_prev (v' r) = fifo_prev (v r)) \<Longrightarrow>
   (\<And>r. r = b \<or> r \<in> FEnt ` set xs \<Longrightarrow> fifo_next (v' r) = fifo_next (v r)) \<Longrightarrow> seg v' a xs b = seg v a xs b"
  by (induction xs arbitrary: a) auto

definition pages :: "nat list \<Rightarrow> vm \<Rightarrow> bool" where
  "pages xs w \<longleftrightarrow> seg (ivs w) FHead xs FTail \<and> distinct xs"

lemma set_iv_at [simp]: "ivs (set_iv r f w) = (ivs w)(r := f (ivs w r))"
  by (simp add: set_iv_def)

lemma set_iv_others [simp]:
  "vk (set_iv r f w) = vk w" "vmm (set_iv r f w) = vmm w" "fifo_hand (set_iv r f w) = fifo_hand w"
  "bsmap (set_iv r f w) = bsmap w" "bstab (set_iv r f w) = bstab w" "disk (set_iv r f w) = disk w"
  "frame_md (set_iv r f w) = frame_md w" "currpolicy (set_iv r f w) = currpolicy w"
  "get_frame_sem (set_iv r f w) = get_frame_sem w" "pgf_frame_sem (set_iv r f w) = pgf_frame_sem w"
  "bs_sem (set_iv r f w) = bs_sem w" "disk_answers (set_iv r f w) = disk_answers w"
  "page_server_active (set_iv r f w) = page_server_active w" "junk (set_iv r f w) = junk w"
  by (simp_all add: set_iv_def)

lemma fifo_push_links:
  assumes "pages xs w" "i \<notin> set xs"
  shows "pages (xs @ [i]) (fifo_push i w)"
proof (cases xs rule: rev_cases)
  case Nil
  with assms show ?thesis by (simp add: pages_def fifo_push_def Let_def)
next
  case (snoc ys y)
  then have s: "seg (ivs w) FHead ys (FEnt y)" "fifo_prev (ivs w (FEnt y)) = FTail" "fifo_next (ivs w FTail) = FEnt y"
    using assms(1) by (simp_all add: pages_def seg_append)
  have d: "i \<noteq> y" "i \<notin> set ys" "y \<notin> set ys" using assms snoc by (auto simp: pages_def)
  have "seg (ivs (fifo_push i w)) FHead ys (FEnt y) = seg (ivs w) FHead ys (FEnt y)"
    by (rule seg_cong) (use d s in \<open>auto simp: fifo_push_def Let_def\<close>)
  then show ?thesis
    using s d assms snoc by (simp add: pages_def seg_append) (simp add: fifo_push_def Let_def)
qed

lemma fifo_unlink_links:
  assumes "pages (ys @ i # zs) w"
  shows "pages (ys @ zs) (fifo_unlink i w)"
proof -
  let ?v = "ivs w" and ?u = "ivs (fifo_unlink i w)"
  have s: "seg ?v FHead ys (FEnt i)" "seg ?v (FEnt i) zs FTail" and d: "distinct (ys @ i # zs)"
    using assms by (simp_all add: pages_def seg_append)
  obtain a ys' where a: "fifo_next (?v (FEnt i)) = a" "ys = [] \<and> a = FHead \<or> (\<exists>y. ys = ys' @ [y] \<and> a = FEnt y)"
    using s(1) by (cases ys rule: rev_cases) (auto simp: seg_append)
  obtain b zs' where b: "fifo_prev (?v (FEnt i)) = b" "zs = [] \<and> b = FTail \<or> (\<exists>z. zs = z # zs' \<and> b = FEnt z)"
    using s(2) by (cases zs) auto
  have n: "a \<noteq> FEnt i" "b \<noteq> FEnt i" "a \<noteq> b" "a \<noteq> FTail" "b \<noteq> FHead" using a b d by auto
  have u: "?u = ?v(b := (?v b)\<lparr>fifo_next := a\<rparr>, a := (?v a)\<lparr>fifo_prev := b\<rparr>,
      FEnt i := (?v (FEnt i))\<lparr>fifo_next := FNull, fifo_prev := FNull\<rparr>)"
    using a(1) b(1) n by (simp add: fifo_unlink_def Let_def fun_upd_twist)
  show ?thesis
  proof (cases "ys = []")
    case True
    then have ah: "a = FHead" using a by simp
    show ?thesis
    proof (cases zs)
      case Nil
      then show ?thesis using True ah b by (simp add: pages_def u)
    next
      case (Cons z zt)
      then have bz: "b = FEnt z" using b by simp
      have "seg ?u (FEnt z) zt FTail = seg ?v (FEnt z) zt FTail"
        by (rule seg_cong) (use d Cons ah bz in \<open>auto simp: u\<close>)
      then show ?thesis using True Cons ah bz s d by (simp add: pages_def u)
    qed
  next
    case False
    then obtain y where y: "ys = ys' @ [y]" "a = FEnt y" using a by auto
    have sy: "seg ?v FHead ys' (FEnt y)" using s(1) y by (simp add: seg_append)
    have "seg ?u FHead ys' (FEnt y) = seg ?v FHead ys' (FEnt y)"
      by (rule seg_cong) (use d y b in \<open>auto simp: u\<close>)
    with sy have ys: "seg ?u FHead ys' (FEnt y)" by simp
    show ?thesis
    proof (cases zs)
      case Nil
      then show ?thesis using y ys b d by (simp add: pages_def seg_append) (simp add: u)
    next
      case (Cons z zt)
      then have bz: "b = FEnt z" using b by simp
      have "seg ?u (FEnt z) zt FTail = seg ?v (FEnt z) zt FTail"
        by (rule seg_cong) (use d Cons y bz in \<open>auto simp: u\<close>)
      then show ?thesis using y ys Cons bz s d by (simp add: pages_def seg_append) (simp add: u)
    qed
  qed
qed

end
