(* ===== verification/Mutex.thy ===== *)
theory Mutex
  imports Semaphores
begin

text \<open>
  Semaphores used for mutual exclusion: one that nobody holds is taken without waiting, and giving
  back one that nobody waits for leaves the kernel as it was.
\<close>

definition sem_idle :: "int \<Rightarrow> 'z kstate_scheme \<Rightarrow> bool" where
  "sem_idle k s \<longleftrightarrow> \<not> isbadsem k \<and> sstate (semtab s k) = S_USED \<and> scount (semtab s k) = 1"

definition sem_held :: "int \<Rightarrow> 'z kstate_scheme \<Rightarrow> bool" where
  "sem_held k s \<longleftrightarrow> \<not> isbadsem k \<and> sstate (semtab s k) = S_USED \<and> scount (semtab s k) = 0"

lemma wait_idle: "sem_idle k s \<Longrightarrow> wait k s = Some (Ret OK, set_scount k 0 s)"
  by (simp add: wait_def sem_idle_def Let_def set_scount_def)

lemma signal_held: "sem_held k s \<Longrightarrow> signal k s = Some (Ret OK, set_scount k 1 s)"
  by (simp add: signal_def sem_held_def Let_def set_scount_def)

declare set_scount_twice [simp]

lemma set_scount_swap: "k \<noteq> j \<Longrightarrow> set_scount k u (set_scount j v s) = set_scount j v (set_scount k u s)"
  by (simp add: set_scount_def fun_upd_twist)

lemma sem_idle_grab [simp]:
  "sem_idle k s \<Longrightarrow> sem_held k (set_scount k 0 s)"
  "k \<noteq> j \<Longrightarrow> sem_idle j (set_scount k v s) = sem_idle j s"
  "k \<noteq> j \<Longrightarrow> sem_held j (set_scount k v s) = sem_held j s"
  by (simp_all add: sem_idle_def sem_held_def set_scount_def)

lemma set_scount_back: "sem_idle k s \<Longrightarrow> set_scount k 1 s = s"
  by (simp add: sem_idle_def set_scount_same)

end
