(* ===== verification/VmLemmas.thy ===== *)
theory VmLemmas
  imports FrameList Mutex
begin

text \<open>
  Facts about the paging state that several proofs share: semaphores that are free when a call
  takes them, pages copied from and to the disk block by block, and addresses inside a page.
\<close>

subsection \<open>Semaphores nobody holds\<close>

definition grab :: "int \<Rightarrow> vm \<Rightarrow> vm" where
  "grab k w = w\<lparr>vk := set_scount k 0 (vk w)\<rparr>"

definition drop_sem :: "int \<Rightarrow> vm \<Rightarrow> vm" where
  "drop_sem k w = w\<lparr>vk := set_scount k 1 (vk w)\<rparr>"

lemma vwait_idle: "sem_idle k (vk w) \<Longrightarrow> vwait k w = Some (Ret (), grab k w)"
  by (simp add: vwait_def wait_idle grab_def)

lemma vsignal_held: "sem_held k (vk w) \<Longrightarrow> vsignal k w = Some (Ret (), drop_sem k w)"
  by (simp add: vsignal_def signal_held drop_sem_def)

lemma grab_fields [simp]:
  "vmm (grab k w) = vmm w" "ivs (grab k w) = ivs w" "fifo_hand (grab k w) = fifo_hand w" "bsmap (grab k w) = bsmap w"
  "bstab (grab k w) = bstab w" "page_server_active (grab k w) = page_server_active w" "bs_sem (grab k w) = bs_sem w"
  "bs_init_sem (grab k w) = bs_init_sem w" "get_frame_sem (grab k w) = get_frame_sem w"
  "pgf_frame_sem (grab k w) = pgf_frame_sem w" "currpolicy (grab k w) = currpolicy w" "num_fault (grab k w) = num_fault w"
  "frame_md (grab k w) = frame_md w" "disk (grab k w) = disk w" "disk_answers (grab k w) = disk_answers w"
  "junk (grab k w) = junk w" "vk (grab k w) = set_scount k 0 (vk w)"
  by (simp_all add: grab_def)

lemma drop_sem_fields [simp]:
  "vmm (drop_sem k w) = vmm w" "ivs (drop_sem k w) = ivs w" "fifo_hand (drop_sem k w) = fifo_hand w"
  "bsmap (drop_sem k w) = bsmap w" "bstab (drop_sem k w) = bstab w" "page_server_active (drop_sem k w) = page_server_active w"
  "bs_sem (drop_sem k w) = bs_sem w" "bs_init_sem (drop_sem k w) = bs_init_sem w"
  "get_frame_sem (drop_sem k w) = get_frame_sem w" "pgf_frame_sem (drop_sem k w) = pgf_frame_sem w"
  "currpolicy (drop_sem k w) = currpolicy w" "num_fault (drop_sem k w) = num_fault w" "frame_md (drop_sem k w) = frame_md w"
  "disk (drop_sem k w) = disk w" "disk_answers (drop_sem k w) = disk_answers w" "junk (drop_sem k w) = junk w"
  "vk (drop_sem k w) = set_scount k 1 (vk w)"
  by (simp_all add: drop_sem_def)

subsection \<open>Blocks of a page\<close>

fun load_blocks :: "nat \<Rightarrow> u32 \<Rightarrow> u32 \<Rightarrow> (u32 \<Rightarrow> nat \<Rightarrow> u32) \<Rightarrow> memory \<Rightarrow> memory" where
  "load_blocks 0 dst b d m = m"
| "load_blocks (Suc n) dst b d m = load_blocks n (dst + 512) (b + 1) d (load_block dst (d b) m)"

fun store_blocks :: "nat \<Rightarrow> u32 \<Rightarrow> u32 \<Rightarrow> memory \<Rightarrow> (u32 \<Rightarrow> nat \<Rightarrow> u32) \<Rightarrow> u32 \<Rightarrow> nat \<Rightarrow> u32" where
  "store_blocks 0 src b m d = d"
| "store_blocks (Suc n) src b m d = store_blocks n (src + 512) (b + 1) m (d(b := block_of src m))"

text \<open>The disk answers every request so far as it can be seen without an error.\<close>

definition disk_ok :: "vm \<Rightarrow> bool" where
  "disk_ok w \<longleftrightarrow> SYSERR \<notin> set (disk_answers w)"

lemma disk_answer_ok:
  "disk_ok w \<Longrightarrow> \<exists>r. r \<noteq> SYSERR \<and> disk_answer w = (r, w\<lparr>disk_answers := drop 1 (disk_answers w)\<rparr>)"
  by (cases "disk_answers w") (auto simp: disk_ok_def disk_answer_def)

lemma disk_ok_drop: "disk_ok w \<Longrightarrow> disk_answers w' = drop n (disk_answers w) \<Longrightarrow> disk_ok w'"
  by (auto simp: disk_ok_def dest: in_set_dropD)

lemma read_blocks_run:
  "disk_ok w \<Longrightarrow> read_blocks n dst b w =
     Some (w\<lparr>vmm := load_blocks n dst b (disk w) (vmm w), disk_answers := drop n (disk_answers w)\<rparr>)"
proof (induction n arbitrary: dst b w)
  case (Suc n)
  obtain r where r: "r \<noteq> SYSERR" "disk_answer w = (r, w\<lparr>disk_answers := drop 1 (disk_answers w)\<rparr>)"
    using disk_answer_ok Suc.prems by blast
  let ?w = "upd_vmm (load_block dst (disk w b)) (w\<lparr>disk_answers := drop 1 (disk_answers w)\<rparr>)"
  have "disk_ok ?w" by (rule disk_ok_drop [OF Suc.prems, where n = 1]) (simp add: upd_vmm_def)
  from Suc.IH [OF this] r show ?case by (simp add: Let_def upd_vmm_def)
qed simp

lemma write_blocks_run:
  "disk_ok w \<Longrightarrow> write_blocks n src b w =
     Some (w\<lparr>disk := store_blocks n src b (vmm w) (disk w), disk_answers := drop n (disk_answers w)\<rparr>)"
proof (induction n arbitrary: src b w)
  case (Suc n)
  let ?v = "w\<lparr>disk := (disk w)(b := block_of src (vmm w))\<rparr>"
  have v: "disk_ok ?v" using Suc.prems by (simp add: disk_ok_def)
  obtain r where r: "r \<noteq> SYSERR" "disk_answer ?v = (r, ?v\<lparr>disk_answers := drop 1 (disk_answers w)\<rparr>)"
    using disk_answer_ok [OF v] by auto
  let ?w = "?v\<lparr>disk_answers := drop 1 (disk_answers w)\<rparr>"
  have "disk_ok ?w" by (rule disk_ok_drop [OF Suc.prems, where n = 1]) simp
  from Suc.IH [OF this] r show ?case by (simp add: Let_def fun_upd_def)
qed simp

lemma unat_back:
  assumes "n \<le> unat (k :: u32)"
  shows "unat (k - of_nat n) = unat k - n"
proof -
  have n: "unat (of_nat n :: u32) = n" using assms u32_max [of k] by (simp add: unat_of_nat)
  then have "of_nat n \<le> k" using assms by (simp add: word_le_nat_alt)
  then show ?thesis by (simp add: unat_sub n)
qed

lemma unat_before:
  assumes "unat (k :: u32) < n" "n < 4294967296"
  shows "unat (k - of_nat n) = unat k + 4294967296 - n"
proof -
  have n: "unat (of_nat n :: u32) = n" using assms(2) by (simp add: unat_of_nat)
  then have "\<not> of_nat n \<le> k" using assms by (simp add: word_le_nat_alt)
  then show ?thesis using assms by (simp add: unat_sub_if' n word_le_nat_alt)
qed

lemma load_blocks_at:
  "n \<le> 8 \<Longrightarrow> word_at (load_blocks n dst b d m) a =
     (if unat (a - dst) < 512 * n \<and> 4 dvd unat (a - dst)
      then d (b + of_nat (unat (a - dst) div 512)) (unat (a - dst) mod 512 div 4) else word_at m a)"
proof (induction n arbitrary: dst b m)
  case (Suc n)
  let ?k = "unat (a - dst)"
  have e: "a - (dst + 512) = (a - dst) - of_nat 512" by simp
  show ?case
  proof (cases "?k < 512")
    case True
    then have "unat (a - (dst + 512)) = ?k + 4294967296 - 512" unfolding e by (rule unat_before) simp
    then have "\<not> unat (a - (dst + 512)) < 512 * n" using Suc.prems by simp
    then show ?thesis using Suc True by (simp add: load_block_def)
  next
    case False
    then have k: "unat (a - (dst + 512)) = ?k - 512" unfolding e by (intro unat_back) simp
    have "?k = 512 + (?k - 512)" using False by simp
    then have d: "?k div 512 = Suc ((?k - 512) div 512)" "?k mod 512 = (?k - 512) mod 512"
      by (metis div_add_self1 zero_neq_numeral Suc_eq_plus1 add.commute)
        (metis \<open>?k = 512 + (?k - 512)\<close> mod_add_self1)
    have "4 dvd ?k - 512 \<longleftrightarrow> 4 dvd ?k" using False by presburger
    moreover have "?k - 512 < 512 * n \<longleftrightarrow> ?k < 512 * Suc n" using False by auto
    ultimately show ?thesis using Suc False k d by (simp add: load_block_def algebra_simps)
  qed
qed simp

lemma load_blocks_fields [simp]:
  "memlist (load_blocks n dst b d m) = memlist m" "minheap (load_blocks n dst b d m) = minheap m"
  "maxheap (load_blocks n dst b d m) = maxheap m"
  by (induction n arbitrary: dst b m) (simp_all add: load_block_def)

lemma store_blocks_at:
  "n \<le> 8 \<Longrightarrow> store_blocks n src b m d x =
     (if unat (x - b) < n then block_of (src + 512 * of_nat (unat (x - b))) m else d x)"
proof (induction n arbitrary: src b d)
  case (Suc n)
  let ?k = "unat (x - b)"
  have e: "x - (b + 1) = (x - b) - of_nat 1" by simp
  show ?case
  proof (cases "?k < 1")
    case True
    then have "unat (x - (b + 1)) = ?k + 4294967296 - 1" unfolding e by (rule unat_before) simp
    moreover have "x = b" using True by (metis eq_iff_diff_eq_0 less_one unat_eq_zero)
    ultimately show ?thesis using Suc True by simp
  next
    case False
    then have k: "unat (x - (b + 1)) = ?k - 1" unfolding e by (intro unat_back) simp
    have "x \<noteq> b" using False by auto
    obtain j where j: "?k = Suc j" using False by (cases ?k) auto
    have "store_blocks n (src + 512) (b + 1) m (d(b := block_of src m)) x =
        (if j < n then block_of (src + 512 + 512 * of_nat j) m else (d(b := block_of src m)) x)"
      using Suc.IH [of "src + 512" "b + 1"] Suc.prems k by (simp add: j)
    moreover have "src + 512 + 512 * of_nat j = src + 512 * of_nat (Suc j)" by (simp add: distrib_left)
    ultimately show ?thesis using \<open>x \<noteq> b\<close> by (simp add: j add.assoc del: of_nat_Suc)
  qed
qed simp

end
