(* ===== verification/VmScenario.thy ===== *)
theory VmScenario
  imports VmLemmas Scenario
begin

text \<open>
  A concrete paging state, on which the properties of paging are evaluated.  Process 1 runs with
  its page directory in frame 6, one page table in frame 7 and the first \<open>n\<close> pages of its virtual
  heap in the frames from 8 on, the page in frame 8 the oldest.  Its heap of 200 pages is mapped to
  backing store 0.  The processor has faulted on page \<open>n\<close> of the heap.
\<close>

definition demo_kernel :: "nat \<Rightarrow> kstate" where
  "demo_kernel n = scene\<lparr>
     semtab := scene_sems(3 := \<lparr>sstate = S_USED, scount = 1, squeue = 106\<rparr>, 4 := \<lparr>sstate = S_USED, scount = 1, squeue = 108\<rparr>,
       5 := \<lparr>sstate = S_USED, scount = 1, squeue = 110\<rparr>, 6 := \<lparr>sstate = S_USED, scount = 1, squeue = 112\<rparr>),
     proctab := scene_procs(1 := (scene_proc PR_CURR 20)\<lparr>PDBR := 4218880,
       vmemlist := \<lparr>vnext = VMin 1, vaddr = 0x01000000, vmlength = 0xC8000\<rparr>,
       vminheap := \<lparr>vnext = VNull, vaddr = 0x01000000, vmlength = 0xC8000\<rparr>,
       vmaxheap := \<lparr>vnext = VNull, vaddr = 0x010C8000, vmlength = 0\<rparr>\<rparr>),
     cr2 := 0x01000000 + of_nat n * 4096\<rparr>"

definition demo_frame :: "nat \<Rightarrow> nat \<Rightarrow> ivent" where
  "demo_frame n i =
     \<lparr>valid = (if i = 0 \<or> i = 6 then PAGE_DIR else if i < 8 then PAGE_TAB else if i < 8 + n then PAGE else NULL_PAGE),
      frame_number = of_nat i, ivpid = (if 6 \<le> i \<and> i < 8 + n then 1 else 0),
      vpage_num = (if 8 \<le> i \<and> i < 8 + n then 4096 + of_nat (i - 8) else 0), ref_count = (if i = 7 then of_nat n else 0),
      fifo_next = (if i < 8 \<or> 8 + n \<le> i then FNull else if i = 8 then FHead else FEnt (i - 1)),
      fifo_prev = (if i < 8 \<or> 8 + n \<le> i then FNull else if i = 7 + n then FTail else FEnt (i + 1))\<rparr>"

definition demo_frames :: "nat \<Rightarrow> fifo_ref \<Rightarrow> ivent" where
  "demo_frames n r =
     (let dummy = \<lparr>valid = NULL_PAGE, frame_number = - 1, ivpid = 0, vpage_num = 0, ref_count = 0, fifo_next = FNull, fifo_prev = FNull\<rparr>
      in case r of
        FEnt i \<Rightarrow> demo_frame n i
      | FHead \<Rightarrow> dummy\<lparr>fifo_prev := (if n = 0 then FTail else FEnt 8)\<rparr>
      | FTail \<Rightarrow> dummy\<lparr>fifo_next := (if n = 0 then FHead else FEnt (7 + n))\<rparr>
      | FNull \<Rightarrow> dummy)"

text \<open>The directory in frame 6 names the table in frame 7, and that the pages.\<close>

definition demo_word :: "nat \<Rightarrow> u32 \<Rightarrow> u32" where
  "demo_word n a =
     (if a = 4218880 + 16 then pd_entry 1031
      else if a - 4222976 < of_nat (4 * n) then pd_entry (1032 + (a - 4222976) div 4) else 0)"

definition demo_vm :: "nat \<Rightarrow> vm" where
  "demo_vm n = \<lparr>vk = demo_kernel n,
     vmm = \<lparr>word_at = demo_word n, memlist = 256, minheap = 0, maxheap = 0\<rparr>,
     ivs = demo_frames n, fifo_hand = FHead,
     bsmap = (\<lambda>i. if i = 0 then \<lparr>ifMap = True, bspid = 1, num_pages = 200, start_vpn = 4096\<rparr>
       else \<lparr>ifMap = False, bspid = 0, num_pages = 0, start_vpn = 0\<rparr>),
     bstab = (\<lambda>i. if i = 0 then \<lparr>isopen = True, isallocated = True, usecount = 0, npages = 200\<rparr>
       else \<lparr>isopen = False, isallocated = False, usecount = 0, npages = 0\<rparr>),
     page_server_active = True, bs_sem = 3, bs_init_sem = 4, get_frame_sem = 5, pgf_frame_sem = 6,
     currpolicy = FIFO, num_fault = 0,
     frame_md = \<lparr>alloc_page_proc = (\<lambda>_. 1), alloc_page = (\<lambda>i. 4096 + word_of_int i), curframe = int n, reclaimframe = 0\<rparr>,
     disk = (\<lambda>b j. b + of_nat j), disk_answers = [], vnodes = (\<lambda>_. \<lparr>vnext = VNull, vaddr = 0, vmlength = 0\<rparr>), junk = (0, 0)\<rparr>"

lemma demo_vm_fields [simp]:
  "vk (demo_vm n) = demo_kernel n" "word_at (vmm (demo_vm n)) = demo_word n" "ivs (demo_vm n) = demo_frames n"
  "page_server_active (demo_vm n)" "bs_sem (demo_vm n) = 3" "get_frame_sem (demo_vm n) = 5" "pgf_frame_sem (demo_vm n) = 6"
  "disk_answers (demo_vm n) = []" "currpolicy (demo_vm n) = FIFO" "fifo_hand (demo_vm n) = FHead"
  "bstab (demo_vm n) 0 = \<lparr>isopen = True, isallocated = True, usecount = 0, npages = 200\<rparr>"
  "i \<noteq> 0 \<Longrightarrow> bstab (demo_vm n) i = \<lparr>isopen = False, isallocated = False, usecount = 0, npages = 0\<rparr>"
  "bsmap (demo_vm n) 0 = \<lparr>ifMap = True, bspid = 1, num_pages = 200, start_vpn = 4096\<rparr>"
  "alloc_page (frame_md (demo_vm n)) i = 4096 + word_of_int i" "alloc_page_proc (frame_md (demo_vm n)) i = 1"
  "reclaimframe (frame_md (demo_vm n)) = 0"
  by (simp_all add: demo_vm_def)

lemma demo_idle [simp]:
  "sem_idle 3 (demo_kernel n)" "sem_idle 4 (demo_kernel n)" "sem_idle 5 (demo_kernel n)" "sem_idle 6 (demo_kernel n)"
  by (simp_all add: demo_kernel_def sem_idle_def isbadsem_def)

lemma demo_kernel_fields [simp]:
  "currpid (demo_kernel n) = 1" "PDBR (proctab (demo_kernel n) 1) = 4218880" "cr2 (demo_kernel n) = 0x01000000 + of_nat n * 4096"
  by (simp_all add: demo_kernel_def)

lemma demo_disk_ok [simp]: "disk_ok (demo_vm n)"
  by (simp add: disk_ok_def)

end
