(* ===== verification/BackStoreProps.thy ===== *)
theory BackStoreProps
  imports VmScenario
begin

text \<open>
  What the backing stores promise: a page that is written can be read back and no other page of
  any store changes; stores are allocated from the lowest free one.
\<close>

definition store_ready :: "int \<Rightarrow> u32 \<Rightarrow> vm \<Rightarrow> bool" where
  "store_ready b page w \<longleftrightarrow>
     page_server_active w \<and> 0 \<le> b \<and> b \<le> MAX_ID \<and> sem_idle (bs_sem w) (vk w) \<and> isopen (bstab w b) \<and>
     page < npages (bstab w b) \<and> npages (bstab w b) \<le> MAX_PAGES_PER_BS \<and> disk_ok w"

lemma vsignal_grab: "sem_idle k (vk w) \<Longrightarrow> vsignal k (grab k w) = Some (Ret (), w)"
proof -
  assume k: "sem_idle k (vk w)"
  then have "vsignal k (grab k w) = Some (Ret (), drop_sem k (grab k w))" by (intro vsignal_held) simp
  also have "drop_sem k (grab k w) = w" using k by (simp add: drop_sem_def grab_def set_scount_back)
  finally show ?thesis .
qed

lemma with_sem: "sem_idle k (vk w) \<Longrightarrow> andthen (vwait k) (\<lambda>_. andthen (vsignal k) (\<lambda>_. f)) w = f w"
  by (simp add: vwait_idle vsignal_grab)

lemma write_bs_ok:
  assumes "store_ready b page w"
  shows "write_bs src b page w =
    Some (Ret OK, w\<lparr>disk := store_blocks 8 src (rd_blk b page) (vmm w) (disk w), disk_answers := drop 8 (disk_answers w)\<rparr>)"
proof -
  have "write_bs src b page w = (case write_blocks 8 src (rd_blk b page) w of None \<Rightarrow> None | Some w \<Rightarrow> Some (Ret OK, w))"
    using assms by (auto simp: write_bs_def store_ready_def vwait_idle vsignal_grab)
  then show ?thesis using assms by (simp add: write_blocks_run store_ready_def)
qed

lemma read_bs_ok:
  assumes "store_ready b page w"
  shows "read_bs dst b page w =
    Some (Ret OK, w\<lparr>vmm := load_blocks 8 dst (rd_blk b page) (disk w) (vmm w), disk_answers := drop 8 (disk_answers w)\<rparr>)"
proof -
  have "read_bs dst b page w = (case read_blocks 8 dst (rd_blk b page) w of None \<Rightarrow> None | Some w \<Rightarrow> Some (Ret OK, w))"
    using assms by (auto simp: read_bs_def store_ready_def vwait_idle vsignal_grab)
  then show ?thesis using assms by (simp add: read_blocks_run store_ready_def)
qed

subsection \<open>Where the pages are on the disk\<close>

lemma unat_rd_blk:
  assumes "0 \<le> b" "b \<le> MAX_ID" "unat page < 205" "i < 8"
  shows "unat (rd_blk b page + of_nat i) = (nat b * 205 + unat page) * 8 + i"
proof -
  have u: "n < 4294967296 \<Longrightarrow> unat (of_nat n :: u32) = n" for n by (simp add: unat_of_nat)
  have e: "rd_blk b page + of_nat i = of_nat ((nat b * 205 + unat page) * 8 + i)"
    using assms by (simp add: rd_blk_def of_nat_nat [symmetric] del: of_nat_nat)
  have "nat b * 205 \<le> 7 * 205" using assms by simp
  then have "(nat b * 205 + unat page) * 8 + i < 4294967296" using assms(3,4) by (simp add: algebra_simps)
  then show ?thesis unfolding e by (rule u)
qed

text \<open>Word \<open>j\<close> of a page of a store.\<close>

definition page_word :: "int \<Rightarrow> u32 \<Rightarrow> nat \<Rightarrow> vm \<Rightarrow> u32" where
  "page_word b page j w = disk w (rd_blk b page + of_nat (j div 128)) (j mod 128)"

lemma word_index:
  assumes "i < 1024"
  shows "unat (dst + 4 * of_nat i - dst :: u32) = 4 * i"
proof -
  have "unat (4 * of_nat i :: u32) = 4 * i"
    using assms by (simp add: unat_word_ariths unat_of_nat)
  then show ?thesis by simp
qed

text \<open>Reading a page: each of its words, and nothing else.\<close>

lemma load_page_word:
  "i < 1024 \<Longrightarrow> word_at (load_blocks 8 dst (rd_blk b page) (disk w) m) (dst + 4 * of_nat i) = page_word b page i w"
proof -
  assume i: "i < 1024"
  have "4 * i div (4 * 128) = i div 128" by (rule div_mult_mult1) simp
  moreover have "4 * i mod (4 * 128) = 4 * (i mod 128)" by (rule mult_mod_right [symmetric])
  ultimately have "4 * i div 512 = i div 128" "4 * i mod 512 div 4 = i mod 128" by simp_all
  then show ?thesis using i by (simp only: load_blocks_at [OF order_refl] page_word_def word_index [OF i]) simp
qed

lemma block_gap:
  assumes "0 \<le> b" "b \<le> MAX_ID" "unat page < 205" "0 \<le> b'" "b' \<le> MAX_ID" "unat page' < 205" "i < 8"
  shows "unat (rd_blk b' page' + of_nat i - rd_blk b page) < 8 \<longleftrightarrow> b' = b \<and> page' = page"
    and "b' = b \<and> page' = page \<longrightarrow> unat (rd_blk b' page' + of_nat i - rd_blk b page) = i"
proof -
  let ?x = "rd_blk b' page' + of_nat i" and ?y = "rd_blk b page"
  let ?p = "nat b * 205 + unat page" and ?p' = "nat b' * 205 + unat page'"
  have x: "unat ?x = ?p' * 8 + i" by (rule unat_rd_blk [OF assms(4-7)])
  have y: "unat ?y = ?p * 8" using unat_rd_blk [OF assms(1-3), of 0] by simp
  have "?p div 205 = nat b" "?p mod 205 = unat page" "?p' div 205 = nat b'" "?p' mod 205 = unat page'"
    using assms(3,6) by simp_all
  then have "?p = ?p' \<longleftrightarrow> nat b = nat b' \<and> unat page = unat page'" by metis
  then have p: "?p = ?p' \<longleftrightarrow> b' = b \<and> page' = page" using assms by (auto simp: word_unat_eq_iff)
  have "nat b * 205 \<le> 7 * 205" using assms(1,2) by simp
  then have "?p < 1640" using assms(3) by simp
  then have u: "unat (?x - ?y) = (if ?p \<le> ?p' then (?p' - ?p) * 8 + i else ?p' * 8 + i + 4294967296 - ?p * 8)"
    using assms(7) by (auto simp: unat_sub_if' x y)
  show "unat (?x - ?y) < 8 \<longleftrightarrow> b' = b \<and> page' = page"
    unfolding u p [symmetric] using assms(7) \<open>?p < 1640\<close> by auto
  show "b' = b \<and> page' = page \<longrightarrow> unat (?x - ?y) = i" unfolding u p [symmetric] by auto
qed

lemma store_page_word:
  assumes "0 \<le> b" "b \<le> MAX_ID" "unat page < 205" "0 \<le> b'" "b' \<le> MAX_ID" "unat page' < 205" "j < 1024"
    and d: "disk w' = store_blocks 8 src (rd_blk b page) m (disk w)"
  shows "page_word b' page' j w' =
    (if b' = b \<and> page' = page then word_at m (src + 4 * of_nat j) else page_word b' page' j w)"
proof -
  have i: "j div 128 < 8" using assms(7) by simp
  have "of_nat j = (of_nat (j div 128) * 128 + of_nat (j mod 128) :: u32)"
    by (metis div_mult_mod_eq of_nat_add of_nat_mult of_nat_numeral)
  then have j: "src + 512 * of_nat (j div 128) + 4 * of_nat (j mod 128) = src + 4 * of_nat j"
    by (simp add: algebra_simps)
  show ?thesis
    using block_gap [OF assms(1-6) i]
    by (simp add: page_word_def d store_blocks_at block_of_def j)
qed

subsection \<open>Allocating stores\<close>

lemma upd_bs_fields [simp]:
  "vk (upd_bs i f w) = vk w" "bs_sem (upd_bs i f w) = bs_sem w" "page_server_active (upd_bs i f w) = page_server_active w"
  "bstab (upd_bs i f w) = (bstab w)(i := f (bstab w i))"
  by (simp_all add: upd_bs_def)

lemma upd_bs_grab [simp]: "upd_bs i f (grab k w) = grab k (upd_bs i f w)"
  by (simp add: upd_bs_def grab_def)

lemma upd_bs_twice: "upd_bs i f (upd_bs i g w) = upd_bs i (\<lambda>e. f (g e)) w"
  by (simp add: upd_bs_def)

definition server_ready :: "vm \<Rightarrow> bool" where
  "server_ready w \<longleftrightarrow> page_server_active w \<and> sem_idle (bs_sem w) (vk w)"

definition free_store :: "vm \<Rightarrow> int \<Rightarrow> bool" where
  "free_store w i \<longleftrightarrow> \<not> isallocated (bstab w i) \<and> \<not> isopen (bstab w i)"

definition taken :: "u32 \<Rightarrow> bs_entry \<Rightarrow> bs_entry" where
  "taken n e = e\<lparr>isopen := True, npages := n, isallocated := True, usecount := 0\<rparr>"

lemma sint_page_count: "n \<le> (200 :: u32) \<Longrightarrow> sint n = uint n"
proof -
  assume "n \<le> 200"
  then have "uint n \<le> 200" by (simp add: word_le_def)
  then show ?thesis unfolding sint_uint
    by (intro signed_take_bit_int_eq_self) (simp_all add: order_trans [OF _ uint_ge_0])
qed

lemma get_bs_ok:
  assumes "server_ready w" "0 \<le> i" "i \<le> MAX_ID" "n \<noteq> 0" "n \<le> MAX_PAGES_PER_BS"
  shows "get_bs i n w =
    (if isopen (bstab w i) then Some (Ret SYSERR, w)
     else Some (Ret (sint n), upd_bs i (\<lambda>e. e\<lparr>isopen := True, npages := n\<rparr>) w))"
  using assms by (auto simp: get_bs_def page_server_up_def server_ready_def vwait_idle vsignal_grab give_def)

lemma get_bs_refuses:
  "page_server_active w \<Longrightarrow> n = 0 \<or> n > MAX_PAGES_PER_BS \<Longrightarrow> get_bs i n w = Some (Ret SYSERR, w)"
  by (auto simp: get_bs_def page_server_up_def)

lemma allocate_bs_loop_ok:
  assumes "server_ready w" "n \<noteq> 0" "n \<le> MAX_PAGES_PER_BS"
  shows "0 \<le> i \<Longrightarrow> i + int k \<le> 8 \<Longrightarrow> allocate_bs_loop k i n w =
    (case find (free_store w) [i..i + int k - 1] of
       None \<Rightarrow> Some (Ret SYSERR, w) | Some j \<Rightarrow> Some (Ret j, upd_bs j (taken n) w))"
proof (induction k arbitrary: i)
  case (Suc k)
  have l: "[i..i + int k] = i # [i + 1..i + int k]" by (subst upto.simps) simp
  have n: "sint n \<noteq> SYSERR" using sint_page_count [OF assms(3)] uint_ge_0 [of n] by linarith
  show ?case using Suc assms n
    by (cases "isopen (bstab w i)")
      (auto simp: l free_store_def get_bs_ok upd_bs_twice taken_def [abs_def])
qed simp

lemma allocate_bs_loop_refuses:
  "page_server_active w \<Longrightarrow> n = 0 \<or> n > MAX_PAGES_PER_BS \<Longrightarrow> allocate_bs_loop k i n w = Some (Ret SYSERR, w)"
  by (induction k arbitrary: i) (simp_all add: get_bs_refuses)

lemma allocate_bs_ok:
  assumes "server_ready w" "n \<noteq> 0" "n \<le> MAX_PAGES_PER_BS"
  shows "allocate_bs n w =
    (case find (free_store w) [0..7] of
       None \<Rightarrow> Some (Ret SYSERR, w) | Some j \<Rightarrow> Some (Ret j, upd_bs j (taken n) w))"
  using allocate_bs_loop_ok [OF assms, of 0 8] assms
  by (simp add: allocate_bs_def page_server_up_def server_ready_def)

lemma allocate_bs_refuses:
  "server_ready w \<Longrightarrow> n = 0 \<or> n > MAX_PAGES_PER_BS \<Longrightarrow> allocate_bs n w = Some (Ret SYSERR, w)"
  by (simp add: allocate_bs_def page_server_up_def server_ready_def allocate_bs_loop_refuses)

lemma count_bs_loop_card: "count_bs_loop n w = int (card {i \<in> {0..<int n}. \<not> isallocated (bstab w i)})"
proof (induction n)
  case (Suc n)
  let ?A = "\<lambda>m. {i \<in> {0..<int m}. \<not> isallocated (bstab w i)}"
  have "{0..<int (Suc n)} = insert (int n) {0..<int n}" by auto
  then have "?A (Suc n) = (if isallocated (bstab w (int n)) then ?A n else insert (int n) (?A n))" by auto
  moreover have "int n \<notin> ?A n" by auto
  moreover have "finite (?A n)" by (rule finite_subset [of _ "{0..<int n}"]) auto
  ultimately show ?case using Suc by simp
qed simp

lemma find_free:
  assumes "find (free_store w) [0..7] = Some j"
  shows "0 \<le> j" "j \<le> MAX_ID" "free_store w j" "0 \<le> i \<Longrightarrow> i < j \<Longrightarrow> \<not> free_store w i"
proof -
  obtain k where k: "k < length [0..7]" "free_store w ([0..7] ! k)" "j = [0..7] ! k" "\<forall>i<k. \<not> free_store w ([0..7] ! i)"
    using assms unfolding find_Some_iff by blast
  have n: "i < 8 \<Longrightarrow> [0..7] ! i = int i" for i using nth_upto [of 0 i 7] by simp
  have k8: "k < 8" using k(1) by simp
  then show "0 \<le> j" "j \<le> MAX_ID" "free_store w j" using k n by auto
  show "\<not> free_store w i" if "0 \<le> i" "i < j"
    using k(3,4) k8 n [of k] n [of "nat i"] that by (metis int_nat_eq nat_less_iff order_less_trans zless_nat_conj)
qed

lemma count_bs_take:
  assumes "0 \<le> j" "j \<le> MAX_ID" "\<not> isallocated (bstab w j)"
  shows "count_bs (upd_bs j (taken n) w) = count_bs w - 1"
proof -
  let ?A = "{i \<in> {0..<8}. \<not> isallocated (bstab w i)}"
  have "{i \<in> {0..<8}. \<not> isallocated (bstab (upd_bs j (taken n) w) i)} = ?A - {j}" by (auto simp: taken_def)
  moreover have "finite ?A" by (rule finite_subset [of _ "{0..<8}"]) auto
  moreover have "j \<in> ?A" using assms by simp
  ultimately have e: "{i \<in> {0..<8}. \<not> isallocated (bstab (upd_bs j (taken n) w) i)} = ?A - {j}"
    "finite ?A" "j \<in> ?A" by blast+
  have "int (card ?A) = int (card (?A - {j})) + 1" using card_Suc_Diff1 [OF e(2,3)] by linarith
  then show ?thesis using e(1) count_bs_loop_card [of 8] by (simp add: count_bs_def)
qed

lemma deallocate_bs_ok:
  assumes "server_ready w" "0 \<le> j" "j \<le> MAX_ID" "isallocated (bstab w j)" "isopen (bstab w j)" "usecount (bstab w j) \<le> 0"
  shows "deallocate_bs j w =
    Some (Ret j, upd_bs j (\<lambda>e. e\<lparr>isopen := False, npages := 0, isallocated := False, usecount := 0\<rparr>) w)"
  using assms
  by (simp add: deallocate_bs_def release_bs_def server_ready_def vwait_idle vsignal_grab give_def upd_bs_twice)

lemma deallocate_bs_in_use:
  "usecount (bstab w j) > 0 \<Longrightarrow> deallocate_bs j w = Some (Ret SYSERR, w)"
  by (simp add: deallocate_bs_def)

lemma open_bs_ok:
  assumes "server_ready w" "0 \<le> j" "j \<le> MAX_ID"
  shows "open_bs j w =
    (if isallocated (bstab w j) then Some (Ret j, upd_bs j (\<lambda>e. e\<lparr>usecount := wrap32 (usecount e + 1)\<rparr>) w)
     else Some (Ret SYSERR, w))"
  using assms by (simp add: open_bs_def server_ready_def vwait_idle vsignal_grab give_def)

lemma server_ready_upd [simp]: "server_ready (upd_bs j f w) = server_ready w"
  by (simp add: server_ready_def)

subsection \<open>Properties\<close>

lemma store_readyD:
  "store_ready b page w \<Longrightarrow> 0 \<le> b \<and> b \<le> MAX_ID \<and> unat page < 205"
  by (auto simp: store_ready_def word_less_nat_alt word_le_nat_alt)

text \<open>C8.  A page written to an open backing store is read back word for word, to any place in
  memory; neither call touches any other word of memory, a page of another store or another page
  of this one, the tables of the stores or the kernel.\<close>

theorem backing_store_roundtrip:
  assumes "store_ready b page w"
  shows "\<exists>w1 w2. write_bs src b page w = Some (Ret OK, w1) \<and> read_bs dst b page w1 = Some (Ret OK, w2) \<and>
    (\<forall>i < 1024. word_at (vmm w2) (dst + 4 * of_nat i) = word_at (vmm w) (src + 4 * of_nat i)) \<and>
    (\<forall>a. \<not> (unat (a - dst) < 4096 \<and> 4 dvd unat (a - dst)) \<longrightarrow> word_at (vmm w2) a = word_at (vmm w) a) \<and>
    (\<forall>b' page' j. 0 \<le> b' \<and> b' \<le> MAX_ID \<and> page' < RD_PAGES_PER_BS \<and> (b', page') \<noteq> (b, page) \<and> j < 1024 \<longrightarrow>
       page_word b' page' j w2 = page_word b' page' j w) \<and>
    bstab w2 = bstab w \<and> vk w2 = vk w"
proof -
  let ?w1 = "w\<lparr>disk := store_blocks 8 src (rd_blk b page) (vmm w) (disk w), disk_answers := drop 8 (disk_answers w)\<rparr>"
  let ?w2 = "?w1\<lparr>vmm := load_blocks 8 dst (rd_blk b page) (disk ?w1) (vmm ?w1), disk_answers := drop 8 (disk_answers ?w1)\<rparr>"
  note D = store_readyD [OF assms]
  have "store_ready b page ?w1"
    using assms disk_ok_drop [of w ?w1 8] by (simp add: store_ready_def)
  then have "write_bs src b page w = Some (Ret OK, ?w1)" "read_bs dst b page ?w1 = Some (Ret OK, ?w2)"
    using write_bs_ok [OF assms] read_bs_ok by blast+
  moreover have P: "page_word b' page' j ?w1 =
      (if b' = b \<and> page' = page then word_at (vmm w) (src + 4 * of_nat j) else page_word b' page' j w)"
    if "0 \<le> b'" "b' \<le> MAX_ID" "unat page' < 205" "j < 1024" for b' page' j
    by (rule store_page_word) (use D that in simp_all)
  have "word_at (vmm ?w2) (dst + 4 * of_nat i) = word_at (vmm w) (src + 4 * of_nat i)" if "i < 1024" for i
  proof -
    have "word_at (vmm ?w2) (dst + 4 * of_nat i) = page_word b page i ?w1" using load_page_word [OF that, of dst b page ?w1 "vmm w"] by simp
    then show ?thesis using P [of b page i] D that by simp
  qed
  moreover have "word_at (vmm ?w2) a = word_at (vmm w) a" if "\<not> (unat (a - dst) < 4096 \<and> 4 dvd unat (a - dst))" for a
    using load_blocks_at [of 8 dst "rd_blk b page" "disk ?w1" "vmm w" a] that by simp
  moreover have "page_word b' page' j ?w2 = page_word b' page' j w"
    if "0 \<le> b'" "b' \<le> MAX_ID" "page' < RD_PAGES_PER_BS" "(b', page') \<noteq> (b, page)" "j < 1024" for b' page' j
    using P [of b' page' j] that by (auto simp: page_word_def word_less_nat_alt)
  ultimately show ?thesis by (intro exI [of _ ?w1] exI [of _ ?w2]) simp
qed

lemma backing_store_roundtrip_witness:
  "\<exists>w1 w2. write_bs 0x408000 0 5 (demo_vm 1) = Some (Ret OK, w1) \<and> read_bs 0x409000 0 5 w1 = Some (Ret OK, w2) \<and>
     word_at (vmm w2) 0x409004 = 0 \<and> word_at (vmm w2) 0x408000 = 0 \<and> page_word 0 6 1 w2 = 49"
proof -
  have "store_ready 0 5 (demo_vm 1)" by (simp add: store_ready_def)
  from backing_store_roundtrip [OF this, of "0x408000" "0x409000"] obtain w1 w2 where
    w: "write_bs 0x408000 0 5 (demo_vm 1) = Some (Ret OK, w1)" "read_bs 0x409000 0 5 w1 = Some (Ret OK, w2)"
    and a: "\<forall>i < 1024. word_at (vmm w2) (0x409000 + 4 * of_nat i) = word_at (vmm (demo_vm 1)) (0x408000 + 4 * of_nat i)"
    and b: "\<forall>a. \<not> (unat (a - 0x409000) < 4096 \<and> 4 dvd unat (a - 0x409000)) \<longrightarrow> word_at (vmm w2) a = word_at (vmm (demo_vm 1)) a"
    and c: "\<forall>b' page' j. 0 \<le> b' \<and> b' \<le> MAX_ID \<and> page' < RD_PAGES_PER_BS \<and> (b', page') \<noteq> (0, 5) \<and> j < 1024 \<longrightarrow>
       page_word b' page' j w2 = page_word b' page' j (demo_vm 1)" by blast
  have "word_at (vmm w2) 0x409004 = 0" using a [rule_format, of 1] by (simp add: demo_word_def)
  moreover have "word_at (vmm w2) 0x408000 = 0" using b [rule_format, of "0x408000"] by (simp add: demo_word_def)
  moreover have "page_word 0 6 1 w2 = 49" using c [rule_format, of 0 6 1] by (simp add: page_word_def demo_vm_def rd_blk_def)
  ultimately show ?thesis using w by blast
qed

text \<open>\<open>allocate_bs\<close> takes the lowest store that is free and refuses sizes of zero or above 200
  pages, and when no store is free.  One store less is then counted as free, nobody can
  deallocate it once it has been opened, and deallocating it before makes its entry free again.\<close>

theorem stores_allocated_lowest_first:
  assumes "server_ready w"
  shows "allocate_bs n w =
      (if n = 0 \<or> n > MAX_PAGES_PER_BS then Some (Ret SYSERR, w)
       else case find (free_store w) [0..7] of
         None \<Rightarrow> Some (Ret SYSERR, w) | Some j \<Rightarrow> Some (Ret j, upd_bs j (taken n) w)) \<and>
    (\<forall>j. find (free_store w) [0..7] = Some j \<longrightarrow>
       free_store w j \<and> (\<forall>i. 0 \<le> i \<and> i < j \<longrightarrow> \<not> free_store w i) \<and>
       count_bs (upd_bs j (taken n) w) = count_bs w - 1 \<and>
       (\<exists>w1 w2. open_bs j (upd_bs j (taken n) w) = Some (Ret j, w1) \<and> deallocate_bs j w1 = Some (Ret SYSERR, w1) \<and>
          deallocate_bs j (upd_bs j (taken n) w) = Some (Ret j, w2) \<and> free_store w2 j \<and> count_bs w2 = count_bs w))"
proof -
  have "free_store w j \<and> (\<forall>i. 0 \<le> i \<and> i < j \<longrightarrow> \<not> free_store w i) \<and> count_bs (upd_bs j (taken n) w) = count_bs w - 1 \<and>
       (\<exists>w1 w2. open_bs j (upd_bs j (taken n) w) = Some (Ret j, w1) \<and> deallocate_bs j w1 = Some (Ret SYSERR, w1) \<and>
          deallocate_bs j (upd_bs j (taken n) w) = Some (Ret j, w2) \<and> free_store w2 j \<and> count_bs w2 = count_bs w)"
    if f: "find (free_store w) [0..7] = Some j" for j
  proof -
    note J = find_free [OF f]
    let ?w = "upd_bs j (taken n) w"
    let ?w1 = "upd_bs j (\<lambda>e. e\<lparr>usecount := wrap32 (usecount e + 1)\<rparr>) ?w"
    let ?w2 = "upd_bs j (\<lambda>e. e\<lparr>isopen := False, npages := 0, isallocated := False, usecount := 0\<rparr>) ?w"
    have r: "server_ready ?w" using assms by simp
    have o: "open_bs j ?w = Some (Ret j, ?w1)" using open_bs_ok [OF r J(1,2)] by (simp add: taken_def)
    have d: "deallocate_bs j ?w1 = Some (Ret SYSERR, ?w1)" by (rule deallocate_bs_in_use) (simp add: taken_def)
    have "deallocate_bs j ?w = Some (Ret j, ?w2)" using deallocate_bs_ok [OF r J(1,2)] by (simp add: taken_def)
    moreover have "free_store ?w2 j" by (simp add: free_store_def)
    moreover have "{i \<in> {0..<int 8}. \<not> isallocated (bstab ?w2 i)} = {i \<in> {0..<int 8}. \<not> isallocated (bstab w i)}"
      using J(3) by (auto simp: free_store_def)
    then have "count_bs ?w2 = count_bs w" by (simp only: count_bs_def count_bs_loop_card)
    moreover have "count_bs ?w = count_bs w - 1" using count_bs_take J(1-3) by (simp add: free_store_def)
    ultimately show ?thesis using J(3,4) o d by blast
  qed
  moreover have "\<not> n > MAX_PAGES_PER_BS \<Longrightarrow> n \<le> MAX_PAGES_PER_BS" by (simp only: not_less)
  ultimately show ?thesis using allocate_bs_ok [OF assms, of n] allocate_bs_refuses [OF assms, of n] by auto
qed

lemma stores_allocated_lowest_first_witness:
  "allocate_bs 10 (demo_vm 1) = Some (Ret 1, upd_bs 1 (taken 10) (demo_vm 1))"
proof -
  have "server_ready (demo_vm 1)" by (simp add: server_ready_def)
  from stores_allocated_lowest_first [OF this, of 10]
  have "allocate_bs 10 (demo_vm 1) = (case find (free_store (demo_vm 1)) [0..7] of
      None \<Rightarrow> Some (Ret SYSERR, demo_vm 1) | Some j \<Rightarrow> Some (Ret j, upd_bs j (taken 10) (demo_vm 1)))" by simp
  moreover have "[0..7] = 0 # 1 # [2..7]" by (simp add: upto_rec1)
  ultimately show ?thesis by (simp add: free_store_def)
qed

end
