(* ===== verification/FrameLemmas.thy ===== *)
theory FrameLemmas
  imports BackStoreProps
begin

text \<open>
  The invariant of the frame table and what each part of \<open>get_free_frame_number\<close> does to it: the
  frames in the list are exactly those that hold pages, every entry has its own number, and the
  dummy entries at the ends have none.
\<close>

definition frames_ok :: "nat list \<Rightarrow> vm \<Rightarrow> bool" where
  "frames_ok xs w \<longleftrightarrow>
     pages xs w \<and> set xs = {i. i < NFRAMES \<and> valid (ivs w (FEnt i)) = PAGE} \<and>
     (\<forall>i < NFRAMES. frame_number (ivs w (FEnt i)) = of_nat i) \<and>
     frame_number (ivs w FHead) = - 1 \<and> frame_number (ivs w FTail) = - 1"

text \<open>The state in the middle of a replacement: frame \<open>i\<close> holds a page that is not in the list.\<close>

definition frames_but :: "nat \<Rightarrow> nat list \<Rightarrow> vm \<Rightarrow> bool" where
  "frames_but i xs w \<longleftrightarrow>
     pages xs w \<and> i < NFRAMES \<and> set xs = {j. j < NFRAMES \<and> valid (ivs w (FEnt j)) = PAGE} - {i} \<and>
     (\<forall>i < NFRAMES. frame_number (ivs w (FEnt i)) = of_nat i) \<and>
     frame_number (ivs w FHead) = - 1 \<and> frame_number (ivs w FTail) = - 1"

lemma frames_okD:
  assumes "frames_ok xs w" "i \<in> set xs"
  shows "i < NFRAMES" "valid (ivs w (FEnt i)) = PAGE" "frame_number (ivs w (FEnt i)) = of_nat i"
proof -
  have "i \<in> {i. i < NFRAMES \<and> valid (ivs w (FEnt i)) = PAGE}" using assms unfolding frames_ok_def by blast
  then show "i < NFRAMES" "valid (ivs w (FEnt i)) = PAGE" "frame_number (ivs w (FEnt i)) = of_nat i"
    using assms by (auto simp: frames_ok_def)
qed

lemma pages_cong:
  assumes "\<And>r. fifo_prev (ivs w' r) = fifo_prev (ivs w r)" "\<And>r. fifo_next (ivs w' r) = fifo_next (ivs w r)"
  shows "pages xs w' = pages xs w"
  using seg_cong [of FHead xs "ivs w'" "ivs w" FTail] assms by (simp add: pages_def)

lemma frames_ok_cong:
  assumes "\<And>r. fifo_prev (ivs w' r) = fifo_prev (ivs w r)" "\<And>r. fifo_next (ivs w' r) = fifo_next (ivs w r)"
    and "\<And>r. valid (ivs w' r) = valid (ivs w r)" "\<And>r. frame_number (ivs w' r) = frame_number (ivs w r)"
  shows "frames_ok xs w' = frames_ok xs w"
  using pages_cong [OF assms(1,2)] by (simp only: frames_ok_def assms(3,4))

lemma frames_ok_ivs: "ivs w' = ivs w \<Longrightarrow> frames_ok xs w' = frames_ok xs w"
  by (simp add: frames_ok_def pages_def)

lemma frames_but_ivs: "ivs w' = ivs w \<Longrightarrow> frames_but i xs w' = frames_but i xs w"
  by (simp add: frames_but_def pages_def)

subsection \<open>The fields the list operations keep\<close>

lemma fifo_push_fields [simp]:
  "valid (ivs (fifo_push i w) r) = valid (ivs w r)" "frame_number (ivs (fifo_push i w) r) = frame_number (ivs w r)"
  "ivpid (ivs (fifo_push i w) r) = ivpid (ivs w r)" "vpage_num (ivs (fifo_push i w) r) = vpage_num (ivs w r)"
  "ref_count (ivs (fifo_push i w) r) = ref_count (ivs w r)"
  by (simp_all add: fifo_push_def Let_def)

lemma fifo_unlink_fields [simp]:
  "valid (ivs (fifo_unlink i w) r) = valid (ivs w r)" "frame_number (ivs (fifo_unlink i w) r) = frame_number (ivs w r)"
  "ivpid (ivs (fifo_unlink i w) r) = ivpid (ivs w r)" "vpage_num (ivs (fifo_unlink i w) r) = vpage_num (ivs w r)"
  "ref_count (ivs (fifo_unlink i w) r) = ref_count (ivs w r)"
  by (simp_all add: fifo_unlink_def Let_def)

lemma fifo_push_others [simp]:
  "vk (fifo_push i w) = vk w" "vmm (fifo_push i w) = vmm w" "fifo_hand (fifo_push i w) = fifo_hand w"
  "bsmap (fifo_push i w) = bsmap w" "bstab (fifo_push i w) = bstab w" "page_server_active (fifo_push i w) = page_server_active w"
  "bs_sem (fifo_push i w) = bs_sem w" "bs_init_sem (fifo_push i w) = bs_init_sem w" "get_frame_sem (fifo_push i w) = get_frame_sem w"
  "pgf_frame_sem (fifo_push i w) = pgf_frame_sem w" "currpolicy (fifo_push i w) = currpolicy w" "num_fault (fifo_push i w) = num_fault w"
  "frame_md (fifo_push i w) = frame_md w" "disk (fifo_push i w) = disk w" "disk_answers (fifo_push i w) = disk_answers w"
  "vnodes (fifo_push i w) = vnodes w" "junk (fifo_push i w) = junk w"
  by (simp_all add: fifo_push_def Let_def set_iv_def)

lemma fifo_unlink_others [simp]:
  "vk (fifo_unlink i w) = vk w" "vmm (fifo_unlink i w) = vmm w" "fifo_hand (fifo_unlink i w) = fifo_hand w"
  "bsmap (fifo_unlink i w) = bsmap w" "bstab (fifo_unlink i w) = bstab w" "page_server_active (fifo_unlink i w) = page_server_active w"
  "bs_sem (fifo_unlink i w) = bs_sem w" "bs_init_sem (fifo_unlink i w) = bs_init_sem w" "get_frame_sem (fifo_unlink i w) = get_frame_sem w"
  "pgf_frame_sem (fifo_unlink i w) = pgf_frame_sem w" "currpolicy (fifo_unlink i w) = currpolicy w" "num_fault (fifo_unlink i w) = num_fault w"
  "frame_md (fifo_unlink i w) = frame_md w" "disk (fifo_unlink i w) = disk w" "disk_answers (fifo_unlink i w) = disk_answers w"
  "vnodes (fifo_unlink i w) = vnodes w" "junk (fifo_unlink i w) = junk w"
  by (simp_all add: fifo_unlink_def Let_def set_iv_def)

lemma upd_vmm_fields [simp]:
  "ivs (upd_vmm f w) = ivs w" "vmm (upd_vmm f w) = f (vmm w)"
  "vk (upd_vmm f w) = vk w" "fifo_hand (upd_vmm f w) = fifo_hand w"
  "bsmap (upd_vmm f w) = bsmap w" "bstab (upd_vmm f w) = bstab w" "page_server_active (upd_vmm f w) = page_server_active w"
  "bs_sem (upd_vmm f w) = bs_sem w" "bs_init_sem (upd_vmm f w) = bs_init_sem w" "get_frame_sem (upd_vmm f w) = get_frame_sem w"
  "pgf_frame_sem (upd_vmm f w) = pgf_frame_sem w" "currpolicy (upd_vmm f w) = currpolicy w" "num_fault (upd_vmm f w) = num_fault w"
  "frame_md (upd_vmm f w) = frame_md w" "disk (upd_vmm f w) = disk w" "disk_answers (upd_vmm f w) = disk_answers w"
  "vnodes (upd_vmm f w) = vnodes w" "junk (upd_vmm f w) = junk w"
  by (simp_all add: upd_vmm_def)

subsection \<open>Taking a frame\<close>

lemma free_frame_Some:
  "free_frame n i w = Some j \<Longrightarrow> i \<le> j \<and> j < i + n \<and> valid (ivs w (FEnt j)) = NULL_PAGE"
  by (induction n arbitrary: i) (force split: if_splits)+

lemma free_frame_None:
  "free_frame n i w = None \<longleftrightarrow> (\<forall>j. i \<le> j \<and> j < i + n \<longrightarrow> valid (ivs w (FEnt j)) \<noteq> NULL_PAGE)"
proof (induction n arbitrary: i)
  case (Suc n)
  have "i \<le> j \<and> j < i + Suc n \<longleftrightarrow> j = i \<or> (i + 1 \<le> j \<and> j < i + 1 + n)" for j by auto
  then show ?case unfolding free_frame.simps by (auto simp only: Suc split: if_splits)
qed auto

lemma pages_set_iv:
  assumes "\<And>e. fifo_prev (f e) = fifo_prev e" "\<And>e. fifo_next (f e) = fifo_next e"
  shows "pages xs (set_iv r f w) = pages xs w"
  by (rule pages_cong) (simp_all add: assms)

lemma take_frame_ok:
  assumes "frames_ok xs w" "i < NFRAMES" "valid (ivs w (FEnt i)) = NULL_PAGE" "purpose \<noteq> NULL_PAGE"
  shows "frames_ok (if purpose = PAGE then xs @ [i] else xs) (take_frame i pid vpn purpose w)"
proof -
  let ?w1 = "set_iv (FEnt i) (\<lambda>e. e\<lparr>valid := purpose, ivpid := pid\<rparr>) w"
  let ?w2 = "set_iv (FEnt i) (\<lambda>e. e\<lparr>vpage_num := vpn\<rparr>) ?w1"
  have p: "pages xs ?w1" "pages xs ?w2" and i: "i \<notin> set xs"
    using assms by (auto simp: frames_ok_def pages_set_iv)
  have "pages (xs @ [i]) (fifo_push i ?w2)" by (rule fifo_push_links [OF p(2) i])
  then show ?thesis using assms p by (auto simp: frames_ok_def take_frame_def Let_def)
qed

lemma take_frame_again:
  assumes "frames_but i xs w" "purpose \<noteq> NULL_PAGE"
  shows "frames_ok (if purpose = PAGE then xs @ [i] else xs) (take_frame i pid vpn purpose w)"
proof -
  let ?w1 = "set_iv (FEnt i) (\<lambda>e. e\<lparr>valid := purpose, ivpid := pid\<rparr>) w"
  let ?w2 = "set_iv (FEnt i) (\<lambda>e. e\<lparr>vpage_num := vpn\<rparr>) ?w1"
  have p: "pages xs ?w1" "pages xs ?w2" and i: "i \<notin> set xs"
    using assms by (auto simp: frames_but_def pages_set_iv)
  have "pages (xs @ [i]) (fifo_push i ?w2)" by (rule fifo_push_links [OF p(2) i])
  then show ?thesis using assms p by (auto simp: frames_ok_def frames_but_def take_frame_def Let_def)
qed

subsection \<open>Choosing and dropping a page\<close>

lemma unlink_ok:
  assumes "frames_ok (ys @ i # zs) w"
  shows "frames_but i (ys @ zs) (fifo_unlink i w)"
proof -
  have p: "pages (ys @ zs) (fifo_unlink i w)" using assms fifo_unlink_links by (auto simp: frames_ok_def)
  have s: "set (ys @ i # zs) = {j. j < NFRAMES \<and> valid (ivs w (FEnt j)) = PAGE}" and d: "distinct (ys @ i # zs)"
    using assms by (auto simp: frames_ok_def pages_def)
  then have "set (ys @ zs) = {j. j < NFRAMES \<and> valid (ivs w (FEnt j)) = PAGE} - {i}" by auto
  moreover have "i < NFRAMES" using s by auto
  ultimately show ?thesis using assms p by (simp add: frames_ok_def frames_but_def)
qed

lemma frame_number_of: "i < NFRAMES \<Longrightarrow> unat (of_nat i :: u32) = i"
  by (simp add: unat_of_nat)

lemma unat_minus_one: "unat (- 1 :: u32) = 4294967295"
  by (simp add: unat_eq_nat_uint uint_word_ariths)

text \<open>FIFO takes the page at the head of the list, and has none to take when the list is empty.\<close>

lemma fifo_victim_ok:
  assumes "frames_ok xs w"
  shows "fifo_victim w = (case xs of [] \<Rightarrow> None | i # zs \<Rightarrow> Some (i, fifo_unlink i w))"
proof (cases xs)
  case Nil
  then show ?thesis using assms by (simp add: frames_ok_def pages_def fifo_victim_def Let_def unat_minus_one)
next
  case (Cons i zs)
  then have m: "i \<in> set xs" by simp
  have h: "fifo_prev (ivs w FHead) = FEnt i" using assms Cons by (simp add: frames_ok_def pages_def)
  have i: "i < NFRAMES" "valid (ivs w (FEnt i)) = PAGE" "frame_number (ivs w (FEnt i)) = of_nat i"
    using frames_okD [OF assms m] by simp_all
  then show ?thesis using Cons h by (simp add: fifo_victim_def Let_def frame_number_of)
qed

lemma frames_but_set_tab:
  assumes "frames_but i xs w" "valid (ivs w (FEnt t)) = PAGE_TAB" "\<And>e. valid (f e) = valid e \<or> valid (f e) = NULL_PAGE"
    and "\<And>e. fifo_prev (f e) = fifo_prev e" "\<And>e. fifo_next (f e) = fifo_next e" "\<And>e. frame_number (f e) = frame_number e"
  shows "frames_but i xs (set_iv (FEnt t) f w)"
proof -
  have "valid (f (ivs w (FEnt t))) \<noteq> PAGE" using assms(2) assms(3) [of "ivs w (FEnt t)"] by auto
  then have "{j. j < NFRAMES \<and> valid (ivs (set_iv (FEnt t) f w) (FEnt j)) = PAGE} = {j. j < NFRAMES \<and> valid (ivs w (FEnt j)) = PAGE}"
    using assms(2) by auto
  then show ?thesis using assms by (simp add: frames_but_def pages_set_iv)
qed

lemma drop_page_ok:
  assumes "frames_but i xs w" "drop_page j w = Some w'"
  shows "frames_but i xs w'"
proof -
  let ?v = "ivpid (ivs w (FEnt j))"
  obtain pt pd t where d: "table_frame pd (upd_vmm (clear_bit_at 0 pt) w) = Some t" "valid (ivs w (FEnt t)) = PAGE_TAB"
    "w' = (let w = set_iv (FEnt t) (\<lambda>e. e\<lparr>ref_count := ref_count e - 1\<rparr>) (upd_vmm (clear_bit_at 0 pt) w) in
       if ref_count (ivs w (FEnt t)) = 0 then set_iv (FEnt t) (\<lambda>e. e\<lparr>valid := NULL_PAGE\<rparr>) (upd_vmm (clear_bit_at 0 pd) w) else w)"
    using assms(2) by (auto simp: drop_page_def Let_def split: option.splits if_splits)
  let ?w1 = "set_iv (FEnt t) (\<lambda>e. e\<lparr>ref_count := ref_count e - 1\<rparr>) (upd_vmm (clear_bit_at 0 pt) w)"
  have 1: "frames_but i xs ?w1"
    by (rule frames_but_set_tab) (use assms(1) d(2) frames_but_ivs [of "upd_vmm (clear_bit_at 0 pt) w" w] in auto)
  have 2: "frames_but i xs (set_iv (FEnt t) (\<lambda>e. e\<lparr>valid := NULL_PAGE\<rparr>) (upd_vmm (clear_bit_at 0 pd) ?w1))"
    by (rule frames_but_set_tab) (use 1 d(2) frames_but_ivs [of "upd_vmm (clear_bit_at 0 pd) ?w1" ?w1] in auto)
  show ?thesis using 1 2 d(3) by (simp add: Let_def)
qed

subsection \<open>Replacing a page\<close>

text \<open>Where the page in frame \<open>i\<close> is entered: its directory entry and its page table entry.\<close>

definition dir_of :: "nat \<Rightarrow> vm \<Rightarrow> u32" where
  "dir_of i w = pd_addr (ivpid (ivs w (FEnt i))) (drop_bit 22 (vpage_num (ivs w (FEnt i)) * PAGE_SIZE)) w"

definition pte_of :: "nat \<Rightarrow> vm \<Rightarrow> u32" where
  "pte_of i w = pt_addr (dir_of i w) (and (drop_bit 12 (vpage_num (ivs w (FEnt i)) * PAGE_SIZE)) 0x3ff) w"

definition page_mapped :: "nat \<Rightarrow> nat \<Rightarrow> vm \<Rightarrow> bool" where
  "page_mapped i t w \<longleftrightarrow> table_frame (dir_of i w) w = Some t \<and> valid (ivs w (FEnt t)) = PAGE_TAB \<and> pte_of i w \<noteq> dir_of i w"

text \<open>The page of a store that backs the page in frame \<open>i\<close>.\<close>

definition store_of :: "nat \<Rightarrow> vm \<Rightarrow> u32 \<times> u32" where
  "store_of i w = get_store_offset (ivpid (ivs w (FEnt i))) (vpage_num (ivs w (FEnt i)) * PAGE_SIZE) (junk w) w"

definition page_stored :: "nat \<Rightarrow> vm \<Rightarrow> bool" where
  "page_stored i w \<longleftrightarrow> store_ready (sint (fst (store_of i w))) (snd (store_of i w)) w"

text \<open>What the log of the hooks expects to be replaced next.\<close>

definition log_expects :: "nat \<Rightarrow> vm \<Rightarrow> bool" where
  "log_expects i w \<longleftrightarrow>
     alloc_page (frame_md w) (reclaimframe (frame_md w)) = vpage_num (ivs w (FEnt i)) \<and>
     alloc_page_proc (frame_md w) (reclaimframe (frame_md w)) = ivpid (ivs w (FEnt i))"

definition unmap :: "nat \<Rightarrow> nat \<Rightarrow> vm \<Rightarrow> vm" where
  "unmap i t w =
     (let w' = set_iv (FEnt t) (\<lambda>e. e\<lparr>ref_count := ref_count e - 1\<rparr>) (upd_vmm (clear_bit_at 0 (pte_of i w)) w)
      in if ref_count (ivs w (FEnt t)) = 1
         then set_iv (FEnt t) (\<lambda>e. e\<lparr>valid := NULL_PAGE\<rparr>) (upd_vmm (clear_bit_at 0 (dir_of i w)) w') else w')"

lemma table_frame_upd [simp]: "a \<noteq> pd \<Longrightarrow> table_frame pd (upd_vmm (clear_bit_at n a) w) = table_frame pd w"
  by (simp add: table_frame_def clear_bit_at_def)

lemma drop_page_mapped:
  assumes "page_mapped i t w"
  shows "drop_page i w = Some (unmap i t w)"
  using assms
  by (simp add: drop_page_def page_mapped_def unmap_def Let_def dir_of_def [symmetric] pte_of_def [symmetric]
      del: upd_vmm_fields(3-))

lemma unmap_fields [simp]:
  "vk (unmap i t w) = vk w" "fifo_hand (unmap i t w) = fifo_hand w" "bsmap (unmap i t w) = bsmap w"
  "bstab (unmap i t w) = bstab w" "page_server_active (unmap i t w) = page_server_active w" "bs_sem (unmap i t w) = bs_sem w"
  "bs_init_sem (unmap i t w) = bs_init_sem w" "get_frame_sem (unmap i t w) = get_frame_sem w" "pgf_frame_sem (unmap i t w) = pgf_frame_sem w"
  "currpolicy (unmap i t w) = currpolicy w" "num_fault (unmap i t w) = num_fault w" "frame_md (unmap i t w) = frame_md w"
  "disk (unmap i t w) = disk w" "disk_answers (unmap i t w) = disk_answers w" "vnodes (unmap i t w) = vnodes w"
  "junk (unmap i t w) = junk w"
  "ivpid (ivs (unmap i t w) r) = ivpid (ivs w r)" "vpage_num (ivs (unmap i t w) r) = vpage_num (ivs w r)"
  "vmm (unmap i t w) = (let m = clear_bit_at 0 (pte_of i w) (vmm w) in
     if ref_count (ivs w (FEnt t)) = 1 then clear_bit_at 0 (dir_of i w) m else m)"
  by (simp_all add: unmap_def Let_def set_iv_def upd_vmm_def)

lemma take_frame_fields [simp]:
  "vk (take_frame i pid vpn purpose w) = vk w" "fifo_hand (take_frame i pid vpn purpose w) = fifo_hand w" "bsmap (take_frame i pid vpn purpose w) = bsmap w"
  "bstab (take_frame i pid vpn purpose w) = bstab w" "page_server_active (take_frame i pid vpn purpose w) = page_server_active w" "bs_sem (take_frame i pid vpn purpose w) = bs_sem w"
  "bs_init_sem (take_frame i pid vpn purpose w) = bs_init_sem w" "get_frame_sem (take_frame i pid vpn purpose w) = get_frame_sem w" "pgf_frame_sem (take_frame i pid vpn purpose w) = pgf_frame_sem w"
  "currpolicy (take_frame i pid vpn purpose w) = currpolicy w" "num_fault (take_frame i pid vpn purpose w) = num_fault w" "frame_md (take_frame i pid vpn purpose w) = frame_md w"
  "disk (take_frame i pid vpn purpose w) = disk w" "disk_answers (take_frame i pid vpn purpose w) = disk_answers w" "vnodes (take_frame i pid vpn purpose w) = vnodes w"
  "junk (take_frame i pid vpn purpose w) = junk w"
  "vmm (take_frame i pid vpn purpose w) = vmm w" "ivpid (ivs (take_frame i pid vpn purpose w) (FEnt i)) = pid"
  "valid (ivs (take_frame i pid vpn purpose w) (FEnt i)) = purpose"
  "purpose = PAGE \<Longrightarrow> vpage_num (ivs (take_frame i pid vpn purpose w) (FEnt i)) = vpn"
  "r \<noteq> FEnt i \<Longrightarrow> valid (ivs (take_frame i pid vpn purpose w) r) = valid (ivs w r)"
  "r \<noteq> FEnt i \<Longrightarrow> ivpid (ivs (take_frame i pid vpn purpose w) r) = ivpid (ivs w r)"
  "r \<noteq> FEnt i \<Longrightarrow> vpage_num (ivs (take_frame i pid vpn purpose w) r) = vpage_num (ivs w r)"
  "ref_count (ivs (take_frame i pid vpn purpose w) r) = ref_count (ivs w r)"
  by (simp_all add: take_frame_def Let_def set_iv_def)

definition log_pop :: "frame_log \<Rightarrow> frame_log" where
  "log_pop d = d\<lparr>reclaimframe := (if reclaimframe d + 1 = int NFRAMES then 0 else reclaimframe d + 1)\<rparr>"

lemma hook_passes:
  assumes "\<not> isbadpid (vk w) (currpid (vk w))"
    and "currpolicy w = FIFO \<Longrightarrow> alloc_page (frame_md w) (reclaimframe (frame_md w)) = vpn \<and>
      alloc_page_proc (frame_md w) (reclaimframe (frame_md w)) = pid"
  shows "hook_pswap_out pid vpn w = Some (if currpolicy w = FIFO then w\<lparr>frame_md := log_pop (frame_md w)\<rparr> else w)"
  using assms by (simp add: hook_pswap_out_def Let_def log_pop_def)

text \<open>The replacement of page \<open>i\<close>, in full.\<close>

definition replaced :: "nat \<Rightarrow> nat \<Rightarrow> int \<Rightarrow> u32 \<Rightarrow> frame_use \<Rightarrow> vm \<Rightarrow> vm" where
  "replaced i t pid vpn purpose w =
     (let (b, off) = store_of i w;
          w1 = w\<lparr>disk := store_blocks 8 ((of_nat i + 1024) * PAGE_SIZE) (rd_blk (sint b) off) (vmm w) (disk w),
                 disk_answers := drop 8 (disk_answers w)\<rparr>;
          w2 = take_frame i pid vpn purpose (unmap i t w1)
      in if currpolicy w = FIFO then w2\<lparr>frame_md := log_pop (frame_md w)\<rparr> else w2)"

lemma after_write [simp]:
  "dir_of i (w\<lparr>disk := d, disk_answers := r\<rparr>) = dir_of i w" "pte_of i (w\<lparr>disk := d, disk_answers := r\<rparr>) = pte_of i w"
  "page_mapped i t (w\<lparr>disk := d, disk_answers := r\<rparr>) = page_mapped i t w"
  by (simp_all add: dir_of_def pte_of_def pd_addr_def pt_addr_def page_mapped_def table_frame_def)

lemma evict_ok:
  assumes "page_stored i w" "page_mapped i t w" "currpolicy w = FIFO \<Longrightarrow> log_expects i w"
    and "\<not> isbadpid (vk w) (currpid (vk w))" "sem_held (get_frame_sem w) (vk w)"
  shows "evict i pid vpn purpose w = Some (Ret i, drop_sem (get_frame_sem w) (replaced i t pid vpn purpose w))"
proof -
  let ?b = "sint (fst (store_of i w))" and ?off = "snd (store_of i w)"
  let ?src = "(of_nat i + 1024) * PAGE_SIZE"
  let ?w1 = "w\<lparr>disk := store_blocks 8 ?src (rd_blk ?b ?off) (vmm w) (disk w), disk_answers := drop 8 (disk_answers w)\<rparr>"
  let ?w2 = "take_frame i pid vpn purpose (unmap i t ?w1)"
  let ?w3 = "if currpolicy w = FIFO then ?w2\<lparr>frame_md := log_pop (frame_md w)\<rparr> else ?w2"
  have 1: "write_page_back i w = Some (Ret OK, ?w1)"
    using write_bs_ok [of ?b ?off w ?src] assms(1)
    by (simp add: write_page_back_def page_stored_def store_of_def Let_def split_def)
  have 2: "drop_page i ?w1 = Some (unmap i t ?w1)" by (rule drop_page_mapped) (simp add: assms(2))
  have 3: "hook_pswap_out (ivpid (ivs w (FEnt i))) (vpage_num (ivs w (FEnt i))) ?w2 = Some ?w3"
    using hook_passes [of ?w2 "vpage_num (ivs w (FEnt i))" "ivpid (ivs w (FEnt i))"] assms(3,4) by (simp add: log_expects_def)
  have "sem_held (get_frame_sem w) (vk ?w3)" using assms(5) by simp
  then have 4: "vsignal (get_frame_sem w) ?w3 = Some (Ret (), drop_sem (get_frame_sem w) ?w3)" by (rule vsignal_held)
  have g: "get_frame_sem ?w3 = get_frame_sem w" by simp
  show ?thesis
    unfolding evict_def replaced_def Let_def split_def
    by (subst andthen_simps(2), rule 1) (use 2 3 4 g in \<open>simp add: give_def\<close>)
qed

subsection \<open>Getting a frame\<close>

lemma set_iv_grab [simp]: "set_iv r f (grab k w) = grab k (set_iv r f w)"
  by (simp add: set_iv_def grab_def)

lemma upd_vmm_grab [simp]: "upd_vmm f (grab k w) = grab k (upd_vmm f w)"
  by (simp add: upd_vmm_def grab_def)

lemma list_ops_grab [simp]:
  "fifo_push i (grab k w) = grab k (fifo_push i w)" "fifo_unlink i (grab k w) = grab k (fifo_unlink i w)"
  "take_frame i pid vpn purpose (grab k w) = grab k (take_frame i pid vpn purpose w)"
  by (simp_all add: fifo_push_def fifo_unlink_def take_frame_def Let_def)

lemma entries_grab [simp]:
  "dir_of i (grab k w) = dir_of i w" "pte_of i (grab k w) = pte_of i w" "store_of i (grab k w) = store_of i w"
  "page_mapped i t (grab k w) = page_mapped i t w" "log_expects i (grab k w) = log_expects i w"
  "unmap i t (grab k w) = grab k (unmap i t w)" "free_frame n i (grab k w) = free_frame n i w"
  "fifo_victim (grab k w) = map_option (\<lambda>(i, w). (i, grab k w)) (fifo_victim w)"
proof -
  have p: "get_store_offset_loop n i pid v out (grab k w) = get_store_offset_loop n i pid v out w" for n i pid v out
    by (induction n arbitrary: i) (simp_all add: Let_def)
  have f: "free_frame n i (grab k w) = free_frame n i w" for n i by (induction n arbitrary: i) simp_all
  show "dir_of i (grab k w) = dir_of i w" "pte_of i (grab k w) = pte_of i w"
    by (simp_all add: dir_of_def pte_of_def pd_addr_def pt_addr_def set_scount_def)
  then show "page_mapped i t (grab k w) = page_mapped i t w" "unmap i t (grab k w) = grab k (unmap i t w)"
    by (simp_all add: page_mapped_def table_frame_def unmap_def Let_def)
  show "store_of i (grab k w) = store_of i w" "log_expects i (grab k w) = log_expects i w"
    "free_frame n i (grab k w) = free_frame n i w"
    "fifo_victim (grab k w) = map_option (\<lambda>(i, w). (i, grab k w)) (fifo_victim w)"
    by (simp_all add: store_of_def get_store_offset_def p f log_expects_def fifo_victim_def Let_def)
qed

lemma replaced_grab [simp]: "replaced i t pid vpn purpose (grab k w) = grab k (replaced i t pid vpn purpose w)"
proof -
  have "(grab k w)\<lparr>disk := d, disk_answers := r\<rparr> = grab k (w\<lparr>disk := d, disk_answers := r\<rparr>)"
    "(grab k w)\<lparr>frame_md := l\<rparr> = grab k (w\<lparr>frame_md := l\<rparr>)" for d r l w
    by (simp_all add: grab_def)
  then show ?thesis by (simp add: replaced_def Let_def split_def)
qed

lemma get_free_unused:
  assumes "sem_idle (get_frame_sem w) (vk w)" "free_frame NFRAMES 0 w = Some i"
  shows "get_free_frame_number pid vpn purpose w = Some (Ret i, take_frame i pid vpn purpose w)"
  using assms by (simp add: get_free_frame_number_def vwait_idle vsignal_grab give_def)

lemma entries_unlink [simp]:
  "dir_of i (fifo_unlink j w) = dir_of i w" "pte_of i (fifo_unlink j w) = pte_of i w" "store_of i (fifo_unlink j w) = store_of i w"
  "page_mapped i t (fifo_unlink j w) = page_mapped i t w" "log_expects i (fifo_unlink j w) = log_expects i w"
proof -
  have p: "get_store_offset_loop n i pid v out (fifo_unlink j w) = get_store_offset_loop n i pid v out w" for n i pid v out
    by (induction n arbitrary: i) (simp_all add: Let_def)
  show "dir_of i (fifo_unlink j w) = dir_of i w" "pte_of i (fifo_unlink j w) = pte_of i w"
    by (simp_all add: dir_of_def pte_of_def pd_addr_def pt_addr_def)
  then show "page_mapped i t (fifo_unlink j w) = page_mapped i t w" by (simp add: page_mapped_def table_frame_def)
  show "store_of i (fifo_unlink j w) = store_of i w" "log_expects i (fifo_unlink j w) = log_expects i w"
    by (simp_all add: store_of_def get_store_offset_def p log_expects_def)
qed

lemma store_ready_grab: "k \<noteq> bs_sem w \<Longrightarrow> store_ready b off (grab k w) = store_ready b off w"
  by (simp add: store_ready_def disk_ok_def)

lemma store_ready_unlink: "store_ready b off (fifo_unlink i w) = store_ready b off w"
  by (simp add: store_ready_def disk_ok_def)

lemma evict_in_call:
  assumes "sem_idle (get_frame_sem u) (vk u)" "bs_sem u \<noteq> get_frame_sem u" "page_stored i u" "page_mapped i t u"
    and "currpolicy u = FIFO \<Longrightarrow> log_expects i u" "\<not> isbadpid (vk u) (currpid (vk u))"
  shows "evict i pid vpn purpose (grab (get_frame_sem u) u) = Some (Ret i, replaced i t pid vpn purpose u)"
proof -
  let ?g = "grab (get_frame_sem u) u"
  have "evict i pid vpn purpose ?g = Some (Ret i, drop_sem (get_frame_sem ?g) (replaced i t pid vpn purpose ?g))"
    by (rule evict_ok) (use assms in \<open>simp_all add: page_stored_def store_ready_grab isbadpid_def set_scount_def sem_held_def sem_idle_def\<close>)
  moreover have "sem_idle (get_frame_sem u) (vk (replaced i t pid vpn purpose u))"
    using assms(1) by (simp add: replaced_def Let_def split_def)
  then have "drop_sem (get_frame_sem u) (grab (get_frame_sem u) (replaced i t pid vpn purpose u)) = replaced i t pid vpn purpose u"
    by (simp add: drop_sem_def grab_def set_scount_back)
  ultimately show ?thesis by simp
qed

lemma get_free_replaced:
  assumes "sem_idle (get_frame_sem w) (vk w)" "free_frame NFRAMES 0 w = None" "currpolicy w = FIFO" "frames_ok (i # zs) w"
    and "bs_sem w \<noteq> get_frame_sem w" "page_stored i w" "page_mapped i t w" "log_expects i w" "\<not> isbadpid (vk w) (currpid (vk w))"
  shows "get_free_frame_number pid vpn purpose w = Some (Ret i, replaced i t pid vpn purpose (fifo_unlink i w))"
proof -
  have n: "fifo_prev (ivs w FHead) \<noteq> FNull" using assms(4) by (simp add: frames_ok_def pages_def)
  have v: "fifo_victim w = Some (i, fifo_unlink i w)" using fifo_victim_ok [OF assms(4)] by simp
  have "evict i pid vpn purpose (grab (get_frame_sem (fifo_unlink i w)) (fifo_unlink i w)) =
      Some (Ret i, replaced i t pid vpn purpose (fifo_unlink i w))"
    by (rule evict_in_call) (use assms in \<open>simp_all add: page_stored_def store_ready_unlink\<close>)
  then show ?thesis
    using assms(1,2,3) n v by (simp add: get_free_frame_number_def vwait_idle)
qed

lemma replaced_frames:
  assumes "frames_but i zs u" "page_mapped i t u" "purpose \<noteq> NULL_PAGE"
  shows "frames_ok (if purpose = PAGE then zs @ [i] else zs) (replaced i t pid vpn purpose u)"
proof -
  have "frames_ok (if purpose = PAGE then zs @ [i] else zs) (take_frame i pid vpn purpose (unmap i t (u\<lparr>disk := d, disk_answers := r\<rparr>)))"
    for d r
  proof -
    have "frames_but i zs (u\<lparr>disk := d, disk_answers := r\<rparr>)" using assms(1) frames_but_ivs [of "u\<lparr>disk := d, disk_answers := r\<rparr>" u] by simp
    moreover have "drop_page i (u\<lparr>disk := d, disk_answers := r\<rparr>) = Some (unmap i t (u\<lparr>disk := d, disk_answers := r\<rparr>))"
      by (rule drop_page_mapped) (simp add: assms(2))
    ultimately have "frames_but i zs (unmap i t (u\<lparr>disk := d, disk_answers := r\<rparr>))" by (rule drop_page_ok)
    then show ?thesis by (rule take_frame_again [OF _ assms(3)])
  qed
  moreover have "frames_ok xs (w\<lparr>frame_md := l\<rparr>) = frames_ok xs w" for xs w l by (rule frames_ok_ivs) simp
  ultimately show ?thesis by (simp add: replaced_def Let_def split_def)
qed

end
