(* ===== verification/PageLemmas.thy ===== *)
theory PageLemmas
  imports FrameLemmas
begin

text \<open>
  Addresses: where frames, directories and tables are in memory, and the translation of virtual
  addresses that the processor makes with them.
\<close>

definition frame_addr :: "nat \<Rightarrow> u32" where
  "frame_addr f = (of_nat f + 1024) * PAGE_SIZE"

text \<open>The page walk of the processor for an address \<open>va\<close>, from the directory at \<open>pdbr\<close>.\<close>

definition walk :: "memory \<Rightarrow> u32 \<Rightarrow> u32 \<Rightarrow> u32 option" where
  "walk m pdbr va =
     (let pde = word_at m (pdbr + 4 * drop_bit 22 va);
          pte = word_at m (push_bit 12 (pd_base pde) + 4 * and (drop_bit 12 va) 0x3ff)
      in if pd_pres pde \<and> pt_pres pte then Some (push_bit 12 (pt_base pte) + and va 0xfff) else None)"

lemma unat_frame_addr: "f < NFRAMES \<Longrightarrow> unat (frame_addr f) = (f + 1024) * 4096"
proof -
  assume f: "f < NFRAMES"
  have "frame_addr f = of_nat ((f + 1024) * 4096)" by (simp add: frame_addr_def)
  then show ?thesis using f by (simp only: unat_of_nat) simp
qed

lemma frame_word:
  assumes "f < NFRAMES" "p < 1024"
  shows "unat (frame_addr f + 4 * p) = (f + 1024) * 4096 + 4 * unat p"
proof -
  have p: "unat p < 1024" using assms(2) by (simp add: word_less_nat_alt)
  have "unat (4 * p) = 4 * unat p" using p by (simp add: unat_word_ariths)
  moreover have "unat (frame_addr f + 4 * p) = unat (frame_addr f) + unat (4 * p)"
    using assms(1) p by (intro unat_plus_simple [THEN iffD1]) (simp add: no_olen_add_nat unat_frame_addr calculation)
  ultimately show ?thesis using assms(1) by (simp add: unat_frame_addr)
qed

lemma outside_page:
  assumes "unat (b :: u32) + 4096 \<le> 4294967296" "unat a < unat b \<or> unat b + 4096 \<le> unat a"
  shows "\<not> unat (a - b) < 4096"
  using assms u32_max [of a] by (auto simp: unat_sub_if')

text \<open>A word of one frame is not in another.\<close>

lemma other_frame:
  assumes "d < NFRAMES" "f < NFRAMES" "d \<noteq> f" "p < 1024"
  shows "\<not> unat (frame_addr d + 4 * p - frame_addr f) < 4096"
proof (rule outside_page)
  have p: "unat p < 1024" using assms(4) by (simp add: word_less_nat_alt)
  show "unat (frame_addr f) + 4096 \<le> 4294967296" using assms(2) by (simp add: unat_frame_addr)
  have "d < f \<or> f < d" using assms(3) by auto
  then have "(d + 1) * 4096 \<le> f * 4096 \<or> (f + 1) * 4096 \<le> d * 4096"
    by (metis Suc_eq_plus1 Suc_leI mult_le_mono1)
  then show "unat (frame_addr d + 4 * p) < unat (frame_addr f) \<or> unat (frame_addr f) + 4096 \<le> unat (frame_addr d + 4 * p)"
    using assms(2) p by (auto simp: frame_word [OF assms(1,4)] unat_frame_addr)
qed

lemma own_frame: "p < 1024 \<Longrightarrow> unat (frame_addr d + 4 * p - frame_addr d) < 4096"
proof -
  assume "p < 1024"
  then have "unat p < 1024" by (simp add: word_less_nat_alt)
  then show ?thesis by (simp add: unat_word_ariths)
qed

lemma table_frameD:
  assumes "table_frame pd w = Some t"
  shows "t < NFRAMES" "pd_base (word_at (vmm w) pd) = of_nat (t + 1024)"
proof -
  let ?i = "uint (pd_base (word_at (vmm w) pd)) - 1024"
  have i: "0 \<le> ?i" "?i < 50" "t = nat ?i" using assms by (auto simp: table_frame_def Let_def split: if_splits)
  then show "t < NFRAMES" by auto
  have "uint (pd_base (word_at (vmm w) pd)) = int (t + 1024)" using i by simp
  then have "word_of_int (uint (pd_base (word_at (vmm w) pd))) = (word_of_int (int (t + 1024)) :: u32)" by (rule arg_cong)
  then show "pd_base (word_at (vmm w) pd) = of_nat (t + 1024)" by (simp only: word_of_int_uint of_int_of_nat_eq)
qed

lemma table_frameI:
  "pd_base (word_at (vmm w) pd) = of_nat t + 1024 \<Longrightarrow> t < NFRAMES \<Longrightarrow> table_frame pd w = Some t"
proof -
  assume b: "pd_base (word_at (vmm w) pd) = of_nat t + 1024" and t: "t < NFRAMES"
  have "unat (of_nat (t + 1024) :: u32) = t + 1024" using t by (simp only: unat_of_nat) simp
  then have "uint (of_nat (t + 1024) :: u32) = int (t + 1024)" by (simp only: uint_nat)
  then have "uint (of_nat t + 1024 :: u32) = int t + 1024" by simp
  then show ?thesis using t by (simp add: table_frame_def b)
qed

lemma ucast_of_unat: "unat (x :: 'a :: len word) = n \<Longrightarrow> ucast x = (of_nat n :: 'b :: len word)"
  by auto

lemma Cal_Addr_frame:
  assumes "f < NFRAMES"
  shows "Cal_Addr (of_nat f) = frame_addr f" "Cal_Addr (ucast (of_nat (f + 1024) :: u32) - 1024) = frame_addr f"
proof -
  have "unat (of_nat ((f + 1024) * 4096) :: u64) = (f + 1024) * 4096" using assms by (simp only: unat_of_nat) simp
  then have "ucast (of_nat ((f + 1024) * 4096) :: u64) = (of_nat ((f + 1024) * 4096) :: u32)"
    by (rule ucast_of_unat)
  moreover have "of_nat ((f + 1024) * 4096) = ((of_nat f + 1024) * 4096 :: u64)" "of_nat ((f + 1024) * 4096) = frame_addr f"
    by (simp_all add: frame_addr_def)
  ultimately show c: "Cal_Addr (of_nat f) = frame_addr f" by (simp add: Cal_Addr_def)
  have "unat (of_nat (f + 1024) :: u32) = f + 1024" using assms by (simp only: unat_of_nat) simp
  then have "ucast (of_nat (f + 1024) :: u32) = (of_nat (f + 1024) :: u64)" by (rule ucast_of_unat)
  then show "Cal_Addr (ucast (of_nat (f + 1024) :: u32) - 1024) = frame_addr f" using c by simp
qed

lemma pt_addr_table:
  "table_frame pd w = Some t \<Longrightarrow> pt_addr pd q w = frame_addr t + 4 * q"
  using table_frameD [of pd w t] Cal_Addr_frame(2) [of t] by (simp add: pt_addr_def)

subsection \<open>Bringing a page in\<close>

definition log_push :: "int \<Rightarrow> u32 \<Rightarrow> frame_log \<Rightarrow> frame_log" where
  "log_push pid vpn d = d\<lparr>alloc_page_proc := (alloc_page_proc d)(curframe d := pid),
     alloc_page := (alloc_page d)(curframe d := vpn),
     curframe := (if curframe d + 1 = int NFRAMES then 0 else curframe d + 1)\<rparr>"

lemma hook_pfault_log:
  "\<not> isbadpid (vk w) (currpid (vk w)) \<Longrightarrow> hook_pfault pid vpn w = Some (w\<lparr>frame_md := log_push pid vpn (frame_md w)\<rparr>)"
  by (simp add: hook_pfault_def Let_def log_push_def)

definition page_read :: "nat \<Rightarrow> u32 \<times> u32 \<Rightarrow> vm \<Rightarrow> vm" where
  "page_read f s w = w\<lparr>vmm := load_blocks 8 (frame_addr f) (rd_blk (sint (fst s)) (snd s)) (disk w) (vmm w),
     disk_answers := drop 8 (disk_answers w)\<rparr>"

definition page_entered :: "nat \<Rightarrow> u32 \<Rightarrow> nat \<Rightarrow> int \<Rightarrow> u32 \<Rightarrow> vm \<Rightarrow> vm" where
  "page_entered f pte t pid vpn w =
     (let w = set_iv (FEnt t) (\<lambda>e. e\<lparr>ref_count := ref_count e + 1\<rparr>) (upd_vmm (set_pt_t pte (of_nat f + 1024)) w)
      in w\<lparr>frame_md := log_push pid vpn (frame_md w)\<rparr>)"

lemma page_read_fields [simp]:
  "vk (page_read f s w) = vk w" "ivs (page_read f s w) = ivs w" "fifo_hand (page_read f s w) = fifo_hand w"
  "bsmap (page_read f s w) = bsmap w" "bstab (page_read f s w) = bstab w" "page_server_active (page_read f s w) = page_server_active w"
  "bs_sem (page_read f s w) = bs_sem w" "bs_init_sem (page_read f s w) = bs_init_sem w" "get_frame_sem (page_read f s w) = get_frame_sem w"
  "pgf_frame_sem (page_read f s w) = pgf_frame_sem w" "currpolicy (page_read f s w) = currpolicy w" "num_fault (page_read f s w) = num_fault w"
  "frame_md (page_read f s w) = frame_md w" "disk (page_read f s w) = disk w" "vnodes (page_read f s w) = vnodes w"
  "junk (page_read f s w) = junk w"
  by (simp_all add: page_read_def)

lemma page_entered_fields [simp]:
  "vk (page_entered f pte t pid vpn w) = vk w" "fifo_hand (page_entered f pte t pid vpn w) = fifo_hand w" "bsmap (page_entered f pte t pid vpn w) = bsmap w"
  "bstab (page_entered f pte t pid vpn w) = bstab w" "page_server_active (page_entered f pte t pid vpn w) = page_server_active w" "bs_sem (page_entered f pte t pid vpn w) = bs_sem w"
  "bs_init_sem (page_entered f pte t pid vpn w) = bs_init_sem w" "get_frame_sem (page_entered f pte t pid vpn w) = get_frame_sem w" "pgf_frame_sem (page_entered f pte t pid vpn w) = pgf_frame_sem w"
  "currpolicy (page_entered f pte t pid vpn w) = currpolicy w" "num_fault (page_entered f pte t pid vpn w) = num_fault w" "disk (page_entered f pte t pid vpn w) = disk w"
  "vnodes (page_entered f pte t pid vpn w) = vnodes w" "junk (page_entered f pte t pid vpn w) = junk w"
  "vmm (page_entered f pte t pid vpn w) = set_pt_t pte (of_nat f + 1024) (vmm w)"
  "frame_md (page_entered f pte t pid vpn w) = log_push pid vpn (frame_md w)"
  "ivs (page_entered f pte t pid vpn w) = (ivs w)(FEnt t := (ivs w (FEnt t))\<lparr>ref_count := ref_count (ivs w (FEnt t)) + 1\<rparr>)"
  by (simp_all add: page_entered_def Let_def set_iv_def upd_vmm_def)

lemma vm_md_fields [simp]:
  "drop_sem k (w\<lparr>frame_md := d\<rparr>) = (drop_sem k w)\<lparr>frame_md := d\<rparr>" "table_frame pd (set_iv r f w) = table_frame pd w"
  by (simp_all add: drop_sem_def table_frame_def)

lemma fault_in_ok:
  assumes g: "get_free_frame_number (currpid (vk w)) vpn PAGE w = Some (Ret f, w1)"
    and s: "store_ready (sint (fst s)) (snd s) w1" "s = get_store_offset (currpid (vk w)) va (junk w) w"
    and pt: "pte = pt_addr pd (and vpn 0x3ff) w"
    and t: "table_frame pd (upd_vmm (set_pt_t pte (of_nat f + 1024)) (page_read f s w1)) = Some t"
    and k: "\<not> isbadpid (vk w1) (currpid (vk w1))" "sem_held (pgf_frame_sem w1) (vk w1)"
  shows "fault_in va vpn pd w =
    Some (Ret (), drop_sem (pgf_frame_sem w1) (page_entered f pte t (currpid (vk w)) vpn (page_read f s w1)))"
proof -
  let ?w2 = "upd_vmm (set_pt_t pte (of_nat f + 1024)) (page_read f s w1)"
  let ?w3 = "set_iv (FEnt t) (\<lambda>e. e\<lparr>ref_count := ref_count e + 1\<rparr>) ?w2"
  let ?w4 = "page_entered f pte t (currpid (vk w)) vpn (page_read f s w1)"
  have r: "read_bs ((of_nat f + 1024) * PAGE_SIZE) (sint (fst s)) (snd s) w1 = Some (Ret OK, page_read f s w1)"
    using read_bs_ok [OF s(1)] by (simp add: page_read_def frame_addr_def)
  have v: "vk ?w3 = vk w1" "pgf_frame_sem ?w4 = pgf_frame_sem w1" "vk ?w4 = vk w1"
    by simp_all
  have h: "hook_pfault (currpid (vk w)) vpn ?w3 = Some ?w4"
    using hook_pfault_log [of ?w3] k(1) by (simp add: v page_entered_def Let_def)
  have "vsignal (pgf_frame_sem ?w4) ?w4 = Some (Ret (), drop_sem (pgf_frame_sem w1) ?w4)"
    using vsignal_held [of "pgf_frame_sem w1" ?w4] k(2) v by simp
  then show ?thesis
    using g r t h by (simp add: fault_in_def Let_def split_def s(2) [symmetric] pt [symmetric])
qed

lemma get_store_offset_cong: "bsmap w' = bsmap w \<Longrightarrow> get_store_offset pid va out w' = get_store_offset pid va out w"
proof -
  assume b: "bsmap w' = bsmap w"
  have "get_store_offset_loop n i pid v out w' = get_store_offset_loop n i pid v out w" for n i v
    by (induction n arbitrary: i) (simp_all add: Let_def b)
  then show ?thesis by (simp add: get_store_offset_def)
qed

subsection \<open>The handler\<close>

definition faulted :: "vm \<Rightarrow> vm" where
  "faulted w = w\<lparr>num_fault := num_fault w + 1, vk := (vk w)\<lparr>tmp_cr := ucast (cr2 (vk w))\<rparr>\<rparr>"

lemma page_of_address:
  "ucast (drop_bit 12 (ucast (va :: u32) :: u64)) = drop_bit 12 va" "drop_bit 10 (drop_bit 12 va) = drop_bit 22 va"
  "(ucast (ucast va :: u64) :: u32) = va"
  by (auto simp: bit_eq_iff bit_simps drop_bit_drop_bit)

lemma unat_widen: "unat (ucast (a :: u32) :: u64) = unat a"
proof -
  have "unat a < 2 ^ 64" using u32_max [of a] by simp
  then show ?thesis by (simp add: unsigned_ucast_eq take_bit_nat_eq_self)
qed

lemma ucast_less_u64: "(ucast (a :: u32) :: u64) < ucast b \<longleftrightarrow> a < b" "(ucast a :: u64) \<le> ucast b \<longleftrightarrow> a \<le> b"
  by (simp_all add: word_less_nat_alt word_le_nat_alt unat_widen)

lemma grab_more [simp]:
  "page_read f s (grab k w) = grab k (page_read f s w)" "page_entered f pte t pid vpn (grab k w) = grab k (page_entered f pte t pid vpn w)"
  "table_frame pd (grab k w) = table_frame pd w"
  by (simp_all add: page_read_def page_entered_def grab_def Let_def set_iv_def upd_vmm_def table_frame_def)

lemma read_fault_address:
  "drop_bit 32 (tmp_cr s) = 0 \<Longrightarrow> read_CR 2 s = (ucast (cr2 s), s\<lparr>tmp_cr := ucast (cr2 s)\<rparr>)"
  by (simp add: read_CR_def Let_def)

text \<open>The handler for a fault inside the heap whose page table is there.\<close>

lemma myPageFault_ok:
  fixes w :: vm
  defines "pid \<equiv> currpid (vk w)"
  defines "va \<equiv> cr2 (vk w)"
  defines "pd \<equiv> pd_addr pid (drop_bit 22 va) w"
  assumes sem: "sem_idle (pgf_frame_sem w) (vk w)" and tmp: "drop_bit 32 (tmp_cr (vk w)) = 0"
    and va: "vaddr (vmemlist (proctab (vk w) pid)) \<le> va" "va < vaddr (vmaxheap (proctab (vk w) pid))"
    and pd: "pd_pres (word_at (vmm w) pd)" "table_frame pd w = Some t"
    and g: "get_free_frame_number pid (drop_bit 12 va) PAGE (grab (pgf_frame_sem w) (faulted w)) =
        Some (Ret f, grab (pgf_frame_sem w) W)"
    and W: "vk W = vk (faulted w)" "pgf_frame_sem W = pgf_frame_sem w" "bs_sem W \<noteq> pgf_frame_sem w"
    and s: "store_ready (sint (fst s)) (snd s) W" "s = get_store_offset pid va (junk w) w"
    and pte: "pte = frame_addr t + 4 * and (drop_bit 12 va) 0x3ff"
    and t: "table_frame pd (upd_vmm (set_pt_t pte (of_nat f + 1024)) (page_read f s W)) = Some t"
    and k: "\<not> isbadpid (vk w) pid"
  shows "myPageFault w = Some (Ret (), page_entered f pte t pid (drop_bit 12 va) (page_read f s W))"
proof -
  let ?p = "pgf_frame_sem w"
  let ?u = "grab ?p (faulted w)"
  have fw: "faulted w = w\<lparr>num_fault := num_fault w + 1, vk := (vk w)\<lparr>tmp_cr := ucast va\<rparr>\<rparr>" by (simp add: faulted_def va_def)
  have u: "pd_addr pid p ?u = pd_addr pid p w" "vmm ?u = vmm w" for p
    by (simp_all add: fw pd_addr_def set_scount_def)
  have r: "read_CR 2 (set_scount ?p 0 (vk w)) = (ucast va, (set_scount ?p 0 (vk w))\<lparr>tmp_cr := ucast va\<rparr>)"
    using read_fault_address [of "set_scount ?p 0 (vk w)"] tmp by (simp add: set_scount_def va_def)
  have ue: "(grab ?p w)\<lparr>num_fault := num_fault w + 1, vk := (set_scount ?p 0 (vk w))\<lparr>tmp_cr := ucast va\<rparr>\<rparr> = ?u"
    by (simp add: fw grab_def set_scount_def)
  have nva: "\<not> va < vaddr (vmemlist (proctab (vk w) pid))" "\<not> vaddr (vmaxheap (proctab (vk w) pid)) \<le> va"
    using va by (simp_all only: not_less not_le)
  have "myPageFault w = fault_in va (drop_bit 12 va) pd ?u"
    using sem nva pd(1) u r ue
    by (simp add: myPageFault_def vwait_idle pid_def set_scount_def page_of_address ucast_less_u64 give_def)
      (simp add: Let_def page_of_address give_def pd_def pid_def)
  moreover have "fault_in va (drop_bit 12 va) pd ?u = Some (Ret (), drop_sem (pgf_frame_sem (grab ?p W))
      (page_entered f pte t (currpid (vk ?u)) (drop_bit 12 va) (page_read f s (grab ?p W))))"
  proof (rule fault_in_ok)
    show "get_free_frame_number (currpid (vk ?u)) (drop_bit 12 va) PAGE ?u = Some (Ret f, grab ?p W)"
      using g by (simp add: fw set_scount_def pid_def)
    show "store_ready (sint (fst s)) (snd s) (grab ?p W)" using s(1) W(3) by (simp add: store_ready_grab)
    show "s = get_store_offset (currpid (vk ?u)) va (junk ?u) ?u"
      using s(2) get_store_offset_cong [of ?u w] by (simp add: fw set_scount_def pid_def)
    show "pte = pt_addr pd (and (drop_bit 12 va) 0x3ff) ?u"
      using pt_addr_table [OF pd(2)] by (simp add: pte pt_addr_def fw)
    show "table_frame pd (upd_vmm (set_pt_t pte (of_nat f + 1024)) (page_read f s (grab ?p W))) = Some t" using t by simp
    show "\<not> isbadpid (vk (grab ?p W)) (currpid (vk (grab ?p W)))"
      using k by (simp add: W(1) fw isbadpid_def set_scount_def pid_def)
    show "sem_held (pgf_frame_sem (grab ?p W)) (vk (grab ?p W))"
      using sem by (simp add: W(1,2) fw sem_held_def sem_idle_def set_scount_def)
  qed
  moreover have "drop_sem ?p (grab ?p x) = x" if "vk x = vk (faulted w)" for x
  proof -
    have "sem_idle ?p (vk x)" using sem that by (simp add: fw sem_idle_def)
    then show ?thesis by (simp add: drop_sem_def grab_def set_scount_back)
  qed
  ultimately show ?thesis using W by (simp add: fw set_scount_def pid_def)
qed

subsection \<open>The translation afterwards\<close>

lemma index_bounds: "and (x :: u32) 0x3ff < 1024" "drop_bit 22 (x :: u32) < 1024"
proof -
  have m: "(0x3ff :: u32) = mask 10" by (simp add: mask_eq_exp_minus_1)
  have "unat (take_bit 10 x) < 1024" using take_bit_nat_less_exp [of 10 "unat x"] by (simp add: unsigned_take_bit_eq)
  then have "take_bit 10 x < 1024" by (simp add: word_less_nat_alt)
  then show "and x 0x3ff < 1024" by (simp only: m take_bit_eq_mask)
  have "unat (x div 4194304) < 1024" using u32_max [of x] by (simp add: unat_div)
  then have "unat (drop_bit 22 x) < 1024" by (simp add: drop_bit_eq_div)
  then show "drop_bit 22 x < 1024" by (simp add: word_less_nat_alt)
qed

lemma frame_addr_base: "push_bit 12 (of_nat (f + 1024)) = frame_addr f" "push_bit 12 (of_nat f + 1024) = frame_addr f"
  by (simp_all add: frame_addr_def push_bit_eq_mult algebra_simps)

lemma frame_page_number: "f < NFRAMES \<Longrightarrow> of_nat f + 1024 < (1048576 :: u32)"
proof -
  assume "f < NFRAMES"
  then have "unat (of_nat (f + 1024) :: u32) < 1048576" by (simp only: unat_of_nat) simp
  then have "of_nat (f + 1024) < (1048576 :: u32)" by (simp add: word_less_nat_alt)
  then show ?thesis by simp
qed

lemma page_read_word:
  "word_at (vmm (page_read f s w)) a =
     (if unat (a - frame_addr f) < 4096 \<and> 4 dvd unat (a - frame_addr f)
      then disk w (rd_blk (sint (fst s)) (snd s) + of_nat (unat (a - frame_addr f) div 512)) (unat (a - frame_addr f) mod 512 div 4)
      else word_at (vmm w) a)"
  by (simp add: page_read_def load_blocks_at)

lemma page_read_content:
  "j < 1024 \<Longrightarrow> word_at (vmm (page_read f s w)) (frame_addr f + 4 * of_nat j) = page_word (sint (fst s)) (snd s) j w"
  by (simp add: page_read_def load_page_word)

lemma page_in_place:
  assumes "f < NFRAMES" "d < NFRAMES" "t < NFRAMES" "d \<noteq> f" "t \<noteq> f" "d \<noteq> t"
    and pd: "pd = frame_addr d + 4 * drop_bit 22 va" "table_frame pd W = Some t"
    and pte: "pte = frame_addr t + 4 * and (drop_bit 12 va) 0x3ff"
    and w': "vmm w' = set_pt_t pte (of_nat f + 1024) (vmm (page_read f s W))"
  shows "table_frame pd (upd_vmm (set_pt_t pte (of_nat f + 1024)) (page_read f s W)) = Some t"
    and "walk (vmm w') (frame_addr d) va = (if pd_pres (word_at (vmm W) pd) then Some (frame_addr f + and va 0xfff) else None)"
    and "j < 1024 \<Longrightarrow> word_at (vmm w') (frame_addr f + 4 * of_nat j) = page_word (sint (fst s)) (snd s) j W"
    and "a \<noteq> pte \<Longrightarrow> \<not> unat (a - frame_addr f) < 4096 \<Longrightarrow> word_at (vmm w') a = word_at (vmm W) a"
proof -
  have o1: "\<not> unat (pd - frame_addr f) < 4096" unfolding pd(1) by (rule other_frame) (use assms index_bounds in auto)
  have o2: "\<not> unat (pte - frame_addr f) < 4096" unfolding pte by (rule other_frame) (use assms index_bounds in auto)
  have "\<not> unat (pd - frame_addr t) < 4096" unfolding pd(1) by (rule other_frame) (use assms index_bounds in auto)
  moreover have "unat (pte - frame_addr t) < 4096" unfolding pte by (rule own_frame [OF index_bounds(1)])
  ultimately have n: "pd \<noteq> pte" by auto
  have at: "word_at (vmm w') a = (if a = pte then pd_entry (of_nat f + 1024) else word_at (vmm (page_read f s W)) a)" for a
    by (simp add: w' set_pt_t_def)
  have pde: "word_at (vmm w') pd = word_at (vmm W) pd" using n o1 by (simp add: at page_read_word)
  then show "table_frame pd (upd_vmm (set_pt_t pte (of_nat f + 1024)) (page_read f s W)) = Some t"
    using pd(2) by (simp add: table_frame_def w')
  have b: "pd_base (word_at (vmm W) pd) = of_nat (t + 1024)" by (rule table_frameD [OF pd(2)])
  have e: "word_at (vmm w') pte = pd_entry (of_nat f + 1024)" by (simp add: at)
  have "pt_base (pd_entry (of_nat f + 1024)) = of_nat f + 1024" "pt_pres (pd_entry (of_nat f + 1024))"
    using pd_base_entry [OF frame_page_number [OF assms(1)]] pd_pres_entry
    by (simp_all add: pt_base_def pd_base_def pt_pres_def pd_pres_def)
  then show "walk (vmm w') (frame_addr d) va = (if pd_pres (word_at (vmm W) pd) then Some (frame_addr f + and va 0xfff) else None)"
    using pde b e
    by (simp add: walk_def pd(1) [symmetric] frame_addr_base pte [symmetric] del: of_nat_add)
  show "word_at (vmm w') (frame_addr f + 4 * of_nat j) = page_word (sint (fst s)) (snd s) j W" if "j < 1024"
  proof -
    have "unat (frame_addr f + 4 * of_nat j - frame_addr f) = 4 * j" by (rule word_index [OF that])
    then have "frame_addr f + 4 * of_nat j \<noteq> pte" using o2 that by auto
    then show ?thesis using that by (simp add: at page_read_content)
  qed
  show "word_at (vmm w') a = word_at (vmm W) a" if "a \<noteq> pte" "\<not> unat (a - frame_addr f) < 4096"
    using that by (simp add: at page_read_word)
qed

end
