(* ===== verification/PagingProps.thy ===== *)
theory PagingProps
  imports PageLemmas
begin

text \<open>
  Properties of demand paging: what a page fault does when a frame is free and when a page has to
  be replaced.
\<close>

subsection \<open>A fault that can be served\<close>

definition fault_pid :: "vm \<Rightarrow> int" where "fault_pid w = currpid (vk w)"
definition fault_addr :: "vm \<Rightarrow> u32" where "fault_addr w = cr2 (vk w)"
definition fault_page :: "vm \<Rightarrow> u32" where "fault_page w = drop_bit 12 (fault_addr w)"

definition fault_store :: "vm \<Rightarrow> u32 \<times> u32" where
  "fault_store w = get_store_offset (fault_pid w) (fault_addr w) (junk w) w"

definition fault_pte :: "nat \<Rightarrow> vm \<Rightarrow> u32" where
  "fault_pte t w = frame_addr t + 4 * and (fault_page w) 0x3ff"

text \<open>
  The running process faulted inside its heap; its directory is in frame \<open>d\<close>, the page table for the
  address in frame \<open>t\<close>; the page has a store, and nobody holds the semaphores of the handler.
\<close>

definition fault_ready :: "nat \<Rightarrow> nat \<Rightarrow> vm \<Rightarrow> bool" where
  "fault_ready d t w \<longleftrightarrow>
     (let e = proctab (vk w) (fault_pid w); pd = frame_addr d + 4 * drop_bit 22 (fault_addr w) in
      \<not> isbadpid (vk w) (fault_pid w) \<and> vaddr (vmemlist e) \<le> fault_addr w \<and> fault_addr w < vaddr (vmaxheap e) \<and>
      PDBR e = ucast (frame_addr d) \<and> d < NFRAMES \<and> valid (ivs w (FEnt d)) = PAGE_DIR \<and>
      pd_pres (word_at (vmm w) pd) \<and> table_frame pd w = Some t \<and> valid (ivs w (FEnt t)) = PAGE_TAB \<and>
      drop_bit 32 (tmp_cr (vk w)) = 0 \<and> sem_idle (pgf_frame_sem w) (vk w) \<and> sem_idle (get_frame_sem w) (vk w) \<and>
      distinct [pgf_frame_sem w, get_frame_sem w, bs_sem w] \<and>
      store_ready (sint (fst (fault_store w))) (snd (fault_store w)) w)"

lemma pd_addr_frame: "PDBR (proctab (vk w) pid) = ucast (frame_addr d) \<Longrightarrow> pd_addr pid p w = frame_addr d + 4 * p"
  by (simp add: pd_addr_def page_of_address)

lemma faulted_fields [simp]:
  "ivs (faulted w) = ivs w" "vmm (faulted w) = vmm w" "disk (faulted w) = disk w" "disk_answers (faulted w) = disk_answers w"
  "bstab (faulted w) = bstab w" "bsmap (faulted w) = bsmap w" "page_server_active (faulted w) = page_server_active w"
  "bs_sem (faulted w) = bs_sem w" "get_frame_sem (faulted w) = get_frame_sem w" "pgf_frame_sem (faulted w) = pgf_frame_sem w"
  "currpolicy (faulted w) = currpolicy w" "frame_md (faulted w) = frame_md w" "junk (faulted w) = junk w"
  "fifo_hand (faulted w) = fifo_hand w" "num_fault (faulted w) = num_fault w + 1"
  "proctab (vk (faulted w)) = proctab (vk w)" "currpid (vk (faulted w)) = currpid (vk w)" "semtab (vk (faulted w)) = semtab (vk w)"
  "sem_idle k (vk (faulted w)) = sem_idle k (vk w)" "store_ready b off (faulted w) = store_ready b off w"
  "isbadpid (vk (faulted w)) p = isbadpid (vk w) p"
  by (simp_all add: faulted_def sem_idle_def store_ready_def isbadpid_def disk_ok_def)

text \<open>Serving the fault with frame \<open>f\<close>, once \<open>get_free_frame_number\<close> has it ready in \<open>W\<close>.\<close>

lemma fault_served:
  assumes r: "fault_ready d t w" and f: "f < NFRAMES" "f \<noteq> d" "f \<noteq> t"
    and g: "get_free_frame_number (fault_pid w) (fault_page w) PAGE (grab (pgf_frame_sem w) (faulted w)) =
        Some (Ret f, grab (pgf_frame_sem w) W)"
    and W: "vk W = vk (faulted w)" "pgf_frame_sem W = pgf_frame_sem w" "bs_sem W = bs_sem w" "bstab W = bstab w"
      "page_server_active W" "disk_ok W"
      "table_frame (frame_addr d + 4 * drop_bit 22 (fault_addr w)) W = Some t"
  obtains w' where "myPageFault w = Some (Ret (), w')"
    and "walk (vmm w') (frame_addr d) (fault_addr w) =
        (if pd_pres (word_at (vmm W) (frame_addr d + 4 * drop_bit 22 (fault_addr w)))
         then Some (frame_addr f + and (fault_addr w) 0xfff) else None)"
    and "\<And>j. j < 1024 \<Longrightarrow> word_at (vmm w') (frame_addr f + 4 * of_nat j) =
        page_word (sint (fst (fault_store w))) (snd (fault_store w)) j W"
    and "\<And>a. a \<noteq> fault_pte t w \<Longrightarrow> \<not> unat (a - frame_addr f) < 4096 \<Longrightarrow> word_at (vmm w') a = word_at (vmm W) a"
    and "w' = page_entered f (fault_pte t w) t (fault_pid w) (fault_page w) (page_read f (fault_store w) W)"
proof -
  let ?pd = "frame_addr d + 4 * drop_bit 22 (fault_addr w)" and ?s = "fault_store w"
  let ?w' = "page_entered f (fault_pte t w) t (fault_pid w) (fault_page w) (page_read f ?s W)"
  have R: "\<not> isbadpid (vk w) (fault_pid w)" "vaddr (vmemlist (proctab (vk w) (fault_pid w))) \<le> fault_addr w"
    "fault_addr w < vaddr (vmaxheap (proctab (vk w) (fault_pid w)))" "PDBR (proctab (vk w) (fault_pid w)) = ucast (frame_addr d)"
    "d < NFRAMES" "d \<noteq> t" "pd_pres (word_at (vmm w) ?pd)" "table_frame ?pd w = Some t"
    "drop_bit 32 (tmp_cr (vk w)) = 0" "sem_idle (pgf_frame_sem w) (vk w)" "bs_sem w \<noteq> pgf_frame_sem w"
    "store_ready (sint (fst ?s)) (snd ?s) w"
    using r by (auto simp: fault_ready_def Let_def)
  have pd: "pd_addr (fault_pid w) (drop_bit 22 (fault_addr w)) w = ?pd" by (rule pd_addr_frame [OF R(4)])
  note P = page_in_place [OF f(1) R(5) table_frameD(1) [OF R(8)] f(2) [symmetric] f(3) [symmetric] R(6) refl W(7) refl]
  have w': "vmm ?w' = set_pt_t (frame_addr t + 4 * and (drop_bit 12 (fault_addr w)) 0x3ff) (of_nat f + 1024) (vmm (page_read f ?s W))"
    by (simp add: fault_pte_def fault_page_def)
  have "myPageFault w = Some (Ret (), ?w')"
    unfolding fault_pid_def fault_page_def fault_addr_def
  proof (rule myPageFault_ok)
    note D = fault_pid_def fault_page_def fault_addr_def
    show "sem_idle (pgf_frame_sem w) (vk w)" "drop_bit 32 (tmp_cr (vk w)) = 0" using R by simp_all
    show "vaddr (vmemlist (proctab (vk w) (currpid (vk w)))) \<le> cr2 (vk w)"
      "cr2 (vk w) < vaddr (vmaxheap (proctab (vk w) (currpid (vk w))))" using R(2,3) by (simp_all add: D)
    show "pd_pres (word_at (vmm w) (pd_addr (currpid (vk w)) (drop_bit 22 (cr2 (vk w))) w))"
      "table_frame (pd_addr (currpid (vk w)) (drop_bit 22 (cr2 (vk w))) w) w = Some t"
      using R(7,8) pd by (simp_all add: D)
    show "get_free_frame_number (currpid (vk w)) (drop_bit 12 (cr2 (vk w))) PAGE (grab (pgf_frame_sem w) (faulted w)) =
        Some (Ret f, grab (pgf_frame_sem w) W)" using g by (simp add: D)
    show "vk W = vk (faulted w)" "pgf_frame_sem W = pgf_frame_sem w" "bs_sem W \<noteq> pgf_frame_sem w" using W R(11) by simp_all
    show "store_ready (sint (fst ?s)) (snd ?s) W" using R(12) W by (simp add: store_ready_def sem_idle_def)
    show "?s = get_store_offset (currpid (vk w)) (cr2 (vk w)) (junk w) w" by (simp add: fault_store_def D)
    show "fault_pte t w = frame_addr t + 4 * and (drop_bit 12 (cr2 (vk w))) 0x3ff" by (simp add: fault_pte_def D)
    show "table_frame (pd_addr (currpid (vk w)) (drop_bit 22 (cr2 (vk w))) w)
        (upd_vmm (set_pt_t (fault_pte t w) (of_nat f + 1024)) (page_read f ?s W)) = Some t"
      using P(1) [OF w'] pd by (simp add: fault_pte_def D)
    show "\<not> isbadpid (vk w) (currpid (vk w))" using R(1) by (simp add: D)
  qed
  then show thesis
    using P(2-4) [OF w'] by (intro that [of ?w']) (simp_all add: fault_pte_def fault_page_def)
qed

lemma frames_ok_entered:
  assumes "frames_ok xs W"
  shows "frames_ok xs (page_entered f pte t pid vpn (page_read f s W))"
proof -
  have "frames_ok xs (page_entered f pte t pid vpn (page_read f s W)) = frames_ok xs W"
    by (rule frames_ok_cong) simp_all
  then show ?thesis using assms by simp
qed

lemma free_frame_faulted [simp]: "free_frame n i (faulted w) = free_frame n i w"
  by (induction n arbitrary: i) simp_all

lemma fault_readyD:
  assumes "fault_ready d t w"
  shows "sem_idle (get_frame_sem w) (vk w)" "sem_idle (pgf_frame_sem w) (vk w)" "pgf_frame_sem w \<noteq> get_frame_sem w"
    "bs_sem w \<noteq> get_frame_sem w" "bs_sem w \<noteq> pgf_frame_sem w" "page_server_active w" "disk_ok w"
    "valid (ivs w (FEnt d)) = PAGE_DIR" "valid (ivs w (FEnt t)) = PAGE_TAB" "d < NFRAMES" "t < NFRAMES"
    "\<not> isbadpid (vk w) (fault_pid w)" "store_ready (sint (fst (fault_store w))) (snd (fault_store w)) w"
    "table_frame (frame_addr d + 4 * drop_bit 22 (fault_addr w)) w = Some t"
    "pd_pres (word_at (vmm w) (frame_addr d + 4 * drop_bit 22 (fault_addr w)))"
  using assms table_frameD(1) by (auto simp: fault_ready_def Let_def store_ready_def)

text \<open>C1.  A fault in the heap of the running process, with its page table there and a frame free: the
  lowest free frame gets the page of the store that backs the address, the address is then
  translated to that frame, the frame is the newest of the list, and the page table has one page
  more.  Nothing else in memory changes, no page of the store and nothing in the kernel.\<close>

theorem page_fault_loads_page:
  assumes r: "fault_ready d t w" and x: "frames_ok xs w" and f: "free_frame NFRAMES 0 w = Some f"
  shows "\<exists>w'. myPageFault w = Some (Ret (), w') \<and>
    walk (vmm w') (frame_addr d) (fault_addr w) = Some (frame_addr f + and (fault_addr w) 0xfff) \<and>
    (\<forall>j < 1024. word_at (vmm w') (frame_addr f + 4 * of_nat j) = page_word (sint (fst (fault_store w))) (snd (fault_store w)) j w) \<and>
    (\<forall>a. a \<noteq> fault_pte t w \<and> \<not> unat (a - frame_addr f) < 4096 \<longrightarrow> word_at (vmm w') a = word_at (vmm w) a) \<and>
    frames_ok (xs @ [f]) w' \<and> ivpid (ivs w' (FEnt f)) = fault_pid w \<and> vpage_num (ivs w' (FEnt f)) = fault_page w \<and>
    ref_count (ivs w' (FEnt t)) = ref_count (ivs w (FEnt t)) + 1 \<and> num_fault w' = num_fault w + 1 \<and>
    disk w' = disk w \<and> bstab w' = bstab w \<and> vk w' = (vk w)\<lparr>tmp_cr := ucast (fault_addr w)\<rparr>"
proof -
  note R = fault_readyD [OF r]
  let ?W = "take_frame f (fault_pid w) (fault_page w) PAGE (faulted w)"
  have F: "f < NFRAMES" "valid (ivs w (FEnt f)) = NULL_PAGE" using free_frame_Some [OF f] by auto
  then have n: "f \<noteq> d" "f \<noteq> t" using R(8,9) by auto
  have g: "get_free_frame_number (fault_pid w) (fault_page w) PAGE (grab (pgf_frame_sem w) (faulted w)) =
      Some (Ret f, grab (pgf_frame_sem w) ?W)"
    using get_free_unused [of "grab (pgf_frame_sem w) (faulted w)" f] f R(1,3) by simp
  obtain w' where w': "myPageFault w = Some (Ret (), w')"
    "walk (vmm w') (frame_addr d) (fault_addr w) =
      (if pd_pres (word_at (vmm ?W) (frame_addr d + 4 * drop_bit 22 (fault_addr w)))
       then Some (frame_addr f + and (fault_addr w) 0xfff) else None)"
    "\<And>j. j < 1024 \<Longrightarrow> word_at (vmm w') (frame_addr f + 4 * of_nat j) =
        page_word (sint (fst (fault_store w))) (snd (fault_store w)) j ?W"
    "\<And>a. a \<noteq> fault_pte t w \<Longrightarrow> \<not> unat (a - frame_addr f) < 4096 \<Longrightarrow> word_at (vmm w') a = word_at (vmm ?W) a"
    "w' = page_entered f (fault_pte t w) t (fault_pid w) (fault_page w) (page_read f (fault_store w) ?W)"
    by (rule fault_served [OF r F(1) n g]) (use R in \<open>simp_all add: disk_ok_def table_frame_def\<close>)
  have "frames_ok xs (faulted w)" using x frames_ok_ivs [of "faulted w" w] by simp
  then have "frames_ok (xs @ [f]) ?W" using take_frame_ok [of xs "faulted w" f PAGE] F by simp
  then have "frames_ok (xs @ [f]) w'" unfolding w'(5) by (rule frames_ok_entered)
  moreover have "page_word b off j ?W = page_word b off j w" for b off j by (simp add: page_word_def)
  moreover have "vk w' = (vk w)\<lparr>tmp_cr := ucast (fault_addr w)\<rparr>" by (simp add: w'(5) faulted_def fault_addr_def)
  ultimately show ?thesis
    using w'(1-4) n F(2) R(15) by (intro exI [of _ w']) (simp add: w'(5))
qed

lemma demo_frames_ok: "frames_ok [8] (demo_vm 1)"
  by (auto simp: frames_ok_def pages_def demo_frames_def demo_frame_def)

lemma demo_fault_addr [simp]: "fault_addr (demo_vm n) = 0x01000000 + of_nat n * 4096"
  by (simp add: fault_addr_def)

lemma demo_fault_store:
  assumes "n < 200"
  shows "fault_store (demo_vm n) = (0, of_nat n)"
proof -
  have n: "unat (of_nat n :: u32) = n" "unat (4096 + of_nat n :: u32) = 4096 + n"
    using assms by (simp_all add: unat_of_nat unat_word_ariths)
  have "0x01000000 + of_nat n * 4096 = (of_nat ((4096 + n) * 4096) :: u32)" by (simp add: algebra_simps)
  moreover have "unat (of_nat ((4096 + n) * 4096) :: u32) = (4096 + n) * 4096" using assms by (simp only: unat_of_nat) simp
  ultimately have "unat (drop_bit 12 (0x01000000 + of_nat n * 4096 :: u32)) = 4096 + n"
    by (simp add: drop_bit_eq_div unat_div)
  then have v: "drop_bit 12 (0x01000000 + of_nat n * 4096 :: u32) = 4096 + of_nat n" using n(2) by (metis word_unat_eq_iff)
  have "(4096 :: u32) \<le> 4096 + of_nat n" "of_nat n < (200 :: u32)"
    using n assms by (simp_all add: word_le_nat_alt word_less_nat_alt)
  moreover have "(8 :: nat) = Suc 7" by simp
  ultimately show ?thesis
    by (simp only: fault_store_def fault_pid_def get_store_offset_def demo_fault_addr v get_store_offset_loop.simps(2))
      (simp add: Let_def)
qed

lemma demo_pd: "demo_word n 4218896 = pd_entry 1031" "table_frame 4218896 (demo_vm n) = Some 7"
proof -
  show w: "demo_word n 4218896 = pd_entry 1031" by (simp add: demo_word_def)
  show "table_frame 4218896 (demo_vm n) = Some 7" by (rule table_frameI) (simp_all add: w pd_base_entry)
qed

lemma demo_fault_ready:
  assumes "n < 200" "drop_bit 22 (fault_addr (demo_vm n)) = 4"
    and "(0x01000000 :: u32) \<le> fault_addr (demo_vm n)" "fault_addr (demo_vm n) < 0x010C8000"
  shows "fault_ready 6 7 (demo_vm n)"
proof -
  have p: "frame_addr 6 + 4 * drop_bit 22 (fault_addr (demo_vm n)) = 4218896" unfolding assms(2) by (simp add: frame_addr_def)
  have k: "\<not> isbadpid (demo_kernel n) 1" "drop_bit 32 (tmp_cr (demo_kernel n)) = 0"
    "vaddr (vmemlist (proctab (demo_kernel n) 1)) = 0x01000000" "vaddr (vmaxheap (proctab (demo_kernel n) 1)) = 0x010C8000"
    by (simp_all add: isbadpid_def demo_kernel_def scene_def)
  have "of_nat n < (200 :: u32)" using assms(1) by (simp add: word_less_nat_alt unat_of_nat)
  then show ?thesis
    using k demo_pd(2) assms(3,4) unfolding fault_ready_def Let_def p demo_fault_store [OF assms(1)]
    by (simp add: demo_pd(1) fault_pid_def pd_pres_entry store_ready_def
        demo_frames_def demo_frame_def frame_addr_def del: One_nat_def demo_fault_addr)
qed

lemma page_fault_loads_page_witness:
  "\<exists>w'. myPageFault (demo_vm 1) = Some (Ret (), w') \<and>
     walk (vmm w') (frame_addr 6) 0x01001000 = Some (frame_addr 9) \<and> frames_ok [8, 9] w'"
proof -
  have f: "free_frame NFRAMES 0 (demo_vm 1) = Some 9"
    by (simp add: numeral_eq_Suc demo_frames_def demo_frame_def)
  have "fault_ready 6 7 (demo_vm 1)" by (rule demo_fault_ready) (simp_all add: drop_bit_eq_div)
  from page_fault_loads_page [OF this demo_frames_ok f] show ?thesis by auto
qed

subsection \<open>A fault that replaces a page\<close>

lemma entries_faulted [simp]:
  "dir_of i (faulted w) = dir_of i w" "pte_of i (faulted w) = pte_of i w" "store_of i (faulted w) = store_of i w"
  "page_mapped i t (faulted w) = page_mapped i t w" "log_expects i (faulted w) = log_expects i w"
  "page_stored i (faulted w) = page_stored i w"
proof -
  show "dir_of i (faulted w) = dir_of i w" "pte_of i (faulted w) = pte_of i w"
    by (simp_all add: dir_of_def pte_of_def pd_addr_def pt_addr_def)
  then show "page_mapped i t (faulted w) = page_mapped i t w" by (simp add: page_mapped_def table_frame_def)
  show s: "store_of i (faulted w) = store_of i w" using get_store_offset_cong [of "faulted w" w] by (simp add: store_of_def)
  then show "page_stored i (faulted w) = page_stored i w" by (simp add: page_stored_def)
  show "log_expects i (faulted w) = log_expects i w" by (simp add: log_expects_def)
qed

lemma replaced_fields [simp]:
  "vk (replaced i t pid vpn purpose w) = vk w" "pgf_frame_sem (replaced i t pid vpn purpose w) = pgf_frame_sem w"
  "bs_sem (replaced i t pid vpn purpose w) = bs_sem w" "bstab (replaced i t pid vpn purpose w) = bstab w"
  "page_server_active (replaced i t pid vpn purpose w) = page_server_active w"
  "disk_answers (replaced i t pid vpn purpose w) = drop 8 (disk_answers w)" "num_fault (replaced i t pid vpn purpose w) = num_fault w"
  "ivpid (ivs (replaced i t pid vpn purpose w) (FEnt i)) = pid"
  "vmm (replaced i t pid vpn purpose w) = (let m = clear_bit_at 0 (pte_of i w) (vmm w) in
     if ref_count (ivs w (FEnt t)) = 1 then clear_bit_at 0 (dir_of i w) m else m)"
  "disk (replaced i t pid vpn purpose w) =
     store_blocks 8 (frame_addr i) (rd_blk (sint (fst (store_of i w))) (snd (store_of i w))) (vmm w) (disk w)"
  "currpolicy w = FIFO \<Longrightarrow> frame_md (replaced i t pid vpn purpose w) = log_pop (frame_md w)"
  by (simp_all add: replaced_def Let_def split_def frame_addr_def)

lemma clear_bit_word: "word_at (clear_bit_at n a m) x = (if x = a then unset_bit n (word_at m a) else word_at m x)"
  by (simp add: clear_bit_at_def)

lemma pte_in_table:
  assumes "page_mapped i t w"
  shows "pte_of i w = frame_addr t + 4 * and (drop_bit 12 (vpage_num (ivs w (FEnt i)) * PAGE_SIZE)) 0x3ff" "t < NFRAMES"
  using assms pt_addr_table table_frameD(1) by (auto simp: page_mapped_def pte_of_def)

lemma pd_base_clear: "pd_base (unset_bit 0 e) = pd_base e" "\<not> pd_pres (unset_bit 0 e)" "\<not> pt_pres (unset_bit 0 e)"
proof -
  show "pd_base (unset_bit 0 e) = pd_base e" unfolding pd_base_def
    by (rule bit_word_eqI) (simp add: bit_drop_bit_eq bit_unset_bit_iff)
  show "\<not> pd_pres (unset_bit 0 e)" "\<not> pt_pres (unset_bit 0 e)"
    by (simp_all add: pd_pres_def pt_pres_def bit_unset_bit_iff)
qed

text \<open>What \<open>get_free_frame_number\<close> leaves for the rest of the handler when it replaces page \<open>i\<close>.\<close>

lemma fault_gets_oldest:
  assumes r: "fault_ready d t w" and x: "frames_ok (i # zs) w" and n: "free_frame NFRAMES 0 w = None" and p: "currpolicy w = FIFO"
    and v: "page_stored i w" "page_mapped i t' w" "log_expects i w"
  defines "W \<equiv> replaced i t' (fault_pid w) (fault_page w) PAGE (fifo_unlink i (faulted w))"
  defines "pd \<equiv> frame_addr d + 4 * drop_bit 22 (fault_addr w)"
  shows "get_free_frame_number (fault_pid w) (fault_page w) PAGE (grab (pgf_frame_sem w) (faulted w)) =
      Some (Ret i, grab (pgf_frame_sem w) W)"
    and "word_at (vmm W) pd = (if ref_count (ivs w (FEnt t')) = 1 \<and> dir_of i w = pd
      then unset_bit 0 (word_at (vmm w) pd) else word_at (vmm w) pd)"
    and "table_frame pd W = Some t" and "disk_ok W" and "frames_ok (zs @ [i]) W"
    and "i < NFRAMES" "i \<noteq> d" "i \<noteq> t" "t' \<noteq> i"
proof -
  note R = fault_readyD [OF r] and T = pte_in_table [OF v(2)]
  show i: "i < NFRAMES" using frames_okD [OF x] by simp
  have "valid (ivs w (FEnt i)) = PAGE" using frames_okD [OF x] by simp
  then show ne: "i \<noteq> d" "i \<noteq> t" "t' \<noteq> i" using R(8,9) v(2) by (auto simp: page_mapped_def)
  have td: "d \<noteq> t'" using R(8) v(2) by (auto simp: page_mapped_def)
  have xf: "frames_ok (i # zs) (faulted w)" using x frames_ok_ivs [of "faulted w" w] by simp
  show "get_free_frame_number (fault_pid w) (fault_page w) PAGE (grab (pgf_frame_sem w) (faulted w)) =
      Some (Ret i, grab (pgf_frame_sem w) W)"
    using get_free_replaced [of "grab (pgf_frame_sem w) (faulted w)" i zs t' "fault_pid w" "fault_page w" PAGE] R n p v xf
      frames_ok_ivs [of "grab (pgf_frame_sem w) (faulted w)" "faulted w" "i # zs"]
    by (simp add: page_stored_def store_ready_grab isbadpid_def fault_pid_def W_def)
  have "unat (pte_of i w - frame_addr t') < 4096" unfolding T(1) by (rule own_frame [OF index_bounds(1)])
  then have "pte_of i w \<noteq> pd" using other_frame [OF R(10) T(2) td index_bounds(2)] by (auto simp: pd_def)
  then show e: "word_at (vmm W) pd = (if ref_count (ivs w (FEnt t')) = 1 \<and> dir_of i w = pd
      then unset_bit 0 (word_at (vmm w) pd) else word_at (vmm w) pd)"
    by (auto simp: W_def Let_def clear_bit_word)
  have "pd_base (word_at (vmm W) pd) = pd_base (word_at (vmm w) pd)" by (simp add: e pd_base_clear)
  then show "table_frame pd W = Some t" using R(14) by (simp add: table_frame_def pd_def)
  show "disk_ok W" by (rule disk_ok_drop [OF R(7), where n = 8]) (simp add: W_def)
  have "frames_but i zs (fifo_unlink i (faulted w))" using unlink_ok [of "[]" i zs "faulted w"] xf by simp
  then show "frames_ok (zs @ [i]) W" using replaced_frames [of i zs "fifo_unlink i (faulted w)" t' PAGE] v(2) by (simp add: W_def)
qed

text \<open>C2.  A fault when no frame is free, under FIFO: the page that has been in memory for longest is
  written to its store and marked absent in its page table, the page of the fault is read into its
  frame, to which the address is then translated, and becomes the newest; the hooks accept the
  choice.  No other page of any store changes.  (The oldest page is not the only one of the page
  table that the fault needs.)\<close>

theorem page_fault_replaces_oldest:
  assumes r: "fault_ready d t w" and x: "frames_ok (i # zs) w" and n: "free_frame NFRAMES 0 w = None" and p: "currpolicy w = FIFO"
    and v: "page_stored i w" "page_mapped i t' w" "log_expects i w" "pte_of i w \<noteq> fault_pte t w"
    and keep: "ref_count (ivs w (FEnt t')) \<noteq> 1 \<or> dir_of i w \<noteq> frame_addr d + 4 * drop_bit 22 (fault_addr w)"
    and s: "(b, off) = store_of i w"
  shows "\<exists>w'. myPageFault w = Some (Ret (), w') \<and>
    walk (vmm w') (frame_addr d) (fault_addr w) = Some (frame_addr i + and (fault_addr w) 0xfff) \<and>
    (\<forall>j < 1024. word_at (vmm w') (frame_addr i + 4 * of_nat j) = page_word (sint (fst (fault_store w))) (snd (fault_store w)) j w') \<and>
    (\<forall>b' page' j. 0 \<le> b' \<and> b' \<le> MAX_ID \<and> page' < RD_PAGES_PER_BS \<and> j < 1024 \<longrightarrow> page_word b' page' j w' =
       (if b' = sint b \<and> page' = off then word_at (vmm w) (frame_addr i + 4 * of_nat j) else page_word b' page' j w)) \<and>
    \<not> pt_pres (word_at (vmm w') (pte_of i w)) \<and> frames_ok (zs @ [i]) w' \<and>
    frame_md w' = log_push (fault_pid w) (fault_page w) (log_pop (frame_md w)) \<and> num_fault w' = num_fault w + 1"
proof -
  let ?pd = "frame_addr d + 4 * drop_bit 22 (fault_addr w)"
  let ?W = "replaced i t' (fault_pid w) (fault_page w) PAGE (fifo_unlink i (faulted w))"
  note R = fault_readyD [OF r] and G = fault_gets_oldest [OF r x n p v(1-3)] and T = pte_in_table [OF v(2)]
  have pd: "pd_pres (word_at (vmm ?W) ?pd)" using G(2) keep R(15) by auto
  obtain w' where w': "myPageFault w = Some (Ret (), w')"
    "walk (vmm w') (frame_addr d) (fault_addr w) =
      (if pd_pres (word_at (vmm ?W) ?pd) then Some (frame_addr i + and (fault_addr w) 0xfff) else None)"
    "\<And>j. j < 1024 \<Longrightarrow> word_at (vmm w') (frame_addr i + 4 * of_nat j) =
        page_word (sint (fst (fault_store w))) (snd (fault_store w)) j ?W"
    "\<And>a. a \<noteq> fault_pte t w \<Longrightarrow> \<not> unat (a - frame_addr i) < 4096 \<Longrightarrow> word_at (vmm w') a = word_at (vmm ?W) a"
    "w' = page_entered i (fault_pte t w) t (fault_pid w) (fault_page w) (page_read i (fault_store w) ?W)"
    by (rule fault_served [OF r G(6-8,1)]) (use R(6) G(3,4) in simp_all)
  have D: "page_word b' page' j w' = page_word b' page' j ?W" for b' page' j by (simp add: w'(5) page_word_def)
  have "0 \<le> sint b \<and> sint b \<le> MAX_ID \<and> unat off < 205"
    using store_readyD v(1) s [symmetric] by (simp add: page_stored_def)
  then have S: "page_word b' page' j ?W = (if b' = sint b \<and> page' = off then word_at (vmm w) (frame_addr i + 4 * of_nat j) else page_word b' page' j w)"
    if "0 \<le> b'" "b' \<le> MAX_ID" "page' < RD_PAGES_PER_BS" "j < 1024" for b' page' j
    by (intro store_page_word) (use that s [symmetric] in \<open>simp_all add: word_less_nat_alt\<close>)
  have "\<not> unat (pte_of i w - frame_addr i) < 4096" unfolding T(1) by (rule other_frame [OF T(2) G(6) G(9) index_bounds(1)])
  then have "word_at (vmm w') (pte_of i w) = unset_bit 0 (word_at (vmm w) (pte_of i w))"
    using w'(4) [OF v(4)] v(2) by (auto simp: Let_def clear_bit_word page_mapped_def)
  then have "\<not> pt_pres (word_at (vmm w') (pte_of i w))" by (simp add: pd_base_clear)
  moreover have "frames_ok (zs @ [i]) w'" unfolding w'(5) by (rule frames_ok_entered [OF G(5)])
  moreover have "frame_md w' = log_push (fault_pid w) (fault_page w) (log_pop (frame_md w))" "num_fault w' = num_fault w + 1"
    using p by (simp_all add: w'(5))
  ultimately show ?thesis using w'(1-3) pd D S by (intro exI [of _ w']) (simp del: replaced_fields(9))
qed

lemma demo_full_frames: "frames_ok (8 # [9..<50]) (demo_vm 42)" "free_frame NFRAMES 0 (demo_vm 42) = None"
proof -
  let ?w = "demo_vm 42"
  have l: "8 # [9..<50] = [8..<50]" by (simp add: upt_rec)
  have "pages [8..<50] ?w" unfolding pages_def by (simp add: demo_frames_def demo_frame_def upt_rec_numeral)
  moreover have "set [8..<50] = {i. i < NFRAMES \<and> valid (ivs ?w (FEnt i)) = PAGE}"
    unfolding set_upt by (auto simp: demo_frames_def demo_frame_def split: if_splits)
  ultimately show "frames_ok (8 # [9..<50]) ?w" unfolding l frames_ok_def
    by (intro conjI) (assumption | simp add: demo_frames_def demo_frame_def)+
  show "free_frame NFRAMES 0 ?w = None" unfolding free_frame_None by (simp add: demo_frames_def demo_frame_def)
qed

lemma demo_full_ready: "fault_ready 6 7 (demo_vm 42)"
  by (rule demo_fault_ready) (simp_all add: drop_bit_eq_div)

lemma demo_oldest:
  "store_of 8 (demo_vm 42) = (0, 0)" "dir_of 8 (demo_vm 42) = 4218896" "pte_of 8 (demo_vm 42) = 4222976"
  "page_stored 8 (demo_vm 42)" "page_mapped 8 7 (demo_vm 42)" "log_expects 8 (demo_vm 42)"
  "pte_of 8 (demo_vm 42) \<noteq> fault_pte 7 (demo_vm 42)"
proof -
  let ?w = "demo_vm 42"
  have v8: "demo_frames 42 (FEnt 8) = demo_frame 42 8" "vpage_num (demo_frame 42 8) = 4096" "ivpid (demo_frame 42 8) = 1"
    by (simp_all add: demo_frames_def demo_frame_def)
  show s: "store_of 8 ?w = (0, 0)"
    by (simp add: store_of_def v8 get_store_offset_def get_store_offset_loop.simps(2) [of 7, simplified] Let_def drop_bit_eq_div)
  show d: "dir_of 8 ?w = 4218896" by (simp add: dir_of_def v8 pd_addr_def drop_bit_eq_div)
  show e: "pte_of 8 ?w = 4222976"
    using pt_addr_table [OF demo_pd(2) [of 42]] by (simp add: pte_of_def d v8 frame_addr_def drop_bit_eq_div)
  show "page_stored 8 ?w" "page_mapped 8 7 ?w" "log_expects 8 ?w" "pte_of 8 ?w \<noteq> fault_pte 7 ?w"
    using demo_pd(2) [of 42]
    by (simp_all add: page_stored_def s store_ready_def page_mapped_def d e v8 demo_frames_def demo_frame_def
        log_expects_def fault_pte_def fault_page_def frame_addr_def drop_bit_eq_div)
qed

lemma page_fault_replaces_oldest_witness:
  "\<exists>w'. myPageFault (demo_vm 42) = Some (Ret (), w') \<and>
     walk (vmm w') (frame_addr 6) 0x0102A000 = Some (frame_addr 8) \<and> page_word 0 0 0 w' = 0 \<and> frames_ok ([9..<50] @ [8]) w'"
proof -
  let ?w = "demo_vm 42"
  have k: "ref_count (ivs ?w (FEnt 7)) \<noteq> 1 \<or> dir_of 8 ?w \<noteq> frame_addr 6 + 4 * drop_bit 22 (fault_addr ?w)"
    by (simp add: demo_frames_def demo_frame_def)
  obtain w' where w': "myPageFault ?w = Some (Ret (), w')"
    "walk (vmm w') (frame_addr 6) (fault_addr ?w) = Some (frame_addr 8 + and (fault_addr ?w) 0xfff)"
    "\<forall>b' page' j. 0 \<le> b' \<and> b' \<le> MAX_ID \<and> page' < RD_PAGES_PER_BS \<and> j < 1024 \<longrightarrow> page_word b' page' j w' =
       (if b' = sint (0 :: u32) \<and> page' = 0 then word_at (vmm ?w) (frame_addr 8 + 4 * of_nat j) else page_word b' page' j ?w)"
    "frames_ok ([9..<50] @ [8]) w'"
    using page_fault_replaces_oldest [OF demo_full_ready demo_full_frames _ demo_oldest(4-7) k demo_oldest(1) [symmetric]] by auto
  have "page_word 0 0 0 w' = 0" using w'(3) [rule_format, of 0 0 0] by (simp add: frame_addr_def demo_word_def)
  then show ?thesis using w' by auto
qed

text \<open>C30.  When the page that FIFO replaces is the only page of the page table that the fault needs, that
  table is freed while the handler still uses it: the handler enters the new page in it and
  returns, but the directory entry is no longer present, so the address is not translated and the
  process faults again.\<close>

theorem page_table_lost_under_fault:
  assumes r: "fault_ready d t w" and x: "frames_ok (i # zs) w" and n: "free_frame NFRAMES 0 w = None" and p: "currpolicy w = FIFO"
    and v: "page_stored i w" "page_mapped i t w" "log_expects i w"
    and only: "ref_count (ivs w (FEnt t)) = 1" "dir_of i w = frame_addr d + 4 * drop_bit 22 (fault_addr w)"
  shows "\<exists>w'. myPageFault w = Some (Ret (), w') \<and> walk (vmm w') (frame_addr d) (fault_addr w) = None \<and>
    valid (ivs w' (FEnt t)) = NULL_PAGE \<and> ref_count (ivs w' (FEnt t)) = 1 \<and> frames_ok (zs @ [i]) w' \<and>
    pt_pres (word_at (vmm w') (fault_pte t w))"
proof -
  let ?pd = "frame_addr d + 4 * drop_bit 22 (fault_addr w)"
  let ?W = "replaced i t (fault_pid w) (fault_page w) PAGE (fifo_unlink i (faulted w))"
  note R = fault_readyD [OF r] and G = fault_gets_oldest [OF r x n p v]
  have pd: "\<not> pd_pres (word_at (vmm ?W) ?pd)" using G(2) only by (simp add: pd_base_clear)
  obtain w' where w': "myPageFault w = Some (Ret (), w')"
    "walk (vmm w') (frame_addr d) (fault_addr w) =
      (if pd_pres (word_at (vmm ?W) ?pd) then Some (frame_addr i + and (fault_addr w) 0xfff) else None)"
    "w' = page_entered i (fault_pte t w) t (fault_pid w) (fault_page w) (page_read i (fault_store w) ?W)"
    by (rule fault_served [OF r G(6-8,1)]) (use R(6) G(3,4) in simp_all)
  have "valid (ivs ?W (FEnt t)) = NULL_PAGE" "ref_count (ivs ?W (FEnt t)) = 0"
    using only(1) G(9) by (simp_all add: replaced_def Let_def split_def unmap_def)
  then have "valid (ivs w' (FEnt t)) = NULL_PAGE" "ref_count (ivs w' (FEnt t)) = 1" by (simp_all add: w'(3))
  moreover have "frames_ok (zs @ [i]) w'" unfolding w'(3) by (rule frames_ok_entered [OF G(5)])
  moreover have "pt_pres (word_at (vmm w') (fault_pte t w))"
    using pd_pres_entry by (simp add: w'(3) set_pt_t_def pt_pres_def pd_pres_def)
  ultimately show ?thesis using w'(1,2) pd by (intro exI [of _ w']) simp
qed

text \<open>The same memory with only one page of process 1 in it; the others are those of process 2.\<close>

definition lone_frames :: "fifo_ref \<Rightarrow> ivent" where
  "lone_frames r = (demo_frames 42 r)
     \<lparr>ref_count := 1, ivpid := (if r = FEnt 8 \<or> r = FEnt 6 \<or> r = FEnt 7 then 1 else 2)\<rparr>"

definition lone_vm :: vm where
  "lone_vm = (demo_vm 42)\<lparr>ivs := lone_frames\<rparr>"

lemma lone_vm_same:
  "vk lone_vm = vk (demo_vm 42)" "vmm lone_vm = vmm (demo_vm 42)" "ivs lone_vm = lone_frames" "currpolicy lone_vm = FIFO"
  "fault_store lone_vm = fault_store (demo_vm 42)" "fault_addr lone_vm = fault_addr (demo_vm 42)"
  "store_ready b off lone_vm = store_ready b off (demo_vm 42)" "table_frame pd lone_vm = table_frame pd (demo_vm 42)"
  "pgf_frame_sem lone_vm = 6" "get_frame_sem lone_vm = 5" "bs_sem lone_vm = 3" "junk lone_vm = junk (demo_vm 42)"
  "frame_md lone_vm = frame_md (demo_vm 42)"
  using get_store_offset_cong [of lone_vm "demo_vm 42"]
  by (simp_all add: lone_vm_def fault_store_def fault_pid_def fault_addr_def store_ready_def disk_ok_def table_frame_def)

lemma page_table_lost_under_fault_witness:
  "\<exists>w'. myPageFault lone_vm = Some (Ret (), w') \<and> walk (vmm w') (frame_addr 6) 0x0102A000 = None"
proof -
  have f: "valid (lone_frames r) = valid (demo_frames 42 r)" "frame_number (lone_frames r) = frame_number (demo_frames 42 r)"
    "fifo_prev (lone_frames r) = fifo_prev (demo_frames 42 r)" "fifo_next (lone_frames r) = fifo_next (demo_frames 42 r)"
    "vpage_num (lone_frames r) = vpage_num (demo_frames 42 r)" "ref_count (lone_frames r) = 1" for r
    by (simp_all add: lone_frames_def)
  have r: "fault_ready 6 7 lone_vm" using demo_full_ready
    by (simp add: fault_ready_def lone_vm_same f fault_pid_def Let_def)
  have x: "frames_ok (8 # [9..<50]) lone_vm" using demo_full_frames(1) frames_ok_cong [of lone_vm "demo_vm 42"]
    by (simp add: lone_vm_same f)
  have n: "free_frame NFRAMES 0 lone_vm = None" using demo_full_frames(2) by (simp add: free_frame_None lone_vm_same f)
  have p8: "ivpid (lone_frames (FEnt 8)) = 1" "ivpid (demo_frames 42 (FEnt 8)) = 1"
    by (simp_all add: lone_frames_def demo_frames_def demo_frame_def)
  have s: "dir_of 8 lone_vm = dir_of 8 (demo_vm 42)" "store_of 8 lone_vm = store_of 8 (demo_vm 42)"
    using get_store_offset_cong [of lone_vm "demo_vm 42"]
    by (simp_all add: dir_of_def pd_addr_def store_of_def lone_vm_same f p8) (simp add: lone_vm_def)
  then have e: "pte_of 8 lone_vm = pte_of 8 (demo_vm 42)" by (simp add: pte_of_def pt_addr_def lone_vm_same f)
  have v: "page_stored 8 lone_vm" "page_mapped 8 7 lone_vm" "log_expects 8 lone_vm"
    using demo_oldest(4-6) by (simp_all add: page_stored_def page_mapped_def log_expects_def s e lone_vm_same f p8)
  have o: "dir_of 8 lone_vm = frame_addr 6 + 4 * drop_bit 22 (fault_addr lone_vm)"
    by (simp add: s demo_oldest(2) lone_vm_same frame_addr_def drop_bit_eq_div)
  from page_table_lost_under_fault [OF r x n lone_vm_same(4) v _ o] show ?thesis by (auto simp: lone_vm_same f)
qed

end
