(* ===== verification/ClockPolicy.thy ===== *)
theory ClockPolicy
  imports PagingProps
begin

text \<open>
  The second replacement policy (\<open>GCA\<close> in \<open>get_free_frame_number\<close>): the hand that goes round the list
  of pages.  The reference is a class for each page, the number of its accessed and dirty bits;
  the hand takes the first page of the lowest class and lowers the class of the pages it passes.
\<close>

definition bits_of :: "u32 \<Rightarrow> nat" where
  "bits_of e = (if pt_acc e then 1 else 0) + (if pt_dirty e then 1 else 0)"

definition page_class :: "nat \<Rightarrow> vm \<Rightarrow> nat" where
  "page_class x w = bits_of (word_at (vmm w) (pte_of x w))"

text \<open>Where the hand goes from page \<open>x\<close>: to the next newer page, and from the newest to the oldest.\<close>

definition hand_next :: "nat \<Rightarrow> vm \<Rightarrow> fifo_ref" where
  "hand_next x w = (let r = fifo_prev (ivs w (FEnt x)) in if r = FTail then fifo_prev (ivs w FHead) else r)"

definition lower :: "nat \<Rightarrow> vm \<Rightarrow> vm" where
  "lower x w = upd_vmm (clear_bit_at (if pt_dirty (word_at (vmm w) (pte_of x w)) then 6 else 5) (pte_of x w)) w"

text \<open>The entries the hand looks at: all different, and none dirty without having been accessed.\<close>

definition scannable :: "nat list \<Rightarrow> vm \<Rightarrow> bool" where
  "scannable zs w \<longleftrightarrow>
     inj_on (\<lambda>x. pte_of x w) (set zs) \<and>
     (\<forall>x \<in> set zs. pt_dirty (word_at (vmm w) (pte_of x w)) \<longrightarrow> pt_acc (word_at (vmm w) (pte_of x w)))"

fun linked :: "vm \<Rightarrow> nat list \<Rightarrow> nat \<Rightarrow> bool" where
  "linked w [] q \<longleftrightarrow> True"
| "linked w [x] q \<longleftrightarrow> hand_next x w = FEnt q"
| "linked w (x # y # zs) q \<longleftrightarrow> hand_next x w = FEnt y \<and> linked w (y # zs) q"

subsection \<open>Lowering the class of a page\<close>

lemma lower_fields [simp]:
  "ivs (lower x w) = ivs w" "fifo_hand (lower x w) = fifo_hand w" "vk (lower x w) = vk w" "hand_next y (lower x w) = hand_next y w"
  by (simp_all add: lower_def hand_next_def Let_def)

lemma lower_entry: "word_at (vmm (lower x w)) a =
    (if a = pte_of x w then unset_bit (if pt_dirty (word_at (vmm w) a) then 6 else 5) (word_at (vmm w) a) else word_at (vmm w) a)"
  by (simp add: lower_def clear_bit_word)

lemma pd_base_unset: "n < 12 \<Longrightarrow> pd_base (unset_bit n e) = pd_base e"
  unfolding pd_base_def by (rule bit_word_eqI) (simp add: bit_drop_bit_eq bit_unset_bit_iff)

lemma lower_entries:
  "dir_of y (lower x w) = dir_of y w" "pte_of y (lower x w) = pte_of y w"
proof -
  show d: "dir_of y (lower x w) = dir_of y w" by (simp add: dir_of_def pd_addr_def)
  have "pd_base (word_at (vmm (lower x w)) a) = pd_base (word_at (vmm w) a)" for a
    by (simp add: lower_entry pd_base_unset)
  then show "pte_of y (lower x w) = pte_of y w" by (simp add: pte_of_def pt_addr_def d)
qed

lemma bits_lower:
  assumes "pt_dirty e \<Longrightarrow> pt_acc e" "pt_acc e"
  shows "bits_of (unset_bit (if pt_dirty e then 6 else 5) e) = bits_of e - 1"
    "pt_dirty (unset_bit (if pt_dirty e then 6 else 5) e) \<longrightarrow> pt_acc (unset_bit (if pt_dirty e then 6 else 5) e)"
  using assms by (auto simp: bits_of_def pt_acc_def pt_dirty_def bit_unset_bit_iff)

lemma class_lower:
  assumes "scannable zs w" "x \<in> set zs" "y \<in> set zs" "0 < page_class x w"
  shows "page_class y (lower x w) = (if y = x then page_class x w - 1 else page_class y w)"
proof -
  have a: "pt_dirty (word_at (vmm w) (pte_of x w)) \<Longrightarrow> pt_acc (word_at (vmm w) (pte_of x w))"
    using assms(1,2) by (simp add: scannable_def)
  then have "pt_acc (word_at (vmm w) (pte_of x w))" using assms(4) by (auto simp: page_class_def bits_of_def split: if_splits)
  then show ?thesis using bits_lower a assms(1-3)
    by (auto simp: page_class_def lower_entries lower_entry scannable_def inj_on_def)
qed

lemma scannable_lower:
  assumes "scannable zs w" "x \<in> set zs" "0 < page_class x w"
  shows "scannable zs (lower x w)"
proof -
  have a: "pt_dirty (word_at (vmm w) (pte_of x w)) \<Longrightarrow> pt_acc (word_at (vmm w) (pte_of x w))"
    using assms(1,2) by (simp add: scannable_def)
  then have "pt_acc (word_at (vmm w) (pte_of x w))" using assms(3) by (auto simp: page_class_def bits_of_def split: if_splits)
  then show ?thesis using bits_lower(2) a assms(1)
    by (auto simp: scannable_def lower_entries lower_entry inj_on_def)
qed

subsection \<open>The scan\<close>

definition hand_at :: "fifo_ref \<Rightarrow> vm \<Rightarrow> vm" where
  "hand_at r w = w\<lparr>fifo_hand := r\<rparr>"

lemma hand_at_fields [simp]:
  "ivs (hand_at r w) = ivs w" "vmm (hand_at r w) = vmm w" "fifo_hand (hand_at r w) = r" "vk (hand_at r w) = vk w"
  "hand_at r (hand_at r' w) = hand_at r w" "dir_of x (hand_at r w) = dir_of x w" "pte_of x (hand_at r w) = pte_of x w"
  "page_class x (hand_at r w) = page_class x w" "lower x (hand_at r w) = hand_at r (lower x w)"
  "hand_next x (hand_at r w) = hand_next x w"
  by (simp_all add: hand_at_def dir_of_def pte_of_def pd_addr_def pt_addr_def page_class_def lower_def upd_vmm_def hand_next_def Let_def)

lemma hand_pt_at: "hand_pt (hand_at (FEnt x) w) = pte_of x w"
  by (simp add: hand_pt_def pte_of_def dir_of_def Let_def pd_addr_def pt_addr_def)

lemma hand_on_at: "hand_on (hand_at (FEnt x) w) = hand_at (fifo_prev (ivs w (FEnt x))) w"
  by (simp add: hand_on_def hand_at_def)

lemma gca_stop:
  assumes "page_class x w = 0"
  shows "gca_scan (hand_at (FEnt x) w) = Some (frame_number (ivs w (FEnt x)), hand_at (fifo_prev (ivs w (FEnt x))) w)"
  using assms by (subst gca_scan.simps) (simp add: Let_def hand_pt_at hand_on_at page_class_def bits_of_def split: if_splits)

lemma upd_hand_at: "upd_vmm f (hand_at r w) = hand_at r (upd_vmm f w)"
  by (simp add: upd_vmm_def hand_at_def)

lemma gca_pass:
  assumes "pt_acc (word_at (vmm w) (pte_of x w))" "fifo_prev (ivs w FHead) \<noteq> FTail"
  shows "gca_scan (hand_at (FEnt x) w) = gca_scan (hand_at (hand_next x w) (lower x w))"
proof -
  let ?a = "pte_of x w"
  let ?n = "if pt_dirty (word_at (vmm w) ?a) then 6 else 5"
  have "hand_on (upd_vmm (clear_bit_at ?n ?a) (hand_at (FEnt x) w)) = hand_at (fifo_prev (ivs w (FEnt x))) (lower x w)"
    by (simp add: upd_hand_at hand_on_at lower_def)
  moreover have "hand_next x w = (if fifo_prev (ivs w (FEnt x)) = FTail then fifo_prev (ivs w FHead) else fifo_prev (ivs w (FEnt x)))"
    by (simp add: hand_next_def Let_def)
  moreover have "(hand_at r v)\<lparr>fifo_hand := r'\<rparr> = hand_at r' v" for r r' v by (simp add: hand_at_def)
  ultimately show ?thesis using assms
    by (subst gca_scan.simps) (simp add: Let_def hand_pt_at)
qed

lemma linked_lower [simp]: "linked (lower x w) zs q = linked w zs q"
  by (induction w zs q rule: linked.induct) simp_all

lemma linked_prefix: "linked w (us @ v # vs) q \<Longrightarrow> linked w us v"
proof (induction us)
  case (Cons u us)
  show ?case
  proof (cases us)
    case Nil
    then show ?thesis using Cons.prems by (cases vs) simp_all
  next
    case (Cons u' us')
    then show ?thesis using Cons.IH Cons.prems by simp
  qed
qed simp

text \<open>After the hand has passed the pages \<open>ps\<close>.\<close>

definition passed :: "nat list \<Rightarrow> nat list \<Rightarrow> vm \<Rightarrow> vm \<Rightarrow> bool" where
  "passed zs ps w w' \<longleftrightarrow>
     scannable zs w' \<and> w' = w\<lparr>vmm := vmm w'\<rparr> \<and> (\<forall>x. pte_of x w' = pte_of x w) \<and>
     (\<forall>a. a \<notin> (\<lambda>x. pte_of x w) ` set zs \<longrightarrow> word_at (vmm w') a = word_at (vmm w) a) \<and>
     (\<forall>y \<in> set zs. page_class y w' = page_class y w - (if y \<in> set ps then 1 else 0))"

lemma passed_same: "passed zs ps w w' \<Longrightarrow> ivs w' = ivs w \<and> linked w' ys q = linked w ys q"
proof -
  assume "passed zs ps w w'"
  then have "w' = w\<lparr>vmm := vmm w'\<rparr>" by (simp add: passed_def)
  then have i: "ivs w' = ivs w" by (metis vm.ext_inject vm.surjective vm.update_convs(2))
  then have "hand_next x w' = hand_next x w" for x by (simp add: hand_next_def Let_def)
  then have "linked w' ys q = linked w ys q" by (induction w ys q rule: linked.induct) simp_all
  with i show ?thesis by simp
qed

lemma passed_nil: "scannable zs w \<Longrightarrow> passed zs [] w w"
  by (simp add: passed_def)

lemma passed_one:
  assumes "scannable zs w" "x \<in> set zs" "0 < page_class x w"
  shows "passed zs [x] w (lower x w)"
proof -
  have "lower x w = w\<lparr>vmm := vmm (lower x w)\<rparr>" by (simp add: lower_def upd_vmm_def)
  then show ?thesis using assms scannable_lower class_lower
    by (auto simp: passed_def lower_entries lower_entry)
qed

lemma passed_trans:
  assumes "passed zs [x] w u" "passed zs ps u v" "x \<notin> set ps"
  shows "passed zs (x # ps) w v"
proof -
  have "v = w\<lparr>vmm := vmm v\<rparr>" using assms(1,2) unfolding passed_def by (metis vm.surjective vm.update_convs(2))
  moreover have "page_class y v = page_class y w - (if y \<in> set (x # ps) then 1 else 0)" if "y \<in> set zs" for y
    using assms that by (auto simp: passed_def)
  moreover have "word_at (vmm v) a = word_at (vmm w) a" if "a \<notin> (\<lambda>x. pte_of x w) ` set zs" for a
    using assms(1,2) that unfolding passed_def by (metis (no_types, lifting) image_cong)
  ultimately show ?thesis using assms(1,2) unfolding passed_def by metis
qed

lemma gca_passes:
  assumes "scannable zs w" "distinct ps" "set ps \<subseteq> set zs" "\<forall>x \<in> set ps. 0 < page_class x w"
    and "linked w ps q" "ps \<noteq> []" "fifo_prev (ivs w FHead) \<noteq> FTail"
  shows "\<exists>w'. gca_scan (hand_at (FEnt (hd ps)) w) = gca_scan (hand_at (FEnt q) w') \<and> passed zs ps w w'"
  using assms
proof (induction ps arbitrary: w)
  case (Cons x ps)
  have p: "passed zs [x] w (lower x w)" by (rule passed_one) (use Cons.prems in auto)
  have "pt_acc (word_at (vmm w) (pte_of x w))"
    using Cons.prems(1,3,4) by (auto simp: page_class_def bits_of_def scannable_def split: if_splits)
  then have 1: "gca_scan (hand_at (FEnt x) w) = gca_scan (hand_at (hand_next x w) (lower x w))"
    using gca_pass Cons.prems(7) by blast
  show ?case
  proof (cases ps)
    case Nil
    then show ?thesis using p 1 Cons.prems(5) by auto
  next
    case (Cons y ys)
    have "\<exists>w'. gca_scan (hand_at (FEnt (hd ps)) (lower x w)) = gca_scan (hand_at (FEnt q) w') \<and> passed zs ps (lower x w) w'"
    proof (rule Cons.IH)
      show "\<forall>z \<in> set ps. 0 < page_class z (lower x w)"
        using class_lower [OF Cons.prems(1), of x] Cons.prems by auto
    qed (use Cons.prems scannable_lower Cons in auto)
    then obtain w' where w': "gca_scan (hand_at (FEnt (hd ps)) (lower x w)) = gca_scan (hand_at (FEnt q) w')" "passed zs ps (lower x w) w'"
      by blast
    have "hand_next x w = FEnt (hd ps)" using Cons.prems(5) Cons by simp
    moreover have "passed zs (x # ps) w w'" by (rule passed_trans [OF p w'(2)]) (use Cons.prems(2) in simp)
    ultimately show ?thesis using 1 w'(1) by auto
  qed
qed simp

lemma gca_scan_min:
  assumes "scannable zs w" "distinct zs" "linked w zs (hd zs)" "zs = us @ v # vs" "fifo_prev (ivs w FHead) \<noteq> FTail"
    and "page_class v w = k" "\<forall>x \<in> set us. k < page_class x w" "\<forall>x \<in> set zs. k \<le> page_class x w"
  shows "\<exists>w'. gca_scan (hand_at (FEnt (hd zs)) w) =
      Some (frame_number (ivs w (FEnt v)), hand_at (fifo_prev (ivs w (FEnt v))) w') \<and>
    w' = w\<lparr>vmm := vmm w'\<rparr> \<and> (\<forall>a. a \<notin> (\<lambda>x. pte_of x w) ` set zs \<longrightarrow> word_at (vmm w') a = word_at (vmm w) a)"
  using assms
proof (induction k arbitrary: w)
  case 0
  have stop: "gca_scan (hand_at (FEnt v) w') = Some (frame_number (ivs w (FEnt v)), hand_at (fifo_prev (ivs w (FEnt v))) w')"
    if "passed zs us w w'" for w'
  proof -
    have "page_class v w' = 0" using that 0 by (auto simp: passed_def)
    then show ?thesis using gca_stop passed_same [OF that] by simp
  qed
  show ?case
  proof (cases "us = []")
    case True
    then show ?thesis using stop [OF _ , of w] passed_nil [OF 0(1)] 0(4) by (intro exI [of _ w]) simp
  next
    case False
    then have h: "hd zs = hd us" using 0(4) by simp
    obtain w' where "gca_scan (hand_at (FEnt (hd us)) w) = gca_scan (hand_at (FEnt v) w')" "passed zs us w w'"
      using gca_passes [OF 0(1), of us v] 0 False linked_prefix [of w us v vs "hd zs"] by auto
    then show ?thesis using stop h by (intro exI [of _ w']) (simp add: passed_def)
  qed
next
  case (Suc k)
  have "zs \<noteq> []" using Suc.prems(4) by simp
  then obtain w' where w': "gca_scan (hand_at (FEnt (hd zs)) w) = gca_scan (hand_at (FEnt (hd zs)) w')" "passed zs zs w w'"
    using gca_passes [OF Suc.prems(1,2), of "hd zs"] Suc.prems(3,5,8) by force
  have c: "page_class x w' = page_class x w - 1" if "x \<in> set zs" for x using w'(2) that by (simp add: passed_def)
  have P: "scannable zs w'" "linked w' zs (hd zs)" "ivs w' = ivs w" "\<forall>x. pte_of x w' = pte_of x w"
    using w'(2) passed_same [OF w'(2)] Suc.prems(3) by (simp_all add: passed_def)
  have "\<exists>u. gca_scan (hand_at (FEnt (hd zs)) w') =
      Some (frame_number (ivs w' (FEnt v)), hand_at (fifo_prev (ivs w' (FEnt v))) u) \<and>
    u = w'\<lparr>vmm := vmm u\<rparr> \<and> (\<forall>a. a \<notin> (\<lambda>x. pte_of x w') ` set zs \<longrightarrow> word_at (vmm u) a = word_at (vmm w') a)"
  proof (rule Suc.IH)
    show "page_class v w' = k" using c [of v] Suc.prems(4,6) by simp
    show "\<forall>x \<in> set us. k < page_class x w'" using c Suc.prems(4,7) by fastforce
    show "\<forall>x \<in> set zs. k \<le> page_class x w'" using c Suc.prems(8) by fastforce
  qed (use P Suc.prems in simp_all)
  then obtain u where u: "gca_scan (hand_at (FEnt (hd zs)) w') =
      Some (frame_number (ivs w (FEnt v)), hand_at (fifo_prev (ivs w (FEnt v))) u)" "u = w'\<lparr>vmm := vmm u\<rparr>"
    "\<forall>a. a \<notin> (\<lambda>x. pte_of x w) ` set zs \<longrightarrow> word_at (vmm u) a = word_at (vmm w') a"
    using P(3,4) by auto
  have "u = w\<lparr>vmm := vmm u\<rparr>" using u(2) w'(2) unfolding passed_def by (metis vm.surjective vm.update_convs(2))
  moreover have "word_at (vmm u) a = word_at (vmm w) a" if "a \<notin> (\<lambda>x. pte_of x w) ` set zs" for a
    using u(3) w'(2) that by (simp add: passed_def)
  ultimately show ?case using w'(1) u(1) by (intro exI [of _ u]) simp
qed

subsection \<open>The hand and the list of pages\<close>

lemma linked_append: "linked w (us @ y # vs) q \<longleftrightarrow> linked w us y \<and> linked w (y # vs) q"
proof (induction us)
  case (Cons u us)
  then show ?case by (cases us) auto
qed simp

lemma seg_linked_end:
  "seg (ivs w) (FEnt x) ys FTail \<Longrightarrow> fifo_prev (ivs w FHead) = FEnt h \<Longrightarrow> linked w (x # ys) h"
  by (induction ys arbitrary: x) (simp_all add: hand_next_def)

lemma seg_linked_mid: "seg (ivs w) (FEnt x) ys (FEnt y) \<Longrightarrow> linked w (x # ys) y"
  by (induction ys arbitrary: x) (simp_all add: hand_next_def)

lemma pages_cycle:
  assumes "pages (us @ y # vs) w"
  shows "linked w (y # vs @ us) y"
proof (cases us)
  case Nil
  then show ?thesis using assms seg_linked_end [of w y vs y] by (simp add: pages_def)
next
  case (Cons u us')
  then have "seg (ivs w) (FEnt u) us' (FEnt y)" "seg (ivs w) (FEnt y) vs FTail" "fifo_prev (ivs w FHead) = FEnt u"
    using assms by (simp_all add: pages_def seg_append)
  then have "linked w (u # us') y" "linked w (y # vs) u" using seg_linked_mid seg_linked_end by blast+
  then show ?thesis using linked_append [of w "y # vs" u us' y] Cons by simp
qed

lemma newest_at_tail:
  assumes "pages xs w" "v \<in> set xs"
  shows "fifo_prev (ivs w (FEnt v)) = FTail \<longleftrightarrow> v = last xs"
proof -
  obtain us vs where x: "xs = us @ v # vs" using assms(2) by (meson split_list)
  then have s: "seg (ivs w) (FEnt v) vs FTail" "distinct (us @ v # vs)" using assms(1) by (simp_all add: pages_def seg_append)
  show ?thesis
  proof (cases vs)
    case Nil
    then show ?thesis using s x by simp
  next
    case (Cons z vs')
    then have "v \<noteq> last xs" using s(2) x by (metis distinct.simps(2) distinct_append last.simps last_append last_in_set list.distinct(1))
    then show ?thesis using s Cons by simp
  qed
qed

lemma scannable_set: "set zs = set xs \<Longrightarrow> scannable zs w = scannable xs w"
  by (simp add: scannable_def)

text \<open>C12.  The hand of the second policy takes the first page, from where it stands and round the list
  once, of those with the fewest of the accessed and dirty bits set, provided that no page is dirty without having
  been accessed (there the code panics); the page
  leaves the list and only page table entries of pages in memory are changed.  The hand is then on
  the next newer page, or at the end of the list if the newest page was taken.\<close>

theorem gca_takes_lowest_class:
  assumes x: "frames_ok (us @ y # vs) w" and h: "fifo_hand w = FEnt y \<or> fifo_hand w = FHead \<and> us = []"
    and sc: "scannable (us @ y # vs) w" and z: "y # vs @ us = ps @ v # qs"
    and m: "\<forall>p \<in> set ps. page_class v w < page_class p w" "\<forall>q \<in> set qs. page_class v w \<le> page_class q w"
  shows "\<exists>w'. gca_victim w = Some (v, w') \<and> frames_but v (remove1 v (us @ y # vs)) w' \<and>
    (\<forall>a. a \<notin> (\<lambda>p. pte_of p w) ` set (us @ y # vs) \<longrightarrow> word_at (vmm w') a = word_at (vmm w) a) \<and>
    fifo_hand w' = fifo_prev (ivs w (FEnt v)) \<and> (fifo_hand w' = FTail \<longleftrightarrow> v = last (us @ y # vs))"
proof -
  let ?zs = "y # vs @ us"
  have P: "pages (us @ y # vs) w" "distinct ?zs" using x by (auto simp: frames_ok_def pages_def)
  have hd: "fifo_prev (ivs w FHead) \<noteq> FTail" "us = [] \<Longrightarrow> fifo_prev (ivs w FHead) = FEnt y"
    using P(1) by (cases us; simp add: pages_def)+
  have "v \<in> set ?zs" unfolding z by simp
  then have vx: "v \<in> set (us @ y # vs)" by auto
  have all: "\<forall>p \<in> set ?zs. page_class v w \<le> page_class p w" unfolding z using m by (auto intro: less_imp_le)
  have "w = hand_at (FEnt y) w" if "fifo_hand w = FEnt y" using that by (simp add: hand_at_def)
  moreover have "gca_scan w = gca_scan (hand_at (FEnt y) w)" if "fifo_hand w = FHead" "us = []"
    by (subst (1 2) gca_scan.simps) (simp add: that hd(2) hand_at_def)
  ultimately have s: "gca_scan w = gca_scan (hand_at (FEnt (hd ?zs)) w)" using h by auto
  have sz: "scannable ?zs w" using sc scannable_set [of ?zs "us @ y # vs" w] by auto
  have L: "linked w ?zs (hd ?zs)" using pages_cycle [OF P(1)] by simp
  obtain u where u: "gca_scan w = Some (frame_number (ivs w (FEnt v)), hand_at (fifo_prev (ivs w (FEnt v))) u)"
    "u = w\<lparr>vmm := vmm u\<rparr>" "\<forall>a. a \<notin> (\<lambda>p. pte_of p w) ` set ?zs \<longrightarrow> word_at (vmm u) a = word_at (vmm w) a"
    unfolding s using gca_scan_min [OF sz P(2) L z hd(1) refl m(1) all] by blast
  have iu: "ivs u = ivs w" using u(2) by (metis vm.ext_inject vm.surjective vm.update_convs(2))
  let ?w' = "fifo_unlink v (hand_at (fifo_prev (ivs w (FEnt v))) u)"
  have n: "frame_number (ivs w (FEnt v)) = of_nat v" "v < NFRAMES" using frames_okD [OF x vx] by simp_all
  then have "gca_victim w = Some (v, ?w')" by (simp add: gca_victim_def u(1) frame_number_of)
  moreover obtain as bs where ab: "us @ y # vs = as @ v # bs" using vx by (meson split_list)
  then have "v \<notin> set as" using P(1) by (auto simp: pages_def)
  then have "remove1 v (us @ y # vs) = as @ bs" unfolding ab by (rule remove1_append_mid)
  moreover have "frames_ok (as @ v # bs) (hand_at (fifo_prev (ivs w (FEnt v))) u)"
    using x frames_ok_ivs [of "hand_at (fifo_prev (ivs w (FEnt v))) u" w] iu ab by simp
  then have "frames_but v (as @ bs) ?w'" by (rule unlink_ok)
  ultimately show ?thesis using u(3) newest_at_tail [OF P(1) vx] by (intro exI [of _ ?w']) auto
qed

lemma gca_takes_lowest_class_witness:
  "\<exists>w'. gca_victim (demo_vm 1) = Some (8, w') \<and> frames_but 8 [] w' \<and> fifo_hand w' = FTail"
proof -
  let ?w = "demo_vm 1"
  have e: "\<not> pt_dirty (word_at (vmm ?w) (pte_of 8 ?w))"
  proof -
    have d: "dir_of 8 ?w = 4218896" by (simp add: dir_of_def demo_frames_def demo_frame_def pd_addr_def drop_bit_eq_div)
    have "pte_of 8 ?w = 4222976"
      using pt_addr_table [OF demo_pd(2) [of 1]]
      by (simp add: pte_of_def d demo_frames_def demo_frame_def frame_addr_def drop_bit_eq_div del: One_nat_def)
    then show ?thesis by (simp add: demo_word_def pt_dirty_def pd_entry_def bit_or_iff bit_push_bit_iff)
  qed
  have "scannable ([] @ 8 # []) ?w" using e by (simp add: scannable_def)
  from gca_takes_lowest_class [of "[]" 8 "[]" ?w, OF _ _ this, of "[]" 8 "[]"] demo_frames_ok
  show ?thesis by auto
qed

text \<open>With the hand at the end of the list, where taking the newest page leaves it, the next
  call that has to replace a page does not return: it panics, although there are pages to take.\<close>

theorem gca_panics_at_tail:
  assumes "fifo_hand w = FTail" "currpolicy w = GCA" "free_frame NFRAMES 0 w = None" "sem_idle (get_frame_sem w) (vk w)"
  shows "get_free_frame_number pid vpn purpose w = None"
proof -
  have "gca_victim (grab (get_frame_sem w) w) = None"
    using assms(1) by (simp add: gca_victim_def gca_scan.simps)
  then show ?thesis using assms by (simp add: get_free_frame_number_def vwait_idle)
qed

lemma gca_panics_at_tail_witness:
  "get_free_frame_number 1 5000 PAGE ((demo_vm 42)\<lparr>currpolicy := GCA, fifo_hand := FTail\<rparr>) = None"
proof -
  have "free_frame NFRAMES 0 ((demo_vm 42)\<lparr>currpolicy := GCA, fifo_hand := FTail\<rparr>) = None"
    using demo_full_frames(2) unfolding free_frame_None by simp
  then show ?thesis by (intro gca_panics_at_tail) simp_all
qed

end
