(* ===== verification/PagingStart.thy ===== *)
theory PagingStart
  imports ClockPolicy
begin

text \<open>
  The start of paging: what \<open>initialize_paging\<close> leaves in the page tables, the frame table and the
  control registers.
\<close>

lemma first_word: "unat (x - a :: u32) < 4 \<Longrightarrow> 4 dvd unat (x - a) \<longleftrightarrow> x = a"
  by (metis diff_self dvd_0_right eq_iff_diff_eq_0 nat_dvd_not_less not_gr_zero unat_0 unat_eq_zero)

lemma map_pages_loop_at:
  "4 * k < 4294967296 \<Longrightarrow> word_at (map_pages_loop k a n m) x =
     (if unat (x - a) < 4 * k \<and> 4 dvd unat (x - a) then pd_entry (n + of_nat (unat (x - a) div 4)) else word_at m x)"
proof (induction k arbitrary: a n m)
  case (Suc k)
  let ?k = "unat (x - a)"
  have e: "x - (a + 4) = (x - a) - of_nat 4" by simp
  show ?case
  proof (cases "?k < 4")
    case True
    then have "unat (x - (a + 4)) = ?k + 4294967296 - 4" unfolding e by (rule unat_before) simp
    then have "\<not> unat (x - (a + 4)) < 4 * k" using Suc.prems by simp
    moreover have "4 dvd ?k \<longleftrightarrow> x = a" using first_word [OF True] .
    ultimately show ?thesis using Suc True by (simp add: set_pt_t_def)
  next
    case False
    then have k: "unat (x - (a + 4)) = ?k - 4" unfolding e by (intro unat_back) simp
    obtain j where j: "?k = j + 4" using False by (metis le_add_diff_inverse2 not_less)
    have "x \<noteq> a" using False by auto
    then show ?thesis using Suc k by (simp add: set_pt_t_def j algebra_simps)
  qed
qed simp

lemma not_present_loop_at:
  "4 * k < 4294967296 \<Longrightarrow> word_at (not_present_loop k a m) x =
     (if unat (x - a) < 4 * k \<and> 4 dvd unat (x - a) then unset_bit 0 (word_at m x) else word_at m x)"
proof (induction k arbitrary: a m)
  case (Suc k)
  let ?k = "unat (x - a)"
  have e: "x - (a + 4) = (x - a) - of_nat 4" by simp
  show ?case
  proof (cases "?k < 4")
    case True
    then have "unat (x - (a + 4)) = ?k + 4294967296 - 4" unfolding e by (rule unat_before) simp
    then have "\<not> unat (x - (a + 4)) < 4 * k" using Suc.prems by simp
    moreover have "4 dvd ?k \<longleftrightarrow> x = a" using first_word [OF True] .
    ultimately show ?thesis using Suc True by (simp add: clear_bit_word)
  next
    case False
    then have k: "unat (x - (a + 4)) = ?k - 4" unfolding e by (intro unat_back) simp
    obtain j where j: "?k = j + 4" using False by (metis le_add_diff_inverse2 not_less)
    have "x \<noteq> a" using False by auto
    then show ?thesis using Suc k by (simp add: clear_bit_word j)
  qed
qed simp

subsection \<open>The tables\<close>

text \<open>Memory after \<open>initialize_paging\<close>.\<close>

definition start_memory :: "memory \<Rightarrow> memory" where
  "start_memory m =
     map_pages_loop 1024 (Cal_Addr 5) (576 * 1024)
       (map_pages_loop 4096 (Cal_Addr 1) 0 (map_kernel (Cal_Addr 0) (not_present_loop 1024 (Cal_Addr 0) m)))"

lemma frame_addrs: "Cal_Addr 0 = 0x400000" "Cal_Addr 1 = 0x401000" "Cal_Addr 5 = 0x405000"
  by (simp_all add: Cal_Addr_def)

lemma outside_range:
  assumes "unat (b :: u32) + n \<le> 4294967296" "unat a < unat b"
  shows "\<not> unat (a - b) < n"
  using assms u32_max [of a] by (auto simp: unat_sub_if')

lemma u32_lt: "p < 1024 \<longleftrightarrow> unat p < 1024" "p < 4 \<longleftrightarrow> unat p < 4" for p :: u32
  by (simp_all add: word_less_nat_alt)

lemma start_device_table:
  assumes "q < 1024"
  shows "word_at (start_memory m) (0x405000 + 4 * q) = pd_entry (589824 + q)"
proof -
  have q: "unat q < 1024" using assms by (simp add: u32_lt)
  have "unat (0x405000 + 4 * q - 0x405000 :: u32) = 4 * unat q" using q by (simp add: unat_word_ariths)
  then show ?thesis using q by (simp add: start_memory_def frame_addrs map_pages_loop_at)
qed

lemma start_table:
  assumes "p < 4" "q < 1024"
  shows "word_at (start_memory m) (0x401000 + 4096 * p + 4 * q) = pd_entry (1024 * p + q)"
proof -
  let ?x = "0x401000 + 4096 * p + 4 * q :: u32"
  have b: "unat p < 4" "unat q < 1024" using assms by (simp_all add: u32_lt)
  have "unat ?x = 0x401000 + 4096 * unat p + 4 * unat q" using b by (simp add: unat_word_ariths)
  then have "\<not> unat (?x - 0x405000) < 4096" using b by (intro outside_range) simp_all
  moreover have u: "unat (?x - 0x401000) = 4096 * unat p + 4 * unat q" using b by (simp add: unat_word_ariths)
  moreover have "(4096 * unat p + 4 * unat q) div 4 = 1024 * unat p + unat q" by simp
  moreover have "(of_nat (1024 * unat p + unat q) :: u32) = 1024 * p + q" by simp
  ultimately show ?thesis using b by (simp add: start_memory_def frame_addrs map_pages_loop_at)
qed

lemma start_directory:
  assumes "p < 1024"
  shows "word_at (start_memory m) (0x400000 + 4 * p) =
    (if p < 4 then pd_entry (1025 + p) else if p = 576 then pd_entry 1029 else unset_bit 0 (word_at m (0x400000 + 4 * p)))"
proof -
  let ?x = "0x400000 + 4 * p :: u32"
  have b: "unat p < 1024" using assms by (simp add: u32_lt)
  have x: "unat ?x = 0x400000 + 4 * unat p" using b by (simp add: unat_word_ariths)
  then have o: "\<not> unat (?x - 0x405000) < 4096" "\<not> unat (?x - 0x401000) < 16384"
    using b by (intro outside_range; simp)+
  have u: "unat (?x - 0x400000) = 4 * unat p" using b by (simp add: unat_word_ariths)
  have e: "?x = 0x400000 + 4 * of_nat k \<longleftrightarrow> p = of_nat k" if "k < 1024" for k
  proof -
    have "unat (0x400000 + 4 * of_nat k :: u32) = 0x400000 + 4 * k" using that by (simp add: unat_word_ariths unat_of_nat)
    then have "?x = 0x400000 + 4 * of_nat k \<longleftrightarrow> unat p = k" using x by (simp add: word_unat_eq_iff)
    then show ?thesis using that by (auto simp: unat_of_nat)
  qed
  have p4: "p < 4 \<longleftrightarrow> p = 0 \<or> p = 1 \<or> p = 2 \<or> p = 3"
    by (auto simp: word_less_nat_alt word_unat_eq_iff)
  show ?thesis
    using o u b e [of 0] e [of 1] e [of 2] e [of 3] e [of 576]
    by (auto simp add: start_memory_def frame_addrs map_pages_loop_at not_present_loop_at map_kernel_def set_pd_t_def p4)
qed

subsection \<open>The loops over the tables\<close>

lemma reset_loops [simp]:
  "vmm (reset_ivtentry_loop n w) = vmm w" "vk (reset_ivtentry_loop n w) = vk w" "fifo_hand (reset_ivtentry_loop n w) = fifo_hand w"
  "vmm (global_frames_loop n w) = vmm w" "vk (global_frames_loop n w) = vk w" "fifo_hand (global_frames_loop n w) = fifo_hand w"
  "vmm (reset_BSmapTab_loop n w) = vmm w" "vk (reset_BSmapTab_loop n w) = vk w" "fifo_hand (reset_BSmapTab_loop n w) = fifo_hand w"
  "ivs (reset_BSmapTab_loop n w) = ivs w"
  by (induction n; simp add: set_ivtentry_pd_pt_def upd_map_def)+

lemma reset_entries:
  "ivs (reset_ivtentry_loop n w) (FEnt i) = (if i < n then \<lparr>valid = NULL_PAGE, frame_number = of_nat i, ivpid = 0, vpage_num = 0,
     ref_count = 0, fifo_next = FNull, fifo_prev = FNull\<rparr> else ivs w (FEnt i))"
  "ivs (reset_ivtentry_loop n w) FHead = ivs w FHead" "ivs (reset_ivtentry_loop n w) FTail = ivs w FTail"
  by (induction n) auto

lemma global_entries:
  "ivs (global_frames_loop n w) (FEnt i) = (if 1 \<le> i \<and> i \<le> n
     then (ivs w (FEnt i))\<lparr>valid := PAGE_TAB, frame_number := of_nat i, ivpid := 0\<rparr> else ivs w (FEnt i))"
  "ivs (global_frames_loop n w) FHead = ivs w FHead" "ivs (global_frames_loop n w) FTail = ivs w FTail"
  by (induction n) (auto simp: set_ivtentry_pd_pt_def le_Suc_eq)

lemma reset_map_entries: "bsmap (reset_BSmapTab_loop n w) i = (if 0 \<le> i \<and> i < int n then no_map else bsmap w i)"
  by (induction n) (auto simp: upd_map_def)

lemma start_fields:
  "vmm (initialize_paging w) = start_memory (vmm w)" "fifo_hand (initialize_paging w) = FHead"
  "ivs (initialize_paging w) FHead = (ivs w FHead)\<lparr>fifo_next := FNull, fifo_prev := FTail, frame_number := - 1\<rparr>"
  "ivs (initialize_paging w) FTail = (ivs w FTail)\<lparr>fifo_next := FHead, fifo_prev := FNull, frame_number := - 1\<rparr>"
  "i < NFRAMES \<Longrightarrow> ivs (initialize_paging w) (FEnt i) = \<lparr>valid = (if i = 0 then PAGE_DIR else if i \<le> 5 then PAGE_TAB else NULL_PAGE),
     frame_number = of_nat i, ivpid = 0, vpage_num = 0, ref_count = 0, fifo_next = FNull, fifo_prev = FNull\<rparr>"
  by (simp_all add: initialize_paging_def Let_def split_def start_memory_def reset_ivtentry_def reset_BSmapTab_def
      set_ivtentry_pd_pt_def reset_entries global_entries)

lemma start_frames: "frames_ok [] (initialize_paging w)"
  by (auto simp: frames_ok_def pages_def start_fields)

lemma start_policy: "currpolicy (initialize_paging w) = currpolicy w"
proof -
  have "currpolicy (reset_ivtentry_loop n u) = currpolicy u" "currpolicy (global_frames_loop n u) = currpolicy u"
    "currpolicy (reset_BSmapTab_loop n u) = currpolicy u" for n u
    by (induction n; simp add: set_ivtentry_pd_pt_def upd_map_def)+
  then show ?thesis
    by (simp add: initialize_paging_def Let_def split_def reset_ivtentry_def reset_BSmapTab_def set_ivtentry_pd_pt_def)
qed

lemma start_registers:
  "cr3 (vk (initialize_paging w)) = Cal_Addr 0" "bit (cr0 (vk (initialize_paging w))) 31" "bit (cr0 (vk (initialize_paging w))) 0"
  "\<not> bit (cr4 (vk (initialize_paging w))) 5"
  by (simp_all add: initialize_paging_def Let_def split_def write_CR_def read_CR_def frame_addrs bit_simps
      reset_ivtentry_def reset_BSmapTab_def set_ivtentry_pd_pt_def)

subsection \<open>The first address space\<close>

lemma address_parts:
  fixes va :: u32
  defines "p \<equiv> drop_bit 22 va" and "q \<equiv> and (drop_bit 12 va) 0x3ff"
  shows "1024 * p + q = drop_bit 12 va" "push_bit 12 (drop_bit 12 va) + and va 0xfff = va" "drop_bit 12 va < 1048576"
    "p < 4 \<longleftrightarrow> va < 0x01000000" "p = 576 \<longleftrightarrow> 0x90000000 \<le> va \<and> va < 0x90400000"
proof -
  have m: "(0x3ff :: u32) = mask 10" "(0xfff :: u32) = mask 12" by (simp_all add: mask_eq_exp_minus_1)
  have "push_bit 10 (drop_bit 10 x) + take_bit 10 x = x" for x :: u32
    using bits_ident [of 10 x] by simp
  from this [of "drop_bit 12 va"] show "1024 * p + q = drop_bit 12 va"
    by (simp add: p_def q_def m take_bit_eq_mask push_bit_eq_mult mult.commute)
  show "push_bit 12 (drop_bit 12 va) + and va 0xfff = va"
    using bits_ident [of 12 va] by (simp add: m take_bit_eq_mask)
  have d: "unat (drop_bit 12 va) = unat va div 4096" "unat (drop_bit 22 va) = unat va div 4194304"
    by (simp_all add: drop_bit_eq_div unat_div)
  show "drop_bit 12 va < 1048576" using u32_max [of va] by (simp add: word_less_nat_alt d)
  show "p < 4 \<longleftrightarrow> va < 0x01000000" by (simp add: p_def word_less_nat_alt d div_less_iff_less_mult)
  show "p = 576 \<longleftrightarrow> 0x90000000 \<le> va \<and> va < 0x90400000"
  proof -
    have "p = 576 \<longleftrightarrow> unat p = 576" by (simp add: word_unat_eq_iff)
    also have "\<dots> \<longleftrightarrow> 2415919104 \<le> unat va \<and> unat va < 2420113408" unfolding p_def d by auto
    finally show ?thesis by (simp add: word_less_nat_alt word_le_nat_alt)
  qed
qed

text \<open>C29.  When paging is switched on, every address of the first 16 megabytes and of the devices'
  range from 0x90000000 on is translated to itself and no other address is translated at all; the
  directory is that in frame 0, six frames are taken and none holds a page, no store is mapped, and
  paging is enabled with pages of 4 kilobytes.\<close>

theorem paging_starts_with_identity:
  "walk (vmm (initialize_paging w)) (cr3 (vk (initialize_paging w))) va =
      (if va < 0x01000000 \<or> 0x90000000 \<le> va \<and> va < 0x90400000 then Some va else None) \<and>
    frames_ok [] (initialize_paging w) \<and> fifo_hand (initialize_paging w) = FHead \<and>
    free_frame NFRAMES 0 (initialize_paging w) = Some 6 \<and>
    bit (cr0 (vk (initialize_paging w))) 31 \<and> bit (cr0 (vk (initialize_paging w))) 0 \<and> \<not> bit (cr4 (vk (initialize_paging w))) 5"
proof (intro conjI)
  let ?p = "drop_bit 22 va" and ?q = "and (drop_bit 12 va) 0x3ff" and ?m = "start_memory (vmm w)"
  note A = address_parts [of va] and B = index_bounds [of va] index_bounds [of "drop_bit 12 va"]
  have e: "pt_pres (pd_entry n)" "pd_pres (pd_entry n)" "n < 1048576 \<Longrightarrow> pt_base (pd_entry n) = n" "n < 1048576 \<Longrightarrow> pd_base (pd_entry n) = n" for n
    using pd_pres_entry [of n] pd_base_entry [of n] by (simp_all add: pt_pres_def pd_pres_def pt_base_def pd_base_def)
  have "unat (1025 + ?p) = 1025 + unat ?p" using B(2) by (simp add: u32_lt unat_word_ariths)
  then have b: "1025 + ?p < 1048576" using B(2) by (simp add: word_less_nat_alt)
  have f: "push_bit 12 (1025 + ?p) = 0x401000 + 4096 * ?p" "push_bit 12 (1029 :: u32) = 0x405000"
    by (simp_all add: push_bit_eq_mult algebra_simps)
  have "walk ?m 0x400000 va = (if ?p < 4 \<or> ?p = 576 then Some va else None)"
  proof (cases "?p < 4")
    case True
    then show ?thesis using start_directory [OF B(2), of "vmm w"] start_table [OF True B(3), of "vmm w"]
      by (simp add: walk_def e b f A(1-3))
  next
    case False
    show ?thesis
    proof (cases "?p = 576")
      case True
      then have "589824 + ?q = drop_bit 12 va" using A(1) by simp
      then show ?thesis using False True start_directory [OF B(2), of "vmm w"] start_device_table [OF B(3), of "vmm w"]
        by (simp add: walk_def e f A(1-3))
    next
      case False
      with \<open>\<not> ?p < 4\<close> show ?thesis using start_directory [OF B(2), of "vmm w"] by (simp add: walk_def pd_base_clear)
    qed
  qed
  then show "walk (vmm (initialize_paging w)) (cr3 (vk (initialize_paging w))) va =
      (if va < 0x01000000 \<or> 0x90000000 \<le> va \<and> va < 0x90400000 then Some va else None)"
    using A(4,5) by (simp add: start_fields start_registers frame_addrs)
  show "frames_ok [] (initialize_paging w)" by (rule start_frames)
  show "free_frame NFRAMES 0 (initialize_paging w) = Some 6"
    by (simp add: numeral_eq_Suc start_fields)
qed (simp_all add: start_fields start_registers)

end
