(* ===== verification/FrameRuns.thy ===== *)
theory FrameRuns
  imports PagingStart
begin

text \<open>
  Whatever the paging calls do, the frame table stays well-formed: a rule for each way calls are put
  together, one lemma for each call, and a step relation of the calls that use frames.
\<close>

subsection \<open>Calls that keep a property\<close>

text \<open>
  \<open>keeps P a\<close>: when \<open>a\<close> returns, \<open>P\<close> holds again.  A call that loses the processor in the middle is
  not described.
\<close>

definition keeps :: "(vm \<Rightarrow> bool) \<Rightarrow> 'a vact \<Rightarrow> bool" where
  "keeps P a \<longleftrightarrow> (\<forall>w r w'. P w \<longrightarrow> a w = Some (Ret r, w') \<longrightarrow> P w')"

lemma keepsI: "(\<And>w r w'. P w \<Longrightarrow> a w = Some (Ret r, w') \<Longrightarrow> P w') \<Longrightarrow> keeps P a"
  unfolding keeps_def by blast

lemma keepsD: "keeps P a \<Longrightarrow> P w \<Longrightarrow> a w = Some (Ret r, w') \<Longrightarrow> P w'"
  unfolding keeps_def by blast

text \<open>The frame table, and \<open>FIFO\<close> as the policy.\<close>

definition table_ok :: "vm \<Rightarrow> bool" where
  "table_ok w \<longleftrightarrow> (\<exists>xs. frames_ok xs w) \<and> currpolicy w = FIFO"

definition same_table :: "vm \<Rightarrow> vm \<Rightarrow> bool" where
  "same_table w w' \<longleftrightarrow> ivs w' = ivs w \<and> currpolicy w' = currpolicy w"

lemma same_table_refl [simp, intro]: "same_table w w"
  by (simp add: same_table_def)

lemma same_table_trans [trans]: "same_table w w' \<Longrightarrow> same_table w' w'' \<Longrightarrow> same_table w w''"
  by (simp add: same_table_def)

lemma table_ok_same: "same_table w w' \<Longrightarrow> table_ok w' = table_ok w"
  using frames_ok_ivs [of w' w] by (simp add: table_ok_def same_table_def)


text \<open>Calls that do not touch the frame table.\<close>

definition off_table :: "'a vact \<Rightarrow> bool" where
  "off_table a \<longleftrightarrow> (\<forall>w r w'. a w = Some (Ret r, w') \<longrightarrow> same_table w w')"

named_theorems off_intro "calls that do not touch the frame table"



lemma off_andthen [off_intro]: "off_table a \<Longrightarrow> (\<And>x. off_table (f x)) \<Longrightarrow> off_table (andthen a f)"
  unfolding off_table_def andthen_Ret using same_table_trans by meson

lemma off_keeps: "off_table a \<Longrightarrow> keeps table_ok a"
  unfolding off_table_def keeps_def using table_ok_same by meson

lemma off_give [off_intro]: "off_table (give x)"
  by (auto simp: off_table_def give_def)


lemma same_updates [simp]:
  "same_table w (upd_bs i f u) = same_table w u" "same_table w (upd_map i g u) = same_table w u"
  "same_table w (upd_proc j h u) = same_table w u" "same_table w (upd_vmm k u) = same_table w u"
  "same_table w (u\<lparr>vk := s\<rparr>) = same_table w u" "same_table w (u\<lparr>vmm := m\<rparr>) = same_table w u"
  "same_table w (u\<lparr>num_fault := n\<rparr>) = same_table w u" "same_table w (u\<lparr>frame_md := d\<rparr>) = same_table w u"
  "same_table w (u\<lparr>bs_sem := k'\<rparr>) = same_table w u" "same_table w (u\<lparr>page_server_active := a\<rparr>) = same_table w u"
  "same_table w (u\<lparr>disk := dd\<rparr>) = same_table w u" "same_table w (u\<lparr>vnodes := vn\<rparr>) = same_table w u"
  by (simp_all add: same_table_def upd_bs_def upd_map_def upd_proc_def upd_vmm_def)

lemma table_ok_updates [simp]:
  "table_ok (upd_bs i f u) = table_ok u" "table_ok (upd_map i g u) = table_ok u"
  "table_ok (upd_proc j h u) = table_ok u" "table_ok (upd_vmm k u) = table_ok u"
  "table_ok (u\<lparr>vk := s\<rparr>) = table_ok u" "table_ok (u\<lparr>vmm := m\<rparr>) = table_ok u"
  "table_ok (u\<lparr>num_fault := n\<rparr>) = table_ok u"
  by (rule table_ok_same, simp)+

lemma same_pre [simp]:
  "same_table (u\<lparr>vk := s\<rparr>) w = same_table u w" "same_table (upd_bs i f u) w = same_table u w"
  "same_table (upd_map i g u) w = same_table u w" "same_table (u\<lparr>vmm := m\<rparr>) w = same_table u w"
  "same_table (upd_vmm k u) w = same_table u w" "same_table (upd_proc j h u) w = same_table u w"
  "same_table (u\<lparr>num_fault := n\<rparr>) w = same_table u w" "same_table (u\<lparr>bs_sem := k', vk := s\<rparr>) w = same_table u w"
  "same_table (u\<lparr>page_server_active := a\<rparr>) w = same_table u w" "same_table (u\<lparr>disk := dd\<rparr>) w = same_table u w"
  by (simp_all add: same_table_def upd_bs_def upd_map_def upd_proc_def upd_vmm_def)

subsection \<open>The backing stores do not touch it\<close>


lemma psinit_loop_same [simp]: "same_table w (psinit_loop n u) = same_table w u"
  by (induction n) simp_all




lemma upd_same [simp]:
  "ivs (upd_bs i f w) = ivs w" "currpolicy (upd_bs i f w) = currpolicy w"
  "ivs (upd_map i g w) = ivs w" "currpolicy (upd_map i g w) = currpolicy w"
  "ivs (upd_proc j h w) = ivs w" "currpolicy (upd_proc j h w) = currpolicy w"
  by (simp_all add: upd_bs_def upd_map_def upd_proc_def)













subsection \<open>Calls that take frames\<close>








subsection \<open>The page fault handler\<close>





subsection \<open>The virtual heap\<close>

lemma vset_same [simp]: "same_table w (vset p f u) = same_table w u" "same_table (vset p f w) u = same_table w u"
  by (auto simp: vset_def same_table_def split: vptr.splits)












subsection \<open>Creating and killing a process\<close>













subsection \<open>Runs\<close>











end
