(* ===== verification/LfsDisk.thy ===== *)
theory LfsDisk
  imports Semaphores
begin

text \<open>
  The disk of the local file system and what is on it: the ram disk of \<^verbatim>\<open>device/ram\<close>, which is what
  \<open>LF_DISK_DEV\<close> names in this configuration, and the structures of \<^verbatim>\<open>include/lfilesys.h\<close> with their
  bytes on disk (little endian, no gaps).

  \<open>read\<close> and \<open>write\<close> on the disk go straight through the device switch to \<open>ramread\<close> and \<open>ramwrite\<close>;
  a block outside the array is \<open>None\<close>.  Both always return \<open>OK\<close>; the tests of their result are kept.
\<close>

unbundle bit_operations_syntax

abbreviation (input) RM_BLKSIZ :: nat where "RM_BLKSIZ \<equiv> 512"
abbreviation (input) RM_BLKS :: nat where "RM_BLKS \<equiv> 200"
abbreviation (input) LF_BLKSIZ :: nat where "LF_BLKSIZ \<equiv> 512"
abbreviation (input) LF_NAME_LEN :: nat where "LF_NAME_LEN \<equiv> 16"
abbreviation (input) LF_NUM_DIR_ENT :: int where "LF_NUM_DIR_ENT \<equiv> 20"
abbreviation (input) LF_INULL :: int where "LF_INULL \<equiv> - 1"
abbreviation (input) LF_DNULL :: int where "LF_DNULL \<equiv> - 1"
abbreviation (input) LF_IBLEN :: nat where "LF_IBLEN \<equiv> 16"
abbreviation (input) LF_IDATA :: u32 where "LF_IDATA \<equiv> 8192"
abbreviation (input) LF_IMASK :: u32 where "LF_IMASK \<equiv> 0x1fff"
abbreviation (input) LF_DMASK :: u32 where "LF_DMASK \<equiv> 0x1ff"
abbreviation (input) LF_AREA_IB :: int where "LF_AREA_IB \<equiv> 1"
abbreviation (input) LF_AREA_DIR :: int where "LF_AREA_DIR \<equiv> 0"
abbreviation (input) Nlfl :: nat where "Nlfl \<equiv> 6"

subsection \<open>The state\<close>

record lfiblk =
  ib_next :: int
  ib_offset :: u32
  ib_dba :: "int list"

record ldentry =
  ld_size :: u32
  ld_ilist :: int
  ld_name :: "u8 list"

record lfdir =
  lfd_dfree :: int
  lfd_ifree :: int
  lfd_nfiles :: int
  lfd_files :: "ldentry list"
  lfd_padding :: "u8 list"

datatype lf_use = LF_FREE | LF_USED

text \<open>
  \<open>lfdirptr\<close> points to an entry of the directory in memory: it is the index of the entry.  \<open>lfbyte\<close>
  points into \<open>lfdblock\<close>: it is the offset, 512 for the address just beyond.
\<close>

record lflcblk =
  lfstate :: lf_use
  lfdev :: int
  lfmutex :: int
  lfdirptr :: "nat option"
  lfmode :: int
  lfpos :: u32
  lfname :: "u8 list"
  lfinum :: int
  lfiblock :: lfiblk
  lfdnum :: int
  lfdblock :: "u8 list"
  lfbyte :: nat
  lfibdirty :: bool
  lfdbdirty :: bool

record fs =
  fk :: kstate
  ram :: "nat \<Rightarrow> u8"
  lf_mutex :: int
  lf_dir :: lfdir
  lf_dirpresent :: bool
  lf_dirdirty :: bool
  lfltab :: "int \<Rightarrow> lflcblk"
  stale :: "u8 list"     \<comment> \<open>the bytes on the stack where \<open>lfdbfree\<close> has its buffer\<close>

type_synonym 'a fact = "fs \<Rightarrow> (('a, int) outcome \<times> fs) option"

definition upd_lfl :: "int \<Rightarrow> (lflcblk \<Rightarrow> lflcblk) \<Rightarrow> fs \<Rightarrow> fs" where
  "upd_lfl m f w = w\<lparr>lfltab := (lfltab w)(m := f (lfltab w m))\<rparr>"

definition upd_dir :: "(lfdir \<Rightarrow> lfdir) \<Rightarrow> fs \<Rightarrow> fs" where
  "upd_dir f w = w\<lparr>lf_dir := f (lf_dir w)\<rparr>"

definition upd_ent :: "nat \<Rightarrow> (ldentry \<Rightarrow> ldentry) \<Rightarrow> fs \<Rightarrow> fs" where
  "upd_ent i f w = upd_dir (\<lambda>d. d\<lparr>lfd_files := (lfd_files d)[i := f (lfd_files d ! i)]\<rparr>) w"

text \<open>Waiting and signalling: the value of a call that loses the processor is the semaphore.\<close>

definition fwait :: "int \<Rightarrow> unit fact" where
  "fwait sem w =
     (case wait sem (fk w) of
        None \<Rightarrow> None
      | Some (Ret _, s) \<Rightarrow> Some (Ret (), w\<lparr>fk := s\<rparr>)
      | Some (Switch _, s) \<Rightarrow> Some (Switch sem, w\<lparr>fk := s\<rparr>))"

definition fsignal :: "int \<Rightarrow> unit fact" where
  "fsignal sem w =
     (case signal sem (fk w) of
        None \<Rightarrow> None
      | Some (Ret _, s) \<Rightarrow> Some (Ret (), w\<lparr>fk := s\<rparr>)
      | Some (Switch _, s) \<Rightarrow> Some (Switch sem, w\<lparr>fk := s\<rparr>))"

subsection \<open>The ram disk\<close>

text \<open>The second copy of \<open>raminit\<close> reads what it has written: eight bytes repeat.\<close>

definition hopeless :: "u8 list" where
  "hopeless = [0x68, 0x6f, 0x70, 0x65, 0x6c, 0x65, 0x73, 0x73]"

fun copy_forward :: "nat \<Rightarrow> nat \<Rightarrow> nat \<Rightarrow> (nat \<Rightarrow> u8) \<Rightarrow> nat \<Rightarrow> u8" where
  "copy_forward 0 dst src m = m"
| "copy_forward (Suc n) dst src m = copy_forward n (dst + 1) (src + 1) (m(dst := m src))"

definition raminit :: "fs \<Rightarrow> int \<times> fs" where
  "raminit w =
     (let m = (\<lambda>i. if i < 8 then hopeless ! i else ram w i)
      in (OK, w\<lparr>ram := copy_forward (RM_BLKSIZ * RM_BLKS - 8) 8 0 m\<rparr>))"

definition ramread :: "int \<Rightarrow> fs \<Rightarrow> (int \<times> u8 list) option" where
  "ramread blk w =
     (if 0 \<le> blk \<and> blk < int RM_BLKS
      then Some (OK, map (\<lambda>i. ram w (RM_BLKSIZ * nat blk + i)) [0..<RM_BLKSIZ]) else None)"

definition ramwrite :: "u8 list \<Rightarrow> int \<Rightarrow> fs \<Rightarrow> (int \<times> fs) option" where
  "ramwrite buff blk w =
     (if 0 \<le> blk \<and> blk < int RM_BLKS
      then let bpos = RM_BLKSIZ * nat blk
        in Some (OK, w\<lparr>ram := (\<lambda>i. if bpos \<le> i \<and> i < bpos + RM_BLKSIZ then buff ! (i - bpos) else ram w i)\<rparr>)
      else None)"

subsection \<open>Structures as bytes\<close>

definition le_bytes :: "u32 \<Rightarrow> u8 list" where
  "le_bytes x = [ucast x, ucast (drop_bit 8 x), ucast (drop_bit 16 x), ucast (drop_bit 24 x)]"

definition le_word :: "u8 list \<Rightarrow> u32" where
  "le_word b = or (or (ucast (b ! 0)) (push_bit 8 (ucast (b ! 1)))) (or (push_bit 16 (ucast (b ! 2))) (push_bit 24 (ucast (b ! 3))))"

definition word32_at :: "nat \<Rightarrow> u8 list \<Rightarrow> u32" where
  "word32_at k b = le_word (take 4 (drop k b))"

definition int_bytes :: "int \<Rightarrow> u8 list" where
  "int_bytes i = le_bytes (word_of_int i)"

definition int_at :: "nat \<Rightarrow> u8 list \<Rightarrow> int" where
  "int_at k b = sint (word32_at k b)"

definition iblk_bytes :: "lfiblk \<Rightarrow> u8 list" where
  "iblk_bytes b = int_bytes (ib_next b) @ le_bytes (ib_offset b) @ concat (map int_bytes (ib_dba b))"

definition bytes_iblk :: "u8 list \<Rightarrow> lfiblk" where
  "bytes_iblk b = \<lparr>ib_next = int_at 0 b, ib_offset = word32_at 4 b, ib_dba = map (\<lambda>i. int_at (8 + 4 * i) b) [0..<LF_IBLEN]\<rparr>"

definition entry_bytes :: "ldentry \<Rightarrow> u8 list" where
  "entry_bytes e = le_bytes (ld_size e) @ int_bytes (ld_ilist e) @ ld_name e"

definition bytes_entry :: "u8 list \<Rightarrow> ldentry" where
  "bytes_entry b = \<lparr>ld_size = word32_at 0 b, ld_ilist = int_at 4 b, ld_name = take LF_NAME_LEN (drop 8 b)\<rparr>"

definition dir_bytes :: "lfdir \<Rightarrow> u8 list" where
  "dir_bytes d = int_bytes (lfd_dfree d) @ int_bytes (lfd_ifree d) @ int_bytes (lfd_nfiles d) @
     concat (map entry_bytes (lfd_files d)) @ lfd_padding d"

definition bytes_dir :: "u8 list \<Rightarrow> lfdir" where
  "bytes_dir b = \<lparr>lfd_dfree = int_at 0 b, lfd_ifree = int_at 4 b, lfd_nfiles = int_at 8 b,
     lfd_files = map (\<lambda>i. bytes_entry (drop (12 + 24 * i) b)) [0..<nat LF_NUM_DIR_ENT], lfd_padding = take 20 (drop 492 b)\<rparr>"

definition zero_dir :: lfdir where
  "zero_dir = \<lparr>lfd_dfree = 0, lfd_ifree = 0, lfd_nfiles = 0,
     lfd_files = replicate (nat LF_NUM_DIR_ENT) \<lparr>ld_size = 0, ld_ilist = 0, ld_name = replicate LF_NAME_LEN 0\<rparr>,
     lfd_padding = replicate 20 0\<rparr>"

definition ib2sect :: "int \<Rightarrow> int" where "ib2sect ib = ib div 7 + LF_AREA_IB"
definition ib2disp :: "int \<Rightarrow> nat" where "ib2disp ib = nat (ib mod 7) * 72"

end
