(* ===== verification/Lfs.thy ===== *)
theory Lfs
  imports LfsDisk
begin

text \<open>
  The local file system: \<^verbatim>\<open>device/lfs/*.c\<close>.  A file device is its minor number \<open>m\<close>.  \<open>panic\<close>, a null
  directory pointer, and a block outside the disk are \<open>None\<close>; so is a loop over blocks on disk
  that does not end.
\<close>

subsection \<open>Index blocks and data blocks\<close>

definition lfibclear :: "u32 \<Rightarrow> lfiblk \<Rightarrow> lfiblk" where
  "lfibclear offset b = b\<lparr>ib_offset := offset, ib_dba := replicate LF_IBLEN LF_DNULL, ib_next := LF_INULL\<rparr>"

text \<open>An index below zero is outside the buffer that holds the sector.\<close>

definition lfibget :: "int \<Rightarrow> fs \<Rightarrow> lfiblk option" where
  "lfibget inum w =
     (if inum < 0 then None
      else do {
        (r, dbuff) \<leftarrow> ramread (ib2sect inum) w;
        Some (bytes_iblk (take 72 (drop (ib2disp inum) dbuff)))
      })"

definition lfibput :: "int \<Rightarrow> lfiblk \<Rightarrow> fs \<Rightarrow> (int \<times> fs) option" where
  "lfibput inum b w =
     (if inum < 0 then None
      else do {
        (r, dbuff) \<leftarrow> ramread (ib2sect inum) w;
        if r = SYSERR then Some (SYSERR, w)
        else
          let d = ib2disp inum; dbuff = take d dbuff @ iblk_bytes b @ drop (d + 72) dbuff
          in do { (r, w) \<leftarrow> ramwrite dbuff (ib2sect inum) w; Some (OK, w) }
      })"

text \<open>The directory in memory is written to its block on disk.\<close>

definition write_dir :: "fs \<Rightarrow> fs option" where
  "write_dir w = map_option snd (ramwrite (dir_bytes (lf_dir w)) LF_AREA_DIR w)"

definition lfiballoc :: "fs \<Rightarrow> (int \<times> fs) option" where
  "lfiballoc w =
     (let ibnum = lfd_ifree (lf_dir w) in
      if ibnum = LF_INULL then None
      else do {
        iblock \<leftarrow> lfibget ibnum w;
        let w = upd_dir (\<lambda>d. d\<lparr>lfd_ifree := ib_next iblock\<rparr>) w;
        w \<leftarrow> write_dir w;
        Some (ibnum, w\<lparr>lf_dirdirty := False\<rparr>)
      })"

text \<open>The value is the block and what the buffer holds afterwards.\<close>

definition lfdballoc :: "fs \<Rightarrow> (int \<times> u8 list \<times> fs) option" where
  "lfdballoc w =
     (let dnum = lfd_dfree (lf_dir w) in
      if dnum = LF_DNULL then None
      else do {
        (r, dbuff) \<leftarrow> ramread dnum w;
        if r = SYSERR then None
        else do {
          let w = upd_dir (\<lambda>d. d\<lparr>lfd_dfree := int_at 0 dbuff\<rparr>) w;
          w \<leftarrow> write_dir w;
          Some (dnum, replicate LF_BLKSIZ 0x2b, w\<lparr>lf_dirdirty := False\<rparr>)
        }
      })"

definition lfdbfree :: "int \<Rightarrow> fs \<Rightarrow> (int \<times> fs) option" where
  "lfdbfree dnum w =
     (let buf = int_bytes (lfd_dfree (lf_dir w)) @ take 508 (stale w);
          w = upd_dir (\<lambda>d. d\<lparr>lfd_dfree := dnum\<rparr>) w
      in do { (r, w) \<leftarrow> ramwrite buf dnum w; w \<leftarrow> write_dir w; Some (OK, w) })"

subsection \<open>Writing back\<close>

definition flush_dir :: "fs \<Rightarrow> fs option" where
  "flush_dir w =
     (if lf_dirdirty w then map_option (\<lambda>w. w\<lparr>lf_dirdirty := False\<rparr>) (write_dir w) else Some w)"

definition flush_data :: "int \<Rightarrow> fs \<Rightarrow> fs option" where
  "flush_data m w =
     (let c = lfltab w m in
      if lfdbdirty c then
        map_option (\<lambda>(r, w). upd_lfl m (\<lambda>c. c\<lparr>lfdbdirty := False\<rparr>) w) (ramwrite (lfdblock c) (lfdnum c) w)
      else Some w)"

definition flush_index :: "int \<Rightarrow> fs \<Rightarrow> fs option" where
  "flush_index m w =
     (let c = lfltab w m in
      if lfibdirty c then
        map_option (\<lambda>(r, w). upd_lfl m (\<lambda>c. c\<lparr>lfibdirty := False\<rparr>) w) (lfibput (lfinum c) (lfiblock c) w)
      else Some w)"

definition lfflush :: "int \<Rightarrow> fs \<Rightarrow> (int \<times> fs) option" where
  "lfflush m w =
     (if lfstate (lfltab w m) = LF_FREE then Some (SYSERR, w)
      else do { w \<leftarrow> flush_dir w; w \<leftarrow> flush_data m w; w \<leftarrow> flush_index m w; Some (OK, w) })"

subsection \<open>The blocks for the current position\<close>

text \<open>The directory entry of an open file.\<close>

definition dir_entry :: "int \<Rightarrow> fs \<Rightarrow> ldentry option" where
  "dir_entry m w = map_option (\<lambda>i. lfd_files (lf_dir w) ! i) (lfdirptr (lfltab w m))"

definition set_entry :: "int \<Rightarrow> (ldentry \<Rightarrow> ldentry) \<Rightarrow> fs \<Rightarrow> fs" where
  "set_entry m f w = (case lfdirptr (lfltab w m) of None \<Rightarrow> w | Some i \<Rightarrow> upd_ent i f w)"

text \<open>Loading an index block from disk into the control block.\<close>

definition load_index :: "int \<Rightarrow> int \<Rightarrow> fs \<Rightarrow> fs option" where
  "load_index m ibnum w = do {
     b \<leftarrow> lfibget ibnum w;
     Some (upd_lfl m (\<lambda>c. c\<lparr>lfiblock := b, lfinum := ibnum\<rparr>) w)
   }"

definition first_index :: "int \<Rightarrow> fs \<Rightarrow> fs option" where
  "first_index m w = do {
     e \<leftarrow> dir_entry m w;
     let c = lfltab w m;
     if lfinum c = LF_INULL then
       (if ld_ilist e = LF_INULL then do {
          (ibnum, w) \<leftarrow> lfiballoc w;
          let w = upd_lfl m (\<lambda>c. c\<lparr>lfiblock := lfibclear 0 (lfiblock c)\<rparr>) w;
          let w = set_entry m (\<lambda>e. e\<lparr>ld_ilist := ibnum\<rparr>) w;
          Some (upd_lfl m (\<lambda>c. c\<lparr>lfibdirty := True, lfinum := ibnum\<rparr>) w)
        }
        else load_index m (ld_ilist e) w)
     else if lfpos c < ib_offset (lfiblock c) then load_index m (ld_ilist e) w
     else Some w
   }"

partial_function (option) seek_index :: "int \<Rightarrow> fs \<Rightarrow> fs option" where
  "seek_index m w =
     (let c = lfltab w m; b = lfiblock c in
      if and (lfpos c) (not LF_IMASK) > ib_offset b then
        (if ib_next b = LF_INULL then do {
           (ibnum, w) \<leftarrow> lfiballoc w;
           let w = upd_lfl m (\<lambda>c. c\<lparr>lfiblock := (lfiblock c)\<lparr>ib_next := ibnum\<rparr>\<rparr>) w;
           (r, w) \<leftarrow> lfibput (lfinum c) (lfiblock (lfltab w m)) w;
           let w = upd_lfl m (\<lambda>c. c\<lparr>lfinum := ibnum, lfiblock := lfibclear (ib_offset (lfiblock c) + LF_IDATA) (lfiblock c),
             lfibdirty := True, lfdnum := LF_DNULL\<rparr>) w;
           seek_index m w
         }
         else do {
           w \<leftarrow> load_index m (ib_next b) w;
           seek_index m (upd_lfl m (\<lambda>c. c\<lparr>lfdnum := LF_DNULL\<rparr>) w)
         })
      else Some w)"

definition load_data :: "int \<Rightarrow> fs \<Rightarrow> fs option" where
  "load_data m w =
     (let c = lfltab w m;
          dindex = unat (drop_bit 9 (and (lfpos c) LF_IMASK));
          dnum = ib_dba (lfiblock c) ! dindex
      in do {
        (dnum, w) \<leftarrow>
          (if dnum = LF_DNULL then do {
             (dnum, dbuff, w) \<leftarrow> lfdballoc w;
             Some (dnum, upd_lfl m (\<lambda>c. c\<lparr>lfdblock := dbuff,
               lfiblock := (lfiblock c)\<lparr>ib_dba := (ib_dba (lfiblock c))[dindex := dnum]\<rparr>, lfibdirty := True\<rparr>) w)
           }
           else if dnum \<noteq> lfdnum c then do {
             (r, dbuff) \<leftarrow> ramread dnum w;
             Some (dnum, upd_lfl m (\<lambda>c. c\<lparr>lfdblock := dbuff, lfdbdirty := False\<rparr>) w)
           }
           else Some (dnum, w));
        Some (upd_lfl m (\<lambda>c. c\<lparr>lfdnum := dnum, lfbyte := unat (and (lfpos c) LF_DMASK)\<rparr>) w)
      })"

definition setup_blocks :: "int \<Rightarrow> fs \<Rightarrow> fs option" where
  "setup_blocks m w =
     (let c = lfltab w m in do {
        w \<leftarrow> (if lfibdirty c \<or> lfdbdirty c then map_option snd (lfflush m w) else Some w);
        w \<leftarrow> first_index m w;
        w \<leftarrow> seek_index m w;
        load_data m w
      })"

definition lfsetup :: "int \<Rightarrow> int fact" where
  "lfsetup m w0 =
     andthen (fwait (lf_mutex w0)) (\<lambda>_ w.
       case setup_blocks m w of
         None \<Rightarrow> None
       | Some w \<Rightarrow> andthen (fsignal (lf_mutex w)) (\<lambda>_. give OK) w) w0"

subsection \<open>Reading and writing\<close>

text \<open>The mutex of the file is given back and the call returns \<open>r\<close>.\<close>

definition leave :: "int \<Rightarrow> int \<Rightarrow> int fact" where
  "leave m r w = andthen (fsignal (lfmutex (lfltab w m))) (\<lambda>_. give r) w"

definition lflgetc :: "int \<Rightarrow> int fact" where
  "lflgetc m w0 =
     andthen (fwait (lfmutex (lfltab w0 m))) (\<lambda>_ w.
       if lfstate (lfltab w m) \<noteq> LF_USED then leave m SYSERR w
       else
         case dir_entry m w of
           None \<Rightarrow> None
         | Some e \<Rightarrow>
             if lfpos (lfltab w m) \<ge> ld_size e then leave m EOF w
             else
               andthen (if lfbyte (lfltab w m) \<ge> LF_BLKSIZ then andthen (lfsetup m) (\<lambda>_. give ()) else give ()) (\<lambda>_ w.
                 let c = lfltab w m; onebyte = uint (lfdblock c ! lfbyte c)
                 in leave m onebyte (upd_lfl m (\<lambda>c. c\<lparr>lfbyte := lfbyte c + 1, lfpos := lfpos c + 1\<rparr>) w)) w) w0"

definition lflputc :: "int \<Rightarrow> u8 \<Rightarrow> int fact" where
  "lflputc m ch w0 =
     andthen (fwait (lfmutex (lfltab w0 m))) (\<lambda>_ w.
       if lfstate (lfltab w m) \<noteq> LF_USED then leave m SYSERR w
       else
         case dir_entry m w of
           None \<Rightarrow> None
         | Some e \<Rightarrow>
             if lfpos (lfltab w m) > ld_size e then leave m SYSERR w
             else
               andthen (if lfbyte (lfltab w m) \<ge> LF_BLKSIZ then andthen (lfsetup m) (\<lambda>_. give ()) else give ()) (\<lambda>_ w.
                 let w = (case dir_entry m w of
                       None \<Rightarrow> w
                     | Some e \<Rightarrow>
                         if lfpos (lfltab w m) \<ge> ld_size e
                         then (set_entry m (\<lambda>e. e\<lparr>ld_size := ld_size e + 1\<rparr>) w)\<lparr>lf_dirdirty := True\<rparr> else w)
                 in leave m OK (upd_lfl m (\<lambda>c. c\<lparr>lfdblock := (lfdblock c)[lfbyte c := ch], lfbyte := lfbyte c + 1,
                      lfpos := lfpos c + 1, lfdbdirty := True\<rparr>) w)) w) w0"

fun lflread_loop :: "nat \<Rightarrow> int \<Rightarrow> u8 list \<Rightarrow> (int \<times> u8 list) fact" where
  "lflread_loop 0 m buff w = Some (Ret (int (length buff), buff), w)"
| "lflread_loop (Suc n) m buff w =
     andthen (lflgetc m) (\<lambda>nxtbyte.
       if nxtbyte = SYSERR then give (SYSERR, buff)
       else if nxtbyte = EOF then give (if buff = [] then EOF else int (length buff), buff)
       else lflread_loop n m (buff @ [word_of_int nxtbyte])) w"

definition lflread :: "int \<Rightarrow> int \<Rightarrow> (int \<times> u8 list) fact" where
  "lflread m count w = (if count < 0 then Some (Ret (SYSERR, []), w) else lflread_loop (nat count) m [] w)"

fun lflwrite_loop :: "int \<Rightarrow> u8 list \<Rightarrow> int \<Rightarrow> int fact" where
  "lflwrite_loop m [] count w = Some (Ret count, w)"
| "lflwrite_loop m (b # bs) count w =
     andthen (lflputc m b) (\<lambda>r. if r = SYSERR then give SYSERR else lflwrite_loop m bs count) w"

definition lflwrite :: "int \<Rightarrow> u8 list \<Rightarrow> int \<Rightarrow> int fact" where
  "lflwrite m buff count w =
     (if count < 0 then Some (Ret SYSERR, w) else lflwrite_loop m (take (nat count) buff) count w)"

definition lflseek :: "int \<Rightarrow> u32 \<Rightarrow> int fact" where
  "lflseek m offset w0 =
     andthen (fwait (lfmutex (lfltab w0 m))) (\<lambda>_ w.
       if lfstate (lfltab w m) \<noteq> LF_USED then leave m SYSERR w
       else
         case dir_entry m w of
           None \<Rightarrow> None
         | Some e \<Rightarrow>
             if offset > ld_size e then leave m SYSERR w
             else leave m OK (upd_lfl m (\<lambda>c. c\<lparr>lfpos := offset, lfbyte := LF_BLKSIZ\<rparr>) w)) w0"

end
