(* ===== verification/LfsFiles.thy ===== *)
theory LfsFiles
  imports Lfs
begin

text \<open>
  Opening, closing, truncating and creating in the local file system (\<^verbatim>\<open>device/lfs/*.c\<close>).  A file
  name is the list of its bytes without the null byte that ends it.
\<close>

abbreviation (input) LF_MODE_R :: int where "LF_MODE_R \<equiv> 1"
abbreviation (input) LF_MODE_W :: int where "LF_MODE_W \<equiv> 2"
abbreviation (input) LF_MODE_RW :: int where "LF_MODE_RW \<equiv> 3"
abbreviation (input) LF_MODE_N :: int where "LF_MODE_N \<equiv> 4"
abbreviation (input) LF_MODE_O :: int where "LF_MODE_O \<equiv> 8"
abbreviation (input) LF_CTL_TRUNC :: int where "LF_CTL_TRUNC \<equiv> 2"

subsection \<open>Starting\<close>

definition lfsinit :: "fs \<Rightarrow> int \<times> fs" where
  "lfsinit w =
     (let (sem, s) = semcreate 1 (fk w)
      in (OK, w\<lparr>fk := s, lf_mutex := sem, lf_dir := zero_dir, lf_dirpresent := False, lf_dirdirty := False\<rparr>))"

definition lflinit :: "int \<Rightarrow> int \<Rightarrow> fs \<Rightarrow> int \<times> fs" where
  "lflinit dvnum m w =
     (let (sem, s) = semcreate 1 (fk w); w = w\<lparr>fk := s\<rparr>
      in (OK, upd_lfl m (\<lambda>_. \<lparr>lfstate = LF_FREE, lfdev = dvnum, lfmutex = sem, lfdirptr = None, lfmode = lfmode (lfltab w m),
           lfpos = 0, lfname = replicate LF_NAME_LEN 0, lfinum = LF_INULL,
           lfiblock = \<lparr>ib_next = 0, ib_offset = 0, ib_dba = replicate LF_IBLEN 0\<rparr>, lfdnum = 0,
           lfdblock = replicate LF_BLKSIZ 0, lfbyte = LF_BLKSIZ, lfibdirty = False, lfdbdirty = False\<rparr>) w))"

subsection \<open>Opening\<close>

fun lfgetmode_loop :: "string \<Rightarrow> int \<Rightarrow> int" where
  "lfgetmode_loop [] mbits = (if and mbits LF_MODE_RW = 0 then or mbits LF_MODE_RW else mbits)"
| "lfgetmode_loop (ch # mode) mbits =
     (if ch = CHR ''r'' then
        (if and mbits LF_MODE_R \<noteq> 0 then SYSERR else lfgetmode_loop mode (or mbits LF_MODE_R))
      else if ch = CHR ''w'' then
        (if and mbits LF_MODE_W \<noteq> 0 then SYSERR else lfgetmode_loop mode (or mbits LF_MODE_W))
      else if ch = CHR ''o'' then
        (if and mbits LF_MODE_O \<noteq> 0 \<or> and mbits LF_MODE_N \<noteq> 0 then SYSERR else lfgetmode_loop mode (or mbits LF_MODE_O))
      else if ch = CHR ''n'' then
        (if and mbits LF_MODE_O \<noteq> 0 \<or> and mbits LF_MODE_N \<noteq> 0 then SYSERR else lfgetmode_loop mode (or mbits LF_MODE_N))
      else SYSERR)"

definition lfgetmode :: "string \<Rightarrow> int" where
  "lfgetmode mode = lfgetmode_loop mode 0"

text \<open>Comparing a name with the bytes of a table, up to the null byte there.\<close>

fun name_match :: "u8 list \<Rightarrow> u8 list \<Rightarrow> bool" where
  "name_match nam [] = False"
| "name_match [] (c # cmp) = (c = 0)"
| "name_match (n # nam) (c # cmp) = (n = c \<and> name_match nam cmp)"

definition copy_name :: "u8 list \<Rightarrow> u8 list \<Rightarrow> u8 list" where
  "copy_name from to = from @ [0] @ drop (length from + 1) to"

text \<open>The copy of the name into the control block, which does not move the pointer it writes through.\<close>

fun copy_unmoved :: "u8 list \<Rightarrow> u8 list \<Rightarrow> u8 list" where
  "copy_unmoved [] to = to[0 := 0]"
| "copy_unmoved (c # from) to = copy_unmoved from (to[0 := c])"

text \<open>The first free file device, unless the file is already open (\<open>None\<close>).\<close>

fun find_device :: "nat \<Rightarrow> int \<Rightarrow> u8 list \<Rightarrow> int \<Rightarrow> fs \<Rightarrow> int option" where
  "find_device 0 i name lfnext w = Some lfnext"
| "find_device (Suc n) i name lfnext w =
     (let c = lfltab w i in
      if lfstate c = LF_FREE then find_device n (i + 1) name (if lfnext = SYSERR then i else lfnext) w
      else if name_match name (lfname c) then None
      else find_device n (i + 1) name lfnext w)"

text \<open>The search of the directory: \<open>None\<close> when it leaves the table, \<open>Some None\<close> when the name is not there.\<close>

fun find_file :: "nat \<Rightarrow> nat \<Rightarrow> u8 list \<Rightarrow> lfdir \<Rightarrow> nat option option" where
  "find_file 0 i name d = Some None"
| "find_file (Suc n) i name d =
     (if i \<ge> length (lfd_files d) then None
      else if name_match name (ld_name (lfd_files d ! i)) then Some (Some i) else find_file n (i + 1) name d)"

text \<open>The directory entry of the file, made when there is none (\<open>Some None\<close>: the modes or the directory forbid it).\<close>

definition open_entry :: "u8 list \<Rightarrow> int \<Rightarrow> fs \<Rightarrow> (nat \<times> fs) option option" where
  "open_entry name mbits w = do {
     let d = lf_dir w;
     found \<leftarrow> find_file (nat (lfd_nfiles d)) 0 name d;
     case found of
       None \<Rightarrow>
         if and mbits LF_MODE_O \<noteq> 0 then Some None
         else if lfd_nfiles d \<ge> LF_NUM_DIR_ENT then Some None
         else if lfd_nfiles d < 0 then None
         else
           let i = nat (lfd_nfiles d); w = upd_dir (\<lambda>d. d\<lparr>lfd_nfiles := lfd_nfiles d + 1\<rparr>) w
           in Some (Some (i, upd_ent i (\<lambda>e. \<lparr>ld_size = 0, ld_ilist = LF_INULL, ld_name = copy_name name (ld_name e)\<rparr>) w))
     | Some i \<Rightarrow> if and mbits LF_MODE_N \<noteq> 0 then Some None else Some (Some (i, w))
   }"

definition open_device :: "int \<Rightarrow> nat \<Rightarrow> u8 list \<Rightarrow> int \<Rightarrow> fs \<Rightarrow> fs" where
  "open_device m i name mbits w =
     upd_lfl m (\<lambda>c. c\<lparr>lfstate := LF_USED, lfdirptr := Some i, lfmode := and mbits LF_MODE_RW, lfpos := 0,
       lfname := copy_unmoved name (lfname c), lfinum := LF_INULL, lfdnum := LF_DNULL, lfbyte := LF_BLKSIZ,
       lfibdirty := False, lfdbdirty := False\<rparr>) w"

definition lfsopen :: "u8 list \<Rightarrow> string \<Rightarrow> int fact" where
  "lfsopen name mode w0 =
     (let mbits = lfgetmode mode in
      if length name \<ge> LF_NAME_LEN then Some (Ret SYSERR, w0)
      else if mbits = SYSERR then Some (Ret SYSERR, w0)
      else
        case find_device Nlfl 0 name SYSERR w0 of
          None \<Rightarrow> Some (Ret SYSERR, w0)
        | Some lfnext \<Rightarrow>
            if lfnext = SYSERR then Some (Ret SYSERR, w0)
            else
              andthen (fwait (lf_mutex w0)) (\<lambda>_ w.
                case (if lf_dirpresent w then Some (OK, w)
                      else map_option (\<lambda>(r, b). (r, if r = SYSERR then w else w\<lparr>lf_dir := bytes_dir b, lf_dirpresent := True\<rparr>))
                        (ramread LF_AREA_DIR w)) of
                  None \<Rightarrow> None
                | Some (r, w) \<Rightarrow>
                    if r = SYSERR then andthen (fsignal (lf_mutex w)) (\<lambda>_. give SYSERR) w
                    else
                      case open_entry name mbits w of
                        None \<Rightarrow> None
                      | Some None \<Rightarrow> andthen (fsignal (lf_mutex w)) (\<lambda>_. give SYSERR) w
                      | Some (Some (i, w)) \<Rightarrow>
                          let w = open_device lfnext i name mbits w
                          in andthen (fsignal (lf_mutex w)) (\<lambda>_. give (lfdev (lfltab w lfnext))) w) w0)"

subsection \<open>Closing and truncating\<close>

definition lflclose :: "int \<Rightarrow> int fact" where
  "lflclose m w0 =
     andthen (fwait (lfmutex (lfltab w0 m))) (\<lambda>_ w.
       let c = lfltab w m in
       if lfstate c \<noteq> LF_USED then leave m SYSERR w
       else
         case (if lf_dirdirty w \<or> lfdbdirty c \<or> lfibdirty c then map_option snd (lfflush m w) else Some w) of
           None \<Rightarrow> None
         | Some w \<Rightarrow> leave m OK (upd_lfl m (\<lambda>c. c\<lparr>lfstate := LF_FREE\<rparr>) w)) w0"

fun free_dblocks :: "int list \<Rightarrow> fs \<Rightarrow> fs option" where
  "free_dblocks [] w = Some w"
| "free_dblocks (d # ds) w =
     (if d \<noteq> LF_DNULL then do { (r, w) \<leftarrow> lfdbfree d w; free_dblocks ds w } else free_dblocks ds w)"

partial_function (option) lftruncate_loop :: "int \<Rightarrow> int \<Rightarrow> fs \<Rightarrow> fs option" where
  "lftruncate_loop nextib ifree w =
     (if nextib = ifree then Some w
      else do {
        iblock \<leftarrow> lfibget nextib w;
        w \<leftarrow> free_dblocks (ib_dba iblock) w;
        let iblock = iblock\<lparr>ib_dba := replicate LF_IBLEN LF_DNULL, ib_offset := 0\<rparr>;
        let iblock = (if ib_next iblock = LF_INULL then iblock\<lparr>ib_next := ifree\<rparr> else iblock);
        (r, w) \<leftarrow> lfibput nextib iblock w;
        lftruncate_loop (ib_next iblock) ifree w
      })"

definition lftruncate :: "int \<Rightarrow> fs \<Rightarrow> (int \<times> fs) option" where
  "lftruncate m w = do {
     e \<leftarrow> dir_entry m w;
     if ld_size e = 0 then Some (OK, w)
     else do {
       w \<leftarrow> (if lfibdirty (lfltab w m) \<or> lfdbdirty (lfltab w m) then map_option snd (lfflush m w) else Some w);
       let w = upd_lfl m (\<lambda>c. c\<lparr>lfpos := 0, lfinum := LF_INULL, lfdnum := LF_DNULL, lfbyte := LF_BLKSIZ\<rparr>) w;
       let ifree = lfd_ifree (lf_dir w);
       let firstib = ld_ilist e;
       let w = (set_entry m (\<lambda>e. e\<lparr>ld_ilist := LF_INULL, ld_size := 0\<rparr>) w)\<lparr>lf_dirdirty := True\<rparr>;
       w \<leftarrow> lftruncate_loop firstib ifree w;
       Some (OK, (upd_dir (\<lambda>d. d\<lparr>lfd_ifree := firstib\<rparr>) w)\<lparr>lf_dirdirty := True\<rparr>)
     }
   }"

definition lflcontrol :: "int \<Rightarrow> int \<Rightarrow> int fact" where
  "lflcontrol m func w0 =
     andthen (fwait (lfmutex (lfltab w0 m))) (\<lambda>_ w.
       if lfstate (lfltab w m) \<noteq> LF_USED then leave m SYSERR w
       else if func = LF_CTL_TRUNC then
         andthen (fwait (lf_mutex w)) (\<lambda>_ w.
           case lftruncate m w of
             None \<Rightarrow> None
           | Some (retval, w) \<Rightarrow> andthen (fsignal (lf_mutex w)) (\<lambda>_. leave m retval) w) w
       else leave m SYSERR w) w0"

subsection \<open>A new file system\<close>

fun link_iblocks :: "nat \<Rightarrow> int \<Rightarrow> lfiblk \<Rightarrow> fs \<Rightarrow> fs option" where
  "link_iblocks 0 i b w = map_option snd (lfibput i (b\<lparr>ib_next := LF_INULL\<rparr>) w)"
| "link_iblocks (Suc n) i b w = do { (r, w) \<leftarrow> lfibput i (b\<lparr>ib_next := i + 1\<rparr>) w; link_iblocks n (i + 1) b w }"

definition free_node :: "int \<Rightarrow> u8 list" where
  "free_node nextdb = int_bytes nextdb @ replicate 508 0"

fun link_dblocks :: "nat \<Rightarrow> int \<Rightarrow> fs \<Rightarrow> fs option" where
  "link_dblocks 0 dbindex w = map_option snd (ramwrite (free_node LF_DNULL) dbindex w)"
| "link_dblocks (Suc n) dbindex w = do { (r, w) \<leftarrow> ramwrite (free_node (dbindex + 1)) dbindex w; link_dblocks n (dbindex + 1) w }"

definition lfscreate :: "int \<Rightarrow> u32 \<Rightarrow> fs \<Rightarrow> (int \<times> fs) option" where
  "lfscreate lfiblks dsiz w =
     (let sectors = dsiz div 512;
          ibpersector = 7;
          ibsectors = (word_of_int lfiblks + (ibpersector - 1)) div ibpersector;
          lfiblks = sint (ibsectors * ibpersector)
      in if ibsectors > sectors div 2 then Some (SYSERR, w)
         else
           let dir = zero_dir\<lparr>lfd_nfiles := 0, lfd_dfree := sint (ibsectors + 1)\<rparr>; dblks = sectors - ibsectors - 1 in do {
             (r, w) \<leftarrow> ramwrite (dir_bytes dir) LF_AREA_DIR w;
             if r = SYSERR then Some (SYSERR, w)
             else do {
               w \<leftarrow> link_iblocks (nat (lfiblks - 1)) 0 (lfibclear 0 \<lparr>ib_next = 0, ib_offset = 0, ib_dba = []\<rparr>) w;
               w \<leftarrow> link_dblocks (unat (dblks - 1)) (lfd_dfree dir) w;
               Some (OK, w)
             }
           })"

text \<open>The two counts that \<open>lfsckfmt\<close> prints.\<close>

partial_function (option) count_iblocks :: "int \<Rightarrow> int \<Rightarrow> fs \<Rightarrow> int option" where
  "count_iblocks nextib n w =
     (if nextib = LF_INULL then Some n
      else do { iblock \<leftarrow> lfibget nextib w; count_iblocks (ib_next iblock) (n + 1) w })"

partial_function (option) count_dblocks :: "int \<Rightarrow> int \<Rightarrow> fs \<Rightarrow> int option" where
  "count_dblocks nextdb n w =
     (if nextdb = LF_DNULL then Some n
      else do { (r, b) \<leftarrow> ramread nextdb w; count_dblocks (int_at 0 b) (n + 1) w })"

definition lfsckfmt :: "fs \<Rightarrow> (int \<times> int) option" where
  "lfsckfmt w = do {
     (r, b) \<leftarrow> ramread LF_AREA_DIR w;
     if r = SYSERR then None
     else do {
       let dir = bytes_dir b;
       lfiblks \<leftarrow> count_iblocks (lfd_ifree dir) 0 w;
       dblks \<leftarrow> count_dblocks (lfd_dfree dir) 0 w;
       Some (lfiblks, dblks)
     }
   }"

end
