(* ===== verification/LfsBytes.thy ===== *)
theory LfsBytes
  imports LfsFiles
begin

text \<open>
  What is written to the ram disk is read back: blocks, words, index blocks inside a sector, and the
  directory.
\<close>

subsection \<open>Words\<close>

lemma le_word_bytes [simp]: "le_word (le_bytes x) = x"
proof (rule bit_word_eqI)
  fix n
  assume "n < LENGTH(32)"
  then consider "n < 8" | "8 \<le> n" "n < 16" | "16 \<le> n" "n < 24" | "24 \<le> n" "n < 32" by fastforce
  then show "bit (le_word (le_bytes x)) n \<longleftrightarrow> bit x n"
    by cases (auto simp: le_word_def le_bytes_def bit_simps)
qed

lemma length_le_bytes [simp]: "length (le_bytes x) = 4"
  by (simp add: le_bytes_def)

lemma length_int_bytes [simp]: "length (int_bytes i) = 4"
  by (simp add: int_bytes_def)

lemma word32_at_append [simp]: "k = length a \<Longrightarrow> word32_at k (a @ le_bytes x @ b) = x"
  by (simp add: word32_at_def)

definition in_int32 :: "int \<Rightarrow> bool" where
  "in_int32 i \<longleftrightarrow> - 2147483648 \<le> i \<and> i < 2147483648"

lemma sint_word_of_int32: "in_int32 i \<Longrightarrow> sint (word_of_int i :: u32) = i"
  by (simp add: in_int32_def sint_sbintrunc' signed_take_bit_int_eq_self)

lemma int_at_append: "k = length a \<Longrightarrow> in_int32 i \<Longrightarrow> int_at k (a @ int_bytes i @ b) = i"
  by (simp add: int_at_def int_bytes_def sint_word_of_int32)

lemma int_at_0 [simp]: "in_int32 i \<Longrightarrow> int_at 0 (int_bytes i @ b) = i" "in_int32 i \<Longrightarrow> int_at 0 (int_bytes i) = i"
  using int_at_append [of 0 "[]" i b] int_at_append [of 0 "[]" i "[]"] by simp_all

lemma word32_at_0 [simp]: "word32_at 0 (le_bytes x @ b) = x"
  using word32_at_append [of 0 "[]" x b] by simp

lemma word32_at_skip: "length a \<le> k \<Longrightarrow> word32_at k (a @ b) = word32_at (k - length a) b"
  by (simp add: word32_at_def)

lemma int_at_skip: "length a \<le> k \<Longrightarrow> int_at k (a @ b) = int_at (k - length a) b"
  by (simp add: int_at_def word32_at_skip)

lemma drop_concat_map: "(\<And>x. length (g x) = n) \<Longrightarrow> drop (n * i) (concat (map g xs)) = concat (map g (drop i xs))"
proof (induction i arbitrary: xs)
  case (Suc i)
  then show ?case by (cases xs) (simp_all add: algebra_simps flip: drop_drop)
qed simp

lemma length_concat_map: "(\<And>x. length (g x) = n) \<Longrightarrow> length (concat (map g xs)) = n * length xs"
  by (induction xs) simp_all

lemma int_at_concat:
  assumes "i < length xs" "in_int32 (xs ! i)"
  shows "int_at (4 * i) (concat (map int_bytes xs) @ b) = xs ! i"
proof -
  have "concat (map int_bytes xs) = concat (map int_bytes (take i xs)) @ int_bytes (xs ! i) @ concat (map int_bytes (drop (Suc i) xs))"
    using id_take_nth_drop [OF assms(1)] by (metis concat.simps(2) concat_append list.simps(9) map_append)
  moreover have "length (concat (map int_bytes (take i xs))) = 4 * i" using assms(1) length_concat_map [of int_bytes 4] by simp
  ultimately show ?thesis using int_at_append [of "4 * i" "concat (map int_bytes (take i xs))"] assms(2) by simp
qed

subsection \<open>Index blocks\<close>

definition iblk_ok :: "lfiblk \<Rightarrow> bool" where
  "iblk_ok b \<longleftrightarrow> length (ib_dba b) = LF_IBLEN \<and> in_int32 (ib_next b) \<and> (\<forall>d \<in> set (ib_dba b). in_int32 d)"

lemma length_iblk_bytes: "length (ib_dba b) = LF_IBLEN \<Longrightarrow> length (iblk_bytes b) = 72"
  using length_concat_map [of int_bytes 4 "ib_dba b"] by (simp add: iblk_bytes_def)

lemma bytes_iblk_bytes:
  assumes "iblk_ok b"
  shows "bytes_iblk (iblk_bytes b) = b"
proof -
  have "int_at (8 + 4 * i) (iblk_bytes b) = ib_dba b ! i" if "i < 16" for i
  proof -
    have "int_at (8 + 4 * i) (iblk_bytes b) = int_at (4 * i) (concat (map int_bytes (ib_dba b)) @ [])"
      by (simp add: iblk_bytes_def int_at_skip)
    then show ?thesis using int_at_concat [of i "ib_dba b" "[]"] assms that by (simp add: iblk_ok_def)
  qed
  then have "map (\<lambda>i. int_at (8 + 4 * i) (iblk_bytes b)) [0..<16] = ib_dba b"
    using assms by (intro nth_equalityI) (simp_all add: iblk_ok_def)
  moreover have "word32_at 4 (iblk_bytes b) = ib_offset b" by (simp add: iblk_bytes_def)
  moreover have "int_at 0 (iblk_bytes b) = ib_next b" using assms by (simp add: iblk_bytes_def iblk_ok_def)
  ultimately show ?thesis by (simp add: bytes_iblk_def)
qed

text \<open>One slot of a sector is replaced; the others keep their index blocks.\<close>

lemma splice_same: "length s = 512 \<Longrightarrow> d + 72 \<le> 512 \<Longrightarrow> length b = 72 \<Longrightarrow> take 72 (drop d (take d s @ b @ drop (d + 72) s)) = b"
  by simp

lemma splice_other:
  assumes "length s = 512" "d + 72 \<le> 512" "length b = 72" "d' + 72 \<le> d \<or> d + 72 \<le> d'"
  shows "take 72 (drop d' (take d s @ b @ drop (d + 72) s)) = take 72 (drop d' s)"
proof (cases "d' + 72 \<le> d")
  case True
  then have "72 \<le> d - d'" by simp
  then show ?thesis using assms True by (simp add: drop_take min_def)
next
  case False
  then have "d + 72 \<le> d'" using assms by simp
  then obtain j where "d' = d + 72 + j" by (metis le_iff_add)
  then show ?thesis using assms by (simp add: add.commute add.left_commute)
qed

subsection \<open>Blocks of the disk\<close>

definition rblock :: "(nat \<Rightarrow> u8) \<Rightarrow> int \<Rightarrow> u8 list" where
  "rblock r b = map (\<lambda>i. r (512 * nat b + i)) [0..<512]"

definition rindex :: "(nat \<Rightarrow> u8) \<Rightarrow> int \<Rightarrow> lfiblk" where
  "rindex r i = bytes_iblk (take 72 (drop (ib2disp i) (rblock r (ib2sect i))))"

definition put_block :: "int \<Rightarrow> u8 list \<Rightarrow> (nat \<Rightarrow> u8) \<Rightarrow> nat \<Rightarrow> u8" where
  "put_block b buff r = (\<lambda>i. if 512 * nat b \<le> i \<and> i < 512 * nat b + 512 then buff ! (i - 512 * nat b) else r i)"

definition put_index :: "int \<Rightarrow> lfiblk \<Rightarrow> (nat \<Rightarrow> u8) \<Rightarrow> nat \<Rightarrow> u8" where
  "put_index i b r =
     (let s = rblock r (ib2sect i); d = ib2disp i in put_block (ib2sect i) (take d s @ iblk_bytes b @ drop (d + 72) s) r)"

lemma length_rblock [simp]: "length (rblock r b) = 512"
  by (simp add: rblock_def)

lemma rblock_put [simp]:
  assumes "length buff = 512" "0 \<le> b" "0 \<le> b'"
  shows "rblock (put_block b buff r) b' = (if b' = b then buff else rblock r b')"
proof (cases "b' = b")
  case True
  then show ?thesis using assms by (intro nth_equalityI) (simp_all add: rblock_def put_block_def)
next
  case False
  then have "nat b' < nat b \<or> nat b < nat b'" using assms by (simp add: nat_eq_iff) linarith
  then have "\<not> (512 * nat b \<le> 512 * nat b' + i \<and> 512 * nat b' + i < 512 * nat b + 512)" if "i < 512" for i
    using that by auto
  then show ?thesis using False by (intro nth_equalityI) (auto simp: rblock_def put_block_def)
qed

lemma ramread_ok: "0 \<le> b \<Longrightarrow> b < 200 \<Longrightarrow> ramread b w = Some (OK, rblock (ram w) b)"
  by (simp add: ramread_def rblock_def)

lemma ramwrite_ok: "0 \<le> b \<Longrightarrow> b < 200 \<Longrightarrow> ramwrite buff b w = Some (OK, w\<lparr>ram := put_block b buff (ram w)\<rparr>)"
  by (simp add: ramwrite_def put_block_def Let_def)

lemma slot_bound: "ib2disp i + 72 \<le> 512"
  by (simp add: ib2disp_def)

lemma slots_apart:
  assumes "0 \<le> i" "0 \<le> i'" "i' \<noteq> i" "ib2sect i' = ib2sect i"
  shows "ib2disp i' + 72 \<le> ib2disp i \<or> ib2disp i + 72 \<le> ib2disp i'"
proof -
  have "i div 7 = i' div 7" using assms(4) by (simp add: ib2sect_def)
  then have "i mod 7 \<noteq> i' mod 7" using assms(3) by (metis div_mult_mod_eq)
  then have "nat (i mod 7) < nat (i' mod 7) \<or> nat (i' mod 7) < nat (i mod 7)" by auto
  moreover have "a * 72 + 72 \<le> b * 72" if "a < b" for a b :: nat using that by simp
  ultimately show ?thesis unfolding ib2disp_def by blast
qed

lemma rindex_put_block:
  assumes "length buff = 512" "0 \<le> b" "0 \<le> i" "ib2sect i \<noteq> b"
  shows "rindex (put_block b buff r) i = rindex r i"
  using assms by (simp add: rindex_def ib2sect_def)

lemma rindex_put:
  assumes "iblk_ok b" "0 \<le> i" "0 \<le> i'"
  shows "rindex (put_index i b r) i' = (if i' = i then b else rindex r i')"
proof -
  let ?s = "rblock r (ib2sect i)" and ?d = "ib2disp i"
  have l: "length (iblk_bytes b) = 72" using assms(1) length_iblk_bytes by (simp add: iblk_ok_def)
  have s: "length (take ?d ?s @ iblk_bytes b @ drop (?d + 72) ?s) = 512" using l slot_bound [of i] by simp
  have n: "0 \<le> ib2sect i" "0 \<le> ib2sect i'" using assms(2,3) by (simp_all add: ib2sect_def)
  show ?thesis
  proof (cases "ib2sect i' = ib2sect i")
    case True
    then show ?thesis
      using splice_same [of ?s ?d "iblk_bytes b"] splice_other [of ?s ?d "iblk_bytes b" "ib2disp i'"]
        slots_apart [OF assms(2,3)] l s n slot_bound [of i] bytes_iblk_bytes [OF assms(1)]
      by (auto simp: rindex_def put_index_def Let_def)
  next
    case False
    then show ?thesis using s n by (auto simp: rindex_def put_index_def Let_def)
  qed
qed

lemma rblock_put_index:
  assumes "iblk_ok b" "0 \<le> i" "0 \<le> c" "c \<noteq> ib2sect i"
  shows "rblock (put_index i b r) c = rblock r c"
proof -
  have "length (iblk_bytes b) = 72" using assms(1) length_iblk_bytes by (simp add: iblk_ok_def)
  then show ?thesis using assms slot_bound [of i] by (simp add: put_index_def Let_def ib2sect_def)
qed

lemma lfibget_ok: "0 \<le> i \<Longrightarrow> ib2sect i < 200 \<Longrightarrow> lfibget i w = Some (rindex (ram w) i)"
  by (simp add: lfibget_def ramread_ok rindex_def ib2sect_def)

lemma lfibput_ok: "0 \<le> i \<Longrightarrow> ib2sect i < 200 \<Longrightarrow> lfibput i b w = Some (OK, w\<lparr>ram := put_index i b (ram w)\<rparr>)"
  by (simp add: lfibput_def ramread_ok ramwrite_ok put_index_def ib2sect_def Let_def)

end
