(* ===== verification/LfsInv.thy ===== *)
theory LfsInv
  imports LfsBytes Mutex
begin

text \<open>
  What an open file is: its index blocks and data blocks on disk and in the buffers of its control
  block, beside the free lists and the blocks of all other files.  Which blocks these are is kept in
  a record of type \<open>layout\<close>; the blocks of other files are two sets that no call touches.
\<close>

record layout =
  nsect :: int                 \<comment> \<open>sectors of index blocks\<close>
  minor :: int                 \<comment> \<open>the file device\<close>
  entry :: nat                 \<comment> \<open>the entry of the directory\<close>
  ibs :: "int list"            \<comment> \<open>the index blocks of the file\<close>
  dbs :: "int list"            \<comment> \<open>its data blocks\<close>
  blks :: "u8 list list"       \<comment> \<open>what they hold\<close>
  ifree :: "int list"          \<comment> \<open>the free index blocks\<close>
  dfree :: "int list"          \<comment> \<open>the free data blocks\<close>
  oi :: "int set"              \<comment> \<open>index blocks of other files\<close>
  od :: "int set"              \<comment> \<open>data blocks of other files\<close>

text \<open>A list of blocks on disk, from the first to the null pointer.\<close>

fun chain :: "(int \<Rightarrow> int) \<Rightarrow> int \<Rightarrow> int list \<Rightarrow> bool" where
  "chain nx a [] \<longleftrightarrow> a = - 1"
| "chain nx a (x # xs) \<longleftrightarrow> a = x \<and> chain nx (nx x) xs"

lemma chain_cong: "(\<And>x. x \<in> set xs \<Longrightarrow> nx' x = nx x) \<Longrightarrow> chain nx' a xs = chain nx a xs"
  by (induction xs arbitrary: a) auto

definition idx_block :: "int list \<Rightarrow> int list \<Rightarrow> nat \<Rightarrow> lfiblk" where
  "idx_block is ds k = \<lparr>ib_next = (if k + 1 < length is then is ! (k + 1) else - 1), ib_offset = of_nat (8192 * k),
     ib_dba = map (\<lambda>j. if 16 * k + j < length ds then ds ! (16 * k + j) else - 1) [0..<16]\<rparr>"

definition placed_ok :: "layout \<Rightarrow> bool" where
  "placed_ok g \<longleftrightarrow> 0 \<le> nsect g \<and> nsect g < 200 \<and> distinct (ibs g @ ifree g) \<and> distinct (dbs g @ dfree g) \<and>
     set (ibs g @ ifree g) \<union> oi g \<subseteq> {0..<7 * nsect g} \<and> set (dbs g @ dfree g) \<union> od g \<subseteq> {nsect g<..<200} \<and>
     oi g \<inter> set (ibs g @ ifree g) = {} \<and> od g \<inter> set (dbs g @ dfree g) = {}"

definition free_ok :: "layout \<Rightarrow> fs \<Rightarrow> bool" where
  "free_ok g w \<longleftrightarrow> chain (\<lambda>i. ib_next (rindex (ram w) i)) (lfd_ifree (lf_dir w)) (ifree g) \<and>
     chain (\<lambda>d. int_at 0 (rblock (ram w) d)) (lfd_dfree (lf_dir w)) (dfree g)"

abbreviation (input) cblk :: "layout \<Rightarrow> fs \<Rightarrow> lflcblk" where "cblk g w \<equiv> lfltab w (minor g)"
abbreviation (input) dent :: "layout \<Rightarrow> fs \<Rightarrow> ldentry" where "dent g w \<equiv> lfd_files (lf_dir w) ! entry g"

definition index_ok :: "layout \<Rightarrow> fs \<Rightarrow> bool" where
  "index_ok g w \<longleftrightarrow>
     length (dbs g) \<le> 16 * length (ibs g) \<and> ld_ilist (dent g w) = hd_or (ibs g) (- 1) \<and>
     (\<forall>k < length (ibs g). lfibdirty (cblk g w) \<and> lfinum (cblk g w) = ibs g ! k \<or>
       rindex (ram w) (ibs g ! k) = idx_block (ibs g) (dbs g) k) \<and>
     (lfinum (cblk g w) = - 1 \<and> \<not> lfibdirty (cblk g w) \<or>
      (\<exists>k < length (ibs g). lfinum (cblk g w) = ibs g ! k \<and> lfiblock (cblk g w) = idx_block (ibs g) (dbs g) k))"

text \<open>With \<open>x\<close>, the buffer of data may differ from its block on disk although it is not marked dirty.\<close>

definition data_ok :: "bool \<Rightarrow> layout \<Rightarrow> fs \<Rightarrow> bool" where
  "data_ok x g w \<longleftrightarrow>
     length (blks g) = length (dbs g) \<and> (\<forall>b \<in> set (blks g). length b = 512) \<and> length (lfdblock (cblk g w)) = 512 \<and>
     (\<forall>j < length (dbs g). (x \<or> lfdbdirty (cblk g w)) \<and> lfdnum (cblk g w) = dbs g ! j \<or> rblock (ram w) (dbs g ! j) = blks g ! j) \<and>
     (lfdnum (cblk g w) = - 1 \<and> \<not> lfdbdirty (cblk g w) \<or>
      (\<exists>j < length (dbs g). lfdnum (cblk g w) = dbs g ! j \<and> lfdblock (cblk g w) = blks g ! j))"

definition core :: "bool \<Rightarrow> layout \<Rightarrow> fs \<Rightarrow> bool" where
  "core x g w \<longleftrightarrow> placed_ok g \<and> free_ok g w \<and> index_ok g w \<and> data_ok x g w \<and>
     lfstate (cblk g w) = LF_USED \<and> lfdirptr (cblk g w) = Some (entry g) \<and> entry g < length (lfd_files (lf_dir w))"

lemma coreD:
  assumes "core x g w"
  shows "placed_ok g" "free_ok g w" "index_ok g w" "data_ok x g w" "lfstate (cblk g w) = LF_USED"
    "lfdirptr (cblk g w) = Some (entry g)" "entry g < length (lfd_files (lf_dir w))"
  using assms by (simp_all add: core_def)

subsection \<open>What a call on one file leaves alone\<close>

definition others_same :: "layout \<Rightarrow> fs \<Rightarrow> fs \<Rightarrow> bool" where
  "others_same g w w' \<longleftrightarrow>
     fk w' = fk w \<and> lf_mutex w' = lf_mutex w \<and> lf_dirpresent w' = lf_dirpresent w \<and>
     (\<forall>m. m \<noteq> minor g \<longrightarrow> lfltab w' m = lfltab w m) \<and> lfmutex (cblk g w') = lfmutex (cblk g w) \<and>
     lfdev (cblk g w') = lfdev (cblk g w) \<and> lfname (cblk g w') = lfname (cblk g w) \<and>
     length (lfd_files (lf_dir w')) = length (lfd_files (lf_dir w)) \<and> lfd_nfiles (lf_dir w') = lfd_nfiles (lf_dir w) \<and>
     (\<forall>e. e \<noteq> entry g \<longrightarrow> lfd_files (lf_dir w') ! e = lfd_files (lf_dir w) ! e) \<and>
     ld_name (dent g w') = ld_name (dent g w) \<and>
     (\<forall>i \<in> oi g. rindex (ram w') i = rindex (ram w) i) \<and> (\<forall>d \<in> od g. rblock (ram w') d = rblock (ram w) d)"

lemma others_refl [simp]: "others_same g w w"
  by (simp add: others_same_def)

lemma others_trans [trans]: "others_same g w w' \<Longrightarrow> others_same g w' w'' \<Longrightarrow> others_same g w w''"
  by (simp add: others_same_def)

subsection \<open>Blocks apart from each other\<close>

lemma index_sector: "0 \<le> i \<Longrightarrow> i < 7 * n \<Longrightarrow> 1 \<le> ib2sect i \<and> ib2sect i \<le> n"
proof -
  assume "0 \<le> i" "i < 7 * n"
  then have "0 \<le> i div 7" "i div 7 < n" by (simp_all add: div_less_iff_less_mult mult.commute)
  then show ?thesis by (simp add: ib2sect_def)
qed

lemma placed_index:
  assumes "placed_ok g" "i \<in> set (ibs g) \<union> set (ifree g) \<union> oi g"
  shows "0 \<le> i" "1 \<le> ib2sect i" "ib2sect i \<le> nsect g" "ib2sect i < 200" "in_int32 i"
proof -
  have i: "0 \<le> i" "i < 7 * nsect g" using assms by (auto simp: placed_ok_def)
  then show "0 \<le> i" "1 \<le> ib2sect i" "ib2sect i \<le> nsect g" using index_sector by simp_all
  then show "ib2sect i < 200" "in_int32 i" using i assms(1) by (simp_all add: placed_ok_def in_int32_def)
qed

lemma placed_data:
  assumes "placed_ok g" "d \<in> set (dbs g) \<union> set (dfree g) \<union> od g"
  shows "nsect g < d" "0 < d" "d < 200" "in_int32 d" "0 \<le> d"
proof -
  have d: "nsect g < d" "d < 200" "0 \<le> nsect g" using assms by (auto simp: placed_ok_def)
  then show "nsect g < d" "0 < d" "d < 200" "in_int32 d" "0 \<le> d" by (simp_all add: in_int32_def)
qed

end
