(* ===== verification/LfsSetup.thy ===== *)
theory LfsSetup
  imports LfsInv
begin

text \<open>
  Writing back the buffers and finding the blocks for a position (\<open>lfflush\<close>, \<open>lfsetup\<close>).
\<close>

subsection \<open>Writes that keep the file\<close>

lemma rblock_put_other: "0 \<le> b \<Longrightarrow> 0 \<le> b' \<Longrightarrow> b' \<noteq> b \<Longrightarrow> rblock (put_block b buff r) b' = rblock r b'"
proof -
  assume "0 \<le> b" "0 \<le> b'" "b' \<noteq> b"
  then have "nat b' < nat b \<or> nat b < nat b'" by (simp add: nat_eq_iff) linarith
  then have "\<not> (512 * nat b \<le> 512 * nat b' + i \<and> 512 * nat b' + i < 512 * nat b + 512)" if "i < 512" for i
    using that by auto
  then show ?thesis by (intro nth_equalityI) (auto simp: rblock_def put_block_def)
qed

lemma rindex_put_other: "0 \<le> b \<Longrightarrow> 0 \<le> i \<Longrightarrow> ib2sect i \<noteq> b \<Longrightarrow> rindex (put_block b buff r) i = rindex r i"
  by (simp add: rindex_def ib2sect_def rblock_put_other)

text \<open>Whatever a write changes, blocks it does not touch keep the file as it is.\<close>

lemma core_ram:
  assumes "core x g w"
    and "\<And>i. i \<in> set (ibs g) \<union> set (ifree g) \<Longrightarrow> rindex r i = rindex (ram w) i"
    and "\<And>d. d \<in> set (dbs g) \<union> set (dfree g) \<Longrightarrow> rblock r d = rblock (ram w) d"
  shows "core x g (w\<lparr>ram := r\<rparr>)"
proof -
  have f: "free_ok g (w\<lparr>ram := r\<rparr>)"
    using coreD(2) [OF assms(1)] chain_cong [of "ifree g" "\<lambda>i. ib_next (rindex r i)" "\<lambda>i. ib_next (rindex (ram w) i)"]
      chain_cong [of "dfree g" "\<lambda>d. int_at 0 (rblock r d)" "\<lambda>d. int_at 0 (rblock (ram w) d)"] assms(2,3)
    by (simp add: free_ok_def)
  have i: "index_ok g (w\<lparr>ram := r\<rparr>)" using coreD(3) [OF assms(1)] assms(2) by (simp add: index_ok_def)
  have d: "data_ok x g (w\<lparr>ram := r\<rparr>)" using coreD(4) [OF assms(1)] assms(3) by (simp add: data_ok_def)
  show ?thesis using assms(1) f i d by (simp add: core_def)
qed

lemma core_others [simp]:
  "core x g (w\<lparr>fk := s\<rparr>) = core x g w" "core x g (w\<lparr>lf_dirdirty := b\<rparr>) = core x g w"
  by (simp_all add: core_def free_ok_def index_ok_def data_ok_def)

lemma upd_lfl_fields [simp]:
  "fk (upd_lfl m f w) = fk w" "ram (upd_lfl m f w) = ram w" "lf_mutex (upd_lfl m f w) = lf_mutex w"
  "lf_dir (upd_lfl m f w) = lf_dir w" "lf_dirpresent (upd_lfl m f w) = lf_dirpresent w"
  "lf_dirdirty (upd_lfl m f w) = lf_dirdirty w" "stale (upd_lfl m f w) = stale w"
  "lfltab (upd_lfl m f w) m' = (if m' = m then f (lfltab w m) else lfltab w m')"
  by (simp_all add: upd_lfl_def)

lemma write_dir_ok: "write_dir w = Some (w\<lparr>ram := put_block 0 (dir_bytes (lf_dir w)) (ram w)\<rparr>)"
  by (simp add: write_dir_def ramwrite_ok)

lemma dir_block_apart:
  assumes "placed_ok g"
  shows "i \<in> set (ibs g) \<union> set (ifree g) \<union> oi g \<Longrightarrow> rindex (put_block 0 b r) i = rindex r i"
    "d \<in> set (dbs g) \<union> set (dfree g) \<union> od g \<Longrightarrow> rblock (put_block 0 b r) d = rblock r d"
  using placed_index [OF assms, of i] placed_data [OF assms, of d] by (simp_all add: rindex_put_other rblock_put_other)

lemma core_write_dir:
  assumes "core x g w"
  shows "core x g (w\<lparr>ram := put_block 0 b (ram w)\<rparr>)" "others_same g w (w\<lparr>ram := put_block 0 b (ram w)\<rparr>)"
proof -
  note p = dir_block_apart [OF coreD(1) [OF assms]]
  show "core x g (w\<lparr>ram := put_block 0 b (ram w)\<rparr>)" by (rule core_ram [OF assms]) (simp_all add: p)
  show "others_same g w (w\<lparr>ram := put_block 0 b (ram w)\<rparr>)" by (simp add: others_same_def p)
qed

lemma flush_dir_ok:
  assumes "core x g w"
  obtains w' where "flush_dir w = Some w'" "core x g w'" "others_same g w w'" "lfltab w' = lfltab w" "lf_dir w' = lf_dir w"
proof (cases "lf_dirdirty w")
  case True
  then show ?thesis using that core_write_dir [OF assms] by (simp add: flush_dir_def write_dir_ok others_same_def)
next
  case False
  then show ?thesis using that assms by (simp add: flush_dir_def)
qed

text \<open>The data buffer goes to its block.\<close>

lemma data_block_apart:
  assumes "placed_ok g" "d \<in> set (dbs g) \<union> set (dfree g)"
  shows "i \<in> set (ibs g) \<union> set (ifree g) \<union> oi g \<Longrightarrow> rindex (put_block d b r) i = rindex r i"
    "d' \<in> set (dbs g) \<union> set (dfree g) \<union> od g \<Longrightarrow> d' \<noteq> d \<Longrightarrow> rblock (put_block d b r) d' = rblock r d'"
    "d' \<in> od g \<Longrightarrow> d' \<noteq> d"
proof -
  have d: "nsect g < d" "0 < d" using placed_data [OF assms(1), of d] assms(2) by auto
  show "rindex (put_block d b r) i = rindex r i" if "i \<in> set (ibs g) \<union> set (ifree g) \<union> oi g"
    using placed_index [OF assms(1) that] d by (simp add: rindex_put_other)
  show "rblock (put_block d b r) d' = rblock r d'" if "d' \<in> set (dbs g) \<union> set (dfree g) \<union> od g" "d' \<noteq> d"
    using placed_data(2) [OF assms(1) that(1)] d that(2) by (simp add: rblock_put_other)
  show "d' \<in> od g \<Longrightarrow> d' \<noteq> d" using assms by (auto simp: placed_ok_def)
qed

lemma others_upd_lfl:
  "(\<And>c. lfmutex (f c) = lfmutex c) \<Longrightarrow> (\<And>c. lfdev (f c) = lfdev c) \<Longrightarrow> (\<And>c. lfname (f c) = lfname c) \<Longrightarrow>
   others_same g w u \<Longrightarrow> others_same g w (upd_lfl (minor g) f u)"
  by (auto simp: others_same_def)

lemma others_ram:
  "(\<And>i. i \<in> oi g \<Longrightarrow> rindex r i = rindex (ram w) i) \<Longrightarrow> (\<And>d. d \<in> od g \<Longrightarrow> rblock r d = rblock (ram w) d) \<Longrightarrow>
   others_same g w (w\<lparr>ram := r\<rparr>)"
  by (simp add: others_same_def)

lemma flush_data_ok:
  assumes "core False g w"
  obtains w' where "flush_data (minor g) w = Some w'" "core False g w'" "others_same g w w'" "lf_dir w' = lf_dir w"
    "\<not> lfdbdirty (cblk g w')" "lfibdirty (cblk g w') = lfibdirty (cblk g w)" "lfinum (cblk g w') = lfinum (cblk g w)"
    "lfpos (cblk g w') = lfpos (cblk g w)" "lfiblock (cblk g w') = lfiblock (cblk g w)"
proof (cases "lfdbdirty (cblk g w)")
  case True
  obtain j where j: "j < length (dbs g)" "lfdnum (cblk g w) = dbs g ! j" "lfdblock (cblk g w) = blks g ! j"
    using coreD(4) [OF assms] True by (auto simp: data_ok_def)
  let ?d = "dbs g ! j" and ?r = "put_block (dbs g ! j) (blks g ! j) (ram w)"
  let ?w = "upd_lfl (minor g) (\<lambda>c. c\<lparr>lfdbdirty := False\<rparr>) (w\<lparr>ram := ?r\<rparr>)"
  have P: "placed_ok g" using assms by (rule coreD)
  have m: "?d \<in> set (dbs g) \<union> set (dfree g)" using j(1) by simp
  note A = data_block_apart [OF P m]
  have di: "distinct (dbs g)" "set (dbs g) \<inter> set (dfree g) = {}" using P by (auto simp: placed_ok_def)
  have l: "length (blks g ! j) = 512" "length (blks g) = length (dbs g)" using coreD(4) [OF assms] j(1) by (auto simp: data_ok_def)
  have new: "rblock ?r ?d = blks g ! j" using placed_data [OF P, of ?d] j(1) l(1) by simp
  have old: "rblock ?r (dbs g ! k) = rblock (ram w) (dbs g ! k)" if "k < length (dbs g)" "k \<noteq> j" for k
    using A(2) [of "dbs g ! k"] that di(1) j(1) by (simp add: nth_eq_iff_index_eq)
  have fr: "rblock ?r d = rblock (ram w) d" if "d \<in> set (dfree g)" for d
  proof -
    have "d \<noteq> dbs g ! j" using that di(2) nth_mem [OF j(1)] by blast
    then show ?thesis using A(2) [of d] that by simp
  qed
  have f: "free_ok g ?w"
    using coreD(2) [OF assms] A(1) fr chain_cong [of "ifree g" "\<lambda>i. ib_next (rindex ?r i)" "\<lambda>i. ib_next (rindex (ram w) i)"]
      chain_cong [of "dfree g" "\<lambda>d. int_at 0 (rblock ?r d)" "\<lambda>d. int_at 0 (rblock (ram w) d)"]
    by (simp add: free_ok_def)
  have i: "index_ok g ?w" using coreD(3) [OF assms] A(1) by (simp add: index_ok_def)
  have d: "data_ok False g ?w"
  proof -
    have "rblock ?r (dbs g ! k) = blks g ! k" if "k < length (dbs g)" for k
    proof (cases "k = j")
      case False
      then have "dbs g ! k \<noteq> ?d" using that j(1) di(1) by (simp add: nth_eq_iff_index_eq)
      then show ?thesis using coreD(4) [OF assms] j(2) that old [OF that False] by (auto simp: data_ok_def)
    qed (simp add: new)
    then show ?thesis using coreD(4) [OF assms] j by (auto simp: data_ok_def)
  qed
  have r: "flush_data (minor g) w = Some ?w"
    using True j placed_data [OF P, of ?d] by (simp add: flush_data_def ramwrite_ok)
  have "others_same g w (w\<lparr>ram := ?r\<rparr>)" by (rule others_ram) (use A in auto)
  then have "others_same g w ?w" by (intro others_upd_lfl) simp_all
  then show ?thesis using that [OF r] assms f i d by (simp add: core_def)
next
  case False
  then show ?thesis using that assms by (simp add: flush_data_def)
qed

text \<open>The index buffer goes to its slot.\<close>

lemma idx_block_ok:
  assumes "placed_ok g" "set is \<subseteq> set (ibs g) \<union> set (ifree g)" "set ds \<subseteq> set (dbs g) \<union> set (dfree g)"
  shows "iblk_ok (idx_block is ds k)"
proof -
  have "in_int32 (- 1)" by (simp add: in_int32_def)
  moreover have "in_int32 (is ! j)" if "j < length is" for j
    using placed_index(5) [OF assms(1), of "is ! j"] assms(2) that nth_mem by blast
  moreover have "in_int32 (ds ! j)" if "j < length ds" for j
    using placed_data(4) [OF assms(1), of "ds ! j"] assms(3) that nth_mem by blast
  ultimately show ?thesis by (auto simp: iblk_ok_def idx_block_def)
qed

lemma index_block_apart:
  assumes "placed_ok g" "i \<in> set (ibs g) \<union> set (ifree g)" "iblk_ok b"
  shows "i' \<in> set (ibs g) \<union> set (ifree g) \<union> oi g \<Longrightarrow> rindex (put_index i b r) i' = (if i' = i then b else rindex r i')"
    "d \<in> set (dbs g) \<union> set (dfree g) \<union> od g \<Longrightarrow> rblock (put_index i b r) d = rblock r d"
    "i' \<in> oi g \<Longrightarrow> i' \<noteq> i"
proof -
  have i: "0 \<le> i" "ib2sect i \<le> nsect g" using placed_index [OF assms(1), of i] assms(2) by auto
  show "rindex (put_index i b r) i' = (if i' = i then b else rindex r i')" if "i' \<in> set (ibs g) \<union> set (ifree g) \<union> oi g"
    using placed_index(1) [OF assms(1) that] i by (simp add: rindex_put assms(3))
  show "rblock (put_index i b r) d = rblock r d" if "d \<in> set (dbs g) \<union> set (dfree g) \<union> od g"
    using placed_data [OF assms(1) that] i by (simp add: rblock_put_index assms(3))
  show "i' \<in> oi g \<Longrightarrow> i' \<noteq> i" using assms by (auto simp: placed_ok_def)
qed

text \<open>Block \<open>k\<close> of the file is written as it should be: the file stays what it is.\<close>

lemma put_index_core:
  assumes c: "core x g w" and k: "k < length (ibs g)"
  defines "r \<equiv> put_index (ibs g ! k) (idx_block (ibs g) (dbs g) k) (ram w)"
  shows "core x g (w\<lparr>ram := r\<rparr>)" "rindex r (ibs g ! k) = idx_block (ibs g) (dbs g) k" "others_same g w (w\<lparr>ram := r\<rparr>)"
proof -
  let ?b = "idx_block (ibs g) (dbs g) k"
  have P: "placed_ok g" using c by (rule coreD)
  have m: "ibs g ! k \<in> set (ibs g) \<union> set (ifree g)" using k by simp
  have b: "iblk_ok ?b" by (rule idx_block_ok [OF P]) auto
  note A = index_block_apart [OF P m b]
  have di: "distinct (ibs g)" "set (ibs g) \<inter> set (ifree g) = {}" using P by (auto simp: placed_ok_def)
  show new: "rindex r (ibs g ! k) = ?b" using A(1) k by (simp add: r_def)
  have old: "rindex r (ibs g ! j) = rindex (ram w) (ibs g ! j)" if "j < length (ibs g)" "j \<noteq> k" for j
    using A(1) [of "ibs g ! j"] that di(1) k by (simp add: r_def nth_eq_iff_index_eq)
  have fr: "rindex r i = rindex (ram w) i" if "i \<in> set (ifree g)" for i
  proof -
    have "i \<noteq> ibs g ! k" using that di(2) nth_mem [OF k] by blast
    then show ?thesis using A(1) [of i] that by (simp add: r_def)
  qed
  have "free_ok g (w\<lparr>ram := r\<rparr>)"
    using coreD(2) [OF c] A(2) fr chain_cong [of "ifree g" "\<lambda>i. ib_next (rindex r i)" "\<lambda>i. ib_next (rindex (ram w) i)"]
      chain_cong [of "dfree g" "\<lambda>d. int_at 0 (rblock r d)" "\<lambda>d. int_at 0 (rblock (ram w) d)"]
    by (simp add: free_ok_def r_def)
  moreover have "index_ok g (w\<lparr>ram := r\<rparr>)" using coreD(3) [OF c] new old unfolding index_ok_def by (simp; metis)
  moreover have "data_ok x g (w\<lparr>ram := r\<rparr>)" using coreD(4) [OF c] A(2) by (simp add: data_ok_def r_def)
  ultimately show "core x g (w\<lparr>ram := r\<rparr>)" using c by (simp add: core_def)
  show "others_same g w (w\<lparr>ram := r\<rparr>)" by (rule others_ram) (use A in \<open>auto simp: r_def\<close>)
qed

lemma flush_index_ok:
  assumes "core x g w"
  obtains w' where "flush_index (minor g) w = Some w'" "core x g w'" "others_same g w w'" "lf_dir w' = lf_dir w"
    "\<not> lfibdirty (cblk g w')" "lfdbdirty (cblk g w') = lfdbdirty (cblk g w)" "lfinum (cblk g w') = lfinum (cblk g w)"
    "lfpos (cblk g w') = lfpos (cblk g w)" "lfiblock (cblk g w') = lfiblock (cblk g w)"
proof (cases "lfibdirty (cblk g w)")
  case True
  obtain k where k: "k < length (ibs g)" "lfinum (cblk g w) = ibs g ! k" "lfiblock (cblk g w) = idx_block (ibs g) (dbs g) k"
    using coreD(3) [OF assms] True by (auto simp: index_ok_def)
  let ?r = "put_index (ibs g ! k) (idx_block (ibs g) (dbs g) k) (ram w)"
  let ?w = "upd_lfl (minor g) (\<lambda>c. c\<lparr>lfibdirty := False\<rparr>) (w\<lparr>ram := ?r\<rparr>)"
  note C = put_index_core [OF assms k(1)]
  have "core x g ?w"
  proof -
    have "index_ok g ?w"
    proof -
      have "distinct (ibs g)" using coreD(1) [OF assms] by (simp add: placed_ok_def)
      then have "rindex ?r (ibs g ! j) = idx_block (ibs g) (dbs g) j" if "j < length (ibs g)" for j
        using coreD(3) [OF C(1)] C(2) k that by (auto simp: index_ok_def nth_eq_iff_index_eq)
      then show ?thesis using coreD(3) [OF C(1)] k by (auto simp: index_ok_def)
    qed
    then show ?thesis using C(1) by (simp add: core_def free_ok_def data_ok_def)
  qed
  moreover have "flush_index (minor g) w = Some ?w"
    using True k placed_index [OF coreD(1) [OF assms], of "ibs g ! k"] by (simp add: flush_index_def lfibput_ok)
  moreover have "others_same g w ?w" using C(3) by (intro others_upd_lfl) simp_all
  ultimately show ?thesis using that by simp
next
  case False
  then show ?thesis using that assms by (simp add: flush_index_def)
qed

lemma lfflush_ok:
  assumes "core False g w"
  obtains w' where "lfflush (minor g) w = Some (OK, w')" "core False g w'" "others_same g w w'" "lf_dir w' = lf_dir w"
    "\<not> lfibdirty (cblk g w')" "\<not> lfdbdirty (cblk g w')" "lfinum (cblk g w') = lfinum (cblk g w)"
    "lfpos (cblk g w') = lfpos (cblk g w)" "lfiblock (cblk g w') = lfiblock (cblk g w)"
proof -
  obtain w1 where 1: "flush_dir w = Some w1" "core False g w1" "others_same g w w1" "lfltab w1 = lfltab w" "lf_dir w1 = lf_dir w"
    using flush_dir_ok [OF assms] .
  obtain w2 where 2: "flush_data (minor g) w1 = Some w2" "core False g w2" "others_same g w1 w2" "lf_dir w2 = lf_dir w1"
    "\<not> lfdbdirty (cblk g w2)" "lfibdirty (cblk g w2) = lfibdirty (cblk g w1)" "lfinum (cblk g w2) = lfinum (cblk g w1)"
    "lfpos (cblk g w2) = lfpos (cblk g w1)" "lfiblock (cblk g w2) = lfiblock (cblk g w1)"
    using flush_data_ok [OF 1(2)] .
  obtain w3 where 3: "flush_index (minor g) w2 = Some w3" "core False g w3" "others_same g w2 w3" "lf_dir w3 = lf_dir w2"
    "\<not> lfibdirty (cblk g w3)" "lfdbdirty (cblk g w3) = lfdbdirty (cblk g w2)" "lfinum (cblk g w3) = lfinum (cblk g w2)"
    "lfpos (cblk g w3) = lfpos (cblk g w2)" "lfiblock (cblk g w3) = lfiblock (cblk g w2)"
    using flush_index_ok [OF 2(2)] .
  have "lfflush (minor g) w = Some (OK, w3)" using 1(1) 2(1) 3(1) coreD(5) [OF assms] by (simp add: lfflush_def)
  moreover have "others_same g w w3" using 1(3) 2(3) 3(3) others_trans by blast
  ultimately show ?thesis using that 1 2 3 by simp
qed

end
