(* ===== verification/LfsSeek.thy ===== *)
theory LfsSeek
  imports LfsSetup
begin

subsection \<open>Positions\<close>

lemma position_parts:
  fixes p :: u32
  shows "unat (and p (not 0x1fff)) = 8192 * (unat p div 8192)" "unat (drop_bit 9 (and p 0x1fff)) = unat p mod 8192 div 512"
    "unat (and p 0x1ff) = unat p mod 512" "unat (and (drop_bit 9 p) 15) = unat p mod 8192 div 512"
proof -
  have m: "(0x1fff :: u32) = mask 13" "(0x1ff :: u32) = mask 9" by (simp_all add: mask_eq_exp_minus_1)
  have a: "unat (and p 0x1fff) = unat p mod 8192" "unat (and p 0x1ff) = unat p mod 512"
    by (simp_all add: m take_bit_eq_mod unat_mod flip: take_bit_eq_mask)
  then show "unat (and p 0x1ff) = unat p mod 512" by simp
  have "unat (drop_bit 9 (and p 0x1fff)) = unat (and p 0x1fff) div 512" by (simp only: drop_bit_eq_div unat_div) simp
  then show q: "unat (drop_bit 9 (and p 0x1fff)) = unat p mod 8192 div 512" using a(1) by simp
  have "drop_bit 9 (and p 0x1fff) = and (drop_bit 9 p) 15" by simp
  then show "unat (and (drop_bit 9 p) 15) = unat p mod 8192 div 512" using q by simp
  have "p = or (and p (not 0x1fff)) (and p 0x1fff)" by (simp add: bit_eq_iff bit_simps) blast
  also have "\<dots> = and p (not 0x1fff) + and p 0x1fff" by (subst disjunctive_add) (auto simp: bit_simps)
  finally have "p - and p 0x1fff = and p (not 0x1fff)" by (metis add_diff_cancel_right')
  moreover have "unat (p - and p 0x1fff) = unat p - unat p mod 8192"
    using a(1) unat_sub [of "and p 0x1fff" p] by (simp add: word_le_nat_alt)
  ultimately show "unat (and p (not 0x1fff)) = 8192 * (unat p div 8192)" by (simp add: minus_mod_eq_mult_div)
qed

lemma offset_less:
  assumes "k \<le> 1400"
  shows "and p (not 0x1fff) > (of_nat (8192 * k) :: u32) \<longleftrightarrow> k < unat p div 8192"
    "(p :: u32) < of_nat (8192 * k) \<longleftrightarrow> unat p div 8192 < k"
proof -
  have u: "unat (of_nat (8192 * k) :: u32) = 8192 * k" using assms by (simp only: unat_of_nat) simp
  show "and p (not 0x1fff) > (of_nat (8192 * k) :: u32) \<longleftrightarrow> k < unat p div 8192"
    unfolding word_less_nat_alt u position_parts by simp
  show "(p :: u32) < of_nat (8192 * k) \<longleftrightarrow> unat p div 8192 < k" unfolding word_less_nat_alt u by auto
qed

lemma distinct_bound: "distinct xs \<Longrightarrow> set xs \<subseteq> {0..<int n} \<Longrightarrow> length xs \<le> n"
proof -
  assume "distinct xs" "set xs \<subseteq> {0..<int n}"
  moreover from this have "card (set xs) \<le> card {0..<int n}" by (intro card_mono) simp_all
  ultimately show ?thesis by (simp add: distinct_card)
qed

lemma placed_counts:
  assumes "placed_ok g"
  shows "length (ibs g) + length (ifree g) \<le> 1400" "length (dbs g) + length (dfree g) \<le> 200"
proof -
  have "set (ibs g @ ifree g) \<subseteq> {0..<7 * nsect g}" "nsect g < 200" "distinct (ibs g @ ifree g)"
    using assms unfolding placed_ok_def by blast+
  moreover from this have "set (ibs g @ ifree g) \<subseteq> {0..<int 1400}" by fastforce
  ultimately have "length (ibs g @ ifree g) \<le> 1400" using distinct_bound by blast
  then show "length (ibs g) + length (ifree g) \<le> 1400" by simp
  have "set (dbs g @ dfree g) \<subseteq> {nsect g<..<200}" "0 \<le> nsect g" "distinct (dbs g @ dfree g)"
    using assms unfolding placed_ok_def by blast+
  moreover from this have "set (dbs g @ dfree g) \<subseteq> {0..<int 200}" by fastforce
  ultimately have "length (dbs g @ dfree g) \<le> 200" using distinct_bound by blast
  then show "length (dbs g) + length (dfree g) \<le> 200" by simp
qed

subsection \<open>One more index block\<close>

definition grow_index :: "layout \<Rightarrow> layout" where
  "grow_index g = g\<lparr>ibs := ibs g @ [hd (ifree g)], ifree := tl (ifree g)\<rparr>"

lemma grow_index_fields [simp]:
  "nsect (grow_index g) = nsect g" "minor (grow_index g) = minor g" "entry (grow_index g) = entry g"
  "dbs (grow_index g) = dbs g" "blks (grow_index g) = blks g" "dfree (grow_index g) = dfree g" "oi (grow_index g) = oi g"
  "od (grow_index g) = od g" "ibs (grow_index g) = ibs g @ [hd (ifree g)]" "ifree (grow_index g) = tl (ifree g)"
  by (simp_all add: grow_index_def)

lemma others_grow [simp]: "others_same (grow_index g) w w' = others_same g w w'"
  by (simp add: others_same_def)

lemma placed_grow: "placed_ok g \<Longrightarrow> ifree g \<noteq> [] \<Longrightarrow> placed_ok (grow_index g)"
  by (cases "ifree g") (auto simp: placed_ok_def)

lemma idx_block_snoc:
  "k + 1 < length is \<Longrightarrow> idx_block (is @ [i]) ds k = idx_block is ds k"
  "k + 1 = length is \<Longrightarrow> idx_block (is @ [i]) ds k = (idx_block is ds k)\<lparr>ib_next := i\<rparr>"
  "length ds \<le> 16 * length is \<Longrightarrow>
     idx_block (is @ [i]) ds (length is) = \<lparr>ib_next = - 1, ib_offset = of_nat (8192 * length is), ib_dba = replicate 16 (- 1)\<rparr>"
proof -
  show "k + 1 < length is \<Longrightarrow> idx_block (is @ [i]) ds k = idx_block is ds k"
    "k + 1 = length is \<Longrightarrow> idx_block (is @ [i]) ds k = (idx_block is ds k)\<lparr>ib_next := i\<rparr>"
    by (auto simp: idx_block_def nth_append)
  assume "length ds \<le> 16 * length is"
  then have "map (\<lambda>j. if 16 * length is + j < length ds then ds ! (16 * length is + j) else - 1) [0..<16] = replicate 16 (- 1)"
    by (intro nth_equalityI) simp_all
  then show "idx_block (is @ [i]) ds (length is) = \<lparr>ib_next = - 1, ib_offset = of_nat (8192 * length is), ib_dba = replicate 16 (- 1)\<rparr>"
    by (simp add: idx_block_def)
qed

text \<open>The state after \<open>lfiballoc\<close>: the block has left the free list.\<close>

definition iballoced :: "fs \<Rightarrow> int \<Rightarrow> fs" where
  "iballoced w next =
     (let d = (lf_dir w)\<lparr>lfd_ifree := next\<rparr> in w\<lparr>lf_dir := d, ram := put_block 0 (dir_bytes d) (ram w), lf_dirdirty := False\<rparr>)"

lemma iballoced_fields [simp]:
  "fk (iballoced w n) = fk w" "lf_mutex (iballoced w n) = lf_mutex w" "lfltab (iballoced w n) = lfltab w"
  "lf_dirpresent (iballoced w n) = lf_dirpresent w" "lfd_files (lf_dir (iballoced w n)) = lfd_files (lf_dir w)"
  "lfd_dfree (lf_dir (iballoced w n)) = lfd_dfree (lf_dir w)" "lfd_nfiles (lf_dir (iballoced w n)) = lfd_nfiles (lf_dir w)"
  "lfd_ifree (lf_dir (iballoced w n)) = n"
  by (simp_all add: iballoced_def Let_def)

lemma iballoced_blocks:
  assumes "placed_ok g"
  shows "i \<in> set (ibs g) \<union> set (ifree g) \<union> oi g \<Longrightarrow> rindex (ram (iballoced w n)) i = rindex (ram w) i"
    "d \<in> set (dbs g) \<union> set (dfree g) \<union> od g \<Longrightarrow> rblock (ram (iballoced w n)) d = rblock (ram w) d"
  using dir_block_apart [OF assms] by (simp_all add: iballoced_def Let_def)

lemma lfiballoc_ok:
  assumes "core x g w" "ifree g = i # is"
  defines "w' \<equiv> iballoced w (ib_next (rindex (ram w) i))"
  shows "lfiballoc w = Some (i, w')" "free_ok (grow_index g) w'" "others_same g w w'"
proof -
  have P: "placed_ok g" using assms(1) by (rule coreD)
  note A = iballoced_blocks [OF P, of _ w "ib_next (rindex (ram w) i)"]
  have i: "0 \<le> i" "ib2sect i < 200" using placed_index [OF P, of i] assms(2) by simp_all
  have F: "lfd_ifree (lf_dir w) = i" "chain (\<lambda>i. ib_next (rindex (ram w) i)) (ib_next (rindex (ram w) i)) is"
    using coreD(2) [OF assms(1)] assms(2) by (simp_all add: free_ok_def)
  show "lfiballoc w = Some (i, w')"
    using i F(1) by (simp add: lfiballoc_def lfibget_ok write_dir_ok Let_def w'_def iballoced_def upd_dir_def)
  show "free_ok (grow_index g) w'"
    using F(2) A coreD(2) [OF assms(1)] assms(2)
      chain_cong [of "is" "\<lambda>i. ib_next (rindex (ram w') i)" "\<lambda>i. ib_next (rindex (ram w) i)"]
      chain_cong [of "dfree g" "\<lambda>d. int_at 0 (rblock (ram w') d)" "\<lambda>d. int_at 0 (rblock (ram w) d)"]
    by (simp add: free_ok_def w'_def)
  show "others_same g w w'" using A by (simp add: others_same_def w'_def)
qed

subsection \<open>Finding the index block\<close>

text \<open>What the calls that move between blocks leave alone in the control block and the directory.\<close>

definition same_place :: "layout \<Rightarrow> fs \<Rightarrow> fs \<Rightarrow> bool" where
  "same_place g w w' \<longleftrightarrow> others_same g w w' \<and> lfpos (cblk g w') = lfpos (cblk g w) \<and> ld_size (dent g w') = ld_size (dent g w)"

lemma same_place_trans [trans]: "same_place g w w' \<Longrightarrow> same_place g w' w'' \<Longrightarrow> same_place g w w''"
  unfolding same_place_def using others_trans by auto

lemma same_place_refl [simp]: "same_place g w w"
  by (simp add: same_place_def)

lemma same_place_grow [simp]: "same_place (grow_index g) w w' = same_place g w w'"
  by (simp add: same_place_def)

definition at_index :: "layout \<Rightarrow> nat \<Rightarrow> fs \<Rightarrow> bool" where
  "at_index g k w \<longleftrightarrow> k < length (ibs g) \<and> lfinum (cblk g w) = ibs g ! k \<and> lfiblock (cblk g w) = idx_block (ibs g) (dbs g) k"

lemma load_index_ok:
  assumes c: "core False g w" and k: "k < length (ibs g)" and d: "\<not> (lfibdirty (cblk g w) \<and> lfinum (cblk g w) = ibs g ! k)"
    and n: "\<not> lfibdirty (cblk g w)"
  obtains w' where "load_index (minor g) (ibs g ! k) w = Some w'" "core False g w'" "at_index g k w'" "same_place g w w'"
    "\<not> lfibdirty (cblk g w')" "lfdbdirty (cblk g w') = lfdbdirty (cblk g w)"
proof -
  let ?w = "upd_lfl (minor g) (\<lambda>c. c\<lparr>lfiblock := idx_block (ibs g) (dbs g) k, lfinum := ibs g ! k\<rparr>) w"
  have "rindex (ram w) (ibs g ! k) = idx_block (ibs g) (dbs g) k" using coreD(3) [OF c] k n by (auto simp: index_ok_def)
  then have "load_index (minor g) (ibs g ! k) w = Some ?w"
    using placed_index [OF coreD(1) [OF c], of "ibs g ! k"] k by (simp add: load_index_def lfibget_ok)
  moreover have "index_ok g ?w" using coreD(3) [OF c] k n by (auto simp: index_ok_def)
  then have "core False g ?w" using c by (simp add: core_def free_ok_def data_ok_def)
  moreover have "same_place g w ?w" unfolding same_place_def by (auto intro: others_upd_lfl)
  ultimately show ?thesis using that k n by (simp add: at_index_def)
qed

lemma set_entry_ok: "lfdirptr (lfltab w m) = Some i \<Longrightarrow> set_entry m f w = upd_ent i f w"
  by (simp add: set_entry_def)

lemma upd_ent_fields [simp]:
  "fk (upd_ent i f w) = fk w" "ram (upd_ent i f w) = ram w" "lf_mutex (upd_ent i f w) = lf_mutex w"
  "lfltab (upd_ent i f w) = lfltab w" "lf_dirpresent (upd_ent i f w) = lf_dirpresent w" "lf_dirdirty (upd_ent i f w) = lf_dirdirty w"
  "lfd_ifree (lf_dir (upd_ent i f w)) = lfd_ifree (lf_dir w)" "lfd_dfree (lf_dir (upd_ent i f w)) = lfd_dfree (lf_dir w)"
  "lfd_nfiles (lf_dir (upd_ent i f w)) = lfd_nfiles (lf_dir w)"
  "lfd_files (lf_dir (upd_ent i f w)) = (lfd_files (lf_dir w))[i := f (lfd_files (lf_dir w) ! i)]"
  by (simp_all add: upd_ent_def upd_dir_def)

lemma dir_entry_ok: "core x g w \<Longrightarrow> dir_entry (minor g) w = Some (dent g w)"
  by (simp add: dir_entry_def coreD(6))

text \<open>The first index block of an empty file.\<close>

lemma first_index_new:
  assumes c: "core False g w" and e: "ibs g = []" "ifree g \<noteq> []"
  obtains w' where "first_index (minor g) w = Some w'" "core False (grow_index g) w'" "at_index (grow_index g) 0 w'"
    "same_place g w w'" "lfdbdirty (cblk g w') = lfdbdirty (cblk g w)"
proof -
  obtain i rest where f: "ifree g = i # rest" using e(2) by (cases "ifree g") auto
  note I = coreD(3) [OF c] and E = coreD(6,7) [OF c]
  let ?w1 = "iballoced w (ib_next (rindex (ram w) i))"
  note L = lfiballoc_ok [OF c f]
  let ?b = "\<lparr>ib_next = - 1, ib_offset = 0, ib_dba = replicate 16 (- 1)\<rparr> :: lfiblk"
  let ?w2 = "upd_ent (entry g) (\<lambda>e. e\<lparr>ld_ilist := i\<rparr>) (upd_lfl (minor g) (\<lambda>c. c\<lparr>lfiblock := ?b\<rparr>) ?w1)"
  let ?w3 = "upd_lfl (minor g) (\<lambda>c. c\<lparr>lfibdirty := True, lfinum := i\<rparr>) ?w2"
  have n: "lfinum (cblk g w) = - 1" "ld_ilist (dent g w) = - 1" "dbs g = []" using I e by (auto simp: index_ok_def)
  have b: "lfibclear 0 x = ?b" for x by (simp add: lfibclear_def)
  have "first_index (minor g) w = Some ?w3"
    using n L(1) E by (simp add: first_index_def dir_entry_ok [OF c] Let_def set_entry_ok b)
  moreover have "idx_block [i] [] 0 = ?b" using idx_block_snoc(3) [of "[]" "[]" i] by simp
  then have "index_ok (grow_index g) ?w3" using e f n(3) E(2) by (simp add: index_ok_def)
  then have "core False (grow_index g) ?w3"
    using c placed_grow [OF coreD(1) [OF c] e(2)] L(2) n(3) by (simp add: core_def free_ok_def data_ok_def)
  moreover have "others_same g ?w1 ?w2" using E by (simp add: others_same_def)
  then have "same_place g w ?w3"
    unfolding same_place_def using L(3) E by (auto intro!: others_upd_lfl intro: others_trans)
  moreover have "at_index (grow_index g) 0 ?w3" using \<open>idx_block [i] [] 0 = ?b\<close> e f n(3) by (simp add: at_index_def)
  ultimately show ?thesis using that by simp
qed

lemma first_index_old:
  assumes c: "core False g w" and e: "ibs g \<noteq> []" and n: "\<not> lfibdirty (cblk g w)"
  obtains w' k where "first_index (minor g) w = Some w'" "core False g w'" "at_index g k w'" "k \<le> unat (lfpos (cblk g w)) div 8192"
    "same_place g w w'" "\<not> lfibdirty (cblk g w')" "lfdbdirty (cblk g w') = lfdbdirty (cblk g w)"
proof -
  have i0: "ld_ilist (dent g w) = ibs g ! 0" "0 < length (ibs g)" using coreD(3) [OF c] e by (cases "ibs g"; simp add: index_ok_def)+
  obtain w' where L: "load_index (minor g) (ibs g ! 0) w = Some w'" "core False g w'" "at_index g 0 w'" "same_place g w w'"
    "\<not> lfibdirty (cblk g w')" "lfdbdirty (cblk g w') = lfdbdirty (cblk g w)"
    using load_index_ok [OF c i0(2)] n by blast
  have nn: "ibs g ! k \<noteq> - 1" if "k < length (ibs g)" for k using placed_index(1) [OF coreD(1) [OF c], of "ibs g ! k"] that by auto
  show ?thesis
  proof (cases "lfinum (cblk g w) = - 1")
    case True
    then have "first_index (minor g) w = Some w'"
      using L(1) i0 nn [OF i0(2)] by (simp add: first_index_def dir_entry_ok [OF c] Let_def)
    then show ?thesis using that [of w' 0] L by simp
  next
    case False
    then obtain k where k: "k < length (ibs g)" "lfinum (cblk g w) = ibs g ! k" "lfiblock (cblk g w) = idx_block (ibs g) (dbs g) k"
      using coreD(3) [OF c] by (auto simp: index_ok_def)
    have o: "lfpos (cblk g w) < ib_offset (lfiblock (cblk g w)) \<longleftrightarrow> unat (lfpos (cblk g w)) div 8192 < k"
      using offset_less(2) [of k] placed_counts(1) [OF coreD(1) [OF c]] k by (simp add: idx_block_def)
    show ?thesis
    proof (cases "unat (lfpos (cblk g w)) div 8192 < k")
      case True
      then have "first_index (minor g) w = Some w'"
        using L(1) i0 o False by (simp add: first_index_def dir_entry_ok [OF c] Let_def)
      then show ?thesis using that [of w' 0] L by simp
    next
      case F: False
      then have "first_index (minor g) w = Some w" using o False by (simp add: first_index_def dir_entry_ok [OF c] Let_def)
      then show ?thesis using that [of w k] c k n F by (simp add: at_index_def)
    qed
  qed
qed

text \<open>The loop: one index block further, or a new one at the end.\<close>

lemma forget_data:
  assumes "core False g w" "\<not> lfdbdirty (cblk g w)"
  defines "w' \<equiv> upd_lfl (minor g) (\<lambda>c. c\<lparr>lfdnum := LF_DNULL\<rparr>) w"
  shows "core False g w'" "same_place g w w'" "at_index g k w' = at_index g k w"
    "\<not> lfdbdirty (cblk g w')" "lfibdirty (cblk g w') = lfibdirty (cblk g w)"
proof -
  have "data_ok False g w'" using coreD(4) [OF assms(1)] assms(2) by (simp add: data_ok_def w'_def)
  then show "core False g w'" using assms(1) by (simp add: core_def w'_def free_ok_def index_ok_def)
  show "same_place g w w'" unfolding same_place_def w'_def by (auto intro: others_upd_lfl)
qed (use assms in \<open>simp_all add: at_index_def w'_def\<close>)

lemma seek_index_new:
  assumes c: "core False g w" and a: "at_index g k w" "k + 1 = length (ibs g)" and f: "ifree g = i # rest" and n: "\<not> lfdbdirty (cblk g w)"
  obtains w1 w2 w3 where "lfiballoc w = Some (i, w1)"
    "lfibput (lfinum (cblk g w)) (lfiblock (lfltab (upd_lfl (minor g) (\<lambda>c. c\<lparr>lfiblock := (lfiblock c)\<lparr>ib_next := i\<rparr>\<rparr>) w1) (minor g)))
       (upd_lfl (minor g) (\<lambda>c. c\<lparr>lfiblock := (lfiblock c)\<lparr>ib_next := i\<rparr>\<rparr>) w1) = Some (OK, w2)"
    "w3 = upd_lfl (minor g) (\<lambda>c. c\<lparr>lfinum := i, lfiblock := lfibclear (ib_offset (lfiblock c) + LF_IDATA) (lfiblock c),
       lfibdirty := True, lfdnum := LF_DNULL\<rparr>) w2"
    "core False (grow_index g) w3" "at_index (grow_index g) (k + 1) w3" "same_place g w w3" "\<not> lfdbdirty (cblk g w3)"
proof -
  let ?G = "grow_index g"
  have P: "placed_ok g" and PG: "placed_ok ?G" using coreD(1) [OF c] placed_grow f by auto
  have G: "ibs ?G = ibs g @ [i]" "ifree ?G = rest" using f by simp_all
  note I = coreD(3) [OF c] and E = coreD(6,7) [OF c]
  have ld: "length (dbs g) \<le> 16 * length (ibs g)" using I by (simp add: index_ok_def)
  let ?w1 = "iballoced w (ib_next (rindex (ram w) i))"
  note L = lfiballoc_ok [OF c f] and W1 = iballoced_blocks [OF P, of _ w "ib_next (rindex (ram w) i)"]
  let ?b = "idx_block (ibs ?G) (dbs g) k"
  have b: "(lfiblock (cblk g w))\<lparr>ib_next := i\<rparr> = ?b" using a idx_block_snoc(2) [of k "ibs g" i "dbs g"] G by (simp add: at_index_def)
  have num: "lfinum (cblk g w) = ibs g ! k" "k < length (ibs g)" using a(1) by (simp_all add: at_index_def)
  let ?v = "upd_lfl (minor g) (\<lambda>c. c\<lparr>lfiblock := (lfiblock c)\<lparr>ib_next := i\<rparr>\<rparr>) ?w1"
  let ?r = "put_index (ibs g ! k) ?b (ram ?w1)"
  let ?w2 = "?v\<lparr>ram := ?r\<rparr>"
  have m: "ibs g ! k \<in> set (ibs ?G) \<union> set (ifree ?G)" using num(2) by simp
  have ok: "iblk_ok ?b" by (rule idx_block_ok [OF PG]) auto
  note A = index_block_apart [OF PG m ok]
  have put: "lfibput (lfinum (cblk g w)) (lfiblock (lfltab ?v (minor g))) ?v = Some (OK, ?w2)"
    using placed_index [OF P, of "ibs g ! k"] num b by (simp add: lfibput_ok)
  have bo: "ib_offset (lfiblock (cblk g w)) + 8192 = of_nat (8192 * (k + 1))" "ib_offset ?b + 8192 = of_nat (8192 * (k + 1))"
    using a(1) by (simp_all add: at_index_def idx_block_def algebra_simps)
  have cl: "lfibclear (ib_offset x + LF_IDATA) y = idx_block (ibs ?G) (dbs g) (k + 1)"
    if "ib_offset x + 8192 = of_nat (8192 * (k + 1))" for x y :: lfiblk
  proof -
    have "idx_block (ibs ?G) (dbs g) (k + 1) = \<lparr>ib_next = - 1, ib_offset = of_nat (8192 * (k + 1)), ib_dba = replicate 16 (- 1)\<rparr>"
      using idx_block_snoc(3) [OF ld, of i] a(2) G by simp
    then show ?thesis unfolding lfibclear_def by (simp only: that) simp
  qed
  let ?w3 = "upd_lfl (minor g) (\<lambda>c. c\<lparr>lfinum := i, lfiblock := lfibclear (ib_offset (lfiblock c) + LF_IDATA) (lfiblock c),
       lfibdirty := True, lfdnum := LF_DNULL\<rparr>) ?w2"
  have blk3: "lfiblock (cblk g ?w3) = idx_block (ibs ?G) (dbs g) (k + 1)" using cl bo b by simp
  have idx: "rindex ?r (ibs g ! j) = idx_block (ibs ?G) (dbs g) j" if j: "j < length (ibs g)" for j
  proof (cases "j = k")
    case True
    then show ?thesis using A(1) [of "ibs g ! k"] num by simp
  next
    case False
    then have d: "ibs g ! j \<noteq> ibs g ! k" "j + 1 < length (ibs g)" using P num j a(2) by (auto simp: placed_ok_def nth_eq_iff_index_eq)
    have "lfibdirty (cblk g w) \<and> lfinum (cblk g w) = ibs g ! j \<or> rindex (ram w) (ibs g ! j) = idx_block (ibs g) (dbs g) j"
      using I j by (simp add: index_ok_def)
    then have "rindex (ram w) (ibs g ! j) = idx_block (ibs g) (dbs g) j" using d(1) num(1) by simp
    then show ?thesis using A(1) [of "ibs g ! j"] W1(1) [of "ibs g ! j"] j d idx_block_snoc(1) [OF d(2)] G by simp
  qed
  have D: "rblock ?r d = rblock (ram w) d" if "d \<in> set (dbs g) \<union> set (dfree g) \<union> od g" for d
    using A(2) W1(2) [OF that] that by simp
  have fx: "rindex ?r j = rindex (ram w) j" if "j \<in> set rest \<union> oi g" for j
  proof -
    have "j \<noteq> ibs g ! k" using that P f nth_mem [OF num(2)] by (auto simp: placed_ok_def)
    then show ?thesis using A(1) [of j] W1(1) [of j] that f G by auto
  qed
  have "free_ok ?G ?w3"
    using L(2) D fx W1 f chain_cong [of rest "\<lambda>i. ib_next (rindex ?r i)" "\<lambda>i. ib_next (rindex (ram ?w1) i)"]
      chain_cong [of "dfree g" "\<lambda>d. int_at 0 (rblock ?r d)" "\<lambda>d. int_at 0 (rblock (ram ?w1) d)"]
    by (simp add: free_ok_def)
  moreover have "index_ok ?G ?w3"
  proof -
    have "hd_or (ibs ?G) (- 1) = hd_or (ibs g) (- 1)" using num(2) by (cases "ibs g") auto
    moreover have "lfinum (cblk g ?w3) = ibs ?G ! (k + 1)" "k + 1 < length (ibs ?G)" using a(2) G by (simp_all add: nth_append)
    moreover have "lfibdirty (cblk g ?w3) \<and> lfinum (cblk g ?w3) = ibs ?G ! j \<or> rindex ?r (ibs ?G ! j) = idx_block (ibs ?G) (dbs g) j"
      if "j < length (ibs ?G)" for j
    proof (cases "j < length (ibs g)")
      case True
      then show ?thesis using idx G by (simp add: nth_append)
    next
      case False
      then have "j = length (ibs g)" using that G by simp
      then show ?thesis using G by (simp add: nth_append)
    qed
    ultimately show ?thesis using I ld blk3 by (auto simp: index_ok_def)
  qed
  moreover have "data_ok False ?G ?w3" using coreD(4) [OF c] D n by (simp add: data_ok_def)
  ultimately have core: "core False ?G ?w3" using PG coreD(5-7) [OF c] by (simp add: core_def)
  have "others_same g w ?w2" using L(3) A(2) fx D by (simp add: others_same_def)
  then have "same_place g w ?w3" unfolding same_place_def by (auto intro: others_upd_lfl)
  moreover have "at_index ?G (k + 1) ?w3" using blk3 a(2) G by (simp add: at_index_def nth_append)
  moreover have "\<not> lfdbdirty (cblk g ?w3)" using n by simp
  ultimately show ?thesis using that [OF L(1) put refl core] by simp
qed

lemma seek_index_ok:
  assumes "core False g w" "at_index g k w" "k \<le> K" "K = unat (lfpos (cblk g w)) div 8192" "K \<le> length (ibs g)"
    and "K = length (ibs g) \<Longrightarrow> ifree g \<noteq> []" "\<not> lfdbdirty (cblk g w)" "lfibdirty (cblk g w) \<Longrightarrow> k + 1 = length (ibs g)"
  shows "\<exists>w'. seek_index (minor g) w = Some w' \<and>
    (let g' = if K < length (ibs g) then g else grow_index g in core False g' w' \<and> at_index g' K w') \<and>
    same_place g w w' \<and> \<not> lfdbdirty (cblk g w')"
  using assms
proof (induction "K - k" arbitrary: k w)
  case 0
  then have k: "k = K" "K < length (ibs g)" by (auto simp: at_index_def)
  have "\<not> and (lfpos (cblk g w)) (not LF_IMASK) > ib_offset (lfiblock (cblk g w))"
    using offset_less(1) [of k] placed_counts(1) [OF coreD(1) [OF 0(2)]] 0(3,5) k by (simp add: at_index_def idx_block_def)
  then have "seek_index (minor g) w = Some w" by (subst seek_index.simps) (simp add: Let_def)
  then show ?case using 0 k by simp
next
  case (Suc n)
  note c = Suc.prems(1) and at = Suc.prems(2)
  have k: "k < K" "k < length (ibs g)" "k \<le> 1400"
    using Suc.hyps(2) Suc.prems(2) placed_counts(1) [OF coreD(1) [OF c]] by (auto simp: at_index_def)
  have on: "and (lfpos (cblk g w)) (not LF_IMASK) > ib_offset (lfiblock (cblk g w))"
    using offset_less(1) [OF k(3), of "lfpos (cblk g w)"] Suc.prems(2,4) k by (simp add: at_index_def idx_block_def)
  have nx: "ib_next (lfiblock (cblk g w)) = (if k + 1 < length (ibs g) then ibs g ! (k + 1) else - 1)"
    using at by (simp add: at_index_def idx_block_def)
  show ?case
  proof (cases "k + 1 < length (ibs g)")
    case True
    then have nn: "ibs g ! (k + 1) \<noteq> - 1" using placed_index(1) [OF coreD(1) [OF c], of "ibs g ! (k + 1)"] by auto
    have nd: "\<not> lfibdirty (cblk g w)" using Suc.prems(8) True by auto
    obtain u where u: "load_index (minor g) (ibs g ! (k + 1)) w = Some u" "core False g u" "at_index g (k + 1) u" "same_place g w u"
      "\<not> lfibdirty (cblk g u)" "lfdbdirty (cblk g u) = lfdbdirty (cblk g w)"
      using load_index_ok [OF c True] nd by blast
    let ?v = "upd_lfl (minor g) (\<lambda>c. c\<lparr>lfdnum := LF_DNULL\<rparr>) u"
    have ud: "\<not> lfdbdirty (cblk g u)" using u(6) Suc.prems(7) by simp
    note v = forget_data [OF u(2) ud]
    have r: "seek_index (minor g) w = seek_index (minor g) ?v"
      using on nx True nn u(1) by (subst seek_index.simps) (simp add: Let_def)
    have pos: "lfpos (cblk g ?v) = lfpos (cblk g w)" using u(4) by (simp add: same_place_def)
    have "n = K - (k + 1)" using Suc.hyps(2) by simp
    from Suc.hyps(1) [OF this v(1)] have "\<exists>w'. seek_index (minor g) ?v = Some w' \<and>
      (let g' = if K < length (ibs g) then g else grow_index g in core False g' w' \<and> at_index g' K w') \<and>
      same_place g ?v w' \<and> \<not> lfdbdirty (cblk g w')"
      using v u Suc.prems k pos by simp
    then show ?thesis using r same_place_trans [OF same_place_trans [OF u(4) v(2)]] by auto
  next
    case False
    then have K: "k + 1 = length (ibs g)" "K = length (ibs g)" using k Suc.prems(5) by auto
    then obtain i rest where f: "ifree g = i # rest" using Suc.prems(6) by (cases "ifree g") auto
    obtain w1 w2 w3 where W: "lfiballoc w = Some (i, w1)"
      "lfibput (lfinum (cblk g w)) (lfiblock (lfltab (upd_lfl (minor g) (\<lambda>c. c\<lparr>lfiblock := (lfiblock c)\<lparr>ib_next := i\<rparr>\<rparr>) w1) (minor g)))
         (upd_lfl (minor g) (\<lambda>c. c\<lparr>lfiblock := (lfiblock c)\<lparr>ib_next := i\<rparr>\<rparr>) w1) = Some (OK, w2)"
      "w3 = upd_lfl (minor g) (\<lambda>c. c\<lparr>lfinum := i, lfiblock := lfibclear (ib_offset (lfiblock c) + LF_IDATA) (lfiblock c),
         lfibdirty := True, lfdnum := LF_DNULL\<rparr>) w2"
      "core False (grow_index g) w3" "at_index (grow_index g) (k + 1) w3" "same_place g w w3" "\<not> lfdbdirty (cblk g w3)"
      using seek_index_new [OF c at K(1) f Suc.prems(7)] by blast
    have r: "seek_index (minor g) w = seek_index (minor g) w3"
      using on nx False W(1-3) by (subst seek_index.simps) (simp add: Let_def)
    have pos: "lfpos (cblk g w3) = lfpos (cblk g w)" using W(6) by (simp add: same_place_def)
    have o3: "ib_offset (lfiblock (cblk g w3)) = of_nat (8192 * K)"
      using W(5) unfolding at_index_def K(1) K(2) [symmetric] grow_index_fields by (simp only: idx_block_def lfiblk.simps)
    have "\<not> and (lfpos (cblk g w3)) (not LF_IMASK) > ib_offset (lfiblock (cblk g w3))"
      unfolding o3 using offset_less(1) [of K "lfpos (cblk g w3)"] placed_counts(1) [OF coreD(1) [OF c]] K Suc.prems(4) pos by simp
    then have "seek_index (minor g) w3 = Some w3" by (subst seek_index.simps) (simp add: Let_def)
    then show ?thesis using r W K by simp
  qed
qed

end
