(* ===== verification/LfsData.thy ===== *)
theory LfsData
  imports LfsSeek
begin

text \<open>The data block for a position, and \<open>lfsetup\<close> as a whole.\<close>

definition grow_data :: "layout \<Rightarrow> layout" where
  "grow_data g = g\<lparr>dbs := dbs g @ [hd (dfree g)], blks := blks g @ [replicate 512 0x2b], dfree := tl (dfree g)\<rparr>"

lemma grow_data_fields [simp]:
  "nsect (grow_data g) = nsect g" "minor (grow_data g) = minor g" "entry (grow_data g) = entry g"
  "ibs (grow_data g) = ibs g" "ifree (grow_data g) = ifree g" "oi (grow_data g) = oi g" "od (grow_data g) = od g"
  "dbs (grow_data g) = dbs g @ [hd (dfree g)]" "blks (grow_data g) = blks g @ [replicate 512 0x2b]" "dfree (grow_data g) = tl (dfree g)"
  by (simp_all add: grow_data_def)

lemma others_grow_data [simp]: "others_same (grow_data g) w w' = others_same g w w'" "same_place (grow_data g) w w' = same_place g w w'"
  by (simp_all add: others_same_def same_place_def)

lemma placed_grow_data: "placed_ok g \<Longrightarrow> dfree g \<noteq> [] \<Longrightarrow> placed_ok (grow_data g)"
  by (cases "dfree g") (auto simp: placed_ok_def)

lemma block_position: "16 * (p div 8192) + p mod 8192 div 512 = p div 512" "p mod 8192 div 512 < 16" for p :: nat
proof -
  have "p mod (512 * 16) = 512 * (p div 512 mod 16) + p mod 512" by (rule mod_mult2_eq)
  then have m: "p mod 8192 div 512 = p div 512 mod 16" by simp
  moreover have "p div 8192 = p div 512 div 16" by (simp add: div_mult2_eq)
  ultimately show "16 * (p div 8192) + p mod 8192 div 512 = p div 512" by simp
  show "p mod 8192 div 512 < 16" using m by simp
qed

lemma idx_block_slot:
  "j < 16 \<Longrightarrow> ib_dba (idx_block is ds k) ! j = (if 16 * k + j < length ds then ds ! (16 * k + j) else - 1)"
  by (simp add: idx_block_def)

lemma idx_block_data_snoc:
  "length ds = 16 * k + j \<Longrightarrow> j < 16 \<Longrightarrow>
     idx_block is (ds @ [d]) k = (idx_block is ds k)\<lparr>ib_dba := (ib_dba (idx_block is ds k))[j := d]\<rparr>"
  "length ds = 16 * k + j \<Longrightarrow> j < 16 \<Longrightarrow> k' \<noteq> k \<Longrightarrow> idx_block is (ds @ [d]) k' = idx_block is ds k'"
proof -
  assume a: "length ds = 16 * k + j" "j < 16"
  have "map (\<lambda>j. if 16 * k + j < length (ds @ [d]) then (ds @ [d]) ! (16 * k + j) else - 1) [0..<16] =
    (map (\<lambda>j. if 16 * k + j < length ds then ds ! (16 * k + j) else - 1) [0..<16])[j := d]"
    using a by (intro nth_equalityI) (auto simp: nth_list_update nth_append)
  then show "idx_block is (ds @ [d]) k = (idx_block is ds k)\<lparr>ib_dba := (ib_dba (idx_block is ds k))[j := d]\<rparr>"
    by (simp add: idx_block_def)
  assume "k' \<noteq> k"
  then have "map (\<lambda>j. if 16 * k' + j < length (ds @ [d]) then (ds @ [d]) ! (16 * k' + j) else - 1) [0..<16] =
    map (\<lambda>j. if 16 * k' + j < length ds then ds ! (16 * k' + j) else - 1) [0..<16]"
    using a by (intro nth_equalityI) (auto simp: nth_append)
  then show "idx_block is (ds @ [d]) k' = idx_block is ds k'" by (simp add: idx_block_def)
qed

text \<open>The state after \<open>lfdballoc\<close>.\<close>

definition dballoced :: "fs \<Rightarrow> int \<Rightarrow> fs" where
  "dballoced w next =
     (let d = (lf_dir w)\<lparr>lfd_dfree := next\<rparr> in w\<lparr>lf_dir := d, ram := put_block 0 (dir_bytes d) (ram w), lf_dirdirty := False\<rparr>)"

lemma dballoced_fields [simp]:
  "fk (dballoced w n) = fk w" "lf_mutex (dballoced w n) = lf_mutex w" "lfltab (dballoced w n) = lfltab w"
  "lf_dirpresent (dballoced w n) = lf_dirpresent w" "lfd_files (lf_dir (dballoced w n)) = lfd_files (lf_dir w)"
  "lfd_ifree (lf_dir (dballoced w n)) = lfd_ifree (lf_dir w)" "lfd_nfiles (lf_dir (dballoced w n)) = lfd_nfiles (lf_dir w)"
  "lfd_dfree (lf_dir (dballoced w n)) = n"
  by (simp_all add: dballoced_def Let_def)

lemma dballoced_blocks:
  assumes "placed_ok g"
  shows "i \<in> set (ibs g) \<union> set (ifree g) \<union> oi g \<Longrightarrow> rindex (ram (dballoced w n)) i = rindex (ram w) i"
    "d \<in> set (dbs g) \<union> set (dfree g) \<union> od g \<Longrightarrow> rblock (ram (dballoced w n)) d = rblock (ram w) d"
  using dir_block_apart [OF assms] by (simp_all add: dballoced_def Let_def)

lemma lfdballoc_ok:
  assumes "core x g w" "dfree g = d # ds"
  defines "w' \<equiv> dballoced w (int_at 0 (rblock (ram w) d))"
  shows "lfdballoc w = Some (d, replicate 512 0x2b, w')" "free_ok (grow_data g) w'" "others_same g w w'"
proof -
  have P: "placed_ok g" using assms(1) by (rule coreD)
  note A = dballoced_blocks [OF P, of _ w "int_at 0 (rblock (ram w) d)"]
  have d: "0 < d" "d < 200" using placed_data [OF P, of d] assms(2) by simp_all
  have F: "lfd_dfree (lf_dir w) = d" "chain (\<lambda>d. int_at 0 (rblock (ram w) d)) (int_at 0 (rblock (ram w) d)) ds"
    using coreD(2) [OF assms(1)] assms(2) by (simp_all add: free_ok_def)
  show "lfdballoc w = Some (d, replicate 512 0x2b, w')"
    using d F(1) by (simp add: lfdballoc_def ramread_ok write_dir_ok Let_def w'_def dballoced_def upd_dir_def)
  show "free_ok (grow_data g) w'"
    using F(2) A coreD(2) [OF assms(1)] assms(2)
      chain_cong [of "ifree g" "\<lambda>i. ib_next (rindex (ram w') i)" "\<lambda>i. ib_next (rindex (ram w) i)"]
      chain_cong [of ds "\<lambda>d. int_at 0 (rblock (ram w') d)" "\<lambda>d. int_at 0 (rblock (ram w) d)"]
    by (simp add: free_ok_def w'_def)
  show "others_same g w w'" using A by (simp add: others_same_def w'_def)
qed

text \<open>The buffer holds block \<open>j\<close> of the file and the byte pointer is at the position.\<close>

definition at_data :: "layout \<Rightarrow> nat \<Rightarrow> fs \<Rightarrow> bool" where
  "at_data g j w \<longleftrightarrow> j < length (dbs g) \<and> lfdnum (cblk g w) = dbs g ! j \<and> lfdblock (cblk g w) = blks g ! j \<and>
     lfbyte (cblk g w) = unat (lfpos (cblk g w)) mod 512"

lemma load_data_old:
  assumes c: "core False g w" and a: "at_index g K w" and p: "K = unat (lfpos (cblk g w)) div 8192" "j = unat (lfpos (cblk g w)) div 512"
    and j: "j < length (dbs g)" and n: "\<not> lfdbdirty (cblk g w)"
  obtains w' where "load_data (minor g) w = Some w'" "core False g w'" "at_data g j w'" "same_place g w w'"
proof -
  let ?p = "unat (lfpos (cblk g w))" and ?d = "dbs g ! j"
  have P: "placed_ok g" using c by (rule coreD)
  have slot: "ib_dba (lfiblock (cblk g w)) ! (?p mod 8192 div 512) = ?d"
    using a p j idx_block_slot [OF block_position(2) [of ?p]] block_position(1) [of ?p] by (simp add: at_index_def)
  have d: "?d \<noteq> - 1" "0 \<le> ?d" "?d < 200" using placed_data [OF P, of ?d] j by simp_all
  have r: "rblock (ram w) ?d = blks g ! j" using coreD(4) [OF c] j n by (auto simp: data_ok_def)
  let ?w = "if ?d \<noteq> lfdnum (cblk g w) then upd_lfl (minor g) (\<lambda>c. c\<lparr>lfdblock := blks g ! j, lfdbdirty := False\<rparr>) w else w"
  let ?w' = "upd_lfl (minor g) (\<lambda>c. c\<lparr>lfdnum := ?d, lfbyte := unat (and (lfpos c) LF_DMASK)\<rparr>) ?w"
  have eq: "load_data (minor g) w = Some ?w'"
    using slot d r by (simp add: load_data_def Let_def position_parts ramread_ok)
  have b: "lfdblock (cblk g ?w') = blks g ! j"
  proof (cases "?d = lfdnum (cblk g w)")
    case True
    have di: "distinct (dbs g)" using P by (simp add: placed_ok_def)
    obtain j' where "j' < length (dbs g)" "lfdnum (cblk g w) = dbs g ! j'" "lfdblock (cblk g w) = blks g ! j'"
      using coreD(4) [OF c] True d(1) by (auto simp: data_ok_def)
    then show ?thesis using True di j by (simp add: nth_eq_iff_index_eq)
  qed simp
  have "data_ok False g ?w'" using coreD(4) [OF c] b n j by (auto simp: data_ok_def)
  then have "core False g ?w'" using c by (simp add: core_def free_ok_def index_ok_def)
  moreover have "at_data g j ?w'" using b j by (simp add: at_data_def position_parts)
  moreover have "same_place g w ?w'" unfolding same_place_def by (auto intro!: others_upd_lfl)
  ultimately show ?thesis using that eq by blast
qed

lemma load_data_new:
  assumes c: "core False g w" and a: "at_index g K w" and p: "K = unat (lfpos (cblk g w)) div 8192" "j = unat (lfpos (cblk g w)) div 512"
    and j: "j = length (dbs g)" and f: "dfree g = d # ds" and n: "\<not> lfdbdirty (cblk g w)"
  obtains w' where "load_data (minor g) w = Some w'" "core True (grow_data g) w'" "at_data (grow_data g) j w'" "same_place g w w'"
proof -
  let ?p = "unat (lfpos (cblk g w))" and ?G = "grow_data g" and ?s = "unat (lfpos (cblk g w)) mod 8192 div 512"
  have P: "placed_ok g" and PG: "placed_ok ?G" using coreD(1) [OF c] placed_grow_data f by auto
  have G: "dbs ?G = dbs g @ [d]" "dfree ?G = ds" using f by simp_all
  note I = coreD(3) [OF c] and at = a [unfolded at_index_def] and pos = block_position [of ?p]
  have js: "length (dbs g) = 16 * K + ?s" using p j pos(1) by simp
  have slot: "ib_dba (lfiblock (cblk g w)) ! ?s = - 1"
    using at idx_block_slot [OF pos(2), of "ibs g" "dbs g" K] js by simp
  note L = lfdballoc_ok [OF c f]
  let ?w1 = "dballoced w (int_at 0 (rblock (ram w) d))"
  note D = dballoced_blocks [OF P, of _ w "int_at 0 (rblock (ram w) d)"]
  let ?u = "upd_lfl (minor g) (\<lambda>c. c\<lparr>lfdblock := replicate 512 0x2b,
      lfiblock := (lfiblock c)\<lparr>ib_dba := (ib_dba (lfiblock c))[?s := d]\<rparr>, lfibdirty := True\<rparr>) ?w1"
  let ?w' = "upd_lfl (minor g) (\<lambda>c. c\<lparr>lfdnum := d, lfbyte := unat (and (lfpos c) LF_DMASK)\<rparr>) ?u"
  have eq: "load_data (minor g) w = Some ?w'"
    using slot L(1) by (simp add: load_data_def Let_def position_parts)
  have ib: "lfiblock (cblk g ?w') = idx_block (ibs g) (dbs ?G) K"
    using at idx_block_data_snoc(1) [OF js pos(2)] G by simp
  have "index_ok ?G ?w'"
  proof -
    have "length (dbs ?G) \<le> 16 * length (ibs g)" using js pos(2) at G by simp
    moreover have "lfinum (cblk g w) = ibs g ! k \<or> rindex (ram ?w1) (ibs g ! k) = idx_block (ibs g) (dbs ?G) k"
      if k: "k < length (ibs g)" for k
    proof (cases "k = K")
      case False
      have "distinct (ibs g)" using P by (simp add: placed_ok_def)
      then have "ibs g ! k \<noteq> lfinum (cblk g w)" using at False k by (simp add: nth_eq_iff_index_eq)
      then have "rindex (ram w) (ibs g ! k) = idx_block (ibs g) (dbs g) k" using I k by (auto simp: index_ok_def)
      then show ?thesis using D(1) [of "ibs g ! k"] k idx_block_data_snoc(2) [OF js pos(2) False] G by simp
    qed (use at in simp)
    ultimately show ?thesis using I ib at by (auto simp: index_ok_def)
  qed
  moreover have "free_ok ?G ?w'" using L(2) by (simp add: free_ok_def)
  moreover have "data_ok True ?G ?w'"
  proof -
    have "lfdnum (cblk g ?w') = dbs ?G ! k \<or> rblock (ram ?w') (dbs ?G ! k) = blks ?G ! k" if k: "k < length (dbs ?G)" for k
    proof (cases "k < length (dbs g)")
      case True
      then have "rblock (ram w) (dbs g ! k) = blks g ! k" using coreD(4) [OF c] n by (auto simp: data_ok_def)
      moreover have "rblock (ram ?w1) (dbs g ! k) = rblock (ram w) (dbs g ! k)" using True by (intro D(2)) simp
      ultimately show ?thesis using True G coreD(4) [OF c] by (simp add: nth_append data_ok_def)
    next
      case False
      then show ?thesis using k G by (simp add: nth_append)
    qed
    moreover have "dbs ?G ! length (dbs g) = d" "blks ?G ! length (dbs g) = replicate 512 0x2b"
      using coreD(4) [OF c] G by (simp_all add: nth_append data_ok_def)
    ultimately show ?thesis using coreD(4) [OF c] n G by (auto simp: data_ok_def)
  qed
  ultimately have "core True ?G ?w'" using PG coreD(5-7) [OF c] by (simp add: core_def)
  moreover have "at_data ?G j ?w'" using j G coreD(4) [OF c] by (simp add: at_data_def position_parts nth_append data_ok_def)
  moreover have "same_place g w ?w'" using L(3) unfolding same_place_def by (auto intro!: others_upd_lfl)
  ultimately show ?thesis using that eq by blast
qed

subsection \<open>The whole of \<open>lfsetup\<close>\<close>

text \<open>The file after \<open>lfsetup\<close> for position \<open>p\<close>: at its end it may have grown by a block.\<close>

definition grown :: "nat \<Rightarrow> layout \<Rightarrow> layout" where
  "grown p g =
     (let g = (if p div 8192 < length (ibs g) then g else grow_index g)
      in if p div 512 < length (dbs g) then g else grow_data g)"

text \<open>There are free blocks for what position \<open>p\<close> needs.\<close>

definition room_for :: "nat \<Rightarrow> layout \<Rightarrow> bool" where
  "room_for p g \<longleftrightarrow> (p div 8192 < length (ibs g) \<or> ifree g \<noteq> []) \<and> (p div 512 < length (dbs g) \<or> dfree g \<noteq> [])"

lemma setup_blocks_ok:
  assumes c: "core False g w" and p: "p = unat (lfpos (cblk g w))" "p div 8192 \<le> length (ibs g)" "p div 512 \<le> length (dbs g)"
    and e: "ibs g = [] \<Longrightarrow> p = 0" and r: "room_for p g"
  obtains w' where "setup_blocks (minor g) w = Some w'" "core (p div 512 = length (dbs g)) (grown p g) w'"
    "at_data (grown p g) (p div 512) w'" "same_place g w w'"
proof -
  let ?m = "minor g"
  have "\<exists>w1. (if lfibdirty (cblk g w) \<or> lfdbdirty (cblk g w) then map_option snd (lfflush ?m w) else Some w) = Some w1 \<and>
    core False g w1 \<and> same_place g w w1 \<and> \<not> lfibdirty (cblk g w1) \<and> \<not> lfdbdirty (cblk g w1)"
  proof (cases "lfibdirty (cblk g w) \<or> lfdbdirty (cblk g w)")
    case True
    obtain w' where "lfflush ?m w = Some (OK, w')" "core False g w'" "others_same g w w'" "lf_dir w' = lf_dir w"
      "\<not> lfibdirty (cblk g w')" "\<not> lfdbdirty (cblk g w')" "lfpos (cblk g w') = lfpos (cblk g w)"
      using lfflush_ok [OF c] by blast
    then show ?thesis using True by (auto simp: same_place_def)
  qed (use c in auto)
  then obtain w1 where 1: "(if lfibdirty (cblk g w) \<or> lfdbdirty (cblk g w) then map_option snd (lfflush ?m w) else Some w) = Some w1"
    "core False g w1" "same_place g w w1" "\<not> lfibdirty (cblk g w1)" "\<not> lfdbdirty (cblk g w1)" by blast
  let ?K = "p div 8192"
  have p1: "unat (lfpos (cblk g w1)) = p" using 1(3) p(1) by (simp add: same_place_def)
  have "\<exists>w2 w3. first_index ?m w1 = Some w2 \<and> seek_index ?m w2 = Some w3 \<and> same_place g w1 w3 \<and> \<not> lfdbdirty (cblk g w3) \<and>
    (let g' = if ?K < length (ibs g) then g else grow_index g in core False g' w3 \<and> at_index g' ?K w3)"
  proof (cases "ibs g = []")
    case True
    then have f: "ifree g \<noteq> []" "?K = 0" using r e by (simp_all add: room_for_def)
    obtain w2 where 2: "first_index ?m w1 = Some w2" "core False (grow_index g) w2" "at_index (grow_index g) 0 w2" "same_place g w1 w2"
      "lfdbdirty (cblk g w2) = lfdbdirty (cblk g w1)"
      using first_index_new [OF 1(2) True f(1)] by blast
    have K: "0 = unat (lfpos (cblk (grow_index g) w2)) div 8192" using 2(4) p1 f(2) by (simp add: same_place_def)
    obtain w3 where 3: "seek_index ?m w2 = Some w3" "core False (grow_index g) w3 \<and> at_index (grow_index g) 0 w3"
      "same_place g w2 w3" "\<not> lfdbdirty (cblk g w3)"
      using seek_index_ok [OF 2(2,3) le_refl K] 2(5) 1(5) True by (auto simp: Let_def)
    show ?thesis using 2(1) 3 same_place_trans [OF 2(4) 3(3)] True f(2) by simp
  next
    case False
    obtain w2 k where 2: "first_index ?m w1 = Some w2" "core False g w2" "at_index g k w2" "k \<le> unat (lfpos (cblk g w1)) div 8192"
      "same_place g w1 w2" "\<not> lfibdirty (cblk g w2)" "lfdbdirty (cblk g w2) = lfdbdirty (cblk g w1)"
      using first_index_old [OF 1(2) False 1(4)] by blast
    have K: "?K = unat (lfpos (cblk g w2)) div 8192" using 2(5) p1 by (simp add: same_place_def)
    have "?K = length (ibs g) \<Longrightarrow> ifree g \<noteq> []" using r by (simp add: room_for_def)
    then obtain w3 where 3: "seek_index ?m w2 = Some w3"
      "let g' = if ?K < length (ibs g) then g else grow_index g in core False g' w3 \<and> at_index g' ?K w3"
      "same_place g w2 w3" "\<not> lfdbdirty (cblk g w3)"
      using seek_index_ok [OF 2(2,3) _ K p(2)] 2(4,6,7) 1(5) p1 by auto
    show ?thesis using 2(1) 3 same_place_trans [OF 2(5) 3(3)] by blast
  qed
  then obtain w2 w3 where 2: "first_index ?m w1 = Some w2" "seek_index ?m w2 = Some w3" "same_place g w1 w3" "\<not> lfdbdirty (cblk g w3)"
    and 3: "let g' = if ?K < length (ibs g) then g else grow_index g in core False g' w3 \<and> at_index g' ?K w3" by blast
  define h where "h = (if ?K < length (ibs g) then g else grow_index g)"
  have h: "core False h w3" "at_index h ?K w3" "dbs h = dbs g" "dfree h = dfree g" "minor h = ?m" "same_place h = same_place g"
    using 3 by (auto simp: h_def Let_def fun_eq_iff)
  have p3: "p = unat (lfpos (cblk h w3))" using 2(3) p1 h(5) by (simp add: same_place_def)
  have run: "setup_blocks ?m w = load_data ?m w3" using 1(1) 2(1,2) by (simp add: setup_blocks_def Let_def)
  have s3: "same_place g w w3" using 1(3) 2(3) same_place_trans by blast
  show ?thesis
  proof (cases "p div 512 < length (dbs g)")
    case True
    obtain w' where "load_data ?m w3 = Some w'" "core False h w'" "at_data h (p div 512) w'" "same_place g w3 w'"
      using load_data_old [OF h(1,2), of "p div 512"] p3 h(3-6) 2(4) True by (metis (no_types))
    moreover have "grown p g = h" using True h(3) by (simp add: grown_def h_def Let_def)
    ultimately show ?thesis using that run True s3 same_place_trans by simp
  next
    case False
    then have j: "p div 512 = length (dbs h)" using p(3) h(3) by simp
    have "dfree h \<noteq> []" using r False h(4) by (auto simp: room_for_def)
    then obtain d ds where d: "dfree h = d # ds" by (meson list.exhaust)
    obtain w' where "load_data ?m w3 = Some w'" "core True (grow_data h) w'" "at_data (grow_data h) (p div 512) w'" "same_place g w3 w'"
      using load_data_new [OF h(1,2) _ _ j d] p3 h(5,6) 2(4) by (metis (no_types))
    moreover have "grown p g = grow_data h" using False h(3) by (simp add: grown_def h_def Let_def)
    ultimately show ?thesis using that run j h(3) s3 same_place_trans by simp
  qed
qed

end
