(* ===== verification/LfsFile.thy ===== *)
theory LfsFile
  imports LfsData
begin

text \<open>
  An open file is a sequence of bytes with a position: what \<open>lflputc\<close>, \<open>lflgetc\<close> and \<open>lflseek\<close> do to it.
\<close>

subsection \<open>Blocks of equal length\<close>

lemma concat_update:
  "(\<forall>b \<in> set xs. length b = c) \<Longrightarrow> j < length xs \<Longrightarrow> q < c \<Longrightarrow>
     concat (xs[j := (xs ! j)[q := v]]) = (concat xs)[c * j + q := v]"
proof (induction xs arbitrary: j)
  case (Cons x xs)
  show ?case
  proof (cases j)
    case 0
    then show ?thesis using Cons.prems by (simp add: list_update_append)
  next
    case (Suc i)
    then show ?thesis using Cons by (simp add: list_update_append)
  qed
qed simp

lemma concat_nth: "(\<forall>b \<in> set xs. length b = c) \<Longrightarrow> j < length xs \<Longrightarrow> q < c \<Longrightarrow> concat xs ! (c * j + q) = xs ! j ! q"
proof (induction xs arbitrary: j)
  case (Cons x xs)
  then show ?case by (cases j) (simp_all add: nth_append)
qed simp

lemma length_concat_blocks: "(\<forall>b \<in> set xs. length b = c) \<Longrightarrow> length (concat xs) = c * length xs"
  by (induction xs) simp_all

lemma blocks_for: "(n + k) div Suc k = (if n mod Suc k = 0 then n div Suc k else n div Suc k + 1)"
proof -
  have "n = Suc k * (n div Suc k) + n mod Suc k" by (simp only: mult_div_mod_eq)
  then have e: "n + k = (n mod Suc k + k) + Suc k * (n div Suc k)" by linarith
  have "(n + k) div Suc k = ((n mod Suc k + k) + Suc k * (n div Suc k)) div Suc k" by (subst e) (rule refl)
  also have "\<dots> = n div Suc k + (n mod Suc k + k) div Suc k" by (rule div_mult_self2) simp
  also have "(n mod Suc k + k) div Suc k = (if n mod Suc k = 0 then 0 else 1)"
  proof (cases "n mod Suc k")
    case (Suc r)
    then have "r < Suc k" by (metis Suc_lessD mod_less_divisor zero_less_Suc)
    then have "(r + Suc k) div Suc k = 1" by (simp add: div_add_self2 del: add_Suc_right)
    then show ?thesis using Suc by simp
  qed simp
  finally show ?thesis by simp
qed

lemma blocks_for_512: "(n + 511) div 512 = (if n mod 512 = 0 then n div 512 else n div 512 + 1)" for n :: nat
  using blocks_for [of n 511] by simp

lemma blocks_for_8192: "(n + 8191) div 8192 = (if n mod 8192 = 0 then n div 8192 else n div 8192 + 1)" for n :: nat
  using blocks_for [of n 8191] by simp

subsection \<open>The abstract file\<close>

definition file_size :: "layout \<Rightarrow> fs \<Rightarrow> nat" where "file_size g w = unat (ld_size (dent g w))"
definition file_pos :: "layout \<Rightarrow> fs \<Rightarrow> nat" where "file_pos g w = unat (lfpos (cblk g w))"

definition contents :: "layout \<Rightarrow> fs \<Rightarrow> u8 list" where
  "contents g w = take (file_size g w) (concat (blks g))"

definition file_ok :: "layout \<Rightarrow> fs \<Rightarrow> bool" where
  "file_ok g w \<longleftrightarrow> core False g w \<and> length (dbs g) = (file_size g w + 511) div 512 \<and>
     length (ibs g) = (file_size g w + 8191) div 8192 \<and> file_pos g w \<le> file_size g w \<and>
     (lfbyte (cblk g w) < 512 \<longrightarrow> at_data g (file_pos g w div 512) w)"

definition locks_idle :: "layout \<Rightarrow> fs \<Rightarrow> bool" where
  "locks_idle g w \<longleftrightarrow> sem_idle (lf_mutex w) (fk w) \<and> sem_idle (lfmutex (cblk g w)) (fk w) \<and> lf_mutex w \<noteq> lfmutex (cblk g w)"

text \<open>Blocks enough for a file of \<open>n\<close> bytes, with those that are free.\<close>

definition enough :: "nat \<Rightarrow> layout \<Rightarrow> bool" where
  "enough n g \<longleftrightarrow> (n + 511) div 512 \<le> length (dbs g) + length (dfree g) \<and> (n + 8191) div 8192 \<le> length (ibs g) + length (ifree g)"

lemma enough_mono: "m \<le> n \<Longrightarrow> enough n g \<Longrightarrow> enough m g"
  using div_le_mono [of "m + 511" "n + 511" 512] div_le_mono [of "m + 8191" "n + 8191" 8192] by (simp add: enough_def)

definition same_file :: "layout \<Rightarrow> layout \<Rightarrow> bool" where
  "same_file g g' \<longleftrightarrow> nsect g' = nsect g \<and> minor g' = minor g \<and> entry g' = entry g \<and> oi g' = oi g \<and> od g' = od g \<and>
     set (ibs g') \<union> set (ifree g') = set (ibs g) \<union> set (ifree g) \<and> set (dbs g') \<union> set (dfree g') = set (dbs g) \<union> set (dfree g) \<and>
     length (ibs g') + length (ifree g') = length (ibs g) + length (ifree g) \<and>
     length (dbs g') + length (dfree g') = length (dbs g) + length (dfree g)"

lemma same_file_refl [simp]: "same_file g g"
  by (simp add: same_file_def)

lemma same_file_trans [trans]: "same_file g g' \<Longrightarrow> same_file g' g'' \<Longrightarrow> same_file g g''"
  by (simp add: same_file_def)

lemma same_file_others: "same_file g g' \<Longrightarrow> others_same g' = others_same g"
  by (simp add: same_file_def others_same_def fun_eq_iff)

lemma same_file_views: "same_file g g' \<Longrightarrow> file_size g' = file_size g" "same_file g g' \<Longrightarrow> file_pos g' = file_pos g"
  "same_file g g' \<Longrightarrow> locks_idle g' = locks_idle g" "same_file g g' \<Longrightarrow> enough n g' = enough n g"
  by (simp_all add: same_file_def file_size_def file_pos_def locks_idle_def enough_def fun_eq_iff)

lemma same_file_grown: "room_for p g \<Longrightarrow> same_file g (grown p g)"
proof -
  assume r: "room_for p g"
  let ?h = "if p div 8192 < length (ibs g) then g else grow_index g"
  have 1: "same_file g ?h" using r by (cases "ifree g") (auto simp: same_file_def room_for_def)
  have 2: "same_file h (if p div 512 < length (dbs h) then h else grow_data h)" if "dfree h = dfree g" "dbs h = dbs g" for h
    using r that by (cases "dfree g") (auto simp: same_file_def room_for_def)
  have "same_file ?h (if p div 512 < length (dbs ?h) then ?h else grow_data ?h)" by (rule 2) simp_all
  then show ?thesis using same_file_trans [OF 1] unfolding grown_def Let_def by blast
qed

lemma file_okD:
  assumes "file_ok g w"
  shows "core False g w" "length (dbs g) = (file_size g w + 511) div 512" "length (ibs g) = (file_size g w + 8191) div 8192"
    "file_pos g w \<le> file_size g w" "lfbyte (cblk g w) < 512 \<Longrightarrow> at_data g (file_pos g w div 512) w"
    "file_size g w \<le> 512 * length (dbs g)" "length (concat (blks g)) = 512 * length (dbs g)" "file_size g w \<le> 102400"
proof -
  show c: "core False g w" "length (dbs g) = (file_size g w + 511) div 512" "length (ibs g) = (file_size g w + 8191) div 8192"
    "file_pos g w \<le> file_size g w" "lfbyte (cblk g w) < 512 \<Longrightarrow> at_data g (file_pos g w div 512) w"
    using assms by (auto simp: file_ok_def)
  then show n: "file_size g w \<le> 512 * length (dbs g)" by linarith
  show "length (concat (blks g)) = 512 * length (dbs g)"
    using length_concat_blocks [of "blks g" 512] coreD(4) [OF c(1)] by (simp add: data_ok_def)
  show "file_size g w \<le> 102400" using n placed_counts(2) [OF coreD(1) [OF c(1)]] by linarith
qed

lemma length_contents: "file_ok g w \<Longrightarrow> length (contents g w) = file_size g w"
  using file_okD(6,7) [of g w] by (simp add: contents_def)

subsection \<open>The blocks for the position are there\<close>

lemma enough_room:
  assumes "file_ok g w" "p \<le> file_size g w" "p < n" "enough n g"
  shows "room_for p g"
proof -
  have "p div 8192 + 1 \<le> (n + 8191) div 8192" "p div 512 + 1 \<le> (n + 511) div 512" using assms(3) by linarith+
  then show ?thesis using assms(4) by (auto simp: enough_def room_for_def)
qed

lemma position_within:
  assumes "file_ok g w" "p \<le> file_size g w"
  shows "p div 8192 \<le> length (ibs g)" "p div 512 \<le> length (dbs g)" "ibs g = [] \<Longrightarrow> p = 0"
  using file_okD(2,3) [OF assms(1)] assms(2) by (simp_all add: div_le_mono)

text \<open>After \<open>lfsetup\<close> for position \<open>p\<close> the numbers of blocks are right for a file that reaches \<open>p\<close>.\<close>

lemma grown_lengths:
  assumes f: "file_ok g w" and p: "p \<le> file_size g w"
  shows "length (dbs (grown p g)) = (max (file_size g w) (p + 1) + 511) div 512"
    "length (ibs (grown p g)) = (max (file_size g w) (p + 1) + 8191) div 8192"
    "p < file_size g w \<Longrightarrow> grown p g = g" "p div 512 < length (dbs g) \<Longrightarrow> grown p g = g"
    "p div 512 < length (dbs (grown p g))"
proof -
  let ?n = "file_size g w"
  note L = file_okD(2,3) [OF f, unfolded blocks_for_512 blocks_for_8192]
  have within: "grown p g = g" if "p < ?n"
  proof -
    have "p div 512 < (?n + 511) div 512" "p div 8192 < (?n + 8191) div 8192" using that by linarith+
    then show ?thesis using file_okD(2,3) [OF f] by (simp add: grown_def Let_def)
  qed
  then show "p < ?n \<Longrightarrow> grown p g = g" .
  have m: "p mod 8192 = 0 \<Longrightarrow> p mod 512 = 0" using mod_mod_cancel [of 512 8192 p] by simp
  have *: "length (dbs (grown p g)) = (max ?n (p + 1) + 511) div 512 \<and> length (ibs (grown p g)) = (max ?n (p + 1) + 8191) div 8192 \<and>
    (p div 512 < length (dbs g) \<longrightarrow> grown p g = g)"
  proof (cases "p < ?n")
    case True
    then have "max ?n (p + 1) = ?n" by simp
    then show ?thesis using within [OF True] file_okD(2,3) [OF f] by simp
  next
    case False
    then have e: "p = ?n" using p by simp
    have c: "(p + 1 + 511) div 512 = p div 512 + 1" "(p + 1 + 8191) div 8192 = p div 8192 + 1" by linarith+
    have "p div 512 < length (dbs g) \<longleftrightarrow> p mod 512 \<noteq> 0" "p div 8192 < length (ibs g) \<longleftrightarrow> p mod 8192 \<noteq> 0"
      using L unfolding e by auto
    then show ?thesis using c e L m by (auto simp: grown_def Let_def max_def split: if_splits)
  qed
  then show "length (dbs (grown p g)) = (max ?n (p + 1) + 511) div 512" "length (ibs (grown p g)) = (max ?n (p + 1) + 8191) div 8192"
    "p div 512 < length (dbs g) \<Longrightarrow> grown p g = g" by blast+
  have "p div 512 < (max ?n (p + 1) + 511) div 512" by linarith
  then show "p div 512 < length (dbs (grown p g))" using * by simp
qed

lemma grown_blocks: "\<exists>x. blks (grown p g) = blks g @ x"
  by (simp add: grown_def Let_def)

lemma grown_contents:
  assumes "file_ok g w"
  shows "take (file_size g w) (concat (blks (grown p g))) = contents g w"
proof -
  obtain x where "blks (grown p g) = blks g @ x" using grown_blocks by blast
  then show ?thesis using file_okD(6,7) [OF assms] by (simp add: contents_def)
qed

subsection \<open>One byte written\<close>

text \<open>The byte goes into the buffer, which is now marked; the file need not have been marked before.\<close>

definition put_byte :: "layout \<Rightarrow> nat \<Rightarrow> u8 \<Rightarrow> layout" where
  "put_byte g p ch = g\<lparr>blks := (blks g)[p div 512 := (blks g ! (p div 512))[p mod 512 := ch]]\<rparr>"

lemma put_byte_fields [simp]:
  "nsect (put_byte g p ch) = nsect g" "minor (put_byte g p ch) = minor g" "entry (put_byte g p ch) = entry g"
  "ibs (put_byte g p ch) = ibs g" "ifree (put_byte g p ch) = ifree g" "dbs (put_byte g p ch) = dbs g" "dfree (put_byte g p ch) = dfree g"
  "oi (put_byte g p ch) = oi g" "od (put_byte g p ch) = od g"
  "blks (put_byte g p ch) = (blks g)[p div 512 := (blks g ! (p div 512))[p mod 512 := ch]]"
  by (simp_all add: put_byte_def)

definition byte_put :: "layout \<Rightarrow> u8 \<Rightarrow> fs \<Rightarrow> fs" where
  "byte_put g ch w = upd_lfl (minor g) (\<lambda>c. c\<lparr>lfdblock := (lfdblock c)[lfbyte c := ch], lfbyte := lfbyte c + 1,
     lfpos := lfpos c + 1, lfdbdirty := True\<rparr>) w"

lemma byte_put_core:
  assumes c: "core x g w" and a: "at_data g (p div 512) w" and p: "p = file_pos g w"
  shows "core False (put_byte g p ch) (byte_put g ch w)"
proof -
  let ?j = "p div 512" and ?w = "byte_put g ch w"
  have d: "distinct (dbs g)" using coreD(1) [OF c] by (simp add: placed_ok_def)
  have D: "length (blks g) = length (dbs g)" "\<forall>b \<in> set (blks g). length b = 512" using coreD(4) [OF c] by (auto simp: data_ok_def)
  have at: "?j < length (dbs g)" "lfdnum (cblk g w) = dbs g ! ?j" "lfdblock (cblk g w) = blks g ! ?j" "lfbyte (cblk g w) = p mod 512"
    using a p by (auto simp: at_data_def file_pos_def)
  have b: "length (blks g ! ?j) = 512" using D at(1) by simp
  have "data_ok False (put_byte g p ch) ?w"
  proof -
    have "\<forall>b \<in> set ((blks g)[?j := (blks g ! ?j)[p mod 512 := ch]]). length b = 512"
      using D(2) b by (auto dest!: set_update_subset_insert [THEN subsetD])
    moreover have "lfdnum (cblk g w) = dbs g ! k \<or> rblock (ram w) (dbs g ! k) = (blks g)[?j := (blks g ! ?j)[p mod 512 := ch]] ! k"
      if k: "k < length (dbs g)" for k
    proof (cases "k = ?j")
      case False
      then have "dbs g ! k \<noteq> lfdnum (cblk g w)" using at(1,2) d k by (simp add: nth_eq_iff_index_eq)
      then have "rblock (ram w) (dbs g ! k) = blks g ! k" using coreD(4) [OF c] k by (auto simp: data_ok_def)
      then show ?thesis using False by simp
    qed (use at in simp)
    ultimately show ?thesis using D(1) at b by (auto simp: data_ok_def byte_put_def)
  qed
  moreover have "placed_ok (put_byte g p ch)" using coreD(1) [OF c] by (simp add: placed_ok_def)
  ultimately show ?thesis using c by (simp add: core_def free_ok_def index_ok_def byte_put_def)
qed

lemma put_byte_contents:
  assumes b: "\<forall>b \<in> set (blks g). length b = 512" and p: "p div 512 < length (blks g)" "p \<le> n"
  shows "take (max n (p + 1)) (concat (blks (put_byte g p ch))) =
    (if p < n then (take n (concat (blks g)))[p := ch] else take n (concat (blks g)) @ [ch])"
proof -
  have c: "concat (blks (put_byte g p ch)) = (concat (blks g))[p := ch]"
    using concat_update [OF b p(1), of "p mod 512" ch] by simp
  have l: "p < length (concat (blks g))" using length_concat_blocks [OF b] p(1) by (simp add: div_less_iff_less_mult)
  show ?thesis
  proof (cases "p < n")
    case True
    then have "max n (p + 1) = n" by simp
    then show ?thesis using True c by (simp add: take_update_swap)
  next
    case False
    then have "n = p" using p(2) by simp
    then show ?thesis using c l by (simp add: take_Suc_conv_app_nth)
  qed
qed

subsection \<open>Taking the mutexes\<close>

lemma fwait_idle: "sem_idle k (fk w) \<Longrightarrow> fwait k w = Some (Ret (), w\<lparr>fk := set_scount k 0 (fk w)\<rparr>)"
  by (simp add: fwait_def wait_idle)

lemma fsignal_held: "sem_held k (fk w) \<Longrightarrow> fsignal k w = Some (Ret (), w\<lparr>fk := set_scount k 1 (fk w)\<rparr>)"
  by (simp add: fsignal_def signal_held)

text \<open>Giving back a mutex that was taken from \<open>s\<close> leaves the kernel as in \<open>s\<close>.\<close>

lemma fsignal_back:
  assumes "fk w = set_scount k 0 s" "sem_idle k s"
  shows "fsignal k w = Some (Ret (), w\<lparr>fk := s\<rparr>)"
proof -
  have "sem_held k (fk w)" using assms by simp
  then have "fsignal k w = Some (Ret (), w\<lparr>fk := set_scount k 1 (set_scount k 0 s)\<rparr>)" using fsignal_held assms(1) by metis
  also have "set_scount k 1 (set_scount k 0 s) = s" using set_scount_back [OF assms(2)] by (simp add: set_scount_twice)
  finally show ?thesis .
qed

lemma others_fk:
  "others_same g (w\<lparr>fk := s\<rparr>) w' \<Longrightarrow> others_same g w (w'\<lparr>fk := fk w\<rparr>)"
  "others_same g (w\<lparr>fk := s\<rparr>) w' \<Longrightarrow> fk w' = s"
  by (simp_all add: others_same_def)

lemma same_place_fk: "same_place g (w\<lparr>fk := s\<rparr>) w' \<Longrightarrow> same_place g w (w'\<lparr>fk := fk w\<rparr>)"
  by (simp add: same_place_def others_same_def)

lemma at_data_fk [simp]: "at_data g j (w\<lparr>fk := s\<rparr>) = at_data g j w"
  by (simp add: at_data_def)

lemma lfsetup_ok:
  assumes f: "file_ok g w" and p: "p = file_pos g w" and r: "room_for p g" and l: "sem_idle (lf_mutex w) (fk w)"
  obtains w' where "lfsetup (minor g) w = Some (Ret OK, w')" "core (p div 512 = length (dbs g)) (grown p g) w'"
    "at_data (grown p g) (p div 512) w'" "same_place g w w'"
proof -
  let ?k = "lf_mutex w" and ?w = "w\<lparr>fk := set_scount (lf_mutex w) 0 (fk w)\<rparr>"
  have c: "core False g ?w" using file_okD(1) [OF f] by simp
  have pp: "p = unat (lfpos (cblk g ?w))" using p by (simp add: file_pos_def)
  note W = position_within [OF f, of p]
  obtain u where u: "setup_blocks (minor g) ?w = Some u" "core (p div 512 = length (dbs g)) (grown p g) u"
    "at_data (grown p g) (p div 512) u" "same_place g ?w u"
    using setup_blocks_ok [OF c pp _ _ _ r] W file_okD(4) [OF f] p by auto
  have k: "lf_mutex u = ?k" "fk u = set_scount ?k 0 (fk w)" using u(4) by (auto simp: same_place_def others_same_def)
  have "lfsetup (minor g) w = Some (Ret OK, u\<lparr>fk := fk w\<rparr>)"
    using u(1) fwait_idle [OF l] fsignal_back [OF k(2) l] k(1) by (simp add: lfsetup_def give_def)
  moreover have "same_place g w (u\<lparr>fk := fk w\<rparr>)" using same_place_fk [OF u(4)] .
  ultimately show ?thesis using that u(2,3) by simp
qed

text \<open>Before a byte is read or written: the buffer is at the position.\<close>

lemma ready_ok:
  assumes f: "file_ok g w" and p: "p = file_pos g w" and r: "room_for p g" and l: "sem_idle (lf_mutex w) (fk w)"
  obtains w' x where
    "(if lfbyte (lfltab w (minor g)) \<ge> LF_BLKSIZ then andthen (lfsetup (minor g)) (\<lambda>_. give ()) else give ()) w = Some (Ret (), w')"
    "core x (grown p g) w'" "x \<longrightarrow> p = file_size g w" "at_data (grown p g) (p div 512) w'" "same_place g w w'"
proof (cases "lfbyte (cblk g w) \<ge> 512")
  case True
  obtain w' where s: "lfsetup (minor g) w = Some (Ret OK, w')" "core (p div 512 = length (dbs g)) (grown p g) w'"
    "at_data (grown p g) (p div 512) w'" "same_place g w w'"
    using lfsetup_ok [OF f p r l] .
  have "p div 512 = length (dbs g) \<Longrightarrow> p = file_size g w"
  proof (rule ccontr)
    assume a: "p div 512 = length (dbs g)" "p \<noteq> file_size g w"
    then have "p < file_size g w" using file_okD(4) [OF f] p by simp
    then have "p div 512 < (file_size g w + 511) div 512" by linarith
    then show False using a(1) file_okD(2) [OF f] by simp
  qed
  then show ?thesis using that [OF _ s(2) _ s(3,4)] s(1) True by (simp add: give_def)
next
  case False
  then have a: "at_data g (p div 512) w" using file_okD(5) [OF f] p by simp
  then have "grown p g = g" using grown_lengths(4) [OF f, of p] file_okD(4) [OF f] p by (simp add: at_data_def)
  then show ?thesis using that [of w False] False a file_okD(1) [OF f] by (simp add: give_def)
qed

subsection \<open>The calls on one byte\<close>

lemma file_ok_fk [simp]: "file_ok g (w\<lparr>fk := s\<rparr>) = file_ok g w"
  by (simp add: file_ok_def file_size_def file_pos_def)

lemma file_view_fk [simp]:
  "file_size g (w\<lparr>fk := s\<rparr>) = file_size g w" "file_pos g (w\<lparr>fk := s\<rparr>) = file_pos g w" "contents g (w\<lparr>fk := s\<rparr>) = contents g w"
  by (simp_all add: file_size_def file_pos_def contents_def)

lemma same_place_views:
  assumes "same_place g w w'"
  shows "file_size g w' = file_size g w" "file_pos g w' = file_pos g w"
  using assms by (simp_all add: same_place_def file_size_def file_pos_def)

text \<open>A call that holds the mutex of the file gives it back.\<close>

lemma leave_ok:
  assumes "fk w' = set_scount (lfmutex (cblk g w')) 0 s" "sem_idle (lfmutex (cblk g w')) s"
  shows "leave (minor g) r w' = Some (Ret r, w'\<lparr>fk := s\<rparr>)"
  using fsignal_back [OF assms] by (simp add: leave_def give_def)

lemma locks_others: "locks_idle g w \<Longrightarrow> others_same g w w' \<Longrightarrow> locks_idle g w'"
  by (simp add: locks_idle_def others_same_def)

lemma idle_under:
  assumes "locks_idle g w"
  shows "sem_idle (lf_mutex w) (set_scount (lfmutex (cblk g w)) 0 (fk w))"
  using assms by (simp add: locks_idle_def)

lemma lflgetc_ok:
  assumes f: "file_ok g w" and l: "locks_idle g w"
  obtains w' where
    "lflgetc (minor g) w = Some (Ret (if file_pos g w < file_size g w then uint (contents g w ! file_pos g w) else EOF), w')"
    "file_ok g w'" "contents g w' = contents g w" "file_size g w' = file_size g w"
    "file_pos g w' = (if file_pos g w < file_size g w then file_pos g w + 1 else file_pos g w)" "others_same g w w'"
proof -
  let ?m = "minor g" and ?p = "file_pos g w" and ?k = "lfmutex (cblk g w)"
  let ?h = "w\<lparr>fk := set_scount ?k 0 (fk w)\<rparr>"
  have k: "sem_idle ?k (fk w)" using l by (simp add: locks_idle_def)
  have fh: "file_ok g ?h" using f by simp
  note C = file_okD [OF fh]
  have e: "dir_entry ?m ?h = Some (dent g w)" "lfstate (cblk g ?h) = LF_USED"
    using dir_entry_ok [OF C(1)] coreD(5) [OF C(1)] by simp_all
  have lt: "lfpos (cblk g w) \<ge> ld_size (dent g w) \<longleftrightarrow> \<not> ?p < file_size g w"
    by (simp add: word_le_nat_alt file_pos_def file_size_def not_less)
  have start: "lflgetc ?m w = (if lfpos (cblk g w) \<ge> ld_size (dent g w) then leave ?m EOF ?h
      else andthen (if lfbyte (lfltab ?h ?m) \<ge> LF_BLKSIZ then andthen (lfsetup ?m) (\<lambda>_. give ()) else give ()) (\<lambda>_ w.
        let c = lfltab w ?m; onebyte = uint (lfdblock c ! lfbyte c)
        in leave ?m onebyte (upd_lfl ?m (\<lambda>c. c\<lparr>lfbyte := lfbyte c + 1, lfpos := lfpos c + 1\<rparr>) w)) ?h)"
    using fwait_idle [OF k] e by (simp add: lflgetc_def)
  show ?thesis
  proof (cases "?p < file_size g w")
    case False
    have "leave ?m EOF ?h = Some (Ret EOF, ?h\<lparr>fk := fk w\<rparr>)" by (rule leave_ok) (use k in simp_all)
    then show ?thesis using that [of w] start lt False f by simp
  next
    case True
    have G: "grown ?p g = g" using grown_lengths(3) [OF f] True by simp
    have r: "room_for ?p g"
    proof -
      have "?p div 8192 < (file_size g w + 8191) div 8192" "?p div 512 < (file_size g w + 511) div 512" using True by linarith+
      then show ?thesis using file_okD(2,3) [OF f] by (simp add: room_for_def)
    qed
    obtain u x where u:
      "(if lfbyte (lfltab ?h ?m) \<ge> LF_BLKSIZ then andthen (lfsetup ?m) (\<lambda>_. give ()) else give ()) ?h = Some (Ret (), u)"
      "core x g u" "x \<Longrightarrow> ?p = file_size g ?h" "at_data g (?p div 512) u" "same_place g ?h u"
      using ready_ok [OF fh, of ?p] r idle_under [OF l] G by (auto simp: locks_idle_def)
    have c: "core False g u" using u(2,3) True by (cases x) auto
    let ?v = "upd_lfl ?m (\<lambda>c. c\<lparr>lfbyte := lfbyte c + 1, lfpos := lfpos c + 1\<rparr>) u"
    have V: "fk u = fk ?h" "lfmutex (cblk g u) = ?k" "lfpos (cblk g u) = lfpos (cblk g w)" "dent g u = dent g u" "file_size g u = file_size g w"
      using u(5) same_place_views(1) [OF u(5)] by (simp_all add: same_place_def others_same_def)
    have np: "unat (lfpos (cblk g u) + 1) = ?p + 1"
      using V(3) True file_okD(8) [OF f] by (simp add: file_pos_def unat_word_ariths)
    have A: "?p div 512 < length (dbs g)" "lfdblock (cblk g u) = blks g ! (?p div 512)" "lfbyte (cblk g u) = ?p mod 512"
      "lfdnum (cblk g u) = dbs g ! (?p div 512)"
      using u(4) V(3) by (simp_all add: at_data_def file_pos_def)
    have D: "length (blks g) = length (dbs g)" "\<forall>b \<in> set (blks g). length b = 512" using coreD(4) [OF c] by (simp_all add: data_ok_def)
    have byte: "lfdblock (cblk g u) ! lfbyte (cblk g u) = contents g w ! ?p"
      using concat_nth [OF D(2), of "?p div 512" "?p mod 512"] A D(1) True by (simp add: contents_def)
    have "leave ?m r ?v = Some (Ret r, ?v\<lparr>fk := fk w\<rparr>)" for r
      by (rule leave_ok) (use k V in simp_all)
    then have run: "lflgetc ?m w = Some (Ret (uint (contents g w ! ?p)), ?v\<lparr>fk := fk w\<rparr>)"
      using start lt True u(1) byte by (simp add: Let_def)
    have "core False g ?v" using c by (simp add: core_def free_ok_def index_ok_def data_ok_def)
    moreover have "at_data g ((?p + 1) div 512) ?v" if "lfbyte (cblk g ?v) < 512"
    proof -
      have "?p mod 512 + 1 < 512" using that A(3) by simp
      then have "(?p + 1) div 512 = ?p div 512" "(?p + 1) mod 512 = ?p mod 512 + 1"
        by (simp_all add: div_Suc mod_Suc)
      then show ?thesis using A np by (simp add: at_data_def)
    qed
    moreover have fs: "file_size g ?v = file_size g w" "file_pos g ?v = ?p + 1" using V(5) np by (simp_all add: file_size_def file_pos_def)
    ultimately have "file_ok g ?v" using file_okD(2,3) [OF f] True by (simp add: file_ok_def)
    moreover have "others_same g ?h ?v" using u(5) by (intro others_upd_lfl) (simp_all add: same_place_def)
    then have "others_same g w (?v\<lparr>fk := fk w\<rparr>)" using others_fk(1) by blast
    moreover have "contents g ?v = contents g w" using fs(1) by (simp add: contents_def)
    ultimately show ?thesis using that [of "?v\<lparr>fk := fk w\<rparr>"] run fs True by simp
  qed
qed

text \<open>The size in the directory entry after a byte is written at the position.\<close>

definition count_byte :: "layout \<Rightarrow> fs \<Rightarrow> fs" where
  "count_byte g w =
     (if lfpos (cblk g w) \<ge> ld_size (dent g w) then (upd_ent (entry g) (\<lambda>e. e\<lparr>ld_size := ld_size e + 1\<rparr>) w)\<lparr>lf_dirdirty := True\<rparr> else w)"

lemma count_byte_fields [simp]:
  "fk (count_byte g w) = fk w" "lfltab (count_byte g w) = lfltab w" "ram (count_byte g w) = ram w" "lf_mutex (count_byte g w) = lf_mutex w"
  "lfd_ifree (lf_dir (count_byte g w)) = lfd_ifree (lf_dir w)" "lfd_dfree (lf_dir (count_byte g w)) = lfd_dfree (lf_dir w)"
  "length (lfd_files (lf_dir (count_byte g w))) = length (lfd_files (lf_dir w))"
  by (simp_all add: count_byte_def)

lemma count_byte_ok:
  assumes c: "core x g w" and p: "file_pos g w \<le> file_size g w" "file_size g w \<le> 102400"
  shows "core x g (count_byte g w)" "others_same g w (count_byte g w)"
    "file_size g (count_byte g w) = max (file_size g w) (file_pos g w + 1)"
proof -
  have e: "entry g < length (lfd_files (lf_dir w))" using c by (rule coreD)
  then have i: "ld_ilist (dent g (count_byte g w)) = ld_ilist (dent g w)" by (simp add: count_byte_def)
  then show "core x g (count_byte g w)" using c by (simp add: core_def free_ok_def index_ok_def data_ok_def)
  show "others_same g w (count_byte g w)" using e by (simp add: others_same_def count_byte_def)
  have "lfpos (cblk g w) \<ge> ld_size (dent g w) \<longleftrightarrow> file_pos g w = file_size g w"
    using p(1) by (auto simp: word_le_nat_alt file_pos_def file_size_def)
  moreover have "unat (ld_size (dent g w) + 1) = file_size g w + 1" using p(2) by (simp add: file_size_def unat_word_ariths)
  ultimately show "file_size g (count_byte g w) = max (file_size g w) (file_pos g w + 1)"
    using p(1) e by (simp add: count_byte_def file_size_def)
qed

lemma lflputc_ok:
  fixes ch :: u8
  assumes f: "file_ok g w" and l: "locks_idle g w" and en: "enough (file_pos g w + 1) g"
  defines "p \<equiv> file_pos g w"
  defines "g' \<equiv> put_byte (grown p g) p ch"
  obtains w' where "lflputc (minor g) ch w = Some (Ret OK, w')" "file_ok g' w'"
    "contents g' w' = (if p < file_size g w then (contents g w)[p := ch] else contents g w @ [ch])"
    "file_size g' w' = max (file_size g w) (p + 1)" "file_pos g' w' = p + 1" "others_same g w w'" "same_file g g'"
proof -
  let ?m = "minor g" and ?k = "lfmutex (cblk g w)" and ?G = "grown p g" and ?n = "file_size g w"
  let ?h = "w\<lparr>fk := set_scount ?k 0 (fk w)\<rparr>"
  have k: "sem_idle ?k (fk w)" using l by (simp add: locks_idle_def)
  have fh: "file_ok g ?h" using f by simp
  note C = file_okD [OF fh]
  have pn: "p \<le> ?n" using file_okD(4) [OF f] by (simp add: p_def)
  have r: "room_for p g" by (rule enough_room [OF f pn _ en]) (simp add: p_def)
  have SG: "same_file g ?G" by (rule same_file_grown [OF r])
  have M: "minor ?G = ?m" "entry ?G = entry g" using SG by (simp_all add: same_file_def)
  have e: "dir_entry ?m ?h = Some (dent g w)" "lfstate (cblk g ?h) = LF_USED"
    using dir_entry_ok [OF C(1)] coreD(5) [OF C(1)] by simp_all
  have gt: "\<not> lfpos (cblk g w) > ld_size (dent g w)" using pn by (simp add: word_less_nat_alt p_def file_pos_def file_size_def)
  have idle: "sem_idle (lf_mutex ?h) (fk ?h)" using idle_under [OF l] by simp
  have pp: "p = file_pos g ?h" by (simp add: p_def)
  obtain u x where u:
    "(if lfbyte (lfltab ?h ?m) \<ge> LF_BLKSIZ then andthen (lfsetup ?m) (\<lambda>_. give ()) else give ()) ?h = Some (Ret (), u)"
    "core x ?G u" "x \<longrightarrow> p = file_size g ?h" "at_data ?G (p div 512) u" "same_place g ?h u"
    using ready_ok [OF fh pp r idle] .
  have V: "fk u = fk ?h" "lfmutex (cblk g u) = ?k" "lfpos (cblk g u) = lfpos (cblk g w)" "file_size g u = ?n" "file_pos g u = p"
    using u(5) same_place_views [OF u(5)] by (simp_all add: same_place_def others_same_def p_def)
  have VG: "file_size ?G u = ?n" "file_pos ?G u = p" using V(4,5) same_file_views(1,2) [OF SG] by simp_all
  let ?c = "count_byte ?G u"
  note CB = count_byte_ok [OF u(2)]
  have n: "?n \<le> 102400" using file_okD(8) [OF f] .
  have cc: "core x ?G ?c" "others_same ?G u ?c" "file_size ?G ?c = max ?n (p + 1)" using CB VG pn n by simp_all
  let ?v = "byte_put ?G ch ?c"
  have D: "length (blks ?G) = length (dbs ?G)" "\<forall>b \<in> set (blks ?G). length b = 512" using coreD(4) [OF u(2)] by (simp_all add: data_ok_def)
  have start: "lflputc ?m ch w = leave ?m OK ?v"
  proof -
    have "dir_entry ?m u = Some (dent g u)" using dir_entry_ok [OF u(2)] M by simp
    then have "(case dir_entry ?m u of None \<Rightarrow> u | Some e \<Rightarrow> if lfpos (lfltab u ?m) \<ge> ld_size e
        then (set_entry ?m (\<lambda>e. e\<lparr>ld_size := ld_size e + 1\<rparr>) u)\<lparr>lf_dirdirty := True\<rparr> else u) = ?c"
      using coreD(6) [OF u(2)] M by (simp add: count_byte_def set_entry_ok)
    then show ?thesis using fwait_idle [OF k] e gt u(1) M by (simp add: lflputc_def Let_def byte_put_def)
  qed
  have "leave ?m OK ?v = Some (Ret OK, ?v\<lparr>fk := fk w\<rparr>)"
    by (rule leave_ok) (use k V M in \<open>simp_all add: byte_put_def\<close>)
  then have run: "lflputc ?m ch w = Some (Ret OK, ?v\<lparr>fk := fk w\<rparr>)" using start by simp
  have at: "at_data ?G (p div 512) ?c" using u(4) by (simp add: at_data_def)
  have pc: "p = file_pos ?G ?c" using VG(2) by (simp add: file_pos_def)
  have core: "core False g' ?v" unfolding g'_def by (rule byte_put_core [OF cc(1) at pc])
  have np: "unat (lfpos (cblk g u) + 1) = p + 1" using V(3) pn n by (simp add: p_def file_pos_def unat_word_ariths)
  have fs: "file_size g' ?v = max ?n (p + 1)" "file_pos g' ?v = p + 1"
    using cc(3) np M by (simp_all add: g'_def byte_put_def file_size_def file_pos_def)
  have "at_data g' (file_pos g' ?v div 512) ?v" if "lfbyte (cblk g' ?v) < 512"
  proof -
    have A: "p div 512 < length (dbs ?G)" "lfdblock (cblk g u) = blks ?G ! (p div 512)" "lfbyte (cblk g u) = p mod 512"
      "lfdnum (cblk g u) = dbs ?G ! (p div 512)"
      using u(4) VG(2) M by (simp_all add: at_data_def file_pos_def)
    have "p mod 512 + 1 < 512" using that A(3) M by (simp add: g'_def byte_put_def)
    then have q: "(p + 1) div 512 = p div 512" "(p + 1) mod 512 = p mod 512 + 1" by (simp_all add: div_Suc mod_Suc)
    show ?thesis unfolding fs(2) using q A np M D(1) by (simp add: at_data_def g'_def byte_put_def)
  qed
  moreover have "file_pos g' ?v \<le> file_size g' ?v" unfolding fs by simp
  ultimately have fok: "file_ok g' ?v"
    using core grown_lengths(1,2) [OF f pn] unfolding file_ok_def fs(1) by (simp add: g'_def)
  have "others_same g ?h u" "others_same g u ?c" using u(5) cc(2) same_file_others [OF SG] by (simp_all add: same_place_def)
  then have "others_same g ?h ?c" by (rule others_trans)
  then have "others_same g ?h ?v" unfolding byte_put_def M by (intro others_upd_lfl) simp_all
  then have ot: "others_same g w (?v\<lparr>fk := fk w\<rparr>)" using others_fk(1) by blast
  have "p div 512 < length (blks ?G)" using grown_lengths(5) [OF f pn] D(1) by simp
  then have "contents g' ?v = (if p < ?n then (contents g w)[p := ch] else contents g w @ [ch])"
    using put_byte_contents [OF D(2) _ pn, of ch] fs(1) by (simp only: contents_def g'_def grown_contents [OF f, unfolded contents_def])
  moreover have "same_file g g'" using SG by (simp add: same_file_def g'_def)
  ultimately show ?thesis using that [OF run] fok fs ot by simp
qed

end
