(* ===== verification/LfsStream.thy ===== *)
theory LfsStream
  imports LfsFile LfsFiles
begin

text \<open>
  The contract of an open file: a sequence of bytes with a position.  \<open>is_file g w0 xs p w\<close> says that
  in \<open>w\<close> the file \<open>g\<close> holds \<open>xs\<close> with its position at \<open>p\<close>, and that nothing else has changed
  since \<open>w0\<close>.
\<close>

definition is_file :: "layout \<Rightarrow> fs \<Rightarrow> u8 list \<Rightarrow> nat \<Rightarrow> fs \<Rightarrow> bool" where
  "is_file g w0 xs p w \<longleftrightarrow> others_same g w0 w \<and> locks_idle g w \<and>
     (\<exists>g'. same_file g g' \<and> file_ok g' w \<and> contents g' w = xs \<and> file_pos g' w = p)"

lemma is_fileI:
  "file_ok g' w \<Longrightarrow> contents g' w = xs \<Longrightarrow> file_pos g' w = p \<Longrightarrow> same_file g g' \<Longrightarrow> others_same g w0 w \<Longrightarrow>
     locks_idle g w \<Longrightarrow> is_file g w0 xs p w"
  by (auto simp: is_file_def)

lemma is_fileE:
  assumes "is_file g w0 xs p w"
  obtains g' where "same_file g g'" "file_ok g' w" "contents g' w = xs" "file_pos g' w = p" "file_size g' w = length xs"
    "others_same g w0 w" "locks_idle g w" "locks_idle g' w" "minor g' = minor g"
proof -
  obtain g' where g: "same_file g g'" "file_ok g' w" "contents g' w = xs" "file_pos g' w = p" and o: "others_same g w0 w" "locks_idle g w"
    using assms by (auto simp: is_file_def)
  have "file_size g' w = length xs" using length_contents [OF g(2)] g(3) by simp
  moreover have "locks_idle g' w" using same_file_views(3) [OF g(1)] o(2) by simp
  moreover have "minor g' = minor g" using g(1) by (simp add: same_file_def)
  ultimately show ?thesis using that g o by simp
qed

lemma is_file_start: "file_ok g w \<Longrightarrow> locks_idle g w \<Longrightarrow> is_file g w (contents g w) (file_pos g w) w"
  by (rule is_fileI [of g]) simp_all

lemma is_file_same: "same_file g g' \<Longrightarrow> is_file g' w0 xs p w \<Longrightarrow> is_file g w0 xs p w"
  using same_file_trans same_file_others same_file_views(3) unfolding is_file_def by metis

lemma is_file_next:
  assumes "same_file g g'" "others_same g w0 w" "locks_idle g w" "others_same g' w w'" "file_ok g'' w'" "same_file g' g''"
  shows "is_file g w0 (contents g'' w') (file_pos g'' w') w'"
proof (rule is_fileI)
  have o: "others_same g w w'" using assms(4) same_file_others [OF assms(1)] by simp
  show "others_same g w0 w'" using others_trans [OF assms(2) o] .
  show "locks_idle g w'" using locks_others [OF assms(3) o] .
  show "same_file g g''" using assms(1,6) by (rule same_file_trans)
qed (use assms in simp_all)

subsection \<open>One byte\<close>

lemma lflgetc_is_file:
  assumes "is_file g w0 xs p w"
  obtains w' where "lflgetc (minor g) w = Some (Ret (if p < length xs then uint (xs ! p) else EOF), w')"
    "is_file g w0 xs (if p < length xs then p + 1 else p) w'"
proof -
  obtain g' where g: "same_file g g'" "file_ok g' w" "contents g' w = xs" "file_pos g' w = p" "file_size g' w = length xs"
    "others_same g w0 w" "locks_idle g w" "locks_idle g' w" "minor g' = minor g"
    using is_fileE [OF assms] .
  obtain w' where w: "lflgetc (minor g') w = Some (Ret (if p < length xs then uint (xs ! p) else EOF), w')"
    "file_ok g' w'" "contents g' w' = xs" "file_size g' w' = length xs" "file_pos g' w' = (if p < length xs then p + 1 else p)" "others_same g' w w'"
    using lflgetc_ok [OF g(2,8), unfolded g(3-5)] .
  show ?thesis
  proof (rule that)
    show "lflgetc (minor g) w = Some (Ret (if p < length xs then uint (xs ! p) else EOF), w')" using w(1) g(9) by simp
    show "is_file g w0 xs (if p < length xs then p + 1 else p) w'"
      using is_file_next [OF g(1,6,7) w(6,2) same_file_refl] w(3,5) by simp
  qed
qed

definition put_at :: "nat \<Rightarrow> 'a list \<Rightarrow> 'a list \<Rightarrow> 'a list" where
  "put_at p bs xs = take p xs @ bs @ drop (p + length bs) xs"

lemma put_at_Nil [simp]: "put_at p [] xs = xs"
  by (simp add: put_at_def)

lemma put_at_Cons: "p \<le> length xs \<Longrightarrow> put_at (p + 1) bs (put_at p [b] xs) = put_at p (b # bs) xs"
  by (simp add: put_at_def min_def add.commute add.left_commute)

lemma length_put_at: "p \<le> length xs \<Longrightarrow> length (put_at p bs xs) = max (length xs) (p + length bs)"
  by (simp add: put_at_def)

lemma put_at_one: "p \<le> length xs \<Longrightarrow> put_at p [b] xs = (if p < length xs then xs[p := b] else xs @ [b])"
  by (simp add: put_at_def upd_conv_take_nth_drop)

lemma take_drop_put_at: "p \<le> length xs \<Longrightarrow> take (length bs) (drop p (put_at p bs xs)) = bs"
  by (simp add: put_at_def)

lemma lflputc_is_file:
  assumes f: "is_file g w0 xs p w" and e: "enough (p + 1) g"
  obtains w' where "lflputc (minor g) ch w = Some (Ret OK, w')" "is_file g w0 (put_at p [ch] xs) (p + 1) w'"
proof -
  obtain g' where g: "same_file g g'" "file_ok g' w" "contents g' w = xs" "file_pos g' w = p" "file_size g' w = length xs"
    "others_same g w0 w" "locks_idle g w" "locks_idle g' w" "minor g' = minor g"
    using is_fileE [OF f] .
  have e': "enough (file_pos g' w + 1) g'" using e same_file_views(4) [OF g(1)] g(4) by simp
  obtain w' g'' where w: "lflputc (minor g') ch w = Some (Ret OK, w')" "file_ok g'' w'"
    "contents g'' w' = (if p < length xs then xs[p := ch] else xs @ [ch])" "file_pos g'' w' = p + 1" "others_same g' w w'" "same_file g' g''"
    using lflputc_ok [OF g(2,8) e', of ch] g(3-5) by metis
  have "p \<le> length xs" using file_okD(4) [OF g(2)] g(4,5) by simp
  then have "contents g'' w' = put_at p [ch] xs" using w(3) put_at_one by metis
  then show ?thesis using that w(1,4) g(9) is_file_next [OF g(1,6,7) w(5,2,6)] by simp
qed

subsection \<open>Many bytes, and the position\<close>

lemma lflwrite_loop_is_file:
  assumes "is_file g w0 xs p w" "p \<le> length xs" "enough (p + length bs) g"
  shows "\<exists>w'. lflwrite_loop (minor g) bs n w = Some (Ret n, w') \<and> is_file g w0 (put_at p bs xs) (p + length bs) w'"
  using assms
proof (induction bs arbitrary: xs p w)
  case (Cons b bs)
  have "p + 1 \<le> p + length (b # bs)" by simp
  then have e: "enough (p + 1) g" using Cons.prems(3) enough_mono by blast
  obtain w1 where 1: "lflputc (minor g) b w = Some (Ret OK, w1)" "is_file g w0 (put_at p [b] xs) (p + 1) w1"
    using lflputc_is_file [OF Cons.prems(1) e] .
  have l: "p + 1 \<le> length (put_at p [b] xs)" using length_put_at [OF Cons.prems(2), of "[b]"] by simp
  obtain w' where 2: "lflwrite_loop (minor g) bs n w1 = Some (Ret n, w')"
    "is_file g w0 (put_at (p + 1) bs (put_at p [b] xs)) (p + 1 + length bs) w'"
    using Cons.IH [OF 1(2) l] Cons.prems(3) by auto
  then show ?case using 1(1) put_at_Cons [OF Cons.prems(2)] by simp
qed simp

lemma is_file_bounds:
  assumes "is_file g w0 xs p w"
  shows "p \<le> length xs" "length xs \<le> 102400" "lfstate (lfltab w (minor g)) = LF_USED"
proof -
  obtain g' where g: "same_file g g'" "file_ok g' w" "contents g' w = xs" "file_pos g' w = p" "file_size g' w = length xs"
    "others_same g w0 w" "locks_idle g w" "locks_idle g' w" "minor g' = minor g"
    using is_fileE [OF assms] .
  show "p \<le> length xs" "length xs \<le> 102400" using file_okD(4,8) [OF g(2)] g(4,5) by simp_all
  show "lfstate (lfltab w (minor g)) = LF_USED" using coreD(5) [OF file_okD(1) [OF g(2)]] g(9) by simp
qed

lemma lflwrite_is_file:
  assumes f: "is_file g w0 xs p w" and e: "enough (p + length bs) g"
  shows "\<exists>w'. lflwrite (minor g) bs (int (length bs)) w = Some (Ret (int (length bs)), w') \<and>
    is_file g w0 (put_at p bs xs) (p + length bs) w'"
  using lflwrite_loop_is_file [OF f is_file_bounds(1) [OF f] e] by (simp add: lflwrite_def)

lemma uint_not_code [simp]: "uint (b :: u8) \<noteq> SYSERR" "uint (b :: u8) \<noteq> EOF"
  using uint_ge_0 [of b] by linarith+

lemma lflread_loop_is_file:
  assumes "is_file g w0 xs p w" "p \<le> length xs"
  shows "\<exists>w'. lflread_loop n (minor g) buff w =
      Some (Ret (let got = take n (drop p xs) in (if n > 0 \<and> buff @ got = [] then EOF else int (length (buff @ got)), buff @ got)), w') \<and>
    is_file g w0 xs (min (p + n) (length xs)) w'"
  using assms
proof (induction n arbitrary: buff p w)
  case 0
  then show ?case by simp
next
  case (Suc n)
  obtain w1 where 1: "lflgetc (minor g) w = Some (Ret (if p < length xs then uint (xs ! p) else EOF), w1)"
    "is_file g w0 xs (if p < length xs then p + 1 else p) w1"
    using lflgetc_is_file [OF Suc.prems(1)] .
  show ?case
  proof (cases "p < length xs")
    case True
    have d: "drop p xs = xs ! p # drop (p + 1) xs" using True by (simp add: Cons_nth_drop_Suc)
    have i: "is_file g w0 xs (p + 1) w1" "p + 1 \<le> length xs" using 1(2) True by simp_all
    show ?thesis using Suc.IH [OF i, of "buff @ [xs ! p]"] 1(1) True d by (simp add: Let_def)
  next
    case False
    then show ?thesis using 1 Suc.prems(2) by (simp add: give_def Let_def)
  qed
qed

lemma lflread_is_file:
  assumes f: "is_file g w0 xs p w"
  shows "\<exists>w'. lflread (minor g) (int n) w =
      Some (Ret (let got = take n (drop p xs) in (if n > 0 \<and> got = [] then EOF else int (length got), got)), w') \<and>
    is_file g w0 xs (min (p + n) (length xs)) w'"
  using lflread_loop_is_file [OF f is_file_bounds(1) [OF f], of n "[]"]
  by (simp only: lflread_def append_Nil of_nat_less_0_iff if_False nat_int)

lemma lflseek_is_file:
  assumes "is_file g w0 xs p w"
  shows "\<exists>w'. lflseek (minor g) off w = Some (Ret (if unat off \<le> length xs then OK else SYSERR), w') \<and>
    is_file g w0 xs (if unat off \<le> length xs then unat off else p) w'"
proof -
  obtain g' where g: "same_file g g'" "file_ok g' w" "contents g' w = xs" "file_pos g' w = p" "file_size g' w = length xs"
    "others_same g w0 w" "locks_idle g w" "locks_idle g' w" "minor g' = minor g"
    using is_fileE [OF assms] .
  let ?m = "minor g" and ?k = "lfmutex (lfltab w (minor g))"
  let ?h = "w\<lparr>fk := set_scount ?k 0 (fk w)\<rparr>" and ?u = "\<lambda>c :: lflcblk. c\<lparr>lfpos := off, lfbyte := LF_BLKSIZ\<rparr>"
  have k: "sem_idle ?k (fk w)" using g(7) by (simp add: locks_idle_def)
  have c: "core False g' w" using file_okD(1) [OF g(2)] .
  have e: "dir_entry ?m ?h = Some (dent g' w)" "lfstate (lfltab ?h ?m) = LF_USED"
    using dir_entry_ok [of False g' ?h] coreD(5) [of False g' ?h] c g(9) by simp_all
  have gt: "off > ld_size (dent g' w) \<longleftrightarrow> \<not> unat off \<le> length xs" using g(5) by (simp add: word_less_nat_alt file_size_def not_le)
  have start: "lflseek ?m off w = (if unat off \<le> length xs then leave ?m OK (upd_lfl ?m ?u ?h) else leave ?m SYSERR ?h)"
    using fwait_idle [OF k] e gt by (simp add: lflseek_def)
  show ?thesis
  proof (cases "unat off \<le> length xs")
    case False
    have "leave ?m SYSERR ?h = Some (Ret SYSERR, ?h\<lparr>fk := fk w\<rparr>)" by (rule leave_ok) (use k in simp_all)
    then show ?thesis using start False assms by simp
  next
    case True
    let ?v = "upd_lfl ?m ?u w"
    have "leave ?m OK (upd_lfl ?m ?u ?h) = Some (Ret OK, (upd_lfl ?m ?u ?h)\<lparr>fk := fk w\<rparr>)" by (rule leave_ok) (use k in simp_all)
    also have "(upd_lfl ?m ?u ?h)\<lparr>fk := fk w\<rparr> = ?v" by (simp add: upd_lfl_def)
    finally have run: "lflseek ?m off w = Some (Ret OK, ?v)" using start True by simp
    have fs: "file_size g' ?v = length xs" "file_pos g' ?v = unat off" using g(5,9) by (simp_all add: file_size_def file_pos_def)
    have "core False g' ?v" using c g(9) by (simp add: core_def free_ok_def index_ok_def data_ok_def)
    then have ok: "file_ok g' ?v" using file_okD(2,3) [OF g(2)] fs g(5,9) True by (simp add: file_ok_def)
    have ot: "others_same g' w ?v" unfolding g(9) [symmetric] by (intro others_upd_lfl) simp_all
    have "contents g' ?v = xs" using fs(1) g(3,5) by (simp add: contents_def)
    then have "is_file g w0 xs (unat off) ?v" using is_file_next [OF g(1,6,7) ot ok same_file_refl] fs(2) by simp
    then show ?thesis using run True by simp
  qed
qed

subsection \<open>A file of bytes as its clients use it\<close>

locale byte_file =
  fixes holds :: "'b list \<Rightarrow> nat \<Rightarrow> 's \<Rightarrow> bool" and room :: "nat \<Rightarrow> bool"
    and writes :: "'b list \<Rightarrow> 's \<Rightarrow> 's \<Rightarrow> bool" and reads :: "nat \<Rightarrow> 's \<Rightarrow> 'b list \<Rightarrow> 's \<Rightarrow> bool" and seeks :: "nat \<Rightarrow> 's \<Rightarrow> 's \<Rightarrow> bool"
  assumes position: "holds xs p s \<Longrightarrow> p \<le> length xs"
    and writing: "holds xs p s \<Longrightarrow> room (p + length bs) \<Longrightarrow> \<exists>s'. writes bs s s' \<and> holds (put_at p bs xs) (p + length bs) s'"
    and reading: "holds xs p s \<Longrightarrow> n > 0 \<Longrightarrow> p < length xs \<Longrightarrow>
      \<exists>s'. reads n s (take n (drop p xs)) s' \<and> holds xs (min (p + n) (length xs)) s'"
    and seeking: "holds xs p s \<Longrightarrow> q \<le> length xs \<Longrightarrow> \<exists>s'. seeks q s s' \<and> holds xs q s'"
begin

lemma written_reads_back:
  assumes h: "holds xs p s" "room (p + length bs)" "bs \<noteq> []"
  shows "\<exists>s1 s2 s3. writes bs s s1 \<and> seeks p s1 s2 \<and> reads (length bs) s2 bs s3 \<and> holds (put_at p bs xs) (p + length bs) s3"
proof -
  let ?ys = "put_at p bs xs"
  note p = position [OF h(1)]
  have l: "p + length bs \<le> length ?ys" using length_put_at [OF p, of bs] by simp
  obtain s1 where 1: "writes bs s s1" "holds ?ys (p + length bs) s1" using writing [OF h(1,2)] by blast
  obtain s2 where 2: "seeks p s1 s2" "holds ?ys p s2" using seeking [OF 1(2), of p] l by auto
  obtain s3 where 3: "reads (length bs) s2 (take (length bs) (drop p ?ys)) s3" "holds ?ys (min (p + length bs) (length ?ys)) s3"
    using reading [OF 2(2), of "length bs"] h(3) l by (cases bs) auto
  then show ?thesis using 1(1) 2(1) take_drop_put_at [OF p, of bs] l by (auto simp: min_def)
qed

lemma rewritten:
  assumes h: "holds xs p s" "room (p + length bs)" "room (p + length cs)" "length bs \<le> length cs"
  shows "\<exists>s1 s2 s3. writes bs s s1 \<and> seeks p s1 s2 \<and> writes cs s2 s3 \<and> holds (put_at p cs xs) (p + length cs) s3"
proof -
  note p = position [OF h(1)]
  obtain s1 where 1: "writes bs s s1" "holds (put_at p bs xs) (p + length bs) s1" using writing [OF h(1,2)] by blast
  have l: "p \<le> length (put_at p bs xs)" using length_put_at [OF p, of bs] p by simp
  obtain s2 where 2: "seeks p s1 s2" "holds (put_at p bs xs) p s2" using seeking [OF 1(2) l] by blast
  obtain s3 where 3: "writes cs s2 s3" "holds (put_at p cs (put_at p bs xs)) (p + length cs) s3" using writing [OF 2(2) h(3)] by blast
  have "put_at p cs (put_at p bs xs) = put_at p cs xs" using p h(4) by (simp add: put_at_def min_def add.commute)
  then show ?thesis using 1(1) 2(1) 3 by metis
qed

end

definition writes_file :: "int \<Rightarrow> u8 list \<Rightarrow> fs \<Rightarrow> fs \<Rightarrow> bool" where
  "writes_file m bs w w' \<longleftrightarrow> lflwrite m bs (int (length bs)) w = Some (Ret (int (length bs)), w')"

definition reads_file :: "int \<Rightarrow> nat \<Rightarrow> fs \<Rightarrow> u8 list \<Rightarrow> fs \<Rightarrow> bool" where
  "reads_file m n w bs w' \<longleftrightarrow> lflread m (int n) w = Some (Ret (int (length bs), bs), w')"

definition seeks_file :: "int \<Rightarrow> nat \<Rightarrow> fs \<Rightarrow> fs \<Rightarrow> bool" where
  "seeks_file m off w w' \<longleftrightarrow> lflseek m (of_nat off) w = Some (Ret OK, w')"

interpretation lf: byte_file "is_file g w0" "\<lambda>n. enough n g" "writes_file (minor g)" "reads_file (minor g)" "seeks_file (minor g)" for g w0
proof
  fix xs p w assume h: "is_file g w0 xs p w"
  show "p \<le> length xs" using is_file_bounds(1) [OF h] .
  show "\<exists>w'. writes_file (minor g) bs w w' \<and> is_file g w0 (put_at p bs xs) (p + length bs) w'" if "enough (p + length bs) g" for bs
    using lflwrite_is_file [OF h that] by (simp add: writes_file_def)
  show "\<exists>w'. reads_file (minor g) n w (take n (drop p xs)) w' \<and> is_file g w0 xs (min (p + n) (length xs)) w'" if "p < length xs" for n
    using lflread_is_file [OF h, of n] that by (auto simp: reads_file_def Let_def)
  show "\<exists>w'. seeks_file (minor g) q w w' \<and> is_file g w0 xs q w'" if q: "q \<le> length xs" for q
  proof -
    have "unat (of_nat q :: u32) = q" using q is_file_bounds(2) [OF h] by (simp add: unat_of_nat)
    then show ?thesis using lflseek_is_file [OF h, of "of_nat q"] q by (simp add: seeks_file_def)
  qed
qed

end
