(* ===== verification/LfsFormat.thy ===== *)
theory LfsFormat
  imports LfsStream
begin

text \<open>
  A new file system: what \<open>lfscreate\<close> leaves on the disk, what \<open>lfsckfmt\<close> counts there, and the
  first file that is opened on it.
\<close>

subsection \<open>The directory as bytes\<close>

definition entry_ok :: "ldentry \<Rightarrow> bool" where
  "entry_ok e \<longleftrightarrow> in_int32 (ld_ilist e) \<and> length (ld_name e) = LF_NAME_LEN"

definition dir_ok :: "lfdir \<Rightarrow> bool" where
  "dir_ok d \<longleftrightarrow> in_int32 (lfd_dfree d) \<and> in_int32 (lfd_ifree d) \<and> in_int32 (lfd_nfiles d) \<and>
     length (lfd_files d) = nat LF_NUM_DIR_ENT \<and> (\<forall>e \<in> set (lfd_files d). entry_ok e) \<and> length (lfd_padding d) = 20"

lemma length_entry_bytes: "entry_ok e \<Longrightarrow> length (entry_bytes e) = 24"
  by (simp add: entry_bytes_def entry_ok_def)

lemma bytes_entry_bytes: "entry_ok e \<Longrightarrow> bytes_entry (entry_bytes e @ b) = e"
  using int_at_append [of 4 "le_bytes (ld_size e)" "ld_ilist e" "ld_name e @ b"]
  by (simp add: entry_ok_def bytes_entry_def entry_bytes_def)

lemma drop_entries:
  assumes "\<forall>e \<in> set es. entry_ok e" "i < length es"
  shows "\<exists>b. drop (24 * i) (concat (map entry_bytes es) @ p) = entry_bytes (es ! i) @ b"
  using assms
proof (induction es arbitrary: i)
  case (Cons e es)
  have l: "length (entry_bytes e) = 24" using Cons.prems(1) length_entry_bytes by simp
  show ?case
  proof (cases i)
    case 0
    then show ?thesis by auto
  next
    case (Suc j)
    have "drop (24 * i) (entry_bytes e @ b) = drop (24 * j) b" for b using Suc l by simp
    then have "drop (24 * i) (concat (map entry_bytes (e # es)) @ p) = drop (24 * j) (concat (map entry_bytes es) @ p)"
      by (simp only: list.map concat.simps append_assoc)
    then show ?thesis using Cons.IH [of j] Cons.prems Suc by (simp only: nth_Cons_Suc) simp
  qed
qed simp

lemma length_entries: "(\<forall>e \<in> set es. entry_ok e) \<Longrightarrow> length (concat (map entry_bytes es)) = 24 * length es"
  by (induction es) (simp_all add: length_entry_bytes)

lemma bytes_dir_bytes:
  assumes "dir_ok d"
  shows "length (dir_bytes d) = 512" "bytes_dir (dir_bytes d) = d"
proof -
  let ?h = "int_bytes (lfd_dfree d) @ int_bytes (lfd_ifree d) @ int_bytes (lfd_nfiles d)" and ?f = "concat (map entry_bytes (lfd_files d))"
  have b: "dir_bytes d = ?h @ ?f @ lfd_padding d" by (simp add: dir_bytes_def)
  have l: "length ?f = 480" "length ?h = 12" using assms length_entries [of "lfd_files d"] by (simp_all add: dir_ok_def)
  then show "length (dir_bytes d) = 512" using assms b by (simp add: dir_ok_def)
  have i: "int_at 0 (dir_bytes d) = lfd_dfree d" "int_at 4 (dir_bytes d) = lfd_ifree d" "int_at 8 (dir_bytes d) = lfd_nfiles d"
    using assms int_at_append [of 4 "int_bytes (lfd_dfree d)" "lfd_ifree d"]
      int_at_append [of 8 "int_bytes (lfd_dfree d) @ int_bytes (lfd_ifree d)" "lfd_nfiles d"]
    by (simp_all add: b dir_ok_def)
  have e: "bytes_entry (drop (12 + 24 * i) (dir_bytes d)) = lfd_files d ! i" if k: "i < 20" for i
  proof -
    have es: "\<forall>e \<in> set (lfd_files d). entry_ok e" "i < length (lfd_files d)" using assms k by (simp_all add: dir_ok_def)
    obtain c where "drop (24 * i) (?f @ lfd_padding d) = entry_bytes (lfd_files d ! i) @ c"
      using drop_entries [OF es, of "lfd_padding d"] by blast
    then have "drop (12 + 24 * i) (dir_bytes d) = entry_bytes (lfd_files d ! i) @ c"
      unfolding b using l(2) by (simp add: drop_append)
    then show ?thesis using bytes_entry_bytes es by simp
  qed
  have "map (\<lambda>i. bytes_entry (drop (12 + 24 * i) (dir_bytes d))) [0..<20] = lfd_files d"
    using e assms by (intro nth_equalityI) (simp_all add: dir_ok_def)
  moreover have "take 20 (drop 492 (dir_bytes d)) = lfd_padding d" using l assms by (simp add: b dir_ok_def)
  ultimately show "bytes_dir (dir_bytes d) = d" using i by (simp add: bytes_dir_def)
qed

subsection \<open>The lists of free blocks\<close>

lemma link_iblocks_ok:
  assumes "0 \<le> i" "ib2sect (i + int n) < 200" "length (ib_dba b) = LF_IBLEN" "\<forall>d \<in> set (ib_dba b). in_int32 d"
  shows "\<exists>r. link_iblocks n i b w = Some (w\<lparr>ram := r\<rparr>) \<and>
    (\<forall>k \<ge> 0. rindex r k = (if i \<le> k \<and> k \<le> i + int n then b\<lparr>ib_next := if k = i + int n then - 1 else k + 1\<rparr> else rindex (ram w) k)) \<and>
    (\<forall>c \<ge> 0. c < 1 \<or> ib2sect (i + int n) < c \<longrightarrow> rblock r c = rblock (ram w) c)"
  using assms
proof (induction n arbitrary: i w)
  case 0
  have ok: "iblk_ok (b\<lparr>ib_next := - 1\<rparr>)" using 0 by (simp add: iblk_ok_def in_int32_def)
  have s: "1 \<le> ib2sect i" using 0 by (simp add: ib2sect_def)
  have "rblock (put_index i (b\<lparr>ib_next := - 1\<rparr>) (ram w)) c = rblock (ram w) c" if "0 \<le> c" "c < 1 \<or> ib2sect i < c" for c
    using rblock_put_index [OF ok 0(1) that(1)] that s by auto
  then show ?case using 0 lfibput_ok [of i "b\<lparr>ib_next := - 1\<rparr>" w] rindex_put [OF ok 0(1)] by auto
next
  case (Suc n)
  let ?b = "b\<lparr>ib_next := i + 1\<rparr>" and ?w = "w\<lparr>ram := put_index i (b\<lparr>ib_next := i + 1\<rparr>) (ram w)\<rparr>"
  have le: "ib2sect i \<le> ib2sect (i + int (Suc n))" by (simp add: ib2sect_def zdiv_mono1)
  have i: "i < 1400" using Suc.prems(2) by (simp add: ib2sect_def)
  have ok: "iblk_ok ?b" using Suc.prems i by (simp add: iblk_ok_def in_int32_def)
  have put: "lfibput i ?b w = Some (OK, ?w)" using lfibput_ok [OF Suc.prems(1)] le Suc.prems(2) by simp
  have e: "i + 1 + int n = i + int (Suc n)" by simp
  obtain r where r: "link_iblocks n (i + 1) b ?w = Some (w\<lparr>ram := r\<rparr>)"
    "\<forall>k \<ge> 0. rindex r k = (if i + 1 \<le> k \<and> k \<le> i + 1 + int n then b\<lparr>ib_next := if k = i + 1 + int n then - 1 else k + 1\<rparr> else rindex (ram ?w) k)"
    "\<forall>c \<ge> 0. c < 1 \<or> ib2sect (i + 1 + int n) < c \<longrightarrow> rblock r c = rblock (ram ?w) c"
    using Suc.IH [of "i + 1" ?w] Suc.prems e by auto
  have "rindex r k = (if i \<le> k \<and> k \<le> i + int (Suc n) then b\<lparr>ib_next := if k = i + int (Suc n) then - 1 else k + 1\<rparr> else rindex (ram w) k)"
    if k: "0 \<le> k" for k
    using r(2) k rindex_put [OF ok Suc.prems(1) k] unfolding e by auto
  moreover have "rblock r c = rblock (ram w) c" if c: "0 \<le> c" "c < 1 \<or> ib2sect (i + int (Suc n)) < c" for c
  proof -
    have "1 \<le> ib2sect i" using Suc.prems(1) by (simp add: ib2sect_def)
    then have "c \<noteq> ib2sect i" using c(2) le by auto
    then have "rblock (ram ?w) c = rblock (ram w) c" using rblock_put_index [OF ok Suc.prems(1) c(1)] by simp
    then show ?thesis using r(3) c unfolding e by metis
  qed
  moreover have "link_iblocks (Suc n) i b w = Some (w\<lparr>ram := r\<rparr>)" using put r(1) by simp
  ultimately show ?case by blast
qed

lemma link_dblocks_ok:
  assumes "0 \<le> d" "d + int n < 200"
  shows "\<exists>r. link_dblocks n d w = Some (w\<lparr>ram := r\<rparr>) \<and>
    (\<forall>c \<ge> 0. rblock r c = (if d \<le> c \<and> c \<le> d + int n then free_node (if c = d + int n then - 1 else c + 1) else rblock (ram w) c))"
  using assms
proof (induction n arbitrary: d w)
  case 0
  have "length (free_node (- 1)) = 512" by (simp add: free_node_def)
  then show ?case using 0 by (auto simp: ramwrite_ok)
next
  case (Suc n)
  have l: "length (free_node (d + 1)) = 512" by (simp add: free_node_def)
  let ?w = "w\<lparr>ram := put_block d (free_node (d + 1)) (ram w)\<rparr>"
  have e: "d + 1 + int n = d + int (Suc n)" by simp
  obtain r where r: "link_dblocks n (d + 1) ?w = Some (w\<lparr>ram := r\<rparr>)"
    "\<forall>c \<ge> 0. rblock r c = (if d + 1 \<le> c \<and> c \<le> d + 1 + int n then free_node (if c = d + 1 + int n then - 1 else c + 1) else rblock (ram ?w) c)"
    using Suc.IH [of "d + 1" ?w] Suc.prems e by auto
  have "rblock r c = (if d \<le> c \<and> c \<le> d + int (Suc n) then free_node (if c = d + int (Suc n) then - 1 else c + 1) else rblock (ram w) c)"
    if "0 \<le> c" for c
    using r(2) that l Suc.prems(1) unfolding e by auto
  moreover have "link_dblocks (Suc n) d w = Some (w\<lparr>ram := r\<rparr>)" using r(1) ramwrite_ok [of d "free_node (d + 1)" w] Suc.prems by simp
  ultimately show ?case by blast
qed

lemma int_at_free_node: "in_int32 d \<Longrightarrow> int_at 0 (free_node d) = d"
  by (simp add: free_node_def)

lemma chain_upto:
  assumes "\<And>k. a \<le> k \<Longrightarrow> k \<le> b \<Longrightarrow> nx k = (if k = b then - 1 else k + 1)" "a \<le> b"
  shows "chain nx a [a..b]"
proof -
  have "chain nx k [k..b]" if "a \<le> k" "k \<le> b" for k
    using that
  proof (induction "nat (b - k)" arbitrary: k)
    case 0
    then have "k = b" by simp
    then show ?case using assms(1) [of b] 0 by simp
  next
    case (Suc n)
    then have k: "k < b" "n = nat (b - (k + 1))" by simp_all
    then have "chain nx (k + 1) [k + 1..b]" using Suc.hyps(1) [of "k + 1"] Suc.prems by simp
    then show ?case using assms(1) [of k] Suc.prems k(1) by (simp add: upto_rec1)
  qed
  then show ?thesis using assms(2) by simp
qed

subsection \<open>\<open>lfscreate\<close>\<close>

definition new_dir :: "int \<Rightarrow> lfdir" where
  "new_dir n = zero_dir\<lparr>lfd_nfiles := 0, lfd_dfree := n + 1\<rparr>"

text \<open>A disk of \<open>s\<close> sectors with \<open>n\<close> sectors of index blocks and no file.\<close>

definition fresh_disk :: "int \<Rightarrow> int \<Rightarrow> (nat \<Rightarrow> u8) \<Rightarrow> bool" where
  "fresh_disk n s r \<longleftrightarrow> rblock r 0 = dir_bytes (new_dir n) \<and>
     (\<forall>k \<in> {0..<7 * n}. ib_next (rindex r k) = (if k = 7 * n - 1 then - 1 else k + 1)) \<and>
     (\<forall>c \<in> {n<..<s}. int_at 0 (rblock r c) = (if c = s - 1 then - 1 else c + 1))"

lemma new_dir_ok: "0 \<le> n \<Longrightarrow> n < 200 \<Longrightarrow> dir_ok (new_dir n)"
  by (simp add: new_dir_def dir_ok_def zero_dir_def in_int32_def entry_ok_def)

lemma fresh_disk_chains:
  assumes "fresh_disk n s r" "1 \<le> n" "n + 1 < s"
  shows "chain (\<lambda>i. ib_next (rindex r i)) 0 [0..7 * n - 1]" "chain (\<lambda>d. int_at 0 (rblock r d)) (n + 1) [n + 1..s - 1]"
proof -
  show "chain (\<lambda>i. ib_next (rindex r i)) 0 [0..7 * n - 1]"
    by (rule chain_upto) (use assms in \<open>auto simp: fresh_disk_def\<close>)
  show "chain (\<lambda>d. int_at 0 (rblock r d)) (n + 1) [n + 1..s - 1]"
    by (rule chain_upto) (use assms in \<open>auto simp: fresh_disk_def\<close>)
qed

definition disk_args :: "int \<Rightarrow> u32 \<Rightarrow> int \<Rightarrow> int \<Rightarrow> bool" where
  "disk_args lfiblks dsiz n s \<longleftrightarrow> 1 \<le> lfiblks \<and> n = (lfiblks + 6) div 7 \<and> s = int (unat dsiz div 512) \<and> n \<le> s div 2 \<and> 3 \<le> s \<and> s \<le> 200"

lemma unat_word_of_int32: "0 \<le> k \<Longrightarrow> k < 4294967296 \<Longrightarrow> unat (word_of_int k :: u32) = nat k"
  by (simp add: unat_eq_nat_uint uint_word_of_int)

lemma disk_args_words:
  assumes "disk_args lfiblks dsiz n s"
  shows "1 \<le> n" "n \<le> 100" "n + 1 < s" "dsiz div 512 = word_of_int s" "(word_of_int lfiblks + 6) div 7 = (word_of_int n :: u32)"
proof -
  have a: "1 \<le> lfiblks" "n = (lfiblks + 6) div 7" "n \<le> s div 2" "3 \<le> s" "s \<le> 200" using assms by (auto simp: disk_args_def)
  show n: "1 \<le> n" "n \<le> 100" "n + 1 < s" using a by linarith+
  have "uint (dsiz div 512) = s" 
  proof -
    have "int (unat dsiz div 512) = uint dsiz div 512" by (simp add: zdiv_int)
    then show ?thesis using assms by (simp add: disk_args_def uint_div_distrib)
  qed
  then show "dsiz div 512 = word_of_int s" by (metis word_of_int_uint)
  have u: "uint (word_of_int lfiblks + 6 :: u32) = lfiblks + 6"
  proof -
    have "lfiblks + 6 < 4294967296" "0 \<le> lfiblks + 6" using a by linarith+
    then show ?thesis using a by (simp add: uint_word_ariths uint_word_of_int)
  qed
  have "uint ((word_of_int lfiblks + 6 :: u32) div 7) = n" using u a(2) by (simp add: uint_div_distrib)
  then show "(word_of_int lfiblks + 6) div 7 = (word_of_int n :: u32)" by (metis word_of_int_uint)
qed

lemma lfscreate_ok:
  assumes d: "disk_args lfiblks dsiz n s"
  shows "\<exists>r. lfscreate lfiblks dsiz w = Some (OK, w\<lparr>ram := r\<rparr>) \<and> fresh_disk n s r"
proof -
  note A = disk_args_words [OF d]
  have s: "s \<le> 200" "n \<le> s div 2" using d by (auto simp: disk_args_def)
  have w7: "sint (word_of_int n * 7 :: u32) = 7 * n" "sint (word_of_int n + 1 :: u32) = n + 1"
    using sint_word_of_int32 [of "7 * n"] sint_word_of_int32 [of "n + 1"] A(1,2) by (simp_all add: in_int32_def mult.commute)
  have us: "uint (word_of_int s :: u32) = s" "uint (word_of_int n :: u32) = n" using A(1,2,3) s by (simp_all add: uint_word_of_int)
  have half: "\<not> (word_of_int n :: u32) > word_of_int s div 2" 
  proof -
    have "uint (word_of_int s div 2 :: u32) = s div 2" using us(1) by (simp add: uint_div_distrib)
    then show ?thesis using us(2) s(2) by (simp only: word_less_def not_less)
  qed
  have db: "unat ((word_of_int s - word_of_int n - 1 :: u32) - 1) = nat (s - n - 2)"
  proof -
    have "(word_of_int s - word_of_int n - 1 :: u32) - 1 = word_of_int (s - n - 1 - 1)"
      by (simp only: of_int_diff of_int_1)
    then have e: "(word_of_int s - word_of_int n - 1 :: u32) - 1 = word_of_int (s - n - 2)" by simp
    have "0 \<le> s - n - 2" "s - n - 2 < 4294967296" using A(1,3) s(1) by linarith+
    then show ?thesis unfolding e by (rule unat_word_of_int32)
  qed
  let ?b = "lfibclear 0 \<lparr>ib_next = 0, ib_offset = 0, ib_dba = []\<rparr>" and ?w = "w\<lparr>ram := put_block 0 (dir_bytes (new_dir n)) (ram w)\<rparr>"
  have l0: "length (dir_bytes (new_dir n)) = 512" using bytes_dir_bytes(1) new_dir_ok A by simp
  have 0: "ramwrite (dir_bytes (new_dir n)) LF_AREA_DIR w = Some (OK, ?w)" by (simp add: ramwrite_ok)
  have e: "0 + int (nat (7 * n - 1)) = 7 * n - 1" using A(1) by simp
  have sec: "ib2sect (7 * n - 1) = n" by (simp add: ib2sect_def)
  obtain r1 where 1: "link_iblocks (nat (7 * n - 1)) 0 ?b ?w = Some (w\<lparr>ram := r1\<rparr>)"
    "\<forall>k \<ge> 0. rindex r1 k = (if 0 \<le> k \<and> k \<le> 7 * n - 1 then ?b\<lparr>ib_next := if k = 7 * n - 1 then - 1 else k + 1\<rparr> else rindex (ram ?w) k)"
    "\<forall>c \<ge> 0. c < 1 \<or> n < c \<longrightarrow> rblock r1 c = rblock (ram ?w) c"
    using link_iblocks_ok [of 0 "nat (7 * n - 1)" ?b ?w, unfolded e sec] A(2) by (auto simp: lfibclear_def in_int32_def)
  have e2: "n + 1 + int (nat (s - n - 2)) = s - 1" using A(3) by simp
  obtain r where 2: "link_dblocks (nat (s - n - 2)) (n + 1) (w\<lparr>ram := r1\<rparr>) = Some (w\<lparr>ram := r\<rparr>)"
    "\<forall>c \<ge> 0. rblock r c = (if n + 1 \<le> c \<and> c \<le> s - 1 then free_node (if c = s - 1 then - 1 else c + 1) else rblock r1 c)"
    using link_dblocks_ok [of "n + 1" "nat (s - n - 2)" "w\<lparr>ram := r1\<rparr>", unfolded e2] A s by auto
  have dir: "zero_dir\<lparr>lfd_nfiles := 0, lfd_dfree := n + 1\<rparr> = new_dir n" by (simp add: new_dir_def)
  have run: "lfscreate lfiblks dsiz w = Some (OK, w\<lparr>ram := r\<rparr>)"
    using 0 1(1) 2(1) half w7 db A(4,5) by (simp add: lfscreate_def Let_def dir) (simp add: new_dir_def)
  have "rblock r 0 = dir_bytes (new_dir n)" using 2(2) 1(3) l0 A(1) by simp
  moreover have "ib_next (rindex r k) = (if k = 7 * n - 1 then - 1 else k + 1)" if k: "k \<in> {0..<7 * n}" for k
  proof -
    have "1 \<le> ib2sect k" "ib2sect k \<le> n" using index_sector k by auto
    then have "rindex r k = rindex r1 k" using 2(2) by (simp add: rindex_def)
    then show ?thesis using 1(2) k by simp
  qed
  moreover have "int_at 0 (rblock r c) = (if c = s - 1 then - 1 else c + 1)" if "c \<in> {n<..<s}" for c
    using that 2(2) A(1) s(1) int_at_free_node by (simp add: in_int32_def)
  ultimately have "fresh_disk n s r" by (simp add: fresh_disk_def)
  then show ?thesis using run by blast
qed

text \<open>What \<open>lfsckfmt\<close> counts: the length of the two lists.\<close>

lemma count_iblocks_chain:
  "chain (\<lambda>i. ib_next (rindex (ram w) i)) a is \<Longrightarrow> (\<forall>i \<in> set is. 0 \<le> i \<and> ib2sect i < 200) \<Longrightarrow>
     count_iblocks a m w = Some (m + int (length is))"
proof (induction "is" arbitrary: a m)
  case Nil
  then show ?case by (subst count_iblocks.simps) simp
next
  case (Cons i "is")
  then have "a = i" "lfibget i w = Some (rindex (ram w) i)" using lfibget_ok by simp_all
  then show ?case using Cons by (subst count_iblocks.simps) simp
qed

lemma count_dblocks_chain:
  "chain (\<lambda>d. int_at 0 (rblock (ram w) d)) a ds \<Longrightarrow> (\<forall>d \<in> set ds. 0 \<le> d \<and> d < 200) \<Longrightarrow>
     count_dblocks a m w = Some (m + int (length ds))"
proof (induction ds arbitrary: a m)
  case Nil
  then show ?case by (subst count_dblocks.simps) simp
next
  case (Cons d ds)
  then have "a = d" "ramread d w = Some (OK, rblock (ram w) d)" using ramread_ok by simp_all
  then show ?case using Cons by (subst count_dblocks.simps) simp
qed

lemma lfsckfmt_fresh:
  assumes "fresh_disk n s (ram w)" "1 \<le> n" "n + 1 < s" "s \<le> 200"
  shows "lfsckfmt w = Some (7 * n, s - n - 1)"
proof -
  note C = fresh_disk_chains [OF assms(1-3)]
  have dir: "bytes_dir (rblock (ram w) 0) = new_dir n"
    using assms bytes_dir_bytes(2) [OF new_dir_ok, of n] by (simp add: fresh_disk_def)
  have i: "\<forall>i \<in> set [0..7 * n - 1]. 0 \<le> i \<and> ib2sect i < 200" using index_sector [of _ n] assms(3,4) by fastforce
  have d: "\<forall>d \<in> set [n + 1..s - 1]. 0 \<le> d \<and> d < 200" using assms by auto
  show ?thesis
    using count_iblocks_chain [OF C(1) i, of 0] count_dblocks_chain [OF C(2) d, of 0] assms(2,3)
    by (simp add: lfsckfmt_def ramread_ok dir) (simp add: new_dir_def zero_dir_def)
qed

end
