(* ===== verification/LfsOpen.thy ===== *)
theory LfsOpen
  imports LfsFormat
begin

text \<open>
  Opening and closing: a file that is open and one that is only on the disk, the first file of a new
  file system, and a file that is closed and opened again.
\<close>

subsection \<open>A file on the disk\<close>

definition on_disk :: "layout \<Rightarrow> fs \<Rightarrow> bool" where
  "on_disk g w \<longleftrightarrow> placed_ok g \<and> free_ok g w \<and> entry g < length (lfd_files (lf_dir w)) \<and>
     length (dbs g) = (file_size g w + 511) div 512 \<and> length (ibs g) = (file_size g w + 8191) div 8192 \<and>
     length (dbs g) \<le> 16 * length (ibs g) \<and> ld_ilist (dent g w) = hd_or (ibs g) (- 1) \<and>
     (\<forall>k < length (ibs g). rindex (ram w) (ibs g ! k) = idx_block (ibs g) (dbs g) k) \<and>
     length (blks g) = length (dbs g) \<and> (\<forall>b \<in> set (blks g). length b = 512) \<and>
     (\<forall>j < length (dbs g). rblock (ram w) (dbs g ! j) = blks g ! j)"

lemma flushed_on_disk:
  assumes "file_ok g w" "\<not> lfibdirty (cblk g w)" "\<not> lfdbdirty (cblk g w)"
  shows "on_disk g w"
proof -
  note f = file_okD [OF assms(1)]
  note c = coreD [OF f(1)]
  show ?thesis using c(1,2,3,4,7) f(2,3) assms(2,3) by (auto simp: on_disk_def index_ok_def data_ok_def)
qed

lemma on_disk_keeps:
  assumes "on_disk g w" "lf_dir w' = lf_dir w" "ram w' = ram w" "nsect h = nsect g" "entry h = entry g" "ibs h = ibs g"
    "dbs h = dbs g" "blks h = blks g" "ifree h = ifree g" "dfree h = dfree g" "oi h = oi g" "od h = od g"
  shows "on_disk h w'" "file_size h w' = file_size g w" "contents h w' = contents g w"
  using assms by (simp_all add: on_disk_def placed_ok_def free_ok_def file_size_def contents_def)

lemma opened_file:
  fixes mbits :: int and name :: "u8 list"
  assumes d: "on_disk g w" and l: "length (lfdblock (cblk g w)) = 512"
  defines "v \<equiv> open_device (minor g) (entry g) name mbits w"
  shows "file_ok g v" "contents g v = contents g w" "file_pos g v = 0" "fk v = fk w" "lf_mutex v = lf_mutex w"
    "lfmutex (cblk g v) = lfmutex (cblk g w)"
proof -
  have s: "file_size g v = file_size g w" by (simp add: v_def open_device_def file_size_def)
  then show "contents g v = contents g w" by (simp add: contents_def)
  show p: "file_pos g v = 0" by (simp add: v_def open_device_def file_pos_def)
  have "index_ok g v" "free_ok g v" "data_ok False g v"
    using d l by (simp_all add: on_disk_def index_ok_def free_ok_def data_ok_def v_def open_device_def)
  then have "core False g v" using d by (simp add: core_def on_disk_def v_def open_device_def)
  moreover have "\<not> lfbyte (cblk g v) < 512" by (simp add: v_def open_device_def)
  ultimately show "file_ok g v" using d s p by (simp add: file_ok_def on_disk_def)
  show "fk v = fk w" "lf_mutex v = lf_mutex w" "lfmutex (cblk g v) = lfmutex (cblk g w)" by (simp_all add: v_def open_device_def)
qed

subsection \<open>\<open>lfsopen\<close>\<close>

definition with_dir :: "fs \<Rightarrow> fs" where
  "with_dir w = (if lf_dirpresent w then w else w\<lparr>lf_dir := bytes_dir (rblock (ram w) 0), lf_dirpresent := True\<rparr>)"

lemma with_dir_fields [simp]:
  "fk (with_dir w) = fk w" "ram (with_dir w) = ram w" "lf_mutex (with_dir w) = lf_mutex w" "lfltab (with_dir w) = lfltab w"
  "with_dir (w\<lparr>fk := s\<rparr>) = (with_dir w)\<lparr>fk := s\<rparr>"
  by (simp_all add: with_dir_def)

lemma open_entry_fields:
  assumes "open_entry name mbits w = Some (Some (i, w'))"
  shows "fk w' = fk w" "ram w' = ram w" "lf_mutex w' = lf_mutex w" "lfltab w' = lfltab w"
    "open_entry name mbits (w\<lparr>fk := s\<rparr>) = Some (Some (i, w'\<lparr>fk := s\<rparr>))"
  using assms by (auto simp: open_entry_def Let_def upd_dir_def upd_ent_def split: option.splits if_splits Option.bind_splits)

lemma find_device_fk [simp]: "find_device n i name x (w\<lparr>fk := s\<rparr>) = find_device n i name x w"
  by (induction n arbitrary: i x) (simp_all add: Let_def)

lemma lfsopen_ok:
  assumes n: "length name < LF_NAME_LEN" "lfgetmode mode \<noteq> SYSERR"
    and m: "find_device Nlfl 0 name SYSERR w = Some m" "m \<noteq> SYSERR" and l: "sem_idle (lf_mutex w) (fk w)"
    and e: "open_entry name (lfgetmode mode) (with_dir w) = Some (Some (i, u))"
  shows "lfsopen name mode w = Some (Ret (lfdev (lfltab w m)), open_device m i name (lfgetmode mode) u)"
proof -
  let ?h = "w\<lparr>fk := set_scount (lf_mutex w) 0 (fk w)\<rparr>" and ?s = "set_scount (lf_mutex w) 0 (fk w)"
  note E = open_entry_fields [OF e]
  have d: "(if lf_dirpresent ?h then Some (OK, ?h)
      else map_option (\<lambda>(r, b). (r, if r = SYSERR then ?h else ?h\<lparr>lf_dir := bytes_dir b, lf_dirpresent := True\<rparr>)) (ramread LF_AREA_DIR ?h))
      = Some (OK, with_dir ?h)"
    by (simp add: with_dir_def ramread_ok)
  let ?v = "open_device m i name (lfgetmode mode) (u\<lparr>fk := ?s\<rparr>)"
  have v: "lf_mutex ?v = lf_mutex w" "fk ?v = ?s" "lfdev (lfltab ?v m) = lfdev (lfltab w m)"
    using E by (simp_all add: open_device_def)
  have "fsignal (lf_mutex ?v) ?v = Some (Ret (), ?v\<lparr>fk := fk w\<rparr>)" using fsignal_back [OF _ l] v by simp
  moreover have "?v\<lparr>fk := fk w\<rparr> = open_device m i name (lfgetmode mode) u" using E(1) by (simp add: open_device_def upd_lfl_def)
  ultimately have f: "andthen (fsignal (lf_mutex ?v)) (\<lambda>_. give (lfdev (lfltab ?v m))) ?v =
      Some (Ret (lfdev (lfltab w m)), open_device m i name (lfgetmode mode) u)" using v(3) by (simp add: give_def)
  have o: "open_entry name (lfgetmode mode) (with_dir ?h) = Some (Some (i, u\<lparr>fk := ?s\<rparr>))" using E(5) by simp
  show ?thesis
    unfolding lfsopen_def Let_def using n m fwait_idle [OF l] d o f by (simp add: not_le)
qed

text \<open>The semaphores of the file system and of a file device, free.\<close>

definition device_idle :: "int \<Rightarrow> fs \<Rightarrow> bool" where
  "device_idle m w \<longleftrightarrow> sem_idle (lf_mutex w) (fk w) \<and> sem_idle (lfmutex (lfltab w m)) (fk w) \<and> lf_mutex w \<noteq> lfmutex (lfltab w m) \<and>
     length (lfdblock (lfltab w m)) = LF_BLKSIZ"

lemma locks_idle_device: "locks_idle g w \<longleftrightarrow> sem_idle (lf_mutex w) (fk w) \<and> sem_idle (lfmutex (lfltab w (minor g))) (fk w) \<and>
    lf_mutex w \<noteq> lfmutex (lfltab w (minor g))"
  by (simp add: locks_idle_def)

subsection \<open>The first file\<close>

definition fresh_layout :: "int \<Rightarrow> int \<Rightarrow> int \<Rightarrow> layout" where
  "fresh_layout n s m = \<lparr>nsect = n, minor = m, entry = 0, ibs = [], dbs = [], blks = [], ifree = [0..7 * n - 1],
     dfree = [n + 1..s - 1], oi = {}, od = {}\<rparr>"

lemma fresh_layout_fields [simp]: "minor (fresh_layout n s m) = m" "entry (fresh_layout n s m) = 0"
  by (simp_all add: fresh_layout_def)

lemma fresh_entry:
  assumes "fresh_disk n s (ram w)" "1 \<le> n" "n + 1 < s" "s \<le> 200" "\<not> lf_dirpresent w" "and mbits LF_MODE_O = 0"
  shows "\<exists>u. open_entry name mbits (with_dir w) = Some (Some (0, u)) \<and> on_disk (fresh_layout n s m) u \<and> file_size (fresh_layout n s m) u = 0"
proof -
  have dir: "lf_dir (with_dir w) = new_dir n"
    using assms(1-5) bytes_dir_bytes(2) [OF new_dir_ok, of n] by (simp add: with_dir_def fresh_disk_def)
  let ?e = "\<lambda>e. \<lparr>ld_size = 0, ld_ilist = LF_INULL, ld_name = copy_name name (ld_name e)\<rparr>"
  let ?u = "upd_ent 0 ?e (upd_dir (\<lambda>d. d\<lparr>lfd_nfiles := lfd_nfiles d + 1\<rparr>) (with_dir w))"
  have z: "lfd_nfiles (new_dir n) = 0" "lfd_ifree (new_dir n) = 0" "lfd_dfree (new_dir n) = n + 1" "length (lfd_files (new_dir n)) = 20"
    by (simp_all add: new_dir_def zero_dir_def)
  have "open_entry name mbits (with_dir w) = Some (Some (0, ?u))" using assms(6) by (simp add: open_entry_def dir z Let_def)
  moreover have "free_ok (fresh_layout n s m) ?u"
    using fresh_disk_chains [OF assms(1-3)] by (simp add: free_ok_def fresh_layout_def upd_ent_def upd_dir_def dir z)
  moreover have "placed_ok (fresh_layout n s m)" using assms(2-4) by (auto simp: placed_ok_def fresh_layout_def)
  moreover have "dent (fresh_layout n s m) ?u = ?e (lfd_files (new_dir n) ! 0)"
    by (simp add: upd_ent_def upd_dir_def dir z fresh_layout_def)
  moreover have "length (lfd_files (lf_dir ?u)) = 20" by (simp add: upd_ent_def upd_dir_def dir z)
  ultimately show ?thesis by (auto simp: on_disk_def file_size_def fresh_layout_def)
qed

lemma first_file:
  assumes f: "fresh_disk n s (ram w)" "1 \<le> n" "n + 1 < s" "s \<le> 200" "\<not> lf_dirpresent w" "and (lfgetmode mode) LF_MODE_O = 0"
    and n: "length name < LF_NAME_LEN" "lfgetmode mode \<noteq> SYSERR" and m: "find_device Nlfl 0 name SYSERR w = Some m" "m \<noteq> SYSERR"
    and i: "device_idle m w"
  shows "\<exists>w'. lfsopen name mode w = Some (Ret (lfdev (lfltab w m)), w') \<and> is_file (fresh_layout n s m) w' [] 0 w'"
proof -
  let ?g = "fresh_layout n s m"
  obtain u where u: "open_entry name (lfgetmode mode) (with_dir w) = Some (Some (0, u))" "on_disk ?g u" "file_size ?g u = 0"
    using fresh_entry [OF f, of name m] by blast
  note E = open_entry_fields [OF u(1)]
  let ?v = "open_device m 0 name (lfgetmode mode) u"
  have g: "minor ?g = m" "entry ?g = 0" by simp_all
  have l: "length (lfdblock (lfltab u (minor ?g))) = 512" using i E g by (simp add: device_idle_def)
  have "lfsopen name mode w = Some (Ret (lfdev (lfltab w m)), ?v)"
    using lfsopen_ok [OF n m _ u(1)] i by (simp add: device_idle_def)
  moreover note O = opened_file [OF u(2) l, of name "lfgetmode mode", unfolded g]
  have "locks_idle ?g ?v" using i O(4,5,6) E g by (simp add: device_idle_def locks_idle_device)
  moreover have "contents ?g ?v = []" using O(2) u(3) by (simp add: contents_def)
  ultimately show ?thesis using is_file_start [OF O(1)] O(3) by metis
qed

subsection \<open>Closing and opening again\<close>

text \<open>The buffers are written back when they have to be.\<close>

lemma flush_if:
  assumes c: "core False g w" and b: "lfibdirty (cblk g w) \<or> lfdbdirty (cblk g w) \<Longrightarrow> b"
  obtains u where "(if b then map_option snd (lfflush (minor g) w) else Some w) = Some u" "core False g u" "others_same g w u"
    "lf_dir u = lf_dir w" "\<not> lfibdirty (cblk g u)" "\<not> lfdbdirty (cblk g u)"
proof (cases b)
  case True
  obtain u where "lfflush (minor g) w = Some (OK, u)" "core False g u" "others_same g w u" "lf_dir u = lf_dir w"
    "\<not> lfibdirty (cblk g u)" "\<not> lfdbdirty (cblk g u)"
    using lfflush_ok [OF c] by metis
  then show ?thesis using that True by simp
next
  case False
  then show ?thesis using that [of w] c b by auto
qed

lemma lflclose_ok:
  assumes f: "file_ok g w" and l: "locks_idle g w"
  obtains w' where "lflclose (minor g) w = Some (Ret OK, w')" "on_disk g w'" "contents g w' = contents g w" "others_same g w w'"
    "lfstate (cblk g w') = LF_FREE" "lf_dir w' = lf_dir w" "length (lfdblock (cblk g w')) = 512"
proof -
  let ?m = "minor g" and ?k = "lfmutex (cblk g w)"
  let ?h = "w\<lparr>fk := set_scount ?k 0 (fk w)\<rparr>"
  have k: "sem_idle ?k (fk w)" using l by (simp add: locks_idle_def)
  have fh: "file_ok g ?h" using f by simp
  note C = file_okD [OF fh]
  obtain u where u: "(if lf_dirdirty ?h \<or> lfdbdirty (cblk g ?h) \<or> lfibdirty (cblk g ?h) then map_option snd (lfflush ?m ?h) else Some ?h) = Some u"
    "core False g u" "others_same g ?h u" "lf_dir u = lf_dir w" "\<not> lfibdirty (cblk g u)" "\<not> lfdbdirty (cblk g u)"
    using flush_if [OF C(1), of "lf_dirdirty ?h \<or> lfdbdirty (cblk g ?h) \<or> lfibdirty (cblk g ?h)"] by auto
  let ?v = "upd_lfl ?m (\<lambda>c. c\<lparr>lfstate := LF_FREE\<rparr>) u"
  have o: "others_same g ?h ?v" using u(3) by (rule others_trans) (rule others_upd_lfl, simp_all)
  have V: "fk ?v = set_scount ?k 0 (fk w)" "lfmutex (cblk g ?v) = ?k" using o by (simp_all add: others_same_def)
  have "leave ?m OK ?v = Some (Ret OK, ?v\<lparr>fk := fk w\<rparr>)" by (rule leave_ok) (use V k in simp_all)
  then have run: "lflclose ?m w = Some (Ret OK, ?v\<lparr>fk := fk w\<rparr>)"
    using fwait_idle [OF k] u(1) coreD(5) [OF C(1)] by (simp add: lflclose_def Let_def)
  have s: "file_size g u = file_size g w" using u(4) by (simp add: file_size_def)
  have d: "on_disk g u"
    using coreD [OF u(2)] file_okD(2,3) [OF f] s u(5,6) by (auto simp: on_disk_def index_ok_def data_ok_def)
  have "on_disk g (?v\<lparr>fk := fk w\<rparr>)" by (rule on_disk_keeps(1) [OF d]) simp_all
  moreover have "contents g (?v\<lparr>fk := fk w\<rparr>) = contents g w" using u(4) by (simp add: contents_def file_size_def)
  moreover have "length (lfdblock (cblk g u)) = 512" using coreD(4) [OF u(2)] by (simp add: data_ok_def)
  ultimately show ?thesis using that [OF run] others_fk(1) [OF o] u(4) by simp
qed

text \<open>Any free device will do for a file that is on the disk; its name must be the first that matches.\<close>

lemma open_again:
  assumes d: "on_disk g w" "lf_dirpresent w" "find_file (nat (lfd_nfiles (lf_dir w))) 0 name (lf_dir w) = Some (Some (entry g))"
    and n: "length name < LF_NAME_LEN" "lfgetmode mode \<noteq> SYSERR" "and (lfgetmode mode) LF_MODE_N = 0"
    and m: "find_device Nlfl 0 name SYSERR w = Some m" "m \<noteq> SYSERR" and i: "device_idle m w"
  shows "\<exists>w'. lfsopen name mode w = Some (Ret (lfdev (lfltab w m)), w') \<and> is_file (g\<lparr>minor := m\<rparr>) w' (contents g w) 0 w'"
proof -
  let ?g = "g\<lparr>minor := m\<rparr>" and ?v = "open_device m (entry g) name (lfgetmode mode) w"
  have wd: "with_dir w = w" using d(2) by (simp add: with_dir_def)
  have e: "open_entry name (lfgetmode mode) (with_dir w) = Some (Some (entry g, w))" using d(3) n(3) by (simp add: open_entry_def wd)
  have run: "lfsopen name mode w = Some (Ret (lfdev (lfltab w m)), ?v)"
    using lfsopen_ok [OF n(1,2) m _ e] i by (simp add: device_idle_def)
  have g: "on_disk ?g w" "contents ?g w = contents g w" using on_disk_keeps [OF d(1), of w ?g] by simp_all
  have l: "length (lfdblock (cblk ?g w)) = 512" using i by (simp add: device_idle_def)
  note O = opened_file [OF g(1) l, of name "lfgetmode mode", simplified]
  have "locks_idle ?g ?v" using i O(4,5,6) by (simp add: device_idle_def locks_idle_device)
  then show ?thesis using run is_file_start [OF O(1)] O(2,3) g(2) by metis
qed

end
