(* ===== verification/LfsTrunc.thy ===== *)
theory LfsTrunc
  imports LfsOpen
begin

text \<open>
  Truncation: \<open>lftruncate\<close> puts every block of the file on the free lists and leaves a file without bytes.
\<close>

subsection \<open>Data blocks\<close>

lemma int_at_put: "0 \<le> d \<Longrightarrow> in_int32 i \<Longrightarrow> int_at 0 (rblock (put_block d (int_bytes i @ x) r) d) = i"
proof -
  assume i: "in_int32 i"
  have "take 4 (rblock (put_block d (int_bytes i @ x) r) d) = int_bytes i"
    by (rule nth_equalityI) (simp_all add: rblock_def put_block_def nth_append)
  then have "int_at 0 (rblock (put_block d (int_bytes i @ x) r) d) = int_at 0 (int_bytes i)" by (simp add: int_at_def word32_at_def)
  then show ?thesis using i by simp
qed

abbreviation (input) nextd :: "(nat \<Rightarrow> u8) \<Rightarrow> int \<Rightarrow> int" where "nextd r \<equiv> \<lambda>d. int_at 0 (rblock r d)"
abbreviation (input) nexti :: "(nat \<Rightarrow> u8) \<Rightarrow> int \<Rightarrow> int" where "nexti r \<equiv> \<lambda>i. ib_next (rindex r i)"

lemma chain_head: "chain nx a xs \<Longrightarrow> a = hd_or xs (- 1)"
  by (cases xs) simp_all

lemma lfdbfree_ok:
  assumes "0 < d" "d < 200" "in_int32 (lfd_dfree (lf_dir w))"
  shows "\<exists>r. lfdbfree d w = Some (OK, w\<lparr>lf_dir := (lf_dir w)\<lparr>lfd_dfree := d\<rparr>, ram := r\<rparr>) \<and> nextd r d = lfd_dfree (lf_dir w) \<and>
    (\<forall>c > 0. c \<noteq> d \<longrightarrow> rblock r c = rblock (ram w) c)"
proof -
  let ?b = "int_bytes (lfd_dfree (lf_dir w)) @ take 508 (stale w)"
  let ?r = "put_block 0 (dir_bytes ((lf_dir w)\<lparr>lfd_dfree := d\<rparr>)) (put_block d ?b (ram w))"
  have "lfdbfree d w = Some (OK, w\<lparr>lf_dir := (lf_dir w)\<lparr>lfd_dfree := d\<rparr>, ram := ?r\<rparr>)"
    using assms by (simp add: lfdbfree_def ramwrite_ok write_dir_ok upd_dir_def Let_def)
  moreover have "nextd ?r d = lfd_dfree (lf_dir w)" using assms int_at_put by (simp add: rblock_put_other)
  moreover have "rblock ?r c = rblock (ram w) c" if "0 < c" "c \<noteq> d" for c using assms that by (simp add: rblock_put_other)
  ultimately show ?thesis by blast
qed

lemma free_dblocks_ok:
  assumes "\<forall>d \<in> set (ds @ fl). 0 < d \<and> d < 200" "distinct (ds @ fl)" "chain (nextd (ram w)) (lfd_dfree (lf_dir w)) fl"
  shows "\<exists>x r. free_dblocks ds w = Some (w\<lparr>lf_dir := (lf_dir w)\<lparr>lfd_dfree := x\<rparr>, ram := r\<rparr>) \<and> chain (nextd r) x (rev ds @ fl) \<and>
    (\<forall>c > 0. c \<notin> set ds \<longrightarrow> rblock r c = rblock (ram w) c)"
  using assms
proof (induction ds arbitrary: w fl)
  case Nil
  have "w = w\<lparr>lf_dir := (lf_dir w)\<lparr>lfd_dfree := lfd_dfree (lf_dir w)\<rparr>, ram := ram w\<rparr>" by simp
  then show ?case using Nil(3) by (metis append_Nil free_dblocks.simps(1) rev.simps(1))
next
  case (Cons d ds)
  have i: "in_int32 (lfd_dfree (lf_dir w))"
    using chain_head [OF Cons.prems(3)] Cons.prems(1) by (cases fl) (auto simp: in_int32_def)
  have d: "0 < d" "d < 200" "d \<notin> set fl" "d \<notin> set ds" using Cons.prems(1,2) by auto
  obtain r where r: "lfdbfree d w = Some (OK, w\<lparr>lf_dir := (lf_dir w)\<lparr>lfd_dfree := d\<rparr>, ram := r\<rparr>)" "nextd r d = lfd_dfree (lf_dir w)"
    "\<forall>c > 0. c \<noteq> d \<longrightarrow> rblock r c = rblock (ram w) c"
    using lfdbfree_ok [OF d(1,2) i] by blast
  let ?w = "w\<lparr>lf_dir := (lf_dir w)\<lparr>lfd_dfree := d\<rparr>, ram := r\<rparr>"
  have "nextd r c = nextd (ram w) c" if "c \<in> set fl" for c
  proof -
    have "0 < c" "c \<noteq> d" using that Cons.prems(1) d(3) by auto
    then show ?thesis using r(3) by simp
  qed
  then have "chain (nextd r) d (d # fl)" using Cons.prems(3) r(2) chain_cong [of fl "nextd r" "nextd (ram w)"] by simp
  moreover have "\<forall>c \<in> set (ds @ d # fl). 0 < c \<and> c < 200" "distinct (ds @ d # fl)" using Cons.prems(1,2) by auto
  ultimately obtain x r' where 2: "free_dblocks ds ?w = Some (?w\<lparr>lf_dir := (lf_dir ?w)\<lparr>lfd_dfree := x\<rparr>, ram := r'\<rparr>)"
    "chain (nextd r') x (rev ds @ d # fl)" "\<forall>c > 0. c \<notin> set ds \<longrightarrow> rblock r' c = rblock (ram ?w) c"
    using Cons.IH [of "d # fl" ?w] by (auto simp del: chain.simps)
  have "free_dblocks (d # ds) w = Some (w\<lparr>lf_dir := (lf_dir w)\<lparr>lfd_dfree := x\<rparr>, ram := r'\<rparr>)" using r(1) 2(1) d(1) by simp
  moreover have "chain (nextd r') x (rev (d # ds) @ fl)" using 2(2) by simp
  moreover have "\<forall>c > 0. c \<notin> set (d # ds) \<longrightarrow> rblock r' c = rblock (ram w) c" using 2(3) r(3) by simp
  ultimately show ?case by blast
qed

lemma free_nothing [simp]: "free_dblocks (replicate m (- 1)) w = Some w"
  by (induction m) simp_all

lemma free_dblocks_append: "free_dblocks (xs @ ys) w = Option.bind (free_dblocks xs w) (free_dblocks ys)"
  by (induction xs arbitrary: w) (auto split: Option.bind_splits)

lemma idx_block_dba:
  "ib_dba (idx_block is ds k) = take 16 (drop (16 * k) ds) @ replicate (16 - length (take 16 (drop (16 * k) ds))) (- 1)"
  by (rule nth_equalityI) (auto simp: idx_block_def nth_append)

text \<open>The data blocks of the first \<open>k\<close> index blocks have been freed.\<close>

lemma take_chunk: "rev (take (16 * (k + 1)) ds) = rev (take 16 (drop (16 * k) ds)) @ rev (take (16 * k) ds)"
proof -
  have "16 * (k + 1) = 16 * k + 16" by simp
  then show ?thesis by (simp only: take_add rev_append)
qed

subsection \<open>Index blocks\<close>

definition links :: "layout \<Rightarrow> nat \<Rightarrow> int" where
  "links g k = hd_or (drop k (ibs g) @ ifree g) (- 1)"

definition truncating :: "layout \<Rightarrow> nat \<Rightarrow> fs \<Rightarrow> bool" where
  "truncating g k w \<longleftrightarrow> chain (nextd (ram w)) (lfd_dfree (lf_dir w)) (rev (take (16 * k) (dbs g)) @ dfree g) \<and>
     chain (nexti (ram w)) (hd_or (ifree g) (- 1)) (ifree g) \<and>
     (\<forall>j < length (ibs g). (j < k \<longrightarrow> nexti (ram w) (ibs g ! j) = links g (j + 1)) \<and>
       (k \<le> j \<longrightarrow> rindex (ram w) (ibs g ! j) = idx_block (ibs g) (dbs g) j))"

lemma truncating_step:
  assumes t: "truncating g k w" and k: "k < length (ibs g)" and p: "placed_ok g"
  shows "\<exists>x r. free_dblocks (ib_dba (idx_block (ibs g) (dbs g) k)) w = Some (w\<lparr>lf_dir := (lf_dir w)\<lparr>lfd_dfree := x\<rparr>, ram := r\<rparr>) \<and>
    chain (nextd r) x (rev (take (16 * (k + 1)) (dbs g)) @ dfree g) \<and> (\<forall>i \<in> {0..<7 * nsect g}. rindex r i = rindex (ram w) i) \<and>
    (\<forall>c > 0. c \<notin> set (dbs g) \<longrightarrow> rblock r c = rblock (ram w) c)"
proof -
  let ?c = "take 16 (drop (16 * k) (dbs g))" and ?f = "rev (take (16 * k) (dbs g)) @ dfree g"
  have s: "set ?c \<subseteq> set (dbs g)" "set (take (16 * k) (dbs g)) \<subseteq> set (dbs g)" by (meson set_drop_subset set_take_subset subset_trans)+
  have n: "nsect g < d \<and> d < 200" if "d \<in> set (dbs g) \<union> set (dfree g)" for d
    using p that by (auto simp: placed_ok_def)
  have n0: "0 \<le> nsect g" using p by (simp add: placed_ok_def)
  have 1: "\<forall>d \<in> set (?c @ ?f). 0 < d \<and> d < 200" using n n0 s by fastforce
  have d: "distinct (dbs g @ dfree g)" using p by (simp add: placed_ok_def)
  have e: "dbs g = take (16 * k) (dbs g) @ ?c @ drop 16 (drop (16 * k) (dbs g))" by (metis append_take_drop_id)
  have 2: "distinct (?c @ ?f)"
    using d s by (subst (asm) e) (auto dest: in_set_takeD in_set_dropD)
  have T: "chain (nextd (ram w)) (lfd_dfree (lf_dir w)) ?f" using t by (simp add: truncating_def)
  obtain x r where r: "free_dblocks ?c w = Some (w\<lparr>lf_dir := (lf_dir w)\<lparr>lfd_dfree := x\<rparr>, ram := r\<rparr>)" "chain (nextd r) x (rev ?c @ ?f)"
    "\<forall>c > 0. c \<notin> set ?c \<longrightarrow> rblock r c = rblock (ram w) c"
    using free_dblocks_ok [OF 1 2, of w] T by auto
  have "rindex r i = rindex (ram w) i" if "i \<in> {0..<7 * nsect g}" for i
  proof -
    have "1 \<le> ib2sect i" "ib2sect i \<le> nsect g" using index_sector that by auto
    then have "ib2sect i \<notin> set ?c" using n s by fastforce
    then show ?thesis using r(3) \<open>1 \<le> ib2sect i\<close> by (simp add: rindex_def)
  qed
  moreover have "rblock r c = rblock (ram w) c" if "0 < c" "c \<notin> set (dbs g)" for c using r(3) that s(1) by auto
  moreover have "free_dblocks (ib_dba (idx_block (ibs g) (dbs g) k)) w = Some (w\<lparr>lf_dir := (lf_dir w)\<lparr>lfd_dfree := x\<rparr>, ram := r\<rparr>)"
    unfolding idx_block_dba free_dblocks_append r(1) by simp
  moreover have "chain (nextd r) x (rev (take (16 * (k + 1)) (dbs g)) @ dfree g)" using r(2) unfolding take_chunk by simp
  ultimately show ?thesis by blast
qed

lemma hd_or_cell: "hd_or xs b = b \<or> hd_or xs b \<in> set xs"
  by (cases xs) simp_all

lemma index_apart:
  assumes "placed_ok g" "k < length (ibs g)"
  shows "0 \<le> ibs g ! k" "ib2sect (ibs g ! k) < 200" "ib2sect (ibs g ! k) \<le> nsect g" "ibs g ! k \<noteq> hd_or (ifree g) (- 1)"
    "j < length (ibs g) \<Longrightarrow> ibs g ! j = ibs g ! k \<longleftrightarrow> j = k" "i \<in> set (ifree g) \<union> oi g \<Longrightarrow> 0 \<le> i \<and> i \<noteq> ibs g ! k"
proof -
  have m: "ibs g ! k \<in> set (ibs g)" using assms(2) by simp
  then show i: "0 \<le> ibs g ! k" "ib2sect (ibs g ! k) < 200" "ib2sect (ibs g ! k) \<le> nsect g" using placed_index [OF assms(1)] by simp_all
  have d: "distinct (ibs g)" "set (ibs g) \<inter> set (ifree g) = {}" "oi g \<inter> set (ibs g) = {}" using assms(1) by (auto simp: placed_ok_def)
  show "ibs g ! k \<noteq> hd_or (ifree g) (- 1)" using i(1) m d(2) by (cases "ifree g") auto
  show "j < length (ibs g) \<Longrightarrow> ibs g ! j = ibs g ! k \<longleftrightarrow> j = k" using d(1) assms(2) by (simp add: nth_eq_iff_index_eq)
  show "i \<in> set (ifree g) \<union> oi g \<Longrightarrow> 0 \<le> i \<and> i \<noteq> ibs g ! k" using m d placed_index(1) [OF assms(1), of i] by auto
qed

lemma lftruncate_loop_step:
  assumes t: "truncating g k w" and k: "k < length (ibs g)" and p: "placed_ok g"
  shows "\<exists>x r. lftruncate_loop (ibs g ! k) (hd_or (ifree g) (- 1)) w =
      lftruncate_loop (links g (k + 1)) (hd_or (ifree g) (- 1)) (w\<lparr>lf_dir := (lf_dir w)\<lparr>lfd_dfree := x\<rparr>, ram := r\<rparr>) \<and>
    truncating g (k + 1) (w\<lparr>lf_dir := (lf_dir w)\<lparr>lfd_dfree := x\<rparr>, ram := r\<rparr>) \<and>
    (\<forall>i \<in> oi g. rindex r i = rindex (ram w) i) \<and> (\<forall>d \<in> od g. rblock r d = rblock (ram w) d)"
proof -
  let ?a = "hd_or (ifree g) (- 1)" and ?i = "ibs g ! k" and ?n = "links g (k + 1)"
  let ?b = "\<lparr>ib_next = ?n, ib_offset = 0, ib_dba = replicate 16 (- 1)\<rparr>"
  note A = index_apart [OF p k]
  obtain x r where r: "free_dblocks (ib_dba (idx_block (ibs g) (dbs g) k)) w = Some (w\<lparr>lf_dir := (lf_dir w)\<lparr>lfd_dfree := x\<rparr>, ram := r\<rparr>)"
    "chain (nextd r) x (rev (take (16 * (k + 1)) (dbs g)) @ dfree g)" "\<forall>i \<in> {0..<7 * nsect g}. rindex r i = rindex (ram w) i"
    "\<forall>c > 0. c \<notin> set (dbs g) \<longrightarrow> rblock r c = rblock (ram w) c"
    using truncating_step [OF t k p] by blast
  have get: "lfibget ?i w = Some (idx_block (ibs g) (dbs g) k)" using lfibget_ok [OF A(1,2)] t k by (simp add: truncating_def)
  have "?n = - 1 \<or> ?n \<in> set (ibs g) \<union> set (ifree g)"
    using hd_or_cell [of "drop (k + 1) (ibs g) @ ifree g" "- 1"] set_drop_subset [of "k + 1" "ibs g"] by (auto simp: links_def)
  then have n: "in_int32 ?n" using placed_index(5) [OF p, of ?n] by (auto simp: in_int32_def)
  have ok: "iblk_ok ?b" using n by (simp add: iblk_ok_def in_int32_def)
  let ?r = "put_index ?i ?b r" and ?u = "w\<lparr>lf_dir := (lf_dir w)\<lparr>lfd_dfree := x\<rparr>, ram := r\<rparr>"
  have put: "lfibput ?i ?b ?u = Some (OK, w\<lparr>lf_dir := (lf_dir w)\<lparr>lfd_dfree := x\<rparr>, ram := ?r\<rparr>)" using lfibput_ok [OF A(1,2), of ?b ?u] by simp
  have nx: "(if ib_next (idx_block (ibs g) (dbs g) k) = - 1 then ?a else ib_next (idx_block (ibs g) (dbs g) k)) = ?n"
  proof (cases "k + 1 < length (ibs g)")
    case True
    then have "drop (k + 1) (ibs g) = ibs g ! (k + 1) # drop (k + 2) (ibs g)" by (simp add: Cons_nth_drop_Suc)
    moreover have "0 \<le> ibs g ! (k + 1)" using index_apart(1) [OF p True] .
    ultimately show ?thesis using True by (simp add: idx_block_def links_def)
  qed (simp add: idx_block_def links_def)
  have run: "lftruncate_loop ?i ?a w = lftruncate_loop ?n ?a (w\<lparr>lf_dir := (lf_dir w)\<lparr>lfd_dfree := x\<rparr>, ram := ?r\<rparr>)"
  proof -
    let ?c = "(idx_block (ibs g) (dbs g) k)\<lparr>ib_dba := replicate LF_IBLEN LF_DNULL, ib_offset := 0\<rparr>"
    have "(if ib_next ?c = LF_INULL then ?c\<lparr>ib_next := ?a\<rparr> else ?c) = ?b" using nx by (auto simp: idx_block_def)
    then show ?thesis using A(4) get r(1) put by (subst lftruncate_loop.simps) (simp add: Let_def)
  qed
  have ri: "rindex ?r i = (if i = ?i then ?b else rindex (ram w) i)" if "i \<in> {0..<7 * nsect g}" for i
    using rindex_put [OF ok A(1)] r(3) that by simp
  have rb: "rblock ?r c = rblock r c" if "nsect g < c" for c
  proof -
    have "0 \<le> c" "c \<noteq> ib2sect ?i" using that A(3) p by (auto simp: placed_ok_def)
    then show ?thesis using rblock_put_index [OF ok A(1)] by simp
  qed
  have in7: "i \<in> {0..<7 * nsect g}" if "i \<in> set (ibs g) \<union> set (ifree g) \<union> oi g" for i using p that by (auto simp: placed_ok_def)
  have above: "nsect g < d" if "d \<in> set (dbs g) \<union> set (dfree g) \<union> od g" for d using p that by (auto simp: placed_ok_def)
  have "nextd ?r c = nextd r c" if "c \<in> set (rev (take (16 * (k + 1)) (dbs g)) @ dfree g)" for c
  proof -
    have "nsect g < c" using that above set_take_subset [of "16 * (k + 1)" "dbs g"] by auto
    then show ?thesis using rb by simp
  qed
  then have "chain (nextd ?r) x (rev (take (16 * (k + 1)) (dbs g)) @ dfree g)"
    using r(2) chain_cong [of "rev (take (16 * (k + 1)) (dbs g)) @ dfree g" "nextd ?r" "nextd r" x] by blast
  moreover have "chain (nexti ?r) ?a (ifree g)"
    using t A(6) ri in7 chain_cong [of "ifree g" "nexti ?r" "nexti (ram w)"] by (simp add: truncating_def)
  moreover have "nexti ?r (ibs g ! j) = links g (j + 1)" if j: "j < length (ibs g)" "j < k + 1" for j
    using t j A(5) [OF j(1)] ri [of "ibs g ! j"] in7 by (cases "j = k") (auto simp: truncating_def)
  moreover have "rindex ?r (ibs g ! j) = idx_block (ibs g) (dbs g) j" if j: "j < length (ibs g)" "k + 1 \<le> j" for j
    using t j A(5) [OF j(1)] ri [of "ibs g ! j"] in7 by (auto simp: truncating_def)
  ultimately have "truncating g (k + 1) (w\<lparr>lf_dir := (lf_dir w)\<lparr>lfd_dfree := x\<rparr>, ram := ?r\<rparr>)"
    by (simp add: truncating_def)
  moreover have "\<forall>i \<in> oi g. rindex ?r i = rindex (ram w) i" using ri in7 A(6) by simp
  moreover have "rblock ?r d = rblock (ram w) d" if "d \<in> od g" for d
  proof -
    have "nsect g < d" "d \<notin> set (dbs g)" "0 \<le> nsect g" using that p by (auto simp: placed_ok_def)
    then show ?thesis using rb r(4) by simp
  qed
  ultimately show ?thesis using run by blast
qed

lemma truncate_all:
  assumes "truncating g k w" "placed_ok g" "k \<le> length (ibs g)"
  shows "\<exists>x r. lftruncate_loop (links g k) (hd_or (ifree g) (- 1)) w = Some (w\<lparr>lf_dir := (lf_dir w)\<lparr>lfd_dfree := x\<rparr>, ram := r\<rparr>) \<and>
    truncating g (length (ibs g)) (w\<lparr>lf_dir := (lf_dir w)\<lparr>lfd_dfree := x\<rparr>, ram := r\<rparr>) \<and>
    (\<forall>i \<in> oi g. rindex r i = rindex (ram w) i) \<and> (\<forall>d \<in> od g. rblock r d = rblock (ram w) d)"
  using assms
proof (induction "length (ibs g) - k" arbitrary: k w)
  case 0
  then have e: "k = length (ibs g)" by simp
  have "lftruncate_loop (links g k) (hd_or (ifree g) (- 1)) w = Some w" unfolding e links_def by (subst lftruncate_loop.simps) simp
  moreover have "w = w\<lparr>lf_dir := (lf_dir w)\<lparr>lfd_dfree := lfd_dfree (lf_dir w)\<rparr>, ram := ram w\<rparr>" by simp
  ultimately show ?case using 0(2) e by metis
next
  case (Suc d)
  then have k: "k < length (ibs g)" "d = length (ibs g) - (k + 1)" by simp_all
  have l: "links g k = ibs g ! k" using k(1) by (simp add: links_def Cons_nth_drop_Suc [symmetric])
  obtain x r where 1: "lftruncate_loop (ibs g ! k) (hd_or (ifree g) (- 1)) w =
      lftruncate_loop (links g (k + 1)) (hd_or (ifree g) (- 1)) (w\<lparr>lf_dir := (lf_dir w)\<lparr>lfd_dfree := x\<rparr>, ram := r\<rparr>)"
    "truncating g (k + 1) (w\<lparr>lf_dir := (lf_dir w)\<lparr>lfd_dfree := x\<rparr>, ram := r\<rparr>)"
    "\<forall>i \<in> oi g. rindex r i = rindex (ram w) i" "\<forall>d \<in> od g. rblock r d = rblock (ram w) d"
    using lftruncate_loop_step [OF Suc.prems(1) k(1) Suc.prems(2)] by blast
  have "k + 1 \<le> length (ibs g)" using k(1) by simp
  from Suc.hyps(1) [OF k(2) 1(2) Suc.prems(2) this] show ?case using 1(1,3,4) unfolding l by auto
qed

lemma chain_nths:
  assumes "\<forall>j < length xs. nx (xs ! j) = hd_or (drop (j + 1) xs @ ys) (- 1)" "chain nx (hd_or ys (- 1)) ys"
  shows "chain nx (hd_or (xs @ ys) (- 1)) (xs @ ys)"
  using assms(1)
proof (induction xs)
  case Nil
  then show ?case using assms(2) by simp
next
  case (Cons x xs)
  have "\<forall>j < length xs. nx (xs ! j) = hd_or (drop (j + 1) xs @ ys) (- 1)" using Cons.prems by fastforce
  then show ?case using Cons.IH Cons.prems by (auto dest: spec [of _ 0])
qed

subsection \<open>\<open>lftruncate\<close>\<close>

definition emptied :: "layout \<Rightarrow> layout" where
  "emptied g = g\<lparr>ibs := [], dbs := [], blks := [], ifree := ibs g @ ifree g, dfree := rev (dbs g) @ dfree g\<rparr>"

lemma same_file_emptied: "same_file g (emptied g)"
  by (auto simp: same_file_def emptied_def)

lemma emptied_placed: "placed_ok g \<Longrightarrow> placed_ok (emptied g)"
  by (simp add: placed_ok_def emptied_def)

lemma truncated_free:
  assumes t: "truncating g (length (ibs g)) w" and l: "length (dbs g) \<le> 16 * length (ibs g)"
  shows "chain (nexti (ram w)) (hd_or (ibs g @ ifree g) (- 1)) (ibs g @ ifree g)"
    "chain (nextd (ram w)) (lfd_dfree (lf_dir w)) (rev (dbs g) @ dfree g)"
proof -
  show "chain (nexti (ram w)) (hd_or (ibs g @ ifree g) (- 1)) (ibs g @ ifree g)"
    by (rule chain_nths) (use t in \<open>simp_all add: truncating_def links_def\<close>)
  show "chain (nextd (ram w)) (lfd_dfree (lf_dir w)) (rev (dbs g) @ dfree g)" using t l by (simp add: truncating_def)
qed

lemma lftruncate_ok:
  assumes f: "file_ok g w"
  obtains w' g' where "lftruncate (minor g) w = Some (OK, w')" "file_ok g' w'" "same_file g g'" "ibs g' = []" "dbs g' = []"
    "contents g' w' = []" "file_pos g' w' = 0" "others_same g w w'"
proof (cases "file_size g w = 0")
  case True
  then have "ld_size (dent g w) = 0" by (simp add: file_size_def unat_eq_0)
  then have "lftruncate (minor g) w = Some (OK, w)" using dir_entry_ok [OF file_okD(1) [OF f]] by (simp add: lftruncate_def)
  then show ?thesis using that [of w g] f file_okD(2,3,4) [OF f] True by (simp add: contents_def)
next
  case False
  let ?m = "minor g" and ?a = "hd_or (ifree g) (- 1)"
  note F = file_okD [OF f]
  have sz: "ld_size (dent g w) \<noteq> 0" using False by (auto simp: file_size_def)
  obtain u where u: "(if lfibdirty (cblk g w) \<or> lfdbdirty (cblk g w) then map_option snd (lfflush ?m w) else Some w) = Some u"
    "core False g u" "others_same g w u" "lf_dir u = lf_dir w" "\<not> lfibdirty (cblk g u)" "\<not> lfdbdirty (cblk g u)"
    using flush_if [OF F(1)] by metis
  note c = coreD [OF u(2)]
  let ?e = "\<lambda>e. e\<lparr>ld_ilist := - 1, ld_size := 0\<rparr>"
  let ?u1 = "upd_lfl ?m (\<lambda>c. c\<lparr>lfpos := 0, lfinum := - 1, lfdnum := - 1, lfbyte := LF_BLKSIZ\<rparr>) u"
  let ?u2 = "(upd_ent (entry g) ?e ?u1)\<lparr>lf_dirdirty := True\<rparr>"
  have a: "lfd_ifree (lf_dir ?u1) = ?a" using c(2) by (auto simp: free_ok_def dest: chain_head)
  have ne: "ibs g \<noteq> []" using F(3) False by auto
  have first: "ld_ilist (dent g w) = links g 0" using c(3) u(4) ne by (cases "ibs g") (simp_all add: index_ok_def links_def)
  have t: "truncating g 0 ?u2"
    using c(2,3) a u(5) by (auto simp: truncating_def free_ok_def index_ok_def upd_ent_def upd_dir_def)
  obtain x r where r: "lftruncate_loop (links g 0) ?a ?u2 = Some (?u2\<lparr>lf_dir := (lf_dir ?u2)\<lparr>lfd_dfree := x\<rparr>, ram := r\<rparr>)"
    "truncating g (length (ibs g)) (?u2\<lparr>lf_dir := (lf_dir ?u2)\<lparr>lfd_dfree := x\<rparr>, ram := r\<rparr>)"
    "\<forall>i \<in> oi g. rindex r i = rindex (ram ?u2) i" "\<forall>d \<in> od g. rblock r d = rblock (ram ?u2) d"
    using truncate_all [OF t c(1)] by auto
  let ?u3 = "?u2\<lparr>lf_dir := (lf_dir ?u2)\<lparr>lfd_dfree := x\<rparr>, ram := r\<rparr>" and ?g = "emptied g"
  let ?v = "(upd_dir (\<lambda>d. d\<lparr>lfd_ifree := links g 0\<rparr>) ?u3)\<lparr>lf_dirdirty := True\<rparr>"
  have "set_entry ?m ?e ?u1 = upd_ent (entry g) ?e ?u1" using c(6) by (simp add: set_entry_ok)
  then have run: "lftruncate ?m w = Some (OK, ?v)"
    using u(1) dir_entry_ok [OF F(1)] sz a first r(1) by (simp add: lftruncate_def Let_def)
  have d16: "length (dbs g) \<le> 16 * length (ibs g)" using c(3) by (simp add: index_ok_def)
  have fo: "free_ok ?g ?v" using truncated_free [OF r(2) d16] by (simp add: free_ok_def emptied_def upd_dir_def links_def)
  have ld: "length (lfdblock (cblk g u)) = 512" using c(4) by (simp add: data_ok_def)
  have dv: "dent ?g ?v = ?e (dent g u)" using c(7) by (simp add: emptied_def upd_dir_def upd_ent_def)
  have "core False ?g ?v"
    using fo emptied_placed [OF c(1)] c(5,6,7) dv ld u(5,6)
    by (simp add: core_def index_ok_def data_ok_def) (simp add: emptied_def upd_dir_def)
  moreover have s: "file_size ?g ?v = 0" "file_pos ?g ?v = 0" using dv by (simp_all add: file_size_def file_pos_def upd_dir_def emptied_def)
  ultimately have "file_ok ?g ?v" by (simp add: file_ok_def) (simp add: emptied_def upd_dir_def)
  moreover have "others_same g u ?v" using r(3,4) c(7) by (auto simp: others_same_def upd_dir_def upd_ent_def)
  then have "others_same g w ?v" using others_trans [OF u(3)] by blast
  ultimately show ?thesis using that [OF run _ same_file_emptied] s by (simp add: contents_def emptied_def)
qed

text \<open>The control call, through both semaphores.\<close>

lemma lflcontrol_trunc_ok:
  assumes f: "file_ok g w" and l: "locks_idle g w"
  obtains w' g' where "lflcontrol (minor g) LF_CTL_TRUNC w = Some (Ret OK, w')" "file_ok g' w'" "same_file g g'" "ibs g' = []" "dbs g' = []"
    "contents g' w' = []" "file_pos g' w' = 0" "others_same g w w'"
proof -
  let ?m = "minor g" and ?k = "lfmutex (cblk g w)" and ?j = "lf_mutex w"
  let ?s = "set_scount (lfmutex (cblk g w)) 0 (fk w)"
  let ?h = "w\<lparr>fk := set_scount ?j 0 ?s\<rparr>"
  have k: "sem_idle ?k (fk w)" "sem_idle ?j ?s" using l idle_under [OF l] by (simp_all add: locks_idle_def)
  have "file_ok g ?h" using f by simp
  then obtain u g' where u: "lftruncate ?m ?h = Some (OK, u)" "file_ok g' u" "same_file g g'" "ibs g' = []" "dbs g' = []"
    "contents g' u = []" "file_pos g' u = 0" "others_same g ?h u"
    using lftruncate_ok by metis
  have V: "fk u = set_scount ?j 0 ?s" "lf_mutex u = ?j" "lfmutex (cblk g u) = ?k" using u(8) by (simp_all add: others_same_def)
  have 1: "fsignal (lf_mutex u) u = Some (Ret (), u\<lparr>fk := ?s\<rparr>)" using fsignal_back [OF V(1) k(2)] V(2) by simp
  have 2: "leave ?m OK (u\<lparr>fk := ?s\<rparr>) = Some (Ret OK, (u\<lparr>fk := ?s\<rparr>)\<lparr>fk := fk w\<rparr>)" by (rule leave_ok) (use V k in simp_all)
  have "lflcontrol ?m LF_CTL_TRUNC w = Some (Ret OK, u\<lparr>fk := fk w\<rparr>)"
    using fwait_idle [OF k(1)] fwait_idle [of ?j "w\<lparr>fk := ?s\<rparr>"] k(2) u(1) 1 2 coreD(5) [OF file_okD(1) [OF f]]
    by (simp add: lflcontrol_def)
  then show ?thesis using that [of "u\<lparr>fk := fk w\<rparr>" g'] u(2-7) others_fk(1) [OF u(8)] by simp
qed

end
