(* ===== verification/LfsProps.thy ===== *)
theory LfsProps
  imports LfsTrunc Scenario
begin

text \<open>
  The properties of the local file system, with a concrete state to evaluate them on.
\<close>

subsection \<open>A kernel with a file system on it\<close>

definition demo_block :: "int \<Rightarrow> lflcblk" where
  "demo_block m = \<lparr>lfstate = LF_FREE, lfdev = 20 + m, lfmutex = 10 + m, lfdirptr = None, lfmode = 0, lfpos = 0,
     lfname = replicate LF_NAME_LEN 0, lfinum = LF_INULL, lfiblock = \<lparr>ib_next = 0, ib_offset = 0, ib_dba = replicate LF_IBLEN 0\<rparr>,
     lfdnum = 0, lfdblock = replicate LF_BLKSIZ 0, lfbyte = LF_BLKSIZ, lfibdirty = False, lfdbdirty = False\<rparr>"

definition demo_fs :: fs where
  "demo_fs = \<lparr>fk = scene\<lparr>semtab := (\<lambda>k. \<lparr>sstate = S_USED, scount = 1, squeue = NPROC + 2 * k\<rparr>)\<rparr>, ram = (\<lambda>_. 0), lf_mutex = 9,
     lf_dir = zero_dir, lf_dirpresent = False, lf_dirdirty = False, lfltab = demo_block, stale = []\<rparr>"

lemma demo_fs_fields [simp]:
  "lf_mutex demo_fs = 9" "\<not> lf_dirpresent demo_fs" "\<not> lf_dirdirty demo_fs" "lfltab demo_fs = demo_block"
  by (simp_all add: demo_fs_def)

lemma demo_block_fields [simp]: "lfstate (demo_block m) = LF_FREE" "lfdev (demo_block m) = 20 + m"
  by (simp_all add: demo_block_def)

lemma demo_device_idle: "0 \<le> m \<Longrightarrow> m < 6 \<Longrightarrow> device_idle m demo_fs"
  by (simp add: device_idle_def sem_idle_def isbadsem_def demo_fs_def demo_block_def)

lemma demo_disk_args: "disk_args 10 20480 2 40"
  by (simp add: disk_args_def)

lemma demo_mode: "lfgetmode ''rw'' = 3"
  by (simp add: lfgetmode_def)

subsection \<open>The state after formatting\<close>

lemma find_device_ram [simp]: "find_device n i name x (w\<lparr>ram := r\<rparr>) = find_device n i name x w"
  by (induction n arbitrary: i x) (simp_all add: Let_def)

lemma device_idle_ram [simp]: "device_idle m (w\<lparr>ram := r\<rparr>) = device_idle m w"
  by (simp add: device_idle_def)

definition all_closed :: "fs \<Rightarrow> bool" where
  "all_closed w \<longleftrightarrow> (\<forall>m \<in> {0..<6}. lfstate (lfltab w m) = LF_FREE)"

lemma find_device_all_closed: "all_closed w \<Longrightarrow> find_device Nlfl 0 name SYSERR w = Some 0"
  by (simp add: all_closed_def numeral_eq_Suc)

lemma demo_all_closed: "all_closed demo_fs"
  by (simp add: all_closed_def)

lemma enough_fresh:
  assumes "1 \<le> n" "k \<le> 512 * nat (s - n - 1)" "k \<le> 57344 * nat n"
  shows "enough k (fresh_layout n s m)"
proof -
  have "(k + 511) div 512 \<le> nat (s - n - 1)" "(k + 8191) div 8192 \<le> 7 * nat n" using assms(2,3) by linarith+
  moreover have "nat (7 * n) = 7 * nat n" using assms(1) by (simp add: nat_mult_distrib)
  ultimately show ?thesis by (simp add: enough_def fresh_layout_def)
qed

text \<open>The first file of the example is open.\<close>

lemma demo_opened:
  obtains w1 w2 where "lfscreate 10 20480 demo_fs = Some (OK, w1)" "lfsopen [0x78] ''rw'' w1 = Some (Ret 20, w2)"
    "is_file (fresh_layout 2 40 0) w2 [] 0 w2" "lf_dirpresent w2" "find_file (nat (lfd_nfiles (lf_dir w2))) 0 [0x78] (lf_dir w2) = Some (Some 0)"
    "\<forall>m. m \<noteq> 0 \<longrightarrow> lfltab w2 m = demo_block m" "lfdev (lfltab w2 0) = 20"
proof -
  obtain r where r: "lfscreate 10 20480 demo_fs = Some (OK, demo_fs\<lparr>ram := r\<rparr>)" "fresh_disk 2 40 r"
    using lfscreate_ok [OF demo_disk_args] by blast
  let ?w = "demo_fs\<lparr>ram := r\<rparr>"
  have f: "fresh_disk 2 40 (ram ?w)" using r(2) by simp
  have dir: "lf_dir (with_dir ?w) = new_dir 2"
    using f bytes_dir_bytes(2) [OF new_dir_ok, of 2] by (simp add: with_dir_def fresh_disk_def)
  have m: "find_device Nlfl 0 [0x78] SYSERR ?w = Some 0" using find_device_all_closed [OF demo_all_closed] by simp
  have i: "device_idle 0 ?w" using demo_device_idle by simp
  have "\<exists>w'. lfsopen [0x78] ''rw'' ?w = Some (Ret (lfdev (lfltab ?w 0)), w') \<and> is_file (fresh_layout 2 40 0) w' [] 0 w'"
    by (rule first_file [OF f _ _ _ _ _ _ _ m _ i]) (simp_all add: demo_mode)
  then obtain w2 where o: "lfsopen [0x78] ''rw'' ?w = Some (Ret 20, w2)" "is_file (fresh_layout 2 40 0) w2 [] 0 w2" by auto
  obtain u where e: "open_entry [0x78] 3 (with_dir ?w) = Some (Some (0, u))"
    and u: "lf_dirpresent u" "find_file (nat (lfd_nfiles (lf_dir u))) 0 [0x78] (lf_dir u) = Some (Some 0)"
    by (auto simp: open_entry_def dir Let_def new_dir_def zero_dir_def upd_dir_def upd_ent_def copy_name_def numeral_eq_Suc)
      (simp add: with_dir_def)
  have "lfsopen [0x78] ''rw'' ?w = Some (Ret (lfdev (lfltab ?w 0)), open_device 0 0 [0x78] 3 u)"
    using lfsopen_ok [of "[0x78]" "''rw''" ?w 0 0 u] m i e by (simp add: demo_mode device_idle_def)
  then have "w2 = open_device 0 0 [0x78] 3 u" using o(1) by simp
  then show ?thesis using that [OF r(1) o] u open_entry_fields(4) [OF e] by (simp add: open_device_def)
qed

text \<open>The entry of a file keeps its name and its place.\<close>

lemma find_file_cong:
  "length (lfd_files d') = length (lfd_files d) \<Longrightarrow> \<forall>i < length (lfd_files d). ld_name (lfd_files d' ! i) = ld_name (lfd_files d ! i) \<Longrightarrow>
     find_file n i name d' = find_file n i name d"
  by (induction n arbitrary: i) simp_all

lemma find_first_same:
  assumes "others_same g w w'"
  shows "find_file (nat (lfd_nfiles (lf_dir w'))) 0 name (lf_dir w') = find_file (nat (lfd_nfiles (lf_dir w))) 0 name (lf_dir w)"
proof -
  have "ld_name (lfd_files (lf_dir w') ! i) = ld_name (lfd_files (lf_dir w) ! i)" for i
    using assms by (cases "i = entry g") (simp_all add: others_same_def)
  then show ?thesis using assms find_file_cong [of "lf_dir w'" "lf_dir w"] by (simp add: others_same_def)
qed

subsection \<open>Properties\<close>

text \<open>A file system of any size the disk has is made, its first file opened, written and read
  back: whatever the disk held before, \<open>lfscreate\<close>, \<open>open\<close>, \<open>write\<close>, \<open>seek\<close> to 0 and \<open>read\<close> all succeed and
  the bytes come back, as long as they fit in the data blocks and index blocks.\<close>

theorem first_file_reads_back:
  assumes d: "disk_args lfiblks dsiz n s" and c: "all_closed w" "\<not> lf_dirpresent w" "device_idle 0 w"
    and n: "length name < LF_NAME_LEN" "lfgetmode mode \<noteq> SYSERR" "and (lfgetmode mode) LF_MODE_O = 0"
    and b: "bs \<noteq> []" "length bs \<le> 512 * nat (s - n - 1)" "length bs \<le> 57344 * nat n"
  shows "\<exists>w1 w2 w3 w4 w5. lfscreate lfiblks dsiz w = Some (OK, w1) \<and> lfsckfmt w1 = Some (7 * n, s - n - 1) \<and>
    lfsopen name mode w1 = Some (Ret (lfdev (lfltab w 0)), w2) \<and>
    lflwrite 0 bs (int (length bs)) w2 = Some (Ret (int (length bs)), w3) \<and> lflseek 0 0 w3 = Some (Ret OK, w4) \<and>
    lflread 0 (int (length bs)) w4 = Some (Ret (int (length bs), bs), w5)"
proof -
  note A = disk_args_words(1,3) [OF d]
  have s: "s \<le> 200" using d by (simp add: disk_args_def)
  obtain r where r: "lfscreate lfiblks dsiz w = Some (OK, w\<lparr>ram := r\<rparr>)" "fresh_disk n s r" using lfscreate_ok [OF d] by blast
  let ?w = "w\<lparr>ram := r\<rparr>" and ?g = "fresh_layout n s 0"
  have m: "find_device Nlfl 0 name SYSERR ?w = Some 0" "(0 :: int) \<noteq> SYSERR" using find_device_all_closed [OF c(1)] by simp_all
  have f: "fresh_disk n s (ram ?w)" "\<not> lf_dirpresent ?w" "device_idle 0 ?w" using r(2) c by simp_all
  obtain u where u: "lfsopen name mode ?w = Some (Ret (lfdev (lfltab ?w 0)), u)" "is_file ?g u [] 0 u"
    using first_file [OF f(1) A s f(2) n(3,1,2) m f(3)] by blast
  have e: "enough (0 + length bs) ?g" using enough_fresh [OF A(1) b(2,3)] by simp
  have g: "minor ?g = 0" by simp
  obtain w3 w4 w5 where "writes_file 0 bs u w3" "seeks_file 0 0 w3 w4" "reads_file 0 (length bs) w4 bs w5"
    using lf.written_reads_back [OF u(2) e b(1)] g by auto
  then show ?thesis using r u(1) lfsckfmt_fresh [OF f(1) A s] by (auto simp: writes_file_def seeks_file_def reads_file_def)
qed

theorem first_file_reads_back_witness:
  "\<exists>w1 w2 w3 w4 w5. lfscreate 10 20480 demo_fs = Some (OK, w1) \<and> lfsckfmt w1 = Some (14, 37) \<and>
    lfsopen [0x78] ''rw'' w1 = Some (Ret 20, w2) \<and> lflwrite 0 [1, 2, 3] 3 w2 = Some (Ret 3, w3) \<and>
    lflseek 0 0 w3 = Some (Ret OK, w4) \<and> lflread 0 3 w4 = Some (Ret (3, [1, 2, 3]), w5)"
  using first_file_reads_back [OF demo_disk_args demo_all_closed demo_fs_fields(2) demo_device_idle, of "[0x78]" "''rw''" "[1, 2, 3]"]
  by (simp add: demo_mode)

text \<open>C7.  An open file is a sequence of bytes with a position.  \<open>lflgetc\<close> gives the byte at the
  position and moves on, or \<open>EOF\<close> at the end; \<open>lflputc\<close> replaces that byte or appends it; \<open>lflseek\<close>
  goes to any position up to the length and refuses the rest.  All of them leave the other files,
  their blocks and the semaphores as they were.\<close>

theorem file_is_byte_sequence:
  assumes "is_file g w0 xs p w"
  shows "(\<exists>w'. lflgetc (minor g) w = Some (Ret (if p < length xs then uint (xs ! p) else EOF), w') \<and>
        is_file g w0 xs (if p < length xs then p + 1 else p) w') \<and>
    (enough (p + 1) g \<longrightarrow> (\<exists>w'. lflputc (minor g) ch w = Some (Ret OK, w') \<and>
        is_file g w0 (if p < length xs then xs[p := ch] else xs @ [ch]) (p + 1) w')) \<and>
    (\<exists>w'. lflseek (minor g) off w = Some (Ret (if unat off \<le> length xs then OK else SYSERR), w') \<and>
        is_file g w0 xs (if unat off \<le> length xs then unat off else p) w')"
proof (intro conjI impI)
  show "\<exists>w'. lflgetc (minor g) w = Some (Ret (if p < length xs then uint (xs ! p) else EOF), w') \<and>
    is_file g w0 xs (if p < length xs then p + 1 else p) w'"
    using lflgetc_is_file [OF assms] by blast
  show "\<exists>w'. lflputc (minor g) ch w = Some (Ret OK, w') \<and> is_file g w0 (if p < length xs then xs[p := ch] else xs @ [ch]) (p + 1) w'"
    if "enough (p + 1) g"
    using lflputc_is_file [OF assms that, of ch] unfolding put_at_one [OF is_file_bounds(1) [OF assms]] by blast
qed (rule lflseek_is_file [OF assms])

theorem file_is_byte_sequence_witness:
  "\<exists>w1 w2. lfscreate 10 20480 demo_fs = Some (OK, w1) \<and> lfsopen [0x78] ''rw'' w1 = Some (Ret 20, w2) \<and>
    (\<exists>w'. lflgetc 0 w2 = Some (Ret EOF, w')) \<and> (\<exists>w'. lflseek 0 5 w2 = Some (Ret SYSERR, w')) \<and>
    (\<exists>w'. lflputc 0 7 w2 = Some (Ret OK, w') \<and> is_file (fresh_layout 2 40 0) w2 [7] 1 w')"
proof -
  obtain w1 w2 where w: "lfscreate 10 20480 demo_fs = Some (OK, w1)" "lfsopen [0x78] ''rw'' w1 = Some (Ret 20, w2)"
    "is_file (fresh_layout 2 40 0) w2 [] 0 w2" using demo_opened by blast
  have "enough (0 + 1) (fresh_layout 2 40 0)" by (rule enough_fresh) simp_all
  then show ?thesis using file_is_byte_sequence [OF w(3), of 7 5] w(1,2) by simp blast
qed

text \<open>C9.  A file that is closed and opened again, on any device that is free, has the bytes it had,
  and is at its beginning: closing leaves every byte on the disk.\<close>

theorem file_survives_close:
  assumes f: "is_file g w0 xs p w"
  shows "\<exists>w1. lflclose (minor g) w = Some (Ret OK, w1) \<and> lf_dir w1 = lf_dir w \<and> lfstate (lfltab w1 (minor g)) = LF_FREE \<and>
    others_same g w w1 \<and>
    (\<forall>name mode m. lf_dirpresent w1 \<and> find_file (nat (lfd_nfiles (lf_dir w1))) 0 name (lf_dir w1) = Some (Some (entry g)) \<and>
       length name < LF_NAME_LEN \<and> lfgetmode mode \<noteq> SYSERR \<and> and (lfgetmode mode) LF_MODE_N = 0 \<and>
       find_device Nlfl 0 name SYSERR w1 = Some m \<and> m \<noteq> SYSERR \<and> (m \<noteq> minor g \<longrightarrow> device_idle m w1) \<longrightarrow>
       (\<exists>w2. lfsopen name mode w1 = Some (Ret (lfdev (lfltab w1 m)), w2) \<and> is_file (g\<lparr>minor := m\<rparr>) w2 xs 0 w2))"
proof -
  obtain g' where g: "same_file g g'" "file_ok g' w" "contents g' w = xs" "file_pos g' w = p" "file_size g' w = length xs"
    "others_same g w0 w" "locks_idle g w" "locks_idle g' w" "minor g' = minor g"
    using is_fileE [OF f] .
  obtain w1 where w: "lflclose (minor g') w = Some (Ret OK, w1)" "on_disk g' w1" "contents g' w1 = contents g' w"
    "others_same g' w w1" "lfstate (lfltab w1 (minor g')) = LF_FREE" "lf_dir w1 = lf_dir w" "length (lfdblock (lfltab w1 (minor g'))) = 512"
    using lflclose_ok [OF g(2,8)] .
  have s: "same_file (g\<lparr>minor := m\<rparr>) (g'\<lparr>minor := m\<rparr>)" "entry g' = entry g" for m using g(1) by (simp_all add: same_file_def)
  have "device_idle (minor g) w1"
    using locks_others [OF g(8) w(4)] w(7) g(9) by (simp add: device_idle_def locks_idle_device)
  then have i: "device_idle m w1" if "m \<noteq> minor g \<longrightarrow> device_idle m w1" for m using that by auto
  have "\<exists>w2. lfsopen name mode w1 = Some (Ret (lfdev (lfltab w1 m)), w2) \<and> is_file (g\<lparr>minor := m\<rparr>) w2 xs 0 w2"
    if h: "lf_dirpresent w1" "find_file (nat (lfd_nfiles (lf_dir w1))) 0 name (lf_dir w1) = Some (Some (entry g))"
      "length name < LF_NAME_LEN" "lfgetmode mode \<noteq> SYSERR" "and (lfgetmode mode) LF_MODE_N = 0"
      "find_device Nlfl 0 name SYSERR w1 = Some m" "m \<noteq> SYSERR" "m \<noteq> minor g \<longrightarrow> device_idle m w1" for name mode m
    using open_again [OF w(2) h(1) h(2) [folded s(2)] h(3-7) i [OF h(8)]] is_file_same [OF s(1)] w(3) g(3) by metis
  moreover have "others_same g w w1" using w(4) same_file_others [OF g(1)] by simp
  ultimately show ?thesis using w(1,5,6) g(9) by metis
qed

theorem file_survives_close_witness:
  "\<exists>w1 w2 w3 w4 w5. lfscreate 10 20480 demo_fs = Some (OK, w1) \<and> lfsopen [0x78] ''rw'' w1 = Some (Ret 20, w2) \<and>
    lflwrite 0 [1, 2, 3] 3 w2 = Some (Ret 3, w3) \<and> lflclose 0 w3 = Some (Ret OK, w4) \<and>
    lfsopen [0x78] ''r'' w4 = Some (Ret 20, w5) \<and> is_file (fresh_layout 2 40 0) w5 [1, 2, 3] 0 w5"
proof -
  obtain w1 w2 where w: "lfscreate 10 20480 demo_fs = Some (OK, w1)" "lfsopen [0x78] ''rw'' w1 = Some (Ret 20, w2)"
    "is_file (fresh_layout 2 40 0) w2 [] 0 w2" and d: "lf_dirpresent w2" "find_file (nat (lfd_nfiles (lf_dir w2))) 0 [0x78] (lf_dir w2) = Some (Some 0)"
    "\<forall>m. m \<noteq> 0 \<longrightarrow> lfltab w2 m = demo_block m" "lfdev (lfltab w2 0) = 20" using demo_opened .
  have "enough (0 + length [1 :: u8, 2, 3]) (fresh_layout 2 40 0)" by (rule enough_fresh) simp_all
  then obtain w3 where 3: "lflwrite 0 [1, 2, 3] 3 w2 = Some (Ret 3, w3)" "is_file (fresh_layout 2 40 0) w2 [1, 2, 3] 3 w3"
    using lflwrite_is_file [OF w(3), of "[1, 2, 3]"] by (auto simp: put_at_def numeral_3_eq_3)
  have o: "others_same (fresh_layout 2 40 0) w2 w3" using 3(2) by (simp add: is_file_def)
  obtain w4 where 4: "lflclose 0 w3 = Some (Ret OK, w4)" "lf_dir w4 = lf_dir w3" "lfstate (lfltab w4 0) = LF_FREE"
    "others_same (fresh_layout 2 40 0) w3 w4"
    and again: "lf_dirpresent w4 \<Longrightarrow> find_file (nat (lfd_nfiles (lf_dir w4))) 0 [0x78] (lf_dir w4) = Some (Some 0) \<Longrightarrow>
      find_device Nlfl 0 [0x78] SYSERR w4 = Some 0 \<Longrightarrow>
      \<exists>w5. lfsopen [0x78] ''r'' w4 = Some (Ret (lfdev (lfltab w4 0)), w5) \<and> is_file (fresh_layout 2 40 0) w5 [1, 2, 3] 0 w5"
    using file_survives_close [OF 3(2)] by (auto simp: lfgetmode_def fresh_layout_def)
  have O: "others_same (fresh_layout 2 40 0) w2 w4" using others_trans [OF o 4(4)] .
  have "lf_dirpresent w4" "lfdev (lfltab w4 0) = 20" using O d by (simp_all add: others_same_def)
  moreover have "lfstate (lfltab w4 m) = LF_FREE" for m using O d(3) 4(3) by (cases "m = 0") (simp_all add: others_same_def)
  then have "all_closed w4" by (simp add: all_closed_def)
  moreover have "find_file (nat (lfd_nfiles (lf_dir w4))) 0 [0x78] (lf_dir w4) = Some (Some 0)"
    using find_first_same [OF O] d(2) by simp
  ultimately have "\<exists>w5. lfsopen [0x78] ''r'' w4 = Some (Ret 20, w5) \<and> is_file (fresh_layout 2 40 0) w5 [1, 2, 3] 0 w5"
    using again find_device_all_closed by simp
  then show ?thesis using w(1,2) 3(1) 4(1) by blast
qed

text \<open>A file that is made and closed before anything is written to it is not on the disk:
  \<open>lfsopen\<close> puts the entry into the directory in memory without marking it, so that \<open>close\<close> writes
  nothing, and the disk is as before.\<close>

theorem unwritten_file_not_on_disk:
  assumes f: "fresh_disk n s (ram w)" "1 \<le> n" "n + 1 < s" "s \<le> 200" "all_closed w" "\<not> lf_dirpresent w" "\<not> lf_dirdirty w"
    and n: "length name < LF_NAME_LEN" "lfgetmode mode \<noteq> SYSERR" "and (lfgetmode mode) LF_MODE_O = 0" and i: "device_idle 0 w"
  shows "\<exists>w1 w2. lfsopen name mode w = Some (Ret (lfdev (lfltab w 0)), w1) \<and> lfd_nfiles (lf_dir w1) = 1 \<and>
    lflclose 0 w1 = Some (Ret OK, w2) \<and> ram w2 = ram w \<and> lfd_nfiles (bytes_dir (rblock (ram w2) 0)) = 0"
proof -
  have m: "find_device Nlfl 0 name SYSERR w = Some 0" "(0 :: int) \<noteq> SYSERR" using find_device_all_closed [OF f(5)] by simp_all
  have dir: "bytes_dir (rblock (ram w) 0) = new_dir n"
    using f(1-4) bytes_dir_bytes(2) [OF new_dir_ok, of n] by (simp add: fresh_disk_def)
  have l: "sem_idle (lf_mutex w) (fk w)" using i by (simp add: device_idle_def)
  obtain u where e: "open_entry name (lfgetmode mode) (with_dir w) = Some (Some (0, u))"
    and u: "lfd_nfiles (lf_dir u) = 1" "\<not> lf_dirdirty u"
    using n(3) f(6,7) by (auto simp: open_entry_def with_dir_def dir Let_def new_dir_def zero_dir_def upd_dir_def upd_ent_def)
  note E = open_entry_fields(1-4) [OF e]
  let ?v = "open_device 0 0 name (lfgetmode mode) u" and ?k = "lfmutex (lfltab w 0)"
  have V: "lfmutex (lfltab ?v 0) = ?k" "fk ?v = fk w" "ram ?v = ram w" using E by (simp_all add: open_device_def)
  have k: "sem_idle ?k (fk ?v)" using i V by (simp add: device_idle_def)
  let ?x = "(upd_lfl 0 (\<lambda>c. c\<lparr>lfstate := LF_FREE\<rparr>) (?v\<lparr>fk := set_scount ?k 0 (fk ?v)\<rparr>))"
  have "fsignal ?k ?x = Some (Ret (), ?x\<lparr>fk := fk ?v\<rparr>)" by (rule fsignal_back [OF _ k]) simp
  then have "lflclose 0 ?v = Some (Ret OK, ?x\<lparr>fk := fk ?v\<rparr>)"
    using fwait_idle [OF k] u(2) V(1) by (simp add: lflclose_def Let_def leave_def give_def open_device_def)
  moreover have "lfsopen name mode w = Some (Ret (lfdev (lfltab w 0)), ?v)" using lfsopen_ok [OF n(1,2) m l e] .
  moreover have "lfd_nfiles (lf_dir ?v) = 1" using u(1) by (simp add: open_device_def)
  ultimately show ?thesis using V dir by (simp add: new_dir_def)
qed

theorem unwritten_file_not_on_disk_witness:
  "\<exists>r w1 w2. lfscreate 10 20480 demo_fs = Some (OK, demo_fs\<lparr>ram := r\<rparr>) \<and> lfsopen [0x78] ''rw'' (demo_fs\<lparr>ram := r\<rparr>) = Some (Ret 20, w1) \<and>
    lfd_nfiles (lf_dir w1) = 1 \<and> lflclose 0 w1 = Some (Ret OK, w2) \<and> lfd_nfiles (bytes_dir (rblock (ram w2) 0)) = 0"
proof -
  obtain r where r: "lfscreate 10 20480 demo_fs = Some (OK, demo_fs\<lparr>ram := r\<rparr>)" "fresh_disk 2 40 (ram (demo_fs\<lparr>ram := r\<rparr>))"
    using lfscreate_ok [OF demo_disk_args] by auto
  have c: "all_closed (demo_fs\<lparr>ram := r\<rparr>)" "device_idle 0 (demo_fs\<lparr>ram := r\<rparr>)" using demo_all_closed demo_device_idle by (simp_all add: all_closed_def)
  show ?thesis
    using unwritten_file_not_on_disk [OF r(2) _ _ _ c(1) _ _ _ _ _ c(2), of "[0x78]" "''rw''"] r(1) by (auto simp: demo_mode)
qed

text \<open>C10.  Truncating a file leaves it open without any byte, at position 0, and gives every block it
  had back: all its index blocks and data blocks are in the free lists afterwards, none is lost, and
  no other file is touched.\<close>

theorem truncate_frees_all_blocks:
  assumes "is_file g w0 xs p w"
  shows "\<exists>w' g'. lflcontrol (minor g) LF_CTL_TRUNC w = Some (Ret OK, w') \<and> is_file g w0 [] 0 w' \<and> free_ok g' w' \<and>
    set (ifree g') = set (ibs g) \<union> set (ifree g) \<and> set (dfree g') = set (dbs g) \<union> set (dfree g) \<and>
    distinct (ifree g') \<and> distinct (dfree g')"
proof -
  obtain g1 where g: "same_file g g1" "file_ok g1 w" "contents g1 w = xs" "file_pos g1 w = p" "file_size g1 w = length xs"
    "others_same g w0 w" "locks_idle g w" "locks_idle g1 w" "minor g1 = minor g"
    using is_fileE [OF assms] .
  obtain w' g' where w: "lflcontrol (minor g1) LF_CTL_TRUNC w = Some (Ret OK, w')" "file_ok g' w'" "same_file g1 g'" "ibs g' = []" "dbs g' = []"
    "contents g' w' = []" "file_pos g' w' = 0" "others_same g1 w w'"
    using lflcontrol_trunc_ok [OF g(2,8)] .
  have "is_file g w0 [] 0 w'" using is_file_next [OF g(1,6,7) w(8,2,3)] w(6,7) by simp
  moreover have "set (ifree g') = set (ibs g) \<union> set (ifree g)" "set (dfree g') = set (dbs g) \<union> set (dfree g)"
    using g(1) w(3-5) by (simp_all add: same_file_def)
  moreover have "free_ok g' w'" "distinct (ifree g')" "distinct (dfree g')"
    using coreD(1,2) [OF file_okD(1) [OF w(2)]] by (auto simp: placed_ok_def)
  ultimately show ?thesis using w(1) g(9) by metis
qed

theorem truncate_frees_all_blocks_witness:
  "\<exists>w1 w2 w3 w4. lfscreate 10 20480 demo_fs = Some (OK, w1) \<and> lfsopen [0x78] ''rw'' w1 = Some (Ret 20, w2) \<and>
    lflwrite 0 [1, 2, 3] 3 w2 = Some (Ret 3, w3) \<and> lflcontrol 0 LF_CTL_TRUNC w3 = Some (Ret OK, w4) \<and>
    is_file (fresh_layout 2 40 0) w2 [] 0 w4"
proof -
  obtain w1 w2 where w: "lfscreate 10 20480 demo_fs = Some (OK, w1)" "lfsopen [0x78] ''rw'' w1 = Some (Ret 20, w2)"
    "is_file (fresh_layout 2 40 0) w2 [] 0 w2" using demo_opened by blast
  have "enough (0 + length [1 :: u8, 2, 3]) (fresh_layout 2 40 0)" by (rule enough_fresh) simp_all
  then obtain w3 where 3: "lflwrite 0 [1, 2, 3] 3 w2 = Some (Ret 3, w3)" "is_file (fresh_layout 2 40 0) w2 [1, 2, 3] 3 w3"
    using lflwrite_is_file [OF w(3), of "[1, 2, 3]"] by (auto simp: put_at_def numeral_3_eq_3)
  show ?thesis using truncate_frees_all_blocks [OF 3(2)] w(1,2) 3(1) by (simp only: fresh_layout_fields) blast
qed

text \<open>What an open file has for a name: the empty name.\<close>

lemma copy_unmoved_first: "copy_unmoved name to = to[0 := 0]"
  by (induction name arbitrary: to) simp_all

lemma name_match_cleared: "name \<noteq> [] \<Longrightarrow> 0 \<notin> set name \<Longrightarrow> \<not> name_match name (to[0 := 0])"
  by (cases name; cases to) auto

lemma name_match_copy: "name_match name (copy_name name to)"
proof -
  have "name_match name (name @ 0 # b)" for b by (induction name) simp_all
  then show ?thesis by (simp add: copy_name_def)
qed

lemma find_second:
  assumes c: "all_closed w" and n: "name \<noteq> []" "0 \<notin> set name" and o: "lfname (lfltab v 0) = (lfname (lfltab w 0))[0 := 0]"
    and s: "\<forall>m. m \<noteq> 0 \<longrightarrow> lfltab v m = lfltab w m" "lfstate (lfltab v 0) = LF_USED"
  shows "find_device Nlfl 0 name SYSERR v = Some 1"
proof -
  have "lfstate (lfltab v m) = LF_FREE" if "1 \<le> m" "m < 6" for m using c s(1) that by (simp add: all_closed_def)
  then show ?thesis using name_match_cleared [OF n, of "lfname (lfltab w 0)"] o s(2) by (simp add: numeral_eq_Suc Let_def)
qed

text \<open>C31.  A file that is open can be opened again.  \<open>lfsopen\<close> means to refuse the name of a file that is
  open, but the loop that copies the name into the control block never moves its target pointer, so
  that every open file has the empty name there: the second \<open>open\<close> succeeds and two file devices,
  with buffers of their own, have the same directory entry.\<close>

theorem open_file_opens_twice:
  assumes f: "fresh_disk n s (ram w)" "1 \<le> n" "n + 1 < s" "s \<le> 200" "all_closed w" "\<not> lf_dirpresent w"
    and m: "length name < LF_NAME_LEN" "name \<noteq> []" "0 \<notin> set name" "lfgetmode mode \<noteq> SYSERR"
      "and (lfgetmode mode) LF_MODE_O = 0" "and (lfgetmode mode) LF_MODE_N = 0"
    and i: "device_idle 0 w"
  shows "\<exists>w1 w2. lfsopen name mode w = Some (Ret (lfdev (lfltab w 0)), w1) \<and> lfsopen name mode w1 = Some (Ret (lfdev (lfltab w 1)), w2) \<and>
    lfstate (lfltab w2 0) = LF_USED \<and> lfstate (lfltab w2 1) = LF_USED \<and> lfdirptr (lfltab w2 0) = Some 0 \<and> lfdirptr (lfltab w2 1) = Some 0"
proof -
  have d: "find_device Nlfl 0 name SYSERR w = Some 0" "(0 :: int) \<noteq> SYSERR" using find_device_all_closed [OF f(5)] by simp_all
  have dir: "bytes_dir (rblock (ram w) 0) = new_dir n"
    using f(1-4) bytes_dir_bytes(2) [OF new_dir_ok, of n] by (simp add: fresh_disk_def)
  have l: "sem_idle (lf_mutex w) (fk w)" using i by (simp add: device_idle_def)
  obtain u where e: "open_entry name (lfgetmode mode) (with_dir w) = Some (Some (0, u))"
    and u: "lfd_nfiles (lf_dir u) = 1" "length (lfd_files (lf_dir u)) = 20" "ld_name (lfd_files (lf_dir u) ! 0) = copy_name name (replicate 16 0)" "lf_dirpresent u"
    using m(5) f(6) by (auto simp: open_entry_def with_dir_def dir Let_def new_dir_def zero_dir_def upd_dir_def upd_ent_def)
  note E = open_entry_fields(1-4) [OF e]
  let ?v = "open_device 0 0 name (lfgetmode mode) u"
  have V: "fk ?v = fk w" "lf_mutex ?v = lf_mutex w" "with_dir ?v = ?v" "lfdev (lfltab ?v 1) = lfdev (lfltab w 1)"
    using E u(4) by (simp_all add: open_device_def with_dir_def)
  have 1: "lfsopen name mode w = Some (Ret (lfdev (lfltab w 0)), ?v)" using lfsopen_ok [OF m(1,4) d l e] .
  have d1: "find_device Nlfl 0 name SYSERR ?v = Some 1"
    by (rule find_second [OF f(5) m(2,3)]) (use E in \<open>simp_all add: open_device_def copy_unmoved_first\<close>)
  have "open_entry name (lfgetmode mode) (with_dir ?v) = Some (Some (0, ?v))"
    unfolding V(3) using u m(6) name_match_copy by (simp add: open_entry_def open_device_def)
  then have "lfsopen name mode ?v = Some (Ret (lfdev (lfltab w 1)), open_device 1 0 name (lfgetmode mode) ?v)"
    using lfsopen_ok [OF m(1,4) d1] l V by simp
  then show ?thesis using 1 by (intro exI conjI) (assumption | simp add: open_device_def)+
qed

theorem open_file_opens_twice_witness:
  "\<exists>r w1 w2. lfscreate 10 20480 demo_fs = Some (OK, demo_fs\<lparr>ram := r\<rparr>) \<and> lfsopen [0x78] ''rw'' (demo_fs\<lparr>ram := r\<rparr>) = Some (Ret 20, w1) \<and>
    lfsopen [0x78] ''rw'' w1 = Some (Ret 21, w2) \<and> lfdirptr (lfltab w2 0) = lfdirptr (lfltab w2 1)"
proof -
  obtain r where r: "lfscreate 10 20480 demo_fs = Some (OK, demo_fs\<lparr>ram := r\<rparr>)" "fresh_disk 2 40 (ram (demo_fs\<lparr>ram := r\<rparr>))"
    using lfscreate_ok [OF demo_disk_args] by auto
  have c: "all_closed (demo_fs\<lparr>ram := r\<rparr>)" "device_idle 0 (demo_fs\<lparr>ram := r\<rparr>)" using demo_all_closed demo_device_idle by (simp_all add: all_closed_def)
  show ?thesis
    using open_file_opens_twice [OF r(2) _ _ _ c(1) _ _ _ _ _ _ _ c(2), of "[0x78]" "''rw''"] r(1) by (auto simp: demo_mode)
qed

end
