(* ===== verification/LibSort.thy ===== *)
theory LibSort
  imports Prelude "HOL-Library.Multiset"
begin

text \<open>
  The library sort, \<^verbatim>\<open>lib/qsort.c\<close>.  Pointers into the array are indices of elements: all of them
  are multiples of the element size from the start, and \<open>qsexc\<close> and \<open>qstexc\<close> move whole elements.
  The loop that partitions is entered at its top (\<open>first\<close>) or at the label \<open>loop\<close>.
\<close>

subsection \<open>The code\<close>

definition qsexc :: "nat \<Rightarrow> nat \<Rightarrow> 'e list \<Rightarrow> 'e list" where
  "qsexc i j xs = (let c = xs ! i; ys = xs[i := xs ! j] in ys[j := c])"

definition qstexc :: "nat \<Rightarrow> nat \<Rightarrow> nat \<Rightarrow> 'e list \<Rightarrow> 'e list" where
  "qstexc i j k xs = (let c = xs ! i; ys = xs[i := xs ! k]; zs = ys[k := ys ! j] in zs[j := c])"

record qs_vars =
  qi :: nat
  qlp :: nat
  qhp :: nat
  qj :: nat

partial_function (option) qs_part :: "('e \<Rightarrow> 'e \<Rightarrow> int) \<Rightarrow> bool \<Rightarrow> qs_vars \<Rightarrow> 'e list \<Rightarrow> ('e list \<times> nat \<times> nat) option" where
  "qs_part cmp first v xs =
     (let i = qi v; lp = qlp v; hp = qhp v; j = qj v in
      if first \<and> i < lp then
        (let c = cmp (xs ! i) (xs ! lp) in
         if c = 0 then qs_part cmp True (v\<lparr>qlp := lp - 1\<rparr>) (qsexc i (lp - 1) xs)
         else if c < 0 then qs_part cmp True (v\<lparr>qi := i + 1\<rparr>) xs
         else qs_part cmp False v xs)
      else if j > hp then
        (let c = cmp (xs ! hp) (xs ! j) in
         if c = 0 then qs_part cmp False (v\<lparr>qhp := hp + 1\<rparr>) (qsexc (hp + 1) j xs)
         else if c > 0 then
           (if i = lp then qs_part cmp False (v\<lparr>qhp := hp + 1, qlp := lp + 1, qi := lp + 1\<rparr>) (qstexc i (hp + 1) j xs)
            else qs_part cmp True (v\<lparr>qj := j - 1, qi := i + 1\<rparr>) (qsexc i j xs))
         else qs_part cmp False (v\<lparr>qj := j - 1\<rparr>) xs)
      else if i = lp then Some (xs, lp, hp)
      else qs_part cmp True (v\<lparr>qlp := lp - 1, qhp := hp - 1, qj := hp - 1\<rparr>) (qstexc j (lp - 1) i xs))"

partial_function (option) qs1 :: "('e \<Rightarrow> 'e \<Rightarrow> int) \<Rightarrow> nat \<Rightarrow> nat \<Rightarrow> 'e list \<Rightarrow> 'e list option" where
  "qs1 cmp a l xs =
     (if l - a \<le> 1 then Some xs
      else do {
        let m = a + (l - a) div 2;
        (xs, lp, hp) \<leftarrow> qs_part cmp True \<lparr>qi = a, qlp = m, qhp = m, qj = l - 1\<rparr> xs;
        if lp - a \<ge> l - hp then do { xs \<leftarrow> qs1 cmp (hp + 1) l xs; qs1 cmp a lp xs }
        else do { xs \<leftarrow> qs1 cmp a lp xs; qs1 cmp (hp + 1) l xs }
      })"

definition qsort :: "('e \<Rightarrow> 'e \<Rightarrow> int) \<Rightarrow> nat \<Rightarrow> 'e list \<Rightarrow> 'e list option" where
  "qsort cmp n xs = qs1 cmp 0 n xs"

subsection \<open>Permutations of a part of the array\<close>

definition part_of :: "nat \<Rightarrow> nat \<Rightarrow> 'e list \<Rightarrow> 'e list" where
  "part_of a l xs = take (l - a) (drop a xs)"

definition permuted :: "nat \<Rightarrow> nat \<Rightarrow> 'e list \<Rightarrow> 'e list \<Rightarrow> bool" where
  "permuted a l xs ys \<longleftrightarrow> length ys = length xs \<and> (\<forall>k. k \<notin> {a..<l} \<longrightarrow> ys ! k = xs ! k) \<and> mset (part_of a l ys) = mset (part_of a l xs)"

lemma permuted_refl [simp]: "permuted a l xs xs"
  by (simp add: permuted_def)

lemma permuted_trans [trans]: "permuted a l xs ys \<Longrightarrow> permuted a l ys zs \<Longrightarrow> permuted a l xs zs"
  by (simp add: permuted_def)

lemma length_qsexc [simp]: "length (qsexc i j xs) = length xs"
  by (simp add: qsexc_def Let_def)

lemma length_qstexc [simp]: "length (qstexc i j k xs) = length xs"
  by (simp add: qstexc_def Let_def)

lemma nth_qsexc: "i < length xs \<Longrightarrow> j < length xs \<Longrightarrow> qsexc i j xs ! k = (if k = j then xs ! i else if k = i then xs ! j else xs ! k)"
  by (simp add: qsexc_def Let_def nth_list_update)

lemma permuted_qsexc:
  assumes "a \<le> i" "i < l" "a \<le> j" "j < l" "l \<le> length xs"
  shows "permuted a l xs (qsexc i j xs)"
proof -
  let ?ys = "part_of a l xs"
  have l: "i - a < length ?ys" "j - a < length ?ys" using assms by (simp_all add: part_of_def)
  have n: "?ys ! (i - a) = xs ! i" "?ys ! (j - a) = xs ! j" using assms by (simp_all add: part_of_def)
  have u: "part_of a l (zs[k := v]) = (part_of a l zs)[k - a := v]" if "a \<le> k" for k v and zs :: "'a list"
    using that by (simp add: part_of_def drop_update_swap take_update_swap)
  have "part_of a l (qsexc i j xs) = ?ys[i - a := ?ys ! (j - a), j - a := ?ys ! (i - a)]"
    using assms(1,3) n by (simp add: qsexc_def Let_def u)
  then have "mset (part_of a l (qsexc i j xs)) = mset ?ys" using mset_swap [OF l(2,1)] by simp
  moreover have "qsexc i j xs ! k = xs ! k" if "k \<notin> {a..<l}" for k
    using that assms nth_qsexc [of i xs j k] by auto
  ultimately show ?thesis by (simp add: permuted_def)
qed

text \<open>The exchange of three is two exchanges.\<close>

lemma qstexc_qsexc: "i \<noteq> j \<Longrightarrow> i \<noteq> k \<Longrightarrow> i < length xs \<Longrightarrow> j < length xs \<Longrightarrow> k < length xs \<Longrightarrow> qstexc i j k xs = qsexc k j (qsexc i k xs)"
  by (rule nth_equalityI) (auto simp: qstexc_def qsexc_def Let_def nth_list_update)

lemma nth_qstexc:
  assumes "i \<noteq> j" "i \<noteq> k" "i < length xs" "j < length xs" "k < length xs"
  shows "qstexc i j k xs ! m = (if m = j then xs ! i else if m = k then xs ! j else if m = i then xs ! k else xs ! m)"
  using assms by (auto simp: qstexc_def Let_def nth_list_update)

lemma permuted_qstexc:
  assumes "i \<noteq> j" "i \<noteq> k" "a \<le> i" "i < l" "a \<le> j" "j < l" "a \<le> k" "k < l" "l \<le> length xs"
  shows "permuted a l xs (qstexc i j k xs)"
proof -
  have "permuted a l xs (qsexc i k xs)" using assms by (intro permuted_qsexc)
  also have "permuted a l (qsexc i k xs) (qsexc k j (qsexc i k xs))" using assms by (intro permuted_qsexc) simp_all
  finally show ?thesis using assms by (simp add: qstexc_qsexc)
qed

subsection \<open>Comparison functions\<close>

locale comparison =
  fixes cmp :: "'e \<Rightarrow> 'e \<Rightarrow> int"
  assumes cmp_sym: "sgn (cmp y x) = - sgn (cmp x y)"
    and cmp_trans: "cmp x y \<le> 0 \<Longrightarrow> cmp y z \<le> 0 \<Longrightarrow> cmp x z \<le> 0"
begin

lemma cmp_flip: "cmp y x < 0 \<longleftrightarrow> 0 < cmp x y" "cmp y x = 0 \<longleftrightarrow> cmp x y = 0"
  using cmp_sym [of y x] by (auto simp: sgn_if split: if_splits)

lemma cmp_le_flip: "cmp y x \<le> 0 \<longleftrightarrow> 0 \<le> cmp x y"
  using cmp_flip [of y x] by linarith

text \<open>Comparing with an element that is equal to the pivot is comparing with the pivot.\<close>

lemma cmp_cong:
  assumes "cmp q p = 0"
  shows "cmp x q < 0 \<longleftrightarrow> cmp x p < 0" "cmp x q = 0 \<longleftrightarrow> cmp x p = 0" "0 < cmp x q \<longleftrightarrow> 0 < cmp x p"
    "cmp q x < 0 \<longleftrightarrow> 0 < cmp x p" "cmp q x = 0 \<longleftrightarrow> cmp x p = 0" "0 < cmp q x \<longleftrightarrow> cmp x p < 0"
proof -
  have pq: "cmp p q = 0" using assms cmp_flip(2) by blast
  have le: "cmp x q \<le> 0 \<longleftrightarrow> cmp x p \<le> 0" using cmp_trans [of x q p] cmp_trans [of x p q] assms pq by auto
  have ge: "0 \<le> cmp x q \<longleftrightarrow> 0 \<le> cmp x p" using cmp_trans [of q p x] cmp_trans [of p q x] assms pq cmp_le_flip by auto
  show "cmp x q < 0 \<longleftrightarrow> cmp x p < 0" "cmp x q = 0 \<longleftrightarrow> cmp x p = 0" "0 < cmp x q \<longleftrightarrow> 0 < cmp x p" using le ge by linarith+
  then show "cmp q x < 0 \<longleftrightarrow> 0 < cmp x p" "cmp q x = 0 \<longleftrightarrow> cmp x p = 0" "0 < cmp q x \<longleftrightarrow> cmp x p < 0"
    using cmp_flip [of q x] cmp_flip [of x q] by blast+
qed

end

subsection \<open>Partition\<close>

context comparison
begin

definition parting :: "nat \<Rightarrow> nat \<Rightarrow> 'e \<Rightarrow> nat \<Rightarrow> nat \<Rightarrow> nat \<Rightarrow> nat \<Rightarrow> 'e list \<Rightarrow> bool" where
  "parting a l p i lp hp j xs \<longleftrightarrow> a \<le> i \<and> i \<le> lp \<and> lp \<le> hp \<and> hp \<le> j \<and> j < l \<and> l \<le> length xs \<and>
     (\<forall>k \<in> {a..<i}. cmp (xs ! k) p < 0) \<and> (\<forall>k \<in> {lp..hp}. cmp (xs ! k) p = 0) \<and> (\<forall>k \<in> {j<..<l}. 0 < cmp (xs ! k) p)"

definition parted :: "nat \<Rightarrow> nat \<Rightarrow> 'e \<Rightarrow> nat \<Rightarrow> nat \<Rightarrow> 'e list \<Rightarrow> bool" where
  "parted a l p lp hp xs \<longleftrightarrow> a \<le> lp \<and> lp \<le> hp \<and> hp < l \<and>
     (\<forall>k \<in> {a..<lp}. cmp (xs ! k) p < 0) \<and> (\<forall>k \<in> {lp..hp}. cmp (xs ! k) p = 0) \<and> (\<forall>k \<in> {hp<..<l}. 0 < cmp (xs ! k) p)"

text \<open>The seven branches of the loop.\<close>

lemma part_low_equal:
  assumes "parting a l p i lp hp j xs" "i < lp" "cmp (xs ! i) p = 0"
  shows "parting a l p i (lp - 1) hp j (qsexc i (lp - 1) xs)" "permuted a l xs (qsexc i (lp - 1) xs)"
proof -
  have b: "i < length xs" "lp - 1 < length xs" using assms by (auto simp: parting_def)
  have "cmp (qsexc i (lp - 1) xs ! k) p = 0" if "k \<in> {lp - 1..hp}" for k
    using that assms b by (cases "k = lp - 1") (auto simp: parting_def nth_qsexc)
  then show "parting a l p i (lp - 1) hp j (qsexc i (lp - 1) xs)"
    using assms b by (auto simp: parting_def nth_qsexc)
  show "permuted a l xs (qsexc i (lp - 1) xs)" using assms by (intro permuted_qsexc) (auto simp: parting_def)
qed

lemma part_low_less: "parting a l p i lp hp j xs \<Longrightarrow> i < lp \<Longrightarrow> cmp (xs ! i) p < 0 \<Longrightarrow> parting a l p (i + 1) lp hp j xs"
  by (auto simp: parting_def less_Suc_eq)

lemma part_high_equal:
  assumes "parting a l p i lp hp j xs" "hp < j" "cmp (xs ! j) p = 0"
  shows "parting a l p i lp (hp + 1) j (qsexc (hp + 1) j xs)" "permuted a l xs (qsexc (hp + 1) j xs)"
    "i < lp \<Longrightarrow> qsexc (hp + 1) j xs ! i = xs ! i"
proof -
  have b: "hp + 1 < length xs" "j < length xs" using assms by (auto simp: parting_def)
  have "cmp (qsexc (hp + 1) j xs ! k) p = 0" if "k \<in> {lp..hp + 1}" for k
    using that assms b by (cases "k = hp + 1") (auto simp: parting_def nth_qsexc)
  then show "parting a l p i lp (hp + 1) j (qsexc (hp + 1) j xs)"
    using assms b by (auto simp: parting_def nth_qsexc)
  show "permuted a l xs (qsexc (hp + 1) j xs)" using assms by (intro permuted_qsexc) (auto simp: parting_def)
  show "i < lp \<Longrightarrow> qsexc (hp + 1) j xs ! i = xs ! i" using assms b by (auto simp: parting_def nth_qsexc)
qed

lemma part_high_less:
  assumes "parting a l p lp lp hp j xs" "hp < j" "cmp (xs ! j) p < 0"
  shows "parting a l p (lp + 1) (lp + 1) (hp + 1) j (qstexc lp (hp + 1) j xs)" "permuted a l xs (qstexc lp (hp + 1) j xs)"
proof -
  have b: "lp \<noteq> hp + 1" "lp \<noteq> j" "lp < length xs" "hp + 1 < length xs" "j < length xs" using assms by (auto simp: parting_def)
  note N = nth_qstexc [OF b] nth_qstexc [OF b, folded Suc_eq_plus1]
  have "cmp (qstexc lp (hp + 1) j xs ! k) p = 0" if "k \<in> {lp + 1..hp + 1}" for k
    using that assms by (cases "k = hp + 1") (auto simp: parting_def N)
  moreover have "cmp (qstexc lp (hp + 1) j xs ! k) p < 0" if "k \<in> {a..<lp + 1}" for k
    using that assms by (cases "k = lp") (auto simp: parting_def N)
  ultimately show "parting a l p (lp + 1) (lp + 1) (hp + 1) j (qstexc lp (hp + 1) j xs)"
    using assms by (auto simp: parting_def N)
  show "permuted a l xs (qstexc lp (hp + 1) j xs)" using assms by (intro permuted_qstexc) (auto simp: parting_def)
qed

lemma part_exchange:
  assumes "parting a l p i lp hp j xs" "i < lp" "hp < j" "0 < cmp (xs ! i) p" "cmp (xs ! j) p < 0"
  shows "parting a l p (i + 1) lp hp (j - 1) (qsexc i j xs)" "permuted a l xs (qsexc i j xs)"
proof -
  have b: "i < length xs" "j < length xs" "i \<noteq> j" using assms by (auto simp: parting_def)
  have "cmp (qsexc i j xs ! k) p < 0" if "k \<in> {a..<i + 1}" for k
    using that assms b by (cases "k = i") (auto simp: parting_def nth_qsexc)
  moreover have "0 < cmp (qsexc i j xs ! k) p" if "k \<in> {j - 1<..<l}" for k
    using that assms b by (cases "k = j") (auto simp: parting_def nth_qsexc)
  ultimately show "parting a l p (i + 1) lp hp (j - 1) (qsexc i j xs)"
    using assms b by (auto simp: parting_def nth_qsexc)
  show "permuted a l xs (qsexc i j xs)" using assms by (intro permuted_qsexc) (auto simp: parting_def)
qed

lemma part_high_greater:
  assumes "parting a l p i lp hp j xs" "hp < j" "0 < cmp (xs ! j) p"
  shows "parting a l p i lp hp (j - 1) xs"
proof -
  have "0 < cmp (xs ! k) p" if "k \<in> {j - 1<..<l}" for k using that assms by (cases "k = j") (auto simp: parting_def)
  then show ?thesis using assms by (auto simp: parting_def)
qed

lemma part_shift:
  assumes "parting a l p i lp hp hp xs" "i < lp" "0 < cmp (xs ! i) p"
  shows "parting a l p i (lp - 1) (hp - 1) (hp - 1) (qstexc hp (lp - 1) i xs)" "permuted a l xs (qstexc hp (lp - 1) i xs)"
proof -
  have b: "hp \<noteq> lp - 1" "hp \<noteq> i" "hp < length xs" "lp - 1 < length xs" "i < length xs" using assms by (auto simp: parting_def)
  note N = nth_qstexc [OF b] nth_qstexc [OF b, unfolded One_nat_def]
  have "cmp (qstexc hp (lp - 1) i xs ! k) p = 0" if "k \<in> {lp - 1..hp - 1}" for k
  proof (cases "k = lp - 1")
    case False
    then have "lp \<le> k" "k \<le> hp" "k \<noteq> hp" "k \<noteq> i" using that assms by (auto simp: parting_def)
    then show ?thesis using False assms by (simp add: parting_def N)
  qed (use assms in \<open>auto simp: parting_def N\<close>)
  moreover have "0 < cmp (qstexc hp (lp - 1) i xs ! k) p" if "k \<in> {hp - 1<..<l}" for k
    using that assms b by (cases "k = hp") (auto simp: parting_def N)
  ultimately show "parting a l p i (lp - 1) (hp - 1) (hp - 1) (qstexc hp (lp - 1) i xs)"
    using assms by (auto simp: parting_def N)
  show "permuted a l xs (qstexc hp (lp - 1) i xs)" using assms by (intro permuted_qstexc) (auto simp: parting_def)
qed

lemma qs_part_ok:
  assumes "parting a l p (qi v) (qlp v) (qhp v) (qj v) xs" "\<not> first \<Longrightarrow> qi v < qlp v \<Longrightarrow> 0 < cmp (xs ! qi v) p"
  shows "\<exists>ys lp hp. qs_part cmp first v xs = Some (ys, lp, hp) \<and> permuted a l xs ys \<and> parted a l p lp hp ys"
  using assms
proof (induction "2 * ((qlp v - qi v) + (qj v - qhp v)) + (if first then 1 else 0)" arbitrary: first v xs rule: less_induct)
  case less
  let ?i = "qi v" and ?lp = "qlp v" and ?hp = "qhp v" and ?j = "qj v"
  note P = less.prems(1)
  have eq: "cmp (xs ! ?lp) p = 0" "cmp (xs ! ?hp) p = 0" using P by (auto simp: parting_def)
  note C = cmp_cong [OF eq(1)] cmp_cong [OF eq(2)]
  have go: ?case if "qs_part cmp first v xs = qs_part cmp f v' zs" "permuted a l xs zs" "parting a l p (qi v') (qlp v') (qhp v') (qj v') zs"
    "\<not> f \<Longrightarrow> qi v' < qlp v' \<Longrightarrow> 0 < cmp (zs ! qi v') p"
    "2 * ((qlp v' - qi v') + (qj v' - qhp v')) + (if f then 1 else 0) < 2 * ((?lp - ?i) + (?j - ?hp)) + (if first then 1 else 0)" for f v' zs
    using less.hyps [OF that(5) that(3,4)] that(1,2) permuted_trans by metis
  show ?case
  proof (cases "first \<and> ?i < ?lp")
    case low: True
    consider "cmp (xs ! ?i) (xs ! ?lp) = 0" | "cmp (xs ! ?i) (xs ! ?lp) < 0" | "0 < cmp (xs ! ?i) (xs ! ?lp)" by linarith
    then show ?thesis
    proof cases
      case 1
      have c: "cmp (xs ! ?i) p = 0" using 1 C(2) by blast
      have i: "?i < ?lp" "first" using low by simp_all
      have e: "qs_part cmp first v xs = qs_part cmp True (v\<lparr>qlp := ?lp - 1\<rparr>) (qsexc ?i (?lp - 1) xs)"
        by (subst qs_part.simps) (simp add: i 1 Let_def)
      show ?thesis by (rule go [OF e]) (use part_low_equal [OF P i(1) c] i in simp_all)
    next
      case 2
      have c: "cmp (xs ! ?i) p < 0" using 2 C(1) by blast
      have i: "?i < ?lp" "first" using low by simp_all
      have e: "qs_part cmp first v xs = qs_part cmp True (v\<lparr>qi := ?i + 1\<rparr>) xs" by (subst qs_part.simps) (use 2 in \<open>simp add: i Let_def\<close>)
      show ?thesis by (rule go [OF e]) (use part_low_less [OF P i(1) c] i in simp_all)
    next
      case 3
      have c: "0 < cmp (xs ! ?i) p" using 3 C(3) by blast
      have i: "?i < ?lp" "first" using low by simp_all
      have e: "qs_part cmp first v xs = qs_part cmp False v xs" by (subst qs_part.simps) (use 3 in \<open>simp add: i Let_def\<close>)
      show ?thesis by (rule go [OF e]) (use P c i in simp_all)
    qed
  next
    case high: False
    show ?thesis
    proof (cases "?hp < ?j")
      case j: True
      have n: "\<not> (first \<and> ?i < ?lp)" using high .
      consider "cmp (xs ! ?hp) (xs ! ?j) = 0" | "0 < cmp (xs ! ?hp) (xs ! ?j)" "?i = ?lp" | "0 < cmp (xs ! ?hp) (xs ! ?j)" "?i \<noteq> ?lp"
        | "cmp (xs ! ?hp) (xs ! ?j) < 0" by linarith
      then show ?thesis
      proof cases
        case 1
        have c: "cmp (xs ! ?j) p = 0" using 1 C(11) by blast
        have e: "qs_part cmp first v xs = qs_part cmp False (v\<lparr>qhp := ?hp + 1\<rparr>) (qsexc (?hp + 1) ?j xs)"
          by (subst qs_part.simps) (simp add: n j 1 Let_def)
        show ?thesis by (rule go [OF e]) (use part_high_equal [OF P j c] less.prems(2) n j in simp_all)
      next
        case 2
        have c: "cmp (xs ! ?j) p < 0" using 2(1) C(12) by blast
        have P': "parting a l p ?lp ?lp ?hp ?j xs" using P 2(2) by simp
        have e: "qs_part cmp first v xs = qs_part cmp False (v\<lparr>qhp := ?hp + 1, qlp := ?lp + 1, qi := ?lp + 1\<rparr>) (qstexc ?lp (?hp + 1) ?j xs)"
          by (subst qs_part.simps) (use 2 in \<open>simp add: j Let_def\<close>)
        show ?thesis by (rule go [OF e]) (use part_high_less [OF P' j c] j in simp_all)
      next
        case 3
        have c: "cmp (xs ! ?j) p < 0" using 3(1) C(12) by blast
        have i: "?i < ?lp" using 3(2) P by (simp add: parting_def)
        have e: "qs_part cmp first v xs = qs_part cmp True (v\<lparr>qj := ?j - 1, qi := ?i + 1\<rparr>) (qsexc ?i ?j xs)"
          by (subst qs_part.simps) (use 3 in \<open>simp add: n j Let_def\<close>)
        show ?thesis by (rule go [OF e]) (use part_exchange [OF P i j _ c] less.prems(2) n i j in simp_all)
      next
        case 4
        have c: "0 < cmp (xs ! ?j) p" using 4 C(10) by blast
        have e: "qs_part cmp first v xs = qs_part cmp False (v\<lparr>qj := ?j - 1\<rparr>) xs"
          by (subst qs_part.simps) (use 4 in \<open>simp add: n j Let_def\<close>)
        show ?thesis by (rule go [OF e]) (use part_high_greater [OF P j c] less.prems(2) n j in simp_all)
      qed
    next
      case j: False
      then have hj: "?j = ?hp" using P by (simp add: parting_def)
      show ?thesis
      proof (cases "?i = ?lp")
        case True
        have "qs_part cmp first v xs = Some (xs, ?lp, ?hp)" by (subst qs_part.simps) (use j in \<open>simp add: True Let_def\<close>)
        moreover have "parted a l p ?lp ?hp xs" using P True hj by (simp add: parting_def parted_def)
        ultimately show ?thesis by simp
      next
        case False
        then have i: "?i < ?lp" using P by (simp add: parting_def)
        have c: "0 < cmp (xs ! ?i) p" using less.prems(2) high i by simp
        have P': "parting a l p ?i ?lp ?hp ?hp xs" using P hj by simp
        have e: "qs_part cmp first v xs = qs_part cmp True (v\<lparr>qlp := ?lp - 1, qhp := ?hp - 1, qj := ?hp - 1\<rparr>) (qstexc ?hp (?lp - 1) ?i xs)"
          by (subst qs_part.simps) (use j False in \<open>simp add: high hj Let_def\<close>)
        show ?thesis by (rule go [OF e]) (use part_shift [OF P' i c] i in simp_all)
      qed
    qed
  qed
qed

subsection \<open>The whole sort\<close>

definition ordered :: "nat \<Rightarrow> nat \<Rightarrow> 'e list \<Rightarrow> bool" where
  "ordered a l xs \<longleftrightarrow> (\<forall>i j. a \<le> i \<and> i < j \<and> j < l \<longrightarrow> cmp (xs ! i) (xs ! j) \<le> 0)"

lemma part_of_elem: "l \<le> length xs \<Longrightarrow> x \<in> set (part_of a l xs) \<longleftrightarrow> (\<exists>k. a \<le> k \<and> k < l \<and> x = xs ! k)"
proof -
  assume l: "l \<le> length xs"
  have "x \<in> set (part_of a l xs) \<longleftrightarrow> (\<exists>i < l - a. x = xs ! (a + i))"
    using l by (auto simp: part_of_def in_set_conv_nth)
  also have "\<dots> \<longleftrightarrow> (\<exists>k. a \<le> k \<and> k < l \<and> x = xs ! k)"
  proof
    assume "\<exists>i < l - a. x = xs ! (a + i)"
    then obtain i where "i < l - a" "x = xs ! (a + i)" by blast
    then show "\<exists>k. a \<le> k \<and> k < l \<and> x = xs ! k" by (intro exI [of _ "a + i"]) simp
  next
    assume "\<exists>k. a \<le> k \<and> k < l \<and> x = xs ! k"
    then obtain k where "a \<le> k" "k < l" "x = xs ! k" by blast
    then show "\<exists>i < l - a. x = xs ! (a + i)" by (intro exI [of _ "k - a"]) simp
  qed
  finally show ?thesis .
qed

text \<open>A permutation of a part keeps what holds of all its elements.\<close>

lemma permuted_all:
  assumes "mset (part_of a l ys) = mset (part_of a l xs)" "l \<le> length xs" "l \<le> length ys" "\<And>k. a \<le> k \<Longrightarrow> k < l \<Longrightarrow> P (xs ! k)" "a \<le> k" "k < l"
  shows "P (ys ! k)"
proof -
  have "set (part_of a l ys) = set (part_of a l xs)" using assms(1) mset_eq_setD by blast
  moreover have "ys ! k \<in> set (part_of a l ys)" using part_of_elem [OF assms(3)] assms(5,6) by blast
  ultimately obtain m where "a \<le> m" "m < l" "ys ! k = xs ! m" using part_of_elem [OF assms(2)] by auto
  then show ?thesis using assms(4) by simp
qed

lemma part_of_split: "a \<le> m \<Longrightarrow> m \<le> l \<Longrightarrow> part_of a l xs = part_of a m xs @ part_of m l xs"
proof -
  assume "a \<le> m" "m \<le> l"
  then have "l - a = (m - a) + (l - m)" "drop (m - a) (drop a xs) = drop m xs" by simp_all
  then show ?thesis by (simp only: part_of_def take_add)
qed

lemma part_of_outside: "length ys = length xs \<Longrightarrow> (\<And>k. a \<le> k \<Longrightarrow> k < l \<Longrightarrow> ys ! k = xs ! k) \<Longrightarrow> part_of a l ys = part_of a l xs"
  by (rule nth_equalityI) (auto simp: part_of_def)

lemma permuted_wider:
  fixes xs ys :: "'e list"
  assumes "permuted b m xs ys" "a \<le> b" "b \<le> m" "m \<le> l"
  shows "permuted a l xs ys"
proof -
  have o: "part_of a b ys = part_of a b xs" "part_of m l ys = part_of m l xs"
    by (rule part_of_outside; use assms in \<open>auto simp: permuted_def\<close>)+
  have s: "part_of a l zs = part_of a b zs @ part_of b m zs @ part_of m l zs" for zs :: "'e list"
    using part_of_split [of a b l zs] part_of_split [of b m l zs] assms by simp
  have "mset (part_of a l ys) = mset (part_of a l xs)" using assms(1) unfolding s [of ys] s [of xs] o by (simp add: permuted_def)
  then show ?thesis using assms by (auto simp: permuted_def)
qed

lemma permuted_apart: "permuted a l xs ys \<Longrightarrow> m \<le> a \<or> l \<le> b \<Longrightarrow> part_of b m ys = part_of b m xs"
  by (rule part_of_outside) (auto simp: permuted_def)

text \<open>Two sorted parts around the elements that are equal to the pivot.\<close>

lemma ordered_parts:
  assumes p: "parted a l p lp hp ys" and len: "length us = length ys" "l \<le> length ys"
    and m: "mset (part_of a lp us) = mset (part_of a lp ys)" "mset (part_of (hp + 1) l us) = mset (part_of (hp + 1) l ys)"
    and s: "\<And>k. lp \<le> k \<Longrightarrow> k \<le> hp \<Longrightarrow> us ! k = ys ! k" and o: "ordered a lp us" "ordered (hp + 1) l us"
  shows "ordered a l us"
proof -
  have b: "a \<le> lp" "lp \<le> hp" "hp < l" using p by (simp_all add: parted_def)
  have low: "cmp (us ! k) p < 0" if "a \<le> k" "k < lp" for k
    using permuted_all [OF m(1), of "\<lambda>x. cmp x p < 0" k] p that b len by (simp add: parted_def)
  have mid: "cmp (us ! k) p = 0" if "lp \<le> k" "k \<le> hp" for k using p that s by (simp add: parted_def)
  have high: "0 < cmp (us ! k) p" if "hp < k" "k < l" for k
    using permuted_all [OF m(2), of "\<lambda>x. 0 < cmp x p" k] p that len by (simp add: parted_def)
  have "cmp (us ! i) (us ! j) \<le> 0" if ij: "a \<le> i" "i < j" "j < l" for i j
  proof -
    consider "j < lp" | "hp < i" | "i \<le> hp" "lp \<le> j" by linarith
    then show ?thesis
    proof cases
      case 3
      have "cmp (us ! i) p \<le> 0" using low [of i] mid [of i] ij 3(1) by (cases "i < lp") simp_all
      moreover have "0 \<le> cmp (us ! j) p" using high [of j] mid [of j] ij 3(2) by (cases "j \<le> hp") auto
      then have "cmp p (us ! j) \<le> 0" using cmp_le_flip by blast
      ultimately show ?thesis by (rule cmp_trans)
    qed (use o ij in \<open>auto simp: ordered_def\<close>)
  qed
  then show ?thesis by (simp add: ordered_def)
qed

lemma qs1_ok:
  assumes "l \<le> length xs"
  shows "\<exists>ys. qs1 cmp a l xs = Some ys \<and> permuted a l xs ys \<and> ordered a l ys"
  using assms
proof (induction "l - a" arbitrary: a l xs rule: less_induct)
  case less
  show ?case
  proof (cases "l - a \<le> 1")
    case True
    then have "qs1 cmp a l xs = Some xs" by (subst qs1.simps) simp
    then show ?thesis using True by (auto simp: ordered_def)
  next
    case big: False
    let ?m = "a + (l - a) div 2" and ?v = "\<lparr>qi = a, qlp = a + (l - a) div 2, qhp = a + (l - a) div 2, qj = l - 1\<rparr>"
    have "cmp (xs ! ?m) (xs ! ?m) = 0" using cmp_sym [of "xs ! ?m" "xs ! ?m"] by (simp add: sgn_if split: if_splits)
    then have "parting a l (xs ! ?m) a ?m ?m (l - 1) xs" using big less.prems by (auto simp: parting_def)
    then obtain ys lp hp where p: "qs_part cmp True ?v xs = Some (ys, lp, hp)" "permuted a l xs ys" "parted a l (xs ! ?m) lp hp ys"
      using qs_part_ok [of a l "xs ! ?m" ?v xs True] by auto
    have b: "a \<le> lp" "lp \<le> hp" "hp < l" using p(3) by (simp_all add: parted_def)
    have len: "l \<le> length ys" using p(2) less.prems by (simp add: permuted_def)
    have low: "\<exists>zs. qs1 cmp a lp us = Some zs \<and> permuted a lp us zs \<and> ordered a lp zs" if "l \<le> length us" for us
      using less.hyps [of lp a us] b that by simp
    have high: "\<exists>zs. qs1 cmp (hp + 1) l us = Some zs \<and> permuted (hp + 1) l us zs \<and> ordered (hp + 1) l zs" if "l \<le> length us" for us
      using less.hyps [of l "hp + 1" us] b that by simp
    have "\<exists>us. qs1 cmp a l xs = Some us \<and> length us = length ys \<and> mset (part_of a lp us) = mset (part_of a lp ys) \<and>
      mset (part_of (hp + 1) l us) = mset (part_of (hp + 1) l ys) \<and> (\<forall>k. lp \<le> k \<and> k \<le> hp \<longrightarrow> us ! k = ys ! k) \<and>
      ordered a lp us \<and> ordered (hp + 1) l us \<and> permuted a l ys us"
    proof (cases "lp - a \<ge> l - hp")
      case True
      obtain zs where z: "qs1 cmp (hp + 1) l ys = Some zs" "permuted (hp + 1) l ys zs" "ordered (hp + 1) l zs" using high [OF len] by blast
      obtain us where u: "qs1 cmp a lp zs = Some us" "permuted a lp zs us" "ordered a lp us" using low [of zs] z(2) len by (auto simp: permuted_def)
      have "qs1 cmp a l xs = Some us" using big p(1) z(1) u(1) True by (subst qs1.simps) (simp add: Let_def)
      moreover have "ordered (hp + 1) l us" using z(3) u(2) b by (simp add: permuted_def ordered_def)
      moreover have "part_of (hp + 1) l us = part_of (hp + 1) l zs" "part_of a lp zs = part_of a lp ys"
        using permuted_apart [OF u(2), of l "hp + 1"] permuted_apart [OF z(2), of lp a] b by simp_all
      moreover have "permuted a l ys us"
        using permuted_wider [OF z(2), of a l] permuted_wider [OF u(2), of a l] b permuted_trans by fastforce
      ultimately show ?thesis using u(2,3) z(2) b by (intro exI [of _ us]) (simp add: permuted_def)
    next
      case False
      obtain zs where z: "qs1 cmp a lp ys = Some zs" "permuted a lp ys zs" "ordered a lp zs" using low [OF len] by blast
      obtain us where u: "qs1 cmp (hp + 1) l zs = Some us" "permuted (hp + 1) l zs us" "ordered (hp + 1) l us" using high [of zs] z(2) len by (auto simp: permuted_def)
      have "qs1 cmp a l xs = Some us" using big p(1) z(1) u(1) False by (subst qs1.simps) (simp add: Let_def)
      moreover have "ordered a lp us" using z(3) u(2) b by (simp add: permuted_def ordered_def)
      moreover have "part_of (hp + 1) l zs = part_of (hp + 1) l ys" "part_of a lp us = part_of a lp zs"
        using permuted_apart [OF z(2), of l "hp + 1"] permuted_apart [OF u(2), of lp a] b by simp_all
      moreover have "permuted a l ys us"
        using permuted_wider [OF z(2), of a l] permuted_wider [OF u(2), of a l] b permuted_trans by fastforce
      ultimately show ?thesis using u(2,3) z(2) b by (intro exI [of _ us]) (simp add: permuted_def)
    qed
    then obtain us where u: "qs1 cmp a l xs = Some us" "length us = length ys" "mset (part_of a lp us) = mset (part_of a lp ys)"
      "mset (part_of (hp + 1) l us) = mset (part_of (hp + 1) l ys)" "\<forall>k. lp \<le> k \<and> k \<le> hp \<longrightarrow> us ! k = ys ! k"
      "ordered a lp us" "ordered (hp + 1) l us" "permuted a l ys us" by blast
    have "ordered a l us" using ordered_parts [OF p(3) u(2) len u(3,4) _ u(6,7)] u(5) by blast
    then show ?thesis using u(1) permuted_trans [OF p(2) u(8)] by blast
  qed
qed

end

end
