(* ===== verification/LibStrings.thy ===== *)
theory LibStrings
  imports LibSort
begin

text \<open>
  The string and memory functions of \<^verbatim>\<open>lib/\<close>.  Memory is a function from addresses to bytes, a string
  is an address, and \<open>char\<close> is signed, as the compiler for this machine has it (\<open>sint\<close>).  A loop that
  looks for a null byte is a partial function: it does not return when there is none.
\<close>

type_synonym bytes = "nat \<Rightarrow> u8"

definition schar :: "int \<Rightarrow> int" where
  "schar c = sint (word_of_int c :: u8)"

subsection \<open>Lengths\<close>

partial_function (option) strlen_loop :: "bytes \<Rightarrow> nat \<Rightarrow> nat \<Rightarrow> nat option" where
  "strlen_loop m str len = (if m str \<noteq> 0 then strlen_loop m (str + 1) (len + 1) else Some len)"

definition strlen :: "bytes \<Rightarrow> nat \<Rightarrow> nat option" where
  "strlen m str = strlen_loop m str 0"

fun strnlen_loop :: "nat \<Rightarrow> bytes \<Rightarrow> nat \<Rightarrow> nat \<Rightarrow> nat" where
  "strnlen_loop 0 m s n = n"
| "strnlen_loop (Suc left) m s n = (if m s \<noteq> 0 then strnlen_loop left m (s + 1) (n + 1) else n)"

definition strnlen :: "bytes \<Rightarrow> nat \<Rightarrow> nat \<Rightarrow> nat" where
  "strnlen m s len = strnlen_loop len m s 0"

subsection \<open>Comparing\<close>

partial_function (option) strcmp :: "bytes \<Rightarrow> nat \<Rightarrow> nat \<Rightarrow> int option" where
  "strcmp m str1 str2 =
     (if m str1 = m str2 then (if m str1 = 0 then Some 0 else strcmp m (str1 + 1) (str2 + 1))
      else if sint (m str1) < sint (m str2) then Some (- 1) else Some 1)"

fun strncmp :: "bytes \<Rightarrow> nat \<Rightarrow> nat \<Rightarrow> nat \<Rightarrow> int" where
  "strncmp m s1 s2 0 = 0"
| "strncmp m s1 s2 (Suc n) =
     (if m s1 = m s2 then (if m s1 = 0 then 0 else strncmp m (s1 + 1) (s2 + 1) n) else sint (m s1) - sint (m s2))"

fun memcmp :: "bytes \<Rightarrow> nat \<Rightarrow> nat \<Rightarrow> nat \<Rightarrow> int" where
  "memcmp m s1 s2 0 = 0"
| "memcmp m s1 s2 (Suc n) = (if m s1 \<noteq> m s2 then uint (m s1) - uint (m s2) else memcmp m (s1 + 1) (s2 + 1) n)"

subsection \<open>Searching\<close>

text \<open>A pointer that is not found is \<open>None\<close> inside the option of the partial function.\<close>

partial_function (option) strchr :: "bytes \<Rightarrow> nat \<Rightarrow> u8 \<Rightarrow> nat option option" where
  "strchr m s c =
     (if m s \<noteq> 0 then (if m s = c then Some (Some s) else strchr m (s + 1) c)
      else if c = m s then Some (Some s) else Some None)"

partial_function (option) strrchr_loop :: "bytes \<Rightarrow> nat \<Rightarrow> u8 \<Rightarrow> nat option \<Rightarrow> nat option option" where
  "strrchr_loop m s c r =
     (if m s \<noteq> 0 then strrchr_loop m (s + 1) c (if m s = c then Some s else r)
      else if c = m s then Some (Some s) else Some r)"

definition strrchr :: "bytes \<Rightarrow> nat \<Rightarrow> u8 \<Rightarrow> nat option option" where
  "strrchr m s c = strrchr_loop m s c None"

text \<open>\<open>memchr\<close> compares the signed byte in memory with the unsigned one it looks for, and does not use its length.\<close>

partial_function (option) memchr :: "bytes \<Rightarrow> nat \<Rightarrow> u8 \<Rightarrow> nat \<Rightarrow> nat option option" where
  "memchr m cp c n =
     (if m cp \<noteq> 0 then (if sint (m cp) = uint c then Some (Some cp) else memchr m (cp + 1) c n) else Some None)"

partial_function (option) strstr_inner :: "bytes \<Rightarrow> nat \<Rightarrow> nat \<Rightarrow> nat option" where
  "strstr_inner m cq cr =
     (if m cq \<noteq> 0 \<and> m cr \<noteq> 0 \<and> m cq = m cr then strstr_inner m (cq + 1) (cr + 1) else Some cr)"

partial_function (option) strstr :: "bytes \<Rightarrow> nat \<Rightarrow> nat \<Rightarrow> nat option option" where
  "strstr m cs ct =
     (if m cs \<noteq> 0 then
        (if m cs = m ct then do {
           cr \<leftarrow> strstr_inner m cs ct;
           if m cr = 0 then Some (Some cs) else strstr m (cs + 1) ct
         }
         else strstr m (cs + 1) ct)
      else Some None)"

subsection \<open>Copying\<close>

fun memcpy :: "nat \<Rightarrow> nat \<Rightarrow> nat \<Rightarrow> bytes \<Rightarrow> bytes" where
  "memcpy dst src 0 m = m"
| "memcpy dst src (Suc n) m = memcpy (dst + 1) (src + 1) n (m(dst := m src))"

fun memset :: "nat \<Rightarrow> u8 \<Rightarrow> nat \<Rightarrow> bytes \<Rightarrow> bytes" where
  "memset cp c 0 m = m"
| "memset cp c (Suc n) m = memset (cp + 1) c n (m(cp := c))"

definition bzero :: "nat \<Rightarrow> int \<Rightarrow> bytes \<Rightarrow> bytes" where
  "bzero p len m = (if len \<le> 0 then m else memset p 0 (nat len) m)"

partial_function (option) strcpy :: "nat \<Rightarrow> nat \<Rightarrow> bytes \<Rightarrow> bytes option" where
  "strcpy tar src m =
     (let m' = m(tar := m src) in if m src \<noteq> 0 then strcpy (tar + 1) (src + 1) m' else Some m')"

fun strncpy_pad :: "nat \<Rightarrow> nat \<Rightarrow> bytes \<Rightarrow> bytes" where
  "strncpy_pad 0 s1 m = m"
| "strncpy_pad (Suc n) s1 m = strncpy_pad n (s1 + 1) (m(s1 := 0))"

fun strncpy :: "nat \<Rightarrow> nat \<Rightarrow> nat \<Rightarrow> bytes \<Rightarrow> bytes" where
  "strncpy s1 s2 0 m = m"
| "strncpy s1 s2 (Suc n) m =
     (let m' = m(s1 := m s2) in if m s2 = 0 then strncpy_pad n (s1 + 1) m' else strncpy (s1 + 1) (s2 + 1) n m')"

partial_function (option) strncat_copy :: "nat \<Rightarrow> nat \<Rightarrow> int \<Rightarrow> bytes \<Rightarrow> bytes option" where
  "strncat_copy s1 s2 n m =
     (let m' = m(s1 := m s2) in
      if m s2 \<noteq> 0 then (if n - 1 < 0 then Some (m'(s1 := 0)) else strncat_copy (s1 + 1) (s2 + 1) (n - 1) m')
      else Some m')"

definition strncat :: "nat \<Rightarrow> nat \<Rightarrow> int \<Rightarrow> bytes \<Rightarrow> bytes option" where
  "strncat s1 s2 n m = do { len \<leftarrow> strlen m s1; strncat_copy (s1 + len) s2 n m }"

subsection \<open>Numbers\<close>

text \<open>The blanks and the sign: the address of the first digit and whether there was a minus sign.\<close>

partial_function (option) atoi_skip :: "bytes \<Rightarrow> nat \<Rightarrow> (nat \<times> bool) option" where
  "atoi_skip m p =
     (if m p = 32 \<or> m p = 9 then atoi_skip m (p + 1)
      else if m p = 45 then Some (p + 1, True)
      else if m p = 43 then Some (p + 1, False)
      else Some (p, False))"

partial_function (option) atoi_digits :: "bytes \<Rightarrow> nat \<Rightarrow> int \<Rightarrow> int option" where
  "atoi_digits m p n =
     (if 48 \<le> m p \<and> m p \<le> 57 then atoi_digits m (p + 1) (wrap32 (n * 10 + uint (m p) - 48)) else Some n)"

definition atoi :: "bytes \<Rightarrow> nat \<Rightarrow> int option" where
  "atoi m p = do {
     (p, f) \<leftarrow> atoi_skip m p;
     n \<leftarrow> atoi_digits m p 0;
     Some (if f then wrap32 (- n) else n)
   }"

text \<open>\<^verbatim>\<open>lib/atol.c\<close> has the same loops; \<open>int\<close> and \<open>long\<close> have the same width here.\<close>

definition atol :: "bytes \<Rightarrow> nat \<Rightarrow> int option" where
  "atol m p = do {
     (p, f) \<leftarrow> atoi_skip m p;
     n \<leftarrow> atoi_digits m p 0;
     Some (if f then wrap32 (- n) else n)
   }"

definition labs :: "int \<Rightarrow> int" where
  "labs arg = (if arg < 0 then wrap32 (- arg) else arg)"

definition abs32 :: "int \<Rightarrow> int" where
  "abs32 arg = (if arg < 0 then wrap32 (- arg) else arg)"

definition srand :: "u32 \<Rightarrow> u32" where
  "srand x = x"

text \<open>The generator of \<^verbatim>\<open>lib/rand.c\<close>; its state is the value.\<close>

definition rand :: "u32 \<Rightarrow> u32 \<times> u32" where
  "rand randx = (let randx = randx * 1103515245 + 12345 in (and (drop_bit 16 randx) 0x7FFF, randx))"

end
