(* ===== verification/LibPrint.thy ===== *)
theory LibPrint
  imports LibStrings "HOL-Library.Signed_Division"
begin

text \<open>
  Formatted output, \<^verbatim>\<open>lib/doprnt.c\<close> and \<^verbatim>\<open>lib/fdoprnt.c\<close>.  A format is the list of its bytes without the
  null byte; the output is the list of the bytes handed to the output function.  The buffer
  \<open>string\<close> has 20 bytes: a conversion that writes outside it, a text in it without a null byte, and
  an argument of the wrong kind are \<open>None\<close>.
\<close>

datatype prarg = AInt int | AStr "u8 list option"

abbreviation (input) MAXSTR :: int where "MAXSTR \<equiv> 80"

subsection \<open>Numbers\<close>

text \<open>The digits of a number, the lowest first, and the loop that drops the zeros at the top.\<close>

fun digits10 :: "nat \<Rightarrow> int \<Rightarrow> u8 list" where
  "digits10 0 num = []"
| "digits10 (Suc n) num = word_of_int (num smod 10 + 48) # digits10 n (num sdiv 10)"

fun digits_in :: "nat \<Rightarrow> int \<Rightarrow> (int \<Rightarrow> u8) \<Rightarrow> int \<Rightarrow> u8 list" where
  "digits_in 0 base ch num = []"
| "digits_in (Suc n) base ch num = ch (num mod base) # digits_in n base ch (num div base)"

fun top_digit :: "u8 list \<Rightarrow> nat \<Rightarrow> nat" where
  "top_digit temp 0 = 0"
| "top_digit temp (Suc i) = (if temp ! Suc i = 48 then top_digit temp i else Suc i)"

definition copy_down :: "u8 list \<Rightarrow> u8 list" where
  "copy_down temp = (let i = top_digit temp (length temp - 1); i = (if i = 0 then 1 else i) in rev (take (i + 1) temp))"

definition prtl10 :: "int \<Rightarrow> u8 list" where
  "prtl10 num = copy_down (0 # digits10 10 num)"

definition prtl8 :: "int \<Rightarrow> u8 list" where
  "prtl8 num = (let temp = 0 # digits_in 11 8 (\<lambda>d. word_of_int (d + 48)) num in copy_down (temp[11 := and (temp ! 11) 51]))"

definition prtl16 :: "int \<Rightarrow> u8 list" where
  "prtl16 num = copy_down (0 # digits_in 8 16 (\<lambda>d. word_of_int (if d < 10 then d + 48 else d + 87)) num)"

definition prtX16 :: "int \<Rightarrow> u8 list" where
  "prtX16 num = copy_down (0 # digits_in 8 16 (\<lambda>d. word_of_int (if d < 10 then d + 48 else d + 55)) num)"

definition prtl2 :: "int \<Rightarrow> u8 list" where
  "prtl2 num = copy_down (0 # digits_in 32 2 (\<lambda>d. if d = 0 then 48 else 49) num)"

subsection \<open>The parts of a conversion\<close>

fun get_digits :: "u8 list \<Rightarrow> int \<Rightarrow> int \<times> u8 list" where
  "get_digits [] n = (n, [])"
| "get_digits (c # fmt) n = (if 48 \<le> c \<and> c \<le> 57 then get_digits fmt (wrap32 (n * 10 + uint c - 48)) else (n, c # fmt))"

fun int_arg :: "prarg list \<Rightarrow> (int \<times> prarg list) option" where
  "int_arg (AInt n # ap) = Some (n, ap)"
| "int_arg ap = None"

fun str_arg :: "prarg list \<Rightarrow> (u8 list option \<times> prarg list) option" where
  "str_arg (AStr s # ap) = Some (s, ap)"
| "str_arg ap = None"

definition get_width :: "u8 list \<Rightarrow> prarg list \<Rightarrow> (int \<times> u8 list \<times> prarg list) option" where
  "get_width fmt ap =
     (if hd_or fmt 0 = 42 then do { (n, ap) \<leftarrow> int_arg ap; Some (n, tl fmt, ap) }
      else let (n, fmt) = get_digits fmt 0 in Some (n, fmt, ap))"

definition put_text :: "nat \<Rightarrow> u8 list \<Rightarrow> u8 list \<Rightarrow> u8 list option" where
  "put_text k t string = (if k + length t \<le> 20 then Some (take k string @ t @ drop (k + length t) string) else None)"

definition text_in :: "u8 list \<Rightarrow> u8 list option" where
  "text_in string = (if 0 \<in> set string then Some (takeWhile (\<lambda>c. c \<noteq> 0) string) else None)"

text \<open>The loop that makes an unsigned number positive counts in \<open>digit1\<close>.\<close>

fun unsign :: "nat \<Rightarrow> int \<Rightarrow> u8 \<Rightarrow> int \<times> u8" where
  "unsign 0 larg digit = (larg, digit)"
| "unsign (Suc n) larg digit = (if larg < 0 then unsign n (wrap32 (larg - 1000000000)) (digit + 1) else (larg, digit))"

record conv =
  ctext :: "u8 list"          \<comment> \<open>what \<open>str\<close> points to, to its null byte\<close>
  fmax :: int
  fill :: u8
  minus :: bool
  direct :: "u8 list"        \<comment> \<open>output made by the conversion itself\<close>

text \<open>One conversion: its text, the remaining arguments and the buffer.  \<open>wide\<close> says whether the
  conversions \<open>H\<close> and \<open>h\<close> are there.\<close>

definition convert :: "bool \<Rightarrow> u8 \<Rightarrow> int \<Rightarrow> u8 \<Rightarrow> prarg list \<Rightarrow> u8 list \<Rightarrow> (conv \<times> prarg list \<times> u8 list) option" where
  "convert wide f fmx fll ap string =
     (let fin = (\<lambda>fmx fll sign ap string. do { t \<leftarrow> text_in string;
            Some (\<lparr>ctext = t, fmax = fmx, fill = fll, minus = sign, direct = []\<rparr>, ap, string) });
          number = (\<lambda>prt. do { (larg, ap) \<leftarrow> int_arg ap; string \<leftarrow> put_text 0 (prt larg) string; fin 0 fll False ap string });
          pair = (\<lambda>prt. do { (larg, ap) \<leftarrow> int_arg ap; string \<leftarrow> put_text 0 (prt larg) string;
            (larg, ap) \<leftarrow> int_arg ap; string \<leftarrow> put_text 8 (prt larg) string; fin 0 fll False ap string })
      in
      if f = 99 then do { (c, ap) \<leftarrow> int_arg ap; string \<leftarrow> put_text 0 [word_of_int c, 0] string; fin 0 32 False ap string }
      else if f = 115 then do {
        (s, ap) \<leftarrow> str_arg ap;
        let t = (case s of None \<Rightarrow> [40, 110, 117, 108, 108, 41] | Some t \<Rightarrow> t);
        Some (\<lparr>ctext = t, fmax = fmx, fill = 32, minus = False, direct = []\<rparr>, ap, string)
      }
      else if f = 100 then do {
        (larg, ap) \<leftarrow> int_arg ap;
        string \<leftarrow> put_text 0 (prtl10 (if larg < 0 then wrap32 (- larg) else larg)) string;
        fin fmx fll (larg < 0) ap string
      }
      else if f = 117 then do {
        (larg, ap) \<leftarrow> int_arg ap;
        let (larg, digit) = unsign 5 larg 0;
        string \<leftarrow> put_text 0 (prtl10 larg) string;
        fin 0 fll False ap (string[0 := string ! 0 + digit])
      }
      else if f = 111 then number prtl8
      else if f = 88 then number prtX16
      else if f = 120 then number prtl16
      else if wide \<and> f = 72 then pair prtX16
      else if wide \<and> f = 104 then pair prtl16
      else if f = 98 then number prtl2
      else do { t \<leftarrow> text_in string; Some (\<lparr>ctext = t, fmax = fmx, fill = fll, minus = False, direct = [f]\<rparr>, ap, string) })"

text \<open>The text with its sign, cut and filled up to the width.\<close>

definition justify :: "bool \<Rightarrow> int \<Rightarrow> conv \<Rightarrow> u8 list" where
  "justify leftjust fmin c =
     (let fmin = (if fmin > MAXSTR \<or> fmin < 0 then 0 else fmin);
          fmx = (if fmax c > MAXSTR \<or> fmax c < 0 then 0 else fmax c);
          len = int (length (ctext c));
          len = (if fmx \<noteq> 0 \<and> len > fmx then fmx else len);
          leading = (if fmx \<noteq> 0 \<or> fmin \<noteq> 0 then (if fmin \<noteq> 0 then fmin - len else 0) - (if minus c then 1 else 0) else 0);
          pad = replicate (nat leading) (fill c)
      in direct c @ (if minus c \<and> fill c = 48 then [45] else []) @ (if leftjust then [] else pad) @
         (if minus c \<and> fill c = 32 then [45] else []) @ take (nat len) (ctext c) @ (if leftjust then pad else []))"

text \<open>What follows a percent sign: the output, and the rest unless the format has ended.\<close>

definition directive :: "bool \<Rightarrow> u8 list \<Rightarrow> prarg list \<Rightarrow> u8 list \<Rightarrow> (u8 list \<times> (u8 list \<times> prarg list \<times> u8 list) option) option" where
  "directive wide fmt ap string = do {
     let leftjust = (hd_or fmt 0 = 45);
     let fmt = (if leftjust then tl fmt else fmt);
     let fll = (if hd_or fmt 0 = 48 then 48 else 32 :: u8);
     let fmt = (if hd_or fmt 0 = 48 then tl fmt else fmt);
     (fmin, fmt, ap) \<leftarrow> get_width fmt ap;
     (fmx, fmt, ap) \<leftarrow> (if hd_or fmt 0 = 46 then get_width (tl fmt) ap else Some (0, fmt, ap));
     if fmt = [] then Some ([37], None)
     else do {
       (c, ap, string) \<leftarrow> convert wide (hd fmt) fmx fll ap string;
       Some (justify leftjust fmin c, Some (tl fmt, ap, string))
     }
   }"

subsection \<open>The loop over the format\<close>

partial_function (option) doprnt_loop :: "bool \<Rightarrow> u8 list \<Rightarrow> prarg list \<Rightarrow> u8 list \<Rightarrow> u8 list option" where
  "doprnt_loop wide fmt ap string =
     (if fmt = [] then Some []
      else if hd fmt \<noteq> 37 then do { out \<leftarrow> doprnt_loop wide (tl fmt) ap string; Some (hd fmt # out) }
      else if hd_or (tl fmt) 0 = 37 then do { out \<leftarrow> doprnt_loop wide (tl (tl fmt)) ap string; Some (37 # out) }
      else do {
        (out, more) \<leftarrow> directive wide (tl fmt) ap string;
        case more of
          None \<Rightarrow> Some out
        | Some (fmt, ap, string) \<Rightarrow> do { rest \<leftarrow> doprnt_loop wide fmt ap string; Some (out @ rest) }
      })"

definition doprnt :: "u8 list \<Rightarrow> prarg list \<Rightarrow> u8 list \<Rightarrow> u8 list option" where
  "doprnt fmt ap string = doprnt_loop True fmt ap string"

definition fdoprnt :: "u8 list \<Rightarrow> prarg list \<Rightarrow> u8 list \<Rightarrow> u8 list option" where
  "fdoprnt fmt ap string = doprnt_loop False fmt ap string"

definition sprintf :: "u8 list \<Rightarrow> prarg list \<Rightarrow> u8 list \<Rightarrow> u8 list option" where
  "sprintf fmt ap string = map_option (\<lambda>out. out @ [0]) (fdoprnt fmt ap string)"

end
