(* ===== verification/LibProps.thy ===== *)
theory LibProps
  imports LibPrint "HOL-Library.Sublist"
begin

text \<open>
  What the library functions compute: strings in memory, sorting, decimal numbers printed and read.
\<close>

subsection \<open>Strings in memory\<close>

definition cstr :: "bytes \<Rightarrow> nat \<Rightarrow> u8 list \<Rightarrow> bool" where
  "cstr m a xs \<longleftrightarrow> 0 \<notin> set xs \<and> (\<forall>i < length xs. m (a + i) = xs ! i) \<and> m (a + length xs) = 0"

lemma cstr_Nil [simp]: "cstr m a [] \<longleftrightarrow> m a = 0"
  by (simp add: cstr_def)

lemma cstr_Cons [simp]: "cstr m a (x # xs) \<longleftrightarrow> x \<noteq> 0 \<and> m a = x \<and> cstr m (a + 1) xs"
proof -
  have "(\<forall>i < length (x # xs). m (a + i) = (x # xs) ! i) \<longleftrightarrow> m a = x \<and> (\<forall>i < length xs. m (a + 1 + i) = xs ! i)"
    by (auto simp: less_Suc_eq_0_disj)
  then show ?thesis by (auto simp: cstr_def)
qed

lemma strlen_ok: "cstr m a xs \<Longrightarrow> strlen_loop m a n = Some (n + length xs)"
  by (induction xs arbitrary: a n) (simp_all add: strlen_loop.simps)

text \<open>The order of \<open>strcmp\<close> on strings: by signed characters, up to the first null byte.\<close>

fun str_order :: "u8 list \<Rightarrow> u8 list \<Rightarrow> int" where
  "str_order [] [] = 0"
| "str_order [] (y # ys) = (if y = 0 then 0 else if 0 < sint y then - 1 else 1)"
| "str_order (x # xs) [] = (if x = 0 then 0 else if sint x < 0 then - 1 else 1)"
| "str_order (x # xs) (y # ys) =
     (if x = y then (if x = 0 then 0 else str_order xs ys) else if sint x < sint y then - 1 else 1)"

lemma strcmp_ok: "cstr m a xs \<Longrightarrow> cstr m b ys \<Longrightarrow> strcmp m a b = Some (str_order xs ys)"
proof (induction xs ys arbitrary: a b rule: str_order.induct)
  case (2 y ys)
  then show ?case by (subst strcmp.simps) auto
next
  case (3 x xs)
  then show ?case by (subst strcmp.simps) auto
next
  case (4 x xs y ys)
  then show ?case by (subst strcmp.simps) auto
qed (simp add: strcmp.simps)

lemma sint_inject: "sint (x :: u8) = sint y \<longleftrightarrow> x = y"
  by (metis scast_eq scast_id)

lemma sint_zero_iff [simp]: "sint (x :: u8) = 0 \<longleftrightarrow> x = 0"
  using sint_inject [of x 0] by simp

lemma str_order_le:
  "str_order (x # xs) (y # ys) \<le> 0 \<longleftrightarrow> x = y \<and> (x = 0 \<or> str_order xs ys \<le> 0) \<or> sint x < sint y"
  "str_order (x # xs) [] \<le> 0 \<longleftrightarrow> x = 0 \<or> sint x < 0"
  by auto

interpretation strings: comparison str_order
proof
  show "sgn (str_order y x) = - sgn (str_order x y)" for x y
  proof (induction x y rule: str_order.induct)
    case (2 y ys)
    then show ?case using sint_zero_iff [of y] by (auto simp del: sint_zero_iff)
  next
    case (3 x xs)
    then show ?case using sint_zero_iff [of x] by (auto simp del: sint_zero_iff)
  next
    case (4 x xs y ys)
    have "sint x \<noteq> sint y \<or> x = y" using sint_inject by blast
    then show ?case using 4 by (auto split: if_splits)
  qed simp
  show "str_order x y \<le> 0 \<Longrightarrow> str_order y z \<le> 0 \<Longrightarrow> str_order x z \<le> 0" for x y z
  proof (induction x y arbitrary: z rule: str_order.induct)
    case 1
    then show ?case by simp
  next
    case (2 y ys)
    then show ?case by (cases z) (auto split: if_splits)
  next
    case (3 x xs)
    then show ?case by (cases z) (auto split: if_splits)
  next
    case (4 x xs y ys)
    show ?case
    proof (cases z)
      case Nil
      then show ?thesis using 4(2,3) unfolding Nil str_order_le by auto
    next
      case (Cons c cs)
      have "x = y \<Longrightarrow> x \<noteq> 0 \<Longrightarrow> str_order xs ys \<le> 0 \<Longrightarrow> str_order ys cs \<le> 0 \<Longrightarrow> str_order xs cs \<le> 0" using 4(1) by blast
      then show ?thesis using 4(2,3) unfolding Cons str_order_le by force
    qed
  qed
qed

text \<open>Where a character is in a string, its null byte included, and where a string is in a string.\<close>

fun index_of :: "u8 \<Rightarrow> u8 list \<Rightarrow> nat option" where
  "index_of c [] = (if c = 0 then Some 0 else None)"
| "index_of c (x # xs) = (if x = c then Some 0 else map_option Suc (index_of c xs))"

fun sub_at :: "u8 list \<Rightarrow> u8 list \<Rightarrow> nat option" where
  "sub_at ys [] = None"
| "sub_at ys (x # xs) = (if ys \<noteq> [] \<and> prefix ys (x # xs) then Some 0 else map_option Suc (sub_at ys xs))"

lemma strchr_ok: "cstr m a xs \<Longrightarrow> strchr m a c = Some (map_option (\<lambda>i. a + i) (index_of c xs))"
proof (induction xs arbitrary: a)
  case Nil
  then show ?case by (subst strchr.simps) simp
next
  case (Cons x xs)
  have "strchr m (a + 1) c = Some (map_option (\<lambda>i. a + 1 + i) (index_of c xs))" using Cons by simp
  then show ?case using Cons.prems by (subst strchr.simps) (simp add: option.map_comp o_def)
qed

lemma strstr_inner_ok: "cstr m a xs \<Longrightarrow> cstr m b ys \<Longrightarrow> \<exists>cr. strstr_inner m a b = Some cr \<and> (m cr = 0 \<longleftrightarrow> prefix ys xs)"
proof (induction ys arbitrary: a b xs)
  case Nil
  then show ?case by (subst strstr_inner.simps) simp
next
  case (Cons y ys)
  show ?case
  proof (cases xs)
    case Nil
    then show ?thesis using Cons.prems by (subst strstr_inner.simps) simp
  next
    case (Cons x zs)
    show ?thesis
    proof (cases "x = y")
      case True
      then show ?thesis using Cons.IH [of "a + 1" zs "b + 1"] Cons.prems Cons by (subst strstr_inner.simps) simp
    next
      case False
      then show ?thesis using Cons.prems Cons by (subst strstr_inner.simps) simp
    qed
  qed
qed

lemma plus_fun: "(+) (Suc a) = (\<lambda>i. Suc (a + i))"
  by auto

lemma strstr_ok: "cstr m a xs \<Longrightarrow> cstr m b ys \<Longrightarrow> strstr m a b = Some (map_option (\<lambda>i. a + i) (sub_at ys xs))"
proof (induction xs arbitrary: a)
  case Nil
  then show ?case by (subst strstr.simps) simp
next
  case (Cons x xs)
  have r: "strstr m (a + 1) b = Some (map_option (\<lambda>i. Suc (a + i)) (sub_at ys xs))"
    using Cons.IH [of "a + 1"] Cons.prems by (simp add: plus_fun)
  obtain cr where i: "strstr_inner m a b = Some cr" "m cr = 0 \<longleftrightarrow> prefix ys (x # xs)" using strstr_inner_ok [OF Cons.prems] by blast
  show ?case
  proof (cases ys)
    case Nil
    then show ?thesis using Cons.prems r by (subst strstr.simps) (simp add: option.map_comp o_def)
  next
    case (Cons y zs)
    then show ?thesis using Cons.prems r i by (subst strstr.simps) (auto simp: option.map_comp o_def)
  qed
qed

lemma strcpy_ok:
  "cstr m src xs \<Longrightarrow> tar + length xs < src \<or> src + length xs < tar \<Longrightarrow>
     strcpy tar src m = Some (\<lambda>k. if tar \<le> k \<and> k \<le> tar + length xs then (xs @ [0]) ! (k - tar) else m k)"
proof (induction xs arbitrary: tar src m)
  case Nil
  then show ?case by (subst strcpy.simps) (auto simp: Let_def fun_eq_iff)
next
  case (Cons x xs)
  let ?m = "m(tar := x)"
  have c: "cstr ?m (src + 1) xs" using Cons.prems by (auto simp: cstr_def)
  have d: "tar + 1 + length xs < src + 1 \<or> src + 1 + length xs < tar + 1" using Cons.prems(2) by auto
  have "strcpy (tar + 1) (src + 1) ?m =
    Some (\<lambda>k. if tar + 1 \<le> k \<and> k \<le> tar + 1 + length xs then (xs @ [0]) ! (k - (tar + 1)) else ?m k)"
    using Cons.IH [OF c d] .
  moreover have "(if tar + 1 \<le> k \<and> k \<le> tar + 1 + length xs then (xs @ [0]) ! (k - (tar + 1)) else ?m k) =
    (if tar \<le> k \<and> k \<le> tar + length (x # xs) then ((x # xs) @ [0]) ! (k - tar) else m k)" for k
    by (cases "k = tar") (auto simp: nth_Cons')
  ultimately show ?case using Cons.prems(1) by (subst strcpy.simps) (simp add: Let_def)
qed

text \<open>\<open>memchr\<close> stops at a null byte, does not use its length, and never finds a byte above 127.\<close>

lemma memchr_high: "cstr m a xs \<Longrightarrow> 128 \<le> c \<Longrightarrow> memchr m a c n = Some None"
proof (induction xs arbitrary: a)
  case Nil
  then show ?case by (subst memchr.simps) simp
next
  case (Cons x xs)
  have "sint x < 128" using sint_lt [of x] by simp
  moreover have "128 \<le> uint c" using Cons.prems(2) by (simp add: word_le_def)
  ultimately show ?case using Cons by (subst memchr.simps) simp
qed

subsection \<open>Decimal numbers\<close>

fun dec :: "nat \<Rightarrow> u8 list" where
  "dec n = (if n < 10 then [of_nat (48 + n)] else dec (n div 10) @ [of_nat (48 + n mod 10)])"

declare dec.simps [simp del]

lemma digits10_Suc: "digits10 (Suc k) (int n) = of_nat (48 + n mod 10) # digits10 k (int (n div 10))"
proof -
  have "int n smod 10 = int (n mod 10)" "int n sdiv 10 = int (n div 10)"
    by (cases "n = 0"; simp add: signed_modulo_int_def signed_divide_int_def zmod_int zdiv_int)+
  then show ?thesis by (simp add: add.commute)
qed

lemma length_digits10 [simp]: "length (digits10 k num) = k"
  by (induction k arbitrary: num) simp_all

lemma nth_digits10: "j < k \<Longrightarrow> digits10 k (int n) ! j = of_nat (48 + n div 10 ^ j mod 10)"
proof (induction k arbitrary: j n)
  case (Suc k)
  then show ?case by (cases j) (simp_all only: digits10_Suc nth_Cons_0 nth_Cons_Suc power_0 div_by_1 power_Suc div_mult2_eq)
qed simp

lemma take_digits10: "j \<le> k \<Longrightarrow> take j (digits10 k (int n)) = digits10 j (int n)"
  by (rule nth_equalityI) (simp_all add: nth_digits10)

lemma dec_digits: "0 < k \<Longrightarrow> n < 10 ^ k \<Longrightarrow> k = 1 \<or> 10 ^ (k - 1) \<le> n \<Longrightarrow> rev (digits10 k (int n)) = dec n"
proof (induction k arbitrary: n)
  case (Suc k)
  show ?case
  proof (cases "k = 0")
    case True
    then have "n < 10" using Suc.prems(2) by simp
    then show ?thesis using True by (simp only: digits10_Suc) (simp add: dec.simps [of n])
  next
    case False
    then have p: "(10 :: nat) ^ k = 10 * 10 ^ (k - 1)" by (cases k) simp_all
    have "(10 :: nat) ^ k \<le> n" using Suc.prems(3) False by simp
    moreover have "(1 :: nat) \<le> 10 ^ (k - 1)" by simp
    ultimately have "n \<ge> 10" unfolding p by linarith
    moreover have "10 * 10 ^ (k - 1) \<le> n" using \<open>10 ^ k \<le> n\<close> unfolding p .
    ultimately have n: "n \<ge> 10" "10 ^ (k - 1) \<le> n div 10" "n div 10 < 10 ^ k"
      using Suc.prems(2) by (simp_all add: less_mult_imp_div_less less_eq_div_iff_mult_less_eq)
    then show ?thesis using Suc.IH [of "n div 10"] False by (simp only: digits10_Suc rev.simps dec.simps [of n]) simp
  qed
qed simp

lemma top_digit_is: "k \<le> i \<Longrightarrow> (\<And>j. k < j \<Longrightarrow> j \<le> i \<Longrightarrow> t ! j = 48) \<Longrightarrow> k = 0 \<or> t ! k \<noteq> 48 \<Longrightarrow> top_digit t i = k"
proof (induction i)
  case (Suc i)
  then show ?case by (cases "k = Suc i") auto
qed simp

lemma digit_count:
  assumes "0 < (n :: nat)" "n < b ^ m"
  shows "\<exists>k. 0 < k \<and> k \<le> m \<and> b ^ (k - 1) \<le> n \<and> n < b ^ k"
proof -
  let ?k = "LEAST k. n < b ^ k"
  have k: "n < b ^ ?k" "?k \<le> m" 
    using LeastI [where P = "\<lambda>k. n < b ^ k" and k = m] Least_le [where P = "\<lambda>k. n < b ^ k" and k = m] assms(2) by simp_all
  then have "0 < ?k" using assms(1) by (cases ?k) auto
  then have "\<not> n < b ^ (?k - 1)" using not_less_Least [of "?k - 1" "\<lambda>k. n < b ^ k"] by simp
  then show ?thesis using k \<open>0 < ?k\<close> by (meson not_less)
qed

lemma digit_zero: "d < 10 \<Longrightarrow> (of_nat (48 + d) :: u8) = 48 \<longleftrightarrow> d = 0"
proof -
  assume d: "d < 10"
  have u: "unat (of_nat (48 + d) :: u8) = 48 + d" using d by (simp only: unat_of_nat) simp
  have "(of_nat (48 + d) :: u8) = 48 \<longleftrightarrow> unat (of_nat (48 + d) :: u8) = unat (48 :: u8)" by (simp only: word_unat_eq_iff)
  then show ?thesis unfolding u by simp
qed

lemma prtl10_dec:
  assumes "n < 10 ^ 10"
  shows "prtl10 (int n) = dec n @ [0]"
proof -
  let ?t = "0 # digits10 10 (int n)"
  have nth: "?t ! Suc j = of_nat (48 + n div 10 ^ j mod 10)" if "j < 10" for j using nth_digits10 [OF that] by simp
  have rt: "rev (take (Suc k) ?t) = rev (digits10 k (int n)) @ [0]" if "k \<le> 10" for k using take_digits10 [OF that] by simp
  show ?thesis
  proof (cases "n = 0")
    case True
    have "top_digit ?t 10 = 0"
    proof (rule top_digit_is)
      fix j assume "0 < j" "j \<le> (10 :: nat)"
      then show "?t ! j = 48" using nth [of "j - 1"] True by (cases j) simp_all
    qed simp_all
    moreover have "dec 0 = [48]" by (simp add: dec.simps)
    ultimately show ?thesis using rt [of 1] True dec_digits [of 1 0] by (simp add: prtl10_def copy_down_def Let_def)
  next
    case False
    then obtain k where k: "0 < k" "k \<le> 10" "10 ^ (k - 1) \<le> n" "n < 10 ^ k" using digit_count [of n 10 10] assms by auto
    have "top_digit ?t 10 = k"
    proof (rule top_digit_is [OF k(2)])
      fix j assume j: "k < j" "j \<le> (10 :: nat)"
      have "(10 :: nat) ^ k \<le> 10 ^ (j - 1)" using j by (intro power_increasing) simp_all
      then have "n < 10 ^ (j - 1)" using k(4) by (rule less_le_trans [rotated])
      then have "n div 10 ^ (j - 1) = 0" by simp
      then show "?t ! j = 48" using nth [of "j - 1"] j by (cases j) simp_all
    next
      have "(10 :: nat) ^ k = 10 * 10 ^ (k - 1)" using k(1) by (cases k) simp_all
      then have "n < 10 * 10 ^ (k - 1)" using k(4) by metis
      then have "n div 10 ^ (k - 1) < 10" by (rule less_mult_imp_div_less)
      moreover have "n div 10 ^ (k - 1) \<noteq> 0" using k(3) by (simp add: div_eq_0_iff)
      ultimately have "(of_nat (48 + n div 10 ^ (k - 1) mod 10) :: u8) \<noteq> 48" using digit_zero [of "n div 10 ^ (k - 1)"] by simp
      then show "k = 0 \<or> ?t ! k \<noteq> 48" using nth [of "k - 1"] k(1,2) by (cases k) simp_all
    qed
    then show ?thesis using rt [OF k(2)] k dec_digits [of k n] by (simp add: prtl10_def copy_down_def Let_def)
  qed
qed

lemma dec_chars: "c \<in> set (dec n) \<Longrightarrow> \<exists>d < 10. c = of_nat (48 + d)"
proof (induction n rule: dec.induct)
  case (1 n)
  show ?case
  proof (cases "n < 10")
    case True
    then show ?thesis using 1(2) by (auto simp: dec.simps [of n])
  next
    case False
    then have "c \<in> set (dec (n div 10)) \<or> c = of_nat (48 + n mod 10)" using 1(2) by (auto simp: dec.simps [of n])
    then show ?thesis using 1(1) [OF False] by (metis mod_less_divisor zero_less_numeral)
  qed
qed

lemma uint_digit: "d < 10 \<Longrightarrow> uint (of_nat (48 + d) :: u8) = 48 + int d"
  by (simp only: uint_nat unat_of_nat) simp

lemma digit_range: "d < 10 \<Longrightarrow> 48 \<le> (of_nat (48 + d) :: u8) \<and> (of_nat (48 + d) :: u8) \<le> 57"
  using uint_digit [of d] by (simp only: word_le_def) simp

lemma dec_no_zero: "0 \<notin> set (dec n)"
proof
  assume "0 \<in> set (dec n)"
  then obtain d where "d < 10" "(0 :: u8) = of_nat (48 + d)" using dec_chars by blast
  then show False using uint_digit [of d] by simp
qed

lemma dec_not_Nil [simp]: "dec n \<noteq> []"
  by (simp add: dec.simps [of n])

lemma length_dec: "n < 10 ^ 10 \<Longrightarrow> length (dec n) \<le> 10"
proof -
  assume n: "n < 10 ^ 10"
  have "length (copy_down t) \<le> length t" for t by (simp add: copy_down_def Let_def)
  from this [of "0 # digits10 10 (int n)"] have "length (prtl10 (int n)) \<le> 11" by (simp add: prtl10_def)
  then show ?thesis using prtl10_dec [OF n] by simp
qed

lemma text_in_append: "0 \<notin> set xs \<Longrightarrow> text_in (xs @ 0 # ys) = Some xs"
  by (induction xs) (auto simp: text_in_def split: if_splits)

lemma put_dec:
  assumes "n < 10 ^ 10" "length string = 20"
  shows "\<exists>rest. put_text 0 (prtl10 (int n)) string = Some (dec n @ 0 # rest)"
  using prtl10_dec [OF assms(1)] length_dec [OF assms(1)] assms(2) by (simp add: put_text_def)

lemma directive_d:
  assumes s: "length string = 20" and n: "- 2147483648 < n" "n < 2147483648"
  obtains rest where "directive wide (100 # fmt) (AInt n # ap) string =
    Some ((if n < 0 then [45] else []) @ dec (nat \<bar>n\<bar>), Some (fmt, ap, dec (nat \<bar>n\<bar>) @ 0 # rest))"
proof -
  have b: "nat \<bar>n\<bar> < 10 ^ 10" using n by simp
  obtain rest where r: "put_text 0 (prtl10 (int (nat \<bar>n\<bar>))) string = Some (dec (nat \<bar>n\<bar>) @ 0 # rest)" using put_dec [OF b s] by blast
  have a: "(if n < 0 then wrap32 (- n) else n) = int (nat \<bar>n\<bar>)" using n by simp
  have c: "convert wide 100 0 32 (AInt n # ap) string =
      Some (\<lparr>ctext = dec (nat \<bar>n\<bar>), fmax = 0, fill = 32, minus = n < 0, direct = []\<rparr>, ap, dec (nat \<bar>n\<bar>) @ 0 # rest)"
    using r text_in_append [OF dec_no_zero, of "nat \<bar>n\<bar>" rest] a by (simp add: convert_def)
  show ?thesis by (rule that [of rest]) (use c in \<open>simp add: directive_def get_width_def justify_def Let_def\<close>)
qed

lemma print_d:
  assumes "length string = 20" "- 2147483648 < n" "n < 2147483648"
  shows "doprnt_loop wide [37, 100] [AInt n] string = Some ((if n < 0 then [45] else []) @ dec (nat \<bar>n\<bar>))"
proof -
  obtain rest where "directive wide [100] [AInt n] string =
    Some ((if n < 0 then [45] else []) @ dec (nat \<bar>n\<bar>), Some ([], [], dec (nat \<bar>n\<bar>) @ 0 # rest))"
    using directive_d [OF assms] .
  then show ?thesis by (subst doprnt_loop.simps) (simp add: doprnt_loop.simps)
qed


lemma mod_below: "- m \<le> y \<Longrightarrow> y < 0 \<Longrightarrow> y mod m = y + m" for y m :: int
proof -
  assume "- m \<le> y" "y < 0"
  then have "(y + m) mod m = y + m" by (intro mod_pos_pos_trivial) linarith+
  then show ?thesis by simp
qed

lemma unsign_ok:
  assumes "2147483648 \<le> n" "n < 4294967296"
  shows "\<exists>d. unsign 5 (n - 4294967296) 0 = (n - 1000000000 * int d, of_nat d) \<and> 0 < d \<and> d < 4 \<and> 1000000000 \<le> n - 1000000000 * int d \<and>
    n - 1000000000 * int d < 2147483648"
proof -
  have w: "wrap32 (x - 1000000000) = (if x < - 1147483648 then x + 3294967296 else x - 1000000000)" if "- 2147483648 \<le> x" "x < 0" for x
    using that mod_below [of 4294967296 "1147483648 + x"] by (simp add: wrap32_def)
  consider "n < 3147483648" | "3147483648 \<le> n" "n < 4147483648" | "4147483648 \<le> n" by linarith
  then show ?thesis
  proof cases
    case 1
    then show ?thesis using assms w [of "n - 4294967296"] by (intro exI [of _ 1]) (simp add: numeral_eq_Suc)
  next
    case 2
    then show ?thesis using assms w [of "n - 4294967296"] w [of "n - 5294967296"] by (intro exI [of _ 2]) (simp add: numeral_eq_Suc)
  next
    case 3
    then show ?thesis using assms w [of "n - 4294967296"] w [of "n - 5294967296"] w [of "n - 6294967296"]
      by (intro exI [of _ 3]) (simp add: numeral_eq_Suc)
  qed
qed

subsection \<open>Binary numbers\<close>


lemma length_digits_in [simp]: "length (digits_in k base ch n) = k"
  by (induction k arbitrary: n) simp_all




subsection \<open>Numbers read\<close>

lemma atoi_digits_run:
  assumes "\<forall>i < length ds. m (p + i) = ds ! i" "\<forall>c \<in> set ds. 48 \<le> c \<and> c \<le> 57" "\<not> (48 \<le> m (p + length ds) \<and> m (p + length ds) \<le> 57)"
  shows "atoi_digits m p n = Some (foldl (\<lambda>n c. wrap32 (n * 10 + uint c - 48)) n ds)"
  using assms
proof (induction ds arbitrary: p n)
  case Nil
  then show ?case by (subst atoi_digits.simps) auto
next
  case (Cons c ds)
  have c: "m p = c" using Cons.prems(1) by (auto dest: spec [of _ 0])
  have "\<forall>i < length ds. m (p + 1 + i) = ds ! i" using Cons.prems(1) by auto
  then have "atoi_digits m (p + 1) k = Some (foldl (\<lambda>n c. wrap32 (n * 10 + uint c - 48)) k ds)" for k
    using Cons.IH [of "p + 1" k] Cons.prems(2,3) by simp
  then show ?case using c Cons.prems(2) by (subst atoi_digits.simps) simp
qed

lemma dec_value: "n < 2147483648 \<Longrightarrow> foldl (\<lambda>n c. wrap32 (n * 10 + uint c - 48)) 0 (dec n) = int n"
proof (induction n rule: dec.induct)
  case (1 n)
  show ?case
  proof (cases "n < 10")
    case True
    then show ?thesis using uint_digit [OF True] by (simp add: dec.simps [of n] del: of_nat_add)
  next
    case False
    have "foldl (\<lambda>n c. wrap32 (n * 10 + uint c - 48)) 0 (dec (n div 10)) = int (n div 10)" using 1 False by simp
    then have "foldl (\<lambda>n c. wrap32 (n * 10 + uint c - 48)) 0 (dec n) = wrap32 (int (n div 10) * 10 + int (n mod 10))"
      using False uint_digit [of "n mod 10"] by (simp add: dec.simps [of n] del: of_nat_add)
    also have "int (n div 10) * 10 + int (n mod 10) = int n" by presburger
    finally show ?thesis using 1(2) by simp
  qed
qed

lemma atoi_dec:
  assumes "\<forall>i < length (dec n). m (p + i) = dec n ! i" "\<not> (48 \<le> m (p + length (dec n)) \<and> m (p + length (dec n)) \<le> 57)" "n < 2147483648"
  shows "atoi_digits m p 0 = Some (int n)"
proof -
  have "\<forall>c \<in> set (dec n). 48 \<le> c \<and> c \<le> 57" using dec_chars digit_range by metis
  then show ?thesis using atoi_digits_run [OF assms(1) _ assms(2)] dec_value [OF assms(3)] by simp
qed

lemma atoi_signed:
  assumes m: "\<forall>i < length t. m (a + i) = t ! i" "t = (if n < 0 then [45] else []) @ dec (nat \<bar>n\<bar>) @ [0]"
    and n: "- 2147483648 < n" "n < 2147483648"
  shows "atoi m a = Some n"
proof -
  let ?d = "dec (nat \<bar>n\<bar>)" and ?p = "if n < 0 then a + 1 else a"
  have d: "\<forall>i < length ?d. m (?p + i) = ?d ! i" "m (?p + length ?d) = 0"
  proof -
    have "m (?p + i) = (?d @ [0]) ! i" if "i \<le> length ?d" for i
    proof (cases "n < 0")
      case True
      then show ?thesis using m(1) [rule_format, of "i + 1"] m(2) that by simp
    next
      case False
      then show ?thesis using m(1) [rule_format, of i] m(2) that by simp
    qed
    then show "\<forall>i < length ?d. m (?p + i) = ?d ! i" "m (?p + length ?d) = 0" by (simp_all add: nth_append)
  qed
  have skip: "atoi_skip m a = Some (?p, n < 0)"
  proof (cases "n < 0")
    case True
    then have "m a = 45" using m(1) [rule_format, of 0] m(2) by simp
    then show ?thesis using True by (subst atoi_skip.simps) simp
  next
    case False
    have "m a = hd ?d" using d(1) [rule_format, of 0] False by (simp add: hd_conv_nth)
    moreover obtain k where "k < 10" "hd ?d = of_nat (48 + k)" using dec_chars [of "hd ?d" "nat \<bar>n\<bar>"] by auto
    ultimately have "48 \<le> m a" using digit_range by metis
    then have "m a \<noteq> 32" "m a \<noteq> 9" "m a \<noteq> 45" "m a \<noteq> 43" by auto
    then show ?thesis using False by (subst atoi_skip.simps) simp
  qed
  have "nat \<bar>n\<bar> < 2147483648" using n by simp
  then have "atoi_digits m ?p 0 = Some (int (nat \<bar>n\<bar>))" using atoi_dec [OF d(1)] d(2) by simp
  then show ?thesis using skip n by (simp add: atoi_def)
qed

text \<open>Adding to the highest digit.\<close>

lemma dec_add_leading:
  "10 ^ j \<le> k \<Longrightarrow> k + 10 ^ j * d < 10 ^ (j + 1) \<Longrightarrow> dec (k + 10 ^ j * d) = (dec k)[0 := dec k ! 0 + of_nat d]"
proof (induction j arbitrary: k)
  case 0
  then show ?case by (simp add: dec.simps [of k] dec.simps [of "k + d"])
next
  case (Suc j)
  have p: "(10 :: nat) ^ Suc j = 10 * 10 ^ j" "(10 :: nat) ^ (Suc j + 1) = 10 * 10 ^ (j + 1)" by simp_all
  let ?n = "k + 10 ^ Suc j * d"
  have e: "?n = k + 10 * (10 ^ j * d)" unfolding p by simp
  have q: "?n div 10 = k div 10 + 10 ^ j * d" "?n mod 10 = k mod 10" unfolding e by simp_all
  have k: "10 * 10 ^ j \<le> k" "k + 10 * (10 ^ j * d) < 10 * 10 ^ (j + 1)" using Suc.prems e p by simp_all
  then have 1: "10 ^ j \<le> k div 10" "k div 10 + 10 ^ j * d < 10 ^ (j + 1)" by linarith+
  have big: "\<not> k < 10" "\<not> ?n < 10" using k(1) one_le_power [of "10 :: nat" j] by linarith+
  have "dec ?n = dec (k div 10 + 10 ^ j * d) @ [of_nat (48 + k mod 10)]" using big q by (simp only: dec.simps [of ?n] if_False)
  also have "\<dots> = (dec (k div 10))[0 := dec (k div 10) ! 0 + of_nat d] @ [of_nat (48 + k mod 10)]" using Suc.IH [OF 1] by simp
  also have "\<dots> = (dec k)[0 := dec k ! 0 + of_nat d]"
    using big(1) by (simp add: dec.simps [of k] list_update_append nth_append)
  finally show ?case .
qed

lemma print_u:
  assumes s: "length string = 20" and n: "0 \<le> n" "n < 4294967296"
  shows "doprnt_loop wide [37, 117] [AInt (if n < 2147483648 then n else n - 4294967296)] string = Some (dec (nat n))"
proof -
  let ?a = "if n < 2147483648 then n else n - 4294967296"
  obtain d where d: "unsign 5 ?a 0 = (n - 1000000000 * int d, of_nat d)" "0 \<le> n - 1000000000 * int d" "n - 1000000000 * int d < 2147483648"
    "dec (nat n) = (dec (nat (n - 1000000000 * int d)))[0 := dec (nat (n - 1000000000 * int d)) ! 0 + of_nat d]"
  proof (cases "n < 2147483648")
    case True
    then show ?thesis using that [of 0] n by (simp add: numeral_eq_Suc)
  next
    case False
    then obtain d where u: "unsign 5 (n - 4294967296) 0 = (n - 1000000000 * int d, of_nat d)" "0 < d" "d < 4" "1000000000 \<le> n - 1000000000 * int d"
      "n - 1000000000 * int d < 2147483648" using unsign_ok [of n] n by auto
    let ?k = "nat (n - 1000000000 * int d)"
    have e: "nat n = ?k + 10 ^ 9 * d" using u(4) by simp
    have k: "10 ^ 9 \<le> ?k" "?k + 10 ^ 9 * d < 10 ^ (9 + 1)" using u(4) n(2) by simp_all
    have "dec (nat n) = (dec ?k)[0 := dec ?k ! 0 + of_nat d]" unfolding e using dec_add_leading [OF k] .
    then show ?thesis using that u False by simp
  qed
  let ?k = "nat (n - 1000000000 * int d)"
  have b: "?k < 10 ^ 10" using d(3) by simp
  obtain rest where r: "put_text 0 (prtl10 (int ?k)) string = Some (dec ?k @ 0 # rest)" using put_dec [OF b s] by blast
  have k: "int ?k = n - 1000000000 * int d" using d(2) by simp
  have t: "(dec ?k @ 0 # rest)[0 := (dec ?k @ 0 # rest) ! 0 + of_nat d] = dec (nat n) @ 0 # rest"
    unfolding d(4) by (simp add: list_update_append nth_append)
  have c: "convert wide 117 0 32 [AInt ?a] string =
      Some (\<lparr>ctext = dec (nat n), fmax = 0, fill = 32, minus = False, direct = []\<rparr>, [], dec (nat n) @ 0 # rest)"
    using r d(1) text_in_append [OF dec_no_zero, of "nat n" rest] t k by (simp add: convert_def)
  have "directive wide [117] [AInt ?a] string = Some (dec (nat n), Some ([], [], dec (nat n) @ 0 # rest))"
    using c by (simp add: directive_def get_width_def justify_def Let_def)
  then show ?thesis by (subst doprnt_loop.simps) (simp add: doprnt_loop.simps)
qed

subsection \<open>Properties\<close>

text \<open>C32.  \<open>qsort\<close> returns for every array, and sorts it: the result is a permutation of the first \<open>n\<close>
  elements in which no element comes before a smaller one, the elements beyond are as they were.
  Here with the order of \<open>strcmp\<close>, which compares signed characters up to the null byte.\<close>

theorem qsort_sorts_strings:
  assumes "n \<le> length xs"
  shows "\<exists>ys. qsort str_order n xs = Some ys \<and> mset (take n ys) = mset (take n xs) \<and> drop n ys = drop n xs \<and>
    (\<forall>i j. i < j \<and> j < n \<longrightarrow> str_order (ys ! i) (ys ! j) \<le> 0)"
proof -
  obtain ys where y: "qs1 str_order 0 n xs = Some ys" "permuted 0 n xs ys" "strings.ordered 0 n ys"
    using strings.qs1_ok [OF assms] by blast
  have "drop n ys = drop n xs" using y(2) by (intro nth_equalityI) (simp_all add: permuted_def)
  then show ?thesis using y by (auto simp: qsort_def permuted_def part_of_def strings.ordered_def)
qed

theorem qsort_sorts_strings_witness:
  "\<exists>ys. qsort str_order 3 [[98], [97, 98], [97], [1]] = Some ys \<and> mset (take 3 ys) = mset [[98], [97, 98], [97]] \<and> drop 3 ys = [[1]]"
  using qsort_sorts_strings [of 3 "[[98], [97, 98], [97], [1]]"] by auto

text \<open>C33.  Printing a number with \<open>%d\<close> and reading it with \<open>atoi\<close> gives the number back, for every
  32-bit integer but the smallest; \<open>%u\<close> prints every unsigned number in decimal.\<close>

theorem print_then_atoi:
  assumes "length string = 20" "- 2147483648 < n" "n < 2147483648" "0 \<le> u" "u < 4294967296"
  shows "(\<exists>out. sprintf [37, 100] [AInt n] string = Some out \<and>
      (\<forall>m a. (\<forall>i < length out. m (a + i) = out ! i) \<longrightarrow> atoi m a = Some n)) \<and>
    doprnt [37, 117] [AInt (if u < 2147483648 then u else u - 4294967296)] string = Some (dec (nat u))"
proof -
  have "sprintf [37, 100] [AInt n] string = Some ((if n < 0 then [45] else []) @ dec (nat \<bar>n\<bar>) @ [0])"
    using print_d [OF assms(1-3), of False] by (simp add: sprintf_def fdoprnt_def)
  then show ?thesis using atoi_signed [OF _ refl assms(2,3)] print_u [OF assms(1,4,5), of True] by (simp only: doprnt_def) blast
qed

theorem print_then_atoi_witness:
  "\<exists>out. sprintf [37, 100] [AInt (- 42)] (replicate 20 0) = Some out \<and> atoi (\<lambda>i. if i < length out then out ! i else 7) 0 = Some (- 42) \<and>
    doprnt [37, 117] [AInt (- 294967296)] (replicate 20 0) = Some (dec 4000000000)"
proof -
  obtain out where o: "sprintf [37, 100] [AInt (- 42)] (replicate 20 0) = Some out"
    "\<forall>m a. (\<forall>i < length out. m (a + i) = out ! i) \<longrightarrow> atoi m a = Some (- 42)"
    "doprnt [37, 117] [AInt (- 294967296)] (replicate 20 0) = Some (dec 4000000000)"
    using print_then_atoi [of "replicate 20 0" "- 42" 4000000000] by auto
  then show ?thesis by auto
qed

text \<open>C34.  On strings in memory that end in a null byte \<open>strlen\<close>, \<open>strcmp\<close>, \<open>strchr\<close> and \<open>strstr\<close> return and
  compute what they should on the lists of bytes: \<open>strstr\<close> finds the first place, but never the empty
  string.  \<open>strcpy\<close> to memory apart from its source writes the string, its null byte and nothing else.\<close>

theorem string_functions_on_lists:
  assumes "cstr m a xs" "cstr m b ys"
  shows "strlen m a = Some (length xs) \<and> strcmp m a b = Some (str_order xs ys) \<and>
    strchr m a c = Some (map_option (\<lambda>i. a + i) (index_of c xs)) \<and> strstr m a b = Some (map_option (\<lambda>i. a + i) (sub_at ys xs)) \<and>
    (tar + length xs < a \<or> a + length xs < tar \<longrightarrow>
      (\<exists>m'. strcpy tar a m = Some m' \<and> cstr m' tar xs \<and> (\<forall>k. k < tar \<or> tar + length xs < k \<longrightarrow> m' k = m k)))"
proof (intro conjI impI)
  show "strlen m a = Some (length xs)" using strlen_ok [OF assms(1), of 0] by (simp add: strlen_def)
  assume "tar + length xs < a \<or> a + length xs < tar"
  from strcpy_ok [OF assms(1) this] show "\<exists>m'. strcpy tar a m = Some m' \<and> cstr m' tar xs \<and> (\<forall>k. k < tar \<or> tar + length xs < k \<longrightarrow> m' k = m k)"
    using assms(1) by (auto simp: cstr_def nth_append)
qed (use assms strcmp_ok strchr_ok strstr_ok in blast)+

theorem string_functions_on_lists_witness:
  "strstr (\<lambda>i. [97, 98, 97, 99, 0, 97, 99, 0] ! i) 0 5 = Some (Some 2)"
proof -
  have "cstr (\<lambda>i. [97, 98, 97, 99, 0, 97, 99, 0] ! i) 0 [97, 98, 97, 99]" "cstr (\<lambda>i. [97, 98, 97, 99, 0, 97, 99, 0] ! i) 5 [97, 99]"
    by simp_all
  from string_functions_on_lists [OF this] show ?thesis by simp
qed





end
