(* ===== verification/LibScan.thy ===== *)
theory LibScan
  imports LibPrint
begin

text \<open>
  Formatted input, \<^verbatim>\<open>lib/doscan.c\<close>, with the character sources of \<^verbatim>\<open>lib/sscanf.c\<close> and
  \<^verbatim>\<open>lib/fscanf.c\<close>.  What is stored through the pointers of the argument list is a list of argument
  numbers and values.  \<open>None\<close>: a table or the local buffer is left, the format is read past its end, or
  the input never ends.
\<close>

abbreviation (input) EMPTY :: int where "EMPTY \<equiv> - 1"
abbreviation (input) SPC :: u8 where "SPC \<equiv> 1"
abbreviation (input) STP :: u8 where "STP \<equiv> 2"

subsection \<open>Character classes\<close>

definition ctype_tab :: "u8 list" where
  "ctype_tab = [0] @ replicate 9 0x20 @ replicate 5 0x08 @ replicate 18 0x20 @ [0x08] @ replicate 15 0x10 @ replicate 10 0x04 @
     replicate 7 0x10 @ replicate 6 0x41 @ replicate 20 0x01 @ replicate 6 0x10 @ replicate 6 0x42 @ replicate 20 0x02 @
     replicate 4 0x10 @ [0x20]"

definition class_at :: "int \<Rightarrow> u8 option" where
  "class_at c = (if - 1 \<le> c \<and> c < 128 then Some (ctype_tab ! nat (c + 1)) else None)"

definition isdigit :: "int \<Rightarrow> bool option" where
  "isdigit c = map_option (\<lambda>k. and k 0x04 \<noteq> 0) (class_at c)"

definition isupper :: "int \<Rightarrow> bool option" where
  "isupper c = map_option (\<lambda>k. and k 0x01 \<noteq> 0) (class_at c)"

definition tolower :: "int \<Rightarrow> int" where
  "tolower c = c - 65 + 97"

definition new_sctab :: "u8 list" where
  "new_sctab = (replicate 128 0)[9 := SPC, 10 := SPC, 32 := SPC]"

text \<open>The test \<open>_sctab[ch] & k\<close>; what lies behind the table does not matter when \<open>k\<close> is zero.\<close>

definition in_class :: "u8 list \<Rightarrow> int \<Rightarrow> u8 \<Rightarrow> bool option" where
  "in_class tab c k =
     (if k = 0 then Some False else if 0 \<le> c \<and> c < 128 then Some (and (tab ! nat c) k \<noteq> 0) else None)"

subsection \<open>The state of a scan\<close>

datatype csize = SHORT | REGULAR | LONG
datatype sval = SNum csize int | SText "u8 list"

record 's scan =
  sin :: 's                          \<comment> \<open>where the characters come from\<close>
  sctab :: "u8 list"
  stored :: "(nat \<times> sval) list"     \<comment> \<open>argument number and value, the last one first\<close>

type_synonym 's getch = "'s \<Rightarrow> int \<times> 's"

definition scan_get :: "'s getch \<Rightarrow> 's scan \<Rightarrow> int \<times> 's scan" where
  "scan_get getch sc = (let (c, s) = getch (sin sc) in (c, sc\<lparr>sin := s\<rparr>))"

definition scan_unget :: "('s \<Rightarrow> 's) \<Rightarrow> 's scan \<Rightarrow> 's scan" where
  "scan_unget ungetch sc = sc\<lparr>sin := ungetch (sin sc)\<rparr>"

subsection \<open>Numbers\<close>

text \<open>The first character that is no blank; \<open>cv\<close> is the type it is kept in.\<close>

partial_function (option) skip_blanks :: "(int \<Rightarrow> int) \<Rightarrow> 's getch \<Rightarrow> 's scan \<Rightarrow> (int \<times> 's scan) option" where
  "skip_blanks cv getch sc =
     (let (c, sc) = scan_get getch sc; c = cv c in
      if c = 32 \<or> c = 9 \<or> c = 10 then skip_blanks cv getch sc else Some (c, sc))"

text \<open>
  The condition of the digit loop.  The class of a character outside the table is read from other
  memory, but the second half of the condition is false for it.
\<close>

definition digit_ok :: "int \<Rightarrow> int \<Rightarrow> bool" where
  "digit_ok base c \<longleftrightarrow> (isdigit c = Some True \<or> base = 16) \<and> (97 \<le> c \<and> c \<le> 102 \<or> 65 \<le> c \<and> c \<le> 70)"

definition digit_of :: "int \<Rightarrow> int" where
  "digit_of c = (if 48 \<le> c \<and> c \<le> 57 then c - 48 else if 97 \<le> c \<and> c \<le> 102 then c - 87 else c - 55)"

text \<open>The digits: the value, how many bytes of the buffer are filled, and the character after them.\<close>

fun num_loop :: "nat \<Rightarrow> 's getch \<Rightarrow> int \<Rightarrow> int \<Rightarrow> nat \<Rightarrow> int \<Rightarrow> 's scan \<Rightarrow> (int \<times> nat \<times> int \<times> 's scan) option" where
  "num_loop 0 getch base c np lcval sc = Some (lcval, np, c, sc)"
| "num_loop (Suc len) getch base c np lcval sc =
     (if digit_ok base c then
        (if np \<ge> 64 then None
         else let lcval = wrap32 (wrap32 (lcval * base) + digit_of c); (c', sc) = scan_get getch sc
              in num_loop len getch base (schar c') (np + 1) lcval sc)
      else Some (lcval, np, c, sc))"

definition store_num :: "csize \<Rightarrow> int \<Rightarrow> sval" where
  "store_num sz lcval = SNum sz (if sz = SHORT then wrap16 lcval else lcval)"

subsection \<open>Strings\<close>

text \<open>The characters before the field.  Whatever is read behind the table for the end of file ends the loop.\<close>

partial_function (option) skip_class :: "'s getch \<Rightarrow> u8 \<Rightarrow> 's scan \<Rightarrow> (int \<times> 's scan) option" where
  "skip_class getch ignstp sc =
     (let (ch, sc) = scan_get getch sc in
      if ch = EOF then Some (ch, sc)
      else do {
        k \<leftarrow> in_class (sctab sc) ch ignstp;
        if k then skip_class getch ignstp sc else Some (ch, sc)
      })"

partial_function (option) take_class :: "'s getch \<Rightarrow> u8 \<Rightarrow> int \<Rightarrow> int \<Rightarrow> u8 list \<Rightarrow> 's scan \<Rightarrow> (u8 list \<times> int \<times> int \<times> 's scan) option" where
  "take_class getch ignstp len ch out sc =
     (if ch = EOF then Some (out, len, ch, sc)
      else do {
        k \<leftarrow> in_class (sctab sc) ch ignstp;
        if k then Some (out, len, ch, sc)
        else
          let out = out @ [word_of_int ch]; len = len - 1 in
          if len \<le> 0 then Some (out, len, ch, sc)
          else let (ch, sc) = scan_get getch sc in take_class getch ignstp len ch out sc
      })"

text \<open>\<open>ptr\<close> is the number of the argument, if the value is stored.  The result is the return value and \<open>*eofptr\<close>.\<close>

definition instr :: "'s getch \<Rightarrow> ('s \<Rightarrow> 's) \<Rightarrow> nat option \<Rightarrow> int \<Rightarrow> int \<Rightarrow> 's scan \<Rightarrow> (bool \<times> bool \<times> 's scan) option" where
  "instr getch ungetch ptr type len sc = do {
     let len = (if type = 99 \<and> len = 30000 then 1 else len);
     (ch, sc) \<leftarrow> skip_class getch (if type = 115 then SPC else 0) sc;
     (out, len, ch, sc) \<leftarrow> take_class getch (if type = 99 then 0 else if type = 91 then STP else SPC) len ch [] sc;
     let sc = (if ch \<noteq> EOF \<and> len > 0 then scan_unget ungetch sc else sc);
     case ptr of
       None \<Rightarrow> Some (False, ch = EOF, sc)
     | Some a \<Rightarrow>
         if out = [] then Some (False, ch = EOF, sc)
         else Some (True, ch = EOF, sc\<lparr>stored := (a, SText (if type \<noteq> 99 then out @ [0] else out)) # stored sc\<rparr>)
   }"

definition innum :: "'s getch \<Rightarrow> ('s \<Rightarrow> 's) \<Rightarrow> nat option \<Rightarrow> int \<Rightarrow> int \<times> csize \<Rightarrow> 's scan \<Rightarrow> (bool \<times> bool \<times> 's scan) option" where
  "innum getch ungetch ptr type field sc =
     (let (len, sz) = field in
      if type = 99 \<or> type = 115 \<or> type = 91 then instr getch ungetch ptr type len sc
      else do {
        let base = (if type = 111 then 8 else if type = 120 then 16 else 10);
        (c, sc) \<leftarrow> skip_blanks schar getch sc;
        let negflg = (c = 45);
        let (c, len, sc) = (if c = 45 \<or> c = 43 then let (c, sc) = scan_get getch sc in (schar c, len - 1, sc) else (c, len, sc));
        (lcval, np, c, sc) \<leftarrow> num_loop (nat len) getch base c (if negflg then 1 else 0) 0 sc;
        let lcval = (if negflg then wrap32 (- lcval) else lcval);
        let sc = (if c \<noteq> EOF then scan_unget ungetch sc else sc);
        case ptr of
          None \<Rightarrow> Some (False, c = EOF, sc)
        | Some a \<Rightarrow>
            if np = 0 then Some (False, c = EOF, sc)
            else if np \<ge> 64 then None
            else Some (True, c = EOF, sc\<lparr>stored := (a, store_num sz lcval) # stored sc\<rparr>)
      })"

subsection \<open>The set of a bracket conversion\<close>

text \<open>The test for the end of the format looks at the character after it has been counted up, so the
  null byte is taken into the set and the format is read further.\<close>

fun ccl_loop :: "u8 list \<Rightarrow> bool \<Rightarrow> u8 list \<Rightarrow> (u8 list \<times> u8 list) option" where
  "ccl_loop [] t tab = None"
| "ccl_loop (c # s) t tab =
     (if and c 0x7F = 93 then Some (s, tab)
      else if c \<ge> 128 then None
      else ccl_loop s t (tab[unat c := if t then or (tab ! unat c) STP else and (tab ! unat c) (not STP)]))"

definition getccl :: "u8 list \<Rightarrow> u8 list \<Rightarrow> (u8 list \<times> u8 list) option" where
  "getccl s tab =
     (let t = (hd_or s 0 = 94); s = (if t then tl s else s);
          tab = List.map (\<lambda>k. if t then and k (not STP) else or k STP) tab
      in ccl_loop s t tab)"

subsection \<open>Formats\<close>

definition fmt_next :: "u8 list \<Rightarrow> int \<times> u8 list" where
  "fmt_next fmt = (sint (hd_or fmt 0), tl fmt)"

text \<open>The digits of a width.\<close>

fun width_loop :: "u8 list \<Rightarrow> int \<Rightarrow> int \<Rightarrow> (int \<times> int \<times> u8 list) option" where
  "width_loop [] ch len = do { d \<leftarrow> isdigit ch; if d then Some (wrap32 (len * 10 + ch - 48), 0, []) else Some (len, ch, []) }"
| "width_loop (c # fmt) ch len = do {
     d \<leftarrow> isdigit ch;
     if d then width_loop fmt (sint c) (wrap32 (len * 10 + ch - 48)) else Some (len, ch, c # fmt)
   }"

text \<open>A conversion after its percent sign: \<open>ptr\<close>, the letter, the width, the sz and the rest of the format.\<close>

definition scan_spec :: "u8 list \<Rightarrow> nat \<Rightarrow> u8 list \<Rightarrow>
    (nat option \<times> nat \<times> int \<times> int \<times> csize \<times> u8 list \<times> u8 list) option" where
  "scan_spec fmt argn tab = do {
     let (ch, fmt) = fmt_next fmt;
     let (ptr, argn, ch, fmt) = (if ch \<noteq> 42 then (Some argn, argn + 1, ch, fmt) else let (ch, fmt) = fmt_next fmt in (None, argn, ch, fmt));
     (len, ch, fmt) \<leftarrow> width_loop fmt ch 0;
     let len = (if len = 0 then 30000 else len);
     (ch, sz, fmt, tab) \<leftarrow>
       (if ch = 108 then let (ch, fmt) = fmt_next fmt in Some (ch, LONG, fmt, tab)
        else if ch = 104 then let (ch, fmt) = fmt_next fmt in Some (ch, SHORT, fmt, tab)
        else if ch = 91 then do { (fmt, tab) \<leftarrow> getccl fmt tab; Some (ch, REGULAR, fmt, tab) }
        else Some (ch, REGULAR, fmt, tab));
     u \<leftarrow> isupper ch;
     let (ch, sz) = (if u then (tolower ch, LONG) else (ch, sz));
     Some (ptr, argn, ch, len, sz, fmt, tab)
   }"

partial_function (option) doscan_loop :: "'s getch \<Rightarrow> ('s \<Rightarrow> 's) \<Rightarrow> u8 list \<Rightarrow> nat \<Rightarrow> int \<Rightarrow> 's scan \<Rightarrow> (int \<times> 's scan) option" where
  "doscan_loop getch ungetch fmt argn nmatch sc =
     (let (ch, rest) = fmt_next fmt in
      if ch = 0 then Some (nmatch, sc)
      else if ch = 37 \<and> fst (fmt_next rest) \<noteq> 37 then do {
        (ptr, argn, ch, len, sz, fmt, tab) \<leftarrow> scan_spec rest argn (sctab sc);
        let sc = sc\<lparr>sctab := tab\<rparr>;
        if ch = 0 then Some (- 1, sc)
        else do {
          (got, fileended, sc) \<leftarrow> innum getch ungetch ptr ch (len, sz) sc;
          let nmatch = (if got \<and> ptr \<noteq> None then nmatch + 1 else nmatch);
          if fileended then Some (if nmatch \<noteq> 0 then nmatch else - 1, sc)
          else doscan_loop getch ungetch fmt argn nmatch sc
        }
      }
      else if ch = 32 \<or> ch = 10 \<or> ch = 9 then do {
        (ch1, sc) \<leftarrow> skip_blanks (\<lambda>c. c) getch sc;
        doscan_loop getch ungetch rest argn nmatch (if ch1 \<noteq> EOF then scan_unget ungetch sc else sc)
      }
      else
        let (ch1, sc) = scan_get getch sc; rest = (if ch = 37 then tl rest else rest) in
        if ch1 \<noteq> ch then (if ch1 = EOF then Some (- 1, sc) else Some (nmatch, scan_unget ungetch sc))
        else doscan_loop getch ungetch rest argn nmatch sc)"

definition doscan :: "u8 list \<Rightarrow> 's getch \<Rightarrow> ('s \<Rightarrow> 's) \<Rightarrow> u8 list \<Rightarrow> 's \<Rightarrow> (int \<times> 's scan) option" where
  "doscan fmt getch ungetch tab s = doscan_loop getch ungetch fmt 0 0 \<lparr>sin = s, sctab = tab, stored = []\<rparr>"

subsection \<open>Scanning a string\<close>

definition sgetch :: "bytes \<Rightarrow> nat getch" where
  "sgetch m cpp = (if m cpp = 0 then (EOF, cpp) else (sint (m cpp), cpp + 1))"

definition sungetch :: "nat \<Rightarrow> nat" where
  "sungetch cpp = cpp - 1"

definition sscanf :: "bytes \<Rightarrow> nat \<Rightarrow> u8 list \<Rightarrow> u8 list \<Rightarrow> (int \<times> nat scan) option" where
  "sscanf m str fmt tab = doscan fmt (sgetch m) sungetch tab str"

subsection \<open>Scanning a device\<close>

text \<open>The state is the one-character buffer and the device; \<open>getc\<close> is what reads the device.\<close>

definition fgetch :: "'d getch \<Rightarrow> (int \<times> 'd) getch" where
  "fgetch getc s = (let (buf, d) = s in
     if buf \<noteq> EOF \<and> buf \<noteq> EMPTY then let (c, d) = getc d in (c, (c, d)) else (buf, (buf, d)))"

definition fungetch :: "int \<times> 'd \<Rightarrow> int \<times> 'd" where
  "fungetch s = (EMPTY, snd s)"

definition fscanf :: "'d getch \<Rightarrow> 'd \<Rightarrow> u8 list \<Rightarrow> u8 list \<Rightarrow> (int \<times> (int \<times> 'd) scan) option" where
  "fscanf getc d fmt tab = doscan fmt (fgetch getc) fungetch tab (EMPTY, d)"

end
