(* ===== verification/ScanProps.thy ===== *)
theory ScanProps
  imports LibScan LibProps
begin

text \<open>What formatted input does: words are read, decimal numbers are not, and a device is never read.\<close>

subsection \<open>The digit loop\<close>





subsection \<open>Blanks\<close>




lemma schar_sint [simp]: "schar (sint c) = sint (c :: u8)" "schar (- 2) = - 2"
  by (simp_all add: schar_def)




subsection \<open>Decimal numbers\<close>







subsection \<open>Words\<close>









subsection \<open>Devices\<close>


subsection \<open>The property\<close>



end
