(* ===== verification/Devices.thy ===== *)
theory Devices
  imports LfsFiles LibPrint
begin

text \<open>
  The device switch: the table \<open>devtab\<close> of \<^verbatim>\<open>config/conf.c\<close> and the calls that go through it
  (\<^verbatim>\<open>system/open.c\<close> and its siblings).  A function pointer of the table is the name of the driver's
  function; what the functions do is an argument of the calls.  A call hands back its value and, for
  \<open>read\<close>, the bytes read.
\<close>

abbreviation (input) NDEVS :: int where "NDEVS \<equiv> 15"
abbreviation (input) DEVNAMLEN :: nat where "DEVNAMLEN \<equiv> 16"
abbreviation (input) NULLDEV :: int where "NULLDEV \<equiv> 2"
abbreviation (input) NAMESPACE :: int where "NAMESPACE \<equiv> 4"
abbreviation (input) LFILESYS :: int where "LFILESYS \<equiv> 8"
abbreviation (input) LFILE0 :: int where "LFILE0 \<equiv> 9"

subsection \<open>The table\<close>

datatype driver =
    Ionull | Ioerr
  | Ttyinit | Ttyread | Ttywrite | Ttygetc | Ttyputc | Ttycontrol | Ttydispatch
  | Qty_init | Qty_read | Qty_write | Qty_getc | Qty_putc | Qty_control | Qty_dispatch
  | Ethinit | Ethread | Ethwrite | Ethcontrol | Ethdispatch
  | Naminit | Namopen
  | Rdsinit | Rdsopen | Rdsclose | Rdsread | Rdswrite | Rdscontrol
  | Qrds_init | Qrds_open | Qrds_close | Qrds_read | Qrds_write | Qrds_control
  | Raminit | Ramopen | Ramclose | Ramread | Ramwrite
  | Lfsinit | Lfsopen
  | Lflinit | Lflclose | Lflread | Lflwrite | Lflseek | Lflgetc | Lflputc | Lflcontrol

record dentry =
  dvnum :: int
  dvminor :: int
  dvname :: "u8 list"
  dvinit :: driver
  dvopen :: driver
  dvclose :: driver
  dvread :: driver
  dvwrite :: driver
  dvseek :: driver
  dvgetc :: driver
  dvputc :: driver
  dvcntl :: driver
  dvcsr :: nat
  dvintr :: driver
  dvirq :: nat

definition chars :: "string \<Rightarrow> u8 list" where
  "chars s = List.map of_char s"

definition lfl_entry :: "int \<Rightarrow> string \<Rightarrow> dentry" where
  "lfl_entry m name = \<lparr>dvnum = 9 + m, dvminor = m, dvname = chars name,
     dvinit = Lflinit, dvopen = Ioerr, dvclose = Lflclose, dvread = Lflread, dvwrite = Lflwrite, dvseek = Lflseek,
     dvgetc = Lflgetc, dvputc = Lflputc, dvcntl = Lflcontrol, dvcsr = 0, dvintr = Ionull, dvirq = 0\<rparr>"

definition devtab :: "dentry list" where
  "devtab = [
     \<lparr>dvnum = 0, dvminor = 0, dvname = chars ''CONSOLE'',
       dvinit = Ttyinit, dvopen = Ionull, dvclose = Ionull, dvread = Ttyread, dvwrite = Ttywrite, dvseek = Ioerr,
       dvgetc = Ttygetc, dvputc = Ttyputc, dvcntl = Ttycontrol, dvcsr = 0x3f8, dvintr = Ttydispatch, dvirq = 42\<rparr>,
     \<lparr>dvnum = 1, dvminor = 0, dvname = chars ''QEMUCONSOLE'',
       dvinit = Qty_init, dvopen = Ionull, dvclose = Ionull, dvread = Qty_read, dvwrite = Qty_write, dvseek = Ioerr,
       dvgetc = Qty_getc, dvputc = Qty_putc, dvcntl = Qty_control, dvcsr = 0, dvintr = Qty_dispatch, dvirq = 36\<rparr>,
     \<lparr>dvnum = 2, dvminor = 0, dvname = chars ''NULLDEV'',
       dvinit = Ionull, dvopen = Ionull, dvclose = Ionull, dvread = Ionull, dvwrite = Ionull, dvseek = Ioerr,
       dvgetc = Ionull, dvputc = Ionull, dvcntl = Ioerr, dvcsr = 0, dvintr = Ioerr, dvirq = 0\<rparr>,
     \<lparr>dvnum = 3, dvminor = 0, dvname = chars ''ETHER0'',
       dvinit = Ethinit, dvopen = Ioerr, dvclose = Ioerr, dvread = Ethread, dvwrite = Ethwrite, dvseek = Ioerr,
       dvgetc = Ioerr, dvputc = Ioerr, dvcntl = Ethcontrol, dvcsr = 0, dvintr = Ethdispatch, dvirq = 43\<rparr>,
     \<lparr>dvnum = 4, dvminor = 0, dvname = chars ''NAMESPACE'',
       dvinit = Naminit, dvopen = Namopen, dvclose = Ioerr, dvread = Ioerr, dvwrite = Ioerr, dvseek = Ioerr,
       dvgetc = Ioerr, dvputc = Ioerr, dvcntl = Ioerr, dvcsr = 0, dvintr = Ioerr, dvirq = 0\<rparr>,
     \<lparr>dvnum = 5, dvminor = 0, dvname = chars ''RDISK'',
       dvinit = Rdsinit, dvopen = Rdsopen, dvclose = Rdsclose, dvread = Rdsread, dvwrite = Rdswrite, dvseek = Ioerr,
       dvgetc = Ioerr, dvputc = Ioerr, dvcntl = Rdscontrol, dvcsr = 0, dvintr = Ionull, dvirq = 0\<rparr>,
     \<lparr>dvnum = 6, dvminor = 0, dvname = chars ''QEMURDISK'',
       dvinit = Qrds_init, dvopen = Qrds_open, dvclose = Qrds_close, dvread = Qrds_read, dvwrite = Qrds_write, dvseek = Ioerr,
       dvgetc = Ioerr, dvputc = Ioerr, dvcntl = Qrds_control, dvcsr = 0, dvintr = Ionull, dvirq = 0\<rparr>,
     \<lparr>dvnum = 7, dvminor = 0, dvname = chars ''RAM0'',
       dvinit = Raminit, dvopen = Ramopen, dvclose = Ramclose, dvread = Ramread, dvwrite = Ramwrite, dvseek = Ioerr,
       dvgetc = Ioerr, dvputc = Ioerr, dvcntl = Ioerr, dvcsr = 0, dvintr = Ionull, dvirq = 0\<rparr>,
     \<lparr>dvnum = 8, dvminor = 0, dvname = chars ''LFILESYS'',
       dvinit = Lfsinit, dvopen = Lfsopen, dvclose = Ioerr, dvread = Ioerr, dvwrite = Ioerr, dvseek = Ioerr,
       dvgetc = Ioerr, dvputc = Ioerr, dvcntl = Ioerr, dvcsr = 0, dvintr = Ionull, dvirq = 0\<rparr>,
     lfl_entry 0 ''LFILE0'', lfl_entry 1 ''LFILE1'', lfl_entry 2 ''LFILE2'',
     lfl_entry 3 ''LFILE3'', lfl_entry 4 ''LFILE4'', lfl_entry 5 ''LFILE5'']"

definition isbaddev :: "int \<Rightarrow> bool" where
  "isbaddev f \<longleftrightarrow> f < 0 \<or> f \<ge> NDEVS"

subsection \<open>The calls\<close>

datatype dcall =
    CInit | COpen "u8 list" string | CClose | CRead int | CWrite "u8 list" int | CSeek u32
  | CGetc | CPutc u8 | CCntl int int int

type_synonym ('k, 's) dresult = "((int \<times> u8 list, 'k) outcome \<times> 's) option"
type_synonym ('k, 's) drivers = "driver \<Rightarrow> dentry \<Rightarrow> dcall \<Rightarrow> 's \<Rightarrow> ('k, 's) dresult"

definition ioerr :: "'s \<Rightarrow> ('k, 's) dresult" where
  "ioerr w = give (SYSERR, []) w"

definition ionull :: "'s \<Rightarrow> ('k, 's) dresult" where
  "ionull w = give (OK, []) w"

definition open_dev :: "('k, 's) drivers \<Rightarrow> int \<Rightarrow> u8 list \<Rightarrow> string \<Rightarrow> 's \<Rightarrow> ('k, 's) dresult" where
  "open_dev drv descrp name mode w =
     (if isbaddev descrp then give (SYSERR, []) w
      else let devptr = devtab ! nat descrp in drv (dvopen devptr) devptr (COpen name mode) w)"

definition close_dev :: "('k, 's) drivers \<Rightarrow> int \<Rightarrow> 's \<Rightarrow> ('k, 's) dresult" where
  "close_dev drv descrp w =
     (if isbaddev descrp then give (SYSERR, []) w
      else let devptr = devtab ! nat descrp in drv (dvclose devptr) devptr CClose w)"

definition read_dev :: "('k, 's) drivers \<Rightarrow> int \<Rightarrow> int \<Rightarrow> 's \<Rightarrow> ('k, 's) dresult" where
  "read_dev drv descrp cnt w =
     (if isbaddev descrp then give (SYSERR, []) w
      else let devptr = devtab ! nat descrp in drv (dvread devptr) devptr (CRead cnt) w)"

definition write_dev :: "('k, 's) drivers \<Rightarrow> int \<Rightarrow> u8 list \<Rightarrow> int \<Rightarrow> 's \<Rightarrow> ('k, 's) dresult" where
  "write_dev drv descrp buffer cnt w =
     (if isbaddev descrp then give (SYSERR, []) w
      else let devptr = devtab ! nat descrp in drv (dvwrite devptr) devptr (CWrite buffer cnt) w)"

definition seek_dev :: "('k, 's) drivers \<Rightarrow> int \<Rightarrow> u32 \<Rightarrow> 's \<Rightarrow> ('k, 's) dresult" where
  "seek_dev drv descrp pos w =
     (if isbaddev descrp then give (SYSERR, []) w
      else let devptr = devtab ! nat descrp in drv (dvseek devptr) devptr (CSeek pos) w)"

definition getc_dev :: "('k, 's) drivers \<Rightarrow> int \<Rightarrow> 's \<Rightarrow> ('k, 's) dresult" where
  "getc_dev drv descrp w =
     (if isbaddev descrp then give (SYSERR, []) w
      else let devptr = devtab ! nat descrp in drv (dvgetc devptr) devptr CGetc w)"

definition putc_dev :: "('k, 's) drivers \<Rightarrow> int \<Rightarrow> u8 \<Rightarrow> 's \<Rightarrow> ('k, 's) dresult" where
  "putc_dev drv descrp ch w =
     (if isbaddev descrp then give (SYSERR, []) w
      else let devptr = devtab ! nat descrp in drv (dvputc devptr) devptr (CPutc ch) w)"

definition control_dev :: "('k, 's) drivers \<Rightarrow> int \<Rightarrow> int \<Rightarrow> int \<Rightarrow> int \<Rightarrow> 's \<Rightarrow> ('k, 's) dresult" where
  "control_dev drv descrp func arg1 arg2 w =
     (if isbaddev descrp then give (SYSERR, []) w
      else let devptr = devtab ! nat descrp in drv (dvcntl devptr) devptr (CCntl func arg1 arg2) w)"

definition init_dev :: "('k, 's) drivers \<Rightarrow> int \<Rightarrow> 's \<Rightarrow> ('k, 's) dresult" where
  "init_dev drv descrp w =
     (if isbaddev descrp then give (SYSERR, []) w
      else let devptr = devtab ! nat descrp in drv (dvinit devptr) devptr CInit w)"

subsection \<open>Finding a device by name\<close>

definition str_mem :: "u8 list \<Rightarrow> bytes" where
  "str_mem xs i = (if i < length xs then xs ! i else 0)"

text \<open>\<open>getdev\<close> takes the first device for which \<open>strncmp\<close> is not zero.\<close>

fun getdev_loop :: "u8 list \<Rightarrow> dentry list \<Rightarrow> int \<Rightarrow> int" where
  "getdev_loop devname [] i = SYSERR"
| "getdev_loop devname (d # ds) i =
     (if strncmp (str_mem (devname @ 0 # dvname d @ [0])) 0 (length devname + 1) DEVNAMLEN \<noteq> 0 then i
      else getdev_loop devname ds (i + 1))"

definition getdev :: "u8 list \<Rightarrow> int" where
  "getdev devname = getdev_loop devname devtab 0"

subsection \<open>Characters and lines\<close>

text \<open>The functions of \<^verbatim>\<open>lib/fgetc.c\<close>, \<^verbatim>\<open>lib/fputc.c\<close>, \<^verbatim>\<open>lib/fgets.c\<close> and \<^verbatim>\<open>lib/fputs.c\<close> on the character calls
  of the device, which are their first argument; a character call of a device that waits is not part of them.\<close>

definition fgetc :: "('s \<Rightarrow> int \<times> 's) \<Rightarrow> 's \<Rightarrow> int \<times> 's" where
  "fgetc getc w = (let (result, w) = getc w in (if 0 > result then EOF else result, w))"

definition fputc :: "(u8 \<Rightarrow> 's \<Rightarrow> int \<times> 's) \<Rightarrow> int \<Rightarrow> 's \<Rightarrow> int \<times> 's" where
  "fputc putc c w = (let (r, w) = putc (word_of_int c) w in (if r = SYSERR then EOF else c, w))"

fun fputs :: "(u8 \<Rightarrow> 's \<Rightarrow> int \<times> 's) \<Rightarrow> u8 list \<Rightarrow> int \<Rightarrow> 's \<Rightarrow> int \<times> 's" where
  "fputs putc [] r w = (r, w)"
| "fputs putc (c # s) r w = (let (r, w) = putc c w in fputs putc s r w)"

text \<open>\<open>n\<close> is the number of characters that still fit, after the test of the loop has counted it down;
  the result is the last character read and the bytes stored.\<close>

fun fgets_loop :: "nat \<Rightarrow> ('s \<Rightarrow> int \<times> 's) \<Rightarrow> int \<Rightarrow> u8 list \<Rightarrow> 's \<Rightarrow> int \<times> u8 list \<times> 's" where
  "fgets_loop 0 getc c cs w = (c, cs, w)"
| "fgets_loop (Suc n) getc c cs w =
     (let (c, w) = getc w in
      if c \<ge> 0 then
        (let cs = cs @ [word_of_int c] in
         if c = 10 \<or> c = 13 then (c, cs, w) else fgets_loop n getc c cs w)
      else (c, cs, w))"

definition fgets :: "('s \<Rightarrow> int \<times> 's) \<Rightarrow> int \<Rightarrow> 's \<Rightarrow> u8 list option \<times> 's" where
  "fgets getc n w =
     (let (c, cs, w) = fgets_loop (nat (n - 1)) getc 0 [] w
      in (if c < 0 \<and> cs = [] then None else Some (cs @ [0]), w))"

text \<open>Printing to a device, and the functions for the standard input and output of the running process,
  whose descriptors (\<open>prdesc\<close>) are arguments.  \<open>string\<close> is the buffer of the conversions.\<close>

definition fprintf :: "(int \<Rightarrow> u8 \<Rightarrow> 's \<Rightarrow> int \<times> 's) \<Rightarrow> int \<Rightarrow> u8 list \<Rightarrow> prarg list \<Rightarrow> u8 list \<Rightarrow> 's \<Rightarrow> (int \<times> 's) option" where
  "fprintf putc dev fmt ap string w = do { out \<leftarrow> fdoprnt fmt ap string; Some (0, snd (fputs (putc dev) out 0 w)) }"

definition printf :: "(int \<Rightarrow> u8 \<Rightarrow> 's \<Rightarrow> int \<times> 's) \<Rightarrow> int \<Rightarrow> u8 list \<Rightarrow> prarg list \<Rightarrow> u8 list \<Rightarrow> 's \<Rightarrow> (int \<times> 's) option" where
  "printf putc stdout fmt ap string w = do { out \<leftarrow> fdoprnt fmt ap string; Some (0, snd (fputs (putc stdout) out 0 w)) }"

definition getchar :: "(int \<Rightarrow> 's \<Rightarrow> int \<times> 's) \<Rightarrow> int \<Rightarrow> 's \<Rightarrow> int \<times> 's" where
  "getchar getc stdin w = fgetc (getc stdin) w"

definition putchar :: "(int \<Rightarrow> u8 \<Rightarrow> 's \<Rightarrow> int \<times> 's) \<Rightarrow> int \<Rightarrow> int \<Rightarrow> 's \<Rightarrow> int \<times> 's" where
  "putchar putc stdout c w = fputc (putc stdout) c w"

end
