(* ===== verification/Names.thy ===== *)
theory Names
  imports Devices
begin

text \<open>
  The name space of \<^verbatim>\<open>device/nam/*.c\<close>: a table of prefixes, each with a replacement and a device.
  Names are lists of bytes; a pointer into an array is the rest of the list, and reading at the end of a
  list gives the null byte.  The arrays of the table always hold a null byte (\<open>nam_ok\<close>).
\<close>

abbreviation (input) NM_PRELEN :: nat where "NM_PRELEN \<equiv> 64"
abbreviation (input) NM_REPLLEN :: nat where "NM_REPLLEN \<equiv> 96"
abbreviation (input) NM_MAXLEN :: nat where "NM_MAXLEN \<equiv> 256"
abbreviation (input) NNAMES :: nat where "NNAMES \<equiv> 40"

subsection \<open>The table\<close>

record nmentry =
  nprefix :: "u8 list"
  nreplace :: "u8 list"
  ndevice :: int

record namtab =
  nametab :: "nmentry list"
  nnames :: nat

subsection \<open>Adding a name\<close>

fun namlen_loop :: "nat \<Rightarrow> u8 list \<Rightarrow> int \<Rightarrow> int" where
  "namlen_loop 0 name i = SYSERR"
| "namlen_loop (Suc n) name i = (if hd_or name 0 = 0 then i + 1 else namlen_loop n (tl name) (i + 1))"

definition namlen :: "u8 list \<Rightarrow> nat \<Rightarrow> int" where
  "namlen name maxlen = namlen_loop maxlen name 0"

text \<open>A loop that copies \<open>n\<close> bytes from a pointer to the places of an array from \<open>k\<close> on.\<close>

fun place :: "nat \<Rightarrow> u8 list \<Rightarrow> nat \<Rightarrow> u8 list \<Rightarrow> u8 list" where
  "place 0 src k dst = dst"
| "place (Suc n) src k dst = place n (tl src) (k + 1) (dst[k := hd_or src 0])"

definition mount :: "u8 list \<Rightarrow> u8 list \<Rightarrow> int \<Rightarrow> namtab \<Rightarrow> int \<times> namtab" where
  "mount prefix replace device t =
     (let psiz = namlen prefix NM_PRELEN; rsiz = namlen replace NM_REPLLEN in
      if psiz = SYSERR \<or> rsiz = SYSERR \<or> isbaddev device \<or> nnames t \<ge> NNAMES then (SYSERR, t)
      else
        let e = nametab t ! nnames t;
            e = \<lparr>nprefix = place (nat psiz) prefix 0 (nprefix e), nreplace = place (nat rsiz) replace 0 (nreplace e), ndevice = device\<rparr>
        in (OK, t\<lparr>nametab := (nametab t)[nnames t := e], nnames := nnames t + 1\<rparr>))"

subsection \<open>Mapping a name\<close>

text \<open>\<open>namcpy\<close> fills a buffer; \<open>cnt\<close> is the place it has reached.\<close>

fun namcpy_loop :: "nat \<Rightarrow> nat \<Rightarrow> u8 list \<Rightarrow> u8 list \<Rightarrow> int \<times> u8 list" where
  "namcpy_loop 0 cnt oldname newname = (SYSERR, newname)"
| "namcpy_loop (Suc left) cnt oldname newname =
     (let newname = newname[cnt := hd_or oldname 0] in
      if hd_or oldname 0 = 0 then (OK, newname) else namcpy_loop left (cnt + 1) (tl oldname) newname)"

definition namcpy :: "u8 list \<Rightarrow> u8 list \<Rightarrow> nat \<Rightarrow> int \<times> u8 list" where
  "namcpy newname oldname buflen = namcpy_loop buflen 0 oldname newname"

text \<open>The comparison with one prefix: its length and what follows it in the name.\<close>

fun prefix_scan :: "u8 list \<Rightarrow> u8 list \<Rightarrow> nat \<Rightarrow> (nat \<times> u8 list) option" where
  "prefix_scan [] optr plen = Some (plen, optr)"
| "prefix_scan (p # pptr) optr plen =
     (if p = 0 then Some (plen, optr)
      else if p \<noteq> hd_or optr 0 then None
      else prefix_scan pptr (tl optr) (plen + 1))"

text \<open>The length of the name is kept in a \<open>char\<close>, so it is negative from 128 on.\<close>

fun namrepl_loop :: "nmentry list \<Rightarrow> u8 list \<Rightarrow> u8 list \<Rightarrow> int \<times> u8 list" where
  "namrepl_loop [] name newname = (SYSERR, newname)"
| "namrepl_loop (namptr # rest) name newname =
     (case prefix_scan (nprefix namptr) name 0 of
        None \<Rightarrow> namrepl_loop rest name newname
      | Some (plen, optr) \<Rightarrow>
          let olen = schar (namlen name NM_MAXLEN);
              rlen = namlen (nreplace namptr) NM_MAXLEN - 1;
              remain = olen - int plen
          in if rlen + remain > int NM_MAXLEN then (SYSERR, newname)
             else
               let newname = place (nat rlen) (nreplace namptr) 0 newname;
                   newname = place (nat remain) optr (nat rlen) newname
               in (ndevice namptr, newname))"

definition namrepl :: "u8 list \<Rightarrow> u8 list \<Rightarrow> namtab \<Rightarrow> int \<times> u8 list" where
  "namrepl name newname t = namrepl_loop (take (nnames t) (nametab t)) name newname"

fun nammap_loop :: "nat \<Rightarrow> u8 list \<Rightarrow> u8 list \<Rightarrow> int \<Rightarrow> namtab \<Rightarrow> int \<times> u8 list" where
  "nammap_loop 0 tmpname newname namdev t = (SYSERR, newname)"
| "nammap_loop (Suc n) tmpname newname namdev t =
     (let (newdev, newname) = namrepl tmpname newname t in
      if newdev \<noteq> namdev then (newdev, newname) else nammap_loop n tmpname newname namdev t)"

text \<open>\<open>tmpname\<close> is the local buffer; its last copy, on the way out, is not seen by the caller.\<close>

definition nammap :: "u8 list \<Rightarrow> u8 list \<Rightarrow> u8 list \<Rightarrow> int \<Rightarrow> namtab \<Rightarrow> int \<times> u8 list" where
  "nammap tmpname name newname namdev t =
     (let (r, tmpname) = namcpy tmpname name NM_MAXLEN in
      if r = SYSERR then (SYSERR, newname) else nammap_loop (nnames t) tmpname newname namdev t)"

subsection \<open>The first names\<close>

text \<open>The loop that appends the name of a device in lower case: the bytes and the length counted.\<close>

fun lower_loop :: "nat \<Rightarrow> u8 list \<Rightarrow> int \<Rightarrow> u8 list \<times> int" where
  "lower_loop 0 nptr len = ([], len + 1)"
| "lower_loop (Suc n) nptr len =
     (let ch = hd_or nptr 0; ch = (if ch \<ge> 65 \<and> ch \<le> 90 then ch + 32 else ch) in
      if ch = 0 then ([ch], len + 1)
      else let (s, len) = lower_loop n (tl nptr) (len + 1) in (ch # s, len))"

fun naminit_loop :: "dentry list \<Rightarrow> namtab \<Rightarrow> namtab" where
  "naminit_loop [] t = t"
| "naminit_loop (devptr # ds) t =
     (let devprefix = chars ''/dev/''; len = int (length devprefix);
          (s, len) = lower_loop (NM_MAXLEN - 1 - nat len) (dvname devptr) len
      in naminit_loop ds (if len > int NM_MAXLEN then t else snd (mount (devprefix @ s) [] (dvnum devptr) t)))"

text \<open>There is no remote file system in this configuration: \<open>RFILESYS\<close> is \<open>SYSERR\<close>.\<close>

definition naminit :: "namtab \<Rightarrow> int \<times> namtab" where
  "naminit t =
     (let t = naminit_loop devtab (t\<lparr>nnames := 0\<rparr>);
          t = snd (mount (chars ''/dev/null'') [] NULLDEV t);
          t = snd (mount (chars ''/remote/'') (chars ''remote:'') SYSERR t);
          t = snd (mount (chars ''/local/'') [] LFILESYS t);
          t = snd (mount (chars ''/dev/'') [] SYSERR t);
          t = snd (mount (chars ''~/'') [] LFILESYS t);
          t = snd (mount (chars ''/'') (chars ''root:'') SYSERR t);
          t = snd (mount [] [] LFILESYS t)
      in (OK, t))"

definition no_names :: namtab where
  "no_names = \<lparr>nametab = replicate NNAMES \<lparr>nprefix = replicate NM_PRELEN 0, nreplace = replicate NM_REPLLEN 0, ndevice = 0\<rparr>, nnames = 0\<rparr>"

subsection \<open>The names device\<close>

text \<open>\<open>opn\<close> is the call \<open>open\<close>; the two local buffers are arguments, as nothing sets them before.\<close>

definition namopen :: "(int \<Rightarrow> u8 list \<Rightarrow> string \<Rightarrow> 's \<Rightarrow> ('k, 's) dresult) \<Rightarrow> namtab \<Rightarrow> u8 list \<times> u8 list \<Rightarrow> dentry \<Rightarrow> u8 list \<Rightarrow> string \<Rightarrow>
    's \<Rightarrow> ('k, 's) dresult" where
  "namopen opn t bufs devptr name mode w =
     (let (newdev, newname) = nammap (fst bufs) name (snd bufs) (dvnum devptr) t in
      if newdev = SYSERR then give (SYSERR, []) w else opn newdev newname mode w)"

end
