(* ===== verification/FileDevices.thy ===== *)
theory FileDevices
  imports Names
begin

text \<open>
  The drivers behind the device switch that are modelled on one state: the name space, the ram disk and
  the local file system.  What the drivers of the other devices do is an argument (\<open>other\<close>).  A name
  handed to a driver is an array with a null byte.
\<close>

record nsys =
  names :: namtab
  bufs :: "u8 list \<times> u8 list"    \<comment> \<open>what the stack holds where \<open>namopen\<close> has its buffers\<close>
  files :: fs

type_synonym ndrivers = "(int, nsys) drivers"

definition on_files :: "('a \<Rightarrow> int \<times> u8 list) \<Rightarrow> 'a fact \<Rightarrow> nsys \<Rightarrow> (int, nsys) dresult" where
  "on_files f a w = map_option (\<lambda>(r, u). (case r of Ret x \<Rightarrow> Ret (f x) | Switch p \<Rightarrow> Switch p, w\<lparr>files := u\<rparr>)) (a (files w))"

abbreviation (input) plain :: "int \<Rightarrow> int \<times> u8 list" where "plain r \<equiv> (r, [])"

definition now :: "(fs \<Rightarrow> (int \<times> fs) option) \<Rightarrow> int fact" where
  "now a w = map_option (\<lambda>(r, w). (Ret r, w)) (a w)"

definition ramopen :: "dentry \<Rightarrow> int" where
  "ramopen devptr = dvnum devptr"

definition ramclose :: "dentry \<Rightarrow> int" where
  "ramclose devptr = OK"

definition file_drivers :: "ndrivers \<Rightarrow> ndrivers" where
  "file_drivers other f devptr call w =
     (let m = dvminor devptr; oth = other f devptr call w in
      case f of
        Ionull \<Rightarrow> ionull w
      | Ioerr \<Rightarrow> ioerr w
      | Raminit \<Rightarrow> on_files plain (now (Some \<circ> raminit)) w
      | Ramopen \<Rightarrow> give (plain (ramopen devptr)) w
      | Ramclose \<Rightarrow> give (plain (ramclose devptr)) w
      | Ramread \<Rightarrow> (case call of
            CRead blk \<Rightarrow> map_option (\<lambda>rb. (Ret rb, w)) (ramread blk (files w))
          | _ \<Rightarrow> oth)
      | Ramwrite \<Rightarrow> (case call of CWrite buff blk \<Rightarrow> on_files plain (now (ramwrite buff blk)) w | _ \<Rightarrow> oth)
      | Lfsinit \<Rightarrow> on_files plain (now (Some \<circ> lfsinit)) w
      | Lfsopen \<Rightarrow> (case call of
            COpen name mode \<Rightarrow>
              (if 0 \<in> set name then on_files plain (lfsopen (takeWhile (\<lambda>c. c \<noteq> 0) name) mode) w else None)
          | _ \<Rightarrow> oth)
      | Lflinit \<Rightarrow> on_files plain (now (Some \<circ> lflinit (dvnum devptr) m)) w
      | Lflclose \<Rightarrow> on_files plain (lflclose m) w
      | Lflread \<Rightarrow> (case call of CRead cnt \<Rightarrow> on_files (\<lambda>rb. rb) (lflread m cnt) w | _ \<Rightarrow> oth)
      | Lflwrite \<Rightarrow> (case call of CWrite buff cnt \<Rightarrow> on_files plain (lflwrite m buff cnt) w | _ \<Rightarrow> oth)
      | Lflseek \<Rightarrow> (case call of CSeek pos \<Rightarrow> on_files plain (lflseek m pos) w | _ \<Rightarrow> oth)
      | Lflgetc \<Rightarrow> on_files plain (lflgetc m) w
      | Lflputc \<Rightarrow> (case call of CPutc ch \<Rightarrow> on_files plain (lflputc m ch) w | _ \<Rightarrow> oth)
      | Lflcontrol \<Rightarrow> (case call of CCntl func a1 a2 \<Rightarrow> on_files plain (lflcontrol m func) w | _ \<Rightarrow> oth)
      | _ \<Rightarrow> oth)"

text \<open>With the name space on top: what \<open>namopen\<close> opens is never the name space itself.\<close>

definition sys_drivers :: "ndrivers \<Rightarrow> ndrivers" where
  "sys_drivers other f devptr call w =
     (case f of
        Naminit \<Rightarrow> let (r, t) = naminit (names w) in give (plain r) (w\<lparr>names := t\<rparr>)
      | Namopen \<Rightarrow> (case call of
            COpen name mode \<Rightarrow> namopen (open_dev (file_drivers other)) (names w) (bufs w) devptr name mode w
          | _ \<Rightarrow> other f devptr call w)
      | _ \<Rightarrow> file_drivers other f devptr call w)"

end
