(* ===== verification/NameProps.thy ===== *)
theory NameProps
  imports FileDevices LfsProps LibProps
begin

text \<open>
  The name space as a list of prefixes, what \<open>naminit\<close> puts in it, what \<open>nammap\<close> finds in it, and files
  reached by their names through the device switch.
\<close>

subsection \<open>Strings in arrays\<close>

definition cstring :: "u8 list \<Rightarrow> u8 list" where
  "cstring xs = takeWhile (\<lambda>c. c \<noteq> 0) xs"

lemma cstring_simps [simp]: "cstring [] = []" "cstring (c # xs) = (if c = 0 then [] else c # cstring xs)"
  by (simp_all add: cstring_def)

lemma cstring_plain: "0 \<notin> set xs \<Longrightarrow> cstring (xs @ ys) = xs @ cstring ys"
  by (induction xs) auto

lemma cstring_id [simp]: "0 \<notin> set xs \<Longrightarrow> cstring xs = xs"
  using cstring_plain [of xs "[]"] by simp

lemma cstring_no_zero [simp]: "0 \<notin> set (cstring xs)"
  by (induction xs) auto

lemma namlen_loop_ok: "namlen_loop n name i = (if length (cstring name) < n then i + int (length (cstring name)) + 1 else SYSERR)"
proof (induction n arbitrary: name i)
  case (Suc n)
  show ?case by (cases name) (simp_all add: Suc.IH)
qed simp

lemma namlen_ok: "namlen name n = (if length (cstring name) < n then int (length (cstring name)) + 1 else SYSERR)"
  by (simp add: namlen_def namlen_loop_ok)

text \<open>A copy of \<open>n\<close> bytes, the ones behind the source as null bytes.\<close>

lemma place_ok: "k + n \<le> length dst \<Longrightarrow> place n src k dst = take k dst @ take n (src @ replicate n 0) @ drop (k + n) dst"
proof (induction n arbitrary: src k dst)
  case (Suc n)
  have k: "k < length dst" using Suc.prems by simp
  have t: "take (k + 1) (dst[k := c]) = take k dst @ [c]" for c using k by (simp add: take_Suc_conv_app_nth)
  have "place (Suc n) src k dst = place n (tl src) (k + 1) (dst[k := hd_or src 0])" by simp
  also have "\<dots> = take (k + 1) (dst[k := hd_or src 0]) @ take n (tl src @ replicate n 0) @ drop (k + 1 + n) (dst[k := hd_or src 0])"
    using Suc.prems by (intro Suc.IH) simp
  also have "\<dots> = take k dst @ (hd_or src 0 # take n (tl src @ replicate n 0)) @ drop (k + Suc n) dst"
    using t by (simp add: drop_update_cancel)
  also have "hd_or src 0 # take n (tl src @ replicate n 0) = take (Suc n) (src @ replicate (Suc n) 0)"
    by (cases src) (simp_all add: replicate_append_same [symmetric] take_append)
  finally show ?case .
qed simp

lemma take_cstring: "length (cstring src) < n \<Longrightarrow> take (length (cstring src) + 1) (src @ replicate n 0) = cstring src @ [0]"
proof (induction src arbitrary: n)
  case Nil
  then show ?case by (cases n) simp_all
next
  case (Cons c src)
  then show ?case using Cons.IH [of n] by (cases "c = 0") (simp_all del: take_append)
qed

subsection \<open>The table as a list\<close>

definition entry_view :: "nmentry \<Rightarrow> u8 list \<times> u8 list \<times> int" where
  "entry_view e = (cstring (nprefix e), cstring (nreplace e), ndevice e)"

definition view :: "namtab \<Rightarrow> (u8 list \<times> u8 list \<times> int) list" where
  "view t = List.map entry_view (take (nnames t) (nametab t))"

text \<open>The arrays have their lengths and those in use hold a null byte.\<close>

definition nam_ok :: "namtab \<Rightarrow> bool" where
  "nam_ok t \<longleftrightarrow> length (nametab t) = NNAMES \<and> nnames t \<le> NNAMES \<and>
     (\<forall>e \<in> set (nametab t). length (nprefix e) = NM_PRELEN \<and> length (nreplace e) = NM_REPLLEN) \<and>
     (\<forall>e \<in> set (take (nnames t) (nametab t)). 0 \<in> set (nprefix e) \<and> 0 \<in> set (nreplace e))"

lemma length_view [simp]: "nam_ok t \<Longrightarrow> length (view t) = nnames t"
  by (simp add: view_def nam_ok_def)

definition mountable :: "u8 list \<Rightarrow> u8 list \<Rightarrow> int \<Rightarrow> namtab \<Rightarrow> bool" where
  "mountable p r d t \<longleftrightarrow> length (cstring p) < NM_PRELEN \<and> length (cstring r) < NM_REPLLEN \<and> \<not> isbaddev d \<and> length (view t) < NNAMES"

lemma placed_string:
  assumes "length (cstring s) < n" "length dst = n"
  shows "place (nat (namlen s n)) s 0 dst = cstring s @ [0] @ drop (length (cstring s) + 1) dst"
proof -
  have n: "nat (namlen s n) = length (cstring s) + 1" using assms(1) by (simp add: namlen_ok nat_add_distrib)
  have "length (cstring s) < length (cstring s) + 1" by simp
  from take_cstring [OF this] show ?thesis using place_ok [of 0 "length (cstring s) + 1" dst s] assms unfolding n by (simp del: take_append)
qed

lemma mount_refused: "nam_ok t \<Longrightarrow> \<not> mountable p r d t \<Longrightarrow> mount p r d t = (SYSERR, t)"
  by (auto simp: mount_def mountable_def namlen_ok Let_def)

lemma mount_ok:
  assumes t: "nam_ok t" and m: "mountable p r d t"
  shows "fst (mount p r d t) = OK" "nam_ok (snd (mount p r d t))" "view (snd (mount p r d t)) = view t @ [(cstring p, cstring r, d)]"
proof -
  have n: "nnames t < NNAMES" "length (nametab t) = NNAMES" using m t by (simp_all add: mountable_def nam_ok_def)
  let ?o = "nametab t ! nnames t"
  have o: "length (nprefix ?o) = NM_PRELEN" "length (nreplace ?o) = NM_REPLLEN" using t n by (simp_all add: nam_ok_def)
  let ?e = "\<lparr>nprefix = cstring p @ [0] @ drop (length (cstring p) + 1) (nprefix ?o), nreplace = cstring r @ [0] @ drop (length (cstring r) + 1) (nreplace ?o), ndevice = d\<rparr>"
  let ?t = "t\<lparr>nametab := (nametab t)[nnames t := ?e], nnames := nnames t + 1\<rparr>"
  have l: "length (cstring p) < NM_PRELEN" "length (cstring r) < NM_REPLLEN" "\<not> isbaddev d" using m by (simp_all add: mountable_def)
  have r: "mount p r d t = (OK, ?t)"
    using l n placed_string [OF l(1) o(1)] placed_string [OF l(2) o(2)] by (simp add: mount_def namlen_ok Let_def)
  have e: "take (nnames t + 1) ((nametab t)[nnames t := x]) = take (nnames t) (nametab t) @ [x]" for x using n by (simp add: take_Suc_conv_app_nth)
  have S: "nametab ?t = (nametab t)[nnames t := ?e]" "nnames ?t = nnames t + 1" by simp_all
  have v: "entry_view ?e = (cstring p, cstring r, d)" by (simp add: entry_view_def cstring_plain)
  show "fst (mount p r d t) = OK" using r by simp
  have "e \<in> insert ?e (set (nametab t))" if "e \<in> set ((nametab t)[nnames t := ?e])" for e
    using that set_update_subset_insert by (rule rev_subsetD)
  then have A: "\<forall>e \<in> set ((nametab t)[nnames t := ?e]). length (nprefix e) = NM_PRELEN \<and> length (nreplace e) = NM_REPLLEN"
    using t l o by (fastforce simp: nam_ok_def)
  have B: "\<forall>e \<in> set (take (nnames t) (nametab t) @ [?e]). 0 \<in> set (nprefix e) \<and> 0 \<in> set (nreplace e)"
    using t by (simp add: nam_ok_def)
  have n1: "nnames t + 1 \<le> NNAMES" using n(1) by simp
  show "nam_ok (snd (mount p r d t))"
    unfolding r snd_conv nam_ok_def S e length_list_update by (intro conjI n(2) n1 A B)
  show "view (snd (mount p r d t)) = view t @ [(cstring p, cstring r, d)]"
    unfolding r snd_conv view_def S e map_append list.map v by (rule refl)
qed

subsection \<open>The names of the devices\<close>

definition lower :: "u8 \<Rightarrow> u8" where
  "lower c = (if c \<ge> 65 \<and> c \<le> 90 then c + 32 else c)"

lemma lower_zero: "lower c = 0 \<longleftrightarrow> c = 0"
proof -
  have "c + 32 \<noteq> 0" if "c \<ge> 65" "c \<le> 90"
  proof -
    have "unat c \<le> 90" using that(2) by (simp add: word_le_nat_alt)
    then have "unat (c + 32) = unat c + 32" by (simp add: unat_word_ariths)
    then show ?thesis by (metis add_is_0 numeral_neq_zero unat_0)
  qed
  then show ?thesis by (auto simp: lower_def)
qed

lemma lower_loop_ok: "0 \<notin> set s \<Longrightarrow> length s < n \<Longrightarrow> lower_loop n s len = (List.map lower s @ [0], len + int (length s) + 1)"
proof (induction s arbitrary: n len)
  case Nil
  then show ?case by (cases n) (simp_all add: Let_def)
next
  case (Cons c s)
  obtain k where "n = Suc k" using Cons.prems(2) by (cases n) simp_all
  moreover have "lower c \<noteq> 0" using Cons.prems(1) lower_zero by simp
  ultimately show ?case using Cons by (simp add: Let_def lower_def [symmetric])
qed

definition dev_name :: "dentry \<Rightarrow> u8 list \<times> u8 list \<times> int" where
  "dev_name d = (chars ''/dev/'' @ List.map lower (dvname d), [], dvnum d)"

lemma naminit_loop_ok:
  "nam_ok t \<Longrightarrow> nnames t + length ds \<le> NNAMES \<Longrightarrow> \<forall>d \<in> set ds. 0 \<notin> set (dvname d) \<and> length (dvname d) < 50 \<and> \<not> isbaddev (dvnum d) \<Longrightarrow>
     nam_ok (naminit_loop ds t) \<and> view (naminit_loop ds t) = view t @ List.map dev_name ds"
proof (induction ds arbitrary: t)
  case (Cons d ds)
  have d: "0 \<notin> set (dvname d)" "length (dvname d) < 50" "\<not> isbaddev (dvnum d)" using Cons.prems(3) by simp_all
  have p: "chars ''/dev/'' = [47, 100, 101, 118, 47]" by (simp add: chars_def)
  have z: "0 \<notin> set (List.map lower (dvname d))" using d(1) lower_zero by auto
  let ?p = "chars ''/dev/'' @ List.map lower (dvname d) @ [0]"
  have c: "cstring ?p = chars ''/dev/'' @ List.map lower (dvname d)" using cstring_plain [OF z, of "[0]"] by (simp add: p)
  let ?t = "snd (mount ?p [] (dvnum d) t)"
  have m: "mountable ?p [] (dvnum d) t" using d Cons.prems(1,2) by (simp add: mountable_def c) (simp add: p)
  note M = mount_ok [OF Cons.prems(1) m]
  have "nnames ?t = nnames t + 1" using length_view [OF M(2)] length_view [OF Cons.prems(1)] M(3) by simp
  then have i: "nam_ok (naminit_loop ds ?t) \<and> view (naminit_loop ds ?t) = view ?t @ List.map dev_name ds"
    using Cons.IH [OF M(2)] Cons.prems(2,3) by simp
  have "naminit_loop (d # ds) t = naminit_loop ds ?t"
    using d lower_loop_ok [OF d(1), of "250" 5] by (simp add: p Let_def)
  then show ?case using i M(3) by (simp add: c dev_name_def)
qed simp

lemma mount_step:
  assumes "nam_ok t"
  shows "nam_ok (snd (mount p r d t))"
    "view (snd (mount p r d t)) = (if mountable p r d t then view t @ [(cstring p, cstring r, d)] else view t)"
  using mount_ok [OF assms, of p r d] mount_refused [OF assms, of p r d] assms by (cases "mountable p r d t"; simp)+

lemma chars_plain [simp]: "chars [] = []" "chars (c # s) = of_char c # chars s"
  by (simp_all add: chars_def)

definition start_names :: "(u8 list \<times> u8 list \<times> int) list" where
  "start_names = [(chars ''/dev/console'', [], 0), (chars ''/dev/qemuconsole'', [], 1), (chars ''/dev/nulldev'', [], 2),
     (chars ''/dev/ether0'', [], 3), (chars ''/dev/namespace'', [], 4), (chars ''/dev/rdisk'', [], 5), (chars ''/dev/qemurdisk'', [], 6),
     (chars ''/dev/ram0'', [], 7), (chars ''/dev/lfilesys'', [], 8), (chars ''/dev/lfile0'', [], 9), (chars ''/dev/lfile1'', [], 10),
     (chars ''/dev/lfile2'', [], 11), (chars ''/dev/lfile3'', [], 12), (chars ''/dev/lfile4'', [], 13), (chars ''/dev/lfile5'', [], 14),
     (chars ''/dev/null'', [], 2), (chars ''/local/'', [], 8), (chars ''~/'', [], 8), ([], [], 8)]"

lemma device_names: "List.map dev_name devtab @ drop 15 start_names = start_names"
  by (simp add: devtab_def dev_name_def lfl_entry_def start_names_def lower_def)

lemma naminit_names:
  assumes "nam_ok (t\<lparr>nnames := 0\<rparr>)"
  shows "fst (naminit t) = OK" "nam_ok (snd (naminit t))" "view (snd (naminit t)) = start_names"
proof -
  let ?t0 = "t\<lparr>nnames := 0\<rparr>"
  have v0: "view ?t0 = []" by (simp add: view_def)
  have d: "\<forall>d \<in> set devtab. 0 \<notin> set (dvname d) \<and> length (dvname d) < 50 \<and> \<not> isbaddev (dvnum d)"
    by (simp add: devtab_def lfl_entry_def isbaddev_def)
  have "nnames ?t0 + length devtab \<le> NNAMES" by (simp add: devtab_def)
  then have l: "nam_ok (naminit_loop devtab ?t0)" "view (naminit_loop devtab ?t0) = List.map dev_name devtab"
    using naminit_loop_ok [OF assms _ d] v0 by simp_all
  have n: "length (List.map dev_name devtab) = 15" by (simp add: devtab_def)
  show "fst (naminit t) = OK" by (simp add: naminit_def Let_def)
  show "nam_ok (snd (naminit t))" using l(1) mount_step(1) by (simp add: naminit_def Let_def)
  have "view (snd (naminit t)) = List.map dev_name devtab @ drop 15 start_names"
    using l mount_step n by (simp add: naminit_def Let_def mountable_def isbaddev_def start_names_def del: length_map length_view)
  then show "view (snd (naminit t)) = start_names" by (simp only: device_names)
qed

subsection \<open>Mapping a name\<close>

text \<open>What the code is for: the first prefix of the name in the table.\<close>

definition first_prefix :: "u8 list \<Rightarrow> (u8 list \<times> u8 list \<times> int) list \<Rightarrow> (u8 list \<times> u8 list \<times> int) option" where
  "first_prefix name ns = List.find (\<lambda>(p, r, d). take (length p) name = p) ns"

lemma prefix_scan_ok:
  "0 \<in> set pptr \<Longrightarrow> 0 \<notin> set name \<Longrightarrow>
     prefix_scan pptr (name @ 0 # ys) n =
       (if take (length (cstring pptr)) name = cstring pptr then Some (n + length (cstring pptr), drop (length (cstring pptr)) name @ 0 # ys) else None)"
proof (induction pptr arbitrary: name n)
  case (Cons p pptr)
  show ?case
  proof (cases "p = 0")
    case False
    then have z: "0 \<in> set pptr" using Cons.prems(1) by simp
    show ?thesis using False Cons.IH [OF z, of "tl name" "n + 1"] Cons.prems(2) by (cases name) auto
  qed simp
qed simp

lemma schar_ok: "0 \<le> k \<Longrightarrow> k \<le> 256 \<Longrightarrow> schar k = (if k < 128 then k else k - 256)"
proof -
  assume k: "0 \<le> k" "k \<le> 256"
  have e: "schar k = (k + 128) mod 256 - 128" by (simp add: schar_def int_word_sint)
  show ?thesis
  proof (cases "k < 128")
    case False
    have "k + 128 = k - 128 + 1 * 256" by simp
    then have "(k + 128) mod 256 = (k - 128) mod 256" by (simp only: mod_mult_self1)
    then show ?thesis using False k e by simp
  qed (use k e in simp)
qed

lemma namcpy_ok:
  "0 \<notin> set name \<Longrightarrow> k + n = length tmp \<Longrightarrow>
     namcpy_loop n k name tmp = (if length name < n then (OK, take k tmp @ name @ 0 # drop (k + length name + 1) tmp) else (SYSERR, take k tmp @ take n name))"
proof (induction n arbitrary: k name tmp)
  case (Suc n)
  have k: "k < length tmp" using Suc.prems(2) by simp
  have t: "take (k + 1) (tmp[k := c]) = take k tmp @ [c]" for c using k by (simp add: take_Suc_conv_app_nth)
  show ?case
  proof (cases name)
    case Nil
    then show ?thesis using k by (simp add: upd_conv_take_nth_drop)
  next
    case (Cons c cs)
    then have c: "c \<noteq> 0" "0 \<notin> set cs" using Suc.prems(1) by auto
    then show ?thesis using Suc.IH [OF c(2), of "k + 1" "tmp[k := c]"] Suc.prems(2) t [of c] Cons by simp
  qed
qed simp

text \<open>The bytes of a new name: cut after the replacement when the length of the old one does not fit a \<open>char\<close>.\<close>

definition new_name :: "u8 list \<Rightarrow> u8 list \<Rightarrow> u8 list \<Rightarrow> u8 list \<Rightarrow> u8 list" where
  "new_name p r name buf =
     (if length name < 127 then let s = r @ drop (length p) name @ [0] in s @ drop (length s) buf else r @ drop (length r) buf)"

lemma namrepl_loop_ok:
  assumes "\<forall>e \<in> set es. 0 \<in> set (nprefix e) \<and> 0 \<in> set (nreplace e) \<and> length (nreplace e) = NM_REPLLEN"
    and n: "0 \<notin> set name" "length name < NM_MAXLEN" and b: "length buf = NM_MAXLEN"
  shows "namrepl_loop es (name @ 0 # ys) buf =
    (case first_prefix name (List.map entry_view es) of None \<Rightarrow> (SYSERR, buf) | Some (p, r, d) \<Rightarrow> (d, new_name p r name buf))"
  using assms(1)
proof (induction es)
  case Nil
  then show ?case by (simp add: first_prefix_def)
next
  case (Cons e es)
  let ?p = "cstring (nprefix e)" and ?r = "cstring (nreplace e)"
  have e: "0 \<in> set (nprefix e)" "0 \<in> set (nreplace e)" "length (nreplace e) = 96" using Cons.prems by simp_all
  note S = prefix_scan_ok [OF e(1) n(1), of ys 0]
  show ?case
  proof (cases "take (length ?p) name = ?p")
    case False
    then show ?thesis using S Cons by (simp add: first_prefix_def entry_view_def)
  next
    case True
    have p: "length ?p \<le> length name" using True by (metis length_take min.absorb_iff1 min.commute)
    have r: "length ?r < 96"
    proof -
      have "nreplace e = ?r @ dropWhile (\<lambda>c. c \<noteq> 0) (nreplace e)" by (simp add: cstring_def)
      moreover have "dropWhile (\<lambda>c. c \<noteq> 0) (nreplace e) \<noteq> []" using e(2) by auto
      ultimately show ?thesis using e(3) by (metis length_append length_greater_0_conv less_add_same_cancel1)
    qed
    have c: "cstring (name @ 0 # ys) = name" using cstring_plain [OF n(1), of "0 # ys"] by simp
    have ol: "schar (namlen (name @ 0 # ys) NM_MAXLEN) = (if length name < 127 then int (length name) + 1 else int (length name) - 255)"
      using n(2) schar_ok [of "int (length name) + 1"] by (simp add: namlen_ok c)
    have rl: "namlen (nreplace e) NM_MAXLEN - 1 = int (length ?r)" using r by (simp add: namlen_ok)
    have tr: "take (length ?r) (nreplace e @ replicate k 0) = ?r" for k
      using takeWhile_eq_take [of "\<lambda>c. c \<noteq> 0" "nreplace e"] length_takeWhile_le [of "\<lambda>c. c \<noteq> 0" "nreplace e"] by (simp add: cstring_def)
    have P: "place (length ?r) (nreplace e) 0 buf = ?r @ drop (length ?r) buf" using r b tr by (simp add: place_ok del: take_append)
    have v: "first_prefix name (List.map entry_view (e # es)) = Some (?p, ?r, ndevice e)"
      using True by (simp add: first_prefix_def entry_view_def)
    have match: "prefix_scan (nprefix e) (name @ 0 # ys) 0 = Some (length ?p, drop (length ?p) name @ 0 # ys)" using S True by simp
    show ?thesis
    proof (cases "length name < 127")
      case True
      let ?n = "length name + 1 - length ?p"
      have "place ?n (drop (length ?p) name @ 0 # ys) (length ?r) (?r @ drop (length ?r) buf) =
          ?r @ (drop (length ?p) name @ [0]) @ drop (length ?r + ?n) buf"
        using True r b p by (subst place_ok) (simp_all add: add.commute)
      moreover have "nat (int (length name) + 1 - int (length ?p)) = ?n" "\<not> int (length ?r) + (int (length name) + 1 - int (length ?p)) > 256"
        using True r p by linarith+
      ultimately have "namrepl_loop (e # es) (name @ 0 # ys) buf = (ndevice e, ?r @ (drop (length ?p) name @ [0]) @ drop (length ?r + ?n) buf)"
        using match True ol rl P unfolding namrepl_loop.simps match option.case prod.case Let_def ol rl by simp
      moreover have "length ?r + ?n = length (?r @ drop (length ?p) name @ [0])" using p by simp
      ultimately show ?thesis using v True by (simp add: new_name_def Let_def)
    next
      case False
      have "nat (int (length name) - 255 - int (length ?p)) = 0" "\<not> int (length ?r) + (int (length name) - 255 - int (length ?p)) > 256"
        using False r n(2) by linarith+
      then have "namrepl_loop (e # es) (name @ 0 # ys) buf = (ndevice e, ?r @ drop (length ?r) buf)"
        using False P unfolding namrepl_loop.simps match option.case prod.case Let_def ol rl by simp
      then show ?thesis using v False by (simp add: new_name_def)
    qed
  qed
qed

lemma length_new_name: "length buf = NM_MAXLEN \<Longrightarrow> length p \<le> length name \<Longrightarrow> length r < NM_REPLLEN \<Longrightarrow> length (new_name p r name buf) = NM_MAXLEN"
  by (simp add: new_name_def Let_def)

lemma nammap_loop_ok:
  assumes "\<And>buf. length buf = NM_MAXLEN \<Longrightarrow> namrepl nam buf t = (case m of None \<Rightarrow> (SYSERR, buf) | Some (p, r, d) \<Rightarrow> (d, f p r buf))"
    "\<And>p r d buf. m = Some (p, r, d) \<Longrightarrow> length buf = NM_MAXLEN \<Longrightarrow> length (f p r buf) = NM_MAXLEN"
    "length buf = NM_MAXLEN" "namdev \<noteq> SYSERR"
  shows "fst (nammap_loop n nam buf namdev t) = (if n = 0 then SYSERR else case m of None \<Rightarrow> SYSERR | Some (p, r, d) \<Rightarrow> if d = namdev then SYSERR else d) \<and>
    (\<forall>p r d. n \<noteq> 0 \<and> m = Some (p, r, d) \<and> d \<noteq> namdev \<longrightarrow> snd (nammap_loop n nam buf namdev t) = f p r buf)"
  using assms(3)
proof (induction n arbitrary: buf)
  case (Suc n)
  show ?case
  proof (cases m)
    case None
    then show ?thesis using assms(1) [OF Suc.prems] assms(4) by simp
  next
    case (Some a)
    then obtain p r d where m: "m = Some (p, r, d)" by (cases a) auto
    show ?thesis using assms(1) [OF Suc.prems] m Suc.IH [OF assms(2) [OF m Suc.prems]] by (cases "n = 0") auto
  qed
qed simp

lemma cstring_shorter: "0 \<in> set xs \<Longrightarrow> length (cstring xs) < length xs"
  by (induction xs) auto

lemma first_prefix_in: "first_prefix name ns = Some (p, r, d) \<Longrightarrow> (p, r, d) \<in> set ns \<and> take (length p) name = p"
  by (auto simp: first_prefix_def find_Some_iff in_set_conv_nth)

lemma view_no_zero: "(p, r, d) \<in> set (view t) \<Longrightarrow> 0 \<notin> set r"
  by (auto simp: view_def entry_view_def)

lemma nammap_ok:
  assumes t: "nam_ok t" and n: "0 \<notin> set name" "length name < NM_MAXLEN" and b: "length tmp = NM_MAXLEN" "length buf = NM_MAXLEN"
    and d: "namdev \<noteq> SYSERR"
  shows "fst (nammap tmp name buf namdev t) = (case first_prefix name (view t) of None \<Rightarrow> SYSERR | Some (p, r, d) \<Rightarrow> if d = namdev then SYSERR else d) \<and>
    (\<forall>p r d. first_prefix name (view t) = Some (p, r, d) \<and> d \<noteq> namdev \<longrightarrow> snd (nammap tmp name buf namdev t) = new_name p r name buf)"
proof -
  let ?es = "take (nnames t) (nametab t)"
  have es: "\<forall>e \<in> set ?es. 0 \<in> set (nprefix e) \<and> 0 \<in> set (nreplace e) \<and> length (nreplace e) = NM_REPLLEN"
    using t set_take_subset [of "nnames t" "nametab t"] by (auto simp: nam_ok_def)
  have c: "namcpy tmp name NM_MAXLEN = (OK, name @ 0 # drop (length name + 1) tmp)"
    using namcpy_ok [OF n(1), of 0 NM_MAXLEN tmp] n(2) b(1) by (simp add: namcpy_def)
  have len: "length (new_name p r name buf') = NM_MAXLEN" if "first_prefix name (view t) = Some (p, r, d)" "length buf' = NM_MAXLEN" for p r d buf'
  proof -
    have m: "(p, r, d) \<in> set (view t) \<and> take (length p) name = p" using first_prefix_in [OF that(1)] .
    then obtain e where "e \<in> set ?es" "r = cstring (nreplace e)" by (auto simp: view_def entry_view_def)
    then have "length r < NM_REPLLEN" using es cstring_shorter [of "nreplace e"] by auto
    moreover have "length p \<le> length name" using m by (metis length_take min.absorb_iff1 min.commute)
    ultimately show ?thesis using length_new_name [OF that(2)] by simp
  qed
  note L = nammap_loop_ok [of "name @ 0 # drop (length name + 1) tmp" t "\<lambda>p r. new_name p r name" "first_prefix name (view t)" buf namdev "nnames t",
      OF _ len b(2) d]
  have "first_prefix name (view t) = None" if "nnames t = 0" using that by (simp add: view_def first_prefix_def)
  moreover have "nammap tmp name buf namdev t = nammap_loop (nnames t) (name @ 0 # drop (length name + 1) tmp) buf namdev t"
    using c by (simp add: nammap_def)
  ultimately show ?thesis using L namrepl_loop_ok [OF es n] by (auto simp: namrepl_def view_def)
qed

lemma nammap_spec:
  assumes "nam_ok t" "0 \<notin> set name" "length name < NM_MAXLEN" "length tmp = NM_MAXLEN" "length buf = NM_MAXLEN" "namdev \<noteq> SYSERR"
  shows "let (dev, new) = nammap tmp name buf namdev t in
      case first_prefix name (view t) of
        None \<Rightarrow> dev = SYSERR
      | Some (p, r, d) \<Rightarrow>
          if d = namdev then dev = SYSERR
          else dev = d \<and> (if length name < 127 then cstring new = r @ drop (length p) name \<and> 0 \<in> set new else new = r @ drop (length r) buf)"
proof -
  have c: "cstring (r @ drop (length p) name @ 0 # ys) = r @ drop (length p) name" if "first_prefix name (view t) = Some (p, r, d)" for p r d ys
  proof -
    have "0 \<notin> set (r @ drop (length p) name)" using view_no_zero first_prefix_in [OF that] assms(2) by (auto dest: in_set_dropD)
    from cstring_plain [OF this, of "0 # ys"] show ?thesis by simp
  qed
  show ?thesis using nammap_ok [OF assms] c by (cases "nammap tmp name buf namdev t") (auto simp: new_name_def Let_def split: option.splits)
qed

subsection \<open>Properties\<close>

text \<open>C37.  \<open>nammap\<close> on any table: the name is mapped by the first prefix in the table that it starts
  with, to that prefix's device and the replacement followed by the rest of the name.  It fails when no
  prefix matches, and also when the device is the name space itself: the code that should map the name
  again maps the same one.  A name of 127 bytes or more loses the rest and the null byte at its end.
  \<open>naminit\<close> fills the table with the devices, \<open>/local/\<close>, \<open>~/\<close> and the empty prefix; the prefixes with an
  invalid device, \<open>/dev/\<close> among them, are refused by \<open>mount\<close>.\<close>

theorem nammap_takes_first_prefix:
  assumes "nam_ok t" "0 \<notin> set name" "length name < NM_MAXLEN" "length tmp = NM_MAXLEN" "length buf = NM_MAXLEN" "namdev \<noteq> SYSERR"
  shows "(let (dev, new) = nammap tmp name buf namdev t in
      case first_prefix name (view t) of
        None \<Rightarrow> dev = SYSERR
      | Some (p, r, d) \<Rightarrow>
          if d = namdev then dev = SYSERR
          else dev = d \<and> (if length name < 127 then cstring new = r @ drop (length p) name \<and> 0 \<in> set new else new = r @ drop (length r) buf)) \<and>
    fst (naminit t) = OK \<and> nam_ok (snd (naminit t)) \<and> view (snd (naminit t)) = start_names"
proof -
  have "nam_ok (t\<lparr>nnames := 0\<rparr>)" using assms(1) by (simp add: nam_ok_def)
  then show ?thesis using naminit_names nammap_spec [OF assms] by blast
qed

theorem nammap_takes_first_prefix_witness:
  "\<exists>t new. snd (naminit no_names) = t \<and> nammap (replicate 256 0) (chars ''~/f'') (replicate 256 7) NAMESPACE t = (LFILESYS, new) \<and> cstring new = chars ''f'' \<and>
    fst (nammap (replicate 256 0) (chars ''/dev/namespace'') (replicate 256 7) NAMESPACE t) = SYSERR"
proof -
  let ?t = "snd (naminit no_names)"
  have z: "nam_ok (no_names\<lparr>nnames := 0\<rparr>)" by (simp add: nam_ok_def no_names_def)
  note T = naminit_names [OF z]
  have f: "first_prefix (chars ''~/f'') start_names = Some (chars ''~/'', [], 8)"
    "first_prefix (chars ''/dev/namespace'') start_names = Some (chars ''/dev/namespace'', [], 4)"
    by (simp_all add: first_prefix_def start_names_def)
  note P = nammap_takes_first_prefix [OF T(2), of _ "replicate 256 0" "replicate 256 7" NAMESPACE, unfolded T(3)]
  show ?thesis using P [of "chars ''~/f''"] P [of "chars ''/dev/namespace''"] unfolding f
    by (cases "nammap (replicate 256 0) (chars ''~/f'') (replicate 256 7) NAMESPACE ?t") (auto simp: Let_def split_beta)
qed

subsection \<open>Files by their names\<close>

lemma namcpy_null: "0 \<notin> set name \<Longrightarrow> namcpy_loop n k (name @ 0 # ys) tmp = namcpy_loop n k name tmp"
proof (induction n arbitrary: k name tmp)
  case (Suc n)
  then show ?case by (cases name) auto
qed simp

lemma nammap_null: "0 \<notin> set name \<Longrightarrow> nammap tmp (name @ 0 # ys) buf namdev t = nammap tmp name buf namdev t"
  by (simp add: nammap_def namcpy_def namcpy_null)

lemma open_by_path:
  assumes "nam_ok (names w)" "view (names w) = start_names" "length (fst (bufs w)) = NM_MAXLEN" "length (snd (bufs w)) = NM_MAXLEN"
    and "0 \<notin> set path" "length path < 127" "first_prefix path start_names = Some (p, [], LFILESYS)"
  shows "open_dev (sys_drivers other) NAMESPACE (path @ [0]) mode w = on_files plain (lfsopen (drop (length p) path) mode) w"
proof -
  have l: "length path < NM_MAXLEN" using assms(6) by simp
  obtain dev new where n: "nammap (fst (bufs w)) path (snd (bufs w)) NAMESPACE (names w) = (dev, new)" by fastforce
  have "dev = LFILESYS" "cstring new = drop (length p) path" "0 \<in> set new"
    using nammap_spec [OF assms(1,5) l assms(3,4), of NAMESPACE] assms(2,6,7) n by simp_all
  then show ?thesis using n nammap_null [OF assms(5), of _ "[]"]
    by (simp add: open_dev_def isbaddev_def devtab_def sys_drivers_def namopen_def file_drivers_def cstring_def)
qed

lemma on_files_Some: "a (files w) = Some (Ret x, u) \<Longrightarrow> on_files f a w = Some (Ret (f x), w\<lparr>files := u\<rparr>)"
  by (simp add: on_files_def)

text \<open>What the calls on the first local file device do.\<close>

lemma lfile0: "devtab ! 9 = lfl_entry 0 ''LFILE0''"
  by (simp add: devtab_def)

lemma lfile0_calls:
  "write_dev (sys_drivers other) LFILE0 bs cnt w = on_files plain (lflwrite 0 bs cnt) w"
  "seek_dev (sys_drivers other) LFILE0 pos w = on_files plain (lflseek 0 pos) w"
  "read_dev (sys_drivers other) LFILE0 cnt w = on_files (\<lambda>rb. rb) (lflread 0 cnt) w"
  by (simp_all add: write_dev_def seek_dev_def read_dev_def isbaddev_def lfile0 lfl_entry_def sys_drivers_def file_drivers_def)

text \<open>C6.  From a path to the bytes of a file, through the device switch: on a newly made file system,
  with the names \<open>naminit\<close> sets up, \<open>open\<close> of the name space on a path that one of the local prefixes
  matches gives the first local file device, and \<open>write\<close>, \<open>seek\<close> and \<open>read\<close> on it give the bytes back;
  whatever the other devices do.\<close>

theorem file_by_path_reads_back:
  assumes d: "disk_args lfiblks dsiz n s" and c: "all_closed (files w)" "\<not> lf_dirpresent (files w)" "device_idle 0 (files w)" "lfdev (lfltab (files w) 0) = LFILE0"
    and t: "nam_ok (names w)" "view (names w) = start_names" "length (fst (bufs w)) = NM_MAXLEN" "length (snd (bufs w)) = NM_MAXLEN"
    and p: "0 \<notin> set path" "length path < 127" "first_prefix path start_names = Some (p, [], LFILESYS)" "length (drop (length p) path) < LF_NAME_LEN"
    and m: "lfgetmode mode \<noteq> SYSERR" "and (lfgetmode mode) LF_MODE_O = 0"
    and b: "bs \<noteq> []" "length bs \<le> 512 * nat (s - n - 1)" "length bs \<le> 57344 * nat n"
  shows "\<exists>f w1 w2 w3 w4. lfscreate lfiblks dsiz (files w) = Some (OK, f) \<and>
    open_dev (sys_drivers other) NAMESPACE (path @ [0]) mode (w\<lparr>files := f\<rparr>) = Some (Ret (LFILE0, []), w1) \<and>
    write_dev (sys_drivers other) LFILE0 bs (int (length bs)) w1 = Some (Ret (int (length bs), []), w2) \<and>
    seek_dev (sys_drivers other) LFILE0 0 w2 = Some (Ret (OK, []), w3) \<and>
    read_dev (sys_drivers other) LFILE0 (int (length bs)) w3 = Some (Ret (int (length bs), bs), w4)"
proof -
  note A = disk_args_words(1,3) [OF d]
  have s: "s \<le> 200" using d by (simp add: disk_args_def)
  obtain r where r: "lfscreate lfiblks dsiz (files w) = Some (OK, files w\<lparr>ram := r\<rparr>)" "fresh_disk n s r" using lfscreate_ok [OF d] by blast
  let ?f = "files w\<lparr>ram := r\<rparr>" and ?g = "fresh_layout n s 0" and ?name = "drop (length p) path"
  have dv: "find_device Nlfl 0 ?name SYSERR ?f = Some 0" "(0 :: int) \<noteq> SYSERR" using find_device_all_closed [OF c(1)] by simp_all
  have f: "fresh_disk n s (ram ?f)" "\<not> lf_dirpresent ?f" "device_idle 0 ?f" using r(2) c by simp_all
  obtain u where u: "lfsopen ?name mode ?f = Some (Ret LFILE0, u)" "is_file ?g u [] 0 u"
    using first_file [OF f(1) A s f(2) m(2) p(4) m(1) dv f(3)] c(4) by auto
  have e: "enough (0 + length bs) ?g" using enough_fresh [OF A(1) b(2,3)] by simp
  obtain w3 w4 w5 where "writes_file 0 bs u w3" "seeks_file 0 0 w3 w4" "reads_file 0 (length bs) w4 bs w5"
    using lf.written_reads_back [OF u(2) e b(1)] by auto
  moreover have "open_dev (sys_drivers other) NAMESPACE (path @ [0]) mode (w\<lparr>files := ?f\<rparr>) = Some (Ret (LFILE0, []), w\<lparr>files := u\<rparr>)"
    using open_by_path [of "w\<lparr>files := ?f\<rparr>" path p other mode] t p(1-3) on_files_Some [of "lfsopen ?name mode" "w\<lparr>files := ?f\<rparr>"] u(1) by simp
  ultimately show ?thesis using r(1) unfolding lfile0_calls by (simp add: writes_file_def seeks_file_def reads_file_def on_files_def)
qed

definition demo_nsys :: nsys where
  "demo_nsys = \<lparr>names = snd (naminit no_names), bufs = (replicate 256 0, replicate 256 0),
     files = demo_fs\<lparr>lfltab := \<lambda>m. (demo_block m)\<lparr>lfdev := 9 + m\<rparr>\<rparr>\<rparr>"

theorem file_by_path_reads_back_witness:
  "\<exists>f w1 w2 w3 w4. lfscreate 10 20480 (files demo_nsys) = Some (OK, f) \<and>
    open_dev (sys_drivers (\<lambda>_ _ _. ioerr)) NAMESPACE (chars ''/local/x'' @ [0]) ''rw'' (demo_nsys\<lparr>files := f\<rparr>) = Some (Ret (LFILE0, []), w1) \<and>
    write_dev (sys_drivers (\<lambda>_ _ _. ioerr)) LFILE0 [1, 2, 3] 3 w1 = Some (Ret (3, []), w2) \<and>
    seek_dev (sys_drivers (\<lambda>_ _ _. ioerr)) LFILE0 0 w2 = Some (Ret (OK, []), w3) \<and> read_dev (sys_drivers (\<lambda>_ _ _. ioerr)) LFILE0 3 w3 = Some (Ret (3, [1, 2, 3]), w4)"
proof -
  let ?f = "files demo_nsys"
  have z: "nam_ok (no_names\<lparr>nnames := 0\<rparr>)" by (simp add: nam_ok_def no_names_def)
  note T = naminit_names [OF z]
  have n: "nam_ok (names demo_nsys)" "view (names demo_nsys) = start_names" "length (fst (bufs demo_nsys)) = 256" "length (snd (bufs demo_nsys)) = 256"
    using T by (simp_all add: demo_nsys_def)
  have i: "device_idle 0 ?f" by (simp add: device_idle_def sem_idle_def isbadsem_def demo_nsys_def demo_fs_def demo_block_def)
  have c: "all_closed ?f" "\<not> lf_dirpresent ?f" "lfdev (lfltab ?f 0) = 9" by (simp_all add: all_closed_def demo_nsys_def)
  have p: "first_prefix (chars ''/local/x'') start_names = Some (chars ''/local/'', [], 8)" by (simp add: first_prefix_def start_names_def)
  show ?thesis
    using file_by_path_reads_back [OF demo_disk_args c(1,2) i c(3) n _ _ p, of "''rw''" "[1, 2, 3]" "\<lambda>_ _ _. ioerr"] by (simp add: demo_mode)
qed

subsection \<open>Finding a device\<close>

lemma strncmp_zero: "cstr m p xs \<Longrightarrow> cstr m q ys \<Longrightarrow> strncmp m p q n = 0 \<longleftrightarrow> take n (xs @ [0]) = take n (ys @ [0])"
proof (induction n arbitrary: p q xs ys)
  case (Suc n)
  have s: "sint (c :: u8) - sint d \<noteq> 0" if "c \<noteq> d" for c d
  proof -
    have "sint c \<noteq> sint d" using that word_eq_iff_signed by metis
    then show ?thesis by simp
  qed
  show ?case
    using Suc.prems Suc.IH [of "p + 1" "tl xs" "q + 1" "tl ys"] s by (cases xs; cases ys) (auto simp del: right_minus_eq)
qed simp

text \<open>Whatever name other than its own is looked up, \<open>getdev\<close> gives the console.\<close>

lemma getdev_gives_console:
  assumes "0 \<notin> set name" "name \<noteq> chars ''CONSOLE''"
  shows "getdev name = 0"
proof -
  let ?m = "str_mem (name @ 0 # chars ''CONSOLE'' @ [0])"
  have "cstr ?m 0 name" using assms(1) by (simp add: cstr_def str_mem_def nth_append)
  moreover have "cstr ?m (length name + 1) (chars ''CONSOLE'')" by (simp add: str_mem_def nth_append)
  moreover have "take 16 (name @ [0]) \<noteq> take 16 (chars ''CONSOLE'' @ [0])"
  proof
    assume "take 16 (name @ [0]) = take 16 (chars ''CONSOLE'' @ [0])"
    then have "take 16 (name @ [0]) = chars ''CONSOLE'' @ [0]" by simp
    then have "length (take 16 (name @ [0])) = 8" by simp
    then have "take 16 (name @ [0]) = name @ [0]" by simp
    then show False using \<open>take 16 (name @ [0]) = chars ''CONSOLE'' @ [0]\<close> assms(2) by simp
  qed
  ultimately have "strncmp ?m 0 (length name + 1) DEVNAMLEN \<noteq> 0" using strncmp_zero by blast
  then show ?thesis by (simp add: getdev_def devtab_def)
qed

end
