(* ===== verification/DotIp.thy ===== *)
theory DotIp
  imports LibStrings
begin

text \<open>
  Addresses in dotted decimal, \<^verbatim>\<open>net/dot2ip.c\<close>: the code, a reference that splits the string at its
  dots, and their equivalence.  A string is the list of its bytes without the null byte.
\<close>

unbundle bit_operations_syntax

subsection \<open>The code\<close>

text \<open>One segment: its value, the character that ended it and the rest; \<open>nch\<close> characters have been read.\<close>

fun dot_seg :: "nat \<Rightarrow> nat \<Rightarrow> int \<Rightarrow> u8 \<Rightarrow> u8 list \<Rightarrow> (int \<times> u8 \<times> u8 list) option" where
  "dot_seg 0 nch val ch dotted = Some (val, ch, dotted)"
| "dot_seg (Suc n) nch val _ dotted =
     (let ch = hd_or dotted 0; dotted = tl dotted in
      if ch = 0 \<or> ch = 46 then (if nch = 0 then None else Some (val, ch, dotted))
      else if nch \<ge> 3 \<or> ch < 48 \<or> ch > 57 then None
      else dot_seg n (nch + 1) (10 * val + (uint ch - 48)) ch dotted)"

fun dot_segs :: "nat \<Rightarrow> u32 \<Rightarrow> u8 list \<Rightarrow> u32 option" where
  "dot_segs 0 ipaddr dotted = None"
| "dot_segs (Suc n) ipaddr dotted =
     (case dot_seg 4 0 0 0 dotted of
        None \<Rightarrow> None
      | Some (val, ch, dotted) \<Rightarrow>
          if val > 255 then None
          else
            let ipaddr = push_bit 8 ipaddr OR word_of_int val
            in if ch = 0 then Some ipaddr else dot_segs n ipaddr dotted)"

text \<open>\<open>None\<close> is \<open>SYSERR\<close>.\<close>

definition dot2ip :: "u8 list \<Rightarrow> u32 option" where
  "dot2ip dotted = dot_segs 4 0 dotted"

subsection \<open>The reference\<close>

fun split_dots :: "u8 list \<Rightarrow> u8 list list" where
  "split_dots [] = [[]]"
| "split_dots (c # s) = (if c = 46 then [] # split_dots s else (c # hd (split_dots s)) # tl (split_dots s))"

definition seg_value :: "u8 list \<Rightarrow> int" where
  "seg_value w = foldl (\<lambda>v c. 10 * v + (uint c - 48)) 0 w"

definition seg_ok :: "u8 list \<Rightarrow> bool" where
  "seg_ok w \<longleftrightarrow> w \<noteq> [] \<and> length w \<le> 3 \<and> (\<forall>c \<in> set w. 48 \<le> c \<and> c \<le> 57) \<and> seg_value w \<le> 255"

definition address :: "u8 list list \<Rightarrow> u32" where
  "address ws = foldl (\<lambda>a w. 256 * a + word_of_int (seg_value w)) 0 ws"

subsection \<open>Equivalence\<close>

lemma split_parts: "split_dots s = takeWhile (\<lambda>c. c \<noteq> 46) s # (case dropWhile (\<lambda>c. c \<noteq> 46) s of [] \<Rightarrow> [] | _ # r \<Rightarrow> split_dots r)"
  by (induction s) simp_all

lemma dot_seg_ok:
  "0 \<notin> set s \<Longrightarrow> n + k = 4 \<Longrightarrow>
     dot_seg n k v ch s =
       (let w = takeWhile (\<lambda>c. c \<noteq> 46) s; r = dropWhile (\<lambda>c. c \<noteq> 46) s in
        if n \<noteq> 0 \<and> (k + length w < 1 \<or> k + length w > 3 \<or> \<not> (\<forall>c \<in> set w. 48 \<le> c \<and> c \<le> 57)) then None
        else if n = 0 then Some (v, ch, s)
        else Some (foldl (\<lambda>v c. 10 * v + (uint c - 48)) v w, if r = [] then 0 else 46, tl r))"
proof (induction s arbitrary: n k v ch)
  case Nil
  then show ?case by (cases n) simp_all
next
  case (Cons c s)
  show ?case
  proof (cases n)
    case (Suc n')
    show ?thesis
    proof (cases "c = 46")
      case True
      then show ?thesis using Suc Cons.prems(2) by simp
    next
      case False
      show ?thesis
      proof (cases "k \<ge> 3 \<or> c < 48 \<or> c > 57")
        case True
        then show ?thesis using Suc False Cons.prems by (auto simp: Let_def not_le)
      next
        case ok: False
        then have "n' \<noteq> 0" "n' + (k + 1) = 4" "0 \<notin> set s" "48 \<le> c" "c \<le> 57" "\<not> c < 48" "\<not> 57 < c" "\<not> k \<ge> 3"
          using Suc Cons.prems by (simp_all add: not_less)
        then show ?thesis using Cons.IH [of n' "k + 1" "10 * v + (uint c - 48)" c] Suc False Cons.prems(1)
          by (simp add: Let_def)
      qed
    qed
  qed simp
qed

lemma seg_value_ge:
  assumes "\<forall>c \<in> set w. 48 \<le> c \<and> c \<le> 57"
  shows "0 \<le> seg_value w"
proof -
  have "0 \<le> v \<Longrightarrow> 0 \<le> foldl (\<lambda>v c. 10 * v + (uint c - 48)) v w" for v
    using assms
  proof (induction w arbitrary: v)
    case (Cons c w)
    have "48 \<le> uint c" using Cons.prems(2) by (simp add: word_le_def)
    then show ?case using Cons by simp
  qed simp
  then show ?thesis by (simp add: seg_value_def)
qed

lemma push_or: "0 \<le> v \<Longrightarrow> v \<le> 255 \<Longrightarrow> push_bit 8 a OR word_of_int v = (256 * a + word_of_int v :: u32)"
proof -
  assume v: "0 \<le> v" "v \<le> 255"
  have "push_bit 8 a AND word_of_int v = (0 :: u32)"
  proof (rule bit_word_eqI)
    fix i assume "i < LENGTH(32)"
    have "\<not> bit v i" if "8 \<le> i"
    proof -
      have "v < 2 ^ 8" using v by simp
      also have "(2 :: int) ^ 8 \<le> 2 ^ i" using that by (intro power_increasing) simp_all
      finally show ?thesis using v(1) by (simp add: bit_iff_odd)
    qed
    then show "bit (push_bit 8 a AND word_of_int v :: u32) i = bit (0 :: u32) i" by (auto simp: bit_simps)
  qed
  then have "push_bit 8 a OR word_of_int v = push_bit 8 a + (word_of_int v :: u32)" by (rule disjunctive_add_eq_or [symmetric])
  then show ?thesis by (simp add: push_bit_eq_mult mult.commute)
qed

lemma dot_segs_ok:
  "0 \<notin> set s \<Longrightarrow>
     dot_segs n a s = (if length (split_dots s) \<le> n \<and> (\<forall>w \<in> set (split_dots s). seg_ok w)
       then Some (foldl (\<lambda>a w. 256 * a + word_of_int (seg_value w)) a (split_dots s)) else None)"
proof (induction n arbitrary: a s)
  case 0
  then show ?case by (subst (1 2 3) split_parts) simp
next
  case (Suc n)
  let ?w = "takeWhile (\<lambda>c. c \<noteq> 46) s" and ?r = "dropWhile (\<lambda>c. c \<noteq> 46) s"
  show ?case
  proof (cases "seg_ok ?w")
    case False
    then have "dot_segs (Suc n) a s = None" using dot_seg_ok [OF Suc.prems, of 4 0 0 0]
      by (auto simp: Let_def seg_ok_def seg_value_def)
    then show ?thesis using False by (subst split_parts) simp
  next
    case True
    then have d: "dot_seg 4 0 0 0 s = Some (seg_value ?w, if ?r = [] then 0 else 46, tl ?r)"
      using dot_seg_ok [OF Suc.prems, of 4 0 0 0] by (auto simp: Let_def seg_ok_def seg_value_def)
    have v: "0 \<le> seg_value ?w" "seg_value ?w \<le> 255" using True seg_value_ge by (auto simp: seg_ok_def)
    show ?thesis
    proof (cases ?r)
      case Nil
      then have "split_dots s = [?w]" by (subst split_parts) (simp del: dropWhile_eq_Nil_conv)
      then show ?thesis using d v True push_or [OF v] Nil by simp
    next
      case (Cons c r)
      have "split_dots s = ?w # split_dots r" using Cons by (subst split_parts) simp
      moreover have "0 \<notin> set r" using Suc.prems Cons by (metis list.set_intros(2) set_dropWhileD)
      ultimately show ?thesis using d v True push_or [OF v] Cons Suc.IH by simp
    qed
  qed
qed

text \<open>C40.  \<open>dot2ip\<close> accepts exactly the strings of one to four segments, separated by dots, of one to three
  digits with a value of at most 255, and puts the values together; the code takes fewer than four segments,
  although its comment asks for four.\<close>

theorem dot2ip_reads_segments:
  assumes "0 \<notin> set s"
  shows "dot2ip s = (if length (split_dots s) \<le> 4 \<and> (\<forall>w \<in> set (split_dots s). seg_ok w) then Some (address (split_dots s)) else None)"
  using dot_segs_ok [OF assms] by (simp add: dot2ip_def address_def)

theorem dot2ip_reads_segments_witness:
  "dot2ip [49, 48, 46, 50, 53, 53] = Some 0x0AFF \<and> dot2ip [49, 46, 50, 53, 54] = None"
  using dot2ip_reads_segments [of "[49, 48, 46, 50, 53, 53]"] dot2ip_reads_segments [of "[49, 46, 50, 53, 54]"]
  by (simp add: seg_ok_def seg_value_def address_def)

end
