(* ===== verification/Dates.thy ===== *)
theory Dates
  imports LibPrint Devices
begin

text \<open>
  Dates, \<^verbatim>\<open>system/ascdate.c\<close> and \<^verbatim>\<open>include/date.h\<close>: seconds since 1970 as a day, a time and a day of the
  week, with daylight saving.  The seconds are a natural number below \<open>2 ^ 32\<close>; no product or sum of the
  code leaves its width.
\<close>

abbreviation (input) SECPERDY :: nat where "SECPERDY \<equiv> 86400"
abbreviation (input) SECPERHR :: nat where "SECPERHR \<equiv> 3600"
abbreviation (input) SECPERMN :: nat where "SECPERMN \<equiv> 60"

datatype dst_mode = DATE_DST_OFF | DATE_DST_ON | DATE_DST_AUTO

subsection \<open>The code\<close>

definition isleap :: "nat \<Rightarrow> bool" where
  "isleap x \<longleftrightarrow> x mod 4 = 0"

definition dt_msize :: "nat list" where
  "dt_msize = [31, 28, 31, 30, 31, 30, 31, 31, 30, 31, 30, 31]"

definition dt_mnam :: "u8 list list" where
  "dt_mnam = List.map chars [''Jan'', ''Feb'', ''Mar'', ''Apr'', ''May'', ''Jun'', ''Jul'', ''Aug'', ''Sep'', ''Oct'', ''Nov'', ''Dec'']"

definition dt_dnam :: "u8 list list" where
  "dt_dnam = List.map chars [''Sun'', ''Mon'', ''Tue'', ''Wed'', ''Thu'', ''Fri'', ''Sat'']"

text \<open>The year, and the seconds that are left.\<close>

function year_loop :: "nat \<Rightarrow> nat \<Rightarrow> nat \<times> nat" where
  "year_loop year now =
     (let tmp = (if isleap year then 366 else 365) * SECPERDY
      in if tmp > now then (year, now) else year_loop (year + 1) (now - tmp))"
  by pat_completeness auto

termination year_loop
  by (relation "measure snd") (auto split: if_splits)

declare year_loop.simps [simp del]

fun month_loop :: "nat list \<Rightarrow> nat \<Rightarrow> nat \<Rightarrow> nat \<Rightarrow> nat \<times> nat" where
  "month_loop [] year month now = (month, now)"
| "month_loop (sz # szs) year month now =
     (let tmp = sz * SECPERDY; tmp = (if month = 1 \<and> isleap year then tmp + SECPERDY else tmp)
      in if tmp > now then (month, now) else month_loop szs year (month + 1) (now - tmp))"

record date =
  dyear :: nat
  dmonth :: nat
  dday :: nat
  dhour :: nat
  dminute :: nat
  dsecond :: nat
  dayofweek :: nat
  jan1 :: nat

definition date_fields :: "nat \<Rightarrow> date" where
  "date_fields now =
     (let (year, now) = year_loop 1970 now;
          days = now div SECPERDY;
          (month, now) = month_loop dt_msize year 0 now;
          day = now div SECPERDY + 1; now = now mod SECPERDY;
          hour = now div SECPERHR; now = now mod SECPERHR;
          minute = now div SECPERMN; second = now mod SECPERMN;
          leapyrs = (year - 1969) div 4;
          shift = 4 + (year - 1970) + leapyrs
      in \<lparr>dyear = year, dmonth = month, dday = day, dhour = hour, dminute = minute, dsecond = second,
          dayofweek = (shift + days) mod 7, jan1 = shift mod 7\<rparr>)"

text \<open>The second Sunday of March and the first one of November, as days of the month.\<close>

definition marss :: "date \<Rightarrow> nat" where
  "marss d = (let mar1 = (jan1 d + dt_msize ! 0 + dt_msize ! 1 + (if isleap (dyear d) then 1 else 0)) mod 7
     in if mar1 = 0 then 8 else 15 - mar1)"

definition novfs :: "date \<Rightarrow> nat" where
  "novfs d =
     (let nov1 = foldl (\<lambda>n i. n + dt_msize ! i) (jan1 d) [0..<10];
          nov1 = (if isleap (dyear d) then nov1 + 1 else nov1) mod 7
      in if nov1 = 0 then 1 else 8 - nov1)"

definition dst_on :: "dst_mode \<Rightarrow> date \<Rightarrow> bool" where
  "dst_on mode d =
     (if mode = DATE_DST_ON then True
      else if mode = DATE_DST_AUTO then
        (let month = dmonth d; day = dday d; hour = dhour d in
         if month = 11 \<or> month = 0 \<or> month = 1 then False
         else if month > 2 \<and> month < 10 then True
         else if month = 2 then day > marss d \<or> (day = marss d \<and> hour \<ge> 2)
         else if month = 10 then \<not> (day > novfs d) \<and> \<not> (day = novfs d \<and> hour \<ge> 1)
         else False)
      else False)"

definition move_hour :: "date \<Rightarrow> date" where
  "move_hour d =
     (let d = d\<lparr>dhour := dhour d + 1\<rparr> in
      if dhour d > 23 then
        (let d = d\<lparr>dhour := 0, dday := dday d + 1\<rparr> in
         if dday d > dt_msize ! dmonth d then d\<lparr>dday := 1, dmonth := dmonth d + 1\<rparr> else d)
      else d)"

text \<open>The text; the zone of this configuration is Eastern time.  \<open>string\<close> is the buffer of the conversions; a
  month beyond December, which is possible when daylight saving is always on, is \<open>None\<close>.\<close>

definition ascdate :: "dst_mode \<Rightarrow> nat \<Rightarrow> u8 list \<Rightarrow> u8 list option" where
  "ascdate mode now string =
     (let d0 = date_fields now; dst = dst_on mode d0; d = (if dst then move_hour d0 else d0)
      in if dmonth d > 11 then None else sprintf (chars ''%3s  %3s %2d  %2d:%02d:%02d %s %d'')
           [AStr (Some (dt_dnam ! dayofweek d)), AStr (Some (dt_mnam ! dmonth d)), AInt (int (dday d)), AInt (int (dhour d)),
            AInt (int (dminute d)), AInt (int (dsecond d)), AStr (Some (chars (if dst then ''EDT'' else ''EST''))), AInt (int (dyear d))] string)"

subsection \<open>The calendar\<close>













lemma length_dt_msize [simp]: "length dt_msize = 12"
  by (simp add: dt_msize_def)









lemma add_month_days: "s div SECPERDY + sum_list xs = (SECPERDY * sum_list xs + s) div SECPERDY" for s :: nat
  by simp




end
