(* ===== verification/Shell.thy ===== *)
theory Shell
  imports Devices
begin

text \<open>
  The command line of the shell: \<^verbatim>\<open>shell/lexan.c\<close> and the part of \<^verbatim>\<open>shell/shell.c\<close> that takes the tokens of a
  line apart.  A pointer into the line is the rest of the line; a null byte stands at the end of a list.
\<close>

abbreviation (input) SHELL_MAXTOK :: nat where "SHELL_MAXTOK \<equiv> 32"
abbreviation (input) SHELL_BUFLEN :: nat where "SHELL_BUFLEN \<equiv> 129"

datatype toktype = SH_TOK_AMPER | SH_TOK_LESS | SH_TOK_GREATER | SH_TOK_OTHER

subsection \<open>Tokens\<close>

text \<open>The arrays \<open>lexan\<close> fills, up to where it has come.\<close>

record lexed =
  tokbuf :: "u8 list"
  tok :: "nat list"
  toktyp :: "toktype list"

definition add_token :: "toktype \<Rightarrow> u8 list \<Rightarrow> lexed \<Rightarrow> lexed" where
  "add_token ty s l = \<lparr>tokbuf = tokbuf l @ s @ [0], tok = tok l @ [length (tokbuf l)], toktyp = toktyp l @ [ty]\<rparr>"

definition is_blank :: "u8 \<Rightarrow> bool" where
  "is_blank c \<longleftrightarrow> c = 32 \<or> c = 9"

text \<open>A quoted string without its quotes, and what follows it; \<open>None\<close> when the closing quote is missing.\<close>

fun quoted :: "u8 \<Rightarrow> u8 list \<Rightarrow> (u8 list \<times> u8 list) option" where
  "quoted q [] = None"
| "quoted q (ch # p) =
     (if ch = q then Some ([], p)
      else if ch = 10 \<or> ch = 0 then None
      else map_option (\<lambda>(s, p). (ch # s, p)) (quoted q p))"

definition ends_word :: "u8 \<Rightarrow> bool" where
  "ends_word ch \<longleftrightarrow> ch = 10 \<or> ch = 0 \<or> ch = 60 \<or> ch = 62 \<or> ch = 32 \<or> ch = 9 \<or> ch = 38 \<or> ch = 39 \<or> ch = 34"

lemma quoted_shorter: "quoted q p = Some (s, p') \<Longrightarrow> length p' < length p"
  by (induction p arbitrary: s) (auto split: if_splits)

function lexan_loop :: "u8 list \<Rightarrow> lexed \<Rightarrow> lexed option" where
  "lexan_loop p l =
     (if hd_or p 0 = 0 \<or> hd_or p 0 = 10 then Some l
      else if length (tok l) \<ge> SHELL_MAXTOK then None
      else
        let p = dropWhile is_blank p; ch = hd_or p 0 in
        if ch = 10 \<or> ch = 0 then Some l
        else if ch = 38 then lexan_loop (tl p) (add_token SH_TOK_AMPER [ch] l)
        else if ch = 60 then lexan_loop (tl p) (add_token SH_TOK_LESS [ch] l)
        else if ch = 62 then lexan_loop (tl p) (add_token SH_TOK_GREATER [ch] l)
        else if ch = 39 \<or> ch = 34 then
          (case quoted ch (tl p) of
             None \<Rightarrow> None
           | Some (s, p) \<Rightarrow> lexan_loop p (add_token SH_TOK_OTHER s l))
        else
          let s = takeWhile (\<lambda>c. \<not> ends_word c) (tl p); p = dropWhile (\<lambda>c. \<not> ends_word c) (tl p); c = hd_or p 0 in
          if c = 39 \<or> c = 34 \<or> c = 60 \<or> c = 62 then None
          else lexan_loop p (add_token SH_TOK_OTHER (ch # s) l))"
  by pat_completeness auto

lemma tl_shorter: "hd_or (dropWhile P p) 0 \<noteq> (0 :: u8) \<Longrightarrow> length (tl (dropWhile P p)) < length p"
  using length_dropWhile_le [of P p] by (cases "dropWhile P p") auto

lemma drop_tl_shorter: "hd_or (dropWhile P p) 0 \<noteq> (0 :: u8) \<Longrightarrow> length (dropWhile Q (tl (dropWhile P p))) < length p"
  using tl_shorter [of P p] length_dropWhile_le [of Q "tl (dropWhile P p)"] by simp

termination lexan_loop
  by (relation "measure (\<lambda>(p, l). length p)")
    (auto simp: tl_shorter drop_tl_shorter simp del: dropWhile_eq_Nil_conv length_tl dest!: quoted_shorter [THEN less_trans, OF _ tl_shorter])

declare lexan_loop.simps [simp del]

definition lexan :: "u8 list \<Rightarrow> lexed option" where
  "lexan line = lexan_loop line \<lparr>tokbuf = [], tok = [], toktyp = []\<rparr>"

subsection \<open>Commands and redirection\<close>

text \<open>The commands with their names and whether they are built in.\<close>

definition cmdtab :: "(u8 list \<times> bool) list" where
  "cmdtab = List.map (\<lambda>(name, builtin). (chars name, builtin))
     [(''argecho'', True), (''arp'', False), (''cat'', False), (''clear'', True), (''date'', False), (''devdump'', False), (''echo'', False),
      (''exit'', True), (''help'', False), (''ipaddr'', False), (''kill'', True), (''memdump'', False), (''memstat'', False), (''ping'', False),
      (''ps'', False), (''sleep'', False), (''udp'', False), (''udpecho'', False), (''udpeserver'', False), (''uptime'', False), (''debug'', False),
      (''?'', False)]"

fun cmd_same :: "u8 list \<Rightarrow> u8 list \<Rightarrow> bool" where
  "cmd_same [] cmp = (hd_or cmp 0 = 0)"
| "cmd_same (c # src) cmp = (hd_or cmp 0 = c \<and> cmd_same src (tl cmp))"

fun find_cmd :: "(u8 list \<times> bool) list \<Rightarrow> u8 list \<Rightarrow> nat \<Rightarrow> nat" where
  "find_cmd [] cmp j = j"
| "find_cmd (cmd # cmds) cmp j = (if cmd_same (fst cmd) cmp then j else find_cmd cmds cmp (j + 1))"

text \<open>What the shell knows of a line: file names are places in the token buffer.\<close>

record cline =
  backgnd :: bool
  inname :: "nat option"
  outname :: "nat option"
  ntok :: nat
  tlen :: nat

definition redirect :: "lexed \<Rightarrow> cline \<Rightarrow> cline option" where
  "redirect l c =
     (let n = ntok c in
      if n \<ge> 3 \<and> (toktyp l ! (n - 2) = SH_TOK_LESS \<or> toktyp l ! (n - 2) = SH_TOK_GREATER) then
        if toktyp l ! (n - 1) \<noteq> SH_TOK_OTHER then None
        else if toktyp l ! (n - 2) = SH_TOK_LESS then
          (if inname c \<noteq> None then None else Some (c\<lparr>inname := Some (tok l ! (n - 1)), ntok := n - 2, tlen := tok l ! (n - 2)\<rparr>))
        else
          (if outname c \<noteq> None then None else Some (c\<lparr>outname := Some (tok l ! (n - 1)), ntok := n - 2, tlen := tok l ! (n - 2)\<rparr>))
      else Some c)"

text \<open>\<open>None\<close> is the message about a syntax error.  The line has at least one token.\<close>

definition parse_line :: "lexed \<Rightarrow> cline option" where
  "parse_line l =
     (let n = length (tok l);
          c = (if toktyp l ! (n - 1) = SH_TOK_AMPER
            then \<lparr>backgnd = True, inname = None, outname = None, ntok = n - 1, tlen = length (tokbuf l) - 2\<rparr>
            else \<lparr>backgnd = False, inname = None, outname = None, ntok = n, tlen = length (tokbuf l)\<rparr>)
      in do {
        c \<leftarrow> redirect l c;
        c \<leftarrow> redirect l c;
        if ntok c = 0 \<or> list_ex (\<lambda>ty. ty \<noteq> SH_TOK_OTHER) (take (ntok c) (toktyp l)) then None else Some c
      })"

subsection \<open>Lines put together from tokens\<close>

datatype item = Word "u8 list" | Quoted u8 "u8 list" | Amper | Less | Greater

fun show_item :: "item \<Rightarrow> u8 list" where
  "show_item (Word s) = s"
| "show_item (Quoted q s) = q # s @ [q]"
| "show_item Amper = [38]"
| "show_item Less = [60]"
| "show_item Greater = [62]"

fun item_ok :: "item \<Rightarrow> bool" where
  "item_ok (Word s) = (s \<noteq> [] \<and> list_all (\<lambda>c. \<not> ends_word c) s)"
| "item_ok (Quoted q s) = ((q = 39 \<or> q = 34) \<and> list_all (\<lambda>c. c \<noteq> q \<and> c \<noteq> 10 \<and> c \<noteq> 0) s)"
| "item_ok _ = True"

fun item_type :: "item \<Rightarrow> toktype" where
  "item_type (Word s) = SH_TOK_OTHER"
| "item_type (Quoted q s) = SH_TOK_OTHER"
| "item_type Amper = SH_TOK_AMPER"
| "item_type Less = SH_TOK_LESS"
| "item_type Greater = SH_TOK_GREATER"

fun item_text :: "item \<Rightarrow> u8 list" where
  "item_text (Word s) = s"
| "item_text (Quoted q s) = s"
| "item_text Amper = [38]"
| "item_text Less = [60]"
| "item_text Greater = [62]"

fun render :: "item list \<Rightarrow> u8 list" where
  "render [] = [10]"
| "render [i] = show_item i @ [10]"
| "render (i # is) = show_item i @ 32 # render is"

lemma quoted_ok: "list_all (\<lambda>c. c \<noteq> q \<and> c \<noteq> 10 \<and> c \<noteq> 0) s \<Longrightarrow> quoted q (s @ q # p) = Some (s, p)"
  by (induction s) simp_all

lemma word_ends:
  assumes "list_all (\<lambda>c. \<not> ends_word c) s" "c = 10 \<or> c = 32"
  shows "takeWhile (\<lambda>c. \<not> ends_word c) (s @ c # p) = s" "dropWhile (\<lambda>c. \<not> ends_word c) (s @ c # p) = c # p"
proof -
  have "\<And>x. x \<in> set s \<Longrightarrow> \<not> ends_word x" "ends_word c" using assms by (auto simp: list_all_iff ends_word_def)
  then show "takeWhile (\<lambda>c. \<not> ends_word c) (s @ c # p) = s" "dropWhile (\<lambda>c. \<not> ends_word c) (s @ c # p) = c # p"
    by (simp_all add: takeWhile_append dropWhile_append)
qed

lemma lexan_item:
  assumes "item_ok i" "length (tok l) < SHELL_MAXTOK" "c = 10 \<or> c = 32"
  shows "lexan_loop (show_item i @ c # p) l = lexan_loop (c # p) (add_token (item_type i) (item_text i) l)"
proof (cases i)
  case (Word s)
  obtain d s' where s: "s = d # s'" "\<not> ends_word d" "list_all (\<lambda>c. \<not> ends_word c) s'" using assms(1) Word by (cases s) auto
  have d: "\<not> is_blank d" "d \<noteq> 10" "d \<noteq> 0" "d \<noteq> 38" "d \<noteq> 60" "d \<noteq> 62" "d \<noteq> 39" "d \<noteq> 34" using s(2) by (auto simp: ends_word_def is_blank_def)
  have c: "c \<noteq> 39" "c \<noteq> 34" "c \<noteq> 60" "c \<noteq> 62" using assms(3) by auto
  have "lexan_loop (d # s' @ c # p) l = lexan_loop (c # p) (add_token SH_TOK_OTHER (d # s') l)"
    using assms(2) by (subst lexan_loop.simps) (simp add: d c word_ends [OF s(3) assms(3), of p])
  then show ?thesis using Word s(1) by simp
next
  case (Quoted q s)
  then have q: "q = 39 \<or> q = 34" "quoted q (s @ q # c # p) = Some (s, c # p)" using assms(1) quoted_ok by auto
  have n: "q \<noteq> 0" "q \<noteq> 10" "\<not> is_blank q" "q \<noteq> 38" "q \<noteq> 60" "q \<noteq> 62" using q(1) by (auto simp: is_blank_def)
  have "lexan_loop (q # s @ q # c # p) l = lexan_loop (c # p) (add_token SH_TOK_OTHER s l)"
    using assms(2) q(1) by (subst lexan_loop.simps) (simp add: n q(2))
  then show ?thesis using Quoted by simp
qed (use assms(2) in \<open>(subst lexan_loop.simps, simp add: Let_def is_blank_def)+\<close>)

lemma show_start: "item_ok i \<Longrightarrow> \<exists>d s. show_item i = d # s \<and> \<not> is_blank d \<and> d \<noteq> 0 \<and> d \<noteq> 10"
proof (cases i)
  case (Word s)
  assume "item_ok i"
  then show ?thesis using Word by (cases s) (auto simp: ends_word_def is_blank_def)
qed (auto simp: is_blank_def)

lemma lexan_blank:
  assumes "item_ok i"
  shows "lexan_loop (32 # show_item i @ p) l = lexan_loop (show_item i @ p) l"
proof -
  obtain d s where "show_item i = d # s" "\<not> is_blank d" "d \<noteq> 0" "d \<noteq> 10" using show_start [OF assms] by blast
  then show ?thesis using lexan_loop.simps [of "32 # d # s @ p" l] lexan_loop.simps [of "d # s @ p" l]
    by (simp add: is_blank_def cong: if_cong option.case_cong)
qed

definition add_items :: "item list \<Rightarrow> lexed \<Rightarrow> lexed" where
  "add_items its l = foldl (\<lambda>l i. add_token (item_type i) (item_text i) l) l its"

lemma length_add_token [simp]: "length (tok (add_token ty s l)) = length (tok l) + 1"
  by (simp add: add_token_def)

lemma lexan_full: "item_ok i \<Longrightarrow> length (tok l) \<ge> SHELL_MAXTOK \<Longrightarrow> lexan_loop (show_item i @ p) l = None"
  using show_start [of i] by (subst lexan_loop.simps) auto

lemma lexan_render:
  "list_all item_ok its \<Longrightarrow> its \<noteq> [] \<Longrightarrow> length (tok l) \<le> SHELL_MAXTOK \<Longrightarrow>
     lexan_loop (render its) l = (if length (tok l) + length its \<le> SHELL_MAXTOK then Some (add_items its l) else None)"
proof (induction its arbitrary: l rule: render.induct)
  case (2 i)
  then show ?case using lexan_item [of i l 10 "[]"] lexan_full [of i l "[10]"] by (cases "length (tok l) < SHELL_MAXTOK") (auto simp: add_items_def lexan_loop.simps [of "[10]"])
next
  case (3 i j js)
  show ?case
  proof (cases "length (tok l) < SHELL_MAXTOK")
    case False
    then show ?thesis using lexan_full [of i l] 3 by simp
  next
    case True
    have j: "item_ok j" "\<exists>q. render (j # js) = show_item j @ q" using 3(2) by (simp, cases js, auto)
    have "lexan_loop (render (i # j # js)) l = lexan_loop (render (j # js)) (add_token (item_type i) (item_text i) l)"
      using lexan_item [of i l 32 "render (j # js)"] lexan_blank [OF j(1)] j(2) 3(2) True by auto
    then show ?thesis using 3(1) [of "add_token (item_type i) (item_text i) l"] 3(2) True by (simp add: add_items_def)
  qed
qed simp

lemma cmd_same_string:
  assumes "0 \<notin> set src" "0 \<notin> set s"
  shows "cmd_same src (s @ 0 # p) = (src = s)"
  using assms
proof (induction src arbitrary: s)
  case Nil
  then show ?case by (cases s) auto
next
  case (Cons c src)
  then show ?case by (cases s) auto
qed

subsection \<open>Taking the tokens of such a line apart\<close>

definition no_tokens :: lexed where
  "no_tokens = \<lparr>tokbuf = [], tok = [], toktyp = []\<rparr>"

definition texts :: "item list \<Rightarrow> u8 list" where
  "texts its = concat (List.map (\<lambda>i. item_text i @ [0]) its)"

definition token_at :: "lexed \<Rightarrow> nat \<Rightarrow> u8 list" where
  "token_at l j = takeWhile (\<lambda>c. c \<noteq> 0) (drop j (tokbuf l))"

lemma add_items_snoc: "add_items (its @ [i]) l = add_token (item_type i) (item_text i) (add_items its l)"
  by (simp add: add_items_def)

lemma add_items_tokens:
  "tokbuf (add_items its no_tokens) = texts its \<and> toktyp (add_items its no_tokens) = List.map item_type its \<and>
   tok (add_items its no_tokens) = List.map (\<lambda>j. length (texts (take j its))) [0..<length its]"
proof (induction its rule: rev_induct)
  case Nil
  then show ?case by (simp add: add_items_def no_tokens_def texts_def)
next
  case (snoc i its)
  then show ?case by (simp add: add_items_snoc add_token_def texts_def)
qed

lemma text_no_null: "item_ok i \<Longrightarrow> c \<in> set (item_text i) \<Longrightarrow> c \<noteq> 0"
  by (cases i) (auto simp: list_all_iff ends_word_def)

lemma token_at_item:
  assumes "list_all item_ok its" "j < length its"
  shows "token_at (add_items its no_tokens) (length (texts (take j its))) = item_text (its ! j)"
proof -
  have "texts its = texts (take j its @ its ! j # drop (Suc j) its)"
    by (rule arg_cong [OF id_take_nth_drop [OF assms(2)]])
  then have "texts its = texts (take j its) @ texts (its ! j # drop (Suc j) its)" by (simp add: texts_def)
  then have "drop (length (texts (take j its))) (tokbuf (add_items its no_tokens)) = texts (its ! j # drop (Suc j) its)"
    by (simp add: add_items_tokens)
  then have d: "drop (length (texts (take j its))) (tokbuf (add_items its no_tokens)) = item_text (its ! j) @ 0 # texts (drop (Suc j) its)"
    by (simp add: texts_def)
  have "item_ok (its ! j)" using assms by (simp add: list_all_length)
  then show ?thesis unfolding token_at_def d using text_no_null [of "its ! j"] by (simp add: takeWhile_append)
qed

lemma lexan_items:
  assumes "list_all item_ok its" "its \<noteq> []" "length its \<le> SHELL_MAXTOK"
  shows "lexan (render its) = Some (add_items its no_tokens)"
  using lexan_render [of its no_tokens] assms by (simp add: lexan_def no_tokens_def)

lemma redirect_none: "\<forall>i<ntok c. toktyp l ! i = SH_TOK_OTHER \<Longrightarrow> redirect l c = Some c"
  by (auto simp: redirect_def Let_def)

lemma redirect_some:
  assumes "ntok c = m + 2" "1 \<le> m" "toktyp l ! m = (if to_out then SH_TOK_GREATER else SH_TOK_LESS)"
    "toktyp l ! (m + 1) = SH_TOK_OTHER" "(if to_out then outname c else inname c) = None"
  shows "redirect l c = Some (if to_out then c\<lparr>outname := Some (tok l ! (m + 1)), ntok := m, tlen := tok l ! m\<rparr>
     else c\<lparr>inname := Some (tok l ! (m + 1)), ntok := m, tlen := tok l ! m\<rparr>)"
  using assms by (cases to_out) (simp_all add: redirect_def)

text \<open>Redirections, the flag says whether it is one of the output.\<close>

definition redirs :: "(bool \<times> item) list \<Rightarrow> item list" where
  "redirs rs = concat (List.map (\<lambda>(to_out, w). [if to_out then Greater else Less, w]) rs)"

definition line_start :: "lexed \<Rightarrow> bool \<Rightarrow> cline" where
  "line_start l bg = \<lparr>backgnd = bg, inname = None, outname = None, ntok = length (tok l) - (if bg then 1 else 0),
     tlen = length (tokbuf l) - (if bg then 2 else 0)\<rparr>"

lemma line_start_fields [simp]:
  "backgnd (line_start l bg) = bg" "inname (line_start l bg) = None" "outname (line_start l bg) = None"
  by (simp_all add: line_start_def)

lemma parse_line_amper:
  "parse_line l = do {
     c \<leftarrow> redirect l (line_start l (toktyp l ! (length (tok l) - 1) = SH_TOK_AMPER));
     c \<leftarrow> redirect l c;
     if ntok c = 0 \<or> list_ex (\<lambda>ty. ty \<noteq> SH_TOK_OTHER) (take (ntok c) (toktyp l)) then None else Some c }"
  by (simp add: parse_line_def line_start_def Let_def)

lemma words_only:
  assumes "list_all (\<lambda>w. item_type w = SH_TOK_OTHER) ws"
  shows "\<not> list_ex (\<lambda>ty. ty \<noteq> SH_TOK_OTHER) (List.map item_type ws)"
  using assms by (simp add: list_all_iff list_ex_iff)

lemma redirs_ok: "list_all item_ok (List.map snd rs) \<Longrightarrow> list_all item_ok (redirs rs)"
  by (induction rs) (auto simp: redirs_def)

lemma last_amper:
  assumes "list_all (\<lambda>w. item_type w = SH_TOK_OTHER) (ws @ List.map snd rs)" "ws \<noteq> []"
  shows "(item_type (last (ws @ redirs rs @ (if bg then [Amper] else []))) = SH_TOK_AMPER) = bg"
proof (cases bg)
  case False
  show ?thesis
  proof (cases rs rule: rev_cases)
    case Nil
    then show ?thesis using False assms by (auto simp: redirs_def list_all_iff)
  next
    case (snoc qs r)
    then show ?thesis using False assms by (cases r) (simp add: redirs_def)
  qed
qed simp

text \<open>Where the name after a redirection is.\<close>

definition redir_at :: "nat \<Rightarrow> (bool \<times> item) list \<Rightarrow> bool \<Rightarrow> nat option" where
  "redir_at n rs to_out = map_of (zip (List.map fst rs) [n + 1, n + 3]) to_out"

lemma parse_redirs:
  assumes w: "list_all (\<lambda>w. item_type w = SH_TOK_OTHER) (ws @ List.map snd rs)" "ws \<noteq> []"
    and rs: "length rs \<le> 2" "distinct (List.map fst rs)"
    and its: "its = ws @ redirs rs @ (if bg then [Amper] else [])"
    and l: "toktyp l = List.map item_type its" "length (tok l) = length its"
  defines "n \<equiv> length ws"
  shows "parse_line l = Some \<lparr>backgnd = bg, inname = map_option ((!) (tok l)) (redir_at n rs False),
      outname = map_option ((!) (tok l)) (redir_at n rs True), ntok = n,
      tlen = (if rs = [] then length (tokbuf l) - (if bg then 2 else 0) else tok l ! n)\<rparr>"
proof -
  have ne: "its \<noteq> []" using w(2) its by simp
  then have "toktyp l ! (length (tok l) - 1) = item_type (last its)" by (simp add: l last_conv_nth)
  then have amper: "(toktyp l ! (length (tok l) - 1) = SH_TOK_AMPER) = bg" using last_amper [OF w, of bg] its by simp
  have ws: "toktyp l ! i = SH_TOK_OTHER" if "i < n" for i
    using w(1) that by (auto simp: l its nth_append n_def list_all_iff)
  have none: "redirect l c = Some c" if "ntok c = n" for c using ws that by (intro redirect_none) simp
  have some: "list_ex (\<lambda>ty. ty \<noteq> SH_TOK_OTHER) (take n (toktyp l)) = False"
    using words_only [of ws] w(1) by (simp add: l its n_def)
  have n: "1 \<le> n" using w(2) by (cases ws) (simp_all add: n_def)
  consider "rs = []" | o1 w1 where "rs = [(o1, w1)]" | o1 w1 o2 w2 where "rs = [(o1, w1), (o2, w2)]"
    using rs(1) by (cases rs; cases "tl rs") auto
  then show ?thesis
  proof cases
    case 1
    have "ntok (line_start l bg) = n" using its 1 by (simp add: line_start_def l n_def redirs_def)
    then show ?thesis using n 1 unfolding parse_line_amper amper
      by (simp add: none some) (simp add: line_start_def redir_at_def l its n_def redirs_def)
  next
    case (2 o1 w1)
    have ty: "toktyp l ! n = (if o1 then SH_TOK_GREATER else SH_TOK_LESS)" "toktyp l ! (n + 1) = SH_TOK_OTHER"
      using w(1) 2 by (simp_all add: l its nth_append n_def redirs_def)
    have "ntok (line_start l bg) = n + 2" using its 2 by (simp add: line_start_def l n_def redirs_def)
    note r = redirect_some [OF this n ty]
    show ?thesis using n 2 unfolding parse_line_amper amper
      by (cases o1) (simp_all add: r none some, simp_all add: line_start_def redir_at_def)
  next
    case (3 o1 w1 o2 w2)
    have ty: "toktyp l ! n = (if o1 then SH_TOK_GREATER else SH_TOK_LESS)" "toktyp l ! (n + 1) = SH_TOK_OTHER"
      "toktyp l ! (n + 2) = (if o2 then SH_TOK_GREATER else SH_TOK_LESS)" "toktyp l ! (n + 2 + 1) = SH_TOK_OTHER"
      using w(1) 3 by (simp_all add: l its nth_append n_def redirs_def)
    have "ntok (line_start l bg) = n + 2 + 2" using its 3 by (simp add: line_start_def l n_def redirs_def)
    note r = redirect_some [OF this _ ty(3,4)] redirect_some [OF _ n ty(1,2)]
    show ?thesis using n 3 rs(2) unfolding parse_line_amper amper
      by (cases o1; cases o2) (simp_all add: r none some, simp_all add: line_start_def redir_at_def numeral_3_eq_3)
  qed
qed

lemma redir_texts:
  assumes "rs = [] \<or> (\<exists>o1 w1. rs = [(o1, w1)]) \<or> (\<exists>o1 w1 o2 w2. rs = [(o1, w1), (o2, w2)])"
    and "\<And>j. j < length (ws @ redirs rs @ zs) \<Longrightarrow> f j = item_text ((ws @ redirs rs @ zs) ! j)"
  shows "map_option f (redir_at (length ws) rs b) = map_option item_text (map_of rs b)"
  using assms(1)
proof (elim disjE exE)
  show ?thesis if "rs = []" using that by (simp add: redir_at_def)
next
  fix o1 w1
  assume r: "rs = [(o1, w1)]"
  then have "f (length ws + 1) = item_text w1" using assms(2) [of "length ws + 1"] by (simp add: redirs_def nth_append)
  then show ?thesis using r by (simp add: redir_at_def)
next
  fix o1 w1 o2 w2
  assume r: "rs = [(o1, w1), (o2, w2)]"
  then have "f (length ws + 1) = item_text w1" "f (length ws + 3) = item_text w2"
    using assms(2) [of "length ws + 1"] assms(2) [of "length ws + 3"] by (simp_all add: redirs_def nth_append)
  then show ?thesis using r by (simp add: redir_at_def)
qed

text \<open>C38.  A command line put together from at most 32 tokens, its words first (quoted or not, at least one), then at most one
  redirection of the input and one of the output in either order, then perhaps an ampersand, is read back by
  \<open>lexan\<close> and the shell: the shell counts the words, every argument it hands to the command is the text of its word
  without the quotes, the names of the input and the output are those of the redirections, the command runs in the
  background just when there is an ampersand, and \<open>tlen\<close> is the number of bytes the arguments take in the token buffer.
\<close>

theorem command_line_roundtrip:
  assumes "list_all (\<lambda>w. item_ok w \<and> item_type w = SH_TOK_OTHER) (ws @ List.map snd rs)" "ws \<noteq> []"
    and "length rs \<le> 2" "distinct (List.map fst rs)"
    and "its = ws @ redirs rs @ (if bg then [Amper] else [])" "length its \<le> SHELL_MAXTOK"
  shows "\<exists>l c. lexan (render its) = Some l \<and> parse_line l = Some c \<and>
     List.map (token_at l) (take (ntok c) (tok l)) = List.map item_text ws \<and>
     map_option (token_at l) (inname c) = map_option item_text (map_of rs False) \<and>
     map_option (token_at l) (outname c) = map_option item_text (map_of rs True) \<and>
     backgnd c = bg \<and> tlen c = length (texts ws)"
proof -
  let ?l = "add_items its no_tokens"
  have "list_all item_ok (redirs rs)" using assms(1) by (intro redirs_ok) (auto simp: list_all_iff)
  then have ok: "list_all item_ok its" using assms(1) by (auto simp: assms(5) list_all_iff)
  have ne: "its \<noteq> []" using assms(2,5) by simp
  have tk: "tok ?l = List.map (\<lambda>j. length (texts (take j its))) [0..<length its]" using add_items_tokens by blast
  have at: "token_at ?l (tok ?l ! j) = item_text (its ! j)" if "j < length its" for j
    using token_at_item [OF ok that] that by (simp add: tk)
  have shape: "rs = [] \<or> (\<exists>o1 w1. rs = [(o1, w1)]) \<or> (\<exists>o1 w1 o2 w2. rs = [(o1, w1), (o2, w2)])"
    using assms(3) by (cases rs; cases "tl rs") auto
  have names: "map_option (token_at ?l) (map_option ((!) (tok ?l)) (redir_at (length ws) rs b)) = map_option item_text (map_of rs b)" for b
    using redir_texts [OF shape, of ws "if bg then [Amper] else []" "\<lambda>j. token_at ?l (tok ?l ! j)" b] at
    by (simp add: option.map_comp o_def assms(5))
  have words: "List.map (token_at ?l) (take (length ws) (tok ?l)) = List.map item_text ws"
  proof (rule nth_equalityI)
    have "length (tok ?l) = length its" "length ws \<le> length its" by (simp_all add: tk) (simp add: assms(5))
    then show len: "length (List.map (token_at ?l) (take (length ws) (tok ?l))) = length (List.map item_text ws)" by simp
    show "List.map (token_at ?l) (take (length ws) (tok ?l)) ! j = List.map item_text ws ! j"
      if "j < length (List.map (token_at ?l) (take (length ws) (tok ?l)))" for j
    proof -
      have j: "j < length ws" "j < length (tok ?l)" using that len by simp_all
      then have "its ! j = ws ! j" "j < length its" by (simp_all add: assms(5) nth_append)
      then show ?thesis using at [of j] j by simp
    qed
  qed
  have "length (tokbuf ?l) - (if bg then 2 else 0) = length (texts ws)" if "rs = []"
    using that by (simp add: add_items_tokens assms(5) texts_def redirs_def)
  moreover have "tok ?l ! length ws = length (texts ws)" if "rs \<noteq> []"
  proof -
    have "length ws < length its" using that by (cases rs) (simp_all add: assms(5) redirs_def split_beta)
    moreover have "take (length ws) its = ws" by (simp add: assms(5))
    ultimately show ?thesis by (simp add: tk)
  qed
  ultimately have len: "(if rs = [] then length (tokbuf ?l) - (if bg then 2 else 0) else tok ?l ! length ws) = length (texts ws)" by simp
  have "list_all (\<lambda>w. item_type w = SH_TOK_OTHER) (ws @ List.map snd rs)" using assms(1) by (auto simp: list_all_iff)
  from parse_redirs [OF this assms(2,3,4,5), of ?l] have p: "parse_line ?l = Some \<lparr>backgnd = bg,
      inname = map_option ((!) (tok ?l)) (redir_at (length ws) rs False), outname = map_option ((!) (tok ?l)) (redir_at (length ws) rs True),
      ntok = length ws, tlen = length (texts ws)\<rparr>"
    using len by (simp add: add_items_tokens)
  show ?thesis
    by (intro exI conjI, rule lexan_items [OF ok ne assms(6)], rule p) (use words names in simp_all)
qed

theorem command_line_roundtrip_witness:
  "\<exists>l c. lexan (chars ''echo '' @ 34 # chars ''a <b'' @ 34 # chars '' > out < in &'' @ [10]) = Some l \<and> parse_line l = Some c \<and>
     List.map (token_at l) (take (ntok c) (tok l)) = [chars ''echo'', chars ''a <b''] \<and>
     map_option (token_at l) (inname c) = Some (chars ''in'') \<and> map_option (token_at l) (outname c) = Some (chars ''out'') \<and>
     backgnd c = True \<and> tlen c = 10"
proof -
  let ?its = "[Word (chars ''echo''), Quoted 34 (chars ''a <b''), Greater, Word (chars ''out''), Less, Word (chars ''in''), Amper]"
  have r: "render ?its = chars ''echo '' @ 34 # chars ''a <b'' @ 34 # chars '' > out < in &'' @ [10]" by (simp add: chars_def)
  have t: "length (texts [Word (chars ''echo''), Quoted 34 (chars ''a <b'')]) = 10" by (simp add: texts_def chars_def)
  show ?thesis
    using command_line_roundtrip [of "[Word (chars ''echo''), Quoted 34 (chars ''a <b'')]" "[(True, Word (chars ''out'')), (False, Word (chars ''in''))]" ?its True]
    unfolding r t by (simp add: chars_def ends_word_def redirs_def)
qed

end
